(* ===== verification/Nvmev_Base.thy ===== *)
theory Nvmev_Base
  imports Main "HOL-Library.Monad_Syntax"
begin

text \<open>
  Shared vocabulary of the development.

  \<^item> The failure monad. Kernel code either returns or stops the machine: \<open>BUG_ON\<close>, a
    NULL dereference, an access outside an allocated array, a division by zero. All of these
    are the value \<open>None\<close>; an operation that returns is \<open>Some\<close> of its result.
  \<^item> C integers of fixed width, as naturals and integers with the wrap-around written out.
  \<^item> Array accesses, counted loops and the kernel's intrusive lists.

  The generic lemmas about them are collected in \<open>crash_simps\<close> (rewriting a computation
  that is known to return) and used by every component theory.
\<close>

named_theorems crash_simps \<open>computations of the failure monad that return\<close>

section \<open>The failure monad\<close>

definition NVMEV_ASSERT :: "bool \<Rightarrow> unit option" where
  "NVMEV_ASSERT x = (if x then Some () else None)"

lemma NVMEV_ASSERT_simps [simp, crash_simps]:
  "NVMEV_ASSERT True = Some ()"
  "NVMEV_ASSERT False = None"
  by (simp_all add: NVMEV_ASSERT_def)

lemma NVMEV_ASSERT_True: "b \<Longrightarrow> NVMEV_ASSERT b = Some ()"
  by simp

lemma NVMEV_ASSERT_eq_Some [simp]: "NVMEV_ASSERT b = Some u \<longleftrightarrow> b"
  by (simp add: NVMEV_ASSERT_def)

lemma bind_NVMEV_ASSERT [simp]:
  "Option.bind (NVMEV_ASSERT b) f = (if b then f () else None)"
  by (simp add: NVMEV_ASSERT_def)

lemma bind_eq_SomeD:
  "Option.bind m f = Some y \<Longrightarrow> \<exists>x. m = Some x \<and> f x = Some y"
  by (cases m) auto

lemma bind_SomeI: "m = Some x \<Longrightarrow> f x = r \<Longrightarrow> Option.bind m f = r"
  by simp

section \<open>Fixed-width C integers\<close>

definition u8 :: "nat \<Rightarrow> nat" where "u8 n = n mod 256"
definition u16 :: "nat \<Rightarrow> nat" where "u16 n = n mod 65536"
definition u32 :: "nat \<Rightarrow> nat" where "u32 n = n mod 4294967296"
definition u64 :: "nat \<Rightarrow> nat" where "u64 n = n mod 18446744073709551616"

text \<open>Unsigned subtraction wraps around; operands are values of the type.\<close>

definition u32_sub :: "nat \<Rightarrow> nat \<Rightarrow> nat" where
  "u32_sub a b = u32 (a + 4294967296 - b)"
definition u64_sub :: "nat \<Rightarrow> nat \<Rightarrow> nat" where
  "u64_sub a b = u64 (a + 18446744073709551616 - b)"

text \<open>Conversion to a signed 32-bit integer keeps the low 32 bits (two's complement).\<close>

definition s32 :: "int \<Rightarrow> int" where
  "s32 x = (x + 2147483648) mod 4294967296 - 2147483648"

lemma u8_id: "n < 256 \<Longrightarrow> u8 n = n" by (simp add: u8_def)
lemma u16_id: "n < 65536 \<Longrightarrow> u16 n = n" by (simp add: u16_def)
lemma u32_id: "n < 4294967296 \<Longrightarrow> u32 n = n" by (simp add: u32_def)
lemma u64_id: "n < 18446744073709551616 \<Longrightarrow> u64 n = n" by (simp add: u64_def)

lemma u8_less [simp]: "u8 n < 256" by (simp add: u8_def)
lemma u16_less [simp]: "u16 n < 65536" by (simp add: u16_def)
lemma u32_less [simp]: "u32 n < 4294967296" by (simp add: u32_def)
lemma u64_less [simp]: "u64 n < 18446744073709551616" by (simp add: u64_def)

lemma u64_le: "u64 n \<le> n" by (simp add: u64_def)
lemma u32_le: "u32 n \<le> n" by (simp add: u32_def)

lemma u32_sub_id:
  "b \<le> a \<Longrightarrow> a < 4294967296 \<Longrightarrow> u32_sub a b = a - b"
proof -
  assume h: "b \<le> a" "a < 4294967296"
  then have e: "a + 4294967296 - b = (a - b) + 4294967296" by simp
  show ?thesis
    unfolding u32_sub_def u32_def e mod_add_self2 using h by (intro mod_less) simp
qed

lemma u64_sub_id:
  "b \<le> a \<Longrightarrow> a < 18446744073709551616 \<Longrightarrow> u64_sub a b = a - b"
proof -
  assume h: "b \<le> a" "a < 18446744073709551616"
  then have e: "a + 18446744073709551616 - b = (a - b) + 18446744073709551616" by simp
  show ?thesis
    unfolding u64_sub_def u64_def e mod_add_self2 using h by (intro mod_less) simp
qed

lemma s32_id: "- 2147483648 \<le> x \<Longrightarrow> x < 2147483648 \<Longrightarrow> s32 x = x"
  by (simp add: s32_def)

lemmas width_defs = u8_def u16_def u32_def u64_def u32_sub_def u64_sub_def s32_def

definition DIV_ROUND_UP :: "nat \<Rightarrow> nat \<Rightarrow> nat" where
  "DIV_ROUND_UP n d = (n + d - 1) div d"

lemma DIV_ROUND_UP_bounds:
  assumes "0 < d"
  shows "n \<le> d * DIV_ROUND_UP n d" and "d * DIV_ROUND_UP n d < n + d"
proof -
  let ?q = "(n + d - 1) div d"
  have eq: "d * ?q + (n + d - 1) mod d = n + d - 1"
    by simp
  have "(n + d - 1) mod d < d" using assms by simp
  then show "n \<le> d * DIV_ROUND_UP n d" and "d * DIV_ROUND_UP n d < n + d"
    using eq assms unfolding DIV_ROUND_UP_def by linarith+
qed

definition KB :: "nat \<Rightarrow> nat" where "KB k = k * 1024"
definition MB :: "nat \<Rightarrow> nat" where "MB m = m * 1048576"
definition GB :: "nat \<Rightarrow> nat" where "GB g = g * 1073741824"
definition NS_PER_SEC :: "nat \<Rightarrow> nat" where "NS_PER_SEC s = s * 1000 * 1000 * 1000"
definition PAGE_SIZE :: nat where "PAGE_SIZE = 4096"

lemmas size_macros = KB_def MB_def GB_def NS_PER_SEC_def PAGE_SIZE_def

section \<open>Arrays\<close>

definition rd :: "'a list \<Rightarrow> nat \<Rightarrow> 'a option" where
  "rd xs i = (if i < length xs then Some (xs ! i) else None)"

definition wr :: "'a list \<Rightarrow> nat \<Rightarrow> 'a \<Rightarrow> 'a list option" where
  "wr xs i v = (if i < length xs then Some (xs[i := v]) else None)"

lemma rd_in [simp, crash_simps]: "i < length xs \<Longrightarrow> rd xs i = Some (xs ! i)"
  by (simp add: rd_def)

lemma rd_out: "\<not> i < length xs \<Longrightarrow> rd xs i = None"
  by (simp add: rd_def)

lemma wr_in [simp, crash_simps]: "i < length xs \<Longrightarrow> wr xs i v = Some (xs[i := v])"
  by (simp add: wr_def)

lemma rd_eq_Some [simp]: "rd xs i = Some v \<longleftrightarrow> i < length xs \<and> xs ! i = v"
  by (auto simp: rd_def)

lemma wr_eq_Some [simp]: "wr xs i v = Some ys \<longleftrightarrow> i < length xs \<and> ys = xs[i := v]"
  by (auto simp: wr_def)

section \<open>Counted loops\<close>

text \<open>
  \<open>foldM f xs s\<close> runs the loop body \<open>f\<close> once per element of \<open>xs\<close>; the C loop
  \<open>for (i = 0; i < n; i++)\<close> is \<open>foldM f [0..<n]\<close>.
\<close>

fun foldM :: "('a \<Rightarrow> 's \<Rightarrow> 's option) \<Rightarrow> 'a list \<Rightarrow> 's \<Rightarrow> 's option" where
  "foldM f [] s = Some s"
| "foldM f (x # xs) s = Option.bind (f x s) (foldM f xs)"

lemma foldM_append [simp]:
  "foldM f (xs @ ys) s = Option.bind (foldM f xs s) (foldM f ys)"
  by (induction xs arbitrary: s) (auto split: Option.bind_splits)

lemma foldM_cong:
  "(\<And>x s. x \<in> set xs \<Longrightarrow> f x s = g x s) \<Longrightarrow> foldM f xs s = foldM g xs s"
proof (induction xs arbitrary: s)
  case (Cons x xs)
  then show ?case by (cases "g x s") auto
qed simp

text \<open>
  A loop whose body always returns from a state satisfying the invariant returns, and the
  invariant holds at the end; the invariant may mention the elements already done.
\<close>

lemma foldM_total:
  assumes "P [] s"
    and "\<And>ys x zs s'. xs = ys @ x # zs \<Longrightarrow> P ys s' \<Longrightarrow> \<exists>s''. f x s' = Some s'' \<and> P (ys @ [x]) s''"
  shows "\<exists>s'. foldM f xs s = Some s' \<and> P xs s'"
proof -
  have "\<exists>s'. foldM f zs t = Some s' \<and> P (ys @ zs) s'"
    if "P ys t" and "xs = ys @ zs" for ys zs t
    using that
  proof (induction zs arbitrary: ys t)
    case Nil
    then show ?case by simp
  next
    case (Cons z zs)
    then obtain t' where t': "f z t = Some t'" "P (ys @ [z]) t'"
      using assms(2) [of ys z zs t] by auto
    from Cons.IH [OF t'(2)] Cons.prems(2)
    obtain s' where "foldM f zs t' = Some s'" "P ((ys @ [z]) @ zs) s'"
      by auto
    with t'(1) show ?case by auto
  qed
  from this [of "[]" s xs] assms(1) show ?thesis by simp
qed

text \<open>The same over a range of indices.\<close>

lemma foldM_upt_total:
  assumes "P m s" and "m \<le> n"
    and "\<And>i s'. m \<le> i \<Longrightarrow> i < n \<Longrightarrow> P i s' \<Longrightarrow> \<exists>s''. f i s' = Some s'' \<and> P (Suc i) s''"
  shows "\<exists>s'. foldM f [m..<n] s = Some s' \<and> P n s'"
  using assms(2) assms(1) assms(3)
proof (induction n rule: dec_induct)
  case base
  then show ?case by simp
next
  case (step k)
  have "\<exists>s'. foldM f [m..<k] s = Some s' \<and> P k s'"
    by (rule step.IH) (use step.prems in auto)
  then obtain s' where s': "foldM f [m..<k] s = Some s'" "P k s'" by blast
  obtain s'' where "f k s' = Some s''" "P (Suc k) s''"
    using step.prems(2) [of k s'] step.hyps s'(2) by auto
  with s'(1) step.hyps show ?case by simp
qed

text \<open>Partial correctness: what holds at the start and is kept by the body holds at the end.\<close>

lemma foldM_inv:
  assumes "foldM f xs s = Some s'" and "P s"
    and "\<And>x t t'. x \<in> set xs \<Longrightarrow> P t \<Longrightarrow> f x t = Some t' \<Longrightarrow> P t'"
  shows "P s'"
  using assms
proof (induction xs arbitrary: s)
  case Nil
  then show ?case by simp
next
  case (Cons x xs)
  from Cons.prems(1) obtain t where t: "f x s = Some t" "foldM f xs t = Some s'"
    by (auto split: Option.bind_splits)
  show ?case
    by (rule Cons.IH [OF t(2)]) (use Cons.prems t(1) in auto)
qed

section \<open>The kernel's intrusive lists\<close>

text \<open>
  A \<open>struct list_head\<close> is modelled by the list of the indices of its nodes;
  \<open>list_del_init\<close> unlinks a node from the list it is on.
\<close>

definition list_add_tail :: "nat \<Rightarrow> nat list \<Rightarrow> nat list" where
  "list_add_tail x xs = xs @ [x]"

definition list_del_init :: "nat \<Rightarrow> nat list \<Rightarrow> nat list" where
  "list_del_init x xs = remove1 x xs"

definition list_first_entry_or_null :: "nat list \<Rightarrow> nat option" where
  "list_first_entry_or_null xs = (case xs of [] \<Rightarrow> None | x # _ \<Rightarrow> Some x)"

lemmas klist_defs = list_add_tail_def list_del_init_def list_first_entry_or_null_def

section \<open>Sums over index ranges\<close>

lemma sum_upd_nat:
  fixes f :: "nat \<Rightarrow> nat"
  assumes "i < n"
  shows "(\<Sum>j<n. (f(i := v)) j) + f i = (\<Sum>j<n. f j) + v"
proof -
  have "(\<Sum>j<n. (f(i := v)) j) = v + (\<Sum>j\<in>{..<n} - {i}. f j)"
    using assms by (subst sum.remove [of _ i]) auto
  moreover have "(\<Sum>j<n. f j) = f i + (\<Sum>j\<in>{..<n} - {i}. f j)"
    using assms by (subst sum.remove [of _ i]) auto
  ultimately show ?thesis by simp
qed

lemma distinct_bounded_length:
  assumes "distinct xs" "set xs \<subseteq> {..<n}" shows "length xs \<le> (n :: nat)"
  using card_mono [OF _ assms(2)] distinct_card [OF assms(1)] by simp

lemma length_filter_upd:
  assumes "i < length xs"
  shows "length (filter P (xs[i := v])) + (if P (xs ! i) then 1 else 0)
    = length (filter P xs) + (if P v then (1::nat) else 0)"
proof -
  have x: "xs = take i xs @ xs ! i # drop (Suc i) xs"
    using assms by (simp add: id_take_nth_drop)
  have y: "xs[i := v] = take i xs @ v # drop (Suc i) xs"
    using assms by (simp add: upd_conv_take_nth_drop)
  have "length (filter P xs) = length (filter P (take i xs)) + (if P (xs ! i) then 1 else 0)
      + length (filter P (drop (Suc i) xs))"
    by (subst x) simp
  then show ?thesis by (simp add: y)
qed

end
