(* ===== verification/Pqueue.thy ===== *)
theory Pqueue
  imports Nvmev_Base
begin

text \<open>
  The priority queue of \<open>pqueue/pqueue.c\<close>: a binary heap in an array whose element 0 is
  not used, over elements reached through five callbacks (priority, position and their
  setters). The queue stores pointers to the elements and writes each element's position
  back into it, so every operation also changes the store \<open>'s\<close> the elements live in.

  \<^item> \<open>pqueue_t\<close>, \<open>bubble_up\<close>, \<open>percolate_down\<close> and the queue operations follow the
    source function by function; an access outside the array is a failure.
  \<^item> The locale \<open>pqueue_callbacks\<close> states what the queue relies on of its callbacks; the
    heap and position invariants and the functional behaviour of every operation are proved
    once inside it. The clients interpret it for their own element type.
\<close>

section \<open>The queue and its operations\<close>

record ('s, 'e) pqueue_t =
  pq_size :: nat
  pq_avail :: nat
  pq_step :: nat
  cmppri :: "nat \<Rightarrow> nat \<Rightarrow> bool"
  getpri :: "'s \<Rightarrow> 'e \<Rightarrow> nat"
  setpri :: "'e \<Rightarrow> nat \<Rightarrow> 's \<Rightarrow> 's"
  getpos :: "'s \<Rightarrow> 'e \<Rightarrow> nat"
  setpos :: "'e \<Rightarrow> nat \<Rightarrow> 's \<Rightarrow> 's"
  pq_d :: "'e list"

definition left :: "nat \<Rightarrow> nat" where "left i = 2 * i"
definition right :: "nat \<Rightarrow> nat" where "right i = 2 * i + 1"
definition parent :: "nat \<Rightarrow> nat" where "parent i = i div 2"

lemmas heap_index_defs = left_def right_def parent_def

text \<open>
  \<open>mem_q\<close> says whether the first allocation succeeds and \<open>mem_d\<close> is the memory the second
  one returns (\<open>n + 1\<close> slots), if it does. The result \<open>None\<close> is the NULL pointer.
\<close>

definition pqueue_init ::
  "bool \<Rightarrow> 'e list option \<Rightarrow> nat \<Rightarrow> (nat \<Rightarrow> nat \<Rightarrow> bool) \<Rightarrow> ('s \<Rightarrow> 'e \<Rightarrow> nat) \<Rightarrow>
   ('e \<Rightarrow> nat \<Rightarrow> 's \<Rightarrow> 's) \<Rightarrow> ('s \<Rightarrow> 'e \<Rightarrow> nat) \<Rightarrow> ('e \<Rightarrow> nat \<Rightarrow> 's \<Rightarrow> 's) \<Rightarrow>
   ('s, 'e) pqueue_t option" where
  "pqueue_init mem_q mem_d n cmp gpri spri gpos spos =
     (if \<not> mem_q then None
      else case mem_d of
        None \<Rightarrow> None
      | Some d \<Rightarrow> Some \<lparr>pq_size = 1, pq_avail = n + 1, pq_step = n + 1, cmppri = cmp,
          getpri = gpri, setpri = spri, getpos = gpos, setpos = spos, pq_d = d\<rparr>)"

definition pqueue_size :: "('s, 'e) pqueue_t \<Rightarrow> nat" where
  "pqueue_size q = pq_size q - 1"

function bubble_up_loop ::
  "('s, 'e) pqueue_t \<Rightarrow> nat \<Rightarrow> nat \<Rightarrow> 'e list \<Rightarrow> 's \<Rightarrow> (nat \<times> 'e list \<times> 's) option" where
  "bubble_up_loop q moving_pri i d s =
     (if i > 1 then do {
        p \<leftarrow> rd d (parent i);
        if cmppri q (getpri q s p) moving_pri then do {
          d' \<leftarrow> wr d i p;
          bubble_up_loop q moving_pri (parent i) d' (setpos q p i s)
        } else Some (i, d, s)
      } else Some (i, d, s))"
  by pat_completeness auto
termination
  by (relation "measure (\<lambda>(q, m, i, d, s). i)") (auto simp: parent_def)

declare bubble_up_loop.simps [simp del]

definition bubble_up ::
  "('s, 'e) pqueue_t \<Rightarrow> nat \<Rightarrow> 's \<Rightarrow> (('s, 'e) pqueue_t \<times> 's) option" where
  "bubble_up q i s = do {
     moving_node \<leftarrow> rd (pq_d q) i;
     (i', d', s') \<leftarrow> bubble_up_loop q (getpri q s moving_node) i (pq_d q) s;
     d'' \<leftarrow> wr d' i' moving_node;
     Some (q\<lparr>pq_d := d''\<rparr>, setpos q moving_node i' s')
   }"

definition maxchild :: "('s, 'e) pqueue_t \<Rightarrow> 'e list \<Rightarrow> 's \<Rightarrow> nat \<Rightarrow> nat option" where
  "maxchild q d s i =
     (let child_node = left i in
      if child_node \<ge> pq_size q then Some 0
      else if child_node + 1 < pq_size q then do {
        a \<leftarrow> rd d child_node;
        b \<leftarrow> rd d (child_node + 1);
        Some (if cmppri q (getpri q s a) (getpri q s b) then child_node + 1 else child_node)
      } else Some child_node)"

lemma maxchild_range:
  assumes "maxchild q d s i = Some c" and "c \<noteq> 0"
  shows "i < c" and "c < pq_size q" and "c = left i \<or> c = right i"
proof -
  have "(c = left i \<or> c = right i) \<and> c < pq_size q"
    using assms by (auto simp: maxchild_def Let_def heap_index_defs
        split: if_splits Option.bind_splits)
  then show "i < c" and "c < pq_size q" and "c = left i \<or> c = right i"
    using assms(2) by (auto simp: heap_index_defs)
qed

lemma maxchild_decreases:
  assumes "maxchild q d s i = Some c" and "0 < c"
  shows "pq_size q - c < pq_size q - i"
  using maxchild_range [OF assms(1)] assms(2) by simp

function percolate_down_loop ::
  "('s, 'e) pqueue_t \<Rightarrow> nat \<Rightarrow> nat \<Rightarrow> 'e list \<Rightarrow> 's \<Rightarrow> (nat \<times> 'e list \<times> 's) option" where
  "percolate_down_loop q moving_pri i d s =
     (case maxchild q d s i of
        None \<Rightarrow> None
      | Some child_node \<Rightarrow>
          if child_node = 0 then Some (i, d, s)
          else (case rd d child_node of
              None \<Rightarrow> None
            | Some c \<Rightarrow>
                if cmppri q moving_pri (getpri q s c) then
                  (case wr d i c of
                     None \<Rightarrow> None
                   | Some d' \<Rightarrow>
                       percolate_down_loop q moving_pri child_node d' (setpos q c i s))
                else Some (i, d, s)))"
  by pat_completeness auto
termination
  by (relation "measure (\<lambda>(q, m, i, d, s). pq_size q - i)")
    (auto dest: maxchild_decreases)

declare percolate_down_loop.simps [simp del]

definition percolate_down ::
  "('s, 'e) pqueue_t \<Rightarrow> nat \<Rightarrow> 's \<Rightarrow> (('s, 'e) pqueue_t \<times> 's) option" where
  "percolate_down q i s = do {
     moving_node \<leftarrow> rd (pq_d q) i;
     (i', d', s') \<leftarrow> percolate_down_loop q (getpri q s moving_node) i (pq_d q) s;
     d'' \<leftarrow> wr d' i' moving_node;
     Some (q\<lparr>pq_d := d''\<rparr>, setpos q moving_node i' s')
   }"

text \<open>The queue never grows: an insertion beyond the allocated slots writes outside the array.\<close>

definition pqueue_insert ::
  "('s, 'e) pqueue_t \<Rightarrow> 'e \<Rightarrow> 's \<Rightarrow> (('s, 'e) pqueue_t \<times> 's) option" where
  "pqueue_insert q e s = do {
     d' \<leftarrow> wr (pq_d q) (pq_size q) e;
     bubble_up (q\<lparr>pq_size := pq_size q + 1, pq_d := d'\<rparr>) (pq_size q) s
   }"

definition pqueue_change_priority ::
  "('s, 'e) pqueue_t \<Rightarrow> nat \<Rightarrow> 'e \<Rightarrow> 's \<Rightarrow> (('s, 'e) pqueue_t \<times> 's) option" where
  "pqueue_change_priority q new_pri e s =
     (let old_pri = getpri q s e;
          s' = setpri q e new_pri s;
          posn = getpos q s' e
      in if cmppri q old_pri new_pri then bubble_up q posn s' else percolate_down q posn s')"

definition pqueue_remove ::
  "('s, 'e) pqueue_t \<Rightarrow> 'e \<Rightarrow> 's \<Rightarrow> (('s, 'e) pqueue_t \<times> 's) option" where
  "pqueue_remove q e s = do {
     let posn = getpos q s e;
     l \<leftarrow> rd (pq_d q) (pq_size q - 1);
     d' \<leftarrow> wr (pq_d q) posn l;
     let q' = q\<lparr>pq_size := pq_size q - 1, pq_d := d'\<rparr>;
     if cmppri q (getpri q s e) (getpri q s l) then bubble_up q' posn s
     else percolate_down q' posn s
   }"

text \<open>\<open>pqueue_pop\<close> and \<open>pqueue_peek\<close> return NULL (inner \<open>None\<close>) on the empty queue.\<close>

definition pqueue_pop ::
  "('s, 'e) pqueue_t \<Rightarrow> 's \<Rightarrow> ('e option \<times> ('s, 'e) pqueue_t \<times> 's) option" where
  "pqueue_pop q s =
     (if pq_size q = 1 then Some (None, q, s)
      else do {
        head \<leftarrow> rd (pq_d q) 1;
        l \<leftarrow> rd (pq_d q) (pq_size q - 1);
        d' \<leftarrow> wr (pq_d q) 1 l;
        (q', s') \<leftarrow> percolate_down (q\<lparr>pq_size := pq_size q - 1, pq_d := d'\<rparr>) 1 s;
        Some (Some head, q', s')
      })"

definition pqueue_peek :: "('s, 'e) pqueue_t \<Rightarrow> 'e option option" where
  "pqueue_peek q =
     (if pq_size q = 1 then Some None
      else do { d \<leftarrow> rd (pq_d q) 1; Some (Some d) })"

function subtree_is_valid :: "('s, 'e) pqueue_t \<Rightarrow> 's \<Rightarrow> nat \<Rightarrow> bool option" where
  "subtree_is_valid q s pos =
     (if pos = 0 then None
      else do {
        l \<leftarrow> (if left pos < pq_size q then do {
              p \<leftarrow> rd (pq_d q) pos;
              c \<leftarrow> rd (pq_d q) (left pos);
              if cmppri q (getpri q s p) (getpri q s c) then Some False
              else subtree_is_valid q s (left pos)
            } else Some True);
        if \<not> l then Some False
        else if right pos < pq_size q then do {
              p \<leftarrow> rd (pq_d q) pos;
              c \<leftarrow> rd (pq_d q) (right pos);
              if cmppri q (getpri q s p) (getpri q s c) then Some False
              else subtree_is_valid q s (right pos)
            } else Some True
      })"
  by pat_completeness auto
termination
  by (relation "measure (\<lambda>(q, s, pos). pq_size q - pos)") (auto simp: heap_index_defs)

declare subtree_is_valid.simps [simp del]

definition pqueue_is_valid :: "('s, 'e) pqueue_t \<Rightarrow> 's \<Rightarrow> bool option" where
  "pqueue_is_valid q s = subtree_is_valid q s 1"

section \<open>Invariants\<close>

text \<open>
  The occupied slots are \<open>1 \<le> i < pq_size q\<close>. \<open>pq_elems\<close> is the set of queued elements;
  \<open>pq_heap\<close> the heap order (no element is outranked by one of its children); \<open>pq_inv\<close> adds
  that the slots fit the array, that every queued element is live and that it records the
  slot it is in.
\<close>

definition pq_elems :: "('s, 'e) pqueue_t \<Rightarrow> 'e set" where
  "pq_elems q = (\<lambda>i. pq_d q ! i) ` {1..<pq_size q}"

definition pq_heap :: "('s, 'e) pqueue_t \<Rightarrow> 's \<Rightarrow> bool" where
  "pq_heap q s \<longleftrightarrow> (\<forall>i. 2 \<le> i \<longrightarrow> i < pq_size q \<longrightarrow>
     \<not> cmppri q (getpri q s (pq_d q ! parent i)) (getpri q s (pq_d q ! i)))"

definition pq_inv :: "('s \<Rightarrow> 'e \<Rightarrow> bool) \<Rightarrow> ('s, 'e) pqueue_t \<Rightarrow> 's \<Rightarrow> bool" where
  "pq_inv live q s \<longleftrightarrow> 1 \<le> pq_size q \<and> pq_size q \<le> length (pq_d q) \<and>
     (\<forall>i. 1 \<le> i \<longrightarrow> i < pq_size q \<longrightarrow> live s (pq_d q ! i) \<and> getpos q s (pq_d q ! i) = i) \<and>
     pq_heap q s"

definition pq_wired ::
  "(nat \<Rightarrow> nat \<Rightarrow> bool) \<Rightarrow> ('s \<Rightarrow> 'e \<Rightarrow> nat) \<Rightarrow> ('e \<Rightarrow> nat \<Rightarrow> 's \<Rightarrow> 's) \<Rightarrow> ('s \<Rightarrow> 'e \<Rightarrow> nat) \<Rightarrow>
   ('e \<Rightarrow> nat \<Rightarrow> 's \<Rightarrow> 's) \<Rightarrow> ('s, 'e) pqueue_t \<Rightarrow> bool" where
  "pq_wired cmp gpri spri gpos spos q \<longleftrightarrow>
     cmppri q = cmp \<and> getpri q = gpri \<and> setpri q = spri \<and> getpos q = gpos \<and> setpos q = spos"

text \<open>
  Heap order with one possible defect at slot \<open>i\<close>, for an array \<open>D\<close> and priorities \<open>P\<close>:
  \<open>up_ok\<close> when only the link from \<open>i\<close> to its parent may be wrong, \<open>down_ok\<close> when only the
  links from \<open>i\<close> to its children may be. In both the children of \<open>i\<close> are in order with the
  parent of \<open>i\<close>.
\<close>

definition bridged :: "(nat \<Rightarrow> nat \<Rightarrow> bool) \<Rightarrow> ('e \<Rightarrow> nat) \<Rightarrow> nat \<Rightarrow> 'e list \<Rightarrow> nat \<Rightarrow> bool" where
  "bridged cmp P n D i \<longleftrightarrow> (2 \<le> i \<longrightarrow> (\<forall>c<n. parent c = i \<longrightarrow> \<not> cmp (P (D ! parent i)) (P (D ! c))))"

definition up_ok :: "(nat \<Rightarrow> nat \<Rightarrow> bool) \<Rightarrow> ('e \<Rightarrow> nat) \<Rightarrow> nat \<Rightarrow> 'e list \<Rightarrow> nat \<Rightarrow> bool" where
  "up_ok cmp P n D i \<longleftrightarrow> bridged cmp P n D i \<and>
     (\<forall>j. 2 \<le> j \<longrightarrow> j < n \<longrightarrow> j \<noteq> i \<longrightarrow> \<not> cmp (P (D ! parent j)) (P (D ! j)))"

definition down_ok :: "(nat \<Rightarrow> nat \<Rightarrow> bool) \<Rightarrow> ('e \<Rightarrow> nat) \<Rightarrow> nat \<Rightarrow> 'e list \<Rightarrow> nat \<Rightarrow> bool" where
  "down_ok cmp P n D i \<longleftrightarrow> bridged cmp P n D i \<and>
     (\<forall>j. 2 \<le> j \<longrightarrow> j < n \<longrightarrow> parent j \<noteq> i \<longrightarrow> \<not> cmp (P (D ! parent j)) (P (D ! j)))"

lemma parent_less: "0 < i \<Longrightarrow> parent i < i"
  by (simp add: parent_def)

lemma parent_pos: "2 \<le> i \<Longrightarrow> 1 \<le> parent i"
  by (simp add: parent_def)

text \<open>
  What the loops keep while slot \<open>i\<close> is a hole for the moving element \<open>m\<close>: every other
  occupied slot holds a live element that records its slot, the elements together with \<open>m\<close>
  are \<open>E\<close>, and nothing but positions of elements of \<open>E\<close> has changed since the store \<open>s0\<close>.
  \<open>store_frame\<close> is that last part.
\<close>

definition store_frame ::
  "('s \<Rightarrow> 'e \<Rightarrow> nat) \<Rightarrow> ('s \<Rightarrow> 'e \<Rightarrow> nat) \<Rightarrow> ('s \<Rightarrow> 'e \<Rightarrow> bool) \<Rightarrow> ('s \<Rightarrow> 'r) \<Rightarrow> 'e set \<Rightarrow> 's \<Rightarrow> 's \<Rightarrow> bool"
  where
  "store_frame gpri gpos live rest E s0 s \<longleftrightarrow>
     (\<forall>e. gpri s e = gpri s0 e) \<and> (\<forall>e. live s e = live s0 e) \<and>
     (\<forall>e. e \<notin> E \<longrightarrow> gpos s e = gpos s0 e) \<and> rest s = rest s0"

definition hole_inv ::
  "('s \<Rightarrow> 'e \<Rightarrow> nat) \<Rightarrow> ('s \<Rightarrow> 'e \<Rightarrow> bool) \<Rightarrow> nat \<Rightarrow> nat \<Rightarrow> 'e set \<Rightarrow> 'e \<Rightarrow> nat \<Rightarrow> 'e list \<Rightarrow> 's \<Rightarrow> bool"
  where
  "hole_inv gpos live n len E m i d s \<longleftrightarrow>
     1 \<le> i \<and> i < n \<and> n \<le> len \<and> length d = len \<and> live s m \<and>
     (\<forall>j. 1 \<le> j \<longrightarrow> j < n \<longrightarrow> j \<noteq> i \<longrightarrow> live s (d ! j) \<and> gpos s (d ! j) = j \<and> d ! j \<noteq> m) \<and>
     insert m ((\<lambda>j. d ! j) ` ({1..<n} - {i})) = E"

text \<open>The invariant depends on the store only through the elements' priorities and positions.\<close>

lemma pq_inv_cong:
  assumes "pq_inv live q s"
    and "\<And>e. e \<in> pq_elems q \<Longrightarrow> live s' e \<and> getpos q s' e = getpos q s e \<and> getpri q s' e = getpri q s e"
  shows "pq_inv live q s'"
proof -
  have e: "pq_d q ! i \<in> pq_elems q" if "1 \<le> i" "i < pq_size q" for i
    using that by (auto simp: pq_elems_def)
  have "pq_heap q s'"
    unfolding pq_heap_def
  proof (intro allI impI)
    fix i assume i: "2 \<le> i" "i < pq_size q"
    have "1 \<le> parent i" "parent i < pq_size q" using i parent_pos parent_less [of i] by auto
    then show "\<not> cmppri q (getpri q s' (pq_d q ! parent i)) (getpri q s' (pq_d q ! i))"
      using assms(1) assms(2) [OF e] i by (simp add: pq_inv_def pq_heap_def)
  qed
  with assms(1) assms(2) [OF e] show ?thesis by (simp add: pq_inv_def)
qed

section \<open>Correctness against the callback interface\<close>

locale pqueue_callbacks =
  fixes cmp :: "nat \<Rightarrow> nat \<Rightarrow> bool"
    and gpri :: "'s \<Rightarrow> 'e \<Rightarrow> nat"
    and spri :: "'e \<Rightarrow> nat \<Rightarrow> 's \<Rightarrow> 's"
    and gpos :: "'s \<Rightarrow> 'e \<Rightarrow> nat"
    and spos :: "'e \<Rightarrow> nat \<Rightarrow> 's \<Rightarrow> 's"
    and live :: "'s \<Rightarrow> 'e \<Rightarrow> bool"
    and okpri :: "nat \<Rightarrow> bool"
    and rest :: "'s \<Rightarrow> 'r"
  assumes cmp_asym: "cmp a b \<Longrightarrow> \<not> cmp b a"
    and cmp_negtrans: "\<not> cmp a b \<Longrightarrow> \<not> cmp b c \<Longrightarrow> \<not> cmp a c"
    and gpos_spos: "live s e \<Longrightarrow> gpos (spos e p s) e = p"
    and gpos_spos_other: "e \<noteq> e' \<Longrightarrow> gpos (spos e p s) e' = gpos s e'"
    and gpri_spos: "gpri (spos e p s) e' = gpri s e'"
    and gpri_spri: "live s e \<Longrightarrow> okpri p \<Longrightarrow> gpri (spri e p s) e = p"
    and gpri_spri_other: "e \<noteq> e' \<Longrightarrow> gpri (spri e p s) e' = gpri s e'"
    and gpos_spri: "gpos (spri e p s) e' = gpos s e'"
    and live_spos: "live (spos e p s) e' = live s e'"
    and live_spri: "live (spri e p s) e' = live s e'"
    and rest_spos: "rest (spos e p s) = rest s"
begin

lemmas store_laws = gpri_spos gpos_spri live_spos live_spri rest_spos

text \<open>Both loops swap the moving element with a neighbour; the two steps keep the defect single.\<close>

lemma up_ok_step:
  assumes ok: "up_ok cmp P n D i" and i: "2 \<le> i" "i < n" "n \<le> length D"
    and viol: "cmp (P (D ! parent i)) (P (D ! i))"
  shows "up_ok cmp P n (D[i := D ! parent i, parent i := D ! i]) (parent i)"
proof -
  let ?p = "parent i" and ?D = "D[i := D ! parent i, parent i := D ! i]"
  have p: "?p < i" "1 \<le> ?p" using i parent_less [of i] parent_pos by auto
  have Dp: "?D ! ?p = D ! i" and Di: "?D ! i = D ! ?p"
    using p i by auto
  have Do: "?D ! j = D ! j" if "j \<noteq> i" "j \<noteq> ?p" for j
    using that by simp
  have ord: "\<not> cmp (P (D ! parent j)) (P (D ! j))" if "2 \<le> j" "j < n" "j \<noteq> i" for j
    using ok that by (auto simp: up_ok_def)
  have chi: "\<not> cmp (P (D ! ?p)) (P (D ! c))" if "c < n" "parent c = i" for c
    using ok that i by (auto simp: up_ok_def bridged_def)
  have nv: "\<not> cmp (P (D ! i)) (P (D ! ?p))" by (rule cmp_asym [OF viol])
  have "\<not> cmp (P (?D ! parent j)) (P (?D ! j))" if j: "2 \<le> j" "j < n" "j \<noteq> ?p" for j
  proof (cases "j = i")
    case True
    then show ?thesis using nv Dp Di by simp
  next
    case False
    have pj: "parent j < j" using j parent_less [of j] by simp
    consider "parent j = i" | "parent j = ?p" | "parent j \<noteq> i" "parent j \<noteq> ?p" by blast
    then show ?thesis
    proof cases
      case 1
      then show ?thesis using chi [OF j(2) 1] Di Do [OF False j(3)] by simp
    next
      case 2
      have "\<not> cmp (P (D ! i)) (P (D ! j))"
        using cmp_negtrans [OF nv] ord [OF j(1,2) False] 2 by auto
      then show ?thesis using 2 Dp Do [OF False j(3)] by simp
    next
      case 3
      then show ?thesis using ord [OF j(1,2) False] Do [OF False j(3)] Do by simp
    qed
  qed
  moreover have "bridged cmp P n ?D ?p"
    unfolding bridged_def
  proof (intro impI allI)
    fix c assume pp: "2 \<le> ?p" and c: "c < n" "parent c = ?p"
    have g: "parent ?p \<noteq> i" "parent ?p \<noteq> ?p"
      using parent_less [of ?p] p by auto
    have gp: "\<not> cmp (P (D ! parent ?p)) (P (D ! ?p))"
      by (rule ord) (use pp p i in auto)
    show "\<not> cmp (P (?D ! parent ?p)) (P (?D ! c))"
    proof (cases "c = i")
      case True
      then show ?thesis using gp Di Do [OF g] by simp
    next
      case False
      have c2: "2 \<le> c" using c(2) pp by (auto simp: parent_def)
      have "c \<noteq> ?p" using parent_less [of c] c c2 by auto
      then show ?thesis
        using cmp_negtrans [OF gp] ord [OF c2 c(1) False] c(2) Do [OF g] Do [OF False] by simp
    qed
  qed
  ultimately show ?thesis by (simp add: up_ok_def)
qed

lemma down_ok_step:
  assumes ok: "down_ok cmp P n D i" and i: "1 \<le> i" "n \<le> length D"
    and c: "parent c = i" "i < c" "c < n"
    and best: "\<And>c'. parent c' = i \<Longrightarrow> c' < n \<Longrightarrow> 2 \<le> c' \<Longrightarrow> \<not> cmp (P (D ! c)) (P (D ! c'))"
    and viol: "cmp (P (D ! i)) (P (D ! c))"
  shows "down_ok cmp P n (D[i := D ! c, c := D ! i]) c"
proof -
  let ?D = "D[i := D ! c, c := D ! i]"
  have Dc: "?D ! c = D ! i" and Di: "?D ! i = D ! c"
    using c i by auto
  have Do: "?D ! j = D ! j" if "j \<noteq> i" "j \<noteq> c" for j
    using that by simp
  have ord: "\<not> cmp (P (D ! parent j)) (P (D ! j))" if "2 \<le> j" "j < n" "parent j \<noteq> i" for j
    using ok that by (auto simp: down_ok_def)
  have br: "\<not> cmp (P (D ! parent i)) (P (D ! x))" if "2 \<le> i" "x < n" "parent x = i" for x
    using ok that by (auto simp: down_ok_def bridged_def)
  have c2: "2 \<le> c" using c i by auto
  have nv: "\<not> cmp (P (D ! c)) (P (D ! i))" by (rule cmp_asym [OF viol])
  have "\<not> cmp (P (?D ! parent j)) (P (?D ! j))" if j: "2 \<le> j" "j < n" "parent j \<noteq> c" for j
  proof -
    have pj: "parent j < j" using j parent_less [of j] by simp
    consider "j = c" | "j = i" | "j \<noteq> c" "j \<noteq> i" "parent j = i" | "j \<noteq> c" "j \<noteq> i" "parent j \<noteq> i"
      by blast
    then show ?thesis
    proof cases
      case 1
      then show ?thesis using c nv Dc Di by simp
    next
      case 2
      have "parent i \<noteq> i" "parent i \<noteq> c" using pj 2 c by auto
      then show ?thesis using br [of c] 2 j c Di Do by simp
    next
      case 3
      then show ?thesis using best [of j] j Di Do by simp
    next
      case 4
      then show ?thesis using ord [OF j(1,2) 4(3)] Do [OF 4(2,1)] Do [OF 4(3) j(3)] by simp
    qed
  qed
  moreover have "bridged cmp P n ?D c"
    unfolding bridged_def
  proof (intro impI allI)
    fix x assume x: "x < n" "parent x = c"
    have "2 \<le> x" "x \<noteq> i" "x \<noteq> c"
      using x c c2 parent_less [of x] by (auto simp: parent_def)
    moreover have "parent x \<noteq> i" using x c by simp
    ultimately show "\<not> cmp (P (?D ! parent c)) (P (?D ! x))"
      using ord [of x] x c(1) Di Do by simp
  qed
  ultimately show ?thesis by (simp add: down_ok_def)
qed

text \<open>Moving the element of slot \<open>k\<close> into the hole leaves a hole at \<open>k\<close>.\<close>

lemma hole_move:
  assumes h: "hole_inv gpos live n len E m i d s" and k: "1 \<le> k" "k < n" "k \<noteq> i"
  shows "hole_inv gpos live n len E m k (d[i := d ! k]) (spos (d ! k) i s)"
proof -
  let ?e = "d ! k"
  have i: "1 \<le> i" "i < n" "n \<le> length d" and len: "length d = len"
    using h by (auto simp: hole_inv_def)
  have e: "live s ?e" "gpos s ?e = k" "?e \<noteq> m"
    using h k by (auto simp: hole_inv_def)
  have "(\<lambda>j. d[i := ?e] ! j) ` ({1..<n} - {k}) = (\<lambda>j. d ! j) ` ({1..<n} - {i})"
  proof (rule set_eqI, rule iffI)
    fix x assume "x \<in> (\<lambda>j. d[i := ?e] ! j) ` ({1..<n} - {k})"
    then obtain j where j: "j \<in> {1..<n}" "j \<noteq> k" "x = d[i := ?e] ! j" by blast
    show "x \<in> (\<lambda>j. d ! j) ` ({1..<n} - {i})"
      by (cases "j = i") (use j i k in \<open>auto intro!: image_eqI\<close>)
  next
    fix x assume "x \<in> (\<lambda>j. d ! j) ` ({1..<n} - {i})"
    then obtain j where j: "j \<in> {1..<n}" "j \<noteq> i" "x = d ! j" by blast
    show "x \<in> (\<lambda>j. d[i := ?e] ! j) ` ({1..<n} - {k})"
    proof (cases "j = k")
      case True
      then show ?thesis using j i k by (intro image_eqI [of _ _ i]) auto
    next
      case False
      then show ?thesis using j i by (intro image_eqI [of _ _ j]) auto
    qed
  qed
  moreover have "live (spos ?e i s) (d[i := ?e] ! j) \<and> gpos (spos ?e i s) (d[i := ?e] ! j) = j
      \<and> d[i := ?e] ! j \<noteq> m" if j: "1 \<le> j" "j < n" "j \<noteq> k" for j
  proof (cases "j = i")
    case True
    then show ?thesis using i e by (simp add: gpos_spos live_spos)
  next
    case False
    then have "live s (d ! j)" "gpos s (d ! j) = j" "d ! j \<noteq> m"
      using h j by (auto simp: hole_inv_def)
    moreover from this have "?e \<noteq> d ! j" using e(2) j(3) by auto
    ultimately show ?thesis using False by (simp add: live_spos gpos_spos_other)
  qed
  ultimately show ?thesis
    using h k len by (auto simp: hole_inv_def live_spos)
qed

lemma store_frame_refl: "store_frame gpri gpos live rest E s s"
  by (simp add: store_frame_def)

lemma store_frame_spos:
  "store_frame gpri gpos live rest E s0 s \<Longrightarrow> e \<in> E \<Longrightarrow>
     store_frame gpri gpos live rest E s0 (spos e p s)"
  by (auto simp: store_frame_def store_laws) (metis gpos_spos_other)

lemma hole_mem: "hole_inv gpos live n len E m i d s \<Longrightarrow> 1 \<le> k \<Longrightarrow> k < n \<Longrightarrow> k \<noteq> i \<Longrightarrow> d ! k \<in> E"
  by (auto simp: hole_inv_def)

lemma bubble_up_loop_correct:
  assumes "pq_wired cmp gpri spri gpos spos q" and "pq_size q = n"
    and "hole_inv gpos live n len E m i d s" and "store_frame gpri gpos live rest E s0 s"
    and "up_ok cmp (gpri s0) n (d[i := m]) i" and "mp = gpri s0 m"
  shows "\<exists>i' d' s'. bubble_up_loop q mp i d s = Some (i', d', s') \<and>
     hole_inv gpos live n len E m i' d' s' \<and> store_frame gpri gpos live rest E s0 s' \<and>
     (\<forall>j. 2 \<le> j \<longrightarrow> j < n \<longrightarrow>
        \<not> cmp (gpri s0 (d'[i' := m] ! parent j)) (gpri s0 (d'[i' := m] ! j)))"
  using assms(3-)
proof (induction i arbitrary: d s rule: less_induct)
  case (less i)
  have q: "cmppri q = cmp" "getpri q = gpri" "setpos q = spos"
    using assms(1) by (auto simp: pq_wired_def)
  note h = less.prems(1) and fr = less.prems(2) and up = less.prems(3) and mp = less.prems(4)
  have i: "1 \<le> i" "i < n" "n \<le> length d" using h by (auto simp: hole_inv_def)
  let ?D = "d[i := m]" and ?p = "parent i"
  show ?case
  proof (cases "1 < i \<and> cmp (gpri s (d ! ?p)) mp")
    case True
    then have i2: "2 \<le> i" by simp
    have p: "1 \<le> ?p" "?p < i" using parent_pos [OF i2] parent_less [of i] i2 by auto
    have Dp: "?D ! ?p = d ! ?p" and Di: "?D ! i = m" using p i by auto
    have pri: "gpri s (d ! ?p) = gpri s0 (d ! ?p)" using fr by (simp add: store_frame_def)
    have viol: "cmp (gpri s0 (?D ! ?p)) (gpri s0 (?D ! i))"
      using True pri mp Dp Di by simp
    let ?d = "d[i := d ! ?p]" and ?s = "spos (d ! ?p) i s"
    have h': "hole_inv gpos live n len E m ?p ?d ?s"
      by (rule hole_move [OF h]) (use p i in auto)
    have fr': "store_frame gpri gpos live rest E s0 ?s"
      by (rule store_frame_spos [OF fr hole_mem [OF h]]) (use p i in auto)
    have "?D[i := ?D ! ?p, ?p := ?D ! i] = ?d[?p := m]" using Dp Di by simp
    with up_ok_step [OF up i2 i(2) _ viol] i
    have up': "up_ok cmp (gpri s0) n (?d[?p := m]) ?p" by simp
    have "bubble_up_loop q mp i d s = bubble_up_loop q mp ?p ?d ?s"
      using True p i by (subst bubble_up_loop.simps) (simp add: q)
    with less.IH [OF p(2) h' fr' up' mp] show ?thesis by simp
  next
    case False
    have r: "bubble_up_loop q mp i d s = Some (i, d, s)"
      using False i parent_less [of i] by (subst bubble_up_loop.simps) (auto simp: q)
    have "\<not> cmp (gpri s0 (?D ! parent j)) (gpri s0 (?D ! j))" if j: "2 \<le> j" "j < n" for j
    proof (cases "j = i")
      case True
      have "parent i \<noteq> i" using parent_less [of i] i by simp
      then show ?thesis
        using False True j fr mp i by (auto simp: store_frame_def)
    next
      case False
      then show ?thesis using up j by (auto simp: up_ok_def)
    qed
    with r h fr show ?thesis by blast
  qed
qed

lemma maxchild_correct:
  assumes q: "cmppri q = cmp" "getpri q = gpri" "pq_size q = n" and n: "n \<le> length d" "1 \<le> i"
  shows "\<exists>c. maxchild q d s i = Some c \<and> (c = 0 \<longrightarrow> (\<forall>x<n. 2 \<le> x \<longrightarrow> parent x \<noteq> i)) \<and>
     (c \<noteq> 0 \<longrightarrow> parent c = i \<and> i < c \<and> c < n \<and>
        (\<forall>x<n. 2 \<le> x \<longrightarrow> parent x = i \<longrightarrow> \<not> cmp (gpri s (d ! c)) (gpri s (d ! x))))"
proof -
  have ch: "parent x = i \<longleftrightarrow> x = left i \<or> x = right i" for x
    by (auto simp: heap_index_defs)
  have irr: "\<not> cmp a a" for a using cmp_asym by blast
  consider "n \<le> left i" | "left i < n" "n \<le> right i" | "right i < n"
    by (meson not_le)
  then show ?thesis
  proof cases
    case 1
    then have "maxchild q d s i = Some 0" by (simp add: maxchild_def q)
    then show ?thesis using 1 by (auto simp: ch heap_index_defs)
  next
    case 2
    then have "maxchild q d s i = Some (left i)" by (simp add: maxchild_def q heap_index_defs)
    moreover have "i < left i" "left i \<noteq> 0" using n by (auto simp: heap_index_defs)
    ultimately show ?thesis using 2 irr by (auto simp: ch)
  next
    case 3
    let ?c = "if cmp (gpri s (d ! left i)) (gpri s (d ! right i)) then right i else left i"
    have "maxchild q d s i = Some ?c"
      using 3 n by (simp add: maxchild_def q heap_index_defs)
    moreover have "\<not> cmp (gpri s (d ! ?c)) (gpri s (d ! x))" if "x = left i \<or> x = right i" for x
      using that irr cmp_asym by auto
    moreover have "parent ?c = i" "i < ?c" "?c < n" "?c \<noteq> 0"
      using 3 n by (auto simp: heap_index_defs)
    ultimately show ?thesis by (auto simp: ch)
  qed
qed

lemma percolate_down_loop_correct:
  assumes "pq_wired cmp gpri spri gpos spos q" and "pq_size q = n"
    and "hole_inv gpos live n len E m i d s" and "store_frame gpri gpos live rest E s0 s"
    and "down_ok cmp (gpri s0) n (d[i := m]) i" and "mp = gpri s0 m"
  shows "\<exists>i' d' s'. percolate_down_loop q mp i d s = Some (i', d', s') \<and>
     hole_inv gpos live n len E m i' d' s' \<and> store_frame gpri gpos live rest E s0 s' \<and>
     (\<forall>j. 2 \<le> j \<longrightarrow> j < n \<longrightarrow>
        \<not> cmp (gpri s0 (d'[i' := m] ! parent j)) (gpri s0 (d'[i' := m] ! j)))"
  using assms(3-)
proof (induction "n - i" arbitrary: i d s rule: less_induct)
  case less
  have q: "cmppri q = cmp" "getpri q = gpri" "setpos q = spos"
    using assms(1) by (auto simp: pq_wired_def)
  note h = less.prems(1) and fr = less.prems(2) and dn = less.prems(3) and mp = less.prems(4)
  have i: "1 \<le> i" "i < n" "n \<le> length d" using h by (auto simp: hole_inv_def)
  have pri: "gpri s e = gpri s0 e" for e using fr by (simp add: store_frame_def)
  let ?D = "d[i := m]"
  obtain c where c: "maxchild q d s i = Some c"
    and c0: "c = 0 \<Longrightarrow> \<forall>x<n. 2 \<le> x \<longrightarrow> parent x \<noteq> i"
    and c1: "c \<noteq> 0 \<Longrightarrow> parent c = i \<and> i < c \<and> c < n \<and>
        (\<forall>x<n. 2 \<le> x \<longrightarrow> parent x = i \<longrightarrow> \<not> cmp (gpri s (d ! c)) (gpri s (d ! x)))"
    using maxchild_correct [OF q(1,2) assms(2) i(3,1), of s] by blast
  have Di: "?D ! i = m" and Do: "?D ! j = d ! j" if "j \<noteq> i" for j using that i by auto
  have Dm: "?D ! i = m" using i by simp
  show ?case
  proof (cases "c \<noteq> 0 \<and> cmp mp (gpri s (d ! c))")
    case True
    then have pc: "parent c = i" "i < c" "c < n" using c1 by auto
    let ?d = "d[i := d ! c]" and ?s = "spos (d ! c) i s"
    have h': "hole_inv gpos live n len E m c ?d ?s"
      by (rule hole_move [OF h]) (use pc i in auto)
    have fr': "store_frame gpri gpos live rest E s0 ?s"
      by (rule store_frame_spos [OF fr hole_mem [OF h]]) (use pc i in auto)
    have Dc: "?D ! c = d ! c" using pc by simp
    have "down_ok cmp (gpri s0) n (?D[i := ?D ! c, c := ?D ! i]) c"
    proof (rule down_ok_step [OF dn i(1) _ pc])
      show "n \<le> length ?D" using i by simp
      show "cmp (gpri s0 (?D ! i)) (gpri s0 (?D ! c))" using True pri mp Dm Dc by simp
      fix c' assume "parent c' = i" "c' < n" "2 \<le> c'"
      moreover from this have "c' \<noteq> i" using parent_less [of c'] by auto
      ultimately show "\<not> cmp (gpri s0 (?D ! c)) (gpri s0 (?D ! c'))"
        using True c1 pri Dc by auto
    qed
    moreover have "?D[i := ?D ! c, c := ?D ! i] = ?d[c := m]" using Dm Dc by simp
    ultimately have dn': "down_ok cmp (gpri s0) n (?d[c := m]) c" by simp
    have "percolate_down_loop q mp i d s = percolate_down_loop q mp c ?d ?s"
      using True pc i by (subst percolate_down_loop.simps) (simp add: c q)
    moreover have "n - c < n - i" using pc by simp
    ultimately show ?thesis using less.hyps [OF _ h' fr' dn' mp] by simp
  next
    case False
    have r: "percolate_down_loop q mp i d s = Some (i, d, s)"
      using False c1 i(3) by (cases "c = 0") (subst percolate_down_loop.simps, simp add: c q)+
    have "\<not> cmp (gpri s0 (?D ! parent j)) (gpri s0 (?D ! j))" if j: "2 \<le> j" "j < n" for j
    proof (cases "parent j = i")
      case True
      have nz: "c \<noteq> 0" using c0 True j by auto
      have "\<not> cmp mp (gpri s0 (d ! c))" using False nz pri by simp
      moreover have "\<not> cmp (gpri s0 (d ! c)) (gpri s0 (d ! j))" using c1 [OF nz] True j pri by auto
      moreover have "j \<noteq> i" using parent_less [of j] True j by auto
      ultimately show ?thesis using True Dm mp cmp_negtrans by auto
    next
      case False
      then show ?thesis using dn j by (auto simp: down_ok_def)
    qed
    with r h fr show ?thesis by blast
  qed
qed

text \<open>
  \<open>pq_upd E q s q' s'\<close>: the queue \<open>q'\<close> over \<open>s'\<close> is well-formed, holds exactly \<open>E\<close>, has the
  capacity of \<open>q\<close>, and the store changed at most in the positions of elements of \<open>E\<close>.
\<close>

definition pq_upd :: "'e set \<Rightarrow> ('s, 'e) pqueue_t \<Rightarrow> 's \<Rightarrow> ('s, 'e) pqueue_t \<Rightarrow> 's \<Rightarrow> bool" where
  "pq_upd E q s q' s' \<longleftrightarrow> pq_inv live q' s' \<and> pq_elems q' = E \<and>
     pq_wired cmp gpri spri gpos spos q' \<and> length (pq_d q') = length (pq_d q) \<and>
     pq_size q' = pq_size q \<and> store_frame gpri gpos live rest E s s'"

lemma hole_fill:
  assumes w: "pq_wired cmp gpri spri gpos spos q" and n: "pq_size q = n"
    and len: "length (pq_d q) = len" and h: "hole_inv gpos live n len E m i d s"
    and fr: "store_frame gpri gpos live rest E s0 s"
    and hp: "\<forall>j. 2 \<le> j \<longrightarrow> j < n \<longrightarrow>
        \<not> cmp (gpri s0 (d[i := m] ! parent j)) (gpri s0 (d[i := m] ! j))"
  shows "pq_upd E q s0 (q\<lparr>pq_d := d[i := m]\<rparr>) (spos m i s)"
proof -
  let ?q = "q\<lparr>pq_d := d[i := m]\<rparr>" and ?s = "spos m i s"
  have i: "1 \<le> i" "i < n" "n \<le> length d" and ld: "length d = len" and lm: "live s m"
    and mE: "m \<in> E"
    using h by (auto simp: hole_inv_def)
  have els: "pq_elems ?q = E"
  proof -
    have "pq_elems ?q = insert m ((\<lambda>j. d ! j) ` ({1..<n} - {i}))"
      unfolding pq_elems_def using i n by (auto simp: nth_list_update image_iff)
    then show ?thesis using h by (simp add: hole_inv_def)
  qed
  have slots: "live ?s (d[i := m] ! j) \<and> gpos ?s (d[i := m] ! j) = j" if j: "1 \<le> j" "j < n" for j
  proof (cases "j = i")
    case True
    then show ?thesis using i lm by (simp add: live_spos gpos_spos)
  next
    case False
    then have "live s (d ! j)" "gpos s (d ! j) = j" "d ! j \<noteq> m"
      using h j by (auto simp: hole_inv_def)
    then show ?thesis using False by (simp add: live_spos gpos_spos_other)
  qed
  have fr': "store_frame gpri gpos live rest E s0 ?s" by (rule store_frame_spos [OF fr mE])
  have "pq_heap ?q ?s"
    using hp fr' w n by (auto simp: pq_heap_def pq_wired_def store_frame_def)
  then have "pq_inv live ?q ?s"
    using slots w n i by (auto simp: pq_inv_def pq_wired_def)
  then show ?thesis
    using els fr' w n ld len by (auto simp: pq_upd_def pq_wired_def)
qed

lemma bubble_up_correct:
  assumes w: "pq_wired cmp gpri spri gpos spos q"
    and h: "hole_inv gpos live (pq_size q) (length (pq_d q)) E (pq_d q ! i) i (pq_d q) s"
    and ok: "up_ok cmp (gpri s) (pq_size q) (pq_d q) i"
  shows "\<exists>q' s'. bubble_up q i s = Some (q', s') \<and> pq_upd E q s q' s'"
proof -
  let ?m = "pq_d q ! i"
  have i: "i < length (pq_d q)" using h by (auto simp: hole_inv_def)
  have gp: "getpri q = gpri" "setpos q = spos" using w by (auto simp: pq_wired_def)
  obtain i' d' s' where r: "bubble_up_loop q (gpri s ?m) i (pq_d q) s = Some (i', d', s')"
    and h': "hole_inv gpos live (pq_size q) (length (pq_d q)) E ?m i' d' s'"
    and fr: "store_frame gpri gpos live rest E s s'"
    and hp: "\<forall>j. 2 \<le> j \<longrightarrow> j < pq_size q \<longrightarrow>
        \<not> cmp (gpri s (d'[i' := ?m] ! parent j)) (gpri s (d'[i' := ?m] ! j))"
    using bubble_up_loop_correct [OF w refl h store_frame_refl] ok by auto
  have "i' < length d'" using h' by (auto simp: hole_inv_def)
  then have "bubble_up q i s = Some (q\<lparr>pq_d := d'[i' := ?m]\<rparr>, spos ?m i' s')"
    using i r by (simp add: bubble_up_def gp)
  with hole_fill [OF w refl refl h' fr hp] show ?thesis by blast
qed

lemma percolate_down_correct:
  assumes w: "pq_wired cmp gpri spri gpos spos q"
    and h: "hole_inv gpos live (pq_size q) (length (pq_d q)) E (pq_d q ! i) i (pq_d q) s"
    and ok: "down_ok cmp (gpri s) (pq_size q) (pq_d q) i"
  shows "\<exists>q' s'. percolate_down q i s = Some (q', s') \<and> pq_upd E q s q' s'"
proof -
  let ?m = "pq_d q ! i"
  have i: "i < length (pq_d q)" using h by (auto simp: hole_inv_def)
  have gp: "getpri q = gpri" "setpos q = spos" using w by (auto simp: pq_wired_def)
  obtain i' d' s' where r: "percolate_down_loop q (gpri s ?m) i (pq_d q) s = Some (i', d', s')"
    and h': "hole_inv gpos live (pq_size q) (length (pq_d q)) E ?m i' d' s'"
    and fr: "store_frame gpri gpos live rest E s s'"
    and hp: "\<forall>j. 2 \<le> j \<longrightarrow> j < pq_size q \<longrightarrow>
        \<not> cmp (gpri s (d'[i' := ?m] ! parent j)) (gpri s (d'[i' := ?m] ! j))"
    using percolate_down_loop_correct [OF w refl h store_frame_refl] ok by auto
  have "i' < length d'" using h' by (auto simp: hole_inv_def)
  then have "percolate_down q i s = Some (q\<lparr>pq_d := d'[i' := ?m]\<rparr>, spos ?m i' s')"
    using i r by (simp add: percolate_down_def gp)
  with hole_fill [OF w refl refl h' fr hp] show ?thesis by blast
qed

text \<open>Facts about a well-formed queue.\<close>

lemma pq_slot:
  assumes "pq_wired cmp gpri spri gpos spos q" "pq_inv live q s" "1 \<le> i" "i < pq_size q"
  shows "live s (pq_d q ! i)" and "gpos s (pq_d q ! i) = i" and "pq_d q ! i \<in> pq_elems q"
  using assms by (auto simp: pq_inv_def pq_wired_def pq_elems_def)

lemma pq_slot_inj:
  assumes "pq_wired cmp gpri spri gpos spos q" "pq_inv live q s"
    and "1 \<le> i" "i < pq_size q" "1 \<le> j" "j < pq_size q" "pq_d q ! i = pq_d q ! j"
  shows "i = j"
  using pq_slot(2) [OF assms(1,2,3,4)] pq_slot(2) [OF assms(1,2,5,6)] assms(7) by metis

lemma pq_elemE:
  assumes "pq_wired cmp gpri spri gpos spos q" "pq_inv live q s" "e \<in> pq_elems q"
  shows "1 \<le> gpos s e" and "gpos s e < pq_size q" and "pq_d q ! gpos s e = e" and "live s e"
proof -
  obtain i where i: "1 \<le> i" "i < pq_size q" "e = pq_d q ! i"
    using assms(3) by (auto simp: pq_elems_def)
  have "gpos s e = i" "live s e"
    unfolding i(3) by (rule pq_slot(2) [OF assms(1,2) i(1,2)], rule pq_slot(1) [OF assms(1,2) i(1,2)])
  with i show "1 \<le> gpos s e" and "gpos s e < pq_size q" and "pq_d q ! gpos s e = e" and "live s e"
    by simp_all
qed

lemma card_pq_elems:
  assumes "pq_wired cmp gpri spri gpos spos q" "pq_inv live q s"
  shows "card (pq_elems q) = pq_size q - 1" and "finite (pq_elems q)"
proof -
  have "inj_on (\<lambda>i. pq_d q ! i) {1..<pq_size q}"
    using pq_slot_inj [OF assms] by (auto simp: inj_on_def)
  then show "card (pq_elems q) = pq_size q - 1"
    unfolding pq_elems_def by (simp add: card_image)
  show "finite (pq_elems q)" by (simp add: pq_elems_def)
qed

lemma pq_heapD:
  assumes "pq_wired cmp gpri spri gpos spos q" "pq_inv live q s" "2 \<le> j" "j < pq_size q"
  shows "\<not> cmp (gpri s (pq_d q ! parent j)) (gpri s (pq_d q ! j))"
  using assms by (auto simp: pq_inv_def pq_heap_def pq_wired_def)

lemma pq_head_first:
  assumes "pq_wired cmp gpri spri gpos spos q" "pq_inv live q s" "1 \<le> j" "j < pq_size q"
  shows "\<not> cmp (gpri s (pq_d q ! 1)) (gpri s (pq_d q ! j))"
  using assms(3,4)
proof (induction j rule: less_induct)
  case (less j)
  show ?case
  proof (cases "j = 1")
    case True
    then show ?thesis using cmp_asym by auto
  next
    case False
    then have j: "2 \<le> j" using less.prems by simp
    have "\<not> cmp (gpri s (pq_d q ! 1)) (gpri s (pq_d q ! parent j))"
      using less.IH [of "parent j"] parent_less [of j] parent_pos [OF j] less.prems by simp
    then show ?thesis
      using pq_heapD [OF assms(1,2) j less.prems(2)] by (rule cmp_negtrans)
  qed
qed

lemma pq_inv_hole:
  assumes w: "pq_wired cmp gpri spri gpos spos q" and inv: "pq_inv live q s"
    and i: "1 \<le> i" "i < pq_size q"
  shows "hole_inv gpos live (pq_size q) (length (pq_d q)) (pq_elems q) (pq_d q ! i) i (pq_d q) s"
proof -
  have "insert (pq_d q ! i) ((\<lambda>j. pq_d q ! j) ` ({1..<pq_size q} - {i})) = pq_elems q"
    unfolding pq_elems_def using i by auto
  then show ?thesis
    using pq_slot [OF w inv] pq_slot_inj [OF w inv] i inv
    by (auto simp: hole_inv_def pq_inv_def)
qed

theorem pqueue_insert_correct:
  assumes w: "pq_wired cmp gpri spri gpos spos q" and inv: "pq_inv live q s"
    and e: "live s e" "e \<notin> pq_elems q" and room: "pq_size q < length (pq_d q)"
  shows "\<exists>q' s'. pqueue_insert q e s = Some (q', s') \<and>
     pq_upd (insert e (pq_elems q)) (q\<lparr>pq_size := pq_size q + 1\<rparr>) s q' s'"
proof -
  let ?n = "pq_size q" and ?d = "(pq_d q)[pq_size q := e]"
  let ?q = "q\<lparr>pq_size := ?n + 1, pq_d := ?d\<rparr>"
  have n: "1 \<le> ?n" using inv by (simp add: pq_inv_def)
  have w': "pq_wired cmp gpri spri gpos spos ?q" using w by (simp add: pq_wired_def)
  have at: "?d ! ?n = e" "\<And>j. j \<noteq> ?n \<Longrightarrow> ?d ! j = pq_d q ! j" using room by auto
  have "{1..<?n + 1} - {?n} = {1..<?n}" by auto
  then have "(\<lambda>j. ?d ! j) ` ({1..<?n + 1} - {?n}) = pq_elems q"
    unfolding pq_elems_def by (auto intro!: image_cong)
  then have h: "hole_inv gpos live (pq_size ?q) (length (pq_d ?q)) (insert e (pq_elems q)) (pq_d ?q ! ?n) ?n
      (pq_d ?q) s"
    using n room e at pq_slot [OF w inv] by (auto simp: hole_inv_def less_Suc_eq)
  have "up_ok cmp (gpri s) (?n + 1) ?d ?n"
    unfolding up_ok_def bridged_def
  proof (intro conjI impI allI)
    fix c assume "c < ?n + 1" "parent c = ?n"
    then show "\<not> cmp (gpri s (?d ! parent ?n)) (gpri s (?d ! c))"
      using n parent_less [of c] by (cases "c = 0") (auto simp: parent_def)
  next
    fix j assume "2 \<le> j" "j < ?n + 1" "j \<noteq> ?n"
    then show "\<not> cmp (gpri s (?d ! parent j)) (gpri s (?d ! j))"
      using pq_heapD [OF w inv, of j] parent_less [of j] at by auto
  qed
  then have ok: "up_ok cmp (gpri s) (pq_size ?q) (pq_d ?q) ?n" by simp
  have "pqueue_insert q e s = bubble_up ?q ?n s"
    using room by (simp add: pqueue_insert_def)
  with bubble_up_correct [OF w' h ok] show ?thesis by (auto simp: pq_upd_def)
qed

theorem pqueue_change_priority_correct:
  assumes w: "pq_wired cmp gpri spri gpos spos q" and inv: "pq_inv live q s"
    and e: "e \<in> pq_elems q" and new: "okpri new_pri"
  shows "\<exists>q' s'. pqueue_change_priority q new_pri e s = Some (q', s') \<and>
     pq_upd (pq_elems q) q (spri e new_pri s) q' s'"
proof -
  let ?s = "spri e new_pri s" and ?i = "gpos s e" and ?d = "pq_d q" and ?n = "pq_size q"
  note sl = pq_elemE [OF w inv e]
  have cb: "cmppri q = cmp" "getpri q = gpri" "setpri q = spri" "getpos q = gpos"
    using w by (auto simp: pq_wired_def)
  have pe: "gpri ?s (?d ! ?i) = new_pri" using sl new by (simp add: gpri_spri)
  have po: "gpri ?s (?d ! j) = gpri s (?d ! j)" if "1 \<le> j" "j < ?n" "j \<noteq> ?i" for j
    using pq_slot_inj [OF w inv that(1,2) sl(1,2)] that sl(3) by (metis gpri_spri_other)
  have hd: "\<not> cmp (gpri s (?d ! parent j)) (gpri s (?d ! j))" if "2 \<le> j" "j < ?n" for j
    by (rule pq_heapD [OF w inv that])
  have pr: "1 \<le> parent j" "parent j < j" if "2 \<le> j" for j
    using that parent_pos parent_less [of j] by auto
  have h: "hole_inv gpos live ?n (length ?d) (pq_elems q) (?d ! ?i) ?i ?d ?s"
    using pq_inv_hole [OF w inv sl(1,2)] by (simp add: hole_inv_def store_laws)
  have br: "bridged cmp (gpri ?s) ?n ?d ?i"
    unfolding bridged_def
  proof (intro impI allI)
    fix c assume i2: "2 \<le> ?i" and c: "c < ?n" "parent c = ?i"
    have c2: "2 \<le> c" using c i2 by (auto simp: parent_def)
    have "\<not> cmp (gpri s (?d ! parent ?i)) (gpri s (?d ! c))"
      using hd [OF i2 sl(2)] hd [OF c2 c(1)] c(2) cmp_negtrans by metis
    moreover have "c \<noteq> ?i" "parent ?i \<noteq> ?i" using pr [OF c2] pr [OF i2] c by auto
    ultimately show "\<not> cmp (gpri ?s (?d ! parent ?i)) (gpri ?s (?d ! c))"
      using po pr [OF i2] sl(2) c c2 by auto
  qed
  show ?thesis
  proof (cases "cmp (gpri s e) new_pri")
    case True
    have "\<not> cmp (gpri ?s (?d ! parent j)) (gpri ?s (?d ! j))" if j: "2 \<le> j" "j < ?n" "j \<noteq> ?i" for j
    proof (cases "parent j = ?i")
      case True
      then have "\<not> cmp new_pri (gpri s (?d ! j))"
        using hd [OF j(1,2)] cmp_asym [OF \<open>cmp (gpri s e) new_pri\<close>] sl(3) cmp_negtrans by metis
      then show ?thesis using True pe po j by auto
    next
      case False
      then show ?thesis using hd [OF j(1,2)] po pr [OF j(1)] j by auto
    qed
    with br have ok: "up_ok cmp (gpri ?s) ?n ?d ?i" by (auto simp: up_ok_def)
    have "pqueue_change_priority q new_pri e s = bubble_up q ?i ?s"
      using True by (simp add: pqueue_change_priority_def Let_def cb store_laws)
    with bubble_up_correct [OF w h ok] show ?thesis by simp
  next
    case False
    have "\<not> cmp (gpri ?s (?d ! parent j)) (gpri ?s (?d ! j))" if j: "2 \<le> j" "j < ?n" "parent j \<noteq> ?i" for j
    proof (cases "j = ?i")
      case True
      then have "\<not> cmp (gpri s (?d ! parent j)) new_pri"
        using hd [OF j(1,2)] False sl(3) cmp_negtrans by metis
      then show ?thesis using True pe po pr [OF j(1)] j by auto
    next
      case False
      then show ?thesis using hd [OF j(1,2)] po pr [OF j(1)] j by auto
    qed
    with br have ok: "down_ok cmp (gpri ?s) ?n ?d ?i" by (auto simp: down_ok_def)
    have "pqueue_change_priority q new_pri e s = percolate_down q ?i ?s"
      using False by (simp add: pqueue_change_priority_def Let_def cb store_laws)
    with percolate_down_correct [OF w h ok] show ?thesis by simp
  qed
qed

theorem pqueue_peek_correct:
  assumes w: "pq_wired cmp gpri spri gpos spos q" and inv: "pq_inv live q s"
  shows "pq_elems q = {} \<Longrightarrow> pqueue_peek q = Some None"
    and "pq_elems q \<noteq> {} \<Longrightarrow> pqueue_peek q = Some (Some (pq_d q ! 1)) \<and> pq_d q ! 1 \<in> pq_elems q \<and>
      (\<forall>e\<in>pq_elems q. \<not> cmp (gpri s (pq_d q ! 1)) (gpri s e))"
proof -
  have n: "1 \<le> pq_size q" "pq_size q \<le> length (pq_d q)" using inv by (auto simp: pq_inv_def)
  show "pqueue_peek q = Some None" if "pq_elems q = {}"
    using that n by (auto simp: pqueue_peek_def pq_elems_def)
  assume "pq_elems q \<noteq> {}"
  then have n2: "2 \<le> pq_size q" by (auto simp: pq_elems_def)
  then show "pqueue_peek q = Some (Some (pq_d q ! 1)) \<and> pq_d q ! 1 \<in> pq_elems q \<and>
      (\<forall>e\<in>pq_elems q. \<not> cmp (gpri s (pq_d q ! 1)) (gpri s e))"
    using n pq_head_first [OF w inv] by (auto simp: pqueue_peek_def pq_elems_def)
qed

theorem pqueue_pop_correct:
  assumes w: "pq_wired cmp gpri spri gpos spos q" and inv: "pq_inv live q s"
    and ne: "pq_elems q \<noteq> {}"
  shows "\<exists>q' s'. pqueue_pop q s = Some (Some (pq_d q ! 1), q', s') \<and> pq_inv live q' s' \<and>
     pq_elems q' = pq_elems q - {pq_d q ! 1} \<and> pq_wired cmp gpri spri gpos spos q' \<and>
     length (pq_d q') = length (pq_d q) \<and> pq_size q' = pq_size q - 1 \<and>
     store_frame gpri gpos live rest (pq_elems q) s s'"
proof -
  let ?n = "pq_size q" and ?d = "pq_d q"
  let ?q = "q\<lparr>pq_size := ?n - 1, pq_d := ?d[1 := ?d ! (?n - 1)]\<rparr>"
  have n: "2 \<le> ?n" "?n \<le> length ?d"
    using ne inv by (auto simp: pq_elems_def pq_inv_def)
  have cb: "cmppri q = cmp" "getpri q = gpri" "setpos q = spos" using w by (auto simp: pq_wired_def)
  have w': "pq_wired cmp gpri spri gpos spos ?q" using w by (simp add: pq_wired_def)
  have pop: "pqueue_pop q s = Option.bind (percolate_down ?q 1 s)
      (\<lambda>(q', s'). Some (Some (?d ! 1), q', s'))"
    using n by (simp add: pqueue_pop_def)
  have elems: "pq_elems q - {?d ! 1} = (\<lambda>j. ?d ! j) ` {2..<?n}"
  proof -
    have "{1..<?n} = insert 1 {2..<?n}" using n by auto
    moreover have "?d ! 1 \<notin> (\<lambda>j. ?d ! j) ` {2..<?n}"
    proof
      assume "?d ! 1 \<in> (\<lambda>j. ?d ! j) ` {2..<?n}"
      then obtain j where j: "2 \<le> j" "j < ?n" "?d ! 1 = ?d ! j" by auto
      with pq_slot_inj [OF w inv, of 1 j] show False by auto
    qed
    ultimately show ?thesis unfolding pq_elems_def by simp
  qed
  show ?thesis
  proof (cases "?n = 2")
    case True
    have "percolate_down_loop q0 p 1 d s = Some (1, d, s)" if "pq_size q0 = 1"
      for q0 :: "('s, 'e) pqueue_t" and p d
      using that by (simp add: percolate_down_loop.simps [of q0] maxchild_def heap_index_defs)
    then have "percolate_down ?q 1 s = Some (?q, spos (?d ! 1) 1 s)"
      using True n by (simp add: percolate_down_def cb)
    moreover have "pq_inv live ?q (spos (?d ! 1) 1 s)" "pq_elems ?q = {}"
      using True n by (auto simp: pq_inv_def pq_heap_def pq_elems_def)
    moreover have "store_frame gpri gpos live rest (pq_elems q) s (spos (?d ! 1) 1 s)"
      by (rule store_frame_spos [OF store_frame_refl pq_slot(3) [OF w inv]]) (use n in auto)
    ultimately show ?thesis using pop elems True w' by simp
  next
    case False
    then have n3: "3 \<le> ?n" using n by simp
    let ?m = "?d ! (?n - 1)"
    have at: "pq_d ?q ! 1 = ?m" "\<And>j. j \<noteq> 1 \<Longrightarrow> pq_d ?q ! j = ?d ! j" using n by auto
    have img: "insert ?m ((\<lambda>j. pq_d ?q ! j) ` ({1..<pq_size ?q} - {1})) = pq_elems q - {?d ! 1}"
    proof -
      have s1: "{1..<?n - 1} - {1} = {2..<?n - 1}" by auto
      have s2: "{2..<?n} = insert (?n - 1) {2..<?n - 1}" using n3 by auto
      show ?thesis unfolding elems s2 using s1 by (auto intro!: image_eqI)
    qed
    have h: "hole_inv gpos live (pq_size ?q) (length (pq_d ?q)) (pq_elems q - {?d ! 1})
        (pq_d ?q ! 1) 1 (pq_d ?q) s"
    proof -
      have "?d ! j \<noteq> ?m" if "1 \<le> j" "j < ?n - 1" for j
        using pq_slot_inj [OF w inv, of j "?n - 1"] that by auto
      with n3 n img at pq_slot [OF w inv] show ?thesis by (auto simp: hole_inv_def)
    qed
    have "\<not> cmp (gpri s (pq_d ?q ! parent j)) (gpri s (pq_d ?q ! j))"
      if "2 \<le> j" "j < pq_size ?q" "parent j \<noteq> 1" for j
      using pq_heapD [OF w inv, of j] that at by auto
    then have ok: "down_ok cmp (gpri s) (pq_size ?q) (pq_d ?q) 1"
      by (auto simp: down_ok_def bridged_def)
    obtain q' s' where r: "percolate_down ?q 1 s = Some (q', s')"
      and u: "pq_upd (pq_elems q - {?d ! 1}) ?q s q' s'"
      using percolate_down_correct [OF w' h ok] by blast
    from u have "store_frame gpri gpos live rest (pq_elems q) s s'"
      by (auto simp: pq_upd_def store_frame_def)
    with r u pop show ?thesis by (simp add: pq_upd_def)
  qed
qed

end

end
