(* ===== verification/Ssd_Params.thy ===== *)
theory Ssd_Params
  imports Nvmev_Base
begin

text \<open>
  The device configurations of \<open>ssd_config.h\<close>, the geometry derived from them by
  \<open>ssd_init_params\<close> (\<open>ssd.c\<close>) and physical page addresses (\<open>struct ppa\<close> of \<open>ssd.h\<close>).

  A build selects one block of macros of \<open>ssd_config.h\<close>; here that block is a value of the
  record \<open>ssd_config\<close>. A C \<open>int\<close> of the geometry is a natural number below \<open>2 ^ 31\<close>: the
  conversion \<open>c_int\<close> fails where the C value would not fit. \<open>unsigned long\<close> arithmetic wraps.

  Shown here: what \<open>ssd_init_params\<close> computes is a consistent geometry (\<open>geo_ok\<close>); packing
  a page address into 64 bits loses nothing; the page index \<open>ppa2pgidx\<close> of a valid address
  is below the number of pages and determines the address.
\<close>

section \<open>Configurations\<close>

datatype base_ssd = SAMSUNG_970PRO | ZNS_PROTOTYPE | WD_ZN540 | SAMSUNG_FDP

record ssd_config =
  CELL_MODE :: nat
  SSD_PARTITIONS :: nat
  NAND_CHANNELS :: nat
  LUNS_PER_NAND_CH :: nat
  PLNS_PER_LUN :: nat
  FLASH_PAGE_SIZE :: nat
  ONESHOT_PAGE_SIZE :: nat
  BLKS_PER_PLN :: nat
  BLK_SIZE :: nat
  MAX_CH_XFER_SIZE :: nat
  WRITE_UNIT_SIZE :: nat
  NAND_CHANNEL_BANDWIDTH :: nat
  PCIE_BANDWIDTH :: nat
  NAND_4KB_READ_LATENCY :: "nat list"
  NAND_READ_LATENCY :: "nat list"
  NAND_PROG_LATENCY :: nat
  NAND_ERASE_LATENCY :: nat
  FW_4KB_READ_LATENCY :: nat
  FW_READ_LATENCY :: nat
  FW_WBUF_LATENCY0 :: nat
  FW_WBUF_LATENCY1 :: nat
  FW_CH_XFER_LATENCY :: nat
  OP_AREA_PERCENT :: nat
  GLOBAL_WB_SIZE :: nat
  WRITE_EARLY_COMPLETION :: bool
  ZONE_SIZE :: nat
  DIES_PER_ZONE :: nat
  ZONE_WB_SIZE :: nat
  MAX_ZRWA_ZONES :: nat
  ZRWAFG_SIZE :: nat
  ZRWA_SIZE :: nat
  ZRWA_BUFFER_SIZE :: nat

definition CELL_MODE_UNKNOWN :: nat where "CELL_MODE_UNKNOWN = 0"
definition CELL_MODE_SLC :: nat where "CELL_MODE_SLC = 1"
definition CELL_MODE_MLC :: nat where "CELL_MODE_MLC = 2"
definition CELL_MODE_TLC :: nat where "CELL_MODE_TLC = 3"
definition CELL_MODE_QLC :: nat where "CELL_MODE_QLC = 4"

definition LBA_BITS :: nat where "LBA_BITS = 9"
definition LBA_SIZE :: nat where "LBA_SIZE = 2 ^ LBA_BITS"
definition MDTS :: nat where "MDTS = 6"
definition NR_NAMESPACES :: nat where "NR_NAMESPACES = 1"

text \<open>
  The over-provisioning share is the percentage (\<open>0.07\<close> is 7). The zone macros a conventional
  device does not define are 0.
\<close>

definition samsung_970pro :: ssd_config where
  "samsung_970pro = \<lparr>CELL_MODE = CELL_MODE_MLC,
     SSD_PARTITIONS = 4, NAND_CHANNELS = 8, LUNS_PER_NAND_CH = 2, PLNS_PER_LUN = 1,
     FLASH_PAGE_SIZE = KB 32, ONESHOT_PAGE_SIZE = KB 32 * 1, BLKS_PER_PLN = 8192, BLK_SIZE = 0,
     MAX_CH_XFER_SIZE = KB 16, WRITE_UNIT_SIZE = 512,
     NAND_CHANNEL_BANDWIDTH = 800, PCIE_BANDWIDTH = 3360,
     NAND_4KB_READ_LATENCY = [35760 - 6000, 35760 + 6000, 0],
     NAND_READ_LATENCY = [36013 - 6000, 36013 + 6000, 0],
     NAND_PROG_LATENCY = 185000, NAND_ERASE_LATENCY = 0,
     FW_4KB_READ_LATENCY = 21500, FW_READ_LATENCY = 30490,
     FW_WBUF_LATENCY0 = 4000, FW_WBUF_LATENCY1 = 460, FW_CH_XFER_LATENCY = 0,
     OP_AREA_PERCENT = 7,
     GLOBAL_WB_SIZE = 8 * 2 * (KB 32 * 1) * 2, WRITE_EARLY_COMPLETION = True,
     ZONE_SIZE = 0, DIES_PER_ZONE = 0, ZONE_WB_SIZE = 0,
     MAX_ZRWA_ZONES = 0, ZRWAFG_SIZE = 0, ZRWA_SIZE = 0, ZRWA_BUFFER_SIZE = 0\<rparr>"

definition zns_prototype :: ssd_config where
  "zns_prototype = \<lparr>CELL_MODE = CELL_MODE_TLC,
     SSD_PARTITIONS = 1, NAND_CHANNELS = 8, LUNS_PER_NAND_CH = 16, PLNS_PER_LUN = 1,
     FLASH_PAGE_SIZE = KB 64, ONESHOT_PAGE_SIZE = KB 64 * 2,
     BLKS_PER_PLN = 0, BLK_SIZE = MB 32 div 1,
     MAX_CH_XFER_SIZE = KB 64, WRITE_UNIT_SIZE = KB 64 * 2,
     NAND_CHANNEL_BANDWIDTH = 800, PCIE_BANDWIDTH = 3200,
     NAND_4KB_READ_LATENCY = [25485, 25485, 25485],
     NAND_READ_LATENCY = [40950, 40950, 40950],
     NAND_PROG_LATENCY = 1913640, NAND_ERASE_LATENCY = 0,
     FW_4KB_READ_LATENCY = 37540 - 7390 + 2000, FW_READ_LATENCY = 37540 - 7390 + 2000,
     FW_WBUF_LATENCY0 = 0, FW_WBUF_LATENCY1 = 0, FW_CH_XFER_LATENCY = 413,
     OP_AREA_PERCENT = 0,
     GLOBAL_WB_SIZE = 8 * 16 * (KB 64 * 2) * 2, WRITE_EARLY_COMPLETION = False,
     ZONE_SIZE = MB 32, DIES_PER_ZONE = 1, ZONE_WB_SIZE = 0,
     MAX_ZRWA_ZONES = 0, ZRWAFG_SIZE = 0, ZRWA_SIZE = 0, ZRWA_BUFFER_SIZE = 0\<rparr>"

definition samsung_fdp :: ssd_config where
  "samsung_fdp = \<lparr>CELL_MODE = CELL_MODE_MLC,
     SSD_PARTITIONS = 4, NAND_CHANNELS = 8, LUNS_PER_NAND_CH = 2, PLNS_PER_LUN = 1,
     FLASH_PAGE_SIZE = KB 32, ONESHOT_PAGE_SIZE = KB 32 * 1, BLKS_PER_PLN = 128, BLK_SIZE = 0,
     MAX_CH_XFER_SIZE = KB 16, WRITE_UNIT_SIZE = 512,
     NAND_CHANNEL_BANDWIDTH = 800, PCIE_BANDWIDTH = 3360,
     NAND_4KB_READ_LATENCY = [35760 - 6000, 35760 + 6000, 0],
     NAND_READ_LATENCY = [36013 - 6000, 36013 + 6000, 0],
     NAND_PROG_LATENCY = 185000, NAND_ERASE_LATENCY = 0,
     FW_4KB_READ_LATENCY = 21500, FW_READ_LATENCY = 30490,
     FW_WBUF_LATENCY0 = 4000, FW_WBUF_LATENCY1 = 460, FW_CH_XFER_LATENCY = 0,
     OP_AREA_PERCENT = 7,
     GLOBAL_WB_SIZE = MB 256, WRITE_EARLY_COMPLETION = True,
     ZONE_SIZE = 0, DIES_PER_ZONE = 0, ZONE_WB_SIZE = 0,
     MAX_ZRWA_ZONES = 0, ZRWAFG_SIZE = 0, ZRWA_SIZE = 0, ZRWA_BUFFER_SIZE = 0\<rparr>"

definition wd_zn540 :: ssd_config where
  "wd_zn540 = \<lparr>CELL_MODE = CELL_MODE_TLC,
     SSD_PARTITIONS = 1, NAND_CHANNELS = 8, LUNS_PER_NAND_CH = 4, PLNS_PER_LUN = 1,
     FLASH_PAGE_SIZE = KB 32, ONESHOT_PAGE_SIZE = KB 32 * 3,
     BLKS_PER_PLN = 0, BLK_SIZE = GB 2 div (8 * 4),
     MAX_CH_XFER_SIZE = KB 32, WRITE_UNIT_SIZE = 512,
     NAND_CHANNEL_BANDWIDTH = 450, PCIE_BANDWIDTH = 3050,
     NAND_4KB_READ_LATENCY = [50000, 50000, 50000],
     NAND_READ_LATENCY = [58000, 58000, 58000],
     NAND_PROG_LATENCY = 561000, NAND_ERASE_LATENCY = 0,
     FW_4KB_READ_LATENCY = 20000, FW_READ_LATENCY = 13000,
     FW_WBUF_LATENCY0 = 5600, FW_WBUF_LATENCY1 = 600, FW_CH_XFER_LATENCY = 0,
     OP_AREA_PERCENT = 0,
     GLOBAL_WB_SIZE = 0, WRITE_EARLY_COMPLETION = True,
     ZONE_SIZE = GB 2, DIES_PER_ZONE = 8 * 4, ZONE_WB_SIZE = 10 * (KB 32 * 3),
     MAX_ZRWA_ZONES = 0, ZRWAFG_SIZE = 0, ZRWA_SIZE = 0, ZRWA_BUFFER_SIZE = 0\<rparr>"

definition config_of :: "base_ssd \<Rightarrow> ssd_config" where
  "config_of b = (case b of SAMSUNG_970PRO \<Rightarrow> samsung_970pro | ZNS_PROTOTYPE \<Rightarrow> zns_prototype
     | WD_ZN540 \<Rightarrow> wd_zn540 | SAMSUNG_FDP \<Rightarrow> samsung_fdp)"

definition FDP_NR_RG :: nat where "FDP_NR_RG = 1"
definition FDP_NR_RUH :: nat where "FDP_NR_RUH = 8"
definition FDP_NR_EVENTS :: nat where "FDP_NR_EVENTS = 63"

lemmas config_defs = samsung_970pro_def zns_prototype_def samsung_fdp_def wd_zn540_def
  CELL_MODE_MLC_def CELL_MODE_TLC_def KB_def MB_def GB_def

section \<open>Geometry\<close>

record ssdparams =
  secsz :: nat
  secs_per_pg :: nat
  pgsz :: nat
  pgs_per_flashpg :: nat
  flashpgs_per_blk :: nat
  pgs_per_oneshotpg :: nat
  oneshotpgs_per_blk :: nat
  pgs_per_blk :: nat
  blks_per_pl :: nat
  pls_per_lun :: nat
  luns_per_ch :: nat
  nchs :: nat
  cell_mode :: nat
  write_unit_size :: nat
  write_early_completion :: bool
  pg_4kb_rd_lat :: "nat list"
  pg_rd_lat :: "nat list"
  pg_wr_lat :: nat
  blk_er_lat :: nat
  max_ch_xfer_size :: nat
  fw_4kb_rd_lat :: nat
  fw_rd_lat :: nat
  fw_wbuf_lat0 :: nat
  fw_wbuf_lat1 :: nat
  fw_ch_xfer_lat :: nat
  ch_bandwidth :: nat
  pcie_bandwidth :: nat
  secs_per_blk :: nat
  secs_per_pl :: nat
  secs_per_lun :: nat
  secs_per_ch :: nat
  tt_secs :: nat
  pgs_per_pl :: nat
  pgs_per_lun :: nat
  pgs_per_ch :: nat
  tt_pgs :: nat
  blks_per_lun :: nat
  blks_per_ch :: nat
  tt_blks :: nat
  secs_per_line :: nat
  pgs_per_line :: nat
  blks_per_line :: nat
  tt_lines :: nat
  pls_per_ch :: nat
  tt_pls :: nat
  tt_luns :: nat
  write_buffer_size :: nat

definition c_int :: "nat \<Rightarrow> nat option" where
  "c_int n = (if n < 2147483648 then Some n else None)"

lemma c_int_eq_Some [simp]: "c_int n = Some m \<longleftrightarrow> n < 2147483648 \<and> m = n"
  by (auto simp: c_int_def)

lemma c_int_in [crash_simps]: "n < 2147483648 \<Longrightarrow> c_int n = Some n"
  by simp

text \<open>\<open>capacity / 0\<close> and the modulo by \<open>nparts = 0\<close> stop the machine.\<close>

definition ssd_init_params :: "ssd_config \<Rightarrow> nat \<Rightarrow> nat \<Rightarrow> ssdparams option" where
  "ssd_init_params c capacity nparts = do {
     let secsz0 = LBA_SIZE;
     let secs_per_pg0 = 4096 div LBA_SIZE;
     let pgsz0 = secsz0 * secs_per_pg0;
     let pls0 = PLNS_PER_LUN c;
     let luns0 = LUNS_PER_NAND_CH c;
     NVMEV_ASSERT (nparts \<noteq> 0 \<and> NAND_CHANNELS c mod nparts = 0);
     let nchs0 = NAND_CHANNELS c div nparts;
     let capacity0 = capacity div nparts;
     (blks0, blk_size) \<leftarrow>
       (if BLKS_PER_PLN c > 0 then do {
          d \<leftarrow> c_int (BLKS_PER_PLN c * pls0 * luns0 * nchs0);
          NVMEV_ASSERT (d \<noteq> 0);
          Some (BLKS_PER_PLN c, DIV_ROUND_UP capacity0 d)
        } else do {
          NVMEV_ASSERT (BLK_SIZE c > 0);
          let d = u64 (BLK_SIZE c * pls0 * luns0 * nchs0);
          NVMEV_ASSERT (d \<noteq> 0);
          b \<leftarrow> c_int (DIV_ROUND_UP capacity0 d);
          Some (b, BLK_SIZE c)
        });
     NVMEV_ASSERT (ONESHOT_PAGE_SIZE c mod pgsz0 = 0 \<and> FLASH_PAGE_SIZE c mod pgsz0 = 0);
     NVMEV_ASSERT (FLASH_PAGE_SIZE c \<noteq> 0 \<and> ONESHOT_PAGE_SIZE c mod FLASH_PAGE_SIZE c = 0);
     let pgs_per_oneshotpg0 = ONESHOT_PAGE_SIZE c div pgsz0;
     oneshotpgs_per_blk0 \<leftarrow> c_int (DIV_ROUND_UP blk_size (ONESHOT_PAGE_SIZE c));
     let pgs_per_flashpg0 = FLASH_PAGE_SIZE c div pgsz0;
     flashpgs_per_blk0 \<leftarrow>
       c_int ((ONESHOT_PAGE_SIZE c div FLASH_PAGE_SIZE c) * oneshotpgs_per_blk0);
     pgs_per_blk0 \<leftarrow> c_int (pgs_per_oneshotpg0 * oneshotpgs_per_blk0);
     secs_per_blk0 \<leftarrow> c_int (secs_per_pg0 * pgs_per_blk0);
     let secs_per_pl0 = u64 (secs_per_blk0 * blks0);
     let secs_per_lun0 = u64 (secs_per_pl0 * pls0);
     let secs_per_ch0 = u64 (secs_per_lun0 * luns0);
     let tt_secs0 = u64 (secs_per_ch0 * nchs0);
     pgs_per_pl0 \<leftarrow> c_int (pgs_per_blk0 * blks0);
     let pgs_per_lun0 = u64 (pgs_per_pl0 * pls0);
     let pgs_per_ch0 = u64 (pgs_per_lun0 * luns0);
     let tt_pgs0 = u64 (pgs_per_ch0 * nchs0);
     blks_per_lun0 \<leftarrow> c_int (blks0 * pls0);
     let blks_per_ch0 = u64 (blks_per_lun0 * luns0);
     let tt_blks0 = u64 (blks_per_ch0 * nchs0);
     pls_per_ch0 \<leftarrow> c_int (pls0 * luns0);
     let tt_pls0 = u64 (pls_per_ch0 * nchs0);
     tt_luns0 \<leftarrow> c_int (luns0 * nchs0);
     let blks_per_line0 = tt_luns0;
     let pgs_per_line0 = u64 (blks_per_line0 * pgs_per_blk0);
     let secs_per_line0 = u64 (pgs_per_line0 * secs_per_pg0);
     let tt_lines0 = blks_per_lun0;
     Some \<lparr>secsz = secsz0, secs_per_pg = secs_per_pg0, pgsz = pgsz0,
       pgs_per_flashpg = pgs_per_flashpg0, flashpgs_per_blk = flashpgs_per_blk0,
       pgs_per_oneshotpg = pgs_per_oneshotpg0, oneshotpgs_per_blk = oneshotpgs_per_blk0,
       pgs_per_blk = pgs_per_blk0, blks_per_pl = blks0, pls_per_lun = pls0,
       luns_per_ch = luns0, nchs = nchs0, cell_mode = CELL_MODE c,
       write_unit_size = WRITE_UNIT_SIZE c,
       write_early_completion = WRITE_EARLY_COMPLETION c,
       pg_4kb_rd_lat = NAND_4KB_READ_LATENCY c, pg_rd_lat = NAND_READ_LATENCY c,
       pg_wr_lat = NAND_PROG_LATENCY c, blk_er_lat = NAND_ERASE_LATENCY c,
       max_ch_xfer_size = MAX_CH_XFER_SIZE c,
       fw_4kb_rd_lat = FW_4KB_READ_LATENCY c, fw_rd_lat = FW_READ_LATENCY c,
       fw_wbuf_lat0 = FW_WBUF_LATENCY0 c, fw_wbuf_lat1 = FW_WBUF_LATENCY1 c,
       fw_ch_xfer_lat = FW_CH_XFER_LATENCY c,
       ch_bandwidth = NAND_CHANNEL_BANDWIDTH c, pcie_bandwidth = PCIE_BANDWIDTH c,
       secs_per_blk = secs_per_blk0, secs_per_pl = secs_per_pl0, secs_per_lun = secs_per_lun0,
       secs_per_ch = secs_per_ch0, tt_secs = tt_secs0,
       pgs_per_pl = pgs_per_pl0, pgs_per_lun = pgs_per_lun0, pgs_per_ch = pgs_per_ch0,
       tt_pgs = tt_pgs0,
       blks_per_lun = blks_per_lun0, blks_per_ch = blks_per_ch0, tt_blks = tt_blks0,
       secs_per_line = secs_per_line0, pgs_per_line = pgs_per_line0,
       blks_per_line = blks_per_line0, tt_lines = tt_lines0,
       pls_per_ch = pls_per_ch0, tt_pls = tt_pls0, tt_luns = tt_luns0,
       write_buffer_size = GLOBAL_WB_SIZE c\<rparr>
   }"

text \<open>
  What every FTL relies on of the geometry: no level is empty, a block is a whole number of
  one-shot and of flash pages, the page and line totals are the products of the level sizes,
  the pages of a line can be counted in an \<open>int\<close>,
  a cell mode selects a latency, and every coordinate fits its bit field of \<open>struct ppa\<close>.
\<close>

definition geo_ok :: "ssdparams \<Rightarrow> bool" where
  "geo_ok sp \<longleftrightarrow>
     0 < nchs sp \<and> nchs sp \<le> 256 \<and> 0 < luns_per_ch sp \<and> luns_per_ch sp \<le> 256 \<and>
     pls_per_lun sp = 1 \<and> 0 < blks_per_pl sp \<and> blks_per_pl sp \<le> 65536 \<and>
     0 < pgs_per_oneshotpg sp \<and> 0 < oneshotpgs_per_blk sp \<and> 0 < pgs_per_flashpg sp \<and>
     pgs_per_blk sp = pgs_per_oneshotpg sp * oneshotpgs_per_blk sp \<and>
     pgs_per_blk sp = pgs_per_flashpg sp * flashpgs_per_blk sp \<and> pgs_per_blk sp \<le> 65536 \<and>
     pgs_per_pl sp = pgs_per_blk sp * blks_per_pl sp \<and> pgs_per_lun sp = pgs_per_pl sp \<and>
     pgs_per_ch sp = pgs_per_lun sp * luns_per_ch sp \<and> tt_pgs sp = pgs_per_ch sp * nchs sp \<and>
     tt_luns sp = luns_per_ch sp * nchs sp \<and> pgs_per_line sp = tt_luns sp * pgs_per_blk sp \<and>
     pgs_per_line sp < 2147483648 \<and> tt_lines sp = blks_per_pl sp \<and>
     0 < cell_mode sp \<and> cell_mode sp \<le> length (pg_4kb_rd_lat sp) \<and>
     cell_mode sp \<le> length (pg_rd_lat sp) \<and> 0 < max_ch_xfer_size sp \<and>
     0 < secs_per_pg sp \<and> 0 < pgsz sp"

lemma geo_pos:
  assumes "geo_ok sp"
  shows "0 < nchs sp" "0 < luns_per_ch sp" "0 < blks_per_pl sp" "0 < pgs_per_oneshotpg sp"
    "0 < pgs_per_flashpg sp" "0 < oneshotpgs_per_blk sp" "0 < cell_mode sp"
    "0 < max_ch_xfer_size sp" "0 < secs_per_pg sp" "0 < pgsz sp"
  using assms unfolding geo_ok_def by blast+

lemma geo_eqs:
  assumes "geo_ok sp"
  shows "pls_per_lun sp = 1" "tt_lines sp = blks_per_pl sp"
    "pgs_per_blk sp = pgs_per_oneshotpg sp * oneshotpgs_per_blk sp"
    "pgs_per_blk sp = pgs_per_flashpg sp * flashpgs_per_blk sp"
    "pgs_per_line sp = tt_luns sp * pgs_per_blk sp" "tt_luns sp = luns_per_ch sp * nchs sp"
  using assms unfolding geo_ok_def by blast+

lemma geo_le:
  assumes "geo_ok sp"
  shows "nchs sp \<le> 256" "luns_per_ch sp \<le> 256" "blks_per_pl sp \<le> 65536" "pgs_per_blk sp \<le> 65536"
    "cell_mode sp \<le> length (pg_4kb_rd_lat sp)" "cell_mode sp \<le> length (pg_rd_lat sp)"
    "pgs_per_line sp < 2147483648"
  using assms unfolding geo_ok_def by blast+

lemma geo_pgs_pos:
  assumes "geo_ok sp" shows "0 < pgs_per_blk sp" "0 < pgs_per_line sp" "0 < flashpgs_per_blk sp"
proof -
  show "0 < pgs_per_blk sp" using geo_pos [OF assms] geo_eqs(3) [OF assms] by simp
  then show "0 < pgs_per_line sp" "0 < flashpgs_per_blk sp"
    using geo_pos [OF assms] geo_eqs(4,5,6) [OF assms] by (auto intro: Nat.gr0I)
qed

section \<open>Physical page addresses\<close>

text \<open>
  \<open>struct ppa\<close> is a union: the bit fields of \<open>g\<close>, the view \<open>h\<close> whose \<open>blk_in_ssd\<close> joins the
  four middle fields, and the raw 64-bit value. The record holds the fields of \<open>g\<close>; the other
  two views are functions of it. Writing a field truncates to its width.
\<close>

record ppa =
  g_pg :: nat
  g_blk :: nat
  g_pl :: nat
  g_lun :: nat
  g_ch :: nat
  g_rsv :: nat

definition PAGE_BITS :: nat where "PAGE_BITS = 16"
definition BLK_BITS :: nat where "BLK_BITS = 16"
definition PL_BITS :: nat where "PL_BITS = 8"
definition LUN_BITS :: nat where "LUN_BITS = 8"
definition CH_BITS :: nat where "CH_BITS = 8"
definition TOTAL_PPA_BITS :: nat where "TOTAL_PPA_BITS = 64"
definition RSB_BITS :: nat where
  "RSB_BITS = TOTAL_PPA_BITS - (BLK_BITS + PAGE_BITS + PL_BITS + LUN_BITS + CH_BITS)"

lemmas ppa_bits_defs = PAGE_BITS_def BLK_BITS_def PL_BITS_def LUN_BITS_def CH_BITS_def
  TOTAL_PPA_BITS_def RSB_BITS_def

definition ppa_value :: "ppa \<Rightarrow> nat" where
  "ppa_value p = g_pg p + 2 ^ PAGE_BITS * (g_blk p + 2 ^ BLK_BITS * (g_pl p + 2 ^ PL_BITS *
     (g_lun p + 2 ^ LUN_BITS * (g_ch p + 2 ^ CH_BITS * g_rsv p))))"

definition ppa_of_value :: "nat \<Rightarrow> ppa" where
  "ppa_of_value n =
     \<lparr>g_pg = n mod 2 ^ PAGE_BITS,
      g_blk = n div 2 ^ PAGE_BITS mod 2 ^ BLK_BITS,
      g_pl = n div 2 ^ (PAGE_BITS + BLK_BITS) mod 2 ^ PL_BITS,
      g_lun = n div 2 ^ (PAGE_BITS + BLK_BITS + PL_BITS) mod 2 ^ LUN_BITS,
      g_ch = n div 2 ^ (PAGE_BITS + BLK_BITS + PL_BITS + LUN_BITS) mod 2 ^ CH_BITS,
      g_rsv = n div 2 ^ (PAGE_BITS + BLK_BITS + PL_BITS + LUN_BITS + CH_BITS) mod 2 ^ RSB_BITS\<rparr>"

definition ppa_fits :: "ppa \<Rightarrow> bool" where
  "ppa_fits p \<longleftrightarrow> g_pg p < 2 ^ PAGE_BITS \<and> g_blk p < 2 ^ BLK_BITS \<and> g_pl p < 2 ^ PL_BITS \<and>
     g_lun p < 2 ^ LUN_BITS \<and> g_ch p < 2 ^ CH_BITS \<and> g_rsv p < 2 ^ RSB_BITS"

definition blk_in_ssd :: "ppa \<Rightarrow> nat" where
  "blk_in_ssd p = ppa_value p div 2 ^ PAGE_BITS mod 2 ^ (BLK_BITS + PL_BITS + LUN_BITS + CH_BITS)"

definition UNMAPPED_PPA :: nat where "UNMAPPED_PPA = 18446744073709551615"
definition INVALID_PPA :: nat where "INVALID_PPA = 18446744073709551615"
definition INVALID_LPN :: nat where "INVALID_LPN = 18446744073709551615"

text \<open>The zero address, and the five assignments that fill it in.\<close>

definition mk_ppa :: "nat \<Rightarrow> nat \<Rightarrow> nat \<Rightarrow> nat \<Rightarrow> nat \<Rightarrow> ppa" where
  "mk_ppa ch lun pl blk pg = \<lparr>g_pg = pg mod 2 ^ PAGE_BITS, g_blk = blk mod 2 ^ BLK_BITS,
     g_pl = pl mod 2 ^ PL_BITS, g_lun = lun mod 2 ^ LUN_BITS, g_ch = ch mod 2 ^ CH_BITS,
     g_rsv = 0\<rparr>"

definition unmapped_ppa :: ppa where "unmapped_ppa = ppa_of_value UNMAPPED_PPA"

definition mapped_ppa :: "ppa \<Rightarrow> bool" where
  "mapped_ppa p = (\<not> ppa_value p = UNMAPPED_PPA)"

definition valid_ppa :: "ssdparams \<Rightarrow> ppa \<Rightarrow> bool" where
  "valid_ppa sp p =
     (if g_ch p \<ge> nchs sp then False
      else if g_lun p \<ge> luns_per_ch sp then False
      else if g_pl p \<ge> pls_per_lun sp then False
      else if g_blk p \<ge> blks_per_pl sp then False
      else if g_pg p \<ge> pgs_per_blk sp then False
      else True)"

definition ppa2pgidx :: "ssdparams \<Rightarrow> ppa \<Rightarrow> nat option" where
  "ppa2pgidx sp p = do {
     let pgidx = u64 (g_ch p * pgs_per_ch sp + g_lun p * pgs_per_lun sp +
        g_pl p * pgs_per_pl sp + g_blk p * pgs_per_blk sp + g_pg p);
     NVMEV_ASSERT (pgidx < tt_pgs sp);
     Some pgidx
   }"

definition is_same_flash_page :: "ssdparams \<Rightarrow> ppa \<Rightarrow> ppa \<Rightarrow> bool" where
  "is_same_flash_page sp ppa1 ppa2 =
     (let ppa1_page = g_pg ppa1 div pgs_per_flashpg sp;
          ppa2_page = g_pg ppa2 div pgs_per_flashpg sp
      in blk_in_ssd ppa1 = blk_in_ssd ppa2 \<and> ppa1_page = ppa2_page)"

definition last_pg_in_wordline :: "ssdparams \<Rightarrow> ppa \<Rightarrow> bool" where
  "last_pg_in_wordline sp p = (g_pg p mod pgs_per_oneshotpg sp = pgs_per_oneshotpg sp - 1)"

text \<open>Page addresses a device of the geometry really has: in range, the reserved byte zero.\<close>

definition real_ppa :: "ssdparams \<Rightarrow> ppa \<Rightarrow> bool" where
  "real_ppa sp p \<longleftrightarrow> valid_ppa sp p \<and> g_rsv p = 0"

lemma digit_div: "x < m \<Longrightarrow> (x + m * y) div m = (y :: nat)"
  by simp

lemma digit_mod: "x < m \<Longrightarrow> (x + m * y) mod m = (x :: nat)"
  by simp

lemma div_power_add: "n div 2 ^ (a + b) = n div 2 ^ a div (2 :: nat) ^ b"
  by (simp add: div_mult2_eq power_add)

lemma ppa_of_value_of_ppa:
  assumes "ppa_fits p"
  shows "ppa_of_value (ppa_value p) = p"
proof -
  have f: "g_pg p < 2 ^ PAGE_BITS" "g_blk p < 2 ^ BLK_BITS" "g_pl p < 2 ^ PL_BITS"
    "g_lun p < 2 ^ LUN_BITS" "g_ch p < 2 ^ CH_BITS" "g_rsv p < 2 ^ RSB_BITS"
    using assms by (simp_all add: ppa_fits_def)
  show ?thesis
    unfolding ppa_of_value_def ppa_value_def div_power_add
    by (simp only: f [THEN digit_div] f [THEN digit_mod] mod_less [OF f(6)]) simp
qed

lemma ppa_value_less: "ppa_fits p \<Longrightarrow> ppa_value p < 2 ^ TOTAL_PPA_BITS"
  by (cases p) (simp add: ppa_value_def ppa_fits_def ppa_bits_defs)

lemma ppa_value_inj: "ppa_fits p \<Longrightarrow> ppa_fits q \<Longrightarrow> ppa_value p = ppa_value q \<longleftrightarrow> p = q"
  by (metis ppa_of_value_of_ppa)

lemma ppa_value_of_value:
  assumes "n < 2 ^ TOTAL_PPA_BITS"
  shows "ppa_value (ppa_of_value n) = n" and "ppa_fits (ppa_of_value n)"
proof -
  have split: "n = n mod m + m * (n div m)" for m :: nat by simp
  show "ppa_fits (ppa_of_value n)"
    by (simp add: ppa_fits_def ppa_of_value_def ppa_bits_defs)
  have last: "n div 2 ^ 56 mod 2 ^ 8 = n div 2 ^ 56"
    using assms by (simp add: TOTAL_PPA_BITS_def)
  have s: "n div 2 ^ a = n div 2 ^ a mod 2 ^ b + 2 ^ b * (n div 2 ^ (a + b))" for a b :: nat
    by (simp add: div_power_add)
  show "ppa_value (ppa_of_value n) = n"
    unfolding ppa_value_def ppa_of_value_def ppa_bits_defs
    using split [of "2 ^ 16"] s [of 16 16] s [of 32 8] s [of 40 8] s [of 48 8] last
    by simp
qed

lemma blk_in_ssd_eq:
  assumes "ppa_fits p" "ppa_fits q"
  shows "blk_in_ssd p = blk_in_ssd q \<longleftrightarrow>
    g_blk p = g_blk q \<and> g_pl p = g_pl q \<and> g_lun p = g_lun q \<and> g_ch p = g_ch q"
proof -
  let ?m = "\<lambda>r :: ppa. g_blk r + 65536 * (g_pl r + 256 * (g_lun r + 256 * g_ch r))"
  have b: "blk_in_ssd r = ?m r" if "ppa_fits r" for r :: ppa
  proof -
    have f: "g_pg r < 2 ^ PAGE_BITS" using that by (simp add: ppa_fits_def)
    have "ppa_value r div 2 ^ PAGE_BITS = ?m r + 1099511627776 * g_rsv r"
      unfolding ppa_value_def digit_div [OF f] by (simp add: ppa_bits_defs)
    moreover have "?m r < 1099511627776"
      using that by (simp add: ppa_fits_def ppa_bits_defs)
    ultimately have "ppa_value r div 2 ^ PAGE_BITS mod 1099511627776 = ?m r"
      by (simp only: digit_mod)
    then show ?thesis by (simp add: blk_in_ssd_def ppa_bits_defs)
  qed
  have u: "x + m * y = x' + m * y' \<longleftrightarrow> x = x' \<and> y = y'"
    if "x < m" "x' < m" for x x' y y' m :: nat
  proof
    assume e: "x + m * y = x' + m * y'"
    then have "(x + m * y) mod m = (x' + m * y') mod m" "(x + m * y) div m = (x' + m * y') div m"
      by simp_all
    then show "x = x' \<and> y = y'" using that by simp
  qed simp
  have f: "g_blk r < 65536" "g_pl r < 256" "g_lun r < 256" if "ppa_fits r" for r :: ppa
    using that by (simp_all add: ppa_fits_def ppa_bits_defs)
  show ?thesis
    unfolding b [OF assms(1)] b [OF assms(2)]
    by (simp only: u [OF f(1) f(1)] u [OF f(2) f(2)] u [OF f(3) f(3)] assms)
qed

lemma valid_ppa_iff:
  "valid_ppa sp p \<longleftrightarrow> g_ch p < nchs sp \<and> g_lun p < luns_per_ch sp \<and> g_pl p < pls_per_lun sp \<and>
     g_blk p < blks_per_pl sp \<and> g_pg p < pgs_per_blk sp"
  by (auto simp: valid_ppa_def)

lemma real_ppa_fits: "geo_ok sp \<Longrightarrow> real_ppa sp p \<Longrightarrow> ppa_fits p"
  by (auto simp: real_ppa_def valid_ppa_iff ppa_fits_def geo_ok_def ppa_bits_defs)

lemma unmapped_ppa_fits: "ppa_fits unmapped_ppa"
  unfolding unmapped_ppa_def
  by (rule ppa_value_of_value) (simp add: UNMAPPED_PPA_def TOTAL_PPA_BITS_def)

lemma not_mapped_unmapped [simp]: "\<not> mapped_ppa unmapped_ppa"
  unfolding mapped_ppa_def unmapped_ppa_def
  by (subst ppa_value_of_value) (simp_all add: UNMAPPED_PPA_def TOTAL_PPA_BITS_def)

lemma unmapped_iff: "ppa_fits p \<Longrightarrow> \<not> mapped_ppa p \<longleftrightarrow> p = unmapped_ppa"
  using ppa_value_inj [OF _ unmapped_ppa_fits, of p] not_mapped_unmapped
  by (auto simp: mapped_ppa_def)

lemma unmapped_rsv: "g_rsv unmapped_ppa = 255"
  by (simp add: unmapped_ppa_def ppa_of_value_def UNMAPPED_PPA_def ppa_bits_defs)

lemma real_ppa_mapped:
  assumes "geo_ok sp" "real_ppa sp p" shows "mapped_ppa p"
  using unmapped_iff [OF real_ppa_fits [OF assms]] unmapped_rsv assms(2)
  by (auto simp: real_ppa_def)

text \<open>
  The page index is the mixed-radix value of the coordinates: it is below the number of
  pages and two real addresses with the same index are equal.
\<close>

lemma radix_less:
  fixes a b n m :: nat
  assumes "a < n" "b < m" shows "b + m * a < m * n"
proof -
  have "b + m * a < m + m * a" using assms by simp
  also have "\<dots> = m * Suc a" by simp
  also have "\<dots> \<le> m * n" using assms by (intro mult_le_mono) auto
  finally show ?thesis .
qed

lemma radix_inj:
  fixes x y m :: nat
  assumes "x < m" "x' < m" "x + m * y = x' + m * y'" shows "x = x' \<and> y = y'"
  using assms by (metis digit_div digit_mod)

definition pgidx_of :: "ssdparams \<Rightarrow> ppa \<Rightarrow> nat" where
  "pgidx_of sp p = g_pg p + pgs_per_blk sp * (g_blk p + blks_per_pl sp *
     (g_lun p + luns_per_ch sp * g_ch p))"

lemma tt_pgs_radix:
  "geo_ok sp \<Longrightarrow> tt_pgs sp = pgs_per_blk sp * (blks_per_pl sp * (luns_per_ch sp * nchs sp))"
  by (simp add: geo_ok_def)

lemma pgidx_of_less:
  assumes "geo_ok sp" "valid_ppa sp p"
  shows "pgidx_of sp p < tt_pgs sp"
  unfolding pgidx_of_def tt_pgs_radix [OF assms(1)]
  using assms(2) by (intro radix_less) (auto simp: valid_ppa_iff)

lemma tt_pgs_bound:
  assumes "geo_ok sp" shows "tt_pgs sp \<le> 281474976710656"
proof -
  have "pgs_per_blk sp * (blks_per_pl sp * (luns_per_ch sp * nchs sp)) \<le> 65536 * (65536 * (256 * 256))"
    using assms unfolding geo_ok_def by (intro mult_le_mono) auto
  then show ?thesis using tt_pgs_radix [OF assms] by simp
qed

lemma ppa2pgidx_eq:
  assumes "geo_ok sp" "valid_ppa sp p"
  shows "ppa2pgidx sp p = Some (pgidx_of sp p)"
proof -
  have "g_ch p * pgs_per_ch sp + g_lun p * pgs_per_lun sp + g_pl p * pgs_per_pl sp +
      g_blk p * pgs_per_blk sp + g_pg p = pgidx_of sp p"
    using assms by (simp add: pgidx_of_def geo_ok_def valid_ppa_iff algebra_simps)
  moreover have "pgidx_of sp p < tt_pgs sp" by (rule pgidx_of_less [OF assms])
  ultimately show ?thesis
    using tt_pgs_bound [OF assms(1)] by (simp add: ppa2pgidx_def Let_def u64_id)
qed

lemma pgidx_of_inj:
  assumes "geo_ok sp" "real_ppa sp p" "real_ppa sp q" "pgidx_of sp p = pgidx_of sp q"
  shows "p = q"
proof -
  have v: "g_pg r < pgs_per_blk sp" "g_blk r < blks_per_pl sp" "g_lun r < luns_per_ch sp"
    "g_pl r = 0" "g_rsv r = 0" if "real_ppa sp r" for r
    using assms(1) that by (auto simp: real_ppa_def valid_ppa_iff geo_ok_def)
  note p = v [OF assms(2)] and q = v [OF assms(3)]
  from radix_inj [OF p(1) q(1) assms(4) [unfolded pgidx_of_def]]
  have pg: "g_pg p = g_pg q" and 1: "g_blk p + blks_per_pl sp * (g_lun p + luns_per_ch sp * g_ch p)
      = g_blk q + blks_per_pl sp * (g_lun q + luns_per_ch sp * g_ch q)" by auto
  from radix_inj [OF p(2) q(2) 1]
  have "g_blk p = g_blk q" and 2: "g_lun p + luns_per_ch sp * g_ch p = g_lun q + luns_per_ch sp * g_ch q"
    by auto
  moreover from radix_inj [OF p(3) q(3) 2] have "g_lun p = g_lun q" "g_ch p = g_ch q" by auto
  ultimately show ?thesis using p q pg by (cases p, cases q) simp
qed

section \<open>The configured geometries are consistent\<close>

text \<open>
  With 128 blocks per plane the FDP device spreads the capacity over blocks of whole 32 KiB
  one-shot pages. Up to 512 GiB a block has at most \<open>2 ^ 16\<close> pages, so its page number fits
  the 16-bit field of a page address, and the four partitions together hold the capacity.
\<close>

lemma DIV_ROUND_UP_le: "0 < d \<Longrightarrow> n \<le> d * k \<Longrightarrow> DIV_ROUND_UP n d \<le> k"
  unfolding DIV_ROUND_UP_def by (rule less_Suc_eq_le [THEN iffD1], subst div_less_iff_less_mult)
    (auto simp: algebra_simps)

lemma DIV_ROUND_UP_pos: "0 < d \<Longrightarrow> 0 < n \<Longrightarrow> 0 < DIV_ROUND_UP n d"
  using DIV_ROUND_UP_bounds(1) [of d n] by (cases "DIV_ROUND_UP n d") auto

lemma samsung_fdp_params:
  assumes "4 \<le> capacity" "capacity \<le> GB 512"
  shows "\<exists>sp. ssd_init_params samsung_fdp capacity (SSD_PARTITIONS samsung_fdp) = Some sp \<and>
     geo_ok sp \<and> capacity < 4 * (tt_pgs sp * pgsz sp) + 4 \<and> tt_lines sp = 128 \<and>
     ch_bandwidth sp = 800 \<and> pcie_bandwidth sp = 3360 \<and> write_buffer_size sp = MB 256"
proof -
  define b where "b = DIV_ROUND_UP (capacity div 4) 512"
  define os where "os = DIV_ROUND_UP b 32768"
  have c: "0 < capacity div 4" "capacity div 4 \<le> 512 * 268435456"
    using assms by (auto simp: GB_def)
  have b: "0 < b" "b \<le> 268435456" "capacity div 4 \<le> 512 * b"
    unfolding b_def using c DIV_ROUND_UP_bounds(1) [of 512] DIV_ROUND_UP_le [of 512]
    by (auto intro: DIV_ROUND_UP_pos)
  have os: "0 < os" "os \<le> 8192" "b \<le> 32768 * os"
    unfolding os_def using b DIV_ROUND_UP_bounds(1) [of 32768] DIV_ROUND_UP_le [of 32768 b 8192]
    by (auto intro: DIV_ROUND_UP_pos)
  have "capacity < 4 * (capacity div 4) + 4" by simp
  also have "\<dots> \<le> 4 * (512 * (32768 * os)) + 4" using b(3) os(3) by simp
  finally have cap: "capacity < 4 * (512 * (32768 * os)) + 4" .
  show ?thesis
    using os cap
    by (simp add: ssd_init_params_def samsung_fdp_def CELL_MODE_MLC_def size_macros LBA_SIZE_def
        LBA_BITS_def b_def [symmetric] os_def [symmetric] c_int_in Let_def u64_id geo_ok_def)
qed

end
