(* ===== verification/Channel_Model.thy ===== *)
theory Channel_Model
  imports Nvmev_Base
begin

text \<open>
  The bandwidth model of \<open>channel_model.c\<close>. Time is cut into intervals of 4 us; a ring of
  counters holds the transfer credits still unused in each of the next 98304 intervals,
  starting at \<open>head\<close> for the interval of the current time. A request takes credits from its
  start interval on until it is served; its completion time is delayed by the intervals it
  had to wait beyond the time the transfer takes on an idle channel.

  The wall clock is read once per request; the reading is the argument \<open>cur_time\<close>. The ring
  is a function from slot numbers to counters, with the bounds of every access checked.

  Shown here: a request on a well-formed channel returns, keeps the channel well-formed, never
  completes before it starts, takes exactly as many credits as it transfers units unless the
  whole window is exhausted, and the slot it ends in is the first one up to which the credits
  suffice.
\<close>

section \<open>The model\<close>

definition NR_CREDIT_ENTRIES :: nat where "NR_CREDIT_ENTRIES = 98304"
definition UNIT_TIME_INTERVAL :: nat where "UNIT_TIME_INTERVAL = 4000"
definition UNIT_XFER_SIZE :: nat where "UNIT_XFER_SIZE = 128"
definition UNIT_XFER_CREDITS :: nat where "UNIT_XFER_CREDITS = 1"

lemmas chmodel_consts = NR_CREDIT_ENTRIES_def UNIT_TIME_INTERVAL_def UNIT_XFER_SIZE_def
  UNIT_XFER_CREDITS_def

record channel_model =
  cm_cur_time :: nat
  cm_head :: nat
  cm_valid_len :: nat
  cm_max_credits :: nat
  cm_command_credits :: nat
  cm_xfer_lat :: nat
  cm_avail_credits :: "nat \<Rightarrow> nat"

definition BANDWIDTH_TO_TX_TIME :: "nat \<Rightarrow> nat" where
  "BANDWIDTH_TO_TX_TIME mb_s = UNIT_XFER_SIZE * NS_PER_SEC 1 div MB mb_s"

definition BANDWIDTH_TO_MAX_CREDITS :: "nat \<Rightarrow> nat" where
  "BANDWIDTH_TO_MAX_CREDITS mb_s =
     MB mb_s * UNIT_TIME_INTERVAL div NS_PER_SEC 1 div UNIT_XFER_SIZE * UNIT_XFER_CREDITS"

text \<open>\<open>memset\<close> on the counters, which are bytes: \<open>n\<close> slots from \<open>a\<close> on, all inside the ring.\<close>

definition MEMSET :: "nat \<Rightarrow> nat \<Rightarrow> nat \<Rightarrow> (nat \<Rightarrow> nat) \<Rightarrow> (nat \<Rightarrow> nat) option" where
  "MEMSET a v n c =
     (if a + n \<le> NR_CREDIT_ENTRIES
      then Some (\<lambda>i. if a \<le> i \<and> i < a + n then u8 v else c i) else None)"

definition chmodel_init :: "nat \<Rightarrow> channel_model option" where
  "chmodel_init bandwidth = do {
     NVMEV_ASSERT (MB bandwidth \<noteq> 0);
     let mc = u32 (BANDWIDTH_TO_MAX_CREDITS bandwidth);
     c \<leftarrow> MEMSET 0 mc NR_CREDIT_ENTRIES (\<lambda>_. 0);
     Some \<lparr>cm_cur_time = 0, cm_head = 0, cm_valid_len = 0, cm_max_credits = mc,
       cm_command_credits = 0, cm_xfer_lat = u32 (BANDWIDTH_TO_TX_TIME bandwidth),
       cm_avail_credits = c\<rparr>
   }"

text \<open>
  The loop that takes credits: \<open>(pos, remaining, delay, credits)\<close>. It stops when nothing
  remains or when the next slot is the head of the ring.
\<close>

partial_function (option) take_credits ::
  "nat \<Rightarrow> nat \<Rightarrow> nat \<Rightarrow> nat \<Rightarrow> (nat \<Rightarrow> nat) \<Rightarrow> (nat \<times> nat \<times> nat \<times> (nat \<Rightarrow> nat)) option" where
  "take_credits head pos remaining delay c =
     (let consumed = (if remaining \<le> c pos then remaining else c pos);
          c' = c(pos := c pos - consumed);
          remaining' = remaining - consumed
      in if remaining' \<noteq> 0 then
           (let next_pos = (pos + 1) mod NR_CREDIT_ENTRIES
            in if next_pos \<noteq> head then take_credits head next_pos remaining' (u32 (delay + 1)) c'
               else Some (pos, remaining', delay, c'))
         else Some (pos, remaining', delay, c'))"

text \<open>Moving the head to the slot of the current time; passed slots get their credits back.\<close>

definition chmodel_advance :: "channel_model \<Rightarrow> nat \<Rightarrow> channel_model option" where
  "chmodel_advance ch cur_time = do {
     let offs0 = u32 (u64_sub (cur_time div UNIT_TIME_INTERVAL)
                        (cm_cur_time ch div UNIT_TIME_INTERVAL));
     let cur_time_offs = (if offs0 < cm_valid_len ch then offs0 else cm_valid_len ch);
     c \<leftarrow> (if u32 (cm_head ch + cur_time_offs) \<ge> NR_CREDIT_ENTRIES then do {
          c1 \<leftarrow> MEMSET (cm_head ch) (cm_max_credits ch) (u32_sub NR_CREDIT_ENTRIES (cm_head ch))
                 (cm_avail_credits ch);
          MEMSET 0 (cm_max_credits ch)
            (u32_sub cur_time_offs (u32_sub NR_CREDIT_ENTRIES (cm_head ch))) c1
        } else MEMSET (cm_head ch) (cm_max_credits ch) cur_time_offs (cm_avail_credits ch));
     let valid = u32_sub (cm_valid_len ch) cur_time_offs;
     NVMEV_ASSERT (valid \<le> NR_CREDIT_ENTRIES);
     Some (ch\<lparr>cm_avail_credits := c,
              cm_head := u32 (cm_head ch + cur_time_offs) mod NR_CREDIT_ENTRIES,
              cm_cur_time := cur_time, cm_valid_len := valid\<rparr>)
   }"

text \<open>The part after the two early returns: take the credits and compute the completion time.\<close>

definition chmodel_serve ::
  "channel_model \<Rightarrow> nat \<Rightarrow> nat \<Rightarrow> nat \<Rightarrow> (nat \<times> channel_model) option" where
  "chmodel_serve ch request_time request_time_offs units_to_xfer = do {
     let pos = u32 (cm_head ch + request_time_offs) mod NR_CREDIT_ENTRIES;
     let remaining_credits = u32 (u32 (units_to_xfer * UNIT_XFER_CREDITS) + cm_command_credits ch);
     NVMEV_ASSERT (cm_max_credits ch \<noteq> 0);
     let default_delay = remaining_credits div cm_max_credits ch;
     (pos', rest, delay, c) \<leftarrow>
        take_credits (cm_head ch) pos remaining_credits 0 (cm_avail_credits ch);
     let valid_length = (if pos' \<ge> cm_head ch then pos' - cm_head ch + 1
                         else NR_CREDIT_ENTRIES - (cm_head ch - pos' - 1));
     let delay' = (if delay > default_delay then delay - default_delay else 0);
     let total_latency = u64 (u32 (cm_xfer_lat ch * units_to_xfer) + delay' * UNIT_TIME_INTERVAL);
     Some (u64 (request_time + total_latency),
       ch\<lparr>cm_avail_credits := c,
          cm_valid_len := (if valid_length > cm_valid_len ch then valid_length
                           else cm_valid_len ch)\<rparr>)
   }"

definition chmodel_request ::
  "nat \<Rightarrow> channel_model \<Rightarrow> nat \<Rightarrow> nat \<Rightarrow> (nat \<times> channel_model) option" where
  "chmodel_request cur_time ch0 request_time len = do {
     let units_to_xfer = u32 (DIV_ROUND_UP len UNIT_XFER_SIZE);
     ch \<leftarrow> chmodel_advance ch0 cur_time;
     if request_time < cur_time then Some (request_time, ch)
     else do {
       let request_time_offs = u32 (u64_sub (request_time div UNIT_TIME_INTERVAL)
                                      (cur_time div UNIT_TIME_INTERVAL));
       if request_time_offs \<ge> NR_CREDIT_ENTRIES then Some (request_time, ch)
       else chmodel_serve ch request_time request_time_offs units_to_xfer
     }
   }"

section \<open>Well-formed channels\<close>

text \<open>
  Slots are counted from the head: slot \<open>k\<close> of the window is \<open>(head + k) mod N\<close>. No counter
  exceeds the credits of an interval, and beyond the valid length all are untouched.
\<close>

definition win :: "channel_model \<Rightarrow> nat \<Rightarrow> nat" where
  "win ch k = cm_avail_credits ch ((cm_head ch + k) mod NR_CREDIT_ENTRIES)"

definition chmodel_wf :: "channel_model \<Rightarrow> bool" where
  "chmodel_wf ch \<longleftrightarrow> cm_head ch < NR_CREDIT_ENTRIES \<and> cm_valid_len ch \<le> NR_CREDIT_ENTRIES \<and>
     0 < cm_max_credits ch \<and> cm_max_credits ch < 256 \<and> cm_command_credits ch = 0 \<and>
     (\<forall>i<NR_CREDIT_ENTRIES. cm_avail_credits ch i \<le> cm_max_credits ch) \<and>
     (\<forall>k. cm_valid_len ch \<le> k \<longrightarrow> k < NR_CREDIT_ENTRIES \<longrightarrow> win ch k = cm_max_credits ch)"

lemma NR_pos: "0 < NR_CREDIT_ENTRIES" by (simp add: NR_CREDIT_ENTRIES_def)

lemma slot_less [simp]: "x mod NR_CREDIT_ENTRIES < NR_CREDIT_ENTRIES"
  by (simp add: NR_CREDIT_ENTRIES_def)

lemma slot_inj:
  assumes "j < NR_CREDIT_ENTRIES" "k < NR_CREDIT_ENTRIES"
    "(h + j) mod NR_CREDIT_ENTRIES = (h + k) mod NR_CREDIT_ENTRIES"
  shows "j = k"
proof -
  have "j = k" if "j \<le> k" "k < NR_CREDIT_ENTRIES"
      "(h + k) mod NR_CREDIT_ENTRIES = (h + j) mod NR_CREDIT_ENTRIES" for j k
  proof -
    have "NR_CREDIT_ENTRIES dvd (h + k) - (h + j)"
      using that by (subst mod_eq_dvd_iff_nat [symmetric]) auto
    then have "NR_CREDIT_ENTRIES dvd k - j" by simp
    moreover have "k - j < NR_CREDIT_ENTRIES" using that(2) by simp
    ultimately have "k - j = 0" by (metis dvd_imp_le not_le neq0_conv)
    then show ?thesis using that(1) by simp
  qed
  from this [of j k] this [of k j] assms show ?thesis by (cases "j \<le> k") auto
qed

lemma chmodel_init_wf:
  assumes "31 \<le> bw" "bw \<le> 7800"
  shows "\<exists>ch. chmodel_init bw = Some ch \<and> chmodel_wf ch \<and> cm_cur_time ch = 0 \<and>
    cm_max_credits ch = BANDWIDTH_TO_MAX_CREDITS bw"
proof -
  let ?m = "BANDWIDTH_TO_MAX_CREDITS bw"
  have m: "?m = bw * 1048576 * 4000 div 1000000000 div 128"
    by (simp add: BANDWIDTH_TO_MAX_CREDITS_def size_macros chmodel_consts)
  have "31 * 1048576 * 4000 div 1000000000 div 128 \<le> ?m"
    unfolding m using assms by (intro div_le_mono mult_le_mono) auto
  moreover have "?m \<le> 7800 * 1048576 * 4000 div 1000000000 div 128"
    unfolding m using assms by (intro div_le_mono mult_le_mono) auto
  ultimately have "0 < ?m" "?m < 256" by simp_all
  then show ?thesis
    using assms by (auto simp: chmodel_init_def MEMSET_def chmodel_wf_def win_def Let_def
        u32_id u8_id size_macros NR_pos)
qed

section \<open>Taking credits\<close>

text \<open>
  What the loop computes, started in slot \<open>a\<close> of the window with \<open>rem\<close> credits to take: it
  ends in slot \<open>a + d\<close>, where \<open>d\<close> is the least number of further intervals whose credits
  suffice, or in the last slot of the window if none do.
\<close>

definition credits_taken ::
  "nat \<Rightarrow> nat \<Rightarrow> nat \<Rightarrow> (nat \<Rightarrow> nat) \<Rightarrow> nat \<Rightarrow> nat \<Rightarrow> (nat \<Rightarrow> nat) \<Rightarrow> bool" where
  "credits_taken h a rem c d rest c' \<longleftrightarrow>
     a + d < NR_CREDIT_ENTRIES \<and>
     (\<Sum>i<NR_CREDIT_ENTRIES. c' i) + rem = (\<Sum>i<NR_CREDIT_ENTRIES. c i) + rest \<and>
     (\<forall>i. c' i \<le> c i) \<and>
     (\<forall>k<NR_CREDIT_ENTRIES. k < a \<or> a + d < k \<longrightarrow>
        c' ((h + k) mod NR_CREDIT_ENTRIES) = c ((h + k) mod NR_CREDIT_ENTRIES)) \<and>
     (rest = 0 \<or> a + d + 1 = NR_CREDIT_ENTRIES) \<and>
     rest = rem - (\<Sum>k = a..a + d. c ((h + k) mod NR_CREDIT_ENTRIES)) \<and>
     (0 < d \<longrightarrow> (\<Sum>k = a..<a + d. c ((h + k) mod NR_CREDIT_ENTRIES)) < rem)"

lemma next_slot_head:
  assumes "h < NR_CREDIT_ENTRIES" "a < NR_CREDIT_ENTRIES"
  shows "((h + a) mod NR_CREDIT_ENTRIES + 1) mod NR_CREDIT_ENTRIES = h \<longleftrightarrow> a + 1 = NR_CREDIT_ENTRIES"
proof -
  have e: "((h + a) mod NR_CREDIT_ENTRIES + 1) mod NR_CREDIT_ENTRIES = (h + (a + 1)) mod NR_CREDIT_ENTRIES"
    by (simp add: mod_simps)
  show ?thesis
  proof
    assume "a + 1 = NR_CREDIT_ENTRIES"
    then show "((h + a) mod NR_CREDIT_ENTRIES + 1) mod NR_CREDIT_ENTRIES = h"
      unfolding e using assms by simp
  next
    assume "((h + a) mod NR_CREDIT_ENTRIES + 1) mod NR_CREDIT_ENTRIES = h"
    then have h: "(h + (a + 1)) mod NR_CREDIT_ENTRIES = (h + 0) mod NR_CREDIT_ENTRIES"
      unfolding e using assms by simp
    show "a + 1 = NR_CREDIT_ENTRIES"
    proof (rule ccontr)
      assume "a + 1 \<noteq> NR_CREDIT_ENTRIES"
      then have "a + 1 < NR_CREDIT_ENTRIES" using assms by simp
      from slot_inj [OF this NR_pos h] show False by simp
    qed
  qed
qed

lemma sum_upd_slot:
  fixes c :: "nat \<Rightarrow> nat"
  assumes "p < n" "x \<le> c p"
  shows "(\<Sum>i<n. (c(p := c p - x)) i) + x = (\<Sum>i<n. c i)"
  using sum_upd_nat [OF assms(1), of c "c p - x"] assms(2) by linarith

lemma credits_taken_stop:
  assumes h: "h < NR_CREDIT_ENTRIES" "a < NR_CREDIT_ENTRIES"
    and p: "p = (h + a) mod NR_CREDIT_ENTRIES"
    and x: "x = min rem (c p)" and stop: "x = rem \<or> a + 1 = NR_CREDIT_ENTRIES"
  shows "credits_taken h a rem c 0 (rem - x) (c(p := c p - x))"
proof -
  have le: "x \<le> c p" "x \<le> rem" using x by auto
  have "p < NR_CREDIT_ENTRIES" using p by simp
  then have s: "(\<Sum>i<NR_CREDIT_ENTRIES. (c(p := c p - x)) i) + x = (\<Sum>i<NR_CREDIT_ENTRIES. c i)"
    using sum_upd_slot [of p NR_CREDIT_ENTRIES x c] le(1) by blast
  have "(h + k) mod NR_CREDIT_ENTRIES \<noteq> p" if "k < NR_CREDIT_ENTRIES" "k \<noteq> a" for k
    unfolding p using slot_inj [OF that(1) h(2), of h] that(2) by auto
  then have o: "\<forall>k<NR_CREDIT_ENTRIES. k < a \<or> a + 0 < k \<longrightarrow>
     (c(p := c p - x)) ((h + k) mod NR_CREDIT_ENTRIES) = c ((h + k) mod NR_CREDIT_ENTRIES)"
    by auto
  have sum: "(\<Sum>i<NR_CREDIT_ENTRIES. (c(p := c p - x)) i) + rem
      = (\<Sum>i<NR_CREDIT_ENTRIES. c i) + (rem - x)"
    using s le(2) by linarith
  have rest: "rem - x = rem - (\<Sum>k = a..a + 0. c ((h + k) mod NR_CREDIT_ENTRIES))"
    using x p by auto
  show ?thesis
    unfolding credits_taken_def using sum o rest stop h by (auto simp del: fun_upd_apply) auto
qed

lemma credits_taken_next:
  assumes h: "h < NR_CREDIT_ENTRIES" "a + 1 < NR_CREDIT_ENTRIES"
    and p: "p = (h + a) mod NR_CREDIT_ENTRIES" and x: "c p < rem"
    and t: "credits_taken h (a + 1) (rem - c p) (c(p := 0)) d rest c'"
  shows "credits_taken h a rem c (Suc d) rest c'"
proof -
  let ?N = NR_CREDIT_ENTRIES
  have ne: "(h + k) mod ?N \<noteq> p" if "k < ?N" "k \<noteq> a" for k
    unfolding p using slot_inj [OF that(1), of a h] h(2) that(2) by auto
  have t1: "a + 1 + d < ?N"
    and t2: "(\<Sum>i<?N. c' i) + (rem - c p) = (\<Sum>i<?N. (c(p := 0)) i) + rest"
    and t3: "\<And>i. c' i \<le> (c(p := 0)) i"
    and t4: "\<And>k. k < ?N \<Longrightarrow> k < a + 1 \<or> a + 1 + d < k \<Longrightarrow>
        c' ((h + k) mod ?N) = (c(p := 0)) ((h + k) mod ?N)"
    and t5: "rest = 0 \<or> a + 1 + d + 1 = ?N"
    and t6: "rest = rem - c p - (\<Sum>k = a + 1..a + 1 + d. (c(p := 0)) ((h + k) mod ?N))"
    and t7: "0 < d \<Longrightarrow> (\<Sum>k = a + 1..<a + 1 + d. (c(p := 0)) ((h + k) mod ?N)) < rem - c p"
    using t unfolding credits_taken_def by blast+
  have "p < ?N" using p by simp
  from sum_upd_nat [OF this, of c 0]
  have s: "(\<Sum>i<?N. (c(p := 0)) i) + c p = (\<Sum>i<?N. c i)" by simp
  have w: "(\<Sum>k\<in>K. (c(p := 0)) ((h + k) mod ?N)) = (\<Sum>k\<in>K. c ((h + k) mod ?N))"
    if "K \<subseteq> {a + 1..<?N}" for K
  proof (rule sum.cong)
    fix k assume "k \<in> K"
    then have "k < ?N" "k \<noteq> a" using that by auto
    from ne [OF this] show "(c(p := 0)) ((h + k) mod ?N) = c ((h + k) mod ?N)" by simp
  qed simp
  have K1: "(\<Sum>k = a..a + Suc d. c ((h + k) mod ?N)) = c p + (\<Sum>k = a + 1..a + 1 + d. c ((h + k) mod ?N))"
    by (subst sum.atLeast_Suc_atMost) (auto simp: p)
  have K2: "(\<Sum>k = a..<a + Suc d. c ((h + k) mod ?N)) = c p + (\<Sum>k = a + 1..<a + 1 + d. c ((h + k) mod ?N))"
    by (subst sum.atLeast_Suc_lessThan) (auto simp: p)
  show ?thesis
    unfolding credits_taken_def
  proof (intro conjI allI impI)
    show "a + Suc d < ?N" "rest = 0 \<or> a + Suc d + 1 = ?N" using t1 t5 by auto
    show "(\<Sum>i<?N. c' i) + rem = (\<Sum>i<?N. c i) + rest" using t2 s x by linarith
    show "c' i \<le> c i" for i using t3 [of i] by (auto split: if_splits)
    show "c' ((h + k) mod ?N) = c ((h + k) mod ?N)" if "k < ?N" "k < a \<or> a + Suc d < k" for k
      using t4 [of k] that ne [of k] by auto
    show "rest = rem - (\<Sum>k = a..a + Suc d. c ((h + k) mod ?N))"
      using t6 t1 unfolding K1 by (subst (asm) w) auto
    show "(\<Sum>k = a..<a + Suc d. c ((h + k) mod ?N)) < rem"
    proof (cases "d = 0")
      case False
      then have "(\<Sum>k = a + 1..<a + 1 + d. (c(p := 0)) ((h + k) mod ?N)) < rem - c p"
        using t7 by blast
      then have "(\<Sum>k = a + 1..<a + 1 + d. c ((h + k) mod ?N)) < rem - c p"
        using t1 by (subst (asm) w) auto
      then show ?thesis unfolding K2 by simp
    qed (use K2 x in simp)
  qed
qed

lemma take_credits_spec:
  assumes "h < NR_CREDIT_ENTRIES" "a < NR_CREDIT_ENTRIES" "dl \<le> a"
  shows "\<exists>d rest c'. take_credits h ((h + a) mod NR_CREDIT_ENTRIES) rem dl c =
       Some ((h + (a + d)) mod NR_CREDIT_ENTRIES, rest, dl + d, c') \<and>
     credits_taken h a rem c d rest c'"
  using assms
proof (induction "NR_CREDIT_ENTRIES - a" arbitrary: a rem dl c rule: less_induct)
  case less
  let ?p = "(h + a) mod NR_CREDIT_ENTRIES"
  let ?x = "min rem (c ?p)"
  have xeq: "(if rem \<le> c ?p then rem else c ?p) = ?x" by (simp add: min_def)
  show ?case
  proof (cases "rem - ?x = 0 \<or> a + 1 = NR_CREDIT_ENTRIES")
    case True
    then have "take_credits h ?p rem dl c = Some (?p, rem - ?x, dl, c(?p := c ?p - ?x))"
      using next_slot_head [OF less.prems(1,2)]
      by (subst take_credits.simps) (auto simp: Let_def xeq)
    moreover have "credits_taken h a rem c 0 (rem - ?x) (c(?p := c ?p - ?x))"
      by (rule credits_taken_stop [OF less.prems(1,2) refl refl]) (use True in auto)
    ultimately show ?thesis by force
  next
    case False
    then have x: "c ?p < rem" "?x = c ?p" and a1: "a + 1 < NR_CREDIT_ENTRIES"
      using less.prems by auto
    have u: "u32 (dl + 1) = dl + 1" using less.prems a1 by (simp add: u32_id NR_CREDIT_ENTRIES_def)
    have nx: "((h + a) mod NR_CREDIT_ENTRIES + 1) mod NR_CREDIT_ENTRIES = (h + (a + 1)) mod NR_CREDIT_ENTRIES"
      by (simp add: mod_simps)
    have nh: "((h + a) mod NR_CREDIT_ENTRIES + 1) mod NR_CREDIT_ENTRIES \<noteq> h"
      using next_slot_head [OF less.prems(1,2)] a1 by simp
    have step: "take_credits h ?p rem dl c =
        take_credits h ((h + (a + 1)) mod NR_CREDIT_ENTRIES) (rem - c ?p) (dl + 1) (c(?p := 0))"
      unfolding nx [symmetric] using x u nh by (subst take_credits.simps) (simp add: Let_def)
    obtain d rest c' where r: "take_credits h ((h + (a + 1)) mod NR_CREDIT_ENTRIES) (rem - c ?p) (dl + 1)
          (c(?p := 0)) = Some ((h + (a + 1 + d)) mod NR_CREDIT_ENTRIES, rest, dl + 1 + d, c')"
      and t: "credits_taken h (a + 1) (rem - c ?p) (c(?p := 0)) d rest c'"
    proof -
      have "NR_CREDIT_ENTRIES - (a + 1) < NR_CREDIT_ENTRIES - a" using a1 by simp
      from less.hyps [OF this less.prems(1) a1, of "dl + 1"] less.prems(3) that
      show thesis by (metis add_le_cancel_right)
    qed
    have "credits_taken h a rem c (Suc d) rest c'"
      by (rule credits_taken_next [OF less.prems(1) a1 refl x(1) t])
    then show ?thesis using step r by (intro exI [of _ "Suc d"] exI [of _ rest] exI [of _ c']) auto
  qed
qed

section \<open>Requests\<close>

lemma MEMSET_in: "a + n \<le> NR_CREDIT_ENTRIES \<Longrightarrow> v < 256 \<Longrightarrow>
  MEMSET a v n c = Some (\<lambda>i. if a \<le> i \<and> i < a + n then v else c i)"
  by (simp add: MEMSET_def u8_id cong: if_cong)

text \<open>
  Advancing the head by \<open>k\<close> intervals shifts the window by \<open>k\<close>; the credits of the passed
  intervals are given back.
\<close>

lemma chmodel_advance_spec:
  assumes wf: "chmodel_wf ch"
  shows "\<exists>k ch'. chmodel_advance ch t = Some ch' \<and> chmodel_wf ch' \<and> k \<le> cm_valid_len ch \<and>
    cm_valid_len ch' = cm_valid_len ch - k \<and> cm_cur_time ch' = t \<and>
    cm_max_credits ch' = cm_max_credits ch \<and> cm_xfer_lat ch' = cm_xfer_lat ch \<and>
    (\<forall>j<NR_CREDIT_ENTRIES. win ch' j = (if j + k < NR_CREDIT_ENTRIES then win ch (j + k) else cm_max_credits ch))"
proof -
  let ?N = NR_CREDIT_ENTRIES and ?h = "cm_head ch" and ?m = "cm_max_credits ch"
  let ?o = "u32 (u64_sub (t div UNIT_TIME_INTERVAL) (cm_cur_time ch div UNIT_TIME_INTERVAL))"
  define k where "k = (if ?o < cm_valid_len ch then ?o else cm_valid_len ch)"
  have w: "?h < ?N" "cm_valid_len ch \<le> ?N" "?m < 256" using wf by (auto simp: chmodel_wf_def)
  have k: "k \<le> cm_valid_len ch" by (simp add: k_def)
  have N: "?N < 1000000" by (simp add: NR_CREDIT_ENTRIES_def)
  have small: "u32 (?h + k) = ?h + k" "u32_sub ?N ?h = ?N - ?h"
      "u32_sub (cm_valid_len ch) k = cm_valid_len ch - k"
    using w k N by (simp_all add: u32_id u32_sub_id)
  define c where "c = (\<lambda>i. if (?h \<le> i \<and> i < ?h + k) \<or> i + ?N < ?h + k then ?m
      else cm_avail_credits ch i)"
  define ch' where "ch' = ch\<lparr>cm_avail_credits := \<lambda>i. if i < ?N then c i else cm_avail_credits ch i,
    cm_head := (?h + k) mod ?N, cm_cur_time := t, cm_valid_len := cm_valid_len ch - k\<rparr>"
  have adv: "chmodel_advance ch t = Some ch'"
  proof (cases "?h + k \<ge> ?N")
    case True
    then have "u32_sub k (?N - ?h) = k - (?N - ?h)" using w k N by (simp add: u32_sub_id)
    with True w k N small show ?thesis
      unfolding chmodel_advance_def k_def [symmetric] Let_def ch'_def c_def
      by (simp add: MEMSET_in) (intro conjI impI channel_model.equality; auto simp: fun_eq_iff)
  next
    case False
    with w k N small show ?thesis
      unfolding chmodel_advance_def k_def [symmetric] Let_def ch'_def c_def
      by (simp add: MEMSET_in) (intro conjI impI channel_model.equality; auto simp: fun_eq_iff)
  qed
  have win': "win ch' j = (if j + k < ?N then win ch (j + k) else ?m)" if j: "j < ?N" for j
  proof -
    let ?s = "(?h + (k + j)) mod ?N"
    have s: "((?h + k) mod ?N + j) mod ?N = ?s" by (simp add: mod_simps add.assoc)
    have "win ch' j = c ?s" by (simp add: win_def ch'_def s)
    moreover have "c ?s = (if k + j < ?N then cm_avail_credits ch ?s else ?m)"
    proof -
      have "?s = (if ?h + (k + j) < ?N then ?h + (k + j) else if ?h + (k + j) < 2 * ?N
          then ?h + (k + j) - ?N else ?h + (k + j) - 2 * ?N)"
        using w k j by (auto simp: mod_if)
      then show ?thesis using w k j by (auto simp: c_def)
    qed
    ultimately show ?thesis by (simp add: win_def add.commute)
  qed
  have "c i \<le> ?m" if "i < ?N" for i using wf that by (auto simp: chmodel_wf_def c_def)
  moreover have "win ch' j = ?m" if "cm_valid_len ch - k \<le> j" "j < ?N" for j
    using win' [OF that(2)] wf that(1) by (auto simp: chmodel_wf_def)
  ultimately have "chmodel_wf ch'"
    using wf w by (auto simp: chmodel_wf_def ch'_def win_def)
  with adv k win' show ?thesis by (intro exI [of _ k] exI [of _ ch']) (auto simp: ch'_def)
qed

lemma valid_length_slot:
  assumes "h < NR_CREDIT_ENTRIES" "j < NR_CREDIT_ENTRIES"
  shows "(if (h + j) mod NR_CREDIT_ENTRIES \<ge> h then (h + j) mod NR_CREDIT_ENTRIES - h + 1
      else NR_CREDIT_ENTRIES - (h - (h + j) mod NR_CREDIT_ENTRIES - 1)) = j + 1"
  using assms by (auto simp: mod_if)

lemma chmodel_serve_spec:
  assumes wf: "chmodel_wf ch" and offs: "offs < NR_CREDIT_ENTRIES" and u: "units < 4294967296"
  shows "\<exists>d rest ch'. chmodel_serve ch t offs units = Some (u64 (t + u64 (u32 (cm_xfer_lat ch * units) +
        (d - units div cm_max_credits ch) * UNIT_TIME_INTERVAL)), ch') \<and>
     rest = units - (\<Sum>k = offs..offs + d. win ch k) \<and>
     (0 < d \<longrightarrow> (\<Sum>k = offs..<offs + d. win ch k) < units) \<and> offs + d < NR_CREDIT_ENTRIES \<and>
     chmodel_wf ch' \<and> cm_max_credits ch' = cm_max_credits ch \<and>
     (\<Sum>i<NR_CREDIT_ENTRIES. cm_avail_credits ch' i) + units
        = (\<Sum>i<NR_CREDIT_ENTRIES. cm_avail_credits ch i) + rest \<and>
     (rest = 0 \<or> offs + d + 1 = NR_CREDIT_ENTRIES)"
proof -
  let ?N = NR_CREDIT_ENTRIES and ?h = "cm_head ch" and ?c = "cm_avail_credits ch"
  have w: "?h < ?N" "cm_max_credits ch \<noteq> 0" "cm_command_credits ch = 0"
    using wf by (auto simp: chmodel_wf_def)
  have ho: "u32 (?h + offs) = ?h + offs"
    using w offs by (simp add: u32_id NR_CREDIT_ENTRIES_def)
  obtain d rest c' where r: "take_credits ?h ((?h + offs) mod ?N) units 0 ?c
      = Some ((?h + (offs + d)) mod ?N, rest, d, c')" and t: "credits_taken ?h offs units ?c d rest c'"
    using take_credits_spec [OF w(1) offs, of 0 units ?c] by auto
  have ad: "offs + d < ?N" using t by (simp add: credits_taken_def)
  define ch' where "ch' = ch\<lparr>cm_avail_credits := c', cm_valid_len := max (offs + d + 1) (cm_valid_len ch)\<rparr>"
  have vl: "(if x > cm_valid_len ch then x else cm_valid_len ch) = max x (cm_valid_len ch)" for x
    by simp
  have "chmodel_serve ch t offs units = Some (u64 (t + u64 (u32 (cm_xfer_lat ch * units) +
        (d - units div cm_max_credits ch) * UNIT_TIME_INTERVAL)), ch')"
    unfolding chmodel_serve_def Let_def ho ch'_def
    using r w u by (simp add: u32_id UNIT_XFER_CREDITS_def vl valid_length_slot [OF w(1) ad])
  moreover have "chmodel_wf ch'"
  proof -
    have "c' i \<le> cm_max_credits ch" if "i < ?N" for i
    proof -
      have "c' i \<le> ?c i" using t by (simp add: credits_taken_def)
      also have "\<dots> \<le> cm_max_credits ch" using wf that by (simp add: chmodel_wf_def)
      finally show ?thesis .
    qed
    moreover have "c' ((?h + k) mod ?N) = cm_max_credits ch"
      if "max (offs + d + 1) (cm_valid_len ch) \<le> k" "k < ?N" for k
      using t wf that by (auto simp: credits_taken_def chmodel_wf_def win_def)
    moreover have "max (offs + d + 1) (cm_valid_len ch) \<le> ?N"
      using ad wf by (auto simp: chmodel_wf_def)
    ultimately show ?thesis using wf by (auto simp: chmodel_wf_def ch'_def win_def)
  qed
  moreover have "cm_max_credits ch' = cm_max_credits ch" "cm_avail_credits ch' = c'"
    by (simp_all add: ch'_def)
  ultimately show ?thesis
    using t [folded win_def, unfolded credits_taken_def] by (metis (no_types, lifting) win_def sum.cong)
qed

lemma chmodel_request_returns:
  assumes "chmodel_wf ch"
  shows "\<exists>t' ch'. chmodel_request now ch t len = Some (t', ch') \<and> chmodel_wf ch'"
proof -
  obtain ch1 where 1: "chmodel_advance ch now = Some ch1" "chmodel_wf ch1"
    using chmodel_advance_spec [OF assms, of now] by blast
  let ?o = "u32 (u64_sub (t div UNIT_TIME_INTERVAL) (now div UNIT_TIME_INTERVAL))"
  let ?u = "u32 (DIV_ROUND_UP len UNIT_XFER_SIZE)"
  show ?thesis
  proof (cases "t < now \<or> ?o \<ge> NR_CREDIT_ENTRIES")
    case True
    then show ?thesis using 1 by (auto simp: chmodel_request_def Let_def)
  next
    case False
    then have "chmodel_request now ch t len = chmodel_serve ch1 t ?o ?u"
      using 1 by (simp add: chmodel_request_def Let_def)
    with chmodel_serve_spec [OF 1(2), of ?o ?u t] False show ?thesis
      using u32_less [of "DIV_ROUND_UP len UNIT_XFER_SIZE"] by auto
  qed
qed

text \<open>No request completes before its start, and none later than the ring can delay it.\<close>

definition chmodel_slack :: nat where
  "chmodel_slack = 4294967296 + NR_CREDIT_ENTRIES * UNIT_TIME_INTERVAL"

lemma chmodel_request_ge:
  assumes wf: "chmodel_wf ch" and t: "t + chmodel_slack < 18446744073709551616"
    and r: "chmodel_request now ch t len = Some (t', ch')"
  shows "t \<le> t'" and "t' \<le> t + chmodel_slack"
proof -
  obtain ch1 where 1: "chmodel_advance ch now = Some ch1" "chmodel_wf ch1"
    using chmodel_advance_spec [OF wf, of now] by blast
  let ?o = "u32 (u64_sub (t div UNIT_TIME_INTERVAL) (now div UNIT_TIME_INTERVAL))"
  let ?u = "u32 (DIV_ROUND_UP len UNIT_XFER_SIZE)"
  have "t \<le> t' \<and> t' \<le> t + chmodel_slack"
  proof (cases "t < now \<or> ?o \<ge> NR_CREDIT_ENTRIES")
    case True
    then show ?thesis using 1 r by (auto simp: chmodel_request_def Let_def split: if_splits)
  next
    case False
    then have "chmodel_request now ch t len = chmodel_serve ch1 t ?o ?u"
      using 1 by (simp add: chmodel_request_def Let_def)
    with r have sv: "chmodel_serve ch1 t ?o ?u = Some (t', ch')" by simp
    have "?o < NR_CREDIT_ENTRIES" using False by simp
    from chmodel_serve_spec [OF 1(2) this u32_less, of t] obtain d ch2 where
      s: "chmodel_serve ch1 t ?o ?u = Some (u64 (t + u64 (u32 (cm_xfer_lat ch1 * ?u) +
        (d - ?u div cm_max_credits ch1) * UNIT_TIME_INTERVAL)), ch2)"
      and d: "?o + d < NR_CREDIT_ENTRIES" by blast
    from s sv have t': "t' = u64 (t + u64 (u32 (cm_xfer_lat ch1 * ?u) +
        (d - ?u div cm_max_credits ch1) * UNIT_TIME_INTERVAL))" by simp
    let ?x = "u32 (cm_xfer_lat ch1 * ?u) + (d - ?u div cm_max_credits ch1) * UNIT_TIME_INTERVAL"
    have "?x \<le> chmodel_slack"
      unfolding chmodel_slack_def
      by (intro add_mono mult_le_mono less_imp_le [OF u32_less]) (use d in auto)
    then have "t' = t + ?x" unfolding t' using t by (simp add: u64_id)
    with \<open>?x \<le> chmodel_slack\<close> show ?thesis by simp
  qed
  then show "t \<le> t'" and "t' \<le> t + chmodel_slack" by auto
qed

text \<open>
  C35: A request inside the window whose interval range has enough credits is served in full: it
  takes one credit per 128-byte unit and completes after the transfer time plus the intervals
  it waited beyond those an idle channel needs; \<open>d\<close> is the least number of intervals after
  the first whose credits suffice.
\<close>

theorem chmodel_request_served:
  assumes wf: "chmodel_wf ch" and adv: "chmodel_advance ch now = Some ch1"
    and time: "now \<le> t" "t < 18446744073709551616"
    and offs: "offs = t div UNIT_TIME_INTERVAL - now div UNIT_TIME_INTERVAL" "offs < NR_CREDIT_ENTRIES"
    and units: "units = DIV_ROUND_UP len UNIT_XFER_SIZE" "units < 4294967296"
    and room: "units \<le> (\<Sum>k = offs..<NR_CREDIT_ENTRIES. win ch1 k)"
  shows "\<exists>d ch'. chmodel_request now ch t len = Some (u64 (t + u64 (u32 (cm_xfer_lat ch1 * units) +
        (d - units div cm_max_credits ch1) * UNIT_TIME_INTERVAL)), ch') \<and>
     units \<le> (\<Sum>k = offs..offs + d. win ch1 k) \<and>
     (\<forall>e<d. (\<Sum>k = offs..offs + e. win ch1 k) < units) \<and>
     (\<Sum>i<NR_CREDIT_ENTRIES. cm_avail_credits ch' i) + units = (\<Sum>i<NR_CREDIT_ENTRIES. cm_avail_credits ch1 i) \<and>
     chmodel_wf ch'"
proof -
  have wf1: "chmodel_wf ch1" using chmodel_advance_spec [OF wf, of now] adv by auto
  have q: "now div UNIT_TIME_INTERVAL \<le> t div UNIT_TIME_INTERVAL" using time(1) by (rule div_le_mono)
  have "t div UNIT_TIME_INTERVAL < 18446744073709551616"
    using time(2) div_le_dividend [of t UNIT_TIME_INTERVAL] by linarith
  then have o: "u32 (u64_sub (t div UNIT_TIME_INTERVAL) (now div UNIT_TIME_INTERVAL)) = offs"
    using q offs by (simp add: u64_sub_id u32_id NR_CREDIT_ENTRIES_def)
  have req: "chmodel_request now ch t len = chmodel_serve ch1 t offs units"
    using adv time offs units o by (simp add: chmodel_request_def Let_def u32_id)
  obtain d rest ch' where s: "chmodel_serve ch1 t offs units = Some (u64 (t + u64 (u32 (cm_xfer_lat ch1 * units) +
        (d - units div cm_max_credits ch1) * UNIT_TIME_INTERVAL)), ch')"
    and rest: "rest = units - (\<Sum>k = offs..offs + d. win ch1 k)"
    and lt: "0 < d \<Longrightarrow> (\<Sum>k = offs..<offs + d. win ch1 k) < units" and od: "offs + d < NR_CREDIT_ENTRIES"
    and wf': "chmodel_wf ch'"
    and sum: "(\<Sum>i<NR_CREDIT_ENTRIES. cm_avail_credits ch' i) + units
        = (\<Sum>i<NR_CREDIT_ENTRIES. cm_avail_credits ch1 i) + rest"
    and stop: "rest = 0 \<or> offs + d + 1 = NR_CREDIT_ENTRIES"
    using chmodel_serve_spec [OF wf1 offs(2) units(2), of t] by blast
  have "rest = 0"
  proof (rule ccontr)
    assume "rest \<noteq> 0"
    with stop have "{offs..<NR_CREDIT_ENTRIES} = {offs..offs + d}" by auto
    with rest room \<open>rest \<noteq> 0\<close> show False by simp
  qed
  have "(\<Sum>k = offs..offs + e. win ch1 k) < units" if "e < d" for e
  proof -
    have "(\<Sum>k = offs..offs + e. win ch1 k) \<le> (\<Sum>k = offs..<offs + d. win ch1 k)"
      by (rule sum_mono2) (use that in auto)
    with lt that show ?thesis by simp
  qed
  with req s wf' sum rest \<open>rest = 0\<close> show ?thesis by auto
qed

theorem chmodel_request_served_witness:
  "\<exists>ch ch1 d ch'. chmodel_init 800 = Some ch \<and> chmodel_advance ch 0 = Some ch1 \<and>
     chmodel_request 0 ch 0 128 = Some (u64 (0 + u64 (u32 (cm_xfer_lat ch1 * 1) +
        (d - 1 div cm_max_credits ch1) * UNIT_TIME_INTERVAL)), ch') \<and> chmodel_wf ch'"
proof -
  obtain ch where ch: "chmodel_init 800 = Some ch" "chmodel_wf ch" using chmodel_init_wf [of 800] by auto
  obtain ch1 where a: "chmodel_advance ch 0 = Some ch1" "chmodel_wf ch1" using chmodel_advance_spec [OF ch(2), of 0] by auto
  have "cm_avail_credits ch = (\<lambda>i. if i < 98304 then cm_max_credits ch else 0)" "0 < cm_max_credits ch"
    "cm_valid_len ch = 0" "cm_head ch = 0"
    using ch by (auto simp: chmodel_init_def MEMSET_def Let_def u32_id u8_id BANDWIDTH_TO_MAX_CREDITS_def size_macros
        chmodel_consts)
  then have w: "0 < win ch1 0" using a(1)
    by (auto simp: chmodel_advance_def MEMSET_def win_def Let_def chmodel_consts u32_id u64_sub_id u32_sub_id split: if_splits)
  have "win ch1 0 \<le> (\<Sum>k = 0..<NR_CREDIT_ENTRIES. win ch1 k)"
    by (rule member_le_sum) (simp_all add: NR_CREDIT_ENTRIES_def)
  then have room: "1 \<le> (\<Sum>k = 0..<NR_CREDIT_ENTRIES. win ch1 k)" using w by simp
  from chmodel_request_served [OF ch(2) a(1), of 0 0 1 128] room ch(1) a(1) show ?thesis
    by (auto simp: chmodel_consts DIV_ROUND_UP_def)
qed

text \<open>
  A request completes no earlier than it starts and at most 4.7 seconds later (the transfer
  time held in 32 bits plus the whole window of intervals), and it always returns.
\<close>

theorem chmodel_request_bounds:
  assumes "chmodel_wf ch" "t + chmodel_slack < 18446744073709551616"
  shows "\<exists>t' ch'. chmodel_request now ch t len = Some (t', ch') \<and> chmodel_wf ch' \<and> t \<le> t' \<and> t' \<le> t + chmodel_slack"
proof -
  obtain t' ch' where "chmodel_request now ch t len = Some (t', ch')" "chmodel_wf ch'"
    using chmodel_request_returns [OF assms(1)] by blast
  with chmodel_request_ge [OF assms this(1)] show ?thesis by blast
qed

theorem chmodel_request_bounds_witness:
  "\<exists>ch t' ch'. chmodel_init 800 = Some ch \<and> chmodel_request 5000 ch 9000 4096 = Some (t', ch') \<and>
     9000 \<le> t' \<and> t' \<le> 9000 + chmodel_slack"
proof -
  obtain ch where ch: "chmodel_init 800 = Some ch" "chmodel_wf ch" using chmodel_init_wf [of 800] by auto
  with chmodel_request_bounds [OF ch(2), of 9000 5000 4096] show ?thesis
    by (auto simp: chmodel_slack_def chmodel_consts)
qed

end
