(* ===== verification/Ssd.thy ===== *)
theory Ssd
  imports Ssd_Params Channel_Model
begin

text \<open>
  The NAND device of \<open>ssd.h\<close> and \<open>ssd.c\<close>: the tree of channels, LUNs, planes, blocks and
  pages with its accessors, its construction, the write buffer, and the timing of NAND and
  PCIe operations.

  \<^item> Pointers into the tree become accessors that return a copy (\<open>get_blk\<close>) and writers that
    store it back (\<open>put_blk\<close>); an index outside an array is a failure.
  \<^item> All partitions of a namespace share one PCIe channel model and one write buffer, so these
    two live in \<open>ssd_shared\<close> beside the number of clock readings made so far.
  \<^item> The CPU clock is the parameter \<open>clk\<close>: its \<open>k\<close>-th reading is \<open>clk k\<close>.
  \<^item> The spinlock of the write buffer is held over the whole body of each operation, which is
    therefore one step.

  Shown here: buffer accounting; the algebra of the accessors; every NAND command on a real
  page of a well-formed device returns, finishes no earlier than it starts, and changes
  timing only.
\<close>

section \<open>Write buffer\<close>

record buffer =
  buf_size :: nat
  buf_remaining :: nat

definition buffer_init :: "nat \<Rightarrow> buffer" where
  "buffer_init n = \<lparr>buf_size = n, buf_remaining = n\<rparr>"

definition buffer_allocate :: "buffer \<Rightarrow> nat \<Rightarrow> (nat \<times> buffer) option" where
  "buffer_allocate buf n = do {
     NVMEV_ASSERT (n \<le> buf_size buf);
     let n' = (if buf_remaining buf < n then 0 else n);
     Some (u32 n', buf\<lparr>buf_remaining := buf_remaining buf - n'\<rparr>)
   }"

definition buffer_release :: "buffer \<Rightarrow> nat \<Rightarrow> bool \<times> buffer" where
  "buffer_release buf n = (True, buf\<lparr>buf_remaining := u64 (buf_remaining buf + n)\<rparr>)"

definition buffer_refill :: "buffer \<Rightarrow> buffer" where
  "buffer_refill buf = buf\<lparr>buf_remaining := buf_size buf\<rparr>"

section \<open>The NAND tree\<close>

datatype sec_status = SEC_FREE | SEC_INVALID | SEC_VALID
datatype pg_status = PG_FREE | PG_INVALID | PG_VALID

record nand_page =
  pg_sec :: "sec_status list"
  pg_nsecs :: nat
  pg_status :: pg_status

record nand_block =
  blk_pg :: "nand_page list"
  blk_npgs :: nat
  blk_ipc :: int
  blk_vpc :: int
  blk_erase_cnt :: nat
  blk_wp :: nat

record nand_plane =
  pl_blk :: "nand_block list"
  next_pln_avail_time :: nat
  pl_nblks :: nat

record nand_lun =
  lun_pl :: "nand_plane list"
  lun_npls :: nat
  next_lun_avail_time :: nat
  lun_busy :: bool
  lun_gc_endtime :: nat

record ssd_channel =
  ch_lun :: "nand_lun list"
  ch_nluns :: nat
  ch_gc_endtime :: nat
  ch_perf_model :: channel_model

record ssd =
  ssd_sp :: ssdparams
  ssd_ch :: "ssd_channel list"
  cpu_nr_dispatcher :: nat

record ssd_shared =
  sh_ticks :: nat
  sh_pcie :: channel_model
  sh_wbuf :: buffer

text \<open>Accessors.\<close>

definition get_ch :: "ssd \<Rightarrow> ppa \<Rightarrow> ssd_channel option" where
  "get_ch s p = rd (ssd_ch s) (g_ch p)"

definition get_lun :: "ssd \<Rightarrow> ppa \<Rightarrow> nand_lun option" where
  "get_lun s p = do { ch \<leftarrow> get_ch s p; rd (ch_lun ch) (g_lun p) }"

definition get_pl :: "ssd \<Rightarrow> ppa \<Rightarrow> nand_plane option" where
  "get_pl s p = do { lun \<leftarrow> get_lun s p; rd (lun_pl lun) (g_pl p) }"

definition get_blk :: "ssd \<Rightarrow> ppa \<Rightarrow> nand_block option" where
  "get_blk s p = do { pl \<leftarrow> get_pl s p; rd (pl_blk pl) (g_blk p) }"

definition get_pg :: "ssd \<Rightarrow> ppa \<Rightarrow> nand_page option" where
  "get_pg s p = do { blk \<leftarrow> get_blk s p; rd (blk_pg blk) (g_pg p) }"

definition get_cell :: "ssd \<Rightarrow> ppa \<Rightarrow> nat option" where
  "get_cell s p = do {
     let spp = ssd_sp s;
     NVMEV_ASSERT (pgs_per_flashpg spp \<noteq> 0 \<and> cell_mode spp \<noteq> 0);
     Some (g_pg p div pgs_per_flashpg spp mod cell_mode spp)
   }"

text \<open>Writes through the pointers the accessors return.\<close>

definition upd_nth :: "'a list \<Rightarrow> nat \<Rightarrow> ('a \<Rightarrow> 'a) \<Rightarrow> 'a list" where
  "upd_nth xs i f = xs[i := f (xs ! i)]"

definition put_ch :: "ssd \<Rightarrow> ppa \<Rightarrow> ssd_channel \<Rightarrow> ssd" where
  "put_ch s p c = s\<lparr>ssd_ch := (ssd_ch s)[g_ch p := c]\<rparr>"

definition put_lun :: "ssd \<Rightarrow> ppa \<Rightarrow> nand_lun \<Rightarrow> ssd" where
  "put_lun s p l = s\<lparr>ssd_ch := upd_nth (ssd_ch s) (g_ch p) (\<lambda>c. c\<lparr>ch_lun := (ch_lun c)[g_lun p := l]\<rparr>)\<rparr>"

definition put_blk :: "ssd \<Rightarrow> ppa \<Rightarrow> nand_block \<Rightarrow> ssd" where
  "put_blk s p b = s\<lparr>ssd_ch := upd_nth (ssd_ch s) (g_ch p) (\<lambda>c.
     c\<lparr>ch_lun := upd_nth (ch_lun c) (g_lun p) (\<lambda>l.
       l\<lparr>lun_pl := upd_nth (lun_pl l) (g_pl p) (\<lambda>pl.
         pl\<lparr>pl_blk := (pl_blk pl)[g_blk p := b]\<rparr>)\<rparr>)\<rparr>)\<rparr>"

text \<open>
  Construction. Fields the code leaves as \<open>kmalloc\<close> returned them are 0 here; none is read
  before it is written.
\<close>

definition ssd_init_nand_page :: "ssdparams \<Rightarrow> nand_page" where
  "ssd_init_nand_page spp = \<lparr>pg_sec = replicate (secs_per_pg spp) SEC_FREE,
     pg_nsecs = secs_per_pg spp, pg_status = PG_FREE\<rparr>"

definition ssd_init_nand_blk :: "ssdparams \<Rightarrow> nand_block" where
  "ssd_init_nand_blk spp = \<lparr>blk_pg = map (\<lambda>_. ssd_init_nand_page spp) [0..<pgs_per_blk spp],
     blk_npgs = pgs_per_blk spp, blk_ipc = 0, blk_vpc = 0, blk_erase_cnt = 0, blk_wp = 0\<rparr>"

definition ssd_init_nand_plane :: "ssdparams \<Rightarrow> nand_plane" where
  "ssd_init_nand_plane spp = \<lparr>pl_blk = map (\<lambda>_. ssd_init_nand_blk spp) [0..<blks_per_pl spp],
     next_pln_avail_time = 0, pl_nblks = blks_per_pl spp\<rparr>"

definition ssd_init_nand_lun :: "ssdparams \<Rightarrow> nand_lun" where
  "ssd_init_nand_lun spp = \<lparr>lun_pl = map (\<lambda>_. ssd_init_nand_plane spp) [0..<pls_per_lun spp],
     lun_npls = pls_per_lun spp, next_lun_avail_time = 0, lun_busy = False, lun_gc_endtime = 0\<rparr>"

definition ssd_init_ch :: "ssdparams \<Rightarrow> ssd_channel option" where
  "ssd_init_ch spp = do {
     let luns = map (\<lambda>_. ssd_init_nand_lun spp) [0..<luns_per_ch spp];
     cm \<leftarrow> chmodel_init (ch_bandwidth spp);
     let lat = u32 (cm_xfer_lat cm + fw_ch_xfer_lat spp * UNIT_XFER_SIZE div KB 4);
     Some \<lparr>ch_lun = luns, ch_nluns = luns_per_ch spp, ch_gc_endtime = 0,
           ch_perf_model = cm\<lparr>cm_xfer_lat := lat\<rparr>\<rparr>
   }"

definition ssd_init_pcie :: "ssdparams \<Rightarrow> channel_model option" where
  "ssd_init_pcie spp = chmodel_init (pcie_bandwidth spp)"

definition ssd_init :: "ssdparams \<Rightarrow> nat \<Rightarrow> (ssd \<times> channel_model \<times> buffer) option" where
  "ssd_init spp cpu = do {
     chs \<leftarrow> foldM (\<lambda>i chs. do { c \<leftarrow> ssd_init_ch spp; Some (chs @ [c]) }) [0..<nchs spp] [];
     pcie \<leftarrow> ssd_init_pcie spp;
     let wbuf = buffer_init (write_buffer_size spp);
     Some (\<lparr>ssd_sp = spp, ssd_ch = chs, cpu_nr_dispatcher = cpu\<rparr>, pcie, wbuf)
   }"

section \<open>Timing\<close>

datatype nand_op = NAND_READ | NAND_WRITE | NAND_ERASE | NAND_NOP | NAND_UNSUPPORTED int

datatype io_type = USER_IO | GC_IO

record nand_cmd =
  nc_type :: io_type
  nc_cmd :: nand_op
  nc_xfer_size :: nat
  nc_stime :: nat
  nc_interleave_pci_dma :: bool
  nc_ppa :: ppa

definition get_clock :: "(nat \<Rightarrow> nat) \<Rightarrow> ssd_shared \<Rightarrow> nat \<times> ssd_shared" where
  "get_clock clk sh = (clk (sh_ticks sh), sh\<lparr>sh_ticks := sh_ticks sh + 1\<rparr>)"

definition ssd_advance_pcie ::
  "(nat \<Rightarrow> nat) \<Rightarrow> ssd_shared \<Rightarrow> nat \<Rightarrow> nat \<Rightarrow> (nat \<times> ssd_shared) option" where
  "ssd_advance_pcie clk sh request_time len = do {
     let (now, sh1) = get_clock clk sh;
     (t, cm) \<leftarrow> chmodel_request now (sh_pcie sh1) request_time len;
     Some (t, sh1\<lparr>sh_pcie := cm\<rparr>)
   }"

definition ssd_advance_write_buffer ::
  "(nat \<Rightarrow> nat) \<Rightarrow> ssdparams \<Rightarrow> ssd_shared \<Rightarrow> nat \<Rightarrow> nat \<Rightarrow> (nat \<times> ssd_shared) option" where
  "ssd_advance_write_buffer clk spp sh request_time len =
     (let t0 = u64 (request_time + fw_wbuf_lat0 spp);
          t1 = u64 (t0 + fw_wbuf_lat1 spp * DIV_ROUND_UP len (KB 4))
      in ssd_advance_pcie clk sh t1 len)"

text \<open>
  The transfer loop of a NAND read, in chunks of \<open>max_ch_xfer_size\<close>; each chunk may overlap
  with its PCIe transfer. With a chunk size of 0 it does not end.
\<close>

partial_function (option) nand_read_xfer ::
  "(nat \<Rightarrow> nat) \<Rightarrow> nat \<Rightarrow> bool \<Rightarrow> nat \<Rightarrow> nat \<Rightarrow> nat \<Rightarrow> nat \<Rightarrow> channel_model \<Rightarrow> ssd_shared \<Rightarrow>
   (nat \<times> nat \<times> channel_model \<times> ssd_shared) option" where
  "nand_read_xfer clk mx interleave remaining chnl_stime chnl_etime completed_time cm sh =
     (if remaining = 0 then Some (chnl_etime, completed_time, cm, sh)
      else Option.bind (let xfer_size = min remaining mx; (now, sh1) = get_clock clk sh in
             Option.bind (chmodel_request now cm chnl_stime xfer_size) (\<lambda>(et, cm1).
             Option.bind (if interleave then ssd_advance_pcie clk sh1 et xfer_size
                          else Some (et, sh1)) (\<lambda>(ct, sh2).
             Some (et, ct, cm1, sh2))))
           (\<lambda>(et, ct, cm1, sh2).
             nand_read_xfer clk mx interleave (remaining - min remaining mx) et et ct cm1 sh2))"

text \<open>
  A read of 0 bytes would use two uninitialised variables; it is a failure. The result for an
  unmapped address and for an unsupported command follows the early returns of the code.
\<close>

definition ssd_advance_nand ::
  "(nat \<Rightarrow> nat) \<Rightarrow> nand_cmd \<Rightarrow> ssd \<Rightarrow> ssd_shared \<Rightarrow> (nat \<times> ssd \<times> ssd_shared) option" where
  "ssd_advance_nand clk ncmd s sh0 =
     (let (cmd_stime, sh) = (if nc_stime ncmd = 0 then get_clock clk sh0 else (nc_stime ncmd, sh0));
          p = nc_ppa ncmd
      in if ppa_value p = UNMAPPED_PPA then Some (cmd_stime, s, sh)
      else do {
        let spp = ssd_sp s;
        lun \<leftarrow> get_lun s p;
        ch \<leftarrow> get_ch s p;
        cell \<leftarrow> get_cell s p;
        let start = max (next_lun_avail_time lun) cmd_stime;
        case nc_cmd ncmd of
          NAND_READ \<Rightarrow> do {
            lat \<leftarrow> (if nc_xfer_size ncmd = 4096 then rd (pg_4kb_rd_lat spp) cell
                    else rd (pg_rd_lat spp) cell);
            let nand_etime = u64 (start + lat);
            NVMEV_ASSERT (nc_xfer_size ncmd \<noteq> 0);
            (chnl_etime, completed_time, cm, sh') \<leftarrow>
              nand_read_xfer clk (max_ch_xfer_size spp) (nc_interleave_pci_dma ncmd)
                (nc_xfer_size ncmd) nand_etime 0 0 (ch_perf_model ch) sh;
            let s' = put_ch s p (ch\<lparr>ch_perf_model := cm\<rparr>);
            Some (completed_time, put_lun s' p (lun\<lparr>next_lun_avail_time := chnl_etime\<rparr>), sh')
          }
        | NAND_WRITE \<Rightarrow> do {
            let (now, sh1) = get_clock clk sh;
            (chnl_etime, cm) \<leftarrow> chmodel_request now (ch_perf_model ch) start (nc_xfer_size ncmd);
            let nand_etime = u64 (chnl_etime + pg_wr_lat spp);
            let s' = put_ch s p (ch\<lparr>ch_perf_model := cm\<rparr>);
            Some (nand_etime, put_lun s' p (lun\<lparr>next_lun_avail_time := nand_etime\<rparr>), sh1)
          }
        | NAND_ERASE \<Rightarrow> do {
            let nand_etime = u64 (start + blk_er_lat spp);
            Some (nand_etime, put_lun s p (lun\<lparr>next_lun_avail_time := nand_etime\<rparr>), sh)
          }
        | NAND_NOP \<Rightarrow> Some (start, put_lun s p (lun\<lparr>next_lun_avail_time := start\<rparr>), sh)
        | NAND_UNSUPPORTED _ \<Rightarrow> Some (0, s, sh)
      })"

definition ssd_next_idle_time ::
  "(nat \<Rightarrow> nat) \<Rightarrow> ssd \<Rightarrow> ssd_shared \<Rightarrow> (nat \<times> ssd_shared) option" where
  "ssd_next_idle_time clk s sh0 = do {
     let spp = ssd_sp s;
     let (now, sh) = get_clock clk sh0;
     latest \<leftarrow> foldM (\<lambda>i latest. do {
         ch \<leftarrow> rd (ssd_ch s) i;
         foldM (\<lambda>j latest. do {
             lun \<leftarrow> rd (ch_lun ch) j;
             Some (max latest (next_lun_avail_time lun))
           }) [0..<luns_per_ch spp] latest
       }) [0..<nchs spp] now;
     Some (latest, sh)
   }"

section \<open>Buffer accounting\<close>

definition buffer_ok :: "buffer \<Rightarrow> bool" where
  "buffer_ok b \<longleftrightarrow> buf_remaining b \<le> buf_size b"

lemma buffer_allocate_spec:
  assumes "buffer_ok b" "n \<le> buf_size b" "n < 4294967296"
  shows "\<exists>b'. buffer_allocate b n = Some (if n \<le> buf_remaining b then n else 0, b') \<and>
    buffer_ok b' \<and> buf_size b' = buf_size b \<and>
    buf_remaining b = buf_remaining b' + (if n \<le> buf_remaining b then n else 0)"
  using assms by (auto simp: buffer_allocate_def buffer_ok_def u32_id Let_def)

section \<open>Well-formed devices\<close>

definition blk_ok :: "ssdparams \<Rightarrow> nand_block \<Rightarrow> bool" where
  "blk_ok sp b \<longleftrightarrow> length (blk_pg b) = pgs_per_blk sp \<and> blk_npgs b = pgs_per_blk sp \<and>
     (\<forall>g\<in>set (blk_pg b). pg_nsecs g = secs_per_pg sp)"

definition pl_ok :: "ssdparams \<Rightarrow> nand_plane \<Rightarrow> bool" where
  "pl_ok sp pl \<longleftrightarrow> length (pl_blk pl) = blks_per_pl sp \<and> (\<forall>b\<in>set (pl_blk pl). blk_ok sp b)"

definition lun_ok :: "ssdparams \<Rightarrow> nand_lun \<Rightarrow> bool" where
  "lun_ok sp l \<longleftrightarrow> length (lun_pl l) = pls_per_lun sp \<and> (\<forall>pl\<in>set (lun_pl l). pl_ok sp pl)"

definition ch_ok :: "ssdparams \<Rightarrow> ssd_channel \<Rightarrow> bool" where
  "ch_ok sp c \<longleftrightarrow> length (ch_lun c) = luns_per_ch sp \<and> (\<forall>l\<in>set (ch_lun c). lun_ok sp l) \<and>
     chmodel_wf (ch_perf_model c)"

definition ssd_ok :: "ssd \<Rightarrow> bool" where
  "ssd_ok s \<longleftrightarrow> geo_ok (ssd_sp s) \<and> length (ssd_ch s) = nchs (ssd_sp s) \<and>
     (\<forall>c\<in>set (ssd_ch s). ch_ok (ssd_sp s) c)"

definition shared_ok :: "ssd_shared \<Rightarrow> bool" where
  "shared_ok sh \<longleftrightarrow> chmodel_wf (sh_pcie sh) \<and> buffer_ok (sh_wbuf sh)"

text \<open>The block with given coordinates (there is one plane), and the LUN.\<close>

definition blk_at :: "ssd \<Rightarrow> nat \<Rightarrow> nat \<Rightarrow> nat \<Rightarrow> nand_block" where
  "blk_at s c l b = pl_blk (lun_pl (ch_lun (ssd_ch s ! c) ! l) ! 0) ! b"

text \<open>Two devices that differ in timing only.\<close>

definition same_nand :: "ssd \<Rightarrow> ssd \<Rightarrow> bool" where
  "same_nand s s' \<longleftrightarrow> ssd_sp s' = ssd_sp s \<and> blk_at s' = blk_at s"

lemma same_nand_refl [simp]: "same_nand s s"
  by (simp add: same_nand_def)

lemma same_nand_trans: "same_nand s s' \<Longrightarrow> same_nand s' s'' \<Longrightarrow> same_nand s s''"
  by (simp add: same_nand_def)

lemma ssd_okD:
  assumes "ssd_ok s"
  shows "geo_ok (ssd_sp s)" "length (ssd_ch s) = nchs (ssd_sp s)"
    "c < nchs (ssd_sp s) \<Longrightarrow> ch_ok (ssd_sp s) (ssd_ch s ! c)"
  using assms by (auto simp: ssd_ok_def)

lemma ssd_ok_ch:
  assumes "ssd_ok s" "c < nchs (ssd_sp s)"
  shows "length (ch_lun (ssd_ch s ! c)) = luns_per_ch (ssd_sp s)"
    "chmodel_wf (ch_perf_model (ssd_ch s ! c))"
    "l < luns_per_ch (ssd_sp s) \<Longrightarrow> lun_ok (ssd_sp s) (ch_lun (ssd_ch s ! c) ! l)"
  using ssd_okD(3) [OF assms] by (auto simp: ch_ok_def)

lemma ssd_ok_pl:
  assumes "ssd_ok s" "c < nchs (ssd_sp s)" "l < luns_per_ch (ssd_sp s)"
  shows "length (lun_pl (ch_lun (ssd_ch s ! c) ! l)) = 1"
    "pl_ok (ssd_sp s) (lun_pl (ch_lun (ssd_ch s ! c) ! l) ! 0)"
  using ssd_ok_ch(3) [OF assms] ssd_okD(1) [OF assms(1)] by (auto simp: lun_ok_def geo_ok_def)

lemma ssd_ok_blk:
  assumes "ssd_ok s" "c < nchs (ssd_sp s)" "l < luns_per_ch (ssd_sp s)" "b < blks_per_pl (ssd_sp s)"
  shows "blk_ok (ssd_sp s) (blk_at s c l b)"
  using ssd_ok_pl(2) [OF assms(1-3)] assms(4) by (auto simp: pl_ok_def blk_at_def)

lemma geo_pl0: "geo_ok sp \<Longrightarrow> valid_ppa sp p \<Longrightarrow> g_pl p = 0"
  by (auto simp: geo_ok_def valid_ppa_iff)

lemma get_lun_eq:
  assumes "ssd_ok s" "valid_ppa (ssd_sp s) p"
  shows "get_lun s p = Some (ch_lun (ssd_ch s ! g_ch p) ! g_lun p)"
    "get_ch s p = Some (ssd_ch s ! g_ch p)"
  using assms ssd_okD(2) [OF assms(1)] ssd_ok_ch(1) [OF assms(1)]
  by (auto simp: get_lun_def get_ch_def valid_ppa_iff)

lemma get_blk_eq:
  assumes "ssd_ok s" "valid_ppa (ssd_sp s) p"
  shows "get_blk s p = Some (blk_at s (g_ch p) (g_lun p) (g_blk p))"
proof -
  have v: "g_ch p < nchs (ssd_sp s)" "g_lun p < luns_per_ch (ssd_sp s)" "g_blk p < blks_per_pl (ssd_sp s)"
    using assms(2) by (auto simp: valid_ppa_iff)
  have "length (pl_blk (lun_pl (ch_lun (ssd_ch s ! g_ch p) ! g_lun p) ! 0)) = blks_per_pl (ssd_sp s)"
    using ssd_ok_pl(2) [OF assms(1) v(1,2)] by (simp add: pl_ok_def)
  then show ?thesis
    using v geo_pl0 [OF ssd_okD(1) [OF assms(1)] assms(2)] ssd_ok_pl(1) [OF assms(1) v(1,2)]
    by (simp add: get_blk_def get_pl_def get_lun_eq [OF assms] blk_at_def)
qed

lemma get_pg_eq:
  assumes "ssd_ok s" "valid_ppa (ssd_sp s) p"
  shows "get_pg s p = Some (blk_pg (blk_at s (g_ch p) (g_lun p) (g_blk p)) ! g_pg p)"
proof -
  have "length (blk_pg (blk_at s (g_ch p) (g_lun p) (g_blk p))) = pgs_per_blk (ssd_sp s)"
    using ssd_ok_blk [OF assms(1)] assms(2) by (auto simp: valid_ppa_iff blk_ok_def)
  then show ?thesis
    using assms(2) by (simp add: get_pg_def get_blk_eq [OF assms] valid_ppa_iff)
qed

lemma get_cell_eq:
  assumes "ssd_ok s"
  shows "\<exists>c. get_cell s p = Some c \<and> c < cell_mode (ssd_sp s)"
  using ssd_okD(1) [OF assms] by (auto simp: get_cell_def geo_ok_def Let_def)

lemma put_blk_sp [simp]: "ssd_sp (put_blk s p b) = ssd_sp s"
  by (simp add: put_blk_def)

lemma put_lun_sp [simp]: "ssd_sp (put_lun s p l) = ssd_sp s"
  by (simp add: put_lun_def)

lemma put_ch_sp [simp]: "ssd_sp (put_ch s p c) = ssd_sp s"
  by (simp add: put_ch_def)

lemmas in_set_updD = set_update_subset_insert [THEN subsetD]

lemma put_blk_ok:
  assumes ok: "ssd_ok s" and p: "valid_ppa (ssd_sp s) p" and b: "blk_ok (ssd_sp s) b"
  shows "ssd_ok (put_blk s p b)"
proof -
  have v: "g_ch p < nchs (ssd_sp s)" "g_lun p < luns_per_ch (ssd_sp s)"
    using p by (auto simp: valid_ppa_iff)
  note pl0 = geo_pl0 [OF ssd_okD(1) [OF ok] p]
  let ?c = "ssd_ch s ! g_ch p" let ?l = "ch_lun ?c ! g_lun p" let ?pl = "lun_pl ?l ! 0"
  have "pl_ok (ssd_sp s) (?pl\<lparr>pl_blk := (pl_blk ?pl)[g_blk p := b]\<rparr>)"
    using ssd_ok_pl(2) [OF ok v] b by (auto simp: pl_ok_def dest!: in_set_updD)
  then have "lun_ok (ssd_sp s) (?l\<lparr>lun_pl := upd_nth (lun_pl ?l) (g_pl p)
      (\<lambda>pl. pl\<lparr>pl_blk := (pl_blk pl)[g_blk p := b]\<rparr>)\<rparr>)"
    using ssd_ok_ch(3) [OF ok v] pl0
    by (auto simp: lun_ok_def upd_nth_def dest!: in_set_updD)
  then have "ch_ok (ssd_sp s) (?c\<lparr>ch_lun := upd_nth (ch_lun ?c) (g_lun p) (\<lambda>l. l\<lparr>lun_pl :=
      upd_nth (lun_pl l) (g_pl p) (\<lambda>pl. pl\<lparr>pl_blk := (pl_blk pl)[g_blk p := b]\<rparr>)\<rparr>)\<rparr>)"
    using ssd_okD(3) [OF ok v(1)] by (auto simp: ch_ok_def upd_nth_def dest!: in_set_updD)
  then show ?thesis
    using ok unfolding ssd_ok_def put_blk_def by (auto simp: upd_nth_def dest!: in_set_updD)
qed

lemma blk_at_put_blk:
  assumes ok: "ssd_ok s" and p: "valid_ppa (ssd_sp s) p"
  shows "blk_at (put_blk s p b) c l k =
    (if c = g_ch p \<and> l = g_lun p \<and> k = g_blk p then b else blk_at s c l k)"
proof -
  have v: "g_ch p < nchs (ssd_sp s)" "g_lun p < luns_per_ch (ssd_sp s)" "g_blk p < blks_per_pl (ssd_sp s)"
    using p by (auto simp: valid_ppa_iff)
  have len: "length (pl_blk (lun_pl (ch_lun (ssd_ch s ! g_ch p) ! g_lun p) ! 0)) = blks_per_pl (ssd_sp s)"
    using ssd_ok_pl(2) [OF ok v(1,2)] by (simp add: pl_ok_def)
  show ?thesis
    using v len ssd_okD(2) [OF ok] ssd_ok_ch(1) [OF ok v(1)] ssd_ok_pl(1) [OF ok v(1,2)]
      geo_pl0 [OF ssd_okD(1) [OF ok] p]
    by (auto simp: blk_at_def put_blk_def upd_nth_def nth_list_update)
qed

text \<open>Replacing a channel or a LUN by one with the same blocks.\<close>

lemma put_timing:
  assumes ok: "ssd_ok s" and p: "valid_ppa (ssd_sp s) p" and cm: "chmodel_wf cm"
    and l: "lun_pl l = lun_pl (ch_lun (ssd_ch s ! g_ch p) ! g_lun p)"
  shows "ssd_ok (put_lun (put_ch s p ((ssd_ch s ! g_ch p)\<lparr>ch_perf_model := cm\<rparr>)) p l)"
    and "same_nand s (put_lun (put_ch s p ((ssd_ch s ! g_ch p)\<lparr>ch_perf_model := cm\<rparr>)) p l)"
proof -
  have v: "g_ch p < nchs (ssd_sp s)" "g_lun p < luns_per_ch (ssd_sp s)"
    using p by (auto simp: valid_ppa_iff)
  let ?c = "ssd_ch s ! g_ch p"
  have len: "g_ch p < length (ssd_ch s)" using ssd_okD(2) [OF ok] v by simp
  have "lun_ok (ssd_sp s) l" using ssd_ok_ch(3) [OF ok v] l by (simp add: lun_ok_def)
  then have "ch_ok (ssd_sp s) (?c\<lparr>ch_perf_model := cm, ch_lun := (ch_lun ?c)[g_lun p := l]\<rparr>)"
    using ssd_okD(3) [OF ok v(1)] cm by (auto simp: ch_ok_def dest!: in_set_updD)
  then show "ssd_ok (put_lun (put_ch s p (?c\<lparr>ch_perf_model := cm\<rparr>)) p l)"
    using ok len unfolding ssd_ok_def put_ch_def put_lun_def
    by (auto simp: upd_nth_def dest!: in_set_updD)
  let ?X = "?c\<lparr>ch_perf_model := cm, ch_lun := (ch_lun ?c)[g_lun p := l]\<rparr>"
  have "put_lun (put_ch s p (?c\<lparr>ch_perf_model := cm\<rparr>)) p l = s\<lparr>ssd_ch := (ssd_ch s)[g_ch p := ?X]\<rparr>"
    using len by (simp add: put_ch_def put_lun_def upd_nth_def)
  moreover have "lun_pl (ch_lun ((ssd_ch s)[g_ch p := ?X] ! c) ! j) = lun_pl (ch_lun (ssd_ch s ! c) ! j)" for c j
  proof (cases "c = g_ch p")
    case True
    then show ?thesis using len v ssd_ok_ch(1) [OF ok v(1)] l by (simp add: nth_list_update)
  qed simp
  ultimately show "same_nand s (put_lun (put_ch s p (?c\<lparr>ch_perf_model := cm\<rparr>)) p l)"
    by (simp add: same_nand_def blk_at_def fun_eq_iff)
qed

lemma put_lun_timing:
  assumes ok: "ssd_ok s" and p: "valid_ppa (ssd_sp s) p"
    and l: "lun_pl l = lun_pl (ch_lun (ssd_ch s ! g_ch p) ! g_lun p)"
  shows "ssd_ok (put_lun s p l)" and "same_nand s (put_lun s p l)"
proof -
  have v: "g_ch p < nchs (ssd_sp s)" using p by (auto simp: valid_ppa_iff)
  have "put_ch s p ((ssd_ch s ! g_ch p)\<lparr>ch_perf_model := ch_perf_model (ssd_ch s ! g_ch p)\<rparr>) = s"
    by (simp add: put_ch_def)
  with put_timing [OF ok p ssd_ok_ch(2) [OF ok v] l]
  show "ssd_ok (put_lun s p l)" and "same_nand s (put_lun s p l)" by simp_all
qed

section \<open>NAND commands return and change timing only\<close>

lemma get_clock_ok [simp]: "get_clock clk sh = (n, sh') \<Longrightarrow> shared_ok sh' = shared_ok sh"
  by (auto simp: get_clock_def shared_ok_def)

text \<open>What the timing of an operation may change of the shared state.\<close>

definition sh_timing :: "ssd_shared \<Rightarrow> ssd_shared \<Rightarrow> bool" where
  "sh_timing sh sh' \<longleftrightarrow> shared_ok sh' \<and> sh_wbuf sh' = sh_wbuf sh"

lemma ssd_advance_pcie_returns:
  assumes "shared_ok sh"
  shows "\<exists>t' sh'. ssd_advance_pcie clk sh t len = Some (t', sh') \<and> sh_timing sh sh'"
proof -
  obtain t' cm where "chmodel_request (clk (sh_ticks sh)) (sh_pcie sh) t len = Some (t', cm)" "chmodel_wf cm"
    using chmodel_request_returns [of "sh_pcie sh"] assms unfolding shared_ok_def by blast
  then show ?thesis
    using assms by (auto simp: ssd_advance_pcie_def get_clock_def sh_timing_def shared_ok_def)
qed

lemma ssd_advance_write_buffer_returns:
  assumes "shared_ok sh"
  shows "\<exists>t' sh'. ssd_advance_write_buffer clk spp sh t len = Some (t', sh') \<and> sh_timing sh sh'"
  unfolding ssd_advance_write_buffer_def Let_def by (rule ssd_advance_pcie_returns [OF assms])

lemma nand_read_xfer_returns:
  assumes "shared_ok sh" "chmodel_wf cm" "0 < mx"
  shows "\<exists>et ct cm' sh'. nand_read_xfer clk mx il rem t0 t1 t2 cm sh = Some (et, ct, cm', sh') \<and>
     chmodel_wf cm' \<and> sh_timing sh sh'"
  using assms
proof (induction rem arbitrary: t0 t1 t2 cm sh rule: less_induct)
  case (less rem)
  show ?case
  proof (cases "rem = 0")
    case True
    then show ?thesis using less.prems by (simp add: nand_read_xfer.simps sh_timing_def)
  next
    case False
    let ?x = "min rem mx" and ?now = "clk (sh_ticks sh)" and ?sh1 = "sh\<lparr>sh_ticks := sh_ticks sh + 1\<rparr>"
    have sh1: "shared_ok ?sh1" using less.prems by (simp add: shared_ok_def)
    obtain et cm1 where 1: "chmodel_request ?now cm t0 ?x = Some (et, cm1)" "chmodel_wf cm1"
      using chmodel_request_returns [OF less.prems(2)] by blast
    obtain ct sh2 where 2: "(if il then ssd_advance_pcie clk ?sh1 et ?x else Some (et, ?sh1)) = Some (ct, sh2)"
      "sh_timing sh sh2"
    proof (cases il)
      case True
      then show ?thesis
        using that ssd_advance_pcie_returns [OF sh1, of clk et ?x] by (auto simp: sh_timing_def)
    next
      case False
      then show ?thesis using that sh1 by (auto simp: sh_timing_def)
    qed
    have "rem - ?x < rem" using False less.prems(3) by simp
    from less.IH [OF this _ 1(2) less.prems(3), of sh2 et et ct] 2(2)
    obtain et' ct' cm' sh' where "nand_read_xfer clk mx il (rem - ?x) et et ct cm1 sh2 = Some (et', ct', cm', sh')"
      "chmodel_wf cm'" "sh_timing sh sh'" by (auto simp: sh_timing_def)
    moreover have "nand_read_xfer clk mx il rem t0 t1 t2 cm sh
        = nand_read_xfer clk mx il (rem - ?x) et et ct cm1 sh2"
      using False 1(1) 2(1) by (subst nand_read_xfer.simps) (simp add: get_clock_def split: if_splits)
    ultimately show ?thesis by simp
  qed
qed

theorem ssd_advance_nand_returns:
  assumes ok: "ssd_ok s" and sh: "shared_ok sh" and p: "real_ppa (ssd_sp s) (nc_ppa cmd)"
    and x: "nc_cmd cmd = NAND_READ \<Longrightarrow> nc_xfer_size cmd \<noteq> 0"
  shows "\<exists>t s' sh'. ssd_advance_nand clk cmd s sh = Some (t, s', sh') \<and>
     ssd_ok s' \<and> same_nand s s' \<and> sh_timing sh sh'"
proof -
  let ?p = "nc_ppa cmd" and ?sp = "ssd_sp s"
  let ?c = "ssd_ch s ! g_ch ?p" let ?l = "ch_lun ?c ! g_lun ?p"
  have v: "valid_ppa ?sp ?p" using p by (simp add: real_ppa_def)
  have g: "geo_ok ?sp" by (rule ssd_okD(1) [OF ok])
  have um: "ppa_value ?p \<noteq> UNMAPPED_PPA"
    using real_ppa_mapped [OF g p] by (simp add: mapped_ppa_def)
  have cw: "chmodel_wf (ch_perf_model ?c)"
    using ssd_ok_ch(2) [OF ok] v by (simp add: valid_ppa_iff)
  obtain cell where cell: "get_cell s ?p = Some cell" "cell < cell_mode ?sp"
    using get_cell_eq [OF ok] by blast
  obtain t0 sh0 where st: "(if nc_stime cmd = 0 then get_clock clk sh else (nc_stime cmd, sh)) = (t0, sh0)"
    by (metis surj_pair)
  then have sh0: "shared_ok sh0" "sh_timing sh sh0"
    using sh by (auto simp: get_clock_def sh_timing_def shared_ok_def split: if_splits)
  note eqs = ssd_advance_nand_def st get_lun_eq [OF ok v] cell um Let_def
  show ?thesis
  proof (cases "nc_cmd cmd")
    case NAND_READ
    let ?n = "u64 (max (next_lun_avail_time ?l) t0 +
      (if nc_xfer_size cmd = 4096 then pg_4kb_rd_lat ?sp ! cell else pg_rd_lat ?sp ! cell))"
    obtain et ct cm sh' where r: "nand_read_xfer clk (max_ch_xfer_size ?sp) (nc_interleave_pci_dma cmd)
        (nc_xfer_size cmd) ?n 0 0 (ch_perf_model ?c) sh0 = Some (et, ct, cm, sh')"
      "chmodel_wf cm" "sh_timing sh0 sh'"
      using nand_read_xfer_returns [OF sh0(1) cw geo_pos(8) [OF g]] by blast
    have "cell < length (pg_4kb_rd_lat ?sp)" "cell < length (pg_rd_lat ?sp)"
      using cell(2) geo_le [OF g] by simp_all
    then show ?thesis
      using NAND_READ r x [OF NAND_READ] put_timing [OF ok v r(2)] sh0(2)
      by (auto simp: eqs sh_timing_def split: if_splits)
  next
    case NAND_WRITE
    let ?sh1 = "sh0\<lparr>sh_ticks := sh_ticks sh0 + 1\<rparr>"
    obtain et cm where r: "chmodel_request (clk (sh_ticks sh0)) (ch_perf_model ?c)
        (max (next_lun_avail_time ?l) t0) (nc_xfer_size cmd) = Some (et, cm)" "chmodel_wf cm"
      using chmodel_request_returns [OF cw] by blast
    then show ?thesis
      using NAND_WRITE put_timing [OF ok v r(2)] sh0
      by (auto simp: eqs get_clock_def sh_timing_def shared_ok_def)
  next
    case NAND_ERASE
    then show ?thesis using put_lun_timing [OF ok v] sh0 by (auto simp: eqs)
  next
    case NAND_NOP
    then show ?thesis using put_lun_timing [OF ok v] sh0 by (auto simp: eqs)
  next
    case (NAND_UNSUPPORTED i)
    then show ?thesis using ok sh0 by (auto simp: eqs)
  qed
qed

lemma next_idle_time:
  assumes ok: "ssd_ok s" and sh: "shared_ok sh"
  shows "\<exists>t sh'. ssd_next_idle_time clk s sh = Some (t, sh') \<and> sh_timing sh sh' \<and>
    (\<forall>c<nchs (ssd_sp s). \<forall>l<luns_per_ch (ssd_sp s). next_lun_avail_time (ch_lun (ssd_ch s ! c) ! l) \<le> t)"
proof -
  let ?sp = "ssd_sp s" and ?a = "\<lambda>c l. next_lun_avail_time (ch_lun (ssd_ch s ! c) ! l)"
  have inner: "\<exists>t. foldM (\<lambda>j latest. do { lun \<leftarrow> rd (ch_lun (ssd_ch s ! c)) j; Some (max latest (next_lun_avail_time lun)) })
      [0..<luns_per_ch ?sp] m = Some t \<and> m \<le> t \<and> (\<forall>l<luns_per_ch ?sp. ?a c l \<le> t)" if "c < nchs ?sp" for c m
    by (rule foldM_upt_total [where P = "\<lambda>j t. m \<le> t \<and> (\<forall>l<j. ?a c l \<le> t)"])
      (use ssd_ok_ch(1) [OF ok that] in \<open>auto simp: less_Suc_eq le_max_iff_disj\<close>)
  have "\<exists>t. foldM (\<lambda>i latest. do { ch \<leftarrow> rd (ssd_ch s) i; foldM (\<lambda>j latest. do {
        lun \<leftarrow> rd (ch_lun ch) j; Some (max latest (next_lun_avail_time lun)) }) [0..<luns_per_ch ?sp] latest })
      [0..<nchs ?sp] now = Some t \<and> (\<forall>c<nchs ?sp. \<forall>l<luns_per_ch ?sp. ?a c l \<le> t)" for now
  proof (rule foldM_upt_total [where P = "\<lambda>i t. \<forall>c<i. \<forall>l<luns_per_ch ?sp. ?a c l \<le> t"])
    fix i m assume i: "i < nchs ?sp" and P: "\<forall>c<i. \<forall>l<luns_per_ch ?sp. ?a c l \<le> m"
    from inner [OF i, of m] obtain t where "foldM (\<lambda>j latest. do { lun \<leftarrow> rd (ch_lun (ssd_ch s ! i)) j;
        Some (max latest (next_lun_avail_time lun)) }) [0..<luns_per_ch ?sp] m = Some t" "m \<le> t"
      "\<forall>l<luns_per_ch ?sp. ?a i l \<le> t" by blast
    then show "\<exists>s''. (rd (ssd_ch s) i \<bind> (\<lambda>ch. foldM (\<lambda>j latest. do {
        lun \<leftarrow> rd (ch_lun ch) j; Some (max latest (next_lun_avail_time lun)) }) [0..<luns_per_ch ?sp] m)) = Some s'' \<and>
        (\<forall>c<Suc i. \<forall>l<luns_per_ch ?sp. ?a c l \<le> s'')"
      using i P ssd_okD(2) [OF ok] by (fastforce simp: less_Suc_eq intro: le_trans)
  qed auto
  then show ?thesis using sh
    by (fastforce simp: ssd_next_idle_time_def get_clock_def sh_timing_def shared_ok_def)
qed

section \<open>Construction gives a well-formed, erased device\<close>

lemma ssd_init_ch_ok:
  assumes "geo_ok spp" "31 \<le> ch_bandwidth spp" "ch_bandwidth spp \<le> 7800"
  shows "\<exists>c. ssd_init_ch spp = Some c \<and> ch_ok spp c \<and>
    (\<forall>l<luns_per_ch spp. ch_lun c ! l = ssd_init_nand_lun spp)"
proof -
  obtain cm where cm: "chmodel_init (ch_bandwidth spp) = Some cm" "chmodel_wf cm"
    using chmodel_init_wf [OF assms(2,3)] by blast
  have "blk_ok spp (ssd_init_nand_blk spp)"
    by (auto simp: blk_ok_def ssd_init_nand_blk_def ssd_init_nand_page_def)
  then have "lun_ok spp (ssd_init_nand_lun spp)"
    by (auto simp: lun_ok_def ssd_init_nand_lun_def pl_ok_def ssd_init_nand_plane_def)
  moreover have "chmodel_wf (cm\<lparr>cm_xfer_lat := x\<rparr>)" for x
    using cm(2) by (simp add: chmodel_wf_def win_def)
  ultimately show ?thesis using cm(1) by (auto simp: ssd_init_ch_def ch_ok_def Let_def)
qed

lemma ssd_init_ok:
  assumes g: "geo_ok spp" and bw: "31 \<le> ch_bandwidth spp" "ch_bandwidth spp \<le> 7800"
    "31 \<le> pcie_bandwidth spp" "pcie_bandwidth spp \<le> 7800"
  shows "\<exists>s pc wb. ssd_init spp cpu = Some (s, pc, wb) \<and> ssd_ok s \<and> ssd_sp s = spp \<and> chmodel_wf pc \<and>
     wb = buffer_init (write_buffer_size spp) \<and>
     (\<forall>c<nchs spp. \<forall>l<luns_per_ch spp. \<forall>b<blks_per_pl spp. blk_at s c l b = ssd_init_nand_blk spp)"
proof -
  obtain pc where pc: "chmodel_init (pcie_bandwidth spp) = Some pc" "chmodel_wf pc"
    using chmodel_init_wf [OF bw(3,4)] by blast
  obtain c where c: "ssd_init_ch spp = Some c" "ch_ok spp c"
    "\<forall>l<luns_per_ch spp. ch_lun c ! l = ssd_init_nand_lun spp"
    using ssd_init_ch_ok [OF g bw(1,2)] by blast
  have chs: "foldM (\<lambda>i chs. do { c \<leftarrow> ssd_init_ch spp; Some (chs @ [c]) }) xs acc
      = Some (acc @ replicate (length xs) c)" for xs :: "nat list" and acc
    by (induction xs arbitrary: acc) (auto simp: c(1) replicate_app_Cons_same)
  let ?s = "\<lparr>ssd_sp = spp, ssd_ch = replicate (nchs spp) c, cpu_nr_dispatcher = cpu\<rparr>"
  have "ssd_init spp cpu = Some (?s, pc, buffer_init (write_buffer_size spp))"
    by (simp add: ssd_init_def chs ssd_init_pcie_def pc(1))
  moreover have "ssd_ok ?s" using g c(2) by (auto simp: ssd_ok_def)
  moreover have "blk_at ?s i l b = ssd_init_nand_blk spp"
    if "i < nchs spp" "l < luns_per_ch spp" "b < blks_per_pl spp" for i l b
    using that c(3) geo_eqs(1) [OF g]
    by (simp add: blk_at_def ssd_init_nand_lun_def ssd_init_nand_plane_def)
  ultimately show ?thesis using pc(2) by auto
qed

end
