(* ===== verification/Bytes.thy ===== *)
theory Bytes
  imports Nvmev_Base
begin

text \<open>
  Memory as bytes, for the structures that the device exchanges with the host: little-endian
  fields, storing a field into a page at a byte offset, reading one back, and arrays of
  structures.
\<close>

section \<open>Fields\<close>

text \<open>Little-endian fields, and storing a field into a page at a byte offset.\<close>

definition le_bytes :: "nat \<Rightarrow> nat \<Rightarrow> nat list" where
  "le_bytes n v = map (\<lambda>i. v div 256 ^ i mod 256) [0..<n]"

definition le_value :: "nat list \<Rightarrow> nat" where
  "le_value bs = foldr (\<lambda>b a. b + 256 * a) bs 0"

definition put_bytes :: "nat \<Rightarrow> nat list \<Rightarrow> nat list \<Rightarrow> nat list option" where
  "put_bytes off bs page =
     (if off + length bs \<le> length page
      then Some (take off page @ bs @ drop (off + length bs) page) else None)"

definition get_bytes :: "nat \<Rightarrow> nat \<Rightarrow> nat list \<Rightarrow> nat list" where
  "get_bytes off n page = take n (drop off page)"

section \<open>Pages of bytes\<close>

lemma length_le_bytes [simp]: "length (le_bytes n v) = n"
  by (simp add: le_bytes_def)

lemma le_bytes_Suc: "le_bytes (Suc n) v = (v mod 256) # le_bytes n (v div 256)"
proof -
  have "[0..<Suc n] = 0 # map Suc [0..<n]" by (metis upt_conv_Cons map_Suc_upt zero_less_Suc)
  then show ?thesis by (simp add: le_bytes_def div_mult2_eq)
qed

lemma le_value_le_bytes: "v < 256 ^ n \<Longrightarrow> le_value (le_bytes n v) = v"
proof (induction n arbitrary: v)
  case 0
  then show ?case by (simp add: le_value_def le_bytes_def)
next
  case (Suc n)
  have "v div 256 < 256 ^ n" using Suc.prems by (simp add: less_mult_imp_div_less mult.commute)
  from Suc.IH [OF this] show ?case by (simp add: le_bytes_Suc le_value_def)
qed

lemma put_bytes_in:
  assumes "off + length bs \<le> length page"
  shows "\<exists>page'. put_bytes off bs page = Some page' \<and> length page' = length page \<and>
    (\<forall>k<length page. page' ! k = (if off \<le> k \<and> k < off + length bs then bs ! (k - off) else page ! k))"
  using assms by (auto simp: put_bytes_def nth_append min_def)

lemma get_bytes_eq:
  assumes "off + length bs \<le> length page" "\<And>k. k < length bs \<Longrightarrow> page ! (off + k) = bs ! k"
  shows "get_bytes off (length bs) page = bs"
  by (rule nth_equalityI) (use assms in \<open>auto simp: get_bytes_def\<close>)

text \<open>A loop that stores one field per entry of an array of structures.\<close>

lemma put_array:
  assumes "\<And>i. i < n \<Longrightarrow> length (f i) = m" "m \<le> st" "base + n * st \<le> length page"
  shows "\<exists>page'. foldM (\<lambda>i. put_bytes (base + i * st) (f i)) [0..<n] page = Some page' \<and>
     length page' = length page \<and> (\<forall>k<base. page' ! k = page ! k) \<and>
     (\<forall>i<n. \<forall>k<m. page' ! (base + i * st + k) = f i ! k)"
proof -
  let ?P = "\<lambda>j page'. length page' = length page \<and> (\<forall>k<base. page' ! k = page ! k) \<and>
     (\<forall>i<j. \<forall>k<m. page' ! (base + i * st + k) = f i ! k)"
  have "\<exists>page'. foldM (\<lambda>i. put_bytes (base + i * st) (f i)) [0..<n] page = Some page' \<and> ?P n page'"
  proof (rule foldM_upt_total [where P = ?P])
    fix i q assume i: "i < n" and q: "?P i q"
    have le: "base + i * st + st \<le> length page"
    proof -
      have "Suc i * st \<le> n * st" using i by (intro mult_le_mono) auto
      with assms(3) show ?thesis by simp
    qed
    have "base + i * st + length (f i) \<le> length q" using le q assms(1) [OF i] assms(2) by linarith
    from put_bytes_in [OF this] obtain q' where q': "put_bytes (base + i * st) (f i) q = Some q'"
      "length q' = length q"
      "\<forall>k<length q. q' ! k = (if base + i * st \<le> k \<and> k < base + i * st + length (f i)
         then f i ! (k - (base + i * st)) else q ! k)" by blast
    have "q' ! (base + j * st + k) = f j ! k" if "j < Suc i" "k < m" for j k
    proof (cases "j = i")
      case True
      then show ?thesis using q' q le that assms(1) [OF i] assms(2) by simp
    next
      case False
      then have "Suc j * st \<le> i * st" using that by (intro mult_le_mono) auto
      then have "base + j * st + k < base + i * st" using that assms(2) by simp
      then show ?thesis using q' q le that False by simp
    qed
    moreover have "q' ! k = page ! k" if "k < base" for k
      using q' q le that by simp
    ultimately show "\<exists>q'. put_bytes (base + i * st) (f i) q = Some q' \<and> ?P (Suc i) q'"
      using q' q by auto
  qed simp_all
  then show ?thesis .
qed

section \<open>Host memory\<close>

text \<open>The host's physical memory is a function from byte addresses.\<close>

definition rd_u64 :: "(nat \<Rightarrow> nat) \<Rightarrow> nat \<Rightarrow> nat" where
  "rd_u64 mem a = le_value (map (\<lambda>i. mem (a + i)) [0..<8])"

definition mem_write :: "nat \<Rightarrow> nat list \<Rightarrow> (nat \<Rightarrow> nat) \<Rightarrow> (nat \<Rightarrow> nat)" where
  "mem_write a bs mem = (\<lambda>x. if a \<le> x \<and> x < a + length bs then bs ! (x - a) else mem x)"

definition mem_bytes :: "(nat \<Rightarrow> nat) \<Rightarrow> nat \<Rightarrow> nat \<Rightarrow> nat list" where
  "mem_bytes mem a n = map (\<lambda>i. mem (a + i)) [0..<n]"

lemma mem_bytes_write:
  assumes "off + n \<le> len" "len \<le> length buf"
  shows "mem_bytes (mem_write a (take len buf) mem) (a + off) n = get_bytes off n buf"
  using assms by (intro nth_equalityI) (auto simp: mem_bytes_def mem_write_def get_bytes_def add.commute add.left_commute)

section \<open>Tables of structures\<close>

text \<open>
  An array of structures that is copied as a whole: \<open>enc\<close> gives the \<open>w\<close> bytes of one entry.
\<close>

locale record_table =
  fixes enc :: "'a \<Rightarrow> nat list" and w :: nat
  assumes enc_length: "length (enc x) = w"
begin

lemma table_length: "length (concat (map enc xs)) = w * length xs"
  by (induction xs) (simp_all add: enc_length)

lemma table_nth:
  "i < length xs \<Longrightarrow> k < w \<Longrightarrow> concat (map enc xs) ! (w * i + k) = enc (xs ! i) ! k"
proof (induction xs arbitrary: i)
  case (Cons x xs)
  then show ?case by (cases i) (simp_all add: nth_append enc_length)
qed simp

text \<open>A stored table can be read back entry by entry, and leaves what is before it alone.\<close>

lemma put_table:
  assumes "base + w * length xs \<le> length page"
  shows "\<exists>page'. put_bytes base (concat (map enc xs)) page = Some page' \<and> length page' = length page \<and>
     (\<forall>k<base. page' ! k = page ! k) \<and> (\<forall>i<length xs. get_bytes (base + w * i) w page' = enc (xs ! i))"
proof -
  let ?t = "concat (map enc xs)"
  have "base + length ?t \<le> length page" using assms by (simp add: table_length)
  from put_bytes_in [OF this] obtain q where q: "put_bytes base ?t page = Some q" "length q = length page"
    "\<forall>k<length page. q ! k = (if base \<le> k \<and> k < base + length ?t then ?t ! (k - base) else page ! k)" by blast
  have "get_bytes (base + w * i) (length (enc (xs ! i))) q = enc (xs ! i)" if i: "i < length xs" for i
  proof (rule get_bytes_eq)
    have "w * Suc i \<le> w * length xs" using i by (intro mult_le_mono) auto
    then have le: "w * i + w \<le> w * length xs" by simp
    then show "base + w * i + length (enc (xs ! i)) \<le> length q" using assms q(2) by (simp add: enc_length)
    show "q ! (base + w * i + k) = enc (xs ! i) ! k" if "k < length (enc (xs ! i))" for k
      using q(3) le that assms table_nth [OF i, of k] by (simp add: enc_length table_length add.assoc)
  qed
  then show ?thesis using q assms by (auto simp: enc_length)
qed

end

end
