(* ===== verification/Fdp_Ctx.thy ===== *)
theory Fdp_Ctx
  imports Ssd_Params Bytes
begin

text \<open>
  The endurance-group state of the FDP device (\<open>fdp_ctx\<close> of \<open>fdp_ftl.c\<close>): statistics
  counters, the usage attribute of every reclaim unit handle, the event filters and the ring
  of the latest 63 events; and the admin commands over it, which lay it out in the log pages
  of \<open>nvme_fdp.h\<close> (little-endian, packed structures) and in the feature data of FID 0x1E.

  Shown here: the ring is the list of the most recent events, newest first, and the events
  log page is exactly that list; log pages and feature data read back what was stored; a Set
  Features changes exactly the filters its descriptors name.
\<close>

section \<open>Constants and state\<close>

definition NVME_LOG_FDP_CONFIGS :: nat where "NVME_LOG_FDP_CONFIGS = 0x20"
definition NVME_LOG_FDP_RUH_USAGE :: nat where "NVME_LOG_FDP_RUH_USAGE = 0x21"
definition NVME_LOG_FDP_STATS :: nat where "NVME_LOG_FDP_STATS = 0x22"
definition NVME_LOG_FDP_EVENTS :: nat where "NVME_LOG_FDP_EVENTS = 0x23"

definition NVME_FDP_CONFIG_FDPA_VALID :: nat where "NVME_FDP_CONFIG_FDPA_VALID = 2 ^ 7"
definition NVME_FDP_RUHT_INITIALLY_ISOLATED :: nat where "NVME_FDP_RUHT_INITIALLY_ISOLATED = 1"

definition NVME_FDP_RUHA_UNUSED :: nat where "NVME_FDP_RUHA_UNUSED = 0"
definition NVME_FDP_RUHA_HOST :: nat where "NVME_FDP_RUHA_HOST = 1"
definition NVME_FDP_RUHA_CTRL :: nat where "NVME_FDP_RUHA_CTRL = 2"

definition NVME_FDP_EVT_RU_NOT_FULLY_WRITTEN :: nat where "NVME_FDP_EVT_RU_NOT_FULLY_WRITTEN = 0"
definition NVME_FDP_EVT_INVALID_PID :: nat where "NVME_FDP_EVT_INVALID_PID = 3"
definition NVME_FDP_EVT_IMPLICIT_MODIFIED_RU :: nat where "NVME_FDP_EVT_IMPLICIT_MODIFIED_RU = 0x81"

definition NVME_FDP_EVENT_F_PIV :: nat where "NVME_FDP_EVENT_F_PIV = 1"
definition NVME_FDP_EVENT_F_NSIDV :: nat where "NVME_FDP_EVENT_F_NSIDV = 2"

lemmas fdp_log_ids = NVME_LOG_FDP_CONFIGS_def NVME_LOG_FDP_RUH_USAGE_def NVME_LOG_FDP_STATS_def
  NVME_LOG_FDP_EVENTS_def
lemmas fdp_evt_ids = NVME_FDP_EVT_RU_NOT_FULLY_WRITTEN_def NVME_FDP_EVT_INVALID_PID_def
  NVME_FDP_EVT_IMPLICIT_MODIFIED_RU_def

text \<open>An event record; its \<open>type_specific\<close> and reserved bytes are always zero.\<close>

record nvme_fdp_event =
  ev_type :: nat
  ev_flags :: nat
  ev_pid :: nat
  ev_timestamp :: nat
  ev_nsid :: nat

record fdp_event_filter =
  flt_type :: nat
  flt_enabled :: bool

record fdp_ctx =
  hbmw :: nat
  mbmw :: nat
  mbe :: nat
  runs :: nat
  ruh_attr :: "nat list"
  events :: "fdp_event_filter list"
  ring :: "nvme_fdp_event list"
  ring_head :: nat
  nr_events :: nat

definition zero_event :: nvme_fdp_event where
  "zero_event = \<lparr>ev_type = 0, ev_flags = 0, ev_pid = 0, ev_timestamp = 0, ev_nsid = 0\<rparr>"

text \<open>The static initialiser: everything zero but the three filters, all disabled.\<close>

definition fdp_ctx_static :: fdp_ctx where
  "fdp_ctx_static = \<lparr>hbmw = 0, mbmw = 0, mbe = 0, runs = 0, ruh_attr = replicate FDP_NR_RUH 0,
     events = [\<lparr>flt_type = NVME_FDP_EVT_RU_NOT_FULLY_WRITTEN, flt_enabled = False\<rparr>,
               \<lparr>flt_type = NVME_FDP_EVT_INVALID_PID, flt_enabled = False\<rparr>,
               \<lparr>flt_type = NVME_FDP_EVT_IMPLICIT_MODIFIED_RU, flt_enabled = False\<rparr>],
     ring = replicate FDP_NR_EVENTS zero_event, ring_head = 0, nr_events = 0\<rparr>"

definition fdp_init_ctx :: "nat \<Rightarrow> fdp_ctx \<Rightarrow> fdp_ctx" where
  "fdp_init_ctx r ctx = ctx\<lparr>hbmw := 0, mbmw := 0, mbe := 0, runs := r,
     ruh_attr := replicate FDP_NR_RUH NVME_FDP_RUHA_UNUSED,
     ring := replicate FDP_NR_EVENTS zero_event, ring_head := 0, nr_events := 0\<rparr>"

section \<open>Events\<close>

text \<open>\<open>now\<close> is the reading of \<open>local_clock\<close>, used when the event is recorded.\<close>

fun event_enabled :: "fdp_event_filter list \<Rightarrow> nat \<Rightarrow> bool" where
  "event_enabled [] t = False"
| "event_enabled (e # es) t = (if flt_type e = t then flt_enabled e else event_enabled es t)"

definition fdp_emit_event :: "nat \<Rightarrow> nat \<Rightarrow> nat \<Rightarrow> nat \<Rightarrow> nat \<Rightarrow> fdp_ctx \<Rightarrow> fdp_ctx option" where
  "fdp_emit_event now ty flags pid nsid ctx =
     (if \<not> event_enabled (events ctx) ty then Some ctx
      else do {
        let ev = \<lparr>ev_type = u8 ty, ev_flags = u8 flags, ev_pid = u16 pid, ev_timestamp = u64 now,
                  ev_nsid = u32 nsid\<rparr>;
        r \<leftarrow> wr (ring ctx) (ring_head ctx) ev;
        Some (ctx\<lparr>ring := r, ring_head := (ring_head ctx + 1) mod FDP_NR_EVENTS,
          nr_events := (if nr_events ctx < FDP_NR_EVENTS then nr_events ctx + 1 else nr_events ctx)\<rparr>)
      })"

section \<open>Log pages\<close>

definition encode_event :: "nvme_fdp_event \<Rightarrow> nat list" where
  "encode_event e = le_bytes 1 (ev_type e) @ le_bytes 1 (ev_flags e) @ le_bytes 2 (ev_pid e) @
     le_bytes 8 (ev_timestamp e) @ le_bytes 4 (ev_nsid e) @ replicate 48 0"

definition sizeof_config_log :: nat where "sizeof_config_log = 16"
definition sizeof_config_desc :: nat where "sizeof_config_desc = 64"
definition sizeof_ruh_desc :: nat where "sizeof_ruh_desc = 4"
definition sizeof_ruhu_log :: nat where "sizeof_ruhu_log = 8"
definition sizeof_ruhu_desc :: nat where "sizeof_ruhu_desc = 8"
definition sizeof_events_log :: nat where "sizeof_events_log = 64"
definition sizeof_event :: nat where "sizeof_event = 64"

lemmas fdp_sizes = sizeof_config_log_def sizeof_config_desc_def sizeof_ruh_desc_def
  sizeof_ruhu_log_def sizeof_ruhu_desc_def sizeof_events_log_def sizeof_event_def

definition fill_fdp_log_configs :: "fdp_ctx \<Rightarrow> nat list \<Rightarrow> nat list option" where
  "fill_fdp_log_configs ctx log0 = do {
     let desc = sizeof_config_log;
     let ruhs = sizeof_config_log + sizeof_config_desc;
     let dsze = u16 (sizeof_config_desc + FDP_NR_RUH * sizeof_ruh_desc);
     log \<leftarrow> put_bytes 0 (le_bytes 2 0) log0;
     log \<leftarrow> put_bytes 2 [0] log;
     log \<leftarrow> put_bytes 4 (le_bytes 4 (sizeof_config_log + dsze)) log;
     log \<leftarrow> put_bytes desc (le_bytes 2 dsze) log;
     log \<leftarrow> put_bytes (desc + 2) [NVME_FDP_CONFIG_FDPA_VALID] log;
     log \<leftarrow> put_bytes (desc + 3) [0] log;
     log \<leftarrow> put_bytes (desc + 4) (le_bytes 4 FDP_NR_RG) log;
     log \<leftarrow> put_bytes (desc + 8) (le_bytes 2 FDP_NR_RUH) log;
     log \<leftarrow> put_bytes (desc + 10) (le_bytes 2 (FDP_NR_RUH - 1)) log;
     log \<leftarrow> put_bytes (desc + 12) (le_bytes 4 NR_NAMESPACES) log;
     log \<leftarrow> put_bytes (desc + 16) (le_bytes 8 (runs ctx)) log;
     log \<leftarrow> put_bytes (desc + 24) (le_bytes 4 0) log;
     foldM (\<lambda>i. put_bytes (ruhs + i * sizeof_ruh_desc) [NVME_FDP_RUHT_INITIALLY_ISOLATED])
       [0..<FDP_NR_RUH] log
   }"

definition fill_fdp_log_ruh_usage :: "fdp_ctx \<Rightarrow> nat list \<Rightarrow> nat list option" where
  "fill_fdp_log_ruh_usage ctx log0 = do {
     log \<leftarrow> put_bytes 0 (le_bytes 2 FDP_NR_RUH) log0;
     foldM (\<lambda>i log. do {
         a \<leftarrow> rd (ruh_attr ctx) i;
         put_bytes (sizeof_ruhu_log + i * sizeof_ruhu_desc) [a] log
       }) [0..<FDP_NR_RUH] log
   }"

definition fill_fdp_log_stats :: "fdp_ctx \<Rightarrow> nat list \<Rightarrow> nat list option" where
  "fill_fdp_log_stats ctx log0 = do {
     log \<leftarrow> put_bytes 0 (le_bytes 8 (hbmw ctx)) log0;
     log \<leftarrow> put_bytes 16 (le_bytes 8 (mbmw ctx)) log;
     put_bytes 32 (le_bytes 8 (mbe ctx)) log
   }"

definition fill_fdp_log_events :: "fdp_ctx \<Rightarrow> nat list \<Rightarrow> nat list option" where
  "fill_fdp_log_events ctx log0 = do {
     log \<leftarrow> put_bytes 0 (le_bytes 4 (nr_events ctx)) log0;
     foldM (\<lambda>i log. do {
         let slot = (ring_head ctx + FDP_NR_EVENTS - 1 - i) mod FDP_NR_EVENTS;
         e \<leftarrow> rd (ring ctx) slot;
         put_bytes (sizeof_events_log + i * sizeof_event) (encode_event e) log
       }) [0..<nr_events ctx] log
   }"

text \<open>The bytes copied to the host buffer; an unknown log identifier is a \<open>BUG\<close>.\<close>

definition fdp_get_log_page :: "fdp_ctx \<Rightarrow> nat \<Rightarrow> nat \<Rightarrow> nat list option" where
  "fdp_get_log_page ctx lid len = do {
     let log0 = replicate PAGE_SIZE 0;
     log \<leftarrow> (if lid = NVME_LOG_FDP_CONFIGS then fill_fdp_log_configs ctx log0
             else if lid = NVME_LOG_FDP_RUH_USAGE then fill_fdp_log_ruh_usage ctx log0
             else if lid = NVME_LOG_FDP_STATS then fill_fdp_log_stats ctx log0
             else if lid = NVME_LOG_FDP_EVENTS then fill_fdp_log_events ctx log0
             else None);
     Some (take (min len PAGE_SIZE) log)
   }"

section \<open>Features\<close>

text \<open>
  The data buffer is a list of two-byte descriptors, or absent; Get Features returns the
  result dword and the descriptors written, Set Features the result dword and the new state.
\<close>

definition fdp_get_feature_events ::
  "fdp_ctx \<Rightarrow> nat \<Rightarrow> (nat \<times> nat) list option \<Rightarrow> (nat \<times> (nat \<times> nat) list option) option" where
  "fdp_get_feature_events ctx dw11 buf =
     (case buf of
        None \<Rightarrow> Some (length (events ctx), None)
      | Some desc0 \<Rightarrow> do {
          desc \<leftarrow> foldM (\<lambda>i desc. do {
              e \<leftarrow> rd (events ctx) i;
              wr desc i (flt_type e, if flt_enabled e then 1 else 0)
            }) [0..<length (events ctx)] desc0;
          Some (length (events ctx), Some desc)
        })"

definition set_filter :: "nat \<times> nat \<Rightarrow> fdp_event_filter list \<times> nat \<Rightarrow> fdp_event_filter list \<times> nat" where
  "set_filter d st = foldl (\<lambda>(es, r) j.
       if flt_type (es ! j) = fst d
       then (es[j := (es ! j)\<lparr>flt_enabled := odd (snd d)\<rparr>], r + 1) else (es, r))
     st [0..<length (fst st)]"

definition fdp_set_feature_events ::
  "nat \<Rightarrow> (nat \<times> nat) list option \<Rightarrow> fdp_ctx \<Rightarrow> (nat \<times> fdp_ctx) option" where
  "fdp_set_feature_events dw11 buf ctx =
     (let noet = dw11 div 2 ^ 16 mod 256 in
      case buf of
        None \<Rightarrow> Some (0, ctx)
      | Some desc \<Rightarrow> do {
          (es, r) \<leftarrow> foldM (\<lambda>i st. do { d \<leftarrow> rd desc i; Some (set_filter d st) })
                      [0..<noet] (events ctx, 0);
          Some (r, ctx\<lparr>events := es\<rparr>)
        })"

section \<open>The event ring is the list of the most recent events\<close>

definition event_fits :: "nvme_fdp_event \<Rightarrow> bool" where
  "event_fits e \<longleftrightarrow> ev_type e < 256 \<and> ev_flags e < 256 \<and> ev_pid e < 65536 \<and>
     ev_timestamp e < 18446744073709551616 \<and> ev_nsid e < 4294967296"

definition ctx_ok :: "fdp_ctx \<Rightarrow> bool" where
  "ctx_ok ctx \<longleftrightarrow> length (ruh_attr ctx) = FDP_NR_RUH \<and> (\<forall>a\<in>set (ruh_attr ctx). a < 256) \<and>
     length (ring ctx) = FDP_NR_EVENTS \<and> (\<forall>e\<in>set (ring ctx). event_fits e) \<and>
     ring_head ctx < FDP_NR_EVENTS \<and> nr_events ctx \<le> FDP_NR_EVENTS"

definition recent_events :: "fdp_ctx \<Rightarrow> nvme_fdp_event list" where
  "recent_events ctx = map (\<lambda>i. ring ctx ! ((ring_head ctx + FDP_NR_EVENTS - 1 - i) mod FDP_NR_EVENTS))
     [0..<nr_events ctx]"

lemma zero_event_fits [simp]: "event_fits zero_event"
  by (simp add: event_fits_def zero_event_def)

lemma fdp_init_ctx_ok: "ctx_ok (fdp_init_ctx r ctx)" "recent_events (fdp_init_ctx r ctx) = []"
  by (auto simp: ctx_ok_def fdp_init_ctx_def FDP_NR_EVENTS_def NVME_FDP_RUHA_UNUSED_def recent_events_def)

lemma ring_slot:
  fixes h i :: nat
  assumes "h < 63" "i < 62"
  shows "((h + 1) mod 63 + 63 - 1 - Suc i) mod 63 = (h + 63 - 1 - i) mod 63"
    and "(h + 63 - 1 - i) mod 63 \<noteq> h"
    and "((h + 1) mod 63 + 63 - 1 - 0) mod 63 = h"
proof -
  show "((h + 1) mod 63 + 63 - 1 - Suc i) mod 63 = (h + 63 - 1 - i) mod 63"
    using assms by (cases "h = 62") (auto simp: mod_if)
  show "(h + 63 - 1 - i) mod 63 \<noteq> h" using assms by (auto simp: mod_if)
  show "((h + 1) mod 63 + 63 - 1 - 0) mod 63 = h" using assms by (cases "h = 62") (auto simp: mod_if)
qed

lemma emit_recent_events:
  assumes ok: "ctx_ok ctx" and en: "event_enabled (events ctx) ty"
  shows "\<exists>ctx'. fdp_emit_event now ty flags pid nsid ctx = Some ctx' \<and> ctx_ok ctx' \<and>
    recent_events ctx' = take FDP_NR_EVENTS
      (\<lparr>ev_type = u8 ty, ev_flags = u8 flags, ev_pid = u16 pid, ev_timestamp = u64 now,
        ev_nsid = u32 nsid\<rparr> # recent_events ctx) \<and>
    ctx' = ctx\<lparr>ring := ring ctx', ring_head := ring_head ctx', nr_events := nr_events ctx'\<rparr>"
proof -
  let ?ev = "\<lparr>ev_type = u8 ty, ev_flags = u8 flags, ev_pid = u16 pid, ev_timestamp = u64 now,
        ev_nsid = u32 nsid\<rparr>"
  let ?h = "ring_head ctx" and ?n = "nr_events ctx"
  let ?n' = "if ?n < 63 then ?n + 1 else ?n"
  let ?c = "ctx\<lparr>ring := (ring ctx)[?h := ?ev], ring_head := (?h + 1) mod 63, nr_events := ?n'\<rparr>"
  have h: "?h < 63" "?n \<le> 63" "length (ring ctx) = 63" using ok by (auto simp: ctx_ok_def FDP_NR_EVENTS_def)
  have "event_fits ?ev" by (simp add: event_fits_def)
  then have ok': "ctx_ok ?c"
    using ok h by (auto simp: ctx_ok_def FDP_NR_EVENTS_def dest!: set_update_subset_insert [THEN subsetD])
  have r: "fdp_emit_event now ty flags pid nsid ctx = Some ?c"
    using en h by (simp add: fdp_emit_event_def FDP_NR_EVENTS_def)
  have re: "recent_events ?c = take 63 (?ev # recent_events ctx)"
  proof (rule nth_equalityI)
    show "length (recent_events ?c) = length (take 63 (?ev # recent_events ctx))"
      using h(2) by (auto simp: recent_events_def min_def)
    fix i assume "i < length (recent_events ?c)"
    then have i: "i < ?n'" by (simp add: recent_events_def)
    show "recent_events ?c ! i = take 63 (?ev # recent_events ctx) ! i"
    proof (cases i)
      case 0
      then show ?thesis using i h ring_slot(3) [of ?h 0]
        by (simp add: recent_events_def FDP_NR_EVENTS_def)
    next
      case (Suc j)
      with i h(2) have j: "j < 62" "j < ?n" by (auto split: if_splits)
      show ?thesis
        using i h ring_slot(1,2) [OF h(1) j(1)] j Suc
        by (simp add: recent_events_def FDP_NR_EVENTS_def)
    qed
  qed
  show ?thesis
    by (rule exI [of _ ?c]) (use r ok' re in \<open>simp add: FDP_NR_EVENTS_def\<close>)
qed

section \<open>Log pages read back\<close>

text \<open>How a host decodes an event record and the events log page.\<close>

definition decode_event :: "nat list \<Rightarrow> nvme_fdp_event" where
  "decode_event bs = \<lparr>ev_type = le_value (get_bytes 0 1 bs), ev_flags = le_value (get_bytes 1 1 bs),
     ev_pid = le_value (get_bytes 2 2 bs), ev_timestamp = le_value (get_bytes 4 8 bs),
     ev_nsid = le_value (get_bytes 12 4 bs)\<rparr>"

definition decode_events_page :: "nat list \<Rightarrow> nvme_fdp_event list" where
  "decode_events_page page = map (\<lambda>i. decode_event (get_bytes (64 + i * 64) 64 page))
     [0..<le_value (get_bytes 0 4 page)]"

lemma length_encode_event [simp]: "length (encode_event e) = 64"
  by (simp add: encode_event_def)

lemma decode_encode_event:
  assumes "event_fits e" shows "decode_event (encode_event e) = e"
proof -
  have f: "ev_type e < 256 ^ 1" "ev_flags e < 256 ^ 1" "ev_pid e < 256 ^ 2"
    "ev_timestamp e < 256 ^ 8" "ev_nsid e < 256 ^ 4"
    using assms by (simp_all add: event_fits_def)
  show ?thesis
    unfolding decode_event_def encode_event_def get_bytes_def
    using f [THEN le_value_le_bytes] by simp
qed

lemma get_bytes_4:
  assumes "length page = 4096" "\<And>k. k < 4 \<Longrightarrow> page ! k = le_bytes 4 v ! k"
  shows "get_bytes 0 4 page = le_bytes 4 v"
  using get_bytes_eq [of 0 "le_bytes 4 v" page] assms by simp

lemma events_log_page:
  assumes ok: "ctx_ok ctx"
  shows "\<exists>page. fdp_get_log_page ctx NVME_LOG_FDP_EVENTS PAGE_SIZE = Some page \<and>
    length page = PAGE_SIZE \<and> decode_events_page page = recent_events ctx"
proof -
  let ?n = "nr_events ctx"
  have n: "?n \<le> 63" and len: "length (ring ctx) = 63" and fits: "\<forall>e\<in>set (ring ctx). event_fits e"
    using ok by (auto simp: ctx_ok_def FDP_NR_EVENTS_def)
  define f where "f i = encode_event (ring ctx ! ((ring_head ctx + 63 - 1 - i) mod 63))" for i
  obtain q where q: "put_bytes 0 (le_bytes 4 ?n) (replicate 4096 0) = Some q" "length q = 4096"
    "\<forall>k<4. q ! k = le_bytes 4 ?n ! k"
    using put_bytes_in [of 0 "le_bytes 4 ?n" "replicate 4096 0"] by auto
  obtain page where page: "foldM (\<lambda>i. put_bytes (64 + i * 64) (f i)) [0..<?n] q = Some page"
    "length page = 4096" "\<forall>k<64. page ! k = q ! k"
    "\<forall>i<?n. \<forall>k<64. page ! (64 + i * 64 + k) = f i ! k"
    using put_array [of ?n f 64 64 64 q] n q(2) by (auto simp: f_def)
  have "rd (ring ctx) (x mod 63) = Some (ring ctx ! (x mod 63))" for x using len by simp
  then have "fill_fdp_log_events ctx (replicate 4096 0) = Some page"
    using q(1) page(1) by (simp add: fill_fdp_log_events_def FDP_NR_EVENTS_def fdp_sizes f_def [abs_def])
  then have r: "fdp_get_log_page ctx NVME_LOG_FDP_EVENTS PAGE_SIZE = Some page"
    using page(2) by (simp add: fdp_get_log_page_def fdp_log_ids PAGE_SIZE_def)
  have c: "get_bytes 0 4 page = le_bytes 4 ?n"
    by (rule get_bytes_4) (use page q in auto)
  have g: "get_bytes (64 + i * 64) 64 page = f i" if "i < ?n" for i
  proof -
    have "64 + i * 64 + 64 \<le> 4096" using that n by simp
    then show ?thesis
      using get_bytes_eq [of "64 + i * 64" "f i" page] page that by (simp add: f_def)
  qed
  have "decode_events_page page = recent_events ctx"
    unfolding decode_events_page_def recent_events_def c
    using n g fits len by (subst le_value_le_bytes) (auto simp: f_def FDP_NR_EVENTS_def decode_encode_event)
  with r page(2) show ?thesis by (simp add: PAGE_SIZE_def)
qed

lemma stats_log_page:
  assumes "hbmw ctx < 18446744073709551616" "mbmw ctx < 18446744073709551616"
    "mbe ctx < 18446744073709551616"
  shows "\<exists>page. fdp_get_log_page ctx NVME_LOG_FDP_STATS PAGE_SIZE = Some page \<and>
    length page = PAGE_SIZE \<and> le_value (get_bytes 0 16 page) = hbmw ctx \<and>
    le_value (get_bytes 16 16 page) = mbmw ctx \<and> le_value (get_bytes 32 16 page) = mbe ctx"
proof -
  let ?z = "\<lambda>n. replicate n (0 :: nat)"
  let ?page = "le_bytes 8 (hbmw ctx) @ ?z 8 @ le_bytes 8 (mbmw ctx) @ ?z 8 @ le_bytes 8 (mbe ctx) @ ?z 4056"
  have "fill_fdp_log_stats ctx (?z 4096) = Some ?page"
    by (simp add: fill_fdp_log_stats_def put_bytes_def)
  moreover have "le_value (le_bytes 8 v @ ?z 8) = v" if "v < 18446744073709551616" for v
  proof -
    have "le_value (xs @ ?z n) = le_value xs" for xs n
    proof -
      have "foldr (\<lambda>b a. b + 256 * a) (?z n) 0 = 0" by (induction n) auto
      then show ?thesis by (simp add: le_value_def)
    qed
    then show ?thesis using le_value_le_bytes [of v 8] that by simp
  qed
  ultimately show ?thesis
    using assms by (simp add: fdp_get_log_page_def fdp_log_ids PAGE_SIZE_def get_bytes_def)
qed

lemma ruh_usage_log_page:
  assumes ok: "ctx_ok ctx"
  shows "\<exists>page. fdp_get_log_page ctx NVME_LOG_FDP_RUH_USAGE PAGE_SIZE = Some page \<and>
    length page = PAGE_SIZE \<and> le_value (get_bytes 0 2 page) = FDP_NR_RUH \<and>
    (\<forall>i<FDP_NR_RUH. page ! (8 + 8 * i) = ruh_attr ctx ! i)"
proof -
  have len: "length (ruh_attr ctx) = 8" using ok by (simp add: ctx_ok_def FDP_NR_RUH_def)
  obtain q where q: "put_bytes 0 (le_bytes 2 8) (replicate 4096 0) = Some q" "length q = 4096"
    "\<forall>k<2. q ! k = le_bytes 2 8 ! k"
    using put_bytes_in [of 0 "le_bytes 2 8" "replicate 4096 0"] by auto
  obtain page where page: "foldM (\<lambda>i. put_bytes (8 + i * 8) [ruh_attr ctx ! i]) [0..<8] q = Some page"
    "length page = 4096" "\<forall>k<8. page ! k = q ! k" "\<forall>i<8. page ! (8 + i * 8) = ruh_attr ctx ! i"
    using put_array [of 8 "\<lambda>i. [ruh_attr ctx ! i]" 1 8 8 q] q(2) by auto
  have "foldM (\<lambda>i log. do { a \<leftarrow> rd (ruh_attr ctx) i; put_bytes (8 + i * 8) [a] log }) [0..<8] q = Some page"
    unfolding page(1) [symmetric] by (rule foldM_cong) (use len in simp)
  then have "fill_fdp_log_ruh_usage ctx (replicate 4096 0) = Some page"
    using q(1) by (simp add: fill_fdp_log_ruh_usage_def FDP_NR_RUH_def fdp_sizes)
  moreover have "get_bytes 0 2 page = le_bytes 2 8"
    using get_bytes_eq [of 0 "le_bytes 2 8" page] page q by simp
  ultimately show ?thesis
    using page le_value_le_bytes [of 8 2]
    by (simp add: fdp_get_log_page_def fdp_log_ids PAGE_SIZE_def FDP_NR_RUH_def mult.commute)
qed

section \<open>Feature data\<close>

text \<open>
  What a Set Features with the descriptor list \<open>ds\<close> does to a filter: the last descriptor
  naming its event decides, and none leaves it alone.
\<close>

definition filter_after :: "(nat \<times> nat) list \<Rightarrow> fdp_event_filter \<Rightarrow> fdp_event_filter" where
  "filter_after ds e = foldl (\<lambda>e d. if flt_type e = fst d then e\<lparr>flt_enabled := odd (snd d)\<rparr> else e) e ds"

lemma set_filter_map:
  "set_filter d (es, r) = (map (\<lambda>e. if flt_type e = fst d then e\<lparr>flt_enabled := odd (snd d)\<rparr> else e) es,
     r + length (filter (\<lambda>e. flt_type e = fst d) es))"
proof -
  let ?g = "\<lambda>e. if flt_type e = fst d then e\<lparr>flt_enabled := odd (snd d)\<rparr> else e"
  let ?f = "\<lambda>(es, r) j. if flt_type (es ! j) = fst d
       then (es[j := (es ! j)\<lparr>flt_enabled := odd (snd d)\<rparr>], r + 1) else (es, r)"
  have "foldl ?f (es, r) [0..<n] = (map ?g (take n es) @ drop n es,
      r + length (filter (\<lambda>e. flt_type e = fst d) (take n es)))" if "n \<le> length es" for n
    using that
  proof (induction n)
    case (Suc n)
    let ?x = "es ! n"
    have split: "take (Suc n) es = take n es @ [?x]" "drop n es = ?x # drop (Suc n) es"
      using Suc.prems by (auto simp: take_Suc_conv_app_nth Cons_nth_drop_Suc)
    have at: "(map ?g (take n es) @ drop n es) ! n = ?x" using Suc.prems by (simp add: nth_append)
    show ?case
      using Suc at by (simp add: split list_update_append)
  qed simp
  from this [of "length es"] show ?thesis by (simp add: set_filter_def)
qed

lemma set_filters:
  assumes "n \<le> length desc"
  shows "foldM (\<lambda>i st. do { d \<leftarrow> rd desc i; Some (set_filter d st) }) [0..<n] (es, r) =
    Some (map (filter_after (take n desc)) es,
      r + (\<Sum>d\<leftarrow>take n desc. length (filter (\<lambda>e. flt_type e = fst d) es)))"
  using assms
proof (induction n)
  case 0
  then show ?case by (simp add: filter_after_def)
next
  case (Suc n)
  have ty: "flt_type (filter_after ds e) = flt_type e" for ds e
    by (induction ds rule: rev_induct) (auto simp: filter_after_def)
  have t: "take (Suc n) desc = take n desc @ [desc ! n]"
    using Suc.prems by (simp add: take_Suc_conv_app_nth)
  have fl: "length (filter (\<lambda>e. flt_type e = x) (map (filter_after ds) es))
      = length (filter (\<lambda>e. flt_type e = x) es)" for x ds
    by (simp add: filter_map o_def ty)
  have step: "filter_after (ds @ [d]) e = (if flt_type e = fst d
      then (filter_after ds e)\<lparr>flt_enabled := odd (snd d)\<rparr> else filter_after ds e)" for ds d e
    using ty [of ds e] by (simp add: filter_after_def)
  show ?case
    using Suc by (simp add: set_filter_map t fl step o_def ty)
qed

lemma set_feature_events_spec:
  assumes "dw11 div 2 ^ 16 mod 256 \<le> length desc"
  shows "fdp_set_feature_events dw11 (Some desc) ctx =
    Some (\<Sum>d\<leftarrow>take (dw11 div 2 ^ 16 mod 256) desc. length (filter (\<lambda>e. flt_type e = fst d) (events ctx)),
      ctx\<lparr>events := map (filter_after (take (dw11 div 2 ^ 16 mod 256) desc)) (events ctx)\<rparr>)"
  using set_filters [OF assms, of "events ctx" 0] by (simp add: fdp_set_feature_events_def Let_def)

lemma get_feature_events_spec:
  assumes "length (events ctx) \<le> length desc"
  shows "fdp_get_feature_events ctx dw11 (Some desc) = Some (length (events ctx),
     Some (map (\<lambda>e. (flt_type e, if flt_enabled e then 1 else 0)) (events ctx) @ drop (length (events ctx)) desc))"
proof -
  let ?g = "\<lambda>e. (flt_type e, if flt_enabled e then 1 else (0 :: nat))"
  let ?f = "\<lambda>i desc. do { e \<leftarrow> rd (events ctx) i; wr desc i (?g e) }"
  have "foldM ?f [0..<n] desc = Some (map ?g (take n (events ctx)) @ drop n desc)"
    if "n \<le> length (events ctx)" for n
    using that
  proof (induction n)
    case (Suc n)
    have "drop n desc = desc ! n # drop (Suc n) desc"
      using Suc.prems assms by (simp add: Cons_nth_drop_Suc)
    then show ?case
      using Suc assms by (simp add: take_Suc_conv_app_nth list_update_append)
  qed simp
  from this [of "length (events ctx)"] show ?thesis by (simp add: fdp_get_feature_events_def)
qed

text \<open>
  Setting the event filters: the number of descriptors is bits 16 to 23 of dword 11; each
  descriptor enables or disables every filter of its type, a later one overriding an earlier,
  and the result counts the filters set.
\<close>

theorem set_feature_events_correct:
  assumes "dw11 div 2 ^ 16 mod 256 \<le> length desc"
  shows "fdp_set_feature_events dw11 (Some desc) ctx =
    Some (\<Sum>d\<leftarrow>take (dw11 div 2 ^ 16 mod 256) desc. length (filter (\<lambda>e. flt_type e = fst d) (events ctx)),
      ctx\<lparr>events := map (filter_after (take (dw11 div 2 ^ 16 mod 256) desc)) (events ctx)\<rparr>)"
  by (rule set_feature_events_spec [OF assms])

theorem set_feature_events_correct_witness:
  "fdp_set_feature_events (2 ^ 16) (Some [(3, 1)]) fdp_ctx_static =
     Some (1, fdp_ctx_static\<lparr>events := map (filter_after [(3, 1)]) (events fdp_ctx_static)\<rparr>)"
  using set_feature_events_correct [of "2 ^ 16" "[(3, 1)]" fdp_ctx_static]
  by (simp add: fdp_ctx_static_def fdp_evt_ids)

text \<open>
  Get Features after Set Features reports the filters that were set: enabling event type 3
  on a fresh context and reading the filters back shows exactly that one enabled.
\<close>

theorem features_round_trip:
  assumes "dw11 div 2 ^ 16 mod 256 \<le> length desc" "length (events ctx) \<le> length buf"
  shows "\<exists>r ctx'. fdp_set_feature_events dw11 (Some desc) ctx = Some (r, ctx') \<and>
     fdp_get_feature_events ctx' dw (Some buf) = Some (length (events ctx),
       Some (map (\<lambda>e. (flt_type e, if flt_enabled (filter_after (take (dw11 div 2 ^ 16 mod 256) desc) e) then 1 else 0))
         (events ctx) @ drop (length (events ctx)) buf))"
proof -
  let ?ctx' = "ctx\<lparr>events := map (filter_after (take (dw11 div 2 ^ 16 mod 256) desc)) (events ctx)\<rparr>"
  have "flt_type (filter_after ds e) = flt_type e" for ds e
    unfolding filter_after_def by (induction ds arbitrary: e) auto
  then show ?thesis
    using set_feature_events_spec [OF assms(1), of ctx] get_feature_events_spec [of ?ctx' buf dw] assms(2)
    by (simp add: o_def)
qed

theorem features_round_trip_witness:
  "\<exists>r ctx'. fdp_set_feature_events (2 ^ 16) (Some [(3, 1)]) fdp_ctx_static = Some (r, ctx') \<and>
     fdp_get_feature_events ctx' 0 (Some [(9, 9), (9, 9), (9, 9)]) = Some (3, Some [(0, 0), (3, 1), (0x81, 0)])"
  using features_round_trip [of "2 ^ 16" "[(3, 1)]" fdp_ctx_static "[(9, 9), (9, 9), (9, 9)]" 0]
  by (simp add: fdp_ctx_static_def fdp_evt_ids filter_after_def numeral_3_eq_3)

text \<open>
  C36: The FDP events log page, decoded, is the list of recorded events, most recent first; so an
  event that has just been emitted heads the page, and at most 63 are kept.
\<close>

theorem emitted_event_logged:
  assumes ok: "ctx_ok ctx" and en: "event_enabled (events ctx) ty"
  shows "\<exists>ctx' page. fdp_emit_event now ty flags pid nsid ctx = Some ctx' \<and>
     fdp_get_log_page ctx' NVME_LOG_FDP_EVENTS PAGE_SIZE = Some page \<and> length page = PAGE_SIZE \<and>
     decode_events_page page = take FDP_NR_EVENTS (\<lparr>ev_type = u8 ty, ev_flags = u8 flags, ev_pid = u16 pid,
        ev_timestamp = u64 now, ev_nsid = u32 nsid\<rparr> # recent_events ctx)"
  using emit_recent_events [OF ok en, of now flags pid nsid] events_log_page by fastforce

theorem emitted_event_logged_witness:
  "\<exists>ctx ctx' page. fdp_set_feature_events (2 ^ 16) (Some [(3, 1)]) (fdp_init_ctx 0 fdp_ctx_static) = Some (1, ctx) \<and>
     fdp_emit_event 1000 3 3 9 1 ctx = Some ctx' \<and> fdp_get_log_page ctx' NVME_LOG_FDP_EVENTS PAGE_SIZE = Some page \<and>
     decode_events_page page = [\<lparr>ev_type = 3, ev_flags = 3, ev_pid = 9, ev_timestamp = 1000, ev_nsid = 1\<rparr>]"
proof -
  let ?base = "fdp_init_ctx 0 fdp_ctx_static"
  let ?c = "?base\<lparr>events := map (filter_after [(3, 1)]) (events ?base)\<rparr>"
  have s: "fdp_set_feature_events (2 ^ 16) (Some [(3, 1)]) ?base = Some (1, ?c)"
  proof -
    have "length (filter (\<lambda>e. flt_type e = 3) (events ?base)) = 1"
      by (simp add: fdp_ctx_static_def fdp_init_ctx_def fdp_evt_ids)
    then show ?thesis using set_feature_events_spec [of "2 ^ 16" "[(3, 1)]" ?base] by simp
  qed
  have ok: "ctx_ok ?c" using fdp_init_ctx_ok(1) [of 0 fdp_ctx_static] by (simp add: ctx_ok_def)
  have re: "recent_events ?c = []" by (simp add: recent_events_def fdp_init_ctx_def)
  have en: "event_enabled (events ?c) 3"
    by (simp add: fdp_ctx_static_def fdp_init_ctx_def fdp_evt_ids filter_after_def)
  from emitted_event_logged [OF ok en, of 1000 3 9 1] s re show ?thesis
    by (auto simp: FDP_NR_EVENTS_def u8_id u16_id u32_id u64_id)
qed

text \<open>
  The FDP statistics log page holds the three byte counters (host writes, media writes, media
  erased) as 16-byte little-endian numbers at offsets 0, 16 and 32.
\<close>

theorem stats_log_page_correct:
  assumes "hbmw ctx < 18446744073709551616" "mbmw ctx < 18446744073709551616" "mbe ctx < 18446744073709551616"
  shows "\<exists>page. fdp_get_log_page ctx NVME_LOG_FDP_STATS PAGE_SIZE = Some page \<and>
    length page = PAGE_SIZE \<and> le_value (get_bytes 0 16 page) = hbmw ctx \<and>
    le_value (get_bytes 16 16 page) = mbmw ctx \<and> le_value (get_bytes 32 16 page) = mbe ctx"
  by (rule stats_log_page [OF assms])

theorem stats_log_page_correct_witness:
  "\<exists>page. fdp_get_log_page (fdp_ctx_static\<lparr>hbmw := 4096, mbmw := 70000, mbe := 7\<rparr>) NVME_LOG_FDP_STATS PAGE_SIZE = Some page \<and>
     le_value (get_bytes 16 16 page) = 70000"
  using stats_log_page_correct [of "fdp_ctx_static\<lparr>hbmw := 4096, mbmw := 70000, mbe := 7\<rparr>"] by auto

text \<open>
  The RUH usage log page gives the number of handles and, in an 8-byte descriptor per handle,
  its usage attribute.
\<close>

theorem ruh_usage_log_page_correct:
  assumes "ctx_ok ctx"
  shows "\<exists>page. fdp_get_log_page ctx NVME_LOG_FDP_RUH_USAGE PAGE_SIZE = Some page \<and>
    length page = PAGE_SIZE \<and> le_value (get_bytes 0 2 page) = FDP_NR_RUH \<and>
    (\<forall>i<FDP_NR_RUH. page ! (8 + 8 * i) = ruh_attr ctx ! i)"
  by (rule ruh_usage_log_page [OF assms])

theorem ruh_usage_log_page_correct_witness:
  "\<exists>page. fdp_get_log_page (fdp_init_ctx 0 fdp_ctx_static) NVME_LOG_FDP_RUH_USAGE PAGE_SIZE = Some page \<and>
     page ! 64 = NVME_FDP_RUHA_UNUSED"
proof -
  obtain page where "fdp_get_log_page (fdp_init_ctx 0 fdp_ctx_static) NVME_LOG_FDP_RUH_USAGE PAGE_SIZE = Some page"
    "\<forall>i<FDP_NR_RUH. page ! (8 + 8 * i) = ruh_attr (fdp_init_ctx 0 fdp_ctx_static) ! i"
    using ruh_usage_log_page_correct [OF fdp_init_ctx_ok(1), of 0 fdp_ctx_static] by blast
  then show ?thesis by (auto simp: FDP_NR_RUH_def fdp_init_ctx_def dest: spec [of _ 7])
qed

end
