(* ===== verification/Nvme_Cmd.thy ===== *)
theory Nvme_Cmd
  imports Nvmev_Base
begin

text \<open>
  The parts of an NVMe I/O command, request and result that the FTLs read and write
  (\<open>nvme.h\<close> and \<open>nvmev.h\<close>).
\<close>

definition nvme_cmd_flush :: nat where "nvme_cmd_flush = 0x00"
definition nvme_cmd_write :: nat where "nvme_cmd_write = 0x01"
definition nvme_cmd_read :: nat where "nvme_cmd_read = 0x02"
definition nvme_cmd_zone_append :: nat where "nvme_cmd_zone_append = 0x7D"

definition NVME_SC_SUCCESS :: nat where "NVME_SC_SUCCESS = 0"
definition NVME_SC_INVALID_FIELD :: nat where "NVME_SC_INVALID_FIELD = 2"
definition NVME_SC_LBA_RANGE :: nat where "NVME_SC_LBA_RANGE = 0x80"

definition NVME_CSI_NVM :: nat where "NVME_CSI_NVM = 0"
definition NVME_CSI_ZNS :: nat where "NVME_CSI_ZNS = 2"

lemmas nvme_consts = nvme_cmd_flush_def nvme_cmd_write_def nvme_cmd_read_def
  NVME_SC_SUCCESS_def NVME_SC_INVALID_FIELD_def NVME_SC_LBA_RANGE_def NVME_CSI_NVM_def NVME_CSI_ZNS_def

text \<open>\<open>struct nvme_rw_command\<close>: \<open>rw_length\<close> is the number of blocks minus one.\<close>

record nvme_rw_command =
  rw_opcode :: nat
  rw_nsid :: nat
  rw_slba :: nat
  rw_length :: nat
  rw_control :: nat
  rw_dsmgmt :: nat

record nvmev_request =
  req_cmd :: nvme_rw_command
  req_sq_id :: nat
  req_nsecs_start :: nat

record nvmev_result =
  ret_status :: nat
  ret_nsecs_target :: nat
  ret_result :: nat

definition rw_fits :: "nvme_rw_command \<Rightarrow> bool" where
  "rw_fits c \<longleftrightarrow> rw_opcode c < 256 \<and> rw_nsid c < 4294967296 \<and> rw_slba c < 18446744073709551616 \<and>
     rw_length c < 65536 \<and> rw_control c < 65536 \<and> rw_dsmgmt c < 4294967296"

text \<open>Bit 14 of the control field is Force Unit Access.\<close>

definition rw_fua :: "nvme_rw_command \<Rightarrow> bool" where
  "rw_fua c = odd (rw_control c div 2 ^ 14)"

definition LBA_TO_BYTE :: "nat \<Rightarrow> nat" where
  "LBA_TO_BYTE lba = u64 (lba * 2 ^ 9)"

text \<open>
  The table of opcode names ends at \<open>nvme_cmd_kv_exist\<close> (0xB3); looking up a larger opcode
  reads outside it.
\<close>

definition nvme_opcode_string :: "nat \<Rightarrow> unit option" where
  "nvme_opcode_string opcode = (if opcode \<le> 0xB3 then Some () else None)"

section \<open>The contract of a namespace's command handler\<close>

text \<open>
  Every namespace registers one handler for I/O commands (\<open>proc_io_cmd\<close>). A handler honours the
  contract when, in a state of its invariant, it answers every request that the host may send
  and the invariant holds again. What follows of a whole run is proved here once, for every
  kind of namespace.
\<close>

inductive device_step :: "('s \<Rightarrow> 'r \<Rightarrow> bool) \<Rightarrow> ('s \<Rightarrow> 'r \<Rightarrow> 's option) \<Rightarrow> 's \<Rightarrow> 's \<Rightarrow> bool" for host serve where
  device_stepI: "host s r \<Longrightarrow> serve s r = Some s' \<Longrightarrow> device_step host serve s s'"

inductive_simps device_step_iff: "device_step host serve s s'"

locale device_contract =
  fixes inv :: "'s \<Rightarrow> bool" and host :: "'s \<Rightarrow> 'r \<Rightarrow> bool" and serve :: "'s \<Rightarrow> 'r \<Rightarrow> 's option"
    and kept :: "'s \<Rightarrow> 's \<Rightarrow> bool"
  assumes answers: "inv s \<Longrightarrow> host s r \<Longrightarrow> \<exists>s'. serve s r = Some s' \<and> inv s' \<and> kept s s'"
    and kept_refl: "kept s s"
    and kept_trans: "kept s t \<Longrightarrow> kept t u \<Longrightarrow> kept s u"
begin

lemma step_inv: "device_step host serve s s' \<Longrightarrow> inv s \<Longrightarrow> inv s' \<and> kept s s'"
  using answers by (fastforce simp: device_step_iff)

lemma reach_inv: "(device_step host serve)\<^sup>*\<^sup>* s s' \<Longrightarrow> inv s \<Longrightarrow> inv s' \<and> kept s s'"
proof (induction rule: rtranclp_induct)
  case (step t u)
  then show ?case using step_inv [OF step.hyps(2)] kept_trans by blast
qed (simp add: kept_refl)

lemma reach_answers:
  assumes "(device_step host serve)\<^sup>*\<^sup>* s t" "inv s" "host t r"
  shows "\<exists>u. serve t r = Some u \<and> inv u \<and> kept s u"
  using reach_inv [OF assms(1,2)] answers [OF _ assms(3)] kept_trans by blast

end

end
