(* ===== verification/Fdp_Ftl.thy ===== *)
theory Fdp_Ftl
  imports Pqueue Ssd Fdp_Ctx Nvme_Cmd
begin

text \<open>
  The flash translation layer of the FDP device, \<open>fdp_ftl.c\<close>, function by function: line
  management, one write pointer per reclaim unit handle plus one for garbage collection, page
  state, garbage collection, and the read, write and flush commands.

  A line is its index in \<open>lm_lines\<close>; the two kernel lists hold indices, the victim queue is a
  \<open>pqueue_t\<close> over the line array. The partition an operation works on is an \<open>fdp_ftl\<close>; what
  it shares with the other partitions (PCIe model, write buffer, clock, FDP context, scheduled
  buffer releases) is an \<open>fdp_env\<close>.
\<close>

section \<open>State\<close>

record fdpparams =
  gc_thres_lines :: nat
  gc_thres_lines_high :: nat
  enable_gc_delay :: bool
  op_area_pcent :: nat
  pba_pcent :: nat

record fdp_line =
  ln_id :: nat
  ln_ipc :: int
  ln_vpc :: int
  ln_ruh :: int
  ln_pos :: nat

record fdp_write_pointer =
  wp_curline :: "nat option"
  wp_ch :: nat
  wp_lun :: nat
  wp_pg :: nat
  wp_blk :: nat
  wp_pl :: nat

record fdp_line_mgmt =
  lm_lines :: "fdp_line list"
  free_line_list :: "nat list"
  victim_line_pq :: "(fdp_line list, nat) pqueue_t"
  full_line_list :: "nat list"
  lm_tt_lines :: nat
  free_line_cnt :: nat
  victim_line_cnt :: nat
  full_line_cnt :: nat

record fdp_write_flow_control =
  write_credits :: nat
  credits_to_refill :: nat

record fdp_ftl =
  f_ssd :: ssd
  f_cp :: fdpparams
  f_maptbl :: "ppa list"
  f_rmap :: "nat list"
  f_wp_ruh :: "fdp_write_pointer list"
  f_gc_wp :: fdp_write_pointer
  f_lm :: fdp_line_mgmt
  f_wfc :: fdp_write_flow_control

text \<open>A release of write buffer space scheduled with \<open>schedule_internal_operation\<close>.\<close>

record internal_op =
  io_sqid :: nat
  io_nsecs_target :: nat
  io_buffs_to_release :: nat

record fdp_env =
  e_sh :: ssd_shared
  e_ctx :: fdp_ctx
  e_sched :: "internal_op list"

abbreviation f_sp :: "fdp_ftl \<Rightarrow> ssdparams" where "f_sp f \<equiv> ssd_sp (f_ssd f)"
abbreviation f_lines :: "fdp_ftl \<Rightarrow> fdp_line list" where "f_lines f \<equiv> lm_lines (f_lm f)"

section \<open>Mapping tables\<close>

definition should_gc :: "fdp_ftl \<Rightarrow> bool" where
  "should_gc f = (free_line_cnt (f_lm f) \<le> gc_thres_lines (f_cp f))"

definition should_gc_high :: "fdp_ftl \<Rightarrow> bool" where
  "should_gc_high f = (free_line_cnt (f_lm f) \<le> gc_thres_lines_high (f_cp f))"

definition get_maptbl_ent :: "fdp_ftl \<Rightarrow> nat \<Rightarrow> ppa option" where
  "get_maptbl_ent f lpn = rd (f_maptbl f) lpn"

definition set_maptbl_ent :: "nat \<Rightarrow> ppa \<Rightarrow> fdp_ftl \<Rightarrow> fdp_ftl option" where
  "set_maptbl_ent lpn p f = do {
     NVMEV_ASSERT (lpn < tt_pgs (f_sp f));
     m \<leftarrow> wr (f_maptbl f) lpn p;
     Some (f\<lparr>f_maptbl := m\<rparr>)
   }"

definition get_rmap_ent :: "fdp_ftl \<Rightarrow> ppa \<Rightarrow> nat option" where
  "get_rmap_ent f p = do { pgidx \<leftarrow> ppa2pgidx (f_sp f) p; rd (f_rmap f) pgidx }"

definition set_rmap_ent :: "nat \<Rightarrow> ppa \<Rightarrow> fdp_ftl \<Rightarrow> fdp_ftl option" where
  "set_rmap_ent lpn p f = do {
     pgidx \<leftarrow> ppa2pgidx (f_sp f) p;
     r \<leftarrow> wr (f_rmap f) pgidx lpn;
     Some (f\<lparr>f_rmap := r\<rparr>)
   }"

section \<open>The victim queue's callbacks\<close>

definition victim_line_cmp_pri :: "nat \<Rightarrow> nat \<Rightarrow> bool" where
  "victim_line_cmp_pri nxt cur = (nxt > cur)"

definition victim_line_get_pri :: "fdp_line list \<Rightarrow> nat \<Rightarrow> nat" where
  "victim_line_get_pri ls a = nat (ln_vpc (ls ! a) mod 18446744073709551616)"

definition victim_line_set_pri :: "nat \<Rightarrow> nat \<Rightarrow> fdp_line list \<Rightarrow> fdp_line list" where
  "victim_line_set_pri a pri ls = ls[a := (ls ! a)\<lparr>ln_vpc := s32 (int pri)\<rparr>]"

definition victim_line_get_pos :: "fdp_line list \<Rightarrow> nat \<Rightarrow> nat" where
  "victim_line_get_pos ls a = ln_pos (ls ! a)"

definition victim_line_set_pos :: "nat \<Rightarrow> nat \<Rightarrow> fdp_line list \<Rightarrow> fdp_line list" where
  "victim_line_set_pos a pos ls = ls[a := (ls ! a)\<lparr>ln_pos := pos\<rparr>]"

lemmas victim_line_defs = victim_line_cmp_pri_def victim_line_get_pri_def victim_line_set_pri_def
  victim_line_get_pos_def victim_line_set_pos_def

text \<open>
  The callbacks satisfy the queue's contract: elements are line numbers, the store is the line
  array, and moving an element changes nothing of a line but its position.
\<close>

definition line_rest :: "fdp_line list \<Rightarrow> fdp_line list" where
  "line_rest = map (\<lambda>l. l\<lparr>ln_pos := 0\<rparr>)"

interpretation vq: pqueue_callbacks victim_line_cmp_pri victim_line_get_pri victim_line_set_pri
  victim_line_get_pos victim_line_set_pos "\<lambda>ls a. a < length ls" "\<lambda>p. p < 2147483648" line_rest
proof
  show "victim_line_get_pri (victim_line_set_pri e p s) e = p" if "e < length s" "p < 2147483648" for e p s
  proof -
    have "s32 (int p) = int p" using that(2) by (simp add: s32_id)
    then show ?thesis using that by (simp add: victim_line_defs nat_mod_distrib)
  qed
  show "victim_line_get_pri (victim_line_set_pos e p s) e' = victim_line_get_pri s e'" for e p s e'
    by (cases "e < length s") (auto simp: victim_line_defs nth_list_update list_update_beyond)
  show "victim_line_get_pos (victim_line_set_pri e p s) e' = victim_line_get_pos s e'" for e p s e'
    by (cases "e < length s") (auto simp: victim_line_defs nth_list_update list_update_beyond)
  show "line_rest (victim_line_set_pos e p s) = line_rest s" for e p s
    by (cases "e < length s"; rule nth_equalityI)
      (auto simp: line_rest_def victim_line_defs nth_list_update list_update_beyond)
qed (auto simp: victim_line_defs)

section \<open>Lines and write pointers\<close>

text \<open>\<open>mem_d\<close> is the memory \<open>pqueue_init\<close> gets for its slots; both allocations succeed.\<close>

definition init_lines :: "nat list \<Rightarrow> ssdparams \<Rightarrow> fdp_line_mgmt option" where
  "init_lines mem_d spp = do {
     let n = blks_per_pl spp;
     NVMEV_ASSERT (n = tt_lines spp);
     pq \<leftarrow> pqueue_init True (Some mem_d) (tt_lines spp) victim_line_cmp_pri victim_line_get_pri
             victim_line_set_pri victim_line_get_pos victim_line_set_pos;
     let ls = map (\<lambda>i. \<lparr>ln_id = i, ln_ipc = 0, ln_vpc = 0, ln_ruh = -1, ln_pos = 0\<rparr>) [0..<n];
     let free = foldl (\<lambda>l i. list_add_tail i l) [] [0..<n];
     let cnt = foldl (\<lambda>c i. c + 1) 0 [0..<n];
     NVMEV_ASSERT (cnt = n);
     Some \<lparr>lm_lines = ls, free_line_list = free, victim_line_pq = pq, full_line_list = [],
       lm_tt_lines = n, free_line_cnt = cnt, victim_line_cnt = 0, full_line_cnt = 0\<rparr>
   }"

definition init_write_flow_control :: "ssdparams \<Rightarrow> fdp_write_flow_control" where
  "init_write_flow_control spp =
     \<lparr>write_credits = u32 (pgs_per_line spp), credits_to_refill = u32 (pgs_per_line spp)\<rparr>"

definition consume_write_credit :: "fdp_ftl \<Rightarrow> fdp_ftl" where
  "consume_write_credit f =
     f\<lparr>f_wfc := (f_wfc f)\<lparr>write_credits := u32_sub (write_credits (f_wfc f)) 1\<rparr>\<rparr>"

text \<open>The result \<open>None\<close> inside the pair is the NULL pointer.\<close>

definition get_next_free_line :: "fdp_ftl \<Rightarrow> nat option \<times> fdp_ftl" where
  "get_next_free_line f =
     (let lm = f_lm f in
      case list_first_entry_or_null (free_line_list lm) of
        None \<Rightarrow> (None, f)
      | Some cur \<Rightarrow> (Some cur, f\<lparr>f_lm := lm\<lparr>free_line_list := list_del_init cur (free_line_list lm),
                                          free_line_cnt := u32_sub (free_line_cnt lm) 1\<rparr>\<rparr>))"

definition get_wp :: "fdp_ftl \<Rightarrow> io_type \<Rightarrow> nat \<Rightarrow> fdp_write_pointer option" where
  "get_wp f io ruh =
     (case io of
        USER_IO \<Rightarrow> do { NVMEV_ASSERT (ruh < FDP_NR_RUH); rd (f_wp_ruh f) ruh }
      | GC_IO \<Rightarrow> Some (f_gc_wp f))"

definition put_wp :: "fdp_ftl \<Rightarrow> io_type \<Rightarrow> nat \<Rightarrow> fdp_write_pointer \<Rightarrow> fdp_ftl" where
  "put_wp f io ruh wp =
     (case io of
        USER_IO \<Rightarrow> f\<lparr>f_wp_ruh := (f_wp_ruh f)[ruh := wp]\<rparr>
      | GC_IO \<Rightarrow> f\<lparr>f_gc_wp := wp\<rparr>)"

text \<open>\<open>curline->ruh = (io_type == USER_IO) ? ruh : -1\<close>.\<close>

definition set_line_ruh :: "nat \<Rightarrow> io_type \<Rightarrow> nat \<Rightarrow> fdp_ftl \<Rightarrow> fdp_ftl option" where
  "set_line_ruh cur io ruh f = do {
     ln \<leftarrow> rd (f_lines f) cur;
     ls \<leftarrow> wr (f_lines f) cur (ln\<lparr>ln_ruh := (case io of USER_IO \<Rightarrow> int ruh | GC_IO \<Rightarrow> -1)\<rparr>);
     Some (f\<lparr>f_lm := (f_lm f)\<lparr>lm_lines := ls\<rparr>\<rparr>)
   }"

definition prepare_write_pointer :: "io_type \<Rightarrow> nat \<Rightarrow> fdp_ftl \<Rightarrow> fdp_ftl option" where
  "prepare_write_pointer io ruh f0 = do {
     wp \<leftarrow> get_wp f0 io ruh;
     case get_next_free_line f0 of
       (None, f) \<Rightarrow> None
     | (Some cur, f) \<Rightarrow> do {
         f1 \<leftarrow> set_line_ruh cur io ruh f;
         ln \<leftarrow> rd (f_lines f1) cur;
         Some (put_wp f1 io ruh \<lparr>wp_curline = Some cur, wp_ch = 0, wp_lun = 0, wp_pg = 0,
           wp_blk = ln_id ln, wp_pl = 0\<rparr>)
       }
   }"

text \<open>
  The end of a line: the line just filled goes to the full list if all its pages are valid
  and to the victim queue otherwise.
\<close>

definition retire_line :: "nat \<Rightarrow> fdp_ftl \<Rightarrow> fdp_ftl option" where
  "retire_line cur f = do {
     let spp = f_sp f;
     let lm = f_lm f;
     ln \<leftarrow> rd (lm_lines lm) cur;
     if ln_vpc ln = int (pgs_per_line spp) then do {
       NVMEV_ASSERT (ln_ipc ln = 0);
       Some (f\<lparr>f_lm := lm\<lparr>full_line_list := list_add_tail cur (full_line_list lm),
                         full_line_cnt := u32 (full_line_cnt lm + 1)\<rparr>\<rparr>)
     } else do {
       NVMEV_ASSERT (ln_vpc ln \<ge> 0 \<and> ln_vpc ln < int (pgs_per_line spp));
       NVMEV_ASSERT (ln_ipc ln > 0);
       (pq, ls) \<leftarrow> pqueue_insert (victim_line_pq lm) cur (lm_lines lm);
       Some (f\<lparr>f_lm := lm\<lparr>victim_line_pq := pq, lm_lines := ls,
                         victim_line_cnt := u32 (victim_line_cnt lm + 1)\<rparr>\<rparr>)
     }
   }"

text \<open>
  The write pointer moves page by page inside a one-shot page, then to the next channel, then
  to the next LUN, then to the next one-shot page of the block, then to a new line. Without a
  free line the code dereferences NULL.
\<close>

definition advance_write_pointer :: "io_type \<Rightarrow> nat \<Rightarrow> fdp_ftl \<Rightarrow> fdp_ftl option" where
  "advance_write_pointer io ruh f = do {
     let spp = f_sp f;
     wp \<leftarrow> get_wp f io ruh;
     NVMEV_ASSERT (wp_pg wp < pgs_per_blk spp);
     let pg1 = wp_pg wp + 1;
     NVMEV_ASSERT (pgs_per_oneshotpg spp \<noteq> 0);
     if pg1 mod pgs_per_oneshotpg spp \<noteq> 0 then Some (put_wp f io ruh (wp\<lparr>wp_pg := pg1\<rparr>))
     else do {
       let pg2 = u32_sub pg1 (pgs_per_oneshotpg spp);
       NVMEV_ASSERT (wp_ch wp < nchs spp);
       let ch1 = wp_ch wp + 1;
       if ch1 \<noteq> nchs spp then Some (put_wp f io ruh (wp\<lparr>wp_pg := pg2, wp_ch := ch1\<rparr>))
       else do {
         NVMEV_ASSERT (wp_lun wp < luns_per_ch spp);
         let lun1 = wp_lun wp + 1;
         if lun1 \<noteq> luns_per_ch spp
         then Some (put_wp f io ruh (wp\<lparr>wp_pg := pg2, wp_ch := 0, wp_lun := lun1\<rparr>))
         else do {
           let pg3 = u32 (pg2 + pgs_per_oneshotpg spp);
           if pg3 \<noteq> pgs_per_blk spp
           then Some (put_wp f io ruh (wp\<lparr>wp_pg := pg3, wp_ch := 0, wp_lun := 0\<rparr>))
           else do {
             cur \<leftarrow> wp_curline wp;
             f1 \<leftarrow> retire_line cur f;
             NVMEV_ASSERT (wp_blk wp < blks_per_pl spp);
             case get_next_free_line f1 of
               (None, _) \<Rightarrow> None
             | (Some nxt, f2) \<Rightarrow> do {
                 f3 \<leftarrow> set_line_ruh nxt io ruh f2;
                 ln \<leftarrow> rd (f_lines f3) nxt;
                 NVMEV_ASSERT (ln_id ln < blks_per_pl spp);
                 NVMEV_ASSERT (wp_pl wp = 0);
                 Some (put_wp f3 io ruh (wp\<lparr>wp_curline := Some nxt, wp_blk := ln_id ln,
                   wp_pg := 0, wp_ch := 0, wp_lun := 0\<rparr>))
               }
           }
         }
       }
     }
   }"

definition get_new_page :: "fdp_ftl \<Rightarrow> io_type \<Rightarrow> nat \<Rightarrow> ppa option" where
  "get_new_page f io ruh = do {
     wp \<leftarrow> get_wp f io ruh;
     let p = mk_ppa (wp_ch wp) (wp_lun wp) (wp_pl wp) (wp_blk wp) (wp_pg wp);
     NVMEV_ASSERT (g_pl p = 0);
     Some p
   }"

section \<open>Initialisation\<close>

definition null_wp :: fdp_write_pointer where
  "null_wp = \<lparr>wp_curline = None, wp_ch = 0, wp_lun = 0, wp_pg = 0, wp_blk = 0, wp_pl = 0\<rparr>"

definition init_maptbl :: "ssdparams \<Rightarrow> ppa list" where
  "init_maptbl spp = map (\<lambda>_. unmapped_ppa) [0..<tt_pgs spp]"

definition init_rmap :: "ssdparams \<Rightarrow> nat list" where
  "init_rmap spp = map (\<lambda>_. INVALID_LPN) [0..<tt_pgs spp]"

definition fdp_init_ftl :: "nat list \<Rightarrow> fdpparams \<Rightarrow> ssd \<Rightarrow> fdp_ftl option" where
  "fdp_init_ftl mem_d cpp s = do {
     let spp = ssd_sp s;
     lm \<leftarrow> init_lines mem_d spp;
     let f0 = \<lparr>f_ssd = s, f_cp = cpp, f_maptbl = init_maptbl spp, f_rmap = init_rmap spp,
       f_wp_ruh = replicate FDP_NR_RUH null_wp, f_gc_wp = null_wp, f_lm = lm,
       f_wfc = \<lparr>write_credits = 0, credits_to_refill = 0\<rparr>\<rparr>;
     f1 \<leftarrow> foldM (\<lambda>ruh. prepare_write_pointer USER_IO ruh) [0..<FDP_NR_RUH] f0;
     f2 \<leftarrow> prepare_write_pointer GC_IO 0 f1;
     Some (f2\<lparr>f_wfc := init_write_flow_control spp\<rparr>)
   }"

text \<open>\<open>(int)((1 + op_area_pcent) * 100)\<close> with the percentage as a natural number.\<close>

definition fdp_init_params :: "ssd_config \<Rightarrow> fdpparams" where
  "fdp_init_params c = \<lparr>gc_thres_lines = FDP_NR_RUH + 1, gc_thres_lines_high = FDP_NR_RUH + 1,
     enable_gc_delay = True, op_area_pcent = OP_AREA_PERCENT c, pba_pcent = 100 + OP_AREA_PERCENT c\<rparr>"

record fdp_ns =
  ns_id :: nat
  ns_csi :: nat
  ns_size :: nat
  ns_nr_parts :: nat
  ns_ftls :: "fdp_ftl list"

text \<open>
  All partitions end up with the PCIe model and the write buffer of the first one; those are
  the shared ones of the result.
\<close>

definition fdp_init_namespace ::
  "nat list \<Rightarrow> ssd_config \<Rightarrow> nat \<Rightarrow> nat \<Rightarrow> nat \<Rightarrow> fdp_ctx \<Rightarrow> (fdp_ns \<times> fdp_env) option" where
  "fdp_init_namespace mem_d c nsid size_ns cpu ctx0 = do {
     let nr_parts = SSD_PARTITIONS c;
     spp \<leftarrow> ssd_init_params c size_ns nr_parts;
     let cpp = fdp_init_params c;
     let ctx = fdp_init_ctx (u64 (pgs_per_line spp * pgsz spp)) ctx0;
     parts \<leftarrow> foldM (\<lambda>i parts. do {
         (s, pcie, wbuf) \<leftarrow> ssd_init spp cpu;
         f \<leftarrow> fdp_init_ftl mem_d cpp s;
         Some (parts @ [(f, pcie, wbuf)])
       }) [0..<nr_parts] [];
     (f0, pcie, wbuf) \<leftarrow> rd parts 0;
     NVMEV_ASSERT (pba_pcent cpp \<noteq> 0);
     Some (\<lparr>ns_id = nsid, ns_csi = NVME_CSI_NVM, ns_size = u64 (size_ns * 100) div pba_pcent cpp,
             ns_nr_parts = nr_parts, ns_ftls = map fst parts\<rparr>,
           \<lparr>e_sh = \<lparr>sh_ticks = 0, sh_pcie = pcie, sh_wbuf = wbuf\<rparr>, e_ctx = ctx, e_sched = []\<rparr>)
   }"

section \<open>Page, block and line state\<close>

definition get_line :: "fdp_ftl \<Rightarrow> ppa \<Rightarrow> fdp_line option" where
  "get_line f p = rd (f_lines f) (g_blk p)"

text \<open>\<open>pg->status = st\<close> on the page \<open>p\<close> of its block.\<close>

definition set_pg_status :: "ppa \<Rightarrow> pg_status \<Rightarrow> ssd \<Rightarrow> ssd option" where
  "set_pg_status p st s = do {
     blk \<leftarrow> get_blk s p;
     pg \<leftarrow> rd (blk_pg blk) (g_pg p);
     pgs \<leftarrow> wr (blk_pg blk) (g_pg p) (pg\<lparr>pg_status := st\<rparr>);
     Some (put_blk s p (blk\<lparr>blk_pg := pgs\<rparr>))
   }"

definition mark_page_invalid :: "ppa \<Rightarrow> fdp_ftl \<Rightarrow> fdp_ftl option" where
  "mark_page_invalid p f = do {
     let spp = f_sp f;
     pg \<leftarrow> get_pg (f_ssd f) p;
     NVMEV_ASSERT (pg_status pg = PG_VALID);
     s1 \<leftarrow> set_pg_status p PG_INVALID (f_ssd f);
     blk \<leftarrow> get_blk s1 p;
     NVMEV_ASSERT (blk_ipc blk \<ge> 0 \<and> blk_ipc blk < int (pgs_per_blk spp));
     NVMEV_ASSERT (blk_vpc blk > 0 \<and> blk_vpc blk \<le> int (pgs_per_blk spp));
     let s2 = put_blk s1 p (blk\<lparr>blk_ipc := blk_ipc blk + 1, blk_vpc := blk_vpc blk - 1\<rparr>);
     ln \<leftarrow> get_line f p;
     NVMEV_ASSERT (ln_ipc ln \<ge> 0 \<and> ln_ipc ln < int (pgs_per_line spp));
     let was_full_line = (ln_vpc ln = int (pgs_per_line spp));
     NVMEV_ASSERT (was_full_line \<longrightarrow> ln_ipc ln = 0);
     let ln1 = ln\<lparr>ln_ipc := ln_ipc ln + 1\<rparr>;
     let ls1 = (f_lines f)[g_blk p := ln1];
     NVMEV_ASSERT (ln_vpc ln > 0 \<and> ln_vpc ln \<le> int (pgs_per_line spp));
     let lm = f_lm f;
     (pq2, ls2) \<leftarrow>
       (if ln_pos ln1 \<noteq> 0
        then pqueue_change_priority (victim_line_pq lm) (nat (ln_vpc ln - 1)) (g_blk p) ls1
        else Some (victim_line_pq lm, ls1[g_blk p := ln1\<lparr>ln_vpc := ln_vpc ln - 1\<rparr>]));
     if was_full_line then do {
       (pq3, ls3) \<leftarrow> pqueue_insert pq2 (g_blk p) ls2;
       Some (f\<lparr>f_ssd := s2, f_lm := lm\<lparr>lm_lines := ls3, victim_line_pq := pq3,
          full_line_list := list_del_init (g_blk p) (full_line_list lm),
          full_line_cnt := u32_sub (full_line_cnt lm) 1,
          victim_line_cnt := u32 (victim_line_cnt lm + 1)\<rparr>\<rparr>)
     } else Some (f\<lparr>f_ssd := s2, f_lm := lm\<lparr>lm_lines := ls2, victim_line_pq := pq2\<rparr>\<rparr>)
   }"

definition mark_page_valid :: "ppa \<Rightarrow> fdp_ftl \<Rightarrow> fdp_ftl option" where
  "mark_page_valid p f = do {
     let spp = f_sp f;
     pg \<leftarrow> get_pg (f_ssd f) p;
     NVMEV_ASSERT (pg_status pg = PG_FREE);
     s1 \<leftarrow> set_pg_status p PG_VALID (f_ssd f);
     blk \<leftarrow> get_blk s1 p;
     NVMEV_ASSERT (blk_vpc blk \<ge> 0 \<and> blk_vpc blk < int (pgs_per_blk spp));
     let s2 = put_blk s1 p (blk\<lparr>blk_vpc := blk_vpc blk + 1\<rparr>);
     ln \<leftarrow> get_line f p;
     NVMEV_ASSERT (ln_vpc ln \<ge> 0 \<and> ln_vpc ln < int (pgs_per_line spp));
     Some (f\<lparr>f_ssd := s2,
       f_lm := (f_lm f)\<lparr>lm_lines := (f_lines f)[g_blk p := ln\<lparr>ln_vpc := ln_vpc ln + 1\<rparr>]\<rparr>\<rparr>)
   }"

definition mark_block_free :: "ppa \<Rightarrow> fdp_ftl \<Rightarrow> fdp_env \<Rightarrow> (fdp_ftl \<times> fdp_env) option" where
  "mark_block_free p f e = do {
     let spp = f_sp f;
     blk \<leftarrow> get_blk (f_ssd f) p;
     pgs \<leftarrow> foldM (\<lambda>i pgs. do {
         pg \<leftarrow> rd pgs i;
         NVMEV_ASSERT (pg_nsecs pg = secs_per_pg spp);
         wr pgs i (pg\<lparr>pg_status := PG_FREE\<rparr>)
       }) [0..<pgs_per_blk spp] (blk_pg blk);
     NVMEV_ASSERT (blk_npgs blk = pgs_per_blk spp);
     let blk' = blk\<lparr>blk_pg := pgs, blk_ipc := 0, blk_vpc := 0, blk_erase_cnt := blk_erase_cnt blk + 1\<rparr>;
     Some (f\<lparr>f_ssd := put_blk (f_ssd f) p blk'\<rparr>,
       e\<lparr>e_ctx := (e_ctx e)\<lparr>mbe := u64 (mbe (e_ctx e) + pgs_per_blk spp * pgsz spp)\<rparr>\<rparr>)
   }"

section \<open>Garbage collection\<close>

text \<open>A NAND command on the partition: its completion time and the changed states.\<close>

definition nand :: "(nat \<Rightarrow> nat) \<Rightarrow> nand_cmd \<Rightarrow> fdp_ftl \<Rightarrow> fdp_env \<Rightarrow> (nat \<times> fdp_ftl \<times> fdp_env) option" where
  "nand clk cmd f e = do {
     (t, s, sh) \<leftarrow> ssd_advance_nand clk cmd (f_ssd f) (e_sh e);
     Some (t, f\<lparr>f_ssd := s\<rparr>, e\<lparr>e_sh := sh\<rparr>)
   }"

definition gc_read_page :: "(nat \<Rightarrow> nat) \<Rightarrow> ppa \<Rightarrow> fdp_ftl \<Rightarrow> fdp_env \<Rightarrow> (fdp_ftl \<times> fdp_env) option" where
  "gc_read_page clk p f e =
     (if enable_gc_delay (f_cp f) then do {
        (_, f', e') \<leftarrow> nand clk \<lparr>nc_type = GC_IO, nc_cmd = NAND_READ, nc_xfer_size = pgsz (f_sp f),
            nc_stime = 0, nc_interleave_pci_dma = False, nc_ppa = p\<rparr> f e;
        Some (f', e')
      } else Some (f, e))"

definition gc_write_page :: "(nat \<Rightarrow> nat) \<Rightarrow> ppa \<Rightarrow> fdp_ftl \<Rightarrow> fdp_env \<Rightarrow> (fdp_ftl \<times> fdp_env) option" where
  "gc_write_page clk old_ppa f e = do {
     let spp = f_sp f;
     lpn \<leftarrow> get_rmap_ent f old_ppa;
     NVMEV_ASSERT (lpn < tt_pgs spp);
     new_ppa \<leftarrow> get_new_page f GC_IO 0;
     f1 \<leftarrow> set_maptbl_ent lpn new_ppa f;
     f2 \<leftarrow> set_rmap_ent lpn new_ppa f1;
     f3 \<leftarrow> mark_page_valid new_ppa f2;
     f4 \<leftarrow> advance_write_pointer GC_IO 0 f3;
     let e1 = e\<lparr>e_ctx := (e_ctx e)\<lparr>mbmw := u64 (mbmw (e_ctx e) + pgsz spp)\<rparr>\<rparr>;
     if enable_gc_delay (f_cp f) then do {
       let gcw = \<lparr>nc_type = GC_IO, nc_cmd = NAND_NOP, nc_xfer_size = 0, nc_stime = 0,
           nc_interleave_pci_dma = False, nc_ppa = new_ppa\<rparr>;
       (_, f5, e2) \<leftarrow> nand clk
          (if last_pg_in_wordline spp new_ppa
           then gcw\<lparr>nc_cmd := NAND_WRITE, nc_xfer_size := pgsz spp * pgs_per_oneshotpg spp\<rparr>
           else gcw) f4 e1;
       Some (f5, e2)
     } else Some (f4, e1)
   }"

definition select_victim_line :: "bool \<Rightarrow> fdp_ftl \<Rightarrow> (nat option \<times> fdp_ftl) option" where
  "select_victim_line force f = do {
     let spp = f_sp f;
     let lm = f_lm f;
     v \<leftarrow> pqueue_peek (victim_line_pq lm);
     case v of
       None \<Rightarrow> Some (None, f)
     | Some vl \<Rightarrow> do {
         ln \<leftarrow> rd (lm_lines lm) vl;
         if \<not> force \<and> ln_vpc ln > int (pgs_per_line spp div 8) then Some (None, f)
         else do {
           (_, pq, ls) \<leftarrow> pqueue_pop (victim_line_pq lm) (lm_lines lm);
           ln' \<leftarrow> rd ls vl;
           ls' \<leftarrow> wr ls vl (ln'\<lparr>ln_pos := 0\<rparr>);
           Some (Some vl, f\<lparr>f_lm := lm\<lparr>victim_line_pq := pq, lm_lines := ls',
             victim_line_cnt := u32_sub (victim_line_cnt lm) 1\<rparr>\<rparr>)
         }
       }
   }"

definition clean_one_block :: "(nat \<Rightarrow> nat) \<Rightarrow> ppa \<Rightarrow> fdp_ftl \<Rightarrow> fdp_env \<Rightarrow> (fdp_ftl \<times> fdp_env) option" where
  "clean_one_block clk p f e = do {
     let spp = f_sp f;
     (cnt, f1, e1) \<leftarrow> foldM (\<lambda>pg (cnt, f, e). do {
         let q = p\<lparr>g_pg := pg mod 2 ^ PAGE_BITS\<rparr>;
         pg_iter \<leftarrow> get_pg (f_ssd f) q;
         NVMEV_ASSERT (pg_status pg_iter \<noteq> PG_FREE);
         if pg_status pg_iter = PG_VALID then do {
           (f', e') \<leftarrow> gc_read_page clk q f e;
           (f'', e'') \<leftarrow> gc_write_page clk q f' e';
           Some (cnt + 1, f'', e'')
         } else Some (cnt, f, e)
       }) [0..<pgs_per_blk spp] (0, f, e);
     blk \<leftarrow> get_blk (f_ssd f1) p;
     NVMEV_ASSERT (blk_vpc blk = cnt);
     Some (f1, e1)
   }"

text \<open>Page \<open>i\<close> of the flash page that starts at \<open>p\<close>.\<close>

definition flashpg_page :: "ppa \<Rightarrow> nat \<Rightarrow> ppa" where
  "flashpg_page p i = p\<lparr>g_pg := (g_pg p + i) mod 2 ^ PAGE_BITS\<rparr>"

definition clean_one_flashpg ::
  "(nat \<Rightarrow> nat) \<Rightarrow> ppa \<Rightarrow> fdp_ftl \<Rightarrow> fdp_env \<Rightarrow> (fdp_ftl \<times> fdp_env) option" where
  "clean_one_flashpg clk p f e = do {
     let spp = f_sp f;
     cnt \<leftarrow> foldM (\<lambda>i cnt. do {
         pg_iter \<leftarrow> get_pg (f_ssd f) (flashpg_page p i);
         NVMEV_ASSERT (pg_status pg_iter \<noteq> PG_FREE);
         Some (if pg_status pg_iter = PG_VALID then cnt + 1 else cnt)
       }) [0..<pgs_per_flashpg spp] (0 :: nat);
     if cnt \<le> 0 then Some (f, e)
     else do {
       (f1, e1) \<leftarrow> (if enable_gc_delay (f_cp f) then do {
            (_, f', e') \<leftarrow> nand clk \<lparr>nc_type = GC_IO, nc_cmd = NAND_READ, nc_xfer_size = pgsz spp * cnt,
                nc_stime = 0, nc_interleave_pci_dma = False, nc_ppa = p\<rparr> f e;
            Some (f', e')
          } else Some (f, e));
       foldM (\<lambda>i (f, e). do {
           pg_iter \<leftarrow> get_pg (f_ssd f) (flashpg_page p i);
           if pg_status pg_iter = PG_VALID then gc_write_page clk (flashpg_page p i) f e
           else Some (f, e)
         }) [0..<pgs_per_flashpg spp] (f1, e1)
     }
   }"

definition mark_line_free :: "ppa \<Rightarrow> fdp_ftl \<Rightarrow> fdp_ftl option" where
  "mark_line_free p f = do {
     let lm = f_lm f;
     ln \<leftarrow> get_line f p;
     Some (f\<lparr>f_lm := lm\<lparr>
        lm_lines := (lm_lines lm)[g_blk p := ln\<lparr>ln_ipc := 0, ln_vpc := 0, ln_ruh := -1\<rparr>],
        free_line_list := list_add_tail (g_blk p) (free_line_list lm),
        free_line_cnt := u32 (free_line_cnt lm + 1)\<rparr>\<rparr>)
   }"

text \<open>\<open>lunp->gc_endtime = lunp->next_lun_avail_time\<close>.\<close>

definition set_gc_endtime :: "ppa \<Rightarrow> fdp_ftl \<Rightarrow> fdp_ftl option" where
  "set_gc_endtime p f = do {
     lun \<leftarrow> get_lun (f_ssd f) p;
     Some (f\<lparr>f_ssd := put_lun (f_ssd f) p (lun\<lparr>lun_gc_endtime := next_lun_avail_time lun\<rparr>)\<rparr>)
   }"

text \<open>
  One iteration of the loops of \<open>do_gc\<close>. The local \<open>ppa\<close> has its five coordinates assigned
  before every use; the reserved byte, which no callee depends on, is 0.
\<close>

definition gc_step ::
  "(nat \<Rightarrow> nat) \<Rightarrow> nat \<Rightarrow> nat \<Rightarrow> nat \<Rightarrow> nat \<Rightarrow> fdp_ftl \<Rightarrow> fdp_env \<Rightarrow> (fdp_ftl \<times> fdp_env) option" where
  "gc_step clk blk flashpg ch lun f e = do {
     let spp = f_sp f;
     let p = mk_ppa ch lun 0 blk (flashpg * pgs_per_flashpg spp);
     lunp \<leftarrow> get_lun (f_ssd f) p;
     (f1, e1) \<leftarrow> clean_one_flashpg clk p f e;
     if flashpg = flashpgs_per_blk spp - 1 then do {
       (f2, e2) \<leftarrow> mark_block_free p f1 e1;
       (f3, e3) \<leftarrow> (if enable_gc_delay (f_cp f2) then do {
            (_, f', e') \<leftarrow> nand clk \<lparr>nc_type = GC_IO, nc_cmd = NAND_ERASE, nc_xfer_size = 0,
                nc_stime = 0, nc_interleave_pci_dma = False, nc_ppa = p\<rparr> f2 e2;
            Some (f', e')
          } else Some (f2, e2));
       f4 \<leftarrow> set_gc_endtime p f3;
       Some (f4, e3)
     } else Some (f1, e1)
   }"

definition gc_emit :: "(nat \<Rightarrow> nat) \<Rightarrow> nat \<Rightarrow> nat \<Rightarrow> nat \<Rightarrow> nat \<Rightarrow> fdp_env \<Rightarrow> fdp_env option" where
  "gc_emit clk ty flags pid nsid e = do {
     let (now, sh) = (if event_enabled (events (e_ctx e)) ty then get_clock clk (e_sh e)
                      else (0, e_sh e));
     ctx \<leftarrow> fdp_emit_event now ty flags pid nsid (e_ctx e);
     Some (e\<lparr>e_sh := sh, e_ctx := ctx\<rparr>)
   }"

definition do_gc :: "(nat \<Rightarrow> nat) \<Rightarrow> bool \<Rightarrow> fdp_ftl \<Rightarrow> fdp_env \<Rightarrow> (int \<times> fdp_ftl \<times> fdp_env) option" where
  "do_gc clk force f0 e0 = do {
     let spp = f_sp f0;
     (v, f1) \<leftarrow> select_victim_line force f0;
     case v of
       None \<Rightarrow> Some (-1, f1, e0)
     | Some vl \<Rightarrow> do {
         ln \<leftarrow> rd (f_lines f1) vl;
         e1 \<leftarrow> (if ln_ruh ln \<ge> 0
               then gc_emit clk NVME_FDP_EVT_IMPLICIT_MODIFIED_RU NVME_FDP_EVENT_F_PIV
                      (nat (ln_ruh ln)) 0 e0
               else Some e0);
         let f2 = f1\<lparr>f_wfc := (f_wfc f1)\<lparr>credits_to_refill := nat (ln_ipc ln)\<rparr>\<rparr>;
         (f3, e3) \<leftarrow> foldM (\<lambda>flashpg. foldM (\<lambda>ch. foldM (\<lambda>lun (f, e).
              gc_step clk (ln_id ln) flashpg ch lun f e) [0..<luns_per_ch spp]) [0..<nchs spp])
            [0..<flashpgs_per_blk spp] (f2, e1);
         f4 \<leftarrow> mark_line_free (mk_ppa 0 0 0 (ln_id ln) 0) f3;
         Some (0, f4, e3)
       }
   }"

definition foreground_gc :: "(nat \<Rightarrow> nat) \<Rightarrow> fdp_ftl \<Rightarrow> fdp_env \<Rightarrow> (fdp_ftl \<times> fdp_env) option" where
  "foreground_gc clk f e =
     (if should_gc_high f then do { (_, f', e') \<leftarrow> do_gc clk True f e; Some (f', e') }
      else Some (f, e))"

definition check_and_refill_write_credit ::
  "(nat \<Rightarrow> nat) \<Rightarrow> fdp_ftl \<Rightarrow> fdp_env \<Rightarrow> (fdp_ftl \<times> fdp_env) option" where
  "check_and_refill_write_credit clk f e =
     (if write_credits (f_wfc f) \<le> 0 then do {
        (f', e') \<leftarrow> foreground_gc clk f e;
        Some (f'\<lparr>f_wfc := (f_wfc f')\<lparr>write_credits :=
          u32 (write_credits (f_wfc f') + credits_to_refill (f_wfc f'))\<rparr>\<rparr>, e')
      } else Some (f, e))"

end
