(* ===== verification/Fdp_Cmd.thy ===== *)
theory Fdp_Cmd
  imports Fdp_Ftl
begin

text \<open>
  The I/O commands of the FDP device (\<open>fdp_read\<close>, \<open>fdp_write\<close>, \<open>fdp_flush\<close> and the
  dispatcher of \<open>fdp_ftl.c\<close>) over the namespace's partitions: logical page \<open>n\<close> belongs to
  partition \<open>n mod nr_parts\<close> as its local page \<open>n div nr_parts\<close>. A command returns whether it
  was accepted, its result, and the changed states; a rejected command is retried by the
  dispatcher.
\<close>

section \<open>Commands\<close>

definition NVME_RW_DTYPE_SHIFT :: nat where "NVME_RW_DTYPE_SHIFT = 4"
definition NVME_DIRECTIVE_PLACEMENT :: nat where "NVME_DIRECTIVE_PLACEMENT = 2"

definition put_part :: "fdp_ns \<Rightarrow> nat \<Rightarrow> fdp_ftl \<Rightarrow> fdp_ns" where
  "put_part ns i f = ns\<lparr>ns_ftls := (ns_ftls ns)[i := f]\<rparr>"

text \<open>The logical pages \<open>start, start + np, ... \<le> end_lpn\<close> one partition serves.\<close>

definition lpn_steps :: "nat \<Rightarrow> nat \<Rightarrow> nat \<Rightarrow> nat list" where
  "lpn_steps start end_lpn np =
     (if start \<le> end_lpn then map (\<lambda>k. start + k * np) [0..<Suc ((end_lpn - start) div np)] else [])"

text \<open>Issue the read collected so far; the completion time accumulates in \<open>nsecs_latest\<close>.\<close>

definition read_flush ::
  "(nat \<Rightarrow> nat) \<Rightarrow> nat \<Rightarrow> nat \<Rightarrow> ppa \<Rightarrow> nat \<Rightarrow> fdp_ftl \<Rightarrow> fdp_env \<Rightarrow> (nat \<times> fdp_ftl \<times> fdp_env) option" where
  "read_flush clk stime xfer_size prev_ppa nsecs_latest f e =
     (if xfer_size > 0 then do {
        (t, f', e') \<leftarrow> nand clk \<lparr>nc_type = USER_IO, nc_cmd = NAND_READ, nc_xfer_size = xfer_size,
            nc_stime = stime, nc_interleave_pci_dma = True, nc_ppa = prev_ppa\<rparr> f e;
        Some (max t nsecs_latest, f', e')
      } else Some (nsecs_latest, f, e))"

text \<open>One partition's share of a read: pages of the same flash page are read together.\<close>

definition read_part ::
  "(nat \<Rightarrow> nat) \<Rightarrow> nat \<Rightarrow> nat \<Rightarrow> nat list \<Rightarrow> nat \<Rightarrow> fdp_ftl \<Rightarrow> fdp_env \<Rightarrow>
   (nat \<times> fdp_ftl \<times> fdp_env) option" where
  "read_part clk stime nr_parts lpns nsecs_latest f e = do {
     start_lpn \<leftarrow> rd lpns 0;
     let spp = f_sp f;
     prev0 \<leftarrow> get_maptbl_ent f (start_lpn div nr_parts);
     (xfer_size, prev_ppa, latest, f1, e1) \<leftarrow> foldM (\<lambda>lpn (xfer_size, prev_ppa, latest, f, e). do {
         cur_ppa \<leftarrow> get_maptbl_ent f (lpn div nr_parts);
         if \<not> mapped_ppa cur_ppa \<or> \<not> valid_ppa spp cur_ppa then Some (xfer_size, prev_ppa, latest, f, e)
         else if mapped_ppa prev_ppa \<and> is_same_flash_page spp cur_ppa prev_ppa
         then Some (u32 (xfer_size + pgsz spp), prev_ppa, latest, f, e)
         else do {
           (latest', f', e') \<leftarrow> read_flush clk stime xfer_size prev_ppa latest f e;
           Some (pgsz spp, cur_ppa, latest', f', e')
         }
       }) lpns (0, prev0, nsecs_latest, f, e);
     read_flush clk stime xfer_size prev_ppa latest f1 e1
   }"

definition fdp_read ::
  "(nat \<Rightarrow> nat) \<Rightarrow> nvmev_request \<Rightarrow> nvmev_result \<Rightarrow> fdp_ns \<Rightarrow> fdp_env \<Rightarrow>
   (bool \<times> nvmev_result \<times> fdp_ns \<times> fdp_env) option" where
  "fdp_read clk req ret ns e = do {
     f0 \<leftarrow> rd (ns_ftls ns) 0;
     let spp = f_sp f0;
     let cmd = req_cmd req;
     let nr_lba = rw_length cmd + 1;
     NVMEV_ASSERT (secs_per_pg spp \<noteq> 0 \<and> ns_nr_parts ns \<noteq> 0);
     let start_lpn = rw_slba cmd div secs_per_pg spp;
     let end_lpn = u64_sub (u64 (rw_slba cmd + nr_lba)) 1 div secs_per_pg spp;
     let nr_parts = ns_nr_parts ns;
     if end_lpn div nr_parts \<ge> tt_pgs spp then Some (False, ret, ns, e)
     else do {
       let stime = u64 (req_nsecs_start req +
         (if LBA_TO_BYTE nr_lba \<le> KB 4 * nr_parts then fw_4kb_rd_lat spp else fw_rd_lat spp));
       (latest, ns', e') \<leftarrow> foldM (\<lambda>i (latest, ns, e).
           let start = start_lpn + i in
           if start \<le> end_lpn then do {
             f \<leftarrow> rd (ns_ftls ns) (start mod nr_parts);
             (latest', f', e') \<leftarrow> read_part clk stime nr_parts (lpn_steps start end_lpn nr_parts) latest f e;
             Some (latest', put_part ns (start mod nr_parts) f', e')
           } else Some (latest, ns, e)) [0..<nr_parts] (req_nsecs_start req, ns, e);
       Some (True, ret\<lparr>ret_nsecs_target := latest, ret_status := NVME_SC_SUCCESS\<rparr>, ns', e')
     }
   }"

text \<open>One page of a host write on its partition.\<close>

definition write_page ::
  "nat \<Rightarrow> nat \<Rightarrow> fdp_ftl \<Rightarrow> (ppa \<times> fdp_ftl) option" where
  "write_page ruh local_lpn f = do {
     old \<leftarrow> get_maptbl_ent f local_lpn;
     f1 \<leftarrow> (if mapped_ppa old then do {
          f' \<leftarrow> mark_page_invalid old f;
          set_rmap_ent INVALID_LPN old f'
        } else Some f);
     p \<leftarrow> get_new_page f1 USER_IO ruh;
     f2 \<leftarrow> set_maptbl_ent local_lpn p f1;
     f3 \<leftarrow> set_rmap_ent local_lpn p f2;
     f4 \<leftarrow> mark_page_valid p f3;
     f5 \<leftarrow> advance_write_pointer USER_IO ruh f4;
     Some (p, f5)
   }"

text \<open>The rest of the loop body: program the word line when it is full, then flow control.\<close>

definition write_lpn ::
  "(nat \<Rightarrow> nat) \<Rightarrow> nat \<Rightarrow> nat \<Rightarrow> nat \<Rightarrow> nat \<Rightarrow> nat \<Rightarrow> fdp_ftl \<Rightarrow> fdp_env \<Rightarrow>
   (nat \<times> fdp_ftl \<times> fdp_env) option" where
  "write_lpn clk sq_id stime ruh local_lpn nsecs_latest f e = do {
     let spp = f_sp f;
     (p, f1) \<leftarrow> write_page ruh local_lpn f;
     (latest, f2, e2) \<leftarrow>
       (if last_pg_in_wordline spp p then do {
          (t, f', e') \<leftarrow> nand clk \<lparr>nc_type = USER_IO, nc_cmd = NAND_WRITE,
              nc_xfer_size = pgsz spp * pgs_per_oneshotpg spp, nc_stime = stime,
              nc_interleave_pci_dma = False, nc_ppa = p\<rparr> f1 e;
          Some (max t nsecs_latest, f', e'\<lparr>e_sched := e_sched e' @
            [\<lparr>io_sqid = sq_id, io_nsecs_target = t,
              io_buffs_to_release = pgs_per_oneshotpg spp * pgsz spp\<rparr>]\<rparr>)
        } else Some (nsecs_latest, f1, e));
     (f3, e3) \<leftarrow> check_and_refill_write_credit clk (consume_write_credit f2) e2;
     Some (latest, f3, e3)
   }"

datatype placement = Invalid_PID | Placed nat fdp_ctx

text \<open>The placement directive: which handle the write goes to, and the handle's usage mark.\<close>

definition route_write :: "nvme_rw_command \<Rightarrow> fdp_ctx \<Rightarrow> placement option" where
  "route_write cmd ctx =
     (let dtype = rw_control cmd div 2 ^ NVME_RW_DTYPE_SHIFT mod 16;
          dspec = rw_dsmgmt cmd div 2 ^ 16 mod 2 ^ 16
      in if dtype = NVME_DIRECTIVE_PLACEMENT then
           (if dspec \<ge> FDP_NR_RUH then Some Invalid_PID
            else do {
              a \<leftarrow> wr (ruh_attr ctx) dspec NVME_FDP_RUHA_HOST;
              Some (Placed dspec (ctx\<lparr>ruh_attr := a\<rparr>))
            })
         else do {
           a0 \<leftarrow> rd (ruh_attr ctx) 0;
           if a0 = NVME_FDP_RUHA_UNUSED
           then Some (Placed 0 (ctx\<lparr>ruh_attr := (ruh_attr ctx)[0 := NVME_FDP_RUHA_CTRL]\<rparr>))
           else Some (Placed 0 ctx)
         })"

definition fdp_write ::
  "(nat \<Rightarrow> nat) \<Rightarrow> nvmev_request \<Rightarrow> nvmev_result \<Rightarrow> fdp_ns \<Rightarrow> fdp_env \<Rightarrow>
   (bool \<times> nvmev_result \<times> fdp_ns \<times> fdp_env) option" where
  "fdp_write clk req ret ns e = do {
     f0 \<leftarrow> rd (ns_ftls ns) 0;
     let spp = f_sp f0;
     let cmd = req_cmd req;
     let nr_lba = rw_length cmd + 1;
     NVMEV_ASSERT (secs_per_pg spp \<noteq> 0 \<and> ns_nr_parts ns \<noteq> 0);
     let start_lpn = rw_slba cmd div secs_per_pg spp;
     let end_lpn = u64_sub (u64 (rw_slba cmd + nr_lba)) 1 div secs_per_pg spp;
     let nr_parts = ns_nr_parts ns;
     if end_lpn div nr_parts \<ge> tt_pgs spp then Some (False, ret, ns, e)
     else do {
       r \<leftarrow> route_write cmd (e_ctx e);
       case r of
         Invalid_PID \<Rightarrow> do {
           e1 \<leftarrow> gc_emit clk NVME_FDP_EVT_INVALID_PID (NVME_FDP_EVENT_F_PIV + NVME_FDP_EVENT_F_NSIDV)
                   (rw_dsmgmt cmd div 2 ^ 16 mod 2 ^ 16) (rw_nsid cmd) e;
           Some (True, ret\<lparr>ret_status := NVME_SC_INVALID_FIELD, ret_nsecs_target := req_nsecs_start req\<rparr>,
                 ns, e1)
         }
       | Placed ruh ctx \<Rightarrow> do {
           (allocated, wbuf) \<leftarrow> buffer_allocate (sh_wbuf (e_sh e)) (LBA_TO_BYTE nr_lba);
           let e1 = e\<lparr>e_sh := (e_sh e)\<lparr>sh_wbuf := wbuf\<rparr>, e_ctx := ctx\<rparr>;
           if allocated < LBA_TO_BYTE nr_lba then Some (False, ret, ns, e1)
           else do {
             let ctx1 = ctx\<lparr>hbmw := u64 (hbmw ctx + LBA_TO_BYTE nr_lba),
                           mbmw := u64 (mbmw ctx + LBA_TO_BYTE nr_lba)\<rparr>;
             (t, sh) \<leftarrow> ssd_advance_write_buffer clk spp (e_sh e1) (req_nsecs_start req) (LBA_TO_BYTE nr_lba);
             (latest, ns', e') \<leftarrow> foldM (\<lambda>lpn (latest, ns, e). do {
                 f \<leftarrow> rd (ns_ftls ns) (lpn mod nr_parts);
                 (latest', f', e') \<leftarrow> write_lpn clk (req_sq_id req) t ruh (lpn div nr_parts) latest f e;
                 Some (latest', put_part ns (lpn mod nr_parts) f', e')
               }) [start_lpn..<Suc end_lpn] (t, ns, e1\<lparr>e_sh := sh, e_ctx := ctx1\<rparr>);
             Some (True, ret\<lparr>ret_nsecs_target :=
                 (if rw_fua cmd \<or> \<not> write_early_completion spp then latest else t),
                 ret_status := NVME_SC_SUCCESS\<rparr>, ns', e')
           }
         }
     }
   }"

definition fdp_flush ::
  "(nat \<Rightarrow> nat) \<Rightarrow> nvmev_result \<Rightarrow> fdp_ns \<Rightarrow> fdp_env \<Rightarrow> (nvmev_result \<times> fdp_env) option" where
  "fdp_flush clk ret ns e = do {
     let (start, sh) = get_clock clk (e_sh e);
     (latest, sh') \<leftarrow> foldM (\<lambda>i (latest, sh). do {
         f \<leftarrow> rd (ns_ftls ns) i;
         (t, sh') \<leftarrow> ssd_next_idle_time clk (f_ssd f) sh;
         Some (max latest t, sh')
       }) [0..<ns_nr_parts ns] (start, sh);
     Some (ret\<lparr>ret_status := NVME_SC_SUCCESS, ret_nsecs_target := latest\<rparr>, e\<lparr>e_sh := sh'\<rparr>)
   }"

definition fdp_proc_nvme_io_cmd ::
  "(nat \<Rightarrow> nat) \<Rightarrow> nvmev_request \<Rightarrow> nvmev_result \<Rightarrow> fdp_ns \<Rightarrow> fdp_env \<Rightarrow>
   (bool \<times> nvmev_result \<times> fdp_ns \<times> fdp_env) option" where
  "fdp_proc_nvme_io_cmd clk req ret ns e = do {
     NVMEV_ASSERT (ns_csi ns = NVME_CSI_NVM);
     let opcode = rw_opcode (req_cmd req);
     if opcode = nvme_cmd_write then fdp_write clk req ret ns e
     else if opcode = nvme_cmd_read then fdp_read clk req ret ns e
     else if opcode = nvme_cmd_flush then do {
       (ret', e') \<leftarrow> fdp_flush clk ret ns e;
       Some (True, ret', ns, e')
     } else do {
       nvme_opcode_string opcode;
       Some (True, ret, ns, e)
     }
   }"

end
