(* ===== verification/Fdp_Inv.thy ===== *)
theory Fdp_Inv
  imports Fdp_Cmd
begin

text \<open>
  The invariant of one FDP partition.

  \<^item> A page is its address. The pages of a line have a write order (\<open>wpi\<close>): the order in which
    a write pointer visits them; it numbers them \<open>0 ..< pgs_per_line\<close>.
  \<^item> \<open>phys_inv\<close> is the physical part: block and line counters equal the numbers of valid and
    invalid pages; every line is exactly one of free, full, victim or open at one of the nine
    write pointers; the pages of an open line are written exactly up to its write pointer; the
    victim queue is a heap over the victims.
  \<^item> \<open>map_inv\<close> is the logical part: mapped logical pages and valid physical pages are in
    bijection through the mapping table and the reverse map.

  During garbage collection one line is in no list (the set \<open>vic\<close>), and the pages already
  moved away from it are still marked valid (the set \<open>dead\<close>); both are parameters.
\<close>

section \<open>Pages and their write order\<close>

definition line_pages :: "ssdparams \<Rightarrow> nat \<Rightarrow> ppa set" where
  "line_pages sp b = {p. real_ppa sp p \<and> g_blk p = b}"

definition block_pages :: "ssdparams \<Rightarrow> nat \<Rightarrow> nat \<Rightarrow> nat \<Rightarrow> ppa set" where
  "block_pages sp c l b = {p. real_ppa sp p \<and> g_ch p = c \<and> g_lun p = l \<and> g_blk p = b}"

definition wpi :: "ssdparams \<Rightarrow> ppa \<Rightarrow> nat" where
  "wpi sp p = g_pg p mod pgs_per_oneshotpg sp + pgs_per_oneshotpg sp *
     (g_ch p + nchs sp * (g_lun p + luns_per_ch sp * (g_pg p div pgs_per_oneshotpg sp)))"

definition page_of :: "nat \<Rightarrow> nat \<Rightarrow> nat \<Rightarrow> nat \<Rightarrow> ppa" where
  "page_of c l b g = \<lparr>g_pg = g, g_blk = b, g_pl = 0, g_lun = l, g_ch = c, g_rsv = 0\<rparr>"

lemma page_of_sel [simp]:
  "g_pg (page_of c l b g) = g" "g_blk (page_of c l b g) = b" "g_pl (page_of c l b g) = 0"
  "g_lun (page_of c l b g) = l" "g_ch (page_of c l b g) = c" "g_rsv (page_of c l b g) = 0"
  by (simp_all add: page_of_def)

lemma real_page_of:
  "geo_ok sp \<Longrightarrow> real_ppa sp (page_of c l b g) \<longleftrightarrow>
     c < nchs sp \<and> l < luns_per_ch sp \<and> b < blks_per_pl sp \<and> g < pgs_per_blk sp"
  using geo_eqs(1) [of sp] by (auto simp: real_ppa_def valid_ppa_iff)

lemma real_ppa_page_of:
  assumes "geo_ok sp" "real_ppa sp p"
  shows "p = page_of (g_ch p) (g_lun p) (g_blk p) (g_pg p)"
  using assms geo_eqs(1) [of sp] by (cases p) (auto simp: real_ppa_def valid_ppa_iff page_of_def)

lemma real_ppaD:
  assumes "real_ppa sp p"
  shows "g_ch p < nchs sp" "g_lun p < luns_per_ch sp" "g_blk p < blks_per_pl sp"
    "g_pg p < pgs_per_blk sp" "valid_ppa sp p"
  using assms by (auto simp: real_ppa_def valid_ppa_iff)

lemma mk_ppa_real:
  assumes "geo_ok sp" "c < nchs sp" "l < luns_per_ch sp" "b < blks_per_pl sp" "g < pgs_per_blk sp"
  shows "mk_ppa c l 0 b g = page_of c l b g"
  using assms geo_le [OF assms(1)] by (simp add: mk_ppa_def page_of_def ppa_bits_defs)

lemma pg_div_less:
  assumes "geo_ok sp" "g < pgs_per_blk sp"
  shows "g div pgs_per_oneshotpg sp < oneshotpgs_per_blk sp"
  using assms geo_eqs(3) [OF assms(1)] geo_pos(4) [OF assms(1)]
  by (simp add: div_less_iff_less_mult mult.commute)

lemma line_size_radix:
  "geo_ok sp \<Longrightarrow> pgs_per_line sp =
     pgs_per_oneshotpg sp * (nchs sp * (luns_per_ch sp * oneshotpgs_per_blk sp))"
  using geo_eqs [of sp] by simp

lemma wpi_less:
  assumes g: "geo_ok sp" and p: "real_ppa sp p"
  shows "wpi sp p < pgs_per_line sp"
  unfolding wpi_def line_size_radix [OF g]
  using real_ppaD [OF p] pg_div_less [OF g] geo_pos [OF g]
  by (intro radix_less) auto

lemma wpi_inj:
  assumes g: "geo_ok sp" and p: "real_ppa sp p" "real_ppa sp q" and b: "g_blk p = g_blk q"
    and eq: "wpi sp p = wpi sp q"
  shows "p = q"
proof -
  let ?o = "pgs_per_oneshotpg sp"
  have o: "0 < ?o" by (rule geo_pos(4) [OF g])
  note p1 = real_ppaD [OF p(1)] and p2 = real_ppaD [OF p(2)]
  from radix_inj [OF _ _ eq [unfolded wpi_def]] o
  have m: "g_pg p mod ?o = g_pg q mod ?o"
    and 1: "g_ch p + nchs sp * (g_lun p + luns_per_ch sp * (g_pg p div ?o))
      = g_ch q + nchs sp * (g_lun q + luns_per_ch sp * (g_pg q div ?o))" by auto
  from radix_inj [OF p1(1) p2(1) 1] have c: "g_ch p = g_ch q"
    and 2: "g_lun p + luns_per_ch sp * (g_pg p div ?o) = g_lun q + luns_per_ch sp * (g_pg q div ?o)" by auto
  from radix_inj [OF p1(2) p2(2) 2] have l: "g_lun p = g_lun q" and d: "g_pg p div ?o = g_pg q div ?o"
    by auto
  from m d have "g_pg p = g_pg q" by (metis div_mult_mod_eq)
  with c l b real_ppa_page_of [OF g p(1)] real_ppa_page_of [OF g p(2)] show ?thesis by metis
qed

lemma line_pages_card:
  assumes g: "geo_ok sp" and b: "b < blks_per_pl sp"
  shows "card (line_pages sp b) = pgs_per_line sp" "finite (line_pages sp b)"
proof -
  let ?S = "{..<nchs sp} \<times> {..<luns_per_ch sp} \<times> {..<pgs_per_blk sp}"
  have inj: "inj_on (\<lambda>(c, l, g). page_of c l b g) ?S"
    by (auto simp: inj_on_def page_of_def)
  have "p \<in> (\<lambda>(c, l, g). page_of c l b g) ` ?S" if "p \<in> line_pages sp b" for p
  proof -
    have "p = (\<lambda>(c, l, g). page_of c l b g) (g_ch p, g_lun p, g_pg p)"
      using that real_ppa_page_of [OF g, of p] by (auto simp: line_pages_def)
    moreover have "(g_ch p, g_lun p, g_pg p) \<in> ?S"
      using that real_ppaD [of sp p] by (auto simp: line_pages_def)
    ultimately show ?thesis by blast
  qed
  moreover have "(\<lambda>(c, l, g). page_of c l b g) ` ?S \<subseteq> line_pages sp b"
    using b by (auto simp: line_pages_def real_page_of [OF g])
  ultimately have eq: "line_pages sp b = (\<lambda>(c, l, g). page_of c l b g) ` ?S" by blast
  show "finite (line_pages sp b)" unfolding eq by simp
  show "card (line_pages sp b) = pgs_per_line sp"
    unfolding eq card_image [OF inj] using geo_eqs(5,6) [OF g] by simp
qed

lemma block_pages_card:
  assumes g: "geo_ok sp"
  shows "card (block_pages sp c l b) \<le> pgs_per_blk sp" "finite (block_pages sp c l b)"
proof -
  have sub: "block_pages sp c l b \<subseteq> page_of c l b ` {..<pgs_per_blk sp}"
  proof
    fix p assume "p \<in> block_pages sp c l b"
    then have "real_ppa sp p" "p = page_of c l b (g_pg p)"
      using real_ppa_page_of [OF g, of p] by (auto simp: block_pages_def)
    then show "p \<in> page_of c l b ` {..<pgs_per_blk sp}" using real_ppaD(4) by blast
  qed
  then show "finite (block_pages sp c l b)" by (rule finite_subset) simp
  have "card (page_of c l b ` {..<pgs_per_blk sp}) \<le> pgs_per_blk sp"
    using card_image_le [of "{..<pgs_per_blk sp}" "page_of c l b"] by simp
  then show "card (block_pages sp c l b) \<le> pgs_per_blk sp"
    using card_mono [OF _ sub] by simp
qed

text \<open>Page index \<open>n\<close> of a line exists for every \<open>n\<close> below the line size.\<close>

lemma wpi_surj:
  assumes g: "geo_ok sp" and b: "b < blks_per_pl sp" and n: "n < pgs_per_line sp"
  shows "\<exists>p\<in>line_pages sp b. wpi sp p = n"
proof -
  have "inj_on (wpi sp) (line_pages sp b)"
    using wpi_inj [OF g] by (auto simp: inj_on_def line_pages_def)
  then have "card (wpi sp ` line_pages sp b) = pgs_per_line sp"
    using line_pages_card [OF g b] by (simp add: card_image)
  moreover have "wpi sp ` line_pages sp b \<subseteq> {..<pgs_per_line sp}"
    using wpi_less [OF g] by (auto simp: line_pages_def)
  ultimately have "wpi sp ` line_pages sp b = {..<pgs_per_line sp}"
    by (intro card_subset_eq) auto
  then have "n \<in> wpi sp ` line_pages sp b" using n by simp
  then show ?thesis by (metis imageE)
qed

section \<open>Counting pages by state\<close>

definition cnt :: "(ppa \<Rightarrow> pg_status) \<Rightarrow> ppa set \<Rightarrow> pg_status \<Rightarrow> nat" where
  "cnt st S v = card {p \<in> S. st p = v}"

lemma cnt_upd:
  assumes "finite S" "p \<in> S"
  shows "int (cnt (st(p := w)) S v) = int (cnt st S v) + (if w = v then 1 else 0) - (if st p = v then 1 else 0)"
proof -
  let ?A = "{q \<in> S - {p}. st q = v}"
  have fin: "finite ?A" using assms by simp
  have a: "{q \<in> S. (st(p := w)) q = v} = (if w = v then insert p ?A else ?A)"
    using assms(2) by auto
  have b: "{q \<in> S. st q = v} = (if st p = v then insert p ?A else ?A)"
    using assms(2) by auto
  show ?thesis unfolding cnt_def a b using fin by auto
qed

lemma cnt_upd_out: "p \<notin> S \<Longrightarrow> cnt (st(p := w)) S v = cnt st S v"
  unfolding cnt_def by (metis (mono_tags, lifting) fun_upd_other)

lemma cnt_cong: "(\<And>p. p \<in> S \<Longrightarrow> st p = st' p) \<Longrightarrow> cnt st S v = cnt st' S v"
  unfolding cnt_def by (metis (mono_tags, lifting))

lemma cnt_le: "finite S \<Longrightarrow> cnt st S v \<le> card S"
  unfolding cnt_def by (rule card_mono) auto

lemma cnt_pos: "finite S \<Longrightarrow> p \<in> S \<Longrightarrow> st p = v \<Longrightarrow> 0 < cnt st S v"
  unfolding cnt_def by (auto simp: card_gt_0_iff)

lemma cnt_less: "finite S \<Longrightarrow> p \<in> S \<Longrightarrow> st p \<noteq> v \<Longrightarrow> cnt st S v < card S"
  unfolding cnt_def by (rule psubset_card_mono) auto

lemma cnt_all: "finite S \<Longrightarrow> cnt st S v = card S \<Longrightarrow> p \<in> S \<Longrightarrow> st p = v"
  using cnt_less [of S p st v] by auto

lemma cnt_sum:
  assumes "finite S" shows "cnt st S PG_FREE + cnt st S PG_INVALID + cnt st S PG_VALID = card S"
proof -
  have "S = {p \<in> S. st p = PG_FREE} \<union> ({p \<in> S. st p = PG_INVALID} \<union> {p \<in> S. st p = PG_VALID})"
    using pg_status.exhaust by blast
  then have "card S = card ({p \<in> S. st p = PG_FREE} \<union> ({p \<in> S. st p = PG_INVALID} \<union> {p \<in> S. st p = PG_VALID}))"
    by simp
  also have "\<dots> = cnt st S PG_FREE + (cnt st S PG_INVALID + cnt st S PG_VALID)"
    unfolding cnt_def using assms by (subst card_Un_disjoint; auto)+
  finally show ?thesis by simp
qed

section \<open>The physical invariant\<close>

definition pst :: "ssd \<Rightarrow> ppa \<Rightarrow> pg_status" where
  "pst s p = pg_status (blk_pg (blk_at s (g_ch p) (g_lun p) (g_blk p)) ! g_pg p)"

definition blk_counts :: "ssd \<Rightarrow> bool" where
  "blk_counts s \<longleftrightarrow> (\<forall>c<nchs (ssd_sp s). \<forall>l<luns_per_ch (ssd_sp s). \<forall>b<blks_per_pl (ssd_sp s).
     blk_vpc (blk_at s c l b) = int (cnt (pst s) (block_pages (ssd_sp s) c l b) PG_VALID) \<and>
     blk_ipc (blk_at s c l b) = int (cnt (pst s) (block_pages (ssd_sp s) c l b) PG_INVALID))"

definition wps :: "fdp_ftl \<Rightarrow> fdp_write_pointer list" where
  "wps f = f_wp_ruh f @ [f_gc_wp f]"

definition wp_slot :: "io_type \<Rightarrow> nat \<Rightarrow> nat" where
  "wp_slot io ruh = (case io of USER_IO \<Rightarrow> ruh | GC_IO \<Rightarrow> FDP_NR_RUH)"

definition wp_page :: "fdp_write_pointer \<Rightarrow> ppa" where
  "wp_page w = page_of (wp_ch w) (wp_lun w) (wp_blk w) (wp_pg w)"

definition wp_ok :: "ssdparams \<Rightarrow> fdp_write_pointer \<Rightarrow> bool" where
  "wp_ok sp w \<longleftrightarrow> wp_curline w = Some (wp_blk w) \<and> wp_pl w = 0 \<and> real_ppa sp (wp_page w)"

definition opens :: "fdp_ftl \<Rightarrow> nat list" where
  "opens f = map wp_blk (wps f)"

definition victims :: "fdp_ftl \<Rightarrow> nat set" where
  "victims f = pq_elems (victim_line_pq (f_lm f))"

text \<open>
  \<open>frontier f pend k\<close> is the number of pages written in the line open at write pointer \<open>k\<close>;
  while the page at write pointer \<open>pend\<close> is programmed but the pointer has not moved yet it
  is one more than the pointer's index.
\<close>

definition frontier :: "fdp_ftl \<Rightarrow> nat option \<Rightarrow> nat \<Rightarrow> nat" where
  "frontier f pend k = wpi (f_sp f) (wp_page (wps f ! k)) + (if pend = Some k then 1 else 0)"

definition open_inv :: "fdp_ftl \<Rightarrow> nat option \<Rightarrow> bool" where
  "open_inv f pend \<longleftrightarrow> length (f_wp_ruh f) = FDP_NR_RUH \<and>
     (\<forall>k\<le>FDP_NR_RUH. wp_ok (f_sp f) (wps f ! k) \<and>
        (\<forall>p\<in>line_pages (f_sp f) (wp_blk (wps f ! k)).
           pst (f_ssd f) p = PG_FREE \<longleftrightarrow> frontier f pend k \<le> wpi (f_sp f) p))"

definition part_inv :: "fdp_ftl \<Rightarrow> nat set \<Rightarrow> bool" where
  "part_inv f vic \<longleftrightarrow>
     distinct (free_line_list (f_lm f) @ full_line_list (f_lm f) @ opens f) \<and>
     set (free_line_list (f_lm f)) \<union> set (full_line_list (f_lm f)) \<union> set (opens f) \<union> victims f \<union> vic
       = {..<blks_per_pl (f_sp f)} \<and>
     (set (free_line_list (f_lm f)) \<union> set (full_line_list (f_lm f)) \<union> set (opens f)) \<inter> (victims f \<union> vic) = {} \<and>
     victims f \<inter> vic = {} \<and>
     free_line_cnt (f_lm f) = length (free_line_list (f_lm f)) \<and>
     full_line_cnt (f_lm f) = length (full_line_list (f_lm f)) \<and>
     victim_line_cnt (f_lm f) = card (victims f)"

definition state_inv :: "fdp_ftl \<Rightarrow> bool" where
  "state_inv f \<longleftrightarrow>
     (\<forall>b\<in>set (free_line_list (f_lm f)). \<forall>p\<in>line_pages (f_sp f) b. pst (f_ssd f) p = PG_FREE) \<and>
     (\<forall>b\<in>set (full_line_list (f_lm f)). \<forall>p\<in>line_pages (f_sp f) b. pst (f_ssd f) p = PG_VALID) \<and>
     (\<forall>b\<in>victims f. (\<forall>p\<in>line_pages (f_sp f) b. pst (f_ssd f) p \<noteq> PG_FREE) \<and>
        (\<exists>p\<in>line_pages (f_sp f) b. pst (f_ssd f) p = PG_INVALID))"

definition line_ruh_ok :: "fdp_ftl \<Rightarrow> bool" where
  "line_ruh_ok f \<longleftrightarrow>
     (\<forall>b<blks_per_pl (f_sp f). -1 \<le> ln_ruh (f_lines f ! b) \<and> ln_ruh (f_lines f ! b) < int FDP_NR_RUH) \<and>
     (\<forall>k\<le>FDP_NR_RUH. ln_ruh (f_lines f ! wp_blk (wps f ! k)) = (if k < FDP_NR_RUH then int k else -1))"

definition line_inv :: "fdp_ftl \<Rightarrow> nat set \<Rightarrow> bool" where
  "line_inv f vic \<longleftrightarrow> length (f_lines f) = blks_per_pl (f_sp f) \<and>
     (\<forall>b<blks_per_pl (f_sp f). ln_id (f_lines f ! b) = b \<and>
        (ln_pos (f_lines f ! b) = 0 \<longleftrightarrow> b \<notin> victims f) \<and>
        (b \<notin> vic \<longrightarrow> ln_vpc (f_lines f ! b) = int (cnt (pst (f_ssd f)) (line_pages (f_sp f) b) PG_VALID) \<and>
                    ln_ipc (f_lines f ! b) = int (cnt (pst (f_ssd f)) (line_pages (f_sp f) b) PG_INVALID))) \<and>
     line_ruh_ok f"

abbreviation vq_wired :: "(fdp_line list, nat) pqueue_t \<Rightarrow> bool" where
  "vq_wired q \<equiv> pq_wired victim_line_cmp_pri victim_line_get_pri victim_line_set_pri
     victim_line_get_pos victim_line_set_pos q"

definition pq_ok :: "fdp_ftl \<Rightarrow> bool" where
  "pq_ok f \<longleftrightarrow> vq_wired (victim_line_pq (f_lm f)) \<and>
     pq_inv (\<lambda>ls a. a < length ls) (victim_line_pq (f_lm f)) (f_lines f) \<and>
     length (pq_d (victim_line_pq (f_lm f))) = blks_per_pl (f_sp f) + 1"

definition phys_inv :: "fdp_ftl \<Rightarrow> nat set \<Rightarrow> nat option \<Rightarrow> bool" where
  "phys_inv f vic pend \<longleftrightarrow> ssd_ok (f_ssd f) \<and> blk_counts (f_ssd f) \<and> open_inv f pend \<and>
     part_inv f vic \<and> state_inv f \<and> line_inv f vic \<and> pq_ok f"

section \<open>The logical invariant\<close>

definition map_inv :: "fdp_ftl \<Rightarrow> ppa set \<Rightarrow> bool" where
  "map_inv f dead \<longleftrightarrow> length (f_maptbl f) = tt_pgs (f_sp f) \<and> length (f_rmap f) = tt_pgs (f_sp f) \<and>
     (\<forall>lpn<tt_pgs (f_sp f). f_maptbl f ! lpn = unmapped_ppa \<or>
        (real_ppa (f_sp f) (f_maptbl f ! lpn) \<and> pst (f_ssd f) (f_maptbl f ! lpn) = PG_VALID \<and>
         f_maptbl f ! lpn \<notin> dead \<and> f_rmap f ! pgidx_of (f_sp f) (f_maptbl f ! lpn) = lpn)) \<and>
     (\<forall>p. real_ppa (f_sp f) p \<longrightarrow> pst (f_ssd f) p = PG_VALID \<longrightarrow> p \<notin> dead \<longrightarrow>
        f_rmap f ! pgidx_of (f_sp f) p < tt_pgs (f_sp f) \<and>
        f_maptbl f ! (f_rmap f ! pgidx_of (f_sp f) p) = p)"

definition ftl_inv :: "fdp_ftl \<Rightarrow> bool" where
  "ftl_inv f \<longleftrightarrow> phys_inv f {} None \<and> map_inv f {}"

end
