(* ===== verification/Fdp_Pages.thy ===== *)
theory Fdp_Pages
  imports Fdp_Inv
begin

text \<open>
  The page operations keep the physical invariant and never fail: taking the page at a write
  pointer and marking it valid, advancing the write pointer (which retires a filled line and
  opens a free one), and marking a valid page invalid (which may move its line to the victim
  queue or change its place there).
\<close>

section \<open>Changing the state of one page\<close>

definition page_upd :: "ssd \<Rightarrow> ppa \<Rightarrow> pg_status \<Rightarrow> int \<Rightarrow> int \<Rightarrow> ssd" where
  "page_upd s p v di dv = (let b = blk_at s (g_ch p) (g_lun p) (g_blk p) in
     put_blk s p (b\<lparr>blk_pg := (blk_pg b)[g_pg p := (blk_pg b ! g_pg p)\<lparr>pg_status := v\<rparr>],
       blk_ipc := blk_ipc b + di, blk_vpc := blk_vpc b + dv\<rparr>))"

lemma put_blk_put_blk [simp]: "put_blk (put_blk s p x) p y = put_blk s p y"
proof -
  have u: "upd_nth (upd_nth xs i f) i g = upd_nth xs i (g \<circ> f)" for xs :: "'z list" and i f g
    by (cases "i < length xs") (simp_all add: upd_nth_def list_update_beyond)
  show ?thesis
    by (simp add: put_blk_def u o_def)
qed

lemma set_pg_status_eq:
  assumes "ssd_ok s" "valid_ppa (ssd_sp s) p"
  shows "set_pg_status p v s = Some (put_blk s p ((blk_at s (g_ch p) (g_lun p) (g_blk p))\<lparr>blk_pg :=
      (blk_pg (blk_at s (g_ch p) (g_lun p) (g_blk p)))[g_pg p :=
         (blk_pg (blk_at s (g_ch p) (g_lun p) (g_blk p)) ! g_pg p)\<lparr>pg_status := v\<rparr>]\<rparr>))"
proof -
  have "length (blk_pg (blk_at s (g_ch p) (g_lun p) (g_blk p))) = pgs_per_blk (ssd_sp s)"
    using ssd_ok_blk [OF assms(1)] assms(2) by (auto simp: valid_ppa_iff blk_ok_def)
  then show ?thesis
    using assms(2) by (simp add: set_pg_status_def get_blk_eq [OF assms] valid_ppa_iff)
qed

lemma page_blk_ok:
  assumes "ssd_ok s" "valid_ppa (ssd_sp s) p"
  shows "blk_ok (ssd_sp s) ((blk_at s (g_ch p) (g_lun p) (g_blk p))\<lparr>blk_pg :=
      (blk_pg (blk_at s (g_ch p) (g_lun p) (g_blk p)))[g_pg p :=
         (blk_pg (blk_at s (g_ch p) (g_lun p) (g_blk p)) ! g_pg p)\<lparr>pg_status := v\<rparr>],
      blk_ipc := i, blk_vpc := j\<rparr>)"
proof -
  let ?b = "blk_at s (g_ch p) (g_lun p) (g_blk p)"
  have b: "blk_ok (ssd_sp s) ?b"
    using ssd_ok_blk [OF assms(1)] assms(2) by (auto simp: valid_ppa_iff)
  then have "pg_nsecs (blk_pg ?b ! g_pg p) = secs_per_pg (ssd_sp s)"
    using assms(2) by (auto simp: blk_ok_def valid_ppa_iff)
  with b show ?thesis by (auto simp: blk_ok_def dest!: in_set_updD)
qed

lemma page_upd_ok:
  assumes "ssd_ok s" "valid_ppa (ssd_sp s) p"
  shows "ssd_ok (page_upd s p v di dv)" "ssd_sp (page_upd s p v di dv) = ssd_sp s"
  using put_blk_ok [OF assms page_blk_ok [OF assms]] by (simp_all add: page_upd_def Let_def)

lemma pst_page_upd:
  assumes ok: "ssd_ok s" and p: "real_ppa (ssd_sp s) p" and q: "real_ppa (ssd_sp s) q"
  shows "pst (page_upd s p v di dv) q = ((pst s)(p := v)) q"
proof -
  note vp = real_ppaD(5) [OF p]
  have len: "g_pg p < length (blk_pg (blk_at s (g_ch p) (g_lun p) (g_blk p)))"
    using ssd_ok_blk [OF ok] real_ppaD [OF p] by (simp add: blk_ok_def)
  show ?thesis
  proof (cases "q = p")
    case True
    then show ?thesis using len by (simp add: pst_def page_upd_def Let_def blk_at_put_blk [OF ok vp])
  next
    case False
    then have "\<not> (g_ch q = g_ch p \<and> g_lun q = g_lun p \<and> g_blk q = g_blk p \<and> g_pg q = g_pg p)"
      using real_ppa_page_of [OF ssd_okD(1) [OF ok] p] real_ppa_page_of [OF ssd_okD(1) [OF ok] q] by metis
    then show ?thesis using False
      by (auto simp: pst_def page_upd_def Let_def blk_at_put_blk [OF ok vp])
  qed
qed

lemma page_upd_counts:
  assumes ok: "ssd_ok s" and p: "real_ppa (ssd_sp s) p" and cts: "blk_counts s"
    and di: "di = (if v = PG_INVALID then 1 else 0) - (if pst s p = PG_INVALID then 1 else 0)"
    and dv: "dv = (if v = PG_VALID then 1 else 0) - (if pst s p = PG_VALID then 1 else 0)"
  shows "blk_counts (page_upd s p v di dv)"
  unfolding blk_counts_def page_upd_ok(2) [OF ok real_ppaD(5) [OF p]]
proof (intro allI impI)
  let ?s' = "page_upd s p v di dv" and ?sp = "ssd_sp s"
  fix c l b assume r: "c < nchs ?sp" "l < luns_per_ch ?sp" "b < blks_per_pl ?sp"
  let ?B = "block_pages ?sp c l b"
  have fin: "finite ?B" by (rule block_pages_card [OF ssd_okD(1) [OF ok]])
  have c': "cnt (pst ?s') ?B w = cnt ((pst s)(p := v)) ?B w" for w
    by (rule cnt_cong) (auto simp: block_pages_def pst_page_upd [OF ok p])
  have old: "blk_vpc (blk_at s c l b) = int (cnt (pst s) ?B PG_VALID)"
    "blk_ipc (blk_at s c l b) = int (cnt (pst s) ?B PG_INVALID)"
    using cts r by (auto simp: blk_counts_def)
  have at: "blk_at ?s' c l b = (if c = g_ch p \<and> l = g_lun p \<and> b = g_blk p then
      (blk_at s c l b)\<lparr>blk_pg := (blk_pg (blk_at s c l b))[g_pg p := (blk_pg (blk_at s c l b) ! g_pg p)\<lparr>pg_status := v\<rparr>],
       blk_ipc := blk_ipc (blk_at s c l b) + di, blk_vpc := blk_vpc (blk_at s c l b) + dv\<rparr> else blk_at s c l b)"
    by (simp add: page_upd_def Let_def blk_at_put_blk [OF ok real_ppaD(5) [OF p]])
  show "blk_vpc (blk_at ?s' c l b) = int (cnt (pst ?s') ?B PG_VALID) \<and>
      blk_ipc (blk_at ?s' c l b) = int (cnt (pst ?s') ?B PG_INVALID)"
  proof (cases "p \<in> ?B")
    case True
    then have "c = g_ch p" "l = g_lun p" "b = g_blk p" by (auto simp: block_pages_def)
    then show ?thesis unfolding c' at using old cnt_upd [OF fin True] di dv by auto
  next
    case False
    then have "\<not> (c = g_ch p \<and> l = g_lun p \<and> b = g_blk p)" using p by (auto simp: block_pages_def)
    then show ?thesis unfolding c' at using old cnt_upd_out [OF False] by auto
  qed
qed

section \<open>Consequences of the invariant\<close>

definition slot_ok :: "io_type \<Rightarrow> nat \<Rightarrow> bool" where
  "slot_ok io ruh \<longleftrightarrow> (io = USER_IO \<longrightarrow> ruh < FDP_NR_RUH)"

lemma wp_slot_le: "slot_ok io ruh \<Longrightarrow> wp_slot io ruh \<le> FDP_NR_RUH"
  by (cases io) (auto simp: slot_ok_def wp_slot_def)

lemma get_wp_eq:
  assumes "length (f_wp_ruh f) = FDP_NR_RUH" "slot_ok io ruh"
  shows "get_wp f io ruh = Some (wps f ! wp_slot io ruh)"
  using assms by (cases io) (auto simp: get_wp_def wps_def wp_slot_def slot_ok_def nth_append)

lemma wps_put_wp:
  assumes "length (f_wp_ruh f) = FDP_NR_RUH" "slot_ok io ruh"
  shows "wps (put_wp f io ruh w) = (wps f)[wp_slot io ruh := w]"
    "length (f_wp_ruh (put_wp f io ruh w)) = FDP_NR_RUH"
  using assms by (cases io; simp add: put_wp_def wps_def wp_slot_def slot_ok_def list_update_append)+

lemma put_wp_sel [simp]:
  "f_ssd (put_wp f io ruh w) = f_ssd f" "f_lm (put_wp f io ruh w) = f_lm f"
  "f_maptbl (put_wp f io ruh w) = f_maptbl f" "f_rmap (put_wp f io ruh w) = f_rmap f"
  "f_cp (put_wp f io ruh w) = f_cp f" "f_wfc (put_wp f io ruh w) = f_wfc f"
  by (cases io; simp add: put_wp_def)+

lemma phys_invD:
  assumes "phys_inv f vic pend"
  shows "ssd_ok (f_ssd f)" "geo_ok (f_sp f)" "blk_counts (f_ssd f)" "open_inv f pend" "part_inv f vic"
    "state_inv f" "line_inv f vic" "pq_ok f" "length (f_wp_ruh f) = FDP_NR_RUH"
    "length (wps f) = Suc FDP_NR_RUH" "length (f_lines f) = blks_per_pl (f_sp f)"
  using assms ssd_okD(1) [of "f_ssd f"] by (auto simp: phys_inv_def open_inv_def wps_def line_inv_def)

lemma wp_facts:
  assumes "phys_inv f vic pend" "k \<le> FDP_NR_RUH"
  shows "wp_ok (f_sp f) (wps f ! k)" "real_ppa (f_sp f) (wp_page (wps f ! k))"
    "wp_blk (wps f ! k) < blks_per_pl (f_sp f)" "wp_blk (wps f ! k) \<in> set (opens f)"
    "p \<in> line_pages (f_sp f) (wp_blk (wps f ! k)) \<Longrightarrow>
       pst (f_ssd f) p = PG_FREE \<longleftrightarrow> frontier f pend k \<le> wpi (f_sp f) p"
proof -
  show w: "wp_ok (f_sp f) (wps f ! k)" using phys_invD(4) [OF assms(1)] assms(2) by (simp add: open_inv_def)
  then show "real_ppa (f_sp f) (wp_page (wps f ! k))" by (simp add: wp_ok_def)
  then show "wp_blk (wps f ! k) < blks_per_pl (f_sp f)" using real_ppaD(3) by (fastforce simp: wp_page_def)
  show "wp_blk (wps f ! k) \<in> set (opens f)"
    using phys_invD(10) [OF assms(1)] assms(2) by (auto simp: opens_def)
  show "p \<in> line_pages (f_sp f) (wp_blk (wps f ! k)) \<Longrightarrow>
       pst (f_ssd f) p = PG_FREE \<longleftrightarrow> frontier f pend k \<le> wpi (f_sp f) p"
    using phys_invD(4) [OF assms(1)] assms(2) by (simp add: open_inv_def)
qed

lemma opens_distinct:
  assumes "phys_inv f vic pend" "j \<le> FDP_NR_RUH" "k \<le> FDP_NR_RUH" "wp_blk (wps f ! j) = wp_blk (wps f ! k)"
  shows "j = k"
proof -
  have "distinct (opens f)" using phys_invD(5) [OF assms(1)] by (auto simp: part_inv_def)
  then show ?thesis
    using assms(2-4) phys_invD(10) [OF assms(1)] by (auto simp: opens_def distinct_conv_nth less_Suc_eq_le)
qed

lemma page_in_line: "real_ppa sp p \<Longrightarrow> p \<in> line_pages sp (g_blk p)"
  by (simp add: line_pages_def)

lemma line_vpc:
  assumes "phys_inv f vic pend" "b < blks_per_pl (f_sp f)" "b \<notin> vic"
  shows "ln_vpc (f_lines f ! b) = int (cnt (pst (f_ssd f)) (line_pages (f_sp f) b) PG_VALID)"
    "ln_ipc (f_lines f ! b) = int (cnt (pst (f_ssd f)) (line_pages (f_sp f) b) PG_INVALID)"
  using phys_invD(7) [OF assms(1)] assms(2,3) by (auto simp: line_inv_def)

lemma blk_vpc_eq:
  assumes "phys_inv f vic pend" "real_ppa (f_sp f) p"
  shows "blk_vpc (blk_at (f_ssd f) (g_ch p) (g_lun p) (g_blk p)) =
      int (cnt (pst (f_ssd f)) (block_pages (f_sp f) (g_ch p) (g_lun p) (g_blk p)) PG_VALID)"
    "blk_ipc (blk_at (f_ssd f) (g_ch p) (g_lun p) (g_blk p)) =
      int (cnt (pst (f_ssd f)) (block_pages (f_sp f) (g_ch p) (g_lun p) (g_blk p)) PG_INVALID)"
  using phys_invD(3) [OF assms(1)] real_ppaD [OF assms(2)] by (auto simp: blk_counts_def)

text \<open>A page whose state differs from \<open>v\<close> leaves room in its block and its line.\<close>

lemma cnt_room:
  assumes g: "geo_ok sp" and p: "real_ppa sp p" and st: "st p \<noteq> v"
  shows "cnt st (block_pages sp (g_ch p) (g_lun p) (g_blk p)) v < pgs_per_blk sp"
    "cnt st (line_pages sp (g_blk p)) v < pgs_per_line sp"
proof -
  have "p \<in> block_pages sp (g_ch p) (g_lun p) (g_blk p)" using p by (simp add: block_pages_def)
  from cnt_less [OF block_pages_card(2) [OF g] this, of st v] st
  show "cnt st (block_pages sp (g_ch p) (g_lun p) (g_blk p)) v < pgs_per_blk sp"
    using block_pages_card(1) [OF g, of "g_ch p" "g_lun p" "g_blk p"] by simp
  from cnt_less [OF line_pages_card(2) [OF g real_ppaD(3) [OF p]] page_in_line [OF p], of st v] st
  show "cnt st (line_pages sp (g_blk p)) v < pgs_per_line sp"
    using line_pages_card(1) [OF g real_ppaD(3) [OF p]] by simp
qed

lemma cnt_some:
  assumes g: "geo_ok sp" and p: "real_ppa sp p" and st: "st p = v"
  shows "0 < cnt st (block_pages sp (g_ch p) (g_lun p) (g_blk p)) v"
    "cnt st (block_pages sp (g_ch p) (g_lun p) (g_blk p)) v \<le> pgs_per_blk sp"
    "0 < cnt st (line_pages sp (g_blk p)) v" "cnt st (line_pages sp (g_blk p)) v \<le> pgs_per_line sp"
proof -
  let ?B = "block_pages sp (g_ch p) (g_lun p) (g_blk p)" and ?L = "line_pages sp (g_blk p)"
  note fb = block_pages_card(2) [OF g, of "g_ch p" "g_lun p" "g_blk p"]
  note fl = line_pages_card(2) [OF g real_ppaD(3) [OF p]]
  have "p \<in> ?B" using p by (simp add: block_pages_def)
  then show "0 < cnt st ?B v" using cnt_pos [OF fb] st by blast
  show "0 < cnt st ?L v" using cnt_pos [OF fl page_in_line [OF p]] st by blast
  show "cnt st ?B v \<le> pgs_per_blk sp"
    using cnt_le [OF fb] block_pages_card(1) [OF g] le_trans by blast
  show "cnt st ?L v \<le> pgs_per_line sp"
    using cnt_le [OF fl] line_pages_card(1) [OF g real_ppaD(3) [OF p]] by metis
qed

section \<open>Marking the page at a write pointer valid\<close>

lemma get_new_page_eq:
  assumes inv: "phys_inv f vic pend" and sl: "slot_ok io ruh"
  shows "get_new_page f io ruh = Some (wp_page (wps f ! wp_slot io ruh))"
proof -
  let ?w = "wps f ! wp_slot io ruh"
  note w = wp_facts(1,2) [OF inv wp_slot_le [OF sl]]
  have "wp_pl ?w = 0" using w(1) by (simp add: wp_ok_def)
  moreover have "mk_ppa (wp_ch ?w) (wp_lun ?w) 0 (wp_blk ?w) (wp_pg ?w) = wp_page ?w"
    using real_ppaD [OF w(2)] mk_ppa_real [OF phys_invD(2) [OF inv]] by (simp add: wp_page_def)
  moreover have "g_pl (wp_page ?w) = 0" by (simp add: wp_page_def)
  ultimately show ?thesis
    using get_wp_eq [OF phys_invD(9) [OF inv] sl] by (simp add: get_new_page_def)
qed

lemma mark_page_valid_eq:
  assumes inv: "phys_inv f vic pend" and p: "real_ppa (f_sp f) p" and st: "pst (f_ssd f) p = PG_FREE"
    and nv: "g_blk p \<notin> vic"
  shows "mark_page_valid p f = Some (f\<lparr>f_ssd := page_upd (f_ssd f) p PG_VALID 0 1,
     f_lm := (f_lm f)\<lparr>lm_lines := (f_lines f)[g_blk p :=
        (f_lines f ! g_blk p)\<lparr>ln_vpc := ln_vpc (f_lines f ! g_blk p) + 1\<rparr>]\<rparr>\<rparr>)"
proof -
  let ?s = "f_ssd f" and ?sp = "f_sp f"
  note ok = phys_invD(1) [OF inv] and g = phys_invD(2) [OF inv] and v = real_ppaD [OF p]
  let ?b = "blk_at ?s (g_ch p) (g_lun p) (g_blk p)"
  have st': "pg_status (blk_pg ?b ! g_pg p) = PG_FREE" using st by (simp add: pst_def)
  have room: "blk_vpc ?b < int (pgs_per_blk ?sp)" "blk_vpc ?b \<ge> 0"
    using cnt_room(1) [OF g p, of "pst ?s" PG_VALID] st blk_vpc_eq(1) [OF inv p] by auto
  have lroom: "ln_vpc (f_lines f ! g_blk p) < int (pgs_per_line ?sp)" "ln_vpc (f_lines f ! g_blk p) \<ge> 0"
    using cnt_room(2) [OF g p, of "pst ?s" PG_VALID] st line_vpc(1) [OF inv v(3) nv] by auto
  let ?x = "?b\<lparr>blk_pg := (blk_pg ?b)[g_pg p := (blk_pg ?b ! g_pg p)\<lparr>pg_status := PG_VALID\<rparr>]\<rparr>"
  have "blk_ok ?sp ?x"
    using page_blk_ok [OF ok v(5), where v = PG_VALID and i = "blk_ipc ?b" and j = "blk_vpc ?b"] by (simp add: blk_ok_def)
  then have ok1: "ssd_ok (put_blk ?s p ?x)" by (rule put_blk_ok [OF ok v(5)])
  have "get_blk (put_blk ?s p ?x) p = Some ?x"
    using get_blk_eq [OF ok1, of p] v(5) by (simp add: blk_at_put_blk [OF ok v(5)])
  then show ?thesis
    using room lroom st' v(3) phys_invD(11) [OF inv]
    by (simp add: mark_page_valid_def get_pg_eq [OF ok v(5)] set_pg_status_eq [OF ok v(5)]
        get_line_def page_upd_def Let_def)
qed

text \<open>What the later steps use of a change of one page's state and of its line's counters.\<close>

lemma line_inv_page_upd:
  assumes inv: "phys_inv f vic pend" and p: "real_ppa (f_sp f) p" and nv: "g_blk p \<notin> vic"
    and f': "f' = f\<lparr>f_ssd := page_upd (f_ssd f) p v di dv, f_lm := lm'\<rparr>"
    and len: "length (lm_lines lm') = length (f_lines f)"
    and oth: "\<And>b. b < length (f_lines f) \<Longrightarrow> ln_id (lm_lines lm' ! b) = ln_id (f_lines f ! b) \<and>
        ln_ruh (lm_lines lm' ! b) = ln_ruh (f_lines f ! b) \<and>
        (b \<noteq> g_blk p \<longrightarrow> ln_vpc (lm_lines lm' ! b) = ln_vpc (f_lines f ! b) \<and>
                      ln_ipc (lm_lines lm' ! b) = ln_ipc (f_lines f ! b))"
    and pos: "\<And>b. b < length (f_lines f) \<Longrightarrow>
        ln_pos (lm_lines lm' ! b) = 0 \<longleftrightarrow> b \<notin> pq_elems (victim_line_pq lm')"
    and vpc: "ln_vpc (lm_lines lm' ! g_blk p) = ln_vpc (f_lines f ! g_blk p) +
        (if v = PG_VALID then 1 else 0) - (if pst (f_ssd f) p = PG_VALID then 1 else 0)"
    and ipc: "ln_ipc (lm_lines lm' ! g_blk p) = ln_ipc (f_lines f ! g_blk p) +
        (if v = PG_INVALID then 1 else 0) - (if pst (f_ssd f) p = PG_INVALID then 1 else 0)"
  shows "line_inv f' vic"
proof -
  let ?s = "f_ssd f" and ?sp = "f_sp f" and ?s' = "page_upd (f_ssd f) p v di dv"
  note ok = phys_invD(1) [OF inv] and g = phys_invD(2) [OF inv] and r = real_ppaD [OF p]
  have sp': "f_sp f' = ?sp" using page_upd_ok(2) [OF ok r(5)] by (simp add: f')
  have vic': "victims f' = pq_elems (victim_line_pq lm')" by (simp add: victims_def f')
  have c': "cnt (pst ?s') (line_pages ?sp b) w = cnt ((pst ?s)(p := v)) (line_pages ?sp b) w" for b w
    by (rule cnt_cong) (auto simp: line_pages_def pst_page_upd [OF ok p])
  have eq: "cnt (pst ?s') (line_pages ?sp b) w = cnt (pst ?s) (line_pages ?sp b) w" if "b \<noteq> g_blk p" for b w
    unfolding c' by (rule cnt_upd_out) (use that in \<open>simp add: line_pages_def\<close>)
  have at: "int (cnt (pst ?s') (line_pages ?sp (g_blk p)) w) = int (cnt (pst ?s) (line_pages ?sp (g_blk p)) w)
      + (if v = w then 1 else 0) - (if pst ?s p = w then 1 else 0)" for w
    unfolding c' by (rule cnt_upd [OF line_pages_card(2) [OF g r(3)] page_in_line [OF p]])
  have lens: "length (f_lines f) = blks_per_pl ?sp" by (rule phys_invD(11) [OF inv])
  have li: "line_inv f vic" by (rule phys_invD(7) [OF inv])
  have w': "wps f' = wps f" "f_lines f' = lm_lines lm'" by (simp_all add: f' wps_def)
  have ruh: "line_ruh_ok f'"
    using li oth lens wp_facts(3) [OF inv] unfolding line_inv_def line_ruh_ok_def sp' w' by simp
  have "ln_vpc (lm_lines lm' ! b) = int (cnt (pst ?s') (line_pages ?sp b) PG_VALID) \<and>
      ln_ipc (lm_lines lm' ! b) = int (cnt (pst ?s') (line_pages ?sp b) PG_INVALID)"
    if b: "b < blks_per_pl ?sp" "b \<notin> vic" for b
  proof (cases "b = g_blk p")
    case True
    then show ?thesis using vpc ipc line_vpc [OF inv b] at by simp
  next
    case False
    then show ?thesis using oth [of b] line_vpc [OF inv b] eq b lens by simp
  qed
  then show ?thesis
    using li ruh oth pos lens len sp' vic' by (auto simp: line_inv_def f')
qed

text \<open>The classes of lines exclude each other.\<close>

lemma open_line_excl:
  assumes "phys_inv f vic pend" "b \<in> set (opens f)"
  shows "b \<notin> vic" "b \<notin> victims f" "b \<notin> set (free_line_list (f_lm f))" "b \<notin> set (full_line_list (f_lm f))"
  using phys_invD(5) [OF assms(1)] assms(2) by (auto simp: part_inv_def)

lemma full_line_excl:
  assumes "phys_inv f vic pend" "b \<in> set (full_line_list (f_lm f))"
  shows "b \<notin> vic" "b \<notin> victims f" "b \<notin> set (free_line_list (f_lm f))" "b \<notin> set (opens f)"
  using phys_invD(5) [OF assms(1)] assms(2) by (auto simp: part_inv_def)

lemma free_line_excl:
  assumes "phys_inv f vic pend" "b \<in> set (free_line_list (f_lm f))"
  shows "b \<notin> vic" "b \<notin> victims f" "b \<notin> set (full_line_list (f_lm f))" "b \<notin> set (opens f)"
  using phys_invD(5) [OF assms(1)] assms(2) by (auto simp: part_inv_def)

lemma victim_line_excl:
  assumes "phys_inv f vic pend" "b \<in> victims f"
  shows "b \<notin> vic" "b \<notin> set (free_line_list (f_lm f))" "b \<notin> set (full_line_list (f_lm f))" "b \<notin> set (opens f)"
  using phys_invD(5) [OF assms(1)] assms(2) by (auto simp: part_inv_def)

lemma lines_bounded:
  assumes "phys_inv f vic pend"
  shows "b \<in> set (free_line_list (f_lm f)) \<or> b \<in> set (full_line_list (f_lm f)) \<or> b \<in> set (opens f) \<or>
     b \<in> victims f \<or> b \<in> vic \<longleftrightarrow> b < blks_per_pl (f_sp f)"
  using phys_invD(5) [OF assms] by (auto simp: part_inv_def set_eq_iff)

lemma pq_ok_cong:
  assumes "pq_ok f" "f_sp f' = f_sp f" "victim_line_pq (f_lm f') = victim_line_pq (f_lm f)"
    "length (f_lines f') = length (f_lines f)"
    "\<And>b. b \<in> victims f \<Longrightarrow> ln_vpc (f_lines f' ! b) = ln_vpc (f_lines f ! b) \<and>
        ln_pos (f_lines f' ! b) = ln_pos (f_lines f ! b)"
  shows "pq_ok f'"
proof -
  let ?q = "victim_line_pq (f_lm f)"
  have w: "vq_wired ?q" and i: "pq_inv (\<lambda>ls a. a < length ls) ?q (f_lines f)"
    using assms(1) by (auto simp: pq_ok_def)
  have "pq_inv (\<lambda>ls a. a < length ls) ?q (f_lines f')"
    by (rule pq_inv_cong [OF i])
      (use w vq.pq_elemE(4) [OF w i] assms(4,5) in \<open>auto simp: pq_wired_def victims_def victim_line_defs\<close>)
  with assms w show ?thesis by (simp add: pq_ok_def)
qed

lemma mark_page_valid_inv:
  assumes inv: "phys_inv f vic None" and k: "k \<le> FDP_NR_RUH" and p: "p = wp_page (wps f ! k)"
  shows "\<exists>ls'. mark_page_valid p f = Some (f\<lparr>f_ssd := page_upd (f_ssd f) p PG_VALID 0 1,
       f_lm := (f_lm f)\<lparr>lm_lines := ls'\<rparr>\<rparr>) \<and>
     phys_inv (f\<lparr>f_ssd := page_upd (f_ssd f) p PG_VALID 0 1, f_lm := (f_lm f)\<lparr>lm_lines := ls'\<rparr>\<rparr>) vic (Some k) \<and>
     pst (f_ssd f) p = PG_FREE"
proof -
  let ?s = "f_ssd f" and ?sp = "f_sp f" and ?b = "g_blk p"
  let ?s' = "page_upd ?s p PG_VALID 0 1"
  let ?ls = "(f_lines f)[?b := (f_lines f ! ?b)\<lparr>ln_vpc := ln_vpc (f_lines f ! ?b) + 1\<rparr>]"
  let ?f = "f\<lparr>f_ssd := ?s', f_lm := (f_lm f)\<lparr>lm_lines := ?ls\<rparr>\<rparr>"
  note ok = phys_invD(1) [OF inv] and g = phys_invD(2) [OF inv]
  note w = wp_facts [OF inv k]
  have r: "real_ppa ?sp p" using w(2) p by simp
  note rp = real_ppaD [OF r]
  have b: "?b = wp_blk (wps f ! k)" by (simp add: p wp_page_def)
  have ex: "?b \<notin> vic" "?b \<notin> victims f" "?b \<notin> set (free_line_list (f_lm f))"
    "?b \<notin> set (full_line_list (f_lm f))"
    using open_line_excl [OF inv w(4)] b by auto
  have fr: "pst ?s p = PG_FREE"
    using w(5) [of p] page_in_line [OF r] b p by (simp add: frontier_def)
  have sp': "f_sp ?f = ?sp" using page_upd_ok(2) [OF ok rp(5)] by simp
  have pst': "pst ?s' q = (if q = p then PG_VALID else pst ?s q)" if "real_ppa ?sp q" for q
    using pst_page_upd [OF ok r that] by simp
  have wps': "wps ?f = wps f" "opens ?f = opens f" "victims ?f = victims f"
    by (simp_all add: wps_def opens_def victims_def)
  have same: "pst ?s' q = pst ?s q" if "q \<in> line_pages ?sp b" "b \<noteq> ?b" for q b
    using that pst' [of q] by (auto simp: line_pages_def)
  have o: "open_inv ?f (Some k)"
    unfolding open_inv_def sp' wps'
  proof (intro conjI allI impI ballI)
    show "length (f_wp_ruh ?f) = FDP_NR_RUH" using phys_invD(9) [OF inv] by simp
    fix j assume j: "j \<le> FDP_NR_RUH"
    show "wp_ok ?sp (wps f ! j)" by (rule wp_facts(1) [OF inv j])
    fix q assume q: "q \<in> line_pages ?sp (wp_blk (wps f ! j))"
    have rq: "real_ppa ?sp q" using q by (simp add: line_pages_def)
    have wj: "frontier ?f (Some k) j = frontier f None j + (if j = k then 1 else 0)"
      by (simp add: frontier_def sp' wps' page_upd_ok(2) [OF ok rp(5)])
    show "pst (f_ssd ?f) q = PG_FREE \<longleftrightarrow> frontier ?f (Some k) j \<le> wpi ?sp q"
    proof (cases "j = k")
      case True
      have "wpi ?sp q = wpi ?sp p \<longleftrightarrow> q = p"
        using wpi_inj [OF g rq r] q True b by (auto simp: line_pages_def)
      then show ?thesis
        unfolding wj using True wp_facts(5) [OF inv j q] pst' [OF rq] p by (auto simp: frontier_def)
    next
      case False
      then have "wp_blk (wps f ! j) \<noteq> ?b" using opens_distinct [OF inv j k] b by auto
      from same [OF q this] show ?thesis unfolding wj using False wp_facts(5) [OF inv j q] by simp
    qed
  qed
  have pi: "part_inv ?f vic" using phys_invD(5) [OF inv] unfolding part_inv_def wps' sp' by simp
  have si: "state_inv ?f"
    unfolding state_inv_def wps' sp'
    using phys_invD(6) [OF inv] same ex unfolding state_inv_def by (auto; metis)
  have lb: "?b < length (f_lines f)" using rp(3) phys_invD(11) [OF inv] by simp
  have li0: "line_inv f vic" by (rule phys_invD(7) [OF inv])
  have li: "line_inv ?f vic"
    by (rule line_inv_page_upd [OF inv r ex(1) refl])
      (use lb fr li0 phys_invD(11) [OF inv] in
        \<open>auto simp: nth_list_update line_inv_def victims_def\<close>)
  have pq: "pq_ok ?f"
    by (rule pq_ok_cong [OF phys_invD(8) [OF inv] sp']) (use lb ex(2) in \<open>auto simp: nth_list_update\<close>)
  have "blk_counts ?s'" by (rule page_upd_counts [OF ok r phys_invD(3) [OF inv]]) (use fr in auto)
  with o pi si li pq page_upd_ok(1) [OF ok rp(5)] have "phys_inv ?f vic (Some k)"
    by (simp add: phys_inv_def)
  with mark_page_valid_eq [OF inv r fr ex(1)] fr show ?thesis by blast
qed

end
