(* ===== verification/Fdp_Advance.thy ===== *)
theory Fdp_Advance
  imports Fdp_Pages
begin

text \<open>
  Advancing a write pointer: \<open>next_wp\<close> is the pointer's move inside its line, one step in the
  write order; at the end of the line the line is retired and the first free line is opened.
  Without a free line there the code would dereference NULL.
\<close>

section \<open>The move inside a line\<close>

definition next_wp :: "ssdparams \<Rightarrow> fdp_write_pointer \<Rightarrow> fdp_write_pointer option" where
  "next_wp sp w =
     (let os = pgs_per_oneshotpg sp; pg1 = wp_pg w + 1; pg2 = pg1 - os in
      if pg1 mod os \<noteq> 0 then Some (w\<lparr>wp_pg := pg1\<rparr>)
      else if wp_ch w + 1 \<noteq> nchs sp then Some (w\<lparr>wp_pg := pg2, wp_ch := wp_ch w + 1\<rparr>)
      else if wp_lun w + 1 \<noteq> luns_per_ch sp then Some (w\<lparr>wp_pg := pg2, wp_ch := 0, wp_lun := wp_lun w + 1\<rparr>)
      else if pg1 \<noteq> pgs_per_blk sp then Some (w\<lparr>wp_pg := pg1, wp_ch := 0, wp_lun := 0\<rparr>)
      else None)"

definition wpx :: "ssdparams \<Rightarrow> nat \<Rightarrow> nat \<Rightarrow> nat \<Rightarrow> nat" where
  "wpx sp c l g = g mod pgs_per_oneshotpg sp + pgs_per_oneshotpg sp *
     (c + nchs sp * (l + luns_per_ch sp * (g div pgs_per_oneshotpg sp)))"

lemma wpi_wp_page: "wpi sp (wp_page w) = wpx sp (wp_ch w) (wp_lun w) (wp_pg w)"
  by (simp add: wpi_def wp_page_def wpx_def)

lemma oneshot_last:
  fixes g os :: nat
  assumes "0 < os" "(g + 1) mod os = 0"
  shows "g mod os = os - 1" "os * (g div os) = g + 1 - os" "os \<le> g + 1" "(g + 1) div os = g div os + 1"
proof -
  show m: "g mod os = os - 1" using assms by (cases "os = 1") (auto simp: mod_Suc split: if_splits)
  have e: "os * (g div os) + g mod os = g" by simp
  show "os * (g div os) = g + 1 - os" "os \<le> g + 1" using e m assms(1) by linarith+
  then show "(g + 1) div os = g div os + 1"
    using assms(1) m e by (metis Suc_eq_plus1 div_Suc assms(2) Suc_eq_plus1_left add.commute)
qed

lemma next_wp_Some:
  assumes g: "geo_ok sp" and w: "wp_ok sp w" and n: "next_wp sp w = Some w'"
  shows "wp_ok sp w'" "wp_blk w' = wp_blk w" "wpi sp (wp_page w') = Suc (wpi sp (wp_page w))"
proof -
  let ?o = "pgs_per_oneshotpg sp" and ?g = "wp_pg w"
  have o: "0 < ?o" by (rule geo_pos(4) [OF g])
  have r: "wp_ch w < nchs sp" "wp_lun w < luns_per_ch sp" "wp_blk w < blks_per_pl sp" "?g < pgs_per_blk sp"
    using w real_ppaD [of sp "wp_page w"] by (auto simp: wp_ok_def wp_page_def)
  have rw: "real_ppa sp (wp_page v) \<longleftrightarrow> wp_ch v < nchs sp \<and> wp_lun v < luns_per_ch sp \<and>
      wp_blk v < blks_per_pl sp \<and> wp_pg v < pgs_per_blk sp" for v
    by (simp add: wp_page_def real_page_of [OF g])
  consider (pg) "(?g + 1) mod ?o \<noteq> 0" "w' = w\<lparr>wp_pg := ?g + 1\<rparr>"
    | (ch) "(?g + 1) mod ?o = 0" "wp_ch w + 1 < nchs sp" "w' = w\<lparr>wp_pg := ?g + 1 - ?o, wp_ch := wp_ch w + 1\<rparr>"
    | (lun) "(?g + 1) mod ?o = 0" "wp_ch w + 1 = nchs sp" "wp_lun w + 1 < luns_per_ch sp"
        "w' = w\<lparr>wp_pg := ?g + 1 - ?o, wp_ch := 0, wp_lun := wp_lun w + 1\<rparr>"
    | (os) "(?g + 1) mod ?o = 0" "wp_ch w + 1 = nchs sp" "wp_lun w + 1 = luns_per_ch sp"
        "?g + 1 < pgs_per_blk sp" "w' = w\<lparr>wp_pg := ?g + 1, wp_ch := 0, wp_lun := 0\<rparr>"
    using n r by (auto simp: next_wp_def Let_def split: if_splits)
  then have "wp_ok sp w' \<and> wp_blk w' = wp_blk w \<and>
     wpx sp (wp_ch w') (wp_lun w') (wp_pg w') = Suc (wpx sp (wp_ch w) (wp_lun w) ?g)"
  proof cases
    case pg
    have "?g + 1 < pgs_per_blk sp"
    proof (rule ccontr)
      assume "\<not> ?g + 1 < pgs_per_blk sp"
      then have "?g + 1 = ?o * oneshotpgs_per_blk sp" using r(4) geo_eqs(3) [OF g] by simp
      with pg(1) show False by simp
    qed
    moreover have "(?g + 1) mod ?o = ?g mod ?o + 1" "(?g + 1) div ?o = ?g div ?o"
      using pg(1) by (auto simp: mod_Suc div_Suc split: if_splits)
    ultimately show ?thesis using pg w r by (simp add: wp_ok_def rw wpx_def)
  next
    case ch
    note l = oneshot_last [OF o ch(1)]
    have "(?g + 1 - ?o) mod ?o = 0" "(?g + 1 - ?o) div ?o = ?g div ?o" using l(2) o by (metis mod_mult_self1_is_0, metis nonzero_mult_div_cancel_left less_numeral_extra(3))
    moreover have "?g + 1 - ?o < pgs_per_blk sp" using r(4) o by simp
    ultimately show ?thesis using ch w r l(1) o by (simp add: wp_ok_def rw wpx_def)
  next
    case lun
    note l = oneshot_last [OF o lun(1)]
    have "(?g + 1 - ?o) mod ?o = 0" "(?g + 1 - ?o) div ?o = ?g div ?o" using l(2) o by (metis mod_mult_self1_is_0, metis nonzero_mult_div_cancel_left less_numeral_extra(3))
    moreover have "?g + 1 - ?o < pgs_per_blk sp" using r(4) o by simp
    moreover have "?o * (nchs sp + x) = ?o + ?o * (wp_ch w + x)" for x
      unfolding lun(2) [symmetric] by (simp add: algebra_simps)
    ultimately show ?thesis using lun w r l(1) o by (simp add: wp_ok_def rw wpx_def)
  next
    case os
    note l = oneshot_last [OF o os(1)]
    have "?o * (nchs sp * (luns_per_ch sp + x)) = ?o + ?o * (wp_ch w + nchs sp * (wp_lun w + x))" for x
      unfolding os(2,3) [symmetric] by (simp add: algebra_simps)
    then show ?thesis using os w r l(1,4) o by (simp add: wp_ok_def rw wpx_def)
  qed
  then show "wp_ok sp w'" "wp_blk w' = wp_blk w" "wpi sp (wp_page w') = Suc (wpi sp (wp_page w))"
    by (auto simp: wpi_wp_page)
qed

lemma next_wp_None:
  assumes g: "geo_ok sp" and w: "wp_ok sp w" and n: "next_wp sp w = None"
  shows "Suc (wpi sp (wp_page w)) = pgs_per_line sp"
proof -
  let ?o = "pgs_per_oneshotpg sp" and ?g = "wp_pg w"
  have o: "0 < ?o" by (rule geo_pos(4) [OF g])
  have c: "(?g + 1) mod ?o = 0" "nchs sp = wp_ch w + 1" "luns_per_ch sp = wp_lun w + 1" "pgs_per_blk sp = ?g + 1"
    using n by (auto simp: next_wp_def Let_def split: if_splits)
  note l = oneshot_last [OF o c(1)]
  have d: "oneshotpgs_per_blk sp = ?g div ?o + 1"
    using l(4) c(4) geo_eqs(3) [OF g] o by (metis nonzero_mult_div_cancel_left less_numeral_extra(3))
  show ?thesis
    unfolding line_size_radix [OF g] wpi_wp_page wpx_def d c(2,3) using l(1) o by (simp add: algebra_simps)
qed

section \<open>Advancing inside a line\<close>

lemma phys_inv_put_wp:
  assumes inv: "phys_inv f vic (Some k)" and sl: "slot_ok io ruh" and k: "k = wp_slot io ruh"
    and n: "next_wp (f_sp f) (wps f ! k) = Some w'"
  shows "phys_inv (put_wp f io ruh w') vic None"
proof -
  let ?f = "put_wp f io ruh w'" and ?sp = "f_sp f"
  have kk: "k \<le> FDP_NR_RUH" using wp_slot_le [OF sl] k by simp
  note len = phys_invD(9,10) [OF inv]
  have wps': "wps ?f = (wps f)[k := w']" using wps_put_wp(1) [OF len(1) sl] k by simp
  note nw = next_wp_Some [OF phys_invD(2) [OF inv] wp_facts(1) [OF inv kk] n]
  have op: "opens ?f = opens f"
    unfolding opens_def wps' using nw(2) kk len(2)
    by (auto simp: map_update list_update_id intro!: nth_equalityI simp: nth_list_update)
  have v: "victims ?f = victims f" by (simp add: victims_def)
  have blk: "wp_blk (wps ?f ! j) = wp_blk (wps f ! j)" if "j \<le> FDP_NR_RUH" for j
    using that kk nw(2) len(2) by (simp add: wps' nth_list_update)
  have fr: "frontier ?f None j = frontier f (Some k) j" if "j \<le> FDP_NR_RUH" for j
    using that kk nw(3) len(2) by (auto simp: frontier_def wps' nth_list_update)
  have "wp_ok ?sp (wps ?f ! j)" if "j \<le> FDP_NR_RUH" for j
    using that nw(1) wp_facts(1) [OF inv that] kk len(2) by (simp add: wps' nth_list_update)
  then have "open_inv ?f None"
    unfolding open_inv_def using wps_put_wp(2) [OF len(1) sl] blk fr wp_facts(5) [OF inv] by simp
  moreover have "line_inv ?f vic"
    using phys_invD(7) [OF inv] blk unfolding line_inv_def line_ruh_ok_def v by simp
  ultimately show ?thesis
    using inv unfolding phys_inv_def part_inv_def state_inv_def pq_ok_def op v by simp
qed

lemma advance_inside:
  assumes inv: "phys_inv f vic pend" and sl: "slot_ok io ruh"
    and n: "next_wp (f_sp f) (wps f ! wp_slot io ruh) = Some w'"
  shows "advance_write_pointer io ruh f = Some (put_wp f io ruh w')"
proof -
  let ?sp = "f_sp f" and ?w = "wps f ! wp_slot io ruh"
  note g = phys_invD(2) [OF inv]
  have r: "wp_ch ?w < nchs ?sp" "wp_lun ?w < luns_per_ch ?sp" "wp_pg ?w < pgs_per_blk ?sp"
    using real_ppaD [OF wp_facts(2) [OF inv wp_slot_le [OF sl]]] by (auto simp: wp_page_def)
  have b: "wp_pg ?w + 1 < 4294967296" "0 < pgs_per_oneshotpg ?sp"
    using r(3) geo_le(4) [OF g] geo_pos(4) [OF g] by simp_all
  have s: "u32_sub (wp_pg ?w + 1) (pgs_per_oneshotpg ?sp) = wp_pg ?w + 1 - pgs_per_oneshotpg ?sp"
    "u32 (wp_pg ?w + 1 - pgs_per_oneshotpg ?sp + pgs_per_oneshotpg ?sp) = wp_pg ?w + 1"
    if "(wp_pg ?w + 1) mod pgs_per_oneshotpg ?sp = 0"
    using oneshot_last(3) [OF b(2) that] b by (simp_all add: u32_sub_id u32_id)
  show ?thesis
    using n r b s unfolding advance_write_pointer_def next_wp_def get_wp_eq [OF phys_invD(9) [OF inv] sl]
    by (auto simp: Let_def split: if_splits)
qed

section \<open>The end of a line\<close>

text \<open>
  The state after the line \<open>b\<close> open at write pointer \<open>k\<close> has been retired and the free line
  \<open>n\<close> opened, described by its parts.
\<close>

lemma next_line_inv:
  assumes inv: "phys_inv f vic (Some k)" and k: "k \<le> FDP_NR_RUH" and b: "b = wp_blk (wps f ! k)"
    and fin: "frontier f (Some k) k = pgs_per_line (f_sp f)"
    and free: "free_line_list (f_lm f) = n # rest"
    and ssd: "f_ssd f' = f_ssd f" and len: "length (f_wp_ruh f') = FDP_NR_RUH"
    and wps': "wps f' = (wps f)[k := \<lparr>wp_curline = Some n, wp_ch = 0, wp_lun = 0, wp_pg = 0, wp_blk = n, wp_pl = 0\<rparr>]"
    and lists: "free_line_list (f_lm f') = rest" "free_line_cnt (f_lm f') = length rest"
      "full_line_cnt (f_lm f') = length (full_line_list (f_lm f'))"
      "victim_line_cnt (f_lm f') = card (victims f')"
    and kind: "full_line_list (f_lm f') = full_line_list (f_lm f) @ [b] \<and> victims f' = victims f \<and>
         (\<forall>p\<in>line_pages (f_sp f) b. pst (f_ssd f) p = PG_VALID) \<or>
       full_line_list (f_lm f') = full_line_list (f_lm f) \<and> victims f' = insert b (victims f) \<and>
         (\<exists>p\<in>line_pages (f_sp f) b. pst (f_ssd f) p = PG_INVALID)"
    and lines: "length (f_lines f') = length (f_lines f)"
      "\<And>c. c < length (f_lines f) \<Longrightarrow> ln_id (f_lines f' ! c) = ln_id (f_lines f ! c) \<and>
         ln_vpc (f_lines f' ! c) = ln_vpc (f_lines f ! c) \<and> ln_ipc (f_lines f' ! c) = ln_ipc (f_lines f ! c) \<and>
         (ln_pos (f_lines f' ! c) = 0 \<longleftrightarrow> c \<notin> victims f') \<and>
         ln_ruh (f_lines f' ! c) = (if c = n then (if k < FDP_NR_RUH then int k else -1) else ln_ruh (f_lines f ! c))"
    and pq: "pq_ok f'"
  shows "phys_inv f' vic None"
proof -
  let ?sp = "f_sp f"
  let ?w = "\<lparr>wp_curline = Some n, wp_ch = 0, wp_lun = 0, wp_pg = 0, wp_blk = n, wp_pl = 0\<rparr>"
  note g = phys_invD(2) [OF inv] and lw = phys_invD(10) [OF inv]
  have sp': "f_sp f' = ?sp" using ssd by simp
  have nb: "n < blks_per_pl ?sp" using lines_bounded [OF inv, of n] free by simp
  have nx: "n \<notin> vic" "n \<notin> victims f" "n \<notin> set (full_line_list (f_lm f))" "n \<notin> set (opens f)" "n \<notin> set rest"
    using free_line_excl [OF inv, of n] free phys_invD(5) [OF inv] by (auto simp: part_inv_def)
  have bo: "b \<in> set (opens f)" using wp_facts(4) [OF inv k] b by simp
  note bx = open_line_excl [OF inv bo]
  have bn: "b \<noteq> n" using bo nx(4) by auto
  have "opens f ! k = b" "k < length (opens f)" using b k lw by (simp_all add: opens_def)
  then have op: "opens f' = (opens f)[k := n]" "set (opens f') = insert n (set (opens f) - {b})"
    "distinct (opens f')"
  proof -
    show "opens f' = (opens f)[k := n]" by (simp add: opens_def wps' map_update)
    moreover have "distinct (opens f)" using phys_invD(5) [OF inv] by (auto simp: part_inv_def)
    ultimately show "set (opens f') = insert n (set (opens f) - {b})" "distinct (opens f')"
      using \<open>opens f ! k = b\<close> \<open>k < length (opens f)\<close> nx(4)
      by (simp_all add: set_update_distinct distinct_list_update)
  qed
  have pi: "part_inv f' vic"
  proof -
    let ?F = "set (free_line_list (f_lm f))" and ?U = "set (full_line_list (f_lm f))" and ?O = "set (opens f)"
    have P: "distinct (free_line_list (f_lm f))" "distinct (full_line_list (f_lm f))"
      "?F \<inter> ?U = {}" "?F \<inter> ?O = {}" "?U \<inter> ?O = {}"
      "?F \<union> ?U \<union> ?O \<union> victims f \<union> vic = {..<blks_per_pl ?sp}"
      "(?F \<union> ?U \<union> ?O) \<inter> (victims f \<union> vic) = {}" "victims f \<inter> vic = {}"
      using phys_invD(5) [OF inv] unfolding part_inv_def by auto
    have F: "?F = insert n (set rest)" "distinct rest" using free P(1) by auto
    from kind show ?thesis
    proof (elim disjE conjE)
      assume e: "full_line_list (f_lm f') = full_line_list (f_lm f) @ [b]" "victims f' = victims f"
      have "set rest \<union> (?U \<union> {b}) \<union> insert n (?O - {b}) \<union> victims f \<union> vic = {..<blks_per_pl ?sp}"
        unfolding P(6) [symmetric] F(1) using bo by blast
      moreover have "(set rest \<union> (?U \<union> {b}) \<union> insert n (?O - {b})) \<inter> (victims f \<union> vic) = {}"
        using P(7) F(1) bo by blast
      moreover have "distinct (rest @ (full_line_list (f_lm f) @ [b]) @ opens f')"
        using P(2-5) F op(2,3) bx(4) nx bo bn by auto
      ultimately show ?thesis
        using lists P(8) unfolding part_inv_def sp' op(2) e by simp
    next
      assume e: "full_line_list (f_lm f') = full_line_list (f_lm f)" "victims f' = insert b (victims f)"
      have "set rest \<union> ?U \<union> insert n (?O - {b}) \<union> insert b (victims f) \<union> vic = {..<blks_per_pl ?sp}"
        unfolding P(6) [symmetric] F(1) using bo by blast
      moreover have "(set rest \<union> ?U \<union> insert n (?O - {b})) \<inter> (insert b (victims f) \<union> vic) = {}"
        using P(3-5,7) F(1) bo bn bx nx by blast
      moreover have "distinct (rest @ full_line_list (f_lm f) @ opens f')"
        using P(2-5) F op(2,3) nx by auto
      ultimately show ?thesis
        using lists P(8) bx(1) unfolding part_inv_def sp' op(2) e by simp
    qed
  qed
  have fullb: "pst (f_ssd f) p \<noteq> PG_FREE" if "p \<in> line_pages ?sp b" for p
    using wp_facts(5) [OF inv k, of p] that b fin wpi_less [OF g, of p] by (auto simp: line_pages_def)
  have si: "state_inv f'"
    unfolding state_inv_def sp' ssd lists
    using phys_invD(6) [OF inv] kind free fullb unfolding state_inv_def by auto
  have w0: "wp_ok ?sp ?w" using nb geo_pos(1,2) [OF g] geo_pgs_pos(1) [OF g]
    by (simp add: wp_ok_def wp_page_def real_page_of [OF g])
  have wi0: "wpi ?sp (wp_page ?w) = 0" by (simp add: wpi_def wp_page_def)
  have nfree: "pst (f_ssd f) p = PG_FREE" if "p \<in> line_pages ?sp n" for p
    using phys_invD(6) [OF inv] free that by (simp add: state_inv_def)
  have oi: "open_inv f' None"
    unfolding open_inv_def sp' ssd
  proof (intro conjI allI impI ballI)
    fix j assume j: "j \<le> FDP_NR_RUH"
    have wj: "wps f' ! j = (if j = k then ?w else wps f ! j)" using j lw by (simp add: wps' nth_list_update)
    show "wp_ok ?sp (wps f' ! j)" using wj w0 wp_facts(1) [OF inv j] by simp
    fix p assume p: "p \<in> line_pages ?sp (wp_blk (wps f' ! j))"
    show "pst (f_ssd f) p = PG_FREE \<longleftrightarrow> frontier f' None j \<le> wpi ?sp p"
    proof (cases "j = k")
      case True
      then show ?thesis using wj wi0 p nfree by (simp add: frontier_def ssd)
    next
      case False
      then have "frontier f' None j = frontier f (Some k) j" using wj by (simp add: frontier_def ssd)
      then show ?thesis using wp_facts(5) [OF inv j, of p] p wj False by simp
    qed
  qed (rule len)
  have ll: "length (f_lines f) = blks_per_pl ?sp" by (rule phys_invD(11) [OF inv])
  have lr: "line_ruh_ok f'"
    unfolding line_ruh_ok_def sp'
  proof (intro conjI allI impI)
    have li0: "line_ruh_ok f" using phys_invD(7) [OF inv] by (simp add: line_inv_def)
    fix c assume c: "c < blks_per_pl ?sp"
    then show "- 1 \<le> ln_ruh (f_lines f' ! c)" "ln_ruh (f_lines f' ! c) < int FDP_NR_RUH"
      using lines(2) [of c] ll li0 k by (auto simp: line_ruh_ok_def FDP_NR_RUH_def)
  next
    fix j assume j: "j \<le> FDP_NR_RUH"
    show "ln_ruh (f_lines f' ! wp_blk (wps f' ! j)) = (if j < FDP_NR_RUH then int j else - 1)"
    proof (cases "j = k")
      case True
      then show ?thesis using lines(2) [of n] nb ll k lw by (simp add: wps')
    next
      case False
      have "wp_blk (wps f ! j) \<noteq> n" using wp_facts(4) [OF inv j] nx(4) by auto
      moreover have "line_ruh_ok f" using phys_invD(7) [OF inv] by (simp add: line_inv_def)
      ultimately show ?thesis
        using False lines(2) [of "wp_blk (wps f ! j)"] wp_facts(3) [OF inv j] ll j lw
        by (simp add: wps' nth_list_update line_ruh_ok_def)
    qed
  qed
  have li: "line_inv f' vic"
    using phys_invD(7) [OF inv] lines ll lr unfolding line_inv_def sp' ssd by simp
  show ?thesis
    using oi pi si li pq phys_invD(1,3) [OF inv] by (simp add: phys_inv_def ssd)
qed

text \<open>Retiring the filled line.\<close>

lemma retire_line_spec:
  assumes inv: "phys_inv f vic (Some k)" and k: "k \<le> FDP_NR_RUH" and b: "b = wp_blk (wps f ! k)"
    and fin: "frontier f (Some k) k = pgs_per_line (f_sp f)"
  shows "\<exists>lm'. retire_line b f = Some (f\<lparr>f_lm := lm'\<rparr>) \<and>
     free_line_list lm' = free_line_list (f_lm f) \<and> free_line_cnt lm' = free_line_cnt (f_lm f) \<and>
     full_line_cnt lm' = length (full_line_list lm') \<and>
     victim_line_cnt lm' = card (pq_elems (victim_line_pq lm')) \<and>
     (full_line_list lm' = full_line_list (f_lm f) @ [b] \<and> pq_elems (victim_line_pq lm') = victims f \<and>
         (\<forall>p\<in>line_pages (f_sp f) b. pst (f_ssd f) p = PG_VALID) \<or>
      full_line_list lm' = full_line_list (f_lm f) \<and> pq_elems (victim_line_pq lm') = insert b (victims f) \<and>
         (\<exists>p\<in>line_pages (f_sp f) b. pst (f_ssd f) p = PG_INVALID)) \<and>
     length (lm_lines lm') = length (f_lines f) \<and>
     (\<forall>c<length (f_lines f). (lm_lines lm' ! c)\<lparr>ln_pos := 0\<rparr> = (f_lines f ! c)\<lparr>ln_pos := 0\<rparr> \<and>
         (ln_pos (lm_lines lm' ! c) = 0 \<longleftrightarrow> c \<notin> pq_elems (victim_line_pq lm'))) \<and>
     vq_wired (victim_line_pq lm') \<and>
     pq_inv (\<lambda>ls a. a < length ls) (victim_line_pq lm') (lm_lines lm') \<and>
     length (pq_d (victim_line_pq lm')) = blks_per_pl (f_sp f) + 1"
proof -
  let ?sp = "f_sp f" and ?lm = "f_lm f" and ?q = "victim_line_pq (f_lm f)" and ?L = "line_pages (f_sp f) b"
  note g = phys_invD(2) [OF inv]
  have bb: "b < blks_per_pl ?sp" using wp_facts(3) [OF inv k] b by simp
  have ll: "length (f_lines f) = blks_per_pl ?sp" by (rule phys_invD(11) [OF inv])
  have bo: "b \<in> set (opens f)" using wp_facts(4) [OF inv k] b by simp
  note bx = open_line_excl [OF inv bo]
  note fl = line_pages_card [OF g bb]
  have nofree: "pst (f_ssd f) p \<noteq> PG_FREE" if "p \<in> ?L" for p
    using wp_facts(5) [OF inv k, of p] that b fin wpi_less [OF g, of p] by (auto simp: line_pages_def)
  have "{p \<in> ?L. pst (f_ssd f) p = PG_FREE} = {}" using nofree by auto
  then have c0: "cnt (pst (f_ssd f)) ?L PG_FREE = 0" unfolding cnt_def by (simp only: card.empty)
  have sum: "cnt (pst (f_ssd f)) ?L PG_INVALID + cnt (pst (f_ssd f)) ?L PG_VALID = pgs_per_line ?sp"
    using cnt_sum [OF fl(2), of "pst (f_ssd f)"] fl(1) c0 by simp
  have pos: "ln_pos (f_lines f ! c) = 0 \<longleftrightarrow> c \<notin> victims f" if "c < length (f_lines f)" for c
    using phys_invD(7) [OF inv] that ll by (simp add: line_inv_def)
  have cts: "full_line_cnt ?lm = length (full_line_list ?lm)" "victim_line_cnt ?lm = card (victims f)"
    using phys_invD(5) [OF inv] by (auto simp: part_inv_def)
  have w: "vq_wired ?q" and qi: "pq_inv (\<lambda>ls a. a < length ls) ?q (f_lines f)"
    and ql: "length (pq_d ?q) = blks_per_pl ?sp + 1"
    using phys_invD(8) [OF inv] by (auto simp: pq_ok_def)
  have sub: "set (full_line_list ?lm) \<subseteq> {..<blks_per_pl ?sp} - {b}" "victims f \<subseteq> {..<blks_per_pl ?sp} - {b}"
    using lines_bounded [OF inv] bx by auto
  have B: "blks_per_pl ?sp \<le> 65536" by (rule geo_le(3) [OF g])
  have cardv: "card (victims f) < blks_per_pl ?sp"
    using card_mono [OF _ sub(2)] bb by simp
  have "distinct (full_line_list ?lm)" using phys_invD(5) [OF inv] by (auto simp: part_inv_def)
  then have lenf: "length (full_line_list ?lm) < blks_per_pl ?sp"
    using card_mono [OF _ sub(1)] bb distinct_card [of "full_line_list ?lm"] by simp
  note cs = line_vpc [OF inv bb bx(1)]
  show ?thesis
  proof (cases "cnt (pst (f_ssd f)) ?L PG_VALID = pgs_per_line ?sp")
    case True
    then have ipc: "ln_ipc (f_lines f ! b) = 0" using sum cs(2) by simp
    have all: "\<forall>p\<in>?L. pst (f_ssd f) p = PG_VALID" using cnt_all [OF fl(2)] True fl(1) by metis
    let ?lm' = "?lm\<lparr>full_line_list := full_line_list ?lm @ [b], full_line_cnt := full_line_cnt ?lm + 1\<rparr>"
    have "retire_line b f = Some (f\<lparr>f_lm := ?lm'\<rparr>)"
      using True ipc cs(1) bb ll lenf cts B by (simp add: retire_line_def klist_defs u32_id Let_def)
    then show ?thesis
      using all pos w qi ql cts by (intro exI [of _ ?lm']) (auto simp: victims_def)
  next
    case False
    then have lt: "cnt (pst (f_ssd f)) ?L PG_VALID < pgs_per_line ?sp" using sum by simp
    then have "0 < cnt (pst (f_ssd f)) ?L PG_INVALID" using sum by simp
    then have inval: "\<exists>p\<in>?L. pst (f_ssd f) p = PG_INVALID"
      unfolding cnt_def by (auto simp: card_gt_0_iff)
    have "pq_size ?q - 1 < blks_per_pl ?sp"
      using vq.card_pq_elems(1) [OF w qi] cardv by (simp add: victims_def)
    then have room: "pq_size ?q < length (pq_d ?q)" using ql qi by (simp add: pq_inv_def)
    from vq.pqueue_insert_correct [OF w qi, of b] room bb ll bx(2)
    obtain q' ls' where ins: "pqueue_insert ?q b (f_lines f) = Some (q', ls')"
      and u: "vq.pq_upd (insert b (pq_elems ?q)) (?q\<lparr>pq_size := pq_size ?q + 1\<rparr>) (f_lines f) q' ls'"
      by (auto simp: victims_def)
    from u have el: "pq_elems q' = insert b (victims f)" and w': "vq_wired q'"
      and qi': "pq_inv (\<lambda>ls a. a < length ls) q' ls'" and ql': "length (pq_d q') = length (pq_d ?q)"
      and fr: "store_frame victim_line_get_pri victim_line_get_pos (\<lambda>ls a. a < length ls) line_rest
         (insert b (pq_elems ?q)) (f_lines f) ls'"
      by (auto simp: vq.pq_upd_def victims_def)
    have rest: "line_rest ls' = line_rest (f_lines f)" using fr by (simp add: store_frame_def)
    then have len': "length ls' = length (f_lines f)" unfolding line_rest_def by (metis length_map)
    have eqs: "(ls' ! c)\<lparr>ln_pos := 0\<rparr> = (f_lines f ! c)\<lparr>ln_pos := 0\<rparr>" if "c < length (f_lines f)" for c
      using arg_cong [OF rest, of "\<lambda>xs. xs ! c"] that len' by (simp add: line_rest_def)
    have pos': "ln_pos (ls' ! c) = 0 \<longleftrightarrow> c \<notin> pq_elems q'" if "c < length (f_lines f)" for c
    proof (cases "c \<in> pq_elems q'")
      case True
      then show ?thesis using vq.pq_elemE(1) [OF w' qi' True] by (simp add: victim_line_get_pos_def)
    next
      case False
      then have "ln_pos (ls' ! c) = ln_pos (f_lines f ! c)"
        using fr el by (simp add: store_frame_def victims_def victim_line_get_pos_def)
      then show ?thesis using False pos [OF that] el by simp
    qed
    let ?lm' = "?lm\<lparr>victim_line_pq := q', lm_lines := ls', victim_line_cnt := victim_line_cnt ?lm + 1\<rparr>"
    have "0 < ln_ipc (f_lines f ! b)" using cs(2) \<open>0 < cnt (pst (f_ssd f)) ?L PG_INVALID\<close> by simp
    then have "retire_line b f = Some (f\<lparr>f_lm := ?lm'\<rparr>)"
      using lt cs(1) bb ll ins cardv cts B by (simp add: retire_line_def u32_id Let_def)
    moreover have "card (insert b (victims f)) = card (victims f) + 1"
      using bx(2) sub(2) finite_subset by (subst card_insert_disjoint) auto
    ultimately show ?thesis
      using inval el eqs pos' w' qi' ql ql' len' cts by (intro exI [of _ ?lm']) auto
  qed
qed

text \<open>What advancing leaves alone.\<close>

definition same_maps :: "fdp_ftl \<Rightarrow> fdp_ftl \<Rightarrow> bool" where
  "same_maps f f' \<longleftrightarrow> f_maptbl f' = f_maptbl f \<and> f_rmap f' = f_rmap f \<and> f_cp f' = f_cp f \<and> f_wfc f' = f_wfc f"

text \<open>How write pointer \<open>k\<close> moves: one step in its line, or to the start of the next free line.\<close>

definition wp_step :: "fdp_ftl \<Rightarrow> nat \<Rightarrow> fdp_ftl \<Rightarrow> bool" where
  "wp_step f k f' \<longleftrightarrow> (\<forall>j. j \<noteq> k \<longrightarrow> wps f' ! j = wps f ! j) \<and>
     (let i = wpi (f_sp f) (wp_page (wps f ! k)); last = (Suc i = pgs_per_line (f_sp f)) in
      wpi (f_sp f) (wp_page (wps f' ! k)) = (if last then 0 else Suc i) \<and>
      wp_blk (wps f' ! k) = (if last then hd (free_line_list (f_lm f)) else wp_blk (wps f ! k)) \<and>
      free_line_list (f_lm f') = (if last then tl (free_line_list (f_lm f)) else free_line_list (f_lm f)))"

lemma get_next_free_line_Cons:
  assumes "free_line_list (f_lm f) = n # rest" "free_line_cnt (f_lm f) = length (n # rest)"
    "length (n # rest) < 4294967296"
  shows "get_next_free_line f = (Some n, f\<lparr>f_lm := (f_lm f)\<lparr>free_line_list := rest, free_line_cnt := length rest\<rparr>\<rparr>)"
  using assms by (simp add: get_next_free_line_def klist_defs u32_sub_id Let_def)

lemma advance_write_pointer_inv:
  assumes inv: "phys_inv f vic (Some k)" and sl: "slot_ok io ruh" and k: "k = wp_slot io ruh"
    and free: "frontier f (Some k) k = pgs_per_line (f_sp f) \<Longrightarrow> free_line_list (f_lm f) \<noteq> []"
  shows "\<exists>f'. advance_write_pointer io ruh f = Some f' \<and> phys_inv f' vic None \<and> f_ssd f' = f_ssd f \<and>
     same_maps f f' \<and> wp_step f k f'"
proof -
  let ?sp = "f_sp f" and ?w = "wps f ! k"
  have kk: "k \<le> FDP_NR_RUH" using wp_slot_le [OF sl] k by simp
  note g = phys_invD(2) [OF inv] and w = wp_facts(1) [OF inv kk]
  have fr: "frontier f (Some k) k = Suc (wpi ?sp (wp_page ?w))" by (simp add: frontier_def)
  show ?thesis
  proof (cases "next_wp ?sp ?w")
    case (Some w')
    have "wpi ?sp (wp_page w') < pgs_per_line ?sp"
      using next_wp_Some(1) [OF g w Some] wpi_less [OF g] by (simp add: wp_ok_def)
    then have ne: "frontier f (Some k) k \<noteq> pgs_per_line ?sp" using next_wp_Some(3) [OF g w Some] fr by simp
    have "advance_write_pointer io ruh f = Some (put_wp f io ruh w')"
      using advance_inside [OF inv sl] Some k by simp
    moreover have "wps (put_wp f io ruh w') = (wps f)[k := w']"
      using wps_put_wp(1) [OF phys_invD(9) [OF inv] sl] k by simp
    then have "wp_step f k (put_wp f io ruh w')"
      using ne fr next_wp_Some(2,3) [OF g w Some] kk phys_invD(10) [OF inv] by (simp add: wp_step_def)
    ultimately show ?thesis using phys_inv_put_wp [OF inv sl k Some] by (auto simp: same_maps_def)
  next
    case None
    have fin: "frontier f (Some k) k = pgs_per_line ?sp" using next_wp_None [OF g w None] fr by simp
    obtain n rest where fl: "free_line_list (f_lm f) = n # rest" using free [OF fin] by (cases "free_line_list (f_lm f)") auto
    define b where "b = wp_blk ?w"
    obtain lm1 where ret: "retire_line b f = Some (f\<lparr>f_lm := lm1\<rparr>)"
      and l1: "free_line_list lm1 = free_line_list (f_lm f)" "free_line_cnt lm1 = free_line_cnt (f_lm f)"
        "full_line_cnt lm1 = length (full_line_list lm1)"
        "victim_line_cnt lm1 = card (pq_elems (victim_line_pq lm1))"
      and kind: "full_line_list lm1 = full_line_list (f_lm f) @ [b] \<and> pq_elems (victim_line_pq lm1) = victims f \<and>
         (\<forall>p\<in>line_pages ?sp b. pst (f_ssd f) p = PG_VALID) \<or>
        full_line_list lm1 = full_line_list (f_lm f) \<and> pq_elems (victim_line_pq lm1) = insert b (victims f) \<and>
         (\<exists>p\<in>line_pages ?sp b. pst (f_ssd f) p = PG_INVALID)"
      and len1: "length (lm_lines lm1) = length (f_lines f)"
      and ln1: "\<And>c. c < length (f_lines f) \<Longrightarrow> (lm_lines lm1 ! c)\<lparr>ln_pos := 0\<rparr> = (f_lines f ! c)\<lparr>ln_pos := 0\<rparr> \<and>
         (ln_pos (lm_lines lm1 ! c) = 0 \<longleftrightarrow> c \<notin> pq_elems (victim_line_pq lm1))"
      and q1: "vq_wired (victim_line_pq lm1)" "pq_inv (\<lambda>ls a. a < length ls) (victim_line_pq lm1) (lm_lines lm1)"
        "length (pq_d (victim_line_pq lm1)) = blks_per_pl ?sp + 1"
      using retire_line_spec [OF inv kk b_def fin] by blast
    have ll: "length (f_lines f) = blks_per_pl ?sp" by (rule phys_invD(11) [OF inv])
    have nb: "n < blks_per_pl ?sp" using lines_bounded [OF inv, of n] fl by simp
    have fc: "free_line_cnt (f_lm f) = length (n # rest)" using phys_invD(5) [OF inv] fl by (simp add: part_inv_def)
    have "length (n # rest) \<le> blks_per_pl ?sp"
    proof -
      have "distinct (n # rest)" using phys_invD(5) [OF inv] fl by (simp add: part_inv_def)
      moreover have "set (n # rest) \<subseteq> {..<blks_per_pl ?sp}" using lines_bounded [OF inv] fl by auto
      ultimately show ?thesis by (rule distinct_bounded_length)
    qed
    then have small: "length (n # rest) < 4294967296" using geo_le(3) [OF g] by simp
    let ?ln = "(lm_lines lm1 ! n)\<lparr>ln_ruh := (case io of USER_IO \<Rightarrow> int ruh | GC_IO \<Rightarrow> -1)\<rparr>"
    let ?lm2 = "lm1\<lparr>free_line_list := rest, free_line_cnt := length rest, lm_lines := (lm_lines lm1)[n := ?ln]\<rparr>"
    let ?nw = "\<lparr>wp_curline = Some n, wp_ch = 0, wp_lun = 0, wp_pg = 0, wp_blk = n, wp_pl = 0\<rparr>"
    let ?f' = "put_wp (f\<lparr>f_lm := ?lm2\<rparr>) io ruh ?nw"
    have ids: "ln_id (lm_lines lm1 ! c) = ln_id (f_lines f ! c)" "ln_vpc (lm_lines lm1 ! c) = ln_vpc (f_lines f ! c)"
      "ln_ipc (lm_lines lm1 ! c) = ln_ipc (f_lines f ! c)" "ln_ruh (lm_lines lm1 ! c) = ln_ruh (f_lines f ! c)"
      if "c < length (f_lines f)" for c
      using conjunct1 [OF ln1 [OF that]] by (cases "lm_lines lm1 ! c"; cases "f_lines f ! c"; simp)+
    have idn: "ln_id (lm_lines lm1 ! n) = n"
      using ids(1) nb ll phys_invD(7) [OF inv] by (simp add: line_inv_def)
    have rw: "real_ppa ?sp (wp_page ?w)" "wp_curline ?w = Some b" "wp_pl ?w = 0"
      using w by (auto simp: wp_ok_def b_def)
    have r: "wp_ch ?w < nchs ?sp" "wp_lun ?w < luns_per_ch ?sp" "wp_pg ?w < pgs_per_blk ?sp" "b < blks_per_pl ?sp"
      using real_ppaD [OF rw(1)] by (auto simp: wp_page_def b_def)
    have nn: "(wp_pg ?w + 1) mod pgs_per_oneshotpg ?sp = 0" "wp_ch ?w + 1 = nchs ?sp"
      "wp_lun ?w + 1 = luns_per_ch ?sp" "wp_pg ?w + 1 = pgs_per_blk ?sp"
      using None by (auto simp: next_wp_def Let_def split: if_splits)
    have o: "0 < pgs_per_oneshotpg ?sp" by (rule geo_pos(4) [OF g])
    have pgs: "u32_sub (wp_pg ?w + 1) (pgs_per_oneshotpg ?sp) = wp_pg ?w + 1 - pgs_per_oneshotpg ?sp"
      "u32 (wp_pg ?w + 1 - pgs_per_oneshotpg ?sp + pgs_per_oneshotpg ?sp) = wp_pg ?w + 1"
      using oneshot_last(3) [OF o nn(1)] r(3) geo_le(4) [OF g] by (simp_all add: u32_sub_id u32_id)
    have gn: "get_next_free_line (f\<lparr>f_lm := lm1\<rparr>) = (Some n, f\<lparr>f_lm := lm1\<lparr>free_line_list := rest, free_line_cnt := length rest\<rparr>\<rparr>)"
      using get_next_free_line_Cons [of "f\<lparr>f_lm := lm1\<rparr>" n rest] l1 fl fc small by simp
    have wpe: "?w\<lparr>wp_curline := Some n, wp_blk := n, wp_pg := 0, wp_ch := 0, wp_lun := 0\<rparr> = ?nw"
      using rw(3) by (cases ?w) simp
    have adv: "advance_write_pointer io ruh f = Some ?f'"
      using nn r o pgs rw(2,3) ret gn nb ll len1 idn
      unfolding advance_write_pointer_def get_wp_eq [OF phys_invD(9) [OF inv] sl] k [symmetric]
      by (simp add: Let_def b_def set_line_ruh_def wpe)
    have wps': "wps ?f' = (wps f)[k := ?nw]" "length (f_wp_ruh ?f') = FDP_NR_RUH"
      using wps_put_wp [of "f\<lparr>f_lm := ?lm2\<rparr>" io ruh ?nw] phys_invD(9) [OF inv] sl k by (simp_all add: wps_def)
    have v': "victims ?f' = pq_elems (victim_line_pq lm1)" by (simp add: victims_def)
    have "n \<notin> victims f" "n \<noteq> b"
      using free_line_excl [OF inv, of n] fl wp_facts(4) [OF inv kk] b_def by auto
    then have nv: "n \<notin> pq_elems (victim_line_pq lm1)" using kind by auto
    have "pq_ok (f\<lparr>f_lm := lm1\<rparr>)" using q1 by (simp add: pq_ok_def)
    then have pq: "pq_ok ?f'"
    proof (rule pq_ok_cong)
      fix c assume "c \<in> victims (f\<lparr>f_lm := lm1\<rparr>)"
      then have "c \<noteq> n" using nv by (auto simp: victims_def)
      then show "ln_vpc (f_lines ?f' ! c) = ln_vpc (f_lines (f\<lparr>f_lm := lm1\<rparr>) ! c) \<and>
          ln_pos (f_lines ?f' ! c) = ln_pos (f_lines (f\<lparr>f_lm := lm1\<rparr>) ! c)" by simp
    qed simp_all
    have ruhk: "(case io of USER_IO \<Rightarrow> int ruh | GC_IO \<Rightarrow> -1) = (if k < FDP_NR_RUH then int k else -1)"
      using sl k by (cases io) (auto simp: wp_slot_def slot_ok_def)
    have "phys_inv ?f' vic None"
      by (rule next_line_inv [OF inv kk b_def fin fl, of ?f'])
        (use wps' l1 kind v' ids ln1 len1 pq ruhk nb ll in \<open>auto simp: nth_list_update\<close>)
    moreover have "wp_step f k ?f'"
      using fin fr fl wps'(1) kk phys_invD(10) [OF inv] by (simp add: wp_step_def wpi_def wp_page_def)
    ultimately show ?thesis using adv by (auto simp: same_maps_def)
  qed
qed

end
