(* ===== verification/Fdp_Write.thy ===== *)
theory Fdp_Write
  imports Fdp_Advance
begin

text \<open>
  Invalidating a page and the host write of one page: both keep the invariant. A host write
  puts the logical page on a page that was free, in a line of the handle it was placed with,
  frees the page it was on before, and leaves every other logical page where it was.
\<close>

section \<open>Marking a page invalid\<close>

lemma mark_page_invalid_prefix:
  assumes inv: "phys_inv f vic pend" and p: "real_ppa (f_sp f) p" and st: "pst (f_ssd f) p = PG_VALID"
    and nv: "g_blk p \<notin> vic"
  shows "mark_page_invalid p f =
    (let b = g_blk p; ln = f_lines f ! b; lm = f_lm f; s2 = page_upd (f_ssd f) p PG_INVALID 1 (-1);
         ln1 = ln\<lparr>ln_ipc := ln_ipc ln + 1\<rparr>; ls1 = (f_lines f)[b := ln1] in do {
     NVMEV_ASSERT (ln_vpc ln = int (pgs_per_line (f_sp f)) \<longrightarrow> ln_ipc ln = 0);
     (pq2, ls2) \<leftarrow> (if ln_pos ln \<noteq> 0 then pqueue_change_priority (victim_line_pq lm) (nat (ln_vpc ln - 1)) b ls1
        else Some (victim_line_pq lm, ls1[b := ln1\<lparr>ln_vpc := ln_vpc ln - 1\<rparr>]));
     if ln_vpc ln = int (pgs_per_line (f_sp f)) then do {
       (pq3, ls3) \<leftarrow> pqueue_insert pq2 b ls2;
       Some (f\<lparr>f_ssd := s2, f_lm := lm\<lparr>lm_lines := ls3, victim_line_pq := pq3,
          full_line_list := list_del_init b (full_line_list lm),
          full_line_cnt := u32_sub (full_line_cnt lm) 1,
          victim_line_cnt := u32 (victim_line_cnt lm + 1)\<rparr>\<rparr>)
     } else Some (f\<lparr>f_ssd := s2, f_lm := lm\<lparr>lm_lines := ls2, victim_line_pq := pq2\<rparr>\<rparr>)
   })"
proof -
  let ?s = "f_ssd f" and ?sp = "f_sp f"
  note ok = phys_invD(1) [OF inv] and g = phys_invD(2) [OF inv] and v = real_ppaD [OF p]
  let ?b = "blk_at ?s (g_ch p) (g_lun p) (g_blk p)"
  have st': "pg_status (blk_pg ?b ! g_pg p) = PG_VALID" using st by (simp add: pst_def)
  have bi: "0 \<le> blk_ipc ?b" "blk_ipc ?b < int (pgs_per_blk ?sp)"
    using cnt_room(1) [OF g p, of "pst ?s" PG_INVALID] st blk_vpc_eq(2) [OF inv p] by auto
  have bv: "0 < blk_vpc ?b" "blk_vpc ?b \<le> int (pgs_per_blk ?sp)"
    using cnt_some(1,2) [OF g p, of "pst ?s" PG_VALID] st blk_vpc_eq(1) [OF inv p] by auto
  have li: "0 \<le> ln_ipc (f_lines f ! g_blk p)" "ln_ipc (f_lines f ! g_blk p) < int (pgs_per_line ?sp)"
    using cnt_room(2) [OF g p, of "pst ?s" PG_INVALID] st line_vpc(2) [OF inv v(3) nv] by auto
  have lv: "0 < ln_vpc (f_lines f ! g_blk p)" "ln_vpc (f_lines f ! g_blk p) \<le> int (pgs_per_line ?sp)"
    using cnt_some(3,4) [OF g p, of "pst ?s" PG_VALID] st line_vpc(1) [OF inv v(3) nv] by auto
  let ?x = "?b\<lparr>blk_pg := (blk_pg ?b)[g_pg p := (blk_pg ?b ! g_pg p)\<lparr>pg_status := PG_INVALID\<rparr>]\<rparr>"
  have "blk_ok ?sp ?x"
    using page_blk_ok [OF ok v(5), where v = PG_INVALID and i = "blk_ipc ?b" and j = "blk_vpc ?b"]
    by (simp add: blk_ok_def)
  then have ok1: "ssd_ok (put_blk ?s p ?x)" by (rule put_blk_ok [OF ok v(5)])
  have "get_blk (put_blk ?s p ?x) p = Some ?x"
    using get_blk_eq [OF ok1, of p] v(5) by (simp add: blk_at_put_blk [OF ok v(5)])
  then show ?thesis
    using bi bv li lv st' v(3) phys_invD(11) [OF inv]
    by (simp add: mark_page_invalid_def get_pg_eq [OF ok v(5)] set_pg_status_eq [OF ok v(5)]
        get_line_def page_upd_def Let_def)
qed

text \<open>A line with all pages valid is on the full list, and only such lines are.\<close>

lemma full_line_iff:
  assumes inv: "phys_inv f vic None" and b: "b < blks_per_pl (f_sp f)" "b \<notin> vic"
  shows "ln_vpc (f_lines f ! b) = int (pgs_per_line (f_sp f)) \<longleftrightarrow> b \<in> set (full_line_list (f_lm f))"
proof -
  let ?L = "line_pages (f_sp f) b"
  note g = phys_invD(2) [OF inv] and fl = line_pages_card [OF phys_invD(2) [OF inv] b(1)]
  have eq: "ln_vpc (f_lines f ! b) = int (pgs_per_line (f_sp f)) \<longleftrightarrow> (\<forall>p\<in>?L. pst (f_ssd f) p = PG_VALID)"
  proof
    assume "ln_vpc (f_lines f ! b) = int (pgs_per_line (f_sp f))"
    then have "cnt (pst (f_ssd f)) ?L PG_VALID = card ?L" using line_vpc(1) [OF inv b] fl(1) by simp
    then show "\<forall>p\<in>?L. pst (f_ssd f) p = PG_VALID" using cnt_all [OF fl(2)] by blast
  next
    assume "\<forall>p\<in>?L. pst (f_ssd f) p = PG_VALID"
    then have "{p \<in> ?L. pst (f_ssd f) p = PG_VALID} = ?L" by auto
    then have "cnt (pst (f_ssd f)) ?L PG_VALID = card ?L" by (simp add: cnt_def)
    then show "ln_vpc (f_lines f ! b) = int (pgs_per_line (f_sp f))" using line_vpc(1) [OF inv b] fl(1) by simp
  qed
  have si: "state_inv f" by (rule phys_invD(6) [OF inv])
  have "\<exists>p. p \<in> ?L" using wpi_surj [OF g b(1) geo_pgs_pos(2) [OF g]] by auto
  then obtain p0 where p0: "p0 \<in> ?L" by blast
  show ?thesis
  proof
    assume "b \<in> set (full_line_list (f_lm f))"
    then show "ln_vpc (f_lines f ! b) = int (pgs_per_line (f_sp f))"
      unfolding eq using si by (simp add: state_inv_def)
  next
    assume "ln_vpc (f_lines f ! b) = int (pgs_per_line (f_sp f))"
    then have all: "\<forall>p\<in>?L. pst (f_ssd f) p = PG_VALID" unfolding eq .
    have "b \<notin> set (free_line_list (f_lm f))" using all si p0 by (fastforce simp: state_inv_def)
    moreover have "b \<notin> victims f" using all si by (fastforce simp: state_inv_def)
    moreover have "b \<notin> set (opens f)"
    proof
      assume "b \<in> set (opens f)"
      then obtain k where k: "k \<le> FDP_NR_RUH" "b = wp_blk (wps f ! k)"
        using phys_invD(10) [OF inv] by (auto simp: opens_def in_set_conv_nth less_Suc_eq_le)
      have "wp_page (wps f ! k) \<in> ?L"
        using page_in_line [OF wp_facts(2) [OF inv k(1)]] k(2) by (simp add: wp_page_def)
      moreover from this have "pst (f_ssd f) (wp_page (wps f ! k)) = PG_FREE"
        using wp_facts(5) [OF inv k(1)] k(2) by (simp add: frontier_def)
      ultimately show False using all by auto
    qed
    ultimately show "b \<in> set (full_line_list (f_lm f))" using lines_bounded [OF inv, of b] b by auto
  qed
qed

lemma line_rest_nth:
  assumes "line_rest ls' = line_rest ls"
  shows "length ls' = length ls" "c < length ls \<Longrightarrow> (ls' ! c)\<lparr>ln_pos := 0\<rparr> = (ls ! c)\<lparr>ln_pos := 0\<rparr>"
proof -
  show len: "length ls' = length ls" using assms unfolding line_rest_def by (metis length_map)
  show "c < length ls \<Longrightarrow> (ls' ! c)\<lparr>ln_pos := 0\<rparr> = (ls ! c)\<lparr>ln_pos := 0\<rparr>"
    using arg_cong [OF assms, of "\<lambda>xs. xs ! c"] len by (simp add: line_rest_def)
qed

lemma ln_pos_eqD:
  assumes "(l' :: fdp_line)\<lparr>ln_pos := 0\<rparr> = l\<lparr>ln_pos := 0\<rparr>"
  shows "ln_id l' = ln_id l" "ln_vpc l' = ln_vpc l" "ln_ipc l' = ln_ipc l" "ln_ruh l' = ln_ruh l"
  using assms by (cases l'; cases l; simp)+

text \<open>After a queue operation exactly the queued lines have a position.\<close>

lemma queue_positions:
  assumes w: "vq_wired q'" and i: "pq_inv (\<lambda>ls a. a < length ls) q' ls'"
    and fr: "store_frame victim_line_get_pri victim_line_get_pos (\<lambda>ls a. a < length ls) line_rest E ls ls'"
    and E: "E = pq_elems q'" and old: "\<And>c. c < length ls \<Longrightarrow> c \<notin> E \<Longrightarrow> ln_pos (ls ! c) = 0"
    and c: "c < length ls"
  shows "ln_pos (ls' ! c) = 0 \<longleftrightarrow> c \<notin> pq_elems q'"
proof (cases "c \<in> pq_elems q'")
  case True
  then show ?thesis using vq.pq_elemE(1) [OF w i True] by (simp add: victim_line_get_pos_def)
next
  case False
  then have "ln_pos (ls' ! c) = ln_pos (ls ! c)"
    using fr E by (simp add: store_frame_def victim_line_get_pos_def)
  then show ?thesis using False old [OF c] E by simp
qed

text \<open>The state after an invalidation, described by its parts.\<close>

lemma invalidate_inv:
  assumes inv: "phys_inv f vic None" and p: "real_ppa (f_sp f) p" and st: "pst (f_ssd f) p = PG_VALID"
    and nv: "g_blk p \<notin> vic"
    and f': "f' = f\<lparr>f_ssd := page_upd (f_ssd f) p PG_INVALID 1 (-1), f_lm := lm'\<rparr>"
    and lists: "free_line_list lm' = free_line_list (f_lm f)" "free_line_cnt lm' = free_line_cnt (f_lm f)"
      "full_line_cnt lm' = length (full_line_list lm')" "victim_line_cnt lm' = card (pq_elems (victim_line_pq lm'))"
    and kind: "g_blk p \<notin> set (full_line_list (f_lm f)) \<and> full_line_list lm' = full_line_list (f_lm f) \<and>
        pq_elems (victim_line_pq lm') = victims f \<or>
      g_blk p \<in> set (full_line_list (f_lm f)) \<and> full_line_list lm' = remove1 (g_blk p) (full_line_list (f_lm f)) \<and>
        pq_elems (victim_line_pq lm') = insert (g_blk p) (victims f)"
    and lines: "length (lm_lines lm') = length (f_lines f)"
      "\<And>c. c < length (f_lines f) \<Longrightarrow> ln_id (lm_lines lm' ! c) = ln_id (f_lines f ! c) \<and>
        ln_ruh (lm_lines lm' ! c) = ln_ruh (f_lines f ! c) \<and>
        (c \<noteq> g_blk p \<longrightarrow> ln_vpc (lm_lines lm' ! c) = ln_vpc (f_lines f ! c) \<and>
                      ln_ipc (lm_lines lm' ! c) = ln_ipc (f_lines f ! c))"
      "\<And>c. c < length (f_lines f) \<Longrightarrow> ln_pos (lm_lines lm' ! c) = 0 \<longleftrightarrow> c \<notin> pq_elems (victim_line_pq lm')"
      "ln_vpc (lm_lines lm' ! g_blk p) = ln_vpc (f_lines f ! g_blk p) - 1"
      "ln_ipc (lm_lines lm' ! g_blk p) = ln_ipc (f_lines f ! g_blk p) + 1"
    and pq: "pq_ok f'"
  shows "phys_inv f' vic None"
proof -
  let ?s = "f_ssd f" and ?sp = "f_sp f" and ?b = "g_blk p"
  let ?s' = "page_upd ?s p PG_INVALID 1 (-1)"
  note ok = phys_invD(1) [OF inv] and g = phys_invD(2) [OF inv] and rp = real_ppaD [OF p]
  have sp': "f_sp f' = ?sp" "ssd_sp ?s' = ?sp" using page_upd_ok(2) [OF ok rp(5)] by (simp_all add: f')
  have pst': "pst ?s' q = (if q = p then PG_INVALID else pst ?s q)" if "real_ppa ?sp q" for q
    using pst_page_upd [OF ok p that] by simp
  have w': "wps f' = wps f" "opens f' = opens f" "victims f' = pq_elems (victim_line_pq lm')"
    "f_ssd f' = ?s'" "f_lm f' = lm'" "f_wp_ruh f' = f_wp_ruh f"
    by (simp_all add: f' wps_def opens_def victims_def)
  have fr: "frontier f' None j = frontier f None j" for j by (simp add: frontier_def w' sp')
  have free_same: "pst ?s' q = PG_FREE \<longleftrightarrow> pst ?s q = PG_FREE" if "q \<in> line_pages ?sp b" for q b
    using that pst' [of q] st by (auto simp: line_pages_def)
  have oi: "open_inv f' None"
    using phys_invD(4) [OF inv] free_same unfolding open_inv_def w' sp' fr by simp
  have pi: "part_inv f' vic"
  proof -
    have P: "part_inv f vic" by (rule phys_invD(5) [OF inv])
    from kind show ?thesis
    proof (elim disjE conjE)
      assume e: "full_line_list lm' = full_line_list (f_lm f)" "pq_elems (victim_line_pq lm') = victims f"
      show ?thesis using P lists unfolding part_inv_def w' sp' e by simp
    next
      assume e: "?b \<in> set (full_line_list (f_lm f))" "full_line_list lm' = remove1 ?b (full_line_list (f_lm f))"
        "pq_elems (victim_line_pq lm') = insert ?b (victims f)"
      have d: "distinct (full_line_list (f_lm f))" using P by (auto simp: part_inv_def)
      note bx = full_line_excl [OF inv e(1)]
      show ?thesis
        using P lists bx e(1) d unfolding part_inv_def w' sp' e(2,3) by auto
    qed
  qed
  have si: "state_inv f'"
  proof -
    have S: "state_inv f" by (rule phys_invD(6) [OF inv])
    have same: "pst ?s' q = pst ?s q" if "q \<in> line_pages ?sp c" "c \<noteq> ?b" for q c
      using that pst' [of q] by (auto simp: line_pages_def)
    have nf: "?b \<notin> set (free_line_list (f_lm f))"
      using S st page_in_line [OF p] by (fastforce simp: state_inv_def)
    have pin: "p \<in> line_pages ?sp ?b" "pst ?s' p = PG_INVALID" using page_in_line [OF p] pst' [OF p] by auto
    have 1: "pst ?s' q = PG_FREE" if "c \<in> set (free_line_list (f_lm f))" "q \<in> line_pages ?sp c" for c q
      using S that free_same by (auto simp: state_inv_def)
    have 2: "pst ?s' q = PG_VALID" if "c \<in> set (full_line_list lm')" "q \<in> line_pages ?sp c" for c q
    proof -
      have "distinct (full_line_list (f_lm f))" using phys_invD(5) [OF inv] by (auto simp: part_inv_def)
      then have "c \<in> set (full_line_list (f_lm f))" "c \<noteq> ?b" using that(1) kind by auto
      then show ?thesis using S same [OF that(2)] that(2) by (auto simp: state_inv_def)
    qed
    have 3: "(\<forall>q\<in>line_pages ?sp c. pst ?s' q \<noteq> PG_FREE) \<and> (\<exists>q\<in>line_pages ?sp c. pst ?s' q = PG_INVALID)"
      if c: "c \<in> pq_elems (victim_line_pq lm')" for c
    proof (cases "c = ?b")
      case True
      have "pst ?s q \<noteq> PG_FREE" if "q \<in> line_pages ?sp c" for q
        using kind c True S that by (fastforce simp: state_inv_def)
      then show ?thesis using True pin free_same by blast
    next
      case False
      then have "c \<in> victims f" using c kind by auto
      then show ?thesis using S same False by (fastforce simp: state_inv_def)
    qed
    show ?thesis using 1 2 3 by (simp add: state_inv_def w' sp' lists)
  qed
  have li: "line_inv f' vic"
    by (rule line_inv_page_upd [OF inv p nv f']) (use lines st in auto)
  have "blk_counts ?s'" by (rule page_upd_counts [OF ok p phys_invD(3) [OF inv]]) (use st in auto)
  then show ?thesis
    using oi pi si li pq page_upd_ok(1) [OF ok rp(5)] by (simp add: phys_inv_def w')
qed

lemma mark_page_invalid_inv:
  assumes inv: "phys_inv f vic None" and p: "real_ppa (f_sp f) p" and st: "pst (f_ssd f) p = PG_VALID"
    and nv: "g_blk p \<notin> vic"
  shows "\<exists>lm'. mark_page_invalid p f = Some (f\<lparr>f_ssd := page_upd (f_ssd f) p PG_INVALID 1 (-1), f_lm := lm'\<rparr>) \<and>
     phys_inv (f\<lparr>f_ssd := page_upd (f_ssd f) p PG_INVALID 1 (-1), f_lm := lm'\<rparr>) vic None \<and>
     free_line_list lm' = free_line_list (f_lm f)"
proof -
  let ?b = "g_blk p" and ?lm = "f_lm f" and ?q = "victim_line_pq (f_lm f)" and ?sp = "f_sp f"
  let ?ln = "f_lines f ! ?b" and ?s2 = "page_upd (f_ssd f) p PG_INVALID 1 (-1)"
  let ?ls1 = "(f_lines f)[?b := ?ln\<lparr>ln_ipc := ln_ipc ?ln + 1\<rparr>]"
  note g = phys_invD(2) [OF inv] and rp = real_ppaD [OF p] and ll = phys_invD(11) [OF inv]
  note bb = rp(3) and mp = mark_page_invalid_prefix [OF inv p st nv, unfolded Let_def]
  have bl: "?b < length (f_lines f)" using bb ll by simp
  have sp': "ssd_sp ?s2 = ?sp" by (rule page_upd_ok(2) [OF phys_invD(1) [OF inv] rp(5)])
  have pos: "ln_pos (f_lines f ! c) = 0 \<longleftrightarrow> c \<notin> victims f" if "c < length (f_lines f)" for c
    using phys_invD(7) [OF inv] that ll by (simp add: line_inv_def)
  have P: "part_inv f vic" by (rule phys_invD(5) [OF inv])
  have cts: "full_line_cnt ?lm = length (full_line_list ?lm)" "victim_line_cnt ?lm = card (victims f)"
    using P by (auto simp: part_inv_def)
  have w: "vq_wired ?q" and qi: "pq_inv (\<lambda>ls a. a < length ls) ?q (f_lines f)"
    and ql: "length (pq_d ?q) = blks_per_pl ?sp + 1"
    using phys_invD(8) [OF inv] by (auto simp: pq_ok_def)
  have vpc: "0 < ln_vpc ?ln" "ln_vpc ?ln \<le> int (pgs_per_line ?sp)"
    using cnt_some(3,4) [OF g p, of "pst (f_ssd f)" PG_VALID] st line_vpc(1) [OF inv bb nv] by auto
  have qi1: "pq_inv (\<lambda>ls a. a < length ls) ?q ?ls1"
    by (rule pq_inv_cong [OF qi])
      (use w bl vq.pq_elemE(4) [OF w qi] in \<open>auto simp: pq_wired_def victim_line_defs nth_list_update\<close>)
  have asrt: "ln_vpc ?ln = int (pgs_per_line ?sp) \<longrightarrow> ln_ipc ?ln = 0"
  proof
    assume "ln_vpc ?ln = int (pgs_per_line ?sp)"
    then have "cnt (pst (f_ssd f)) (line_pages ?sp ?b) PG_VALID = card (line_pages ?sp ?b)"
      using line_vpc(1) [OF inv bb nv] line_pages_card(1) [OF g bb] by simp
    then show "ln_ipc ?ln = 0"
      using cnt_sum [OF line_pages_card(2) [OF g bb], of "pst (f_ssd f)"] line_vpc(2) [OF inv bb nv] by simp
  qed
  note fin = invalidate_inv [OF inv p st nv refl]
  consider (vic) "?b \<in> victims f" | (full) "?b \<in> set (full_line_list ?lm)"
    | (other) "?b \<notin> victims f" "?b \<notin> set (full_line_list ?lm)" by blast
  then show ?thesis
  proof cases
    case vic
    have nfull: "ln_vpc ?ln \<noteq> int (pgs_per_line ?sp)" "?b \<notin> set (full_line_list ?lm)"
      using full_line_iff [OF inv bb nv] victim_line_excl [OF inv vic] by auto
    let ?n = "nat (ln_vpc ?ln - 1)"
    have okp: "?n < 2147483648" using vpc geo_le(7) [OF g] by simp
    from vq.pqueue_change_priority_correct [OF w qi1 _ okp, of ?b] vic
    obtain q' ls' where ch: "pqueue_change_priority ?q ?n ?b ?ls1 = Some (q', ls')"
      and u: "vq.pq_upd (pq_elems ?q) ?q (victim_line_set_pri ?b ?n ?ls1) q' ls'"
      by (auto simp: victims_def)
    let ?ls2 = "victim_line_set_pri ?b ?n ?ls1"
    have "s32 (ln_vpc ?ln - 1) = ln_vpc ?ln - 1" using vpc geo_le(7) [OF g] by (simp add: s32_id)
    then have ls2: "?ls2 = (f_lines f)[?b := ?ln\<lparr>ln_ipc := ln_ipc ?ln + 1, ln_vpc := ln_vpc ?ln - 1\<rparr>]"
      using bl vpc by (simp add: victim_line_set_pri_def)
    from u have el: "pq_elems q' = victims f" and w': "vq_wired q'"
      and qi': "pq_inv (\<lambda>ls a. a < length ls) q' ls'" and ql': "length (pq_d q') = length (pq_d ?q)"
      and fr: "store_frame victim_line_get_pri victim_line_get_pos (\<lambda>ls a. a < length ls) line_rest
         (pq_elems ?q) ?ls2 ls'"
      by (auto simp: vq.pq_upd_def victims_def)
    note rest = line_rest_nth [of ls' ?ls2]
    have rest': "line_rest ls' = line_rest ?ls2" using fr by (simp add: store_frame_def)
    have len': "length ls' = length (f_lines f)" using rest(1) [OF rest'] ls2 by simp
    have eqs: "ln_id (ls' ! c) = ln_id (?ls2 ! c)" "ln_vpc (ls' ! c) = ln_vpc (?ls2 ! c)"
      "ln_ipc (ls' ! c) = ln_ipc (?ls2 ! c)" "ln_ruh (ls' ! c) = ln_ruh (?ls2 ! c)" if "c < length (f_lines f)" for c
      using ln_pos_eqD [OF rest(2) [OF rest', of c]] that ls2 by auto
    have pos': "ln_pos (ls' ! c) = 0 \<longleftrightarrow> c \<notin> pq_elems q'" if "c < length (f_lines f)" for c
      by (rule queue_positions [OF w' qi' fr]) (use el pos that ls2 bl in \<open>auto simp: victims_def nth_list_update\<close>)
    let ?lm' = "?lm\<lparr>lm_lines := ls', victim_line_pq := q'\<rparr>"
    have "pq_ok (f\<lparr>f_ssd := ?s2, f_lm := ?lm'\<rparr>)" using w' qi' ql ql' sp' by (simp add: pq_ok_def)
    then have "phys_inv (f\<lparr>f_ssd := ?s2, f_lm := ?lm'\<rparr>) vic None"
      by (intro fin) (use el nfull cts len' eqs pos' ls2 bl in \<open>auto simp: nth_list_update\<close>)
    moreover have "mark_page_invalid p f = Some (f\<lparr>f_ssd := ?s2, f_lm := ?lm'\<rparr>)"
      unfolding mp using vic pos [OF bl] ch nfull asrt by simp
    ultimately show ?thesis by (intro exI [of _ ?lm']) auto
  next
    case full
    note bx = full_line_excl [OF inv full]
    have fv: "ln_vpc ?ln = int (pgs_per_line ?sp)" using full_line_iff [OF inv bb nv] full by simp
    have pos0: "ln_pos ?ln = 0" using pos [OF bl] bx(2) by simp
    let ?ls2 = "(f_lines f)[?b := ?ln\<lparr>ln_ipc := ln_ipc ?ln + 1, ln_vpc := ln_vpc ?ln - 1\<rparr>]"
    have qi2: "pq_inv (\<lambda>ls a. a < length ls) ?q ?ls2"
      by (rule pq_inv_cong [OF qi])
        (use w bl bx(2) vq.pq_elemE(4) [OF w qi] in \<open>auto simp: pq_wired_def victim_line_defs nth_list_update victims_def\<close>)
    have sub: "victims f \<subseteq> {..<blks_per_pl ?sp} - {?b}" using lines_bounded [OF inv] bx by auto
    have cardv: "card (victims f) < blks_per_pl ?sp" using card_mono [OF _ sub] bb by simp
    have "pq_size ?q - 1 < blks_per_pl ?sp"
      using vq.card_pq_elems(1) [OF w qi] cardv by (simp add: victims_def)
    then have room: "pq_size ?q < length (pq_d ?q)" using ql qi by (simp add: pq_inv_def)
    from vq.pqueue_insert_correct [OF w qi2, of ?b] room bl bx(2)
    obtain q' ls' where ins: "pqueue_insert ?q ?b ?ls2 = Some (q', ls')"
      and u: "vq.pq_upd (insert ?b (pq_elems ?q)) (?q\<lparr>pq_size := pq_size ?q + 1\<rparr>) ?ls2 q' ls'"
      by (auto simp: victims_def)
    from u have el: "pq_elems q' = insert ?b (victims f)" and w': "vq_wired q'"
      and qi': "pq_inv (\<lambda>ls a. a < length ls) q' ls'" and ql': "length (pq_d q') = length (pq_d ?q)"
      and fr: "store_frame victim_line_get_pri victim_line_get_pos (\<lambda>ls a. a < length ls) line_rest
         (insert ?b (pq_elems ?q)) ?ls2 ls'"
      by (auto simp: vq.pq_upd_def victims_def)
    note rest = line_rest_nth [of ls' ?ls2]
    have rest': "line_rest ls' = line_rest ?ls2" using fr by (simp add: store_frame_def)
    have len': "length ls' = length (f_lines f)" using rest(1) [OF rest'] by simp
    have eqs: "ln_id (ls' ! c) = ln_id (?ls2 ! c)" "ln_vpc (ls' ! c) = ln_vpc (?ls2 ! c)"
      "ln_ipc (ls' ! c) = ln_ipc (?ls2 ! c)" "ln_ruh (ls' ! c) = ln_ruh (?ls2 ! c)" if "c < length (f_lines f)" for c
      using ln_pos_eqD [OF rest(2) [OF rest', of c]] that by auto
    have pos': "ln_pos (ls' ! c) = 0 \<longleftrightarrow> c \<notin> pq_elems q'" if "c < length (f_lines f)" for c
      by (rule queue_positions [OF w' qi' fr]) (use el pos that bl in \<open>auto simp: victims_def nth_list_update\<close>)
    let ?fl = "remove1 ?b (full_line_list ?lm)"
    let ?lm' = "?lm\<lparr>lm_lines := ls', victim_line_pq := q', full_line_list := ?fl,
      full_line_cnt := length ?fl, victim_line_cnt := card (victims f) + 1\<rparr>"
    have "finite (victims f)" using sub finite_subset by auto
    then have cd: "card (insert ?b (victims f)) = card (victims f) + 1" using bx(2) by simp
    have lf: "0 < length (full_line_list ?lm)" using full by (cases "full_line_list ?lm") auto
    have "distinct (full_line_list ?lm)" "set (full_line_list ?lm) \<subseteq> {..<blks_per_pl ?sp}"
      using P lines_bounded [OF inv] by (auto simp: part_inv_def)
    then have "length (full_line_list ?lm) \<le> blks_per_pl ?sp"
      by (rule distinct_bounded_length)
    then have arith: "u32_sub (full_line_cnt ?lm) 1 = length ?fl" "u32 (victim_line_cnt ?lm + 1) = card (victims f) + 1"
      using cts lf geo_le(3) [OF g] cardv full u32_sub_id [of 1 "full_line_cnt ?lm"]
      by (simp_all add: u32_id length_remove1 Suc_le_eq)
    have "pq_ok (f\<lparr>f_ssd := ?s2, f_lm := ?lm'\<rparr>)" using w' qi' ql ql' sp' by (simp add: pq_ok_def)
    then have "phys_inv (f\<lparr>f_ssd := ?s2, f_lm := ?lm'\<rparr>) vic None"
      by (intro fin) (use el full cd len' eqs pos' bl in \<open>auto simp: nth_list_update\<close>)
    moreover have "mark_page_invalid p f = Some (f\<lparr>f_ssd := ?s2, f_lm := ?lm'\<rparr>)"
      unfolding mp using pos0 fv ins asrt arith by (simp add: klist_defs)
    ultimately show ?thesis by (intro exI [of _ ?lm']) auto
  next
    case other
    have nfull: "ln_vpc ?ln \<noteq> int (pgs_per_line ?sp)" using full_line_iff [OF inv bb nv] other by simp
    have pos0: "ln_pos ?ln = 0" using pos [OF bl] other(1) by simp
    let ?ls2 = "(f_lines f)[?b := ?ln\<lparr>ln_ipc := ln_ipc ?ln + 1, ln_vpc := ln_vpc ?ln - 1\<rparr>]"
    let ?lm' = "?lm\<lparr>lm_lines := ?ls2, victim_line_pq := ?q\<rparr>"
    have "pq_ok (f\<lparr>f_ssd := ?s2, f_lm := ?lm'\<rparr>)"
      by (rule pq_ok_cong [OF phys_invD(8) [OF inv]]) (use sp' bl other(1) in \<open>auto simp: nth_list_update\<close>)
    then have "phys_inv (f\<lparr>f_ssd := ?s2, f_lm := ?lm'\<rparr>) vic None"
      by (intro fin) (use other cts bl pos in \<open>auto simp: nth_list_update victims_def\<close>)
    moreover have "mark_page_invalid p f = Some (f\<lparr>f_ssd := ?s2, f_lm := ?lm'\<rparr>)"
      unfolding mp using pos0 nfull asrt by simp
    ultimately show ?thesis by (intro exI [of _ ?lm']) auto
  qed
qed

section \<open>Programming the page at a write pointer\<close>

lemma program_inv:
  assumes inv: "phys_inv f vic None" and sl: "slot_ok io ruh" and p: "p = wp_page (wps f ! wp_slot io ruh)"
    and free: "Suc (wpi (f_sp f) p) = pgs_per_line (f_sp f) \<Longrightarrow> free_line_list (f_lm f) \<noteq> []"
  shows "\<exists>f1 f'. mark_page_valid p f = Some f1 \<and> advance_write_pointer io ruh f1 = Some f' \<and>
     phys_inv f' vic None \<and> f_ssd f' = page_upd (f_ssd f) p PG_VALID 0 1 \<and> same_maps f f' \<and>
     pst (f_ssd f) p = PG_FREE \<and> wp_step f (wp_slot io ruh) f'"
proof -
  let ?k = "wp_slot io ruh" and ?s' = "page_upd (f_ssd f) p PG_VALID 0 1"
  have k: "?k \<le> FDP_NR_RUH" by (rule wp_slot_le [OF sl])
  obtain ls' where m: "mark_page_valid p f = Some (f\<lparr>f_ssd := ?s', f_lm := (f_lm f)\<lparr>lm_lines := ls'\<rparr>\<rparr>)"
    and inv1: "phys_inv (f\<lparr>f_ssd := ?s', f_lm := (f_lm f)\<lparr>lm_lines := ls'\<rparr>\<rparr>) vic (Some ?k)"
    and st: "pst (f_ssd f) p = PG_FREE"
    using mark_page_valid_inv [OF inv k p] by blast
  let ?f1 = "f\<lparr>f_ssd := ?s', f_lm := (f_lm f)\<lparr>lm_lines := ls'\<rparr>\<rparr>"
  have r: "real_ppa (f_sp f) p" using wp_facts(2) [OF inv k] p by simp
  have sp': "f_sp ?f1 = f_sp f" using page_upd_ok(2) [OF phys_invD(1) [OF inv] real_ppaD(5) [OF r]] by simp
  have fr: "frontier ?f1 (Some ?k) ?k = Suc (wpi (f_sp f) p)"
    using sp' p by (simp add: frontier_def wps_def)
  obtain f' where a: "advance_write_pointer io ruh ?f1 = Some f'" "phys_inv f' vic None" "f_ssd f' = f_ssd ?f1"
    "same_maps ?f1 f'" "wp_step ?f1 ?k f'"
    using advance_write_pointer_inv [OF inv1 sl refl] free fr sp' by auto
  have "wp_step f ?k f'" using a(5) sp' by (simp add: wp_step_def wps_def Let_def)
  then show ?thesis using m a st by (intro exI [of _ ?f1] exI [of _ f']) (auto simp: same_maps_def)
qed

section \<open>Moving a logical page\<close>

text \<open>
  The logical invariant after logical page \<open>lpn\<close> has moved to \<open>p\<close>: \<open>p\<close> has become live, the
  page it was on before (if any) is no longer live, and no other page changed.
\<close>

definition live_page :: "fdp_ftl \<Rightarrow> ppa set \<Rightarrow> ppa \<Rightarrow> bool" where
  "live_page f dead q \<longleftrightarrow> real_ppa (f_sp f) q \<and> pst (f_ssd f) q = PG_VALID \<and> q \<notin> dead"

lemma map_inv_live:
  "map_inv f dead \<longleftrightarrow> length (f_maptbl f) = tt_pgs (f_sp f) \<and> length (f_rmap f) = tt_pgs (f_sp f) \<and>
     (\<forall>lpn<tt_pgs (f_sp f). f_maptbl f ! lpn = unmapped_ppa \<or>
        (live_page f dead (f_maptbl f ! lpn) \<and> f_rmap f ! pgidx_of (f_sp f) (f_maptbl f ! lpn) = lpn)) \<and>
     (\<forall>p. live_page f dead p \<longrightarrow> f_rmap f ! pgidx_of (f_sp f) p < tt_pgs (f_sp f) \<and>
        f_maptbl f ! (f_rmap f ! pgidx_of (f_sp f) p) = p)"
  unfolding map_inv_def live_page_def by blast

lemma real_not_unmapped: "geo_ok sp \<Longrightarrow> real_ppa sp p \<Longrightarrow> p \<noteq> unmapped_ppa"
  using real_ppa_mapped not_mapped_unmapped by metis

lemma map_inv_move:
  assumes m: "map_inv f dead" and g: "geo_ok (f_sp f)" and sp: "f_sp f' = f_sp f"
    and lpn: "lpn < tt_pgs (f_sp f)" and p: "real_ppa (f_sp f) p" "\<not> live_page f dead p"
    and live: "\<And>q. live_page f' dead' q \<longleftrightarrow> q = p \<or> (live_page f dead q \<and> q \<noteq> f_maptbl f ! lpn)"
    and map: "f_maptbl f' = (f_maptbl f)[lpn := p]"
    and rmap: "length (f_rmap f') = length (f_rmap f)" "f_rmap f' ! pgidx_of (f_sp f) p = lpn"
      "\<And>q. live_page f dead q \<Longrightarrow> q \<noteq> f_maptbl f ! lpn \<Longrightarrow>
         f_rmap f' ! pgidx_of (f_sp f) q = f_rmap f ! pgidx_of (f_sp f) q"
  shows "map_inv f' dead'"
proof -
  let ?sp = "f_sp f" and ?old = "f_maptbl f ! lpn"
  have len: "length (f_maptbl f) = tt_pgs ?sp" "length (f_rmap f) = tt_pgs ?sp" using m by (auto simp: map_inv_def)
  have fwd: "f_maptbl f ! l = unmapped_ppa \<or> (live_page f dead (f_maptbl f ! l) \<and>
      f_rmap f ! pgidx_of ?sp (f_maptbl f ! l) = l)" if "l < tt_pgs ?sp" for l
    using m that by (simp add: map_inv_live)
  have bwd: "f_rmap f ! pgidx_of ?sp q < tt_pgs ?sp \<and> f_maptbl f ! (f_rmap f ! pgidx_of ?sp q) = q"
    if "live_page f dead q" for q using m that by (simp add: map_inv_live)
  have 1: "f_maptbl f' ! l = unmapped_ppa \<or> (live_page f' dead' (f_maptbl f' ! l) \<and>
      f_rmap f' ! pgidx_of ?sp (f_maptbl f' ! l) = l)" if l: "l < tt_pgs ?sp" for l
  proof (cases "l = lpn")
    case True
    then show ?thesis using map len lpn live rmap(2) by simp
  next
    case False
    then have e: "f_maptbl f' ! l = f_maptbl f ! l" using map by simp
    show ?thesis
    proof (cases "f_maptbl f ! l = unmapped_ppa")
      case True
      then show ?thesis using e by simp
    next
      case nu: False
      then have lv: "live_page f dead (f_maptbl f ! l)" "f_rmap f ! pgidx_of ?sp (f_maptbl f ! l) = l"
        using fwd [OF l] by auto
      have "f_maptbl f ! l \<noteq> ?old" using lv(2) fwd [OF lpn] nu False by auto
      then show ?thesis using e lv live rmap(3) by simp
    qed
  qed
  have 2: "f_rmap f' ! pgidx_of ?sp q < tt_pgs ?sp \<and> f_maptbl f' ! (f_rmap f' ! pgidx_of ?sp q) = q"
    if "live_page f' dead' q" for q
  proof (cases "q = p")
    case True
    then show ?thesis using rmap(2) map len lpn by simp
  next
    case False
    then have q: "live_page f dead q" "q \<noteq> ?old" using that live by auto
    then have e: "f_rmap f' ! pgidx_of ?sp q = f_rmap f ! pgidx_of ?sp q" by (rule rmap(3))
    have "f_rmap f ! pgidx_of ?sp q \<noteq> lpn" using bwd [OF q(1)] q(2) by metis
    then show ?thesis using e bwd [OF q(1)] map by simp
  qed
  show ?thesis unfolding map_inv_live sp using 1 2 map rmap(1) len by simp
qed

section \<open>A host write of one page\<close>

lemma phys_inv_maps [simp]:
  "phys_inv (f\<lparr>f_maptbl := m\<rparr>) vic pend = phys_inv f vic pend"
  "phys_inv (f\<lparr>f_rmap := r\<rparr>) vic pend = phys_inv f vic pend"
  "phys_inv (f\<lparr>f_wfc := c\<rparr>) vic pend = phys_inv f vic pend"
  by (simp_all add: phys_inv_def open_inv_def part_inv_def state_inv_def line_inv_def line_ruh_ok_def
      pq_ok_def wps_def opens_def victims_def frontier_def)

lemma set_rmap_ent_eq:
  assumes "geo_ok (f_sp f)" "valid_ppa (f_sp f) p" "length (f_rmap f) = tt_pgs (f_sp f)"
  shows "set_rmap_ent lpn p f = Some (f\<lparr>f_rmap := (f_rmap f)[pgidx_of (f_sp f) p := lpn]\<rparr>)"
  using assms pgidx_of_less [OF assms(1,2)] by (simp add: set_rmap_ent_def ppa2pgidx_eq)

lemma get_rmap_ent_eq:
  assumes "geo_ok (f_sp f)" "valid_ppa (f_sp f) p" "length (f_rmap f) = tt_pgs (f_sp f)"
  shows "get_rmap_ent f p = Some (f_rmap f ! pgidx_of (f_sp f) p)"
  using assms pgidx_of_less [OF assms(1,2)] by (simp add: get_rmap_ent_def ppa2pgidx_eq)

lemma set_maptbl_ent_eq:
  assumes "lpn < tt_pgs (f_sp f)" "length (f_maptbl f) = tt_pgs (f_sp f)"
  shows "set_maptbl_ent lpn p f = Some (f\<lparr>f_maptbl := (f_maptbl f)[lpn := p]\<rparr>)"
  using assms by (simp add: set_maptbl_ent_def)

text \<open>The state of the pages and the maps after the page written before has been given up.\<close>

definition dropped :: "fdp_ftl \<Rightarrow> nat \<Rightarrow> fdp_ftl \<Rightarrow> bool" where
  "dropped f lpn f1 \<longleftrightarrow> phys_inv f1 {} None \<and> f_sp f1 = f_sp f \<and>
     (\<forall>q. real_ppa (f_sp f) q \<longrightarrow> pst (f_ssd f1) q =
        (if q = f_maptbl f ! lpn then PG_INVALID else pst (f_ssd f) q)) \<and>
     f_maptbl f1 = f_maptbl f \<and> length (f_rmap f1) = length (f_rmap f) \<and>
     (\<forall>q. real_ppa (f_sp f) q \<longrightarrow> q \<noteq> f_maptbl f ! lpn \<longrightarrow>
        f_rmap f1 ! pgidx_of (f_sp f) q = f_rmap f ! pgidx_of (f_sp f) q) \<and>
     f_cp f1 = f_cp f \<and> f_wfc f1 = f_wfc f \<and> wps f1 = wps f \<and>
     free_line_list (f_lm f1) = free_line_list (f_lm f)"

lemma drop_old_page:
  assumes inv: "ftl_inv f" and lpn: "lpn < tt_pgs (f_sp f)"
  shows "\<exists>f1. (if mapped_ppa (f_maptbl f ! lpn) then do {
        f' \<leftarrow> mark_page_invalid (f_maptbl f ! lpn) f; set_rmap_ent INVALID_LPN (f_maptbl f ! lpn) f' }
      else Some f) = Some f1 \<and> dropped f lpn f1"
proof -
  let ?old = "f_maptbl f ! lpn" and ?sp = "f_sp f"
  have ph: "phys_inv f {} None" and m: "map_inv f {}" using inv by (auto simp: ftl_inv_def)
  note g = phys_invD(2) [OF ph] and ok = phys_invD(1) [OF ph]
  show ?thesis
  proof (cases "?old = unmapped_ppa")
    case True
    then show ?thesis using ph real_not_unmapped [OF g] by (auto simp: dropped_def)
  next
    case False
    then have r: "real_ppa ?sp ?old" "pst (f_ssd f) ?old = PG_VALID" using m lpn by (auto simp: map_inv_def)
    note rv = real_ppaD [OF r(1)]
    let ?s' = "page_upd (f_ssd f) ?old PG_INVALID 1 (-1)"
    obtain lm' where mi: "mark_page_invalid ?old f = Some (f\<lparr>f_ssd := ?s', f_lm := lm'\<rparr>)"
      and i1: "phys_inv (f\<lparr>f_ssd := ?s', f_lm := lm'\<rparr>) {} None" and fl: "free_line_list lm' = free_line_list (f_lm f)"
      using mark_page_invalid_inv [OF ph r] by auto
    let ?f' = "f\<lparr>f_ssd := ?s', f_lm := lm'\<rparr>"
    let ?f1 = "?f'\<lparr>f_rmap := (f_rmap f)[pgidx_of ?sp ?old := INVALID_LPN]\<rparr>"
    have sp': "ssd_sp ?s' = ?sp" by (rule page_upd_ok(2) [OF ok rv(5)])
    have "set_rmap_ent INVALID_LPN ?old ?f' = Some ?f1"
      using set_rmap_ent_eq [of ?f' ?old] g rv(5) sp' m by (simp add: map_inv_def)
    moreover have "f_rmap ?f1 ! pgidx_of ?sp q = f_rmap f ! pgidx_of ?sp q"
      if "real_ppa ?sp q" "q \<noteq> ?old" for q
    proof -
      have "pgidx_of ?sp q \<noteq> pgidx_of ?sp ?old" using pgidx_of_inj [OF g that(1) r(1)] that(2) by blast
      then show ?thesis by simp
    qed
    moreover have "mapped_ppa ?old" by (rule real_ppa_mapped [OF g r(1)])
    moreover have "phys_inv ?f1 {} None" using i1 by simp
    ultimately show ?thesis
      using mi sp' fl pst_page_upd [OF ok r(1)] by (intro exI [of _ ?f1]) (auto simp: dropped_def wps_def)
  qed
qed

text \<open>
  The effect of writing \<open>lpn\<close> through handle \<open>ruh\<close>: page \<open>p\<close>, free before, on the line that the
  handle has open, now holds it; the page that held it is invalid; no other page and no other
  mapping entry changes.
\<close>

definition written :: "fdp_ftl \<Rightarrow> nat \<Rightarrow> nat \<Rightarrow> ppa \<Rightarrow> fdp_ftl \<Rightarrow> bool" where
  "written f ruh lpn p f' \<longleftrightarrow> ftl_inv f' \<and> f_sp f' = f_sp f \<and> p = wp_page (wps f ! ruh) \<and> real_ppa (f_sp f) p \<and>
     pst (f_ssd f) p = PG_FREE \<and> ln_ruh (f_lines f ! g_blk p) = int ruh \<and>
     f_maptbl f' = (f_maptbl f)[lpn := p] \<and>
     (\<forall>q. real_ppa (f_sp f) q \<longrightarrow> pst (f_ssd f') q =
        (if q = p then PG_VALID else if q = f_maptbl f ! lpn then PG_INVALID else pst (f_ssd f) q)) \<and>
     f_cp f' = f_cp f \<and> f_wfc f' = f_wfc f \<and> wp_step f ruh f'"

lemma write_page_written:
  assumes inv: "ftl_inv f" and ruh: "ruh < FDP_NR_RUH" and lpn: "lpn < tt_pgs (f_sp f)"
    and free: "free_line_list (f_lm f) \<noteq> []"
  shows "\<exists>p f'. write_page ruh lpn f = Some (p, f') \<and> written f ruh lpn p f'"
proof -
  let ?sp = "f_sp f" and ?old = "f_maptbl f ! lpn"
  have ph: "phys_inv f {} None" and m: "map_inv f {}" using inv by (auto simp: ftl_inv_def)
  note g = phys_invD(2) [OF ph]
  have sl: "slot_ok USER_IO ruh" and k: "wp_slot USER_IO ruh = ruh" using ruh by (auto simp: slot_ok_def wp_slot_def)
  have len: "length (f_maptbl f) = tt_pgs ?sp" "length (f_rmap f) = tt_pgs ?sp" using m by (auto simp: map_inv_def)
  obtain f1 where d: "(if mapped_ppa ?old then do {
        f' \<leftarrow> mark_page_invalid ?old f; set_rmap_ent INVALID_LPN ?old f' } else Some f) = Some f1"
    and dr: "dropped f lpn f1" using drop_old_page [OF inv lpn] by blast
  have p1: "phys_inv f1 {} None" and sp1: "f_sp f1 = ?sp" and w1: "wps f1 = wps f"
    and mt1: "f_maptbl f1 = f_maptbl f" and fl1: "free_line_list (f_lm f1) = free_line_list (f_lm f)"
    and st1: "\<And>q. real_ppa ?sp q \<Longrightarrow> pst (f_ssd f1) q = (if q = ?old then PG_INVALID else pst (f_ssd f) q)"
    and rl1: "length (f_rmap f1) = tt_pgs ?sp"
    and rm1: "\<And>q. real_ppa ?sp q \<Longrightarrow> q \<noteq> ?old \<Longrightarrow> f_rmap f1 ! pgidx_of ?sp q = f_rmap f ! pgidx_of ?sp q"
    using dr len by (auto simp: dropped_def)
  define p where "p = wp_page (wps f ! ruh)"
  have r: "real_ppa ?sp p" using wp_facts(2) [OF ph] ruh by (simp add: p_def)
  note rv = real_ppaD [OF r]
  have gp: "get_new_page f1 USER_IO ruh = Some p" using get_new_page_eq [OF p1 sl] k w1 by (simp add: p_def)
  let ?f2 = "f1\<lparr>f_maptbl := (f_maptbl f)[lpn := p]\<rparr>"
  let ?f3 = "?f2\<lparr>f_rmap := (f_rmap f1)[pgidx_of ?sp p := lpn]\<rparr>"
  have s2: "set_maptbl_ent lpn p f1 = Some ?f2" using set_maptbl_ent_eq [of lpn f1] lpn len mt1 sp1 by simp
  have s3: "set_rmap_ent lpn p ?f2 = Some ?f3" using set_rmap_ent_eq [of ?f2 p] g rv(5) sp1 rl1 by simp
  have p3: "phys_inv ?f3 {} None" using p1 by simp
  have w3: "wps ?f3 = wps f" using w1 by (simp add: wps_def)
  obtain f4 f5 where mv: "mark_page_valid p ?f3 = Some f4" and av: "advance_write_pointer USER_IO ruh f4 = Some f5"
    and p5: "phys_inv f5 {} None" and ss5: "f_ssd f5 = page_upd (f_ssd f1) p PG_VALID 0 1"
    and sm: "same_maps ?f3 f5" and fr: "pst (f_ssd f1) p = PG_FREE"
    and ws: "wp_step ?f3 ruh f5"
    using program_inv [OF p3 sl, of p] w3 k free fl1 sp1 by (auto simp: p_def)
  have ws': "wp_step f ruh f5" using ws w3 sp1 fl1 by (simp add: wp_step_def Let_def)
  have ok1: "ssd_ok (f_ssd f1)" by (rule phys_invD(1) [OF p1])
  have sp5: "f_sp f5 = ?sp" unfolding ss5 using page_upd_ok(2) [OF ok1] rv(5) sp1 by simp
  have st5: "pst (f_ssd f5) q = (if q = p then PG_VALID else pst (f_ssd f1) q)" if "real_ppa ?sp q" for q
    unfolding ss5 using pst_page_upd [OF ok1, of p q] r that sp1 by simp
  have pold: "p \<noteq> ?old" using fr st1 [OF r] by auto
  have frf: "pst (f_ssd f) p = PG_FREE" using fr st1 [OF r] pold by simp
  have "map_inv f5 {}"
  proof (rule map_inv_move [OF m g sp5 lpn r])
    show "\<not> live_page f {} p" using frf by (simp add: live_page_def)
    show "live_page f5 {} q \<longleftrightarrow> q = p \<or> live_page f {} q \<and> q \<noteq> ?old" for q
      using st5 [of q] st1 [of q] r pold unfolding live_page_def sp5 by (auto split: if_splits)
    show "f_maptbl f5 = (f_maptbl f)[lpn := p]" using sm by (simp add: same_maps_def)
    have rm5: "f_rmap f5 = (f_rmap f1)[pgidx_of ?sp p := lpn]" using sm by (simp add: same_maps_def)
    show "length (f_rmap f5) = length (f_rmap f)" using rm5 rl1 len by simp
    show "f_rmap f5 ! pgidx_of ?sp p = lpn" using rm5 rl1 pgidx_of_less [OF g rv(5)] by simp
    show "f_rmap f5 ! pgidx_of ?sp q = f_rmap f ! pgidx_of ?sp q"
      if "live_page f {} q" "q \<noteq> ?old" for q
    proof -
      have rq: "real_ppa ?sp q" "q \<noteq> p" using that frf by (auto simp: live_page_def)
      then have "pgidx_of ?sp q \<noteq> pgidx_of ?sp p" using pgidx_of_inj [OF g rq(1) r] by auto
      then show ?thesis using rm5 rm1 [OF rq(1) that(2)] by simp
    qed
  qed
  then have i5: "ftl_inv f5" using p5 by (simp add: ftl_inv_def)
  have "write_page ruh lpn f = Some (p, f5)"
    using d gp s2 s3 mv av len lpn by (simp add: write_page_def get_maptbl_ent_def)
  moreover have "ln_ruh (f_lines f ! g_blk p) = int ruh"
    using phys_invD(7) [OF ph] ruh by (simp add: line_inv_def line_ruh_ok_def p_def wp_page_def)
  moreover have "f_maptbl f5 = (f_maptbl f)[lpn := p] \<and> f_cp f5 = f_cp f \<and> f_wfc f5 = f_wfc f"
    using sm dr by (simp add: same_maps_def dropped_def)
  moreover have "pst (f_ssd f5) q = (if q = p then PG_VALID else if q = ?old then PG_INVALID else pst (f_ssd f) q)"
    if "real_ppa ?sp q" for q using st5 [OF that] st1 [OF that] by simp
  ultimately show ?thesis using i5 sp5 r frf ws' by (intro exI [of _ p] exI [of _ f5]) (simp add: written_def p_def)
qed

end
