(* ===== verification/Fdp_Gc.thy ===== *)
theory Fdp_Gc
  imports Fdp_Write
begin

text \<open>
  Garbage collection. With one free line at the start, \<open>do_gc\<close> returns: it takes the victim
  with the fewest valid pages, moves each of its valid pages to the line of the GC write
  pointer, erases its blocks and puts the line on the free list. The invariant holds again at
  the end, no logical page is lost, and none outside the victim moves.
\<close>

section \<open>Timing changes nothing of the invariant\<close>

lemma pst_same: "same_nand s s' \<Longrightarrow> pst s' = pst s"
  by (simp add: same_nand_def pst_def fun_eq_iff)

lemma phys_inv_timing:
  assumes inv: "phys_inv f vic pend" and s: "ssd_ok s'" "same_nand (f_ssd f) s'"
  shows "phys_inv (f\<lparr>f_ssd := s'\<rparr>) vic pend"
proof -
  note ps = pst_same [OF s(2)]
  have sp: "ssd_sp s' = f_sp f" and bl: "blk_at s' = blk_at (f_ssd f)" using s(2) by (auto simp: same_nand_def)
  show ?thesis
    using inv s(1)
    by (simp add: phys_inv_def blk_counts_def open_inv_def part_inv_def state_inv_def line_inv_def
        line_ruh_ok_def pq_ok_def wps_def opens_def victims_def frontier_def ps sp bl)
qed

lemma map_inv_timing:
  assumes "map_inv f dead" "same_nand (f_ssd f) s'"
  shows "map_inv (f\<lparr>f_ssd := s'\<rparr>) dead"
  using assms pst_same [OF assms(2)] by (simp add: map_inv_def same_nand_def)

definition env_ok :: "fdp_env \<Rightarrow> bool" where
  "env_ok e \<longleftrightarrow> shared_ok (e_sh e) \<and> ctx_ok (e_ctx e)"

lemma nand_returns:
  assumes inv: "phys_inv f vic pend" and e: "env_ok e" and p: "real_ppa (f_sp f) (nc_ppa cmd)"
    and x: "nc_cmd cmd = NAND_READ \<Longrightarrow> nc_xfer_size cmd \<noteq> 0"
  shows "\<exists>t s' sh'. nand clk cmd f e = Some (t, f\<lparr>f_ssd := s'\<rparr>, e\<lparr>e_sh := sh'\<rparr>) \<and>
     ssd_ok s' \<and> same_nand (f_ssd f) s' \<and> sh_timing (e_sh e) sh'"
proof -
  obtain t s' sh' where r: "ssd_advance_nand clk cmd (f_ssd f) (e_sh e) = Some (t, s', sh')"
    "ssd_ok s'" "same_nand (f_ssd f) s'" "sh_timing (e_sh e) sh'"
    using ssd_advance_nand_returns [OF phys_invD(1) [OF inv] _ p x, of "e_sh e" clk] e
    by (auto simp: env_ok_def)
  then have "nand clk cmd f e = Some (t, f\<lparr>f_ssd := s'\<rparr>, e\<lparr>e_sh := sh'\<rparr>)" by (simp add: nand_def)
  with r show ?thesis by blast
qed

section \<open>The state while a victim is collected\<close>

text \<open>Pages the GC write pointer can still take before it needs a free line that is not there.\<close>

definition gcroom :: "fdp_ftl \<Rightarrow> nat" where
  "gcroom f = pgs_per_line (f_sp f) - wpi (f_sp f) (wp_page (wps f ! FDP_NR_RUH)) +
     pgs_per_line (f_sp f) * length (free_line_list (f_lm f))"

definition live_in :: "fdp_ftl \<Rightarrow> nat \<Rightarrow> ppa set \<Rightarrow> ppa set" where
  "live_in f v dead = {q \<in> line_pages (f_sp f) v. live_page f dead q}"

definition gc_inv :: "fdp_ftl \<Rightarrow> nat \<Rightarrow> ppa set \<Rightarrow> bool" where
  "gc_inv f v dead \<longleftrightarrow> phys_inv f {v} None \<and> map_inv f dead \<and> v < blks_per_pl (f_sp f) \<and>
     dead \<subseteq> line_pages (f_sp f) v \<and> card (live_in f v dead) < gcroom f"

text \<open>
  What a step of the collection of \<open>v\<close> may change: page states outside the victim only by
  programming free pages, the mapping only of pages in the victim, and nothing of the
  parameters. The media-bytes counter advances by one page for every page moved.
\<close>

definition gc_rel :: "nat \<Rightarrow> fdp_ftl \<Rightarrow> fdp_env \<Rightarrow> fdp_ftl \<Rightarrow> fdp_env \<Rightarrow> bool" where
  "gc_rel v f e f' e' \<longleftrightarrow> f_sp f' = f_sp f \<and> f_cp f' = f_cp f \<and> f_wfc f' = f_wfc f \<and>
     length (f_maptbl f') = length (f_maptbl f) \<and>
     (\<forall>lpn<length (f_maptbl f).
        (f_maptbl f' ! lpn = unmapped_ppa \<longleftrightarrow> f_maptbl f ! lpn = unmapped_ppa) \<and>
        (g_blk (f_maptbl f ! lpn) \<noteq> v \<longrightarrow> f_maptbl f' ! lpn = f_maptbl f ! lpn)) \<and>
     env_ok e' \<and> e_sched e' = e_sched e \<and> sh_wbuf (e_sh e') = sh_wbuf (e_sh e) \<and>
     hbmw (e_ctx e') = hbmw (e_ctx e) \<and> ruh_attr (e_ctx e') = ruh_attr (e_ctx e) \<and>
     events (e_ctx e') = events (e_ctx e)"

lemma gc_rel_refl: "env_ok e \<Longrightarrow> gc_rel v f e f e"
  by (simp add: gc_rel_def)

lemma gc_rel_trans:
  assumes "gc_rel v f e f1 e1" "gc_rel v f1 e1 f2 e2"
  shows "gc_rel v f e f2 e2"
  using assms unfolding gc_rel_def by (metis (no_types, lifting))

lemma gcroom_step:
  assumes inv: "phys_inv f vic None" and ws: "wp_step f FDP_NR_RUH f'" and sp: "f_sp f' = f_sp f"
    and room: "2 \<le> gcroom f"
  shows "gcroom f = Suc (gcroom f')"
    and "Suc (wpi (f_sp f) (wp_page (wps f ! FDP_NR_RUH))) = pgs_per_line (f_sp f) \<Longrightarrow> free_line_list (f_lm f) \<noteq> []"
proof -
  let ?i = "wpi (f_sp f) (wp_page (wps f ! FDP_NR_RUH))" and ?n = "pgs_per_line (f_sp f)"
  have i: "?i < ?n" by (rule wpi_less [OF phys_invD(2) [OF inv] wp_facts(2) [OF inv order_refl]])
  show ne: "free_line_list (f_lm f) \<noteq> []" if "Suc ?i = ?n"
    using room that by (auto simp: gcroom_def)
  show "gcroom f = Suc (gcroom f')"
  proof (cases "Suc ?i = ?n")
    case True
    then obtain x xs where "free_line_list (f_lm f) = x # xs" using ne by (cases "free_line_list (f_lm f)") auto
    then show ?thesis using ws True i by (simp add: gcroom_def wp_step_def sp Let_def)
  next
    case False
    then show ?thesis using ws i by (simp add: gcroom_def wp_step_def sp Let_def)
  qed
qed

section \<open>Moving one page\<close>

lemma ctx_ok_mbmw [simp]: "ctx_ok (c\<lparr>mbmw := x\<rparr>) = ctx_ok c" "ctx_ok (c\<lparr>mbe := x\<rparr>) = ctx_ok c"
  by (simp_all add: ctx_ok_def)

lemma live_page_timing: "same_nand (f_ssd f) s' \<Longrightarrow> live_page (f\<lparr>f_ssd := s'\<rparr>) dead q = live_page f dead q"
  using pst_same [of "f_ssd f" s'] by (simp add: live_page_def same_nand_def)

lemma gc_inv_timing:
  assumes "gc_inv f v dead" "ssd_ok s'" "same_nand (f_ssd f) s'"
  shows "gc_inv (f\<lparr>f_ssd := s'\<rparr>) v dead" "live_in (f\<lparr>f_ssd := s'\<rparr>) v dead = live_in f v dead"
proof -
  have sp: "ssd_sp s' = f_sp f" using assms(3) by (simp add: same_nand_def)
  show "live_in (f\<lparr>f_ssd := s'\<rparr>) v dead = live_in f v dead"
    using live_page_timing [OF assms(3)] by (simp add: live_in_def sp)
  moreover have "gcroom (f\<lparr>f_ssd := s'\<rparr>) = gcroom f" by (simp add: gcroom_def wps_def sp)
  ultimately show "gc_inv (f\<lparr>f_ssd := s'\<rparr>) v dead"
    using assms phys_inv_timing map_inv_timing by (simp add: gc_inv_def sp)
qed

lemma gcroom_timing: "same_nand (f_ssd f) s' \<Longrightarrow> gcroom (f\<lparr>f_ssd := s'\<rparr>) = gcroom f"
  by (simp add: gcroom_def wps_def same_nand_def)

lemma live_in_finite: "geo_ok (f_sp f) \<Longrightarrow> v < blks_per_pl (f_sp f) \<Longrightarrow> finite (live_in f v dead)"
  using line_pages_card(2) by (simp add: live_in_def)

text \<open>The free pages outside line \<open>v\<close>.\<close>

definition free_out :: "fdp_ftl \<Rightarrow> nat \<Rightarrow> ppa set" where
  "free_out f v = {q. real_ppa (f_sp f) q \<and> g_blk q \<noteq> v \<and> pst (f_ssd f) q = PG_FREE}"

lemma real_pages_finite: "geo_ok sp \<Longrightarrow> finite {q. real_ppa sp q}"
proof -
  assume g: "geo_ok sp"
  have "{q. real_ppa sp q} \<subseteq> (\<Union>b<blks_per_pl sp. line_pages sp b)"
    using real_ppaD(3) by (auto simp: line_pages_def)
  then show ?thesis using line_pages_card(2) [OF g] by (auto intro: finite_subset)
qed

definition moved :: "nat \<Rightarrow> ppa set \<Rightarrow> fdp_ftl \<Rightarrow> fdp_env \<Rightarrow> ppa set \<Rightarrow> fdp_ftl \<Rightarrow> fdp_env \<Rightarrow> bool" where
  "moved v dead f e dead' f' e' \<longleftrightarrow> gc_inv f' v dead' \<and> gc_rel v f e f' e' \<and>
     (\<forall>q\<in>line_pages (f_sp f) v. pst (f_ssd f') q = pst (f_ssd f) q) \<and>
     live_in f' v dead' = live_in f v dead - dead' \<and>
     (mbmw (e_ctx e') + pgsz (f_sp f) * card (live_in f' v dead')) mod 2 ^ 64 =
       (mbmw (e_ctx e) + pgsz (f_sp f) * card (live_in f v dead)) mod 2 ^ 64 \<and>
     mbe (e_ctx e') = mbe (e_ctx e) \<and>
     gcroom f' + card (live_in f v dead) = gcroom f + card (live_in f' v dead') \<and>
     card (free_out f' v) + card (live_in f v dead) = card (free_out f v) + card (live_in f' v dead')"

lemma moved_timing:
  assumes m: "moved v dead f e d f' e'" and s: "ssd_ok s'" "same_nand (f_ssd f') s'"
    and sh: "sh_timing (e_sh e') sh'"
  shows "moved v dead f e d (f'\<lparr>f_ssd := s'\<rparr>) (e'\<lparr>e_sh := sh'\<rparr>)"
proof -
  have gi: "gc_inv f' v d" using m by (simp add: moved_def)
  have sp: "ssd_sp s' = f_sp f'" using s(2) by (simp add: same_nand_def)
  have rel: "gc_rel v f e (f'\<lparr>f_ssd := s'\<rparr>) (e'\<lparr>e_sh := sh'\<rparr>)"
    using m sh sp by (simp add: moved_def gc_rel_def env_ok_def sh_timing_def)
  show ?thesis
    using m rel gc_inv_timing(1) [OF gi s] unfolding moved_def gc_inv_timing(2) [OF gi s]
    by (auto simp: pst_same [OF s(2)] gcroom_timing [OF s(2)] free_out_def sp)
qed

lemma moved_refl: "gc_inv f v dead \<Longrightarrow> env_ok e \<Longrightarrow> S \<subseteq> line_pages (f_sp f) v \<Longrightarrow> S \<inter> live_in f v dead = {} \<Longrightarrow>
    moved v dead f e (dead \<union> S) f e"
proof -
  assume a: "gc_inv f v dead" "env_ok e" "S \<subseteq> line_pages (f_sp f) v" "S \<inter> live_in f v dead = {}"
  have lp: "live_page f (dead \<union> S) q = live_page f dead q" for q
    using a(3,4) by (auto simp: live_page_def live_in_def)
  then have li: "live_in f v (dead \<union> S) = live_in f v dead" by (simp add: live_in_def)
  have "map_inv f (dead \<union> S)" using a(1) by (simp add: gc_inv_def map_inv_live lp)
  then have "gc_inv f v (dead \<union> S)" using a(1,3) li by (simp add: gc_inv_def)
  moreover have "live_in f v dead - (dead \<union> S) = live_in f v dead"
    using a(4) by (auto simp: live_in_def live_page_def)
  ultimately show "moved v dead f e (dead \<union> S) f e"
    using gc_rel_refl [OF a(2)] li by (simp add: moved_def)
qed

lemma moved_trans:
  assumes "moved v d f e d1 f1 e1" "moved v d1 f1 e1 d2 f2 e2" "d1 \<subseteq> d2"
  shows "moved v d f e d2 f2 e2"
proof -
  have sp: "f_sp f1 = f_sp f" using assms(1) by (simp add: moved_def gc_rel_def)
  have "live_in f2 v d2 = live_in f v d - d2" using assms by (auto simp: moved_def)
  then show ?thesis
    using assms(1,2) gc_rel_trans [of v f e f1 e1 f2 e2] by (auto simp: moved_def sp)
qed

lemma gc_write_page_moved:
  assumes gi: "gc_inv f v dead" and e: "env_ok e" and old: "old \<in> live_in f v dead"
  shows "\<exists>f' e'. gc_write_page clk old f e = Some (f', e') \<and> moved v dead f e (insert old dead) f' e'"
proof -
  let ?sp = "f_sp f"
  have ph: "phys_inv f {v} None" and m: "map_inv f dead" and v: "v < blks_per_pl ?sp"
    and room: "card (live_in f v dead) < gcroom f" using gi by (auto simp: gc_inv_def)
  note g = phys_invD(2) [OF ph]
  have sl: "slot_ok GC_IO 0" and k: "wp_slot GC_IO 0 = FDP_NR_RUH" by (auto simp: slot_ok_def wp_slot_def)
  have len: "length (f_maptbl f) = tt_pgs ?sp" "length (f_rmap f) = tt_pgs ?sp" using m by (auto simp: map_inv_def)
  have ro: "real_ppa ?sp old" "pst (f_ssd f) old = PG_VALID" "old \<notin> dead" "g_blk old = v"
    using old by (auto simp: live_in_def live_page_def line_pages_def)
  define l where "l = f_rmap f ! pgidx_of ?sp old"
  have l: "l < tt_pgs ?sp" "f_maptbl f ! l = old" using m ro by (auto simp: map_inv_def l_def)
  have fin: "finite (live_in f v dead)" by (rule live_in_finite [OF g v])
  then have c1: "0 < card (live_in f v dead)" using old by (auto simp: card_gt_0_iff)
  then have room2: "2 \<le> gcroom f" using room by simp
  define p where "p = wp_page (wps f ! FDP_NR_RUH)"
  have r: "real_ppa ?sp p" using wp_facts(2) [OF ph order_refl] by (simp add: p_def)
  note rv = real_ppaD [OF r]
  have pv: "g_blk p \<noteq> v"
    using open_line_excl(1) [OF ph wp_facts(4) [OF ph order_refl]] by (auto simp: p_def wp_page_def)
  have gp: "get_new_page f GC_IO 0 = Some p" using get_new_page_eq [OF ph sl] k by (simp add: p_def)
  let ?f2 = "f\<lparr>f_maptbl := (f_maptbl f)[l := p]\<rparr>"
  let ?f3 = "?f2\<lparr>f_rmap := (f_rmap f)[pgidx_of ?sp p := l]\<rparr>"
  have s2: "set_maptbl_ent l p f = Some ?f2" using set_maptbl_ent_eq l len by simp
  have s3: "set_rmap_ent l p ?f2 = Some ?f3" using set_rmap_ent_eq [of ?f2 p] g rv(5) len by simp
  have p3: "phys_inv ?f3 {v} None" using ph by simp
  have free: "free_line_list (f_lm ?f3) \<noteq> []" if "Suc (wpi (f_sp ?f3) p) = pgs_per_line (f_sp ?f3)"
  proof
    assume "free_line_list (f_lm ?f3) = []"
    with that room2 show False by (simp add: gcroom_def p_def)
  qed
  have pw: "p = wp_page (wps ?f3 ! wp_slot GC_IO 0)" using k by (simp add: p_def wps_def)
  obtain f4 f5 where mv: "mark_page_valid p ?f3 = Some f4" and av: "advance_write_pointer GC_IO 0 f4 = Some f5"
    and p5: "phys_inv f5 {v} None" and ss5: "f_ssd f5 = page_upd (f_ssd f) p PG_VALID 0 1"
    and sm: "same_maps ?f3 f5" and fr: "pst (f_ssd f) p = PG_FREE" and ws: "wp_step ?f3 FDP_NR_RUH f5"
    using program_inv [OF p3 sl pw free] k by auto
  have ok: "ssd_ok (f_ssd f)" by (rule phys_invD(1) [OF ph])
  have sp5: "f_sp f5 = ?sp" unfolding ss5 using page_upd_ok(2) [OF ok rv(5)] by simp
  have st5: "pst (f_ssd f5) q = (if q = p then PG_VALID else pst (f_ssd f) q)" if "real_ppa ?sp q" for q
    unfolding ss5 using pst_page_upd [OF ok r that] by simp
  have pnd: "p \<notin> dead" using gi pv by (auto simp: gc_inv_def line_pages_def)
  have po: "p \<noteq> old" using fr ro(2) by auto
  have m5: "map_inv f5 (insert old dead)"
  proof (rule map_inv_move [OF m g sp5 l(1) r])
    show "\<not> live_page f dead p" using fr by (simp add: live_page_def)
    show "live_page f5 (insert old dead) q \<longleftrightarrow> q = p \<or> live_page f dead q \<and> q \<noteq> f_maptbl f ! l" for q
      using st5 [of q] r po pnd l(2) unfolding live_page_def sp5 by auto
    show "f_maptbl f5 = (f_maptbl f)[l := p]" using sm by (simp add: same_maps_def)
    have rm5: "f_rmap f5 = (f_rmap f)[pgidx_of ?sp p := l]" using sm by (simp add: same_maps_def)
    show "length (f_rmap f5) = length (f_rmap f)" using rm5 by simp
    show "f_rmap f5 ! pgidx_of ?sp p = l" using rm5 len pgidx_of_less [OF g rv(5)] by simp
    show "f_rmap f5 ! pgidx_of ?sp q = f_rmap f ! pgidx_of ?sp q"
      if "live_page f dead q" "q \<noteq> f_maptbl f ! l" for q
    proof -
      have rq: "real_ppa ?sp q" "q \<noteq> p" using that fr by (auto simp: live_page_def)
      then have "pgidx_of ?sp q \<noteq> pgidx_of ?sp p" using pgidx_of_inj [OF g rq(1) r] by auto
      then show ?thesis using rm5 by simp
    qed
  qed
  have keep: "pst (f_ssd f5) q = pst (f_ssd f) q" if "q \<in> line_pages ?sp v" for q
    using st5 [of q] that pv by (auto simp: line_pages_def)
  have li5: "live_in f5 v (insert old dead) = live_in f v dead - {old}"
    using keep by (auto simp: live_in_def live_page_def sp5)
  have gr: "gcroom f = Suc (gcroom f5)"
    using gcroom_step(1) [OF p3 ws] sp5 room2 by (simp add: gcroom_def wps_def)
  have g5: "gc_inv f5 v (insert old dead)"
  proof -
    have "card (live_in f5 v (insert old dead)) < gcroom f5"
      using room gr c1 fin old by (simp add: li5)
    then show ?thesis unfolding gc_inv_def using p5 m5 v sp5 gi ro(1,4)
      by (auto simp: gc_inv_def line_pages_def)
  qed
  let ?e1 = "e\<lparr>e_ctx := (e_ctx e)\<lparr>mbmw := u64 (mbmw (e_ctx e) + pgsz ?sp)\<rparr>\<rparr>"
  have e1: "env_ok ?e1" using e by (simp add: env_ok_def)
  have maps5: "f_maptbl f5 = (f_maptbl f)[l := p]" "f_cp f5 = f_cp f" "f_wfc f5 = f_wfc f"
    using sm by (simp_all add: same_maps_def)
  have rel: "gc_rel v f e f5 e'" if "env_ok e'" "e_ctx e' = e_ctx ?e1" "e_sched e' = e_sched e"
      "sh_wbuf (e_sh e') = sh_wbuf (e_sh e)" for e'
    unfolding gc_rel_def using that maps5 sp5 l ro real_not_unmapped [OF g r] real_not_unmapped [OF g ro(1)]
    by (auto simp: nth_list_update len)
  have media: "(mbmw (e_ctx ?e1) + pgsz ?sp * card (live_in f5 v (insert old dead))) mod 2 ^ 64 =
      (mbmw (e_ctx e) + pgsz ?sp * card (live_in f v dead)) mod 2 ^ 64"
  proof -
    have "card (live_in f v dead) = Suc (card (live_in f5 v (insert old dead)))"
      unfolding li5 using card_Suc_Diff1 [OF fin old] by simp
    then show ?thesis by (simp add: u64_def mod_simps algebra_simps)
  qed
  have mvd: "moved v dead f e (insert old dead) f5 e'" if "env_ok e'" "e_ctx e' = e_ctx ?e1" "e_sched e' = e_sched e"
      "sh_wbuf (e_sh e') = sh_wbuf (e_sh e)" for e'
  proof -
    have "live_in f5 v (insert old dead) = live_in f v dead - insert old dead"
      unfolding li5 by (auto simp: live_in_def live_page_def)
    moreover have "gcroom f5 + card (live_in f v dead) = gcroom f + card (live_in f5 v (insert old dead))"
      using gr card_Suc_Diff1 [OF fin old] by (simp add: li5)
    moreover have "card (free_out f5 v) + card (live_in f v dead) = card (free_out f v) + card (live_in f5 v (insert old dead))"
    proof -
      have "free_out f v = insert p (free_out f5 v)" "p \<notin> free_out f5 v"
        using st5 r pv fr by (auto simp: free_out_def sp5 split: if_splits)
      moreover have "finite (free_out f5 v)"
        by (rule finite_subset [OF _ real_pages_finite [OF g]]) (auto simp: free_out_def sp5)
      ultimately show ?thesis using card_Suc_Diff1 [OF fin old] by (simp add: li5)
    qed
    ultimately show ?thesis
      unfolding moved_def using g5 rel [OF that] keep media that(2) by simp
  qed
  define cmd where "cmd = (let gcw = \<lparr>nc_type = GC_IO, nc_cmd = NAND_NOP, nc_xfer_size = 0, nc_stime = 0,
      nc_interleave_pci_dma = False, nc_ppa = p\<rparr> in if last_pg_in_wordline ?sp p
    then gcw\<lparr>nc_cmd := NAND_WRITE, nc_xfer_size := pgsz ?sp * pgs_per_oneshotpg ?sp\<rparr> else gcw)"
  have cmd: "nc_ppa cmd = p" "nc_cmd cmd \<noteq> NAND_READ" by (simp_all add: cmd_def Let_def)
  have pre: "gc_write_page clk old f e = (if enable_gc_delay (f_cp f) then do {
      (_, f5, e2) \<leftarrow> nand clk cmd f5 ?e1; Some (f5, e2) } else Some (f5, ?e1))"
    using get_rmap_ent_eq [OF g real_ppaD(5) [OF ro(1)] len(2)] l gp s2 s3 mv av
    by (simp add: gc_write_page_def l_def [symmetric] Let_def cmd_def)
  show ?thesis
  proof (cases "enable_gc_delay (f_cp f)")
    case False
    then show ?thesis unfolding pre using mvd [OF e1] by auto
  next
    case True
    obtain t s' sh' where n: "nand clk cmd f5 ?e1 = Some (t, f5\<lparr>f_ssd := s'\<rparr>, ?e1\<lparr>e_sh := sh'\<rparr>)"
      "ssd_ok s'" "same_nand (f_ssd f5) s'" "sh_timing (e_sh ?e1) sh'"
      using nand_returns [OF p5 e1, of cmd clk] r sp5 cmd by auto
    have "moved v dead f e (insert old dead) (f5\<lparr>f_ssd := s'\<rparr>) (?e1\<lparr>e_sh := sh'\<rparr>)"
      by (rule moved_timing [OF mvd [OF e1] n(2,3,4)]) simp_all
    then show ?thesis unfolding pre using True n(1) by auto
  qed
qed

end
