(* ===== verification/Fdp_Collect.thy ===== *)
theory Fdp_Collect
  imports Fdp_Gc
begin

text \<open>
  The loops of \<open>do_gc\<close>: cleaning a flash page, erasing a block, and the nest over flash pages,
  channels and LUNs that visits every page of the victim exactly once.
\<close>

section \<open>Cleaning a flash page\<close>

definition flash_pages :: "ssdparams \<Rightarrow> nat \<Rightarrow> nat \<Rightarrow> nat \<Rightarrow> nat \<Rightarrow> ppa set" where
  "flash_pages sp v a c l = {q \<in> line_pages sp v. g_ch q = c \<and> g_lun q = l \<and> g_pg q div pgs_per_flashpg sp = a}"

lemma flash_page_of:
  assumes g: "geo_ok sp" and r: "v < blks_per_pl sp" "a < flashpgs_per_blk sp" "c < nchs sp" "l < luns_per_ch sp"
    and i: "i < pgs_per_flashpg sp"
  shows "real_ppa sp (page_of c l v (a * pgs_per_flashpg sp + i))"
    "flashpg_page (mk_ppa c l 0 v (a * pgs_per_flashpg sp)) i = page_of c l v (a * pgs_per_flashpg sp + i)"
    "mk_ppa c l 0 v (a * pgs_per_flashpg sp) = page_of c l v (a * pgs_per_flashpg sp)"
proof -
  let ?F = "pgs_per_flashpg sp"
  have "a * ?F + i < Suc a * ?F" using i by simp
  also have "\<dots> \<le> flashpgs_per_blk sp * ?F" by (rule mult_le_mono1) (use r in simp)
  finally have lt: "a * ?F + i < pgs_per_blk sp" using geo_eqs(4) [OF g] by (simp add: mult.commute)
  then show "real_ppa sp (page_of c l v (a * ?F + i))" using r by (simp add: real_page_of [OF g])
  show mk: "mk_ppa c l 0 v (a * ?F) = page_of c l v (a * ?F)" using mk_ppa_real [OF g] r lt by simp
  show "flashpg_page (mk_ppa c l 0 v (a * ?F)) i = page_of c l v (a * ?F + i)"
    unfolding mk using lt geo_le [OF g] by (simp add: flashpg_page_def page_of_def ppa_bits_defs)
qed

lemma flash_pages_eq:
  assumes g: "geo_ok sp" and r: "v < blks_per_pl sp" "a < flashpgs_per_blk sp" "c < nchs sp" "l < luns_per_ch sp"
  shows "flash_pages sp v a c l = (\<lambda>i. page_of c l v (a * pgs_per_flashpg sp + i)) ` {..<pgs_per_flashpg sp}"
proof -
  let ?F = "pgs_per_flashpg sp"
  have F: "0 < ?F" by (rule geo_pos [OF g])
  have "q \<in> (\<lambda>i. page_of c l v (a * ?F + i)) ` {..<?F}" if "q \<in> flash_pages sp v a c l" for q
  proof -
    have q: "real_ppa sp q" "g_blk q = v" "g_ch q = c" "g_lun q = l" "g_pg q div ?F = a"
      using that by (auto simp: flash_pages_def line_pages_def)
    then have "g_pg q = a * ?F + g_pg q mod ?F" by (metis div_mult_mod_eq)
    then have "q = page_of c l v (a * ?F + g_pg q mod ?F)" using real_ppa_page_of [OF g q(1)] q by simp
    then show ?thesis using F by auto
  qed
  moreover have "page_of c l v (a * ?F + i) \<in> flash_pages sp v a c l" if "i < ?F" for i
    using flash_page_of(1) [OF g r that] that by (simp add: flash_pages_def line_pages_def)
  ultimately show ?thesis by blast
qed

lemma count_loop:
  assumes ok: "ssd_ok s" and pages: "\<And>i. i < n \<Longrightarrow> valid_ppa (ssd_sp s) (q i) \<and> pst s (q i) \<noteq> PG_FREE"
  shows "foldM (\<lambda>i cnt. do {
         pg_iter \<leftarrow> get_pg s (q i);
         NVMEV_ASSERT (pg_status pg_iter \<noteq> PG_FREE);
         Some (if pg_status pg_iter = PG_VALID then cnt + 1 else cnt)
       }) [0..<n] (0 :: nat) = Some (card {i. i < n \<and> pst s (q i) = PG_VALID})"
  using pages
proof (induction n)
  case 0
  then show ?case by simp
next
  case (Suc n)
  have pg: "get_pg s (q n) = Some (blk_pg (blk_at s (g_ch (q n)) (g_lun (q n)) (g_blk (q n))) ! g_pg (q n))"
    using get_pg_eq [OF ok] Suc.prems [of n] by simp
  have "{i. i < Suc n \<and> pst s (q i) = PG_VALID} =
      (if pst s (q n) = PG_VALID then insert n {i. i < n \<and> pst s (q i) = PG_VALID} else {i. i < n \<and> pst s (q i) = PG_VALID})"
    by (auto simp: less_Suc_eq)
  then show ?case using Suc pg by (simp add: pst_def)
qed

lemma move_loop:
  assumes gi: "gc_inv f v dead" and e: "env_ok e"
    and pages: "\<And>i. i < n \<Longrightarrow> q i \<in> line_pages (f_sp f) v - dead" and inj: "inj_on q {..<n}"
  shows "\<exists>f' e'. foldM (\<lambda>i (f, e). do {
           pg_iter \<leftarrow> get_pg (f_ssd f) (q i);
           if pg_status pg_iter = PG_VALID then gc_write_page clk (q i) f e else Some (f, e)
         }) [0..<n] (f, e) = Some (f', e') \<and> moved v dead f e (dead \<union> q ` {..<n}) f' e'"
proof -
  let ?P = "\<lambda>i (f', e'). moved v dead f e (dead \<union> q ` {..<i}) f' e'"
  have "\<exists>s'. foldM (\<lambda>i (f, e). do {
           pg_iter \<leftarrow> get_pg (f_ssd f) (q i);
           if pg_status pg_iter = PG_VALID then gc_write_page clk (q i) f e else Some (f, e)
         }) [0..<n] (f, e) = Some s' \<and> ?P n s'"
  proof (rule foldM_upt_total [where P = ?P])
    show "?P 0 (f, e)" using moved_refl [OF gi e, of "{}"] by simp
    fix i s' assume i: "i < n" and P: "?P i s'"
    obtain f1 e1 where s': "s' = (f1, e1)" by (cases s')
    let ?d = "dead \<union> q ` {..<i}"
    have m: "moved v dead f e ?d f1 e1" using P s' by simp
    have gi1: "gc_inv f1 v ?d" and e1: "env_ok e1" and sp: "f_sp f1 = f_sp f"
      using m by (auto simp: moved_def gc_rel_def)
    have "q i \<notin> q ` {..<i}"
    proof
      assume "q i \<in> q ` {..<i}"
      then obtain j where "j < i" "q i = q j" by auto
      then show False using inj_onD [OF inj, of i j] i by simp
    qed
    then have q: "real_ppa (f_sp f1) (q i)" "q i \<in> line_pages (f_sp f1) v" "q i \<notin> ?d"
      using pages [OF i] sp by (auto simp: line_pages_def)
    have ph: "phys_inv f1 {v} None" using gi1 by (simp add: gc_inv_def)
    have pg: "get_pg (f_ssd f1) (q i) = Some (blk_pg (blk_at (f_ssd f1) (g_ch (q i)) (g_lun (q i)) (g_blk (q i))) ! g_pg (q i))"
      by (rule get_pg_eq [OF phys_invD(1) [OF ph] real_ppaD(5) [OF q(1)]])
    have ins: "dead \<union> q ` {..<Suc i} = insert (q i) ?d" by (auto simp: less_Suc_eq)
    have "\<exists>f2 e2. (if pst (f_ssd f1) (q i) = PG_VALID then gc_write_page clk (q i) f1 e1 else Some (f1, e1)) = Some (f2, e2) \<and>
       moved v ?d f1 e1 (insert (q i) ?d) f2 e2"
    proof (cases "pst (f_ssd f1) (q i) = PG_VALID")
      case True
      then have "q i \<in> live_in f1 v ?d" using q by (simp add: live_in_def live_page_def)
      then show ?thesis using gc_write_page_moved [OF gi1 e1] True by simp
    next
      case False
      then have "{q i} \<inter> live_in f1 v ?d = {}" by (simp add: live_in_def live_page_def)
      then show ?thesis using moved_refl [OF gi1 e1, of "{q i}"] q False by simp
    qed
    then obtain f2 e2 where r: "(if pst (f_ssd f1) (q i) = PG_VALID then gc_write_page clk (q i) f1 e1 else Some (f1, e1)) = Some (f2, e2)"
      "moved v ?d f1 e1 (insert (q i) ?d) f2 e2" by blast
    have "?P (Suc i) (f2, e2)" using moved_trans [OF m r(2)] unfolding ins by auto
    with r(1) show "\<exists>s''. (\<lambda>(f, e). do {
           pg_iter \<leftarrow> get_pg (f_ssd f) (q i);
           if pg_status pg_iter = PG_VALID then gc_write_page clk (q i) f e else Some (f, e)
         }) s' = Some s'' \<and> ?P (Suc i) s''"
      unfolding s' by (auto simp: pg pst_def)
  qed simp
  then show ?thesis by auto
qed

lemma clean_one_flashpg_moved:
  assumes gi: "gc_inv f v dead" and e: "env_ok e"
    and r: "a < flashpgs_per_blk (f_sp f)" "c < nchs (f_sp f)" "l < luns_per_ch (f_sp f)"
    and nf: "\<And>q. q \<in> flash_pages (f_sp f) v a c l \<Longrightarrow> pst (f_ssd f) q \<noteq> PG_FREE \<and> q \<notin> dead"
  shows "\<exists>f' e'. clean_one_flashpg clk (mk_ppa c l 0 v (a * pgs_per_flashpg (f_sp f))) f e = Some (f', e') \<and>
     moved v dead f e (dead \<union> flash_pages (f_sp f) v a c l) f' e'"
proof -
  let ?sp = "f_sp f" and ?F = "pgs_per_flashpg (f_sp f)"
  let ?p = "mk_ppa c l 0 v (a * ?F)"
  define q where "q = flashpg_page ?p"
  have ph: "phys_inv f {v} None" and v: "v < blks_per_pl ?sp" using gi by (auto simp: gc_inv_def)
  note g = phys_invD(2) [OF ph] and ok = phys_invD(1) [OF ph]
  have qi: "q i = page_of c l v (a * ?F + i)" "real_ppa ?sp (q i)" if "i < ?F" for i
    using flash_page_of [OF g v r that] by (auto simp: q_def)
  have FP: "flash_pages ?sp v a c l = q ` {..<?F}"
    unfolding flash_pages_eq [OF g v r] using qi by (auto intro: image_cong)
  have in_line: "q i \<in> line_pages ?sp v - dead" "pst (f_ssd f) (q i) \<noteq> PG_FREE" if "i < ?F" for i
  proof -
    have "q i \<in> flash_pages ?sp v a c l" using FP that by simp
    then show "q i \<in> line_pages ?sp v - dead" "pst (f_ssd f) (q i) \<noteq> PG_FREE"
      using nf [of "q i"] by (auto simp: flash_pages_def)
  qed
  have inj: "inj_on q {..<?F}" using qi(1) by (auto simp: inj_on_def page_of_def)
  define k where "k = card {i. i < ?F \<and> pst (f_ssd f) (q i) = PG_VALID}"
  have cl: "foldM (\<lambda>i cnt. do {
         pg_iter \<leftarrow> get_pg (f_ssd f) (q i);
         NVMEV_ASSERT (pg_status pg_iter \<noteq> PG_FREE);
         Some (if pg_status pg_iter = PG_VALID then cnt + 1 else cnt)
       }) [0..<?F] (0 :: nat) = Some k"
    unfolding k_def by (rule count_loop [OF ok]) (use qi in_line in \<open>auto intro: real_ppaD(5)\<close>)
  show ?thesis
  proof (cases "k = 0")
    case True
    then have "pst (f_ssd f) (q i) \<noteq> PG_VALID" if "i < ?F" for i using that by (auto simp: k_def)
    then have "flash_pages ?sp v a c l \<inter> live_in f v dead = {}"
      by (auto simp: FP live_in_def live_page_def)
    with moved_refl [OF gi e, of "flash_pages ?sp v a c l"] True cl show ?thesis
      by (auto simp: clean_one_flashpg_def q_def Let_def flash_pages_def)
  next
    case False
    let ?cmd = "\<lparr>nc_type = GC_IO, nc_cmd = NAND_READ, nc_xfer_size = pgsz ?sp * k,
        nc_stime = 0, nc_interleave_pci_dma = False, nc_ppa = ?p\<rparr>"
    have pr: "real_ppa ?sp ?p" using flash_page_of [OF g v r geo_pos(5) [OF g]] by simp
    have "\<exists>f1 e1. (if enable_gc_delay (f_cp f) then do { (_, f', e') \<leftarrow> nand clk ?cmd f e; Some (f', e') }
        else Some (f, e)) = Some (f1, e1) \<and> moved v dead f e dead f1 e1"
    proof -
      obtain t s' sh' where "nand clk ?cmd f e = Some (t, f\<lparr>f_ssd := s'\<rparr>, e\<lparr>e_sh := sh'\<rparr>)"
        "ssd_ok s'" "same_nand (f_ssd f) s'" "sh_timing (e_sh e) sh'"
        using nand_returns [OF ph e, of ?cmd clk] pr False geo_pos [OF g] by auto
      then show ?thesis
        using moved_timing [OF moved_refl [OF gi e, of "{}"]] moved_refl [OF gi e, of "{}"] by auto
    qed
    then obtain f1 e1 where 1: "(if enable_gc_delay (f_cp f) then do { (_, f', e') \<leftarrow> nand clk ?cmd f e; Some (f', e') }
        else Some (f, e)) = Some (f1, e1)" "moved v dead f e dead f1 e1" by blast
    then have gi1: "gc_inv f1 v dead" "env_ok e1" and sp1: "f_sp f1 = ?sp" by (auto simp: moved_def gc_rel_def)
    obtain f2 e2 where 2: "foldM (\<lambda>i (f, e). do {
           pg_iter \<leftarrow> get_pg (f_ssd f) (q i);
           if pg_status pg_iter = PG_VALID then gc_write_page clk (q i) f e else Some (f, e)
         }) [0..<?F] (f1, e1) = Some (f2, e2)" "moved v dead f1 e1 (dead \<union> q ` {..<?F}) f2 e2"
      using move_loop [OF gi1 _ inj, where clk = clk] in_line sp1 by auto
    have "clean_one_flashpg clk ?p f e = Some (f2, e2)"
      unfolding clean_one_flashpg_def Let_def q_def [symmetric] using cl 1(1) 2(1) False by simp
    with moved_trans [OF 1(2) 2(2)] show ?thesis by (auto simp: FP)
  qed
qed

section \<open>Erasing a block\<close>

lemma free_pages_loop:
  assumes "\<And>i. i < length pgs \<Longrightarrow> pg_nsecs (pgs ! i) = m" "n \<le> length pgs"
  shows "foldM (\<lambda>i pgs. do {
         pg \<leftarrow> rd pgs i;
         NVMEV_ASSERT (pg_nsecs pg = m);
         wr pgs i (pg\<lparr>pg_status := PG_FREE\<rparr>)
       }) [0..<n] pgs = Some (map (\<lambda>pg. pg\<lparr>pg_status := PG_FREE\<rparr>) (take n pgs) @ drop n pgs)"
  using assms(2)
proof (induction n)
  case 0
  then show ?case by simp
next
  case (Suc n)
  let ?xs = "map (\<lambda>pg. pg\<lparr>pg_status := PG_FREE\<rparr>) (take n pgs) @ drop n pgs"
  have len: "n < length ?xs" and nth: "?xs ! n = pgs ! n" using Suc.prems by (simp_all add: nth_append)
  have "?xs[n := (pgs ! n)\<lparr>pg_status := PG_FREE\<rparr>] =
      map (\<lambda>pg. pg\<lparr>pg_status := PG_FREE\<rparr>) (take (Suc n) pgs) @ drop (Suc n) pgs"
    using Suc.prems by (simp add: list_update_append take_Suc_conv_app_nth Cons_nth_drop_Suc [symmetric])
  then show ?case using Suc assms(1) [of n] len nth by simp
qed

definition erase_upd :: "ssd \<Rightarrow> ppa \<Rightarrow> ssd" where
  "erase_upd s p = (let b = blk_at s (g_ch p) (g_lun p) (g_blk p) in
     put_blk s p (b\<lparr>blk_pg := map (\<lambda>pg. pg\<lparr>pg_status := PG_FREE\<rparr>) (blk_pg b), blk_ipc := 0, blk_vpc := 0,
       blk_erase_cnt := blk_erase_cnt b + 1\<rparr>))"

lemma mark_block_free_eq:
  assumes ok: "ssd_ok (f_ssd f)" and p: "real_ppa (f_sp f) p"
  shows "mark_block_free p f e = Some (f\<lparr>f_ssd := erase_upd (f_ssd f) p\<rparr>,
     e\<lparr>e_ctx := (e_ctx e)\<lparr>mbe := u64 (mbe (e_ctx e) + pgs_per_blk (f_sp f) * pgsz (f_sp f))\<rparr>\<rparr>)"
proof -
  let ?b = "blk_at (f_ssd f) (g_ch p) (g_lun p) (g_blk p)"
  have b: "length (blk_pg ?b) = pgs_per_blk (f_sp f)" "blk_npgs ?b = pgs_per_blk (f_sp f)"
    "\<And>i. i < length (blk_pg ?b) \<Longrightarrow> pg_nsecs (blk_pg ?b ! i) = secs_per_pg (f_sp f)"
    using ssd_ok_blk [OF ok] real_ppaD [OF p] by (auto simp: blk_ok_def)
  have fl: "foldM (\<lambda>i pgs. do {
         pg \<leftarrow> rd pgs i;
         NVMEV_ASSERT (pg_nsecs pg = secs_per_pg (f_sp f));
         wr pgs i (pg\<lparr>pg_status := PG_FREE\<rparr>)
       }) [0..<pgs_per_blk (f_sp f)] (blk_pg ?b) = Some (map (\<lambda>pg. pg\<lparr>pg_status := PG_FREE\<rparr>) (blk_pg ?b))"
    using free_pages_loop [OF b(3), of "pgs_per_blk (f_sp f)"] b(1) by simp
  show ?thesis
    using get_blk_eq [OF ok real_ppaD(5) [OF p]] fl b(2)
    by (simp add: mark_block_free_def erase_upd_def Let_def)
qed

lemma erase_upd_ok:
  assumes ok: "ssd_ok s" and p: "real_ppa (ssd_sp s) p"
  shows "ssd_ok (erase_upd s p)" "ssd_sp (erase_upd s p) = ssd_sp s"
    "real_ppa (ssd_sp s) q \<Longrightarrow> pst (erase_upd s p) q =
       (if q \<in> block_pages (ssd_sp s) (g_ch p) (g_lun p) (g_blk p) then PG_FREE else pst s q)"
proof -
  let ?b = "blk_at s (g_ch p) (g_lun p) (g_blk p)"
  have b: "blk_ok (ssd_sp s) ?b" using ssd_ok_blk [OF ok] real_ppaD [OF p] by simp
  show "ssd_ok (erase_upd s p)" unfolding erase_upd_def Let_def
    by (rule put_blk_ok [OF ok real_ppaD(5) [OF p]]) (use b in \<open>auto simp: blk_ok_def\<close>)
  show "ssd_sp (erase_upd s p) = ssd_sp s" by (simp add: erase_upd_def Let_def)
  show "pst (erase_upd s p) q = (if q \<in> block_pages (ssd_sp s) (g_ch p) (g_lun p) (g_blk p) then PG_FREE else pst s q)"
    if "real_ppa (ssd_sp s) q"
    using b that real_ppaD(4) [OF that]
    by (auto simp: pst_def erase_upd_def Let_def blk_at_put_blk [OF ok real_ppaD(5) [OF p]] block_pages_def blk_ok_def)
qed

lemma cnt_none: "(\<And>p. p \<in> S \<Longrightarrow> st p \<noteq> v) \<Longrightarrow> cnt st S v = 0"
  unfolding cnt_def by (metis (mono_tags, lifting) card.empty empty_Collect_eq)

lemma erase_upd_counts:
  assumes ok: "ssd_ok s" and p: "real_ppa (ssd_sp s) p" and cts: "blk_counts s"
  shows "blk_counts (erase_upd s p)"
  unfolding blk_counts_def erase_upd_ok(2) [OF ok p]
proof (intro allI impI)
  let ?s' = "erase_upd s p" and ?sp = "ssd_sp s"
  fix c l b assume r: "c < nchs ?sp" "l < luns_per_ch ?sp" "b < blks_per_pl ?sp"
  let ?B = "block_pages ?sp c l b"
  note st = erase_upd_ok(3) [OF ok p]
  show "blk_vpc (blk_at ?s' c l b) = int (cnt (pst ?s') ?B PG_VALID) \<and>
      blk_ipc (blk_at ?s' c l b) = int (cnt (pst ?s') ?B PG_INVALID)"
  proof (cases "c = g_ch p \<and> l = g_lun p \<and> b = g_blk p")
    case True
    then have "pst ?s' q = PG_FREE" if "q \<in> ?B" for q using st [of q] that by (auto simp: block_pages_def)
    then have "cnt (pst ?s') ?B PG_VALID = 0" "cnt (pst ?s') ?B PG_INVALID = 0" by (auto intro: cnt_none)
    then show ?thesis using True
      by (simp add: erase_upd_def Let_def blk_at_put_blk [OF ok real_ppaD(5) [OF p]])
  next
    case False
    then have "pst ?s' q = pst s q" if "q \<in> ?B" for q using st [of q] that by (auto simp: block_pages_def)
    then have "cnt (pst ?s') ?B w = cnt (pst s) ?B w" for w by (rule cnt_cong)
    moreover have "blk_at ?s' c l b = blk_at s c l b" using False
      by (auto simp: erase_upd_def Let_def blk_at_put_blk [OF ok real_ppaD(5) [OF p]])
    ultimately show ?thesis using cts r by (simp add: blk_counts_def)
  qed
qed

lemma phys_inv_erase:
  assumes inv: "phys_inv f {g_blk p} None" and p: "real_ppa (f_sp f) p"
  shows "phys_inv (f\<lparr>f_ssd := erase_upd (f_ssd f) p\<rparr>) {g_blk p} None"
proof -
  let ?s' = "erase_upd (f_ssd f) p"
  let ?f' = "f\<lparr>f_ssd := ?s'\<rparr>" and ?sp = "f_sp f"
  note ok = phys_invD(1) [OF inv]
  note sp = erase_upd_ok(2) [OF ok p]
  have st: "pst ?s' q = pst (f_ssd f) q" if "q \<in> line_pages ?sp b" "b \<noteq> g_blk p" for q b
    using erase_upd_ok(3) [OF ok p, of q] that by (auto simp: line_pages_def block_pages_def)
  have cn: "cnt (pst ?s') (line_pages ?sp b) w = cnt (pst (f_ssd f)) (line_pages ?sp b) w" if "b \<noteq> g_blk p" for b w
    by (rule cnt_cong) (rule st [OF _ that])
  have ne: "g_blk p \<notin> set (opens f)" "g_blk p \<notin> set (free_line_list (f_lm f))"
    "g_blk p \<notin> set (full_line_list (f_lm f))" "g_blk p \<notin> victims f"
    using phys_invD(5) [OF inv] by (auto simp: part_inv_def)
  have op: "wp_blk (wps f ! k) \<noteq> g_blk p" if "k \<le> FDP_NR_RUH" for k
    using wp_facts(4) [OF inv that] ne(1) by auto
  have same: "wps ?f' = wps f" "opens ?f' = opens f" "victims ?f' = victims f" "frontier ?f' None = frontier f None"
    by (simp_all add: wps_def opens_def victims_def frontier_def sp fun_eq_iff)
  have "open_inv ?f' None" using phys_invD(4) [OF inv] op st by (auto simp: open_inv_def same sp)
  moreover have "part_inv ?f' {g_blk p}" using phys_invD(5) [OF inv] by (simp add: part_inv_def same sp)
  moreover have "state_inv ?f'"
  proof -
    have "pst ?s' q = pst (f_ssd f) q" if "q \<in> line_pages ?sp b"
      "b \<in> set (free_line_list (f_lm f)) \<union> set (full_line_list (f_lm f)) \<union> victims f" for b q
      using st [OF that(1)] that(2) ne by auto
    then show ?thesis using phys_invD(6) [OF inv] by (auto simp: state_inv_def same sp)
  qed
  moreover have "line_inv ?f' {g_blk p}" using phys_invD(7) [OF inv] cn
    by (auto simp: line_inv_def line_ruh_ok_def same sp)
  moreover have "pq_ok ?f'" using phys_invD(8) [OF inv] by (simp add: pq_ok_def sp)
  ultimately show ?thesis
    using erase_upd_ok(1) [OF ok p] erase_upd_counts [OF ok p phys_invD(3) [OF inv]] by (simp add: phys_inv_def)
qed

end
