(* ===== verification/Fdp_Victim.thy ===== *)
theory Fdp_Victim
  imports Fdp_Collect
begin

text \<open>
  The collection of one victim as a whole: the state of the loop nest, the choice of the victim
  and the theorem on \<open>do_gc\<close>.
\<close>

section \<open>The state of the loop nest\<close>

text \<open>
  Since the start \<open>(f, e)\<close> of the collection of \<open>v\<close> the pages in \<open>D\<close> have been visited and the
  pages in \<open>E\<close> erased. The valid pages not yet visited are still in place, one page of media
  writes has been counted for every valid page moved and one page of erased media for every
  page erased.
\<close>

definition gc_at ::
  "nat \<Rightarrow> fdp_ftl \<Rightarrow> fdp_env \<Rightarrow> ppa set \<Rightarrow> ppa set \<Rightarrow> fdp_ftl \<Rightarrow> fdp_env \<Rightarrow> bool" where
  "gc_at v f e D E f' e' \<longleftrightarrow> gc_inv f' v D \<and> gc_rel v f e f' e' \<and>
     live_in f' v D = live_in f v {} - D \<and>
     (\<forall>q\<in>line_pages (f_sp f) v. pst (f_ssd f') q = (if q \<in> E then PG_FREE else pst (f_ssd f) q)) \<and>
     (mbmw (e_ctx e') + pgsz (f_sp f) * card (live_in f' v D)) mod 2 ^ 64 =
       (mbmw (e_ctx e) + pgsz (f_sp f) * card (live_in f v {})) mod 2 ^ 64 \<and>
     mbe (e_ctx e') mod 2 ^ 64 = (mbe (e_ctx e) + pgsz (f_sp f) * card E) mod 2 ^ 64 \<and>
     gcroom f' + card (live_in f v {}) = gcroom f + card (live_in f' v D) \<and>
     card (free_out f' v) + card (live_in f v {}) = card (free_out f v) + card (live_in f' v D)"

lemma gc_at_start:
  assumes "gc_inv f v {}" "env_ok e"
  shows "gc_at v f e {} {} f e"
  using assms gc_rel_refl by (simp add: gc_at_def)

lemma gc_at_moved:
  assumes at: "gc_at v f e D E f1 e1" and m: "moved v D f1 e1 D' f2 e2" and sub: "D \<subseteq> D'"
  shows "gc_at v f e D' E f2 e2"
proof -
  have sp: "f_sp f1 = f_sp f" using at by (simp add: gc_at_def gc_rel_def)
  have "live_in f2 v D' = live_in f v {} - D'" using at m sub by (auto simp: gc_at_def moved_def)
  then show ?thesis
    using at m gc_rel_trans [of v f e f1 e1 f2 e2] by (auto simp: gc_at_def moved_def sp)
qed

lemma gc_at_timing:
  assumes at: "gc_at v f e D E f1 e1" and s: "ssd_ok s'" "same_nand (f_ssd f1) s'"
    and sh: "sh_timing (e_sh e1) sh'"
  shows "gc_at v f e D E (f1\<lparr>f_ssd := s'\<rparr>) (e1\<lparr>e_sh := sh'\<rparr>)"
proof -
  have "gc_inv f1 v D" "env_ok e1" using at by (auto simp: gc_at_def gc_rel_def)
  then have "moved v D f1 e1 (D \<union> {}) f1 e1" by (intro moved_refl) auto
  from gc_at_moved [OF at moved_timing [OF this s sh]] show ?thesis by simp
qed

lemma block_pages_full:
  assumes g: "geo_ok sp" and r: "c < nchs sp" "l < luns_per_ch sp" "b < blks_per_pl sp"
  shows "card (block_pages sp c l b) = pgs_per_blk sp"
proof -
  have "block_pages sp c l b = page_of c l b ` {..<pgs_per_blk sp}"
  proof (intro equalityI subsetI)
    fix p assume p: "p \<in> block_pages sp c l b"
    then have "p = page_of c l b (g_pg p)" using real_ppa_page_of [OF g, of p] by (auto simp: block_pages_def)
    with p show "p \<in> page_of c l b ` {..<pgs_per_blk sp}" using real_ppaD(4) [of sp p] by (auto simp: block_pages_def)
  next
    fix p assume "p \<in> page_of c l b ` {..<pgs_per_blk sp}"
    then show "p \<in> block_pages sp c l b" using r by (auto simp: block_pages_def real_page_of [OF g])
  qed
  moreover have "inj_on (page_of c l b) {..<pgs_per_blk sp}" by (auto simp: inj_on_def page_of_def)
  ultimately show ?thesis by (simp add: card_image)
qed

lemma gc_at_erase:
  assumes at: "gc_at v f e D E f1 e1" and p: "real_ppa (f_sp f) p" "g_blk p = v"
    and B: "B = block_pages (f_sp f) (g_ch p) (g_lun p) v" and sub: "B \<subseteq> D" "B \<inter> E = {}" and fin: "finite E"
  shows "\<exists>f2 e2. mark_block_free p f1 e1 = Some (f2, e2) \<and> gc_at v f e D (E \<union> B) f2 e2"
proof -
  let ?sp = "f_sp f"
  let ?f2 = "f1\<lparr>f_ssd := erase_upd (f_ssd f1) p\<rparr>"
  let ?e2 = "e1\<lparr>e_ctx := (e_ctx e1)\<lparr>mbe := u64 (mbe (e_ctx e1) + pgs_per_blk ?sp * pgsz ?sp)\<rparr>\<rparr>"
  have gi: "gc_inv f1 v D" and sp: "f_sp f1 = ?sp" and rel: "gc_rel v f e f1 e1"
    using at by (auto simp: gc_at_def gc_rel_def)
  have ph: "phys_inv f1 {v} None" and m: "map_inv f1 D" using gi by (auto simp: gc_inv_def)
  note ok = phys_invD(1) [OF ph] and g = phys_invD(2) [OF ph]
  have p1: "real_ppa (f_sp f1) p" using p sp by simp
  note eu = erase_upd_ok [OF ok p1]
  have st: "pst (f_ssd ?f2) q = (if q \<in> B then PG_FREE else pst (f_ssd f1) q)" if "real_ppa ?sp q" for q
    using eu(3) that p(2) sp B by simp
  have lp: "live_page ?f2 D q = live_page f1 D q" for q
    using st [of q] sub(1) eu(2) sp by (auto simp: live_page_def split: if_splits)
  have li: "live_in ?f2 v D = live_in f1 v D" using lp eu(2) by (simp add: live_in_def)
  have fo: "free_out ?f2 v = free_out f1 v"
    using st B eu(2) sp by (auto simp: free_out_def block_pages_def split: if_splits)
  have "map_inv ?f2 D" using m eu(2) unfolding map_inv_live by (simp add: lp)
  moreover have room: "gcroom ?f2 = gcroom f1" using eu(2) by (simp add: gcroom_def wps_def)
  moreover have "phys_inv ?f2 {v} None" using phys_inv_erase [of f1 p] ph p1 p(2) by simp
  ultimately have gi2: "gc_inv ?f2 v D" using gi li eu(2) by (simp add: gc_inv_def)
  have rel2: "gc_rel v f e ?f2 ?e2" using rel eu(2) by (simp add: gc_rel_def env_ok_def)
  have cB: "card B = pgs_per_blk ?sp" unfolding B
    by (rule block_pages_full) (use g sp real_ppaD [OF p(1)] p(2) in auto)
  have "finite B" unfolding B by (rule block_pages_card(2)) (use g sp in simp)
  then have "card (E \<union> B) = card E + pgs_per_blk ?sp" using fin sub(2) cB by (simp add: card_Un_disjoint Int_commute)
  then have me: "mbe (e_ctx ?e2) mod 2 ^ 64 = (mbe (e_ctx e) + pgsz ?sp * card (E \<union> B)) mod 2 ^ 64"
  proof -
    have "mbe (e_ctx ?e2) mod 2 ^ 64 = (mbe (e_ctx e1) mod 2 ^ 64 + pgs_per_blk ?sp * pgsz ?sp) mod 2 ^ 64"
      by (simp add: u64_def mod_simps)
    also have "mbe (e_ctx e1) mod 2 ^ 64 = (mbe (e_ctx e) + pgsz ?sp * card E) mod 2 ^ 64"
      using at by (simp add: gc_at_def)
    also have "((mbe (e_ctx e) + pgsz ?sp * card E) mod 2 ^ 64 + pgs_per_blk ?sp * pgsz ?sp) mod 2 ^ 64 =
       (mbe (e_ctx e) + pgsz ?sp * (card E + pgs_per_blk ?sp)) mod 2 ^ 64"
      by (simp add: mod_simps algebra_simps)
    finally show ?thesis using \<open>card (E \<union> B) = card E + pgs_per_blk ?sp\<close> by simp
  qed
  have pst2: "pst (f_ssd ?f2) q = (if q \<in> E \<union> B then PG_FREE else pst (f_ssd f) q)" if "q \<in> line_pages ?sp v" for q
    using st [of q] at that by (auto simp: gc_at_def line_pages_def)
  have "gc_at v f e D (E \<union> B) ?f2 ?e2"
    unfolding gc_at_def li room fo using gi2 rel2 pst2 me at unfolding gc_at_def by auto
  moreover have "mark_block_free p f1 e1 = Some (?f2, ?e2)" using mark_block_free_eq [OF ok p1] sp by simp
  ultimately show ?thesis by blast
qed

lemma gc_step_at:
  assumes at: "gc_at v f e D E f1 e1"
    and r: "a < flashpgs_per_blk (f_sp f)" "c < nchs (f_sp f)" "l < luns_per_ch (f_sp f)"
    and D': "D' = D \<union> flash_pages (f_sp f) v a c l" "D \<inter> flash_pages (f_sp f) v a c l = {}"
    and E': "E' = (if a = flashpgs_per_blk (f_sp f) - 1 then E \<union> block_pages (f_sp f) c l v else E)"
    and E: "E \<inter> block_pages (f_sp f) c l v = {}" "finite E"
    and last: "a = flashpgs_per_blk (f_sp f) - 1 \<Longrightarrow> block_pages (f_sp f) c l v \<subseteq> D'"
    and nf: "\<forall>q\<in>line_pages (f_sp f) v. pst (f_ssd f) q \<noteq> PG_FREE"
  shows "\<exists>f2 e2. gc_step clk v a c l f1 e1 = Some (f2, e2) \<and> gc_at v f e D' E' f2 e2"
proof -
  let ?sp = "f_sp f"
  let ?p = "mk_ppa c l 0 v (a * pgs_per_flashpg ?sp)"
  have gi: "gc_inv f1 v D" "env_ok e1" and sp: "f_sp f1 = ?sp" using at by (auto simp: gc_at_def gc_rel_def)
  have ph: "phys_inv f1 {v} None" and v: "v < blks_per_pl ?sp" using gi sp by (auto simp: gc_inv_def)
  have g: "geo_ok ?sp" using phys_invD(2) [OF ph] sp by simp
  have F: "flash_pages ?sp v a c l \<subseteq> block_pages ?sp c l v" "flash_pages ?sp v a c l \<subseteq> line_pages ?sp v"
    by (auto simp: flash_pages_def block_pages_def line_pages_def)
  have nf1: "pst (f_ssd f1) q \<noteq> PG_FREE \<and> q \<notin> D" if "q \<in> flash_pages ?sp v a c l" for q
  proof -
    have "q \<in> line_pages ?sp v" "q \<notin> E" "q \<notin> D" using that F E(1) D'(2) by auto
    then show ?thesis using at nf by (simp add: gc_at_def)
  qed
  have p: "?p = page_of c l v (a * pgs_per_flashpg ?sp)" "real_ppa ?sp ?p"
    using flash_page_of [OF g v r geo_pos(5) [OF g]] by auto
  then have ps: "g_ch ?p = c" "g_lun ?p = l" "g_blk ?p = v" by simp_all
  obtain f2 e2 where 2: "clean_one_flashpg clk ?p f1 e1 = Some (f2, e2)" "moved v D f1 e1 D' f2 e2"
    using clean_one_flashpg_moved [OF gi, of a c l clk] r nf1 D' sp by auto
  have at2: "gc_at v f e D' E f2 e2" by (rule gc_at_moved [OF at 2(2)]) (use D' in auto)
  have lun: "\<exists>x. get_lun (f_ssd f1) ?p = Some x"
    using get_lun_eq [OF phys_invD(1) [OF ph]] real_ppaD(5) [OF p(2)] sp by simp
  show ?thesis
  proof (cases "a = flashpgs_per_blk ?sp - 1")
    case False
    then show ?thesis using lun 2(1) at2 E' by (auto simp: gc_step_def sp Let_def)
  next
    case True
    obtain f3 e3 where 3: "mark_block_free ?p f2 e2 = Some (f3, e3)" "gc_at v f e D' E' f3 e3"
      using gc_at_erase [OF at2 p(2) ps(3), of "block_pages ?sp c l v"] last [OF True] E E' True ps by auto
    let ?cmd = "\<lparr>nc_type = GC_IO, nc_cmd = NAND_ERASE, nc_xfer_size = 0,
                nc_stime = 0, nc_interleave_pci_dma = False, nc_ppa = ?p\<rparr>"
    have gi3: "gc_inv f3 v D'" "env_ok e3" and sp3: "f_sp f3 = ?sp" using 3(2) by (auto simp: gc_at_def gc_rel_def)
    have ph3: "phys_inv f3 {v} None" using gi3 by (simp add: gc_inv_def)
    obtain t s' sh' where n: "nand clk ?cmd f3 e3 = Some (t, f3\<lparr>f_ssd := s'\<rparr>, e3\<lparr>e_sh := sh'\<rparr>)"
      "ssd_ok s'" "same_nand (f_ssd f3) s'" "sh_timing (e_sh e3) sh'"
      using nand_returns [OF ph3 gi3(2), of ?cmd clk] p sp3 by auto
    obtain f4 e4 where 4: "(if enable_gc_delay (f_cp f3) then do { (_, f', e') \<leftarrow> nand clk ?cmd f3 e3; Some (f', e') }
        else Some (f3, e3)) = Some (f4, e4)" "gc_at v f e D' E' f4 e4"
      using n gc_at_timing [OF 3(2) n(2-4)] 3(2) by (cases "enable_gc_delay (f_cp f3)") auto
    have gi4: "gc_inv f4 v D'" "env_ok e4" and sp4: "f_sp f4 = ?sp" using 4(2) by (auto simp: gc_at_def gc_rel_def)
    have ok4: "ssd_ok (f_ssd f4)" using gi4 phys_invD(1) by (auto simp: gc_inv_def)
    let ?l = "ch_lun (ssd_ch (f_ssd f4) ! g_ch ?p) ! g_lun ?p"
    let ?s5 = "put_lun (f_ssd f4) ?p (?l\<lparr>lun_gc_endtime := next_lun_avail_time ?l\<rparr>)"
    have vp: "valid_ppa (f_sp f4) ?p" using real_ppaD(5) [OF p(2)] sp4 by simp
    have 5: "set_gc_endtime ?p f4 = Some (f4\<lparr>f_ssd := ?s5\<rparr>)"
      using get_lun_eq(1) [OF ok4 vp] by (simp add: set_gc_endtime_def)
    have "sh_timing (e_sh e4) (e_sh e4)" using gi4(2) by (simp add: sh_timing_def env_ok_def)
    from gc_at_timing [OF 4(2) put_lun_timing [OF ok4 vp] this] have "gc_at v f e D' E' (f4\<lparr>f_ssd := ?s5\<rparr>) e4"
      by simp
    moreover obtain x where "get_lun (f_ssd f1) ?p = Some x" using lun by blast
    then have "gc_step clk v a c l f1 e1 = Some (f4\<lparr>f_ssd := ?s5\<rparr>, e4)"
      by (simp only: gc_step_def Let_def sp 2(1) 3(1) 4(1) 5 if_P [OF True] Option.bind.simps prod.case)
    ultimately show ?thesis by blast
  qed
qed

section \<open>The loop nest\<close>

definition pos_before :: "nat \<Rightarrow> nat \<Rightarrow> ppa \<Rightarrow> bool" where
  "pos_before c l q \<longleftrightarrow> g_ch q < c \<or> g_ch q = c \<and> g_lun q < l"

definition visited :: "ssdparams \<Rightarrow> nat \<Rightarrow> nat \<Rightarrow> nat \<Rightarrow> nat \<Rightarrow> ppa set" where
  "visited sp v a c l = {q \<in> line_pages sp v. g_pg q div pgs_per_flashpg sp < a \<or>
     g_pg q div pgs_per_flashpg sp = a \<and> pos_before c l q}"

definition erased :: "ssdparams \<Rightarrow> nat \<Rightarrow> nat \<Rightarrow> nat \<Rightarrow> nat \<Rightarrow> ppa set" where
  "erased sp v a c l = {q \<in> line_pages sp v. flashpgs_per_blk sp \<le> a \<or>
     Suc a = flashpgs_per_blk sp \<and> pos_before c l q}"

lemma flash_index_less:
  assumes "geo_ok sp" "q \<in> line_pages sp v"
  shows "g_pg q div pgs_per_flashpg sp < flashpgs_per_blk sp" "g_ch q < nchs sp" "g_lun q < luns_per_ch sp"
  using real_ppaD [of sp q] assms geo_pos(5) [OF assms(1)] geo_eqs(4) [OF assms(1)]
  by (auto simp: line_pages_def div_less_iff_less_mult mult.commute)

lemma nest_sets:
  assumes g: "geo_ok sp"
  shows "visited sp v 0 0 0 = {}" "erased sp v 0 0 0 = {}"
    "visited sp v a c (Suc l) = visited sp v a c l \<union> flash_pages sp v a c l"
    "visited sp v a c l \<inter> flash_pages sp v a c l = {}"
    "a < flashpgs_per_blk sp \<Longrightarrow> erased sp v a c (Suc l) =
       (if a = flashpgs_per_blk sp - 1 then erased sp v a c l \<union> block_pages sp c l v else erased sp v a c l)"
    "a < flashpgs_per_blk sp \<Longrightarrow> erased sp v a c l \<inter> block_pages sp c l v = {}"
    "visited sp v a (Suc c) 0 = visited sp v a c (luns_per_ch sp)"
    "erased sp v a (Suc c) 0 = erased sp v a c (luns_per_ch sp)"
    "visited sp v (Suc a) 0 0 = visited sp v a (nchs sp) 0"
    "a < flashpgs_per_blk sp \<Longrightarrow> erased sp v (Suc a) 0 0 = erased sp v a (nchs sp) 0"
    "visited sp v (flashpgs_per_blk sp) 0 0 = line_pages sp v" "erased sp v (flashpgs_per_blk sp) 0 0 = line_pages sp v"
  using flash_index_less [OF g] geo_pgs_pos(3) [OF g]
  by (auto simp: visited_def erased_def pos_before_def flash_pages_def block_pages_def line_pages_def
      less_Suc_eq less_Suc_eq_le)

lemma last_flash_page:
  assumes g: "geo_ok sp" and a: "a = flashpgs_per_blk sp - 1"
  shows "block_pages sp c l v \<subseteq> visited sp v a c (Suc l)"
proof
  fix q assume "q \<in> block_pages sp c l v"
  then have q: "q \<in> line_pages sp v" "g_ch q = c" "g_lun q = l" by (auto simp: block_pages_def line_pages_def)
  with flash_index_less(1) [OF g q(1)] a show "q \<in> visited sp v a c (Suc l)"
    by (simp add: visited_def pos_before_def) linarith
qed

lemma erased_finite: "geo_ok sp \<Longrightarrow> v < blks_per_pl sp \<Longrightarrow> finite (erased sp v a c l)"
  using line_pages_card(2) by (simp add: erased_def)

lemma gc_loops:
  assumes gi: "gc_inv f v {}" and e: "env_ok e"
    and nf: "\<forall>q\<in>line_pages (f_sp f) v. pst (f_ssd f) q \<noteq> PG_FREE"
  shows "\<exists>f' e'. foldM (\<lambda>flashpg. foldM (\<lambda>ch. foldM (\<lambda>lun (f, e).
              gc_step clk v flashpg ch lun f e) [0..<luns_per_ch (f_sp f)]) [0..<nchs (f_sp f)])
            [0..<flashpgs_per_blk (f_sp f)] (f, e) = Some (f', e') \<and>
     gc_at v f e (line_pages (f_sp f) v) (line_pages (f_sp f) v) f' e'"
proof -
  let ?sp = "f_sp f"
  have g: "geo_ok ?sp" and v: "v < blks_per_pl ?sp" using gi phys_invD(2) by (auto simp: gc_inv_def)
  note ns = nest_sets [OF g, where v = v]
  let ?P = "\<lambda>a c l (f', e'). gc_at v f e (visited ?sp v a c l) (erased ?sp v a c l) f' e'"
  have inner: "\<exists>s'. foldM (\<lambda>lun (f, e). gc_step clk v a c lun f e) [0..<luns_per_ch ?sp] s = Some s' \<and>
      ?P a c (luns_per_ch ?sp) s'" if "?P a c 0 s" "a < flashpgs_per_blk ?sp" "c < nchs ?sp" for a c s
  proof (rule foldM_upt_total [where P = "?P a c"])
    show "\<exists>s''. (\<lambda>(f, e). gc_step clk v a c l f e) s' = Some s'' \<and> ?P a c (Suc l) s''"
      if l: "l < luns_per_ch ?sp" and P: "?P a c l s'" for l s'
    proof (cases s')
      case (Pair f1 e1)
      have "\<exists>f2 e2. gc_step clk v a c l f1 e1 = Some (f2, e2) \<and>
          gc_at v f e (visited ?sp v a c (Suc l)) (erased ?sp v a c (Suc l)) f2 e2"
        by (rule gc_step_at [OF _ \<open>a < _\<close> \<open>c < _\<close> l ns(3) ns(4) ns(5) ns(6) _ last_flash_page [OF g] nf])
          (use P Pair \<open>a < _\<close> erased_finite [OF g v] in auto)
      then show ?thesis using Pair by auto
    qed
  qed (use that in auto)
  have middle: "\<exists>s'. foldM (\<lambda>ch. foldM (\<lambda>lun (f, e). gc_step clk v a ch lun f e) [0..<luns_per_ch ?sp])
      [0..<nchs ?sp] s = Some s' \<and> ?P a (nchs ?sp) 0 s'" if "?P a 0 0 s" "a < flashpgs_per_blk ?sp" for a s
  proof (rule foldM_upt_total [where P = "\<lambda>c. ?P a c 0"])
    show "\<exists>s''. foldM (\<lambda>lun (f, e). gc_step clk v a c lun f e) [0..<luns_per_ch ?sp] s' = Some s'' \<and> ?P a (Suc c) 0 s''"
      if "c < nchs ?sp" "?P a c 0 s'" for c s'
      using inner [OF that(2) \<open>a < _\<close> that(1)] by (simp add: ns(7,8))
  qed (use that in auto)
  have "\<exists>s'. foldM (\<lambda>flashpg. foldM (\<lambda>ch. foldM (\<lambda>lun (f, e).
              gc_step clk v flashpg ch lun f e) [0..<luns_per_ch ?sp]) [0..<nchs ?sp])
            [0..<flashpgs_per_blk ?sp] (f, e) = Some s' \<and> ?P (flashpgs_per_blk ?sp) 0 0 s'"
  proof (rule foldM_upt_total [where P = "\<lambda>a. ?P a 0 0"])
    show "?P 0 0 0 (f, e)" using gc_at_start [OF gi e] by (simp add: ns(1,2))
    show "\<exists>s''. foldM (\<lambda>ch. foldM (\<lambda>lun (f, e). gc_step clk v a ch lun f e) [0..<luns_per_ch ?sp])
        [0..<nchs ?sp] s' = Some s'' \<and> ?P (Suc a) 0 0 s''" if "a < flashpgs_per_blk ?sp" "?P a 0 0 s'" for a s'
      using middle [OF that(2,1)] that(1) by (simp add: ns(9,10))
  qed simp
  then show ?thesis by (auto simp: ns(11,12))
qed

end
