(* ===== verification/Fdp_Dogc.thy ===== *)
theory Fdp_Dogc
  imports Fdp_Victim
begin

text \<open>
  The ends of a collection, choosing the victim and freeing its line, and \<open>do_gc\<close> as a whole.
\<close>

section \<open>Choosing the victim\<close>

text \<open>What a victim chosen from \<open>f\<close> looks like, and the state with it taken off the queue.\<close>

definition chosen :: "fdp_ftl \<Rightarrow> nat \<Rightarrow> fdp_line_mgmt \<Rightarrow> bool" where
  "chosen f v lm1 \<longleftrightarrow> v \<in> victims f \<and> phys_inv (f\<lparr>f_lm := lm1\<rparr>) {v} None \<and>
     free_line_list lm1 = free_line_list (f_lm f) \<and> pq_elems (victim_line_pq lm1) = victims f - {v} \<and>
     lm_lines lm1 ! v = (f_lines f ! v)\<lparr>ln_pos := 0\<rparr> \<and>
     (\<forall>b\<in>victims f. ln_vpc (f_lines f ! v) \<le> ln_vpc (f_lines f ! b))"

lemma lm_upd_sel:
  "wps (f\<lparr>f_lm := x\<rparr>) = wps f" "opens (f\<lparr>f_lm := x\<rparr>) = opens f"
  "victims (f\<lparr>f_lm := x\<rparr>) = pq_elems (victim_line_pq x)" "frontier (f\<lparr>f_lm := x\<rparr>) pend = frontier f pend"
  by (simp_all add: wps_def opens_def victims_def frontier_def fun_eq_iff)

lemma victims_finite: "phys_inv f vic pend \<Longrightarrow> finite (victims f)"
  using lines_bounded [of f vic pend] finite_subset [of "victims f" "{..<blks_per_pl (f_sp f)}"] by auto

lemma victim_pri_eq:
  assumes inv: "phys_inv f {} None" and b: "b < blks_per_pl (f_sp f)"
  shows "victim_line_get_pri (f_lines f) b = cnt (pst (f_ssd f)) (line_pages (f_sp f) b) PG_VALID"
proof -
  note g = phys_invD(2) [OF inv]
  have "cnt (pst (f_ssd f)) (line_pages (f_sp f) b) PG_VALID \<le> pgs_per_line (f_sp f)"
    using cnt_le [OF line_pages_card(2) [OF g b], of "pst (f_ssd f)" PG_VALID] line_pages_card(1) [OF g b] by simp
  then show ?thesis
    using line_vpc(1) [OF inv b] geo_le(7) [OF g] by (simp add: victim_line_get_pri_def nat_mod_distrib)
qed

lemma pop_victim:
  assumes inv: "phys_inv f {} None" and ne: "victims f \<noteq> {}"
  defines "v \<equiv> pq_d (victim_line_pq (f_lm f)) ! 1"
  shows "pqueue_peek (victim_line_pq (f_lm f)) = Some (Some v)" "v \<in> victims f"
    "\<forall>b\<in>victims f. ln_vpc (f_lines f ! v) \<le> ln_vpc (f_lines f ! b)"
    "\<exists>q' ls'. pqueue_pop (victim_line_pq (f_lm f)) (f_lines f) = Some (Some v, q', ls') \<and>
       vq_wired q' \<and> pq_inv (\<lambda>ls a. a < length ls) q' ls' \<and> length (pq_d q') = blks_per_pl (f_sp f) + 1 \<and>
       pq_elems q' = victims f - {v} \<and> length ls' = length (f_lines f) \<and>
       (\<forall>c<length ls'. (ls' ! c)\<lparr>ln_pos := 0\<rparr> = (f_lines f ! c)\<lparr>ln_pos := 0\<rparr> \<and>
          (c \<notin> victims f \<longrightarrow> ln_pos (ls' ! c) = 0))"
proof -
  let ?q = "victim_line_pq (f_lm f)"
  have w: "vq_wired ?q" and qi: "pq_inv (\<lambda>ls a. a < length ls) ?q (f_lines f)"
    and ql: "length (pq_d ?q) = blks_per_pl (f_sp f) + 1"
    using phys_invD(8) [OF inv] by (auto simp: pq_ok_def)
  have ne': "pq_elems ?q \<noteq> {}" using ne by (simp add: victims_def)
  note pk = vq.pqueue_peek_correct(2) [OF w qi ne']
  show "pqueue_peek ?q = Some (Some v)" and v: "v \<in> victims f" using pk by (auto simp: v_def victims_def)
  have bd: "b < blks_per_pl (f_sp f)" if "b \<in> victims f" for b using lines_bounded [OF inv] that by auto
  show "\<forall>b\<in>victims f. ln_vpc (f_lines f ! v) \<le> ln_vpc (f_lines f ! b)"
  proof
    fix b assume b: "b \<in> victims f"
    then have "\<not> victim_line_cmp_pri (victim_line_get_pri (f_lines f) v) (victim_line_get_pri (f_lines f) b)"
      using pk by (simp add: v_def victims_def)
    then show "ln_vpc (f_lines f ! v) \<le> ln_vpc (f_lines f ! b)"
      using victim_pri_eq [OF inv] line_vpc(1) [OF inv] bd [OF b] bd [OF v] by (simp add: victim_line_cmp_pri_def)
  qed
  obtain q' ls' where pop: "pqueue_pop ?q (f_lines f) = Some (Some v, q', ls')" "vq_wired q'"
    "pq_inv (\<lambda>ls a. a < length ls) q' ls'" "length (pq_d q') = length (pq_d ?q)" "pq_elems q' = victims f - {v}"
    and fr: "store_frame victim_line_get_pri victim_line_get_pos (\<lambda>ls a. a < length ls) line_rest (pq_elems ?q) (f_lines f) ls'"
    using vq.pqueue_pop_correct [OF w qi ne'] by (auto simp: v_def victims_def)
  have rest: "line_rest ls' = line_rest (f_lines f)" using fr by (simp add: store_frame_def)
  have len: "length ls' = length (f_lines f)" by (rule line_rest_nth(1) [OF rest])
  have "ln_pos (ls' ! c) = 0" if "c < length ls'" "c \<notin> victims f" for c
  proof -
    have "ln_pos (f_lines f ! c) = 0"
      using phys_invD(7,11) [OF inv] that len by (simp add: line_inv_def)
    moreover have "victim_line_get_pos ls' c = victim_line_get_pos (f_lines f) c"
      using fr that(2) by (simp add: store_frame_def victims_def)
    ultimately show ?thesis by (simp add: victim_line_get_pos_def)
  qed
  then show "\<exists>q' ls'. pqueue_pop ?q (f_lines f) = Some (Some v, q', ls') \<and>
       vq_wired q' \<and> pq_inv (\<lambda>ls a. a < length ls) q' ls' \<and> length (pq_d q') = blks_per_pl (f_sp f) + 1 \<and>
       pq_elems q' = victims f - {v} \<and> length ls' = length (f_lines f) \<and>
       (\<forall>c<length ls'. (ls' ! c)\<lparr>ln_pos := 0\<rparr> = (f_lines f ! c)\<lparr>ln_pos := 0\<rparr> \<and>
          (c \<notin> victims f \<longrightarrow> ln_pos (ls' ! c) = 0))"
    using pop ql len line_rest_nth(2) [OF rest] by (intro exI [of _ q'] exI [of _ ls'] conjI) auto
qed

lemma take_victim_inv:
  assumes inv: "phys_inv f {} None" and v: "v \<in> victims f"
    and lm1: "free_line_list lm1 = free_line_list (f_lm f)" "free_line_cnt lm1 = free_line_cnt (f_lm f)"
      "full_line_list lm1 = full_line_list (f_lm f)" "full_line_cnt lm1 = full_line_cnt (f_lm f)"
      "victim_line_cnt lm1 = card (victims f - {v})" "pq_elems (victim_line_pq lm1) = victims f - {v}"
    and len: "length (lm_lines lm1) = length (f_lines f)"
    and ln: "\<And>c. c < length (f_lines f) \<Longrightarrow> (lm_lines lm1 ! c)\<lparr>ln_pos := 0\<rparr> = (f_lines f ! c)\<lparr>ln_pos := 0\<rparr> \<and>
       (ln_pos (lm_lines lm1 ! c) = 0 \<longleftrightarrow> c \<notin> victims f - {v})"
    and pq: "pq_ok (f\<lparr>f_lm := lm1\<rparr>)"
  shows "phys_inv (f\<lparr>f_lm := lm1\<rparr>) {v} None"
proof -
  let ?f1 = "f\<lparr>f_lm := lm1\<rparr>"
  note same = lm_upd_sel lm1
  note ll = phys_invD(11) [OF inv]
  have eqs: "ln_id (lm_lines lm1 ! c) = ln_id (f_lines f ! c)" "ln_vpc (lm_lines lm1 ! c) = ln_vpc (f_lines f ! c)"
    "ln_ipc (lm_lines lm1 ! c) = ln_ipc (f_lines f ! c)" "ln_ruh (lm_lines lm1 ! c) = ln_ruh (f_lines f ! c)"
    if "c < length (f_lines f)" for c
    using ln_pos_eqD [of "lm_lines lm1 ! c" "f_lines f ! c"] ln [OF that] by auto
  have "open_inv ?f1 None" using phys_invD(4) [OF inv] by (simp add: open_inv_def same)
  moreover have "part_inv ?f1 {v}" using phys_invD(5) [OF inv] v by (auto simp: part_inv_def same)
  moreover have "state_inv ?f1" using phys_invD(6) [OF inv] by (auto simp: state_inv_def same)
  moreover have "line_inv ?f1 {v}"
    using phys_invD(7) [OF inv] ln eqs ll len wp_facts(3) [OF inv] by (auto simp: line_inv_def line_ruh_ok_def same)
  ultimately show ?thesis using inv pq by (simp add: phys_inv_def)
qed

lemma select_victim_none: "phys_inv f {} None \<Longrightarrow> victims f = {} \<Longrightarrow> select_victim_line force f = Some (None, f)"
  using vq.pqueue_peek_correct(1) [of "victim_line_pq (f_lm f)" "f_lines f"] phys_invD(8) [of f "{}" None]
  by (auto simp: select_victim_line_def Let_def victims_def pq_ok_def)

lemma select_victim_some:
  assumes inv: "phys_inv f {} None" and ne: "victims f \<noteq> {}"
  shows "\<exists>v lm1. chosen f v lm1 \<and>
     (force \<or> ln_vpc (f_lines f ! v) \<le> int (pgs_per_line (f_sp f) div 8) \<longrightarrow>
        select_victim_line force f = Some (Some v, f\<lparr>f_lm := lm1\<rparr>)) \<and>
     (\<not> force \<and> ln_vpc (f_lines f ! v) > int (pgs_per_line (f_sp f) div 8) \<longrightarrow>
        select_victim_line force f = Some (None, f))"
proof -
  note pv = pop_victim [OF inv ne]
  define v where "v = pq_d (victim_line_pq (f_lm f)) ! 1"
  note pv = pv [folded v_def]
  obtain q' ls' where pop: "pqueue_pop (victim_line_pq (f_lm f)) (f_lines f) = Some (Some v, q', ls')"
    "vq_wired q'" "pq_inv (\<lambda>ls a. a < length ls) q' ls'" "length (pq_d q') = blks_per_pl (f_sp f) + 1"
    "pq_elems q' = victims f - {v}" "length ls' = length (f_lines f)"
    "\<forall>c<length ls'. (ls' ! c)\<lparr>ln_pos := 0\<rparr> = (f_lines f ! c)\<lparr>ln_pos := 0\<rparr> \<and> (c \<notin> victims f \<longrightarrow> ln_pos (ls' ! c) = 0)"
    using pv(4) by blast
  have vb: "v < length (f_lines f)" using lines_bounded [OF inv] pv(2) phys_invD(11) [OF inv] by auto
  let ?ls = "ls'[v := (ls' ! v)\<lparr>ln_pos := 0\<rparr>]"
  let ?lm1 = "(f_lm f)\<lparr>victim_line_pq := q', lm_lines := ?ls, victim_line_cnt := card (victims f - {v})\<rparr>"
  have gt: "1 \<le> ln_pos (ls' ! c)" if "c \<in> victims f - {v}" for c
    using vq.pq_elemE(1) [OF pop(2,3), of c] that pop(5) by (simp add: victim_line_get_pos_def)
  have qi: "pq_inv (\<lambda>ls a. a < length ls) q' ?ls"
    by (rule pq_inv_cong [OF pop(3)])
      (use pop vb vq.pq_elemE(4) [OF pop(2,3)] in \<open>auto simp: pq_wired_def victim_line_defs nth_list_update\<close>)
  have "phys_inv (f\<lparr>f_lm := ?lm1\<rparr>) {v} None"
  proof (rule take_victim_inv [OF inv pv(2)])
    show "pq_ok (f\<lparr>f_lm := ?lm1\<rparr>)" using qi pop by (simp add: pq_ok_def)
    show "(lm_lines ?lm1 ! c)\<lparr>ln_pos := 0\<rparr> = (f_lines f ! c)\<lparr>ln_pos := 0\<rparr> \<and>
       (ln_pos (lm_lines ?lm1 ! c) = 0 \<longleftrightarrow> c \<notin> victims f - {v})" if "c < length (f_lines f)" for c
      using pop(6,7) that vb gt [of c] by (auto simp: nth_list_update)
  qed (use pop in simp_all)
  then have ch: "chosen f v ?lm1" using pv pop(5-7) vb by (simp add: chosen_def)
  have cnt: "u32_sub (victim_line_cnt (f_lm f)) 1 = card (victims f - {v})"
  proof -
    have "victim_line_cnt (f_lm f) = card (victims f)" using phys_invD(5) [OF inv] by (simp add: part_inv_def)
    moreover have "card (victims f) = Suc (card (victims f - {v}))"
      using card_Suc_Diff1 [OF victims_finite [OF inv] pv(2)] by simp
    moreover have "card (victims f) \<le> card {..<blks_per_pl (f_sp f)}"
      by (rule card_mono) (use lines_bounded [OF inv] in auto)
    ultimately show ?thesis using geo_le(3) [OF phys_invD(2) [OF inv]] by (simp add: u32_sub_id)
  qed
  show ?thesis
    using ch pv(1) pop(1,6) vb cnt
    by (intro exI [of _ v] exI [of _ ?lm1]) (auto simp: select_victim_line_def Let_def)
qed

section \<open>Freeing the line\<close>

lemma mark_line_free_inv:
  assumes gi: "gc_inv f v (line_pages (f_sp f) v)" and fr: "\<forall>q\<in>line_pages (f_sp f) v. pst (f_ssd f) q = PG_FREE"
    and b: "g_blk p = v"
  shows "\<exists>lm'. mark_line_free p f = Some (f\<lparr>f_lm := lm'\<rparr>) \<and> ftl_inv (f\<lparr>f_lm := lm'\<rparr>) \<and>
     free_line_list lm' = free_line_list (f_lm f) @ [v] \<and> pq_elems (victim_line_pq lm') = victims f"
proof -
  let ?sp = "f_sp f" and ?lm = "f_lm f"
  have ph: "phys_inv f {v} None" and m: "map_inv f (line_pages ?sp v)" and v: "v < blks_per_pl ?sp"
    using gi by (auto simp: gc_inv_def)
  have P: "part_inv f {v}" by (rule phys_invD(5) [OF ph])
  have vl: "v < length (f_lines f)" using v phys_invD(11) [OF ph] by simp
  let ?ln = "f_lines f ! v"
  let ?ls = "(f_lines f)[v := ?ln\<lparr>ln_ipc := 0, ln_vpc := 0, ln_ruh := -1\<rparr>]"
  let ?lm' = "?lm\<lparr>lm_lines := ?ls, free_line_list := free_line_list ?lm @ [v],
      free_line_cnt := length (free_line_list ?lm) + 1\<rparr>"
  let ?f' = "f\<lparr>f_lm := ?lm'\<rparr>"
  have "length (free_line_list ?lm) \<le> blks_per_pl ?sp"
    by (rule distinct_bounded_length) (use P lines_bounded [OF ph] in \<open>auto simp: part_inv_def\<close>)
  then have "u32 (free_line_cnt ?lm + 1) = length (free_line_list ?lm) + 1"
    using P geo_le(3) [OF phys_invD(2) [OF ph]] by (simp add: part_inv_def u32_id)
  then have r: "mark_line_free p f = Some ?f'"
    using vl b by (simp add: mark_line_free_def get_line_def Let_def list_add_tail_def)
  note same = lm_upd_sel
  have op: "wp_blk (wps f ! k) \<noteq> v" if "k \<le> FDP_NR_RUH" for k
    using open_line_excl(1) [OF ph wp_facts(4) [OF ph that]] by simp
  have nv: "v \<notin> victims f" using P by (auto simp: part_inv_def)
  have c0: "cnt (pst (f_ssd f)) (line_pages ?sp v) PG_VALID = 0" "cnt (pst (f_ssd f)) (line_pages ?sp v) PG_INVALID = 0"
    using fr by (auto intro: cnt_none)
  have "open_inv ?f' None" using phys_invD(4) [OF ph] by (simp add: open_inv_def same)
  moreover have "part_inv ?f' {}" using P by (auto simp: part_inv_def same victims_def)
  moreover have "state_inv ?f'" using phys_invD(6) [OF ph] fr by (auto simp: state_inv_def same victims_def)
  moreover have "line_ruh_ok ?f'"
    using phys_invD(7) [OF ph] vl op [THEN not_sym]
    by (auto simp: line_inv_def line_ruh_ok_def same nth_list_update)
  then have "line_inv ?f' {}"
    using phys_invD(7) [OF ph] vl c0 by (auto simp: line_inv_def same nth_list_update victims_def)
  moreover have "pq_ok ?f'"
    by (rule pq_ok_cong [OF phys_invD(8) [OF ph]]) (use vl nv in \<open>auto simp: nth_list_update\<close>)
  ultimately have ph': "phys_inv ?f' {} None" using ph by (simp add: phys_inv_def)
  have "live_page ?f' {} q = live_page f (line_pages ?sp v) q" for q
    using fr by (auto simp: live_page_def line_pages_def)
  then have "map_inv ?f' {}" using m unfolding map_inv_live by simp
  with ph' r show ?thesis by (intro exI [of _ ?lm']) (simp add: ftl_inv_def victims_def)
qed

section \<open>A whole collection\<close>

lemma gc_emit_ok:
  assumes e: "env_ok e"
  shows "\<exists>e'. gc_emit clk ty flags pid nsid e = Some e' \<and> env_ok e' \<and> e_sched e' = e_sched e \<and>
     sh_wbuf (e_sh e') = sh_wbuf (e_sh e) \<and> hbmw (e_ctx e') = hbmw (e_ctx e) \<and> mbmw (e_ctx e') = mbmw (e_ctx e) \<and>
     mbe (e_ctx e') = mbe (e_ctx e) \<and> ruh_attr (e_ctx e') = ruh_attr (e_ctx e) \<and> events (e_ctx e') = events (e_ctx e)"
proof (cases "event_enabled (events (e_ctx e)) ty")
  case True
  have c: "ctx_ok (e_ctx e)" using e by (simp add: env_ok_def)
  obtain x where x: "fdp_emit_event (fst (get_clock clk (e_sh e))) ty flags pid nsid (e_ctx e) = Some x" "ctx_ok x"
    and eq: "x = (e_ctx e)\<lparr>ring := ring x, ring_head := ring_head x, nr_events := nr_events x\<rparr>"
    using emit_recent_events [OF c True, of "fst (get_clock clk (e_sh e))" flags pid nsid] by auto
  have "hbmw x = hbmw (e_ctx e)" "mbmw x = mbmw (e_ctx e)" "mbe x = mbe (e_ctx e)" "ruh_attr x = ruh_attr (e_ctx e)"
    "events x = events (e_ctx e)" by (subst eq, simp)+
  then show ?thesis using e True x by (simp add: gc_emit_def env_ok_def get_clock_def shared_ok_def)
next
  case False
  then show ?thesis using e by (simp add: gc_emit_def fdp_emit_event_def)
qed

definition free_pages :: "fdp_ftl \<Rightarrow> nat" where
  "free_pages f = card {q. real_ppa (f_sp f) q \<and> pst (f_ssd f) q = PG_FREE}"

text \<open>The collection of the victim \<open>v\<close> takes \<open>(f, e)\<close> to \<open>(f', e')\<close>.\<close>

definition collected :: "nat \<Rightarrow> fdp_ftl \<Rightarrow> fdp_env \<Rightarrow> fdp_ftl \<Rightarrow> fdp_env \<Rightarrow> bool" where
  "collected v f e f' e' \<longleftrightarrow>
     ftl_inv f' \<and> env_ok e' \<and> f_sp f' = f_sp f \<and> f_cp f' = f_cp f \<and>
     v \<in> set (free_line_list (f_lm f')) \<and>
     free_pages f' = free_pages f + cnt (pst (f_ssd f)) (line_pages (f_sp f) v) PG_INVALID \<and>
     length (free_line_list (f_lm f)) \<le> length (free_line_list (f_lm f')) \<and>
     (\<forall>lpn<tt_pgs (f_sp f).
        (f_maptbl f' ! lpn = unmapped_ppa \<longleftrightarrow> f_maptbl f ! lpn = unmapped_ppa) \<and>
        (g_blk (f_maptbl f ! lpn) \<noteq> v \<longrightarrow> f_maptbl f' ! lpn = f_maptbl f ! lpn)) \<and>
     write_credits (f_wfc f') = write_credits (f_wfc f) \<and>
     credits_to_refill (f_wfc f') = cnt (pst (f_ssd f)) (line_pages (f_sp f) v) PG_INVALID \<and>
     hbmw (e_ctx e') = hbmw (e_ctx e) \<and>
     mbmw (e_ctx e') mod 2 ^ 64 =
       (mbmw (e_ctx e) + pgsz (f_sp f) * cnt (pst (f_ssd f)) (line_pages (f_sp f) v) PG_VALID) mod 2 ^ 64 \<and>
     mbe (e_ctx e') mod 2 ^ 64 = (mbe (e_ctx e) + pgsz (f_sp f) * pgs_per_line (f_sp f)) mod 2 ^ 64 \<and>
     ruh_attr (e_ctx e') = ruh_attr (e_ctx e) \<and> events (e_ctx e') = events (e_ctx e) \<and>
     sh_wbuf (e_sh e') = sh_wbuf (e_sh e) \<and> e_sched e' = e_sched e"

lemma gcroom_lines:
  assumes ph: "phys_inv f vic None" "phys_inv f' vic' None" and sp: "f_sp f' = f_sp f"
    and eq: "gcroom f = gcroom f' + k" and k: "k < pgs_per_line (f_sp f)"
  shows "length (free_line_list (f_lm f)) \<le> Suc (length (free_line_list (f_lm f')))"
proof (rule ccontr)
  let ?n = "pgs_per_line (f_sp f)" and ?l = "length (free_line_list (f_lm f))" and ?l' = "length (free_line_list (f_lm f'))"
  assume "\<not> ?l \<le> Suc ?l'"
  then have "?n * (?l' + 2) \<le> ?n * ?l" by (intro mult_le_mono2) simp
  moreover have "gcroom f' \<le> ?n + ?n * ?l'" by (simp add: gcroom_def sp)
  moreover have "?n * ?l < gcroom f"
    using wpi_less [OF phys_invD(2) [OF ph(1)] wp_facts(2) [OF ph(1) order_refl]] by (simp add: gcroom_def)
  ultimately show False using eq k by (simp add: algebra_simps)
qed

lemma free_pages_split:
  assumes g: "geo_ok (f_sp f)" and v: "v < blks_per_pl (f_sp f)"
  shows "free_pages f = card (free_out f v) + cnt (pst (f_ssd f)) (line_pages (f_sp f) v) PG_FREE"
proof -
  have "{q. real_ppa (f_sp f) q \<and> pst (f_ssd f) q = PG_FREE} =
      free_out f v \<union> {q \<in> line_pages (f_sp f) v. pst (f_ssd f) q = PG_FREE}"
    by (auto simp: free_out_def line_pages_def)
  moreover have "finite (free_out f v)"
    by (rule finite_subset [OF _ real_pages_finite [OF g]]) (auto simp: free_out_def)
  moreover have "free_out f v \<inter> {q \<in> line_pages (f_sp f) v. pst (f_ssd f) q = PG_FREE} = {}"
    by (auto simp: free_out_def line_pages_def)
  ultimately show ?thesis unfolding free_pages_def cnt_def using line_pages_card(2) [OF g v]
    by (simp add: card_Un_disjoint)
qed

lemma do_gc_collects:
  assumes inv: "ftl_inv f" and e: "env_ok e" and free: "free_line_list (f_lm f) \<noteq> []"
    and ch: "chosen f v lm1" and sel: "select_victim_line force f = Some (Some v, f\<lparr>f_lm := lm1\<rparr>)"
  shows "\<exists>f' e'. do_gc clk force f e = Some (0, f', e') \<and> collected v f e f' e'"
proof -
  let ?sp = "f_sp f" and ?f1 = "f\<lparr>f_lm := lm1\<rparr>" and ?ln = "lm_lines lm1 ! v"
  have ph: "phys_inv f {} None" and m: "map_inv f {}" using inv by (auto simp: ftl_inv_def)
  have ph1: "phys_inv ?f1 {v} None" and vv: "v \<in> victims f" and fl: "free_line_list lm1 = free_line_list (f_lm f)"
    and lnv: "?ln = (f_lines f ! v)\<lparr>ln_pos := 0\<rparr>" using ch by (auto simp: chosen_def)
  note g = phys_invD(2) [OF ph]
  have v: "v < blks_per_pl ?sp" using lines_bounded [OF ph] vv by auto
  have vl: "v < length (lm_lines lm1)" using phys_invD(11) [OF ph1] v by simp
  have id: "ln_id ?ln = v" using phys_invD(7) [OF ph1] v by (simp add: line_inv_def)
  have ipc: "ln_ipc ?ln = int (cnt (pst (f_ssd f)) (line_pages ?sp v) PG_INVALID)"
    using line_vpc(2) [OF ph v] lnv by simp
  have nf: "\<forall>q\<in>line_pages ?sp v. pst (f_ssd f) q \<noteq> PG_FREE"
    and inval: "\<exists>q\<in>line_pages ?sp v. pst (f_ssd f) q = PG_INVALID"
    using phys_invD(6) [OF ph] vv by (auto simp: state_inv_def)
  let ?f2 = "?f1\<lparr>f_wfc := (f_wfc f)\<lparr>credits_to_refill := nat (ln_ipc ?ln)\<rparr>\<rparr>"
  have li: "live_in ?f2 v {} = {q \<in> line_pages ?sp v. pst (f_ssd f) q = PG_VALID}"
    by (auto simp: live_in_def live_page_def line_pages_def)
  have cl: "card (live_in ?f2 v {}) = cnt (pst (f_ssd f)) (line_pages ?sp v) PG_VALID" by (simp add: li cnt_def)
  have clt: "card (live_in ?f2 v {}) < pgs_per_line ?sp"
    unfolding cl using inval cnt_less [OF line_pages_card(2) [OF g v], of _ "pst (f_ssd f)" PG_VALID] line_pages_card(1) [OF g v]
    by force
  have "0 < length (free_line_list (f_lm f))" using free by simp
  then have "pgs_per_line ?sp \<le> pgs_per_line ?sp * length (free_line_list (f_lm f))" by (simp add: Suc_le_eq)
  with clt have "card (live_in ?f2 v {}) < pgs_per_line ?sp * length (free_line_list (f_lm f))" by (rule less_le_trans)
  then have room: "card (live_in ?f2 v {}) < gcroom ?f2" using fl by (simp add: gcroom_def)
  have gi: "gc_inv ?f2 v {}"
    using ph1 m v room by (simp add: gc_inv_def map_inv_def)
  obtain e1 where e1: "(if ln_ruh ?ln \<ge> 0 then gc_emit clk NVME_FDP_EVT_IMPLICIT_MODIFIED_RU NVME_FDP_EVENT_F_PIV
        (nat (ln_ruh ?ln)) 0 e else Some e) = Some e1" and e1k: "env_ok e1" "e_sched e1 = e_sched e"
     "sh_wbuf (e_sh e1) = sh_wbuf (e_sh e)" "hbmw (e_ctx e1) = hbmw (e_ctx e)" "mbmw (e_ctx e1) = mbmw (e_ctx e)"
     "mbe (e_ctx e1) = mbe (e_ctx e)" "ruh_attr (e_ctx e1) = ruh_attr (e_ctx e)" "events (e_ctx e1) = events (e_ctx e)"
    using gc_emit_ok [OF e, of clk NVME_FDP_EVT_IMPLICIT_MODIFIED_RU NVME_FDP_EVENT_F_PIV "nat (ln_ruh ?ln)" 0] e
    by (cases "ln_ruh ?ln \<ge> 0") auto
  obtain f3 e3 where 3: "foldM (\<lambda>flashpg. foldM (\<lambda>ch. foldM (\<lambda>lun (f, e).
              gc_step clk v flashpg ch lun f e) [0..<luns_per_ch ?sp]) [0..<nchs ?sp])
            [0..<flashpgs_per_blk ?sp] (?f2, e1) = Some (f3, e3)"
    and at: "gc_at v ?f2 e1 (line_pages ?sp v) (line_pages ?sp v) f3 e3"
    using gc_loops [OF gi e1k(1), of clk] nf by auto
  have sp3: "f_sp f3 = ?sp" and gi3: "gc_inv f3 v (line_pages (f_sp f3) v)" and rel: "gc_rel v ?f2 e1 f3 e3"
    using at by (auto simp: gc_at_def gc_rel_def)
  have li3: "live_in f3 v (line_pages ?sp v) = {}" using at by (auto simp: gc_at_def live_in_def)
  have fr3: "\<forall>q\<in>line_pages (f_sp f3) v. pst (f_ssd f3) q = PG_FREE" using at sp3 by (simp add: gc_at_def)
  obtain lm' where 4: "mark_line_free (mk_ppa 0 0 0 v 0) f3 = Some (f3\<lparr>f_lm := lm'\<rparr>)" "ftl_inv (f3\<lparr>f_lm := lm'\<rparr>)"
     "free_line_list lm' = free_line_list (f_lm f3) @ [v]"
    using mark_line_free_inv [OF gi3 fr3, of "mk_ppa 0 0 0 v 0"] mk_ppa_real [OF g _ _ v] geo_pos [OF g] geo_pgs_pos [OF g]
    by auto
  have "do_gc clk force f e = Some (0, f3\<lparr>f_lm := lm'\<rparr>, e3)"
    unfolding do_gc_def Let_def using sel vl e1 3 4(1) id by simp
  moreover have "length (free_line_list (f_lm f)) \<le> Suc (length (free_line_list (f_lm f3)))"
  proof -
    have "gcroom ?f2 = gcroom f3 + card (live_in ?f2 v {})" using at li3 by (simp add: gc_at_def)
    moreover have "phys_inv f3 {v} None" "phys_inv ?f2 {v} None" using gi3 gi by (auto simp: gc_inv_def)
    ultimately show ?thesis using gcroom_lines [of ?f2 "{v}" f3 "{v}"] sp3 clt fl by simp
  qed
  moreover have "mbmw (e_ctx e3) mod 2 ^ 64 = (mbmw (e_ctx e) + pgsz ?sp * cnt (pst (f_ssd f)) (line_pages ?sp v) PG_VALID) mod 2 ^ 64"
    "mbe (e_ctx e3) mod 2 ^ 64 = (mbe (e_ctx e) + pgsz ?sp * pgs_per_line ?sp) mod 2 ^ 64"
    using at li3 e1k cl line_pages_card(1) [OF g v] by (simp_all add: gc_at_def)
  moreover have "free_pages (f3\<lparr>f_lm := lm'\<rparr>) = free_pages f + cnt (pst (f_ssd f)) (line_pages ?sp v) PG_INVALID"
  proof -
    let ?L = "line_pages ?sp v"
    have "cnt (pst (f_ssd f)) ?L PG_FREE = 0" using nf by (auto intro: cnt_none)
    then have 1: "free_pages f = card (free_out f v)" and 2: "cnt (pst (f_ssd f)) ?L PG_INVALID +
        cnt (pst (f_ssd f)) ?L PG_VALID = pgs_per_line ?sp"
      using free_pages_split [OF g v] cnt_sum [OF line_pages_card(2) [OF g v], of "pst (f_ssd f)"]
        line_pages_card(1) [OF g v] by simp_all
    have "{q \<in> ?L. pst (f_ssd f3) q = PG_FREE} = ?L" using fr3 sp3 by auto
    then have "free_pages f3 = card (free_out f3 v) + pgs_per_line ?sp"
      using free_pages_split [of f3 v] sp3 g v line_pages_card(1) [OF g v] by (simp add: cnt_def)
    moreover have "card (free_out f3 v) + cnt (pst (f_ssd f)) ?L PG_VALID = card (free_out f v)"
      using at li3 cl by (simp add: gc_at_def free_out_def)
    ultimately show ?thesis using 1 2 by (simp add: free_pages_def)
  qed
  ultimately have "collected v f e (f3\<lparr>f_lm := lm'\<rparr>) e3"
    using 4(2,3) rel sp3 ipc e1k m unfolding collected_def gc_rel_def map_inv_def by simp
  with \<open>do_gc clk force f e = _\<close> show ?thesis by blast
qed

end
