(* ===== verification/Fdp_Init.thy ===== *)
theory Fdp_Init
  imports Fdp_Dogc
begin

text \<open>
  Initialisation: \<open>fdp_init_ftl\<close> on a fresh SSD with at least ten lines returns, and the
  partition it builds satisfies the invariant with every logical page unmapped; then the
  whole namespace of \<open>fdp_init_namespace\<close>.
\<close>

section \<open>Opening the lines of the write pointers\<close>

definition start_wp :: "nat \<Rightarrow> fdp_write_pointer" where
  "start_wp b = \<lparr>wp_curline = Some b, wp_ch = 0, wp_lun = 0, wp_pg = 0, wp_blk = b, wp_pl = 0\<rparr>"

lemma start_wp_sel:
  "wp_curline (start_wp b) = Some b" "wp_pl (start_wp b) = 0" "wp_blk (start_wp b) = b"
  "wp_page (start_wp b) = page_of 0 0 b 0"
  by (simp_all add: start_wp_def wp_page_def)

definition fresh_line :: "nat \<Rightarrow> nat \<Rightarrow> fdp_line" where
  "fresh_line j i = \<lparr>ln_id = i, ln_ipc = 0, ln_vpc = 0, ln_ruh = (if i < j then int i else -1), ln_pos = 0\<rparr>"

text \<open>The state after the write pointers of the first \<open>j\<close> handles have been prepared.\<close>

definition prep :: "nat \<Rightarrow> nat \<Rightarrow> fdp_ftl \<Rightarrow> fdp_ftl" where
  "prep n j f = f\<lparr>f_wp_ruh := map start_wp [0..<j] @ replicate (FDP_NR_RUH - j) null_wp,
     f_lm := (f_lm f)\<lparr>free_line_list := [j..<n], free_line_cnt := n - j, lm_lines := map (fresh_line j) [0..<n]\<rparr>\<rparr>"

lemma next_free_prep:
  assumes "j < n" "n \<le> 65536"
  shows "get_next_free_line (prep n j f) = (Some j, (prep n j f)\<lparr>f_lm := (f_lm (prep n j f))\<lparr>
     free_line_list := [Suc j..<n], free_line_cnt := n - Suc j\<rparr>\<rparr>)"
proof -
  have "[j..<n] = j # [Suc j..<n]" using assms by (simp add: upt_conv_Cons)
  then show ?thesis
    using assms by (simp add: get_next_free_line_def prep_def Let_def klist_defs u32_sub_id)
qed

lemma fresh_line_upd:
  assumes "j < n"
  shows "(map (fresh_line j) [0..<n])[j := (fresh_line j j)\<lparr>ln_ruh := int j\<rparr>] = map (fresh_line (Suc j)) [0..<n]"
  using assms by (intro nth_equalityI) (auto simp: nth_list_update fresh_line_def)

lemma prepare_ruh:
  assumes "j < FDP_NR_RUH" "FDP_NR_RUH < n" "n \<le> 65536"
  shows "prepare_write_pointer USER_IO j (prep n j f) = Some (prep n (Suc j) f)"
proof -
  have wp: "(map start_wp [0..<j] @ replicate (FDP_NR_RUH - j) null_wp)[j := start_wp j] =
      map start_wp [0..<Suc j] @ replicate (FDP_NR_RUH - Suc j) null_wp"
  proof -
    have "replicate (FDP_NR_RUH - j) null_wp = null_wp # replicate (FDP_NR_RUH - Suc j) null_wp"
      using assms(1) by (simp add: Suc_diff_Suc [symmetric])
    then show ?thesis by (simp add: list_update_append)
  qed
  have "length (map start_wp [0..<j] @ replicate (FDP_NR_RUH - j) null_wp) = FDP_NR_RUH" using assms(1) by simp
  then show ?thesis
    using assms next_free_prep [of j n f] fresh_line_upd [of j n] wp [unfolded start_wp_def [of j]]
    by (simp add: prepare_write_pointer_def get_wp_def set_line_ruh_def put_wp_def prep_def)
       (simp add: fresh_line_def)
qed

lemma prepare_ruhs:
  assumes "FDP_NR_RUH < n" "n \<le> 65536" "j \<le> FDP_NR_RUH"
  shows "foldM (\<lambda>ruh. prepare_write_pointer USER_IO ruh) [0..<j] (prep n 0 f) = Some (prep n j f)"
  using assms(3) by (induction j) (simp_all add: prepare_ruh assms)

lemma prepare_gc:
  assumes "FDP_NR_RUH < n" "n \<le> 65536"
  shows "prepare_write_pointer GC_IO 0 (prep n FDP_NR_RUH f) = Some ((prep n FDP_NR_RUH f)\<lparr>
     f_gc_wp := start_wp FDP_NR_RUH, f_lm := (f_lm (prep n FDP_NR_RUH f))\<lparr>
     free_line_list := [Suc FDP_NR_RUH..<n], free_line_cnt := n - Suc FDP_NR_RUH\<rparr>\<rparr>)"
proof -
  have "(map (fresh_line FDP_NR_RUH) [0..<n])[FDP_NR_RUH := (fresh_line FDP_NR_RUH FDP_NR_RUH)\<lparr>ln_ruh := -1\<rparr>] =
      map (fresh_line FDP_NR_RUH) [0..<n]"
    using assms by (intro nth_equalityI) (auto simp: nth_list_update fresh_line_def)
  then show ?thesis
    using assms next_free_prep [of FDP_NR_RUH n f]
    by (simp add: prepare_write_pointer_def get_wp_def set_line_ruh_def put_wp_def prep_def start_wp_def)
       (simp add: fresh_line_def)
qed

text \<open>The fresh partition.\<close>

definition fresh_ftl :: "nat list \<Rightarrow> fdpparams \<Rightarrow> ssd \<Rightarrow> fdp_ftl" where
  "fresh_ftl mem_d cpp s = (let sp = ssd_sp s; n = blks_per_pl sp in
     \<lparr>f_ssd = s, f_cp = cpp, f_maptbl = init_maptbl sp, f_rmap = init_rmap sp,
      f_wp_ruh = map start_wp [0..<FDP_NR_RUH], f_gc_wp = start_wp FDP_NR_RUH,
      f_lm = \<lparr>lm_lines = map (fresh_line FDP_NR_RUH) [0..<n], free_line_list = [Suc FDP_NR_RUH..<n],
        victim_line_pq = \<lparr>pq_size = 1, pq_avail = n + 1, pq_step = n + 1, cmppri = victim_line_cmp_pri,
          getpri = victim_line_get_pri, setpri = victim_line_set_pri, getpos = victim_line_get_pos,
          setpos = victim_line_set_pos, pq_d = mem_d\<rparr>,
        full_line_list = [], lm_tt_lines = n, free_line_cnt = n - Suc FDP_NR_RUH,
        victim_line_cnt = 0, full_line_cnt = 0\<rparr>,
      f_wfc = init_write_flow_control sp\<rparr>)"

lemma init_lines_eq:
  assumes g: "geo_ok spp"
  shows "init_lines mem_d spp = Some \<lparr>lm_lines = map (fresh_line 0) [0..<blks_per_pl spp],
     free_line_list = [0..<blks_per_pl spp],
     victim_line_pq = \<lparr>pq_size = 1, pq_avail = blks_per_pl spp + 1, pq_step = blks_per_pl spp + 1,
       cmppri = victim_line_cmp_pri, getpri = victim_line_get_pri, setpri = victim_line_set_pri,
       getpos = victim_line_get_pos, setpos = victim_line_set_pos, pq_d = mem_d\<rparr>,
     full_line_list = [], lm_tt_lines = blks_per_pl spp, free_line_cnt = blks_per_pl spp,
     victim_line_cnt = 0, full_line_cnt = 0\<rparr>"
proof -
  have "foldl (\<lambda>l i. list_add_tail i l) ys [0..<m] = ys @ [0..<m]" for m :: nat and ys
    by (induction m) (simp_all add: list_add_tail_def)
  moreover have "foldl (\<lambda>c i. c + 1) k [0..<m] = k + m" for k m :: nat
    by (induction m) simp_all
  ultimately show ?thesis
    using geo_eqs(2) [OF g] by (simp add: init_lines_def pqueue_init_def Let_def fresh_line_def)
qed

lemma fdp_init_ftl_eq:
  assumes g: "geo_ok (ssd_sp s)" and n: "FDP_NR_RUH < blks_per_pl (ssd_sp s)"
  shows "fdp_init_ftl mem_d cpp s = Some (fresh_ftl mem_d cpp s)"
proof -
  let ?n = "blks_per_pl (ssd_sp s)"
  let ?f0 = "\<lparr>f_ssd = s, f_cp = cpp, f_maptbl = init_maptbl (ssd_sp s), f_rmap = init_rmap (ssd_sp s),
       f_wp_ruh = replicate FDP_NR_RUH null_wp, f_gc_wp = null_wp, f_lm = \<lparr>lm_lines = map (fresh_line 0) [0..<?n],
     free_line_list = [0..<?n],
     victim_line_pq = \<lparr>pq_size = 1, pq_avail = ?n + 1, pq_step = ?n + 1,
       cmppri = victim_line_cmp_pri, getpri = victim_line_get_pri, setpri = victim_line_set_pri,
       getpos = victim_line_get_pos, setpos = victim_line_set_pos, pq_d = mem_d\<rparr>,
     full_line_list = [], lm_tt_lines = ?n, free_line_cnt = ?n, victim_line_cnt = 0, full_line_cnt = 0\<rparr>,
       f_wfc = \<lparr>write_credits = 0, credits_to_refill = 0\<rparr>\<rparr>"
  have f0: "?f0 = prep ?n 0 ?f0" by (simp add: prep_def)
  note n2 = geo_le(3) [OF g]
  have "fdp_init_ftl mem_d cpp s = do {
      f1 \<leftarrow> foldM (\<lambda>ruh. prepare_write_pointer USER_IO ruh) [0..<FDP_NR_RUH] (prep ?n 0 ?f0);
      f2 \<leftarrow> prepare_write_pointer GC_IO 0 f1;
      Some (f2\<lparr>f_wfc := init_write_flow_control (ssd_sp s)\<rparr>) }"
    unfolding fdp_init_ftl_def Let_def init_lines_eq [OF g] Option.bind.simps f0 [symmetric] ..
  also have "\<dots> = Some (fresh_ftl mem_d cpp s)"
    unfolding prepare_ruhs [OF n n2 order_refl] Option.bind.simps prepare_gc [OF n n2]
    by (simp add: prep_def fresh_ftl_def Let_def)
  finally show ?thesis .
qed

section \<open>The fresh partition satisfies the invariant\<close>

lemma fresh_ftl_inv:
  assumes ok: "ssd_ok s" and n: "FDP_NR_RUH < blks_per_pl (ssd_sp s)"
    and fresh: "\<forall>c<nchs (ssd_sp s). \<forall>l<luns_per_ch (ssd_sp s). \<forall>b<blks_per_pl (ssd_sp s).
        blk_at s c l b = ssd_init_nand_blk (ssd_sp s)"
    and mem: "length mem_d = blks_per_pl (ssd_sp s) + 1"
  shows "ftl_inv (fresh_ftl mem_d cpp s)"
proof -
  let ?sp = "ssd_sp s" and ?f = "fresh_ftl mem_d cpp s"
  let ?n = "blks_per_pl ?sp"
  note g = ssd_okD(1) [OF ok]
  have sel: "f_ssd ?f = s" "f_wp_ruh ?f = map start_wp [0..<FDP_NR_RUH]" "free_line_list (f_lm ?f) = [Suc FDP_NR_RUH..<?n]"
    "full_line_list (f_lm ?f) = []" "f_lines ?f = map (fresh_line FDP_NR_RUH) [0..<?n]"
    "free_line_cnt (f_lm ?f) = ?n - Suc FDP_NR_RUH" "victim_line_cnt (f_lm ?f) = 0" "full_line_cnt (f_lm ?f) = 0"
    "f_maptbl ?f = init_maptbl ?sp" "f_rmap ?f = init_rmap ?sp"
    by (simp_all add: fresh_ftl_def Let_def)
  have wps: "wps ?f = map start_wp [0..<Suc FDP_NR_RUH]" by (simp add: wps_def fresh_ftl_def Let_def)
  then have opens: "opens ?f = [0..<Suc FDP_NR_RUH]"
    by (simp add: opens_def map_idI start_wp_def o_def)
  have vic: "victims ?f = {}" by (simp add: victims_def fresh_ftl_def Let_def pq_elems_def)
  have st: "pst s p = PG_FREE" if "real_ppa ?sp p" for p
    using fresh real_ppaD [OF that] by (simp add: pst_def ssd_init_nand_blk_def ssd_init_nand_page_def)
  have c0: "cnt (pst s) (line_pages ?sp b) v = 0" "cnt (pst s) (block_pages ?sp c l b) v = 0" if "v \<noteq> PG_FREE" for b c l v
    by (rule cnt_none, use st that in \<open>auto simp: line_pages_def block_pages_def\<close>)+
  have "blk_counts s" using fresh c0 by (simp add: blk_counts_def ssd_init_nand_blk_def)
  moreover have "open_inv ?f None"
  proof -
    note w = start_wp_sel
    have z: "wpi ?sp (page_of 0 0 k 0) = 0" for k by (simp add: wpi_def)
    have "wp_ok ?sp (start_wp k)" if "k \<le> FDP_NR_RUH" for k
      using that n geo_pos [OF g] geo_pgs_pos [OF g] by (simp add: wp_ok_def w real_page_of [OF g])
    then show ?thesis using st unfolding open_inv_def frontier_def sel wps
      by (auto simp: nth_append w z line_pages_def less_Suc_eq_le)
  qed
  moreover have "part_inv ?f {}"
    using n by (auto simp: part_inv_def sel opens vic)
  moreover have "state_inv ?f" using st by (auto simp: state_inv_def sel vic line_pages_def)
  moreover have "line_inv ?f {}"
    using n unfolding line_inv_def line_ruh_ok_def wps sel vic
    by (auto simp: fresh_line_def c0 start_wp_def nth_append)
  moreover have "pq_ok ?f"
    using mem by (auto simp: pq_ok_def fresh_ftl_def Let_def pq_wired_def pq_inv_def pq_heap_def)
  ultimately have "phys_inv ?f {} None" using ok by (simp add: phys_inv_def sel)
  moreover have "map_inv ?f {}" using st by (auto simp: map_inv_def sel init_maptbl_def init_rmap_def)
  ultimately show ?thesis by (simp add: ftl_inv_def)
qed

lemma fdp_init_ftl_inv:
  assumes "ssd_ok s" "FDP_NR_RUH < blks_per_pl (ssd_sp s)"
    "\<forall>c<nchs (ssd_sp s). \<forall>l<luns_per_ch (ssd_sp s). \<forall>b<blks_per_pl (ssd_sp s).
        blk_at s c l b = ssd_init_nand_blk (ssd_sp s)"
    "length mem_d = blks_per_pl (ssd_sp s) + 1"
  shows "\<exists>f. fdp_init_ftl mem_d cpp s = Some f \<and> ftl_inv f \<and> f_ssd f = s \<and> f_cp f = cpp \<and>
     length (free_line_list (f_lm f)) = blks_per_pl (ssd_sp s) - Suc FDP_NR_RUH \<and>
     (\<forall>lpn<tt_pgs (ssd_sp s). f_maptbl f ! lpn = unmapped_ppa) \<and>
     f_wfc f = init_write_flow_control (ssd_sp s)"
  using fdp_init_ftl_eq [OF ssd_okD(1) [OF assms(1)] assms(2)] fresh_ftl_inv [OF assms]
  by (simp add: fresh_ftl_def Let_def init_maptbl_def)

section \<open>The namespace\<close>

text \<open>A namespace whose partitions all satisfy the invariant and share one geometry.\<close>

definition ns_ok :: "ssdparams \<Rightarrow> fdp_ns \<Rightarrow> bool" where
  "ns_ok sp ns \<longleftrightarrow> 0 < ns_nr_parts ns \<and> length (ns_ftls ns) = ns_nr_parts ns \<and>
     (\<forall>f\<in>set (ns_ftls ns). ftl_inv f \<and> f_sp f = sp)"

lemma fdp_init_namespace_ok:
  assumes sp: "ssd_init_params c size_ns (SSD_PARTITIONS c) = Some sp" and g: "geo_ok sp"
    and bw: "31 \<le> ch_bandwidth sp" "ch_bandwidth sp \<le> 7800" "31 \<le> pcie_bandwidth sp" "pcie_bandwidth sp \<le> 7800"
    and n: "FDP_NR_RUH < blks_per_pl sp" and mem: "length mem_d = blks_per_pl sp + 1" and np: "0 < SSD_PARTITIONS c"
  shows "\<exists>ns e. fdp_init_namespace mem_d c nsid size_ns cpu ctx = Some (ns, e) \<and> ns_ok sp ns \<and> env_ok e \<and>
     ns_nr_parts ns = SSD_PARTITIONS c \<and> ns_csi ns = NVME_CSI_NVM \<and>
     ns_size ns = u64 (size_ns * 100) div (100 + OP_AREA_PERCENT c) \<and>
     (\<forall>f\<in>set (ns_ftls ns). f_cp f = fdp_init_params c \<and> f_wfc f = init_write_flow_control sp \<and>
        length (free_line_list (f_lm f)) = blks_per_pl sp - Suc FDP_NR_RUH \<and>
        (\<forall>lpn<tt_pgs sp. f_maptbl f ! lpn = unmapped_ppa)) \<and>
     sh_wbuf (e_sh e) = buffer_init (write_buffer_size sp) \<and>
     e_ctx e = fdp_init_ctx (u64 (pgs_per_line sp * pgsz sp)) ctx \<and> e_sched e = []"
proof -
  obtain s pc wb where s: "ssd_init sp cpu = Some (s, pc, wb)" "ssd_ok s" "ssd_sp s = sp" "chmodel_wf pc"
     "wb = buffer_init (write_buffer_size sp)"
     "\<forall>c<nchs sp. \<forall>l<luns_per_ch sp. \<forall>b<blks_per_pl sp. blk_at s c l b = ssd_init_nand_blk sp"
    using ssd_init_ok [OF g bw] by blast
  obtain f where f: "fdp_init_ftl mem_d (fdp_init_params c) s = Some f" "ftl_inv f" "f_ssd f = s"
     "f_cp f = fdp_init_params c" "length (free_line_list (f_lm f)) = blks_per_pl sp - Suc FDP_NR_RUH"
     "\<forall>lpn<tt_pgs sp. f_maptbl f ! lpn = unmapped_ppa" "f_wfc f = init_write_flow_control sp"
    using fdp_init_ftl_inv [of s mem_d "fdp_init_params c"] s n mem by auto
  have parts: "foldM (\<lambda>i parts. do {
         (s, pcie, wbuf) \<leftarrow> ssd_init sp cpu;
         f \<leftarrow> fdp_init_ftl mem_d (fdp_init_params c) s;
         Some (parts @ [(f, pcie, wbuf)])
       }) xs acc = Some (acc @ replicate (length xs) (f, pc, wb))" for xs :: "nat list" and acc
    by (induction xs arbitrary: acc) (simp_all add: s(1) f(1) replicate_app_Cons_same)
  let ?ns = "\<lparr>ns_id = nsid, ns_csi = NVME_CSI_NVM, ns_size = u64 (size_ns * 100) div (100 + OP_AREA_PERCENT c),
     ns_nr_parts = SSD_PARTITIONS c, ns_ftls = replicate (SSD_PARTITIONS c) f\<rparr>"
  let ?e = "\<lparr>e_sh = \<lparr>sh_ticks = 0, sh_pcie = pc, sh_wbuf = wb\<rparr>,
     e_ctx = fdp_init_ctx (u64 (pgs_per_line sp * pgsz sp)) ctx, e_sched = []\<rparr>"
  have pba: "pba_pcent (fdp_init_params c) = 100 + OP_AREA_PERCENT c" by (simp add: fdp_init_params_def)
  have "fdp_init_namespace mem_d c nsid size_ns cpu ctx = Some (?ns, ?e)"
    using np pba by (simp add: fdp_init_namespace_def Let_def sp parts)
  moreover have "env_ok ?e" using s(4,5) fdp_init_ctx_ok(1) by (simp add: env_ok_def shared_ok_def buffer_ok_def buffer_init_def)
  moreover have "ns_ok sp ?ns" using np f(2,3) s(3) by (simp add: ns_ok_def)
  ultimately show ?thesis using f(4-7) s(5) by (intro exI [of _ ?ns] exI [of _ ?e]) simp
qed

end
