(* ===== verification/Fdp_Run.thy ===== *)
theory Fdp_Run
  imports Fdp_Init
begin

text \<open>
  Writing without end. The write credits tie host writes to reclaimed space: a refill grants
  as many pages as the collection reclaimed. The invariant \<open>run_inv\<close> says that the free pages
  always exceed the open credits plus nine lines, one per write pointer; then a free line is
  always at hand and no write can meet an empty free list. It is kept as long as the host uses
  fewer logical pages than fit on all lines but eighteen, because then a collection finds a
  victim whenever one is due.
\<close>

section \<open>Free pages and free lines\<close>

lemma free_pages_le:
  assumes inv: "phys_inv f {} None"
  shows "free_pages f \<le> pgs_per_line (f_sp f) * (length (free_line_list (f_lm f)) + Suc FDP_NR_RUH)"
proof -
  let ?sp = "f_sp f" and ?S = "set (free_line_list (f_lm f)) \<union> set (opens f)"
  note g = phys_invD(2) [OF inv]
  have sub: "{q. real_ppa ?sp q \<and> pst (f_ssd f) q = PG_FREE} \<subseteq> (\<Union>b\<in>?S. line_pages ?sp b)"
  proof
    fix q assume q: "q \<in> {q. real_ppa ?sp q \<and> pst (f_ssd f) q = PG_FREE}"
    then have b: "g_blk q < blks_per_pl ?sp" "q \<in> line_pages ?sp (g_blk q)" using real_ppaD(3) by (auto simp: line_pages_def)
    then have "g_blk q \<notin> victims f" "g_blk q \<notin> set (full_line_list (f_lm f))"
      using phys_invD(6) [OF inv] q by (auto simp: state_inv_def)
    then have "g_blk q \<in> ?S" using lines_bounded [OF inv, of "g_blk q"] b(1) by auto
    with b(2) show "q \<in> (\<Union>b\<in>?S. line_pages ?sp b)" by blast
  qed
  have bd: "b < blks_per_pl ?sp" if "b \<in> ?S" for b using lines_bounded [OF inv, of b] that by auto
  have cS: "card ?S \<le> length (free_line_list (f_lm f)) + Suc FDP_NR_RUH"
    using card_Un_le [of "set (free_line_list (f_lm f))" "set (opens f)"] card_length [of "free_line_list (f_lm f)"]
      card_length [of "opens f"] phys_invD(10) [OF inv] by (simp add: opens_def)
  have "free_pages f \<le> card (\<Union>b\<in>?S. line_pages ?sp b)" unfolding free_pages_def
    by (rule card_mono [OF _ sub]) (use line_pages_card(2) [OF g bd] in auto)
  also have "\<dots> \<le> (\<Sum>b\<in>?S. card (line_pages ?sp b))" by (rule card_UN_le) simp
  also have "\<dots> = card ?S * pgs_per_line ?sp" using line_pages_card(1) [OF g bd] by simp
  also have "\<dots> \<le> pgs_per_line ?sp * (length (free_line_list (f_lm f)) + Suc FDP_NR_RUH)"
    unfolding mult.commute [of "card ?S"] by (rule mult_le_mono2 [OF cS])
  finally show ?thesis .
qed

lemma free_pages_ge:
  assumes inv: "phys_inv f {} None"
  shows "pgs_per_line (f_sp f) * length (free_line_list (f_lm f)) < free_pages f"
proof -
  let ?sp = "f_sp f" and ?F = "set (free_line_list (f_lm f))"
  note g = phys_invD(2) [OF inv]
  let ?p = "wp_page (wps f ! FDP_NR_RUH)" and ?U = "\<Union>b\<in>?F. line_pages ?sp b"
  have bd: "b < blks_per_pl ?sp" if "b \<in> ?F" for b using lines_bounded [OF inv, of b] that by auto
  have fin: "finite ?U" using line_pages_card(2) [OF g bd] by auto
  have "card ?U = (\<Sum>b\<in>?F. card (line_pages ?sp b))"
    by (rule card_UN_disjoint) (use line_pages_card(2) [OF g bd] in \<open>auto simp: line_pages_def\<close>)
  also have "\<dots> = pgs_per_line ?sp * length (free_line_list (f_lm f))"
    using line_pages_card(1) [OF g bd] phys_invD(5) [OF inv] by (simp add: part_inv_def distinct_card)
  finally have cU: "card ?U = pgs_per_line ?sp * length (free_line_list (f_lm f))" .
  note w = wp_facts [OF inv order_refl]
  have p: "real_ppa ?sp ?p" "pst (f_ssd f) ?p = PG_FREE" "?p \<notin> ?U"
    using w(2) w(5) [of ?p] open_line_excl(3) [OF inv w(4)] by (auto simp: line_pages_def frontier_def wp_page_def)
  have "insert ?p ?U \<subseteq> {q. real_ppa ?sp q \<and> pst (f_ssd f) q = PG_FREE}"
    using p phys_invD(6) [OF inv] by (auto simp: state_inv_def line_pages_def)
  then have "card (insert ?p ?U) \<le> free_pages f" unfolding free_pages_def
    by (rule card_mono [rotated]) (rule finite_subset [OF _ real_pages_finite [OF g]], auto)
  then show ?thesis using cU p(3) fin by simp
qed

section \<open>A victim exists\<close>

text \<open>Only the logical pages below \<open>n\<close> are in use.\<close>

definition uses :: "nat \<Rightarrow> fdp_ftl \<Rightarrow> bool" where
  "uses n f \<longleftrightarrow> (\<forall>lpn. n \<le> lpn \<longrightarrow> lpn < tt_pgs (f_sp f) \<longrightarrow> f_maptbl f ! lpn = unmapped_ppa)"

lemma valid_pages_le:
  assumes inv: "ftl_inv f" and u: "uses n f"
  shows "card {q. real_ppa (f_sp f) q \<and> pst (f_ssd f) q = PG_VALID} \<le> n"
proof -
  let ?V = "{q. real_ppa (f_sp f) q \<and> pst (f_ssd f) q = PG_VALID}" and ?r = "\<lambda>q. f_rmap f ! pgidx_of (f_sp f) q"
  have m: "map_inv f {}" and g: "geo_ok (f_sp f)" using inv phys_invD(2) by (auto simp: ftl_inv_def)
  have rback: "f_maptbl f ! ?r q = q \<and> ?r q < tt_pgs (f_sp f)" if "q \<in> ?V" for q using m that by (simp add: map_inv_def)
  have "inj_on ?r ?V" by (rule inj_on_inverseI [where g = "\<lambda>l. f_maptbl f ! l"]) (use rback in simp)
  moreover have "?r ` ?V \<subseteq> {..<n}"
  proof
    fix l assume "l \<in> ?r ` ?V"
    then obtain q where q: "q \<in> ?V" "l = ?r q" by auto
    then have "f_maptbl f ! l \<noteq> unmapped_ppa" "l < tt_pgs (f_sp f)"
      using rback [OF q(1)] real_not_unmapped [OF g, of q] by auto
    then show "l \<in> {..<n}" using u unfolding uses_def by (metis lessThan_iff not_le)
  qed
  ultimately show ?thesis using card_inj_on_le [of ?r ?V "{..<n}"] by simp
qed

lemma victim_exists:
  assumes inv: "ftl_inv f" and u: "uses n f" and low: "length (free_line_list (f_lm f)) \<le> Suc FDP_NR_RUH"
    and n: "n + 2 * Suc FDP_NR_RUH * pgs_per_line (f_sp f) < tt_lines (f_sp f) * pgs_per_line (f_sp f)"
  shows "victims f \<noteq> {}"
proof
  assume v: "victims f = {}"
  let ?sp = "f_sp f" and ?F = "set (full_line_list (f_lm f))"
  have ph: "phys_inv f {} None" using inv by (simp add: ftl_inv_def)
  note g = phys_invD(2) [OF ph] and P = phys_invD(5) [OF ph]
  have bd: "b < blks_per_pl ?sp" if "b \<in> ?F" for b using lines_bounded [OF ph, of b] that by auto
  have "{..<blks_per_pl ?sp} = set (free_line_list (f_lm f) @ full_line_list (f_lm f) @ opens f)"
    using P v by (auto simp: part_inv_def)
  then have "blks_per_pl ?sp = length (free_line_list (f_lm f) @ full_line_list (f_lm f) @ opens f)"
    using P by (metis card_lessThan distinct_card part_inv_def)
  then have full: "blks_per_pl ?sp \<le> length (full_line_list (f_lm f)) + 2 * Suc FDP_NR_RUH"
    using low phys_invD(10) [OF ph] by (simp add: opens_def)
  let ?U = "\<Union>b\<in>?F. line_pages ?sp b"
  have "card ?U = (\<Sum>b\<in>?F. card (line_pages ?sp b))"
    by (rule card_UN_disjoint) (use line_pages_card(2) [OF g bd] in \<open>auto simp: line_pages_def\<close>)
  also have "\<dots> = length (full_line_list (f_lm f)) * pgs_per_line ?sp"
    using line_pages_card(1) [OF g bd] P by (simp add: part_inv_def distinct_card)
  finally have cU: "card ?U = length (full_line_list (f_lm f)) * pgs_per_line ?sp" .
  have "?U \<subseteq> {q. real_ppa ?sp q \<and> pst (f_ssd f) q = PG_VALID}"
    using phys_invD(6) [OF ph] by (auto simp: state_inv_def line_pages_def)
  then have "card ?U \<le> n"
    using card_mono [of "{q. real_ppa ?sp q \<and> pst (f_ssd f) q = PG_VALID}" ?U] valid_pages_le [OF inv u]
      finite_subset [OF _ real_pages_finite [OF g], of "{q. real_ppa ?sp q \<and> pst (f_ssd f) q = PG_VALID}"] by force
  moreover have "blks_per_pl ?sp * pgs_per_line ?sp \<le>
      (length (full_line_list (f_lm f)) + 2 * Suc FDP_NR_RUH) * pgs_per_line ?sp"
    by (rule mult_le_mono1 [OF full])
  ultimately show False using n cU geo_eqs(2) [OF g] by (simp add: algebra_simps)
qed

section \<open>The run invariant\<close>

definition run_inv :: "nat \<Rightarrow> fdp_ftl \<Rightarrow> bool" where
  "run_inv n f \<longleftrightarrow> ftl_inv f \<and> uses n f \<and> gc_thres_lines_high (f_cp f) = Suc FDP_NR_RUH \<and>
     1 \<le> write_credits (f_wfc f) \<and> write_credits (f_wfc f) \<le> pgs_per_line (f_sp f) \<and>
     1 \<le> credits_to_refill (f_wfc f) \<and> credits_to_refill (f_wfc f) \<le> pgs_per_line (f_sp f) \<and>
     Suc FDP_NR_RUH * pgs_per_line (f_sp f) + write_credits (f_wfc f) < free_pages f"

text \<open>The host's logical pages fit on all lines but eighteen.\<close>

definition fits :: "nat \<Rightarrow> ssdparams \<Rightarrow> bool" where
  "fits n sp \<longleftrightarrow> n + 2 * Suc FDP_NR_RUH * pgs_per_line sp < tt_lines sp * pgs_per_line sp"

lemma free_line_left:
  assumes inv: "ftl_inv f" and room: "Suc FDP_NR_RUH * pgs_per_line (f_sp f) < free_pages f"
  shows "free_line_list (f_lm f) \<noteq> []"
  using free_pages_le [of f] inv room by (auto simp: ftl_inv_def algebra_simps)

text \<open>What every operation on a partition keeps of the environment.\<close>

definition env_kept :: "fdp_env \<Rightarrow> fdp_env \<Rightarrow> bool" where
  "env_kept e e' \<longleftrightarrow> env_ok e' \<and> hbmw (e_ctx e') = hbmw (e_ctx e) \<and> ruh_attr (e_ctx e') = ruh_attr (e_ctx e) \<and>
     events (e_ctx e') = events (e_ctx e) \<and> sh_wbuf (e_sh e') = sh_wbuf (e_sh e)"

lemma env_kept_refl: "env_ok e \<Longrightarrow> env_kept e e"
  by (simp add: env_kept_def)

lemma env_kept_trans: "env_kept e e1 \<Longrightarrow> env_kept e1 e2 \<Longrightarrow> env_kept e e2"
  by (simp add: env_kept_def)

lemma do_gc_forced:
  assumes inv: "ftl_inv f" and e: "env_ok e" and free: "free_line_list (f_lm f) \<noteq> []" and v: "victims f \<noteq> {}"
  shows "\<exists>v f' e'. do_gc clk True f e = Some (0, f', e') \<and> v \<in> victims f \<and>
     (\<forall>b\<in>victims f. ln_vpc (f_lines f ! v) \<le> ln_vpc (f_lines f ! b)) \<and> collected v f e f' e'"
proof -
  have ph: "phys_inv f {} None" using inv by (simp add: ftl_inv_def)
  from select_victim_some [OF ph v, of True] obtain v lm1 where ch: "chosen f v lm1"
    and sel: "select_victim_line True f = Some (Some v, f\<lparr>f_lm := lm1\<rparr>)" by auto
  from do_gc_collects [OF inv e free ch sel, of clk] ch show ?thesis unfolding chosen_def by blast
qed

text \<open>
  Refilling the credits: from a state that has used its last credit, the run invariant is
  restored, and the mapping still maps the same logical pages.
\<close>

lemma refill_run:
  assumes inv: "ftl_inv f" and u: "uses n f" and thr: "gc_thres_lines_high (f_cp f) = Suc FDP_NR_RUH"
    and c: "write_credits (f_wfc f) \<le> pgs_per_line (f_sp f)"
    and ctr: "1 \<le> credits_to_refill (f_wfc f)" "credits_to_refill (f_wfc f) \<le> pgs_per_line (f_sp f)"
    and room: "Suc FDP_NR_RUH * pgs_per_line (f_sp f) + write_credits (f_wfc f) < free_pages f"
    and n: "fits n (f_sp f)" and e: "env_ok e"
  shows "\<exists>f' e'. check_and_refill_write_credit clk f e = Some (f', e') \<and> run_inv n f' \<and> f_sp f' = f_sp f \<and>
     env_kept e e' \<and> e_sched e' = e_sched e \<and> (\<forall>lpn<tt_pgs (f_sp f).
        f_maptbl f' ! lpn = unmapped_ppa \<longleftrightarrow> f_maptbl f ! lpn = unmapped_ppa)"
proof (cases "write_credits (f_wfc f) = 0")
  case False
  then show ?thesis using assms by (simp add: check_and_refill_write_credit_def run_inv_def env_kept_def)
next
  case z: True
  let ?sp = "f_sp f" and ?lm = "f_lm f"
  have ph: "phys_inv f {} None" using inv by (simp add: ftl_inv_def)
  note g = phys_invD(2) [OF ph]
  have cnt: "free_line_cnt ?lm = length (free_line_list ?lm)" using phys_invD(5) [OF ph] by (simp add: part_inv_def)
  show ?thesis
  proof (cases "free_line_cnt ?lm \<le> Suc FDP_NR_RUH")
    case True
    have free: "free_line_list ?lm \<noteq> []" using free_line_left [OF inv] room z by simp
    have vic: "victims f \<noteq> {}" by (rule victim_exists [OF inv u]) (use True cnt n in \<open>auto simp: fits_def\<close>)
    obtain v f1 e1 where gc: "do_gc clk True f e = Some (0, f1, e1)" "v \<in> victims f" "collected v f e f1 e1"
      using do_gc_forced [OF inv e free vic] by blast
    let ?k = "cnt (pst (f_ssd f)) (line_pages ?sp v) PG_INVALID"
    have v: "v < blks_per_pl ?sp" using lines_bounded [OF ph] gc(2) by auto
    obtain q where q: "q \<in> line_pages ?sp v" "pst (f_ssd f) q = PG_INVALID"
      using phys_invD(6) [OF ph] gc(2) by (auto simp: state_inv_def)
    have k: "1 \<le> ?k" "?k \<le> pgs_per_line ?sp"
      using cnt_pos [OF line_pages_card(2) [OF g v] q(1), of "pst (f_ssd f)" PG_INVALID] q(2)
        cnt_le [OF line_pages_card(2) [OF g v], of "pst (f_ssd f)" PG_INVALID] line_pages_card(1) [OF g v] by auto
    have f1: "ftl_inv f1" "f_sp f1 = ?sp" "f_cp f1 = f_cp f" "credits_to_refill (f_wfc f1) = ?k"
      "write_credits (f_wfc f1) = 0" "free_pages f1 = free_pages f + ?k"
      "\<forall>lpn<tt_pgs ?sp. f_maptbl f1 ! lpn = unmapped_ppa \<longleftrightarrow> f_maptbl f ! lpn = unmapped_ppa"
      using gc(3) z by (auto simp: collected_def)
    let ?f2 = "f1\<lparr>f_wfc := (f_wfc f1)\<lparr>write_credits := ?k\<rparr>\<rparr>"
    have "u32 ?k = ?k" using k geo_le(7) [OF g] by (simp add: u32_id)
    then have r: "check_and_refill_write_credit clk f e = Some (?f2, e1)"
      using gc(1) f1(4,5) thr True z by (simp add: check_and_refill_write_credit_def foreground_gc_def should_gc_high_def)
    have "run_inv n ?f2"
      using f1 k room z u thr by (auto simp: run_inv_def ftl_inv_def uses_def map_inv_def free_pages_def)
    then show ?thesis using r f1 gc(3) by (auto simp: env_kept_def collected_def)
  next
    case False
    let ?c = "credits_to_refill (f_wfc f)"
    let ?f2 = "f\<lparr>f_wfc := (f_wfc f)\<lparr>write_credits := ?c\<rparr>\<rparr>"
    have "u32 ?c = ?c" using ctr geo_le(7) [OF g] by (simp add: u32_id)
    then have r: "check_and_refill_write_credit clk f e = Some (?f2, e)"
      using thr False z by (simp add: check_and_refill_write_credit_def foreground_gc_def should_gc_high_def)
    have "Suc (Suc FDP_NR_RUH) \<le> length (free_line_list ?lm)" using False cnt by simp
    then have "pgs_per_line ?sp * Suc (Suc FDP_NR_RUH) \<le> pgs_per_line ?sp * length (free_line_list ?lm)"
      by (rule mult_le_mono2)
    then have "Suc FDP_NR_RUH * pgs_per_line ?sp + ?c < free_pages f"
      using free_pages_ge [OF ph] ctr(2) by (simp add: algebra_simps)
    then have "run_inv n ?f2" using inv u thr ctr
      by (auto simp: run_inv_def ftl_inv_def uses_def map_inv_def free_pages_def)
    then show ?thesis using r e by (auto simp: env_kept_def)
  qed
qed

section \<open>Writing one logical page\<close>

lemma free_pages_written:
  assumes inv: "ftl_inv f" and w: "written f ruh lpn p f'" and lpn: "lpn < tt_pgs (f_sp f)"
  shows "free_pages f = Suc (free_pages f')"
proof -
  let ?A = "\<lambda>f. {q. real_ppa (f_sp f) q \<and> pst (f_ssd f) q = PG_FREE}"
  have m: "map_inv f {}" and g: "geo_ok (f_sp f)" using inv phys_invD(2) by (auto simp: ftl_inv_def)
  have old: "pst (f_ssd f) (f_maptbl f ! lpn) = PG_VALID" if "real_ppa (f_sp f) (f_maptbl f ! lpn)"
    using m lpn that real_not_unmapped [OF g] by (auto simp: map_inv_def)
  have st: "real_ppa (f_sp f) q \<Longrightarrow> pst (f_ssd f') q = PG_FREE \<longleftrightarrow> q \<noteq> p \<and> pst (f_ssd f) q = PG_FREE" for q
    using w old by (cases "q = f_maptbl f ! lpn") (simp_all add: written_def)
  have "f_sp f' = f_sp f" "real_ppa (f_sp f) p" "pst (f_ssd f) p = PG_FREE" using w by (auto simp: written_def)
  then have "?A f = insert p (?A f')" "p \<notin> ?A f'" using st by auto
  moreover have "finite (?A f')"
    by (rule finite_subset [OF _ real_pages_finite [OF g]]) (use w in \<open>auto simp: written_def\<close>)
  ultimately show ?thesis by (simp add: free_pages_def)
qed

lemma run_inv_timing:
  assumes "run_inv n f" "ssd_ok s'" "same_nand (f_ssd f) s'"
  shows "run_inv n (f\<lparr>f_ssd := s'\<rparr>)"
  using assms phys_inv_timing [of f "{}" None s'] map_inv_timing [of f "{}" s'] pst_same [OF assms(3)]
  by (auto simp: run_inv_def ftl_inv_def uses_def free_pages_def same_nand_def)

text \<open>
  The result of a host write of one logical page: it is mapped, every other logical page is
  mapped or not as before.
\<close>

definition lpn_written :: "nat \<Rightarrow> fdp_ftl \<Rightarrow> fdp_ftl \<Rightarrow> bool" where
  "lpn_written lpn f f' \<longleftrightarrow> (\<forall>l<tt_pgs (f_sp f).
     f_maptbl f' ! l = unmapped_ppa \<longleftrightarrow> l \<noteq> lpn \<and> f_maptbl f ! l = unmapped_ppa)"

lemma write_lpn_run:
  assumes run: "run_inv n f" and n: "fits n (f_sp f)" "n \<le> tt_pgs (f_sp f)" and e: "env_ok e"
    and ruh: "ruh < FDP_NR_RUH" and lpn: "lpn < n"
  shows "\<exists>t f' e'. write_lpn clk sq stime ruh lpn latest f e = Some (t, f', e') \<and> latest \<le> t \<and>
     run_inv n f' \<and> f_sp f' = f_sp f \<and> lpn_written lpn f f' \<and> env_kept e e'"
proof -
  let ?sp = "f_sp f"
  have inv: "ftl_inv f" and u: "uses n f" using run by (auto simp: run_inv_def)
  have lt: "lpn < tt_pgs ?sp" using lpn n(2) by simp
  have ph: "phys_inv f {} None" using inv by (simp add: ftl_inv_def)
  note g = phys_invD(2) [OF ph]
  have free: "free_line_list (f_lm f) \<noteq> []"
    by (rule free_line_left [OF inv]) (use run in \<open>simp add: run_inv_def\<close>)
  obtain p f1 where wp: "write_page ruh lpn f = Some (p, f1)" and w: "written f ruh lpn p f1"
    using write_page_written [OF inv ruh lt free] by blast
  have fp: "free_pages f = Suc (free_pages f1)" by (rule free_pages_written [OF inv w lt])
  have w1: "ftl_inv f1" "f_sp f1 = ?sp" "real_ppa ?sp p" "f_maptbl f1 = (f_maptbl f)[lpn := p]" "f_cp f1 = f_cp f"
    "f_wfc f1 = f_wfc f" using w by (auto simp: written_def)
  have ml: "length (f_maptbl f) = tt_pgs ?sp" using inv by (auto simp: ftl_inv_def map_inv_def)
  have lw: "lpn_written lpn f f1" unfolding lpn_written_def w1(4)
    using ml lt real_not_unmapped [OF g w1(3)] by (auto simp: nth_list_update)
  have u1: "uses n f1" using u w1(2,4) lpn by (auto simp: uses_def nth_list_update)
  let ?cmd = "\<lparr>nc_type = USER_IO, nc_cmd = NAND_WRITE, nc_xfer_size = pgsz ?sp * pgs_per_oneshotpg ?sp, nc_stime = stime,
              nc_interleave_pci_dma = False, nc_ppa = p\<rparr>"
  have ph1: "phys_inv f1 {} None" using w1(1) by (simp add: ftl_inv_def)
  obtain t1 s1 sh1 where nd: "nand clk ?cmd f1 e = Some (t1, f1\<lparr>f_ssd := s1\<rparr>, e\<lparr>e_sh := sh1\<rparr>)"
      "ssd_ok s1" "same_nand (f_ssd f1) s1" "sh_timing (e_sh e) sh1"
    using nand_returns [OF ph1 e, of ?cmd clk] w1(2,3) by auto
  let ?step = "if last_pg_in_wordline ?sp p then do {
          (t, f', e') \<leftarrow> nand clk ?cmd f1 e;
          Some (max t latest, f', e'\<lparr>e_sched := e_sched e' @
            [\<lparr>io_sqid = sq, io_nsecs_target = t, io_buffs_to_release = pgs_per_oneshotpg ?sp * pgsz ?sp\<rparr>]\<rparr>)
        } else Some (latest, f1, e)"
  have sp1: "ssd_sp s1 = ?sp" using nd(3) w1(2) by (simp add: same_nand_def)
  have kept: "env_kept e (e\<lparr>e_sh := sh1, e_sched := x\<rparr>)" for x
    using nd(4) e by (simp add: env_kept_def env_ok_def sh_timing_def)
  have ftl2: "ftl_inv (f1\<lparr>f_ssd := s1\<rparr>)" "free_pages (f1\<lparr>f_ssd := s1\<rparr>) = free_pages f1"
    using phys_inv_timing [OF ph1 nd(2,3)] map_inv_timing [OF _ nd(3)] w1(1,2) pst_same [OF nd(3)] sp1
    by (auto simp: ftl_inv_def free_pages_def)
  obtain t f2 e2 where 2: "?step = Some (t, f2, e2)" "latest \<le> t" "ftl_inv f2" "f_sp f2 = ?sp"
    "free_pages f2 = free_pages f1" "f_maptbl f2 = f_maptbl f1" "f_cp f2 = f_cp f" "f_wfc f2 = f_wfc f" "env_kept e e2"
  proof (cases "last_pg_in_wordline ?sp p")
    case True
    show ?thesis by (rule that [of "max t1 latest" "f1\<lparr>f_ssd := s1\<rparr>" "e\<lparr>e_sh := sh1, e_sched := e_sched e @
        [\<lparr>io_sqid = sq, io_nsecs_target = t1, io_buffs_to_release = pgs_per_oneshotpg ?sp * pgsz ?sp\<rparr>]\<rparr>"])
      (use True nd(1) ftl2 sp1 w1 kept in simp_all)
  next
    case False
    show ?thesis by (rule that [of latest f1 e]) (use False w1 env_kept_refl [OF e] in simp_all)
  qed
  let ?f3 = "consume_write_credit f2"
  have cr: "1 \<le> write_credits (f_wfc f)" "write_credits (f_wfc f) \<le> pgs_per_line ?sp" using run by (auto simp: run_inv_def)
  then have us: "u32_sub (write_credits (f_wfc f)) 1 = write_credits (f_wfc f) - 1"
    using geo_le(7) [OF g] by (intro u32_sub_id) auto
  have f3: "ftl_inv ?f3" "f_sp ?f3 = ?sp" "f_cp ?f3 = f_cp f" "f_maptbl ?f3 = f_maptbl f1" "free_pages ?f3 = free_pages f1"
    "write_credits (f_wfc ?f3) = write_credits (f_wfc f) - 1" "credits_to_refill (f_wfc ?f3) = credits_to_refill (f_wfc f)"
    using 2(3-8) us by (auto simp: consume_write_credit_def ftl_inv_def map_inv_def free_pages_def)
  have u3: "uses n ?f3" using u1 f3(2,4) w1(2) by (simp add: uses_def)
  obtain f4 e4 where 4: "check_and_refill_write_credit clk ?f3 e2 = Some (f4, e4)" "run_inv n f4" "f_sp f4 = ?sp"
    "env_kept e2 e4" "\<forall>l<tt_pgs ?sp. f_maptbl f4 ! l = unmapped_ppa \<longleftrightarrow> f_maptbl f1 ! l = unmapped_ppa"
  proof -
    have "env_ok e2" using 2(9) by (simp add: env_kept_def)
    moreover have "gc_thres_lines_high (f_cp ?f3) = Suc FDP_NR_RUH" "write_credits (f_wfc ?f3) \<le> pgs_per_line (f_sp ?f3)"
      "1 \<le> credits_to_refill (f_wfc ?f3)" "credits_to_refill (f_wfc ?f3) \<le> pgs_per_line (f_sp ?f3)"
      using run f3 cr by (auto simp: run_inv_def)
    moreover have "Suc FDP_NR_RUH * pgs_per_line (f_sp ?f3) + write_credits (f_wfc ?f3) < free_pages ?f3"
    proof -
      have "Suc FDP_NR_RUH * pgs_per_line ?sp + write_credits (f_wfc f) < Suc (free_pages f1)"
        using run fp by (simp add: run_inv_def)
      then show ?thesis using cr(1) unfolding f3(2,5,6) by linarith
    qed
    ultimately obtain f4 e4 where "check_and_refill_write_credit clk ?f3 e2 = Some (f4, e4)" "run_inv n f4"
      "f_sp f4 = f_sp ?f3" "env_kept e2 e4"
      "\<forall>l<tt_pgs (f_sp ?f3). f_maptbl f4 ! l = unmapped_ppa \<longleftrightarrow> f_maptbl ?f3 ! l = unmapped_ppa"
      using refill_run [OF f3(1) u3, of e2 clk] n(1) f3(2) by auto
    then show ?thesis using that f3 by simp
  qed
  have "write_lpn clk sq stime ruh lpn latest f e = Some (t, f4, e4)"
    unfolding write_lpn_def Let_def using wp 2(1) 4(1) by simp
  moreover have "lpn_written lpn f f4" using lw 4(5) by (simp add: lpn_written_def)
  ultimately show ?thesis using 2(2) 4(2,3) env_kept_trans [OF 2(9) 4(4)] by blast
qed

end
