(* ===== verification/Fdp_Device.thy ===== *)
theory Fdp_Device
  imports Fdp_Run
begin

text \<open>
  The commands on a namespace of partitions that satisfy the run invariant. A write in range
  returns: it is refused without effect on the mapping when the placement identifier is
  invalid or the write buffer has no room, and otherwise maps exactly its logical pages. A
  read returns and changes timing only. So no sequence of commands can bring the device down.
\<close>

section \<open>Namespaces\<close>

definition ns_run :: "nat \<Rightarrow> ssdparams \<Rightarrow> fdp_ns \<Rightarrow> bool" where
  "ns_run n sp ns \<longleftrightarrow> 0 < ns_nr_parts ns \<and> length (ns_ftls ns) = ns_nr_parts ns \<and>
     (\<forall>f\<in>set (ns_ftls ns). run_inv n f \<and> f_sp f = sp)"

definition ns_entry :: "fdp_ns \<Rightarrow> nat \<Rightarrow> ppa" where
  "ns_entry ns l = f_maptbl (ns_ftls ns ! (l mod ns_nr_parts ns)) ! (l div ns_nr_parts ns)"

definition same_ns :: "fdp_ns \<Rightarrow> fdp_ns \<Rightarrow> bool" where
  "same_ns ns ns' \<longleftrightarrow> ns_id ns' = ns_id ns \<and> ns_csi ns' = ns_csi ns \<and> ns_size ns' = ns_size ns \<and>
     ns_nr_parts ns' = ns_nr_parts ns"

lemma put_part_sel [simp]: "same_ns ns (put_part ns i f)" "ns_nr_parts (put_part ns i f) = ns_nr_parts ns"
  by (simp_all add: put_part_def same_ns_def)

lemma ns_run_put:
  assumes "ns_run n sp ns" "run_inv n f" "f_sp f = sp"
  shows "ns_run n sp (put_part ns i f)"
  using assms by (auto simp: ns_run_def put_part_def dest!: set_update_subset_insert [THEN subsetD])

lemma ns_run_part:
  assumes "ns_run n sp ns" "i < ns_nr_parts ns"
  shows "rd (ns_ftls ns) i = Some (ns_ftls ns ! i)" "run_inv n (ns_ftls ns ! i)" "f_sp (ns_ftls ns ! i) = sp"
  using assms by (auto simp: ns_run_def)

lemma ns_run_geo:
  assumes "ns_run n sp ns" shows "geo_ok sp"
proof -
  have "0 < ns_nr_parts ns" using assms by (simp add: ns_run_def)
  note f = ns_run_part(2,3) [OF assms this]
  from f(1) have "phys_inv (ns_ftls ns ! 0) {} None" by (simp add: run_inv_def ftl_inv_def)
  from phys_invD(2) [OF this] f(2) show ?thesis by simp
qed

lemma ns_entry_put:
  assumes "ns_run n sp ns"
  shows "ns_entry (put_part ns i f) l = (if l mod ns_nr_parts ns = i then f_maptbl f ! (l div ns_nr_parts ns)
     else ns_entry ns l)"
proof -
  have "l mod ns_nr_parts ns < length (ns_ftls ns)" using assms by (simp add: ns_run_def)
  then show ?thesis by (auto simp: ns_entry_def put_part_def nth_list_update)
qed

section \<open>Writes\<close>

definition write_body ::
  "(nat \<Rightarrow> nat) \<Rightarrow> nat \<Rightarrow> nat \<Rightarrow> nat \<Rightarrow> nat \<Rightarrow> nat \<Rightarrow> (nat \<times> fdp_ns \<times> fdp_env) \<Rightarrow> (nat \<times> fdp_ns \<times> fdp_env) option" where
  "write_body clk sq t ruh np lpn = (\<lambda>(latest, ns, e). do {
     f \<leftarrow> rd (ns_ftls ns) (lpn mod np);
     (latest', f', e') \<leftarrow> write_lpn clk sq t ruh (lpn div np) latest f e;
     Some (latest', put_part ns (lpn mod np) f', e')
   })"

text \<open>The pages \<open>a ..< b\<close> have been written since \<open>(ns, e)\<close>.\<close>

definition wrote :: "nat \<Rightarrow> ssdparams \<Rightarrow> nat \<Rightarrow> nat \<Rightarrow> fdp_ns \<Rightarrow> fdp_env \<Rightarrow> fdp_ns \<Rightarrow> fdp_env \<Rightarrow> bool" where
  "wrote n sp a b ns e ns' e' \<longleftrightarrow> ns_run n sp ns' \<and> same_ns ns ns' \<and> env_kept e e' \<and>
     (\<forall>l. l div ns_nr_parts ns < tt_pgs sp \<longrightarrow>
        (ns_entry ns' l = unmapped_ppa \<longleftrightarrow> \<not> (a \<le> l \<and> l < b) \<and> ns_entry ns l = unmapped_ppa))"

lemma div_mod_eq_iff: "0 < k \<Longrightarrow> l mod k = m mod k \<and> l div k = m div k \<longleftrightarrow> l = (m :: nat)"
  by (metis div_mult_mod_eq)

lemma write_loop:
  assumes run: "ns_run n sp ns" and n: "fits n sp" "n \<le> tt_pgs sp" and e: "env_ok e" and ruh: "ruh < FDP_NR_RUH"
    and rng: "hi div ns_nr_parts ns < n"
  shows "\<exists>latest' ns' e'. foldM (write_body clk sq t ruh (ns_nr_parts ns)) [lo..<Suc hi] (latest, ns, e) =
      Some (latest', ns', e') \<and> latest \<le> latest' \<and> wrote n sp lo (Suc hi) ns e ns' e'"
proof (cases "lo \<le> Suc hi")
  case False
  then show ?thesis using run env_kept_refl [OF e] by (auto simp: wrote_def same_ns_def)
next
  case True
  let ?np = "ns_nr_parts ns"
  have np: "0 < ?np" using run by (simp add: ns_run_def)
  let ?P = "\<lambda>i (l, ns', e'). latest \<le> l \<and> wrote n sp lo i ns e ns' e'"
  have "\<exists>s'. foldM (write_body clk sq t ruh ?np) [lo..<Suc hi] (latest, ns, e) = Some s' \<and> ?P (Suc hi) s'"
  proof (rule foldM_upt_total [where P = ?P])
    show "?P lo (latest, ns, e)" using run env_kept_refl [OF e] by (simp add: wrote_def same_ns_def)
    show "lo \<le> Suc hi" by (rule True)
    fix i s' assume i: "lo \<le> i" "i < Suc hi" and P: "?P i s'"
    obtain l ns1 e1 where s': "s' = (l, ns1, e1)" by (cases s')
    have P1: "latest \<le> l" "wrote n sp lo i ns e ns1 e1" using P s' by auto
    have run1: "ns_run n sp ns1" and np1: "ns_nr_parts ns1 = ?np" and e1: "env_ok e1" "env_kept e e1"
      using P1(2) by (auto simp: wrote_def same_ns_def env_kept_def)
    let ?m = "i mod ?np" and ?d = "i div ?np"
    have m: "?m < ns_nr_parts ns1" using np np1 by simp
    note f = ns_run_part [OF run1 m]
    have d: "?d < n" using rng i div_le_mono [of i hi ?np] by simp
    obtain t' f' e2 where w: "write_lpn clk sq t ruh ?d l (ns_ftls ns1 ! ?m) e1 = Some (t', f', e2)" "l \<le> t'"
      "run_inv n f'" "f_sp f' = sp" "lpn_written ?d (ns_ftls ns1 ! ?m) f'" "env_kept e1 e2"
      using write_lpn_run [OF f(2) _ _ e1(1) ruh d, of clk sq t l] n f(3) by auto
    have "wrote n sp lo (Suc i) ns e (put_part ns1 ?m f') e2"
      unfolding wrote_def
    proof (intro conjI allI impI)
      show "ns_run n sp (put_part ns1 ?m f')" by (rule ns_run_put [OF run1 w(3,4)])
      show "same_ns ns (put_part ns1 ?m f')" using P1(2) put_part_sel(1) [of ns1 ?m f'] by (simp add: wrote_def same_ns_def)
      show "env_kept e e2" by (rule env_kept_trans [OF e1(2) w(6)])
      fix k assume k: "k div ?np < tt_pgs sp"
      have old: "ns_entry ns1 k = unmapped_ppa \<longleftrightarrow> \<not> (lo \<le> k \<and> k < i) \<and> ns_entry ns k = unmapped_ppa"
        using P1(2) k by (simp add: wrote_def)
      have "ns_entry (put_part ns1 ?m f') k = unmapped_ppa \<longleftrightarrow> k \<noteq> i \<and> ns_entry ns1 k = unmapped_ppa"
      proof (cases "k mod ?np = ?m")
        case True
        have "f_maptbl f' ! (k div ?np) = unmapped_ppa \<longleftrightarrow>
            k div ?np \<noteq> ?d \<and> f_maptbl (ns_ftls ns1 ! ?m) ! (k div ?np) = unmapped_ppa"
          using w(5) k f(3) by (simp add: lpn_written_def)
        then show ?thesis using True div_mod_eq_iff [OF np, of k i]
          unfolding ns_entry_put [OF run1] np1 by (simp add: ns_entry_def np1)
      next
        case False
        then show ?thesis by (auto simp: ns_entry_put [OF run1] np1)
      qed
      then show "ns_entry (put_part ns1 ?m f') k = unmapped_ppa \<longleftrightarrow>
          \<not> (lo \<le> k \<and> k < Suc i) \<and> ns_entry ns k = unmapped_ppa" using old i by (auto simp: less_Suc_eq)
    qed
    then show "\<exists>s''. write_body clk sq t ruh ?np i s' = Some s'' \<and> ?P (Suc i) s''"
      using s' f(1) w(1,2) P1(1) by (auto simp: write_body_def)
  qed
  then show ?thesis by auto
qed

text \<open>First and last logical page of a command, and the handle its placement identifier names.\<close>

definition cmd_first :: "ssdparams \<Rightarrow> nvme_rw_command \<Rightarrow> nat" where
  "cmd_first sp cmd = rw_slba cmd div secs_per_pg sp"

definition cmd_last :: "ssdparams \<Rightarrow> nvme_rw_command \<Rightarrow> nat" where
  "cmd_last sp cmd = u64_sub (u64 (rw_slba cmd + (rw_length cmd + 1))) 1 div secs_per_pg sp"

definition cmd_dtype :: "nvme_rw_command \<Rightarrow> nat" where
  "cmd_dtype cmd = rw_control cmd div 2 ^ NVME_RW_DTYPE_SHIFT mod 16"

definition cmd_pid :: "nvme_rw_command \<Rightarrow> nat" where
  "cmd_pid cmd = rw_dsmgmt cmd div 2 ^ 16 mod 2 ^ 16"

definition cmd_ruh :: "nvme_rw_command \<Rightarrow> nat" where
  "cmd_ruh cmd = (if cmd_dtype cmd = NVME_DIRECTIVE_PLACEMENT then cmd_pid cmd else 0)"

definition cmd_bytes :: "nvme_rw_command \<Rightarrow> nat" where
  "cmd_bytes cmd = LBA_TO_BYTE (rw_length cmd + 1)"

lemma route_write_cases:
  assumes "ctx_ok ctx"
  shows "cmd_dtype cmd = NVME_DIRECTIVE_PLACEMENT \<and> FDP_NR_RUH \<le> cmd_pid cmd \<Longrightarrow> route_write cmd ctx = Some Invalid_PID"
    and "\<not> (cmd_dtype cmd = NVME_DIRECTIVE_PLACEMENT \<and> FDP_NR_RUH \<le> cmd_pid cmd) \<Longrightarrow>
      \<exists>a. route_write cmd ctx = Some (Placed (cmd_ruh cmd) (ctx\<lparr>ruh_attr := a\<rparr>)) \<and> ctx_ok (ctx\<lparr>ruh_attr := a\<rparr>) \<and>
        a ! cmd_ruh cmd \<noteq> NVME_FDP_RUHA_UNUSED \<and> (\<forall>i. i \<noteq> cmd_ruh cmd \<longrightarrow> a ! i = ruh_attr ctx ! i) \<and> cmd_ruh cmd < FDP_NR_RUH"
proof -
  note d = cmd_dtype_def cmd_pid_def cmd_ruh_def
  have len: "length (ruh_attr ctx) = FDP_NR_RUH" and lt: "\<forall>x\<in>set (ruh_attr ctx). x < 256"
    using assms by (auto simp: ctx_ok_def)
  have up: "ctx_ok (ctx\<lparr>ruh_attr := (ruh_attr ctx)[i := x]\<rparr>)" if "x < 256" for i x
    using assms that by (auto simp: ctx_ok_def dest!: set_update_subset_insert [THEN subsetD])
  have z: "0 < FDP_NR_RUH" by (simp add: FDP_NR_RUH_def)
  show "cmd_dtype cmd = NVME_DIRECTIVE_PLACEMENT \<and> FDP_NR_RUH \<le> cmd_pid cmd \<Longrightarrow> route_write cmd ctx = Some Invalid_PID"
    by (simp add: route_write_def Let_def d)
  assume v: "\<not> (cmd_dtype cmd = NVME_DIRECTIVE_PLACEMENT \<and> FDP_NR_RUH \<le> cmd_pid cmd)"
  show "\<exists>a. route_write cmd ctx = Some (Placed (cmd_ruh cmd) (ctx\<lparr>ruh_attr := a\<rparr>)) \<and> ctx_ok (ctx\<lparr>ruh_attr := a\<rparr>) \<and>
        a ! cmd_ruh cmd \<noteq> NVME_FDP_RUHA_UNUSED \<and> (\<forall>i. i \<noteq> cmd_ruh cmd \<longrightarrow> a ! i = ruh_attr ctx ! i) \<and> cmd_ruh cmd < FDP_NR_RUH"
  proof (cases "cmd_dtype cmd = NVME_DIRECTIVE_PLACEMENT")
    case True
    with v have p: "cmd_pid cmd < FDP_NR_RUH" by simp
    let ?a = "(ruh_attr ctx)[cmd_pid cmd := NVME_FDP_RUHA_HOST]"
    have "route_write cmd ctx = Some (Placed (cmd_ruh cmd) (ctx\<lparr>ruh_attr := ?a\<rparr>))"
      using True p len by (simp add: route_write_def Let_def d)
    then show ?thesis using True p len up [of NVME_FDP_RUHA_HOST "cmd_pid cmd"]
      by (intro exI [of _ ?a]) (simp add: cmd_ruh_def NVME_FDP_RUHA_HOST_def NVME_FDP_RUHA_UNUSED_def)
  next
    case False
    let ?a = "if ruh_attr ctx ! 0 = NVME_FDP_RUHA_UNUSED then (ruh_attr ctx)[0 := NVME_FDP_RUHA_CTRL] else ruh_attr ctx"
    have "route_write cmd ctx = Some (Placed (cmd_ruh cmd) (ctx\<lparr>ruh_attr := ?a\<rparr>))"
      using False len z by (simp add: route_write_def Let_def d)
    then show ?thesis using False len z up [of NVME_FDP_RUHA_CTRL 0] assms
      by (intro exI [of _ ?a]) (simp add: cmd_ruh_def NVME_FDP_RUHA_CTRL_def NVME_FDP_RUHA_UNUSED_def)
  qed
qed

text \<open>The part of \<open>fdp_write\<close> before the buffer: range check and placement.\<close>

lemma fdp_write_unfold:
  assumes run: "ns_run n sp ns"
  shows "fdp_write clk req ret ns e =
    (if cmd_last sp (req_cmd req) div ns_nr_parts ns \<ge> tt_pgs sp then Some (False, ret, ns, e)
     else do {
       r \<leftarrow> route_write (req_cmd req) (e_ctx e);
       case r of
         Invalid_PID \<Rightarrow> do {
           e1 \<leftarrow> gc_emit clk NVME_FDP_EVT_INVALID_PID (NVME_FDP_EVENT_F_PIV + NVME_FDP_EVENT_F_NSIDV)
                   (cmd_pid (req_cmd req)) (rw_nsid (req_cmd req)) e;
           Some (True, ret\<lparr>ret_status := NVME_SC_INVALID_FIELD, ret_nsecs_target := req_nsecs_start req\<rparr>,
                 ns, e1)
         }
       | Placed ruh ctx \<Rightarrow> do {
           (allocated, wbuf) \<leftarrow> buffer_allocate (sh_wbuf (e_sh e)) (cmd_bytes (req_cmd req));
           let e1 = e\<lparr>e_sh := (e_sh e)\<lparr>sh_wbuf := wbuf\<rparr>, e_ctx := ctx\<rparr>;
           if allocated < (cmd_bytes (req_cmd req)) then Some (False, ret, ns, e1)
           else do {
             let ctx1 = ctx\<lparr>hbmw := u64 (hbmw ctx + (cmd_bytes (req_cmd req))), mbmw := u64 (mbmw ctx + (cmd_bytes (req_cmd req)))\<rparr>;
             (t, sh) \<leftarrow> ssd_advance_write_buffer clk sp (e_sh e1) (req_nsecs_start req) (cmd_bytes (req_cmd req));
             (latest, ns', e') \<leftarrow> foldM (write_body clk (req_sq_id req) t ruh (ns_nr_parts ns))
               [cmd_first sp (req_cmd req)..<Suc (cmd_last sp (req_cmd req))] (t, ns, e1\<lparr>e_sh := sh, e_ctx := ctx1\<rparr>);
             Some (True, ret\<lparr>ret_nsecs_target :=
                 (if rw_fua (req_cmd req) \<or> \<not> write_early_completion sp then latest else t),
                 ret_status := NVME_SC_SUCCESS\<rparr>, ns', e')
           }
         }
     })"
proof -
  have np: "0 < ns_nr_parts ns" using run by (simp add: ns_run_def)
  have sp: "secs_per_pg sp \<noteq> 0" using geo_pos [OF ns_run_geo [OF run]] by simp
  show ?thesis
    using ns_run_part [OF run np] np sp
    by (simp only: fdp_write_def Let_def Option.bind.simps NVMEV_ASSERT_simps bind_NVMEV_ASSERT write_body_def [abs_def]
        cmd_last_def cmd_first_def cmd_pid_def cmd_bytes_def refl if_True simp_thms neq0_conv)
qed

text \<open>What is assumed of a device at rest: the shared state is well formed, and the write buffer holds the largest command.\<close>

definition dev_ok :: "fdp_env \<Rightarrow> bool" where
  "dev_ok e \<longleftrightarrow> env_ok e \<and> LBA_TO_BYTE 65536 \<le> buf_size (sh_wbuf (e_sh e))"

lemma cmd_bytes_le: "rw_length cmd < 65536 \<Longrightarrow> dev_ok e \<Longrightarrow> cmd_bytes cmd \<le> buf_size (sh_wbuf (e_sh e)) \<and>
    0 < cmd_bytes cmd \<and> cmd_bytes cmd < 4294967296"
  by (auto simp: cmd_bytes_def dev_ok_def LBA_TO_BYTE_def u64_id)

lemma write_invalid_pid:
  assumes run: "ns_run n sp ns" and e: "env_ok e" and r: "cmd_last sp (req_cmd req) div ns_nr_parts ns < tt_pgs sp"
    and pid: "cmd_dtype (req_cmd req) = NVME_DIRECTIVE_PLACEMENT" "FDP_NR_RUH \<le> cmd_pid (req_cmd req)"
  shows "\<exists>e'. fdp_write clk req ret ns e = Some (True, ret\<lparr>ret_status := NVME_SC_INVALID_FIELD,
      ret_nsecs_target := req_nsecs_start req\<rparr>, ns, e') \<and> env_kept e e' \<and> e_sched e' = e_sched e \<and>
      mbmw (e_ctx e') = mbmw (e_ctx e)"
proof -
  have "route_write (req_cmd req) (e_ctx e) = Some Invalid_PID"
    using route_write_cases(1) e pid by (auto simp: env_ok_def)
  moreover obtain e' where "gc_emit clk NVME_FDP_EVT_INVALID_PID (NVME_FDP_EVENT_F_PIV + NVME_FDP_EVENT_F_NSIDV)
       (cmd_pid (req_cmd req)) (rw_nsid (req_cmd req)) e = Some e'" "env_kept e e'" "e_sched e' = e_sched e"
       "mbmw (e_ctx e') = mbmw (e_ctx e)"
    using gc_emit_ok [OF e] unfolding env_kept_def by metis
  ultimately show ?thesis unfolding fdp_write_unfold [OF run] using r by auto
qed

lemma write_no_buffer:
  assumes run: "ns_run n sp ns" and e: "dev_ok e" and r: "cmd_last sp (req_cmd req) div ns_nr_parts ns < tt_pgs sp"
    and len: "rw_length (req_cmd req) < 65536"
    and pid: "\<not> (cmd_dtype (req_cmd req) = NVME_DIRECTIVE_PLACEMENT \<and> FDP_NR_RUH \<le> cmd_pid (req_cmd req))"
    and full: "buf_remaining (sh_wbuf (e_sh e)) < cmd_bytes (req_cmd req)"
  shows "\<exists>a. fdp_write clk req ret ns e = Some (False, ret, ns, e\<lparr>e_ctx := (e_ctx e)\<lparr>ruh_attr := a\<rparr>\<rparr>) \<and>
     dev_ok (e\<lparr>e_ctx := (e_ctx e)\<lparr>ruh_attr := a\<rparr>\<rparr>)"
proof -
  note b = cmd_bytes_le [OF len e]
  obtain a where "route_write (req_cmd req) (e_ctx e) = Some (Placed (cmd_ruh (req_cmd req)) ((e_ctx e)\<lparr>ruh_attr := a\<rparr>))"
    "ctx_ok ((e_ctx e)\<lparr>ruh_attr := a\<rparr>)"
    using route_write_cases(2) [OF _ pid, of "e_ctx e"] e by (auto simp: dev_ok_def env_ok_def)
  moreover have "buffer_allocate (sh_wbuf (e_sh e)) (cmd_bytes (req_cmd req)) = Some (0, sh_wbuf (e_sh e))"
    using b full by (simp add: buffer_allocate_def Let_def u32_id)
  ultimately show ?thesis unfolding fdp_write_unfold [OF run] using r b e
    by (auto simp: Let_def dev_ok_def env_ok_def)
qed

lemma write_ok:
  assumes run: "ns_run n sp ns" and n: "fits n sp" "n \<le> tt_pgs sp" and e: "dev_ok e"
    and r: "cmd_last sp (req_cmd req) div ns_nr_parts ns < n" and len: "rw_length (req_cmd req) < 65536"
    and pid: "\<not> (cmd_dtype (req_cmd req) = NVME_DIRECTIVE_PLACEMENT \<and> FDP_NR_RUH \<le> cmd_pid (req_cmd req))"
    and room: "cmd_bytes (req_cmd req) \<le> buf_remaining (sh_wbuf (e_sh e))"
  shows "\<exists>t ns' e'. fdp_write clk req ret ns e =
      Some (True, ret\<lparr>ret_nsecs_target := t, ret_status := NVME_SC_SUCCESS\<rparr>, ns', e') \<and>
     ns_run n sp ns' \<and> same_ns ns ns' \<and> dev_ok e' \<and>
     (\<forall>l. l div ns_nr_parts ns < tt_pgs sp \<longrightarrow> (ns_entry ns' l = unmapped_ppa \<longleftrightarrow>
        \<not> (cmd_first sp (req_cmd req) \<le> l \<and> l \<le> cmd_last sp (req_cmd req)) \<and> ns_entry ns l = unmapped_ppa)) \<and>
     hbmw (e_ctx e') = u64 (hbmw (e_ctx e) + cmd_bytes (req_cmd req)) \<and>
     ruh_attr (e_ctx e') ! cmd_ruh (req_cmd req) \<noteq> NVME_FDP_RUHA_UNUSED \<and>
     (\<forall>i. i \<noteq> cmd_ruh (req_cmd req) \<longrightarrow> ruh_attr (e_ctx e') ! i = ruh_attr (e_ctx e) ! i) \<and>
     buf_remaining (sh_wbuf (e_sh e)) = buf_remaining (sh_wbuf (e_sh e')) + cmd_bytes (req_cmd req)"
proof -
  let ?c = "req_cmd req" and ?np = "ns_nr_parts ns"
  note b = cmd_bytes_le [OF len e]
  have eo: "env_ok e" using e by (simp add: dev_ok_def)
  obtain a where rt: "route_write ?c (e_ctx e) = Some (Placed (cmd_ruh ?c) ((e_ctx e)\<lparr>ruh_attr := a\<rparr>))"
    "ctx_ok ((e_ctx e)\<lparr>ruh_attr := a\<rparr>)" "a ! cmd_ruh ?c \<noteq> NVME_FDP_RUHA_UNUSED"
    "\<forall>i. i \<noteq> cmd_ruh ?c \<longrightarrow> a ! i = ruh_attr (e_ctx e) ! i" "cmd_ruh ?c < FDP_NR_RUH"
    using route_write_cases(2) [OF _ pid, of "e_ctx e"] eo by (auto simp: env_ok_def)
  let ?w = "(sh_wbuf (e_sh e))\<lparr>buf_remaining := buf_remaining (sh_wbuf (e_sh e)) - cmd_bytes ?c\<rparr>"
  have al: "buffer_allocate (sh_wbuf (e_sh e)) (cmd_bytes ?c) = Some (cmd_bytes ?c, ?w)"
    using b room by (simp add: buffer_allocate_def Let_def u32_id)
  let ?sh1 = "(e_sh e)\<lparr>sh_wbuf := ?w\<rparr>"
  have sh1: "shared_ok ?sh1" using eo by (auto simp: env_ok_def shared_ok_def buffer_ok_def)
  obtain t sh where ad: "ssd_advance_write_buffer clk sp ?sh1 (req_nsecs_start req) (cmd_bytes ?c) = Some (t, sh)"
    "sh_timing ?sh1 sh" using ssd_advance_write_buffer_returns [OF sh1] by blast
  let ?ctx = "(e_ctx e)\<lparr>ruh_attr := a, hbmw := u64 (hbmw (e_ctx e) + cmd_bytes ?c), mbmw := u64 (mbmw (e_ctx e) + cmd_bytes ?c)\<rparr>"
  let ?e2 = "e\<lparr>e_sh := sh, e_ctx := ?ctx\<rparr>"
  have e2: "env_ok ?e2" using ad(2) rt(2) by (simp add: env_ok_def sh_timing_def ctx_ok_def)
  obtain la ns' e' where lp: "foldM (write_body clk (req_sq_id req) t (cmd_ruh ?c) ?np)
      [cmd_first sp ?c..<Suc (cmd_last sp ?c)] (t, ns, ?e2) = Some (la, ns', e')"
    "wrote n sp (cmd_first sp ?c) (Suc (cmd_last sp ?c)) ns ?e2 ns' e'"
    using write_loop [OF run n e2 rt(5) r] by blast
  have lt: "cmd_last sp ?c div ?np < tt_pgs sp" using r n(2) by simp
  have ek: "env_kept ?e2 e'" using lp(2) by (simp add: wrote_def)
  have wb: "sh_wbuf (e_sh e') = ?w" and eo': "env_ok e'" using ek ad(2) by (simp_all add: env_kept_def sh_timing_def)
  have "dev_ok e'" "buf_remaining (sh_wbuf (e_sh e)) = buf_remaining (sh_wbuf (e_sh e')) + cmd_bytes ?c"
    using wb eo' e room by (simp_all add: dev_ok_def)
  moreover have "fdp_write clk req ret ns e = Some (True, ret\<lparr>ret_nsecs_target :=
      (if rw_fua ?c \<or> \<not> write_early_completion sp then la else t), ret_status := NVME_SC_SUCCESS\<rparr>, ns', e')"
    unfolding fdp_write_unfold [OF run] using lt rt(1) al ad(1) lp(1)
    by (simp add: Let_def)
  ultimately show ?thesis using lp(2) ek rt(3,4)
    by (intro exI conjI) (assumption | simp add: wrote_def env_kept_def less_Suc_eq_le)+
qed

section \<open>Reads\<close>

text \<open>A read changes the timing state of the partitions only.\<close>

definition ftl_timing :: "fdp_ftl \<Rightarrow> fdp_ftl \<Rightarrow> bool" where
  "ftl_timing f f' \<longleftrightarrow> (\<exists>s'. f' = f\<lparr>f_ssd := s'\<rparr> \<and> ssd_ok s' \<and> same_nand (f_ssd f) s')"

lemma ftl_timing_trans: "ftl_timing f f1 \<Longrightarrow> ftl_timing f1 f2 \<Longrightarrow> ftl_timing f f2"
  by (auto simp: ftl_timing_def same_nand_def)

lemma read_flush_returns:
  assumes run: "run_inv n f" and e: "env_ok e" and p: "0 < xfer \<Longrightarrow> real_ppa (f_sp f) prev"
  shows "\<exists>t f' e'. read_flush clk stime xfer prev latest f e = Some (t, f', e') \<and> latest \<le> t \<and>
     ftl_timing f f' \<and> env_kept e e' \<and> e_ctx e' = e_ctx e"
proof -
  have ph: "phys_inv f {} None" using run by (simp add: run_inv_def ftl_inv_def)
  have ref: "ftl_timing f f" unfolding ftl_timing_def
    by (rule exI [of _ "f_ssd f"]) (use phys_invD(1) [OF ph] in simp)
  show ?thesis
  proof (cases "0 < xfer")
    case True
    let ?cmd = "\<lparr>nc_type = USER_IO, nc_cmd = NAND_READ, nc_xfer_size = xfer,
            nc_stime = stime, nc_interleave_pci_dma = True, nc_ppa = prev\<rparr>"
    obtain t s' sh' where "nand clk ?cmd f e = Some (t, f\<lparr>f_ssd := s'\<rparr>, e\<lparr>e_sh := sh'\<rparr>)"
      "ssd_ok s'" "same_nand (f_ssd f) s'" "sh_timing (e_sh e) sh'"
      using nand_returns [OF ph e, of ?cmd clk] p [OF True] True by auto
    then show ?thesis using True e
      by (auto simp: read_flush_def ftl_timing_def env_kept_def env_ok_def sh_timing_def)
  next
    case False
    then show ?thesis using ref env_kept_refl [OF e] by (simp add: read_flush_def)
  qed
qed

lemma run_inv_ftl_timing: "run_inv n f \<Longrightarrow> ftl_timing f f' \<Longrightarrow> run_inv n f' \<and> f_sp f' = f_sp f \<and> f_maptbl f' = f_maptbl f"
  using run_inv_timing by (auto simp: ftl_timing_def same_nand_def)

lemma mapped_real:
  assumes run: "run_inv n f" and l: "l < tt_pgs (f_sp f)" and m: "mapped_ppa (f_maptbl f ! l)"
  shows "real_ppa (f_sp f) (f_maptbl f ! l)"
  using run l m not_mapped_unmapped by (auto simp: run_inv_def ftl_inv_def map_inv_def)

definition read_body ::
  "(nat \<Rightarrow> nat) \<Rightarrow> nat \<Rightarrow> nat \<Rightarrow> ssdparams \<Rightarrow> nat \<Rightarrow> nat \<times> ppa \<times> nat \<times> fdp_ftl \<times> fdp_env \<Rightarrow>
   (nat \<times> ppa \<times> nat \<times> fdp_ftl \<times> fdp_env) option" where
  "read_body clk stime np spp lpn = (\<lambda>(xfer_size, prev_ppa, latest, f, e). do {
     cur_ppa \<leftarrow> get_maptbl_ent f (lpn div np);
     if \<not> mapped_ppa cur_ppa \<or> \<not> valid_ppa spp cur_ppa then Some (xfer_size, prev_ppa, latest, f, e)
     else if mapped_ppa prev_ppa \<and> is_same_flash_page spp cur_ppa prev_ppa
     then Some (u32 (xfer_size + pgsz spp), prev_ppa, latest, f, e)
     else do {
       (latest', f', e') \<leftarrow> read_flush clk stime xfer_size prev_ppa latest f e;
       Some (pgsz spp, cur_ppa, latest', f', e')
     }
   })"

lemma read_part_returns:
  assumes run: "run_inv n f" and e: "env_ok e" and ne: "lpns \<noteq> []"
    and rng: "\<forall>l\<in>set lpns. l div np < tt_pgs (f_sp f)"
  shows "\<exists>t f' e'. read_part clk stime np lpns latest f e = Some (t, f', e') \<and> latest \<le> t \<and>
     ftl_timing f f' \<and> env_kept e e' \<and> e_ctx e' = e_ctx e"
proof -
  let ?sp = "f_sp f" and ?l0 = "lpns ! 0 div np"
  have ml: "length (f_maptbl f) = tt_pgs ?sp" using run by (simp add: run_inv_def ftl_inv_def map_inv_def)
  have l0: "?l0 < tt_pgs ?sp" using rng ne by simp
  have ref: "ftl_timing f f" unfolding ftl_timing_def
    by (rule exI [of _ "f_ssd f"]) (use run phys_invD(1) in \<open>auto simp: run_inv_def ftl_inv_def\<close>)
  let ?P = "\<lambda>_ :: nat list. \<lambda>(x :: nat, p, la, f', e'). (mapped_ppa p \<longrightarrow> real_ppa ?sp p) \<and> (0 < x \<longrightarrow> mapped_ppa p) \<and>
      latest \<le> la \<and> ftl_timing f f' \<and> env_kept e e' \<and> e_ctx e' = e_ctx e"
  have "\<exists>s'. foldM (read_body clk stime np ?sp) lpns (0, f_maptbl f ! ?l0, latest, f, e) = Some s' \<and> ?P lpns s'"
  proof (rule foldM_total [where P = ?P])
    show "?P [] (0, f_maptbl f ! ?l0, latest, f, e)"
      using mapped_real [OF run l0] ref env_kept_refl [OF e] by simp
    fix ys l zs s' assume lp: "lpns = ys @ l # zs" and P: "?P ys s'"
    obtain x p la f1 e1 where s': "s' = (x, p, la, f1, e1)" by (cases s') auto
    have P1: "mapped_ppa p \<longrightarrow> real_ppa ?sp p" "0 < x \<longrightarrow> mapped_ppa p" "latest \<le> la" "ftl_timing f f1"
      "env_kept e e1" "e_ctx e1 = e_ctx e" using P s' by auto
    note r1 = run_inv_ftl_timing [OF run P1(4)]
    have e1: "env_ok e1" using P1(5) by (simp add: env_kept_def)
    have ld: "l div np < tt_pgs ?sp" using rng lp by simp
    let ?c = "f_maptbl f ! (l div np)"
    have gm: "get_maptbl_ent f1 (l div np) = Some ?c" using r1 ml ld by (simp add: get_maptbl_ent_def)
    obtain t f2 e2 where fl: "read_flush clk stime x p la f1 e1 = Some (t, f2, e2)" "la \<le> t" "ftl_timing f1 f2"
      "env_kept e1 e2" "e_ctx e2 = e_ctx e1"
      using read_flush_returns [OF conjunct1 [OF r1] e1, of x p clk stime la] P1(1,2) r1 by auto
    show "\<exists>s''. read_body clk stime np ?sp l s' = Some s'' \<and> ?P (ys @ [l]) s''"
      using s' gm fl P1 mapped_real [OF run ld] ftl_timing_trans [OF P1(4) fl(3)] env_kept_trans [OF P1(5) fl(4)]
      by (auto simp: read_body_def)
  qed
  then obtain x p la f1 e1 where lp: "foldM (read_body clk stime np ?sp) lpns (0, f_maptbl f ! ?l0, latest, f, e) = Some (x, p, la, f1, e1)"
    and P1: "mapped_ppa p \<longrightarrow> real_ppa ?sp p" "0 < x \<longrightarrow> mapped_ppa p" "latest \<le> la" "ftl_timing f f1"
      "env_kept e e1" "e_ctx e1 = e_ctx e" by auto
  note r1 = run_inv_ftl_timing [OF run P1(4)]
  have e1: "env_ok e1" using P1(5) by (simp add: env_kept_def)
  obtain t f2 e2 where fl: "read_flush clk stime x p la f1 e1 = Some (t, f2, e2)" "la \<le> t" "ftl_timing f1 f2"
      "env_kept e1 e2" "e_ctx e2 = e_ctx e1"
    using read_flush_returns [OF conjunct1 [OF r1] e1, of x p clk stime la] P1(1,2) r1 by auto
  have "read_part clk stime np lpns latest f e = Some (t, f2, e2)"
    using ne lp fl(1) l0 ml unfolding read_part_def Let_def read_body_def [abs_def]
    by (simp add: get_maptbl_ent_def)
  then show ?thesis
    using fl(2,5) P1(3,6) ftl_timing_trans [OF P1(4) fl(3)] env_kept_trans [OF P1(5) fl(4)] by auto
qed

definition same_maps_ns :: "fdp_ns \<Rightarrow> fdp_ns \<Rightarrow> bool" where
  "same_maps_ns ns ns' \<longleftrightarrow> same_ns ns ns' \<and> (\<forall>i<ns_nr_parts ns. ftl_timing (ns_ftls ns ! i) (ns_ftls ns' ! i))"

lemma lpn_steps_props:
  assumes "start \<le> hi" "0 < np"
  shows "lpn_steps start hi np \<noteq> []" "\<forall>l\<in>set (lpn_steps start hi np). start \<le> l \<and> l \<le> hi \<and> l mod np = start mod np"
proof -
  show "lpn_steps start hi np \<noteq> []" using assms by (simp add: lpn_steps_def)
  show "\<forall>l\<in>set (lpn_steps start hi np). start \<le> l \<and> l \<le> hi \<and> l mod np = start mod np"
  proof
    fix l assume "l \<in> set (lpn_steps start hi np)"
    then have "l \<in> set (map (\<lambda>k. start + k * np) [0..<Suc ((hi - start) div np)])"
      unfolding lpn_steps_def if_P [OF assms(1)] .
    then obtain k where k: "k \<in> set [0..<Suc ((hi - start) div np)]" "l = start + k * np"
      unfolding set_map by (elim imageE)
    then have "k \<le> (hi - start) div np" by (simp only: set_upt atLeastLessThan_iff less_Suc_eq_le)
    then have "k * np \<le> hi - start" using assms(2) by (simp only: less_eq_div_iff_mult_less_eq)
    then show "start \<le> l \<and> l \<le> hi \<and> l mod np = start mod np" using k(2) assms(1) by simp
  qed
qed

definition read_parts ::
  "(nat \<Rightarrow> nat) \<Rightarrow> nat \<Rightarrow> nat \<Rightarrow> nat \<Rightarrow> nat \<Rightarrow> nat \<Rightarrow> nat \<times> fdp_ns \<times> fdp_env \<Rightarrow> (nat \<times> fdp_ns \<times> fdp_env) option" where
  "read_parts clk stime np lo hi i = (\<lambda>(latest, ns, e).
     let start = lo + i in
     if start \<le> hi then do {
       f \<leftarrow> rd (ns_ftls ns) (start mod np);
       (latest', f', e') \<leftarrow> read_part clk stime np (lpn_steps start hi np) latest f e;
       Some (latest', put_part ns (start mod np) f', e')
     } else Some (latest, ns, e))"

lemma read_loop:
  assumes run: "ns_run n sp ns" and e: "env_ok e" and rng: "hi div ns_nr_parts ns < tt_pgs sp"
  shows "\<exists>t ns' e'. foldM (read_parts clk stime (ns_nr_parts ns) lo hi) [0..<ns_nr_parts ns] (latest, ns, e) =
      Some (t, ns', e') \<and> latest \<le> t \<and> ns_run n sp ns' \<and> same_maps_ns ns ns' \<and> env_kept e e' \<and> e_ctx e' = e_ctx e"
proof -
  let ?np = "ns_nr_parts ns"
  have np: "0 < ?np" using run by (simp add: ns_run_def)
  let ?P = "\<lambda>_ :: nat. \<lambda>(t, ns', e'). latest \<le> t \<and> ns_run n sp ns' \<and> same_maps_ns ns ns' \<and> env_kept e e' \<and> e_ctx e' = e_ctx e"
  have ref: "ftl_timing f f" if "f \<in> set (ns_ftls ns)" for f unfolding ftl_timing_def
    by (rule exI [of _ "f_ssd f"]) (use run that phys_invD(1) in \<open>auto simp: ns_run_def run_inv_def ftl_inv_def\<close>)
  have "\<exists>s'. foldM (read_parts clk stime ?np lo hi) [0..<?np] (latest, ns, e) = Some s' \<and> ?P ?np s'"
  proof (rule foldM_upt_total [where P = ?P])
    show "?P 0 (latest, ns, e)"
      using run ref env_kept_refl [OF e] by (auto simp: same_maps_ns_def same_ns_def ns_run_def)
    fix i s' assume P: "?P i s'"
    obtain la ns1 e1 where s': "s' = (la, ns1, e1)" by (cases s')
    have P1: "latest \<le> la" "ns_run n sp ns1" "same_maps_ns ns ns1" "env_kept e e1" "e_ctx e1 = e_ctx e" using P s' by auto
    have np1: "ns_nr_parts ns1 = ?np" using P1(3) by (simp add: same_maps_ns_def same_ns_def)
    let ?m = "(lo + i) mod ?np"
    have m: "?m < ns_nr_parts ns1" "?m < ?np" using np np1 by simp_all
    note f = ns_run_part [OF P1(2) m(1)]
    have e1: "env_ok e1" using P1(4) by (simp add: env_kept_def)
    show "\<exists>s''. read_parts clk stime ?np lo hi i s' = Some s'' \<and> ?P (Suc i) s''"
    proof (cases "lo + i \<le> hi")
      case False
      then show ?thesis using s' P1 by (simp add: read_parts_def)
    next
      case True
      note st = lpn_steps_props [OF True np]
      have "\<forall>l\<in>set (lpn_steps (lo + i) hi ?np). l div ?np < tt_pgs sp"
        using st(2) rng div_le_mono [of _ hi ?np] le_less_trans by blast
      then obtain t f' e2 where r: "read_part clk stime ?np (lpn_steps (lo + i) hi ?np) la (ns_ftls ns1 ! ?m) e1 = Some (t, f', e2)"
        "la \<le> t" "ftl_timing (ns_ftls ns1 ! ?m) f'" "env_kept e1 e2" "e_ctx e2 = e_ctx e1"
        using read_part_returns [OF f(2) e1 st(1), of ?np clk stime la] f(3) by auto
      note rf = run_inv_ftl_timing [OF f(2) r(3)]
      have run2: "ns_run n sp (put_part ns1 ?m f')" by (rule ns_run_put [OF P1(2)]) (use rf f(3) in auto)
      have "ftl_timing (ns_ftls ns ! j) (ns_ftls (put_part ns1 ?m f') ! j)" if "j < ?np" for j
      proof (cases "j = ?m")
        case True
        have "ftl_timing (ns_ftls ns ! ?m) (ns_ftls ns1 ! ?m)" using P1(3) m by (simp add: same_maps_ns_def)
        from ftl_timing_trans [OF this r(3)] show ?thesis
          using True m P1(2) by (simp add: put_part_def ns_run_def)
      next
        case False
        then show ?thesis using P1(3) that by (simp add: put_part_def same_maps_ns_def)
      qed
      then have "same_maps_ns ns (put_part ns1 ?m f')"
        using P1(3) put_part_sel(1) [of ns1 ?m f'] by (simp add: same_maps_ns_def same_ns_def)
      then show ?thesis using s' True f(1) r P1 run2 env_kept_trans [OF P1(4) r(4)]
        by (simp add: read_parts_def)
    qed
  qed simp
  then show ?thesis by auto
qed

lemma read_ok:
  assumes run: "ns_run n sp ns" and e: "env_ok e"
  shows "cmd_last sp (req_cmd req) div ns_nr_parts ns < tt_pgs sp \<Longrightarrow>
     \<exists>t ns' e'. fdp_read clk req ret ns e = Some (True, ret\<lparr>ret_nsecs_target := t, ret_status := NVME_SC_SUCCESS\<rparr>, ns', e') \<and>
       req_nsecs_start req \<le> t \<and> ns_run n sp ns' \<and> same_maps_ns ns ns' \<and> env_kept e e' \<and> e_ctx e' = e_ctx e"
    and "\<not> cmd_last sp (req_cmd req) div ns_nr_parts ns < tt_pgs sp \<Longrightarrow> fdp_read clk req ret ns e = Some (False, ret, ns, e)"
proof -
  have np: "0 < ns_nr_parts ns" using run by (simp add: ns_run_def)
  have sp: "secs_per_pg sp \<noteq> 0" using geo_pos [OF ns_run_geo [OF run]] by simp
  have eq: "fdp_read clk req ret ns e =
    (if cmd_last sp (req_cmd req) div ns_nr_parts ns \<ge> tt_pgs sp then Some (False, ret, ns, e)
     else do {
       let stime = u64 (req_nsecs_start req +
         (if cmd_bytes (req_cmd req) \<le> KB 4 * ns_nr_parts ns then fw_4kb_rd_lat sp else fw_rd_lat sp));
       (latest, ns', e') \<leftarrow> foldM (read_parts clk stime (ns_nr_parts ns) (cmd_first sp (req_cmd req)) (cmd_last sp (req_cmd req)))
          [0..<ns_nr_parts ns] (req_nsecs_start req, ns, e);
       Some (True, ret\<lparr>ret_nsecs_target := latest, ret_status := NVME_SC_SUCCESS\<rparr>, ns', e')
     })"
    using ns_run_part [OF run np] np sp
    by (simp only: fdp_read_def Let_def Option.bind.simps NVMEV_ASSERT_simps bind_NVMEV_ASSERT read_parts_def [abs_def]
        cmd_last_def cmd_first_def cmd_bytes_def refl if_True simp_thms neq0_conv)
  show "\<not> cmd_last sp (req_cmd req) div ns_nr_parts ns < tt_pgs sp \<Longrightarrow> fdp_read clk req ret ns e = Some (False, ret, ns, e)"
    by (simp add: eq)
  assume r: "cmd_last sp (req_cmd req) div ns_nr_parts ns < tt_pgs sp"
  define st where "st = u64 (req_nsecs_start req +
    (if cmd_bytes (req_cmd req) \<le> KB 4 * ns_nr_parts ns then fw_4kb_rd_lat sp else fw_rd_lat sp))"
  obtain t ns' e' where l: "foldM (read_parts clk st (ns_nr_parts ns) (cmd_first sp (req_cmd req)) (cmd_last sp (req_cmd req)))
          [0..<ns_nr_parts ns] (req_nsecs_start req, ns, e) = Some (t, ns', e')"
    and k: "req_nsecs_start req \<le> t" "ns_run n sp ns'" "same_maps_ns ns ns'" "env_kept e e'" "e_ctx e' = e_ctx e"
    using read_loop [OF run e r, of clk st "cmd_first sp (req_cmd req)" "req_nsecs_start req"] by blast
  have "fdp_read clk req ret ns e = Some (True, ret\<lparr>ret_nsecs_target := t, ret_status := NVME_SC_SUCCESS\<rparr>, ns', e')"
    unfolding eq Let_def st_def [symmetric] l using r by simp
  with k show "\<exists>t ns' e'. fdp_read clk req ret ns e = Some (True, ret\<lparr>ret_nsecs_target := t, ret_status := NVME_SC_SUCCESS\<rparr>, ns', e') \<and>
       req_nsecs_start req \<le> t \<and> ns_run n sp ns' \<and> same_maps_ns ns ns' \<and> env_kept e e' \<and> e_ctx e' = e_ctx e" by blast
qed

section \<open>Flush\<close>

lemma flush_ok:
  assumes run: "ns_run n sp ns" and e: "env_ok e"
  shows "\<exists>t e'. fdp_flush clk ret ns e = Some (ret\<lparr>ret_status := NVME_SC_SUCCESS, ret_nsecs_target := t\<rparr>, e') \<and>
     env_kept e e' \<and> e_ctx e' = e_ctx e \<and> e_sched e' = e_sched e \<and>
     (\<forall>f\<in>set (ns_ftls ns). \<forall>c<nchs sp. \<forall>l<luns_per_ch sp. next_lun_avail_time (ch_lun (ssd_ch (f_ssd f) ! c) ! l) \<le> t)"
proof -
  let ?np = "ns_nr_parts ns" and ?sh0 = "snd (get_clock clk (e_sh e))" and ?now = "fst (get_clock clk (e_sh e))"
  let ?idle = "\<lambda>f t. \<forall>c<nchs sp. \<forall>l<luns_per_ch sp. next_lun_avail_time (ch_lun (ssd_ch (f_ssd f) ! c) ! l) \<le> t"
  let ?P = "\<lambda>i (t, sh). sh_timing (e_sh e) sh \<and> (\<forall>j<i. ?idle (ns_ftls ns ! j) t)"
  have "\<exists>s'. foldM (\<lambda>i (latest, sh). do {
         f \<leftarrow> rd (ns_ftls ns) i;
         (t, sh') \<leftarrow> ssd_next_idle_time clk (f_ssd f) sh;
         Some (max latest t, sh')
       }) [0..<?np] (?now, ?sh0) = Some s' \<and> ?P ?np s'"
  proof (rule foldM_upt_total [where P = ?P])
    show "?P 0 (?now, ?sh0)" using e by (simp add: get_clock_def sh_timing_def env_ok_def shared_ok_def)
    fix i s' assume i: "i < ?np" and P: "?P i s'"
    obtain la sh where s': "s' = (la, sh)" by (cases s')
    note f = ns_run_part [OF run i]
    have ok: "ssd_ok (f_ssd (ns_ftls ns ! i))" using f(2) phys_invD(1) by (auto simp: run_inv_def ftl_inv_def)
    obtain t sh' where t: "ssd_next_idle_time clk (f_ssd (ns_ftls ns ! i)) sh = Some (t, sh')" "sh_timing sh sh'"
      "?idle (ns_ftls ns ! i) t"
      using next_idle_time [OF ok, of sh clk] P s' f(3) by (auto simp: sh_timing_def)
    have "?P (Suc i) (max la t, sh')" using P s' t(2,3) by (auto simp: sh_timing_def less_Suc_eq le_max_iff_disj)
    then show "\<exists>s''. (\<lambda>(latest, sh). do {
         f \<leftarrow> rd (ns_ftls ns) i;
         (t, sh') \<leftarrow> ssd_next_idle_time clk (f_ssd f) sh;
         Some (max latest t, sh')
       }) s' = Some s'' \<and> ?P (Suc i) s''" using s' f(1) t(1) by simp
  qed simp
  then obtain t sh where fl: "foldM (\<lambda>i (latest, sh). do {
         f \<leftarrow> rd (ns_ftls ns) i;
         (t, sh') \<leftarrow> ssd_next_idle_time clk (f_ssd f) sh;
         Some (max latest t, sh')
       }) [0..<?np] (?now, ?sh0) = Some (t, sh)" "sh_timing (e_sh e) sh" "\<forall>j<?np. ?idle (ns_ftls ns ! j) t" by auto
  have "fdp_flush clk ret ns e = Some (ret\<lparr>ret_status := NVME_SC_SUCCESS, ret_nsecs_target := t\<rparr>, e\<lparr>e_sh := sh\<rparr>)"
    unfolding fdp_flush_def Let_def using fl(1) by (simp add: case_prod_beta)
  moreover have "env_kept e (e\<lparr>e_sh := sh\<rparr>)" using fl(2) e by (simp add: env_kept_def env_ok_def sh_timing_def)
  moreover have "?idle f t" if f: "f \<in> set (ns_ftls ns)" for f
  proof -
    obtain j where j: "j < length (ns_ftls ns)" "f = ns_ftls ns ! j" using f by (metis in_set_conv_nth)
    then have "j < ?np" using run by (simp add: ns_run_def)
    with fl(3) j(2) show ?thesis by blast
  qed
  ultimately show ?thesis by (intro exI [of _ t] exI [of _ "e\<lparr>e_sh := sh\<rparr>"]) simp
qed

section \<open>The device as a state machine\<close>

text \<open>
  A request of the host to a device whose host uses \<open>n\<close> logical pages of every partition: a
  read anywhere, a write inside those pages, a flush, or an opcode with a name.
\<close>

definition host_req :: "nat \<Rightarrow> ssdparams \<Rightarrow> nat \<Rightarrow> nvmev_request \<Rightarrow> bool" where
  "host_req n sp np req \<longleftrightarrow> rw_opcode (req_cmd req) \<le> 0xB3 \<and> rw_length (req_cmd req) < 65536 \<and>
     (rw_opcode (req_cmd req) = nvme_cmd_write \<longrightarrow>
        cmd_last sp (req_cmd req) div np < n \<or> tt_pgs sp \<le> cmd_last sp (req_cmd req) div np)"

definition dev_inv :: "nat \<Rightarrow> ssdparams \<Rightarrow> fdp_ns \<times> fdp_env \<Rightarrow> bool" where
  "dev_inv n sp = (\<lambda>(ns, e). ns_run n sp ns \<and> dev_ok e \<and> ns_csi ns = NVME_CSI_NVM \<and> fits n sp \<and> n \<le> tt_pgs sp)"

lemma dev_ok_kept: "dev_ok e \<Longrightarrow> env_kept e e' \<Longrightarrow> dev_ok e'"
  by (simp add: dev_ok_def env_kept_def)

lemma dispatch_ok:
  assumes inv: "dev_inv n sp (ns, e)" and req: "host_req n sp (ns_nr_parts ns) req"
  shows "\<exists>ok ret' ns' e'. fdp_proc_nvme_io_cmd clk req ret ns e = Some (ok, ret', ns', e') \<and> dev_inv n sp (ns', e') \<and> same_ns ns ns'"
proof -
  let ?c = "req_cmd req" and ?np = "ns_nr_parts ns"
  have run: "ns_run n sp ns" and e: "dev_ok e" and csi: "ns_csi ns = NVME_CSI_NVM" and n: "fits n sp" "n \<le> tt_pgs sp"
    using inv by (auto simp: dev_inv_def)
  have eo: "env_ok e" using e by (simp add: dev_ok_def)
  have len: "rw_length ?c < 65536" using req by (simp add: host_req_def)
  have inv': "dev_inv n sp (ns', e') \<and> same_ns ns ns'" if "ns_run n sp ns'" "same_ns ns ns'" "dev_ok e'" for ns' e'
    using that csi n by (simp add: dev_inv_def same_ns_def)
  have keep: "dev_inv n sp (ns, e') \<and> same_ns ns ns" if "dev_ok e'" for e' by (rule inv' [OF run _ that]) (simp add: same_ns_def)
  consider (w) "rw_opcode ?c = nvme_cmd_write" | (r) "rw_opcode ?c = nvme_cmd_read" | (f) "rw_opcode ?c = nvme_cmd_flush"
    | (o) "rw_opcode ?c \<noteq> nvme_cmd_write" "rw_opcode ?c \<noteq> nvme_cmd_read" "rw_opcode ?c \<noteq> nvme_cmd_flush" by blast
  then show ?thesis
  proof cases
    case w
    have "\<exists>ok ret' ns' e'. fdp_write clk req ret ns e = Some (ok, ret', ns', e') \<and> dev_inv n sp (ns', e') \<and> same_ns ns ns'"
    proof (cases "tt_pgs sp \<le> cmd_last sp ?c div ?np")
      case True
      then have "fdp_write clk req ret ns e = Some (False, ret, ns, e)" by (simp add: fdp_write_unfold [OF run])
      then show ?thesis using keep [OF e] by blast
    next
      case False
      then have r: "cmd_last sp ?c div ?np < n" "cmd_last sp ?c div ?np < tt_pgs sp" using req w by (auto simp: host_req_def)
      show ?thesis
      proof (cases "cmd_dtype ?c = NVME_DIRECTIVE_PLACEMENT \<and> FDP_NR_RUH \<le> cmd_pid ?c")
        case True
        then show ?thesis using write_invalid_pid [OF run eo r(2), of clk ret] keep dev_ok_kept [OF e] by blast
      next
        case pid: False
        show ?thesis
        proof (cases "cmd_bytes ?c \<le> buf_remaining (sh_wbuf (e_sh e))")
          case True
          then show ?thesis using write_ok [OF run n e r(1) len pid True, of clk ret] inv' by blast
        next
          case False
          then show ?thesis using write_no_buffer [OF run e r(2) len pid, of clk ret] keep by (meson not_le)
        qed
      qed
    qed
    then show ?thesis using w csi by (simp add: fdp_proc_nvme_io_cmd_def)
  next
    case r
    have "\<exists>ok ret' ns' e'. fdp_read clk req ret ns e = Some (ok, ret', ns', e') \<and> dev_inv n sp (ns', e') \<and> same_ns ns ns'"
      using read_ok [OF run eo, of req clk ret] keep [OF e] inv' dev_ok_kept [OF e]
      unfolding same_maps_ns_def by blast
    then show ?thesis using r csi by (simp add: fdp_proc_nvme_io_cmd_def nvme_consts)
  next
    case f
    obtain t e' where "fdp_flush clk ret ns e = Some (ret\<lparr>ret_status := NVME_SC_SUCCESS, ret_nsecs_target := t\<rparr>, e')" "env_kept e e'"
      using flush_ok [OF run eo, of clk ret] by blast
    then show ?thesis using f keep [OF dev_ok_kept [OF e]] csi
      by (intro exI [of _ True]) (simp add: fdp_proc_nvme_io_cmd_def nvme_consts)
  next
    case o
    then show ?thesis using keep [OF e] csi req
      by (auto simp: fdp_proc_nvme_io_cmd_def nvme_opcode_string_def host_req_def)
  qed
qed

definition fdp_serve :: "(nat \<Rightarrow> nat) \<Rightarrow> fdp_ns \<times> fdp_env \<Rightarrow> nvmev_request \<times> nvmev_result \<Rightarrow> (fdp_ns \<times> fdp_env) option" where
  "fdp_serve clk = (\<lambda>(ns, e) (req, ret). map_option (\<lambda>(_, _, ns', e'). (ns', e')) (fdp_proc_nvme_io_cmd clk req ret ns e))"

definition fdp_host :: "nat \<Rightarrow> ssdparams \<Rightarrow> fdp_ns \<times> fdp_env \<Rightarrow> nvmev_request \<times> nvmev_result \<Rightarrow> bool" where
  "fdp_host n sp = (\<lambda>(ns, e) (req, ret). host_req n sp (ns_nr_parts ns) req)"

interpretation fdev: device_contract "dev_inv n sp" "fdp_host n sp" "fdp_serve clk" "\<lambda>_ _. True" for n sp clk
proof
  fix s r assume i: "dev_inv n sp s" and h: "fdp_host n sp s r"
  obtain ns e req ret where s: "s = (ns, e)" "r = (req, ret)" by (metis surj_pair)
  show "\<exists>s'. fdp_serve clk s r = Some s' \<and> dev_inv n sp s' \<and> True"
    using dispatch_ok [of n sp ns e req clk ret] i h by (auto simp: s fdp_host_def fdp_serve_def)
qed auto

abbreviation dev_step :: "(nat \<Rightarrow> nat) \<Rightarrow> nat \<Rightarrow> ssdparams \<Rightarrow> fdp_ns \<times> fdp_env \<Rightarrow> fdp_ns \<times> fdp_env \<Rightarrow> bool" where
  "dev_step clk n sp \<equiv> device_step (fdp_host n sp) (fdp_serve clk)"

end
