(* ===== verification/Fdp_Example.thy ===== *)
theory Fdp_Example
  imports Fdp_Device
begin

text \<open>
  Concrete devices on which the properties of the FDP translation layer are instantiated: the
  device of the \<open>SAMSUNG_FDP\<close> configuration with 1 GiB, and a small one (20 lines of two
  pages) with a short history of writes that leaves a line for garbage collection.
\<close>

section \<open>The shipped configuration\<close>

lemma fresh_run_inv:
  assumes inv: "ftl_inv f" and um: "\<forall>lpn<tt_pgs (f_sp f). f_maptbl f ! lpn = unmapped_ppa"
    and wfc: "f_wfc f = init_write_flow_control (f_sp f)" and thr: "gc_thres_lines_high (f_cp f) = Suc FDP_NR_RUH"
    and fl: "FDP_NR_RUH + 2 \<le> length (free_line_list (f_lm f))"
  shows "run_inv n f"
proof -
  have ph: "phys_inv f {} None" using inv by (simp add: ftl_inv_def)
  note g = phys_invD(2) [OF ph]
  have u: "u32 (pgs_per_line (f_sp f)) = pgs_per_line (f_sp f)" using geo_le(7) [OF g] by (simp add: u32_id)
  have "pgs_per_line (f_sp f) * (FDP_NR_RUH + 2) \<le> pgs_per_line (f_sp f) * length (free_line_list (f_lm f))"
    by (rule mult_le_mono2 [OF fl])
  then have "Suc FDP_NR_RUH * pgs_per_line (f_sp f) + pgs_per_line (f_sp f) < free_pages f"
    using free_pages_ge [OF ph] by (simp add: algebra_simps)
  then show ?thesis using assms u geo_pgs_pos(2) [OF g] by (simp add: run_inv_def uses_def init_write_flow_control_def)
qed

text \<open>A fresh device of the shipped configuration, with capacity \<open>cap\<close>, satisfies the device invariant.\<close>

lemma samsung_fdp_device:
  assumes cap: "4 \<le> cap" "cap \<le> GB 512"
  shows "\<exists>sp ns e. ssd_init_params samsung_fdp cap (SSD_PARTITIONS samsung_fdp) = Some sp \<and>
     fdp_init_namespace (replicate 129 0) samsung_fdp nsid cap cpu ctx = Some (ns, e) \<and> tt_lines sp = 128 \<and>
     ns_nr_parts ns = 4 \<and> sh_wbuf (e_sh e) = buffer_init (MB 256) \<and>
     ns_run n sp ns \<and> dev_ok e \<and> ns_csi ns = NVME_CSI_NVM"
proof -
  obtain sp where sp: "ssd_init_params samsung_fdp cap (SSD_PARTITIONS samsung_fdp) = Some sp" "geo_ok sp" "tt_lines sp = 128"
    and bw: "ch_bandwidth sp = 800" "pcie_bandwidth sp = 3360" "write_buffer_size sp = MB 256"
    using samsung_fdp_params [OF cap] by blast
  have bl: "blks_per_pl sp = 128" using geo_eqs(2) [OF sp(2)] sp(3) by simp
  have np: "SSD_PARTITIONS samsung_fdp = 4" by (simp add: samsung_fdp_def)
  obtain ns e where i: "fdp_init_namespace (replicate 129 0) samsung_fdp nsid cap cpu ctx = Some (ns, e)" "ns_ok sp ns" "env_ok e"
     "ns_nr_parts ns = 4" "ns_csi ns = NVME_CSI_NVM" "sh_wbuf (e_sh e) = buffer_init (write_buffer_size sp)"
     "\<forall>f\<in>set (ns_ftls ns). f_cp f = fdp_init_params samsung_fdp \<and> f_wfc f = init_write_flow_control sp \<and>
        length (free_line_list (f_lm f)) = blks_per_pl sp - Suc FDP_NR_RUH \<and> (\<forall>lpn<tt_pgs sp. f_maptbl f ! lpn = unmapped_ppa)"
    using fdp_init_namespace_ok [OF sp(1,2), of "replicate 129 0" nsid cpu ctx] bw bl np by (auto simp: FDP_NR_RUH_def)
  have "run_inv n f" if "f \<in> set (ns_ftls ns)" for f
    by (rule fresh_run_inv) (use i(2,7) that bl in \<open>auto simp: ns_ok_def fdp_init_params_def FDP_NR_RUH_def\<close>)
  then have "ns_run n sp ns" using i(2) by (simp add: ns_run_def ns_ok_def)
  moreover have "dev_ok e" using i(3,6) bw(3) by (simp add: dev_ok_def buffer_init_def LBA_TO_BYTE_def MB_def KB_def u64_id)
  ultimately show ?thesis using i(1,4,5,6) sp(1,3) bw(3) by auto
qed

lemma tt_pgs_lines: "geo_ok sp \<Longrightarrow> tt_pgs sp = tt_lines sp * pgs_per_line sp"
  by (auto simp: geo_ok_def)

lemma fits_110:
  assumes "geo_ok sp" "tt_lines sp = 128" "n < 110 * pgs_per_line sp"
  shows "fits n sp" "n \<le> tt_pgs sp"
  using assms tt_pgs_lines [OF assms(1)] by (simp_all add: fits_def FDP_NR_RUH_def)

text \<open>The fresh 1 GiB device of the shipped configuration, with 100 lines of logical pages in use per partition.\<close>

lemma sample_device:
  "\<exists>sp ns e. ssd_init_params samsung_fdp (GB 1) (SSD_PARTITIONS samsung_fdp) = Some sp \<and>
     fdp_init_namespace (replicate 129 0) samsung_fdp 1 (GB 1) 0 fdp_ctx_static = Some (ns, e) \<and> ns_nr_parts ns = 4 \<and>
     100 * pgs_per_line sp < 110 * pgs_per_line sp \<and> 7 div 4 < 100 * pgs_per_line sp \<and> 7 div 4 < tt_pgs sp \<and>
     4096 \<le> buf_remaining (sh_wbuf (e_sh e)) \<and> dev_inv (100 * pgs_per_line sp) sp (ns, e)"
proof -
  obtain sp where sp: "ssd_init_params samsung_fdp (GB 1) (SSD_PARTITIONS samsung_fdp) = Some sp" "geo_ok sp" "tt_lines sp = 128"
    using samsung_fdp_params [of "GB 1"] by (auto simp: GB_def MB_def KB_def)
  obtain ns e where d: "fdp_init_namespace (replicate 129 0) samsung_fdp 1 (GB 1) 0 fdp_ctx_static = Some (ns, e)"
     "ns_nr_parts ns = 4" "sh_wbuf (e_sh e) = buffer_init (MB 256)" "ns_run (100 * pgs_per_line sp) sp ns" "dev_ok e"
     "ns_csi ns = NVME_CSI_NVM"
    using samsung_fdp_device [of "GB 1" 1 0 fdp_ctx_static "100 * pgs_per_line sp"] sp(1) by (auto simp: GB_def MB_def KB_def)
  have p: "0 < pgs_per_line sp" by (rule geo_pgs_pos(2) [OF sp(2)])
  then have "100 * pgs_per_line sp < 110 * pgs_per_line sp" by simp
  note f = fits_110 [OF sp(2,3) this]
  have "dev_inv (100 * pgs_per_line sp) sp (ns, e)" using d(4-6) f by (simp add: dev_inv_def)
  then show ?thesis using sp(1) d(1-3) p tt_pgs_lines [OF sp(2)] sp(3) by (auto simp: buffer_init_def MB_def KB_def)
qed

section \<open>A small device with a victim line\<close>

definition tiny :: ssd_config where
  "tiny = samsung_fdp\<lparr>SSD_PARTITIONS := 1, NAND_CHANNELS := 1, LUNS_PER_NAND_CH := 1,
     FLASH_PAGE_SIZE := KB 4, ONESHOT_PAGE_SIZE := KB 4, BLKS_PER_PLN := 20\<rparr>"

definition tiny_fresh :: "fdp_ftl option" where
  "tiny_fresh = do {
     sp \<leftarrow> ssd_init_params tiny (KB 160) 1;
     (s, _, _) \<leftarrow> ssd_init sp 0;
     fdp_init_ftl (replicate 21 0) (fdp_init_params tiny) s
   }"

definition overwrite :: "nat \<Rightarrow> nat \<Rightarrow> fdp_ftl \<Rightarrow> fdp_ftl option" where
  "overwrite a b f = do {
     (_, f1) \<leftarrow> write_page 0 a f;
     (_, f2) \<leftarrow> write_page 0 b f1;
     (_, f3) \<leftarrow> write_page 0 a f2;
     Some f3
   }"

lemma tiny_params:
  "\<exists>sp. ssd_init_params tiny (KB 160) 1 = Some sp \<and> geo_ok sp \<and> pgs_per_line sp = 2 \<and> blks_per_pl sp = 20 \<and>
     tt_pgs sp = 40 \<and> ch_bandwidth sp = 800 \<and> pcie_bandwidth sp = 3360"
  by (simp add: ssd_init_params_def tiny_def samsung_fdp_def CELL_MODE_MLC_def size_macros LBA_SIZE_def
      LBA_BITS_def c_int_in Let_def u64_id geo_ok_def DIV_ROUND_UP_def)

lemma tiny_fresh_ok:
  "\<exists>f. tiny_fresh = Some f \<and> ftl_inv f \<and> pgs_per_line (f_sp f) = 2 \<and> tt_pgs (f_sp f) = 40 \<and>
     length (free_line_list (f_lm f)) = 11 \<and> (\<forall>k\<le>FDP_NR_RUH. wpi (f_sp f) (wp_page (wps f ! k)) = 0)"
proof -
  obtain sp where sp: "ssd_init_params tiny (KB 160) 1 = Some sp" "geo_ok sp" "pgs_per_line sp = 2" "blks_per_pl sp = 20"
     "tt_pgs sp = 40" "ch_bandwidth sp = 800" "pcie_bandwidth sp = 3360" using tiny_params by blast
  obtain s pc wb where s: "ssd_init sp 0 = Some (s, pc, wb)" "ssd_ok s" "ssd_sp s = sp"
     "\<forall>c<nchs sp. \<forall>l<luns_per_ch sp. \<forall>b<blks_per_pl sp. blk_at s c l b = ssd_init_nand_blk sp"
    using ssd_init_ok [OF sp(2), of 0] sp(6,7) by auto
  let ?f = "fresh_ftl (replicate 21 0) (fdp_init_params tiny) s"
  have n: "FDP_NR_RUH < blks_per_pl (ssd_sp s)" using sp(4) s(3) by (simp add: FDP_NR_RUH_def)
  have "tiny_fresh = Some ?f"
    using sp(1) s(1) fdp_init_ftl_eq [OF ssd_okD(1) [OF s(2)] n] by (simp add: tiny_fresh_def)
  moreover have "ftl_inv ?f" by (rule fresh_ftl_inv [OF s(2) n]) (use s sp in auto)
  moreover have "wpi sp (wp_page (wps ?f ! k)) = 0" if "k \<le> FDP_NR_RUH" for k
  proof -
    have "wps ?f = map start_wp [0..<Suc FDP_NR_RUH]" by (simp add: wps_def fresh_ftl_def Let_def)
    then have "wps ?f ! k = start_wp k" using that by (simp del: upt_Suc)
    then show ?thesis by (simp add: start_wp_sel wpi_def)
  qed
  moreover have "f_ssd ?f = s" "length (free_line_list (f_lm ?f)) = 11"
    using sp(4) s(3) by (simp_all add: fresh_ftl_def Let_def FDP_NR_RUH_def)
  ultimately show ?thesis using sp(3,5) s(3) by (intro exI [of _ ?f]) simp
qed

text \<open>With two pages per line, rewriting the first of two pages leaves a victim line.\<close>

lemma wp_step_index:
  assumes "wp_step f k f'"
  shows "wpi (f_sp f) (wp_page (wps f' ! k)) = (if Suc (wpi (f_sp f) (wp_page (wps f ! k))) = pgs_per_line (f_sp f) then 0
      else Suc (wpi (f_sp f) (wp_page (wps f ! k))))"
    "j \<noteq> k \<Longrightarrow> wps f' ! j = wps f ! j" "length (free_line_list (f_lm f)) \<le> Suc (length (free_line_list (f_lm f')))"
  using assms by (auto simp: wp_step_def Let_def)

lemma wp_stay:
  "wp_step f k f' \<Longrightarrow> Suc (wpi (f_sp f) (wp_page (wps f ! k))) \<noteq> pgs_per_line (f_sp f) \<Longrightarrow> wp_blk (wps f' ! k) = wp_blk (wps f ! k)"
  by (simp add: wp_step_def Let_def)

lemma writtenD:
  assumes "written f ruh lpn p f'"
  shows "real_ppa (f_sp f) p" "p = wp_page (wps f ! ruh)" "pst (f_ssd f) p = PG_FREE" "pst (f_ssd f') p = PG_VALID"
    "real_ppa (f_sp f) q \<Longrightarrow> q \<noteq> p \<Longrightarrow> pst (f_ssd f') q = (if q = f_maptbl f ! lpn then PG_INVALID else pst (f_ssd f) q)"
proof -
  have a: "real_ppa (f_sp f) p" "p = wp_page (wps f ! ruh)" "pst (f_ssd f) p = PG_FREE" and
    st: "\<And>q. real_ppa (f_sp f) q \<Longrightarrow> pst (f_ssd f') q =
        (if q = p then PG_VALID else if q = f_maptbl f ! lpn then PG_INVALID else pst (f_ssd f) q)"
    using assms unfolding written_def by blast+
  show "real_ppa (f_sp f) p" "p = wp_page (wps f ! ruh)" "pst (f_ssd f) p = PG_FREE" by (fact a)+
  show "pst (f_ssd f') p = PG_VALID" using st [OF a(1)] by simp
  show "real_ppa (f_sp f) q \<Longrightarrow> q \<noteq> p \<Longrightarrow> pst (f_ssd f') q = (if q = f_maptbl f ! lpn then PG_INVALID else pst (f_ssd f) q)"
    using st by simp
qed

lemma overwrite_victim:
  assumes inv: "ftl_inv f" and two: "pgs_per_line (f_sp f) = 2" and lp: "a < tt_pgs (f_sp f)" "b < tt_pgs (f_sp f)" "a \<noteq> b"
    and zero: "\<forall>k\<le>FDP_NR_RUH. wpi (f_sp f) (wp_page (wps f ! k)) = 0" and fl: "4 \<le> length (free_line_list (f_lm f))"
  shows "\<exists>f'. overwrite a b f = Some f' \<and> ftl_inv f' \<and> victims f' \<noteq> {} \<and> free_line_list (f_lm f') \<noteq> [] \<and> f_sp f' = f_sp f"
proof -
  let ?sp = "f_sp f"
  have r0: "0 < FDP_NR_RUH" by (simp add: FDP_NR_RUH_def)
  have ne: "free_line_list (f_lm f) \<noteq> []" using fl by auto
  obtain p1 f1 where w1: "write_page 0 a f = Some (p1, f1)" "written f 0 a p1 f1"
    using write_page_written [OF inv r0 lp(1) ne] by blast
  have k1: "ftl_inv f1" "f_sp f1 = ?sp" "wp_step f 0 f1" "f_maptbl f1 = (f_maptbl f)[a := p1]" using w1(2) by (auto simp: written_def)
  have fl1: "3 \<le> length (free_line_list (f_lm f1))" using wp_step_index(3) [OF k1(3)] fl by simp
  then have ne1: "free_line_list (f_lm f1) \<noteq> []" by auto
  obtain p2 f2 where w2: "write_page 0 b f1 = Some (p2, f2)" "written f1 0 b p2 f2"
    using write_page_written [OF k1(1) r0 _ ne1] lp(2) k1(2) by metis
  have k2: "ftl_inv f2" "f_sp f2 = ?sp" "wp_step f1 0 f2" "f_maptbl f2 = (f_maptbl f1)[b := p2]"
    using w2(2) k1(2) by (auto simp: written_def)
  have fl2: "2 \<le> length (free_line_list (f_lm f2))" using wp_step_index(3) [OF k2(3)] fl1 by simp
  then have ne2: "free_line_list (f_lm f2) \<noteq> []" by auto
  obtain p3 f3 where w3: "write_page 0 a f2 = Some (p3, f3)" "written f2 0 a p3 f3"
    using write_page_written [OF k2(1) r0 _ ne2] lp(1) k2(2) by metis
  have k3: "ftl_inv f3" "f_sp f3 = ?sp" "wp_step f2 0 f3" using w3(2) k2(2) by (auto simp: written_def)
  have fl3: "free_line_list (f_lm f3) \<noteq> []" using wp_step_index(3) [OF k3(3)] fl2 by auto
  have ml: "length (f_maptbl f) = tt_pgs ?sp" using inv by (simp add: ftl_inv_def map_inv_def)
  let ?q = "f_maptbl f2 ! a"
  have q1: "?q = p1" using k1(4) k2(4) lp ml by simp
  have q: "real_ppa ?sp p1" "pst (f_ssd f3) p1 = PG_INVALID" "p1 \<noteq> p3"
  proof -
    show r: "real_ppa ?sp p1" by (rule writtenD(1) [OF w1(2)])
    have "pst (f_ssd f1) p1 = PG_VALID" by (rule writtenD(4) [OF w1(2)])
    then have "pst (f_ssd f2) p1 \<noteq> PG_FREE"
      using writtenD(4) [OF w2(2)] writtenD(5) [OF w2(2), of p1] r k1(2) by (cases "p1 = p2") auto
    then show ne: "p1 \<noteq> p3" using writtenD(3) [OF w3(2)] by auto
    show "pst (f_ssd f3) p1 = PG_INVALID" using writtenD(5) [OF w3(2) _ ne] r q1 k2(2) by simp
  qed
  have ph3: "phys_inv f3 {} None" and ph2: "phys_inv f2 {} None" using k3(1) k2(1) by (auto simp: ftl_inv_def)
  have i2: "wpi ?sp (wp_page (wps f2 ! 0)) = 0"
    using wp_step_index(1) [OF k1(3)] wp_step_index(1) [OF k2(3)] k1(2) two zero by simp
  have i3: "wpi ?sp (wp_page (wps f3 ! 0)) = 1" using wp_step_index(1) [OF k3(3)] k2(2) two i2 by simp
  have "g_blk p1 \<notin> set (opens f3)"
  proof
    assume "g_blk p1 \<in> set (opens f3)"
    then obtain k where k: "k \<le> FDP_NR_RUH" "wp_blk (wps f3 ! k) = g_blk p1"
      using phys_invD(10) [OF ph3] by (auto simp: opens_def in_set_conv_nth less_Suc_eq_le)
    then have lt: "wpi ?sp p1 < wpi ?sp (wp_page (wps f3 ! k))"
      using wp_facts(5) [OF ph3 k(1), of p1] q(1,2) k3(2) by (auto simp: line_pages_def frontier_def)
    have "wps f3 ! k = wps f ! k" if "k \<noteq> 0"
      using wp_step_index(2) [OF k1(3) that] wp_step_index(2) [OF k2(3) that] wp_step_index(2) [OF k3(3) that] by simp
    then have k0: "k = 0" using lt zero k(1) by (cases "k = 0") auto
    have p3w: "p3 = wp_page (wps f2 ! 0)" by (rule writtenD(2) [OF w3(2)])
    then have p3: "real_ppa ?sp p3" "wpi ?sp p3 = 0" using writtenD(1) [OF w3(2)] i2 k2(2) by auto
    have "wp_blk (wps f3 ! 0) = wp_blk (wps f2 ! 0)" using wp_stay [OF k3(3)] k2(2) two i2 by simp
    then have "g_blk p3 = g_blk p1" using k(2) k0 p3w by (simp add: wp_page_def)
    moreover have "wpi ?sp p1 = 0" using lt k0 i3 by simp
    ultimately show False using wpi_inj [OF phys_invD(2) [OF ph3], of p1 p3] q p3 k3(2) by simp
  qed
  moreover have "g_blk p1 \<notin> set (free_line_list (f_lm f3))" "g_blk p1 \<notin> set (full_line_list (f_lm f3))"
    using phys_invD(6) [OF ph3] q k3(2) page_in_line [OF q(1)] by (auto simp: state_inv_def)
  ultimately have "g_blk p1 \<in> victims f3" using lines_bounded [OF ph3, of "g_blk p1"] real_ppaD(3) [OF q(1)] k3(2) by auto
  moreover have "overwrite a b f = Some f3" using w1(1) w2(1) w3(1) by (simp add: overwrite_def)
  ultimately show ?thesis using k3 fl3 by auto
qed

lemma tiny_used_ok:
  "\<exists>f f'. tiny_fresh = Some f \<and> overwrite 0 1 f = Some f' \<and> ftl_inv f' \<and> victims f' \<noteq> {} \<and> free_line_list (f_lm f') \<noteq> []"
  using tiny_fresh_ok overwrite_victim [of _ 0 1] by fastforce

end
