(* ===== verification/Nand_Timing.thy ===== *)
theory Nand_Timing
  imports Ssd
begin

text \<open>
  The timing of a NAND command (\<open>ssd_advance_nand\<close> of \<open>ssd.c\<close>): when it completes, until when its die is
  busy, and what it takes of the channel.
\<close>

section \<open>Dies and channels\<close>

text \<open>When the die of a page is available, and the model of its channel.\<close>

definition lun_avail :: "ssd \<Rightarrow> ppa \<Rightarrow> nat" where
  "lun_avail s p = next_lun_avail_time (ch_lun (ssd_ch s ! g_ch p) ! g_lun p)"

definition ch_model :: "ssd \<Rightarrow> ppa \<Rightarrow> channel_model" where
  "ch_model s p = ch_perf_model (ssd_ch s ! g_ch p)"

text \<open>The device after a command on the page \<open>p\<close> that leaves the die busy until \<open>et\<close> and the channel as \<open>cm\<close>.\<close>

definition timed :: "ssd \<Rightarrow> ppa \<Rightarrow> channel_model \<Rightarrow> nat \<Rightarrow> ssd" where
  "timed s p cm et = put_lun (put_ch s p ((ssd_ch s ! g_ch p)\<lparr>ch_perf_model := cm\<rparr>)) p
     ((ch_lun (ssd_ch s ! g_ch p) ! g_lun p)\<lparr>next_lun_avail_time := et\<rparr>)"

lemma timed_sel:
  assumes ok: "ssd_ok s" and p: "valid_ppa (ssd_sp s) p"
  shows "lun_avail (timed s p cm et) p = et" "ch_model (timed s p cm et) p = cm"
    "(g_ch q, g_lun q) \<noteq> (g_ch p, g_lun p) \<Longrightarrow> lun_avail (timed s p cm et) q = lun_avail s q"
    "g_ch q \<noteq> g_ch p \<Longrightarrow> ch_model (timed s p cm et) q = ch_model s q"
proof -
  have v: "g_ch p < length (ssd_ch s)" "g_lun p < length (ch_lun (ssd_ch s ! g_ch p))"
    using p ssd_okD(2) [OF ok] ssd_ok_ch(1) [OF ok] by (auto simp: valid_ppa_iff)
  show "lun_avail (timed s p cm et) p = et" "ch_model (timed s p cm et) p = cm"
    using v by (simp_all add: lun_avail_def ch_model_def timed_def put_lun_def put_ch_def upd_nth_def)
  show "(g_ch q, g_lun q) \<noteq> (g_ch p, g_lun p) \<Longrightarrow> lun_avail (timed s p cm et) q = lun_avail s q"
    using v by (cases "g_ch q = g_ch p") (auto simp: lun_avail_def timed_def put_lun_def put_ch_def upd_nth_def nth_list_update)
  show "g_ch q \<noteq> g_ch p \<Longrightarrow> ch_model (timed s p cm et) q = ch_model s q"
    using v by (simp add: ch_model_def timed_def put_lun_def put_ch_def upd_nth_def)
qed

lemma timed_same: "put_lun s p ((ch_lun (ssd_ch s ! g_ch p) ! g_lun p)\<lparr>next_lun_avail_time := et\<rparr>) = timed s p (ch_model s p) et"
  by (simp add: timed_def ch_model_def put_ch_def)

section \<open>The transfers of a read\<close>

text \<open>A read of \<open>n\<close> bytes goes through the channel in pieces of at most \<open>m\<close> bytes.\<close>

definition read_pieces :: "nat \<Rightarrow> nat \<Rightarrow> nat list" where
  "read_pieces n m = replicate (n div m) m @ (if n mod m = 0 then [] else [n mod m])"

text \<open>The transfer of a piece: through the channel, from the end of the piece before, and then over PCIe when the two overlap.\<close>

definition read_piece :: "(nat \<Rightarrow> nat) \<Rightarrow> bool \<Rightarrow> nat \<Rightarrow> nat \<times> nat \<times> channel_model \<times> ssd_shared \<Rightarrow> (nat \<times> nat \<times> channel_model \<times> ssd_shared) option" where
  "read_piece clk interleave x st = (case st of (t, _, cm, sh) \<Rightarrow> do {
     let (now, sh1) = get_clock clk sh;
     (et, cm1) \<leftarrow> chmodel_request now cm t x;
     (ct, sh2) \<leftarrow> (if interleave then ssd_advance_pcie clk sh1 et x else Some (et, sh1));
     Some (et, ct, cm1, sh2)
   })"

lemma read_pieces_rec: "0 < m \<Longrightarrow> 0 < n \<Longrightarrow> read_pieces n m = min n m # read_pieces (n - min n m) m"
proof (cases "m \<le> n")
  case True
  assume "0 < m"
  then have "n div m = Suc ((n - m) div m)" "n mod m = (n - m) mod m" using True by (simp_all add: le_div_geq le_mod_geq)
  then show ?thesis using True by (simp add: read_pieces_def min_def)
next
  case False
  assume "0 < m" "0 < n"
  then show ?thesis using False by (simp add: read_pieces_def)
qed

lemma bind_foldM_Nil: "Option.bind y (foldM f []) = y"
  by (cases y) simp_all

lemma read_xfer_pieces:
  assumes "0 < mx" "0 < n"
  shows "nand_read_xfer clk mx il n t u w cm sh = foldM (read_piece clk il) (read_pieces n mx) (t, w', cm, sh)"
  using assms(2)
proof (induction n arbitrary: t u w w' cm sh rule: less_induct)
  case (less n)
  let ?x = "min n mx"
  have e: "nand_read_xfer clk mx il n t u w cm sh = Option.bind (read_piece clk il ?x (t, w', cm, sh))
      (\<lambda>(et, ct, cm1, sh2). nand_read_xfer clk mx il (n - ?x) et et ct cm1 sh2)"
    using less.prems by (subst nand_read_xfer.simps, cases il) (simp_all add: read_piece_def get_clock_def Let_def case_prod_unfold)
  show ?case
  proof (cases "n \<le> mx")
    case True
    have "read_pieces 0 mx = []" using assms(1) by (simp add: read_pieces_def)
    then have "read_pieces n mx = [n]" using read_pieces_rec [OF assms(1) less.prems] True by simp
    then show ?thesis unfolding e using True by (simp add: nand_read_xfer.simps case_prod_beta' bind_foldM_Nil)
  next
    case False
    then have n: "n - ?x < n" "0 < n - ?x" using assms(1) less.prems by auto
    have "nand_read_xfer clk mx il (n - ?x) et et ct cm1 sh2 = foldM (read_piece clk il) (read_pieces (n - ?x) mx) (et, ct, cm1, sh2)" for et ct cm1 sh2
      by (rule less.IH [OF n])
    then show ?thesis unfolding e read_pieces_rec [OF assms(1) less.prems] by (simp add: case_prod_unfold)
  qed
qed

section \<open>The commands\<close>

text \<open>When a command can begin: when its die is available and it has been issued, by its start time or else by the clock; the shared state then.\<close>

definition issued :: "(nat \<Rightarrow> nat) \<Rightarrow> nand_cmd \<Rightarrow> ssd_shared \<Rightarrow> nat \<times> ssd_shared" where
  "issued clk cmd sh = (if nc_stime cmd = 0 then (clk (sh_ticks sh), sh\<lparr>sh_ticks := sh_ticks sh + 1\<rparr>) else (nc_stime cmd, sh))"

definition begins :: "(nat \<Rightarrow> nat) \<Rightarrow> nand_cmd \<Rightarrow> ssd \<Rightarrow> ssd_shared \<Rightarrow> nat" where
  "begins clk cmd s sh = max (lun_avail s (nc_ppa cmd)) (fst (issued clk cmd sh))"

text \<open>The time that the cells of the page take for a read.\<close>

definition read_lat :: "ssdparams \<Rightarrow> nand_cmd \<Rightarrow> nat" where
  "read_lat sp cmd = (if nc_xfer_size cmd = 4096 then pg_4kb_rd_lat sp else pg_rd_lat sp) ! (g_pg (nc_ppa cmd) div pgs_per_flashpg sp mod cell_mode sp)"

definition nand_time :: "(nat \<Rightarrow> nat) \<Rightarrow> nand_cmd \<Rightarrow> ssd \<Rightarrow> ssd_shared \<Rightarrow> nat \<Rightarrow> nat \<Rightarrow> channel_model \<Rightarrow> ssd_shared \<Rightarrow> bool" where
  "nand_time clk cmd s sh t et cm sh' \<longleftrightarrow> (let sp = ssd_sp s; p = nc_ppa cmd; start = begins clk cmd s sh; sh0 = snd (issued clk cmd sh) in
     case nc_cmd cmd of
       NAND_READ \<Rightarrow> foldM (read_piece clk (nc_interleave_pci_dma cmd)) (read_pieces (nc_xfer_size cmd) (max_ch_xfer_size sp))
         (u64 (start + read_lat sp cmd), 0, ch_model s p, sh0) = Some (et, t, cm, sh')
     | NAND_WRITE \<Rightarrow> (\<exists>ct. chmodel_request (clk (sh_ticks sh0)) (ch_model s p) start (nc_xfer_size cmd) = Some (ct, cm) \<and>
         t = u64 (ct + pg_wr_lat sp) \<and> et = t \<and> sh' = sh0\<lparr>sh_ticks := sh_ticks sh0 + 1\<rparr>)
     | NAND_ERASE \<Rightarrow> t = u64 (start + blk_er_lat sp) \<and> et = t \<and> cm = ch_model s p \<and> sh' = sh0
     | NAND_NOP \<Rightarrow> t = start \<and> et = t \<and> cm = ch_model s p \<and> sh' = sh0
     | NAND_UNSUPPORTED _ \<Rightarrow> t = 0 \<and> et = lun_avail s p \<and> cm = ch_model s p \<and> sh' = sh0)"

lemma timed_refl:
  assumes "ssd_ok s" "valid_ppa (ssd_sp s) p" shows "timed s p (ch_model s p) (lun_avail s p) = s"
  unfolding timed_same [symmetric] by (simp add: lun_avail_def put_lun_def upd_nth_def)

lemma advance_nand_timed:
  assumes ok: "ssd_ok s" and sh: "shared_ok sh" and p: "real_ppa (ssd_sp s) (nc_ppa cmd)"
    and x: "nc_cmd cmd = NAND_READ \<Longrightarrow> nc_xfer_size cmd \<noteq> 0"
  shows "\<exists>t et cm sh'. ssd_advance_nand clk cmd s sh = Some (t, timed s (nc_ppa cmd) cm et, sh') \<and> nand_time clk cmd s sh t et cm sh'"
proof -
  let ?p = "nc_ppa cmd" and ?sp = "ssd_sp s"
  have v: "valid_ppa ?sp ?p" using p by (simp add: real_ppa_def)
  have g: "geo_ok ?sp" by (rule ssd_okD(1) [OF ok])
  have um: "ppa_value ?p \<noteq> UNMAPPED_PPA" using real_ppa_mapped [OF g p] by (simp add: mapped_ppa_def)
  obtain cell where cell: "get_cell s ?p = Some cell" "cell < cell_mode ?sp" using get_cell_eq [OF ok] by blast
  have c: "cell = g_pg ?p div pgs_per_flashpg ?sp mod cell_mode ?sp" using cell(1) by (simp add: get_cell_def Let_def split: if_splits Option.bind_splits)
  have cl: "cell < length (pg_4kb_rd_lat ?sp)" "cell < length (pg_rd_lat ?sp)" using cell(2) geo_le [OF g] by simp_all
  obtain r where r: "ssd_advance_nand clk cmd s sh = Some r" using ssd_advance_nand_returns [OF ok sh p x] by blast
  obtain t0 sh0 where st: "issued clk cmd sh = (t0, sh0)" by (metis surj_pair)
  then have st': "(if nc_stime cmd = 0 then get_clock clk sh else (nc_stime cmd, sh)) = (t0, sh0)" by (simp add: issued_def get_clock_def split: if_splits)
  note eqs = ssd_advance_nand_def st' get_lun_eq [OF ok v] cell(1) um Let_def
  note spec = nand_time_def begins_def st Let_def fst_conv snd_conv
  show ?thesis
  proof (cases "nc_cmd cmd")
    case NAND_READ
    have n: "0 < nc_xfer_size cmd" using x [OF NAND_READ] by simp
    have "nand_read_xfer clk (max_ch_xfer_size ?sp) il (nc_xfer_size cmd) t u w cm sh1 =
        foldM (read_piece clk il) (read_pieces (nc_xfer_size cmd) (max_ch_xfer_size ?sp)) (t, 0, cm, sh1)" for il t u w cm sh1
      by (rule read_xfer_pieces [OF geo_pos(8) [OF g] n])
    then show ?thesis using r NAND_READ cl n
      by (auto simp: eqs spec read_lat_def c [symmetric] lun_avail_def ch_model_def timed_def split: Option.bind_splits if_splits)
  next
    case NAND_WRITE
    then show ?thesis using r by (auto simp: eqs spec get_clock_def lun_avail_def ch_model_def timed_def split: Option.bind_splits)
  next
    case NAND_ERASE
    then show ?thesis by (simp add: eqs spec timed_same) (simp add: lun_avail_def)
  next
    case NAND_NOP
    then show ?thesis by (simp add: eqs spec timed_same) (simp add: lun_avail_def)
  next
    case (NAND_UNSUPPORTED i)
    then show ?thesis by (simp add: eqs spec timed_refl [OF ok v])
  qed
qed

section \<open>Bounds\<close>

lemma read_piece_ge:
  assumes r: "read_piece clk il x (t, w, cm, sh) = Some (et, ct, cm', sh')" and wf: "chmodel_wf cm" "shared_ok sh" and t: "t + 2 * chmodel_slack < 18446744073709551616"
  shows "t \<le> et" "et \<le> t + chmodel_slack" "et \<le> ct" "chmodel_wf cm'" "shared_ok sh'"
proof -
  let ?sh1 = "sh\<lparr>sh_ticks := sh_ticks sh + 1\<rparr>"
  have c: "chmodel_request (clk (sh_ticks sh)) cm t x = Some (et, cm')" and p: "(if il then ssd_advance_pcie clk ?sh1 et x else Some (et, ?sh1)) = Some (ct, sh')"
    using r by (auto simp: read_piece_def get_clock_def split: Option.bind_splits)
  show e: "t \<le> et" "et \<le> t + chmodel_slack" using chmodel_request_ge [OF wf(1) _ c] t by auto
  show "chmodel_wf cm'" using chmodel_request_returns [OF wf(1), of "clk (sh_ticks sh)" t x] c by auto
  have "shared_ok ?sh1" using wf(2) by (simp add: shared_ok_def)
  then show "shared_ok sh'" using p ssd_advance_pcie_returns [of ?sh1 clk et x] by (auto simp: sh_timing_def split: if_splits)
  show "et \<le> ct"
  proof (cases il)
    case True
    then obtain cm2 where "chmodel_request (clk (sh_ticks ?sh1)) (sh_pcie ?sh1) et x = Some (ct, cm2)"
      using p by (auto simp: ssd_advance_pcie_def get_clock_def split: Option.bind_splits)
    then show ?thesis using chmodel_request_ge [of "sh_pcie ?sh1" et] wf(2) e(2) t by (simp add: shared_ok_def)
  qed (use p in simp)
qed

lemma read_pieces_ge:
  "foldM (read_piece clk il) xs (t, w, cm, sh) = Some (et, ct, cm', sh') \<Longrightarrow> xs \<noteq> [] \<Longrightarrow> chmodel_wf cm \<Longrightarrow> shared_ok sh \<Longrightarrow>
     t + Suc (length xs) * chmodel_slack < 18446744073709551616 \<Longrightarrow> t \<le> et \<and> et \<le> ct"
proof (induction xs arbitrary: t w cm sh)
  case (Cons x xs)
  obtain e c cm1 sh1 where r: "read_piece clk il x (t, w, cm, sh) = Some (e, c, cm1, sh1)" "foldM (read_piece clk il) xs (e, c, cm1, sh1) = Some (et, ct, cm', sh')"
    using Cons.prems(1) by (auto split: Option.bind_splits)
  have "t + 2 * chmodel_slack < 18446744073709551616" using Cons.prems(5) by simp
  note g = read_piece_ge [OF r(1) Cons.prems(3,4) this]
  show ?case
  proof (cases "xs = []")
    case True
    then show ?thesis using r(2) g(1,3) by simp
  next
    case False
    have "e + Suc (length xs) * chmodel_slack < 18446744073709551616" using g(2) Cons.prems(5) by simp
    then show ?thesis using Cons.IH [OF r(2) False g(4,5)] g(1) by linarith
  qed
qed simp

text \<open>The time a command keeps the cells busy.\<close>

definition nand_lat :: "ssdparams \<Rightarrow> nand_cmd \<Rightarrow> nat" where
  "nand_lat sp cmd = (case nc_cmd cmd of NAND_READ \<Rightarrow> read_lat sp cmd | NAND_WRITE \<Rightarrow> pg_wr_lat sp | NAND_ERASE \<Rightarrow> blk_er_lat sp | _ \<Rightarrow> 0)"

text \<open>No time of the command exceeds 64 bits.\<close>

definition in_time :: "(nat \<Rightarrow> nat) \<Rightarrow> nand_cmd \<Rightarrow> ssd \<Rightarrow> ssd_shared \<Rightarrow> bool" where
  "in_time clk cmd s sh \<longleftrightarrow> begins clk cmd s sh + nand_lat (ssd_sp s) cmd + (nc_xfer_size cmd + 1) * chmodel_slack < 18446744073709551616"

lemma read_pieces_length: "0 < m \<Longrightarrow> length (read_pieces n m) \<le> n"
proof -
  assume "0 < m"
  then have "n div m * 1 + n mod m \<le> n div m * m + n mod m" by (intro add_mono mult_le_mono) simp_all
  then show ?thesis by (auto simp: read_pieces_def)
qed

lemma nand_time_ge:
  assumes t: "nand_time clk cmd s sh t et cm sh'" and ok: "ssd_ok s" "shared_ok sh" "real_ppa (ssd_sp s) (nc_ppa cmd)" and n: "in_time clk cmd s sh"
    and x: "nc_cmd cmd = NAND_READ \<Longrightarrow> nc_xfer_size cmd \<noteq> 0" and op: "\<forall>i. nc_cmd cmd \<noteq> NAND_UNSUPPORTED i"
  shows "begins clk cmd s sh + nand_lat (ssd_sp s) cmd \<le> et \<and> et \<le> t"
proof -
  let ?b = "begins clk cmd s sh" and ?sp = "ssd_sp s" and ?p = "nc_ppa cmd"
  have cw: "chmodel_wf (ch_model s ?p)" using ssd_ok_ch(2) [OF ok(1)] ok(3) by (simp add: ch_model_def real_ppa_def valid_ppa_iff)
  have sh0: "shared_ok (snd (issued clk cmd sh))" using ok(2) by (simp add: issued_def shared_ok_def)
  show ?thesis
  proof (cases "nc_cmd cmd")
    case NAND_READ
    let ?xs = "read_pieces (nc_xfer_size cmd) (max_ch_xfer_size ?sp)"
    have m: "0 < max_ch_xfer_size ?sp" by (rule geo_pos(8) [OF ssd_okD(1) [OF ok(1)]])
    have "Suc (length ?xs) * chmodel_slack \<le> (nc_xfer_size cmd + 1) * chmodel_slack" by (rule mult_le_mono1) (simp add: read_pieces_length [OF m])
    then have b: "?b + read_lat ?sp cmd + Suc (length ?xs) * chmodel_slack < 18446744073709551616" using n NAND_READ unfolding in_time_def nand_lat_def by (simp only: nand_op.case)
    then have u: "u64 (?b + read_lat ?sp cmd) = ?b + read_lat ?sp cmd" by (intro u64_id) linarith
    have f: "foldM (read_piece clk (nc_interleave_pci_dma cmd)) ?xs (?b + read_lat ?sp cmd, 0, ch_model s ?p, snd (issued clk cmd sh)) = Some (et, t, cm, sh')"
      using t NAND_READ u by (simp add: nand_time_def Let_def)
    have ne: "?xs \<noteq> []" using read_pieces_rec [OF m] x [OF NAND_READ] by simp
    show ?thesis using read_pieces_ge [OF f ne cw sh0 b] NAND_READ by (simp add: nand_lat_def)
  next
    case NAND_WRITE
    obtain ct where w: "chmodel_request (clk (sh_ticks (snd (issued clk cmd sh)))) (ch_model s ?p) ?b (nc_xfer_size cmd) = Some (ct, cm)" "t = u64 (ct + pg_wr_lat ?sp)" "et = t"
      using t NAND_WRITE by (auto simp: nand_time_def Let_def)
    have b: "?b + pg_wr_lat ?sp + chmodel_slack < 18446744073709551616" using n NAND_WRITE by (simp add: in_time_def nand_lat_def)
    then have "?b + chmodel_slack < 18446744073709551616" by linarith
    note g = chmodel_request_ge [OF cw this w(1)]
    have "u64 (ct + pg_wr_lat ?sp) = ct + pg_wr_lat ?sp" by (rule u64_id) (use g b in linarith)
    then show ?thesis using w(2,3) g(1) NAND_WRITE by (simp add: nand_lat_def)
  next
    case NAND_ERASE
    have "?b + blk_er_lat ?sp < 18446744073709551616" using n NAND_ERASE by (simp add: in_time_def nand_lat_def)
    then show ?thesis using t NAND_ERASE by (simp add: nand_time_def nand_lat_def Let_def u64_id)
  next
    case NAND_NOP
    then show ?thesis using t by (simp add: nand_time_def nand_lat_def Let_def)
  qed (use op in blast)
qed

end
