(* ===== verification/Fdp_Props.thy ===== *)
theory Fdp_Props
  imports Fdp_Example Nand_Timing
begin

text \<open>
  Properties of the FDP translation layer below the commands: garbage collection, the page write,
  victim selection, the mapping and the lines in every reachable state, page addresses, the
  flush, and the NAND commands. The sample inputs serve the witnesses.
\<close>

section \<open>Sample inputs\<close>

text \<open>A write of eight blocks at block 0 through placement identifier 3, and one through the invalid identifier 9.\<close>

definition sample_write :: nvmev_request where
  "sample_write = \<lparr>req_cmd = \<lparr>rw_opcode = nvme_cmd_write, rw_nsid = 1, rw_slba = 0, rw_length = 7,
     rw_control = 32, rw_dsmgmt = 3 * 65536\<rparr>, req_sq_id = 1, req_nsecs_start = 1000\<rparr>"

definition bad_pid_write :: nvmev_request where
  "bad_pid_write = \<lparr>req_cmd = \<lparr>rw_opcode = nvme_cmd_write, rw_nsid = 1, rw_slba = 0, rw_length = 7,
     rw_control = 32, rw_dsmgmt = 9 * 65536\<rparr>, req_sq_id = 1, req_nsecs_start = 1000\<rparr>"

definition blank_result :: nvmev_result where
  "blank_result = \<lparr>ret_status = 0, ret_nsecs_target = 0, ret_result = 0\<rparr>"

definition sample_clock :: "nat \<Rightarrow> nat" where
  "sample_clock k = 2000 + 100 * k"

lemma sample_cmds:
  "cmd_last sp (req_cmd sample_write) \<le> 7" "rw_length (req_cmd sample_write) = 7" "cmd_ruh (req_cmd sample_write) = 3"
  "\<not> (cmd_dtype (req_cmd sample_write) = NVME_DIRECTIVE_PLACEMENT \<and> FDP_NR_RUH \<le> cmd_pid (req_cmd sample_write))"
  "cmd_bytes (req_cmd sample_write) = 4096" "cmd_last sp (req_cmd bad_pid_write) \<le> 7"
  "cmd_dtype (req_cmd bad_pid_write) = NVME_DIRECTIVE_PLACEMENT" "FDP_NR_RUH \<le> cmd_pid (req_cmd bad_pid_write)"
  by (simp_all add: sample_write_def bad_pid_write_def cmd_last_def cmd_ruh_def cmd_dtype_def cmd_pid_def cmd_bytes_def
      NVME_DIRECTIVE_PLACEMENT_def NVME_RW_DTYPE_SHIFT_def FDP_NR_RUH_def LBA_TO_BYTE_def u64_id u64_sub_id)

text \<open>Every state that a host reaches from the shipped configuration satisfies the invariant.\<close>

lemma fdp_reachable:
  assumes cap: "4 \<le> cap" "cap \<le> GB 512"
    and sp: "ssd_init_params samsung_fdp cap (SSD_PARTITIONS samsung_fdp) = Some sp"
    and init: "fdp_init_namespace (replicate 129 0) samsung_fdp nsid cap cpu ctx = Some (ns0, e0)"
    and n: "n < 110 * pgs_per_line sp" and reach: "(dev_step clk n sp)\<^sup>*\<^sup>* (ns0, e0) (ns, e)"
  shows "dev_inv n sp (ns, e)"
proof -
  have g: "geo_ok sp" "tt_lines sp = 128" using samsung_fdp_params [OF cap] sp by auto
  have "dev_inv n sp (ns0, e0)"
    using samsung_fdp_device [OF cap, of nsid cpu ctx n] sp init fits_110 [OF g n] by (auto simp: dev_inv_def)
  then show ?thesis using fdev.reach_inv [OF reach] by simp
qed

lemma dev_inv_part:
  assumes "dev_inv n sp (ns, e)" "f \<in> set (ns_ftls ns)"
  shows "ftl_inv f" "f_sp f = sp" "phys_inv f {} None" "map_inv f {}"
  using assms by (auto simp: dev_inv_def ns_run_def run_inv_def ftl_inv_def)

text \<open>An environment and a small partition in use for the witnesses.\<close>

lemma sample_env: "\<exists>e. env_ok e"
  using sample_device by (auto simp: dev_inv_def dev_ok_def)

section \<open>Garbage collection and page writes\<close>

text \<open>
  C5: Forced garbage collection makes progress. With a victim line and a free line available,
  \<open>do_gc\<close> returns, takes a victim with the fewest valid pages and puts it back on the free list;
  the device gains exactly the invalid pages of that line, every logical page that held data still
  does, pages outside the victim stay where they are, and the media counters grow by the bytes
  moved and erased.
\<close>

theorem gc_reclaims_line:
  assumes inv: "ftl_inv f" and e: "env_ok e" and free: "free_line_list (f_lm f) \<noteq> []" and v: "victims f \<noteq> {}"
  shows "\<exists>v f' e'. do_gc clk True f e = Some (0, f', e') \<and> v \<in> victims f \<and>
     (\<forall>b\<in>victims f. ln_vpc (f_lines f ! v) \<le> ln_vpc (f_lines f ! b)) \<and> ftl_inv f' \<and>
     v \<in> set (free_line_list (f_lm f')) \<and> free_pages f < free_pages f' \<and>
     free_pages f' = free_pages f + card {q \<in> line_pages (f_sp f) v. pst (f_ssd f) q = PG_INVALID} \<and>
     (\<forall>lpn<tt_pgs (f_sp f). (f_maptbl f' ! lpn = unmapped_ppa \<longleftrightarrow> f_maptbl f ! lpn = unmapped_ppa) \<and>
        (g_blk (f_maptbl f ! lpn) \<noteq> v \<longrightarrow> f_maptbl f' ! lpn = f_maptbl f ! lpn)) \<and>
     mbmw (e_ctx e') mod 2 ^ 64 =
       (mbmw (e_ctx e) + pgsz (f_sp f) * card {q \<in> line_pages (f_sp f) v. pst (f_ssd f) q = PG_VALID}) mod 2 ^ 64 \<and>
     mbe (e_ctx e') mod 2 ^ 64 = (mbe (e_ctx e) + pgsz (f_sp f) * pgs_per_line (f_sp f)) mod 2 ^ 64"
proof -
  obtain v f' e' where c: "do_gc clk True f e = Some (0, f', e')" "v \<in> victims f"
    "\<forall>b\<in>victims f. ln_vpc (f_lines f ! v) \<le> ln_vpc (f_lines f ! b)" "collected v f e f' e'"
    using do_gc_forced [OF inv e free v, of clk] by blast
  have ph: "phys_inv f {} None" using inv by (simp add: ftl_inv_def)
  have "\<exists>q\<in>line_pages (f_sp f) v. pst (f_ssd f) q = PG_INVALID"
    using phys_invD(6) [OF ph] c(2) by (simp add: state_inv_def)
  moreover have "finite (line_pages (f_sp f) v)"
    by (rule finite_subset [OF _ real_pages_finite [OF phys_invD(2) [OF ph]]]) (auto simp: line_pages_def)
  ultimately have "0 < cnt (pst (f_ssd f)) (line_pages (f_sp f) v) PG_INVALID" using cnt_pos by blast
  then show ?thesis using c by (auto simp: collected_def cnt_def)
qed

theorem gc_reclaims_line_witness:
  "\<exists>f0 f e v f' e'. tiny_fresh = Some f0 \<and> overwrite 0 1 f0 = Some f \<and> do_gc sample_clock True f e = Some (0, f', e') \<and>
     v \<in> set (free_line_list (f_lm f')) \<and> free_pages f < free_pages f'"
proof -
  obtain f0 f where f: "tiny_fresh = Some f0" "overwrite 0 1 f0 = Some f" "ftl_inv f" "victims f \<noteq> {}"
    "free_line_list (f_lm f) \<noteq> []" using tiny_used_ok by blast
  obtain e where e: "env_ok e" using sample_env by blast
  from gc_reclaims_line [OF f(3) e f(5,4), of sample_clock] f(1,2) show ?thesis by blast
qed

text \<open>
  The page write of the translation layer maps the logical page to a fresh physical page of
  the requested handle. The page it takes was free and lies in a line that belongs to the handle;
  afterwards it is valid, the page that held the data before is invalid, no other page changes
  state, exactly the entry of the logical page changes, and the invariant holds again.
\<close>

theorem page_write_effect:
  assumes inv: "ftl_inv f" and ruh: "ruh < FDP_NR_RUH" and lpn: "lpn < tt_pgs (f_sp f)"
    and free: "free_line_list (f_lm f) \<noteq> []"
  shows "\<exists>p f'. write_page ruh lpn f = Some (p, f') \<and> ftl_inv f' \<and> real_ppa (f_sp f) p \<and> pst (f_ssd f) p = PG_FREE \<and>
     ln_ruh (f_lines f ! g_blk p) = int ruh \<and> f_maptbl f' = (f_maptbl f)[lpn := p] \<and>
     (\<forall>q. real_ppa (f_sp f) q \<longrightarrow> pst (f_ssd f') q =
        (if q = p then PG_VALID else if q = f_maptbl f ! lpn then PG_INVALID else pst (f_ssd f) q))"
  using write_page_written [OF inv ruh lpn free] unfolding written_def by blast

theorem page_write_effect_witness:
  "\<exists>f p f'. tiny_fresh = Some f \<and> write_page 3 7 f = Some (p, f') \<and> f_maptbl f' = (f_maptbl f)[7 := p] \<and>
     ln_ruh (f_lines f ! g_blk p) = 3"
proof -
  obtain f where f: "tiny_fresh = Some f" "ftl_inv f" "tt_pgs (f_sp f) = 40" "length (free_line_list (f_lm f)) = 11"
    using tiny_fresh_ok by blast
  have "3 < FDP_NR_RUH" "free_line_list (f_lm f) \<noteq> []" using f(4) by (auto simp: FDP_NR_RUH_def)
  from page_write_effect [OF f(2) this(1) _ this(2), of 7] f(1,3) show ?thesis by auto
qed

text \<open>
  C34: Victim selection through the heap is the search for a minimum. \<open>select_victim_line\<close> returns
  no line when there is no victim or, unless forced, when even the best victim has more than an
  eighth of a line of valid pages; otherwise it returns a victim with the fewest valid pages and
  removes exactly that line from the victims.
\<close>

theorem victim_selection_minimal:
  assumes inv: "ftl_inv f"
  shows "\<exists>r f'. select_victim_line force f = Some (r, f') \<and>
     (case r of
        None \<Rightarrow> f' = f \<and> (\<forall>b\<in>victims f. \<not> force \<and> ln_vpc (f_lines f ! b) > int (pgs_per_line (f_sp f) div 8))
      | Some v \<Rightarrow> v \<in> victims f \<and> (\<forall>b\<in>victims f. ln_vpc (f_lines f ! v) \<le> ln_vpc (f_lines f ! b)) \<and>
          (force \<or> ln_vpc (f_lines f ! v) \<le> int (pgs_per_line (f_sp f) div 8)) \<and>
          victims f' = victims f - {v} \<and> free_line_list (f_lm f') = free_line_list (f_lm f))"
proof (cases "victims f = {}")
  case True
  then show ?thesis using select_victim_none inv by (auto simp: ftl_inv_def)
next
  case False
  have ph: "phys_inv f {} None" using inv by (simp add: ftl_inv_def)
  obtain v lm1 where v: "chosen f v lm1"
     "force \<or> ln_vpc (f_lines f ! v) \<le> int (pgs_per_line (f_sp f) div 8) \<longrightarrow> select_victim_line force f = Some (Some v, f\<lparr>f_lm := lm1\<rparr>)"
     "\<not> force \<and> ln_vpc (f_lines f ! v) > int (pgs_per_line (f_sp f) div 8) \<longrightarrow> select_victim_line force f = Some (None, f)"
    using select_victim_some [OF ph False] by blast
  show ?thesis
  proof (cases "force \<or> ln_vpc (f_lines f ! v) \<le> int (pgs_per_line (f_sp f) div 8)")
    case True
    then show ?thesis using v(1,2) by (auto simp: chosen_def victims_def)
  next
    case False
    then have "\<forall>b\<in>victims f. ln_vpc (f_lines f ! b) > int (pgs_per_line (f_sp f) div 8)" using v(1) by (fastforce simp: chosen_def)
    then show ?thesis using False v(3) by auto
  qed
qed

theorem victim_selection_minimal_witness:
  "\<exists>f0 f v f'. tiny_fresh = Some f0 \<and> overwrite 0 1 f0 = Some f \<and> select_victim_line True f = Some (Some v, f') \<and>
     victims f' = victims f - {v}"
proof -
  obtain f0 f where f: "tiny_fresh = Some f0" "overwrite 0 1 f0 = Some f" "ftl_inv f" "victims f \<noteq> {}"
    using tiny_used_ok by blast
  from victim_selection_minimal [OF f(3), of True] f show ?thesis by (auto split: option.splits)
qed

section \<open>Every reachable state\<close>

text \<open>
  C6: No two logical pages share flash. In every state a host reaches from the shipped
  configuration, on every partition, each mapped logical page has a physical page that exists and
  is valid, the reverse map leads back to it, and two mapped logical pages never have the same
  physical page.
\<close>

theorem mapping_never_aliases:
  assumes cap: "4 \<le> cap" "cap \<le> GB 512"
    and sp: "ssd_init_params samsung_fdp cap (SSD_PARTITIONS samsung_fdp) = Some sp"
    and init: "fdp_init_namespace (replicate 129 0) samsung_fdp nsid cap cpu ctx = Some (ns0, e0)"
    and n: "n < 110 * pgs_per_line sp" and reach: "(dev_step clk n sp)\<^sup>*\<^sup>* (ns0, e0) (ns, e)"
    and f: "f \<in> set (ns_ftls ns)" and l: "lpn < tt_pgs sp" "f_maptbl f ! lpn \<noteq> unmapped_ppa"
  shows "valid_ppa sp (f_maptbl f ! lpn) \<and> pst (f_ssd f) (f_maptbl f ! lpn) = PG_VALID \<and>
     (\<exists>i. ppa2pgidx sp (f_maptbl f ! lpn) = Some i \<and> f_rmap f ! i = lpn) \<and>
     (\<forall>l'<tt_pgs sp. f_maptbl f ! l' = f_maptbl f ! lpn \<longrightarrow> l' = lpn)"
proof -
  note inv = fdp_reachable [OF cap sp init n reach]
  note fp = dev_inv_part [OF inv f]
  have g: "geo_ok sp" using phys_invD(2) [OF fp(3)] fp(2) by simp
  have m: "real_ppa sp (f_maptbl f ! k)" "pst (f_ssd f) (f_maptbl f ! k) = PG_VALID" "f_rmap f ! pgidx_of sp (f_maptbl f ! k) = k"
    if "k < tt_pgs sp" "f_maptbl f ! k \<noteq> unmapped_ppa" for k
    using fp(2,4) that by (auto simp: map_inv_def)
  have "ppa2pgidx sp (f_maptbl f ! lpn) = Some (pgidx_of sp (f_maptbl f ! lpn))"
    using m(1) [OF l] ppa2pgidx_eq [OF g] by (simp add: real_ppa_def)
  moreover have "l' = lpn" if "l' < tt_pgs sp" "f_maptbl f ! l' = f_maptbl f ! lpn" for l'
    using m(3) [OF l] m(3) [of l'] that l(2) by simp
  ultimately show ?thesis using m [OF l] by (auto simp: real_ppa_def)
qed

text \<open>
  C7: The lines are accounted for. In every state a host reaches from the shipped configuration,
  on every partition, each line is exactly one of free, full, victim, or open at one of the nine
  write pointers; the three counters are the sizes of the lists and of the victim queue; free lines
  hold only free pages, full lines only valid ones; and the counters of a line are the numbers of
  its valid and invalid pages.
\<close>

theorem lines_accounted_for:
  assumes cap: "4 \<le> cap" "cap \<le> GB 512"
    and sp: "ssd_init_params samsung_fdp cap (SSD_PARTITIONS samsung_fdp) = Some sp"
    and init: "fdp_init_namespace (replicate 129 0) samsung_fdp nsid cap cpu ctx = Some (ns0, e0)"
    and n: "n < 110 * pgs_per_line sp" and reach: "(dev_step clk n sp)\<^sup>*\<^sup>* (ns0, e0) (ns, e)"
    and f: "f \<in> set (ns_ftls ns)" and lm: "lm = f_lm f"
  shows "distinct (free_line_list lm @ full_line_list lm @ opens f) \<and>
     set (free_line_list lm @ full_line_list lm @ opens f) \<inter> victims f = {} \<and>
     set (free_line_list lm @ full_line_list lm @ opens f) \<union> victims f = {..<blks_per_pl sp} \<and>
     length (opens f) = Suc FDP_NR_RUH \<and>
     free_line_cnt lm = length (free_line_list lm) \<and> full_line_cnt lm = length (full_line_list lm) \<and>
     victim_line_cnt lm = card (victims f) \<and>
     (\<forall>b\<in>set (free_line_list lm). \<forall>p\<in>line_pages sp b. pst (f_ssd f) p = PG_FREE) \<and>
     (\<forall>b\<in>set (full_line_list lm). \<forall>p\<in>line_pages sp b. pst (f_ssd f) p = PG_VALID) \<and>
     (\<forall>b<blks_per_pl sp. ln_vpc (f_lines f ! b) = int (card {p \<in> line_pages sp b. pst (f_ssd f) p = PG_VALID}) \<and>
        ln_ipc (f_lines f ! b) = int (card {p \<in> line_pages sp b. pst (f_ssd f) p = PG_INVALID}))"
proof -
  note fp = dev_inv_part [OF fdp_reachable [OF cap sp init n reach] f]
  have i: "part_inv f {}" "state_inv f" "line_inv f {}" "open_inv f None" using fp(3) by (simp_all add: phys_inv_def)
  have "length (opens f) = Suc FDP_NR_RUH" using i(4) by (simp add: open_inv_def opens_def wps_def)
  moreover have "distinct (free_line_list lm @ full_line_list lm @ opens f) \<and>
     set (free_line_list lm @ full_line_list lm @ opens f) \<inter> victims f = {} \<and>
     set (free_line_list lm @ full_line_list lm @ opens f) \<union> victims f = {..<blks_per_pl sp} \<and>
     free_line_cnt lm = length (free_line_list lm) \<and> full_line_cnt lm = length (full_line_list lm) \<and>
     victim_line_cnt lm = card (victims f)"
    using i(1) fp(2) unfolding part_inv_def lm by (simp add: Un_assoc)
  ultimately show ?thesis using i(2,3) fp(2) lm by (simp add: state_inv_def line_inv_def cnt_def)
qed

lemma sample_part:
  "\<exists>sp ns e f. ssd_init_params samsung_fdp (GB 1) (SSD_PARTITIONS samsung_fdp) = Some sp \<and>
     fdp_init_namespace (replicate 129 0) samsung_fdp 1 (GB 1) 0 fdp_ctx_static = Some (ns, e) \<and>
     100 * pgs_per_line sp < 110 * pgs_per_line sp \<and> f \<in> set (ns_ftls ns) \<and> dev_inv (100 * pgs_per_line sp) sp (ns, e)"
proof -
  obtain sp ns e where d: "ssd_init_params samsung_fdp (GB 1) (SSD_PARTITIONS samsung_fdp) = Some sp"
     "fdp_init_namespace (replicate 129 0) samsung_fdp 1 (GB 1) 0 fdp_ctx_static = Some (ns, e)" "ns_nr_parts ns = 4"
     "100 * pgs_per_line sp < 110 * pgs_per_line sp" "dev_inv (100 * pgs_per_line sp) sp (ns, e)" using sample_device by blast
  have "length (ns_ftls ns) = 4" using d(3,5) by (simp add: dev_inv_def ns_run_def)
  then have "ns_ftls ns ! 0 \<in> set (ns_ftls ns)" by simp
  then show ?thesis using d by blast
qed

theorem lines_accounted_for_witness:
  "\<exists>sp ns e f. ssd_init_params samsung_fdp (GB 1) (SSD_PARTITIONS samsung_fdp) = Some sp \<and>
     fdp_init_namespace (replicate 129 0) samsung_fdp 1 (GB 1) 0 fdp_ctx_static = Some (ns, e) \<and>
     f \<in> set (ns_ftls ns) \<and> set (free_line_list (f_lm f) @ full_line_list (f_lm f) @ opens f) \<union> victims f = {..<blks_per_pl sp}"
proof -
  obtain sp ns e f where d: "ssd_init_params samsung_fdp (GB 1) (SSD_PARTITIONS samsung_fdp) = Some sp"
     "fdp_init_namespace (replicate 129 0) samsung_fdp 1 (GB 1) 0 fdp_ctx_static = Some (ns, e)"
     "100 * pgs_per_line sp < 110 * pgs_per_line sp" "f \<in> set (ns_ftls ns)" using sample_part by blast
  have c: "4 \<le> GB 1" "GB 1 \<le> GB 512" by (simp_all add: GB_def)
  have "set (free_line_list (f_lm f) @ full_line_list (f_lm f) @ opens f) \<union> victims f = {..<blks_per_pl sp}"
    using lines_accounted_for [OF c d(1-3) rtranclp.rtrancl_refl d(4) refl] by (elim conjE)
  then show ?thesis using d(1,2,4) by blast
qed

text \<open>The sample device after the sample write.\<close>

lemma sample_written:
  "\<exists>sp ns e ns' e' f. ssd_init_params samsung_fdp (GB 1) (SSD_PARTITIONS samsung_fdp) = Some sp \<and>
     fdp_init_namespace (replicate 129 0) samsung_fdp 1 (GB 1) 0 fdp_ctx_static = Some (ns, e) \<and>
     100 * pgs_per_line sp < 110 * pgs_per_line sp \<and> (dev_step sample_clock (100 * pgs_per_line sp) sp)\<^sup>*\<^sup>* (ns, e) (ns', e') \<and>
     f \<in> set (ns_ftls ns') \<and> 0 < tt_pgs sp \<and> f_maptbl f ! 0 \<noteq> unmapped_ppa"
proof -
  obtain sp ns e where d: "ssd_init_params samsung_fdp (GB 1) (SSD_PARTITIONS samsung_fdp) = Some sp"
     "fdp_init_namespace (replicate 129 0) samsung_fdp 1 (GB 1) 0 fdp_ctx_static = Some (ns, e)" "ns_nr_parts ns = 4"
     "100 * pgs_per_line sp < 110 * pgs_per_line sp" "7 div 4 < 100 * pgs_per_line sp" "7 div 4 < tt_pgs sp"
     "4096 \<le> buf_remaining (sh_wbuf (e_sh e))" "dev_inv (100 * pgs_per_line sp) sp (ns, e)"
    using sample_device by blast
  let ?n = "100 * pgs_per_line sp" and ?c = "req_cmd sample_write"
  have i: "ns_run ?n sp ns" "fits ?n sp" "?n \<le> tt_pgs sp" "dev_ok e" "ns_csi ns = NVME_CSI_NVM" using d(8) by (auto simp: dev_inv_def)
  have "cmd_last sp ?c div 4 \<le> 7 div 4" by (rule div_le_mono [OF sample_cmds(1)])
  then have r: "cmd_last sp ?c div ns_nr_parts ns < ?n" using d(3,5) by simp
  obtain t ns' e' where w: "fdp_write sample_clock sample_write blank_result ns e =
       Some (True, blank_result\<lparr>ret_nsecs_target := t, ret_status := NVME_SC_SUCCESS\<rparr>, ns', e')" "ns_run ?n sp ns'" "same_ns ns ns'"
     and m: "\<forall>l. l div ns_nr_parts ns < tt_pgs sp \<longrightarrow> (ns_entry ns' l = unmapped_ppa \<longleftrightarrow>
        \<not> (cmd_first sp ?c \<le> l \<and> l \<le> cmd_last sp ?c) \<and> ns_entry ns l = unmapped_ppa)"
    using write_ok [OF i(1-4) r _ sample_cmds(4), of sample_clock blank_result] d(7) sample_cmds(2,5) by auto
  have h: "host_req ?n sp (ns_nr_parts ns) sample_write" using r sample_cmds(2) by (simp add: host_req_def sample_write_def nvme_consts)
  have "dev_step sample_clock ?n sp (ns, e) (ns', e')"
    by (rule device_stepI [of _ _ "(sample_write, blank_result)"])
      (use h w(1) i(5) in \<open>simp_all add: fdp_host_def fdp_serve_def fdp_proc_nvme_io_cmd_def sample_write_def\<close>)
  moreover have "cmd_first sp ?c = 0" by (simp add: cmd_first_def sample_write_def)
  then have "ns_entry ns' 0 \<noteq> unmapped_ppa" using m d(3,6) by (auto dest: spec [of _ 0])
  moreover have "ns_nr_parts ns' = 4" "length (ns_ftls ns') = 4" using w(2,3) d(3) by (auto simp: same_ns_def ns_run_def)
  ultimately show ?thesis using d(1,2,4,6) by (intro exI [of _ sp] exI [of _ ns] exI [of _ e] exI [of _ ns'] exI [of _ e']
      exI [of _ "ns_ftls ns' ! 0"]) (auto simp: ns_entry_def)
qed

theorem mapping_never_aliases_witness:
  "\<exists>sp ns e ns' e' f. ssd_init_params samsung_fdp (GB 1) (SSD_PARTITIONS samsung_fdp) = Some sp \<and>
     fdp_init_namespace (replicate 129 0) samsung_fdp 1 (GB 1) 0 fdp_ctx_static = Some (ns, e) \<and>
     (dev_step sample_clock (100 * pgs_per_line sp) sp)\<^sup>*\<^sup>* (ns, e) (ns', e') \<and> f \<in> set (ns_ftls ns') \<and>
     pst (f_ssd f) (f_maptbl f ! 0) = PG_VALID \<and> (\<forall>l'<tt_pgs sp. f_maptbl f ! l' = f_maptbl f ! 0 \<longrightarrow> l' = 0)"
proof -
  obtain sp ns e ns' e' f where d: "ssd_init_params samsung_fdp (GB 1) (SSD_PARTITIONS samsung_fdp) = Some sp"
     "fdp_init_namespace (replicate 129 0) samsung_fdp 1 (GB 1) 0 fdp_ctx_static = Some (ns, e)"
     "100 * pgs_per_line sp < 110 * pgs_per_line sp" "(dev_step sample_clock (100 * pgs_per_line sp) sp)\<^sup>*\<^sup>* (ns, e) (ns', e')"
     "f \<in> set (ns_ftls ns')" "0 < tt_pgs sp" "f_maptbl f ! 0 \<noteq> unmapped_ppa" using sample_written by blast
  have c: "4 \<le> GB 1" "GB 1 \<le> GB 512" by (simp_all add: GB_def)
  then show ?thesis using mapping_never_aliases [OF c d] d(1,2,4,5) by blast
qed

section \<open>Addresses and NAND commands\<close>

text \<open>
  Pages have unique indices. For every address of the flash \<open>ppa2pgidx\<close> gives an index below
  the number of pages, without wrapping around, and different addresses get different indices.
\<close>

theorem page_index_unique:
  assumes "geo_ok sp" "real_ppa sp p"
  shows "\<exists>i. ppa2pgidx sp p = Some i \<and> i < tt_pgs sp \<and> (\<forall>q. real_ppa sp q \<longrightarrow> ppa2pgidx sp q = Some i \<longrightarrow> q = p)"
proof -
  have v: "valid_ppa sp q" if "real_ppa sp q" for q using that by (simp add: real_ppa_def)
  show ?thesis
    using ppa2pgidx_eq [OF assms(1) v] pgidx_of_less [OF assms(1) v [OF assms(2)]] pgidx_of_inj [OF assms(1) _ assms(2)] assms(2)
    by auto
qed

theorem page_index_unique_witness:
  "\<exists>sp i. ssd_init_params tiny (KB 160) 1 = Some sp \<and> ppa2pgidx sp (mk_ppa 0 0 0 3 1) = Some i \<and> i < tt_pgs sp"
proof -
  obtain sp where sp: "ssd_init_params tiny (KB 160) 1 = Some sp" "geo_ok sp" "pgs_per_line sp = 2" "blks_per_pl sp = 20"
    using tiny_params by blast
  have g: "0 < nchs sp" "0 < luns_per_ch sp" "pls_per_lun sp = 1" using geo_pos [OF sp(2)] geo_eqs(1) [OF sp(2)] by auto
  have "1 < pgs_per_blk sp" using sp(1) by (auto simp: ssd_init_params_def tiny_def samsung_fdp_def CELL_MODE_MLC_def size_macros
      LBA_SIZE_def LBA_BITS_def c_int_in Let_def u64_id DIV_ROUND_UP_def)
  then have "real_ppa sp (mk_ppa 0 0 0 3 1)" using g sp(4) by (simp add: real_ppa_def valid_ppa_iff mk_ppa_def ppa_bits_defs)
  from page_index_unique [OF sp(2) this] sp(1) show ?thesis by blast
qed

text \<open>
  The comparison of flash pages through the packed block number is the comparison of the
  fields: two addresses are in the same flash page exactly when channel, die, plane and block
  agree and the pages lie in the same flash page of the block.
\<close>

theorem same_flash_page_iff:
  assumes "ppa_fits p" "ppa_fits q"
  shows "is_same_flash_page sp p q \<longleftrightarrow> g_ch p = g_ch q \<and> g_lun p = g_lun q \<and> g_pl p = g_pl q \<and> g_blk p = g_blk q \<and>
     g_pg p div pgs_per_flashpg sp = g_pg q div pgs_per_flashpg sp"
  using blk_in_ssd_eq [OF assms] by (auto simp: is_same_flash_page_def Let_def)

theorem same_flash_page_iff_witness:
  "\<exists>sp. ssd_init_params samsung_fdp (GB 1) (SSD_PARTITIONS samsung_fdp) = Some sp \<and>
     \<not> is_same_flash_page sp (mk_ppa 1 0 0 3 1) (mk_ppa 0 1 0 3 1)"
proof -
  obtain sp where sp: "ssd_init_params samsung_fdp (GB 1) (SSD_PARTITIONS samsung_fdp) = Some sp" using sample_part by blast
  have "ppa_fits (mk_ppa 1 0 0 3 1)" "ppa_fits (mk_ppa 0 1 0 3 1)" by (simp_all add: ppa_fits_def mk_ppa_def ppa_bits_defs RSB_BITS_def)
  from same_flash_page_iff [OF this, of sp] sp show ?thesis by (auto simp: mk_ppa_def ppa_bits_defs)
qed

text \<open>
  The 64-bit form of an address loses nothing: packing the fields and unpacking them again
  gives the address back, and packing is injective, so the reserved value that marks an unmapped
  entry is never the address of a page.
\<close>

theorem ppa_round_trip:
  assumes "ppa_fits p"
  shows "ppa_of_value (ppa_value p) = p \<and> ppa_value p < 2 ^ 64 \<and> (\<forall>q. ppa_fits q \<longrightarrow> ppa_value q = ppa_value p \<longrightarrow> q = p) \<and>
     (geo_ok sp \<longrightarrow> real_ppa sp p \<longrightarrow> mapped_ppa p)"
  using assms ppa_of_value_of_ppa ppa_value_less [OF assms] ppa_value_inj real_ppa_mapped
  by (auto simp: TOTAL_PPA_BITS_def)

theorem ppa_round_trip_witness:
  "ppa_of_value (ppa_value (mk_ppa 5 1 0 77 300)) = mk_ppa 5 1 0 77 300"
  using ppa_round_trip [of "mk_ppa 5 1 0 77 300"] by (simp add: ppa_fits_def mk_ppa_def ppa_bits_defs RSB_BITS_def)

text \<open>
  C38: The timing of a NAND command on a page of the flash. It begins when it has been issued, by its start time
  or else by the clock, and its die is available. An erase takes the erase latency; a no-operation takes no time;
  a write goes through the channel model and then takes the program latency; each of them returns the time at which
  it ends and leaves the die busy until then. A read takes the latency of its cell (the one for 4 KiB when that is its
  size), then goes through the channel in pieces of at most the channel's transfer size, each from the end of the one
  before, and each over PCIe as well when the command asks for it; the die is busy until the last piece has left the channel, and the last
  transfer is the completion. An unsupported command returns 0 and changes nothing. The channel is left as those
  requests leave it. No other die's availability and no other channel changes, nor the geometry, the page states or the write
  buffer. Unless a time exceeds 64 bits, the die stays busy for at least the latency of the cells, and the command does not
  complete before its die is free. A read asks for at least one byte.
\<close>

theorem nand_command_timing:
  assumes ok: "ssd_ok s" and sh: "shared_ok sh" and p: "real_ppa (ssd_sp s) (nc_ppa cmd)"
    and x: "nc_cmd cmd = NAND_READ \<Longrightarrow> nc_xfer_size cmd \<noteq> 0"
  shows "\<exists>t s' sh'. ssd_advance_nand clk cmd s sh = Some (t, s', sh') \<and>
     nand_time clk cmd s sh t (lun_avail s' (nc_ppa cmd)) (ch_model s' (nc_ppa cmd)) sh' \<and>
     (\<forall>q. (g_ch q, g_lun q) \<noteq> (g_ch (nc_ppa cmd), g_lun (nc_ppa cmd)) \<longrightarrow> lun_avail s' q = lun_avail s q) \<and>
     (\<forall>q. g_ch q \<noteq> g_ch (nc_ppa cmd) \<longrightarrow> ch_model s' q = ch_model s q) \<and>
     ssd_ok s' \<and> ssd_sp s' = ssd_sp s \<and> (\<forall>q. real_ppa (ssd_sp s) q \<longrightarrow> pst s' q = pst s q) \<and> shared_ok sh' \<and> sh_wbuf sh' = sh_wbuf sh \<and>
     (in_time clk cmd s sh \<and> (\<forall>i. nc_cmd cmd \<noteq> NAND_UNSUPPORTED i) \<longrightarrow>
        begins clk cmd s sh + nand_lat (ssd_sp s) cmd \<le> lun_avail s' (nc_ppa cmd) \<and> lun_avail s' (nc_ppa cmd) \<le> t)"
proof -
  obtain t et cm sh' where r: "ssd_advance_nand clk cmd s sh = Some (t, timed s (nc_ppa cmd) cm et, sh')" "nand_time clk cmd s sh t et cm sh'"
    using advance_nand_timed [OF ok sh p x] by blast
  have w: "ssd_ok (timed s (nc_ppa cmd) cm et)" "same_nand s (timed s (nc_ppa cmd) cm et)" "sh_timing sh sh'"
    using ssd_advance_nand_returns [OF ok sh p x, of clk] r(1) by auto
  have v: "valid_ppa (ssd_sp s) (nc_ppa cmd)" using p by (simp add: real_ppa_def)
  note sel = timed_sel [OF ok v]
  have "pst (timed s (nc_ppa cmd) cm et) q = pst s q" if "real_ppa (ssd_sp s) q" for q using pst_same [OF w(2)] that by simp
  moreover have "in_time clk cmd s sh \<and> (\<forall>i. nc_cmd cmd \<noteq> NAND_UNSUPPORTED i) \<longrightarrow> begins clk cmd s sh + nand_lat (ssd_sp s) cmd \<le> et \<and> et \<le> t"
    using nand_time_ge [OF r(2) ok sh p _ x] by blast
  ultimately show ?thesis using r w sel
    by (intro exI [of _ t] exI [of _ "timed s (nc_ppa cmd) cm et"] exI [of _ sh']) (simp add: same_nand_def sh_timing_def)
qed

text \<open>An erase on the small device, issued at 1000.\<close>

theorem nand_command_timing_witness:
  "\<exists>sp s sh s' sh'. ssd_init_params tiny (KB 160) 1 = Some sp \<and>
     ssd_advance_nand sample_clock \<lparr>nc_type = USER_IO, nc_cmd = NAND_ERASE, nc_xfer_size = 0, nc_stime = 1000,
       nc_interleave_pci_dma = False, nc_ppa = mk_ppa 0 0 0 3 0\<rparr> s sh = Some (u64 (max (lun_avail s (mk_ppa 0 0 0 3 0)) 1000 + blk_er_lat sp), s', sh') \<and>
     lun_avail s' (mk_ppa 0 0 0 3 0) = u64 (max (lun_avail s (mk_ppa 0 0 0 3 0)) 1000 + blk_er_lat sp)"
proof -
  let ?c = "\<lparr>nc_type = USER_IO, nc_cmd = NAND_ERASE, nc_xfer_size = 0, nc_stime = 1000, nc_interleave_pci_dma = False, nc_ppa = mk_ppa 0 0 0 3 0\<rparr>"
  obtain sp where sp: "ssd_init_params tiny (KB 160) 1 = Some sp" "geo_ok sp" "blks_per_pl sp = 20" "ch_bandwidth sp = 800"
    "pcie_bandwidth sp = 3360" using tiny_params by blast
  obtain s pc wb where s: "ssd_init sp 0 = Some (s, pc, wb)" "ssd_ok s" "ssd_sp s = sp" using ssd_init_ok [OF sp(2), of 0] sp(4,5) by auto
  obtain e where "env_ok e" using sample_env by blast
  then have e: "shared_ok (e_sh e)" by (simp add: env_ok_def)
  have "real_ppa (ssd_sp s) (nc_ppa ?c)"
    using geo_pos [OF sp(2)] geo_eqs(1) [OF sp(2)] geo_pgs_pos [OF sp(2)] sp(3) s(3) by (simp add: real_ppa_def valid_ppa_iff mk_ppa_def ppa_bits_defs)
  from nand_command_timing [OF s(2) e this, of sample_clock] obtain t s' sh' where r: "ssd_advance_nand sample_clock ?c s (e_sh e) = Some (t, s', sh')"
    "nand_time sample_clock ?c s (e_sh e) t (lun_avail s' (nc_ppa ?c)) (ch_model s' (nc_ppa ?c)) sh'" by auto
  then show ?thesis using sp(1) s(3) by (auto simp: nand_time_def begins_def issued_def Let_def)
qed

section \<open>Flush and lack of buffer space\<close>

text \<open>
  A flush waits for the flash. It succeeds with a completion time at which no die of any
  partition is busy any more, and changes neither mapping nor counters nor the write buffer.
\<close>

theorem flush_waits_for_flash:
  assumes inv: "dev_inv n sp (ns, e)"
  shows "\<exists>t e'. fdp_flush clk ret ns e = Some (ret\<lparr>ret_status := NVME_SC_SUCCESS, ret_nsecs_target := t\<rparr>, e') \<and>
     dev_inv n sp (ns, e') \<and> e_ctx e' = e_ctx e \<and> sh_wbuf (e_sh e') = sh_wbuf (e_sh e) \<and>
     (\<forall>f\<in>set (ns_ftls ns). \<forall>c<nchs sp. \<forall>l<luns_per_ch sp. next_lun_avail_time (ch_lun (ssd_ch (f_ssd f) ! c) ! l) \<le> t)"
proof -
  have i: "ns_run n sp ns" "dev_ok e" "env_ok e" using inv by (auto simp: dev_inv_def dev_ok_def)
  obtain t e' where "fdp_flush clk ret ns e = Some (ret\<lparr>ret_status := NVME_SC_SUCCESS, ret_nsecs_target := t\<rparr>, e')"
     "env_kept e e'" "e_ctx e' = e_ctx e"
     "\<forall>f\<in>set (ns_ftls ns). \<forall>c<nchs sp. \<forall>l<luns_per_ch sp. next_lun_avail_time (ch_lun (ssd_ch (f_ssd f) ! c) ! l) \<le> t"
    using flush_ok [OF i(1,3), of clk ret] by blast
  then show ?thesis using dev_ok_kept [OF i(2)] inv by (auto simp: dev_inv_def env_kept_def)
qed

theorem flush_waits_for_flash_witness:
  "\<exists>ns e t e'. fdp_init_namespace (replicate 129 0) samsung_fdp 1 (GB 1) 0 fdp_ctx_static = Some (ns, e) \<and>
     fdp_flush sample_clock blank_result ns e = Some (blank_result\<lparr>ret_status := NVME_SC_SUCCESS, ret_nsecs_target := t\<rparr>, e')"
proof -
  obtain sp ns e where d: "fdp_init_namespace (replicate 129 0) samsung_fdp 1 (GB 1) 0 fdp_ctx_static = Some (ns, e)"
     "dev_inv (100 * pgs_per_line sp) sp (ns, e)" using sample_device by blast
  from flush_waits_for_flash [OF d(2), of sample_clock blank_result] d(1) show ?thesis by blast
qed

text \<open>
  A write that finds too little room in the write buffer is refused as a whole: nothing is
  mapped, no counter moves, the buffer keeps its room, and the caller is told to try again. Only
  the usage mark of the handle may have been set.
\<close>

theorem write_without_buffer_refused:
  assumes inv: "dev_inv n sp (ns, e)" and r: "cmd_last sp (req_cmd req) div ns_nr_parts ns < tt_pgs sp"
    and len: "rw_length (req_cmd req) < 65536"
    and pid: "\<not> (cmd_dtype (req_cmd req) = NVME_DIRECTIVE_PLACEMENT \<and> FDP_NR_RUH \<le> cmd_pid (req_cmd req))"
    and full: "buf_remaining (sh_wbuf (e_sh e)) < cmd_bytes (req_cmd req)"
  shows "\<exists>a. fdp_write clk req ret ns e = Some (False, ret, ns, e\<lparr>e_ctx := (e_ctx e)\<lparr>ruh_attr := a\<rparr>\<rparr>) \<and>
     dev_inv n sp (ns, e\<lparr>e_ctx := (e_ctx e)\<lparr>ruh_attr := a\<rparr>\<rparr>)"
  using write_no_buffer [OF _ _ r len pid full, of n clk ret] inv by (auto simp: dev_inv_def)

theorem write_without_buffer_refused_witness:
  "\<exists>ns e a. fdp_init_namespace (replicate 129 0) samsung_fdp 1 (GB 1) 0 fdp_ctx_static = Some (ns, e) \<and>
     (let e0 = e\<lparr>e_sh := (e_sh e)\<lparr>sh_wbuf := (sh_wbuf (e_sh e))\<lparr>buf_remaining := 512\<rparr>\<rparr>\<rparr>
      in fdp_write sample_clock sample_write blank_result ns e0 = Some (False, blank_result, ns, e0\<lparr>e_ctx := (e_ctx e0)\<lparr>ruh_attr := a\<rparr>\<rparr>))"
proof -
  obtain sp ns e where d: "fdp_init_namespace (replicate 129 0) samsung_fdp 1 (GB 1) 0 fdp_ctx_static = Some (ns, e)"
     "ns_nr_parts ns = 4" "7 div 4 < tt_pgs sp" "4096 \<le> buf_remaining (sh_wbuf (e_sh e))"
     "dev_inv (100 * pgs_per_line sp) sp (ns, e)" using sample_device by blast
  let ?e = "e\<lparr>e_sh := (e_sh e)\<lparr>sh_wbuf := (sh_wbuf (e_sh e))\<lparr>buf_remaining := 512\<rparr>\<rparr>\<rparr>"
  have "dev_inv (100 * pgs_per_line sp) sp (ns, ?e)"
    using d(4,5) by (auto simp: dev_inv_def dev_ok_def env_ok_def shared_ok_def buffer_ok_def)
  moreover have "cmd_last sp (req_cmd sample_write) div ns_nr_parts ns < tt_pgs sp"
    using div_le_mono [OF sample_cmds(1) [of sp], of 4] d(2,3) by simp
  ultimately obtain a where "fdp_write sample_clock sample_write blank_result ns ?e = Some (False, blank_result, ns, ?e\<lparr>e_ctx := (e_ctx ?e)\<lparr>ruh_attr := a\<rparr>\<rparr>)"
    using write_without_buffer_refused [OF _ _ _ sample_cmds(4), of "100 * pgs_per_line sp" sp ns ?e sample_clock blank_result]
      sample_cmds(2,5) by auto
  then show ?thesis using d(1) unfolding Let_def by blast
qed

end
