(* ===== verification/Zns_Ftl.thy ===== *)
theory Zns_Ftl
  imports Ssd Nvme_Cmd Bytes
begin

text \<open>
  The zoned namespace device: its state, the address helpers of \<open>zns_ftl.h\<close>, the zone
  resources and the initialisation of \<open>zns_ftl.c\<close>.

  \<^item> \<open>zns_ftl\<close> holds the zone descriptors, the counters of active, open and ZRWA zones, the
    write buffers of the zones, the report buffer as bytes, and the storage area as a function
    from byte offsets. The PCIe model and the global write buffer are in \<open>ssd_shared\<close>.
  \<^item> A write buffer release that the code schedules is recorded in the environment with the
    buffer it refers to.
  \<^item> The division by the pages or blocks of a zone is defined because the initialisation
    asserts that the zone size is a multiple of the page size.
\<close>

section \<open>Constants\<close>

definition nvme_cmd_zone_mgmt_send :: nat where "nvme_cmd_zone_mgmt_send = 0x79"
definition nvme_cmd_zone_mgmt_recv :: nat where "nvme_cmd_zone_mgmt_recv = 0x7A"

definition NVME_SC_ZNS_INVALID_ZONE_OPERATION :: nat where "NVME_SC_ZNS_INVALID_ZONE_OPERATION = 0x1B6"
definition NVME_SC_ZNS_ZRWA_RSRC_UNAVAIL :: nat where "NVME_SC_ZNS_ZRWA_RSRC_UNAVAIL = 0x1B7"
definition NVME_SC_ZNS_ERR_BOUNDARY :: nat where "NVME_SC_ZNS_ERR_BOUNDARY = 0x1B8"
definition NVME_SC_ZNS_ERR_FULL :: nat where "NVME_SC_ZNS_ERR_FULL = 0x1B9"
definition NVME_SC_ZNS_ERR_READ_ONLY :: nat where "NVME_SC_ZNS_ERR_READ_ONLY = 0x1BA"
definition NVME_SC_ZNS_ERR_OFFLINE :: nat where "NVME_SC_ZNS_ERR_OFFLINE = 0x1BB"
definition NVME_SC_ZNS_INVALID_WRITE :: nat where "NVME_SC_ZNS_INVALID_WRITE = 0x1BC"
definition NVME_SC_ZNS_NO_ACTIVE_ZONE :: nat where "NVME_SC_ZNS_NO_ACTIVE_ZONE = 0x1BD"
definition NVME_SC_ZNS_NO_OPEN_ZONE :: nat where "NVME_SC_ZNS_NO_OPEN_ZONE = 0x1BE"
definition NVME_SC_ZNS_INVALID_TRANSITION :: nat where "NVME_SC_ZNS_INVALID_TRANSITION = 0x1BF"

lemmas zns_codes = NVME_SC_ZNS_INVALID_ZONE_OPERATION_def NVME_SC_ZNS_ZRWA_RSRC_UNAVAIL_def
  NVME_SC_ZNS_ERR_BOUNDARY_def NVME_SC_ZNS_ERR_FULL_def NVME_SC_ZNS_ERR_READ_ONLY_def
  NVME_SC_ZNS_ERR_OFFLINE_def NVME_SC_ZNS_INVALID_WRITE_def NVME_SC_ZNS_NO_ACTIVE_ZONE_def
  NVME_SC_ZNS_NO_OPEN_ZONE_def NVME_SC_ZNS_INVALID_TRANSITION_def NVME_SC_SUCCESS_def NVME_SC_INVALID_FIELD_def

lemmas zns_opcodes = nvme_cmd_zone_mgmt_send_def nvme_cmd_zone_mgmt_recv_def nvme_cmd_zone_append_def

definition ZONE_TYPE_SEQ_WRITE_REQUIRED :: nat where "ZONE_TYPE_SEQ_WRITE_REQUIRED = 2"

datatype zone_state = ZONE_STATE_EMPTY | ZONE_STATE_OPENED_IMPL | ZONE_STATE_OPENED_EXPL
  | ZONE_STATE_CLOSED | ZONE_STATE_READ_ONLY | ZONE_STATE_FULL | ZONE_STATE_OFFLINE

fun zone_state_code :: "zone_state \<Rightarrow> nat" where
  "zone_state_code ZONE_STATE_EMPTY = 0x1"
| "zone_state_code ZONE_STATE_OPENED_IMPL = 0x2"
| "zone_state_code ZONE_STATE_OPENED_EXPL = 0x3"
| "zone_state_code ZONE_STATE_CLOSED = 0x4"
| "zone_state_code ZONE_STATE_READ_ONLY = 0xD"
| "zone_state_code ZONE_STATE_FULL = 0xE"
| "zone_state_code ZONE_STATE_OFFLINE = 0xF"

datatype zone_resource_type = ACTIVE_ZONE | OPEN_ZONE | ZRWA_ZONE

section \<open>State\<close>

record znsparams =
  zp_nr_zones :: nat
  zp_nr_active_zones :: nat
  zp_nr_open_zones :: nat
  zp_dies_per_zone :: nat
  zp_zone_size :: nat
  zp_zone_wb_size :: nat
  zp_nr_zrwa_zones :: nat
  zp_zrwafg_size :: nat
  zp_zrwa_size :: nat
  zp_zrwa_buffer_size :: nat
  zp_lbas_per_zrwafg :: nat
  zp_lbas_per_zrwa :: nat

record zone_resource_info =
  acquired_cnt :: nat
  total_cnt :: nat

text \<open>The fields of \<open>struct zone_descriptor\<close> that the code writes; the others stay 0.\<close>

record zone_descriptor =
  zd_type :: nat
  zd_state :: zone_state
  zd_zrwav :: bool
  zd_zone_capacity :: nat
  zd_zslba :: nat
  zd_wp :: nat

record zns_ftl =
  z_ssd :: ssd
  z_zp :: znsparams
  z_res :: "zone_resource_type \<Rightarrow> zone_resource_info"
  z_descs :: "zone_descriptor list"
  z_report :: "nat list"
  z_wb :: "buffer list"
  z_zrwa :: "buffer list"
  z_storage :: "nat \<Rightarrow> nat"

datatype wbuf_ref = Global_wb | Zone_wb nat | Zrwa_wb nat

record zns_op =
  zo_sqid :: nat
  zo_nsecs_target :: nat
  zo_buffer :: wbuf_ref
  zo_release :: nat

record zns_env =
  ze_sh :: ssd_shared
  ze_sched :: "zns_op list"

abbreviation z_sp :: "zns_ftl \<Rightarrow> ssdparams" where "z_sp z \<equiv> ssd_sp (z_ssd z)"

section \<open>Zone resources\<close>

definition is_zone_resource_avail :: "zns_ftl \<Rightarrow> zone_resource_type \<Rightarrow> bool" where
  "is_zone_resource_avail z ty = (acquired_cnt (z_res z ty) < total_cnt (z_res z ty))"

definition is_zone_resource_full :: "zns_ftl \<Rightarrow> zone_resource_type \<Rightarrow> bool" where
  "is_zone_resource_full z ty = (acquired_cnt (z_res z ty) = total_cnt (z_res z ty))"

definition set_acquired :: "zone_resource_type \<Rightarrow> nat \<Rightarrow> zns_ftl \<Rightarrow> zns_ftl" where
  "set_acquired ty n z = z\<lparr>z_res := (z_res z)(ty := (z_res z ty)\<lparr>acquired_cnt := n\<rparr>)\<rparr>"

definition acquire_zone_resource :: "zone_resource_type \<Rightarrow> zns_ftl \<Rightarrow> bool \<times> zns_ftl" where
  "acquire_zone_resource ty z =
     (if is_zone_resource_avail z ty then (True, set_acquired ty (u32 (acquired_cnt (z_res z ty) + 1)) z)
      else (False, z))"

text \<open>\<open>ASSERT\<close> is defined to nothing, so a release of an unacquired resource wraps around.\<close>

definition release_zone_resource :: "zone_resource_type \<Rightarrow> zns_ftl \<Rightarrow> zns_ftl" where
  "release_zone_resource ty z = set_acquired ty (u32_sub (acquired_cnt (z_res z ty)) 1) z"

section \<open>Zones and addresses\<close>

definition upd_desc :: "nat \<Rightarrow> (zone_descriptor \<Rightarrow> zone_descriptor) \<Rightarrow> zns_ftl \<Rightarrow> zns_ftl option" where
  "upd_desc zid f z = do {
     d \<leftarrow> rd (z_descs z) zid;
     Some (z\<lparr>z_descs := (z_descs z)[zid := f d]\<rparr>)
   }"

definition change_zone_state :: "nat \<Rightarrow> zone_state \<Rightarrow> zns_ftl \<Rightarrow> zns_ftl option" where
  "change_zone_state zid st = upd_desc zid (\<lambda>d. d\<lparr>zd_state := st\<rparr>)"

text \<open>
  The zone numbers are \<open>uint32_t\<close> and so are the products of a zone number with the pages or
  blocks of a zone.
\<close>

definition lpn_to_zone :: "zns_ftl \<Rightarrow> nat \<Rightarrow> nat" where
  "lpn_to_zone z lpn = u32 (lpn div (zp_zone_size (z_zp z) div pgsz (z_sp z)))"

definition zone_to_slpn :: "zns_ftl \<Rightarrow> nat \<Rightarrow> nat" where
  "zone_to_slpn z zid = u32 (u32 zid * (zp_zone_size (z_zp z) div pgsz (z_sp z)))"

definition lba_to_zone :: "zns_ftl \<Rightarrow> nat \<Rightarrow> nat" where
  "lba_to_zone z lba = u32 (lba div (zp_zone_size (z_zp z) div secsz (z_sp z)))"

definition zone_to_slba :: "zns_ftl \<Rightarrow> nat \<Rightarrow> nat" where
  "zone_to_slba z zid = u32 (u32 zid * (zp_zone_size (z_zp z) div secsz (z_sp z)))"

definition zone_to_elba :: "zns_ftl \<Rightarrow> nat \<Rightarrow> nat" where
  "zone_to_elba z zid = u64_sub (zone_to_slba z (zid + 1)) 1"

definition lba_to_lpn :: "zns_ftl \<Rightarrow> nat \<Rightarrow> nat" where
  "lba_to_lpn z lba = lba div secs_per_pg (z_sp z)"

definition zone_to_elpn :: "zns_ftl \<Rightarrow> nat \<Rightarrow> nat" where
  "zone_to_elpn z zid = zone_to_elba z zid div secs_per_pg (z_sp z)"

definition die_to_channel :: "zns_ftl \<Rightarrow> nat \<Rightarrow> nat" where
  "die_to_channel z die = die mod nchs (z_sp z)"

definition die_to_lun :: "zns_ftl \<Rightarrow> nat \<Rightarrow> nat" where
  "die_to_lun z die = die div nchs (z_sp z)"

section \<open>Initialisation\<close>

definition BYTE_TO_LBA :: "nat \<Rightarrow> nat" where
  "BYTE_TO_LBA b = b div 2 ^ LBA_BITS"

definition sizeof_zone_report :: nat where "sizeof_zone_report = 128"
definition sizeof_zone_descriptor :: nat where "sizeof_zone_descriptor = 64"

text \<open>The loop of \<open>__init_descriptor\<close>: \<open>n\<close> descriptors from block \<open>zslba\<close> on.\<close>

fun init_zone_descs :: "nat \<Rightarrow> nat \<Rightarrow> nat \<Rightarrow> zone_descriptor list" where
  "init_zone_descs 0 zslba zone_size = []"
| "init_zone_descs (Suc n) zslba zone_size =
     \<lparr>zd_type = ZONE_TYPE_SEQ_WRITE_REQUIRED, zd_state = ZONE_STATE_EMPTY, zd_zrwav = False,
      zd_zone_capacity = BYTE_TO_LBA zone_size, zd_zslba = zslba, zd_wp = zslba\<rparr> #
     init_zone_descs n (u64 (zslba + BYTE_TO_LBA zone_size)) zone_size"

text \<open>\<open>junk\<close> is the contents of the freshly allocated report buffer.\<close>

definition init_descriptor :: "(nat \<Rightarrow> nat) \<Rightarrow> zns_ftl \<Rightarrow> zns_ftl" where
  "init_descriptor junk z =
     (let zp = z_zp z; n = zp_nr_zones zp
      in z\<lparr>z_descs := init_zone_descs n 0 (zp_zone_size zp),
        z_report := map junk [0..<sizeof_zone_report + sizeof_zone_descriptor * n],
        z_zrwa := (if zp_zrwa_buffer_size zp \<noteq> 0 then map (\<lambda>_. buffer_init (zp_zrwa_buffer_size zp)) [0..<n] else []),
        z_wb := (if zp_zone_wb_size zp \<noteq> 0 then map (\<lambda>_. buffer_init (zp_zone_wb_size zp)) [0..<n] else [])\<rparr>)"

definition init_resource :: "zns_ftl \<Rightarrow> zns_ftl" where
  "init_resource z = z\<lparr>z_res := (z_res z)
     (ACTIVE_ZONE := \<lparr>acquired_cnt = 0, total_cnt = zp_nr_zones (z_zp z)\<rparr>,
      OPEN_ZONE := \<lparr>acquired_cnt = 0, total_cnt = zp_nr_zones (z_zp z)\<rparr>,
      ZRWA_ZONE := \<lparr>acquired_cnt = 0, total_cnt = zp_nr_zones (z_zp z)\<rparr>)\<rparr>"

definition zns_init_params :: "ssd_config \<Rightarrow> ssdparams \<Rightarrow> nat \<Rightarrow> znsparams option" where
  "zns_init_params c spp capacity = do {
     NVMEV_ASSERT (ZONE_SIZE c \<noteq> 0 \<and> secsz spp \<noteq> 0 \<and> pgsz spp \<noteq> 0);
     let zp = \<lparr>zp_nr_zones = u32 (capacity div ZONE_SIZE c), zp_nr_active_zones = u32 (capacity div ZONE_SIZE c),
       zp_nr_open_zones = u32 (capacity div ZONE_SIZE c), zp_dies_per_zone = DIES_PER_ZONE c,
       zp_zone_size = u32 (ZONE_SIZE c), zp_zone_wb_size = ZONE_WB_SIZE c, zp_nr_zrwa_zones = MAX_ZRWA_ZONES c,
       zp_zrwafg_size = ZRWAFG_SIZE c, zp_zrwa_size = ZRWA_SIZE c, zp_zrwa_buffer_size = ZRWA_BUFFER_SIZE c,
       zp_lbas_per_zrwafg = ZRWAFG_SIZE c div secsz spp, zp_lbas_per_zrwa = ZRWA_SIZE c div secsz spp\<rparr>;
     NVMEV_ASSERT (zp_zone_size zp \<noteq> 0 \<and> capacity mod zp_zone_size zp = 0);
     NVMEV_ASSERT (zp_zone_size zp mod pgsz spp = 0);
     Some zp
   }"

text \<open>\<open>storage\<close> is the contents of the memory area that backs the namespace.\<close>

definition zns_init_ftl :: "(nat \<Rightarrow> nat) \<Rightarrow> znsparams \<Rightarrow> ssd \<Rightarrow> (nat \<Rightarrow> nat) \<Rightarrow> zns_ftl" where
  "zns_init_ftl junk zpp s storage =
     init_resource (init_descriptor junk
       \<lparr>z_ssd = s, z_zp = zpp, z_res = (\<lambda>_. \<lparr>acquired_cnt = 0, total_cnt = 0\<rparr>), z_descs = [],
        z_report = [], z_wb = [], z_zrwa = [], z_storage = storage\<rparr>)"

record zns_ns =
  zn_id :: nat
  zn_csi :: nat
  zn_nr_parts :: nat
  zn_size :: nat
  zn_ftl :: zns_ftl

definition zns_init_namespace ::
  "(nat \<Rightarrow> nat) \<Rightarrow> ssd_config \<Rightarrow> nat \<Rightarrow> nat \<Rightarrow> (nat \<Rightarrow> nat) \<Rightarrow> nat \<Rightarrow> (zns_ns \<times> zns_env) option" where
  "zns_init_namespace junk c nsid size_ns storage cpu = do {
     let nr_parts = 1;
     spp \<leftarrow> ssd_init_params c size_ns nr_parts;
     (s, pcie, wbuf) \<leftarrow> ssd_init spp cpu;
     zpp \<leftarrow> zns_init_params c spp size_ns;
     let z = zns_init_ftl junk zpp s storage;
     Some (\<lparr>zn_id = nsid, zn_csi = NVME_CSI_ZNS, zn_nr_parts = nr_parts, zn_size = size_ns, zn_ftl = z\<rparr>,
       \<lparr>ze_sh = \<lparr>sh_ticks = 0, sh_pcie = pcie, sh_wbuf = wbuf\<rparr>, ze_sched = []\<rparr>)
   }"

end
