(* ===== verification/Zns_Mgmt.thy ===== *)
theory Zns_Mgmt
  imports Zns_Ftl
begin

text \<open>
  Zone management of \<open>zns_mgmt_send.c\<close> and \<open>zns_mgmt_recv.c\<close>: the transitions of the zone
  state machine, the report of the zones, and the transfer of the report to the host's memory
  along a PRP list.

  The cases of a C \<open>switch\<close> that fall through are written out; an index outside the zone
  descriptors is a failure.
\<close>

section \<open>Zone management send\<close>

definition ZSA_CLOSE_ZONE :: nat where "ZSA_CLOSE_ZONE = 1"
definition ZSA_FINISH_ZONE :: nat where "ZSA_FINISH_ZONE = 2"
definition ZSA_OPEN_ZONE :: nat where "ZSA_OPEN_ZONE = 3"
definition ZSA_RESET_ZONE :: nat where "ZSA_RESET_ZONE = 4"
definition ZSA_OFFLINE_ZONE :: nat where "ZSA_OFFLINE_ZONE = 5"
definition ZSA_FLUSH_EXPL_ZRWA :: nat where "ZSA_FLUSH_EXPL_ZRWA = 0x11"

lemmas zsa_codes = ZSA_CLOSE_ZONE_def ZSA_FINISH_ZONE_def ZSA_OPEN_ZONE_def ZSA_RESET_ZONE_def
  ZSA_OFFLINE_ZONE_def ZSA_FLUSH_EXPL_ZRWA_def

definition is_opened :: "zone_state \<Rightarrow> bool" where
  "is_opened st \<longleftrightarrow> st = ZONE_STATE_OPENED_IMPL \<or> st = ZONE_STATE_OPENED_EXPL"

definition zmgmt_send_close_zone :: "nat \<Rightarrow> zns_ftl \<Rightarrow> (nat \<times> zns_ftl) option" where
  "zmgmt_send_close_zone zid z = do {
     d \<leftarrow> rd (z_descs z) zid;
     let cur_state = zd_state d;
     if is_opened cur_state then do {
       z1 \<leftarrow> change_zone_state zid ZONE_STATE_CLOSED z;
       Some (NVME_SC_SUCCESS, release_zone_resource OPEN_ZONE z1)
     } else if cur_state = ZONE_STATE_CLOSED then Some (NVME_SC_SUCCESS, z)
     else Some (NVME_SC_ZNS_INVALID_TRANSITION, z)
   }"

text \<open>
  The resources a zone in state \<open>st\<close> gives back when it is finished or reset: an opened zone
  its open resource, an opened or closed zone its active and its ZRWA resource.
\<close>

definition release_zone :: "zone_state \<Rightarrow> bool \<Rightarrow> zns_ftl \<Rightarrow> zns_ftl" where
  "release_zone st is_zrwa_zone z =
     (let z1 = (if is_opened st then release_zone_resource OPEN_ZONE z else z)
      in if is_opened st \<or> st = ZONE_STATE_CLOSED then
           (let z2 = release_zone_resource ACTIVE_ZONE z1
            in if is_zrwa_zone then release_zone_resource ZRWA_ZONE z2 else z2)
         else z1)"

definition zmgmt_send_finish_zone :: "nat \<Rightarrow> zns_ftl \<Rightarrow> (nat \<times> zns_ftl) option" where
  "zmgmt_send_finish_zone zid z = do {
     d \<leftarrow> rd (z_descs z) zid;
     let cur_state = zd_state d;
     if is_opened cur_state \<or> cur_state = ZONE_STATE_CLOSED \<or> cur_state = ZONE_STATE_EMPTY then do {
       z1 \<leftarrow> change_zone_state zid ZONE_STATE_FULL (release_zone cur_state (zd_zrwav d) z);
       Some (NVME_SC_SUCCESS, z1)
     } else if cur_state = ZONE_STATE_FULL then Some (NVME_SC_SUCCESS, z)
     else Some (NVME_SC_ZNS_INVALID_TRANSITION, z)
   }"

text \<open>The part of \<open>__zmgmt_send_open_zone\<close> from the label of a closed zone on.\<close>

definition open_closed_zone :: "nat \<Rightarrow> zns_ftl \<Rightarrow> (nat \<times> zns_ftl) option" where
  "open_closed_zone zid z =
     (case acquire_zone_resource OPEN_ZONE z of
        (False, z1) \<Rightarrow> Some (NVME_SC_ZNS_NO_OPEN_ZONE, z1)
      | (True, z1) \<Rightarrow> do {
          z2 \<leftarrow> change_zone_state zid ZONE_STATE_OPENED_EXPL z1;
          Some (NVME_SC_SUCCESS, z2)
        })"

definition zmgmt_send_open_zone :: "nat \<Rightarrow> bool \<Rightarrow> zns_ftl \<Rightarrow> (nat \<times> zns_ftl) option" where
  "zmgmt_send_open_zone zid zrwa z = do {
     d \<leftarrow> rd (z_descs z) zid;
     case zd_state d of
       ZONE_STATE_EMPTY \<Rightarrow>
         if is_zone_resource_full z ACTIVE_ZONE then Some (NVME_SC_ZNS_NO_ACTIVE_ZONE, z)
         else if is_zone_resource_full z OPEN_ZONE then Some (NVME_SC_ZNS_NO_OPEN_ZONE, z)
         else if zrwa \<and> is_zone_resource_full z ZRWA_ZONE then Some (NVME_SC_ZNS_ZRWA_RSRC_UNAVAIL, z)
         else do {
           z1 \<leftarrow> (if zrwa then upd_desc zid (\<lambda>d. d\<lparr>zd_zrwav := True\<rparr>) (snd (acquire_zone_resource ZRWA_ZONE z))
                 else Some z);
           open_closed_zone zid (snd (acquire_zone_resource ACTIVE_ZONE z1))
         }
     | ZONE_STATE_CLOSED \<Rightarrow> open_closed_zone zid z
     | ZONE_STATE_OPENED_IMPL \<Rightarrow> do {
         z1 \<leftarrow> change_zone_state zid ZONE_STATE_OPENED_EXPL z;
         Some (NVME_SC_SUCCESS, z1)
       }
     | ZONE_STATE_OPENED_EXPL \<Rightarrow> Some (NVME_SC_SUCCESS, z)
     | _ \<Rightarrow> Some (NVME_SC_ZNS_INVALID_TRANSITION, z)
   }"

text \<open>Byte \<open>i\<close> of the storage belongs to zone \<open>zid\<close> when it is in the \<open>zone_size\<close> bytes from
  \<open>get_storage_addr_from_zid\<close> on.\<close>

definition get_storage_addr_from_zid :: "zns_ftl \<Rightarrow> nat \<Rightarrow> nat" where
  "get_storage_addr_from_zid z zid = zid * zp_zone_size (z_zp z)"

definition reset_zone :: "nat \<Rightarrow> zns_ftl \<Rightarrow> zns_ftl option" where
  "reset_zone zid z = do {
     let start = get_storage_addr_from_zid z zid;
     let z1 = z\<lparr>z_storage := (\<lambda>a. if start \<le> a \<and> a < start + zp_zone_size (z_zp z) then 0 else z_storage z a)\<rparr>;
     z2 \<leftarrow> upd_desc zid (\<lambda>d. d\<lparr>zd_wp := zd_zslba d, zd_zrwav := False\<rparr>) z1;
     if zp_zrwa_buffer_size (z_zp z) \<noteq> 0 then do {
       b \<leftarrow> rd (z_zrwa z2) zid;
       Some (z2\<lparr>z_zrwa := (z_zrwa z2)[zid := buffer_refill b]\<rparr>)
     } else Some z2
   }"

definition zmgmt_send_reset_zone :: "nat \<Rightarrow> zns_ftl \<Rightarrow> (nat \<times> zns_ftl) option" where
  "zmgmt_send_reset_zone zid z = do {
     d \<leftarrow> rd (z_descs z) zid;
     let cur_state = zd_state d;
     if cur_state = ZONE_STATE_READ_ONLY \<or> cur_state = ZONE_STATE_OFFLINE
     then Some (NVME_SC_ZNS_INVALID_TRANSITION, z)
     else do {
       z1 \<leftarrow> change_zone_state zid ZONE_STATE_EMPTY (release_zone cur_state (zd_zrwav d) z);
       z2 \<leftarrow> reset_zone zid z1;
       Some (NVME_SC_SUCCESS, z2)
     }
   }"

definition zmgmt_send_offline_zone :: "nat \<Rightarrow> zns_ftl \<Rightarrow> (nat \<times> zns_ftl) option" where
  "zmgmt_send_offline_zone zid z = do {
     d \<leftarrow> rd (z_descs z) zid;
     case zd_state d of
       ZONE_STATE_READ_ONLY \<Rightarrow> do {
         z1 \<leftarrow> change_zone_state zid ZONE_STATE_OFFLINE z;
         Some (NVME_SC_SUCCESS, z1)
       }
     | ZONE_STATE_OFFLINE \<Rightarrow> Some (NVME_SC_SUCCESS, z)
     | _ \<Rightarrow> Some (NVME_SC_ZNS_INVALID_TRANSITION, z)
   }"

text \<open>The modulo by a flush granularity of 0 stops the machine.\<close>

definition zmgmt_send_flush_explicit_zrwa :: "nat \<Rightarrow> zns_ftl \<Rightarrow> (nat \<times> zns_ftl) option" where
  "zmgmt_send_flush_explicit_zrwa slba z = do {
     let zid = lba_to_zone z slba;
     d \<leftarrow> rd (z_descs z) zid;
     let wp = zd_wp d;
     let zrwa_end = min (u64_sub (u64 (wp + zp_lbas_per_zrwa (z_zp z))) 1)
                        (u64_sub (u64 (zone_to_slba z zid + zd_zone_capacity d)) 1);
     let nr_lbas_flush = u64 (u64_sub slba wp + 1);
     if \<not> zd_zrwav d then Some (NVME_SC_ZNS_INVALID_ZONE_OPERATION, z)
     else if \<not> (wp \<le> slba \<and> slba \<le> zrwa_end) then Some (NVME_SC_ZNS_INVALID_ZONE_OPERATION, z)
     else do {
       NVMEV_ASSERT (zp_lbas_per_zrwafg (z_zp z) \<noteq> 0);
       if nr_lbas_flush mod zp_lbas_per_zrwafg (z_zp z) \<noteq> 0 then Some (NVME_SC_INVALID_FIELD, z)
       else if is_opened (zd_state d) \<or> zd_state d = ZONE_STATE_CLOSED then do {
         z1 \<leftarrow> upd_desc zid (\<lambda>d. d\<lparr>zd_wp := u64 (slba + 1)\<rparr>) z;
         if u64 (slba + 1) = u64 (zone_to_slba z zid + zd_zone_capacity d) then do {
           let z2 = (if zd_state d \<noteq> ZONE_STATE_CLOSED then release_zone_resource OPEN_ZONE z1 else z1);
           let z3 = release_zone_resource ZRWA_ZONE (release_zone_resource ACTIVE_ZONE z2);
           z4 \<leftarrow> change_zone_state zid ZONE_STATE_FULL z3;
           Some (NVME_SC_SUCCESS, z4)
         } else Some (NVME_SC_SUCCESS, z1)
       } else Some (NVME_SC_ZNS_INVALID_ZONE_OPERATION, z)
     }
   }"

text \<open>
  For an action that is none of the six, \<open>status\<close> is returned uninitialised; \<open>junk\<close> is its
  value then.
\<close>

definition zmgmt_send :: "nat \<Rightarrow> nat \<Rightarrow> nat \<Rightarrow> bool \<Rightarrow> zns_ftl \<Rightarrow> (nat \<times> zns_ftl) option" where
  "zmgmt_send junk slba action option z =
     (let zid = lba_to_zone z slba
      in if action = ZSA_CLOSE_ZONE then zmgmt_send_close_zone zid z
         else if action = ZSA_FINISH_ZONE then zmgmt_send_finish_zone zid z
         else if action = ZSA_OPEN_ZONE then zmgmt_send_open_zone zid option z
         else if action = ZSA_RESET_ZONE then zmgmt_send_reset_zone zid z
         else if action = ZSA_OFFLINE_ZONE then zmgmt_send_offline_zone zid z
         else if action = ZSA_FLUSH_EXPL_ZRWA then zmgmt_send_flush_explicit_zrwa slba z
         else Some (junk, z))"

record nvme_zone_mgmt_send =
  zs_slba :: nat
  zs_zsa :: nat
  zs_select_all :: bool
  zs_zsaso :: bool

definition zns_zmgmt_send ::
  "nat \<Rightarrow> nvme_zone_mgmt_send \<Rightarrow> nat \<Rightarrow> nvmev_result \<Rightarrow> zns_ftl \<Rightarrow> (nvmev_result \<times> zns_ftl) option" where
  "zns_zmgmt_send junk cmd nsecs_start ret z = do {
     (status, z1) \<leftarrow>
       (if zs_select_all cmd then do {
          z' \<leftarrow> foldM (\<lambda>zid z. do {
              (_, z') \<leftarrow> zmgmt_send junk (zone_to_slba z zid) (zs_zsa cmd) (zs_zsaso cmd) z;
              Some z'
            }) [0..<zp_nr_zones (z_zp z)] z;
          Some (NVME_SC_SUCCESS, z')
        } else zmgmt_send junk (zs_slba cmd) (zs_zsa cmd) (zs_zsaso cmd) z);
     Some (ret\<lparr>ret_nsecs_target := nsecs_start, ret_status := status\<rparr>, z1)
   }"

section \<open>Zone management receive\<close>

record nvme_zone_mgmt_recv =
  zm_prp1 :: nat
  zm_prp2 :: nat
  zm_slba :: nat
  zm_nr_dw :: nat
  zm_zra :: nat
  zm_zra_specific_field :: nat
  zm_zra_specific_features :: nat

text \<open>The 64 bytes of a zone descriptor; bit 3 of the attributes is \<open>zrwav\<close>.\<close>

definition encode_zone_descriptor :: "zone_descriptor \<Rightarrow> nat list" where
  "encode_zone_descriptor d =
     [zd_type d mod 16, 16 * zone_state_code (zd_state d), (if zd_zrwav d then 8 else 0), 0] @ replicate 4 0 @
     le_bytes 8 (zd_zone_capacity d) @ le_bytes 8 (zd_zslba d) @ le_bytes 8 (zd_wp d) @ replicate 32 0"

definition bytes_transfer :: "nvme_zone_mgmt_recv \<Rightarrow> nat" where
  "bytes_transfer cmd = u32 (zm_nr_dw cmd + 1) * 4"

definition nr_zone_to_report :: "zns_ftl \<Rightarrow> nvme_zone_mgmt_recv \<Rightarrow> nat" where
  "nr_zone_to_report z cmd =
     (let left = u64_sub (zp_nr_zones (z_zp z)) (lba_to_zone z (zm_slba cmd));
          n = (if zm_zra_specific_features cmd = 0 then left
               else u64_sub (bytes_transfer cmd div sizeof_zone_descriptor) 1)
      in if n > left then left else n)"

text \<open>The report's \<open>zd\<close> array starts 64 bytes into the report buffer.\<close>

definition fill_zone_report :: "nvme_zone_mgmt_recv \<Rightarrow> zns_ftl \<Rightarrow> zns_ftl option" where
  "fill_zone_report cmd z = do {
     let start_zid = lba_to_zone z (zm_slba cmd);
     let n = nr_zone_to_report z cmd;
     r1 \<leftarrow> put_bytes 0 (le_bytes 8 n) (z_report z);
     NVMEV_ASSERT (start_zid + n \<le> length (z_descs z));
     r2 \<leftarrow> put_bytes 64 (concat (map encode_zone_descriptor (take n (drop start_zid (z_descs z))))) r1;
     Some (z\<lparr>z_report := r2\<rparr>)
   }"

definition check_zmgmt_rcv_option_supported :: "zns_ftl \<Rightarrow> nvme_zone_mgmt_recv \<Rightarrow> bool" where
  "check_zmgmt_rcv_option_supported z cmd \<longleftrightarrow>
     lba_to_zone z (zm_slba cmd) < zp_nr_zones (z_zp z) \<and> zm_zra cmd = 0 \<and> zm_zra_specific_field cmd = 0"

text \<open>
  The host's physical memory is a function from byte addresses. \<open>prp_addr\<close> gives the address of
  the \<open>k\<close>-th page of a transfer (\<open>k\<close> from 1) and the location of the PRP list once it is in use:
  the first page is \<open>prp1\<close>; the second is \<open>prp2\<close>, or the first entry of the list at \<open>prp2\<close> when
  more than a page remains; the further ones are the next entries of the list.
\<close>

definition prp_addr ::
  "(nat \<Rightarrow> nat) \<Rightarrow> nat \<Rightarrow> nat \<Rightarrow> nat \<Rightarrow> nat \<Rightarrow> nat option \<Rightarrow> nat \<Rightarrow> (nat \<times> nat option \<times> nat) option" where
  "prp_addr mem prp1 prp2 prp_offs remaining paddr_list prp2_offs =
     (if prp_offs = 1 then Some (prp1, paddr_list, prp2_offs)
      else if prp_offs = 2 then
        (if remaining > PAGE_SIZE then Some (rd_u64 mem (prp2 + 8 * prp2_offs), Some prp2, prp2_offs + 1)
         else Some (prp2, paddr_list, prp2_offs))
      else (case paddr_list of
          None \<Rightarrow> None
        | Some l \<Rightarrow> Some (rd_u64 mem (l + 8 * prp2_offs), paddr_list, prp2_offs + 1)))"

text \<open>
  The copying loop towards the host (\<open>io = 0\<close>, the only direction the code uses). A page
  address that is not aligned shortens the piece to the end of its page.
\<close>

function prp_transfer_loop ::
  "nat \<Rightarrow> nat \<Rightarrow> nat list \<Rightarrow> nat \<Rightarrow> nat \<Rightarrow> nat \<Rightarrow> nat option \<Rightarrow> nat \<Rightarrow> (nat \<Rightarrow> nat) \<Rightarrow> (nat \<Rightarrow> nat) option" where
  "prp_transfer_loop prp1 prp2 buf offset remaining prp_offs paddr_list prp2_offs mem =
     (if remaining = 0 then Some mem
      else case prp_addr mem prp1 prp2 (prp_offs + 1) remaining paddr_list prp2_offs of
        None \<Rightarrow> None
      | Some (paddr, paddr_list', prp2_offs') \<Rightarrow>
          (let mem_offs = paddr mod PAGE_SIZE;
               io_size = min (min remaining PAGE_SIZE) (PAGE_SIZE - mem_offs)
           in if offset + io_size \<le> length buf
              then prp_transfer_loop prp1 prp2 buf (offset + io_size) (remaining - io_size) (prp_offs + 1)
                     paddr_list' prp2_offs' (mem_write paddr (take io_size (drop offset buf)) mem)
              else None))"
  by pat_completeness auto
termination
  by (relation "measure (\<lambda>(_, _, _, _, remaining, _, _, _, _). remaining)") (auto simp: PAGE_SIZE_def)

definition prp_transfer_data ::
  "nat \<Rightarrow> nat \<Rightarrow> nat list \<Rightarrow> nat \<Rightarrow> (nat \<Rightarrow> nat) \<Rightarrow> (nat \<Rightarrow> nat) option" where
  "prp_transfer_data prp1 prp2 buf len mem = prp_transfer_loop prp1 prp2 buf 0 len 0 None 0 mem"

definition zns_zmgmt_recv ::
  "nvme_zone_mgmt_recv \<Rightarrow> nat \<Rightarrow> nvmev_result \<Rightarrow> zns_ftl \<Rightarrow> (nat \<Rightarrow> nat) \<Rightarrow>
   (nvmev_result \<times> zns_ftl \<times> (nat \<Rightarrow> nat)) option" where
  "zns_zmgmt_recv cmd nsecs_start ret z mem = do {
     (status, z1, mem1) \<leftarrow>
       (if check_zmgmt_rcv_option_supported z cmd then do {
          z' \<leftarrow> fill_zone_report cmd z;
          mem' \<leftarrow> prp_transfer_data (zm_prp1 cmd) (zm_prp2 cmd) (z_report z') (bytes_transfer cmd) mem;
          Some (NVME_SC_SUCCESS, z', mem')
        } else Some (NVME_SC_INVALID_FIELD, z, mem));
     Some (ret\<lparr>ret_nsecs_target := nsecs_start, ret_status := status\<rparr>, z1, mem1)
   }"

end
