(* ===== verification/Zns_Rw.thy ===== *)
theory Zns_Rw
  imports Zns_Mgmt
begin

text \<open>
  Reads, writes and appends of the zoned device (\<open>zns_read_write.c\<close>), the flush and the
  dispatcher of \<open>zns_ftl.c\<close>.

  The loops that walk a range of logical pages in pieces of at most one one-shot (or flash)
  page are folds over \<open>page_chunks\<close>, the list of the values that the loop variable and the
  piece length take; the pieces depend on the addresses only, not on the state that the loop
  body changes.
\<close>

section \<open>Addresses and write pointer\<close>

definition nr_lbas_from_rw_cmd :: "nvme_rw_command \<Rightarrow> nat" where
  "nr_lbas_from_rw_cmd c = u32 (rw_length c + 1)"

text \<open>True when the blocks are in one zone, despite the name.\<close>

definition check_boundary_error :: "zns_ftl \<Rightarrow> nat \<Rightarrow> nat \<Rightarrow> bool" where
  "check_boundary_error z slba nr_lba \<longleftrightarrow>
     lba_to_zone z slba = lba_to_zone z (u64_sub (u64 (slba + nr_lba)) 1)"

definition increase_write_ptr :: "nat \<Rightarrow> nat \<Rightarrow> zns_ftl \<Rightarrow> zns_ftl option" where
  "increase_write_ptr zid nr_lba z = do {
     d \<leftarrow> rd (z_descs z) zid;
     let cur_write_ptr = u64 (zd_wp d + u32 nr_lba);
     z1 \<leftarrow> upd_desc zid (\<lambda>d. d\<lparr>zd_wp := cur_write_ptr\<rparr>) z;
     if cur_write_ptr = u64 (zone_to_slba z zid + zd_zone_capacity d)
     then change_zone_state zid ZONE_STATE_FULL (release_zone_resource ACTIVE_ZONE (release_zone_resource OPEN_ZONE z1))
     else Some z1
   }"

text \<open>The address has block, plane and reserved bits 0.\<close>

definition lpn_to_ppa :: "zns_ftl \<Rightarrow> nat \<Rightarrow> ppa" where
  "lpn_to_ppa z lpn =
     (let spp = z_sp z; zpp = z_zp z;
          zone = lpn_to_zone z lpn;
          off = u64_sub lpn (zone_to_slpn z zone);
          sdie = u32 (u64 (zone * zp_dies_per_zone zpp) mod tt_luns spp);
          die = u32 (sdie + (off div pgs_per_oneshotpg spp) mod zp_dies_per_zone zpp)
      in mk_ppa (die_to_channel z die) (die_to_lun z die) 0 0 (off mod pgs_per_oneshotpg spp))"

text \<open>
  The pieces of the pages \<open>lpn\<close> to \<open>elpn\<close> in which \<open>pg_of l mod u\<close> is the offset of page \<open>l\<close> in
  its unit of \<open>u\<close> pages. The next page is at most \<open>elpn + 1\<close>, which does not wrap around.
\<close>

function page_chunks :: "(nat \<Rightarrow> nat) \<Rightarrow> nat \<Rightarrow> nat \<Rightarrow> nat \<Rightarrow> (nat \<times> nat) list" where
  "page_chunks pg_of u lpn elpn =
     (if lpn \<le> elpn \<and> 0 < u then
        (let pgs = min (elpn - lpn + 1) (u - pg_of lpn mod u)
         in (lpn, pgs) # page_chunks pg_of u (lpn + pgs) elpn)
      else [])"
  by pat_completeness auto
termination
proof (relation "measure (\<lambda>(_, _, lpn, elpn). Suc elpn - lpn)", goal_cases)
  case (2 pg_of u lpn elpn pgs)
  then have "pg_of lpn mod u < u" by simp
  then have "0 < pgs" "lpn \<le> elpn" using 2 by auto
  then show ?case by auto
qed simp

section \<open>Writes\<close>

definition get_wbuf :: "wbuf_ref \<Rightarrow> zns_ftl \<Rightarrow> zns_env \<Rightarrow> buffer option" where
  "get_wbuf r z e = (case r of
       Global_wb \<Rightarrow> Some (sh_wbuf (ze_sh e))
     | Zone_wb i \<Rightarrow> rd (z_wb z) i
     | Zrwa_wb i \<Rightarrow> rd (z_zrwa z) i)"

definition put_wbuf :: "wbuf_ref \<Rightarrow> buffer \<Rightarrow> zns_ftl \<Rightarrow> zns_env \<Rightarrow> zns_ftl \<times> zns_env" where
  "put_wbuf r b z e = (case r of
       Global_wb \<Rightarrow> (z, e\<lparr>ze_sh := (ze_sh e)\<lparr>sh_wbuf := b\<rparr>\<rparr>)
     | Zone_wb i \<Rightarrow> (z\<lparr>z_wb := (z_wb z)[i := b]\<rparr>, e)
     | Zrwa_wb i \<Rightarrow> (z\<lparr>z_zrwa := (z_zrwa z)[i := b]\<rparr>, e))"

definition alloc_wbuf :: "wbuf_ref \<Rightarrow> nat \<Rightarrow> zns_ftl \<Rightarrow> zns_env \<Rightarrow> (nat \<times> zns_ftl \<times> zns_env) option" where
  "alloc_wbuf r n z e = do {
     b \<leftarrow> get_wbuf r z e;
     (got, b') \<leftarrow> buffer_allocate b n;
     Some (got, put_wbuf r b' z e)
   }"

definition zns_nand :: "(nat \<Rightarrow> nat) \<Rightarrow> nand_cmd \<Rightarrow> zns_ftl \<Rightarrow> zns_env \<Rightarrow> (nat \<times> zns_ftl \<times> zns_env) option" where
  "zns_nand clk cmd z e = do {
     (t, s, sh) \<leftarrow> ssd_advance_nand clk cmd (z_ssd z) (ze_sh e);
     Some (t, z\<lparr>z_ssd := s\<rparr>, e\<lparr>ze_sh := sh\<rparr>)
   }"

definition zns_write_buffer :: "(nat \<Rightarrow> nat) \<Rightarrow> nat \<Rightarrow> nat \<Rightarrow> zns_ftl \<Rightarrow> zns_env \<Rightarrow> (nat \<times> zns_env) option" where
  "zns_write_buffer clk t len z e = do {
     (t', sh) \<leftarrow> ssd_advance_write_buffer clk (z_sp z) (ze_sh e) t len;
     Some (t', e\<lparr>ze_sh := sh\<rparr>)
   }"

definition schedule_release :: "nat \<Rightarrow> nat \<Rightarrow> wbuf_ref \<Rightarrow> nat \<Rightarrow> zns_env \<Rightarrow> zns_env" where
  "schedule_release sqid t r n e =
     e\<lparr>ze_sched := ze_sched e @ [\<lparr>zo_sqid = sqid, zo_nsecs_target = t, zo_buffer = r, zo_release = n\<rparr>]\<rparr>"

text \<open>The label \<open>out\<close>: without early completion, or with FUA, the flash operations are waited for.\<close>

definition write_out :: "ssdparams \<Rightarrow> nvme_rw_command \<Rightarrow> nat \<Rightarrow> nat \<Rightarrow> nat \<Rightarrow> nvmev_result \<Rightarrow> nvmev_result" where
  "write_out spp cmd status nsecs_latest nsecs_xfer ret =
     ret\<lparr>ret_status := status,
         ret_nsecs_target := (if rw_fua cmd \<or> \<not> write_early_completion spp then nsecs_latest else nsecs_xfer)\<rparr>"

text \<open>
  The state switch of \<open>__zns_write\<close>: the status, and the zone opened implicitly where it was
  empty or closed.
\<close>

definition open_impl_zone :: "nat \<Rightarrow> zns_ftl \<Rightarrow> (nat \<times> zns_ftl) option" where
  "open_impl_zone zid z =
     (case acquire_zone_resource OPEN_ZONE z of
        (False, z1) \<Rightarrow> Some (NVME_SC_ZNS_NO_OPEN_ZONE, z1)
      | (True, z1) \<Rightarrow> do {
          z2 \<leftarrow> change_zone_state zid ZONE_STATE_OPENED_IMPL z1;
          Some (NVME_SC_SUCCESS, z2)
        })"

definition enter_zone :: "nat \<Rightarrow> nat \<Rightarrow> zns_ftl \<Rightarrow> (nat \<times> zns_ftl) option" where
  "enter_zone zid slba z = do {
     d \<leftarrow> rd (z_descs z) zid;
     case zd_state d of
       ZONE_STATE_EMPTY \<Rightarrow>
         if slba \<noteq> zd_zslba d then Some (NVME_SC_ZNS_INVALID_WRITE, z)
         else if is_zone_resource_full z ACTIVE_ZONE then Some (NVME_SC_ZNS_NO_ACTIVE_ZONE, z)
         else if is_zone_resource_full z OPEN_ZONE then Some (NVME_SC_ZNS_NO_OPEN_ZONE, z)
         else open_impl_zone zid (snd (acquire_zone_resource ACTIVE_ZONE z))
     | ZONE_STATE_CLOSED \<Rightarrow> open_impl_zone zid z
     | ZONE_STATE_OPENED_IMPL \<Rightarrow> Some (NVME_SC_SUCCESS, z)
     | ZONE_STATE_OPENED_EXPL \<Rightarrow> Some (NVME_SC_SUCCESS, z)
     | ZONE_STATE_FULL \<Rightarrow> Some (NVME_SC_ZNS_ERR_FULL, z)
     | ZONE_STATE_READ_ONLY \<Rightarrow> Some (NVME_SC_ZNS_ERR_READ_ONLY, z)
     | ZONE_STATE_OFFLINE \<Rightarrow> Some (NVME_SC_ZNS_ERR_OFFLINE, z)
   }"

text \<open>
  One piece of a write: the one-shot page is programmed when the piece reaches its end or the
  end of the zone, and then its space in the write buffer is scheduled for release.
\<close>

definition write_chunk ::
  "(nat \<Rightarrow> nat) \<Rightarrow> nat \<Rightarrow> wbuf_ref \<Rightarrow> nat \<Rightarrow> nat \<Rightarrow> nat \<times> nat \<Rightarrow> nat \<times> zns_ftl \<times> zns_env \<Rightarrow>
   (nat \<times> zns_ftl \<times> zns_env) option" where
  "write_chunk clk sqid wb zone_elpn nsecs_xfer = (\<lambda>(lpn, pgs) (nsecs_latest, z, e).
     (let spp = z_sp z; os = pgs_per_oneshotpg spp; p = lpn_to_ppa z lpn; pg_off = g_pg p mod os
      in if pg_off + pgs = os \<or> u64_sub (lpn + pgs) 1 = zone_elpn then do {
           (t, z1, e1) \<leftarrow> zns_nand clk \<lparr>nc_type = USER_IO, nc_cmd = NAND_WRITE, nc_xfer_size = os * pgsz spp,
              nc_stime = nsecs_xfer, nc_interleave_pci_dma = False, nc_ppa = p\<rparr> z e;
           let unaligned_space = zp_zone_size (z_zp z) mod (os * pgsz spp);
           let bufs = (if u64_sub (lpn + pgs) 1 = zone_elpn \<and> unaligned_space > 0 then unaligned_space
                       else os * pgsz spp);
           Some (max t nsecs_latest, z1, schedule_release sqid t wb bufs e1)
         } else Some (nsecs_latest, z, e)))"

definition write_buffer_of :: "zns_ftl \<Rightarrow> nat \<Rightarrow> wbuf_ref" where
  "write_buffer_of z zid = (if zp_zone_wb_size (z_zp z) \<noteq> 0 then Zone_wb zid else Global_wb)"

text \<open>An append takes the write pointer of the zone as its first block and reports it.\<close>

definition zns_write_zone ::
  "(nat \<Rightarrow> nat) \<Rightarrow> nvmev_request \<Rightarrow> nvmev_result \<Rightarrow> zns_ftl \<Rightarrow> zns_env \<Rightarrow>
   (bool \<times> nvmev_request \<times> nvmev_result \<times> zns_ftl \<times> zns_env) option" where
  "zns_write_zone clk req0 ret0 z e = do {
     let spp = z_sp z;
     let cmd0 = req_cmd req0;
     let nr_lba = nr_lbas_from_rw_cmd cmd0;
     let zid = lba_to_zone z (rw_slba cmd0);
     d \<leftarrow> rd (z_descs z) zid;
     let slba = (if rw_opcode cmd0 = nvme_cmd_zone_append then zd_wp d else rw_slba cmd0);
     let cmd = cmd0\<lparr>rw_slba := slba\<rparr>;
     let req = req0\<lparr>req_cmd := cmd\<rparr>;
     let ret = (if rw_opcode cmd0 = nvme_cmd_zone_append then ret0\<lparr>ret_result := slba\<rparr> else ret0);
     let nsecs_start = req_nsecs_start req;
     let slpn = lba_to_lpn z slba;
     let elpn = lba_to_lpn z (u64_sub (u64 (slba + nr_lba)) 1);
     let zone_elpn = zone_to_elpn z zid;
     let wb = write_buffer_of z zid;
     (got, z1, e1) \<leftarrow> alloc_wbuf wb (LBA_TO_BYTE nr_lba) z e;
     let out = (\<lambda>status z e. Some (True, req, write_out spp cmd status nsecs_start nsecs_start ret, z, e));
     if got < LBA_TO_BYTE nr_lba then Some (False, req, ret, z1, e1)
     else do {
       NVMEV_ASSERT (write_unit_size spp \<noteq> 0);
       if LBA_TO_BYTE nr_lba mod write_unit_size spp \<noteq> 0 then out NVME_SC_ZNS_INVALID_WRITE z1 e1
       else if \<not> check_boundary_error z slba nr_lba then out NVME_SC_ZNS_ERR_BOUNDARY z1 e1
       else if slba \<noteq> zd_wp d then out NVME_SC_ZNS_INVALID_WRITE z1 e1
       else do {
         (status, z2) \<leftarrow> enter_zone zid slba z1;
         if status \<noteq> NVME_SC_SUCCESS then out status z2 e1
         else do {
           z3 \<leftarrow> increase_write_ptr zid nr_lba z2;
           (nsecs_xfer, e2) \<leftarrow> zns_write_buffer clk nsecs_start (LBA_TO_BYTE nr_lba) z3 e1;
           NVMEV_ASSERT (pgs_per_oneshotpg spp \<noteq> 0);
           (nsecs_latest, z4, e3) \<leftarrow> foldM (write_chunk clk (req_sq_id req) wb zone_elpn nsecs_xfer)
              (page_chunks (\<lambda>l. g_pg (lpn_to_ppa z l)) (pgs_per_oneshotpg spp) slpn elpn) (nsecs_xfer, z3, e2);
           Some (True, req, write_out spp cmd NVME_SC_SUCCESS nsecs_latest nsecs_xfer ret, z4, e3)
         }
       }
     }
   }"

text \<open>The state switch of \<open>__zns_write_zrwa\<close>.\<close>

definition enter_zrwa_zone :: "nat \<Rightarrow> zns_ftl \<Rightarrow> zns_env \<Rightarrow> (nat \<times> zns_ftl \<times> zns_env) option" where
  "enter_zrwa_zone zid z e = do {
     d \<leftarrow> rd (z_descs z) zid;
     case zd_state d of
       ZONE_STATE_FULL \<Rightarrow> Some (NVME_SC_ZNS_ERR_FULL, z, e)
     | ZONE_STATE_READ_ONLY \<Rightarrow> Some (NVME_SC_ZNS_ERR_READ_ONLY, z, e)
     | ZONE_STATE_OFFLINE \<Rightarrow> Some (NVME_SC_ZNS_ERR_OFFLINE, z, e)
     | ZONE_STATE_OPENED_IMPL \<Rightarrow> Some (NVME_SC_SUCCESS, z, e)
     | ZONE_STATE_OPENED_EXPL \<Rightarrow> Some (NVME_SC_SUCCESS, z, e)
     | _ \<Rightarrow> (case acquire_zone_resource OPEN_ZONE z of
           (False, z1) \<Rightarrow> Some (NVME_SC_ZNS_NO_OPEN_ZONE, z1, e)
         | (True, z1) \<Rightarrow> do {
             (got, z2, e2) \<leftarrow> alloc_wbuf (Zrwa_wb zid) (zp_zrwa_size (z_zp z)) z1 e;
             NVMEV_ASSERT (got \<noteq> 0);
             z3 \<leftarrow> change_zone_state zid ZONE_STATE_OPENED_IMPL z2;
             Some (NVME_SC_SUCCESS, z3, e2)
           })
   }"

text \<open>
  How many blocks a ZRWA write flushes: what reaches beyond the random write area, rounded up
  to the flush granularity (0 stops the machine), or all blocks up to the end of the zone.
\<close>

definition zrwa_flush_count :: "zns_ftl \<Rightarrow> nat \<Rightarrow> nat \<Rightarrow> nat \<Rightarrow> nat option" where
  "zrwa_flush_count z zid prev_wp elba =
     (let fg = zp_lbas_per_zrwafg (z_zp z); impl_start = u64 (prev_wp + zp_lbas_per_zrwa (z_zp z))
      in if impl_start \<le> elba then
           (if fg = 0 then None else Some (u64 (DIV_ROUND_UP (elba - impl_start + 1) fg * fg)))
         else if elba = zone_to_elba z zid then Some (u64 (u64_sub elba prev_wp + 1))
         else Some 0)"

definition zrwa_chunk ::
  "(nat \<Rightarrow> nat) \<Rightarrow> nat \<Rightarrow> nat \<Rightarrow> nat \<Rightarrow> nat \<times> nat \<Rightarrow> nat \<times> zns_ftl \<times> zns_env \<Rightarrow> (nat \<times> zns_ftl \<times> zns_env) option" where
  "zrwa_chunk clk sqid zid nsecs_xfer = (\<lambda>(lpn, pgs) (nsecs_latest, z, e).
     (let spp = z_sp z; os = pgs_per_oneshotpg spp; p = lpn_to_ppa z lpn
      in if g_pg p mod os + pgs = os then do {
           (t, z1, e1) \<leftarrow> zns_nand clk \<lparr>nc_type = USER_IO, nc_cmd = NAND_WRITE, nc_xfer_size = os * pgsz spp,
              nc_stime = nsecs_xfer, nc_interleave_pci_dma = False, nc_ppa = p\<rparr> z e;
           Some (max t nsecs_latest, z1, schedule_release sqid t (Zrwa_wb zid) (os * pgsz spp) e1)
         } else Some (nsecs_latest, z, e)))"

definition zns_write_zrwa ::
  "(nat \<Rightarrow> nat) \<Rightarrow> nvmev_request \<Rightarrow> nvmev_result \<Rightarrow> zns_ftl \<Rightarrow> zns_env \<Rightarrow>
   (bool \<times> nvmev_request \<times> nvmev_result \<times> zns_ftl \<times> zns_env) option" where
  "zns_write_zrwa clk req ret z e = do {
     let spp = z_sp z;
     let cmd = req_cmd req;
     let slba = rw_slba cmd;
     let nr_lba = nr_lbas_from_rw_cmd cmd;
     let elba = u64_sub (u64 (slba + nr_lba)) 1;
     let zid = lba_to_zone z slba;
     d \<leftarrow> rd (z_descs z) zid;
     let prev_wp = zd_wp d;
     let zrwa_impl_end = u64_sub (u64 (prev_wp + u32 (2 * zp_lbas_per_zrwa (z_zp z)))) 1;
     let nsecs_start = req_nsecs_start req;
     let out = (\<lambda>status z e. Some (True, req, write_out spp cmd status nsecs_start nsecs_start ret, z, e));
     NVMEV_ASSERT (write_unit_size spp \<noteq> 0);
     if LBA_TO_BYTE nr_lba mod write_unit_size spp \<noteq> 0 then out NVME_SC_ZNS_INVALID_WRITE z e
     else if \<not> check_boundary_error z slba nr_lba then out NVME_SC_ZNS_ERR_BOUNDARY z e
     else if slba < prev_wp \<or> elba > zrwa_impl_end then out NVME_SC_ZNS_INVALID_WRITE z e
     else do {
       (status, z1, e1) \<leftarrow> enter_zrwa_zone zid z e;
       if status \<noteq> NVME_SC_SUCCESS then out status z1 e1
       else do {
         nr_lbas_flush \<leftarrow> zrwa_flush_count z1 zid prev_wp elba;
         (ok, z2, e2) \<leftarrow> (if nr_lbas_flush > 0 then do {
              (got, z', e') \<leftarrow> alloc_wbuf (Zrwa_wb zid) (LBA_TO_BYTE nr_lbas_flush) z1 e1;
              if got = 0 then Some (False, z', e')
              else do {
                z'' \<leftarrow> increase_write_ptr zid nr_lbas_flush z';
                Some (True, z'', e')
              }
            } else Some (True, z1, e1));
         if \<not> ok then Some (False, req, ret, z2, e2)
         else do {
           (nsecs_xfer, e3) \<leftarrow> zns_write_buffer clk nsecs_start (LBA_TO_BYTE nr_lba) z2 e2;
           let lpn = lba_to_lpn z2 prev_wp;
           let remaining = nr_lbas_flush div secs_per_pg spp;
           NVMEV_ASSERT (pgs_per_oneshotpg spp \<noteq> 0);
           (nsecs_latest, z4, e4) \<leftarrow> foldM (zrwa_chunk clk (req_sq_id req) zid nsecs_xfer)
              (if remaining > 0
               then page_chunks (\<lambda>l. g_pg (lpn_to_ppa z l)) (pgs_per_oneshotpg spp) lpn (lpn + remaining - 1)
               else []) (nsecs_xfer, z2, e3);
           Some (True, req, write_out spp cmd NVME_SC_SUCCESS nsecs_latest nsecs_xfer ret, z4, e4)
         }
       }
     }
   }"

definition zns_write ::
  "(nat \<Rightarrow> nat) \<Rightarrow> nvmev_request \<Rightarrow> nvmev_result \<Rightarrow> zns_ftl \<Rightarrow> zns_env \<Rightarrow>
   (bool \<times> nvmev_request \<times> nvmev_result \<times> zns_ftl \<times> zns_env) option" where
  "zns_write clk req ret z e = do {
     let zid = lpn_to_zone z (lba_to_lpn z (rw_slba (req_cmd req)));
     d \<leftarrow> rd (z_descs z) zid;
     if zd_zrwav d then zns_write_zrwa clk req ret z e else zns_write_zone clk req ret z e
   }"

section \<open>Reads, flush and dispatch\<close>

definition read_chunk ::
  "(nat \<Rightarrow> nat) \<Rightarrow> nat \<Rightarrow> nat \<times> nat \<Rightarrow> nat \<times> zns_ftl \<times> zns_env \<Rightarrow> (nat \<times> zns_ftl \<times> zns_env) option" where
  "read_chunk clk stime = (\<lambda>(lpn, pgs) (nsecs_latest, z, e). do {
     (t, z1, e1) \<leftarrow> zns_nand clk \<lparr>nc_type = USER_IO, nc_cmd = NAND_READ, nc_xfer_size = pgs * pgsz (z_sp z),
        nc_stime = stime, nc_interleave_pci_dma = False, nc_ppa = lpn_to_ppa z lpn\<rparr> z e;
     Some (max t nsecs_latest, z1, e1)
   })"

definition zns_read ::
  "(nat \<Rightarrow> nat) \<Rightarrow> nvmev_request \<Rightarrow> nvmev_result \<Rightarrow> zns_ftl \<Rightarrow> zns_env \<Rightarrow>
   (bool \<times> nvmev_result \<times> zns_ftl \<times> zns_env) option" where
  "zns_read clk req ret z e = do {
     let spp = z_sp z;
     let slba = rw_slba (req_cmd req);
     let nr_lba = nr_lbas_from_rw_cmd (req_cmd req);
     let slpn = lba_to_lpn z slba;
     let elpn = lba_to_lpn z (u64_sub (u64 (slba + nr_lba)) 1);
     d \<leftarrow> rd (z_descs z) (lpn_to_zone z slpn);
     let status = (if zd_state d = ZONE_STATE_OFFLINE then NVME_SC_ZNS_ERR_OFFLINE
                   else if \<not> check_boundary_error z slba nr_lba then NVME_SC_ZNS_ERR_BOUNDARY
                   else NVME_SC_SUCCESS);
     let stime = u64 (req_nsecs_start req + (if LBA_TO_BYTE nr_lba \<le> KB 4 then fw_4kb_rd_lat spp else fw_rd_lat spp));
     NVMEV_ASSERT (pgs_per_flashpg spp \<noteq> 0);
     (nsecs_latest, z1, e1) \<leftarrow> foldM (read_chunk clk stime)
        (page_chunks (\<lambda>l. g_pg (lpn_to_ppa z l)) (pgs_per_flashpg spp) slpn elpn) (stime, z, e);
     (t, sh) \<leftarrow> ssd_advance_pcie clk (ze_sh e1) nsecs_latest (nr_lba * secsz spp);
     Some (True, ret\<lparr>ret_status := status, ret_nsecs_target := max t nsecs_latest\<rparr>, z1, e1\<lparr>ze_sh := sh\<rparr>)
   }"

definition zns_flush ::
  "(nat \<Rightarrow> nat) \<Rightarrow> nvmev_result \<Rightarrow> zns_ns \<Rightarrow> zns_env \<Rightarrow> (nvmev_result \<times> zns_env) option" where
  "zns_flush clk ret ns e = do {
     let (start, sh0) = get_clock clk (ze_sh e);
     NVMEV_ASSERT (zn_nr_parts ns = 1);
     (t, sh) \<leftarrow> ssd_next_idle_time clk (z_ssd (zn_ftl ns)) sh0;
     Some (ret\<lparr>ret_status := NVME_SC_SUCCESS, ret_nsecs_target := max start t\<rparr>, e\<lparr>ze_sh := sh\<rparr>)
   }"

text \<open>
  A command is a union; \<open>zns_request\<close> has its three views. The host's memory is needed for the
  zone report, and \<open>junk\<close> is the uninitialised status of \<open>__zmgmt_send\<close>. The request is
  returned because an append stores the block it was given into the command.
\<close>

record zns_request =
  zq_rw :: nvmev_request
  zq_send :: nvme_zone_mgmt_send
  zq_recv :: nvme_zone_mgmt_recv

definition zns_proc_nvme_io_cmd ::
  "(nat \<Rightarrow> nat) \<Rightarrow> nat \<Rightarrow> zns_request \<Rightarrow> nvmev_result \<Rightarrow> zns_ns \<Rightarrow> zns_env \<Rightarrow> (nat \<Rightarrow> nat) \<Rightarrow>
   (bool \<times> zns_request \<times> nvmev_result \<times> zns_ns \<times> zns_env \<times> (nat \<Rightarrow> nat)) option" where
  "zns_proc_nvme_io_cmd clk junk req ret ns e mem = do {
     NVMEV_ASSERT (zn_csi ns = NVME_CSI_ZNS);
     NVMEV_ASSERT (zn_nr_parts ns = 1);
     let opcode = rw_opcode (req_cmd (zq_rw req));
     let start = req_nsecs_start (zq_rw req);
     let z = zn_ftl ns;
     if opcode = nvme_cmd_write \<or> opcode = nvme_cmd_zone_append then do {
       (ok, rw1, ret1, z1, e1) \<leftarrow> zns_write clk (zq_rw req) ret z e;
       Some (ok, req\<lparr>zq_rw := rw1\<rparr>, ret1, ns\<lparr>zn_ftl := z1\<rparr>, e1, mem)
     } else if opcode = nvme_cmd_read then do {
       (ok, ret1, z1, e1) \<leftarrow> zns_read clk (zq_rw req) ret z e;
       Some (ok, req, ret1, ns\<lparr>zn_ftl := z1\<rparr>, e1, mem)
     } else if opcode = nvme_cmd_flush then do {
       (ret1, e1) \<leftarrow> zns_flush clk ret ns e;
       Some (True, req, ret1, ns, e1, mem)
     } else if opcode = nvme_cmd_zone_mgmt_send then do {
       (ret1, z1) \<leftarrow> zns_zmgmt_send junk (zq_send req) start ret z;
       Some (True, req, ret1, ns\<lparr>zn_ftl := z1\<rparr>, e, mem)
     } else if opcode = nvme_cmd_zone_mgmt_recv then do {
       (ret1, z1, mem1) \<leftarrow> zns_zmgmt_recv (zq_recv req) start ret z mem;
       Some (True, req, ret1, ns\<lparr>zn_ftl := z1\<rparr>, e, mem1)
     } else do {
       nvme_opcode_string opcode;
       Some (True, req, ret, ns, e, mem)
     }
   }"

end
