(* ===== verification/Zns_Inv.thy ===== *)
theory Zns_Inv
  imports Zns_Rw
begin

text \<open>
  The invariant of the zoned device and zone management.

  \<^item> \<open>zns_geo\<close>: the geometry the addresses rely on; zones tile the namespace and no product of
    a zone number with the blocks of a zone wraps around.
  \<^item> \<open>zone_ok\<close>: the descriptor of a zone; the write pointer stays inside the zone, an empty
    zone has it at the start, an active zone is not full.
  \<^item> \<open>res_ok\<close>: the counters of open and active zones are the numbers of zones in these states.
  \<^item> \<open>zns_inv\<close> joins them. Each management operation is shown to be one update of a single
    zone's descriptor that keeps it.
\<close>

section \<open>Geometry\<close>

definition zone_lbas :: "zns_ftl \<Rightarrow> nat" where
  "zone_lbas z = zp_zone_size (z_zp z) div secsz (z_sp z)"

definition zone_pgs :: "zns_ftl \<Rightarrow> nat" where
  "zone_pgs z = zp_zone_size (z_zp z) div pgsz (z_sp z)"

definition zns_geo :: "zns_ftl \<Rightarrow> bool" where
  "zns_geo z \<longleftrightarrow> ssd_ok (z_ssd z) \<and> secsz (z_sp z) = 512 \<and> pgsz (z_sp z) = 512 * secs_per_pg (z_sp z) \<and>
     pgsz (z_sp z) dvd zp_zone_size (z_zp z) \<and> 0 < zp_zone_size (z_zp z) \<and>
     zp_nr_zones (z_zp z) * zone_lbas z + 65536 < 4294967296 \<and>
     0 < zp_dies_per_zone (z_zp z) \<and> zp_dies_per_zone (z_zp z) dvd tt_luns (z_sp z) \<and>
     0 < write_unit_size (z_sp z)"

lemma zns_geoD:
  assumes "zns_geo z"
  shows "ssd_ok (z_ssd z)" "geo_ok (z_sp z)" "secsz (z_sp z) = 512" "0 < zone_lbas z" "0 < zone_pgs z"
    "zone_lbas z = zone_pgs z * secs_per_pg (z_sp z)" "zp_nr_zones (z_zp z) * zone_lbas z < 4294967296"
    "zp_nr_zones (z_zp z) < 4294967296" "zp_nr_zones (z_zp z) * zone_lbas z + 65536 < 4294967296"
proof -
  show s: "ssd_ok (z_ssd z)" "secsz (z_sp z) = 512" "zp_nr_zones (z_zp z) * zone_lbas z < 4294967296"
    "zp_nr_zones (z_zp z) * zone_lbas z + 65536 < 4294967296"
    using assms unfolding zns_geo_def by (blast, blast, linarith, blast)
  show g: "geo_ok (z_sp z)" by (rule ssd_okD(1) [OF s(1)])
  obtain k where k: "zp_zone_size (z_zp z) = 512 * secs_per_pg (z_sp z) * k" "0 < k"
    using assms by (auto simp: zns_geo_def)
  show e: "zone_lbas z = zone_pgs z * secs_per_pg (z_sp z)" and p: "0 < zone_pgs z"
    using assms k geo_pos(9) [OF g] by (simp_all add: zone_lbas_def zone_pgs_def zns_geo_def)
  show l: "0 < zone_lbas z" using e p geo_pos(9) [OF g] by simp
  have "zp_nr_zones (z_zp z) * 1 \<le> zp_nr_zones (z_zp z) * zone_lbas z" using l by (intro mult_le_mono) auto
  then show "zp_nr_zones (z_zp z) < 4294967296" using s(3) by linarith
qed

text \<open>Inside the namespace the address helpers are plain divisions and products.\<close>

lemma zone_of_less:
  assumes "zns_geo z" "lba < zp_nr_zones (z_zp z) * zone_lbas z"
  shows "lba div zone_lbas z < zp_nr_zones (z_zp z)"
  using assms zns_geoD(4) [OF assms(1)] by (simp add: div_less_iff_less_mult)

lemma lba_to_zone_eq:
  assumes "zns_geo z" "lba < 4294967296"
  shows "lba_to_zone z lba = lba div zone_lbas z"
proof -
  have "lba div zone_lbas z \<le> lba" by simp
  then have "lba div zone_lbas z < 4294967296" using assms(2) by linarith
  then show ?thesis by (simp add: lba_to_zone_def zone_lbas_def [symmetric] u32_id)
qed

lemma zone_to_slba_eq:
  assumes "zns_geo z" "zid \<le> zp_nr_zones (z_zp z)"
  shows "zone_to_slba z zid = zid * zone_lbas z"
proof -
  have "zid * zone_lbas z \<le> zp_nr_zones (z_zp z) * zone_lbas z" using assms(2) by (rule mult_le_mono1)
  moreover have "zid < 4294967296" using assms(2) zns_geoD(8) [OF assms(1)] by linarith
  moreover have "zid * zone_lbas z < 4294967296" using calculation(1) zns_geoD(7) [OF assms(1)] by linarith
  ultimately show ?thesis by (simp add: zone_to_slba_def zone_lbas_def [symmetric] u32_id)
qed

lemma zone_to_elba_eq:
  assumes "zns_geo z" "zid < zp_nr_zones (z_zp z)"
  shows "zone_to_elba z zid = Suc zid * zone_lbas z - 1"
proof -
  let ?e = "Suc zid * zone_lbas z"
  have "1 \<le> ?e" using zns_geoD(4) [OF assms(1)] by simp
  moreover have "?e \<le> zp_nr_zones (z_zp z) * zone_lbas z"
    using assms(2) by (intro mult_le_mono1) simp
  then have "?e < 18446744073709551616" using zns_geoD(7) [OF assms(1)] by linarith
  ultimately have "u64_sub ?e 1 = ?e - 1" by (rule u64_sub_id)
  then show ?thesis using zone_to_slba_eq [OF assms(1), of "Suc zid"] assms(2) by (simp add: zone_to_elba_def)
qed

lemma lpn_to_zone_lba:
  assumes "zns_geo z"
  shows "lpn_to_zone z (lba_to_lpn z lba) = lba_to_zone z lba"
  using zns_geoD(6) [OF assms]
  by (simp add: lpn_to_zone_def lba_to_zone_def lba_to_lpn_def zone_lbas_def [symmetric] zone_pgs_def [symmetric]
      div_mult2_eq [symmetric] mult.commute)

lemma zone_unique:
  assumes "zid * l \<le> a" "a < Suc zid * l" shows "a div l = (zid :: nat)"
  using assms by (intro div_nat_eqI) (simp_all add: mult.commute)

section \<open>Zones and resources\<close>

definition is_active :: "zone_state \<Rightarrow> bool" where
  "is_active st \<longleftrightarrow> is_opened st \<or> st = ZONE_STATE_CLOSED"

lemma zone_state_kinds [simp]:
  "is_opened ZONE_STATE_OPENED_IMPL" "is_opened ZONE_STATE_OPENED_EXPL" "\<not> is_opened ZONE_STATE_EMPTY"
  "\<not> is_opened ZONE_STATE_CLOSED" "\<not> is_opened ZONE_STATE_FULL" "\<not> is_opened ZONE_STATE_READ_ONLY"
  "\<not> is_opened ZONE_STATE_OFFLINE" "is_active ZONE_STATE_OPENED_IMPL" "is_active ZONE_STATE_OPENED_EXPL"
  "is_active ZONE_STATE_CLOSED" "\<not> is_active ZONE_STATE_EMPTY" "\<not> is_active ZONE_STATE_FULL"
  "\<not> is_active ZONE_STATE_READ_ONLY" "\<not> is_active ZONE_STATE_OFFLINE"
  by (simp_all add: is_opened_def is_active_def)

definition zone_ok :: "nat \<Rightarrow> nat \<Rightarrow> zone_descriptor \<Rightarrow> bool" where
  "zone_ok l i d \<longleftrightarrow> zd_type d = ZONE_TYPE_SEQ_WRITE_REQUIRED \<and> zd_zslba d = i * l \<and> zd_zone_capacity d = l \<and> i * l \<le> zd_wp d \<and> zd_wp d \<le> Suc i * l \<and>
     (zd_state d = ZONE_STATE_EMPTY \<longrightarrow> zd_wp d = i * l \<and> \<not> zd_zrwav d) \<and>
     (is_active (zd_state d) \<longrightarrow> zd_wp d < Suc i * l)"

definition zcount :: "(zone_descriptor \<Rightarrow> bool) \<Rightarrow> zns_ftl \<Rightarrow> nat" where
  "zcount P z = length (filter P (z_descs z))"

definition opened_zone :: "zone_descriptor \<Rightarrow> bool" where
  "opened_zone d \<longleftrightarrow> is_opened (zd_state d)"
definition active_zone :: "zone_descriptor \<Rightarrow> bool" where
  "active_zone d \<longleftrightarrow> is_active (zd_state d)"
definition zrwa_zone :: "zone_descriptor \<Rightarrow> bool" where
  "zrwa_zone d \<longleftrightarrow> is_active (zd_state d) \<and> zd_zrwav d"

lemmas zone_kinds = opened_zone_def active_zone_def zrwa_zone_def

text \<open>Filling a ZRWA zone does not give its ZRWA resource back, hence the inequality.\<close>

definition res_ok :: "zns_ftl \<Rightarrow> bool" where
  "res_ok z \<longleftrightarrow> (\<forall>ty. total_cnt (z_res z ty) = zp_nr_zones (z_zp z)) \<and>
     acquired_cnt (z_res z OPEN_ZONE) = zcount opened_zone z \<and>
     acquired_cnt (z_res z ACTIVE_ZONE) = zcount active_zone z \<and>
     zcount zrwa_zone z \<le> acquired_cnt (z_res z ZRWA_ZONE) \<and>
     acquired_cnt (z_res z ZRWA_ZONE) \<le> zp_nr_zones (z_zp z)"

definition wbufs_ok :: "zns_ftl \<Rightarrow> bool" where
  "wbufs_ok z \<longleftrightarrow> length (z_wb z) = (if zp_zone_wb_size (z_zp z) \<noteq> 0 then zp_nr_zones (z_zp z) else 0) \<and>
     length (z_zrwa z) = (if zp_zrwa_buffer_size (z_zp z) \<noteq> 0 then zp_nr_zones (z_zp z) else 0) \<and>
     (\<forall>b\<in>set (z_wb z). buf_size b = zp_zone_wb_size (z_zp z)) \<and>
     length (z_report z) = sizeof_zone_report + sizeof_zone_descriptor * zp_nr_zones (z_zp z)"

definition zns_inv :: "zns_ftl \<Rightarrow> bool" where
  "zns_inv z \<longleftrightarrow> zns_geo z \<and> wbufs_ok z \<and> length (z_descs z) = zp_nr_zones (z_zp z) \<and>
     (\<forall>i<zp_nr_zones (z_zp z). zone_ok (zone_lbas z) i (z_descs z ! i)) \<and> res_ok z"

lemma zns_invD:
  assumes "zns_inv z"
  shows "zns_geo z" "wbufs_ok z" "length (z_descs z) = zp_nr_zones (z_zp z)" "res_ok z"
    "i < zp_nr_zones (z_zp z) \<Longrightarrow> zone_ok (zone_lbas z) i (z_descs z ! i)"
  using assms by (simp_all add: zns_inv_def)

lemma zcount_le: "zcount P z \<le> length (z_descs z)"
  by (simp add: zcount_def)

lemma zcount_pos:
  assumes "i < length (z_descs z)" "P (z_descs z ! i)" shows "0 < zcount P z"
  using assms by (auto simp: zcount_def filter_empty_conv)

lemma zcount_less:
  assumes "i < length (z_descs z)" "\<not> P (z_descs z ! i)" shows "zcount P z < length (z_descs z)"
  unfolding zcount_def using assms by (intro length_filter_less [OF nth_mem]) auto

text \<open>
  The states that an operation on one zone leads to: the zone's descriptor and the counters
  change, the storage, the ZRWA buffers and the report buffer may.
\<close>

definition zone_upd :: "nat \<Rightarrow> zone_descriptor \<Rightarrow> zns_ftl \<Rightarrow> zns_ftl \<Rightarrow> bool" where
  "zone_upd i d z z' \<longleftrightarrow> z_ssd z' = z_ssd z \<and> z_zp z' = z_zp z \<and> z_wb z' = z_wb z \<and> z_report z' = z_report z \<and>
     length (z_zrwa z') = length (z_zrwa z) \<and> z_descs z' = (z_descs z)[i := d] \<and>
     (\<forall>ty. total_cnt (z_res z' ty) = total_cnt (z_res z ty))"

definition moved_cnt :: "bool \<Rightarrow> bool \<Rightarrow> nat \<Rightarrow> nat \<Rightarrow> bool" where
  "moved_cnt before after a a' \<longleftrightarrow> a' + (if before then 1 else 0) = a + (if after then 1 else 0)"

lemma zcount_upd:
  assumes "i < length (z_descs z)" "zone_upd i d z z'"
  shows "moved_cnt (P (z_descs z ! i)) (P d) (zcount P z) (zcount P z')"
  using length_filter_upd [OF assms(1), of P d] assms(2) by (simp add: moved_cnt_def zcount_def zone_upd_def)

lemma zone_upd_inv:
  assumes inv: "zns_inv z" and i: "i < zp_nr_zones (z_zp z)" and u: "zone_upd i d z z'"
    and d: "zone_ok (zone_lbas z) i d"
    and o': "moved_cnt (opened_zone (z_descs z ! i)) (opened_zone d) (acquired_cnt (z_res z OPEN_ZONE)) (acquired_cnt (z_res z' OPEN_ZONE))"
    and a: "moved_cnt (active_zone (z_descs z ! i)) (active_zone d) (acquired_cnt (z_res z ACTIVE_ZONE)) (acquired_cnt (z_res z' ACTIVE_ZONE))"
    and r: "zcount zrwa_zone z' \<le> acquired_cnt (z_res z' ZRWA_ZONE)" "acquired_cnt (z_res z' ZRWA_ZONE) \<le> zp_nr_zones (z_zp z)"
  shows "zns_inv z'"
proof -
  note v = zns_invD [OF inv]
  have il: "i < length (z_descs z)" using i v(3) by simp
  have e: "z_ssd z' = z_ssd z" "z_zp z' = z_zp z" using u by (simp_all add: zone_upd_def)
  then have g: "zone_lbas z' = zone_lbas z" by (simp add: zone_lbas_def)
  have "zns_geo z'" using v(1) unfolding zns_geo_def e g .
  moreover have "wbufs_ok z'" using v(2) u by (simp add: zone_upd_def wbufs_ok_def)
  moreover
  have "res_ok z'"
    using v(4) u o' a r zcount_upd [OF il u, of opened_zone] zcount_upd [OF il u, of active_zone]
    by (simp add: res_ok_def moved_cnt_def zone_upd_def split: if_splits)
  moreover have "zone_ok (zone_lbas z) j (z_descs z' ! j)" if "j < zp_nr_zones (z_zp z)" for j
    using v(3) v(5) [OF that] u d that by (cases "j = i") (simp_all add: zone_upd_def)
  moreover have "length (z_descs z') = zp_nr_zones (z_zp z')" "z_zp z' = z_zp z"
    using u v(3) by (simp_all add: zone_upd_def)
  ultimately show ?thesis using g unfolding zns_inv_def by simp
qed

section \<open>Management operations\<close>

lemma upd_desc_eq: "zid < length (z_descs z) \<Longrightarrow> upd_desc zid f z = Some (z\<lparr>z_descs := (z_descs z)[zid := f (z_descs z ! zid)]\<rparr>)"
  by (simp add: upd_desc_def)

lemma set_acquired_sel [simp]:
  "z_ssd (set_acquired ty n z) = z_ssd z" "z_zp (set_acquired ty n z) = z_zp z" "z_wb (set_acquired ty n z) = z_wb z"
  "z_report (set_acquired ty n z) = z_report z" "z_zrwa (set_acquired ty n z) = z_zrwa z"
  "z_descs (set_acquired ty n z) = z_descs z" "z_storage (set_acquired ty n z) = z_storage z"
  "total_cnt (z_res (set_acquired ty n z) ty') = total_cnt (z_res z ty')"
  "acquired_cnt (z_res (set_acquired ty n z) ty') = (if ty' = ty then n else acquired_cnt (z_res z ty'))"
  by (simp_all add: set_acquired_def)

text \<open>The counters fit their type, and an opened, active or ZRWA zone has acquired its resource.\<close>

lemma res_facts:
  assumes "zns_inv z" "i < zp_nr_zones (z_zp z)"
  shows "acquired_cnt (z_res z ty) \<le> zp_nr_zones (z_zp z)" "acquired_cnt (z_res z ty) < 4294967296"
    "opened_zone (z_descs z ! i) \<Longrightarrow> 0 < acquired_cnt (z_res z OPEN_ZONE)"
    "active_zone (z_descs z ! i) \<Longrightarrow> 0 < acquired_cnt (z_res z ACTIVE_ZONE)"
    "zrwa_zone (z_descs z ! i) \<Longrightarrow> 0 < acquired_cnt (z_res z ZRWA_ZONE)"
    "\<not> opened_zone (z_descs z ! i) \<Longrightarrow> acquired_cnt (z_res z OPEN_ZONE) < zp_nr_zones (z_zp z)"
    "\<not> active_zone (z_descs z ! i) \<Longrightarrow> acquired_cnt (z_res z ACTIVE_ZONE) < zp_nr_zones (z_zp z)"
    "total_cnt (z_res z ty) = zp_nr_zones (z_zp z)"
proof -
  note v = zns_invD [OF assms(1)]
  have r: "acquired_cnt (z_res z OPEN_ZONE) = zcount opened_zone z" "acquired_cnt (z_res z ACTIVE_ZONE) = zcount active_zone z"
    "zcount zrwa_zone z \<le> acquired_cnt (z_res z ZRWA_ZONE)" "acquired_cnt (z_res z ZRWA_ZONE) \<le> zp_nr_zones (z_zp z)"
    "\<And>ty. total_cnt (z_res z ty) = zp_nr_zones (z_zp z)"
    using v(4) by (simp_all add: res_ok_def)
  have il: "i < length (z_descs z)" using assms(2) v(3) by simp
  show le: "acquired_cnt (z_res z ty) \<le> zp_nr_zones (z_zp z)"
    using r zcount_le [of _ z] v(3) by (cases ty) simp_all
  show "acquired_cnt (z_res z ty) < 4294967296" using le zns_geoD(8) [OF v(1)] by simp
  show "opened_zone (z_descs z ! i) \<Longrightarrow> 0 < acquired_cnt (z_res z OPEN_ZONE)"
    "active_zone (z_descs z ! i) \<Longrightarrow> 0 < acquired_cnt (z_res z ACTIVE_ZONE)"
    "\<not> opened_zone (z_descs z ! i) \<Longrightarrow> acquired_cnt (z_res z OPEN_ZONE) < zp_nr_zones (z_zp z)"
    "\<not> active_zone (z_descs z ! i) \<Longrightarrow> acquired_cnt (z_res z ACTIVE_ZONE) < zp_nr_zones (z_zp z)"
    using r(1,2) zcount_pos [OF il, of opened_zone] zcount_pos [OF il, of active_zone]
      zcount_less [OF il, of opened_zone] zcount_less [OF il, of active_zone] v(3) by simp_all
  show "zrwa_zone (z_descs z ! i) \<Longrightarrow> 0 < acquired_cnt (z_res z ZRWA_ZONE)"
    using r(3) zcount_pos [OF il, of zrwa_zone] by simp
  show "total_cnt (z_res z ty) = zp_nr_zones (z_zp z)" by (rule r(5))
qed

text \<open>
  An operation that changes one zone to \<open>d\<close>, moving the resources along, keeps the invariant.
  The ZRWA resource may be kept.
\<close>

lemma zone_move_inv:
  assumes inv: "zns_inv z" and i: "i < zp_nr_zones (z_zp z)" and u: "zone_upd i d z z'"
    and d: "zone_ok (zone_lbas z) i d"
    and o': "moved_cnt (opened_zone (z_descs z ! i)) (opened_zone d) (acquired_cnt (z_res z OPEN_ZONE)) (acquired_cnt (z_res z' OPEN_ZONE))"
    and a: "moved_cnt (active_zone (z_descs z ! i)) (active_zone d) (acquired_cnt (z_res z ACTIVE_ZONE)) (acquired_cnt (z_res z' ACTIVE_ZONE))"
    and r: "moved_cnt (zrwa_zone (z_descs z ! i)) (zrwa_zone d) (acquired_cnt (z_res z ZRWA_ZONE)) (acquired_cnt (z_res z' ZRWA_ZONE)) \<or>
      (zrwa_zone d \<longrightarrow> zrwa_zone (z_descs z ! i)) \<and> acquired_cnt (z_res z' ZRWA_ZONE) = acquired_cnt (z_res z ZRWA_ZONE)"
    and rf: "acquired_cnt (z_res z' ZRWA_ZONE) \<le> zp_nr_zones (z_zp z)"
  shows "zns_inv z'"
proof (rule zone_upd_inv [OF inv i u d o' a _ rf])
  have "i < length (z_descs z)" using i zns_invD(3) [OF inv] by simp
  from zcount_upd [OF this u, of zrwa_zone] r zns_invD(4) [OF inv]
  show "zcount zrwa_zone z' \<le> acquired_cnt (z_res z' ZRWA_ZONE)"
    by (auto simp: moved_cnt_def res_ok_def split: if_splits)
qed

text \<open>
  The state machine of a zone as the management commands define it: what the descriptor is
  after an action, or nothing where the transition is invalid.
\<close>

datatype zone_act = Close_zone | Finish_zone | Open_zone bool | Reset_zone | Offline_zone

fun zone_after :: "zone_act \<Rightarrow> zone_descriptor \<Rightarrow> zone_descriptor option" where
  "zone_after Close_zone d = (if is_active (zd_state d) then Some (d\<lparr>zd_state := ZONE_STATE_CLOSED\<rparr>) else None)"
| "zone_after Finish_zone d =
     (if zd_state d \<in> {ZONE_STATE_READ_ONLY, ZONE_STATE_OFFLINE} then None
      else Some (d\<lparr>zd_state := ZONE_STATE_FULL\<rparr>))"
| "zone_after (Open_zone zrwa) d =
     (if zd_state d = ZONE_STATE_EMPTY
      then Some (d\<lparr>zd_state := ZONE_STATE_OPENED_EXPL, zd_zrwav := (zrwa \<or> zd_zrwav d)\<rparr>)
      else if is_active (zd_state d) then Some (d\<lparr>zd_state := ZONE_STATE_OPENED_EXPL\<rparr>) else None)"
| "zone_after Reset_zone d =
     (if zd_state d \<in> {ZONE_STATE_READ_ONLY, ZONE_STATE_OFFLINE} then None
      else Some (d\<lparr>zd_state := ZONE_STATE_EMPTY, zd_wp := zd_zslba d, zd_zrwav := False\<rparr>))"
| "zone_after Offline_zone d =
     (if zd_state d \<in> {ZONE_STATE_READ_ONLY, ZONE_STATE_OFFLINE}
      then Some (d\<lparr>zd_state := ZONE_STATE_OFFLINE\<rparr>) else None)"

definition run_act :: "zone_act \<Rightarrow> nat \<Rightarrow> zns_ftl \<Rightarrow> (nat \<times> zns_ftl) option" where
  "run_act act zid z = (case act of
       Close_zone \<Rightarrow> zmgmt_send_close_zone zid z
     | Finish_zone \<Rightarrow> zmgmt_send_finish_zone zid z
     | Open_zone zrwa \<Rightarrow> zmgmt_send_open_zone zid zrwa z
     | Reset_zone \<Rightarrow> zmgmt_send_reset_zone zid z
     | Offline_zone \<Rightarrow> zmgmt_send_offline_zone zid z)"

text \<open>What an action that leads to descriptor \<open>d'\<close> does to the device.\<close>

definition acted :: "nat \<Rightarrow> zone_descriptor \<Rightarrow> zns_ftl \<Rightarrow> zns_ftl \<Rightarrow> bool" where
  "acted zid d' z z' \<longleftrightarrow> zns_inv z' \<and> zone_upd zid d' z z'"

lemma zone_ok_after:
  assumes "zone_ok l i d" "zone_after act d = Some d'" "0 < l" shows "zone_ok l i d'"
  using assms by (cases act) (auto simp: zone_ok_def is_active_def split: if_splits)

lemma state_id [simp]: "zd_state d = st \<Longrightarrow> d\<lparr>zd_state := st\<rparr> = d"
  by simp

lemma acted_refl: "zns_inv z \<Longrightarrow> zid < zp_nr_zones (z_zp z) \<Longrightarrow> acted zid (z_descs z ! zid) z z"
  by (simp add: acted_def zone_upd_def)

lemma release_zone_sel [simp]:
  "z_ssd (release_zone st v z) = z_ssd z" "z_zp (release_zone st v z) = z_zp z" "z_wb (release_zone st v z) = z_wb z"
  "z_report (release_zone st v z) = z_report z" "z_zrwa (release_zone st v z) = z_zrwa z"
  "z_descs (release_zone st v z) = z_descs z" "z_storage (release_zone st v z) = z_storage z"
  "total_cnt (z_res (release_zone st v z) ty) = total_cnt (z_res z ty)"
  by (simp_all add: release_zone_def release_zone_resource_def Let_def)

text \<open>Giving back what a zone holds takes it out of the counts.\<close>

lemma release_zone_cnt:
  assumes inv: "zns_inv z" and i: "zid < zp_nr_zones (z_zp z)" and d: "d = z_descs z ! zid"
  shows "moved_cnt (opened_zone d) False (acquired_cnt (z_res z OPEN_ZONE))
      (acquired_cnt (z_res (release_zone (zd_state d) (zd_zrwav d) z) OPEN_ZONE))"
    "moved_cnt (active_zone d) False (acquired_cnt (z_res z ACTIVE_ZONE))
      (acquired_cnt (z_res (release_zone (zd_state d) (zd_zrwav d) z) ACTIVE_ZONE))"
    "moved_cnt (zrwa_zone d) False (acquired_cnt (z_res z ZRWA_ZONE))
      (acquired_cnt (z_res (release_zone (zd_state d) (zd_zrwav d) z) ZRWA_ZONE))"
proof -
  note f = res_facts(2-5) [OF inv i, folded d]
  have r: "u32_sub (acquired_cnt (z_res z ty)) 1 + 1 = acquired_cnt (z_res z ty)" if "0 < acquired_cnt (z_res z ty)" for ty
    using u32_sub_id [OF _ f(1) [of ty], of 1] that by simp
  show "moved_cnt (opened_zone d) False (acquired_cnt (z_res z OPEN_ZONE))
      (acquired_cnt (z_res (release_zone (zd_state d) (zd_zrwav d) z) OPEN_ZONE))"
    using f(2) r [of OPEN_ZONE]
    by (auto simp: moved_cnt_def release_zone_def release_zone_resource_def zone_kinds is_active_def Let_def)
  show "moved_cnt (active_zone d) False (acquired_cnt (z_res z ACTIVE_ZONE))
      (acquired_cnt (z_res (release_zone (zd_state d) (zd_zrwav d) z) ACTIVE_ZONE))"
    using f(3) r [of ACTIVE_ZONE]
    by (auto simp: moved_cnt_def release_zone_def release_zone_resource_def zone_kinds is_active_def Let_def)
  show "moved_cnt (zrwa_zone d) False (acquired_cnt (z_res z ZRWA_ZONE))
      (acquired_cnt (z_res (release_zone (zd_state d) (zd_zrwav d) z) ZRWA_ZONE))"
    using f(4) r [of ZRWA_ZONE]
    by (auto simp: moved_cnt_def release_zone_def release_zone_resource_def zone_kinds is_active_def Let_def)
qed

lemma release_zone_acted:
  assumes inv: "zns_inv z" and i: "zid < zp_nr_zones (z_zp z)"
    and d': "zone_ok (zone_lbas z) zid d'" "\<not> is_active (zd_state d')" and u: "zone_upd zid d' z z'"
    and r: "z_res z' = z_res (release_zone (zd_state (z_descs z ! zid)) (zd_zrwav (z_descs z ! zid)) z)"
  shows "acted zid d' z z'"
proof -
  note c = release_zone_cnt [OF inv i refl, folded r]
  have n: "\<not> opened_zone d'" "\<not> active_zone d'" "\<not> zrwa_zone d'"
    using d'(2) by (auto simp: zone_kinds is_active_def)
  have "zns_inv z'"
    by (rule zone_move_inv [OF inv i u d'(1)])
      (use c n res_facts(1) [OF inv i, of ZRWA_ZONE] in \<open>auto simp: moved_cnt_def\<close>)
  then show ?thesis using u by (simp add: acted_def)
qed

lemma finish_zone_acted:
  assumes inv: "zns_inv z" and i: "zid < zp_nr_zones (z_zp z)"
  shows "case zone_after Finish_zone (z_descs z ! zid) of
      None \<Rightarrow> zmgmt_send_finish_zone zid z = Some (NVME_SC_ZNS_INVALID_TRANSITION, z)
    | Some d' \<Rightarrow> \<exists>z'. zmgmt_send_finish_zone zid z = Some (NVME_SC_SUCCESS, z') \<and> acted zid d' z z' \<and> z_storage z' = z_storage z"
proof -
  let ?d = "z_descs z ! zid" let ?d' = "?d\<lparr>zd_state := ZONE_STATE_FULL\<rparr>"
  let ?r = "release_zone (zd_state ?d) (zd_zrwav ?d) z"
  let ?z = "?r\<lparr>z_descs := (z_descs z)[zid := ?d']\<rparr>"
  have il: "zid < length (z_descs z)" using i zns_invD(3) [OF inv] by simp
  have a: "acted zid ?d' z ?z"
    by (rule release_zone_acted [OF inv i]) (use zns_invD(5) [OF inv i] in \<open>auto simp: zone_ok_def zone_upd_def\<close>)
  have s: "zmgmt_send_finish_zone zid z = Some (NVME_SC_SUCCESS, ?z)"
    if "is_opened (zd_state ?d) \<or> zd_state ?d = ZONE_STATE_CLOSED \<or> zd_state ?d = ZONE_STATE_EMPTY"
    using that il by (auto simp: zmgmt_send_finish_zone_def change_zone_state_def upd_desc_eq Let_def)
  show ?thesis
  proof (cases "zd_state ?d")
    case ZONE_STATE_FULL
    then show ?thesis using il acted_refl [OF inv i] by (auto simp: zmgmt_send_finish_zone_def)
  qed (use s a il in \<open>auto simp: zmgmt_send_finish_zone_def\<close>)
qed

lemma reset_zone_acted:
  assumes inv: "zns_inv z" and i: "zid < zp_nr_zones (z_zp z)"
  shows "case zone_after Reset_zone (z_descs z ! zid) of
      None \<Rightarrow> zmgmt_send_reset_zone zid z = Some (NVME_SC_ZNS_INVALID_TRANSITION, z)
    | Some d' \<Rightarrow> \<exists>z'. zmgmt_send_reset_zone zid z = Some (NVME_SC_SUCCESS, z') \<and> acted zid d' z z' \<and>
        z_storage z' = (\<lambda>a. if zid * zp_zone_size (z_zp z) \<le> a \<and> a < Suc zid * zp_zone_size (z_zp z) then 0 else z_storage z a)"
proof -
  let ?d = "z_descs z ! zid" let ?d' = "?d\<lparr>zd_state := ZONE_STATE_EMPTY, zd_wp := zd_zslba ?d, zd_zrwav := False\<rparr>"
  let ?r = "release_zone (zd_state ?d) (zd_zrwav ?d) z" and ?s = "zid * zp_zone_size (z_zp z)"
  have il: "zid < length (z_descs z)" using i zns_invD(3) [OF inv] by simp
  have zl: "zp_zrwa_buffer_size (z_zp z) \<noteq> 0 \<Longrightarrow> zid < length (z_zrwa z)" using i zns_invD(2) [OF inv] by (simp add: wbufs_ok_def)
  have ok: "zone_ok (zone_lbas z) zid ?d'" "\<not> is_active (zd_state ?d')"
    using zns_invD(5) [OF inv i] zns_geoD(4) [OF zns_invD(1) [OF inv]] by (auto simp: zone_ok_def)
  have s: "\<exists>z'. zmgmt_send_reset_zone zid z = Some (NVME_SC_SUCCESS, z') \<and> zone_upd zid ?d' z z' \<and> z_res z' = z_res ?r \<and>
      z_storage z' = (\<lambda>a. if ?s \<le> a \<and> a < ?s + zp_zone_size (z_zp z) then 0 else z_storage z a)"
    if "zd_state ?d \<notin> {ZONE_STATE_READ_ONLY, ZONE_STATE_OFFLINE}"
    using that il zl by (auto simp: zmgmt_send_reset_zone_def change_zone_state_def upd_desc_eq Let_def reset_zone_def
        get_storage_addr_from_zid_def zone_upd_def)
  show ?thesis
  proof (cases "zd_state ?d \<in> {ZONE_STATE_READ_ONLY, ZONE_STATE_OFFLINE}")
    case True
    then show ?thesis using il by (auto simp: zmgmt_send_reset_zone_def)
  next
    case False
    from s [OF False] obtain z' where "zmgmt_send_reset_zone zid z = Some (NVME_SC_SUCCESS, z')" "zone_upd zid ?d' z z'"
      "z_res z' = z_res ?r" "z_storage z' = (\<lambda>a. if ?s \<le> a \<and> a < ?s + zp_zone_size (z_zp z) then 0 else z_storage z a)" by blast
    then show ?thesis using release_zone_acted [OF inv i ok] False by (auto simp: add.commute)
  qed
qed

lemma close_zone_acted:
  assumes inv: "zns_inv z" and i: "zid < zp_nr_zones (z_zp z)"
  shows "case zone_after Close_zone (z_descs z ! zid) of
      None \<Rightarrow> zmgmt_send_close_zone zid z = Some (NVME_SC_ZNS_INVALID_TRANSITION, z)
    | Some d' \<Rightarrow> \<exists>z'. zmgmt_send_close_zone zid z = Some (NVME_SC_SUCCESS, z') \<and> acted zid d' z z' \<and> z_storage z' = z_storage z"
proof -
  let ?d = "z_descs z ! zid"
  have il: "zid < length (z_descs z)" using i zns_invD(3) [OF inv] by simp
  show ?thesis
  proof (cases "is_opened (zd_state ?d)")
    case True
    let ?d' = "?d\<lparr>zd_state := ZONE_STATE_CLOSED\<rparr>"
    let ?z = "release_zone_resource OPEN_ZONE (z\<lparr>z_descs := (z_descs z)[zid := ?d']\<rparr>)"
    have "0 < acquired_cnt (z_res z OPEN_ZONE)" "acquired_cnt (z_res z OPEN_ZONE) < 4294967296"
      using res_facts(2,3) [OF inv i] True by (simp_all add: opened_zone_def)
    then have o': "acquired_cnt (z_res ?z OPEN_ZONE) + 1 = acquired_cnt (z_res z OPEN_ZONE)"
      by (simp add: release_zone_resource_def u32_sub_id)
    have u: "zone_upd zid ?d' z ?z" by (simp add: zone_upd_def release_zone_resource_def)
    have "zns_inv ?z"
    proof (rule zone_move_inv [OF inv i u])
      show "zone_ok (zone_lbas z) zid ?d'" using zns_invD(5) [OF inv i] True by (auto simp: zone_ok_def is_active_def)
    qed (use True o' res_facts(1) [OF inv i] in
       \<open>auto simp: moved_cnt_def zone_kinds is_active_def release_zone_resource_def\<close>)
    then show ?thesis using True il u
      by (auto simp: zmgmt_send_close_zone_def change_zone_state_def upd_desc_eq is_active_def acted_def
          release_zone_resource_def)
  next
    case False
    then show ?thesis using acted_refl [OF inv i] il
      by (cases "zd_state ?d = ZONE_STATE_CLOSED") (auto simp: zmgmt_send_close_zone_def is_active_def)
  qed
qed

lemma acquire_avail:
  assumes "acquired_cnt (z_res z ty) < total_cnt (z_res z ty)" "acquired_cnt (z_res z ty) < 4294967295"
  shows "acquire_zone_resource ty z = (True, set_acquired ty (Suc (acquired_cnt (z_res z ty))) z)"
  using assms by (simp add: acquire_zone_resource_def is_zone_resource_avail_def u32_id)

text \<open>
  Taking resources for a zone that becomes open: \<open>a\<close>, \<open>o\<close> and \<open>r\<close> say which ones.
\<close>

definition take_res :: "bool \<Rightarrow> bool \<Rightarrow> bool \<Rightarrow> zns_ftl \<Rightarrow> (zone_resource_type \<Rightarrow> zone_resource_info)" where
  "take_res a o' r z = (\<lambda>ty. (z_res z ty)\<lparr>acquired_cnt := acquired_cnt (z_res z ty) +
     (if ty = ACTIVE_ZONE \<and> a \<or> ty = OPEN_ZONE \<and> o' \<or> ty = ZRWA_ZONE \<and> r then 1 else 0)\<rparr>)"

lemma take_res_acted:
  assumes inv: "zns_inv z" and i: "zid < zp_nr_zones (z_zp z)"
    and d': "zone_ok (zone_lbas z) zid d'" "is_opened (zd_state d')" and u: "zone_upd zid d' z z'"
    and r: "z_res z' = take_res (\<not> active_zone (z_descs z ! zid)) (\<not> opened_zone (z_descs z ! zid))
       (zd_zrwav d' \<and> \<not> zrwa_zone (z_descs z ! zid)) z"
    and v: "zrwa_zone (z_descs z ! zid) \<Longrightarrow> zd_zrwav d'"
      "zd_zrwav d' \<Longrightarrow> \<not> zrwa_zone (z_descs z ! zid) \<Longrightarrow> acquired_cnt (z_res z ZRWA_ZONE) < zp_nr_zones (z_zp z)"
  shows "acted zid d' z z'"
proof -
  have k: "opened_zone d'" "active_zone d'" "zrwa_zone d' = zd_zrwav d'" using d'(2) by (auto simp: zone_kinds is_active_def)
  have "zns_inv z'"
    by (rule zone_move_inv [OF inv i u d'(1)])
      (use k r v res_facts(1) [OF inv i, of ZRWA_ZONE] in \<open>auto simp: moved_cnt_def take_res_def\<close>)
  then show ?thesis using u by (simp add: acted_def)
qed

lemma open_zone_acted:
  assumes inv: "zns_inv z" and i: "zid < zp_nr_zones (z_zp z)"
    and zr: "zrwa \<Longrightarrow> acquired_cnt (z_res z ZRWA_ZONE) < zp_nr_zones (z_zp z)"
  shows "case zone_after (Open_zone zrwa) (z_descs z ! zid) of
      None \<Rightarrow> zmgmt_send_open_zone zid zrwa z = Some (NVME_SC_ZNS_INVALID_TRANSITION, z)
    | Some d' \<Rightarrow> \<exists>z'. zmgmt_send_open_zone zid zrwa z = Some (NVME_SC_SUCCESS, z') \<and> acted zid d' z z' \<and> z_storage z' = z_storage z"
proof -
  let ?d = "z_descs z ! zid"
  have il: "zid < length (z_descs z)" using i zns_invD(3) [OF inv] by simp
  note f = res_facts [OF inv i] and ok = zns_invD(5) [OF inv i]
  have b: "zp_nr_zones (z_zp z) < 4294967296" by (rule zns_geoD(8) [OF zns_invD(1) [OF inv]])
  have pos: "0 < zone_lbas z" by (rule zns_geoD(4) [OF zns_invD(1) [OF inv]])
  have main: ?thesis if d': "zone_after (Open_zone zrwa) ?d = Some d'"
    and s: "\<exists>z'. zmgmt_send_open_zone zid zrwa z = Some (NVME_SC_SUCCESS, z') \<and> zone_upd zid d' z z' \<and> z_storage z' = z_storage z \<and>
      z_res z' = take_res (\<not> active_zone ?d) (\<not> opened_zone ?d) (zd_zrwav d' \<and> \<not> zrwa_zone ?d) z" for d'
  proof -
    have "is_opened (zd_state d')" "zrwa_zone ?d \<Longrightarrow> zd_zrwav d'"
      "zd_zrwav d' \<Longrightarrow> \<not> zrwa_zone ?d \<Longrightarrow> acquired_cnt (z_res z ZRWA_ZONE) < zp_nr_zones (z_zp z)"
      using d' ok zr by (auto simp: zone_kinds zone_ok_def split: if_splits)
    then show ?thesis using s d' take_res_acted [OF inv i zone_ok_after [OF ok d' pos]] by auto
  qed
  show ?thesis
  proof (cases "zd_state ?d")
    case ZONE_STATE_EMPTY
    then have a: "acquired_cnt (z_res z ACTIVE_ZONE) < zp_nr_zones (z_zp z)" "acquired_cnt (z_res z OPEN_ZONE) < zp_nr_zones (z_zp z)"
      using f(6,7) by (simp_all add: zone_kinds)
    have nv: "\<not> zd_zrwav ?d" using ok ZONE_STATE_EMPTY by (simp add: zone_ok_def)
    then have e: "?d\<lparr>zd_state := ZONE_STATE_OPENED_EXPL, zd_zrwav := False\<rparr> = ?d\<lparr>zd_state := ZONE_STATE_OPENED_EXPL\<rparr>"
      "?d\<lparr>zd_zrwav := True, zd_state := ZONE_STATE_OPENED_EXPL\<rparr> = ?d\<lparr>zd_state := ZONE_STATE_OPENED_EXPL, zd_zrwav := True\<rparr>"
      by simp_all
    show ?thesis
      by (intro main) (use nv ZONE_STATE_EMPTY a f(8) zr b il in \<open>auto simp: e zmgmt_send_open_zone_def is_zone_resource_full_def
         acquire_avail upd_desc_eq open_closed_zone_def change_zone_state_def zone_upd_def take_res_def zone_kinds fun_eq_iff set_acquired_def\<close>)
  next
    case ZONE_STATE_CLOSED
    then have a: "acquired_cnt (z_res z OPEN_ZONE) < zp_nr_zones (z_zp z)" using f(6) by (simp add: zone_kinds)
    show ?thesis
      by (intro main) (use ZONE_STATE_CLOSED a f(8) b il in \<open>auto simp: zmgmt_send_open_zone_def acquire_avail upd_desc_eq
         open_closed_zone_def change_zone_state_def zone_upd_def take_res_def zone_kinds fun_eq_iff set_acquired_def\<close>)
  next
    case ZONE_STATE_OPENED_IMPL
    then show ?thesis
      by (intro main) (use il in \<open>auto simp: zmgmt_send_open_zone_def upd_desc_eq change_zone_state_def zone_upd_def take_res_def zone_kinds fun_eq_iff\<close>)
  qed (use il acted_refl [OF inv i] in \<open>auto simp: zmgmt_send_open_zone_def\<close>)
qed

lemma offline_zone_acted:
  assumes inv: "zns_inv z" and i: "zid < zp_nr_zones (z_zp z)"
  shows "case zone_after Offline_zone (z_descs z ! zid) of
      None \<Rightarrow> zmgmt_send_offline_zone zid z = Some (NVME_SC_ZNS_INVALID_TRANSITION, z)
    | Some d' \<Rightarrow> \<exists>z'. zmgmt_send_offline_zone zid z = Some (NVME_SC_SUCCESS, z') \<and> acted zid d' z z' \<and> z_storage z' = z_storage z"
proof -
  let ?d = "z_descs z ! zid" let ?d' = "?d\<lparr>zd_state := ZONE_STATE_OFFLINE\<rparr>"
  let ?z = "z\<lparr>z_descs := (z_descs z)[zid := ?d']\<rparr>"
  have il: "zid < length (z_descs z)" using i zns_invD(3) [OF inv] by simp
  show ?thesis
  proof (cases "zd_state ?d")
    case ZONE_STATE_READ_ONLY
    have "acted zid ?d' z ?z"
      by (rule release_zone_acted [OF inv i]) (use zns_invD(5) [OF inv i] ZONE_STATE_READ_ONLY in
          \<open>auto simp: zone_ok_def zone_upd_def release_zone_def\<close>)
    then show ?thesis using ZONE_STATE_READ_ONLY il
      by (auto simp: zmgmt_send_offline_zone_def change_zone_state_def upd_desc_eq)
  qed (use il acted_refl [OF inv i] in \<open>auto simp: zmgmt_send_offline_zone_def\<close>)
qed

end
