(* ===== verification/Zns_Write.thy ===== *)
theory Zns_Write
  imports Zns_Inv
begin

text \<open>
  Writes, appends and reads of the zoned device on states of the invariant: the address of a
  logical page is a page of the device, the NAND timing returns, and a write either changes
  nothing but the buffer and reports the error that \<open>write_status\<close> names, or moves the write
  pointer of its zone.
\<close>

section \<open>Addresses and timing\<close>

lemma tt_luns_le: assumes "geo_ok sp" shows "tt_luns sp \<le> 65536"
proof -
  have "luns_per_ch sp * nchs sp \<le> 256 * 256" using geo_le(1,2) [OF assms] by (intro mult_le_mono)
  then show ?thesis using geo_eqs(6) [OF assms] by simp
qed

lemma die_less:
  assumes "zns_geo z" and that: "zone < 4294967296"
  shows "u64 (zone * zp_dies_per_zone (z_zp z)) mod tt_luns (z_sp z) + k mod zp_dies_per_zone (z_zp z) < tt_luns (z_sp z)"
proof -
  let ?d = "zp_dies_per_zone (z_zp z)" and ?t = "tt_luns (z_sp z)"
  note g = zns_geoD(2) [OF assms(1)]
  have d: "0 < ?d" "?d dvd ?t" using assms(1) by (auto simp: zns_geo_def)
  have t: "0 < ?t" using geo_eqs(6) [OF g] geo_pos(1,2) [OF g] by simp
  have "?d \<le> 65536" using dvd_imp_le [OF d(2) t] tt_luns_le [OF g] by simp
  then have "zone * ?d \<le> 4294967296 * 65536" using that by (intro mult_le_mono) auto
  then have u: "u64 (zone * ?d) = zone * ?d" by (simp add: u64_id)
  obtain m where m: "?t = ?d * m" using d(2) by blast
  have "zone * ?d mod ?t = ?d * (zone mod m)" unfolding m by (simp add: mult.commute mult_mod_right)
  moreover have "zone mod m < m" using t m by simp
  then have "?d * (zone mod m) + ?d \<le> ?d * m" by (metis add.commute less_eq_Suc_le mult_Suc_right mult_le_mono2)
  moreover have "k mod ?d < ?d" using d(1) by simp
  ultimately show ?thesis unfolding u m by linarith
qed

lemma lpn_to_ppa_real:
  assumes "zns_geo z" shows "real_ppa (z_sp z) (lpn_to_ppa z lpn)"
proof -
  let ?sp = "z_sp z" and ?zone = "lpn_to_zone z lpn" let ?off = "u64_sub lpn (zone_to_slpn z ?zone)"
  let ?sd = "u64 (?zone * zp_dies_per_zone (z_zp z)) mod tt_luns ?sp"
  let ?k = "(?off div pgs_per_oneshotpg ?sp) mod zp_dies_per_zone (z_zp z)"
  note g = zns_geoD(2) [OF assms]
  have "?zone < 4294967296" by (simp add: lpn_to_zone_def)
  from die_less [OF assms this, of "?off div pgs_per_oneshotpg ?sp"] have die: "?sd + ?k < tt_luns ?sp" .
  note tl = geo_eqs(6) [OF g] tt_luns_le [OF g]
  then have b: "?sd < 4294967296" "?sd + ?k < 4294967296" using die by linarith+
  have "(?sd + ?k) div nchs ?sp < luns_per_ch ?sp"
    using die tl(1) geo_pos(1) [OF g] by (simp add: div_less_iff_less_mult)
  moreover have "(?sd + ?k) mod nchs ?sp < nchs ?sp" using geo_pos(1) [OF g] by simp
  moreover have "?off mod pgs_per_oneshotpg ?sp < pgs_per_blk ?sp"
  proof -
    have "pgs_per_oneshotpg ?sp * 1 \<le> pgs_per_oneshotpg ?sp * oneshotpgs_per_blk ?sp"
      using geo_pos(6) [OF g] by (intro mult_le_mono) auto
    then show ?thesis using mod_less_divisor [OF geo_pos(4) [OF g], of ?off] geo_eqs(3) [OF g] by linarith
  qed
  ultimately show ?thesis
    using geo_le [OF g] geo_pos(3) [OF g] geo_eqs(1) [OF g] b
    by (simp add: lpn_to_ppa_def Let_def die_to_channel_def die_to_lun_def real_ppa_def valid_ppa_iff mk_ppa_def
        ppa_bits_defs u32_id)
qed

lemma addr_ssd [simp]:
  assumes "ssd_sp s = z_sp z"
  shows "lpn_to_ppa (z\<lparr>z_ssd := s\<rparr>) = lpn_to_ppa z"
  using assms by (simp add: lpn_to_ppa_def lpn_to_zone_def zone_to_slpn_def die_to_channel_def die_to_lun_def fun_eq_iff)

text \<open>What a sequence of NAND operations may change.\<close>

definition zns_timing :: "zns_ftl \<Rightarrow> zns_env \<Rightarrow> zns_ftl \<Rightarrow> zns_env \<Rightarrow> bool" where
  "zns_timing z e z' e' \<longleftrightarrow> (\<exists>s. z' = z\<lparr>z_ssd := s\<rparr> \<and> ssd_ok s \<and> ssd_sp s = z_sp z) \<and> sh_timing (ze_sh e) (ze_sh e')"

lemma zns_timing_refl: "zns_geo z \<Longrightarrow> shared_ok (ze_sh e) \<Longrightarrow> zns_timing z e z e"
  by (auto simp: zns_timing_def sh_timing_def zns_geo_def intro: exI [of _ "z_ssd z"])

lemma zns_timing_trans: "zns_timing z e z' e' \<Longrightarrow> zns_timing z' e' z'' e'' \<Longrightarrow> zns_timing z e z'' e''"
  by (auto simp: zns_timing_def sh_timing_def)

lemma zns_timing_geo:
  assumes "zns_timing z e z' e'" "zns_geo z" shows "zns_geo z'" "lpn_to_ppa z' = lpn_to_ppa z" "z_sp z' = z_sp z" "z_zp z' = z_zp z"
    "zone_lbas z' = zone_lbas z"
proof -
  obtain s where s: "z' = z\<lparr>z_ssd := s\<rparr>" "ssd_ok s" "ssd_sp s = z_sp z" using assms(1) by (auto simp: zns_timing_def)
  have sel: "z_ssd z' = s" "z_zp z' = z_zp z" using s(1) by simp_all
  then show l: "zone_lbas z' = zone_lbas z" using s(3) by (simp add: zone_lbas_def)
  show "zns_geo z'" using assms(2) s(2) unfolding zns_geo_def l sel s(3) by blast
  show "lpn_to_ppa z' = lpn_to_ppa z" "z_sp z' = z_sp z" "z_zp z' = z_zp z" using s by simp_all
qed

lemma zns_timing_inv:
  assumes "zns_timing z e z' e'" "zns_inv z" shows "zns_inv z'" "z_descs z' = z_descs z" "z_storage z' = z_storage z"
    "z_wb z' = z_wb z" "z_zrwa z' = z_zrwa z" "z_report z' = z_report z" "z_res z' = z_res z"
proof -
  note g = zns_timing_geo [OF assms(1) zns_invD(1) [OF assms(2)]]
  obtain s where s: "z' = z\<lparr>z_ssd := s\<rparr>" using assms(1) by (auto simp: zns_timing_def)
  then show sel: "z_descs z' = z_descs z" "z_storage z' = z_storage z" "z_wb z' = z_wb z" "z_zrwa z' = z_zrwa z"
    "z_report z' = z_report z" "z_res z' = z_res z" by simp_all
  have "wbufs_ok z'" "res_ok z'" using zns_invD(2,4) [OF assms(2)] sel g(4) by (simp_all add: wbufs_ok_def res_ok_def zcount_def)
  then show "zns_inv z'" using assms(2) g(1) sel(1) g(4,5) unfolding zns_inv_def by simp
qed

lemma zns_nand_returns:
  assumes "zns_geo z" "shared_ok (ze_sh e)" "nc_ppa cmd = lpn_to_ppa z lpn"
    "nc_cmd cmd = NAND_READ \<Longrightarrow> nc_xfer_size cmd \<noteq> 0"
  shows "\<exists>t z' e'. zns_nand clk cmd z e = Some (t, z', e') \<and> zns_timing z e z' e' \<and> ze_sched e' = ze_sched e"
proof -
  have "real_ppa (z_sp z) (nc_ppa cmd)" using lpn_to_ppa_real [OF assms(1)] assms(3) by simp
  from ssd_advance_nand_returns [OF zns_geoD(1) [OF assms(1)] assms(2) this assms(4), of clk]
  show ?thesis by (auto simp: zns_nand_def zns_timing_def same_nand_def)
qed

section \<open>Pieces\<close>

declare page_chunks.simps [simp del]

text \<open>The pieces cover the pages in order, each page once, and no piece crosses a unit.\<close>

lemma page_chunks_cover:
  "0 < u \<Longrightarrow> concat (map (\<lambda>(l, n). [l..<l + n]) (page_chunks pg u lpn elpn)) = [lpn..<Suc elpn]"
proof (induction pg u lpn elpn rule: page_chunks.induct)
  case (1 pg u lpn elpn)
  show ?case
  proof (cases "lpn \<le> elpn")
    case True
    let ?n = "min (elpn - lpn + 1) (u - pg lpn mod u)"
    have "concat (map (\<lambda>(l, n). [l..<l + n]) (page_chunks pg u (lpn + ?n) elpn)) = [lpn + ?n..<Suc elpn]"
      using 1 True by simp
    moreover have "[lpn..<lpn + ?n] @ [lpn + ?n..<Suc elpn] = [lpn..<Suc elpn]"
    proof -
      have "lpn + ?n \<le> Suc elpn" using True by simp
      then obtain k where "Suc elpn = lpn + ?n + k" using le_Suc_ex by blast
      then show ?thesis using upt_add_eq_append [of lpn "lpn + ?n" k] by simp
    qed
    ultimately show ?thesis using True 1(2) by (subst page_chunks.simps) (simp add: Let_def)
  next
    case False
    then show ?thesis by (subst page_chunks.simps) simp
  qed
qed

lemma page_chunks_pos: "(l, n) \<in> set (page_chunks pg u lpn elpn) \<Longrightarrow> 0 < n \<and> lpn \<le> l \<and> l + n \<le> Suc elpn \<and> n \<le> u - pg l mod u"
proof (induction pg u lpn elpn rule: page_chunks.induct)
  case (1 pg u lpn elpn)
  show ?case
  proof (cases "lpn \<le> elpn \<and> 0 < u")
    case True
    let ?n = "min (elpn - lpn + 1) (u - pg lpn mod u)"
    have "pg lpn mod u < u" using True by simp
    moreover have "(l, n) = (lpn, ?n) \<or> (l, n) \<in> set (page_chunks pg u (lpn + ?n) elpn)"
      using 1(2) True by (subst (asm) page_chunks.simps) (simp add: Let_def)
    ultimately show ?thesis using 1(1) [OF True refl] True by auto
  next
    case False
    then show ?thesis using 1(2) by (subst (asm) page_chunks.simps) auto
  qed
qed

section \<open>The write buffer\<close>

definition wbuf_at :: "zns_ftl \<Rightarrow> zns_env \<Rightarrow> nat \<Rightarrow> buffer" where
  "wbuf_at z e zid = (if zp_zone_wb_size (z_zp z) \<noteq> 0 then z_wb z ! zid else sh_wbuf (ze_sh e))"

text \<open>What an allocation may change: the buffer's free space.\<close>

definition wb_taken :: "nat \<Rightarrow> nat \<Rightarrow> zns_ftl \<Rightarrow> zns_env \<Rightarrow> zns_ftl \<Rightarrow> zns_env \<Rightarrow> bool" where
  "wb_taken zid n z e z' e' \<longleftrightarrow> (\<exists>w. z' = z\<lparr>z_wb := w\<rparr>) \<and> zns_inv z' \<and> shared_ok (ze_sh e') \<and> ze_sched e' = ze_sched e \<and>
     buf_size (sh_wbuf (ze_sh e')) = buf_size (sh_wbuf (ze_sh e)) \<and>
     buf_size (wbuf_at z' e' zid) = buf_size (wbuf_at z e zid) \<and>
     buf_remaining (wbuf_at z e zid) = buf_remaining (wbuf_at z' e' zid) + n"

lemma alloc_wbuf_ok:
  assumes inv: "zns_inv z" and e: "shared_ok (ze_sh e)" and i: "zid < zp_nr_zones (z_zp z)"
    and n: "n \<le> buf_size (wbuf_at z e zid)" "n < 4294967296"
  shows "\<exists>z' e'. alloc_wbuf (write_buffer_of z zid) n z e =
      Some (if n \<le> buf_remaining (wbuf_at z e zid) then n else 0, z', e') \<and>
     wb_taken zid (if n \<le> buf_remaining (wbuf_at z e zid) then n else 0) z e z' e'"
proof -
  let ?b = "wbuf_at z e zid" and ?m = "if n \<le> buf_remaining (wbuf_at z e zid) then n else 0"
  let ?b' = "?b\<lparr>buf_remaining := buf_remaining ?b - ?m\<rparr>"
  have al: "buffer_allocate ?b n = Some (?m, ?b')" using n by (simp add: buffer_allocate_def u32_id)
  note v = zns_invD [OF inv]
  show ?thesis
  proof (cases "zp_zone_wb_size (z_zp z) \<noteq> 0")
    case True
    then have l: "zid < length (z_wb z)" using i v(2) by (simp add: wbufs_ok_def)
    let ?z = "z\<lparr>z_wb := (z_wb z)[zid := ?b']\<rparr>"
    have b: "?b = z_wb z ! zid" using True by (simp add: wbuf_at_def)
    have "wbufs_ok ?z" using v(2) l b unfolding wbufs_ok_def
      by (auto dest!: set_update_subset_insert [THEN subsetD])
    moreover have "zns_geo ?z = zns_geo z" "zone_lbas ?z = zone_lbas z" "res_ok ?z = res_ok z"
      by (simp_all add: zns_geo_def zone_lbas_def res_ok_def zcount_def)
    ultimately have "zns_inv ?z" using inv unfolding zns_inv_def by simp
    moreover have "\<exists>w. ?z = z\<lparr>z_wb := w\<rparr>" by blast
    moreover have "wbuf_at ?z e zid = ?b'" using True l by (simp add: wbuf_at_def)
    ultimately have "wb_taken zid ?m z e ?z e" using e unfolding wb_taken_def by simp
    moreover have "alloc_wbuf (write_buffer_of z zid) n z e = Some (?m, ?z, e)"
      using True l al b by (simp add: alloc_wbuf_def write_buffer_of_def get_wbuf_def put_wbuf_def)
    ultimately show ?thesis by blast
  next
    case False
    let ?e = "e\<lparr>ze_sh := (ze_sh e)\<lparr>sh_wbuf := ?b'\<rparr>\<rparr>"
    have b: "?b = sh_wbuf (ze_sh e)" using False by (simp add: wbuf_at_def)
    have "shared_ok (ze_sh ?e)" using e b by (auto simp: shared_ok_def buffer_ok_def)
    then have "wb_taken zid ?m z e z ?e" using False inv b by (auto simp: wb_taken_def wbuf_at_def intro: exI [of _ "z_wb z"])
    moreover have "alloc_wbuf (write_buffer_of z zid) n z e = Some (?m, z, ?e)"
      using False al b by (simp add: alloc_wbuf_def write_buffer_of_def get_wbuf_def put_wbuf_def)
    ultimately show ?thesis by blast
  qed
qed

section \<open>Entering a zone and moving its write pointer\<close>

definition writable :: "zone_state \<Rightarrow> bool" where
  "writable st \<longleftrightarrow> st \<notin> {ZONE_STATE_FULL, ZONE_STATE_READ_ONLY, ZONE_STATE_OFFLINE}"

text \<open>
  The status that a write of \<open>n\<close> blocks at \<open>slba\<close> into zone \<open>zid\<close> reports: the checks in the order
  of the specification. There are as many open and active resources as zones, so a write never
  fails for lack of them.
\<close>

definition state_status :: "zone_state \<Rightarrow> nat" where
  "state_status st = (case st of ZONE_STATE_FULL \<Rightarrow> NVME_SC_ZNS_ERR_FULL | ZONE_STATE_READ_ONLY \<Rightarrow> NVME_SC_ZNS_ERR_READ_ONLY
     | ZONE_STATE_OFFLINE \<Rightarrow> NVME_SC_ZNS_ERR_OFFLINE | _ \<Rightarrow> NVME_SC_SUCCESS)"

definition write_status :: "zns_ftl \<Rightarrow> nat \<Rightarrow> nat \<Rightarrow> nat \<Rightarrow> nat" where
  "write_status z zid slba n =
     (let d = z_descs z ! zid
      in if n * 512 mod write_unit_size (z_sp z) \<noteq> 0 then NVME_SC_ZNS_INVALID_WRITE
         else if slba div zone_lbas z \<noteq> (slba + n - 1) div zone_lbas z then NVME_SC_ZNS_ERR_BOUNDARY
         else if slba \<noteq> zd_wp d then NVME_SC_ZNS_INVALID_WRITE
         else state_status (zd_state d))"

lemma state_status_ok: "state_status st = NVME_SC_SUCCESS \<longleftrightarrow> writable st"
  by (cases st) (simp_all add: state_status_def writable_def zns_codes)

definition entered :: "zone_descriptor \<Rightarrow> zone_descriptor" where
  "entered d = d\<lparr>zd_state := (if is_opened (zd_state d) then zd_state d else ZONE_STATE_OPENED_IMPL)\<rparr>"

lemma enter_zone_acted:
  assumes inv: "zns_inv z" and i: "zid < zp_nr_zones (z_zp z)" and wp: "slba = zd_wp (z_descs z ! zid)"
  shows "if writable (zd_state (z_descs z ! zid))
    then \<exists>z'. enter_zone zid slba z = Some (NVME_SC_SUCCESS, z') \<and> acted zid (entered (z_descs z ! zid)) z z' \<and> z_storage z' = z_storage z
    else enter_zone zid slba z = Some (state_status (zd_state (z_descs z ! zid)), z)"
proof -
  let ?d = "z_descs z ! zid" let ?d' = "?d\<lparr>zd_state := ZONE_STATE_OPENED_IMPL\<rparr>"
  have il: "zid < length (z_descs z)" using i zns_invD(3) [OF inv] by simp
  note f = res_facts [OF inv i] and ok = zns_invD(5) [OF inv i]
  have b: "zp_nr_zones (z_zp z) < 4294967296" "0 < zone_lbas z" using zns_geoD(4,8) [OF zns_invD(1) [OF inv]] by simp_all
  have main: "\<exists>z'. enter_zone zid slba z = Some (NVME_SC_SUCCESS, z') \<and> acted zid ?d' z z' \<and> z_storage z' = z_storage z"
    if st: "zd_state ?d = ZONE_STATE_EMPTY \<or> zd_state ?d = ZONE_STATE_CLOSED"
    and s: "\<exists>z'. enter_zone zid slba z = Some (NVME_SC_SUCCESS, z') \<and> zone_upd zid ?d' z z' \<and> z_storage z' = z_storage z \<and>
      z_res z' = take_res (\<not> active_zone ?d) (\<not> opened_zone ?d) (zd_zrwav ?d' \<and> \<not> zrwa_zone ?d) z"
  proof -
    have "zone_ok (zone_lbas z) zid ?d'" using ok st b(2) by (auto simp: zone_ok_def)
    moreover have "zd_zrwav ?d' \<Longrightarrow> zrwa_zone ?d" using st ok by (auto simp: zone_ok_def zone_kinds)
    ultimately show ?thesis using s take_res_acted [OF inv i, of ?d'] by (auto simp: zrwa_zone_def)
  qed
  show ?thesis
  proof (cases "zd_state ?d")
    case ZONE_STATE_EMPTY
    then have a: "acquired_cnt (z_res z ACTIVE_ZONE) < zp_nr_zones (z_zp z)" "acquired_cnt (z_res z OPEN_ZONE) < zp_nr_zones (z_zp z)"
      using f(6,7) by (simp_all add: zone_kinds)
    have "slba = zd_zslba ?d" "\<not> zd_zrwav ?d" using ok ZONE_STATE_EMPTY wp by (simp_all add: zone_ok_def)
    then have "\<exists>z'. enter_zone zid slba z = Some (NVME_SC_SUCCESS, z') \<and> acted zid ?d' z z' \<and> z_storage z' = z_storage z"
      by (intro main) (use ZONE_STATE_EMPTY a f(8) b il in \<open>auto simp: enter_zone_def is_zone_resource_full_def acquire_avail upd_desc_eq
         open_impl_zone_def change_zone_state_def zone_upd_def take_res_def zone_kinds fun_eq_iff set_acquired_def\<close>)
    then show ?thesis using ZONE_STATE_EMPTY by (simp add: writable_def entered_def)
  next
    case ZONE_STATE_CLOSED
    then have a: "acquired_cnt (z_res z OPEN_ZONE) < zp_nr_zones (z_zp z)" using f(6) by (simp add: zone_kinds)
    have "\<exists>z'. enter_zone zid slba z = Some (NVME_SC_SUCCESS, z') \<and> acted zid ?d' z z' \<and> z_storage z' = z_storage z"
      by (intro main) (use ZONE_STATE_CLOSED a f(8) b il in \<open>auto simp: enter_zone_def acquire_avail upd_desc_eq
         open_impl_zone_def change_zone_state_def zone_upd_def take_res_def zone_kinds fun_eq_iff set_acquired_def\<close>)
    then show ?thesis using ZONE_STATE_CLOSED by (simp add: writable_def entered_def)
  qed (use il acted_refl [OF inv i] in \<open>auto simp: enter_zone_def writable_def state_status_def entered_def\<close>)
qed

text \<open>The descriptor after \<open>n\<close> more blocks have been written.\<close>

definition advanced :: "nat \<Rightarrow> zone_descriptor \<Rightarrow> zone_descriptor" where
  "advanced n d = d\<lparr>zd_wp := zd_wp d + n,
     zd_state := (if zd_wp d + n = zd_zslba d + zd_zone_capacity d then ZONE_STATE_FULL else zd_state d)\<rparr>"

lemma increase_write_ptr_acted:
  assumes inv: "zns_inv z" and i: "zid < zp_nr_zones (z_zp z)" and o': "is_opened (zd_state (z_descs z ! zid))"
    and n: "zd_wp (z_descs z ! zid) + n \<le> Suc zid * zone_lbas z"
  shows "\<exists>z'. increase_write_ptr zid n z = Some z' \<and> acted zid (advanced n (z_descs z ! zid)) z z' \<and> z_storage z' = z_storage z"
proof -
  let ?d = "z_descs z ! zid" let ?d' = "advanced n ?d"
  have il: "zid < length (z_descs z)" using i zns_invD(3) [OF inv] by simp
  note g = zns_invD(1) [OF inv] and ok = zns_invD(5) [OF inv i] and f = res_facts [OF inv i]
  have "Suc zid * zone_lbas z \<le> zp_nr_zones (z_zp z) * zone_lbas z" using i by (intro mult_le_mono1) simp
  then have b: "Suc zid * zone_lbas z < 4294967296" using zns_geoD(7) [OF g] by linarith
  have "n < 4294967296" using n b by linarith
  then have un: "u32 n = n" by (rule u32_id)
  have w: "u64 (zd_wp ?d + u32 n) = zd_wp ?d + n" "u64 (zone_to_slba z zid + zd_zone_capacity ?d) = zd_zslba ?d + zd_zone_capacity ?d"
    "zd_zslba ?d + zd_zone_capacity ?d = Suc zid * zone_lbas z"
    using n b ok zone_to_slba_eq [OF g, of zid] i un by (auto simp: zone_ok_def u64_id)
  have ok': "zone_ok (zone_lbas z) zid ?d'" using ok n w(3) o' by (auto simp: zone_ok_def advanced_def)
  have r: "u32_sub (acquired_cnt (z_res z ty)) 1 + 1 = acquired_cnt (z_res z ty)" if "0 < acquired_cnt (z_res z ty)" for ty
    using u32_sub_id [OF _ f(2) [of ty], of 1] that by simp
  show ?thesis
  proof (cases "zd_wp ?d + n = zd_zslba ?d + zd_zone_capacity ?d")
    case True
    let ?z = "(release_zone_resource ACTIVE_ZONE (release_zone_resource OPEN_ZONE z))\<lparr>z_descs := (z_descs z)[zid := ?d']\<rparr>"
    have u: "zone_upd zid ?d' z ?z" by (simp add: zone_upd_def release_zone_resource_def)
    have st: "zd_state ?d' = ZONE_STATE_FULL" using True by (simp add: advanced_def)
    have "zns_inv ?z"
      by (rule zone_move_inv [OF inv i u ok']) (use st o' f(1) [of ZRWA_ZONE] f(3,4) r [of OPEN_ZONE] r [of ACTIVE_ZONE] in
         \<open>auto simp: moved_cnt_def zone_kinds is_active_def release_zone_resource_def\<close>)
    moreover have "\<exists>z'. increase_write_ptr zid n z = Some z' \<and> z_ssd z' = z_ssd z \<and> z' = ?z"
      using True il w(1,2) by (simp add: increase_write_ptr_def upd_desc_eq change_zone_state_def release_zone_resource_def
          set_acquired_def advanced_def Let_def)
    ultimately show ?thesis using u by (auto simp: acted_def release_zone_resource_def)
  next
    case False
    let ?z = "z\<lparr>z_descs := (z_descs z)[zid := ?d']\<rparr>"
    have u: "zone_upd zid ?d' z ?z" by (simp add: zone_upd_def)
    have st: "zd_state ?d' = zd_state ?d" "zd_zrwav ?d' = zd_zrwav ?d" using False by (simp_all add: advanced_def)
    have "zns_inv ?z"
      by (rule zone_move_inv [OF inv i u ok']) (use st f(1) [of ZRWA_ZONE] in \<open>auto simp: moved_cnt_def zone_kinds\<close>)
    moreover have "?d' = ?d\<lparr>zd_wp := zd_wp ?d + n\<rparr>" using False by (simp add: advanced_def)
    then have "increase_write_ptr zid n z = Some ?z" using False il w(1,2) by (simp add: increase_write_ptr_def upd_desc_eq Let_def)
    ultimately show ?thesis using u by (auto simp: acted_def)
  qed
qed

section \<open>The write loop\<close>

lemma write_chunk_returns:
  assumes "zns_geo z" "shared_ok (ze_sh e)"
  shows "\<exists>t z' e'. write_chunk clk sqid wb ze x c (t0, z, e) = Some (t, z', e') \<and> t0 \<le> t \<and> zns_timing z e z' e'"
proof -
  obtain lpn pgs where c: "c = (lpn, pgs)" by (cases c)
  let ?cmd = "\<lparr>nc_type = USER_IO, nc_cmd = NAND_WRITE, nc_xfer_size = pgs_per_oneshotpg (z_sp z) * pgsz (z_sp z),
     nc_stime = x, nc_interleave_pci_dma = False, nc_ppa = lpn_to_ppa z lpn\<rparr>"
  obtain t z' e' where "zns_nand clk ?cmd z e = Some (t, z', e')" "zns_timing z e z' e'"
    using zns_nand_returns [OF assms, of ?cmd lpn clk] by auto
  then show ?thesis using zns_timing_refl [OF assms]
    by (auto simp: c write_chunk_def Let_def schedule_release_def zns_timing_def)
qed

lemma chunks_return:
  fixes t0 :: nat
  assumes "zns_geo z" "shared_ok (ze_sh e)"
    and step: "\<And>c (t0 :: nat) z e. c \<in> set cs \<Longrightarrow> zns_geo z \<Longrightarrow> shared_ok (ze_sh e) \<Longrightarrow>
      \<exists>t z' e'. f c (t0, z, e) = Some (t, z', e') \<and> t0 \<le> t \<and> zns_timing z e z' e'"
  shows "\<exists>t z' e'. foldM f cs (t0, z, e) = Some (t, z', e') \<and> t0 \<le> t \<and> zns_timing z e z' e'"
proof -
  have "\<exists>s'. foldM f cs (t0, z, e) = Some s' \<and> (case s' of (t, z', e') \<Rightarrow> t0 \<le> t \<and> zns_timing z e z' e')"
  proof (rule foldM_total)
    show "case (t0, z, e) of (t, z', e') \<Rightarrow> t0 \<le> t \<and> zns_timing z e z' e'" using zns_timing_refl [OF assms(1,2)] by simp
    fix ys c zs s' assume cs: "cs = ys @ c # zs" and P: "case s' of (t, z', e') \<Rightarrow> t0 \<le> t \<and> zns_timing z e z' e'"
    obtain t1 z1 e1 where s': "s' = (t1, z1, e1)" by (cases s')
    have "zns_geo z1" "shared_ok (ze_sh e1)" using P s' zns_timing_geo(1) [OF _ assms(1)] by (auto simp: zns_timing_def sh_timing_def)
    from step [OF _ this, of c t1] cs obtain t z' e' where "f c (t1, z1, e1) = Some (t, z', e')" "t1 \<le> t" "zns_timing z1 e1 z' e'" by auto
    then show "\<exists>s''. f c s' = Some s'' \<and> (case s'' of (t, z', e') \<Rightarrow> t0 \<le> t \<and> zns_timing z e z' e')"
      using P s' zns_timing_trans by fastforce
  qed
  then show ?thesis by auto
qed

section \<open>The whole write\<close>

text \<open>The first block of a write: an append starts at the write pointer of the zone it names.\<close>

definition write_slba :: "zns_ftl \<Rightarrow> nvme_rw_command \<Rightarrow> nat" where
  "write_slba z c = (if rw_opcode c = nvme_cmd_zone_append then zd_wp (z_descs z ! (rw_slba c div zone_lbas z)) else rw_slba c)"

definition write_bytes :: "nvme_rw_command \<Rightarrow> nat" where
  "write_bytes c = (rw_length c + 1) * 512"

lemma boundary_eq:
  assumes "zns_geo z" "slba \<le> zp_nr_zones (z_zp z) * zone_lbas z" "0 < n" "n \<le> 65536"
  shows "check_boundary_error z slba n \<longleftrightarrow> slba div zone_lbas z = (slba + n - 1) div zone_lbas z"
    "u64_sub (u64 (slba + n)) 1 = slba + n - 1"
proof -
  have b: "slba + n < 4294967296" using zns_geoD(9) [OF assms(1)] assms(2,4) by linarith
  then show e: "u64_sub (u64 (slba + n)) 1 = slba + n - 1" using assms(3) by (simp add: u64_id u64_sub_id)
  have "lba_to_zone z slba = slba div zone_lbas z" "lba_to_zone z (slba + n - 1) = (slba + n - 1) div zone_lbas z"
    using b by (intro lba_to_zone_eq [OF assms(1)]; simp)+
  then show "check_boundary_error z slba n \<longleftrightarrow> slba div zone_lbas z = (slba + n - 1) div zone_lbas z"
    unfolding check_boundary_error_def e by simp
qed

text \<open>
  A write that passes the checks fits into its zone.
\<close>

lemma write_fits:
  assumes "zns_inv z" "zid < zp_nr_zones (z_zp z)" "slba = zd_wp (z_descs z ! zid)" "writable (zd_state (z_descs z ! zid))"
    "slba div zone_lbas z = (slba + n - 1) div zone_lbas z" "0 < n"
  shows "slba + n \<le> Suc zid * zone_lbas z"
proof -
  let ?l = "zone_lbas z"
  have l: "0 < ?l" by (rule zns_geoD(4) [OF zns_invD(1) [OF assms(1)]])
  have "zid * ?l \<le> slba" "slba < Suc zid * ?l"
    using zns_invD(5) [OF assms(1,2)] assms(3,4) l
    by (cases "zd_state (z_descs z ! zid)"; auto simp: zone_ok_def writable_def)+
  then have "slba div ?l = zid" by (rule zone_unique)
  with assms(5) have "(slba + n - 1) div ?l = zid" by simp
  moreover have "slba + n - 1 < Suc ((slba + n - 1) div ?l) * ?l"
    using dividend_less_div_times [OF l, of "slba + n - 1"] by simp
  ultimately have "slba + n - 1 < Suc zid * ?l" by simp
  then show ?thesis using assms(6) by linarith
qed

definition write_result :: "zns_ftl \<Rightarrow> nvme_rw_command \<Rightarrow> nat \<Rightarrow> nat \<Rightarrow> nvmev_result \<Rightarrow> nvmev_result" where
  "write_result z c status t ret = (if rw_opcode c = nvme_cmd_zone_append then ret\<lparr>ret_result := write_slba z c\<rparr> else ret)
     \<lparr>ret_status := status, ret_nsecs_target := t\<rparr>"

lemma zone_upd_trans: "zone_upd i d z z' \<Longrightarrow> zone_upd i d' z' z'' \<Longrightarrow> zone_upd i d' z z''"
  by (simp add: zone_upd_def)

lemma write_blocks:
  assumes "rw_length c < 65536"
  shows "nr_lbas_from_rw_cmd c = rw_length c + 1" "LBA_TO_BYTE (nr_lbas_from_rw_cmd c) = write_bytes c"
    "write_bytes c \<le> 33554432" "0 < write_bytes c"
  using assms by (simp_all add: nr_lbas_from_rw_cmd_def u32_id LBA_TO_BYTE_def u64_id write_bytes_def)

text \<open>What a write that is not refused for lack of buffer space does.\<close>

definition wrote :: "nat \<Rightarrow> nvme_rw_command \<Rightarrow> zns_ftl \<Rightarrow> zns_ftl \<Rightarrow> bool" where
  "wrote zid c z z' \<longleftrightarrow> zns_inv z' \<and> z_zp z' = z_zp z \<and> z_sp z' = z_sp z \<and> z_storage z' = z_storage z \<and> z_descs z' =
     (if write_status z zid (write_slba z c) (rw_length c + 1) = NVME_SC_SUCCESS
      then (z_descs z)[zid := advanced (rw_length c + 1) (entered (z_descs z ! zid))] else z_descs z)"

lemma write_zone_success:
  assumes inv: "zns_inv z" and e: "shared_ok (ze_sh e)" and i: "zid < zp_nr_zones (z_zp z)"
    and slba: "slba = zd_wp (z_descs z ! zid)" "writable (zd_state (z_descs z ! zid))"
    and n: "0 < n" "slba div zone_lbas z = (slba + n - 1) div zone_lbas z"
  shows "\<exists>z2 z3 x e2 t z4 e3. enter_zone zid slba z = Some (NVME_SC_SUCCESS, z2) \<and> increase_write_ptr zid n z2 = Some z3 \<and>
     zns_write_buffer clk t0 len z3 e = Some (x, e2) \<and>
     foldM (write_chunk clk sqid wb ze x) cs (x, z3, e2) = Some (t, z4, e3) \<and> x \<le> t \<and>
     zns_inv z4 \<and> shared_ok (ze_sh e3) \<and> sh_wbuf (ze_sh e3) = sh_wbuf (ze_sh e) \<and> z_zp z4 = z_zp z \<and> z_sp z4 = z_sp z \<and> z_storage z4 = z_storage z \<and> z_wb z4 = z_wb z \<and>
     z_descs z4 = (z_descs z)[zid := advanced n (entered (z_descs z ! zid))]"
proof -
  let ?d = "z_descs z ! zid"
  have il: "zid < length (z_descs z)" using i zns_invD(3) [OF inv] by simp
  obtain z2 where z2: "enter_zone zid slba z = Some (NVME_SC_SUCCESS, z2)" "acted zid (entered ?d) z z2" "z_storage z2 = z_storage z"
    using enter_zone_acted [OF inv i slba(1)] slba(2) by auto
  have u2: "zns_inv z2" "z_zp z2 = z_zp z" "z_ssd z2 = z_ssd z" "z_descs z2 ! zid = entered ?d" "zone_lbas z2 = zone_lbas z"
    using z2(2) il by (simp_all add: acted_def zone_upd_def zone_lbas_def)
  have "is_opened (zd_state (z_descs z2 ! zid))" "zd_wp (z_descs z2 ! zid) = slba" using u2(4) slba(1) by (simp_all add: entered_def)
  with write_fits [OF inv i slba n(2,1)] obtain z3 where z3: "increase_write_ptr zid n z2 = Some z3"
    "acted zid (advanced n (entered ?d)) z2 z3" "z_storage z3 = z_storage z"
    using increase_write_ptr_acted [OF u2(1), of zid n] i u2(2,4,5) z2(3) by auto
  have u3: "zns_inv z3" "zone_upd zid (advanced n (entered ?d)) z z3"
    using z2(2) z3(2) zone_upd_trans by (auto simp: acted_def)
  obtain x sh where x: "ssd_advance_write_buffer clk (z_sp z3) (ze_sh e) t0 len = Some (x, sh)" "sh_timing (ze_sh e) sh"
    using ssd_advance_write_buffer_returns [OF e] by blast
  let ?e2 = "e\<lparr>ze_sh := sh\<rparr>"
  have sh: "shared_ok (ze_sh ?e2)" using x(2) by (simp add: sh_timing_def)
  obtain t z4 e3 where l: "foldM (write_chunk clk sqid wb ze x) cs (x, z3, ?e2) = Some (t, z4, e3)" "x \<le> t" "zns_timing z3 ?e2 z4 e3"
    using chunks_return [OF zns_invD(1) [OF u3(1)] sh, of cs "write_chunk clk sqid wb ze x" x] write_chunk_returns by blast
  have "zns_inv z4" "z_descs z4 = z_descs z3" "z_wb z4 = z_wb z3" "z_storage z4 = z_storage z3" "z_zp z4 = z_zp z3" "z_sp z4 = z_sp z3" "shared_ok (ze_sh e3)" "sh_wbuf (ze_sh e3) = sh_wbuf sh"
    using zns_timing_inv [OF l(3) u3(1)] zns_timing_geo [OF l(3) zns_invD(1) [OF u3(1)]] l(3) by (auto simp: zns_timing_def sh_timing_def)
  moreover have "zns_write_buffer clk t0 len z3 e = Some (x, ?e2)" using x(1) by (simp add: zns_write_buffer_def)
  moreover have "z_descs z3 = (z_descs z)[zid := advanced n (entered ?d)]" "z_zp z3 = z_zp z" "z_sp z3 = z_sp z" "z_wb z3 = z_wb z"
    using u3(2) by (simp_all add: zone_upd_def)
  moreover have "sh_wbuf sh = sh_wbuf (ze_sh e)" using x(2) by (simp add: sh_timing_def)
  ultimately show ?thesis using z2(1) z3(1,3) l(1,2) by auto
qed

lemma zns_write_zone_unfold:
  assumes inv: "zns_inv z" and i: "zid < zp_nr_zones (z_zp z)" and zid: "zid = rw_slba (req_cmd req) div zone_lbas z"
    and rng: "rw_slba (req_cmd req) < 4294967296" and len: "rw_length (req_cmd req) < 65536"
    and al: "alloc_wbuf (write_buffer_of z zid) (write_bytes (req_cmd req)) z e = Some (got, z1, e1)"
    and sl: "slba = write_slba z (req_cmd req)" and n: "n = rw_length (req_cmd req) + 1"
    and rq: "req1 = req\<lparr>req_cmd := (req_cmd req)\<lparr>rw_slba := slba\<rparr>\<rparr>"
  shows "got < write_bytes (req_cmd req) \<Longrightarrow>
      \<exists>ret'. zns_write_zone clk req ret z e = Some (False, req1, ret', z1, e1)"
    "got = write_bytes (req_cmd req) \<Longrightarrow> write_status z zid slba n \<noteq> NVME_SC_SUCCESS \<Longrightarrow> z_descs z1 = z_descs z \<Longrightarrow>
      enter_zone zid slba z1 = Some (state_status (zd_state (z_descs z ! zid)), z1) \<or> \<not> (slba = zd_wp (z_descs z ! zid)) \<or>
        write_status z zid slba n \<noteq> state_status (zd_state (z_descs z ! zid)) \<Longrightarrow>
      \<exists>t. zns_write_zone clk req ret z e = Some (True, req1, write_result z (req_cmd req) (write_status z zid slba n) t ret, z1, e1)"
    "got = write_bytes (req_cmd req) \<Longrightarrow> write_status z zid slba n = NVME_SC_SUCCESS \<Longrightarrow>
      enter_zone zid slba z1 = Some (NVME_SC_SUCCESS, z2) \<Longrightarrow> increase_write_ptr zid n z2 = Some z3 \<Longrightarrow>
      zns_write_buffer clk (req_nsecs_start req) (write_bytes (req_cmd req)) z3 e1 = Some (x, e2) \<Longrightarrow>
      foldM (write_chunk clk (req_sq_id req) (write_buffer_of z zid) (zone_to_elpn z zid) x)
        (page_chunks (\<lambda>l. g_pg (lpn_to_ppa z l)) (pgs_per_oneshotpg (z_sp z)) (lba_to_lpn z slba) (lba_to_lpn z (slba + n - 1)))
        (x, z3, e2) = Some (t, z4, e3) \<Longrightarrow>
      \<exists>t. zns_write_zone clk req ret z e = Some (True, req1, write_result z (req_cmd req) NVME_SC_SUCCESS t ret, z4, e3)"
proof -
  let ?c = "req_cmd req" and ?d = "z_descs z ! zid"
  note g = zns_invD(1) [OF inv]
  have il: "zid < length (z_descs z)" using i zns_invD(3) [OF inv] by simp
  have zi: "lba_to_zone z (rw_slba ?c) = zid" using lba_to_zone_eq [OF g rng] zid by simp
  have sb: "slba \<le> zp_nr_zones (z_zp z) * zone_lbas z" if "rw_opcode ?c = nvme_cmd_zone_append"
  proof -
    have "slba \<le> Suc zid * zone_lbas z" using that sl zid zns_invD(5) [OF inv i] by (simp add: write_slba_def zone_ok_def)
    also have "\<dots> \<le> zp_nr_zones (z_zp z) * zone_lbas z" using i by (intro mult_le_mono1) simp
    finally show ?thesis .
  qed
  have "rw_slba ?c \<le> zp_nr_zones (z_zp z) * zone_lbas z"
    using i zid zns_geoD(4) [OF g] by (simp add: div_less_iff_less_mult)
  then have sb: "slba \<le> zp_nr_zones (z_zp z) * zone_lbas z" using sb sl by (auto simp: write_slba_def split: if_splits)
  note bd = boundary_eq [OF g sb, of n] and wb = write_blocks [OF len]
  have n': "0 < n" "n \<le> 65536" using n len by simp_all
  have pos: "write_unit_size (z_sp z) \<noteq> 0" "pgs_per_oneshotpg (z_sp z) \<noteq> 0" using g geo_pos(4) [OF zns_geoD(2) [OF g]] by (auto simp: zns_geo_def)
  have sl': "(if rw_opcode ?c = nvme_cmd_zone_append then zd_wp ?d else rw_slba ?c) = slba" using sl zid by (simp add: write_slba_def)
  have wn: "nr_lbas_from_rw_cmd ?c = n" "LBA_TO_BYTE n = write_bytes ?c" using wb(1,2) n by simp_all
  have sel: "req_nsecs_start (req\<lparr>req_cmd := a\<rparr>) = req_nsecs_start req" "req_sq_id (req\<lparr>req_cmd := a\<rparr>) = req_sq_id req" for a by simp_all
  let ?ret = "if rw_opcode ?c = nvme_cmd_zone_append then ret\<lparr>ret_result := slba\<rparr> else ret"
  let ?out = "\<lambda>st t x. write_out (z_sp z) (?c\<lparr>rw_slba := slba\<rparr>) st t x ?ret"
  have eq: "zns_write_zone clk req ret z e =
    (if got < write_bytes ?c then Some (False, req1, ?ret, z1, e1)
     else if write_bytes ?c mod write_unit_size (z_sp z) \<noteq> 0
       then Some (True, req1, ?out NVME_SC_ZNS_INVALID_WRITE (req_nsecs_start req) (req_nsecs_start req), z1, e1)
     else if \<not> slba div zone_lbas z = (slba + n - 1) div zone_lbas z
       then Some (True, req1, ?out NVME_SC_ZNS_ERR_BOUNDARY (req_nsecs_start req) (req_nsecs_start req), z1, e1)
     else if slba \<noteq> zd_wp ?d
       then Some (True, req1, ?out NVME_SC_ZNS_INVALID_WRITE (req_nsecs_start req) (req_nsecs_start req), z1, e1)
     else do {
       (status, z2) \<leftarrow> enter_zone zid slba z1;
       if status \<noteq> NVME_SC_SUCCESS then Some (True, req1, ?out status (req_nsecs_start req) (req_nsecs_start req), z2, e1)
       else do {
         z3 \<leftarrow> increase_write_ptr zid n z2;
         (x, e2) \<leftarrow> zns_write_buffer clk (req_nsecs_start req) (write_bytes ?c) z3 e1;
         (t, z4, e3) \<leftarrow> foldM (write_chunk clk (req_sq_id req) (write_buffer_of z zid) (zone_to_elpn z zid) x)
            (page_chunks (\<lambda>l. g_pg (lpn_to_ppa z l)) (pgs_per_oneshotpg (z_sp z)) (lba_to_lpn z slba) (lba_to_lpn z (slba + n - 1))) (x, z3, e2);
         Some (True, req1, ?out NVME_SC_SUCCESS t x, z4, e3)
       }
     })"
    by (simp only: zns_write_zone_def Let_def zi rd_in [OF il] Option.bind.simps sl' rq wn al prod.case bd [OF n']
        bind_NVMEV_ASSERT pos sel simp_thms if_True if_False)
  have bytes: "write_bytes ?c = n * 512" using n by (simp add: write_bytes_def)
  show "got < write_bytes ?c \<Longrightarrow> \<exists>ret'. zns_write_zone clk req ret z e = Some (False, req1, ret', z1, e1)"
    by (simp add: eq)
  show "\<exists>t. zns_write_zone clk req ret z e = Some (True, req1, write_result z ?c (write_status z zid slba n) t ret, z1, e1)"
    if "got = write_bytes ?c" "write_status z zid slba n \<noteq> NVME_SC_SUCCESS" "z_descs z1 = z_descs z"
      "enter_zone zid slba z1 = Some (state_status (zd_state ?d), z1) \<or> \<not> (slba = zd_wp ?d) \<or>
        write_status z zid slba n \<noteq> state_status (zd_state ?d)"
    using that unfolding write_result_def sl [symmetric]
    by (auto simp: eq write_out_def write_status_def bytes Let_def)
  show "\<exists>t. zns_write_zone clk req ret z e = Some (True, req1, write_result z ?c NVME_SC_SUCCESS t ret, z4, e3)"
    if "got = write_bytes ?c" "write_status z zid slba n = NVME_SC_SUCCESS" "enter_zone zid slba z1 = Some (NVME_SC_SUCCESS, z2)"
      "increase_write_ptr zid n z2 = Some z3"
      "zns_write_buffer clk (req_nsecs_start req) (write_bytes ?c) z3 e1 = Some (x, e2)"
      "foldM (write_chunk clk (req_sq_id req) (write_buffer_of z zid) (zone_to_elpn z zid) x)
        (page_chunks (\<lambda>l. g_pg (lpn_to_ppa z l)) (pgs_per_oneshotpg (z_sp z)) (lba_to_lpn z slba) (lba_to_lpn z (slba + n - 1)))
        (x, z3, e2) = Some (t, z4, e3)"
    using that unfolding write_result_def sl [symmetric]
    by (auto simp: eq write_out_def write_status_def bytes zns_codes Let_def split: if_splits)
qed

text \<open>A write to a zone without a random write area, with and without room in the buffer.\<close>

lemma zns_write_zone_ok:
  assumes inv: "zns_inv z" and e: "shared_ok (ze_sh e)" and len: "rw_length (req_cmd req) < 65536"
    and rng: "rw_slba (req_cmd req) < zp_nr_zones (z_zp z) * zone_lbas z" and zid: "zid = rw_slba (req_cmd req) div zone_lbas z"
    and room: "write_bytes (req_cmd req) \<le> buf_size (wbuf_at z e zid)"
    and sl: "slba = write_slba z (req_cmd req)" and rq: "req1 = req\<lparr>req_cmd := (req_cmd req)\<lparr>rw_slba := slba\<rparr>\<rparr>"
  shows "write_bytes (req_cmd req) \<le> buf_remaining (wbuf_at z e zid) \<Longrightarrow>
      \<exists>t z' e'. zns_write_zone clk req ret z e =
         Some (True, req1, write_result z (req_cmd req) (write_status z zid slba (rw_length (req_cmd req) + 1)) t ret, z', e') \<and>
        wrote zid (req_cmd req) z z' \<and> shared_ok (ze_sh e') \<and> buf_size (sh_wbuf (ze_sh e')) = buf_size (sh_wbuf (ze_sh e)) \<and>
        buf_remaining (wbuf_at z e zid) = buf_remaining (wbuf_at z' e' zid) + write_bytes (req_cmd req) \<and>
        (write_status z zid slba (rw_length (req_cmd req) + 1) \<noteq> NVME_SC_SUCCESS \<longrightarrow> ze_sched e' = ze_sched e)"
    "buf_remaining (wbuf_at z e zid) < write_bytes (req_cmd req) \<Longrightarrow>
      \<exists>ret' z' e'. zns_write_zone clk req ret z e = Some (False, req1, ret', z', e') \<and> wb_taken zid 0 z e z' e'"
proof -
  let ?c = "req_cmd req" let ?n = "rw_length ?c + 1"
  note g = zns_invD(1) [OF inv]
  have i: "zid < zp_nr_zones (z_zp z)" using zone_of_less [OF g rng] zid by simp
  have b: "write_bytes ?c < 4294967296" "0 < write_bytes ?c" using write_blocks(3,4) [OF len] by simp_all
  have r32: "rw_slba ?c < 4294967296" using rng zns_geoD(7) [OF g] by linarith
  obtain z1 e1 where al: "alloc_wbuf (write_buffer_of z zid) (write_bytes ?c) z e =
      Some (if write_bytes ?c \<le> buf_remaining (wbuf_at z e zid) then write_bytes ?c else 0, z1, e1)"
     "wb_taken zid (if write_bytes ?c \<le> buf_remaining (wbuf_at z e zid) then write_bytes ?c else 0) z e z1 e1"
    using alloc_wbuf_ok [OF inv e i room b(1)] by blast
  note un = zns_write_zone_unfold [OF inv i zid r32 len _ sl refl rq]
  show "\<exists>ret' z' e'. zns_write_zone clk req ret z e = Some (False, req1, ret', z', e') \<and> wb_taken zid 0 z e z' e'"
    if "buf_remaining (wbuf_at z e zid) < write_bytes ?c"
    using un(1) [of e 0 z1 e1 clk ret] al that b(2) by auto
  assume "write_bytes ?c \<le> buf_remaining (wbuf_at z e zid)"
  then have al': "alloc_wbuf (write_buffer_of z zid) (write_bytes ?c) z e = Some (write_bytes ?c, z1, e1)"
    and w: "wb_taken zid (write_bytes ?c) z e z1 e1" using al by simp_all
  obtain w' where z1: "z1 = z\<lparr>z_wb := w'\<rparr>" "zns_inv z1" "shared_ok (ze_sh e1)"
    "buf_size (sh_wbuf (ze_sh e1)) = buf_size (sh_wbuf (ze_sh e))" "ze_sched e1 = ze_sched e"
    "buf_remaining (wbuf_at z e zid) = buf_remaining (wbuf_at z1 e1 zid) + write_bytes ?c" using w by (auto simp: wb_taken_def)
  have sel: "z_descs z1 = z_descs z" "z_zp z1 = z_zp z" "z_sp z1 = z_sp z" "z_storage z1 = z_storage z" "zone_lbas z1 = zone_lbas z"
    using z1(1) by (simp_all add: zone_lbas_def)
  let ?d = "z_descs z ! zid" and ?st = "write_status z zid slba ?n"
  show "\<exists>t z' e'. zns_write_zone clk req ret z e = Some (True, req1, write_result z ?c ?st t ret, z', e') \<and>
        wrote zid ?c z z' \<and> shared_ok (ze_sh e') \<and> buf_size (sh_wbuf (ze_sh e')) = buf_size (sh_wbuf (ze_sh e)) \<and>
        buf_remaining (wbuf_at z e zid) = buf_remaining (wbuf_at z' e' zid) + write_bytes ?c \<and> (?st \<noteq> NVME_SC_SUCCESS \<longrightarrow> ze_sched e' = ze_sched e)"
  proof (cases "?st = NVME_SC_SUCCESS")
    case True
    then have h: "slba = zd_wp ?d" "slba div zone_lbas z = (slba + ?n - 1) div zone_lbas z" "writable (zd_state ?d)"
      by (auto simp: write_status_def Let_def zns_codes state_status_ok [symmetric] split: if_splits)
    obtain z2 z3 x e2 t z4 e3 where s: "enter_zone zid slba z1 = Some (NVME_SC_SUCCESS, z2)" "increase_write_ptr zid ?n z2 = Some z3"
      "zns_write_buffer clk (req_nsecs_start req) (write_bytes ?c) z3 e1 = Some (x, e2)"
      "foldM (write_chunk clk (req_sq_id req) (write_buffer_of z zid) (zone_to_elpn z zid) x)
        (page_chunks (\<lambda>l. g_pg (lpn_to_ppa z l)) (pgs_per_oneshotpg (z_sp z)) (lba_to_lpn z slba) (lba_to_lpn z (slba + ?n - 1)))
        (x, z3, e2) = Some (t, z4, e3)"
      "zns_inv z4" "shared_ok (ze_sh e3)" "sh_wbuf (ze_sh e3) = sh_wbuf (ze_sh e1)" "z_zp z4 = z_zp z1" "z_sp z4 = z_sp z1" "z_storage z4 = z_storage z1" "z_wb z4 = z_wb z1"
      "z_descs z4 = (z_descs z1)[zid := advanced ?n (entered (z_descs z1 ! zid))]"
      using write_zone_success [OF z1(2,3), of zid slba ?n clk "req_nsecs_start req" "write_bytes ?c" "req_sq_id req"
          "write_buffer_of z zid" "zone_to_elpn z zid"
          "page_chunks (\<lambda>l. g_pg (lpn_to_ppa z l)) (pgs_per_oneshotpg (z_sp z)) (lba_to_lpn z slba) (lba_to_lpn z (slba + ?n - 1))"]
        i h sel by auto
    have "wrote zid ?c z z4" using True s(5-12) sel sl by (simp add: wrote_def)
    moreover have "wbuf_at z4 e3 zid = wbuf_at z1 e1 zid" using s(7,8,11) by (simp add: wbuf_at_def)
    ultimately show ?thesis using un(3) [OF al' refl True s(1-4), of ret] s(6,7) z1(4,6) True by auto
  next
    case False
    have "wrote zid ?c z z1" using False z1(2) sel sl by (simp add: wrote_def)
    moreover have "enter_zone zid slba z1 = Some (state_status (zd_state ?d), z1) \<or> \<not> (slba = zd_wp ?d) \<or> ?st \<noteq> state_status (zd_state ?d)"
    proof (cases "slba = zd_wp ?d \<and> ?st = state_status (zd_state ?d)")
      case True
      then have "\<not> writable (zd_state ?d)" using False state_status_ok by metis
      then show ?thesis using enter_zone_acted [OF z1(2), of zid slba] i sel True by simp
    qed simp
    ultimately show ?thesis using un(2) [OF al' refl False sel(1), of clk ret] z1(3-6) by auto
  qed
qed

text \<open>A read returns, and changes timing only.\<close>

lemma zns_read_ok:
  assumes inv: "zns_inv z" and e: "shared_ok (ze_sh e)" and len: "rw_length (req_cmd req) < 65536"
    and rng: "rw_slba (req_cmd req) < zp_nr_zones (z_zp z) * zone_lbas z" and zid: "zid = rw_slba (req_cmd req) div zone_lbas z"
  shows "\<exists>t z' e'. zns_read clk req ret z e = Some (True, ret\<lparr>ret_status :=
       (if zd_state (z_descs z ! zid) = ZONE_STATE_OFFLINE then NVME_SC_ZNS_ERR_OFFLINE
        else if rw_slba (req_cmd req) div zone_lbas z \<noteq> (rw_slba (req_cmd req) + rw_length (req_cmd req)) div zone_lbas z
          then NVME_SC_ZNS_ERR_BOUNDARY else NVME_SC_SUCCESS), ret_nsecs_target := t\<rparr>, z', e') \<and> zns_timing z e z' e'"
proof -
  let ?c = "req_cmd req" let ?s = "rw_slba ?c" let ?n = "rw_length ?c + 1" and ?sp = "z_sp z"
  note g = zns_invD(1) [OF inv] and nb = write_blocks(1) [OF len]
  have i: "zid < length (z_descs z)" using zone_of_less [OF g rng] zid zns_invD(3) [OF inv] by simp
  have r32: "?s < 4294967296" "?s \<le> zp_nr_zones (z_zp z) * zone_lbas z" using rng zns_geoD(7) [OF g] by linarith+
  have zi: "lpn_to_zone z (lba_to_lpn z ?s) = zid" using lpn_to_zone_lba [OF g] lba_to_zone_eq [OF g r32(1)] zid by simp
  have n: "0 < ?n" "?n \<le> 65536" using len by simp_all
  note bd = boundary_eq [OF g r32(2) n]
  let ?st = "u64 (req_nsecs_start req + (if LBA_TO_BYTE ?n \<le> KB 4 then fw_4kb_rd_lat ?sp else fw_rd_lat ?sp))"
  let ?cs = "page_chunks (\<lambda>l. g_pg (lpn_to_ppa z l)) (pgs_per_flashpg ?sp) (lba_to_lpn z ?s) (lba_to_lpn z (?s + ?n - 1))"
  have f: "pgs_per_flashpg ?sp \<noteq> 0" using geo_pos(5) [OF zns_geoD(2) [OF g]] by simp
  have "\<exists>t z1 e1. foldM (read_chunk clk ?st) ?cs (?st, z, e) = Some (t, z1, e1) \<and> ?st \<le> t \<and> zns_timing z e z1 e1"
  proof (rule chunks_return [OF g e])
    fix c and t0 :: nat and z' :: zns_ftl and e' :: zns_env assume c: "c \<in> set ?cs" and z': "zns_geo z'" "shared_ok (ze_sh e')"
    obtain l k where lk: "c = (l, k)" by (cases c)
    have "0 < k" using page_chunks_pos [of l k] c lk by auto
    then have x: "k * pgsz (z_sp z') \<noteq> 0" using geo_pos(10) [OF zns_geoD(2) [OF z'(1)]] by simp
    let ?cmd = "\<lparr>nc_type = USER_IO, nc_cmd = NAND_READ, nc_xfer_size = k * pgsz (z_sp z'),
        nc_stime = ?st, nc_interleave_pci_dma = False, nc_ppa = lpn_to_ppa z' l\<rparr>"
    from zns_nand_returns [OF z', of ?cmd l clk] x
    show "\<exists>t z'' e''. read_chunk clk ?st c (t0, z', e') = Some (t, z'', e'') \<and> t0 \<le> t \<and> zns_timing z' e' z'' e''"
      by (auto simp: read_chunk_def lk)
  qed
  then obtain t z1 e1 where l: "foldM (read_chunk clk ?st) ?cs (?st, z, e) = Some (t, z1, e1)" "zns_timing z e z1 e1" by blast
  have "shared_ok (ze_sh e1)" using l(2) by (simp add: zns_timing_def sh_timing_def)
  from ssd_advance_pcie_returns [OF this, of clk t "?n * secsz ?sp"] obtain t' sh where
    p: "ssd_advance_pcie clk (ze_sh e1) t (?n * secsz ?sp) = Some (t', sh)" "sh_timing (ze_sh e1) sh" by blast
  have tm: "zns_timing z e z1 (e1\<lparr>ze_sh := sh\<rparr>)" using l(2) p(2) by (auto simp: zns_timing_def sh_timing_def)
  have "zns_read clk req ret z e = Some (True, ret\<lparr>ret_status :=
       (if zd_state (z_descs z ! zid) = ZONE_STATE_OFFLINE then NVME_SC_ZNS_ERR_OFFLINE
        else if ?s div zone_lbas z \<noteq> (?s + ?n - 1) div zone_lbas z then NVME_SC_ZNS_ERR_BOUNDARY else NVME_SC_SUCCESS),
       ret_nsecs_target := max t' t\<rparr>, z1, e1\<lparr>ze_sh := sh\<rparr>)"
    by (simp only: zns_read_def Let_def nb zi rd_in [OF i] Option.bind.simps bd f bind_NVMEV_ASSERT simp_thms if_True l(1) p(1) prod.case)
  then show ?thesis using tm by auto
qed

end
