(* ===== verification/Zns_Device.thy ===== *)
theory Zns_Device
  imports Zns_Write
begin

text \<open>
  The zoned device as a whole: management commands and the zone report on states of the
  invariant, the dispatcher, the states reachable by a host that does not use the ZRWA option,
  and the invariant of the initialised \<open>WD_ZN540\<close> and \<open>ZNS_PROTOTYPE\<close> namespaces.
\<close>

section \<open>Management commands\<close>

definition act_of :: "nat \<Rightarrow> bool \<Rightarrow> zone_act option" where
  "act_of action option = (if action = ZSA_CLOSE_ZONE then Some Close_zone
     else if action = ZSA_FINISH_ZONE then Some Finish_zone
     else if action = ZSA_OPEN_ZONE then Some (Open_zone option)
     else if action = ZSA_RESET_ZONE then Some Reset_zone
     else if action = ZSA_OFFLINE_ZONE then Some Offline_zone else None)"

text \<open>The storage after an action: a reset clears the zone.\<close>

definition storage_after :: "zone_act \<Rightarrow> nat \<Rightarrow> zns_ftl \<Rightarrow> nat \<Rightarrow> nat" where
  "storage_after act zid z a =
     (if act = Reset_zone \<and> zid * zp_zone_size (z_zp z) \<le> a \<and> a < Suc zid * zp_zone_size (z_zp z) then 0 else z_storage z a)"

lemma storage_after_simps:
  "storage_after Close_zone zid z = z_storage z" "storage_after Finish_zone zid z = z_storage z"
  "storage_after (Open_zone o') zid z = z_storage z" "storage_after Offline_zone zid z = z_storage z"
  "storage_after Reset_zone zid z =
     (\<lambda>a. if zid * zp_zone_size (z_zp z) \<le> a \<and> a < Suc zid * zp_zone_size (z_zp z) then 0 else z_storage z a)"
  by (simp_all add: storage_after_def fun_eq_iff)

lemma zmgmt_send_acts:
  assumes inv: "zns_inv z" and rng: "slba < zp_nr_zones (z_zp z) * zone_lbas z" and zid: "zid = slba div zone_lbas z"
    and act: "act_of action opt = Some act"
    and zr: "act = Open_zone True \<Longrightarrow> acquired_cnt (z_res z ZRWA_ZONE) < zp_nr_zones (z_zp z)"
  shows "case zone_after act (z_descs z ! zid) of
      None \<Rightarrow> zmgmt_send junk slba action opt z = Some (NVME_SC_ZNS_INVALID_TRANSITION, z)
    | Some d' \<Rightarrow> \<exists>z'. zmgmt_send junk slba action opt z = Some (NVME_SC_SUCCESS, z') \<and> acted zid d' z z' \<and>
        z_storage z' = storage_after act zid z"
proof -
  note g = zns_invD(1) [OF inv]
  have i: "zid < zp_nr_zones (z_zp z)" using zone_of_less [OF g rng] zid by simp
  have "slba < 4294967296" using rng zns_geoD(7) [OF g] by linarith
  then have zi: "lba_to_zone z slba = zid" using lba_to_zone_eq [OF g] zid by simp
  show ?thesis
  proof (cases act)
    case Close_zone
    then have e: "zmgmt_send junk slba action opt z = zmgmt_send_close_zone zid z"
      using act by (auto simp: act_of_def zmgmt_send_def zi split: if_splits)
    show ?thesis unfolding Close_zone e storage_after_simps by (rule close_zone_acted [OF inv i])
  next
    case Finish_zone
    then have e: "zmgmt_send junk slba action opt z = zmgmt_send_finish_zone zid z"
      using act by (auto simp: act_of_def zmgmt_send_def zi split: if_splits)
    show ?thesis unfolding Finish_zone e storage_after_simps by (rule finish_zone_acted [OF inv i])
  next
    case (Open_zone o')
    then have e: "zmgmt_send junk slba action opt z = zmgmt_send_open_zone zid o' z"
      using act by (auto simp: act_of_def zmgmt_send_def zi split: if_splits)
    show ?thesis unfolding Open_zone e storage_after_simps by (rule open_zone_acted [OF inv i]) (use zr Open_zone in simp)
  next
    case Reset_zone
    then have e: "zmgmt_send junk slba action opt z = zmgmt_send_reset_zone zid z"
      using act by (auto simp: act_of_def zmgmt_send_def zi split: if_splits)
    show ?thesis unfolding Reset_zone e storage_after_simps by (rule reset_zone_acted [OF inv i])
  next
    case Offline_zone
    then have e: "zmgmt_send junk slba action opt z = zmgmt_send_offline_zone zid z"
      using act by (auto simp: act_of_def zmgmt_send_def zi split: if_splits)
    show ?thesis unfolding Offline_zone e storage_after_simps by (rule offline_zone_acted [OF inv i])
  qed
qed

text \<open>A host that never sets the ZRWA option leaves every zone without a random write area.\<close>

definition no_zrwa :: "zns_ftl \<Rightarrow> bool" where
  "no_zrwa z \<longleftrightarrow> (\<forall>i<length (z_descs z). \<not> zd_zrwav (z_descs z ! i))"

lemma zone_after_no_zrwa: "zone_after act d = Some d' \<Longrightarrow> act \<noteq> Open_zone True \<Longrightarrow> \<not> zd_zrwav d \<Longrightarrow> \<not> zd_zrwav d'"
  by (cases act) (auto split: if_splits)

definition same_static :: "zns_ftl \<Rightarrow> zns_ftl \<Rightarrow> bool" where
  "same_static z z' \<longleftrightarrow> z_zp z' = z_zp z \<and> z_sp z' = z_sp z"

lemma same_static_simps:
  assumes "same_static z z'" shows "z_zp z' = z_zp z" "z_sp z' = z_sp z" "zone_lbas z' = zone_lbas z" "zone_to_slba z' i = zone_to_slba z i"
  using assms by (simp_all add: same_static_def zone_lbas_def zone_to_slba_def)

lemma zmgmt_send_ok:
  assumes inv: "zns_inv z" and rng: "slba < zp_nr_zones (z_zp z) * zone_lbas z" and nz: "no_zrwa z"
  shows "\<exists>st z'. zmgmt_send junk slba action False z = Some (st, z') \<and> zns_inv z' \<and> no_zrwa z' \<and> same_static z z'"
proof (cases "act_of action False")
  case None
  note g = zns_invD(1) [OF inv]
  have "slba < 4294967296" using rng zns_geoD(7) [OF g] by linarith
  then have "lba_to_zone z slba < length (z_descs z)"
    using lba_to_zone_eq [OF g] zone_of_less [OF g rng] zns_invD(3) [OF inv] by simp
  then have "zmgmt_send junk slba action False z = Some (NVME_SC_ZNS_INVALID_ZONE_OPERATION, z) \<or>
      zmgmt_send junk slba action False z = Some (junk, z)"
    using None nz by (auto simp: zmgmt_send_def act_of_def zmgmt_send_flush_explicit_zrwa_def no_zrwa_def Let_def split: if_splits)
  then show ?thesis using inv nz by (auto simp: same_static_def)
next
  case (Some act)
  let ?d = "z_descs z ! (slba div zone_lbas z)"
  have a: "act \<noteq> Open_zone True" using Some by (auto simp: act_of_def split: if_splits)
  have il: "slba div zone_lbas z < length (z_descs z)"
    using zone_of_less [OF zns_invD(1) [OF inv] rng] zns_invD(3) [OF inv] by simp
  note r = zmgmt_send_acts [OF inv rng refl Some, of junk]
  show ?thesis
  proof (cases "zone_after act ?d")
    case None
    then show ?thesis using r a inv nz by (auto simp: same_static_def)
  next
    case (Some d')
    then obtain z' where z': "zmgmt_send junk slba action False z = Some (NVME_SC_SUCCESS, z')" "acted (slba div zone_lbas z) d' z z'"
      using r a by auto
    have "\<not> zd_zrwav d'" using zone_after_no_zrwa [OF Some a] nz il by (simp add: no_zrwa_def)
    then have "no_zrwa z'" using z'(2) nz il by (auto simp: no_zrwa_def acted_def zone_upd_def nth_list_update split: if_splits)
    then show ?thesis using z' by (auto simp: same_static_def acted_def zone_upd_def)
  qed
qed

lemma zns_zmgmt_send_ok:
  assumes inv: "zns_inv z" and nz: "no_zrwa z" and opt: "\<not> zs_zsaso cmd"
    and rng: "zs_select_all cmd \<or> zs_slba cmd < zp_nr_zones (z_zp z) * zone_lbas z"
  shows "\<exists>ret' z'. zns_zmgmt_send junk cmd t ret z = Some (ret', z') \<and> zns_inv z' \<and> no_zrwa z' \<and> same_static z z'"
proof (cases "zs_select_all cmd")
  case True
  let ?f = "\<lambda>zid z. Option.bind (zmgmt_send junk (zone_to_slba z zid) (zs_zsa cmd) (zs_zsaso cmd) z) (\<lambda>(_, z'). Some z')"
  have "\<exists>z'. foldM ?f [0..<zp_nr_zones (z_zp z)] z = Some z' \<and> zns_inv z' \<and> no_zrwa z' \<and> same_static z z'"
  proof (rule foldM_upt_total [where P = "\<lambda>_ z'. zns_inv z' \<and> no_zrwa z' \<and> same_static z z'"])
    fix i z1 assume i: "i < zp_nr_zones (z_zp z)" and z1: "zns_inv z1 \<and> no_zrwa z1 \<and> same_static z z1"
    note ss = same_static_simps [of z z1]
    have "zone_to_slba z1 i = i * zone_lbas z1" using zone_to_slba_eq [of z1 i] zns_invD(1) z1 ss(1) i by simp
    moreover have "i * zone_lbas z1 < zp_nr_zones (z_zp z1) * zone_lbas z1"
      using i z1 ss(1) zns_geoD(4) [of z1] zns_invD(1) [of z1] by simp
    ultimately show "\<exists>z2. ?f i z1 = Some z2 \<and> zns_inv z2 \<and> no_zrwa z2 \<and> same_static z z2"
      using zmgmt_send_ok [of z1 "i * zone_lbas z1" junk "zs_zsa cmd"] z1 opt by (auto simp: same_static_def)
  qed (use inv nz in \<open>auto simp: same_static_def\<close>)
  then show ?thesis using True by (auto simp: zns_zmgmt_send_def)
next
  case False
  then show ?thesis using zmgmt_send_ok [OF inv _ nz, of "zs_slba cmd" junk "zs_zsa cmd"] rng opt
    by (auto simp: zns_zmgmt_send_def)
qed

section \<open>The zone report\<close>

interpretation zone_table: record_table encode_zone_descriptor 64
  by unfold_locales (simp add: encode_zone_descriptor_def)

definition report_zones :: "zns_ftl \<Rightarrow> nvme_zone_mgmt_recv \<Rightarrow> nat" where
  "report_zones z cmd = (let left = zp_nr_zones (z_zp z) - lba_to_zone z (zm_slba cmd)
     in if zm_zra_specific_features cmd = 0 \<or> bytes_transfer cmd < 64 then left
        else min left (bytes_transfer cmd div 64 - 1))"

lemma nr_zone_to_report_eq:
  assumes "zns_inv z" "check_zmgmt_rcv_option_supported z cmd"
  shows "nr_zone_to_report z cmd = report_zones z cmd"
proof -
  let ?n = "zp_nr_zones (z_zp z)" and ?s = "lba_to_zone z (zm_slba cmd)" and ?b = "bytes_transfer cmd div 64"
  have s: "?s < ?n" "?n < 4294967296"
    using assms(2) zns_geoD(8) [OF zns_invD(1) [OF assms(1)]] by (simp_all add: check_zmgmt_rcv_option_supported_def)
  then have l: "u64_sub ?n ?s = ?n - ?s" by (intro u64_sub_id) simp_all
  have "bytes_transfer cmd < 17179869184" using u32_less [of "zm_nr_dw cmd + 1"] by (simp add: bytes_transfer_def)
  then have b: "?b < 17179869184" using div_le_dividend le_less_trans by blast
  have "u64_sub ?b 1 = (if bytes_transfer cmd < 64 then 18446744073709551615 else ?b - 1)"
  proof (cases "bytes_transfer cmd < 64")
    case True
    then show ?thesis by (simp add: u64_sub_def u64_def)
  next
    case False
    then have "1 \<le> ?b" by simp
    then show ?thesis using False b by (simp add: u64_sub_id)
  qed
  then show ?thesis using l s by (auto simp: nr_zone_to_report_def report_zones_def sizeof_zone_descriptor_def Let_def min_def)
qed

text \<open>The report: the number of zones and the descriptors from the given zone on.\<close>

lemma fill_zone_report_ok:
  assumes inv: "zns_inv z" and ok: "check_zmgmt_rcv_option_supported z cmd"
  shows "\<exists>r. fill_zone_report cmd z = Some (z\<lparr>z_report := r\<rparr>) \<and> length r = length (z_report z) \<and>
     le_value (get_bytes 0 8 r) = report_zones z cmd \<and>
     (\<forall>i<report_zones z cmd. get_bytes (64 + 64 * i) 64 r = encode_zone_descriptor (z_descs z ! (lba_to_zone z (zm_slba cmd) + i)))"
proof -
  let ?s = "lba_to_zone z (zm_slba cmd)" and ?n = "report_zones z cmd" and ?r = "z_report z"
  let ?ds = "take ?n (drop ?s (z_descs z))"
  have s: "?s < zp_nr_zones (z_zp z)" using ok by (simp add: check_zmgmt_rcv_option_supported_def)
  then have n: "?s + ?n \<le> zp_nr_zones (z_zp z)" by (auto simp: report_zones_def Let_def)
  have dl: "length (z_descs z) = zp_nr_zones (z_zp z)" "length ?r = 128 + 64 * zp_nr_zones (z_zp z)"
    using zns_invD(2,3) [OF inv] by (simp_all add: wbufs_ok_def sizeof_zone_report_def sizeof_zone_descriptor_def)
  then have dsl: "length ?ds = ?n" using n by simp
  obtain r1 where r1: "put_bytes 0 (le_bytes 8 ?n) ?r = Some r1" "length r1 = length ?r"
    "\<forall>k<length ?r. r1 ! k = (if 0 \<le> k \<and> k < 0 + length (le_bytes 8 ?n) then le_bytes 8 ?n ! (k - 0) else ?r ! k)"
    using put_bytes_in [of 0 "le_bytes 8 ?n" ?r] dl by auto
  have "64 + 64 * length ?ds \<le> length r1" using r1(2) dl n dsl by simp
  from zone_table.put_table [OF this] obtain r2 where r2: "put_bytes 64 (concat (map encode_zone_descriptor ?ds)) r1 = Some r2"
    "length r2 = length r1" "\<forall>k<64. r2 ! k = r1 ! k"
    and t: "\<forall>i<length ?ds. get_bytes (64 + 64 * i) 64 r2 = encode_zone_descriptor (?ds ! i)" by blast
  have "fill_zone_report cmd z = Some (z\<lparr>z_report := r2\<rparr>)"
    using r1(1) r2(1) n dl by (simp add: fill_zone_report_def nr_zone_to_report_eq [OF inv ok])
  moreover have "get_bytes 0 (length (le_bytes 8 ?n)) r2 = le_bytes 8 ?n"
    by (rule get_bytes_eq) (use r1 r2 dl in auto)
  moreover have "?n < 256 ^ 8" using n zns_geoD(8) [OF zns_invD(1) [OF inv]] by simp
  then have "le_value (le_bytes 8 ?n) = ?n" by (rule le_value_le_bytes)
  moreover have "get_bytes (64 + 64 * i) 64 r2 = encode_zone_descriptor (z_descs z ! (?s + i))" if "i < ?n" for i
    using t that dsl n dl by simp
  ultimately show ?thesis using r1(2) r2(2) by auto
qed

text \<open>The transfer to the host returns when it stays inside the report buffer.\<close>

declare prp_transfer_loop.simps [simp del]

lemma prp_loop_returns:
  assumes "offset + remaining \<le> length buf" "prp2 mod PAGE_SIZE = 0"
    "2 \<le> prp_offs \<Longrightarrow> paddr_list = None \<Longrightarrow> remaining = 0"
  shows "\<exists>mem'. prp_transfer_loop prp1 prp2 buf offset remaining prp_offs paddr_list prp2_offs mem = Some mem'"
  using assms
proof (induction prp1 prp2 buf offset remaining prp_offs paddr_list prp2_offs mem rule: prp_transfer_loop.induct)
  case (1 prp1 prp2 buf offset remaining prp_offs paddr_list prp2_offs mem)
  show ?case
  proof (cases "remaining = 0")
    case True
    then show ?thesis by (simp add: prp_transfer_loop.simps)
  next
    case False
    have "prp_addr mem prp1 prp2 (prp_offs + 1) remaining paddr_list prp2_offs \<noteq> None"
      using False "1.prems"(3) by (cases "2 \<le> prp_offs") (auto simp: prp_addr_def split: option.splits)
    then obtain a l o2 where p: "prp_addr mem prp1 prp2 (prp_offs + 1) remaining paddr_list prp2_offs = Some (a, l, o2)" by auto
    let ?io = "min (min remaining PAGE_SIZE) (PAGE_SIZE - a mod PAGE_SIZE)"
    have io: "offset + ?io \<le> length buf" "?io \<le> remaining" using "1.prems"(1) by auto
    have "remaining - ?io = 0" if "2 \<le> prp_offs + 1" "l = None"
    proof -
      have "prp_offs + 1 = 2 \<and> a = prp2 \<and> remaining \<le> PAGE_SIZE"
        using p that False "1.prems"(3) by (auto simp: prp_addr_def split: if_splits option.splits)
      then show ?thesis using "1.prems"(2) by simp
    qed
    then have "\<exists>mem'. prp_transfer_loop prp1 prp2 buf (offset + ?io) (remaining - ?io) (prp_offs + 1) l o2
        (mem_write a (take ?io (drop offset buf)) mem) = Some mem'"
      using "1.IH" [OF False p refl refl refl refl io(1)] "1.prems"(1,2) io by simp
    then show ?thesis using False p io by (subst prp_transfer_loop.simps) (simp add: Let_def)
  qed
qed

lemma zns_zmgmt_recv_ok:
  assumes inv: "zns_inv z" and len: "bytes_transfer cmd \<le> length (z_report z)" and al: "zm_prp2 cmd mod PAGE_SIZE = 0"
  shows "\<exists>ret' r mem'. zns_zmgmt_recv cmd t ret z mem = Some (ret', z\<lparr>z_report := r\<rparr>, mem') \<and> length r = length (z_report z)"
proof (cases "check_zmgmt_rcv_option_supported z cmd")
  case True
  obtain r where r: "fill_zone_report cmd z = Some (z\<lparr>z_report := r\<rparr>)" "length r = length (z_report z)"
    using fill_zone_report_ok [OF inv True] by blast
  obtain mem' where "prp_transfer_data (zm_prp1 cmd) (zm_prp2 cmd) r (bytes_transfer cmd) mem = Some mem'"
    using prp_loop_returns [of 0 "bytes_transfer cmd" r "zm_prp2 cmd" 0 None "zm_prp1 cmd" 0 mem] len r(2) al
    by (auto simp: prp_transfer_data_def)
  then show ?thesis using True r by (auto simp: zns_zmgmt_recv_def)
next
  case False
  then show ?thesis by (auto simp: zns_zmgmt_recv_def intro: exI [of _ "z_report z"])
qed

section \<open>The dispatcher\<close>

definition zns_dev_inv :: "zns_ns \<times> zns_env \<Rightarrow> bool" where
  "zns_dev_inv = (\<lambda>(ns, e). zn_csi ns = NVME_CSI_ZNS \<and> zn_nr_parts ns = 1 \<and> zns_inv (zn_ftl ns) \<and> no_zrwa (zn_ftl ns) \<and>
     shared_ok (ze_sh e) \<and> buf_size (sh_wbuf (ze_sh e)) = write_buffer_size (z_sp (zn_ftl ns)))"

text \<open>The space of the buffer that serves a zone.\<close>

definition wbuf_space :: "zns_ftl \<Rightarrow> nat" where
  "wbuf_space z = (if zp_zone_wb_size (z_zp z) \<noteq> 0 then zp_zone_wb_size (z_zp z) else write_buffer_size (z_sp z))"

lemma wbuf_at_size:
  assumes "zns_inv z" "buf_size (sh_wbuf (ze_sh e)) = write_buffer_size (z_sp z)" "zid < zp_nr_zones (z_zp z)"
  shows "buf_size (wbuf_at z e zid) = wbuf_space z"
  using zns_invD(2) [OF assms(1)] assms(2,3) by (simp add: wbuf_at_def wbuf_space_def wbufs_ok_def)

text \<open>
  Requests of a host that respects the size of the namespace, the size of the write buffer and
  of the report, and does not use the ZRWA option.
\<close>

definition zns_host_req :: "zns_ftl \<Rightarrow> zns_request \<Rightarrow> bool" where
  "zns_host_req z req \<longleftrightarrow>
     (let c = req_cmd (zq_rw req); op = rw_opcode c
      in if op = nvme_cmd_write \<or> op = nvme_cmd_zone_append
           then rw_length c < 65536 \<and> rw_slba c < zp_nr_zones (z_zp z) * zone_lbas z \<and> write_bytes c \<le> wbuf_space z
         else if op = nvme_cmd_read then rw_length c < 65536 \<and> rw_slba c < zp_nr_zones (z_zp z) * zone_lbas z
         else if op = nvme_cmd_flush then True
         else if op = nvme_cmd_zone_mgmt_send
           then \<not> zs_zsaso (zq_send req) \<and>
             (zs_select_all (zq_send req) \<or> zs_slba (zq_send req) < zp_nr_zones (z_zp z) * zone_lbas z)
         else if op = nvme_cmd_zone_mgmt_recv
           then bytes_transfer (zq_recv req) \<le> sizeof_zone_report + sizeof_zone_descriptor * zp_nr_zones (z_zp z) \<and>
             zm_prp2 (zq_recv req) mod PAGE_SIZE = 0
         else op \<le> 0xB3)"

lemma wrote_no_zrwa: "wrote zid c z z' \<Longrightarrow> no_zrwa z \<Longrightarrow> zid < length (z_descs z) \<Longrightarrow> no_zrwa z'"
  by (auto simp: wrote_def no_zrwa_def nth_list_update advanced_def entered_def)

lemma zns_write_eq:
  assumes "zns_inv z" "no_zrwa z" "rw_slba (req_cmd req) < zp_nr_zones (z_zp z) * zone_lbas z"
  shows "zns_write clk req ret z e = zns_write_zone clk req ret z e"
    "rw_slba (req_cmd req) div zone_lbas z < zp_nr_zones (z_zp z)"
proof -
  let ?s = "rw_slba (req_cmd req)"
  note g = zns_invD(1) [OF assms(1)]
  show i: "?s div zone_lbas z < zp_nr_zones (z_zp z)" by (rule zone_of_less [OF g assms(3)])
  have "?s < 4294967296" using assms(3) zns_geoD(7) [OF g] by linarith
  then have "lpn_to_zone z (lba_to_lpn z ?s) = ?s div zone_lbas z" using lpn_to_zone_lba [OF g] lba_to_zone_eq [OF g] by simp
  then show "zns_write clk req ret z e = zns_write_zone clk req ret z e"
    using i assms(2) zns_invD(3) [OF assms(1)] by (simp add: zns_write_def no_zrwa_def)
qed

lemma zns_dispatch_ok:
  assumes inv: "zns_dev_inv (ns, e)" and req: "zns_host_req (zn_ftl ns) req"
  shows "\<exists>ok req' ret' ns' e' mem'. zns_proc_nvme_io_cmd clk junk req ret ns e mem = Some (ok, req', ret', ns', e', mem') \<and>
     zns_dev_inv (ns', e') \<and> same_static (zn_ftl ns) (zn_ftl ns')"
proof -
  let ?z = "zn_ftl ns" and ?op = "rw_opcode (req_cmd (zq_rw req))"
  have i: "zn_csi ns = NVME_CSI_ZNS" "zn_nr_parts ns = 1" "zns_inv ?z" "no_zrwa ?z" "shared_ok (ze_sh e)"
    "buf_size (sh_wbuf (ze_sh e)) = write_buffer_size (z_sp ?z)" using inv by (simp_all add: zns_dev_inv_def)
  note pr = zns_proc_nvme_io_cmd_def i(1,2) nvme_consts zns_opcodes
  have ns: "zn_csi (ns\<lparr>zn_ftl := z\<rparr>) = NVME_CSI_ZNS" "zn_nr_parts (ns\<lparr>zn_ftl := z\<rparr>) = 1" for z using i(1,2) by simp_all
  consider (w) "?op = nvme_cmd_write \<or> ?op = nvme_cmd_zone_append" | (r) "?op = nvme_cmd_read" | (f) "?op = nvme_cmd_flush"
    | (s) "?op = nvme_cmd_zone_mgmt_send" | (v) "?op = nvme_cmd_zone_mgmt_recv"
    | (o') "?op \<notin> {nvme_cmd_write, nvme_cmd_zone_append, nvme_cmd_read, nvme_cmd_flush, nvme_cmd_zone_mgmt_send, nvme_cmd_zone_mgmt_recv}"
    by auto
  then show ?thesis
  proof cases
    case w
    let ?c = "req_cmd (zq_rw req)"
    have h: "rw_length ?c < 65536" "rw_slba ?c < zp_nr_zones (z_zp ?z) * zone_lbas ?z" "write_bytes ?c \<le> wbuf_space ?z"
      using req w by (auto simp: zns_host_req_def Let_def)
    note we = zns_write_eq [OF i(3,4) h(2)]
    let ?zid = "rw_slba ?c div zone_lbas ?z"
    have sp: "write_bytes ?c \<le> buf_size (wbuf_at ?z e ?zid)" using wbuf_at_size [OF i(3,6) we(2)] h(3) by simp
    note wz = zns_write_zone_ok [OF i(3,5) h(1,2) refl sp refl refl, of clk ret]
    have "\<exists>ok req' ret' z' e'. zns_write_zone clk (zq_rw req) ret ?z e = Some (ok, req', ret', z', e') \<and> zns_inv z' \<and> no_zrwa z' \<and>
        same_static ?z z' \<and> shared_ok (ze_sh e') \<and> buf_size (sh_wbuf (ze_sh e')) = buf_size (sh_wbuf (ze_sh e))"
    proof (cases "write_bytes ?c \<le> buf_remaining (wbuf_at ?z e ?zid)")
      case True
      then show ?thesis using wz(1) wrote_no_zrwa [of ?zid ?c ?z] i(4) we(2) zns_invD(3) [OF i(3)]
        by (fastforce simp: wrote_def same_static_def)
    next
      case False
      then show ?thesis using wz(2) i(4) by (fastforce simp: wb_taken_def same_static_def no_zrwa_def)
    qed
    then show ?thesis using w we(1) i by (auto simp: zns_proc_nvme_io_cmd_def zns_dev_inv_def same_static_def)
  next
    case r
    then have h: "rw_length (req_cmd (zq_rw req)) < 65536" "rw_slba (req_cmd (zq_rw req)) < zp_nr_zones (z_zp ?z) * zone_lbas ?z"
      using req by (auto simp: zns_host_req_def Let_def nvme_consts zns_opcodes)
    obtain ret' z' e' where r': "zns_read clk (zq_rw req) ret ?z e = Some (True, ret', z', e')" "zns_timing ?z e z' e'"
      using zns_read_ok [OF i(3,5) h refl, of clk ret] by blast
    have "zns_inv z'" "z_descs z' = z_descs ?z" "z_sp z' = z_sp ?z" "z_zp z' = z_zp ?z" "sh_wbuf (ze_sh e') = sh_wbuf (ze_sh e)" "shared_ok (ze_sh e')"
      using zns_timing_inv [OF r'(2) i(3)] zns_timing_geo [OF r'(2) zns_invD(1) [OF i(3)]] r'(2)
      by (auto simp: zns_timing_def sh_timing_def)
    then show ?thesis using r r'(1) i by (auto simp: zns_proc_nvme_io_cmd_def zns_dev_inv_def same_static_def no_zrwa_def nvme_consts zns_opcodes)
  next
    case f
    let ?sh = "snd (get_clock clk (ze_sh e))"
    have sh: "shared_ok ?sh" "sh_wbuf ?sh = sh_wbuf (ze_sh e)" using i(5) by (simp_all add: get_clock_def shared_ok_def)
    obtain t sh' where "ssd_next_idle_time clk (z_ssd ?z) ?sh = Some (t, sh')" "sh_timing ?sh sh'"
      using next_idle_time [OF zns_geoD(1) [OF zns_invD(1) [OF i(3)]] sh(1)] by blast
    then show ?thesis using f i sh
      by (auto simp: zns_proc_nvme_io_cmd_def zns_flush_def zns_dev_inv_def same_static_def nvme_consts zns_opcodes sh_timing_def get_clock_def)
  next
    case s
    then have h: "\<not> zs_zsaso (zq_send req)"
      "zs_select_all (zq_send req) \<or> zs_slba (zq_send req) < zp_nr_zones (z_zp ?z) * zone_lbas ?z"
      using req by (auto simp: zns_host_req_def Let_def nvme_consts zns_opcodes)
    show ?thesis using zns_zmgmt_send_ok [OF i(3,4) h, of junk "req_nsecs_start (zq_rw req)" ret] s i
      by (auto simp: zns_proc_nvme_io_cmd_def zns_dev_inv_def same_static_def nvme_consts zns_opcodes)
  next
    case v
    then have h: "bytes_transfer (zq_recv req) \<le> length (z_report ?z)" "zm_prp2 (zq_recv req) mod PAGE_SIZE = 0"
      using req zns_invD(2) [OF i(3)] by (auto simp: zns_host_req_def Let_def nvme_consts zns_opcodes wbufs_ok_def)
    obtain ret' r mem' where r: "zns_zmgmt_recv (zq_recv req) (req_nsecs_start (zq_rw req)) ret ?z mem = Some (ret', ?z\<lparr>z_report := r\<rparr>, mem')"
      "length r = length (z_report ?z)" using zns_zmgmt_recv_ok [OF i(3) h] by blast
    have "zns_inv (?z\<lparr>z_report := r\<rparr>)" using i(3) r(2)
      by (auto simp: zns_inv_def zns_geo_def zone_lbas_def wbufs_ok_def res_ok_def zcount_def)
    then show ?thesis using r(1) v i by (auto simp: zns_proc_nvme_io_cmd_def zns_dev_inv_def same_static_def nvme_consts zns_opcodes no_zrwa_def)
  next
    case o'
    then have "?op \<le> 0xB3" using req by (auto simp: zns_host_req_def Let_def)
    then show ?thesis using o' i inv by (auto simp: zns_proc_nvme_io_cmd_def nvme_opcode_string_def same_static_def)
  qed
qed

text \<open>
  The device as a handler of what happens to it: a request, which comes with a result to fill in and
  the host's memory, or the release of space of a write buffer by a worker, when an internal operation
  is due.
\<close>

datatype zns_event = Request zns_request nvmev_result "nat \<Rightarrow> nat" | Release wbuf_ref nat

definition zns_release :: "wbuf_ref \<Rightarrow> nat \<Rightarrow> zns_ns \<times> zns_env \<Rightarrow> (zns_ns \<times> zns_env) option" where
  "zns_release r n = (\<lambda>(ns, e). case r of
     Global_wb \<Rightarrow> Some (ns, e\<lparr>ze_sh := (ze_sh e)\<lparr>sh_wbuf := snd (buffer_release (sh_wbuf (ze_sh e)) n)\<rparr>\<rparr>)
   | Zone_wb i \<Rightarrow> do {
       b \<leftarrow> rd (z_wb (zn_ftl ns)) i;
       Some (ns\<lparr>zn_ftl := (zn_ftl ns)\<lparr>z_wb := (z_wb (zn_ftl ns))[i := snd (buffer_release b n)]\<rparr>\<rparr>, e)
     }
   | Zrwa_wb i \<Rightarrow> do {
       b \<leftarrow> rd (z_zrwa (zn_ftl ns)) i;
       Some (ns\<lparr>zn_ftl := (zn_ftl ns)\<lparr>z_zrwa := (z_zrwa (zn_ftl ns))[i := snd (buffer_release b n)]\<rparr>\<rparr>, e)
     })"

fun zns_serve :: "(nat \<Rightarrow> nat) \<Rightarrow> nat \<Rightarrow> zns_ns \<times> zns_env \<Rightarrow> zns_event \<Rightarrow> (zns_ns \<times> zns_env) option" where
  "zns_serve clk junk (ns, e) (Request req ret mem) =
     map_option (\<lambda>(_, _, _, ns', e', _). (ns', e')) (zns_proc_nvme_io_cmd clk junk req ret ns e mem)"
| "zns_serve clk junk s (Release r n) = zns_release r n s"

text \<open>What may happen: a request of the host, or the release of no more than what is taken of a buffer that exists.\<close>

fun zns_host :: "zns_ns \<times> zns_env \<Rightarrow> zns_event \<Rightarrow> bool" where
  "zns_host (ns, e) (Request req ret mem) = zns_host_req (zn_ftl ns) req"
| "zns_host (ns, e) (Release r n) = (case r of
     Global_wb \<Rightarrow> buf_remaining (sh_wbuf (ze_sh e)) + n \<le> buf_size (sh_wbuf (ze_sh e))
   | Zone_wb i \<Rightarrow> i < length (z_wb (zn_ftl ns)) \<and> buf_remaining (z_wb (zn_ftl ns) ! i) + n \<le> buf_size (z_wb (zn_ftl ns) ! i)
   | Zrwa_wb i \<Rightarrow> i < length (z_zrwa (zn_ftl ns)) \<and> buf_remaining (z_zrwa (zn_ftl ns) ! i) + n \<le> buf_size (z_zrwa (zn_ftl ns) ! i))"

definition zns_kept :: "zns_ns \<times> zns_env \<Rightarrow> zns_ns \<times> zns_env \<Rightarrow> bool" where
  "zns_kept s s' \<longleftrightarrow> same_static (zn_ftl (fst s)) (zn_ftl (fst s'))"

lemma released_inv:
  assumes inv: "zns_inv z"
  shows "b \<in> set (z_wb z) \<Longrightarrow> zns_inv (z\<lparr>z_wb := (z_wb z)[i := snd (buffer_release b n)]\<rparr>)" "zns_inv (z\<lparr>z_zrwa := (z_zrwa z)[i := x]\<rparr>)"
  using assms by (auto simp: zns_inv_def zns_geo_def zone_lbas_def wbufs_ok_def res_ok_def zcount_def buffer_release_def dest!: in_set_updD)

lemma release_ok:
  assumes inv: "zns_dev_inv (ns, e)" and h: "zns_host (ns, e) (Release r n)"
  shows "\<exists>s'. zns_release r n (ns, e) = Some s' \<and> zns_dev_inv s' \<and> zns_kept (ns, e) s'"
proof (cases r)
  case Global_wb
  have "u64 x \<le> x" for x by (simp add: u64_def)
  then have "buf_remaining (sh_wbuf (ze_sh e)) + n \<le> k \<Longrightarrow> u64 (buf_remaining (sh_wbuf (ze_sh e)) + n) \<le> k" for k using le_trans by blast
  then show ?thesis using inv h Global_wb by (simp add: zns_release_def zns_dev_inv_def zns_kept_def same_static_def shared_ok_def buffer_ok_def buffer_release_def)
next
  case (Zone_wb i)
  then show ?thesis using inv h released_inv(1) [of "zn_ftl ns" "z_wb (zn_ftl ns) ! i" i n]
    by (simp add: zns_release_def zns_dev_inv_def zns_kept_def same_static_def no_zrwa_def)
next
  case (Zrwa_wb i)
  then show ?thesis using inv h released_inv(2) [of "zn_ftl ns" i "snd (buffer_release (z_zrwa (zn_ftl ns) ! i) n)"]
    by (simp add: zns_release_def zns_dev_inv_def zns_kept_def same_static_def no_zrwa_def)
qed

interpretation zdev: device_contract zns_dev_inv zns_host "zns_serve clk junk" zns_kept for clk junk
proof
  fix s and ev :: zns_event
  assume i: "zns_dev_inv s" and h: "zns_host s ev"
  obtain ns e where s: "s = (ns, e)" by (cases s)
  show "\<exists>s'. zns_serve clk junk s ev = Some s' \<and> zns_dev_inv s' \<and> zns_kept s s'"
  proof (cases ev)
    case (Request req ret mem)
    then show ?thesis using zns_dispatch_ok [of ns e req clk junk ret mem] i h by (auto simp: s zns_kept_def)
  next
    case (Release r n)
    then show ?thesis using release_ok [of ns e r n] i h by (simp add: s)
  qed
qed (auto simp: zns_kept_def same_static_def)

end
