(* ===== verification/Zns_Init.thy ===== *)
theory Zns_Init
  imports Zns_Device
begin

text \<open>
  The initialised zoned namespaces of the two zoned configurations satisfy the invariant of
  the device. The capacity is a whole number of zones, at least one, and below 2 TiB, the size
  at which the 32-bit product of \<open>zone_to_slba\<close> would wrap around.
\<close>

lemma length_init_zone_descs [simp]: "length (init_zone_descs n a s) = n"
  by (induction n a s rule: init_zone_descs.induct) simp_all

lemma nth_init_zone_descs:
  assumes "i < n" "a + n * BYTE_TO_LBA s < 18446744073709551616"
  shows "init_zone_descs n a s ! i = \<lparr>zd_type = ZONE_TYPE_SEQ_WRITE_REQUIRED, zd_state = ZONE_STATE_EMPTY, zd_zrwav = False,
      zd_zone_capacity = BYTE_TO_LBA s, zd_zslba = a + i * BYTE_TO_LBA s, zd_wp = a + i * BYTE_TO_LBA s\<rparr>"
  using assms
proof (induction n a s arbitrary: i rule: init_zone_descs.induct)
  case (2 n a s)
  have u: "u64 (a + BYTE_TO_LBA s) = a + BYTE_TO_LBA s" using "2.prems"(2) by (intro u64_id) simp
  show ?case
  proof (cases i)
    case (Suc j)
    have "j < n" "u64 (a + BYTE_TO_LBA s) + n * BYTE_TO_LBA s < 18446744073709551616"
      using "2.prems" Suc u by simp_all
    from "2.IH" [OF this] show ?thesis using Suc u by (simp add: algebra_simps)
  qed simp
qed simp

definition fresh_zone :: "nat \<Rightarrow> nat \<Rightarrow> zone_descriptor" where
  "fresh_zone l i = \<lparr>zd_type = ZONE_TYPE_SEQ_WRITE_REQUIRED, zd_state = ZONE_STATE_EMPTY, zd_zrwav = False,
     zd_zone_capacity = l, zd_zslba = i * l, zd_wp = i * l\<rparr>"

text \<open>The parts of a configuration that the zoned device relies on.\<close>

definition zns_config :: "ssd_config \<Rightarrow> nat \<Rightarrow> ssdparams \<Rightarrow> bool" where
  "zns_config c n sp \<longleftrightarrow> geo_ok sp \<and> secsz sp = 512 \<and> secs_per_pg sp = 8 \<and> pgsz sp = 4096 \<and>
     31 \<le> ch_bandwidth sp \<and> ch_bandwidth sp \<le> 7800 \<and> 31 \<le> pcie_bandwidth sp \<and> pcie_bandwidth sp \<le> 7800 \<and>
     write_buffer_size sp = GLOBAL_WB_SIZE c \<and> write_unit_size sp = WRITE_UNIT_SIZE c \<and> 0 < write_unit_size sp \<and>
     0 < ZONE_SIZE c \<and> ZONE_SIZE c < 4294967296 \<and> 4096 dvd ZONE_SIZE c \<and>
     0 < n \<and> n * (ZONE_SIZE c div 512) + 65536 < 4294967296 \<and>
     0 < DIES_PER_ZONE c \<and> DIES_PER_ZONE c dvd tt_luns sp"

lemma zns_init_params_eq:
  assumes "zns_config c n sp"
  shows "zns_init_params c sp (n * ZONE_SIZE c) = Some \<lparr>zp_nr_zones = n, zp_nr_active_zones = n, zp_nr_open_zones = n,
     zp_dies_per_zone = DIES_PER_ZONE c, zp_zone_size = ZONE_SIZE c, zp_zone_wb_size = ZONE_WB_SIZE c,
     zp_nr_zrwa_zones = MAX_ZRWA_ZONES c, zp_zrwafg_size = ZRWAFG_SIZE c, zp_zrwa_size = ZRWA_SIZE c,
     zp_zrwa_buffer_size = ZRWA_BUFFER_SIZE c, zp_lbas_per_zrwafg = ZRWAFG_SIZE c div 512, zp_lbas_per_zrwa = ZRWA_SIZE c div 512\<rparr>"
proof -
  have z: "0 < ZONE_SIZE c" "ZONE_SIZE c < 4294967296" "4096 dvd ZONE_SIZE c" "secsz sp = 512" "pgsz sp = 4096"
    and b: "n * (ZONE_SIZE c div 512) + 65536 < 4294967296" using assms by (simp_all add: zns_config_def)
  have "4096 \<le> ZONE_SIZE c" using z(1,3) by (rule dvd_imp_le [rotated])
  then have "1 \<le> ZONE_SIZE c div 512" by simp
  then have "n * 1 \<le> n * (ZONE_SIZE c div 512)" by (intro mult_le_mono) auto
  then have n: "n < 4294967296" using b by linarith
  show ?thesis using z n by (simp add: zns_init_params_def u32_id mod_eq_0_iff_dvd)
qed

lemma filter_init_zones:
  assumes "n * BYTE_TO_LBA s < 18446744073709551616" "\<And>d. zd_state d = ZONE_STATE_EMPTY \<Longrightarrow> \<not> P d"
  shows "filter P (init_zone_descs n 0 s) = []"
  using assms by (auto simp: filter_empty_conv in_set_conv_nth nth_init_zone_descs)

lemma zns_init_namespace_ok:
  assumes c: "zns_config c n sp" and sp: "ssd_init_params c (n * ZONE_SIZE c) 1 = Some sp"
  shows "\<exists>ns e. zns_init_namespace junk c nsid (n * ZONE_SIZE c) storage cpu = Some (ns, e) \<and> zns_dev_inv (ns, e) \<and>
     ze_sched e = [] \<and> sh_wbuf (ze_sh e) = buffer_init (GLOBAL_WB_SIZE c) \<and>
     z_descs (zn_ftl ns) = map (fresh_zone (ZONE_SIZE c div 512)) [0..<n] \<and> z_storage (zn_ftl ns) = storage \<and>
     z_wb (zn_ftl ns) = (if ZONE_WB_SIZE c = 0 then [] else replicate n (buffer_init (ZONE_WB_SIZE c))) \<and>
     z_sp (zn_ftl ns) = sp \<and> zns_init_params c sp (n * ZONE_SIZE c) = Some (z_zp (zn_ftl ns))"
proof -
  let ?l = "ZONE_SIZE c div 512"
  have g: "geo_ok sp" "31 \<le> ch_bandwidth sp" "ch_bandwidth sp \<le> 7800" "31 \<le> pcie_bandwidth sp" "pcie_bandwidth sp \<le> 7800"
    and b: "n * ?l + 65536 < 4294967296" and dv: "4096 dvd ZONE_SIZE c" "0 < ZONE_SIZE c"
    using c by (simp_all add: zns_config_def)
  obtain s pc wb where s: "ssd_init sp cpu = Some (s, pc, wb)" "ssd_ok s" "ssd_sp s = sp" "chmodel_wf pc"
    "wb = buffer_init (write_buffer_size sp)" using ssd_init_ok [OF g, of cpu] by blast
  obtain zp where zp: "zns_init_params c sp (n * ZONE_SIZE c) = Some zp" "zp_nr_zones zp = n" "zp_dies_per_zone zp = DIES_PER_ZONE c"
    "zp_zone_size zp = ZONE_SIZE c" "zp_zone_wb_size zp = ZONE_WB_SIZE c" using zns_init_params_eq [OF c] by simp
  let ?z = "zns_init_ftl junk zp s storage"
  have l: "BYTE_TO_LBA (ZONE_SIZE c) = ?l" by (simp add: BYTE_TO_LBA_def LBA_BITS_def)
  have zl: "zone_lbas ?z = ?l"
    using c by (simp add: zone_lbas_def zns_init_ftl_def init_resource_def init_descriptor_def Let_def zp s(3) zns_config_def)
  have nb: "n * BYTE_TO_LBA (ZONE_SIZE c) < 18446744073709551616" unfolding l using b by linarith
  have ds: "init_zone_descs n 0 (ZONE_SIZE c) = map (fresh_zone ?l) [0..<n]"
    by (rule nth_equalityI) (use nb in \<open>simp_all add: nth_init_zone_descs fresh_zone_def l\<close>)
  have zc: "zcount P ?z = 0" if "\<And>d. zd_state d = ZONE_STATE_EMPTY \<Longrightarrow> \<not> P d" for P
    using filter_init_zones [OF nb that]
    by (simp add: zcount_def zns_init_ftl_def init_resource_def init_descriptor_def Let_def zp)
  note zc' = zc [of opened_zone] zc [of active_zone] zc [of zrwa_zone]
  have res: "res_ok ?z" using zc'
    by (auto simp: res_ok_def zone_kinds zns_init_ftl_def init_resource_def init_descriptor_def Let_def zp
        split: zone_resource_type.split) (case_tac ty, simp_all)
  have "\<forall>i<n. zone_ok ?l i (init_zone_descs n 0 (ZONE_SIZE c) ! i)"
    unfolding ds by (simp add: fresh_zone_def zone_ok_def)
  moreover have "zns_geo ?z" unfolding zns_geo_def zl using c b dv s(2,3)
    by (simp add: zns_init_ftl_def init_resource_def init_descriptor_def Let_def zp zns_config_def)
  moreover have "wbufs_ok ?z"
    by (auto simp: wbufs_ok_def zns_init_ftl_def init_resource_def init_descriptor_def Let_def zp buffer_init_def)
  ultimately have inv: "zns_inv ?z" using res
    by (simp add: zns_inv_def zl) (simp add: zns_init_ftl_def init_resource_def init_descriptor_def Let_def zp)
  have nz: "no_zrwa ?z"
    by (simp add: no_zrwa_def zns_init_ftl_def init_resource_def init_descriptor_def Let_def zp ds fresh_zone_def)
  show ?thesis
    using inv nz c sp s zp(1)
    by (simp add: zns_init_namespace_def zns_dev_inv_def shared_ok_def)
      (simp add: zns_config_def zns_init_ftl_def init_resource_def init_descriptor_def Let_def zp ds buffer_init_def buffer_ok_def map_replicate_const)
qed

section \<open>The shipped configurations\<close>

lemma wd_zn540_params:
  assumes "0 < n" "n \<le> 1023"
  shows "\<exists>sp. ssd_init_params wd_zn540 (n * ZONE_SIZE wd_zn540) 1 = Some sp \<and> zns_config wd_zn540 n sp"
proof -
  have r: "DIV_ROUND_UP (n * 2147483648) 2147483648 = n" by (simp add: DIV_ROUND_UP_def)
  show ?thesis using assms
    by (simp add: ssd_init_params_def zns_config_def wd_zn540_def CELL_MODE_TLC_def size_macros LBA_SIZE_def
        LBA_BITS_def r c_int_in Let_def u64_id geo_ok_def DIV_ROUND_UP_def)
qed

lemma zns_prototype_params:
  assumes "0 < n" "n \<le> 65534"
  shows "\<exists>sp. ssd_init_params zns_prototype (n * ZONE_SIZE zns_prototype) 1 = Some sp \<and> zns_config zns_prototype n sp"
proof -
  define b where "b = DIV_ROUND_UP (n * 33554432) 4294967296"
  have b: "0 < b" "b \<le> 512"
    unfolding b_def using assms by (auto intro!: DIV_ROUND_UP_pos DIV_ROUND_UP_le)
  show ?thesis using assms b
    by (simp add: ssd_init_params_def zns_config_def zns_prototype_def CELL_MODE_TLC_def size_macros LBA_SIZE_def
        LBA_BITS_def c_int_in Let_def u64_id geo_ok_def b_def [symmetric] DIV_ROUND_UP_def [of 33554432])
qed

text \<open>A shipped zoned configuration with a number of zones that stays below 2 TiB.\<close>

definition zoned_size :: "ssd_config \<Rightarrow> nat \<Rightarrow> bool" where
  "zoned_size c n \<longleftrightarrow> 0 < n \<and> (c = wd_zn540 \<and> n \<le> 1023 \<or> c = zns_prototype \<and> n \<le> 65534)"

lemma zoned_device:
  assumes "zoned_size c n"
  shows "\<exists>ns e sp. zns_init_namespace junk c nsid (n * ZONE_SIZE c) storage cpu = Some (ns, e) \<and> zns_dev_inv (ns, e) \<and>
     ssd_init_params c (n * ZONE_SIZE c) 1 = Some sp \<and> zns_config c n sp \<and>
     ze_sched e = [] \<and> sh_wbuf (ze_sh e) = buffer_init (GLOBAL_WB_SIZE c) \<and>
     z_descs (zn_ftl ns) = map (fresh_zone (ZONE_SIZE c div 512)) [0..<n] \<and> z_storage (zn_ftl ns) = storage \<and>
     z_wb (zn_ftl ns) = (if ZONE_WB_SIZE c = 0 then [] else replicate n (buffer_init (ZONE_WB_SIZE c))) \<and>
     z_sp (zn_ftl ns) = sp \<and> zns_init_params c sp (n * ZONE_SIZE c) = Some (z_zp (zn_ftl ns))"
  using assms wd_zn540_params zns_prototype_params zns_init_namespace_ok unfolding zoned_size_def by metis

end
