(* ===== verification/Zns_Props.thy ===== *)
theory Zns_Props
  imports Zns_Init
begin

text \<open>
  The properties of the zoned device: it always answers, its counters and write pointers are
  right in every reachable state, writes and appends do what their status says, management
  commands follow the zone state machine, the report a host reads is the state of the zones,
  and what the code does on requests it does not guard against.
\<close>

section \<open>A sample device\<close>

text \<open>Four zones of the \<open>WD_ZN540\<close> configuration, and a write of eight blocks at block 0.\<close>

definition zero_bytes :: "nat \<Rightarrow> nat" where "zero_bytes _ = 0"

definition zns_sample :: "(zns_ns \<times> zns_env) option" where
  "zns_sample = zns_init_namespace zero_bytes wd_zn540 1 (4 * ZONE_SIZE wd_zn540) zero_bytes 0"

definition zns_clock :: "nat \<Rightarrow> nat" where "zns_clock k = 2000 + 100 * k"

definition zns_blank :: nvmev_result where
  "zns_blank = \<lparr>ret_status = 0, ret_nsecs_target = 0, ret_result = 0\<rparr>"

definition rw_sample :: "nat \<Rightarrow> nat \<Rightarrow> nat \<Rightarrow> nvmev_request" where
  "rw_sample op slba len = \<lparr>req_cmd = \<lparr>rw_opcode = op, rw_nsid = 1, rw_slba = slba, rw_length = len,
     rw_control = 0, rw_dsmgmt = 0\<rparr>, req_sq_id = 1, req_nsecs_start = 1000\<rparr>"

lemma rw_sample_sel [simp]:
  "rw_opcode (req_cmd (rw_sample op s n)) = op" "rw_slba (req_cmd (rw_sample op s n)) = s"
  "rw_length (req_cmd (rw_sample op s n)) = n" "write_bytes (req_cmd (rw_sample op s n)) = (n + 1) * 512"
  by (simp_all add: rw_sample_def write_bytes_def)

lemma zns_sample_device:
  "\<exists>ns e. zns_sample = Some (ns, e) \<and> zns_dev_inv (ns, e) \<and> zp_nr_zones (z_zp (zn_ftl ns)) = 4 \<and>
     zone_lbas (zn_ftl ns) = 4194304 \<and> z_descs (zn_ftl ns) = map (fresh_zone 4194304) [0..<4] \<and>
     zp_zone_wb_size (z_zp (zn_ftl ns)) = 983040 \<and> z_wb (zn_ftl ns) = replicate 4 (buffer_init 983040) \<and>
     write_unit_size (z_sp (zn_ftl ns)) = 512 \<and> zp_lbas_per_zrwa (z_zp (zn_ftl ns)) = 0 \<and>
     zp_lbas_per_zrwafg (z_zp (zn_ftl ns)) = 0 \<and> zp_zone_size (z_zp (zn_ftl ns)) = 2147483648 \<and> ze_sched e = []"
proof -
  have zs: "zoned_size wd_zn540 4" by (simp add: zoned_size_def)
  have c: "ZONE_SIZE wd_zn540 = 2147483648" "ZONE_WB_SIZE wd_zn540 = 983040" "WRITE_UNIT_SIZE wd_zn540 = 512"
    "ZRWA_SIZE wd_zn540 = 0" "ZRWAFG_SIZE wd_zn540 = 0"
    by (simp_all add: wd_zn540_def size_macros)
  obtain ns e sp where d: "zns_sample = Some (ns, e)" "zns_dev_inv (ns, e)" "ze_sched e = []"
     "ssd_init_params wd_zn540 (4 * ZONE_SIZE wd_zn540) 1 = Some sp" "zns_config wd_zn540 4 sp"
     "z_descs (zn_ftl ns) = map (fresh_zone (ZONE_SIZE wd_zn540 div 512)) [0..<4]"
     "z_wb (zn_ftl ns) = (if ZONE_WB_SIZE wd_zn540 = 0 then [] else replicate 4 (buffer_init (ZONE_WB_SIZE wd_zn540)))"
     "z_sp (zn_ftl ns) = sp" "zns_init_params wd_zn540 sp (4 * ZONE_SIZE wd_zn540) = Some (z_zp (zn_ftl ns))"
    using zoned_device [OF zs, of zero_bytes 1 zero_bytes 0] unfolding zns_sample_def by blast
  note zp = trans [OF d(9) [symmetric] zns_init_params_eq [OF d(5)]]
  have "write_unit_size sp = 512" "secsz sp = 512" using d(5) c(3) by (simp_all add: zns_config_def)
  then show ?thesis using d zp c by (intro exI [of _ ns] exI [of _ e]) (simp add: zone_lbas_def)
qed

lemma sample_resources:
  assumes "zns_sample = Some (ns, e)"
  shows "acquired_cnt (z_res (zn_ftl ns) ZRWA_ZONE) < zp_nr_zones (z_zp (zn_ftl ns))"
proof -
  have "acquired_cnt (z_res (zn_ftl ns) ZRWA_ZONE) = 0"
    using assms by (auto simp: zns_sample_def zns_init_namespace_def Let_def bind_eq_Some_conv zns_init_ftl_def init_resource_def)
  then show ?thesis using zns_sample_device unfolding assms by auto
qed

section \<open>The device answers\<close>

text \<open>
  C8: A zoned device never fails. From the state \<open>zns_init_namespace\<close> builds for one of the two
  shipped zoned configurations below 2 TiB, after any sequence of host requests and of releases of
  buffer space by the workers, the dispatcher answers every further request and the invariant of the
  device holds again. The requests meet \<open>zns_host_req\<close>: reads and writes start inside the namespace and name at most
  65536 blocks, a write is no larger than the buffer that serves its zone; a management command names a
  zone of the namespace or all of them and does not ask for a random write area; a report asks for no more
  bytes than the report buffer has, and its second page address is page-aligned (otherwise the last page may
  make the code read through a list that it never mapped); every other opcode is at most \<open>0xB3\<close>, since the opcodes
  above have no name to print. A release gives back no more than what is taken.
\<close>

theorem zoned_device_always_answers:
  assumes size: "zoned_size c n"
    and init: "zns_init_namespace junk0 c nsid (n * ZONE_SIZE c) storage cpu = Some s0"
    and reach: "(device_step zns_host (zns_serve clk junk))\<^sup>*\<^sup>* s0 (ns, e)"
    and req: "zns_host_req (zn_ftl ns) req"
  shows "\<exists>ok req' ret' ns' e' mem'. zns_proc_nvme_io_cmd clk junk req ret ns e mem = Some (ok, req', ret', ns', e', mem') \<and>
     zns_dev_inv (ns', e')"
proof -
  have "zns_dev_inv s0" using zoned_device [OF size, of junk0 nsid storage cpu] init by auto
  then have "zns_dev_inv (ns, e)" using zdev.reach_inv [OF reach] by blast
  from zns_dispatch_ok [OF this req] show ?thesis by blast
qed

theorem zoned_device_always_answers_witness:
  "\<exists>ns e ok req' ret' ns' e' mem'. zns_sample = Some (ns, e) \<and>
     zns_proc_nvme_io_cmd zns_clock 0 \<lparr>zq_rw = rw_sample nvme_cmd_write 0 7, zq_send = undefined, zq_recv = undefined\<rparr>
       zns_blank ns e zero_bytes = Some (ok, req', ret', ns', e', mem') \<and> zns_dev_inv (ns', e')"
proof -
  obtain ns e where d: "zns_sample = Some (ns, e)" "zp_nr_zones (z_zp (zn_ftl ns)) = 4" "zone_lbas (zn_ftl ns) = 4194304"
    "zp_zone_wb_size (z_zp (zn_ftl ns)) = 983040" using zns_sample_device by blast
  let ?r = "\<lparr>zq_rw = rw_sample nvme_cmd_write 0 7, zq_send = undefined, zq_recv = undefined\<rparr>"
  have z: "zoned_size wd_zn540 4" by (simp add: zoned_size_def)
  have h: "zns_host_req (zn_ftl ns) ?r" using d by (simp add: zns_host_req_def wbuf_space_def)
  from zoned_device_always_answers [OF z d(1) [unfolded zns_sample_def] rtranclp.rtrancl_refl h, of zns_clock 0 zns_blank zero_bytes] d(1)
  show ?thesis by blast
qed

text \<open>
  A report of two pages whose second page address is not aligned and leaves too little room in its
  page is not transferred: the loop needs a third page, takes it from the list and has none.
\<close>

theorem unaligned_report_page_faults:
  assumes "prp1 mod PAGE_SIZE = 0" "len \<le> 2 * PAGE_SIZE" "len \<le> length buf" "2 * PAGE_SIZE < len + prp2 mod PAGE_SIZE"
  shows "prp_transfer_data prp1 prp2 buf len mem = None"
proof -
  let ?m = "prp2 mod PAGE_SIZE"
  have m: "?m < PAGE_SIZE" by (simp add: PAGE_SIZE_def)
  have l: "PAGE_SIZE < len" using assms(4) m by linarith
  have third: "prp_transfer_loop prp1 prp2 buf off rem 2 None o2 m' = None" if "0 < rem" for off rem o2 m'
    using that by (subst prp_transfer_loop.simps) (simp add: prp_addr_def)
  let ?rem = "len - PAGE_SIZE" and ?io = "PAGE_SIZE - prp2 mod PAGE_SIZE"
  have io: "min (min ?rem PAGE_SIZE) ?io = ?io" "PAGE_SIZE + ?io \<le> length buf" "0 < ?rem - ?io" "0 < ?rem" "\<not> PAGE_SIZE < ?rem"
    using assms(2-4) m l by linarith+
  have second: "prp_transfer_loop prp1 prp2 buf PAGE_SIZE ?rem 1 None 0 m' = None" for m'
    using io third [OF io(3)] by (subst prp_transfer_loop.simps) (simp add: prp_addr_def Let_def numeral_2_eq_2)
  have "min (min len PAGE_SIZE) (PAGE_SIZE - prp1 mod PAGE_SIZE) = PAGE_SIZE" using l assms(1) by simp
  then show ?thesis using l assms(3) second unfolding prp_transfer_data_def
    by (subst prp_transfer_loop.simps) (simp add: prp_addr_def Let_def)
qed

theorem unaligned_report_page_faults_witness:
  "prp_transfer_data 4096 8704 (replicate 8192 0) 8192 zero_bytes = None"
  by (rule unaligned_report_page_faults) (simp_all add: PAGE_SIZE_def)

text \<open>
  C9: In every state of a zoned device that host requests, as above, and releases of buffer space reach, the counters of open and active zones are the
  numbers of zones in these states, and every zone's write pointer lies between its first block
  and the block after its last one, at the first block when the zone is empty and before the end
  while the zone is active.
\<close>

theorem zone_counters_exact:
  assumes size: "zoned_size c n"
    and init: "zns_init_namespace junk0 c nsid (n * ZONE_SIZE c) storage cpu = Some s0"
    and reach: "(device_step zns_host (zns_serve clk junk))\<^sup>*\<^sup>* s0 (ns, e)" and z: "z = zn_ftl ns"
  shows "length (z_descs z) = n \<and>
    acquired_cnt (z_res z OPEN_ZONE) = length (filter (\<lambda>d. is_opened (zd_state d)) (z_descs z)) \<and>
    acquired_cnt (z_res z ACTIVE_ZONE) =
       length (filter (\<lambda>d. is_opened (zd_state d) \<or> zd_state d = ZONE_STATE_CLOSED) (z_descs z)) \<and>
    (\<forall>i<n. let d = z_descs z ! i; l = ZONE_SIZE c div 512
       in zd_zslba d = i * l \<and> i * l \<le> zd_wp d \<and> zd_wp d \<le> Suc i * l \<and>
          (zd_state d = ZONE_STATE_EMPTY \<longrightarrow> zd_wp d = i * l) \<and> (is_active (zd_state d) \<longrightarrow> zd_wp d < Suc i * l))"
proof -
  obtain ns0 e0 sp where d: "s0 = (ns0, e0)" "zns_dev_inv s0" "zns_config c n sp" "z_sp (zn_ftl ns0) = sp"
     "zns_init_params c sp (n * ZONE_SIZE c) = Some (z_zp (zn_ftl ns0))"
    using zoned_device [OF size, of junk0 nsid storage cpu] init by auto
  have zp: "zp_nr_zones (z_zp (zn_ftl ns0)) = n" "zp_zone_size (z_zp (zn_ftl ns0)) = ZONE_SIZE c"
    using trans [OF d(5) [symmetric] zns_init_params_eq [OF d(3)]] by simp_all
  have r: "zns_dev_inv (ns, e)" "same_static (zn_ftl ns0) z" using zdev.reach_inv [OF reach d(2)] z d(1) by (simp_all add: zns_kept_def)
  have inv: "zns_inv z" using r(1) z by (simp add: zns_dev_inv_def)
  have n: "zp_nr_zones (z_zp z) = n" and l: "zone_lbas z = ZONE_SIZE c div 512"
    using r(2) zp d(3,4) by (simp_all add: same_static_def zone_lbas_def zns_config_def)
  note v = zns_invD [OF inv]
  have "acquired_cnt (z_res z OPEN_ZONE) = length (filter (\<lambda>d. is_opened (zd_state d)) (z_descs z))"
    "acquired_cnt (z_res z ACTIVE_ZONE) = length (filter (\<lambda>d. is_opened (zd_state d) \<or> zd_state d = ZONE_STATE_CLOSED) (z_descs z))"
    using v(4) by (simp_all add: res_ok_def zcount_def opened_zone_def [abs_def] active_zone_def [abs_def] is_active_def)
  then show ?thesis using v(3) v(5) [unfolded n l zone_ok_def] n by (simp add: Let_def)
qed

theorem zone_counters_exact_witness:
  "\<exists>ns e. zns_sample = Some (ns, e) \<and> length (z_descs (zn_ftl ns)) = 4 \<and>
     acquired_cnt (z_res (zn_ftl ns) OPEN_ZONE) = length (filter (\<lambda>d. is_opened (zd_state d)) (z_descs (zn_ftl ns)))"
proof -
  obtain ns e where d: "zns_sample = Some (ns, e)" using zns_sample_device by blast
  have z: "zoned_size wd_zn540 4" by (simp add: zoned_size_def)
  from zone_counters_exact [OF z d [unfolded zns_sample_def] rtranclp.rtrancl_refl refl] d show ?thesis by blast
qed

section \<open>Writes, appends and reads\<close>

text \<open>
  C10: A write or append to a zone without random write area, with room in the zone's buffer,
  reports exactly the status of the sequential-write rules: a size that is not a multiple of the
  write unit, a range that leaves the zone, a start that is not the write pointer, a full, read-only
  or offline zone are refused in this order and change no zone; otherwise the write succeeds, the
  zone is opened implicitly if needed, its write pointer moves by the blocks written, and the zone
  becomes full exactly when the pointer reaches its end. No other zone and no data change.
\<close>

theorem zone_write_command:
  assumes inv: "zns_inv z" "no_zrwa z" "shared_ok (ze_sh e)" and len: "rw_length (req_cmd req) < 65536"
    and rng: "rw_slba (req_cmd req) < zp_nr_zones (z_zp z) * zone_lbas z"
    and zid: "zid = rw_slba (req_cmd req) div zone_lbas z" and d: "d = z_descs z ! zid"
    and sl: "slba = (if rw_opcode (req_cmd req) = nvme_cmd_zone_append then zd_wp d else rw_slba (req_cmd req))"
    and n: "n = rw_length (req_cmd req) + 1"
    and st: "status = (if n * 512 mod write_unit_size (z_sp z) \<noteq> 0 then NVME_SC_ZNS_INVALID_WRITE
       else if slba div zone_lbas z \<noteq> (slba + n - 1) div zone_lbas z then NVME_SC_ZNS_ERR_BOUNDARY
       else if slba \<noteq> zd_wp d then NVME_SC_ZNS_INVALID_WRITE
       else if zd_state d = ZONE_STATE_FULL then NVME_SC_ZNS_ERR_FULL
       else if zd_state d = ZONE_STATE_READ_ONLY then NVME_SC_ZNS_ERR_READ_ONLY
       else if zd_state d = ZONE_STATE_OFFLINE then NVME_SC_ZNS_ERR_OFFLINE else NVME_SC_SUCCESS)"
    and room: "n * 512 \<le> buf_remaining (wbuf_at z e zid)" "buf_remaining (wbuf_at z e zid) \<le> buf_size (wbuf_at z e zid)"
  shows "\<exists>req' ret' z' e'. zns_write clk req ret z e = Some (True, req', ret', z', e') \<and> zns_inv z' \<and>
     ret_status ret' = status \<and> (rw_opcode (req_cmd req) = nvme_cmd_zone_append \<longrightarrow> ret_result ret' = slba) \<and>
     z_storage z' = z_storage z \<and> z_descs z' = (if status \<noteq> NVME_SC_SUCCESS then z_descs z
       else (z_descs z)[zid := d\<lparr>zd_wp := slba + n,
          zd_state := (if slba + n = Suc zid * zone_lbas z then ZONE_STATE_FULL
             else if is_opened (zd_state d) then zd_state d else ZONE_STATE_OPENED_IMPL)\<rparr>])"
proof -
  let ?c = "req_cmd req"
  have i: "zid < zp_nr_zones (z_zp z)" using zone_of_less [OF zns_invD(1) [OF inv(1)] rng] zid by simp
  have b: "write_bytes ?c = n * 512" using n by (simp add: write_bytes_def)
  have s: "slba = write_slba z ?c" using sl zid d by (simp add: write_slba_def)
  have ws: "write_status z zid slba n = status"
    unfolding st write_status_def state_status_def d [symmetric] Let_def by (cases "zd_state d") simp_all
  obtain t z' e' where w: "zns_write_zone clk req ret z e =
       Some (True, req\<lparr>req_cmd := ?c\<lparr>rw_slba := slba\<rparr>\<rparr>, write_result z ?c status t ret, z', e')" "wrote zid ?c z z'"
    using zns_write_zone_ok(1) [OF inv(1,3) len rng zid _ s refl, of clk ret] room b ws n by auto
  have adv: "advanced n (entered d) = d\<lparr>zd_wp := slba + n, zd_state := (if slba + n = Suc zid * zone_lbas z then ZONE_STATE_FULL
       else if is_opened (zd_state d) then zd_state d else ZONE_STATE_OPENED_IMPL)\<rparr>" if "status = NVME_SC_SUCCESS"
  proof -
    have "slba = zd_wp d" using that st by (auto simp: zns_codes split: if_splits)
    moreover have "zd_zslba d + zd_zone_capacity d = Suc zid * zone_lbas z"
      using zns_invD(5) [OF inv(1) i] d by (simp add: zone_ok_def)
    ultimately show ?thesis by (simp add: advanced_def entered_def)
  qed
  show ?thesis using w adv zns_write_eq(1) [OF inv(1,2) rng, of clk ret e] s ws d n
    by (auto simp: wrote_def write_result_def)
qed

theorem zone_write_command_witness:
  "\<exists>ns e req' ret' z' e'. zns_sample = Some (ns, e) \<and>
     zns_write zns_clock (rw_sample nvme_cmd_zone_append 4194305 7) zns_blank (zn_ftl ns) e = Some (True, req', ret', z', e') \<and>
     ret_status ret' = NVME_SC_SUCCESS \<and> ret_result ret' = 4194304 \<and> zd_wp (z_descs z' ! 1) = 4194312 \<and>
     zd_state (z_descs z' ! 1) = ZONE_STATE_OPENED_IMPL"
proof -
  obtain ns e where d: "zns_sample = Some (ns, e)" "zns_dev_inv (ns, e)" "zp_nr_zones (z_zp (zn_ftl ns)) = 4"
    "zone_lbas (zn_ftl ns) = 4194304" "z_descs (zn_ftl ns) = map (fresh_zone 4194304) [0..<4]"
    "zp_zone_wb_size (z_zp (zn_ftl ns)) = 983040" "z_wb (zn_ftl ns) = replicate 4 (buffer_init 983040)"
    "write_unit_size (z_sp (zn_ftl ns)) = 512" using zns_sample_device by blast
  let ?z = "zn_ftl ns" and ?r = "rw_sample nvme_cmd_zone_append 4194305 7"
  have i: "zns_inv ?z" "no_zrwa ?z" "shared_ok (ze_sh e)" using d(2) by (simp_all add: zns_dev_inv_def)
  have f: "z_descs ?z ! 1 = fresh_zone 4194304 1" "length (z_descs ?z) = 4" using d(5) by simp_all
  have w: "wbuf_at ?z e 1 = \<lparr>buf_size = 983040, buf_remaining = 983040\<rparr>" using d(6,7) by (simp add: wbuf_at_def buffer_init_def)
  have "\<exists>req' ret' z' e'. zns_write zns_clock ?r zns_blank ?z e = Some (True, req', ret', z', e') \<and> zns_inv z' \<and>
     ret_status ret' = NVME_SC_SUCCESS \<and> (rw_opcode (req_cmd ?r) = nvme_cmd_zone_append \<longrightarrow> ret_result ret' = 4194304) \<and>
     z_storage z' = z_storage ?z \<and> z_descs z' = (if NVME_SC_SUCCESS \<noteq> NVME_SC_SUCCESS then z_descs ?z
       else (z_descs ?z)[1 := (fresh_zone 4194304 1)\<lparr>zd_wp := 4194304 + 8,
          zd_state := (if 4194304 + 8 = Suc 1 * zone_lbas ?z then ZONE_STATE_FULL
             else if is_opened (zd_state (fresh_zone 4194304 1)) then zd_state (fresh_zone 4194304 1) else ZONE_STATE_OPENED_IMPL)\<rparr>])"
    by (rule zone_write_command [OF i]) (use d(3-5,8) f w in \<open>simp_all add: fresh_zone_def\<close>)
  then show ?thesis using d(1,4) f(2) by (intro exI [of _ ns] exI [of _ e]) (auto simp: fresh_zone_def)
qed

lemma append_wrote:
  assumes inv: "zns_inv z" "no_zrwa z" "shared_ok (ze_sh e)" "buf_size (sh_wbuf (ze_sh e)) = write_buffer_size (z_sp z)"
    and op: "rw_opcode (req_cmd r) = nvme_cmd_zone_append" and len: "rw_length (req_cmd r) < 65536"
    and rng: "rw_slba (req_cmd r) < zp_nr_zones (z_zp z) * zone_lbas z" "rw_slba (req_cmd r) div zone_lbas z = zid"
    and room: "write_bytes (req_cmd r) \<le> wbuf_space z"
    and w: "zns_write clk r ret z e = Some (True, q, a, z', e')" "ret_status a = NVME_SC_SUCCESS"
  shows "wrote zid (req_cmd r) z z' \<and> ret_result a = zd_wp (z_descs z ! zid) \<and>
     write_status z zid (zd_wp (z_descs z ! zid)) (rw_length (req_cmd r) + 1) = NVME_SC_SUCCESS \<and>
     shared_ok (ze_sh e') \<and> buf_size (sh_wbuf (ze_sh e')) = buf_size (sh_wbuf (ze_sh e))"
proof -
  have i: "zid < zp_nr_zones (z_zp z)" using zone_of_less [OF zns_invD(1) [OF inv(1)] rng(1)] rng(2) by simp
  have sl: "write_slba z (req_cmd r) = zd_wp (z_descs z ! zid)" using op rng(2) by (simp add: write_slba_def)
  have "write_bytes (req_cmd r) \<le> buf_size (wbuf_at z e zid)" using wbuf_at_size [OF inv(1,4) i] room by simp
  note ok = zns_write_zone_ok [OF inv(1,3) len rng(1) rng(2) [symmetric] this refl refl, of clk ret]
  have wz: "zns_write_zone clk r ret z e = Some (True, q, a, z', e')" using w(1) zns_write_eq(1) [OF inv(1,2) rng(1)] by simp
  have "write_bytes (req_cmd r) \<le> buf_remaining (wbuf_at z e zid)"
    using ok(2) wz by (cases "write_bytes (req_cmd r) \<le> buf_remaining (wbuf_at z e zid)") auto
  from ok(1) [OF this] wz show ?thesis using w(2) sl op by (auto simp: write_result_def)
qed

text \<open>
  Appends never overlap. When two appends to the same zone succeed one after the other, the
  second reports the block right after the last block of the first, both ranges lie inside the
  zone, and the write pointer ends behind the second range.
\<close>

theorem appends_adjacent:
  assumes inv: "zns_inv z" "no_zrwa z" "shared_ok (ze_sh e)" "buf_size (sh_wbuf (ze_sh e)) = write_buffer_size (z_sp z)"
    and op: "rw_opcode (req_cmd r1) = nvme_cmd_zone_append" "rw_opcode (req_cmd r2) = nvme_cmd_zone_append"
    and len: "rw_length (req_cmd r1) < 65536" "rw_length (req_cmd r2) < 65536"
    and rng: "rw_slba (req_cmd r1) < zp_nr_zones (z_zp z) * zone_lbas z" "rw_slba (req_cmd r2) div zone_lbas z = zid"
      "rw_slba (req_cmd r1) div zone_lbas z = zid"
    and room: "write_bytes (req_cmd r1) \<le> wbuf_space z" "write_bytes (req_cmd r2) \<le> wbuf_space z"
    and w1: "zns_write clk r1 ret1 z e = Some (True, q1, a1, z1, e1)" "ret_status a1 = NVME_SC_SUCCESS"
    and w2: "zns_write clk r2 ret2 z1 e1 = Some (True, q2, a2, z2, e2)" "ret_status a2 = NVME_SC_SUCCESS"
  shows "ret_result a2 = ret_result a1 + rw_length (req_cmd r1) + 1 \<and> zid * zone_lbas z \<le> ret_result a1 \<and>
     ret_result a2 + rw_length (req_cmd r2) + 1 \<le> Suc zid * zone_lbas z \<and>
     zd_wp (z_descs z2 ! zid) = ret_result a2 + rw_length (req_cmd r2) + 1"
proof -
  let ?d = "z_descs z ! zid" and ?n1 = "rw_length (req_cmd r1) + 1" and ?n2 = "rw_length (req_cmd r2) + 1"
  have i: "zid < zp_nr_zones (z_zp z)" using zone_of_less [OF zns_invD(1) [OF inv(1)] rng(1)] rng(3) by simp
  then have il: "zid < length (z_descs z)" using zns_invD(3) [OF inv(1)] by simp
  have x1: "wrote zid (req_cmd r1) z z1" "ret_result a1 = zd_wp ?d" "write_status z zid (zd_wp ?d) ?n1 = NVME_SC_SUCCESS"
    "shared_ok (ze_sh e1)" "buf_size (sh_wbuf (ze_sh e1)) = buf_size (sh_wbuf (ze_sh e))"
    using append_wrote [OF inv op(1) len(1) rng(1,3) room(1) w1] by auto
  then have d1: "z_descs z1 = (z_descs z)[zid := advanced ?n1 (entered ?d)]" "zns_inv z1" "z_zp z1 = z_zp z" "z_sp z1 = z_sp z"
    using op(1) rng(3) by (simp_all add: wrote_def write_slba_def)
  have l: "zone_lbas z1 = zone_lbas z" "wbuf_space z1 = wbuf_space z" using d1 by (simp_all add: zone_lbas_def wbuf_space_def)
  have "rw_slba (req_cmd r2) < Suc zid * zone_lbas z"
    using dividend_less_div_times [OF zns_geoD(4) [OF zns_invD(1) [OF inv(1)]], of "rw_slba (req_cmd r2)"] rng(2) by simp
  moreover have "Suc zid * zone_lbas z \<le> zp_nr_zones (z_zp z) * zone_lbas z" using i by (intro mult_le_mono1) simp
  ultimately have r2: "rw_slba (req_cmd r2) < zp_nr_zones (z_zp z1) * zone_lbas z1" using l d1(3) by simp
  have x2: "wrote zid (req_cmd r2) z1 z2" "ret_result a2 = zd_wp (z_descs z1 ! zid)"
    "write_status z1 zid (zd_wp (z_descs z1 ! zid)) ?n2 = NVME_SC_SUCCESS"
    using append_wrote [OF d1(2) wrote_no_zrwa [OF x1(1) inv(2) il] x1(4) _ op(2) len(2) r2 _ _ w2] x1(5) inv(4) d1(4) l rng(2) room(2)
    by auto
  have d2: "z_descs z2 = (z_descs z1)[zid := advanced ?n2 (entered (z_descs z1 ! zid))]"
    using x2 op(2) rng(2) l by (simp add: wrote_def write_slba_def)
  have wp: "zd_wp (z_descs z1 ! zid) = zd_wp ?d + ?n1" "zd_wp (z_descs z2 ! zid) = zd_wp ?d + ?n1 + ?n2"
    using d1(1) d2 il by (simp_all add: advanced_def entered_def)
  have z2: "zns_inv z2" "z_zp z2 = z_zp z" "zone_lbas z2 = zone_lbas z" using x2(1) d1(3,4) by (simp_all add: wrote_def zone_lbas_def)
  have "zone_ok (zone_lbas z) zid ?d" "zone_ok (zone_lbas z) zid (z_descs z2 ! zid)"
    using zns_invD(5) [OF inv(1) i] zns_invD(5) [OF z2(1), of zid] i z2 by auto
  then show ?thesis using x1(2) x2(2) wp by (simp add: zone_ok_def)
qed

lemma append_returns:
  assumes inv: "zns_inv z" "no_zrwa z" "shared_ok (ze_sh e)" "buf_size (sh_wbuf (ze_sh e)) = write_buffer_size (z_sp z)"
    and op: "rw_opcode (req_cmd r) = nvme_cmd_zone_append" and len: "rw_length (req_cmd r) < 65536"
    and rng: "rw_slba (req_cmd r) < zp_nr_zones (z_zp z) * zone_lbas z" "rw_slba (req_cmd r) div zone_lbas z = zid"
    and room: "write_bytes (req_cmd r) \<le> wbuf_space z" "write_bytes (req_cmd r) \<le> buf_remaining (wbuf_at z e zid)"
    and st: "write_status z zid (zd_wp (z_descs z ! zid)) (rw_length (req_cmd r) + 1) = NVME_SC_SUCCESS"
  shows "\<exists>q a z' e'. zns_write clk r ret z e = Some (True, q, a, z', e') \<and> ret_status a = NVME_SC_SUCCESS \<and>
     wrote zid (req_cmd r) z z' \<and> shared_ok (ze_sh e') \<and> buf_size (sh_wbuf (ze_sh e')) = buf_size (sh_wbuf (ze_sh e)) \<and>
     buf_remaining (wbuf_at z e zid) = buf_remaining (wbuf_at z' e' zid) + write_bytes (req_cmd r)"
proof -
  have i: "zid < zp_nr_zones (z_zp z)" using zone_of_less [OF zns_invD(1) [OF inv(1)] rng(1)] rng(2) by simp
  have sl: "write_slba z (req_cmd r) = zd_wp (z_descs z ! zid)" using op rng(2) by (simp add: write_slba_def)
  have "write_bytes (req_cmd r) \<le> buf_size (wbuf_at z e zid)" using wbuf_at_size [OF inv(1,4) i] room by simp
  from zns_write_zone_ok(1) [OF inv(1,3) len rng(1) rng(2) [symmetric] this refl refl room(2), of clk ret]
  show ?thesis using zns_write_eq(1) [OF inv(1,2) rng(1), of clk ret e] sl st by (auto simp: write_result_def)
qed

theorem appends_adjacent_witness:
  "\<exists>ns e q1 a1 z1 e1 q2 a2 z2 e2. zns_sample = Some (ns, e) \<and>
     zns_write zns_clock (rw_sample nvme_cmd_zone_append 0 7) zns_blank (zn_ftl ns) e = Some (True, q1, a1, z1, e1) \<and>
     zns_write zns_clock (rw_sample nvme_cmd_zone_append 0 15) zns_blank z1 e1 = Some (True, q2, a2, z2, e2) \<and>
     ret_result a2 = ret_result a1 + 8 \<and> zd_wp (z_descs z2 ! 0) = ret_result a2 + 16"
proof -
  obtain ns e where d: "zns_sample = Some (ns, e)" "zns_dev_inv (ns, e)" "zp_nr_zones (z_zp (zn_ftl ns)) = 4"
    "zone_lbas (zn_ftl ns) = 4194304" "z_descs (zn_ftl ns) = map (fresh_zone 4194304) [0..<4]"
    "zp_zone_wb_size (z_zp (zn_ftl ns)) = 983040" "z_wb (zn_ftl ns) = replicate 4 (buffer_init 983040)"
    "write_unit_size (z_sp (zn_ftl ns)) = 512" using zns_sample_device by blast
  let ?z = "zn_ftl ns" and ?r1 = "rw_sample nvme_cmd_zone_append 0 7" and ?r2 = "rw_sample nvme_cmd_zone_append 0 15"
  have i: "zns_inv ?z" "no_zrwa ?z" "shared_ok (ze_sh e)" "buf_size (sh_wbuf (ze_sh e)) = write_buffer_size (z_sp ?z)"
    using d(2) by (simp_all add: zns_dev_inv_def)
  have f: "z_descs ?z ! 0 = fresh_zone 4194304 0" "length (z_descs ?z) = 4" using d(5) by simp_all
  have b: "buf_remaining (wbuf_at ?z e 0) = 983040" "wbuf_space ?z = 983040"
    using d(6,7) by (simp_all add: wbuf_at_def wbuf_space_def buffer_init_def)
  obtain q1 a1 z1 e1 where x1: "zns_write zns_clock ?r1 zns_blank ?z e = Some (True, q1, a1, z1, e1)" "ret_status a1 = NVME_SC_SUCCESS"
     "wrote 0 (req_cmd ?r1) ?z z1" "shared_ok (ze_sh e1)" "buf_size (sh_wbuf (ze_sh e1)) = buf_size (sh_wbuf (ze_sh e))"
     "buf_remaining (wbuf_at ?z e 0) = buf_remaining (wbuf_at z1 e1 0) + write_bytes (req_cmd ?r1)"
    using append_returns [OF i, of ?r1 0 zns_clock zns_blank] d f b
    by (auto simp: write_status_def state_status_def fresh_zone_def zns_codes)
  have st: "write_status ?z 0 (write_slba ?z (req_cmd ?r1)) 8 = NVME_SC_SUCCESS"
    using f d(4,8) by (simp add: write_status_def write_slba_def fresh_zone_def state_status_def)
  have d1: "z_descs z1 ! 0 = advanced 8 (entered (fresh_zone 4194304 0))" "zns_inv z1" "z_zp z1 = z_zp ?z" "z_sp z1 = z_sp ?z"
    using x1(3) st f by (simp_all add: wrote_def)
  have l: "zone_lbas z1 = 4194304" "wbuf_space z1 = 983040" using d1 d(4,6) by (simp_all add: zone_lbas_def wbuf_space_def)
  have st2: "write_status z1 0 (zd_wp (z_descs z1 ! 0)) 16 = NVME_SC_SUCCESS"
    using d1 l d(8) by (simp add: write_status_def state_status_def advanced_def entered_def fresh_zone_def)
  obtain q2 a2 z2 e2 where x2: "zns_write zns_clock ?r2 zns_blank z1 e1 = Some (True, q2, a2, z2, e2)" "ret_status a2 = NVME_SC_SUCCESS"
    using append_returns [OF d1(2) wrote_no_zrwa [OF x1(3) i(2)] x1(4), of ?r2 0 zns_clock zns_blank] x1(5,6) i(4) d(3) d1 l b f(2) st2 by auto
  show ?thesis
    using appends_adjacent [OF i _ _ _ _ _ _ _ _ _ x1(1,2) x2, of 0] d(1,3,4) b x1(1) x2(1)
    by (intro exI [of _ ns] exI [of _ e]) simp
qed

text \<open>
  A read inside the namespace succeeds or reports an offline zone or a range that leaves the
  zone, and changes nothing but the timing state of the flash.
\<close>

theorem zone_read_command:
  assumes inv: "zns_inv z" "shared_ok (ze_sh e)" and len: "rw_length (req_cmd req) < 65536"
    and rng: "rw_slba (req_cmd req) < zp_nr_zones (z_zp z) * zone_lbas z"
  shows "\<exists>t s z' e'. zns_read clk req ret z e = Some (True, ret\<lparr>ret_status :=
       (if zd_state (z_descs z ! (rw_slba (req_cmd req) div zone_lbas z)) = ZONE_STATE_OFFLINE then NVME_SC_ZNS_ERR_OFFLINE
        else if rw_slba (req_cmd req) div zone_lbas z \<noteq> (rw_slba (req_cmd req) + rw_length (req_cmd req)) div zone_lbas z
          then NVME_SC_ZNS_ERR_BOUNDARY else NVME_SC_SUCCESS), ret_nsecs_target := t\<rparr>, z', e') \<and>
     z' = z\<lparr>z_ssd := s\<rparr> \<and> ssd_sp s = z_sp z \<and> sh_wbuf (ze_sh e') = sh_wbuf (ze_sh e) \<and> zns_inv z'"
  using zns_read_ok [OF inv len rng refl, of clk ret] zns_timing_inv [OF _ inv(1)]
  unfolding zns_timing_def sh_timing_def by blast

theorem zone_read_command_witness:
  "\<exists>ns e t s z' e'. zns_sample = Some (ns, e) \<and> zns_read zns_clock (rw_sample nvme_cmd_read 4194300 7) zns_blank (zn_ftl ns) e =
     Some (True, zns_blank\<lparr>ret_status := NVME_SC_ZNS_ERR_BOUNDARY, ret_nsecs_target := t\<rparr>, z', e') \<and> z' = (zn_ftl ns)\<lparr>z_ssd := s\<rparr>"
proof -
  obtain ns e where d: "zns_sample = Some (ns, e)" "zns_dev_inv (ns, e)" "zp_nr_zones (z_zp (zn_ftl ns)) = 4"
    "zone_lbas (zn_ftl ns) = 4194304" "z_descs (zn_ftl ns) = map (fresh_zone 4194304) [0..<4]" using zns_sample_device by blast
  have i: "zns_inv (zn_ftl ns)" "shared_ok (ze_sh e)" using d(2) by (simp_all add: zns_dev_inv_def)
  have "zd_state (z_descs (zn_ftl ns) ! 0) = ZONE_STATE_EMPTY" using d(5) by (simp add: fresh_zone_def)
  then show ?thesis using zone_read_command [OF i, of "rw_sample nvme_cmd_read 4194300 7" zns_clock zns_blank] d(1,3,4)
    by (intro exI [of _ ns] exI [of _ e]) auto
qed

section \<open>Management commands and the report\<close>



text \<open>The host's view of a descriptor: what \<open>nvme_zns.h\<close> says about its 64 bytes.\<close>

definition state_of_code :: "nat \<Rightarrow> zone_state option" where
  "state_of_code n = List.find (\<lambda>st. zone_state_code st = n)
     [ZONE_STATE_EMPTY, ZONE_STATE_OPENED_IMPL, ZONE_STATE_OPENED_EXPL, ZONE_STATE_CLOSED,
      ZONE_STATE_READ_ONLY, ZONE_STATE_FULL, ZONE_STATE_OFFLINE]"

definition decode_zone_descriptor :: "nat list \<Rightarrow> zone_descriptor option" where
  "decode_zone_descriptor bs = map_option (\<lambda>st. \<lparr>zd_type = bs ! 0, zd_state = st, zd_zrwav = (bs ! 2 = 8),
     zd_zone_capacity = le_value (get_bytes 8 8 bs), zd_zslba = le_value (get_bytes 16 8 bs),
     zd_wp = le_value (get_bytes 24 8 bs)\<rparr>) (state_of_code (bs ! 1 div 16))"

lemma decode_encode_zone:
  assumes "zd_type d < 16" "zd_zone_capacity d < 256 ^ 8" "zd_zslba d < 256 ^ 8" "zd_wp d < 256 ^ 8"
  shows "decode_zone_descriptor (encode_zone_descriptor d) = Some d"
proof -
  let ?b = "encode_zone_descriptor d"
  have "get_bytes 8 8 ?b = le_bytes 8 (zd_zone_capacity d)" "get_bytes 16 8 ?b = le_bytes 8 (zd_zslba d)"
    "get_bytes 24 8 ?b = le_bytes 8 (zd_wp d)"
    by (simp_all add: get_bytes_def encode_zone_descriptor_def)
  moreover have "state_of_code (zone_state_code (zd_state d)) = Some (zd_state d)"
    by (cases "zd_state d") (simp_all add: state_of_code_def)
  moreover have "?b ! 0 = zd_type d" "?b ! 1 = 16 * zone_state_code (zd_state d)" "?b ! 2 = (if zd_zrwav d then 8 else 0)"
    using assms(1) by (simp_all add: encode_zone_descriptor_def)
  ultimately show ?thesis using assms(2-4) by (simp add: decode_zone_descriptor_def le_value_le_bytes del: One_nat_def)
qed

text \<open>A transfer of at most a page to an aligned address copies the bytes.\<close>

lemma prp_one_page:
  assumes "len \<le> PAGE_SIZE" "len \<le> length buf" "prp1 mod PAGE_SIZE = 0"
  shows "prp_transfer_data prp1 prp2 buf len mem = Some (mem_write prp1 (take len buf) mem)"
  using assms unfolding prp_transfer_data_def
  by (cases "len = 0") (simp_all add: prp_transfer_loop.simps [of _ _ _ _ _ 0] prp_transfer_loop.simps [of _ _ _ _ 0]
      prp_addr_def mem_write_def fun_eq_iff Let_def min_def)

text \<open>
  C12: The report that a host reads after a Zone Management Receive is the state of the zones. For
  a supported request of up to a page into an aligned page, the first eight bytes hold the number
  of zones reported, and each 64-byte entry that was transferred decodes to the descriptor of its
  zone, in order from the zone that the request names.
\<close>

theorem zone_report_decodes:
  assumes inv: "zns_inv z" and ok: "check_zmgmt_rcv_option_supported z cmd"
    and len: "64 \<le> bytes_transfer cmd" "bytes_transfer cmd \<le> PAGE_SIZE" "bytes_transfer cmd \<le> length (z_report z)"
    and al: "zm_prp1 cmd mod PAGE_SIZE = 0" and start: "start = lba_to_zone z (zm_slba cmd)"
    and left: "left = zp_nr_zones (z_zp z) - start"
    and num: "num = (if zm_zra_specific_features cmd = 0 then left else min left (bytes_transfer cmd div 64 - 1))"
  shows "\<exists>r mem'. zns_zmgmt_recv cmd t ret z mem =
       Some (ret\<lparr>ret_nsecs_target := t, ret_status := NVME_SC_SUCCESS\<rparr>, z\<lparr>z_report := r\<rparr>, mem') \<and>
     le_value (mem_bytes mem' (zm_prp1 cmd) 8) = num \<and>
     (\<forall>i<num. 128 + 64 * i \<le> bytes_transfer cmd \<longrightarrow>
        decode_zone_descriptor (mem_bytes mem' (zm_prp1 cmd + (64 + 64 * i)) 64) = Some (z_descs z ! (start + i)))"
proof -
  have num': "report_zones z cmd = num" using num left start len(1) by (simp add: report_zones_def Let_def)
  obtain r where r: "fill_zone_report cmd z = Some (z\<lparr>z_report := r\<rparr>)" "length r = length (z_report z)"
    "le_value (get_bytes 0 8 r) = num"
    "\<forall>i<num. get_bytes (64 + 64 * i) 64 r = encode_zone_descriptor (z_descs z ! (start + i))"
    using fill_zone_report_ok [OF inv ok] num' start by auto
  let ?m = "mem_write (zm_prp1 cmd) (take (bytes_transfer cmd) r) mem"
  have "zns_zmgmt_recv cmd t ret z mem =
     Some (ret\<lparr>ret_nsecs_target := t, ret_status := NVME_SC_SUCCESS\<rparr>, z\<lparr>z_report := r\<rparr>, ?m)"
    using ok r(1,2) prp_one_page [OF len(2) _ al, of r] len(3) by (simp add: zns_zmgmt_recv_def)
  moreover have "mem_bytes ?m (zm_prp1 cmd) 8 = get_bytes 0 8 r"
    using mem_bytes_write [of 0 8 "bytes_transfer cmd" r "zm_prp1 cmd"] len r(2) by simp
  moreover have "decode_zone_descriptor (mem_bytes ?m (zm_prp1 cmd + (64 + 64 * i)) 64) = Some (z_descs z ! (start + i))"
    if i: "i < num" and b: "128 + 64 * i \<le> bytes_transfer cmd" for i
  proof -
    have s: "start + i < zp_nr_zones (z_zp z)" using i num left by (auto split: if_splits)
    let ?d = "z_descs z ! (start + i)"
    have zo: "zone_ok (zone_lbas z) (start + i) ?d" by (rule zns_invD(5) [OF inv s])
    have "Suc (start + i) * zone_lbas z \<le> zp_nr_zones (z_zp z) * zone_lbas z" using s by (intro mult_le_mono1) simp
    then have "Suc (start + i) * zone_lbas z < 4294967296" using zns_geoD(7) [OF zns_invD(1) [OF inv]] by linarith
    then have lt: "zd_wp ?d < 4294967296" "zd_zslba ?d < 4294967296" "zd_zone_capacity ?d < 4294967296" using zo by (auto simp: zone_ok_def)
    have ty: "zd_type ?d < 16" using zo by (simp add: zone_ok_def ZONE_TYPE_SEQ_WRITE_REQUIRED_def)
    have "decode_zone_descriptor (encode_zone_descriptor ?d) = Some ?d" using lt by (intro decode_encode_zone [OF ty]) simp_all
    moreover have "mem_bytes ?m (zm_prp1 cmd + (64 + 64 * i)) 64 = get_bytes (64 + 64 * i) 64 r"
      using mem_bytes_write [of "64 + 64 * i" 64 "bytes_transfer cmd" r "zm_prp1 cmd"] b len(3) r(2) by simp
    ultimately show ?thesis using r(4) i by simp
  qed
  ultimately show ?thesis using r(3) by auto
qed

theorem zone_report_decodes_witness:
  "\<exists>ns e r mem'. zns_sample = Some (ns, e) \<and>
     zns_zmgmt_recv \<lparr>zm_prp1 = 8192, zm_prp2 = 0, zm_slba = 4194304, zm_nr_dw = 47, zm_zra = 0, zm_zra_specific_field = 0,
         zm_zra_specific_features = 0\<rparr> 1000 zns_blank (zn_ftl ns) zero_bytes =
       Some (zns_blank\<lparr>ret_nsecs_target := 1000, ret_status := NVME_SC_SUCCESS\<rparr>, (zn_ftl ns)\<lparr>z_report := r\<rparr>, mem') \<and>
     le_value (mem_bytes mem' 8192 8) = 3 \<and>
     decode_zone_descriptor (mem_bytes mem' 8256 64) = Some (fresh_zone 4194304 1)"
proof -
  obtain ns e where d: "zns_sample = Some (ns, e)" "zns_dev_inv (ns, e)" "zp_nr_zones (z_zp (zn_ftl ns)) = 4"
    "zone_lbas (zn_ftl ns) = 4194304" "z_descs (zn_ftl ns) = map (fresh_zone 4194304) [0..<4]" using zns_sample_device by blast
  let ?z = "zn_ftl ns" let ?c = "\<lparr>zm_prp1 = 8192, zm_prp2 = 0, zm_slba = 4194304, zm_nr_dw = 47, zm_zra = 0,
    zm_zra_specific_field = 0, zm_zra_specific_features = 0\<rparr>"
  have i: "zns_inv ?z" using d(2) by (simp add: zns_dev_inv_def)
  have s: "lba_to_zone ?z 4194304 = 1" using lba_to_zone_eq [OF zns_invD(1) [OF i], of 4194304] d(4) by simp
  have b: "bytes_transfer ?c = 192" by (simp add: bytes_transfer_def u32_id)
  have l: "length (z_report ?z) = 384" using zns_invD(2) [OF i] d(3)
    by (simp add: wbufs_ok_def sizeof_zone_report_def sizeof_zone_descriptor_def)
  have ok: "check_zmgmt_rcv_option_supported ?z ?c" using s d(3) by (simp add: check_zmgmt_rcv_option_supported_def)
  from zone_report_decodes [OF i ok _ _ _ _ refl refl refl, of 1000 zns_blank zero_bytes] s d(3) b l
  obtain r mem' where r: "zns_zmgmt_recv ?c 1000 zns_blank ?z zero_bytes =
       Some (zns_blank\<lparr>ret_nsecs_target := 1000, ret_status := NVME_SC_SUCCESS\<rparr>, ?z\<lparr>z_report := r\<rparr>, mem')"
     "le_value (mem_bytes mem' 8192 8) = 3"
     "\<forall>i<3. 128 + 64 * i \<le> 192 \<longrightarrow> decode_zone_descriptor (mem_bytes mem' (8192 + (64 + 64 * i)) 64) = Some (z_descs ?z ! (1 + i))"
    by (auto simp: PAGE_SIZE_def)
  have "decode_zone_descriptor (mem_bytes mem' 8256 64) = Some (fresh_zone 4194304 1)" using r(3) [rule_format, of 0] d(5) by simp
  then show ?thesis using d(1) r(1,2) by blast
qed

section \<open>Addresses\<close>

text \<open>
  C39: The loops over a range of pages end and treat every page exactly once, in order: the pieces
  of the range are non-empty, none crosses the end of its flash or one-shot page, and joined they
  are the range.
\<close>

theorem pieces_tile_range:
  assumes "0 < u"
  shows "concat (map (\<lambda>(l, n). [l..<l + n]) (page_chunks pg_of u lpn elpn)) = [lpn..<Suc elpn] \<and>
     (\<forall>(l, n)\<in>set (page_chunks pg_of u lpn elpn). 0 < n \<and> pg_of l mod u + n \<le> u)"
proof -
  have "0 < n \<and> pg_of l mod u + n \<le> u" if "(l, n) \<in> set (page_chunks pg_of u lpn elpn)" for l n
    using page_chunks_pos [OF that] mod_less_divisor [OF assms, of "pg_of l"] by linarith
  then show ?thesis using page_chunks_cover [OF assms] by blast
qed

theorem pieces_tile_range_witness:
  "concat (map (\<lambda>(l, n). [l..<l + n]) (page_chunks (\<lambda>l. l) 24 20 50)) = [20..<51] \<and>
     page_chunks (\<lambda>l. l) 24 20 50 = [(20, 4), (24, 24), (48, 3)]"
  using pieces_tile_range [of 24 "\<lambda>l. l" 20 50] by (simp add: page_chunks.simps)

text \<open>
  C40: Every logical page of a zoned device is sent to a die that exists and to a page inside the
  one-shot page: the address that \<open>__lpn_to_ppa\<close> gives is a page of the simulated flash, whatever
  the logical page number.
\<close>

theorem zone_page_on_flash:
  assumes "zns_inv z"
  shows "let p = lpn_to_ppa z lpn; sp = z_sp z
     in g_ch p < nchs sp \<and> g_lun p < luns_per_ch sp \<and> g_pl p = 0 \<and> g_blk p = 0 \<and> g_pg p < pgs_per_oneshotpg sp \<and>
        valid_ppa sp p"
proof -
  note g = zns_invD(1) [OF assms]
  have "g_pg (lpn_to_ppa z lpn) < pgs_per_oneshotpg (z_sp z)" "g_pl (lpn_to_ppa z lpn) = 0" "g_blk (lpn_to_ppa z lpn) = 0"
    using geo_pos(4) [OF zns_geoD(2) [OF g]]
    by (simp_all add: lpn_to_ppa_def Let_def mk_ppa_def le_less_trans [OF mod_less_eq_dividend])
  then show ?thesis using lpn_to_ppa_real [OF g, of lpn] by (simp add: real_ppa_def valid_ppa_iff Let_def)
qed

theorem zone_page_on_flash_witness:
  "\<exists>ns e. zns_sample = Some (ns, e) \<and> g_ch (lpn_to_ppa (zn_ftl ns) 600000) < nchs (z_sp (zn_ftl ns))"
proof -
  obtain ns e where "zns_sample = Some (ns, e)" "zns_dev_inv (ns, e)" using zns_sample_device by blast
  then show ?thesis using zone_page_on_flash [of "zn_ftl ns" 600000] by (auto simp: zns_dev_inv_def Let_def)
qed

section \<open>What the code does not guard against\<close>

text \<open>
  A rejected write loses buffer space for good. The space is taken before the checks and the
  exits for a refused write neither give it back nor schedule its release: after the refusal the
  buffer has that much less room and the list of scheduled releases is unchanged.
\<close>

theorem rejected_write_leaks_buffer:
  assumes inv: "zns_inv z" "no_zrwa z" "shared_ok (ze_sh e)" and len: "rw_length (req_cmd req) < 65536"
    and rng: "rw_slba (req_cmd req) < zp_nr_zones (z_zp z) * zone_lbas z" "zid = rw_slba (req_cmd req) div zone_lbas z"
    and op: "rw_opcode (req_cmd req) = nvme_cmd_write" and bad: "rw_slba (req_cmd req) \<noteq> zd_wp (z_descs z ! zid)"
    and room: "write_bytes (req_cmd req) \<le> buf_remaining (wbuf_at z e zid)"
      "buf_remaining (wbuf_at z e zid) \<le> buf_size (wbuf_at z e zid)"
  shows "\<exists>req' ret' z' e'. zns_write clk req ret z e = Some (True, req', ret', z', e') \<and> ret_status ret' \<noteq> NVME_SC_SUCCESS \<and>
     z_descs z' = z_descs z \<and> ze_sched e' = ze_sched e \<and>
     buf_remaining (wbuf_at z' e' zid) = buf_remaining (wbuf_at z e zid) - write_bytes (req_cmd req)"
proof -
  let ?c = "req_cmd req"
  have sl: "write_slba z ?c = rw_slba ?c" using op by (simp add: write_slba_def nvme_consts zns_opcodes)
  have st: "write_status z zid (rw_slba ?c) (rw_length ?c + 1) \<noteq> NVME_SC_SUCCESS"
    using bad by (auto simp: write_status_def Let_def zns_codes)
  have "write_bytes ?c \<le> buf_size (wbuf_at z e zid)" using room by linarith
  from zns_write_zone_ok(1) [OF inv(1,3) len rng this refl refl room(1), of clk ret, unfolded sl] show ?thesis
    using zns_write_eq(1) [OF inv(1,2) rng(1), of clk ret e] st sl by (fastforce simp: wrote_def write_result_def)
qed

theorem rejected_write_leaks_buffer_witness:
  "\<exists>ns e req' ret' z' e'. zns_sample = Some (ns, e) \<and>
     zns_write zns_clock (rw_sample nvme_cmd_write 8 7) zns_blank (zn_ftl ns) e = Some (True, req', ret', z', e') \<and>
     ret_status ret' \<noteq> NVME_SC_SUCCESS \<and> ze_sched e' = [] \<and> buf_remaining (wbuf_at z' e' 0) = 983040 - 4096"
proof -
  obtain ns e where d: "zns_sample = Some (ns, e)" "zns_dev_inv (ns, e)" "zp_nr_zones (z_zp (zn_ftl ns)) = 4"
    "zone_lbas (zn_ftl ns) = 4194304" "z_descs (zn_ftl ns) = map (fresh_zone 4194304) [0..<4]"
    "zp_zone_wb_size (z_zp (zn_ftl ns)) = 983040" "z_wb (zn_ftl ns) = replicate 4 (buffer_init 983040)" "ze_sched e = []"
    using zns_sample_device by blast
  let ?z = "zn_ftl ns"
  have i: "zns_inv ?z" "no_zrwa ?z" "shared_ok (ze_sh e)" using d(2) by (simp_all add: zns_dev_inv_def)
  have "zd_wp (z_descs ?z ! 0) = 0" using d(5) by (simp add: fresh_zone_def)
  moreover have "wbuf_at ?z e 0 = \<lparr>buf_size = 983040, buf_remaining = 983040\<rparr>" using d(6,7) by (simp add: wbuf_at_def buffer_init_def)
  ultimately show ?thesis
    using rejected_write_leaks_buffer [OF i, of "rw_sample nvme_cmd_write 8 7" 0 zns_clock zns_blank] d(1,3,4,8)
    by (intro exI [of _ ns] exI [of _ e]) auto
qed

text \<open>
  A random write area on a device without one stops the machine. Both shipped zoned
  configurations have areas of size 0, yet opening the first zone with the option is accepted, and
  every write to it that is a multiple of the write unit and stays in the zone then divides by the
  flush granularity 0.
\<close>

theorem zrwa_write_divides_by_zero:
  assumes inv: "zns_inv z" and zero: "zp_lbas_per_zrwa (z_zp z) = 0" "zp_lbas_per_zrwafg (z_zp z) = 0"
    and empty: "zd_state (z_descs z ! 0) = ZONE_STATE_EMPTY" and avail: "acquired_cnt (z_res z ZRWA_ZONE) < zp_nr_zones (z_zp z)"
    and req: "rw_slba (req_cmd req) = 0" "rw_length (req_cmd req) < 65536" "rw_length (req_cmd req) < zone_lbas z"
      "(rw_length (req_cmd req) + 1) * 512 mod write_unit_size (z_sp z) = 0"
  shows "\<exists>z'. zmgmt_send junk 0 ZSA_OPEN_ZONE True z = Some (NVME_SC_SUCCESS, z') \<and> zns_inv z' \<and>
     zns_write clk req ret z' e = None"
proof -
  let ?d = "z_descs z ! 0" and ?n = "rw_length (req_cmd req) + 1"
  note g = zns_invD(1) [OF inv]
  have nz: "0 < zp_nr_zones (z_zp z)" using avail by linarith
  have r: "0 < zp_nr_zones (z_zp z) * zone_lbas z" using nz zns_geoD(4) [OF g] by simp
  have act: "act_of ZSA_OPEN_ZONE True = Some (Open_zone True)" by (simp add: act_of_def zsa_codes)
  obtain z' where z': "zmgmt_send junk 0 ZSA_OPEN_ZONE True z = Some (NVME_SC_SUCCESS, z')"
    "acted 0 (?d\<lparr>zd_state := ZONE_STATE_OPENED_EXPL, zd_zrwav := True\<rparr>) z z'"
    using zmgmt_send_acts [OF inv r _ act avail, of 0 junk] empty by auto
  have v: "zns_inv z'" "z_zp z' = z_zp z" "z_sp z' = z_sp z" "zone_lbas z' = zone_lbas z"
    "z_descs z' ! 0 = ?d\<lparr>zd_state := ZONE_STATE_OPENED_EXPL, zd_zrwav := True\<rparr>" "0 < length (z_descs z')"
    using z'(2) zns_invD(3) [OF inv] nz by (simp_all add: acted_def zone_upd_def zone_lbas_def)
  have wp: "zd_wp ?d = 0" using zns_invD(5) [OF inv nz] empty by (simp add: zone_ok_def)
  have l0: "lba_to_zone z' 0 = 0" "lpn_to_zone z' (lba_to_lpn z' 0) = 0" by (simp_all add: lba_to_zone_def lpn_to_zone_def lba_to_lpn_def u32_id)
  note bl = write_blocks [OF req(2)] and bd = boundary_eq [OF zns_invD(1) [OF v(1)], of 0 ?n]
  have b: "check_boundary_error z' 0 ?n" "u64_sub (u64 (0 + ?n)) 1 = ?n - 1"
    using bd req(2,3) v(4) by simp_all
  have fc: "zrwa_flush_count z' 0 0 (?n - 1) = None" using zero v(2) by (simp add: zrwa_flush_count_def u64_id Let_def)
  have end_of: "u64_sub (u64 (0 + u32 (2 * 0))) 1 = 18446744073709551615" by (simp add: u64_sub_def u64_def u32_def)
  have "zns_write_zrwa clk req ret z' e = None"
    using req(1,2,4) l0 v wp b zero bl fc end_of
    by (simp add: zns_write_zrwa_def Let_def enter_zrwa_zone_def write_bytes_def)
  then have "zns_write clk req ret z' e = None" using req(1) l0 v by (simp add: zns_write_def)
  then show ?thesis using z'(1) v(1) by blast
qed

theorem zrwa_write_divides_by_zero_witness:
  "\<exists>ns e z'. zns_sample = Some (ns, e) \<and> zmgmt_send 0 0 ZSA_OPEN_ZONE True (zn_ftl ns) = Some (NVME_SC_SUCCESS, z') \<and>
     zns_write zns_clock (rw_sample nvme_cmd_write 0 7) zns_blank z' e = None"
proof -
  obtain ns e where d: "zns_sample = Some (ns, e)" "zns_dev_inv (ns, e)" "zone_lbas (zn_ftl ns) = 4194304"
    "z_descs (zn_ftl ns) = map (fresh_zone 4194304) [0..<4]" "write_unit_size (z_sp (zn_ftl ns)) = 512"
    "zp_lbas_per_zrwa (z_zp (zn_ftl ns)) = 0" "zp_lbas_per_zrwafg (z_zp (zn_ftl ns)) = 0" using zns_sample_device by blast
  have i: "zns_inv (zn_ftl ns)" using d(2) by (simp add: zns_dev_inv_def)
  have "zd_state (z_descs (zn_ftl ns) ! 0) = ZONE_STATE_EMPTY" using d(4) by (simp add: fresh_zone_def)
  from zrwa_write_divides_by_zero [OF i d(6,7) this sample_resources [OF d(1)], of "rw_sample nvme_cmd_write 0 7" 0 zns_clock zns_blank e]
  show ?thesis using d(1,3,5) by auto
qed

end
