(* ===== verification/Io_Queue.thy ===== *)
theory Io_Queue
  imports Ssd Nvme_Cmd Bytes
begin

text \<open>
  The queues between the dispatcher and the worker threads (\<open>io.c\<close>).

  \<^item> A worker keeps its requests in a static array. \<open>next\<close> and \<open>prev\<close> chain the entries in use,
    ordered by target time, and the free entries; \<open>(unsigned int)-1\<close> ends a chain.
  \<^item> \<open>'b\<close> stands for the pointers to write buffers; the buffers are a function of them.
  \<^item> The device as the queue code sees it: submission queues as lists of commands, completion
    queues, the memory areas behind the namespaces, the host's memory, the write buffers, and the
    interrupt vectors that have been signalled. A NULL queue is \<open>None\<close>.
  \<^item> A step of the dispatcher or one iteration of the worker's loop is atomic. The build options
    are those of the repository: \<open>CONFIG_NVMEV_IO_WORKER_BY_SQ\<close> set, data copied by the CPU.
\<close>

definition NR_MAX_PARALLEL_IO :: nat where "NR_MAX_PARALLEL_IO = 16384"

text \<open>The value -1 of an \<open>unsigned int\<close>.\<close>

definition NONE32 :: nat where "NONE32 = 4294967295"

section \<open>State\<close>

record 'b nvmev_io_work =
  w_sqid :: nat
  w_cqid :: nat
  w_sq_entry :: nat
  w_command_id :: nat
  w_nsecs_start :: nat
  w_nsecs_target :: nat
  w_nsecs_enqueue :: nat
  w_is_copied :: bool
  w_is_completed :: bool
  w_status :: nat
  w_result0 :: nat
  w_result1 :: nat
  w_is_internal :: bool
  w_write_buffer :: 'b
  w_buffs_to_release :: nat
  w_next :: nat
  w_prev :: nat

record 'b nvmev_io_worker =
  work_queue :: "'b nvmev_io_work list"
  free_seq :: nat
  free_seq_end :: nat
  io_seq :: nat
  io_seq_end :: nat
  latest_nsecs :: nat
  wk_id :: nat

text \<open>The fields of a command that the copy reads besides those of \<open>nvme_rw_command\<close>.\<close>

record nvme_io_command = nvme_rw_command +
  c_command_id :: nat
  c_prp1 :: nat
  c_prp2 :: nat

record nvme_completion =
  cqe_result0 :: nat
  cqe_result1 :: nat
  cqe_sq_head :: nat
  cqe_sq_id :: nat
  cqe_command_id :: nat
  cqe_status :: nat

record nvmev_completion_queue =
  cq_irq_vector :: nat
  cq_irq_enabled :: bool
  cq_interrupt_ready :: bool
  cq_queue_size :: nat
  cq_phase :: nat
  cq_head :: nat
  cq_tail :: int
  cq_entries :: "nvme_completion list"

record nvmev_sq_stat =
  nr_dispatched :: nat
  nr_dispatch :: nat
  nr_in_flight :: nat
  max_nr_in_flight :: nat
  total_io :: nat

record nvmev_submission_queue =
  sq_cqid :: nat
  sq_queue_size :: nat
  sq_stat :: nvmev_sq_stat
  sq_entries :: "nvme_io_command list"

record ns_area =
  na_size :: nat
  na_bytes :: "nat \<Rightarrow> nat"

record 'b io_dev =
  d_sqes :: "nvmev_submission_queue option list"
  d_cqes :: "nvmev_completion_queue option list"
  d_ns :: "ns_area list"
  d_mem :: "nat \<Rightarrow> nat"
  d_buffers :: "'b \<Rightarrow> buffer"
  d_irqs :: "nat list"

text \<open>A pointer in an array of pointers: out of range or NULL stops the machine.\<close>

definition deref :: "'a option list \<Rightarrow> nat \<Rightarrow> 'a option" where
  "deref xs i = Option.bind (rd xs i) (\<lambda>x. x)"

section \<open>The sorted queue\<close>

text \<open>The search from the tail; a chain that does not end would be followed for ever.\<close>

partial_function (option) find_slot :: "'b nvmev_io_worker \<Rightarrow> nat \<Rightarrow> nat \<Rightarrow> nat option" where
  "find_slot wk nsecs_target cur =
     (if cur = NONE32 then Some NONE32
      else case rd (work_queue wk) cur of
        None \<Rightarrow> None
      | Some w \<Rightarrow>
          if w_nsecs_target w \<le> latest_nsecs wk then Some cur
          else if w_nsecs_target w \<le> nsecs_target then Some cur
          else find_slot wk nsecs_target (w_prev w))"

definition upd_work :: "nat \<Rightarrow> ('b nvmev_io_work \<Rightarrow> 'b nvmev_io_work) \<Rightarrow> 'b nvmev_io_worker \<Rightarrow> 'b nvmev_io_worker option" where
  "upd_work i f wk = do {
     w \<leftarrow> rd (work_queue wk) i;
     Some (wk\<lparr>work_queue := (work_queue wk)[i := f w]\<rparr>)
   }"

definition insert_req_sorted :: "nat \<Rightarrow> nat \<Rightarrow> 'b nvmev_io_worker \<Rightarrow> 'b nvmev_io_worker option" where
  "insert_req_sorted entry nsecs_target wk =
     (if io_seq wk = NONE32 then Some (wk\<lparr>io_seq := entry, io_seq_end := entry\<rparr>)
      else do {
        cur \<leftarrow> find_slot wk nsecs_target (io_seq_end wk);
        if cur = NONE32 then do {
          wk1 \<leftarrow> upd_work (io_seq wk) (\<lambda>w. w\<lparr>w_prev := entry\<rparr>) wk;
          wk2 \<leftarrow> upd_work entry (\<lambda>w. w\<lparr>w_next := io_seq wk\<rparr>) wk1;
          Some (wk2\<lparr>io_seq := entry\<rparr>)
        } else do {
          c \<leftarrow> rd (work_queue wk) cur;
          if w_next c = NONE32 then do {
            wk1 \<leftarrow> upd_work entry (\<lambda>w. w\<lparr>w_prev := cur\<rparr>) wk;
            wk2 \<leftarrow> upd_work cur (\<lambda>w. w\<lparr>w_next := entry\<rparr>) (wk1\<lparr>io_seq_end := entry\<rparr>);
            Some wk2
          } else do {
            wk1 \<leftarrow> upd_work entry (\<lambda>w. w\<lparr>w_prev := cur, w_next := w_next c\<rparr>) wk;
            wk2 \<leftarrow> upd_work (w_next c) (\<lambda>w. w\<lparr>w_prev := entry\<rparr>) wk1;
            upd_work cur (\<lambda>w. w\<lparr>w_next := entry\<rparr>) wk2
          }
        }
      })"

text \<open>
  The allocation takes the head of the free chain; the last free entry is never given out. The
  turn counter that the function also advances is not used when workers are chosen by queue.
\<close>

definition get_io_worker :: "nat \<Rightarrow> nat \<Rightarrow> nat" where
  "get_io_worker nr_io_workers sqid = u32_sub sqid 1 mod nr_io_workers"

definition allocate_work_queue_entry :: "'b nvmev_io_worker \<Rightarrow> (nat option \<times> 'b nvmev_io_worker) option" where
  "allocate_work_queue_entry wk = do {
     w \<leftarrow> rd (work_queue wk) (free_seq wk);
     if w_next w \<ge> NR_MAX_PARALLEL_IO then Some (None, wk)
     else do {
       NVMEV_ASSERT (\<not> w_next w \<ge> NR_MAX_PARALLEL_IO);
       Some (Some (free_seq wk), wk\<lparr>free_seq := w_next w\<rparr>)
     }
   }"

text \<open>A request for which there is no entry is dropped.\<close>

definition enqueue_io_req ::
  "nat \<Rightarrow> nat \<Rightarrow> nat \<Rightarrow> nat \<Rightarrow> nat \<Rightarrow> nat \<Rightarrow> nvmev_result \<Rightarrow> 'b nvmev_io_worker \<Rightarrow> 'b nvmev_io_worker option" where
  "enqueue_io_req sqid cqid sq_entry command_id nsecs_start now ret wk = do {
     (entry, wk1) \<leftarrow> allocate_work_queue_entry wk;
     case entry of
       None \<Rightarrow> Some wk1
     | Some e \<Rightarrow> do {
         wk2 \<leftarrow> upd_work e (\<lambda>w. w\<lparr>w_sqid := sqid, w_cqid := cqid, w_sq_entry := sq_entry, w_command_id := command_id,
             w_nsecs_start := nsecs_start, w_nsecs_enqueue := now, w_nsecs_target := ret_nsecs_target ret,
             w_status := ret_status ret, w_result0 := ret_result ret mod 2 ^ 32, w_result1 := u32 (ret_result ret div 2 ^ 32),
             w_is_completed := False, w_is_copied := False, w_prev := NONE32, w_next := NONE32, w_is_internal := False\<rparr>) wk1;
         insert_req_sorted e (ret_nsecs_target ret) wk2
       }
   }"

definition schedule_internal_operation ::
  "nat \<Rightarrow> nat \<Rightarrow> 'b \<Rightarrow> nat \<Rightarrow> nat \<Rightarrow> 'b nvmev_io_worker \<Rightarrow> 'b nvmev_io_worker option" where
  "schedule_internal_operation sqid nsecs_target write_buffer buffs_to_release now wk = do {
     (entry, wk1) \<leftarrow> allocate_work_queue_entry wk;
     case entry of
       None \<Rightarrow> Some wk1
     | Some e \<Rightarrow> do {
         wk2 \<leftarrow> upd_work e (\<lambda>w. w\<lparr>w_sqid := sqid, w_nsecs_start := now, w_nsecs_enqueue := now,
             w_nsecs_target := nsecs_target, w_is_completed := False, w_is_copied := True, w_prev := NONE32,
             w_next := NONE32, w_is_internal := True, w_write_buffer := write_buffer,
             w_buffs_to_release := buffs_to_release\<rparr>) wk1;
         insert_req_sorted e nsecs_target wk2
       }
   }"

text \<open>The last entry of the prefix that can be reclaimed, \<open>NONE32\<close> if there is none.\<close>

definition reclaimable :: "'b nvmev_io_worker \<Rightarrow> 'b nvmev_io_work \<Rightarrow> bool" where
  "reclaimable wk w \<longleftrightarrow> w_is_completed w \<and> w_is_copied w \<and> w_nsecs_target w \<le> latest_nsecs wk"

partial_function (option) reclaim_scan :: "'b nvmev_io_worker \<Rightarrow> nat \<Rightarrow> nat \<Rightarrow> nat option" where
  "reclaim_scan wk last_entry cur =
     (if cur = NONE32 then Some last_entry
      else case rd (work_queue wk) cur of
        None \<Rightarrow> None
      | Some w \<Rightarrow> if reclaimable wk w then reclaim_scan wk cur (w_next w) else Some last_entry)"

definition reclaim_worker :: "'b nvmev_io_worker \<Rightarrow> 'b nvmev_io_worker option" where
  "reclaim_worker wk = do {
     let first_entry = io_seq wk;
     last_entry \<leftarrow> reclaim_scan wk NONE32 first_entry;
     if last_entry = NONE32 then Some wk
     else do {
       w \<leftarrow> rd (work_queue wk) last_entry;
       let wk1 = wk\<lparr>io_seq := w_next w\<rparr>;
       wk2 \<leftarrow> (if w_next w \<noteq> NONE32 then upd_work (w_next w) (\<lambda>v. v\<lparr>w_prev := NONE32\<rparr>) wk1 else Some wk1);
       wk3 \<leftarrow> upd_work last_entry (\<lambda>v. v\<lparr>w_next := NONE32\<rparr>) wk2;
       wk4 \<leftarrow> upd_work first_entry (\<lambda>v. v\<lparr>w_prev := free_seq_end wk3\<rparr>) wk3;
       wk5 \<leftarrow> upd_work (free_seq_end wk4) (\<lambda>v. v\<lparr>w_next := first_entry\<rparr>) wk4;
       Some (wk5\<lparr>free_seq_end := last_entry\<rparr>)
     }
   }"

definition reclaim_completed_reqs :: "'b nvmev_io_worker list \<Rightarrow> 'b nvmev_io_worker list option" where
  "reclaim_completed_reqs wks = foldM (\<lambda>turn wks. do {
     wk \<leftarrow> rd wks turn;
     wk' \<leftarrow> reclaim_worker wk;
     wr wks turn wk'
   }) [0..<length wks] wks"

text \<open>The array of a new worker: a free chain through all entries.\<close>

definition io_worker_init :: "'b \<Rightarrow> nat \<Rightarrow> 'b nvmev_io_worker" where
  "io_worker_init null worker_id =
     \<lparr>work_queue = map (\<lambda>i. \<lparr>w_sqid = 0, w_cqid = 0, w_sq_entry = 0, w_command_id = 0, w_nsecs_start = 0, w_nsecs_target = 0,
          w_nsecs_enqueue = 0, w_is_copied = False, w_is_completed = False, w_status = 0, w_result0 = 0, w_result1 = 0,
          w_is_internal = False, w_write_buffer = null, w_buffs_to_release = 0,
          w_next = (if i = NR_MAX_PARALLEL_IO - 1 then NONE32 else i + 1), w_prev = u32_sub i 1\<rparr>) [0..<NR_MAX_PARALLEL_IO],
      free_seq = 0, free_seq_end = NR_MAX_PARALLEL_IO - 1, io_seq = NONE32, io_seq_end = NONE32, latest_nsecs = 0,
      wk_id = worker_id\<rparr>"

end
