(* ===== verification/Chains.thy ===== *)
theory Chains
  imports Nvmev_Base
begin

text \<open>
  Chains of array indices: arrays whose entries hold the index of the next entry, as the work
  queues and the key-value table have them.
\<close>

text \<open>\<open>path f a xs z\<close>: following \<open>f\<close> from \<open>a\<close> visits \<open>xs\<close> and then arrives at \<open>z\<close>.\<close>

fun path :: "(nat \<Rightarrow> nat) \<Rightarrow> nat \<Rightarrow> nat list \<Rightarrow> nat \<Rightarrow> bool" where
  "path f a [] z \<longleftrightarrow> a = z"
| "path f a (x # xs) z \<longleftrightarrow> a = x \<and> path f (f x) xs z"

lemma path_append [simp]: "path f a (xs @ ys) z \<longleftrightarrow> (\<exists>y. path f a xs y \<and> path f y ys z)"
  by (induction xs arbitrary: a) simp_all

lemma path_cong: "(\<And>x. x \<in> set xs \<Longrightarrow> f x = g x) \<Longrightarrow> path f a xs z = path g a xs z"
  by (induction xs arbitrary: a) auto

lemma path_insert:
  assumes p: "path f a (xs @ ys) z" and ne: "xs \<noteq> []" and d: "distinct xs" "e \<notin> set xs"
    and g: "\<And>x. x \<in> set (xs @ ys) \<Longrightarrow> x \<noteq> last xs \<Longrightarrow> g x = f x" "last xs \<notin> set ys" "g (last xs) = e" "g e = f (last xs)"
  shows "path g a (xs @ e # ys) z"
proof -
  obtain us l where us: "xs = us @ [l]" using ne by (metis append_butlast_last_id)
  have "path f a us l" "path f (f l) ys z" using p us by auto
  moreover have "path g a us l = path f a us l" by (rule path_cong) (use g(1) us d in auto)
  moreover have "path g (f l) ys z = path f (f l) ys z" by (rule path_cong) (use g(1,2) us in auto)
  ultimately show ?thesis using g(3,4) us by simp
qed

lemma path_hd: "path f a xs z \<Longrightarrow> xs \<noteq> [] \<Longrightarrow> hd xs = a"
  by (cases xs) auto

lemma path_last: "path f a (xs @ ys) z \<Longrightarrow> xs \<noteq> [] \<Longrightarrow> ys \<noteq> [] \<Longrightarrow> f (last xs) = hd ys"
  by (induction xs arbitrary: a) (auto dest: path_hd)

lemma path_end: "path f a xs z \<Longrightarrow> xs \<noteq> [] \<Longrightarrow> f (last xs) = z"
  by (induction xs arbitrary: a) auto

lemma path_rest: "path f a (xs @ ys) z \<Longrightarrow> xs \<noteq> [] \<Longrightarrow> path f (f (last xs)) ys z"
  by (induction xs arbitrary: a) auto

lemma path_cut:
  assumes p: "path f a (xs @ ys) z" and ne: "xs \<noteq> []" and d: "distinct xs"
    and g: "\<And>x. x \<in> set xs \<Longrightarrow> x \<noteq> last xs \<Longrightarrow> g x = f x" "g (last xs) = w"
  shows "path g a xs w"
proof -
  obtain us l where us: "xs = us @ [l]" using ne by (metis append_butlast_last_id)
  have "path f a us l" using p us by auto
  moreover have "path g a us l = path f a us l" by (rule path_cong) (use g(1) us d in auto)
  ultimately show ?thesis using g(2) us by simp
qed

lemma path_upt: "(\<And>i. m \<le> i \<Longrightarrow> i < n \<Longrightarrow> f i = (if Suc i = n then z else Suc i)) \<Longrightarrow> m < n \<Longrightarrow> path f m [m..<n] z"
proof (induction "n - m" arbitrary: m)
  case (Suc d)
  show ?case
  proof (cases "Suc m = n")
    case True
    then show ?thesis using Suc.prems by (simp add: upt_conv_Cons)
  next
    case False
    then have "path f (Suc m) [Suc m..<n] z" using Suc by auto
    moreover have "f m = Suc m" using Suc.prems False by simp
    ultimately show ?thesis using Suc.prems by (simp add: upt_conv_Cons)
  qed
qed simp

end
