(* ===== verification/Io_Sorted.thy ===== *)
theory Io_Sorted
  imports Io_Queue Chains
begin

text \<open>
  The work queue as a list: the chains through the array of a worker are two lists of entries,
  the requests in order of their target times and the free entries. Inserting, allocating and
  reclaiming are the corresponding list operations.
\<close>

section \<open>The invariant of a worker\<close>

definition nx :: "'b nvmev_io_worker \<Rightarrow> nat \<Rightarrow> nat" where "nx wk i = w_next (work_queue wk ! i)"
definition pv :: "'b nvmev_io_worker \<Rightarrow> nat \<Rightarrow> nat" where "pv wk i = w_prev (work_queue wk ! i)"
definition tgt :: "'b nvmev_io_worker \<Rightarrow> nat \<Rightarrow> nat" where "tgt wk i = w_nsecs_target (work_queue wk ! i)"

text \<open>The time by which a request is ordered: its target, or the present if that is later.\<close>

definition due :: "'b nvmev_io_worker \<Rightarrow> nat \<Rightarrow> nat" where "due wk i = max (tgt wk i) (latest_nsecs wk)"

text \<open>An entry without its links, and the queue of a worker as the list of its requests.\<close>

definition request :: "'b nvmev_io_work \<Rightarrow> 'b nvmev_io_work" where "request w = w\<lparr>w_next := 0, w_prev := 0\<rparr>"

definition requests :: "'b nvmev_io_worker \<Rightarrow> nat list \<Rightarrow> 'b nvmev_io_work list" where
  "requests wk xs = map (\<lambda>i. request (work_queue wk ! i)) xs"

lemma request_sel [simp]:
  "w_nsecs_target (request w) = w_nsecs_target w" "w_is_copied (request w) = w_is_copied w"
  "w_is_completed (request w) = w_is_completed w" "w_is_internal (request w) = w_is_internal w"
  "reclaimable wk (request w) = reclaimable wk w" "request (request w) = request w"
  by (simp_all add: request_def reclaimable_def)

definition worker_inv :: "'b nvmev_io_worker \<Rightarrow> nat list \<Rightarrow> nat list \<Rightarrow> bool" where
  "worker_inv wk xs ys \<longleftrightarrow> length (work_queue wk) = NR_MAX_PARALLEL_IO \<and>
     distinct (xs @ ys) \<and> set (xs @ ys) = {..<NR_MAX_PARALLEL_IO} \<and>
     path (nx wk) (io_seq wk) xs NONE32 \<and> (xs \<noteq> [] \<longrightarrow> path (pv wk) (io_seq_end wk) (rev xs) NONE32) \<and>
     ys \<noteq> [] \<and> path (nx wk) (free_seq wk) ys NONE32 \<and> free_seq_end wk = last ys \<and>
     sorted (map (due wk) xs)"

lemma worker_invD:
  assumes "worker_inv wk xs ys"
  shows "length (work_queue wk) = NR_MAX_PARALLEL_IO" "distinct (xs @ ys)" "set (xs @ ys) = {..<NR_MAX_PARALLEL_IO}"
    "path (nx wk) (io_seq wk) xs NONE32" "xs \<noteq> [] \<Longrightarrow> path (pv wk) (io_seq_end wk) (rev xs) NONE32"
    "ys \<noteq> []" "path (nx wk) (free_seq wk) ys NONE32" "free_seq_end wk = last ys" "sorted (map (due wk) xs)"
    "x \<in> set xs \<Longrightarrow> x < NR_MAX_PARALLEL_IO" "x \<in> set ys \<Longrightarrow> x < NR_MAX_PARALLEL_IO"
proof -
  show "length (work_queue wk) = NR_MAX_PARALLEL_IO" "distinct (xs @ ys)" "set (xs @ ys) = {..<NR_MAX_PARALLEL_IO}"
    "path (nx wk) (io_seq wk) xs NONE32" "xs \<noteq> [] \<Longrightarrow> path (pv wk) (io_seq_end wk) (rev xs) NONE32"
    "ys \<noteq> []" "path (nx wk) (free_seq wk) ys NONE32" "free_seq_end wk = last ys" "sorted (map (due wk) xs)"
    using assms unfolding worker_inv_def by blast+
  then show "x \<in> set xs \<Longrightarrow> x < NR_MAX_PARALLEL_IO" "x \<in> set ys \<Longrightarrow> x < NR_MAX_PARALLEL_IO"
    by (metis UnCI lessThan_iff set_append)+
qed

lemma not_none: "i < NR_MAX_PARALLEL_IO \<Longrightarrow> i \<noteq> NONE32"
  by (simp add: NR_MAX_PARALLEL_IO_def NONE32_def)

lemma upd_work_eq:
  "i < length (work_queue wk) \<Longrightarrow> upd_work i f wk = Some (wk\<lparr>work_queue := (work_queue wk)[i := f (work_queue wk ! i)]\<rparr>)"
  by (simp add: upd_work_def)

section \<open>Insertion\<close>

text \<open>The requests that stay before a new one with target \<open>t\<close>, and those that come after it.\<close>

definition later :: "'b nvmev_io_worker \<Rightarrow> nat \<Rightarrow> nat \<Rightarrow> bool" where
  "later wk t i \<longleftrightarrow> latest_nsecs wk < tgt wk i \<and> t < tgt wk i"

definition before :: "'b nvmev_io_worker \<Rightarrow> nat \<Rightarrow> nat list \<Rightarrow> nat list" where
  "before wk t xs = rev (dropWhile (later wk t) (rev xs))"

definition after :: "'b nvmev_io_worker \<Rightarrow> nat \<Rightarrow> nat list \<Rightarrow> nat list" where
  "after wk t xs = rev (takeWhile (later wk t) (rev xs))"

lemma before_after: "before wk t xs @ after wk t xs = xs"
  by (simp add: before_def after_def rev_append [symmetric])

lemma after_later: "x \<in> set (after wk t xs) \<Longrightarrow> later wk t x"
  by (auto simp: after_def dest: set_takeWhileD)

lemma before_last: "before wk t xs \<noteq> [] \<Longrightarrow> \<not> later wk t (last (before wk t xs))"
  by (simp add: before_def last_rev hd_dropWhile)

lemma find_slot_eq:
  assumes "path (pv wk) a (rev xs) NONE32" "\<And>x. x \<in> set xs \<Longrightarrow> x < length (work_queue wk) \<and> x \<noteq> NONE32"
  shows "find_slot wk t a = Some (if before wk t xs = [] then NONE32 else last (before wk t xs))"
  using assms
proof (induction xs arbitrary: a rule: rev_induct)
  case Nil
  then show ?case by (simp add: find_slot.simps before_def)
next
  case (snoc x xs)
  have a: "a = x" "path (pv wk) (pv wk x) (rev xs) NONE32" "x < length (work_queue wk)" "x \<noteq> NONE32" using snoc.prems by auto
  show ?case
  proof (cases "later wk t x")
    case True
    then have "find_slot wk t a = find_slot wk t (pv wk x)"
      using a by (subst find_slot.simps) (auto simp: later_def tgt_def pv_def)
    moreover have "before wk t (xs @ [x]) = before wk t xs" using True by (simp add: before_def)
    ultimately show ?thesis using snoc.IH [OF a(2)] snoc.prems(2) by simp
  next
    case False
    then have "find_slot wk t a = Some x" using a by (subst find_slot.simps) (auto simp: later_def tgt_def)
    then show ?thesis using False by (simp add: before_def)
  qed
qed

text \<open>Changing the links of an entry.\<close>

definition setn :: "nat \<Rightarrow> nat \<Rightarrow> 'b nvmev_io_worker \<Rightarrow> 'b nvmev_io_worker" where
  "setn i n wk = wk\<lparr>work_queue := (work_queue wk)[i := (work_queue wk ! i)\<lparr>w_next := n\<rparr>]\<rparr>"
definition setp :: "nat \<Rightarrow> nat \<Rightarrow> 'b nvmev_io_worker \<Rightarrow> 'b nvmev_io_worker" where
  "setp i p wk = wk\<lparr>work_queue := (work_queue wk)[i := (work_queue wk ! i)\<lparr>w_prev := p\<rparr>]\<rparr>"

lemma nth_upd: "xs[i := v] ! j = (if i = j \<and> i < length xs then v else xs ! j)"
  by (cases "i = j") (auto simp: list_update_beyond)

lemma set_links [simp]:
  "i < length (work_queue wk) \<Longrightarrow> nx (setn i n wk) = (nx wk)(i := n)" "pv (setn i n wk) = pv wk"
  "i < length (work_queue wk) \<Longrightarrow> pv (setp i n wk) = (pv wk)(i := n)" "nx (setp i n wk) = nx wk"
  "length (work_queue (setn i n wk)) = length (work_queue wk)" "length (work_queue (setp i n wk)) = length (work_queue wk)"
  by (auto simp: nx_def pv_def setn_def setp_def nth_upd fun_eq_iff)

lemma seq_links [simp]:
  "nx (wk\<lparr>io_seq := a\<rparr>) = nx wk" "pv (wk\<lparr>io_seq := a\<rparr>) = pv wk" "nx (wk\<lparr>io_seq_end := a\<rparr>) = nx wk"
  "pv (wk\<lparr>io_seq_end := a\<rparr>) = pv wk"
  by (simp_all add: nx_def pv_def fun_eq_iff)

lemma upd_work_links:
  assumes "i < length (work_queue wk)"
  shows "upd_work i (\<lambda>w. w\<lparr>w_next := n\<rparr>) wk = Some (setn i n wk)" "upd_work i (\<lambda>w. w\<lparr>w_prev := p\<rparr>) wk = Some (setp i p wk)"
    "upd_work i (\<lambda>w. w\<lparr>w_prev := p, w_next := n\<rparr>) wk = Some (setn i n (setp i p wk))"
  using assms by (simp_all add: upd_work_def setn_def setp_def)

text \<open>What changing links of entries in \<open>S\<close> keeps.\<close>

definition links_only :: "nat set \<Rightarrow> 'b nvmev_io_worker \<Rightarrow> 'b nvmev_io_worker \<Rightarrow> bool" where
  "links_only S wk wk' \<longleftrightarrow> length (work_queue wk') = length (work_queue wk) \<and>
     (\<forall>i. i \<notin> S \<longrightarrow> work_queue wk' ! i = work_queue wk ! i) \<and>
     (\<forall>i. \<exists>n p. work_queue wk' ! i = (work_queue wk ! i)\<lparr>w_next := n, w_prev := p\<rparr>) \<and>
     free_seq wk' = free_seq wk \<and> latest_nsecs wk' = latest_nsecs wk \<and> wk_id wk' = wk_id wk"

lemma same_links: "\<exists>n p. w = w\<lparr>w_next := n, w_prev := p\<rparr>"
  by (rule exI [of _ "w_next w"], rule exI [of _ "w_prev w"]) simp

lemma links_only_refl: "links_only S wk wk"
  by (simp add: links_only_def same_links)

lemma links_only_steps:
  assumes "links_only S wk wk1"
  shows "i \<in> S \<Longrightarrow> links_only S wk (setn i n wk1)" "i \<in> S \<Longrightarrow> links_only S wk (setp i n wk1)"
    "links_only S wk (wk1\<lparr>io_seq := a\<rparr>)" "links_only S wk (wk1\<lparr>io_seq_end := a\<rparr>)" "links_only S wk (wk1\<lparr>free_seq_end := a\<rparr>)"
proof -
  have l: "\<exists>n p. work_queue wk1 ! i = (work_queue wk ! i)\<lparr>w_next := n, w_prev := p\<rparr>" for i using assms by (simp add: links_only_def)
  have u: "\<exists>n p. (work_queue wk1 ! i)\<lparr>w_next := a\<rparr> = (work_queue wk ! i)\<lparr>w_next := n, w_prev := p\<rparr>"
     "\<exists>n p. (work_queue wk1 ! i)\<lparr>w_prev := a\<rparr> = (work_queue wk ! i)\<lparr>w_next := n, w_prev := p\<rparr>" for i a
  proof -
    obtain n p where e: "work_queue wk1 ! i = (work_queue wk ! i)\<lparr>w_next := n, w_prev := p\<rparr>" using l [of i] by blast
    have "(work_queue wk1 ! i)\<lparr>w_next := a\<rparr> = (work_queue wk ! i)\<lparr>w_next := a, w_prev := p\<rparr>"
      "(work_queue wk1 ! i)\<lparr>w_prev := a\<rparr> = (work_queue wk ! i)\<lparr>w_next := n, w_prev := a\<rparr>" unfolding e by simp_all
    then show "\<exists>n p. (work_queue wk1 ! i)\<lparr>w_next := a\<rparr> = (work_queue wk ! i)\<lparr>w_next := n, w_prev := p\<rparr>"
     "\<exists>n p. (work_queue wk1 ! i)\<lparr>w_prev := a\<rparr> = (work_queue wk ! i)\<lparr>w_next := n, w_prev := p\<rparr>" by blast+
  qed
  show "i \<in> S \<Longrightarrow> links_only S wk (setn i n wk1)" "i \<in> S \<Longrightarrow> links_only S wk (setp i n wk1)"
    using assms u l by (auto simp: links_only_def setn_def setp_def nth_upd)
  show "links_only S wk (wk1\<lparr>io_seq := a\<rparr>)" "links_only S wk (wk1\<lparr>io_seq_end := a\<rparr>)" "links_only S wk (wk1\<lparr>free_seq_end := a\<rparr>)"
    using assms by (simp_all add: links_only_def)
qed

text \<open>
  The new request goes between the two parts. The entry's own links are \<open>NONE32\<close> and its target
  is \<open>t\<close>, as the callers set them.
\<close>

definition relinked :: "nat list \<Rightarrow> nat \<Rightarrow> nat list \<Rightarrow> 'b nvmev_io_worker \<Rightarrow> 'b nvmev_io_worker \<Rightarrow> bool" where
  "relinked xs e ys wk wk' \<longleftrightarrow> links_only (set (xs @ e # ys)) wk wk' \<and> free_seq_end wk' = free_seq_end wk \<and>
     path (nx wk') (io_seq wk') (xs @ e # ys) NONE32 \<and> path (pv wk') (io_seq_end wk') (rev (xs @ e # ys)) NONE32"

lemma insert_req_sorted_links:
  assumes p: "path (nx wk) (io_seq wk) zs NONE32" "zs \<noteq> [] \<longrightarrow> path (pv wk) (io_seq_end wk) (rev zs) NONE32"
    and d: "distinct zs" "e \<notin> set zs" and r: "\<And>x. x \<in> set zs \<union> {e} \<Longrightarrow> x < length (work_queue wk) \<and> x \<noteq> NONE32"
    and e: "nx wk e = NONE32" "pv wk e = NONE32"
  shows "\<exists>wk'. insert_req_sorted e t wk = Some wk' \<and> relinked (before wk t zs) e (after wk t zs) wk wk'"
proof (cases "zs = []")
  case True
  have "relinked [] e [] wk (wk\<lparr>io_seq := e, io_seq_end := e\<rparr>)"
    using e by (simp add: relinked_def links_only_steps links_only_refl)
  then show ?thesis using True p by (simp add: insert_req_sorted_def before_def after_def)
next
  case False
  let ?xs = "before wk t zs" and ?ys = "after wk t zs" and ?h = "io_seq wk"
  have z: "?xs @ ?ys = zs" by (rule before_after)
  have h: "?h = hd zs" "?h \<in> set zs" "?h \<noteq> NONE32" using path_hd [OF p(1) False] False r [of "hd zs"] hd_in_set [OF False] by auto
  have bp: "path (pv wk) (io_seq_end wk) (rev zs) NONE32" using p(2) False by simp
  have fs: "find_slot wk t (io_seq_end wk) = Some (if ?xs = [] then NONE32 else last ?xs)"
    by (rule find_slot_eq [OF bp]) (use r in auto)
  have rl: "x < length (work_queue wk)" if "x \<in> set zs \<union> {e}" for x using r [OF that] by simp
  show ?thesis
  proof (cases "?xs = []")
    case True
    let ?wk = "(setn e ?h (setp ?h e wk))\<lparr>io_seq := e\<rparr>"
    have zy: "?ys = zs" using z True by simp
    have he: "?h \<noteq> e" using h(2) d(2) by auto
    have "path ((nx wk)(e := ?h)) ?h zs NONE32 = path (nx wk) ?h zs NONE32" by (rule path_cong) (use d(2) in auto)
    moreover have "path ((pv wk)(?h := e)) (io_seq_end wk) (rev zs @ e # []) NONE32"
      by (rule path_insert [where f = "pv wk"]) (use bp False d he e(2) path_end [OF bp] h(1) in \<open>auto simp: last_rev\<close>)
    ultimately have "relinked [] e zs wk ?wk"
      using p(1) rl h(2) he by (simp add: relinked_def links_only_steps links_only_refl) (simp add: setn_def setp_def)
    then show ?thesis using fs True zy h(2,3) rl by (intro exI [of _ ?wk]) (simp add: insert_req_sorted_def upd_work_links)
  next
    case ne: False
    let ?c = "last ?xs"
    have c: "?c \<in> set zs" "?c \<noteq> NONE32" "?c \<noteq> e" using ne z d(2) r by (metis UnI1 append_is_Nil_conv in_set_conv_decomp_last last_in_set set_append Un_iff)+
    have cy: "?c \<notin> set ?ys" using d(1) z ne by (metis distinct_append disjoint_iff last_in_set)
    have dx: "distinct ?xs" "e \<notin> set ?xs" "e \<notin> set ?ys" using d z by (metis distinct_append Un_iff set_append)+
    show ?thesis
    proof (cases "?ys = []")
      case True
      let ?wk = "setn ?c e ((setp e ?c wk)\<lparr>io_seq_end := e\<rparr>)"
      have zx: "?xs = zs" using z True by simp
      have n: "nx wk ?c = NONE32" using path_end [OF p(1) False] zx by simp
      have "path ((nx wk)(?c := e)) ?h (zs @ e # []) NONE32"
        by (rule path_insert [where f = "nx wk"]) (use p(1) False d c e(1) n zx in auto)
      moreover have "path ((pv wk)(e := ?c)) ?c (rev zs) NONE32 = path (pv wk) ?c (rev zs) NONE32"
        by (rule path_cong) (use d(2) in auto)
      moreover have "io_seq_end wk = ?c" using path_hd [OF bp] False zx by (simp add: hd_rev)
      ultimately have "relinked zs e [] wk ?wk"
        using bp rl c by (simp add: relinked_def links_only_steps links_only_refl) (simp add: setn_def setp_def)
      then show ?thesis using fs ne True zx h(3) c rl n
        by (intro exI [of _ ?wk]) (simp add: insert_req_sorted_def upd_work_links nx_def)
    next
      case ny: False
      let ?n = "nx wk ?c" let ?wk = "setn ?c e (setp ?n e (setn e ?n (setp e ?c wk)))"
      have n: "?n = hd ?ys" using path_last [of "nx wk" ?h ?xs ?ys NONE32] p(1) z ne ny by simp
      then have ns: "?n \<in> set zs" "?n \<in> set ?ys" "?n \<noteq> e" "?n \<noteq> ?c" using ny z dx(3) cy by (metis Un_iff hd_in_set set_append)+
      have "path ((nx wk)(e := ?n, ?c := e)) ?h (?xs @ e # ?ys) NONE32"
        by (rule path_insert [where f = "nx wk"]) (use p(1) z ne dx c cy d(2) in auto)
      moreover have "path ((pv wk)(e := ?c, ?n := e)) (io_seq_end wk) (rev ?ys @ e # rev ?xs) NONE32"
      proof (rule path_insert [where f = "pv wk"])
        have rz: "rev zs = rev ?ys @ rev ?xs" using z by (metis rev_append)
        show "path (pv wk) (io_seq_end wk) (rev ?ys @ rev ?xs) NONE32" using bp rz by simp
        have lr: "last (rev ?ys) = ?n" using ny n by (simp add: last_rev)
        show "((pv wk)(e := ?c, ?n := e)) e = pv wk (last (rev ?ys))"
          using path_last [of "pv wk" "io_seq_end wk" "rev ?ys" "rev ?xs" NONE32] bp rz ny ne ns(3) lr by (simp add: hd_rev)
        show "last (rev ?ys) \<notin> set (rev ?xs)" using lr ns(2) d(1) z by (metis disjoint_iff distinct_append set_rev)
        show "distinct (rev ?ys)" using d(1) z by (metis distinct_append distinct_rev)
      qed (use ny dx z n ns in \<open>auto simp: last_rev\<close>)
      ultimately have "relinked ?xs e ?ys wk ?wk"
        using rl c ns ne ny by (simp add: relinked_def links_only_steps links_only_refl) (simp add: setn_def setp_def)
      then show ?thesis using fs ne h(3) c rl ns r [of ?n]
        by (intro exI [of _ ?wk]) (simp add: insert_req_sorted_def upd_work_links nx_def)
    qed
  qed
qed

section \<open>Enqueueing\<close>

text \<open>The order after an insertion.\<close>

lemma due_sorted_insert:
  assumes "sorted (map (due wk) zs)" "tgt wk e = t"
  shows "sorted (map (due wk) (before wk t zs @ e # after wk t zs))"
proof -
  let ?xs = "before wk t zs" and ?ys = "after wk t zs"
  have s: "sorted (map (due wk) (?xs @ ?ys))" using assms(1) before_after by metis
  have y: "due wk e \<le> due wk y" if "y \<in> set ?ys" for y
    using after_later [OF that] assms(2) by (auto simp: due_def later_def)
  have x: "due wk x \<le> due wk e" if "x \<in> set ?xs" for x
  proof -
    have ne: "?xs \<noteq> []" using that by auto
    have "due wk (last ?xs) \<le> due wk e" using before_last [OF ne] assms(2) by (auto simp: due_def later_def)
    moreover have "due wk x \<le> due wk (last ?xs)"
    proof -
      obtain us l where us: "?xs = us @ [l]" using ne by (metis append_butlast_last_id)
      have "\<forall>u\<in>set us. due wk u \<le> due wk l" using s unfolding us by (simp add: sorted_append)
      then show ?thesis using that unfolding us by auto
    qed
    ultimately show ?thesis by linarith
  qed
  show ?thesis using s x y by (auto simp: sorted_append)
qed

text \<open>Filling the head of the free chain with a new request and inserting it.\<close>

lemma insert_new_ok:
  assumes inv: "worker_inv wk xs (e # ys)" and ne: "ys \<noteq> []"
    and f: "w_next (f (work_queue wk ! e)) = NONE32" "w_prev (f (work_queue wk ! e)) = NONE32"
      "w_nsecs_target (f (work_queue wk ! e)) = t"
    and wk1: "wk1 = wk\<lparr>free_seq := hd ys, work_queue := (work_queue wk)[e := f (work_queue wk ! e)]\<rparr>"
  shows "\<exists>wk'. insert_req_sorted e t wk1 = Some wk' \<and> worker_inv wk' (before wk t xs @ e # after wk t xs) ys \<and>
     latest_nsecs wk' = latest_nsecs wk \<and> wk_id wk' = wk_id wk \<and>
     (\<forall>i. request (work_queue wk' ! i) = (if i = e then request (f (work_queue wk ! e)) else request (work_queue wk ! i)))"
proof -
  note v = worker_invD [OF inv]
  have e: "e < NR_MAX_PARALLEL_IO" "e \<notin> set xs" "e \<notin> set ys" using v(2,11) by auto
  have q: "work_queue wk1 ! i = (if i = e then f (work_queue wk ! e) else work_queue wk ! i)" for i
    using e(1) v(1) wk1 by (simp add: nth_upd)
  have sel: "io_seq wk1 = io_seq wk" "io_seq_end wk1 = io_seq_end wk" "latest_nsecs wk1 = latest_nsecs wk" "wk_id wk1 = wk_id wk"
    "free_seq wk1 = hd ys" "free_seq_end wk1 = free_seq_end wk" "length (work_queue wk1) = NR_MAX_PARALLEL_IO" using wk1 v(1) by simp_all
  have same: "tgt wk1 i = tgt wk i" "due wk1 i = due wk i" "nx wk1 i = nx wk i" "pv wk1 i = pv wk i" if "i \<noteq> e" for i
    using q that sel by (simp_all add: tgt_def due_def nx_def pv_def)
  have ba: "before wk1 t xs = before wk t xs" "after wk1 t xs = after wk t xs"
  proof -
    have "later wk1 t x = later wk t x" if "x \<in> set (rev xs)" for x
    proof -
      have "x \<noteq> e" using that e(2) by auto
      then show ?thesis using same(1) [of x] sel(3) by (simp add: later_def)
    qed
    then show "before wk1 t xs = before wk t xs" "after wk1 t xs = after wk t xs"
      unfolding before_def after_def
      using takeWhile_cong [OF refl, of "rev xs" "later wk1 t" "later wk t"] dropWhile_cong [OF refl, of "rev xs" "later wk1 t" "later wk t"] by metis+
  qed
  have p: "path (nx wk1) (io_seq wk1) xs NONE32" "xs \<noteq> [] \<longrightarrow> path (pv wk1) (io_seq_end wk1) (rev xs) NONE32"
  proof -
    have c: "i \<in> set xs \<Longrightarrow> nx wk1 i = nx wk i" "i \<in> set (rev xs) \<Longrightarrow> pv wk1 i = pv wk i" for i using same(3,4) [of i] e(2) by (metis set_rev)+
    show "path (nx wk1) (io_seq wk1) xs NONE32" using v(4) path_cong [OF c(1), of xs] sel(1) by simp
    show "xs \<noteq> [] \<longrightarrow> path (pv wk1) (io_seq_end wk1) (rev xs) NONE32" using v(5) path_cong [OF c(2), of "rev xs"] sel(2) by simp
  qed
  have nn: "nx wk1 e = NONE32" "pv wk1 e = NONE32" "tgt wk1 e = t" using q f by (simp_all add: nx_def pv_def tgt_def)
  have r: "x < length (work_queue wk1) \<and> x \<noteq> NONE32" if "x \<in> set xs \<union> {e}" for x
    using that v(10) e(1) not_none sel(7) by auto
  obtain wk' where w: "insert_req_sorted e t wk1 = Some wk'" "relinked (before wk t xs) e (after wk t xs) wk1 wk'"
    using insert_req_sorted_links [OF p _ e(2) r nn(1,2), of t] v(2) ba by auto
  let ?zs = "before wk t xs @ e # after wk t xs"
  have set: "set ?zs = insert e (set xs)" "distinct ?zs"
    using arg_cong [OF before_after [of wk t xs], of set] arg_cong [OF before_after [of wk t xs], of distinct] e(2) v(2) by auto
  have lo: "links_only (set ?zs) wk1 wk'" using w(2) by (simp add: relinked_def)
  have l: "length (work_queue wk') = NR_MAX_PARALLEL_IO" "free_seq wk' = hd ys" "latest_nsecs wk' = latest_nsecs wk" "wk_id wk' = wk_id wk"
    "\<And>i. i \<notin> set ?zs \<Longrightarrow> work_queue wk' ! i = work_queue wk1 ! i"
    "\<And>i. \<exists>n p. work_queue wk' ! i = (work_queue wk1 ! i)\<lparr>w_next := n, w_prev := p\<rparr>"
    using lo sel by (simp_all add: links_only_def)
  have tg: "tgt wk' i = tgt wk1 i" for i using l(6) [of i] by (auto simp: tgt_def)
  then have du: "due wk' i = due wk1 i" for i using l(3) sel(3) by (simp add: due_def)
  have "sorted (map (due wk1) xs)" using v(9) same(2) e(2) by (metis (no_types, lifting) map_eq_conv)
  then have sd: "sorted (map (due wk') ?zs)" using due_sorted_insert [OF _ nn(3), of xs] ba du by (metis (no_types, lifting) map_eq_conv)
  have fy: "path (nx wk') (hd ys) ys NONE32"
  proof -
    have "path (nx wk) (hd ys) ys NONE32" using v(7) ne by (cases ys) auto
    moreover have "nx wk' i = nx wk i" if "i \<in> set ys" for i
    proof -
      have "i \<noteq> e" "i \<notin> set ?zs" using that e(3) v(2) set(1) by auto
      then show ?thesis using l(5) [of i] q [of i] by (simp add: nx_def)
    qed
    ultimately show ?thesis using path_cong [of ys "nx wk'" "nx wk"] by simp
  qed
  have "worker_inv wk' ?zs ys"
    unfolding worker_inv_def
  proof (intro conjI impI)
    show "distinct (?zs @ ys)" "set (?zs @ ys) = {..<NR_MAX_PARALLEL_IO}" using set v(2,3) by auto
    show "free_seq_end wk' = last ys" using w(2) sel(6) v(8) ne by (simp add: relinked_def)
  qed (use w(2) l(1,2) ne fy sd in \<open>simp_all add: relinked_def\<close>)
  moreover have "request (work_queue wk' ! i) = (if i = e then request (f (work_queue wk ! e)) else request (work_queue wk ! i))" for i
    using l(6) [of i] unfolding q by (auto simp: request_def)
  ultimately show ?thesis using w(1) l(3,4) by blast
qed

text \<open>The ordered insertion that the queue implements, on a list of requests at the time \<open>n\<close>.\<close>

fun insert_ordered :: "nat \<Rightarrow> 'b nvmev_io_work \<Rightarrow> 'b nvmev_io_work list \<Rightarrow> 'b nvmev_io_work list" where
  "insert_ordered n r [] = [r]"
| "insert_ordered n r (w # q) =
     (if n < w_nsecs_target w \<and> w_nsecs_target r < w_nsecs_target w then r # w # q else w # insert_ordered n r q)"

lemma insert_ordered_split:
  assumes "\<forall>x\<in>set us. \<not> (n < w_nsecs_target x \<and> w_nsecs_target r < w_nsecs_target x)"
    "\<forall>x\<in>set vs. n < w_nsecs_target x \<and> w_nsecs_target r < w_nsecs_target x"
  shows "insert_ordered n r (us @ vs) = us @ r # vs"
  using assms by (induction us) (cases vs, auto)

lemma before_not_later:
  assumes "sorted (map (due wk) xs)" "x \<in> set (before wk t xs)"
  shows "\<not> later wk t x"
proof -
  have ne: "before wk t xs \<noteq> []" using assms(2) by auto
  then obtain us l where us: "before wk t xs = us @ [l]" by (metis append_butlast_last_id)
  have nl: "\<not> later wk t l" using before_last [OF ne] us by simp
  have "sorted (map (due wk) (us @ l # after wk t xs))" using assms(1) before_after [of wk t xs] us by simp
  then have "\<forall>u\<in>set us. due wk u \<le> due wk l" by (simp add: sorted_append)
  then have "due wk x \<le> due wk l" using assms(2) us by auto
  then show ?thesis using nl by (auto simp: later_def due_def)
qed

lemma requests_insert:
  assumes "sorted (map (due wk) xs)" "e \<notin> set xs" "w_nsecs_target r = t"
    and q: "\<And>i. request (work_queue wk' ! i) = (if i = e then r else request (work_queue wk ! i))"
  shows "requests wk' (before wk t xs @ e # after wk t xs) = insert_ordered (latest_nsecs wk) r (requests wk xs)"
proof -
  have s: "set (before wk t xs) \<subseteq> set xs" "set (after wk t xs) \<subseteq> set xs"
    using arg_cong [OF before_after [of wk t xs], of set] by auto
  have "requests wk xs = requests wk (before wk t xs) @ requests wk (after wk t xs)"
    by (metis before_after map_append requests_def)
  moreover have "insert_ordered (latest_nsecs wk) r (requests wk (before wk t xs) @ requests wk (after wk t xs)) =
      requests wk (before wk t xs) @ r # requests wk (after wk t xs)"
  proof (rule insert_ordered_split)
    show "\<forall>x\<in>set (requests wk (before wk t xs)). \<not> (latest_nsecs wk < w_nsecs_target x \<and> w_nsecs_target r < w_nsecs_target x)"
      using before_not_later [OF assms(1), of _ t] assms(3) by (auto simp: requests_def later_def tgt_def)
    show "\<forall>x\<in>set (requests wk (after wk t xs)). latest_nsecs wk < w_nsecs_target x \<and> w_nsecs_target r < w_nsecs_target x"
      using after_later [of _ wk t xs] assms(3) by (auto simp: requests_def later_def tgt_def)
  qed
  moreover have "requests wk' zs = requests wk zs" if "set zs \<subseteq> set xs" for zs
    using that assms(2) q by (auto simp: requests_def)
  ultimately show ?thesis using s q by (simp add: requests_def)
qed

section \<open>Allocating\<close>

lemma path_cons2: "path f a (x # y # zs) z \<longleftrightarrow> a = x \<and> f x = y \<and> path f (f y) zs z"
  by simp

lemma allocate_ok:
  assumes inv: "worker_inv wk xs (e # y # ys)"
  shows "allocate_work_queue_entry wk = Some (Some e, wk\<lparr>free_seq := y\<rparr>)"
proof -
  note v = worker_invD [OF inv]
  have "free_seq wk = e" "nx wk e = y" "y < NR_MAX_PARALLEL_IO" "e < NR_MAX_PARALLEL_IO" using v(7,11) by auto
  then show ?thesis using v(1) by (simp add: allocate_work_queue_entry_def nx_def)
qed

lemma allocate_full:
  assumes inv: "worker_inv wk xs [e]"
  shows "allocate_work_queue_entry wk = Some (None, wk)"
proof -
  note v = worker_invD [OF inv]
  have "free_seq wk = e" "nx wk e = NONE32" "e < NR_MAX_PARALLEL_IO" using v(7,11) by auto
  then show ?thesis using v(1) by (simp add: allocate_work_queue_entry_def nx_def NR_MAX_PARALLEL_IO_def NONE32_def)
qed

text \<open>Both ways of queueing a request: allocate, fill the entry with \<open>f\<close>, insert.\<close>

definition queue_new :: "('b nvmev_io_work \<Rightarrow> 'b nvmev_io_work) \<Rightarrow> nat \<Rightarrow> 'b nvmev_io_worker \<Rightarrow> 'b nvmev_io_worker option" where
  "queue_new f t wk = do {
     (entry, wk1) \<leftarrow> allocate_work_queue_entry wk;
     case entry of
       None \<Rightarrow> Some wk1
     | Some e \<Rightarrow> Option.bind (upd_work e f wk1) (insert_req_sorted e t)
   }"

lemma queue_new_ok:
  assumes inv: "worker_inv wk xs (e # ys)" "ys \<noteq> []"
    and f: "\<And>w. w_next (f w) = NONE32 \<and> w_prev (f w) = NONE32 \<and> w_nsecs_target (f w) = t"
  shows "\<exists>wk'. queue_new f t wk = Some wk' \<and> worker_inv wk' (before wk t xs @ e # after wk t xs) ys \<and>
     latest_nsecs wk' = latest_nsecs wk \<and> wk_id wk' = wk_id wk \<and>
     requests wk' (before wk t xs @ e # after wk t xs) =
       insert_ordered (latest_nsecs wk) (request (f (work_queue wk ! e))) (requests wk xs)"
proof -
  note v = worker_invD [OF inv(1)]
  obtain y zs where ys: "ys = y # zs" using inv(2) by (cases ys) auto
  let ?wk1 = "wk\<lparr>free_seq := hd ys, work_queue := (work_queue wk)[e := f (work_queue wk ! e)]\<rparr>"
  have e: "e < NR_MAX_PARALLEL_IO" "e \<notin> set xs" using v(2,11) by auto
  have q: "queue_new f t wk = insert_req_sorted e t ?wk1"
    using allocate_ok [OF inv(1) [unfolded ys]] e v(1) ys by (simp add: queue_new_def upd_work_eq)
  obtain wk' where w: "insert_req_sorted e t ?wk1 = Some wk'" "worker_inv wk' (before wk t xs @ e # after wk t xs) ys"
     "latest_nsecs wk' = latest_nsecs wk" "wk_id wk' = wk_id wk"
     "\<And>i. request (work_queue wk' ! i) = (if i = e then request (f (work_queue wk ! e)) else request (work_queue wk ! i))"
    using insert_new_ok [OF inv, of f t ?wk1] f by blast
  then show ?thesis using q requests_insert [OF v(9) e(2) _ w(5), of t] f by auto
qed

lemma queue_new_full: "worker_inv wk xs [e] \<Longrightarrow> queue_new f t wk = Some wk"
  by (simp add: queue_new_def allocate_full)

text \<open>The request that \<open>__enqueue_io_req\<close> writes into an entry, and the one of an internal operation.\<close>

definition io_request :: "nat \<Rightarrow> nat \<Rightarrow> nat \<Rightarrow> nat \<Rightarrow> nat \<Rightarrow> nat \<Rightarrow> nvmev_result \<Rightarrow> 'b nvmev_io_work \<Rightarrow> 'b nvmev_io_work" where
  "io_request sqid cqid sq_entry command_id nsecs_start now ret w = w\<lparr>w_sqid := sqid, w_cqid := cqid, w_sq_entry := sq_entry,
     w_command_id := command_id, w_nsecs_start := nsecs_start, w_nsecs_enqueue := now, w_nsecs_target := ret_nsecs_target ret,
     w_status := ret_status ret, w_result0 := ret_result ret mod 2 ^ 32, w_result1 := u32 (ret_result ret div 2 ^ 32),
     w_is_completed := False, w_is_copied := False, w_prev := NONE32, w_next := NONE32, w_is_internal := False\<rparr>"

definition internal_request :: "nat \<Rightarrow> nat \<Rightarrow> 'b \<Rightarrow> nat \<Rightarrow> nat \<Rightarrow> 'b nvmev_io_work \<Rightarrow> 'b nvmev_io_work" where
  "internal_request sqid nsecs_target write_buffer buffs_to_release now w = w\<lparr>w_sqid := sqid, w_nsecs_start := now,
     w_nsecs_enqueue := now, w_nsecs_target := nsecs_target, w_is_completed := False, w_is_copied := True, w_prev := NONE32,
     w_next := NONE32, w_is_internal := True, w_write_buffer := write_buffer, w_buffs_to_release := buffs_to_release\<rparr>"

lemma io_request_links:
  "w_next (io_request sqid cqid en c ns now ret w) = NONE32 \<and> w_prev (io_request sqid cqid en c ns now ret w) = NONE32 \<and>
     w_nsecs_target (io_request sqid cqid en c ns now ret w) = ret_nsecs_target ret"
  "w_next (internal_request sqid t b r now w) = NONE32 \<and> w_prev (internal_request sqid t b r now w) = NONE32 \<and>
     w_nsecs_target (internal_request sqid t b r now w) = t"
  by (simp_all add: io_request_def internal_request_def)

lemma enqueue_queue_new:
  "enqueue_io_req sqid cqid en c ns now ret wk = queue_new (io_request sqid cqid en c ns now ret) (ret_nsecs_target ret) wk"
  "schedule_internal_operation sqid t b r now wk = queue_new (internal_request sqid t b r now) t wk"
  unfolding enqueue_io_req_def schedule_internal_operation_def queue_new_def io_request_def [abs_def] internal_request_def [abs_def]
  by (rule refl)+

end
