(* ===== verification/Io_Reclaim.thy ===== *)
theory Io_Reclaim
  imports Io_Sorted
begin

text \<open>
  Reclaiming: the requests at the front of the queue that are finished go to the end of the free
  chain. The chains of a new worker.
\<close>

section \<open>Reclaiming the finished prefix\<close>

definition finished :: "'b nvmev_io_worker \<Rightarrow> nat \<Rightarrow> bool" where
  "finished wk i = reclaimable wk (work_queue wk ! i)"

lemma reclaim_scan_eq:
  assumes "path (nx wk) a xs NONE32" "\<And>x. x \<in> set xs \<Longrightarrow> x < length (work_queue wk) \<and> x \<noteq> NONE32"
  shows "reclaim_scan wk l a = Some (if takeWhile (finished wk) xs = [] then l else last (takeWhile (finished wk) xs))"
  using assms
proof (induction xs arbitrary: a l)
  case Nil
  then show ?case by (simp add: reclaim_scan.simps)
next
  case (Cons x xs)
  have a: "a = x" "path (nx wk) (nx wk x) xs NONE32" "x < length (work_queue wk)" "x \<noteq> NONE32" using Cons.prems by auto
  show ?case
  proof (cases "finished wk x")
    case True
    then have "reclaim_scan wk l a = reclaim_scan wk x (nx wk x)"
      using a by (subst reclaim_scan.simps) (simp add: finished_def nx_def)
    then show ?thesis using Cons.IH [OF a(2), of x] Cons.prems(2) True by simp
  next
    case False
    then show ?thesis using a by (subst reclaim_scan.simps) (simp add: finished_def)
  qed
qed

text \<open>The new links: \<open>p\<close> leaves the front of the queue for the end of the free chain.\<close>

definition unlinked :: "nat list \<Rightarrow> nat list \<Rightarrow> 'b nvmev_io_worker \<Rightarrow> 'b nvmev_io_worker" where
  "unlinked p zs wk = (let n = (if zs = [] then NONE32 else hd zs) in
     (setn (free_seq_end wk) (hd p) (setp (hd p) (free_seq_end wk) (setn (last p) NONE32
       (if n \<noteq> NONE32 then setp n NONE32 (wk\<lparr>io_seq := n\<rparr>) else wk\<lparr>io_seq := n\<rparr>))))\<lparr>free_seq_end := last p\<rparr>)"

lemma seq_links_free [simp]: "nx (wk\<lparr>free_seq_end := a\<rparr>) = nx wk" "pv (wk\<lparr>free_seq_end := a\<rparr>) = pv wk"
  by (simp_all add: nx_def pv_def fun_eq_iff)

lemma set_links_sel [simp]:
  "io_seq (setn i n wk) = io_seq wk" "io_seq_end (setn i n wk) = io_seq_end wk" "free_seq (setn i n wk) = free_seq wk"
  "free_seq_end (setn i n wk) = free_seq_end wk" "io_seq (setp i n wk) = io_seq wk"
  "io_seq_end (setp i n wk) = io_seq_end wk" "free_seq (setp i n wk) = free_seq wk" "free_seq_end (setp i n wk) = free_seq_end wk"
  by (simp_all add: setn_def setp_def)

lemma reclaim_unlinks:
  assumes inv: "worker_inv wk xs ys" and xs: "xs = p @ zs" "p = takeWhile (finished wk) xs" "p \<noteq> []"
  shows "reclaim_worker wk = Some (unlinked p zs wk)"
proof -
  note v = worker_invD [OF inv]
  have r: "x < length (work_queue wk) \<and> x \<noteq> NONE32" if "x \<in> set xs \<union> set ys" for x
    using that v(1,10,11) not_none by auto
  have sc: "reclaim_scan wk NONE32 (io_seq wk) = Some (last p)"
    using reclaim_scan_eq [OF v(4), of NONE32] r xs(2,3) by auto
  have h: "io_seq wk = hd p" using path_hd [OF v(4)] xs(1,3) by simp
  have n: "nx wk (last p) = (if zs = [] then NONE32 else hd zs)"
    using path_end [OF v(4)] path_last [OF v(4) [unfolded xs(1)] xs(3)] xs(1,3) by auto
  have m: "last p \<in> set xs" "hd p \<in> set xs" "zs \<noteq> [] \<Longrightarrow> hd zs \<in> set xs" "last ys \<in> set ys" using xs(1,3) v(6) by auto
  note b = r [of "last p"] r [of "hd p"] r [of "hd zs"] r [of "last ys"]
  have w: "w_next (work_queue wk ! last p) = (if zs = [] then NONE32 else hd zs)" using n by (simp add: nx_def)
  have lp: "last p < length (work_queue wk)" "last p \<noteq> NONE32" "hd p < length (work_queue wk)"
    "free_seq_end wk < length (work_queue wk)" using b m v(8) by auto
  show ?thesis
  proof (cases "zs = []")
    case True
    then show ?thesis using sc h w lp by (simp add: reclaim_worker_def unlinked_def upd_work_links Let_def)
  next
    case False
    then have "hd zs < length (work_queue wk)" "hd zs \<noteq> NONE32" using b m by auto
    then show ?thesis using sc h w lp False by (simp add: reclaim_worker_def unlinked_def upd_work_links Let_def)
  qed
qed

lemma unlinked_links:
  assumes "last p < length (work_queue wk)" "hd p < length (work_queue wk)" "free_seq_end wk < length (work_queue wk)"
    "zs \<noteq> [] \<Longrightarrow> hd zs < length (work_queue wk) \<and> hd zs \<noteq> NONE32"
  shows "nx (unlinked p zs wk) = (nx wk)(last p := NONE32, free_seq_end wk := hd p)"
    "pv (unlinked p zs wk) = (if zs = [] then pv wk else (pv wk)(hd zs := NONE32))(hd p := free_seq_end wk)"
    "io_seq (unlinked p zs wk) = (if zs = [] then NONE32 else hd zs)" "io_seq_end (unlinked p zs wk) = io_seq_end wk"
    "free_seq (unlinked p zs wk) = free_seq wk" "free_seq_end (unlinked p zs wk) = last p"
  using assms by (auto simp: unlinked_def Let_def)

lemma unlinked_links_only: "links_only UNIV wk (unlinked p zs wk)"
  by (simp add: unlinked_def Let_def links_only_steps links_only_refl)

lemma links_only_requests:
  assumes "links_only S wk wk'"
  shows "requests wk' xs = requests wk xs" "due wk' = due wk" "tgt wk' = tgt wk" "latest_nsecs wk' = latest_nsecs wk"
    "wk_id wk' = wk_id wk" "length (work_queue wk') = length (work_queue wk)"
proof -
  have l: "\<exists>n p. work_queue wk' ! i = (work_queue wk ! i)\<lparr>w_next := n, w_prev := p\<rparr>" for i
    using assms by (simp add: links_only_def)
  have q: "request (work_queue wk' ! i) = request (work_queue wk ! i)" for i using l [of i] by (auto simp: request_def)
  then show "requests wk' xs = requests wk xs" by (simp add: requests_def)
  show t: "tgt wk' = tgt wk" using arg_cong [OF q, of w_nsecs_target] by (simp add: tgt_def fun_eq_iff)
  show s: "latest_nsecs wk' = latest_nsecs wk" "wk_id wk' = wk_id wk" "length (work_queue wk') = length (work_queue wk)"
    using assms by (simp_all add: links_only_def)
  show "due wk' = due wk" using t s by (simp add: due_def fun_eq_iff)
qed

lemma reclaim_inv:
  assumes inv: "worker_inv wk (p @ zs) ys" and ne: "p \<noteq> []"
  shows "worker_inv (unlinked p zs wk) zs (ys @ p)"
proof -
  note v = worker_invD [OF inv]
  have m: "last p \<in> set p" "hd p \<in> set p" "last ys \<in> set ys" using ne v(6) by auto
  have r: "x < length (work_queue wk) \<and> x \<noteq> NONE32" if "x \<in> set p \<union> set zs \<union> set ys" for x
    using that v(1,10,11) not_none by auto
  have d: "distinct p" "distinct zs" "distinct ys" "set p \<inter> set zs = {}" "set p \<inter> set ys = {}" "set zs \<inter> set ys = {}"
    using v(2) by auto
  have b: "last p < length (work_queue wk)" "hd p < length (work_queue wk)" "free_seq_end wk < length (work_queue wk)"
    "zs \<noteq> [] \<Longrightarrow> hd zs < length (work_queue wk) \<and> hd zs \<noteq> NONE32" using r m v(8) by auto
  note l = unlinked_links [OF b]
  have n: "nx wk (last p) = (if zs = [] then NONE32 else hd zs)"
    using path_end [OF v(4)] path_last [OF v(4) ne] ne by auto
  show ?thesis
    unfolding worker_inv_def
  proof (intro conjI impI)
    show "length (work_queue (unlinked p zs wk)) = NR_MAX_PARALLEL_IO" "sorted (map (due (unlinked p zs wk)) zs)"
      using links_only_requests [OF unlinked_links_only [of wk p zs]] v(1,9) by (simp_all add: sorted_append)
    show "distinct (zs @ ys @ p)" "set (zs @ ys @ p) = {..<NR_MAX_PARALLEL_IO}" using d v(3) by auto
    show "path (nx (unlinked p zs wk)) (io_seq (unlinked p zs wk)) zs NONE32"
    proof -
      have "path (nx (unlinked p zs wk)) a zs NONE32 = path (nx wk) a zs NONE32" for a
        by (rule path_cong) (use l(1) m d v(8) in auto)
      then show ?thesis using path_rest [OF v(4) ne] n l(3) by simp
    qed
    show "path (pv (unlinked p zs wk)) (io_seq_end (unlinked p zs wk)) (rev zs) NONE32" if z: "zs \<noteq> []"
    proof -
      have q: "path (pv wk) (io_seq_end wk) (rev zs @ rev p) NONE32" using v(5) z by simp
      have h: "hd p \<notin> set zs" "hd zs \<noteq> hd p" using z d(4) m(2) by (metis disjoint_iff hd_in_set)+
      have "path (pv (unlinked p zs wk)) (io_seq_end wk) (rev zs) NONE32"
      proof (rule path_cut [OF q])
        show "pv (unlinked p zs wk) (last (rev zs)) = NONE32" using z h(2) by (simp add: l(2) last_rev)
        show "pv (unlinked p zs wk) x = pv wk x" if "x \<in> set (rev zs)" "x \<noteq> last (rev zs)" for x
          using that z h(1) by (auto simp: l(2) last_rev)
      qed (use z d(2) in simp_all)
      then show ?thesis using l(4) by simp
    qed
    show "path (nx (unlinked p zs wk)) (free_seq (unlinked p zs wk)) (ys @ p) NONE32"
    proof -
      have "path (nx (unlinked p zs wk)) (free_seq wk) ys (hd p)"
        by (rule path_cut [where f = "nx wk" and ys = "[]" and z = NONE32]) (use v(6,7,8) d m l(1) in auto)
      moreover have lp: "last p \<noteq> last ys" using m d(5) by auto
      have "path (nx (unlinked p zs wk)) (hd p) p NONE32"
      proof (rule path_cut [where f = "nx wk" and ys = zs and z = NONE32])
        show "path (nx wk) (hd p) (p @ zs) NONE32" using v(4) path_hd [OF v(4)] ne by simp
      qed (use ne d m v(8) l(1) lp in auto)
      ultimately show ?thesis using l(5) by auto
    qed
  qed (use l(6) ne in auto)
qed

lemma reclaim_ok:
  assumes inv: "worker_inv wk xs ys"
  shows "\<exists>wk'. reclaim_worker wk = Some wk' \<and> worker_inv wk' (dropWhile (finished wk) xs) (ys @ takeWhile (finished wk) xs) \<and>
     latest_nsecs wk' = latest_nsecs wk \<and> wk_id wk' = wk_id wk \<and> (\<forall>zs. requests wk' zs = requests wk zs)"
proof (cases "takeWhile (finished wk) xs = []")
  case True
  note v = worker_invD [OF inv]
  have "reclaim_scan wk NONE32 (io_seq wk) = Some NONE32"
    using reclaim_scan_eq [OF v(4), of NONE32] v(1,10) not_none True by auto
  then have "reclaim_worker wk = Some wk" by (simp add: reclaim_worker_def)
  moreover have "dropWhile (finished wk) xs = xs" using True takeWhile_dropWhile_id [of "finished wk" xs] by simp
  ultimately show ?thesis using inv True by simp
next
  case False
  let ?p = "takeWhile (finished wk) xs" and ?z = "dropWhile (finished wk) xs"
  have x: "xs = ?p @ ?z" by simp
  have "reclaim_worker wk = Some (unlinked ?p ?z wk)" by (rule reclaim_unlinks [OF inv x refl False])
  moreover have "worker_inv (unlinked ?p ?z wk) ?z (ys @ ?p)" by (rule reclaim_inv) (use inv False in simp_all)
  ultimately show ?thesis using links_only_requests [OF unlinked_links_only [of wk ?p ?z]] by blast
qed

text \<open>On the list of requests: the finished prefix is dropped.\<close>

lemma requests_dropWhile: "requests wk (dropWhile (finished wk) xs) = dropWhile (reclaimable wk) (requests wk xs)"
  by (simp add: requests_def dropWhile_map finished_def [abs_def] comp_def)

section \<open>A new worker\<close>

lemma io_worker_init_ok: "worker_inv (io_worker_init null k) [] [0..<NR_MAX_PARALLEL_IO]"
proof -
  have p: "0 < NR_MAX_PARALLEL_IO" by (simp add: NR_MAX_PARALLEL_IO_def)
  have "path (nx (io_worker_init null k)) 0 [0..<NR_MAX_PARALLEL_IO] NONE32"
    by (rule path_upt) (use p in \<open>auto simp: nx_def io_worker_init_def\<close>)
  then show ?thesis using p by (auto simp: worker_inv_def io_worker_init_def last_upt)
qed

end
