(* ===== verification/Io_Worker.thy ===== *)
theory Io_Worker
  imports Io_Queue
begin

text \<open>
  The dispatcher's handling of the doorbells and the loop of a worker thread (\<open>io.c\<close>).

  \<^item> \<open>pfn_valid\<close> says whether a page frame belongs to the kernel's memory map, \<open>memremap\<close> whether
    mapping the memory at an address succeeds. Memory that is mapped through its page frame starts
    at the page, memory mapped with \<open>memremap\<close> at the given address.
  \<^item> \<open>clk k\<close> is the \<open>k\<close>-th value of \<open>local_clock() + delta\<close> that a worker reads, or the \<open>k\<close>-th
    reading of the clock by the dispatcher.
  \<^item> The command handler of a namespace is the parameter \<open>proc_io_cmd\<close>; it returns what the code
    leaves in the request and the result, the internal operations it scheduled, and its new state.
  \<^item> A copy outside the memory area of a namespace is a failure.
\<close>

section \<open>Copying the data of a command\<close>

definition cmd_io_offset :: "nvme_io_command \<Rightarrow> nat" where "cmd_io_offset cmd = u64 (rw_slba cmd * 2 ^ 9)"
definition cmd_io_size :: "nvme_io_command \<Rightarrow> nat" where "cmd_io_size cmd = (rw_length cmd + 1) * 2 ^ 9"

text \<open>The address at which the mapped page begins, and the one at which the mapped list begins.\<close>

definition map_page :: "(nat \<Rightarrow> bool) \<Rightarrow> (nat \<Rightarrow> bool) \<Rightarrow> nat \<Rightarrow> nat option" where
  "map_page pfn_valid memremap paddr =
     (if pfn_valid (paddr div PAGE_SIZE) then Some (paddr div PAGE_SIZE * PAGE_SIZE)
      else if memremap paddr then Some paddr else None)"

definition map_list :: "(nat \<Rightarrow> bool) \<Rightarrow> (nat \<Rightarrow> bool) \<Rightarrow> nat \<Rightarrow> nat option" where
  "map_list pfn_valid memremap paddr =
     (if pfn_valid (paddr div PAGE_SIZE) then Some (paddr div PAGE_SIZE * PAGE_SIZE + paddr mod PAGE_SIZE)
      else if memremap paddr then Some (paddr + 8 * (paddr mod PAGE_SIZE)) else None)"

text \<open>The next page address of a command: the address, the list and the position in the list.\<close>

definition next_prp ::
  "(nat \<Rightarrow> bool) \<Rightarrow> (nat \<Rightarrow> bool) \<Rightarrow> nvme_io_command \<Rightarrow> (nat \<Rightarrow> nat) \<Rightarrow> nat \<Rightarrow> nat \<Rightarrow> nat \<Rightarrow> nat option \<Rightarrow>
   (nat \<times> nat \<times> nat option) option" where
  "next_prp pfn_valid memremap cmd mem remaining prp_offs prp2_offs paddr_list =
     (if prp_offs = 1 then Some (c_prp1 cmd, prp2_offs, paddr_list)
      else if prp_offs = 2 then
        if remaining > PAGE_SIZE then do {
          a \<leftarrow> map_list pfn_valid memremap (c_prp2 cmd);
          Some (rd_u64 mem (a + 8 * prp2_offs), prp2_offs + 1, Some a)
        } else Some (c_prp2 cmd, prp2_offs, paddr_list)
      else do {
        a \<leftarrow> paddr_list;
        Some (rd_u64 mem (a + 8 * prp2_offs), prp2_offs + 1, Some a)
      })"

text \<open>How much of the page is copied.\<close>

definition io_size :: "nat \<Rightarrow> nat \<Rightarrow> nat" where
  "io_size remaining paddr = (let n = min remaining PAGE_SIZE; mem_offs = paddr mod PAGE_SIZE in
     if mem_offs \<noteq> 0 \<and> n + mem_offs > PAGE_SIZE then PAGE_SIZE - mem_offs else n)"

definition copy_page ::
  "(nat \<Rightarrow> bool) \<Rightarrow> (nat \<Rightarrow> bool) \<Rightarrow> nat \<Rightarrow> nat \<Rightarrow> nat \<Rightarrow> nat \<Rightarrow> nat \<Rightarrow> 'b io_dev \<Rightarrow> 'b io_dev option" where
  "copy_page pfn_valid memremap opcode nsid paddr offset n d =
     (let vaddr = map_page pfn_valid memremap paddr; mem_offs = paddr mod PAGE_SIZE in
      if opcode = nvme_cmd_write \<or> opcode = nvme_cmd_zone_append then do {
        a \<leftarrow> vaddr;
        ns \<leftarrow> rd (d_ns d) nsid;
        NVMEV_ASSERT (offset + n \<le> na_size ns);
        Some (d\<lparr>d_ns := (d_ns d)[nsid := ns\<lparr>na_bytes :=
          mem_write offset (mem_bytes (d_mem d) (a + mem_offs) n) (na_bytes ns)\<rparr>]\<rparr>)
      } else if opcode = nvme_cmd_read then do {
        a \<leftarrow> vaddr;
        ns \<leftarrow> rd (d_ns d) nsid;
        NVMEV_ASSERT (offset + n \<le> na_size ns);
        Some (d\<lparr>d_mem := mem_write (a + mem_offs) (mem_bytes (na_bytes ns) offset n) (d_mem d)\<rparr>)
      } else Some d)"

lemma io_size_bounds:
  assumes "0 < remaining" shows "0 < io_size remaining paddr" "io_size remaining paddr \<le> remaining"
proof -
  have "paddr mod PAGE_SIZE < PAGE_SIZE" "0 < PAGE_SIZE" by (simp_all add: PAGE_SIZE_def)
  then show "0 < io_size remaining paddr" "io_size remaining paddr \<le> remaining"
    using assms by (auto simp: io_size_def Let_def min_def)
qed

function perform_loop ::
  "(nat \<Rightarrow> bool) \<Rightarrow> (nat \<Rightarrow> bool) \<Rightarrow> nvme_io_command \<Rightarrow> nat \<Rightarrow> nat \<Rightarrow> nat \<Rightarrow> nat option \<Rightarrow> nat \<Rightarrow> nat \<Rightarrow> 'b io_dev \<Rightarrow> 'b io_dev option" where
  "perform_loop pfn_valid memremap cmd nsid prp_offs prp2_offs paddr_list remaining offset d =
     (if remaining = 0 then Some d
      else do {
        (paddr, prp2_offs', paddr_list') \<leftarrow>
          next_prp pfn_valid memremap cmd (d_mem d) remaining (prp_offs + 1) prp2_offs paddr_list;
        d' \<leftarrow> copy_page pfn_valid memremap (rw_opcode cmd) nsid paddr offset (io_size remaining paddr) d;
        perform_loop pfn_valid memremap cmd nsid (prp_offs + 1) prp2_offs' paddr_list'
          (remaining - io_size remaining paddr) (offset + io_size remaining paddr) d'
      })"
  by pat_completeness auto
termination
  by (relation "measure (\<lambda>(_, _, _, _, _, _, _, remaining, _, _). remaining)") (auto simp: io_size_bounds)

declare perform_loop.simps [simp del]

definition do_perform_io :: "(nat \<Rightarrow> bool) \<Rightarrow> (nat \<Rightarrow> bool) \<Rightarrow> nat \<Rightarrow> nat \<Rightarrow> 'b io_dev \<Rightarrow> (nat \<times> 'b io_dev) option" where
  "do_perform_io pfn_valid memremap sqid sq_entry d = do {
     sq \<leftarrow> deref (d_sqes d) sqid;
     cmd \<leftarrow> rd (sq_entries sq) sq_entry;
     d' \<leftarrow> perform_loop pfn_valid memremap cmd (u32_sub (rw_nsid cmd) 1) 0 0 None (cmd_io_size cmd) (cmd_io_offset cmd) d;
     Some (u32 (cmd_io_size cmd), d')
   }"

section \<open>Completions\<close>

definition fill_cq_result :: "'b nvmev_io_work \<Rightarrow> 'b io_dev \<Rightarrow> 'b io_dev option" where
  "fill_cq_result w d = do {
     cq \<leftarrow> deref (d_cqes d) (w_cqid w);
     let cqe = \<lparr>cqe_result0 = w_result0 w, cqe_result1 = w_result1 w, cqe_sq_head = u16 (w_sq_entry w), cqe_sq_id = u16 (w_sqid w),
       cqe_command_id = u16 (w_command_id w), cqe_status = u16 (Bit_Operations.or (cq_phase cq) (u32 (w_status w * 2)))\<rparr>;
     entries \<leftarrow> wr (cq_entries cq) (cq_head cq) cqe;
     let cq1 = cq\<lparr>cq_entries := entries\<rparr>;
     let cq2 = (if cq_head cq1 + 1 = cq_queue_size cq1
       then cq1\<lparr>cq_phase := (if cq_phase cq1 = 0 then 1 else 0), cq_head := 0\<rparr>
       else cq1\<lparr>cq_head := cq_head cq1 + 1\<rparr>);
     Some (d\<lparr>d_cqes := (d_cqes d)[w_cqid w := Some (cq2\<lparr>cq_interrupt_ready := True\<rparr>)]\<rparr>)
   }"

text \<open>The phase fills the lowest bit of a status.\<close>

lemma or_phase: "p \<le> 1 \<Longrightarrow> Bit_Operations.or p (2 * n) = 2 * n + (p :: nat)"
  by (cases "p = 0") (simp_all add: le_Suc_eq Suc_0_or_eq)

section \<open>The loop of a worker\<close>

text \<open>The release of write buffers is compiled for conventional and zoned devices only.\<close>

datatype ssd_type = SSD_TYPE_NVM | SSD_TYPE_CONV | SSD_TYPE_ZNS | SSD_TYPE_KV | SSD_TYPE_FDP

definition release_work :: "ssd_type \<Rightarrow> 'b nvmev_io_work \<Rightarrow> 'b io_dev \<Rightarrow> 'b io_dev" where
  "release_work ty w d =
     (if ty = SSD_TYPE_CONV \<or> ty = SSD_TYPE_ZNS
      then d\<lparr>d_buffers := (d_buffers d)(w_write_buffer w := snd (buffer_release (d_buffers d (w_write_buffer w)) (w_buffs_to_release w)))\<rparr>
      else d)"

definition copy_work :: "(nat \<Rightarrow> bool) \<Rightarrow> (nat \<Rightarrow> bool) \<Rightarrow> 'b nvmev_io_work \<Rightarrow> 'b io_dev \<Rightarrow> 'b io_dev option" where
  "copy_work pfn_valid memremap w d =
     (if w_is_copied w \<or> w_is_internal w then Some d
      else do {
        (_, d') \<leftarrow> do_perform_io pfn_valid memremap (w_sqid w) (w_sq_entry w) d;
        Some d'
      })"

text \<open>One request of the queue at the time \<open>now\<close>.\<close>

definition worker_entry ::
  "(nat \<Rightarrow> bool) \<Rightarrow> (nat \<Rightarrow> bool) \<Rightarrow> ssd_type \<Rightarrow> nat \<Rightarrow> 'b nvmev_io_work \<Rightarrow> 'b io_dev \<Rightarrow> ('b nvmev_io_work \<times> 'b io_dev) option" where
  "worker_entry pfn_valid memremap ty now w d =
     (if w_is_completed w then Some (w, d)
      else do {
        d1 \<leftarrow> copy_work pfn_valid memremap w d;
        let w1 = w\<lparr>w_is_copied := True\<rparr>;
        if w_nsecs_target w1 \<le> now then do {
          d2 \<leftarrow> (if w_is_internal w1 then Some (release_work ty w1 d1) else fill_cq_result w1 d1);
          Some (w1\<lparr>w_is_completed := True\<rparr>, d2)
        } else Some (w1, d1)
      })"

partial_function (option) worker_scan ::
  "(nat \<Rightarrow> bool) \<Rightarrow> (nat \<Rightarrow> bool) \<Rightarrow> ssd_type \<Rightarrow> (nat \<Rightarrow> nat) \<Rightarrow> nat \<Rightarrow> nat \<Rightarrow> 'b nvmev_io_worker \<times> 'b io_dev \<Rightarrow>
   (nat \<times> 'b nvmev_io_worker \<times> 'b io_dev) option" where
  "worker_scan pfn_valid memremap ty clk k cur s =
     (if cur = NONE32 then Some (k, s)
      else Option.bind (rd (work_queue (fst s)) cur) (\<lambda>w.
        Option.bind (worker_entry pfn_valid memremap ty (clk k) w (snd s)) (\<lambda>(w', d').
          Option.bind (upd_work cur (\<lambda>_. w') ((fst s)\<lparr>latest_nsecs := clk k\<rparr>)) (\<lambda>wk'.
            worker_scan pfn_valid memremap ty clk (k + 1) (w_next w') (wk', d')))))"

text \<open>The interrupts of the completion queues that this worker serves; the lock of a queue is free.\<close>

definition signal_irqs :: "nat \<Rightarrow> nat \<Rightarrow> nat \<Rightarrow> 'b io_dev \<Rightarrow> 'b io_dev option" where
  "signal_irqs nr_io_workers nr_cq worker_id = foldM (\<lambda>qidx d. do {
     p \<leftarrow> rd (d_cqes d) qidx;
     if worker_id \<noteq> get_io_worker nr_io_workers qidx then Some d
     else case p of
       None \<Rightarrow> Some d
     | Some cq \<Rightarrow>
         if \<not> cq_irq_enabled cq then Some d
         else if cq_interrupt_ready cq
         then Some (d\<lparr>d_cqes := (d_cqes d)[qidx := Some (cq\<lparr>cq_interrupt_ready := False\<rparr>)], d_irqs := d_irqs d @ [cq_irq_vector cq]\<rparr>)
         else Some d
   }) [1..<nr_cq + 1]"

definition io_worker_pass ::
  "(nat \<Rightarrow> bool) \<Rightarrow> (nat \<Rightarrow> bool) \<Rightarrow> ssd_type \<Rightarrow> nat \<Rightarrow> nat \<Rightarrow> (nat \<Rightarrow> nat) \<Rightarrow> nat \<Rightarrow> 'b nvmev_io_worker \<Rightarrow> 'b io_dev \<Rightarrow>
   (nat \<times> 'b nvmev_io_worker \<times> 'b io_dev) option" where
  "io_worker_pass pfn_valid memremap ty nr_io_workers nr_cq clk k wk d = do {
     (k', wk', d') \<leftarrow> worker_scan pfn_valid memremap ty clk k (io_seq wk) (wk, d);
     d'' \<leftarrow> signal_irqs nr_io_workers nr_cq (wk_id wk') d';
     Some (k', wk', d'')
   }"

section \<open>The dispatcher\<close>

record 'b sched_op =
  so_nsecs_target :: nat
  so_write_buffer :: 'b
  so_buffs_to_release :: nat

type_synonym ('h, 'b) io_handler = "nat \<Rightarrow> nat \<Rightarrow> nvme_io_command \<Rightarrow> nat \<Rightarrow> nvmev_result \<Rightarrow> 'h \<Rightarrow>
   (bool \<times> nvme_io_command \<times> nvmev_result \<times> 'b sched_op list \<times> 'h) option"

definition schedule_ops :: "nat \<Rightarrow> nat \<Rightarrow> 'b sched_op list \<Rightarrow> 'b nvmev_io_worker \<Rightarrow> 'b nvmev_io_worker option" where
  "schedule_ops sqid now = foldM (\<lambda>o'. schedule_internal_operation sqid (so_nsecs_target o') (so_write_buffer o') (so_buffs_to_release o') now)"

definition nvmev_proc_io ::
  "('h, 'b) io_handler \<Rightarrow> nat \<Rightarrow> nat \<Rightarrow> nat \<Rightarrow> 'b io_dev \<Rightarrow> 'b nvmev_io_worker list \<Rightarrow> 'h \<Rightarrow>
   (bool \<times> nat \<times> 'b io_dev \<times> 'b nvmev_io_worker list \<times> 'h) option" where
  "nvmev_proc_io proc_io_cmd now sqid sq_entry d wks h = do {
     sq \<leftarrow> deref (d_sqes d) sqid;
     cmd \<leftarrow> rd (sq_entries sq) sq_entry;
     let nsid = u32_sub (rw_nsid cmd) 1;
     ns \<leftarrow> rd (d_ns d) nsid;
     (ok, cmd1, ret, ops, h1) \<leftarrow> proc_io_cmd nsid sqid cmd now \<lparr>ret_status = NVME_SC_SUCCESS, ret_nsecs_target = now, ret_result = 0\<rparr> h;
     let d1 = d\<lparr>d_sqes := (d_sqes d)[sqid := Some (sq\<lparr>sq_entries := (sq_entries sq)[sq_entry := cmd1]\<rparr>)]\<rparr>;
     let turn = get_io_worker (length wks) sqid;
     wk \<leftarrow> rd wks turn;
     wk1 \<leftarrow> schedule_ops sqid now ops wk;
     if \<not> ok then Some (False, 0, d1, wks[turn := wk1], h1)
     else do {
       wk2 \<leftarrow> enqueue_io_req sqid (sq_cqid sq) sq_entry (c_command_id cmd1) now now ret wk1;
       wks1 \<leftarrow> reclaim_completed_reqs (wks[turn := wk2]);
       Some (True, cmd_io_size cmd1, d1, wks1, h1)
     }
   }"

definition upd_stat :: "nat \<Rightarrow> (nvmev_sq_stat \<Rightarrow> nvmev_sq_stat) \<Rightarrow> 'b io_dev \<Rightarrow> 'b io_dev option" where
  "upd_stat sqid f d = do {
     sq \<leftarrow> deref (d_sqes d) sqid;
     Some (d\<lparr>d_sqes := (d_sqes d)[sqid := Some (sq\<lparr>sq_stat := f (sq_stat sq)\<rparr>)]\<rparr>)
   }"

text \<open>The commands of a submission queue: the number that were dispatched, and the state.\<close>

fun proc_sq_loop ::
  "('h, 'b) io_handler \<Rightarrow> (nat \<Rightarrow> nat) \<Rightarrow> nat \<Rightarrow> nat \<Rightarrow> nat \<Rightarrow> nat \<Rightarrow> nat \<Rightarrow> 'b io_dev \<times> 'b nvmev_io_worker list \<times> 'h \<Rightarrow>
   (nat \<times> 'b io_dev \<times> 'b nvmev_io_worker list \<times> 'h) option" where
  "proc_sq_loop proc_io_cmd clk queue_size sqid 0 seq sq_entry s = Some (seq, s)"
| "proc_sq_loop proc_io_cmd clk queue_size sqid (Suc n) seq sq_entry (d, wks, h) = do {
     (ok, size, d1, wks1, h1) \<leftarrow> nvmev_proc_io proc_io_cmd (clk seq) sqid sq_entry d wks h;
     if \<not> ok then Some (seq, d1, wks1, h1)
     else do {
       d2 \<leftarrow> upd_stat sqid (\<lambda>st. st\<lparr>nr_dispatched := u32 (nr_dispatched st + 1), nr_in_flight := u32 (nr_in_flight st + 1),
         total_io := u64 (total_io st + size)\<rparr>) d1;
       proc_sq_loop proc_io_cmd clk queue_size sqid n (seq + 1) (if sq_entry + 1 = queue_size then 0 else sq_entry + 1) (d2, wks1, h1)
     }
   }"

definition nvmev_proc_io_sq ::
  "('h, 'b) io_handler \<Rightarrow> (nat \<Rightarrow> nat) \<Rightarrow> nat \<Rightarrow> nat \<Rightarrow> nat \<Rightarrow> 'b io_dev \<times> 'b nvmev_io_worker list \<times> 'h \<Rightarrow>
   (nat \<times> 'b io_dev \<times> 'b nvmev_io_worker list \<times> 'h) option" where
  "nvmev_proc_io_sq proc_io_cmd clk sqid new_db old_db s = do {
     p \<leftarrow> rd (d_sqes (fst s)) sqid;
     case p of
       None \<Rightarrow> Some (old_db, s)
     | Some sq \<Rightarrow> do {
         let diff = int new_db - int old_db;
         let num_proc = nat (if diff < 0 then diff + int (sq_queue_size sq) else diff);
         (seq, d1, wks1, h1) \<leftarrow> proc_sq_loop proc_io_cmd clk (sq_queue_size sq) sqid num_proc 0 old_db s;
         d2 \<leftarrow> upd_stat sqid (\<lambda>st. st\<lparr>nr_dispatch := u32 (nr_dispatch st + 1),
           max_nr_in_flight := (if s32 (int (max_nr_in_flight st)) < s32 (int (nr_in_flight st)) then nr_in_flight st else max_nr_in_flight st)\<rparr>) d1;
         NVMEV_ASSERT (sq_queue_size sq \<noteq> 0);
         Some ((old_db + seq) mod sq_queue_size sq, d2, wks1, h1)
       }
   }"

text \<open>The completions that the host has consumed; a doorbell beyond the queue is never reached.\<close>

partial_function (option) proc_cq_loop :: "nat \<Rightarrow> int \<Rightarrow> int \<Rightarrow> 'b io_dev \<Rightarrow> 'b io_dev option" where
  "proc_cq_loop cqid new_db i d =
     (if i = new_db then Some d
      else Option.bind (deref (d_cqes d) cqid) (\<lambda>cq.
        if i \<ge> int (cq_queue_size cq) then proc_cq_loop cqid new_db 0 d
        else if i < 0 then None
        else Option.bind (rd (cq_entries cq) (nat i)) (\<lambda>e.
          Option.bind (rd (d_sqes d) (cqe_sq_id e)) (\<lambda>p. case p of
              None \<Rightarrow> proc_cq_loop cqid new_db (i + 1) d
            | Some sq \<Rightarrow> proc_cq_loop cqid new_db (i + 1)
                (d\<lparr>d_sqes := (d_sqes d)[cqe_sq_id e := Some (sq\<lparr>sq_stat := (sq_stat sq)\<lparr>nr_in_flight := u32_sub (nr_in_flight (sq_stat sq)) 1\<rparr>\<rparr>)]\<rparr>)))))"

definition nvmev_proc_io_cq :: "nat \<Rightarrow> int \<Rightarrow> int \<Rightarrow> 'b io_dev \<Rightarrow> 'b io_dev option" where
  "nvmev_proc_io_cq cqid new_db old_db d = do {
     d1 \<leftarrow> proc_cq_loop cqid new_db old_db d;
     cq \<leftarrow> deref (d_cqes d1) cqid;
     Some (d1\<lparr>d_cqes := (d_cqes d1)[cqid := Some (cq\<lparr>cq_tail := (if new_db = - 1 then int (cq_queue_size cq) - 1 else new_db - 1)\<rparr>)]\<rparr>)
   }"

end
