(* ===== verification/Io_Copy.thy ===== *)
theory Io_Copy
  imports Io_Worker
begin

text \<open>
  What the copy of \<open>len\<close> bytes of a command's data does, against the meaning of the page addresses
  of a command in the NVMe specification: the first address may point into a page, the second is the second
  page or, when more than one page is left, a list of pages.
\<close>

section \<open>The bytes of a command's buffer\<close>

definition prp_first :: "nvme_io_command \<Rightarrow> nat" where "prp_first cmd = PAGE_SIZE - c_prp1 cmd mod PAGE_SIZE"

definition prp_listed :: "nvme_io_command \<Rightarrow> nat \<Rightarrow> bool" where
  "prp_listed cmd len \<longleftrightarrow> PAGE_SIZE < len - prp_first cmd"

text \<open>The address of byte \<open>k\<close> of the buffer.\<close>

definition prp_byte :: "nvme_io_command \<Rightarrow> nat \<Rightarrow> (nat \<Rightarrow> nat) \<Rightarrow> nat \<Rightarrow> nat" where
  "prp_byte cmd len mem k =
     (if k < prp_first cmd then c_prp1 cmd + k
      else let j = k - prp_first cmd in
        if prp_listed cmd len then rd_u64 mem (c_prp2 cmd + 8 * (j div PAGE_SIZE)) + j mod PAGE_SIZE else c_prp2 cmd + j)"

text \<open>The pages after the first one start at page boundaries.\<close>

definition prp_ok :: "nvme_io_command \<Rightarrow> nat \<Rightarrow> (nat \<Rightarrow> nat) \<Rightarrow> bool" where
  "prp_ok cmd len mem \<longleftrightarrow>
     (if prp_listed cmd len then \<forall>i < len div PAGE_SIZE + 1. rd_u64 mem (c_prp2 cmd + 8 * i) mod PAGE_SIZE = 0
      else prp_first cmd < len \<longrightarrow> c_prp2 cmd mod PAGE_SIZE = 0)"

text \<open>Where the part that goes through page number \<open>p\<close> begins.\<close>

definition prp_start :: "nvme_io_command \<Rightarrow> nat \<Rightarrow> nat" where
  "prp_start cmd p = (if p = 0 then 0 else prp_first cmd + (p - 1) * PAGE_SIZE)"

lemma page_pos: "0 < PAGE_SIZE" "a mod PAGE_SIZE < PAGE_SIZE" by (simp_all add: PAGE_SIZE_def)

lemma prp_first_bounds: "0 < prp_first cmd" "prp_first cmd \<le> PAGE_SIZE"
  using page_pos(2) [of "c_prp1 cmd"] by (simp_all add: prp_first_def)

lemma prp_start_less: "prp_start cmd p < prp_start cmd (p + 1)"
  using prp_first_bounds [of cmd] page_pos by (cases p) (simp_all add: prp_start_def)

definition prp_list :: "nvme_io_command \<Rightarrow> nat \<Rightarrow> nat option" where
  "prp_list cmd p = (if p \<le> 1 then None else Some (c_prp2 cmd))"

text \<open>The lists of two memories agree.\<close>

definition same_list :: "nvme_io_command \<Rightarrow> nat \<Rightarrow> (nat \<Rightarrow> nat) \<Rightarrow> (nat \<Rightarrow> nat) \<Rightarrow> bool" where
  "same_list cmd len mem m \<longleftrightarrow> (prp_listed cmd len \<longrightarrow>
     (\<forall>i < len div PAGE_SIZE + 1. rd_u64 m (c_prp2 cmd + 8 * i) = rd_u64 mem (c_prp2 cmd + 8 * i)))"

lemma list_index:
  assumes "prp_start cmd p < len" "1 \<le> p" shows "p - 1 < len div PAGE_SIZE + 1"
proof -
  have "(p - 1) * PAGE_SIZE < len" using assms by (simp add: prp_start_def)
  then have "p - 1 \<le> len div PAGE_SIZE" using page_pos by (metis less_eq_div_iff_mult_less_eq less_imp_le)
  then show ?thesis by simp
qed

lemma next_prp_page:
  assumes s: "prp_start cmd p < len" and pv: "\<And>a. pfn_valid a" and sl: "same_list cmd len mem m"
  shows "\<exists>q l. next_prp pfn_valid memremap cmd m (len - prp_start cmd p) (p + 1) (p - 1) (prp_list cmd p) =
       Some (prp_byte cmd len mem (prp_start cmd p), q, l) \<and>
     (prp_start cmd (p + 1) < len \<longrightarrow> q = p \<and> l = prp_list cmd (p + 1))"
proof -
  have ml: "map_list pfn_valid memremap (c_prp2 cmd) = Some (c_prp2 cmd)" using pv by (simp add: map_list_def)
  consider (zero) "p = 0" | (short) "p = 1" "\<not> prp_listed cmd len" | (long) "p = 1" "prp_listed cmd len" | (more) "2 \<le> p" by linarith
  then show ?thesis
  proof cases
    case zero
    then show ?thesis using prp_first_bounds [of cmd] by (simp add: next_prp_def prp_start_def prp_byte_def prp_list_def)
  next
    case short
    then show ?thesis using s by (simp add: next_prp_def prp_start_def prp_byte_def prp_list_def prp_listed_def)
  next
    case long
    have "rd_u64 m (c_prp2 cmd) = rd_u64 mem (c_prp2 cmd)" using sl long(2) by (force simp: same_list_def)
    then show ?thesis using long ml by (simp add: next_prp_def prp_start_def prp_byte_def prp_list_def prp_listed_def)
  next
    case more
    have "1 * PAGE_SIZE \<le> (p - 1) * PAGE_SIZE" by (rule mult_le_mono1) (use more in linarith)
    moreover have "prp_first cmd + (p - 1) * PAGE_SIZE < len" using s more by (simp add: prp_start_def)
    ultimately have lg: "prp_listed cmd len" unfolding prp_listed_def by linarith
    have "rd_u64 m (c_prp2 cmd + 8 * (p - 1)) = rd_u64 mem (c_prp2 cmd + 8 * (p - 1))"
      using sl lg list_index [OF s] more by (simp add: same_list_def)
    then show ?thesis using more lg page_pos(1) by (simp add: next_prp_def prp_start_def prp_byte_def prp_list_def)
  qed
qed

lemma page_io_size:
  assumes s: "prp_start cmd p < len" and ok: "prp_ok cmd len mem"
  shows "io_size (len - prp_start cmd p) (prp_byte cmd len mem (prp_start cmd p)) =
      min len (prp_start cmd (p + 1)) - prp_start cmd p"
proof (cases "p = 0")
  case True
  have "c_prp1 cmd mod PAGE_SIZE < PAGE_SIZE" by (rule page_pos)
  then show ?thesis using True prp_first_bounds [of cmd]
    by (simp add: prp_start_def prp_byte_def io_size_def Let_def prp_first_def min_def) linarith
next
  case False
  have d: "prp_byte cmd len mem (prp_start cmd p) mod PAGE_SIZE = 0"
  proof (cases "prp_listed cmd len")
    case True
    then show ?thesis using ok list_index [OF s] False page_pos(1) by (simp add: prp_byte_def prp_start_def prp_ok_def)
  next
    case short: False
    have "prp_first cmd + (p - 1) * PAGE_SIZE < len" using s False by (simp add: prp_start_def)
    then have "(p - 1) * PAGE_SIZE < 1 * PAGE_SIZE" using short unfolding prp_listed_def by linarith
    then have "p - 1 < 1" by (metis mult_less_cancel2)
    then have "p = 1" using False by linarith
    then show ?thesis using ok short s False by (simp add: prp_byte_def prp_start_def prp_ok_def)
  qed
  have "prp_start cmd (p + 1) = prp_start cmd p + PAGE_SIZE" using False by (cases p) (auto simp: prp_start_def)
  then show ?thesis using d by (simp add: io_size_def Let_def min_def) linarith
qed

lemma page_bytes:
  assumes "prp_start cmd p \<le> k" "k < prp_start cmd (p + 1)" "k < len"
  shows "prp_byte cmd len mem k = prp_byte cmd len mem (prp_start cmd p) + (k - prp_start cmd p)"
proof (cases "p = 0")
  case True
  then show ?thesis using assms prp_first_bounds [of cmd] by (simp add: prp_byte_def prp_start_def)
next
  case False
  obtain i where i: "k = prp_start cmd p + i" using assms(1) le_Suc_ex by blast
  have st: "prp_start cmd p = prp_first cmd + (p - 1) * PAGE_SIZE" "prp_start cmd (p + 1) = prp_start cmd p + PAGE_SIZE"
    using False by (cases p, auto simp: prp_start_def)+
  have j: "k - prp_first cmd = (p - 1) * PAGE_SIZE + i" "i < PAGE_SIZE" "\<not> k < prp_first cmd" "\<not> prp_start cmd p < prp_first cmd"
    "prp_start cmd p - prp_first cmd = (p - 1) * PAGE_SIZE" using i st assms(2) by simp_all
  have "prp_byte cmd len mem k = (if prp_listed cmd len then rd_u64 mem (c_prp2 cmd + 8 * (p - 1)) + i else c_prp2 cmd + ((p - 1) * PAGE_SIZE + i))"
    unfolding prp_byte_def Let_def j(1) using j(2,3) by simp
  moreover have "prp_byte cmd len mem (prp_start cmd p) =
      (if prp_listed cmd len then rd_u64 mem (c_prp2 cmd + 8 * (p - 1)) else c_prp2 cmd + (p - 1) * PAGE_SIZE)"
    unfolding prp_byte_def Let_def j(5) using j(4) page_pos(1) by simp
  ultimately show ?thesis using i by simp
qed

section \<open>Writing\<close>

lemma mem_write_append: "mem_write a (xs @ ys) f = mem_write (a + length xs) ys (mem_write a xs f)"
  by (auto simp: mem_write_def nth_append fun_eq_iff)

lemma mem_write_Nil [simp]: "mem_write a [] f = f"
  by (simp add: mem_write_def fun_eq_iff)

lemma map_page_valid: "(\<And>a. pfn_valid a) \<Longrightarrow> \<exists>a. map_page pfn_valid memremap paddr = Some a \<and> a + paddr mod PAGE_SIZE = paddr"
  by (simp add: map_page_def)

definition put_ns :: "nat \<Rightarrow> (nat \<Rightarrow> nat) \<Rightarrow> 'b io_dev \<Rightarrow> 'b io_dev" where
  "put_ns nsid f d = d\<lparr>d_ns := (d_ns d)[nsid := (d_ns d ! nsid)\<lparr>na_bytes := f\<rparr>]\<rparr>"

text \<open>One page of a command, in both directions.\<close>

lemma write_page:
  assumes "\<And>a. pfn_valid a" "nsid < length (d_ns d)" "opcode \<in> {nvme_cmd_write, nvme_cmd_zone_append}"
    "offset + n \<le> na_size (d_ns d ! nsid)"
  shows "copy_page pfn_valid memremap opcode nsid paddr offset n d =
     Some (put_ns nsid (mem_write offset (mem_bytes (d_mem d) paddr n) (na_bytes (d_ns d ! nsid))) d)"
  using map_page_valid [where pfn_valid = pfn_valid and memremap = memremap and paddr = paddr, OF assms(1)] assms by (auto simp: copy_page_def Let_def put_ns_def)

lemma read_page:
  assumes "\<And>a. pfn_valid a" "nsid < length (d_ns d)" "opcode = nvme_cmd_read" "offset + n \<le> na_size (d_ns d ! nsid)"
  shows "copy_page pfn_valid memremap opcode nsid paddr offset n d =
     Some (d\<lparr>d_mem := mem_write paddr (mem_bytes (na_bytes (d_ns d ! nsid)) offset n) (d_mem d)\<rparr>)"
  using map_page_valid [where pfn_valid = pfn_valid and memremap = memremap and paddr = paddr, OF assms(1)] assms by (auto simp: copy_page_def Let_def nvme_consts nvme_cmd_zone_append_def)

lemma mem_bytes_page:
  assumes "prp_start cmd p + n \<le> prp_start cmd (p + 1)" "prp_start cmd p + n \<le> len"
  shows "mem_bytes m (prp_byte cmd len mem (prp_start cmd p)) n = map (\<lambda>k. m (prp_byte cmd len mem k)) [prp_start cmd p..<prp_start cmd p + n]"
proof (rule nth_equalityI)
  fix i assume "i < length (mem_bytes m (prp_byte cmd len mem (prp_start cmd p)) n)"
  then have i: "i < n" by (simp add: mem_bytes_def)
  then have "prp_byte cmd len mem (prp_start cmd p + i) = prp_byte cmd len mem (prp_start cmd p) + i"
    using page_bytes [of cmd p "prp_start cmd p + i" len mem] assms by simp
  then show "mem_bytes m (prp_byte cmd len mem (prp_start cmd p)) n ! i =
      map (\<lambda>k. m (prp_byte cmd len mem k)) [prp_start cmd p..<prp_start cmd p + n] ! i" using i by (simp add: mem_bytes_def)
qed (simp add: mem_bytes_def)

lemma put_ns_put_ns:
  assumes "nsid < length (d_ns d)"
  shows "put_ns nsid f (put_ns nsid g d) = put_ns nsid f d" "d_ns (put_ns nsid g d) ! nsid = (d_ns d ! nsid)\<lparr>na_bytes := g\<rparr>"
    "d_mem (put_ns nsid g d) = d_mem d" "length (d_ns (put_ns nsid g d)) = length (d_ns d)"
  using assms by (simp_all add: put_ns_def)

lemma put_ns_same: "put_ns nsid (na_bytes (d_ns d ! nsid)) d = d"
  by (simp add: put_ns_def)

lemma perform_write:
  assumes op: "rw_opcode cmd \<in> {nvme_cmd_write, nvme_cmd_zone_append}" and pv: "\<And>a. pfn_valid a"
    and ok: "prp_ok cmd len (d_mem d)" and ns: "nsid < length (d_ns d)" "off + len \<le> na_size (d_ns d ! nsid)"
  shows "(prp_start cmd p < len \<Longrightarrow> q = p - 1 \<and> l = prp_list cmd p) \<Longrightarrow>
     perform_loop pfn_valid memremap cmd nsid p q l (len - prp_start cmd p) (off + prp_start cmd p) d =
     Some (put_ns nsid (mem_write (off + prp_start cmd p)
       (map (\<lambda>k. d_mem d (prp_byte cmd len (d_mem d) k)) [prp_start cmd p..<len]) (na_bytes (d_ns d ! nsid))) d)"
  using ok ns
proof (induction "len - prp_start cmd p" arbitrary: p q l d rule: less_induct)
  case less
  let ?s = "prp_start cmd p" and ?m = "d_mem d"
  show ?case
  proof (cases "?s < len")
    case False
    then show ?thesis by (simp add: perform_loop.simps put_ns_same)
  next
    case True
    let ?a = "prp_byte cmd len ?m ?s" and ?n = "min len (prp_start cmd (p + 1)) - ?s"
    let ?d = "put_ns nsid (mem_write (off + ?s) (mem_bytes ?m ?a ?n) (na_bytes (d_ns d ! nsid))) d"
    have io: "io_size (len - ?s) ?a = ?n" by (rule page_io_size [OF True less.prems(2)])
    have sl: "same_list cmd len ?m ?m" by (simp add: same_list_def)
    obtain q' l' where nx: "next_prp pfn_valid memremap cmd ?m (len - ?s) (p + 1) q l = Some (?a, q', l')"
      "prp_start cmd (p + 1) < len \<longrightarrow> q' = p \<and> l' = prp_list cmd (p + 1)"
      using next_prp_page [where pfn_valid = pfn_valid and memremap = memremap, OF True pv sl] less.prems(1) True by auto
    have lt: "?s < prp_start cmd (p + 1)" by (rule prp_start_less)
    have w: "copy_page pfn_valid memremap (rw_opcode cmd) nsid ?a (off + ?s) ?n d = Some ?d"
      by (rule write_page [OF pv less.prems(3) op]) (use less.prems(4) True in linarith)
    have st: "perform_loop pfn_valid memremap cmd nsid p q l (len - ?s) (off + ?s) d =
        perform_loop pfn_valid memremap cmd nsid (p + 1) q' l' (len - ?s - ?n) (off + ?s + ?n) ?d"
      using True nx(1) w by (subst perform_loop.simps) (simp add: io)
    have mb: "mem_bytes ?m ?a ?n = map (\<lambda>k. ?m (prp_byte cmd len ?m k)) [?s..<?s + ?n]"
      by (rule mem_bytes_page) (use lt True in linarith)+
    note pn = put_ns_put_ns [OF less.prems(3)]
    show ?thesis
    proof (cases "prp_start cmd (p + 1) < len")
      case more: True
      let ?t = "prp_start cmd (p + 1)"
      have e: "len - ?s - ?n = len - ?t" "off + ?s + ?n = off + ?t" "?s + ?n = ?t" using more lt by auto
      have "perform_loop pfn_valid memremap cmd nsid (p + 1) q' l' (len - ?t) (off + ?t) ?d =
         Some (put_ns nsid (mem_write (off + ?t) (map (\<lambda>k. ?m (prp_byte cmd len ?m k)) [?t..<len]) (na_bytes (d_ns ?d ! nsid))) ?d)"
        using less.hyps [of "p + 1" q' l' ?d] nx(2) lt True less.prems more by (simp add: pn)
      moreover have "[?s..<len] = [?s..<?t] @ [?t..<len]"
        using upt_add_eq_append [of ?s ?t "len - ?t"] more lt by (simp add: less_imp_le)
      ultimately show ?thesis using st e mb lt by (simp add: pn mem_write_append)
    next
      case False
      then have "len - ?s - ?n = 0" "?s + ?n = len" using lt True by auto
      then show ?thesis using st mb by (simp add: perform_loop.simps)
    qed
  qed
qed

section \<open>Reading\<close>

text \<open>
  The pages of the buffer do not overlap, and the list of pages is not part of the buffer.
\<close>

definition prp_apart :: "nvme_io_command \<Rightarrow> nat \<Rightarrow> (nat \<Rightarrow> nat) \<Rightarrow> bool" where
  "prp_apart cmd len mem \<longleftrightarrow> inj_on (prp_byte cmd len mem) {..<len} \<and>
     (prp_listed cmd len \<longrightarrow> (\<forall>i < len div PAGE_SIZE + 1. \<forall>j<8. \<forall>k<len.
        prp_byte cmd len mem k \<noteq> c_prp2 cmd + 8 * i + j))"

text \<open>Part of the buffer from \<open>s\<close> on has been filled from \<open>src\<close>.\<close>

definition filled :: "nvme_io_command \<Rightarrow> nat \<Rightarrow> (nat \<Rightarrow> nat) \<Rightarrow> (nat \<Rightarrow> nat) \<Rightarrow> nat \<Rightarrow> nat \<Rightarrow> (nat \<Rightarrow> nat) \<Rightarrow> (nat \<Rightarrow> nat) \<Rightarrow> bool" where
  "filled cmd len mem src s t m m' \<longleftrightarrow> (\<forall>k. s \<le> k \<and> k < t \<longrightarrow> m' (prp_byte cmd len mem k) = src k) \<and>
     (\<forall>a. (\<forall>k. s \<le> k \<and> k < t \<longrightarrow> a \<noteq> prp_byte cmd len mem k) \<longrightarrow> m' a = m a)"

lemma filled_trans:
  assumes "filled cmd len mem src s t m m1" "filled cmd len mem src t u m1 m2" "s \<le> t" "t \<le> u" "inj_on (prp_byte cmd len mem) {..<u}"
  shows "filled cmd len mem src s u m m2"
  unfolding filled_def
proof (intro conjI allI impI)
  fix k assume k: "s \<le> k \<and> k < u"
  show "m2 (prp_byte cmd len mem k) = src k"
  proof (cases "k < t")
    case True
    have "prp_byte cmd len mem k \<noteq> prp_byte cmd len mem j" if "t \<le> j" "j < u" for j
      using inj_onD [OF assms(5), of k j] that k True by auto
    then show ?thesis using assms(1,2) k True by (simp add: filled_def)
  qed (use assms(2) k in \<open>simp add: filled_def\<close>)
next
  fix a assume "\<forall>k. s \<le> k \<and> k < u \<longrightarrow> a \<noteq> prp_byte cmd len mem k"
  then show "m2 a = m a" using assms(1-4) unfolding filled_def by (metis dual_order.trans less_le_trans)
qed

lemma filled_same_list:
  assumes "filled cmd len mem src s t m m'" "same_list cmd len mem m" "prp_apart cmd len mem" "t \<le> len"
  shows "same_list cmd len mem m'"
proof -
  have "rd_u64 m' (c_prp2 cmd + 8 * i) = rd_u64 m (c_prp2 cmd + 8 * i)"
    if l: "prp_listed cmd len" and i: "i < len div PAGE_SIZE + 1" for i
  proof -
    have "m' (c_prp2 cmd + 8 * i + j) = m (c_prp2 cmd + 8 * i + j)" if "j < 8" for j
    proof -
      have "c_prp2 cmd + 8 * i + j \<noteq> prp_byte cmd len mem k" if "k < t" for k
        using assms(3,4) l i \<open>j < 8\<close> that unfolding prp_apart_def by (metis less_le_trans)
      then show ?thesis using assms(1) by (simp add: filled_def)
    qed
    then show ?thesis unfolding rd_u64_def by (intro arg_cong [of _ _ le_value]) simp
  qed
  then show ?thesis using assms(2) by (simp add: same_list_def)
qed

lemma filled_page:
  assumes "prp_start cmd p + n \<le> prp_start cmd (p + 1)" "prp_start cmd p + n \<le> len" "length bs = n"
    "\<And>i. i < n \<Longrightarrow> bs ! i = src (prp_start cmd p + i)"
  shows "filled cmd len mem src (prp_start cmd p) (prp_start cmd p + n) m (mem_write (prp_byte cmd len mem (prp_start cmd p)) bs m)"
proof -
  let ?s = "prp_start cmd p"
  have b: "prp_byte cmd len mem (?s + i) = prp_byte cmd len mem ?s + i" if "i < n" for i
    using page_bytes [of cmd p "?s + i" len mem] that assms(1,2) by simp
  show ?thesis
    unfolding filled_def
  proof (intro conjI allI impI)
    fix k assume k: "?s \<le> k \<and> k < ?s + n"
    then obtain i where i: "k = ?s + i" "i < n" by (metis le_Suc_ex nat_add_left_cancel_less)
    then show "mem_write (prp_byte cmd len mem ?s) bs m (prp_byte cmd len mem k) = src k"
      using b assms(3,4) by (simp add: mem_write_def)
  next
    fix a assume a: "\<forall>k. ?s \<le> k \<and> k < ?s + n \<longrightarrow> a \<noteq> prp_byte cmd len mem k"
    have "\<not> (prp_byte cmd len mem ?s \<le> a \<and> a < prp_byte cmd len mem ?s + n)"
    proof
      assume h: "prp_byte cmd len mem ?s \<le> a \<and> a < prp_byte cmd len mem ?s + n"
      then obtain i where "a = prp_byte cmd len mem ?s + i" "i < n" by (metis le_Suc_ex nat_add_left_cancel_less)
      then show False using spec [OF a, of "?s + i"] b [of i] by simp
    qed
    then show "mem_write (prp_byte cmd len mem ?s) bs m a = m a" using assms(3) by (auto simp: mem_write_def)
  qed
qed

lemma perform_read:
  assumes op: "rw_opcode cmd = nvme_cmd_read" and pv: "\<And>a. pfn_valid a" and ap: "prp_apart cmd len mem"
    and ok: "prp_ok cmd len mem"
  shows "(prp_start cmd p < len \<Longrightarrow> q = p - 1 \<and> l = prp_list cmd p) \<Longrightarrow> same_list cmd len mem (d_mem d) \<Longrightarrow>
     nsid < length (d_ns d) \<Longrightarrow> off + len \<le> na_size (d_ns d ! nsid) \<Longrightarrow>
     \<exists>m'. perform_loop pfn_valid memremap cmd nsid p q l (len - prp_start cmd p) (off + prp_start cmd p) d =
       Some (d\<lparr>d_mem := m'\<rparr>) \<and>
       filled cmd len mem (\<lambda>k. na_bytes (d_ns d ! nsid) (off + k)) (prp_start cmd p) len (d_mem d) m'"
proof (induction "len - prp_start cmd p" arbitrary: p q l d rule: less_induct)
  case less
  let ?s = "prp_start cmd p" and ?src = "\<lambda>k. na_bytes (d_ns d ! nsid) (off + k)"
  show ?case
  proof (cases "?s < len")
    case False
    then have "perform_loop pfn_valid memremap cmd nsid p q l (len - ?s) (off + ?s) d = Some (d\<lparr>d_mem := d_mem d\<rparr>)"
      by (simp add: perform_loop.simps)
    moreover have "filled cmd len mem ?src ?s len (d_mem d) (d_mem d)" using False by (simp add: filled_def)
    ultimately show ?thesis by blast
  next
    case True
    let ?a = "prp_byte cmd len mem ?s" and ?n = "min len (prp_start cmd (p + 1)) - ?s"
    let ?bs = "mem_bytes (na_bytes (d_ns d ! nsid)) (off + ?s) ?n"
    let ?m = "mem_write ?a ?bs (d_mem d)"
    have io: "io_size (len - ?s) ?a = ?n" by (rule page_io_size [OF True ok])
    obtain q' l' where nx: "next_prp pfn_valid memremap cmd (d_mem d) (len - ?s) (p + 1) q l = Some (?a, q', l')"
      "prp_start cmd (p + 1) < len \<longrightarrow> q' = p \<and> l' = prp_list cmd (p + 1)"
      using next_prp_page [where pfn_valid = pfn_valid and memremap = memremap, OF True pv less.prems(2)] less.prems(1) True by auto
    have lt: "?s < prp_start cmd (p + 1)" by (rule prp_start_less)
    have r: "copy_page pfn_valid memremap (rw_opcode cmd) nsid ?a (off + ?s) ?n d = Some (d\<lparr>d_mem := ?m\<rparr>)"
      by (rule read_page [OF pv less.prems(3) op]) (use less.prems(4) True in linarith)
    have st: "perform_loop pfn_valid memremap cmd nsid p q l (len - ?s) (off + ?s) d =
        perform_loop pfn_valid memremap cmd nsid (p + 1) q' l' (len - ?s - ?n) (off + ?s + ?n) (d\<lparr>d_mem := ?m\<rparr>)"
      using True nx(1) r by (subst perform_loop.simps) (simp add: io)
    have f: "filled cmd len mem ?src ?s (?s + ?n) (d_mem d) ?m"
      by (rule filled_page) (use lt True in \<open>auto simp: mem_bytes_def add.assoc\<close>)
    show ?thesis
    proof (cases "prp_start cmd (p + 1) < len")
      case more: True
      let ?t = "prp_start cmd (p + 1)"
      have e: "len - ?s - ?n = len - ?t" "off + ?s + ?n = off + ?t" "?s + ?n = ?t" using more lt by auto
      have sl: "same_list cmd len mem ?m" using filled_same_list [OF f less.prems(2) ap] e more by simp
      have "\<exists>m'. perform_loop pfn_valid memremap cmd nsid (p + 1) q' l' (len - ?t) (off + ?t) (d\<lparr>d_mem := ?m\<rparr>) =
          Some (d\<lparr>d_mem := ?m, d_mem := m'\<rparr>) \<and> filled cmd len mem ?src ?t len ?m m'"
        using less.hyps [of "p + 1" q' l' "d\<lparr>d_mem := ?m\<rparr>"] nx(2) lt True less.prems(3,4) sl more by simp
      then obtain m' where m': "perform_loop pfn_valid memremap cmd nsid (p + 1) q' l' (len - ?t) (off + ?t) (d\<lparr>d_mem := ?m\<rparr>) =
          Some (d\<lparr>d_mem := m'\<rparr>)" "filled cmd len mem ?src ?t len ?m m'" by auto
      have "filled cmd len mem ?src ?s len (d_mem d) m'"
        by (rule filled_trans [OF f [unfolded e(3)] m'(2)]) (use more lt ap in \<open>auto simp: prp_apart_def\<close>)
      moreover have "perform_loop pfn_valid memremap cmd nsid p q l (len - ?s) (off + ?s) d = Some (d\<lparr>d_mem := m'\<rparr>)"
        using st m'(1) unfolding e(1,2) by simp
      ultimately show ?thesis by blast
    next
      case False
      then have "len - ?s - ?n = 0" "?s + ?n = len" using lt True by auto
      then show ?thesis using st f by (auto simp: perform_loop.simps)
    qed
  qed
qed

end
