(* ===== verification/Io_Pass.thy ===== *)
theory Io_Pass
  imports Io_Reclaim Io_Copy
begin

text \<open>
  An iteration of a worker's loop returns, keeps the queue, copies the data of every request and
  completes the requests that are due.
\<close>

section \<open>Requests that can be served\<close>

text \<open>
  The command addresses a namespace and blocks within it, and a second page address that is not a
  list covers the rest of the data.
\<close>

definition cmd_ok :: "nat list \<Rightarrow> nvme_io_command \<Rightarrow> bool" where
  "cmd_ok sizes cmd \<longleftrightarrow> (let nsid = u32_sub (rw_nsid cmd) 1; n = cmd_io_size cmd; r = n - io_size n (c_prp1 cmd) in
     nsid < length sizes \<and> cmd_io_offset cmd + n \<le> sizes ! nsid \<and> (r \<le> PAGE_SIZE \<longrightarrow> io_size r (c_prp2 cmd) = r))"

definition ring_ok :: "nvmev_completion_queue \<Rightarrow> bool" where
  "ring_ok cq \<longleftrightarrow> cq_head cq < cq_queue_size cq \<and> length (cq_entries cq) = cq_queue_size cq \<and> cq_phase cq \<le> 1"

definition io_ok :: "'b io_dev \<Rightarrow> 'b nvmev_io_work \<Rightarrow> bool" where
  "io_ok d w \<longleftrightarrow> w_is_internal w \<or>
     (case deref (d_sqes d) (w_sqid w) of None \<Rightarrow> False
      | Some sq \<Rightarrow> w_sq_entry w < length (sq_entries sq) \<and> cmd_ok (map na_size (d_ns d)) (sq_entries sq ! w_sq_entry w)) \<and>
     (case deref (d_cqes d) (w_cqid w) of None \<Rightarrow> False | Some cq \<Rightarrow> ring_ok cq)"

text \<open>What the worker keeps of the device.\<close>

definition dev_le :: "'b io_dev \<Rightarrow> 'b io_dev \<Rightarrow> bool" where
  "dev_le d d' \<longleftrightarrow> d_sqes d' = d_sqes d \<and> map na_size (d_ns d') = map na_size (d_ns d) \<and>
     length (d_cqes d') = length (d_cqes d) \<and>
     (\<forall>i cq. deref (d_cqes d) i = Some cq \<and> ring_ok cq \<longrightarrow> (\<exists>cq'. deref (d_cqes d') i = Some cq' \<and> ring_ok cq'))"

lemma dev_le_refl: "dev_le d d" by (simp add: dev_le_def)

lemma dev_le_trans: "dev_le d d1 \<Longrightarrow> dev_le d1 d2 \<Longrightarrow> dev_le d d2"
  unfolding dev_le_def by metis

lemma io_ok_le: "io_ok d w \<Longrightarrow> dev_le d d' \<Longrightarrow> io_ok d' w"
  by (fastforce simp: io_ok_def dev_le_def split: option.splits)

section \<open>Copying returns\<close>

lemma copy_page_returns:
  assumes "\<And>a. pfn_valid a" "nsid < length (d_ns d)" "offset + n \<le> na_size (d_ns d ! nsid)"
  shows "\<exists>d'. copy_page pfn_valid memremap opcode nsid paddr offset n d = Some d' \<and> d_sqes d' = d_sqes d \<and> d_cqes d' = d_cqes d \<and>
     d_buffers d' = d_buffers d \<and> d_irqs d' = d_irqs d \<and> map na_size (d_ns d') = map na_size (d_ns d)"
proof -
  have "map na_size ((d_ns d)[nsid := (d_ns d ! nsid)\<lparr>na_bytes := f\<rparr>]) = map na_size (d_ns d)" for f
    using assms(2) by (metis list_update_id map_update ns_area.select_convs(1) ns_area.surjective ns_area.update_convs(2))
  then show ?thesis using assms by (auto simp: copy_page_def Let_def map_page_def)
qed

lemma perform_returns:
  assumes pv: "\<And>a. pfn_valid a"
  shows "nsid < length (d_ns d) \<Longrightarrow> offset + remaining \<le> na_size (d_ns d ! nsid) \<Longrightarrow>
     l \<noteq> None \<and> 2 \<le> p \<or> p = 0 \<and> (let r = remaining - io_size remaining (c_prp1 cmd) in r \<le> PAGE_SIZE \<longrightarrow> io_size r (c_prp2 cmd) = r) \<or>
       p = 1 \<and> (remaining \<le> PAGE_SIZE \<longrightarrow> io_size remaining (c_prp2 cmd) = remaining) \<or> remaining = 0 \<Longrightarrow>
     \<exists>d'. perform_loop pfn_valid memremap cmd nsid p q l remaining offset d = Some d' \<and> d_sqes d' = d_sqes d \<and> d_cqes d' = d_cqes d \<and>
       d_buffers d' = d_buffers d \<and> d_irqs d' = d_irqs d \<and> map na_size (d_ns d') = map na_size (d_ns d)"
proof (induction remaining arbitrary: p q l offset d rule: less_induct)
  case (less remaining)
  show ?case
  proof (cases "remaining = 0")
    case True
    then show ?thesis by (simp add: perform_loop.simps)
  next
    case False
    have ml: "map_list pfn_valid memremap a = Some a" for a using pv by (simp add: map_list_def)
    obtain a q' l' where nx: "next_prp pfn_valid memremap cmd (d_mem d) remaining (p + 1) q l = Some (a, q', l')"
      "l' \<noteq> None \<and> 2 \<le> p + 1 \<or> p + 1 = 1 \<and> a = c_prp1 cmd \<or> p + 1 = 2 \<and> remaining \<le> PAGE_SIZE \<and> a = c_prp2 cmd"
      using less.prems(3) False ml by (cases "p = 0"; cases "p = 1"; cases "remaining \<le> PAGE_SIZE") (auto simp: next_prp_def)
    let ?n = "io_size remaining a"
    have n: "0 < ?n" "?n \<le> remaining" using io_size_bounds [of remaining a] False by simp_all
    obtain d1 where d1: "copy_page pfn_valid memremap (rw_opcode cmd) nsid a offset ?n d = Some d1" "d_sqes d1 = d_sqes d" "d_cqes d1 = d_cqes d"
      "d_buffers d1 = d_buffers d" "d_irqs d1 = d_irqs d" "map na_size (d_ns d1) = map na_size (d_ns d)"
      using copy_page_returns [where pfn_valid = pfn_valid and memremap = memremap and opcode = "rw_opcode cmd" and paddr = a, OF pv less.prems(1), of offset ?n]
        less.prems(2) n by auto
    have st: "perform_loop pfn_valid memremap cmd nsid p q l remaining offset d =
        perform_loop pfn_valid memremap cmd nsid (p + 1) q' l' (remaining - ?n) (offset + ?n) d1"
      using False nx(1) d1(1) by (subst perform_loop.simps) simp
    have ns: "nsid < length (d_ns d1)" "na_size (d_ns d1 ! nsid) = na_size (d_ns d ! nsid)"
      using d1(6) less.prems(1) by (metis length_map, metis length_map nth_map)
    have c: "l' \<noteq> None \<and> 2 \<le> p + 1 \<or> p + 1 = 1 \<and> (remaining - ?n \<le> PAGE_SIZE \<longrightarrow> io_size (remaining - ?n) (c_prp2 cmd) = remaining - ?n) \<or>
        remaining - ?n = 0"
      using nx(2) less.prems(3) False by (auto simp: Let_def)
    show ?thesis
      using less.IH [of "remaining - ?n" d1 "offset + ?n" l' "p + 1" q'] n ns less.prems(2) c st d1 by auto
  qed
qed

lemma do_perform_returns:
  assumes "\<And>a. pfn_valid a" "io_ok d w" "\<not> w_is_internal w"
  shows "\<exists>n d'. do_perform_io pfn_valid memremap (w_sqid w) (w_sq_entry w) d = Some (n, d') \<and> dev_le d d' \<and>
     d_buffers d' = d_buffers d \<and> d_cqes d' = d_cqes d"
proof -
  obtain sq where sq: "deref (d_sqes d) (w_sqid w) = Some sq" "w_sq_entry w < length (sq_entries sq)"
    "cmd_ok (map na_size (d_ns d)) (sq_entries sq ! w_sq_entry w)"
    using assms(2,3) by (auto simp: io_ok_def split: option.splits)
  let ?cmd = "sq_entries sq ! w_sq_entry w"
  have "\<exists>d'. perform_loop pfn_valid memremap ?cmd (u32_sub (rw_nsid ?cmd) 1) 0 0 None (cmd_io_size ?cmd) (cmd_io_offset ?cmd) d = Some d' \<and>
      d_sqes d' = d_sqes d \<and> d_cqes d' = d_cqes d \<and> d_buffers d' = d_buffers d \<and> d_irqs d' = d_irqs d \<and>
      map na_size (d_ns d') = map na_size (d_ns d)"
    by (rule perform_returns [where pfn_valid = pfn_valid, OF assms(1)]) (use sq(3) in \<open>auto simp: cmd_ok_def Let_def\<close>)
  then obtain d' where d': "perform_loop pfn_valid memremap ?cmd (u32_sub (rw_nsid ?cmd) 1) 0 0 None (cmd_io_size ?cmd) (cmd_io_offset ?cmd) d = Some d'"
      "d_sqes d' = d_sqes d" "d_cqes d' = d_cqes d" "d_buffers d' = d_buffers d" "map na_size (d_ns d') = map na_size (d_ns d)" by blast
  then have "dev_le d d'" by (simp add: dev_le_def)
  then show ?thesis using sq d' by (simp add: do_perform_io_def)
qed

section \<open>Completing\<close>

lemma deref_eq: "deref xs i = Some x \<longleftrightarrow> i < length xs \<and> xs ! i = Some x"
  by (auto simp: deref_def bind_eq_Some_conv)

lemma dev_le_cq:
  assumes "deref (d_cqes d) i = Some cq" "ring_ok cq \<Longrightarrow> ring_ok cq'" "d_sqes d' = d_sqes d" "d_ns d' = d_ns d"
    "d_cqes d' = (d_cqes d)[i := Some cq']"
  shows "dev_le d d'"
  using assms by (auto simp: dev_le_def deref_eq nth_list_update)

text \<open>The completion entry of a request and the queue after it.\<close>

definition cqe_of :: "nvmev_completion_queue \<Rightarrow> 'b nvmev_io_work \<Rightarrow> nvme_completion" where
  "cqe_of cq w = \<lparr>cqe_result0 = w_result0 w, cqe_result1 = w_result1 w, cqe_sq_head = u16 (w_sq_entry w), cqe_sq_id = u16 (w_sqid w),
     cqe_command_id = u16 (w_command_id w), cqe_status = u16 (Bit_Operations.or (cq_phase cq) (u32 (w_status w * 2)))\<rparr>"

definition cq_push :: "'b nvmev_io_work \<Rightarrow> nvmev_completion_queue \<Rightarrow> nvmev_completion_queue" where
  "cq_push w cq = cq\<lparr>cq_entries := (cq_entries cq)[cq_head cq := cqe_of cq w],
     cq_head := (if cq_head cq + 1 = cq_queue_size cq then 0 else cq_head cq + 1),
     cq_phase := (if cq_head cq + 1 = cq_queue_size cq then (if cq_phase cq = 0 then 1 else 0) else cq_phase cq),
     cq_interrupt_ready := True\<rparr>"

lemma ring_ok_push: "ring_ok cq \<Longrightarrow> ring_ok (cq_push w cq)"
  by (auto simp: ring_ok_def cq_push_def)

lemma fill_cq_push:
  assumes "deref (d_cqes d) (w_cqid w) = Some cq" "ring_ok cq"
  shows "fill_cq_result w d = Some (d\<lparr>d_cqes := (d_cqes d)[w_cqid w := Some (cq_push w cq)]\<rparr>)"
  using assms by (cases cq) (simp add: fill_cq_result_def ring_ok_def Let_def cq_push_def cqe_of_def)

section \<open>One request\<close>

definition served :: "nat \<Rightarrow> 'b nvmev_io_work \<Rightarrow> 'b nvmev_io_work" where
  "served now w = (if w_is_completed w then w else w\<lparr>w_is_copied := True, w_is_completed := (w_nsecs_target w \<le> now)\<rparr>)"

lemma served_sel [simp]:
  "w_next (served now w) = w_next w" "w_prev (served now w) = w_prev w" "w_nsecs_target (served now w) = w_nsecs_target w"
  "w_is_internal (served now w) = w_is_internal w" "io_ok d (served now w) = io_ok d w"
  by (simp_all add: served_def io_ok_def split: option.splits)

lemma not_completed_same: "\<not> w_is_completed w \<Longrightarrow> w\<lparr>w_is_completed := False\<rparr> = w"
  by (cases w) simp

lemma worker_entry_ok:
  assumes pv: "\<And>a. pfn_valid a" and ok: "io_ok d w"
  shows "\<exists>d'. worker_entry pfn_valid memremap ty now w d = Some (served now w, d') \<and> dev_le d d' \<and>
     (ty \<noteq> SSD_TYPE_CONV \<and> ty \<noteq> SSD_TYPE_ZNS \<longrightarrow> d_buffers d' = d_buffers d)"
proof (cases "w_is_completed w")
  case True
  then show ?thesis by (simp add: worker_entry_def served_def dev_le_refl)
next
  case False
  have "\<exists>d1. copy_work pfn_valid memremap w d = Some d1 \<and> dev_le d d1 \<and> d_buffers d1 = d_buffers d"
  proof (cases "w_is_copied w \<or> w_is_internal w")
    case False
    then show ?thesis using do_perform_returns [where pfn_valid = pfn_valid and memremap = memremap, OF pv ok] by (auto simp: copy_work_def)
  qed (simp add: copy_work_def dev_le_refl)
  then obtain d1 where d1: "copy_work pfn_valid memremap w d = Some d1" "dev_le d d1" "d_buffers d1 = d_buffers d" by blast
  let ?w1 = "w\<lparr>w_is_copied := True\<rparr>"
  have nc: "served now w = (if w_nsecs_target w \<le> now then ?w1\<lparr>w_is_completed := True\<rparr> else ?w1)"
    using False not_completed_same [of ?w1] by (simp add: served_def)
  show ?thesis
  proof (cases "w_nsecs_target w \<le> now")
    case late: False
    then show ?thesis using False d1 nc by (simp add: worker_entry_def)
  next
    case due: True
    show ?thesis
    proof (cases "w_is_internal w")
      case True
      have "dev_le d (release_work ty ?w1 d1)" using d1(2) by (simp add: release_work_def dev_le_def)
      moreover have "ty \<noteq> SSD_TYPE_CONV \<and> ty \<noteq> SSD_TYPE_ZNS \<longrightarrow> d_buffers (release_work ty ?w1 d1) = d_buffers d"
        using d1(3) by (simp add: release_work_def)
      ultimately show ?thesis using False due True d1(1) nc by (simp add: worker_entry_def Let_def)
    next
      case ext: False
      have "io_ok d1 w" using io_ok_le [OF ok d1(2)] .
      then obtain cq where cq: "deref (d_cqes d1) (w_cqid w) = Some cq" "ring_ok cq"
        using ext by (auto simp: io_ok_def split: option.splits)
      let ?d2 = "d1\<lparr>d_cqes := (d_cqes d1)[w_cqid w := Some (cq_push ?w1 cq)]\<rparr>"
      have f: "fill_cq_result ?w1 d1 = Some ?d2" using fill_cq_push [of d1 ?w1 cq] cq by simp
      have "dev_le d1 ?d2" by (rule dev_le_cq [OF cq(1)]) (simp_all add: ring_ok_push)
      then have "dev_le d ?d2" by (rule dev_le_trans [OF d1(2)])
      then show ?thesis using False due ext d1 f nc by (simp add: worker_entry_def Let_def)
    qed
  qed
qed

section \<open>The whole queue\<close>

lemma worker_scan_ok:
  assumes pv: "\<And>a. pfn_valid a"
  shows "path (nx wk) cur zs NONE32 \<Longrightarrow> distinct zs \<Longrightarrow> (\<And>z. z \<in> set zs \<Longrightarrow> z < length (work_queue wk) \<and> z \<noteq> NONE32) \<Longrightarrow>
     (\<And>z. z \<in> set zs \<Longrightarrow> io_ok d (work_queue wk ! z)) \<Longrightarrow>
     \<exists>wq d'. worker_scan pfn_valid memremap ty clk k cur (wk, d) =
         Some (k + length zs, wk\<lparr>work_queue := wq, latest_nsecs := (if zs = [] then latest_nsecs wk else clk (k + length zs - 1))\<rparr>, d') \<and>
       dev_le d d' \<and> length wq = length (work_queue wk) \<and> (\<forall>i. i \<notin> set zs \<longrightarrow> wq ! i = work_queue wk ! i) \<and>
       (\<forall>j<length zs. wq ! (zs ! j) = served (clk (k + j)) (work_queue wk ! (zs ! j))) \<and>
       (ty \<noteq> SSD_TYPE_CONV \<and> ty \<noteq> SSD_TYPE_ZNS \<longrightarrow> d_buffers d' = d_buffers d)"
proof (induction zs arbitrary: wk d cur k)
  case Nil
  then show ?case using dev_le_refl by (intro exI [of _ "work_queue wk"] exI [of _ d]) (simp add: worker_scan.simps)
next
  case (Cons z zs)
  have z: "cur = z" "z < length (work_queue wk)" "z \<noteq> NONE32" "z \<notin> set zs" "path (nx wk) (nx wk z) zs NONE32" "distinct zs"
    using Cons.prems(1-3) by auto
  let ?w = "work_queue wk ! z"
  obtain d1 where d1: "worker_entry pfn_valid memremap ty (clk k) ?w d = Some (served (clk k) ?w, d1)" "dev_le d d1"
     "ty \<noteq> SSD_TYPE_CONV \<and> ty \<noteq> SSD_TYPE_ZNS \<longrightarrow> d_buffers d1 = d_buffers d"
    using worker_entry_ok [where pfn_valid = pfn_valid and memremap = memremap, OF pv Cons.prems(4) [of z]] by auto
  let ?wk = "wk\<lparr>latest_nsecs := clk k, work_queue := (work_queue wk)[z := served (clk k) ?w]\<rparr>"
  have nxw: "nx ?wk i = nx wk i" for i using z(2) by (simp add: nx_def nth_upd)
  then have nf: "nx ?wk = nx wk" by (rule ext)
  have st: "worker_scan pfn_valid memremap ty clk k cur (wk, d) = worker_scan pfn_valid memremap ty clk (k + 1) (nx wk z) (?wk, d1)"
    using z d1(1) by (subst worker_scan.simps) (simp add: upd_work_eq nx_def)
  have "\<exists>wq d'. worker_scan pfn_valid memremap ty clk (k + 1) (nx wk z) (?wk, d1) =
         Some (k + 1 + length zs, ?wk\<lparr>work_queue := wq, latest_nsecs := (if zs = [] then latest_nsecs ?wk else clk (k + 1 + length zs - 1))\<rparr>, d') \<and>
       dev_le d1 d' \<and> length wq = length (work_queue ?wk) \<and> (\<forall>i. i \<notin> set zs \<longrightarrow> wq ! i = work_queue ?wk ! i) \<and>
       (\<forall>j<length zs. wq ! (zs ! j) = served (clk (k + 1 + j)) (work_queue ?wk ! (zs ! j))) \<and>
       (ty \<noteq> SSD_TYPE_CONV \<and> ty \<noteq> SSD_TYPE_ZNS \<longrightarrow> d_buffers d' = d_buffers d1)"
  proof (rule Cons.IH)
    show "path (nx ?wk) (nx wk z) zs NONE32" unfolding nf by (rule z(5))
    show "y < length (work_queue ?wk) \<and> y \<noteq> NONE32" if "y \<in> set zs" for y using Cons.prems(3) [of y] that by simp
    show "io_ok d1 (work_queue ?wk ! y)" if "y \<in> set zs" for y
    proof -
      have "y \<noteq> z" using that z(4) by auto
      then show ?thesis using io_ok_le [OF Cons.prems(4) [of y] d1(2)] that by simp
    qed
  qed (rule z(6))
  then obtain wq d' where w: "worker_scan pfn_valid memremap ty clk (k + 1) (nx wk z) (?wk, d1) =
         Some (k + 1 + length zs, ?wk\<lparr>work_queue := wq, latest_nsecs := (if zs = [] then latest_nsecs ?wk else clk (k + 1 + length zs - 1))\<rparr>, d')"
       "dev_le d1 d'" "length wq = length (work_queue ?wk)" "\<forall>i. i \<notin> set zs \<longrightarrow> wq ! i = work_queue ?wk ! i"
       "\<forall>j<length zs. wq ! (zs ! j) = served (clk (k + 1 + j)) (work_queue ?wk ! (zs ! j))"
       "ty \<noteq> SSD_TYPE_CONV \<and> ty \<noteq> SSD_TYPE_ZNS \<longrightarrow> d_buffers d' = d_buffers d1" by blast
  have len: "length wq = length (work_queue wk)" using w(3) by simp
  have old: "wq ! i = work_queue wk ! i" if "i \<notin> set (z # zs)" for i using w(4) that by simp
  have new: "wq ! ((z # zs) ! j) = served (clk (k + j)) (work_queue wk ! ((z # zs) ! j))" if "j < length (z # zs)" for j
  proof (cases j)
    case 0
    then show ?thesis using w(4) z(2,4) by simp
  next
    case (Suc i)
    then have i: "i < length zs" using that by simp
    then have "zs ! i \<noteq> z" using z(4) by (metis nth_mem)
    then show ?thesis using w(5) i Suc by simp
  qed
  have "worker_scan pfn_valid memremap ty clk k cur (wk, d) =
      Some (k + length (z # zs), wk\<lparr>work_queue := wq, latest_nsecs := (if z # zs = [] then latest_nsecs wk else clk (k + length (z # zs) - 1))\<rparr>, d')"
    using st w(1) by simp
  then show ?case using dev_le_trans [OF d1(2) w(2)] len old new d1(3) w(6) by (intro exI [of _ wq] exI [of _ d']) simp
qed

section \<open>An iteration of the loop\<close>

lemma signal_irqs_ok:
  assumes "nr_cq < length (d_cqes d)"
  shows "\<exists>d'. signal_irqs nr_io_workers nr_cq k d = Some d' \<and> dev_le d d' \<and> d_buffers d' = d_buffers d"
proof -
  have "\<exists>d'. signal_irqs nr_io_workers nr_cq k d = Some d' \<and> (dev_le d d' \<and> d_buffers d' = d_buffers d)"
    unfolding signal_irqs_def
  proof (rule foldM_upt_total [where P = "\<lambda>_ d'. dev_le d d' \<and> d_buffers d' = d_buffers d"])
    fix i d1 assume i: "1 \<le> i" "i < nr_cq + 1" and d1: "dev_le d d1 \<and> d_buffers d1 = d_buffers d"
    have "i < length (d_cqes d1)" using i assms d1 by (simp add: dev_le_def)
    moreover have "dev_le d (d1\<lparr>d_cqes := (d_cqes d1)[i := Some (cq\<lparr>cq_interrupt_ready := False\<rparr>)], d_irqs := v\<rparr>)"
      if "d_cqes d1 ! i = Some cq" for cq v
    proof (rule dev_le_trans [OF conjunct1 [OF d1]], rule dev_le_cq)
      show "deref (d_cqes d1) i = Some cq" using that calculation by (simp add: deref_eq)
    qed (simp_all add: ring_ok_def)
    ultimately show "\<exists>d2. (do {
         p \<leftarrow> rd (d_cqes d1) i;
         if k \<noteq> get_io_worker nr_io_workers i then Some d1
         else case p of None \<Rightarrow> Some d1
           | Some cq \<Rightarrow> if \<not> cq_irq_enabled cq then Some d1
             else if cq_interrupt_ready cq
             then Some (d1\<lparr>d_cqes := (d_cqes d1)[i := Some (cq\<lparr>cq_interrupt_ready := False\<rparr>)], d_irqs := d_irqs d1 @ [cq_irq_vector cq]\<rparr>)
             else Some d1 }) = Some d2 \<and> dev_le d d2 \<and> d_buffers d2 = d_buffers d"
      using d1 by (cases "d_cqes d1 ! i") simp_all
  qed (simp_all add: dev_le_refl)
  then show ?thesis .
qed

lemma sorted_due_later:
  assumes "sorted (map (\<lambda>i. max (f i) (n::nat)) xs)" "n \<le> n'"
  shows "sorted (map (\<lambda>i. max (f i) n') xs)"
proof -
  have "map (\<lambda>i. max (f i) n') xs = map (\<lambda>v. max v n') (map (\<lambda>i. max (f i) n) xs)" using assms(2) by (simp add: comp_def max.assoc)
  moreover have "mono (\<lambda>v. max v n')" by (simp add: mono_def) linarith
  ultimately show ?thesis using assms(1) sorted_map_mono by (metis mono_on_subset mono_on_def monoD sorted_map)
qed

text \<open>The clock does not run backwards; the worker's requests can be served, and those that are completed were due.\<close>

definition clock_ok :: "(nat \<Rightarrow> nat) \<Rightarrow> bool" where "clock_ok clk \<longleftrightarrow> (\<forall>i j. i \<le> j \<longrightarrow> clk i \<le> clk j)"

definition queue_ok :: "'b io_dev \<Rightarrow> 'b nvmev_io_worker \<Rightarrow> nat list \<Rightarrow> bool" where
  "queue_ok d wk xs \<longleftrightarrow> (\<forall>w\<in>set (requests wk xs). io_ok d w \<and>
     (w_is_completed w \<longrightarrow> w_is_copied w \<and> w_nsecs_target w \<le> latest_nsecs wk))"

lemma queue_okD: "queue_ok d wk xs \<Longrightarrow> w \<in> set (requests wk xs) \<Longrightarrow> io_ok d w \<and> (w_is_completed w \<longrightarrow> w_is_copied w \<and> w_nsecs_target w \<le> latest_nsecs wk)"
  by (simp add: queue_ok_def)

lemma io_ok_request [simp]: "io_ok d (request w) = io_ok d w"
  by (simp add: io_ok_def request_def split: option.splits)

lemma request_served: "request (served now w) = served now (request w)"
  by (simp add: request_def served_def)

lemma pass_ok:
  assumes pv: "\<And>a. pfn_valid a" and inv: "worker_inv wk xs ys" and sv: "queue_ok d wk xs" and cq: "nr_cq < length (d_cqes d)"
    and clk: "clock_ok clk" "latest_nsecs wk \<le> clk k"
  shows "\<exists>wk' d'. io_worker_pass pfn_valid memremap ty nr_io_workers nr_cq clk k wk d = Some (k + length xs, wk', d') \<and>
     worker_inv wk' xs ys \<and> dev_le d d' \<and> queue_ok d' wk' xs \<and> wk_id wk' = wk_id wk \<and>
     latest_nsecs wk' = (if xs = [] then latest_nsecs wk else clk (k + length xs - 1)) \<and>
     requests wk' xs = map (\<lambda>j. served (clk (k + j)) (requests wk xs ! j)) [0..<length xs] \<and>
     (ty \<noteq> SSD_TYPE_CONV \<and> ty \<noteq> SSD_TYPE_ZNS \<longrightarrow> d_buffers d' = d_buffers d)"
proof -
  note v = worker_invD [OF inv]
  let ?n = "if xs = [] then latest_nsecs wk else clk (k + length xs - 1)"
  have "\<exists>wq d'. worker_scan pfn_valid memremap ty clk k (io_seq wk) (wk, d) = Some (k + length xs, wk\<lparr>work_queue := wq, latest_nsecs := ?n\<rparr>, d') \<and>
       dev_le d d' \<and> length wq = length (work_queue wk) \<and> (\<forall>i. i \<notin> set xs \<longrightarrow> wq ! i = work_queue wk ! i) \<and>
       (\<forall>j<length xs. wq ! (xs ! j) = served (clk (k + j)) (work_queue wk ! (xs ! j))) \<and>
       (ty \<noteq> SSD_TYPE_CONV \<and> ty \<noteq> SSD_TYPE_ZNS \<longrightarrow> d_buffers d' = d_buffers d)"
  proof (rule worker_scan_ok [where pfn_valid = pfn_valid, OF pv v(4)])
    show "io_ok d (work_queue wk ! z)" if "z \<in> set xs" for z using sv that by (auto simp: queue_ok_def requests_def)
  qed (use v(1,2,10) not_none in auto)
  then obtain wq d1 where w: "worker_scan pfn_valid memremap ty clk k (io_seq wk) (wk, d) = Some (k + length xs, wk\<lparr>work_queue := wq, latest_nsecs := ?n\<rparr>, d1)"
     "dev_le d d1" "length wq = length (work_queue wk)" "\<forall>i. i \<notin> set xs \<longrightarrow> wq ! i = work_queue wk ! i"
     "\<forall>j<length xs. wq ! (xs ! j) = served (clk (k + j)) (work_queue wk ! (xs ! j))"
     "ty \<noteq> SSD_TYPE_CONV \<and> ty \<noteq> SSD_TYPE_ZNS \<longrightarrow> d_buffers d1 = d_buffers d" by blast
  let ?wk = "wk\<lparr>work_queue := wq, latest_nsecs := ?n\<rparr>"
  obtain d2 where d2: "signal_irqs nr_io_workers nr_cq (wk_id ?wk) d1 = Some d2" "dev_le d1 d2" "d_buffers d2 = d_buffers d1"
  proof -
    have "nr_cq < length (d_cqes d1)" using cq w(2) by (simp add: dev_le_def)
    then show ?thesis using that signal_irqs_ok [of nr_cq d1 nr_io_workers "wk_id ?wk"] by blast
  qed
  have f: "w_next (wq ! i) = w_next (work_queue wk ! i) \<and> w_prev (wq ! i) = w_prev (work_queue wk ! i) \<and>
      w_nsecs_target (wq ! i) = w_nsecs_target (work_queue wk ! i)" for i
  proof (cases "i \<in> set xs")
    case True
    then obtain j where "j < length xs" "i = xs ! j" by (metis in_set_conv_nth)
    then show ?thesis using w(5) by simp
  qed (use w(4) in simp)
  then have g: "nx ?wk = nx wk" "pv ?wk = pv wk" "tgt ?wk = tgt wk" by (simp_all add: nx_def pv_def tgt_def fun_eq_iff)
  have n: "latest_nsecs wk \<le> ?n"
  proof (cases xs)
    case (Cons x zs)
    then have "clk k \<le> clk (k + length xs - 1)" using clk(1) by (simp add: clock_ok_def)
    then show ?thesis using clk(2) Cons by simp
  qed simp
  have "sorted (map (due ?wk) xs)"
    using sorted_due_later [of "tgt wk" "latest_nsecs wk" xs ?n] v(9) n g(3) unfolding due_def [abs_def] by simp
  then have "worker_inv ?wk xs ys" using v(1-8) w(3) unfolding worker_inv_def g(1,2) by simp
  moreover have rq: "requests ?wk xs = map (\<lambda>j. served (clk (k + j)) (requests wk xs ! j)) [0..<length xs]"
    by (rule nth_equalityI) (use w(5) in \<open>auto simp: requests_def request_served\<close>)
  moreover have "queue_ok d2 ?wk xs"
    unfolding queue_ok_def rq
  proof
    fix u assume "u \<in> set (map (\<lambda>j. served (clk (k + j)) (requests wk xs ! j)) [0..<length xs])"
    then obtain j where j: "j < length xs" "u = served (clk (k + j)) (requests wk xs ! j)" by auto
    have q: "io_ok d (requests wk xs ! j)" "w_is_completed (requests wk xs ! j) \<longrightarrow>
        w_is_copied (requests wk xs ! j) \<and> w_nsecs_target (requests wk xs ! j) \<le> latest_nsecs wk"
      using queue_okD [OF sv, of "requests wk xs ! j"] j(1) by (auto simp: requests_def)
    have "clk (k + j) \<le> clk (k + length xs - 1)" using clk(1) j(1) by (simp add: clock_ok_def)
    then have "clk (k + j) \<le> latest_nsecs ?wk" using j(1) by auto
    then show "io_ok d2 u \<and> (w_is_completed u \<longrightarrow> w_is_copied u \<and> w_nsecs_target u \<le> latest_nsecs ?wk)"
    proof -
      have "io_ok d2 u" using io_ok_le [OF q(1) dev_le_trans [OF w(2) d2(2)]] unfolding j(2) by simp
      moreover have "w_is_completed u \<longrightarrow> w_is_copied u \<and> (w_nsecs_target u \<le> latest_nsecs wk \<or> w_nsecs_target u \<le> clk (k + j))"
        using q(2) unfolding j(2) by (auto simp: served_def)
      ultimately show ?thesis using n \<open>clk (k + j) \<le> latest_nsecs ?wk\<close> by auto
    qed
  qed
  ultimately show ?thesis using w(1,6) d2 dev_le_trans [OF w(2) d2(2)] by (auto simp: io_worker_pass_def)
qed


section \<open>Due requests\<close>

text \<open>After an iteration that began at \<open>clk k\<close>, the requests that were due then are at the front and finished.\<close>

lemma dropWhile_hd: "x \<in> set (dropWhile P xs) \<Longrightarrow> \<exists>h zs. dropWhile P xs = h # zs \<and> \<not> P h \<and> x \<in> set (h # zs)"
  using hd_dropWhile [of P xs] by (cases "dropWhile P xs") auto

lemma pass_finishes:
  assumes inv: "worker_inv wk xs ys" and n: "latest_nsecs wk \<le> clk k" and clk: "clock_ok clk"
    and rq: "requests wk' xs = map (\<lambda>j. served (clk (k + j)) (requests wk xs ! j)) [0..<length xs]"
    and ok: "queue_ok d wk' xs" and x: "x \<in> set (dropWhile (finished wk') xs)"
  shows "clk k < tgt wk x"
proof (rule ccontr)
  assume c: "\<not> clk k < tgt wk x"
  note v = worker_invD [OF inv]
  obtain h zs where h: "dropWhile (finished wk') xs = h # zs" "\<not> finished wk' h" "x \<in> set (h # zs)" using dropWhile_hd [OF x] by blast
  have "sorted (map (due wk) (takeWhile (finished wk') xs @ h # zs))" using v(9) h(1) by (metis takeWhile_dropWhile_id)
  then have "due wk h \<le> due wk x" using h(3) by (auto simp: sorted_append)
  then have t: "tgt wk h \<le> clk k" using c n by (auto simp: due_def)
  have "h \<in> set xs" using h(1) by (metis list.set_intros(1) set_dropWhileD)
  then obtain j where j: "j < length xs" "h = xs ! j" by (metis in_set_conv_nth)
  have r: "request (work_queue wk' ! h) = served (clk (k + j)) (request (work_queue wk ! h))"
    using arg_cong [OF rq, of "\<lambda>l. l ! j"] j by (simp add: requests_def)
  have "tgt wk h \<le> clk (k + j)" using t clk unfolding clock_ok_def by (meson le_add1 le_trans)
  then have "w_is_completed (served (clk (k + j)) (request (work_queue wk ! h)))" by (simp add: served_def tgt_def)
  then have "w_is_completed (request (work_queue wk' ! h))" by (simp only: r)
  moreover have "request (work_queue wk' ! h) \<in> set (requests wk' xs)" using j by (simp add: requests_def)
  ultimately have "reclaimable wk' (request (work_queue wk' ! h))" using queue_okD [OF ok] by (simp only: reclaimable_def)
  then show False using h(2) by (simp add: finished_def)
qed

section \<open>The worker as a device\<close>

text \<open>
  The operations on the queue of one worker, in any order: the dispatcher queues a request or an
  internal operation and reclaims, the worker iterates. The state is the number of clock readings
  made, the worker and the device.
\<close>

datatype 'b work_op =
    Enqueue nat nat nat nat nat nat nvmev_result
  | Internal nat nat 'b nat nat
  | Reclaim
  | Iterate

fun work_serve ::
  "(nat \<Rightarrow> bool) \<Rightarrow> (nat \<Rightarrow> bool) \<Rightarrow> ssd_type \<Rightarrow> nat \<Rightarrow> nat \<Rightarrow> (nat \<Rightarrow> nat) \<Rightarrow> nat \<times> 'b nvmev_io_worker \<times> 'b io_dev \<Rightarrow> 'b work_op \<Rightarrow>
   (nat \<times> 'b nvmev_io_worker \<times> 'b io_dev) option" where
  "work_serve pfn_valid memremap ty nrw nr_cq clk (k, wk, d) (Enqueue sqid cqid en c ns now ret) =
     map_option (\<lambda>wk'. (k, wk', d)) (enqueue_io_req sqid cqid en c ns now ret wk)"
| "work_serve pfn_valid memremap ty nrw nr_cq clk (k, wk, d) (Internal sqid t b r now) =
     map_option (\<lambda>wk'. (k, wk', d)) (schedule_internal_operation sqid t b r now wk)"
| "work_serve pfn_valid memremap ty nrw nr_cq clk (k, wk, d) Reclaim = map_option (\<lambda>wk'. (k, wk', d)) (reclaim_worker wk)"
| "work_serve pfn_valid memremap ty nrw nr_cq clk (k, wk, d) Iterate = io_worker_pass pfn_valid memremap ty nrw nr_cq clk k wk d"

text \<open>A request is queued for a command that its submission queue holds and that can be carried out.\<close>

fun work_host :: "nat \<times> 'b nvmev_io_worker \<times> 'b io_dev \<Rightarrow> 'b work_op \<Rightarrow> bool" where
  "work_host (k, wk, d) (Enqueue sqid cqid en c ns now ret) \<longleftrightarrow>
     (case deref (d_sqes d) sqid of None \<Rightarrow> False
      | Some sq \<Rightarrow> en < length (sq_entries sq) \<and> cmd_ok (map na_size (d_ns d)) (sq_entries sq ! en)) \<and>
     (case deref (d_cqes d) cqid of None \<Rightarrow> False | Some cq \<Rightarrow> ring_ok cq)"
| "work_host s op' \<longleftrightarrow> True"

definition work_inv :: "(nat \<Rightarrow> bool) \<Rightarrow> nat \<Rightarrow> (nat \<Rightarrow> nat) \<Rightarrow> nat \<times> 'b nvmev_io_worker \<times> 'b io_dev \<Rightarrow> bool" where
  "work_inv pfn_valid nr_cq clk s \<longleftrightarrow> (case s of (k, wk, d) \<Rightarrow>
     (\<forall>a. pfn_valid a) \<and> clock_ok clk \<and> nr_cq < length (d_cqes d) \<and> latest_nsecs wk \<le> clk k \<and>
     (\<exists>xs ys. worker_inv wk xs ys \<and> queue_ok d wk xs))"

definition work_kept :: "ssd_type \<Rightarrow> nat \<times> 'b nvmev_io_worker \<times> 'b io_dev \<Rightarrow> nat \<times> 'b nvmev_io_worker \<times> 'b io_dev \<Rightarrow> bool" where
  "work_kept ty s s' \<longleftrightarrow> dev_le (snd (snd s)) (snd (snd s')) \<and>
     (ty \<noteq> SSD_TYPE_CONV \<and> ty \<noteq> SSD_TYPE_ZNS \<longrightarrow> d_buffers (snd (snd s')) = d_buffers (snd (snd s)))"

lemma set_insert_ordered: "set (insert_ordered n r q) = insert r (set q)"
  by (induction q) auto

lemma queue_new_inv:
  assumes inv: "worker_inv wk xs ys" "queue_ok d wk xs"
    and f: "\<And>w. w_next (f w) = NONE32 \<and> w_prev (f w) = NONE32 \<and> w_nsecs_target (f w) = t"
    and ok: "\<And>w. io_ok d (f w) \<and> \<not> w_is_completed (f w)"
  shows "\<exists>wk' xs' ys'. queue_new f t wk = Some wk' \<and> worker_inv wk' xs' ys' \<and> queue_ok d wk' xs' \<and> latest_nsecs wk' = latest_nsecs wk"
proof -
  obtain e es where ys: "ys = e # es" using worker_invD(6) [OF inv(1)] by (cases ys) auto
  show ?thesis
  proof (cases "es = []")
    case True
    then show ?thesis using queue_new_full [of wk xs e f t] inv ys by auto
  next
    case False
    obtain wk' where w: "queue_new f t wk = Some wk'" "worker_inv wk' (before wk t xs @ e # after wk t xs) es"
      "latest_nsecs wk' = latest_nsecs wk"
      "requests wk' (before wk t xs @ e # after wk t xs) =
         insert_ordered (latest_nsecs wk) (request (f (work_queue wk ! e))) (requests wk xs)"
      using queue_new_ok [where f = f, OF inv(1) [unfolded ys] False f] by blast
    have "queue_ok d wk' (before wk t xs @ e # after wk t xs)"
      using inv(2) ok w(3) unfolding queue_ok_def w(4) set_insert_ordered by auto
    then show ?thesis using w by blast
  qed
qed

lemma reclaim_keeps:
  assumes inv: "worker_inv wk xs ys" "queue_ok d wk xs"
  shows "\<exists>wk' xs' ys'. reclaim_worker wk = Some wk' \<and> worker_inv wk' xs' ys' \<and> queue_ok d wk' xs' \<and> latest_nsecs wk' = latest_nsecs wk"
proof -
  obtain wk' where w: "reclaim_worker wk = Some wk'" "worker_inv wk' (dropWhile (finished wk) xs) (ys @ takeWhile (finished wk) xs)"
    "latest_nsecs wk' = latest_nsecs wk" "\<forall>zs. requests wk' zs = requests wk zs" using reclaim_ok [OF inv(1)] by blast
  have "set (requests wk' (dropWhile (finished wk) xs)) \<subseteq> set (requests wk xs)"
    using w(4) by (auto simp: requests_def dest: set_dropWhileD)
  then have "queue_ok d wk' (dropWhile (finished wk) xs)" using inv(2) w(3) unfolding queue_ok_def by auto
  then show ?thesis using w by blast
qed

lemma work_answers:
  assumes "work_inv pfn_valid nr_cq clk s" "work_host s op'"
  shows "\<exists>s'. work_serve pfn_valid memremap ty nrw nr_cq clk s op' = Some s' \<and> work_inv pfn_valid nr_cq clk s' \<and> work_kept ty s s'"
proof -
  obtain k wk d where s: "s = (k, wk, d)" by (cases s)
  obtain xs ys where i: "\<And>a. pfn_valid a" "clock_ok clk" "nr_cq < length (d_cqes d)" "latest_nsecs wk \<le> clk k" "worker_inv wk xs ys" "queue_ok d wk xs"
    using assms(1) s by (auto simp: work_inv_def)
  have same: "\<exists>s'. map_option (\<lambda>wk'. (k, wk', d)) m = Some s' \<and> work_inv pfn_valid nr_cq clk s' \<and> work_kept ty s s'"
    if h: "\<exists>wk' xs' ys'. m = Some wk' \<and> worker_inv wk' xs' ys' \<and> queue_ok d wk' xs' \<and> latest_nsecs wk' = latest_nsecs wk" for m
  proof -
    obtain wk' xs' ys' where w: "m = Some wk'" "worker_inv wk' xs' ys'" "queue_ok d wk' xs'" "latest_nsecs wk' = latest_nsecs wk" using h by blast
    have "work_inv pfn_valid nr_cq clk (k, wk', d)" unfolding work_inv_def using w i(1-4) by auto
    then show ?thesis using w(1) s by (simp add: work_kept_def dev_le_refl)
  qed
  show ?thesis
  proof (cases op')
    case (Enqueue sqid cqid en c ns now ret)
    have "\<exists>wk' xs' ys'. enqueue_io_req sqid cqid en c ns now ret wk = Some wk' \<and> worker_inv wk' xs' ys' \<and> queue_ok d wk' xs' \<and>
        latest_nsecs wk' = latest_nsecs wk"
      unfolding enqueue_queue_new
      by (rule queue_new_inv [OF i(5,6) io_request_links(1)])
        (use assms(2) s Enqueue in \<open>simp add: io_ok_def io_request_def split: option.splits\<close>)
    then show ?thesis using same s Enqueue by simp
  next
    case (Internal sqid t b r now)
    have "\<exists>wk' xs' ys'. schedule_internal_operation sqid t b r now wk = Some wk' \<and> worker_inv wk' xs' ys' \<and> queue_ok d wk' xs' \<and>
        latest_nsecs wk' = latest_nsecs wk"
      unfolding enqueue_queue_new
      by (rule queue_new_inv [OF i(5,6) io_request_links(2)]) (simp add: io_ok_def internal_request_def)
    then show ?thesis using same s Internal by simp
  next
    case Reclaim
    then show ?thesis using same [OF reclaim_keeps [OF i(5,6)]] s by simp
  next
    case Iterate
    obtain wk' d' where p: "io_worker_pass pfn_valid memremap ty nrw nr_cq clk k wk d = Some (k + length xs, wk', d')"
     "worker_inv wk' xs ys" "dev_le d d'" "queue_ok d' wk' xs"
     "latest_nsecs wk' = (if xs = [] then latest_nsecs wk else clk (k + length xs - 1))"
     "ty \<noteq> SSD_TYPE_CONV \<and> ty \<noteq> SSD_TYPE_ZNS \<longrightarrow> d_buffers d' = d_buffers d"
      using pass_ok [where pfn_valid = pfn_valid and memremap = memremap and ty = ty and nr_io_workers = nrw, OF i(1,5,6,3,2,4)] by blast
    have "latest_nsecs wk' \<le> clk (k + length xs)" using p(5) i(2,4) by (cases xs) (auto simp: clock_ok_def)
    moreover have "nr_cq < length (d_cqes d')" using p(3) i(3) by (simp add: dev_le_def)
    ultimately show ?thesis using p i s Iterate by (auto simp: work_inv_def work_kept_def)
  qed
qed

interpretation iow: device_contract "work_inv pfn_valid nr_cq clk" work_host "work_serve pfn_valid memremap ty nrw nr_cq clk" "work_kept ty"
proof
  show "work_kept ty s s" for s :: "nat \<times> 'a nvmev_io_worker \<times> 'a io_dev" by (simp add: work_kept_def dev_le_refl)
  show "work_kept ty s t \<Longrightarrow> work_kept ty t u \<Longrightarrow> work_kept ty s u" for s t u :: "nat \<times> 'a nvmev_io_worker \<times> 'a io_dev"
    using dev_le_trans by (auto simp: work_kept_def)
qed (rule work_answers)

lemma work_init_inv:
  assumes "\<And>a. pfn_valid a" "clock_ok clk" "nr_cq < length (d_cqes d)"
  shows "work_inv pfn_valid nr_cq clk (k, io_worker_init null wid, d)"
  using assms io_worker_init_ok [of null wid] by (auto simp: work_inv_def queue_ok_def requests_def io_worker_init_def)

end
