(* ===== verification/Io_Dispatch.thy ===== *)
theory Io_Dispatch
  imports Io_Pass "HOL-Library.Multiset"
begin

text \<open>
  The dispatcher at a doorbell: the commands between the old and the new tail of a submission
  queue are dispatched once each, the consumed completions are taken off the in-flight counters.
\<close>

section \<open>Workers\<close>

definition worker_ok :: "'b nvmev_io_worker \<Rightarrow> bool" where "worker_ok wk \<longleftrightarrow> (\<exists>xs ys. worker_inv wk xs ys)"

definition workers_ok :: "'b nvmev_io_worker list \<Rightarrow> bool" where "workers_ok wks \<longleftrightarrow> wks \<noteq> [] \<and> (\<forall>wk\<in>set wks. worker_ok wk)"

lemma queue_new_total:
  assumes "worker_ok wk" "\<And>w. w_next (f w) = NONE32 \<and> w_prev (f w) = NONE32 \<and> w_nsecs_target (f w) = t"
  shows "\<exists>wk'. queue_new f t wk = Some wk' \<and> worker_ok wk'"
proof -
  obtain xs e es where i: "worker_inv wk xs (e # es)"
    using assms(1) worker_invD(6) unfolding worker_ok_def by (metis neq_Nil_conv)
  show ?thesis
  proof (cases "es = []")
    case True
    then show ?thesis using queue_new_full i assms(1) by blast
  next
    case False
    then show ?thesis using queue_new_ok [where f = f, OF i False assms(2)] by (auto simp: worker_ok_def)
  qed
qed

lemma schedule_ops_total:
  assumes "worker_ok wk" shows "\<exists>wk'. schedule_ops sqid now ops wk = Some wk' \<and> worker_ok wk'"
proof -
  have s: "\<exists>wk'. schedule_internal_operation sqid t b r now w = Some wk' \<and> worker_ok wk'" if "worker_ok w" for w t b r
    unfolding enqueue_queue_new by (rule queue_new_total [OF that io_request_links(2)])
  show ?thesis
    unfolding schedule_ops_def by (rule foldM_total [where P = "\<lambda>_. worker_ok"]) (use assms s in auto)
qed

lemma reclaim_total: "worker_ok wk \<Longrightarrow> \<exists>wk'. reclaim_worker wk = Some wk' \<and> worker_ok wk'"
  using reclaim_ok unfolding worker_ok_def by blast

lemma workers_upd: "workers_ok wks \<Longrightarrow> worker_ok wk \<Longrightarrow> workers_ok (wks[i := wk])"
  using set_update_subset_insert [of wks i wk] by (auto simp: workers_ok_def)

lemma reclaim_all_total:
  assumes "workers_ok wks" shows "\<exists>wks'. reclaim_completed_reqs wks = Some wks' \<and> workers_ok wks' \<and> length wks' = length wks"
proof -
  have "\<exists>wks'. reclaim_completed_reqs wks = Some wks' \<and> (workers_ok wks' \<and> length wks' = length wks)"
    unfolding reclaim_completed_reqs_def
  proof (rule foldM_upt_total [where P = "\<lambda>_ w. workers_ok w \<and> length w = length wks"])
    fix i w assume i: "i < length wks" and w: "workers_ok w \<and> length w = length wks"
    have "worker_ok (w ! i)" using i w by (simp add: workers_ok_def)
    then obtain wk' where "reclaim_worker (w ! i) = Some wk'" "worker_ok wk'" using reclaim_total by blast
    then show "\<exists>s''. (do { wk \<leftarrow> rd w i; wk' \<leftarrow> reclaim_worker wk; wr w i wk' }) = Some s'' \<and> workers_ok s'' \<and> length s'' = length wks"
      using i w workers_upd by auto
  qed (use assms in auto)
  then show ?thesis .
qed

section \<open>Tasks\<close>

text \<open>
  What a worker is asked to do: the request of a command, with its queues, its entry, its times and
  its result, or an internal operation.
\<close>

datatype 'b task = Io_task nat nat nat nat nat nat nat nat nat | Internal_task nat nat 'b nat

definition task :: "'b nvmev_io_work \<Rightarrow> 'b task" where
  "task w = (if w_is_internal w then Internal_task (w_sqid w) (w_nsecs_target w) (w_write_buffer w) (w_buffs_to_release w)
     else Io_task (w_sqid w) (w_cqid w) (w_sq_entry w) (w_command_id w) (w_nsecs_start w) (w_nsecs_target w) (w_status w) (w_result0 w) (w_result1 w))"

definition io_task :: "nat \<Rightarrow> nat \<Rightarrow> nat \<Rightarrow> nat \<Rightarrow> nvme_io_command \<Rightarrow> nvmev_result \<Rightarrow> 'b task" where
  "io_task sqid cqid now sq_entry cmd ret = Io_task sqid cqid sq_entry (c_command_id cmd) now (ret_nsecs_target ret) (ret_status ret)
     (ret_result ret mod 2 ^ 32) (u32 (ret_result ret div 2 ^ 32))"

definition op_task :: "nat \<Rightarrow> 'b sched_op \<Rightarrow> 'b task" where
  "op_task sqid o' = Internal_task sqid (so_nsecs_target o') (so_write_buffer o') (so_buffs_to_release o')"

text \<open>The worker has at least \<open>n\<close> free entries, and its queue holds exactly the tasks \<open>T\<close> besides completed ones.\<close>

definition has_tasks :: "'b nvmev_io_worker \<Rightarrow> nat \<Rightarrow> 'b task multiset \<Rightarrow> bool" where
  "has_tasks wk n T \<longleftrightarrow> (\<exists>xs ys. worker_inv wk xs ys \<and> n \<le> length ys \<and> mset (map task (filter (\<lambda>w. \<not> w_is_completed w) (requests wk xs))) = T)"

lemma has_tasksI: "worker_inv wk xs ys \<Longrightarrow> n \<le> length ys \<Longrightarrow> mset (map task (filter (\<lambda>w. \<not> w_is_completed w) (requests wk xs))) = T \<Longrightarrow> has_tasks wk n T"
  unfolding has_tasks_def by blast

lemma has_tasks_less: "has_tasks wk m T \<Longrightarrow> n \<le> m \<Longrightarrow> has_tasks wk n T"
  unfolding has_tasks_def by (metis order_trans)

lemma task_request [simp]: "task (request w) = task w"
  by (simp add: task_def request_def)

lemma mset_insert_ordered: "mset (insert_ordered n r q) = add_mset r (mset q)"
  by (induction q) auto

lemma mset_filter_map: "mset (map f (filter P xs)) = image_mset f (filter_mset P (mset xs))"
  by (simp add: mset_filter)

lemma queue_new_tasks:
  assumes h: "has_tasks wk (Suc n) T" and n: "1 \<le> n" and f: "\<And>w. w_next (f w) = NONE32 \<and> w_prev (f w) = NONE32 \<and> w_nsecs_target (f w) = t"
    and u: "\<And>w. task (f w) = u \<and> \<not> w_is_completed (f w)" and q: "queue_new f t wk = Some wk'"
  shows "has_tasks wk' n (add_mset u T)"
proof -
  obtain xs ys where i: "worker_inv wk xs ys" "Suc n \<le> length ys" "mset (map task (filter (\<lambda>w. \<not> w_is_completed w) (requests wk xs))) = T"
    using h by (auto simp: has_tasks_def)
  obtain e es where ys: "ys = e # es" "n \<le> length es" using i(2) by (cases ys) auto
  then have ne: "es \<noteq> []" using n by auto
  obtain xs' where w: "worker_inv wk' xs' es" "requests wk' xs' = insert_ordered (latest_nsecs wk) (request (f (work_queue wk ! e))) (requests wk xs)"
    using queue_new_ok [where f = f, OF i(1) [unfolded ys(1)] ne f] q by auto
  have "mset (map task (filter (\<lambda>w. \<not> w_is_completed w) (requests wk' xs'))) = add_mset u T"
    unfolding w(2) mset_filter_map mset_insert_ordered using u i(3) by (simp add: mset_filter_map)
  then show ?thesis by (rule has_tasksI [OF w(1) ys(2)])
qed

lemma reclaim_tasks:
  assumes h: "has_tasks wk n T" and r: "reclaim_worker wk = Some wk'"
  shows "has_tasks wk' n T"
proof -
  obtain xs ys where i: "worker_inv wk xs ys" "n \<le> length ys" "mset (map task (filter (\<lambda>w. \<not> w_is_completed w) (requests wk xs))) = T"
    using h by (auto simp: has_tasks_def)
  have w: "worker_inv wk' (dropWhile (finished wk) xs) (ys @ takeWhile (finished wk) xs)" "\<And>zs. requests wk' zs = requests wk zs"
    using reclaim_ok [OF i(1)] r by auto
  have "filter (\<lambda>w. \<not> w_is_completed w) (requests wk (takeWhile (finished wk) xs)) = []"
    by (auto simp: requests_def filter_empty_conv finished_def reclaimable_def dest: set_takeWhileD)
  moreover have "requests wk xs = requests wk (takeWhile (finished wk) xs) @ requests wk (dropWhile (finished wk) xs)"
    by (simp add: requests_def map_append [symmetric] del: map_append)
  ultimately have "mset (map task (filter (\<lambda>w. \<not> w_is_completed w) (requests wk' (dropWhile (finished wk) xs)))) = T" using i(3) w(2) by simp
  note m = this
  show ?thesis by (rule has_tasksI [OF w(1) _ m]) (use i(2) in simp)
qed

lemma schedule_ops_tasks:
  "has_tasks wk (length ops + n) T \<Longrightarrow> 1 \<le> n \<Longrightarrow> schedule_ops sqid now ops wk = Some wk' \<Longrightarrow> has_tasks wk' n (T + mset (map (op_task sqid) ops))"
proof (induction ops arbitrary: wk T)
  case Nil
  then show ?case by (simp add: schedule_ops_def)
next
  case (Cons p ops)
  let ?f = "internal_request sqid (so_nsecs_target p) (so_write_buffer p) (so_buffs_to_release p) now"
  obtain wk1 where w: "queue_new ?f (so_nsecs_target p) wk = Some wk1" "schedule_ops sqid now ops wk1 = Some wk'"
    using Cons.prems(3) by (auto simp: schedule_ops_def enqueue_queue_new split: Option.bind_splits)
  have "has_tasks wk1 (length ops + n) (add_mset (op_task sqid p) T)"
    by (rule queue_new_tasks [where f = ?f, OF _ _ io_request_links(2) _ w(1)]) (use Cons.prems(1,2) in \<open>simp_all add: task_def internal_request_def op_task_def\<close>)
  from Cons.IH [OF this Cons.prems(2) w(2)] show ?case by simp
qed

section \<open>The contract of a command handler\<close>

text \<open>
  What the dispatcher relies on: in a state of its invariant the handler answers an admissible command,
  the invariant holds again, and the command it leaves in the entry is admissible and names the same
  namespace.
\<close>

locale namespace_handler =
  fixes inv :: "'h \<Rightarrow> bool" and adm :: "nvme_io_command \<Rightarrow> bool" and proc_io_cmd :: "('h, 'b) io_handler"
  assumes serves: "inv h \<Longrightarrow> adm cmd \<Longrightarrow> \<exists>ok cmd' ret' ops h'. proc_io_cmd nsid sqid cmd now ret h = Some (ok, cmd', ret', ops, h') \<and>
     inv h' \<and> adm cmd' \<and> rw_nsid cmd' = rw_nsid cmd"

text \<open>
  The calls for a list of commands, up to the first one that is refused: for each whether it was
  accepted, the command the handler left, the result and the internal operations.
\<close>

type_synonym 'b outcome = "bool \<times> nvme_io_command \<times> nvmev_result \<times> 'b sched_op list"

fun handler_run :: "('h, 'b) io_handler \<Rightarrow> (nat \<Rightarrow> nat) \<Rightarrow> nat \<Rightarrow> nat \<Rightarrow> nvme_io_command list \<Rightarrow> 'h \<Rightarrow> ('b outcome list \<times> 'h) option" where
  "handler_run proc_io_cmd clk sqid k [] h = Some ([], h)"
| "handler_run proc_io_cmd clk sqid k (c # cs) h = do {
     (ok, c', ret, ops, h1) \<leftarrow> proc_io_cmd (u32_sub (rw_nsid c) 1) sqid c (clk k) \<lparr>ret_status = NVME_SC_SUCCESS, ret_nsecs_target = clk k, ret_result = 0\<rparr> h;
     if \<not> ok then Some ([(False, c', ret, ops)], h1)
     else do {
       (os, h2) \<leftarrow> handler_run proc_io_cmd clk sqid (k + 1) cs h1;
       Some ((True, c', ret, ops) # os, h2)
     }
   }"

text \<open>How many commands were accepted, their bytes, and the tasks they give the worker.\<close>

definition accepted :: "'b outcome list \<Rightarrow> nat" where
  "accepted os = length (filter fst os)"

definition accepted_bytes :: "'b outcome list \<Rightarrow> nat" where
  "accepted_bytes os = (\<Sum>(ok, c, _)\<leftarrow>os. if ok then cmd_io_size c else 0)"

definition outcome_tasks :: "nat \<Rightarrow> nat \<Rightarrow> nat \<Rightarrow> nat \<Rightarrow> 'b outcome \<Rightarrow> 'b task list" where
  "outcome_tasks sqid cqid now en x = (case x of (ok, c, ret, ops) \<Rightarrow> map (op_task sqid) ops @ (if ok then [io_task sqid cqid now en c ret] else []))"

fun new_tasks :: "nat \<Rightarrow> nat \<Rightarrow> nat \<Rightarrow> (nat \<Rightarrow> nat) \<Rightarrow> nat \<Rightarrow> nat \<Rightarrow> 'b outcome list \<Rightarrow> 'b task list" where
  "new_tasks qs sqid cqid clk k en [] = []"
| "new_tasks qs sqid cqid clk k en (x # os) = outcome_tasks sqid cqid (clk k) en x @ new_tasks qs sqid cqid clk (k + 1) ((en + 1) mod qs) os"

context namespace_handler
begin

lemma run_total:
  "inv h \<Longrightarrow> \<forall>c\<in>set cs. adm c \<and> P (rw_nsid c) \<Longrightarrow> \<exists>os h'. handler_run proc_io_cmd clk sqid k cs h = Some (os, h') \<and> inv h' \<and>
     length os \<le> length cs \<and> (\<forall>(ok, c, _)\<in>set os. adm c \<and> P (rw_nsid c)) \<and> accepted os \<le> length cs \<and>
     (accepted os < length cs \<longrightarrow> length os = Suc (accepted os) \<and> \<not> fst (last os))"
proof (induction cs arbitrary: h k)
  case Nil
  then show ?case by (simp add: accepted_def)
next
  case (Cons c cs)
  obtain ok c' ret ops h1 where p: "proc_io_cmd (u32_sub (rw_nsid c) 1) sqid c (clk k) \<lparr>ret_status = NVME_SC_SUCCESS, ret_nsecs_target = clk k, ret_result = 0\<rparr> h =
      Some (ok, c', ret, ops, h1)" "inv h1" "adm c'" "rw_nsid c' = rw_nsid c" using serves [OF Cons.prems(1)] Cons.prems(2) by (metis list.set_intros(1))
  show ?case
  proof (cases ok)
    case True
    obtain os h' where "handler_run proc_io_cmd clk sqid (k + 1) cs h1 = Some (os, h')" "inv h'" "length os \<le> length cs" "\<forall>(ok, c, _)\<in>set os. adm c \<and> P (rw_nsid c)"
      "accepted os \<le> length cs" "accepted os < length cs \<longrightarrow> length os = Suc (accepted os) \<and> \<not> fst (last os)"
      using Cons.IH [OF p(2), of "k + 1"] Cons.prems(2) by auto
    then show ?thesis using p True Cons.prems(2) by (intro exI [of _ "(True, c', ret, ops) # os"] exI [of _ h']) (auto simp: accepted_def)
  next
    case False
    then show ?thesis using p Cons.prems(2) by (intro exI [of _ "[(False, c', ret, ops)]"] exI [of _ h1]) (simp add: accepted_def)
  qed
qed

end

section \<open>The submission doorbell\<close>

definition sq_ok :: "nat \<Rightarrow> nat \<Rightarrow> nvmev_submission_queue \<Rightarrow> bool" where
  "sq_ok n qs sq \<longleftrightarrow> sq_queue_size sq = qs \<and> length (sq_entries sq) = qs \<and>
     (\<forall>c\<in>set (sq_entries sq). u32_sub (rw_nsid c) 1 < n)"

lemma get_io_worker_less: "0 < n \<Longrightarrow> get_io_worker n sqid < n"
  by (simp add: get_io_worker_def)

text \<open>The workers gain the given tasks at position \<open>t\<close>, where there is room, and none elsewhere.\<close>

definition gained :: "nat \<Rightarrow> 'b task list \<Rightarrow> 'b nvmev_io_worker list \<Rightarrow> 'b nvmev_io_worker list \<Rightarrow> bool" where
  "gained t us wks wks' \<longleftrightarrow> workers_ok wks' \<and> length wks' = length wks \<and>
     (\<forall>n T. 1 \<le> n \<and> has_tasks (wks ! t) (length us + n) T \<longrightarrow> has_tasks (wks' ! t) n (T + mset us)) \<and>
     (\<forall>j n T. j < length wks \<and> j \<noteq> t \<and> has_tasks (wks ! j) n T \<longrightarrow> has_tasks (wks' ! j) n T)"

lemma gained_refl: "workers_ok wks \<Longrightarrow> gained t [] wks wks"
  by (simp add: gained_def)

lemma gained_trans:
  assumes "gained t us wks wks1" "gained t vs wks1 wks2"
  shows "gained t (us @ vs) wks wks2"
proof -
  have "has_tasks (wks2 ! t) n (T + mset (us @ vs))" if "1 \<le> n" "has_tasks (wks ! t) (length (us @ vs) + n) T" for n T
  proof -
    have "has_tasks (wks1 ! t) (length vs + n) (T + mset us)" using that assms(1) unfolding gained_def by (simp add: add.assoc)
    then have "has_tasks (wks2 ! t) n (T + mset us + mset vs)" using that(1) assms(2) unfolding gained_def by blast
    then show ?thesis by (simp add: add.assoc)
  qed
  then show ?thesis using assms unfolding gained_def by simp
qed

lemma reclaim_all_gained:
  assumes "workers_ok wks" "t < length wks" shows "\<exists>wks'. reclaim_completed_reqs wks = Some wks' \<and> gained t [] wks wks'"
proof -
  let ?R = "\<lambda>w. workers_ok w \<and> length w = length wks \<and> (\<forall>j n T. j < length wks \<and> has_tasks (wks ! j) n T \<longrightarrow> has_tasks (w ! j) n T)"
  have "\<exists>wks'. reclaim_completed_reqs wks = Some wks' \<and> ?R wks'"
    unfolding reclaim_completed_reqs_def
  proof (rule foldM_upt_total [where P = "\<lambda>_. ?R"])
    fix i w assume i: "i < length wks" and w: "?R w"
    have "worker_ok (w ! i)" using i w by (simp add: workers_ok_def)
    then obtain wk' where k: "reclaim_worker (w ! i) = Some wk'" "worker_ok wk'" using reclaim_total by blast
    have "has_tasks (w[i := wk'] ! j) n T" if "j < length wks" "has_tasks (wks ! j) n T" for j n T
      using that w i reclaim_tasks [OF _ k(1)] by (cases "j = i") auto
    then show "\<exists>s''. (do { wk \<leftarrow> rd w i; wk' \<leftarrow> reclaim_worker wk; wr w i wk' }) = Some s'' \<and> ?R s''"
      using i w k workers_upd [of w wk' i] by auto
  qed (use assms in auto)
  then obtain wks' where r: "reclaim_completed_reqs wks = Some wks'" "?R wks'" by blast
  have "has_tasks (wks' ! t) n T" if "t < length wks" "has_tasks (wks ! t) n T" for n T using r(2) that by blast
  then have "t < length wks \<Longrightarrow> gained t [] wks wks'" using r(2) unfolding gained_def by simp
  with r(1) assms(2) show ?thesis by blast
qed

lemma gained_upd:
  assumes "workers_ok wks" "worker_ok wk" "\<And>n T. 1 \<le> n \<Longrightarrow> has_tasks (wks ! t) (length us + n) T \<Longrightarrow> has_tasks wk n (T + mset us)" "t < length wks"
  shows "gained t us wks (wks[t := wk])"
  using assms(3,4) workers_upd [OF assms(1,2)] by (simp add: gained_def)

text \<open>One command.\<close>

lemma proc_io_step:
  assumes sq: "deref (d_sqes d) sqid = Some sq" "sq_ok (length (d_ns d)) qs sq" and wks: "workers_ok wks" and e: "en < qs"
    and h: "proc_io_cmd (u32_sub (rw_nsid (sq_entries sq ! en)) 1) sqid (sq_entries sq ! en) now
      \<lparr>ret_status = NVME_SC_SUCCESS, ret_nsecs_target = now, ret_result = 0\<rparr> h0 = Some (ok, c', ret, ops, h1)"
  shows "\<exists>wks'. nvmev_proc_io proc_io_cmd now sqid en d wks h0 =
      Some (ok, if ok then cmd_io_size c' else 0, d\<lparr>d_sqes := (d_sqes d)[sqid := Some (sq\<lparr>sq_entries := (sq_entries sq)[en := c']\<rparr>)]\<rparr>, wks', h1) \<and>
     gained (get_io_worker (length wks) sqid) (outcome_tasks sqid (sq_cqid sq) now en (ok, c', ret, ops)) wks wks'"
proof -
  let ?c = "sq_entries sq ! en" and ?t = "get_io_worker (length wks) sqid"
  let ?d = "d\<lparr>d_sqes := (d_sqes d)[sqid := Some (sq\<lparr>sq_entries := (sq_entries sq)[en := c']\<rparr>)]\<rparr>"
  have l: "en < length (sq_entries sq)" "u32_sub (rw_nsid ?c) 1 < length (d_ns d)" using sq(2) e by (auto simp: sq_ok_def)
  have t: "?t < length wks" using wks by (simp add: get_io_worker_less workers_ok_def)
  then have "worker_ok (wks ! ?t)" using wks by (simp add: workers_ok_def)
  then obtain wk1 where w1: "schedule_ops sqid now ops (wks ! ?t) = Some wk1" "worker_ok wk1" using schedule_ops_total by blast
  show ?thesis
  proof (cases ok)
    case False
    have "gained ?t (map (op_task sqid) ops) wks (wks[?t := wk1])"
      by (rule gained_upd [OF wks w1(2) _ t]) (use schedule_ops_tasks [OF _ _ w1(1)] in simp)
    moreover have "nvmev_proc_io proc_io_cmd now sqid en d wks h0 = Some (False, 0, ?d, wks[?t := wk1], h1)"
      using sq l h t w1(1) False by (simp add: nvmev_proc_io_def Let_def)
    ultimately show ?thesis using False by (simp add: outcome_tasks_def)
  next
    case True
    let ?f = "io_request sqid (sq_cqid sq) en (c_command_id c') now now ret" and ?u = "io_task sqid (sq_cqid sq) now en c' ret"
    obtain wk2 where w2: "queue_new ?f (ret_nsecs_target ret) wk1 = Some wk2" "worker_ok wk2"
      using queue_new_total [where f = ?f, OF w1(2) io_request_links(1)] by blast
    have tk: "task (?f w) = ?u \<and> \<not> w_is_completed (?f w)" for w by (simp add: task_def io_request_def io_task_def)
    have "gained ?t (map (op_task sqid) ops @ [?u]) wks (wks[?t := wk2])"
    proof (rule gained_upd [OF wks w2(2) _ t])
      fix n T assume n: "1 \<le> n" "has_tasks (wks ! ?t) (length (map (op_task sqid) ops @ [?u]) + n) T"
      then have "has_tasks wk1 (Suc n) (T + mset (map (op_task sqid) ops))" using schedule_ops_tasks [OF _ _ w1(1), of "Suc n" T] by simp
      from queue_new_tasks [where f = ?f, OF this n(1) io_request_links(1) tk w2(1)]
      show "has_tasks wk2 n (T + mset (map (op_task sqid) ops @ [?u]))" by simp
    qed
    moreover have "workers_ok (wks[?t := wk2])" "?t < length (wks[?t := wk2])" using workers_upd [OF wks w2(2)] t by simp_all
    then obtain wks2 where w3: "reclaim_completed_reqs (wks[?t := wk2]) = Some wks2" "gained ?t [] (wks[?t := wk2]) wks2"
      using reclaim_all_gained by blast
    ultimately have "gained ?t (map (op_task sqid) ops @ [?u]) wks wks2" using gained_trans by force
    moreover have "nvmev_proc_io proc_io_cmd now sqid en d wks h0 = Some (True, cmd_io_size c', ?d, wks2, h1)"
      using sq l h t w1(1) w2(1) w3(1) True by (simp add: nvmev_proc_io_def Let_def enqueue_queue_new)
    ultimately show ?thesis using True by (simp add: outcome_tasks_def)
  qed
qed

text \<open>The queue after the outcomes of the commands from entry \<open>en\<close> on.\<close>

definition counted :: "nat \<Rightarrow> nvmev_sq_stat \<Rightarrow> nvmev_sq_stat" where
  "counted sz st = st\<lparr>nr_dispatched := u32 (nr_dispatched st + 1), nr_in_flight := u32 (nr_in_flight st + 1), total_io := u64 (total_io st + sz)\<rparr>"

fun sq_after :: "nat \<Rightarrow> nat \<Rightarrow> 'b outcome list \<Rightarrow> nvmev_submission_queue \<Rightarrow> nvmev_submission_queue" where
  "sq_after qs en [] sq = sq"
| "sq_after qs en ((ok, c, _) # os) sq = sq_after qs ((en + 1) mod qs) os
     (sq\<lparr>sq_entries := (sq_entries sq)[en := c], sq_stat := (if ok then counted (cmd_io_size c) (sq_stat sq) else sq_stat sq)\<rparr>)"

lemma next_entry: "(en :: nat) < qs \<Longrightarrow> (if en + 1 = qs then 0 else en + 1) = (en + 1) mod qs"
  by auto

text \<open>The commands of \<open>num\<close> entries from \<open>en\<close> on, around the end of the ring.\<close>

definition ring_cmds :: "nat \<Rightarrow> nat \<Rightarrow> nat \<Rightarrow> nvmev_submission_queue \<Rightarrow> nvme_io_command list" where
  "ring_cmds qs en num sq = map (\<lambda>i. sq_entries sq ! ((en + i) mod qs)) [0..<num]"

lemma ring_apart: "en < qs \<Longrightarrow> 0 < i \<Longrightarrow> i < qs \<Longrightarrow> (en + i) mod qs \<noteq> (en :: nat)"
  by (cases "en + i < qs") (auto simp: mod_if)

lemma ring_cmds_Suc:
  assumes "en < qs" "Suc num < qs" "length (sq_entries sq) = qs" "sq_entries sq1 = (sq_entries sq)[en := c]"
  shows "ring_cmds qs en (Suc num) sq = sq_entries sq ! en # ring_cmds qs ((en + 1) mod qs) num sq1"
proof -
  have "((en + 1) mod qs + i) mod qs = (en + Suc i) mod qs" for i by (simp add: mod_add_left_eq)
  moreover have "(sq_entries sq)[en := c] ! ((en + Suc i) mod qs) = sq_entries sq ! ((en + Suc i) mod qs)" if "i < num" for i
    by (rule nth_list_update_neq) (use ring_apart [of en qs "Suc i"] assms(1,2) that in auto)
  ultimately have "ring_cmds qs ((en + 1) mod qs) num sq1 = map (\<lambda>i. sq_entries sq ! ((en + Suc i) mod qs)) [0..<num]" using assms(4) by (simp add: ring_cmds_def)
  moreover have "[0..<Suc num] = 0 # map Suc [0..<num]" by (simp add: map_Suc_upt upt_conv_Cons del: upt_Suc)
  ultimately show ?thesis using assms(1) by (simp add: ring_cmds_def comp_def del: upt_Suc)
qed

lemma sq_after_ok: "sq_ok n qs sq \<Longrightarrow> 0 < qs \<Longrightarrow> \<forall>(ok, c, _)\<in>set os. u32_sub (rw_nsid c) 1 < n \<Longrightarrow> sq_ok n qs (sq_after qs en os sq)"
proof (induction os arbitrary: en sq)
  case (Cons x os)
  obtain ok c r where x: "x = (ok, c, r)" by (cases x)
  have "sq_ok n qs (sq\<lparr>sq_entries := (sq_entries sq)[en := c], sq_stat := st\<rparr>)" for st
    using Cons.prems(1,3) set_update_subset_insert [of "sq_entries sq" en c] by (auto simp: sq_ok_def x)
  then show ?case using Cons.IH Cons.prems(2,3) by (simp add: x)
qed simp

text \<open>The loop over the entries of a ring is the run of the handler over the list of their commands.\<close>

lemma proc_sq_loop_run:
  "handler_run proc_io_cmd clk sqid k (ring_cmds qs en num sq) h0 = Some (os, h') \<Longrightarrow> deref (d_sqes d) sqid = Some sq \<Longrightarrow> sq_ok (length (d_ns d)) qs sq \<Longrightarrow>
     (\<forall>(ok, c, _)\<in>set os. u32_sub (rw_nsid c) 1 < length (d_ns d)) \<Longrightarrow> workers_ok wks \<Longrightarrow> en < qs \<Longrightarrow> num < qs \<Longrightarrow>
     \<exists>wks'. proc_sq_loop proc_io_cmd clk qs sqid num k en (d, wks, h0) =
         Some (k + accepted os, d\<lparr>d_sqes := (d_sqes d)[sqid := Some (sq_after qs en os sq)]\<rparr>, wks', h') \<and>
       gained (get_io_worker (length wks) sqid) (new_tasks qs sqid (sq_cqid sq) clk k en os) wks wks'"
proof (induction num arbitrary: sq d wks en k h0 os)
  case 0
  have "(d_sqes d)[sqid := Some sq] = d_sqes d" using "0.prems"(2) by (metis deref_eq list_update_id)
  then show ?case using "0.prems" gained_refl [OF "0.prems"(5)] by (auto simp: ring_cmds_def accepted_def)
next
  case (Suc num)
  let ?c = "sq_entries sq ! en" and ?ret = "\<lparr>ret_status = NVME_SC_SUCCESS, ret_nsecs_target = clk k, ret_result = 0\<rparr>" and ?t = "get_io_worker (length wks) sqid"
  have len: "length (sq_entries sq) = qs" using Suc.prems(3) by (simp add: sq_ok_def)
  define sq1 where "sq1 c ok = sq\<lparr>sq_entries := (sq_entries sq)[en := c], sq_stat := (if ok then counted (cmd_io_size c) (sq_stat sq) else sq_stat sq)\<rparr>" for c ok
  have cs: "ring_cmds qs en (Suc num) sq = ?c # ring_cmds qs ((en + 1) mod qs) num (sq1 c ok)" for c ok
    by (rule ring_cmds_Suc [OF Suc.prems(6,7) len]) (simp add: sq1_def)
  obtain ok c' ret ops h1 where p: "proc_io_cmd (u32_sub (rw_nsid ?c) 1) sqid ?c (clk k) ?ret h0 = Some (ok, c', ret, ops, h1)"
    using Suc.prems(1) unfolding cs [of undefined undefined] by (auto split: Option.bind_splits)
  obtain wks1 where w1: "nvmev_proc_io proc_io_cmd (clk k) sqid en d wks h0 =
      Some (ok, if ok then cmd_io_size c' else 0, d\<lparr>d_sqes := (d_sqes d)[sqid := Some (sq\<lparr>sq_entries := (sq_entries sq)[en := c']\<rparr>)]\<rparr>, wks1, h1)"
     "gained ?t (outcome_tasks sqid (sq_cqid sq) (clk k) en (ok, c', ret, ops)) wks wks1"
    using proc_io_step [where proc_io_cmd = proc_io_cmd, OF Suc.prems(2,3,5,6) p] by blast
  have ok1: "workers_ok wks1" "length wks1 = length wks" using w1(2) by (simp_all add: gained_def)
  show ?case
  proof (cases ok)
    case False
    then have os: "os = [(False, c', ret, ops)]" "h' = h1" using Suc.prems(1) p unfolding cs [of undefined undefined] by simp_all
    then show ?thesis using w1 False by (simp add: accepted_def)
  next
    case True
    let ?sq = "sq1 c' True" and ?d = "d\<lparr>d_sqes := (d_sqes d)[sqid := Some (sq1 c' True)]\<rparr>" and ?en = "(en + 1) mod qs"
    obtain os1 where os: "handler_run proc_io_cmd clk sqid (k + 1) (ring_cmds qs ?en num ?sq) h1 = Some (os1, h')" "os = (True, c', ret, ops) # os1"
      using Suc.prems(1) p True unfolding cs [of c' True] by (auto split: Option.bind_splits)
    have q: "sqid < length (d_sqes d)" "d_sqes d ! sqid = Some sq" using Suc.prems(2) by (simp_all add: deref_eq)
    have d: "deref (d_sqes ?d) sqid = Some ?sq" using q by (simp add: deref_eq)
    have nsid: "\<forall>(ok, c, _)\<in>set os1. u32_sub (rw_nsid c) 1 < length (d_ns ?d)" "u32_sub (rw_nsid c') 1 < length (d_ns ?d)" using Suc.prems(4) os(2) by auto
    have so: "sq_ok (length (d_ns ?d)) qs ?sq"
      using Suc.prems(3) nsid(2) set_update_subset_insert [of "sq_entries sq" en c'] by (auto simp: sq_ok_def sq1_def)
    have "?en < qs" "num < qs" using Suc.prems(6,7) by auto
    from Suc.IH [OF os(1) d so nsid(1) ok1(1) this]
    obtain wks' where r: "proc_sq_loop proc_io_cmd clk qs sqid num (k + 1) ?en (?d, wks1, h1) =
         Some (k + 1 + accepted os1, ?d\<lparr>d_sqes := (d_sqes ?d)[sqid := Some (sq_after qs ?en os1 ?sq)]\<rparr>, wks', h')"
       "gained ?t (new_tasks qs sqid (sq_cqid ?sq) clk (k + 1) ?en os1) wks1 wks'" unfolding ok1(2) by blast
    let ?ds = "d\<lparr>d_sqes := (d_sqes d)[sqid := Some (sq\<lparr>sq_entries := (sq_entries sq)[en := c']\<rparr>)]\<rparr>"
    have up: "upd_stat sqid (\<lambda>st. st\<lparr>nr_dispatched := u32 (nr_dispatched st + 1), nr_in_flight := u32 (nr_in_flight st + 1), total_io := u64 (total_io st + cmd_io_size c')\<rparr>) ?ds = Some ?d"
      using q by (simp add: upd_stat_def deref_def sq1_def counted_def)
    have "proc_sq_loop proc_io_cmd clk qs sqid (Suc num) k en (d, wks, h0) = proc_sq_loop proc_io_cmd clk qs sqid num (k + 1) ?en (?d, wks1, h1)"
      using w1(1) True up next_entry [OF Suc.prems(6)] by simp
    moreover have "sq_after qs en os sq = sq_after qs ?en os1 ?sq" by (simp add: os(2) sq1_def)
    moreover have "gained ?t (new_tasks qs sqid (sq_cqid sq) clk k en os) wks wks'"
      using gained_trans [OF w1(2) r(2)] True by (simp add: os(2) sq1_def)
    moreover have "accepted os = Suc (accepted os1)" by (simp add: os(2) accepted_def)
    ultimately show ?thesis using r(1) by simp
  qed
qed

text \<open>What the queue after the outcomes holds: the statistics, and at each entry the command that the handler left.\<close>

lemma sq_after_stat:
  "sq_cqid (sq_after qs en os sq) = sq_cqid sq" "sq_queue_size (sq_after qs en os sq) = sq_queue_size sq"
  "nr_dispatch (sq_stat (sq_after qs en os sq)) = nr_dispatch (sq_stat sq)"
  "max_nr_in_flight (sq_stat (sq_after qs en os sq)) = max_nr_in_flight (sq_stat sq)"
  "u32 (nr_dispatched (sq_stat (sq_after qs en os sq))) = u32 (nr_dispatched (sq_stat sq) + accepted os)"
  "u32 (nr_in_flight (sq_stat (sq_after qs en os sq))) = u32 (nr_in_flight (sq_stat sq) + accepted os)"
  "u64 (total_io (sq_stat (sq_after qs en os sq))) = u64 (total_io (sq_stat sq) + accepted_bytes os)"
  by (induction qs en os sq rule: sq_after.induct)
    (simp_all add: counted_def accepted_def accepted_bytes_def u32_def u64_def mod_add_left_eq add.assoc)

lemma sq_after_small:
  "nr_dispatched (sq_stat sq) < 4294967296 \<Longrightarrow> nr_dispatched (sq_stat (sq_after qs en os sq)) < 4294967296"
  "nr_in_flight (sq_stat sq) < 4294967296 \<Longrightarrow> nr_in_flight (sq_stat (sq_after qs en os sq)) < 4294967296"
  "total_io (sq_stat sq) < 18446744073709551616 \<Longrightarrow> total_io (sq_stat (sq_after qs en os sq)) < 18446744073709551616"
  by (induction qs en os sq rule: sq_after.induct) (simp_all add: counted_def u32_def u64_def)

lemma sq_after_entries:
  assumes "en < qs" "length os < qs" "length (sq_entries sq) = qs"
  shows "length (sq_entries (sq_after qs en os sq)) = qs \<and>
     (\<forall>i<length os. sq_entries (sq_after qs en os sq) ! ((en + i) mod qs) = fst (snd (os ! i))) \<and>
     (\<forall>j<qs. (\<forall>i<length os. j \<noteq> (en + i) mod qs) \<longrightarrow> sq_entries (sq_after qs en os sq) ! j = sq_entries sq ! j)"
  using assms
proof (induction os arbitrary: en sq)
  case (Cons x os)
  obtain ok c r where x: "x = (ok, c, r)" by (cases x)
  let ?sq = "sq\<lparr>sq_entries := (sq_entries sq)[en := c], sq_stat := (if ok then counted (cmd_io_size c) (sq_stat sq) else sq_stat sq)\<rparr>" and ?en = "(en + 1) mod qs"
  have e: "(?en + i) mod qs = (en + Suc i) mod qs" for i by (simp add: mod_add_left_eq)
  have i: "length (sq_entries (sq_after qs ?en os ?sq)) = qs" "\<forall>i<length os. sq_entries (sq_after qs ?en os ?sq) ! ((en + Suc i) mod qs) = fst (snd (os ! i))"
     "\<forall>j<qs. (\<forall>i<length os. j \<noteq> (en + Suc i) mod qs) \<longrightarrow> sq_entries (sq_after qs ?en os ?sq) ! j = sq_entries ?sq ! j"
    using Cons.IH [of ?en ?sq] Cons.prems unfolding e by auto
  have "\<forall>i<length os. en \<noteq> (en + Suc i) mod qs" using ring_apart [of en qs] Cons.prems(1,2) by (metis Suc_less_eq length_Cons less_trans_Suc order_less_trans zero_less_Suc)
  then have z: "sq_entries (sq_after qs ?en os ?sq) ! en = c" using i(3) Cons.prems(1,3) by simp
  have "sq_entries (sq_after qs en (x # os) sq) ! ((en + j) mod qs) = fst (snd ((x # os) ! j))" if "j < length (x # os)" for j
    using that i(2) z Cons.prems(1) by (cases j) (simp_all add: x)
  moreover have "sq_entries (sq_after qs en (x # os) sq) ! j = sq_entries sq ! j" if "j < qs" "\<forall>i<length (x # os). j \<noteq> (en + i) mod qs" for j
  proof -
    have "j \<noteq> en" "\<forall>i<length os. j \<noteq> (en + Suc i) mod qs" using that(2) Cons.prems(1) by (force, auto)
    then show ?thesis using i(3) that(1) by (simp add: x)
  qed
  ultimately show ?case using i(1) by (simp add: x)
qed simp

text \<open>The number of commands between two tails of a ring.\<close>

definition ring_dist :: "nat \<Rightarrow> nat \<Rightarrow> nat \<Rightarrow> nat" where
  "ring_dist qs old new = (if old \<le> new then new - old else new + qs - old)"

lemma ring_dist_less: "old < qs \<Longrightarrow> new < qs \<Longrightarrow> ring_dist qs old new < qs \<and> (old + ring_dist qs old new) mod qs = new"
  by (auto simp: ring_dist_def)

text \<open>The statistics at the end of the doorbell.\<close>

definition dispatched :: "nvmev_submission_queue \<Rightarrow> nvmev_submission_queue" where
  "dispatched sq = sq\<lparr>sq_stat := (sq_stat sq)\<lparr>nr_dispatch := u32 (nr_dispatch (sq_stat sq) + 1),
     max_nr_in_flight := (if s32 (int (max_nr_in_flight (sq_stat sq))) < s32 (int (nr_in_flight (sq_stat sq))) then nr_in_flight (sq_stat sq)
       else max_nr_in_flight (sq_stat sq))\<rparr>\<rparr>"

lemma sq_after_set: "c \<in> set (sq_entries (sq_after qs en os sq)) \<Longrightarrow> c \<in> set (sq_entries sq) \<or> (\<exists>(ok, c', _)\<in>set os. c = c')"
proof (induction qs en os sq rule: sq_after.induct)
  case (2 qs en ok c' r os sq)
  then show ?case using set_update_subset_insert [of "sq_entries sq" en c'] by auto
qed simp

context namespace_handler
begin

text \<open>A tail doorbell runs the handler over the commands between the two tails.\<close>

lemma proc_io_sq_run:
  assumes h: "inv h0" and sq: "deref (d_sqes d) sqid = Some sq" "sq_ok (length (d_ns d)) (sq_queue_size sq) sq" "\<forall>c\<in>set (sq_entries sq). adm c"
    and wks: "workers_ok wks" and db: "old < sq_queue_size sq" "new < sq_queue_size sq"
  shows "\<exists>os h' wks'. handler_run proc_io_cmd clk sqid 0 (ring_cmds (sq_queue_size sq) old (ring_dist (sq_queue_size sq) old new) sq) h0 = Some (os, h') \<and>
     nvmev_proc_io_sq proc_io_cmd clk sqid new old (d, wks, h0) = Some ((old + accepted os) mod sq_queue_size sq,
       d\<lparr>d_sqes := (d_sqes d)[sqid := Some (dispatched (sq_after (sq_queue_size sq) old os sq))]\<rparr>, wks', h') \<and> inv h' \<and>
     length os \<le> ring_dist (sq_queue_size sq) old new \<and> accepted os \<le> ring_dist (sq_queue_size sq) old new \<and>
     (accepted os < ring_dist (sq_queue_size sq) old new \<longrightarrow> length os = Suc (accepted os) \<and> \<not> fst (last os)) \<and>
     gained (get_io_worker (length wks) sqid) (new_tasks (sq_queue_size sq) sqid (sq_cqid sq) clk 0 old os) wks wks' \<and>
     sq_ok (length (d_ns d)) (sq_queue_size sq) (sq_after (sq_queue_size sq) old os sq) \<and>
     (\<forall>c\<in>set (sq_entries (sq_after (sq_queue_size sq) old os sq)). adm c)"
proof -
  let ?qs = "sq_queue_size sq" and ?n = "length (d_ns d)"
  let ?r = "ring_dist ?qs old new" and ?cs = "ring_cmds ?qs old (ring_dist ?qs old new) sq"
  have rd: "?r < ?qs" using ring_dist_less [OF db] by blast
  have num: "nat (if int new - int old < 0 then int new - int old + int ?qs else int new - int old) = ?r" using db by (auto simp: ring_dist_def)
  have "set ?cs \<subseteq> set (sq_entries sq)" using sq(2) db(1) by (auto simp: ring_cmds_def sq_ok_def)
  then have "\<forall>c\<in>set ?cs. adm c \<and> u32_sub (rw_nsid c) 1 < ?n" using sq(2,3) by (auto simp: sq_ok_def)
  from run_total [where P = "\<lambda>i. u32_sub i 1 < ?n", OF h this, of clk sqid 0]
  obtain os h' where r: "handler_run proc_io_cmd clk sqid 0 ?cs h0 = Some (os, h')" "inv h'" "length os \<le> ?r"
     "\<forall>(ok, c, _)\<in>set os. adm c \<and> u32_sub (rw_nsid c) 1 < ?n" "accepted os \<le> ?r" "accepted os < ?r \<longrightarrow> length os = Suc (accepted os) \<and> \<not> fst (last os)"
    by (auto simp: ring_cmds_def)
  have ns: "\<forall>(ok, c, _)\<in>set os. u32_sub (rw_nsid c) 1 < ?n" using r(4) by auto
  obtain wks' where l: "proc_sq_loop proc_io_cmd clk ?qs sqid ?r 0 old (d, wks, h0) =
       Some (0 + accepted os, d\<lparr>d_sqes := (d_sqes d)[sqid := Some (sq_after ?qs old os sq)]\<rparr>, wks', h')"
     "gained (get_io_worker (length wks) sqid) (new_tasks ?qs sqid (sq_cqid sq) clk 0 old os) wks wks'"
    using proc_sq_loop_run [OF r(1) sq(1,2) ns wks db(1) rd] by blast
  have q: "sqid < length (d_sqes d)" "d_sqes d ! sqid = Some sq" using sq(1) by (simp_all add: deref_eq)
  then have "nvmev_proc_io_sq proc_io_cmd clk sqid new old (d, wks, h0) = Some ((old + accepted os) mod ?qs,
      d\<lparr>d_sqes := (d_sqes d)[sqid := Some (dispatched (sq_after ?qs old os sq))]\<rparr>, wks', h')"
    using l(1) num db(1) by (simp add: nvmev_proc_io_sq_def Let_def upd_stat_def deref_def dispatched_def)
  moreover have "sq_ok ?n ?qs (sq_after ?qs old os sq)" by (rule sq_after_ok [OF sq(2) _ ns]) (use db in simp)
  moreover have "\<forall>c\<in>set (sq_entries (sq_after ?qs old os sq)). adm c" using r(4) sq(3) by (fastforce dest: sq_after_set)
  ultimately show ?thesis using r l(2) by blast
qed

end

section \<open>The completion doorbell\<close>

text \<open>The positions that the host has consumed.\<close>

definition consumed :: "nat \<Rightarrow> nat \<Rightarrow> nat \<Rightarrow> nat list" where
  "consumed qs old new = (if old \<le> new then [old..<new] else [old..<qs] @ [0..<new])"

definition take_off :: "nat \<Rightarrow> nvmev_submission_queue option list \<Rightarrow> nvmev_submission_queue option list" where
  "take_off q sqes = (case sqes ! q of None \<Rightarrow> sqes
     | Some sq \<Rightarrow> sqes[q := Some (sq\<lparr>sq_stat := (sq_stat sq)\<lparr>nr_in_flight := u32_sub (nr_in_flight (sq_stat sq)) 1\<rparr>\<rparr>)])"

lemma proc_cq_step:
  assumes "i \<noteq> new_db" "deref (d_cqes d) cqid = Some cq" "i < cq_queue_size cq" "i < length (cq_entries cq)"
    "cqe_sq_id (cq_entries cq ! i) < length (d_sqes d)"
  shows "proc_cq_loop cqid (int new_db) (int i) d =
     proc_cq_loop cqid (int new_db) (int (i + 1)) (d\<lparr>d_sqes := take_off (cqe_sq_id (cq_entries cq ! i)) (d_sqes d)\<rparr>)"
  using assms by (subst proc_cq_loop.simps) (auto simp: take_off_def algebra_simps split: option.splits)

lemma length_take_off [simp]: "length (take_off q sqes) = length sqes"
  by (simp add: take_off_def split: option.splits)

lemma proc_cq_range:
  assumes cq: "deref (d_cqes d) cqid = Some cq" "length (cq_entries cq) = cq_queue_size cq"
  shows "b \<le> cq_queue_size cq \<Longrightarrow> a \<le> b \<Longrightarrow> new_db \<notin> {a..<b} \<Longrightarrow>
     (\<And>e. e \<in> set (cq_entries cq) \<Longrightarrow> cqe_sq_id e < length sqes) \<Longrightarrow>
     proc_cq_loop cqid (int new_db) (int a) (d\<lparr>d_sqes := sqes\<rparr>) =
     proc_cq_loop cqid (int new_db) (int b) (d\<lparr>d_sqes := fold (\<lambda>i. take_off (cqe_sq_id (cq_entries cq ! i))) [a..<b] sqes\<rparr>)"
proof (induction "b - a" arbitrary: a sqes)
  case 0
  then show ?case by simp
next
  case (Suc k)
  let ?q = "cqe_sq_id (cq_entries cq ! a)"
  have a: "a < b" "a < length (cq_entries cq)" using Suc.hyps(2) Suc.prems(1) cq(2) by linarith+
  have "proc_cq_loop cqid (int new_db) (int a) (d\<lparr>d_sqes := sqes\<rparr>) =
      proc_cq_loop cqid (int new_db) (int (a + 1)) (d\<lparr>d_sqes := sqes\<rparr>\<lparr>d_sqes := take_off ?q (d_sqes (d\<lparr>d_sqes := sqes\<rparr>))\<rparr>)"
    by (rule proc_cq_step) (use Suc.prems a cq in auto)
  moreover have "proc_cq_loop cqid (int new_db) (int (a + 1)) (d\<lparr>d_sqes := take_off ?q sqes\<rparr>) =
      proc_cq_loop cqid (int new_db) (int b) (d\<lparr>d_sqes := fold (\<lambda>i. take_off (cqe_sq_id (cq_entries cq ! i))) [a + 1..<b] (take_off ?q sqes)\<rparr>)"
    by (rule Suc.hyps(1)) (use Suc.hyps(2) Suc.prems a in auto)
  moreover have "[a..<b] = a # [a + 1..<b]" using a by (simp add: upt_conv_Cons)
  ultimately show ?case by simp
qed

lemma proc_cq_loop_ok:
  assumes cq: "deref (d_cqes d) cqid = Some cq" "length (cq_entries cq) = cq_queue_size cq"
    and ids: "\<And>e. e \<in> set (cq_entries cq) \<Longrightarrow> cqe_sq_id e < length (d_sqes d)" and b: "old < cq_queue_size cq" "new < cq_queue_size cq"
  shows "proc_cq_loop cqid (int new) (int old) d =
     Some (d\<lparr>d_sqes := fold (\<lambda>i. take_off (cqe_sq_id (cq_entries cq ! i))) (consumed (cq_queue_size cq) old new) (d_sqes d)\<rparr>)"
proof -
  let ?f = "fold (\<lambda>i. take_off (cqe_sq_id (cq_entries cq ! i)))"
  have len: "length (?f is sqes) = length sqes" for "is" sqes by (induction "is" arbitrary: sqes) auto
  show ?thesis
  proof (cases "old \<le> new")
    case True
    have "proc_cq_loop cqid (int new) (int old) (d\<lparr>d_sqes := d_sqes d\<rparr>) = proc_cq_loop cqid (int new) (int new) (d\<lparr>d_sqes := ?f [old..<new] (d_sqes d)\<rparr>)"
      by (rule proc_cq_range [OF cq]) (use True b ids in auto)
    then show ?thesis using True by (simp add: consumed_def proc_cq_loop.simps)
  next
    case False
    let ?n = "cq_queue_size cq" and ?s = "?f [old..<cq_queue_size cq] (d_sqes d)"
    have "proc_cq_loop cqid (int new) (int old) (d\<lparr>d_sqes := d_sqes d\<rparr>) = proc_cq_loop cqid (int new) (int ?n) (d\<lparr>d_sqes := ?s\<rparr>)"
      by (rule proc_cq_range [OF cq]) (use False b ids in auto)
    also have "\<dots> = proc_cq_loop cqid (int new) (int 0) (d\<lparr>d_sqes := ?s\<rparr>)"
      using cq b by (subst proc_cq_loop.simps) auto
    also have "\<dots> = proc_cq_loop cqid (int new) (int new) (d\<lparr>d_sqes := ?f [0..<new] ?s\<rparr>)"
      by (rule proc_cq_range [OF cq]) (use ids b len in auto)
    also have "\<dots> = Some (d\<lparr>d_sqes := ?f [0..<new] ?s\<rparr>)" by (simp add: proc_cq_loop.simps)
    finally show ?thesis using False by (simp add: consumed_def)
  qed
qed

text \<open>The in-flight counter of a queue loses one for each of its consumed completions.\<close>

lemma take_off_count:
  assumes "q < length sqes" "sqes ! q = Some sq" "count_list ids q \<le> nr_in_flight (sq_stat sq)" "nr_in_flight (sq_stat sq) < 4294967296"
  shows "fold take_off ids sqes ! q =
     Some (sq\<lparr>sq_stat := (sq_stat sq)\<lparr>nr_in_flight := nr_in_flight (sq_stat sq) - count_list ids q\<rparr>\<rparr>)"
  using assms
proof (induction ids arbitrary: sqes sq)
  case (Cons i ids)
  let ?sq = "sq\<lparr>sq_stat := (sq_stat sq)\<lparr>nr_in_flight := nr_in_flight (sq_stat sq) - 1\<rparr>\<rparr>"
  show ?case
  proof (cases "i = q")
    case True
    have u: "u32_sub (nr_in_flight (sq_stat sq)) 1 = nr_in_flight (sq_stat sq) - 1" using Cons.prems(3,4) True by (simp add: u32_sub_id)
    have "fold take_off ids (take_off i sqes) ! q =
        Some (?sq\<lparr>sq_stat := (sq_stat ?sq)\<lparr>nr_in_flight := nr_in_flight (sq_stat ?sq) - count_list ids q\<rparr>\<rparr>)"
      by (rule Cons.IH) (use Cons.prems True u in \<open>auto simp: take_off_def\<close>)
    then show ?thesis using True by simp
  next
    case False
    have "fold take_off ids (take_off i sqes) ! q =
        Some (sq\<lparr>sq_stat := (sq_stat sq)\<lparr>nr_in_flight := nr_in_flight (sq_stat sq) - count_list ids q\<rparr>\<rparr>)"
      by (rule Cons.IH) (use Cons.prems False in \<open>auto simp: take_off_def split: option.splits\<close>)
    then show ?thesis using False by simp
  qed
qed simp

end
