(* ===== verification/Io_Handlers.thy ===== *)
theory Io_Handlers
  imports Io_Dispatch Fdp_Device
begin

text \<open>
  The handler of an FDP namespace as the dispatcher calls it: \<open>__nvmev_proc_io\<close> wraps the command in a
  request, and the releases of buffer space that \<open>fdp_write\<close> schedules go to the worker of the
  queue. The handler reads the first part of the command only and leaves it as it is. There is one
  namespace, whose write buffer is \<open>wb\<close>.
\<close>

definition sched_of :: "'b \<Rightarrow> internal_op \<Rightarrow> 'b sched_op" where
  "sched_of wb o' = \<lparr>so_nsecs_target = io_nsecs_target o', so_write_buffer = wb, so_buffs_to_release = io_buffs_to_release o'\<rparr>"

definition fdp_io_handler :: "(nat \<Rightarrow> nat) \<Rightarrow> 'b \<Rightarrow> (fdp_ns \<times> fdp_env, 'b) io_handler" where
  "fdp_io_handler clk wb nsid sqid cmd now ret h = do {
     let req = \<lparr>req_cmd = nvme_rw_command.truncate cmd, req_sq_id = sqid, req_nsecs_start = now\<rparr>;
     (ok, ret', ns', e') \<leftarrow> fdp_proc_nvme_io_cmd clk req ret (fst h) ((snd h)\<lparr>e_sched := []\<rparr>);
     Some (ok, cmd, ret', map (sched_of wb) (e_sched e'), ns', e')
   }"

definition fdp_io_inv :: "nat \<Rightarrow> ssdparams \<Rightarrow> nat \<Rightarrow> fdp_ns \<times> fdp_env \<Rightarrow> bool" where
  "fdp_io_inv n sp np h \<longleftrightarrow> dev_inv n sp h \<and> ns_nr_parts (fst h) = np"

definition fdp_io_adm :: "nat \<Rightarrow> ssdparams \<Rightarrow> nat \<Rightarrow> nvme_io_command \<Rightarrow> bool" where
  "fdp_io_adm n sp np cmd \<longleftrightarrow> host_req n sp np \<lparr>req_cmd = nvme_rw_command.truncate cmd, req_sq_id = 0, req_nsecs_start = 0\<rparr>"

interpretation fdp_io: namespace_handler "fdp_io_inv n sp np" "fdp_io_adm n sp np" "fdp_io_handler clk wb" for n sp np clk wb
proof
  fix h cmd nsid sqid now ret assume i: "fdp_io_inv n sp np h" and a: "fdp_io_adm n sp np cmd"
  let ?req = "\<lparr>req_cmd = nvme_rw_command.truncate cmd, req_sq_id = sqid, req_nsecs_start = now\<rparr>"
  obtain ns e where h: "h = (ns, e)" by (cases h)
  have "dev_inv n sp (ns, e\<lparr>e_sched := []\<rparr>)" "ns_nr_parts ns = np" using i by (simp_all add: h fdp_io_inv_def dev_inv_def dev_ok_def env_ok_def)
  moreover have "host_req n sp (ns_nr_parts ns) ?req" using a calculation(2) by (simp add: fdp_io_adm_def host_req_def)
  ultimately obtain ok ret' ns' e' where "fdp_proc_nvme_io_cmd clk ?req ret ns (e\<lparr>e_sched := []\<rparr>) = Some (ok, ret', ns', e')" "dev_inv n sp (ns', e')" "same_ns ns ns'"
    using dispatch_ok by blast
  then show "\<exists>ok cmd' ret' ops h'. fdp_io_handler clk wb nsid sqid cmd now ret h = Some (ok, cmd', ret', ops, h') \<and>
      fdp_io_inv n sp np h' \<and> fdp_io_adm n sp np cmd' \<and> rw_nsid cmd' = rw_nsid cmd"
    using i a by (simp add: fdp_io_handler_def h fdp_io_inv_def same_ns_def)
qed

end
