(* ===== verification/Io_Effect.thy ===== *)
theory Io_Effect
  imports Io_Pass
begin

text \<open>
  What an iteration of a worker does to the device. The worker serves its requests one after the
  other, copying and completing each; the effect is the same as copying the data of all of them,
  then posting all completions, then releasing all buffers, each in the order of the queue.
\<close>

section \<open>The requests that are copied and completed\<close>

definition uncopied :: "'b nvmev_io_work list \<Rightarrow> 'b nvmev_io_work list" where
  "uncopied = filter (\<lambda>w. \<not> w_is_completed w \<and> \<not> w_is_copied w \<and> \<not> w_is_internal w)"

text \<open>The requests whose time has come when the iteration, which reads the clock before each of them, arrives there.\<close>

fun now_due :: "(nat \<Rightarrow> nat) \<Rightarrow> nat \<Rightarrow> 'b nvmev_io_work list \<Rightarrow> 'b nvmev_io_work list" where
  "now_due clk k [] = []"
| "now_due clk k (w # ws) = (if \<not> w_is_completed w \<and> w_nsecs_target w \<le> clk k then [w] else []) @ now_due clk (k + 1) ws"

definition copy_all :: "(nat \<Rightarrow> bool) \<Rightarrow> (nat \<Rightarrow> bool) \<Rightarrow> 'b nvmev_io_work list \<Rightarrow> 'b io_dev \<Rightarrow> 'b io_dev option" where
  "copy_all pfn_valid memremap = foldM (\<lambda>w d. map_option snd (do_perform_io pfn_valid memremap (w_sqid w) (w_sq_entry w) d))"

definition post_all :: "'b nvmev_io_work list \<Rightarrow> 'b io_dev \<Rightarrow> 'b io_dev option" where
  "post_all ws = foldM fill_cq_result (filter (\<lambda>w. \<not> w_is_internal w) ws)"

definition release_all :: "ssd_type \<Rightarrow> 'b nvmev_io_work list \<Rightarrow> 'b io_dev \<Rightarrow> 'b io_dev" where
  "release_all ty ws = fold (release_work ty) (filter w_is_internal ws)"

lemma now_due_mem:
  assumes "clock_ok clk" "w \<in> set ws" "\<not> w_is_completed w" "w_nsecs_target w \<le> clk k"
  shows "w \<in> set (now_due clk k ws)"
  using assms(2-4)
proof (induction ws arbitrary: k)
  case (Cons u us)
  have "clk k \<le> clk (k + 1)" using assms(1) by (simp add: clock_ok_def)
  then show ?case using Cons.IH [of "k + 1"] Cons.prems by auto
qed simp

section \<open>Copies, completions and releases do not meet\<close>

lemma foldM_none [simp]: "foldM f [] = Some"
  by (simp add: fun_eq_iff)

lemma copy_page_frame:
  "copy_page pfn_valid memremap op n a off sz (d\<lparr>d_cqes := c, d_buffers := b\<rparr>) =
     map_option (\<lambda>x. x\<lparr>d_cqes := c, d_buffers := b\<rparr>) (copy_page pfn_valid memremap op n a off sz d)"
  by (cases "map_page pfn_valid memremap a"; cases "rd (d_ns d) n") (simp_all add: copy_page_def Let_def NVMEV_ASSERT_def)

lemma perform_frame:
  "perform_loop pfn_valid memremap cmd n p q l r off (d\<lparr>d_cqes := c, d_buffers := b\<rparr>) =
     map_option (\<lambda>x. x\<lparr>d_cqes := c, d_buffers := b\<rparr>) (perform_loop pfn_valid memremap cmd n p q l r off d)"
proof (induction pfn_valid memremap cmd n p q l r off d rule: perform_loop.induct)
  case (1 pfn_valid memremap cmd n p q l r off d)
  show ?case
  proof (cases "r = 0")
    case False
    then show ?thesis
    proof (cases "next_prp pfn_valid memremap cmd (d_mem d) r (p + 1) q l")
      case None
      then show ?thesis using False by (simp add: perform_loop.simps)
    next
      case (Some t)
      obtain a q' l' where t: "t = (a, q', l')" by (cases t)
      show ?thesis
      proof (cases "copy_page pfn_valid memremap (rw_opcode cmd) n a off (io_size r a) d")
        case None
        then show ?thesis using False Some t
          by (subst (1 2) perform_loop.simps) (simp add: copy_page_frame)
      next
        case d': (Some d')
        have "perform_loop pfn_valid memremap cmd n (p + 1) q' l' (r - io_size r a) (off + io_size r a) (d'\<lparr>d_cqes := c, d_buffers := b\<rparr>) =
          map_option (\<lambda>x. x\<lparr>d_cqes := c, d_buffers := b\<rparr>) (perform_loop pfn_valid memremap cmd n (p + 1) q' l' (r - io_size r a) (off + io_size r a) d')"
          using "1.IH" [OF False Some t [symmetric] refl d'] .
        then show ?thesis using False Some t d'
          by (subst (1 2) perform_loop.simps) (simp add: copy_page_frame)
      qed
    qed
  qed (simp add: perform_loop.simps)
qed

lemma do_perform_frame:
  "do_perform_io pfn_valid memremap q i (d\<lparr>d_cqes := c, d_buffers := b\<rparr>) =
     map_option (\<lambda>(n, x). (n, x\<lparr>d_cqes := c, d_buffers := b\<rparr>)) (do_perform_io pfn_valid memremap q i d)"
proof (cases "deref (d_sqes d) q")
  case (Some sq)
  then show ?thesis by (cases "rd (sq_entries sq) i") (auto simp: do_perform_io_def perform_frame split: Option.bind_splits)
qed (simp add: do_perform_io_def)

lemma do_perform_same: "do_perform_io pfn_valid memremap q i d = Some (n, x) \<Longrightarrow> d_cqes x = d_cqes d \<and> d_buffers x = d_buffers d"
  using do_perform_frame [where d = d and c = "d_cqes d" and b = "d_buffers d", of pfn_valid memremap q i] by (cases d, cases x) auto

lemma copy_all_frame:
  "copy_all pfn_valid memremap ws (d\<lparr>d_cqes := c, d_buffers := b\<rparr>) =
     map_option (\<lambda>x. x\<lparr>d_cqes := c, d_buffers := b\<rparr>) (copy_all pfn_valid memremap ws d)"
proof (induction ws arbitrary: d)
  case (Cons w ws)
  then show ?case
    by (cases "do_perform_io pfn_valid memremap (w_sqid w) (w_sq_entry w) d") (auto simp: copy_all_def do_perform_frame)
qed (simp add: copy_all_def)

lemma copy_all_same: "copy_all pfn_valid memremap ws d = Some x \<Longrightarrow> d_cqes x = d_cqes d \<and> d_buffers x = d_buffers d"
  using copy_all_frame [where d = d and c = "d_cqes d" and b = "d_buffers d", of pfn_valid memremap ws] by (cases d, cases x) auto

lemma fill_only: "fill_cq_result w d = Some x \<Longrightarrow> x = d\<lparr>d_cqes := d_cqes x\<rparr>"
  by (auto simp: fill_cq_result_def Let_def split: Option.bind_splits)

lemma fill_depends:
  assumes "fill_cq_result w d = Some x" "d_cqes e = d_cqes d"
  shows "fill_cq_result w e = Some (e\<lparr>d_cqes := d_cqes x\<rparr>)"
  using assms by (auto simp: fill_cq_result_def Let_def split: Option.bind_splits)

lemma fill_flags [simp]: "fill_cq_result (w\<lparr>w_is_copied := True\<rparr>) d = fill_cq_result w d" "fill_cq_result (request w) d = fill_cq_result w d"
  by (simp_all add: fill_cq_result_def request_def)

lemma post_all_frame: "post_all ws (d\<lparr>d_buffers := b\<rparr>) = map_option (\<lambda>x. x\<lparr>d_buffers := b\<rparr>) (post_all ws d)"
proof -
  have f: "fill_cq_result w (d\<lparr>d_buffers := b\<rparr>) = map_option (\<lambda>x. x\<lparr>d_buffers := b\<rparr>) (fill_cq_result w d)" for w d
    by (cases "deref (d_cqes d) (w_cqid w)") (auto simp: fill_cq_result_def Let_def split: Option.bind_splits)
  show ?thesis
  proof (induction ws arbitrary: d)
    case (Cons w ws)
    then show ?case by (cases "fill_cq_result w d") (auto simp: post_all_def f)
  qed (simp add: post_all_def)
qed

lemma post_all_same: "post_all ws d = Some x \<Longrightarrow> d_buffers x = d_buffers d"
  using post_all_frame [where d = d and b = "d_buffers d", of ws] by (cases d, cases x) auto

lemma release_only: "release_work ty w e = e\<lparr>d_buffers := d_buffers (release_work ty w d)\<rparr>" if "d_buffers e = d_buffers d"
  using that by (cases e) (simp add: release_work_def)

lemma release_flags [simp]: "release_work ty (w\<lparr>w_is_copied := True\<rparr>) d = release_work ty w d" "release_work ty (request w) d = release_work ty w d"
  by (simp_all add: release_work_def request_def)

section \<open>The requests one by one\<close>

fun entries_dev ::
  "(nat \<Rightarrow> bool) \<Rightarrow> (nat \<Rightarrow> bool) \<Rightarrow> ssd_type \<Rightarrow> (nat \<Rightarrow> nat) \<Rightarrow> nat \<Rightarrow> 'b nvmev_io_work list \<Rightarrow> 'b io_dev \<Rightarrow> 'b io_dev option" where
  "entries_dev pfn_valid memremap ty clk k [] d = Some d"
| "entries_dev pfn_valid memremap ty clk k (w # ws) d =
     map_option snd (worker_entry pfn_valid memremap ty (clk k) w d) \<bind> entries_dev pfn_valid memremap ty clk (k + 1) ws"

lemma worker_entry_served: "worker_entry pfn_valid memremap ty now w d = Some (w', d') \<Longrightarrow> w' = served now w"
  using not_completed_same [of "w\<lparr>w_is_copied := True\<rparr>"]
  by (auto simp: worker_entry_def served_def Let_def split: if_splits Option.bind_splits)

text \<open>One request: its copy, and then its completion or release.\<close>

lemma worker_entry_split:
  "map_option snd (worker_entry pfn_valid memremap ty now w d) =
     copy_all pfn_valid memremap (uncopied [w]) d \<bind> (\<lambda>d1. map_option (release_all ty (now_due (\<lambda>_. now) 0 [w])) (post_all (now_due (\<lambda>_. now) 0 [w]) d1))"
  by (cases "do_perform_io pfn_valid memremap (w_sqid w) (w_sq_entry w) d"; cases "fill_cq_result w d")
    (auto simp: worker_entry_def copy_work_def copy_all_def uncopied_def post_all_def release_all_def Let_def split: Option.bind_splits)

lemma entries_dev_request: "map_option snd (worker_entry pfn_valid memremap ty now (request w) d) = map_option snd (worker_entry pfn_valid memremap ty now w d)"
proof -
  have r: "w_sqid (request w) = w_sqid w" "w_sq_entry (request w) = w_sq_entry w" by (simp_all add: request_def)
  have "copy_all pfn_valid memremap (uncopied [request w]) d = copy_all pfn_valid memremap (uncopied [w]) d" by (simp add: copy_all_def uncopied_def r)
  then show ?thesis unfolding worker_entry_split by (simp add: post_all_def release_all_def)
qed

lemma worker_scan_dev:
  "path (nx wk) cur zs NONE32 \<Longrightarrow> distinct zs \<Longrightarrow> (\<And>z. z \<in> set zs \<Longrightarrow> z < length (work_queue wk) \<and> z \<noteq> NONE32) \<Longrightarrow>
     worker_scan pfn_valid memremap ty clk k cur (wk, d) = Some (k', wk', d') \<Longrightarrow>
     entries_dev pfn_valid memremap ty clk k (requests wk zs) d = Some d'"
proof (induction zs arbitrary: wk d cur k)
  case Nil
  then show ?case by (simp add: worker_scan.simps requests_def)
next
  case (Cons z zs)
  have z: "cur = z" "z < length (work_queue wk)" "z \<noteq> NONE32" "z \<notin> set zs" "path (nx wk) (nx wk z) zs NONE32" "distinct zs"
    using Cons.prems(1-3) by auto
  let ?w = "work_queue wk ! z"
  obtain w1 d1 where e: "worker_entry pfn_valid memremap ty (clk k) ?w d = Some (w1, d1)"
    using Cons.prems(4) z(1-3) by (subst (asm) worker_scan.simps) (auto split: Option.bind_splits)
  have w1: "w1 = served (clk k) ?w" by (rule worker_entry_served [OF e])
  let ?wk = "wk\<lparr>latest_nsecs := clk k, work_queue := (work_queue wk)[z := w1]\<rparr>"
  have nf: "nx ?wk = nx wk" by (rule ext) (use z(2) w1 in \<open>simp add: nx_def nth_upd\<close>)
  have st: "worker_scan pfn_valid memremap ty clk (k + 1) (nx wk z) (?wk, d1) = Some (k', wk', d')"
    using Cons.prems(4) z e w1 by (subst (asm) worker_scan.simps) (simp add: upd_work_eq nx_def)
  have "entries_dev pfn_valid memremap ty clk (k + 1) (requests ?wk zs) d1 = Some d'"
    by (rule Cons.IH [OF _ z(6) _ st]) (use z(5) nf Cons.prems(3) in auto)
  moreover have "requests ?wk zs = requests wk zs" using z(4) by (auto simp: requests_def intro!: arg_cong [of _ _ request] nth_list_update_neq)
  moreover have "map_option snd (worker_entry pfn_valid memremap ty (clk k) (request ?w) d) = Some d1" using e by (simp only: entries_dev_request) simp
  moreover have "requests wk (z # zs) = request ?w # requests wk zs" by (simp add: requests_def)
  ultimately show ?case by (simp del: map_option_eq_Some)
qed

section \<open>The iteration as a whole\<close>

lemma entries_dev_split:
  "entries_dev pfn_valid memremap ty clk k ws d = Some d' \<Longrightarrow>
     \<exists>d1 d2. copy_all pfn_valid memremap (uncopied ws) d = Some d1 \<and> post_all (now_due clk k ws) d1 = Some d2 \<and>
       d' = release_all ty (now_due clk k ws) d2"
proof (induction ws arbitrary: k d)
  case Nil
  then show ?case by (simp add: copy_all_def uncopied_def post_all_def release_all_def)
next
  case (Cons w ws)
  let ?p = pfn_valid and ?m = memremap and ?n = "now_due (\<lambda>_. clk k) 0 [w]" and ?ns = "now_due clk (k + 1) ws" and ?us = "uncopied ws"
  obtain da db dc where a: "copy_all ?p ?m (uncopied [w]) d = Some da" and b: "post_all ?n da = Some db" and c: "dc = release_all ty ?n db"
    and r: "entries_dev ?p ?m ty clk (k + 1) ws dc = Some d'"
    using Cons.prems unfolding entries_dev.simps worker_entry_split by (auto split: Option.bind_splits)
  obtain d1 d2 where i: "copy_all ?p ?m ?us dc = Some d1" "post_all ?ns d1 = Some d2" "d' = release_all ty ?ns d2" using Cons.IH [OF r] by blast
  have cs: "copy_all ?p ?m (uncopied (w # ws)) d = copy_all ?p ?m ?us da"
    using a by (cases "do_perform_io ?p ?m (w_sqid w) (w_sq_entry w) d") (auto simp: copy_all_def uncopied_def)
  have nd: "now_due clk k (w # ws) = ?n @ ?ns" by simp
  have ps: "post_all (?n @ ?ns) x = post_all ?n x \<bind> post_all ?ns" "release_all ty (?n @ ?ns) x = release_all ty ?ns (release_all ty ?n x)" for x
    by (simp_all add: post_all_def [abs_def] release_all_def)
  have db: "db = da\<lparr>d_cqes := d_cqes db\<rparr>"
  proof (cases "?n = [] \<or> w_is_internal w")
    case False
    then show ?thesis using b fill_only [of w da db] by (auto simp: post_all_def split: if_splits)
  qed (use b in \<open>auto simp: post_all_def split: if_splits\<close>)
  have fb: "d_buffers db = d_buffers da" by (subst db) simp
  have ro: "release_all ty ?n x = x\<lparr>d_buffers := d_buffers (release_all ty ?n db)\<rparr>" if "d_buffers x = d_buffers db" for x
    using release_only [OF that, of ty w] that by (cases x) (simp add: release_all_def)
  have fc: "d_cqes dc = d_cqes db" unfolding c by (subst ro [of db]) simp_all
  have dc: "dc = da\<lparr>d_cqes := d_cqes dc, d_buffers := d_buffers dc\<rparr>" unfolding fc using ro [of db] c db by (metis io_dev.update_convs(5) io_dev.surjective)
  obtain e1 where e1: "copy_all ?p ?m ?us da = Some e1" "d1 = e1\<lparr>d_cqes := d_cqes dc, d_buffers := d_buffers dc\<rparr>"
    using i(1) copy_all_frame [where d = da and c = "d_cqes dc" and b = "d_buffers dc", of ?p ?m ?us] dc by (cases "copy_all ?p ?m ?us da") auto
  have k: "d_cqes e1 = d_cqes da" "d_buffers e1 = d_buffers da" using copy_all_same [OF e1(1)] by auto
  let ?e = "e1\<lparr>d_cqes := d_cqes dc\<rparr>"
  have "post_all ?n e1 = Some ?e"
    using b fc k(1) fill_depends [of w da db e1] by (cases e1) (auto simp: post_all_def split: if_splits)
  moreover obtain e2 where e2: "post_all ?ns ?e = Some e2" "d2 = e2\<lparr>d_buffers := d_buffers dc\<rparr>"
    using i(2) e1(2) post_all_frame [where d = ?e and b = "d_buffers dc", of ?ns] by (cases "post_all ?ns ?e") auto
  moreover have "release_all ty ?n e2 = d2"
  proof -
    have "d_buffers e2 = d_buffers db" using post_all_same [OF e2(1)] k(2) fb by simp
    then have "release_all ty ?n e2 = e2\<lparr>d_buffers := d_buffers (release_all ty ?n db)\<rparr>" by (rule ro)
    then show ?thesis using e2(2) c by simp
  qed
  ultimately show ?case using cs e1(1) i(3) unfolding nd ps by auto
qed

lemma pass_effect:
  assumes inv: "worker_inv wk xs ys" and p: "io_worker_pass pfn_valid memremap ty nrw nr_cq clk k wk d = Some (k', wk', d')" and id: "wk_id wk' = wk_id wk"
  shows "\<exists>d1 d2. copy_all pfn_valid memremap (uncopied (requests wk xs)) d = Some d1 \<and> post_all (now_due clk k (requests wk xs)) d1 = Some d2 \<and>
     signal_irqs nrw nr_cq (wk_id wk) (release_all ty (now_due clk k (requests wk xs)) d2) = Some d'"
proof -
  note v = worker_invD [OF inv]
  obtain d0 where s: "worker_scan pfn_valid memremap ty clk k (io_seq wk) (wk, d) = Some (k', wk', d0)" "signal_irqs nrw nr_cq (wk_id wk') d0 = Some d'"
    using p by (auto simp: io_worker_pass_def split: Option.bind_splits)
  have "entries_dev pfn_valid memremap ty clk k (requests wk xs) d = Some d0"
    by (rule worker_scan_dev [OF v(4) _ _ s(1)]) (use v(1,2,10) not_none in auto)
  from entries_dev_split [OF this] s(2) id show ?thesis by auto
qed

end
