(* ===== verification/Io_Props.thy ===== *)
theory Io_Props
  imports Io_Handlers Io_Effect Fdp_Example
begin

text \<open>The properties of the I/O queues, the worker threads and the dispatcher's doorbells.\<close>

section \<open>Examples\<close>

definition io_blank :: nvmev_result where "io_blank = \<lparr>ret_status = 0, ret_nsecs_target = 700, ret_result = 0\<rparr>"

definition rw_cmd :: "nat \<Rightarrow> nat \<Rightarrow> nat \<Rightarrow> nat \<Rightarrow> nat \<Rightarrow> nvme_io_command" where
  "rw_cmd op slba len p1 p2 = \<lparr>rw_opcode = op, rw_nsid = 1, rw_slba = slba, rw_length = len, rw_control = 0, rw_dsmgmt = 0,
     c_command_id = 9, c_prp1 = p1, c_prp2 = p2\<rparr>"

text \<open>One queue pair; the submission queue holds a write and a read of sixteen blocks.\<close>

definition io_sq :: nvmev_submission_queue where
  "io_sq = \<lparr>sq_cqid = 1, sq_queue_size = 4,
     sq_stat = \<lparr>nr_dispatched = 0, nr_dispatch = 0, nr_in_flight = 2, max_nr_in_flight = 2, total_io = 0\<rparr>,
     sq_entries = [rw_cmd nvme_cmd_write 8 15 4096 8192, rw_cmd nvme_cmd_read 8 15 16384 20480,
       rw_cmd nvme_cmd_flush 0 0 0 0, rw_cmd nvme_cmd_flush 0 0 0 0]\<rparr>"

definition io_cqe :: "nat \<Rightarrow> nvme_completion" where
  "io_cqe q = \<lparr>cqe_result0 = 0, cqe_result1 = 0, cqe_sq_head = 0, cqe_sq_id = q, cqe_command_id = 0, cqe_status = 0\<rparr>"

definition io_cq :: nvmev_completion_queue where
  "io_cq = \<lparr>cq_irq_vector = 1, cq_irq_enabled = True, cq_interrupt_ready = False, cq_queue_size = 4, cq_phase = 1, cq_head = 3,
     cq_tail = 0, cq_entries = [io_cqe 1, io_cqe 1, io_cqe 0, io_cqe 0]\<rparr>"

definition io_example :: "nat io_dev" where
  "io_example = \<lparr>d_sqes = [None, Some io_sq], d_cqes = [None, Some io_cq],
     d_ns = [\<lparr>na_size = 1048576, na_bytes = (\<lambda>_. 0)\<rparr>], d_mem = (\<lambda>a. a mod 256), d_buffers = (\<lambda>_. buffer_init 4096), d_irqs = []\<rparr>"

definition io_work :: "nat \<Rightarrow> nat \<Rightarrow> nat nvmev_io_work" where
  "io_work c t = \<lparr>w_sqid = 1, w_cqid = 1, w_sq_entry = 0, w_command_id = c, w_nsecs_start = 0, w_nsecs_target = t, w_nsecs_enqueue = 0,
     w_is_copied = False, w_is_completed = False, w_status = 0, w_result0 = 0, w_result1 = 0, w_is_internal = False,
     w_write_buffer = 0, w_buffs_to_release = 0, w_next = 0, w_prev = 0\<rparr>"

lemma upt_parts: "[0..<NR_MAX_PARALLEL_IO] = 0 # [1..<NR_MAX_PARALLEL_IO]" "[1..<NR_MAX_PARALLEL_IO] \<noteq> []"
proof -
  have n: "1 < NR_MAX_PARALLEL_IO" by (simp add: NR_MAX_PARALLEL_IO_def)
  show "[0..<NR_MAX_PARALLEL_IO] = 0 # [1..<NR_MAX_PARALLEL_IO]" "[1..<NR_MAX_PARALLEL_IO] \<noteq> []"
    using upt_conv_Cons [of 0 NR_MAX_PARALLEL_IO] n by simp_all
qed

lemma init_inv: "worker_inv (io_worker_init null k) [] (0 # [1..<NR_MAX_PARALLEL_IO])"
  using io_worker_init_ok upt_parts by metis

section \<open>The work queue\<close>

text \<open>C15: \<open>__enqueue_io_req\<close> refines the insertion into a list of requests that is ordered by
  target time: with at least two free entries it takes the first free one, writes the request into
  it, and the chain of the queue then reads as the list with the request inserted behind every
  request whose target is not later or already past. The other requests are untouched, and the
  chains are well formed again.\<close>

theorem enqueue_refines_ordered_insert:
  assumes "worker_inv wk xs (e # ys)" "ys \<noteq> []"
  shows "\<exists>wk' xs'. enqueue_io_req sqid cqid en c ns now ret wk = Some wk' \<and> worker_inv wk' xs' ys \<and>
     requests wk' xs' = insert_ordered (latest_nsecs wk) (request (io_request sqid cqid en c ns now ret (work_queue wk ! e))) (requests wk xs) \<and>
     set xs' = insert e (set xs) \<and> latest_nsecs wk' = latest_nsecs wk"
proof -
  let ?t = "ret_nsecs_target ret" and ?f = "io_request sqid cqid en c ns now ret"
  have "set (before wk ?t xs @ e # after wk ?t xs) = insert e (set xs)"
    using arg_cong [OF before_after [of wk ?t xs], of set] by auto
  then show ?thesis
    using queue_new_ok [where f = ?f, OF assms io_request_links(1)] unfolding enqueue_queue_new by blast
qed

theorem enqueue_refines_ordered_insert_witness:
  "\<exists>wk' xs'. enqueue_io_req 1 1 0 9 500 510 io_blank (io_worker_init (0::nat) 0) = Some wk' \<and> worker_inv wk' xs' [1..<NR_MAX_PARALLEL_IO] \<and>
     set xs' = {0}"
  using enqueue_refines_ordered_insert [OF init_inv [of "0::nat" 0] upt_parts(2), of 1 1 0 9 500 510 io_blank] by auto

text \<open>When only one entry is free, \<open>__enqueue_io_req\<close> leaves the queue as it is: the request
  is dropped, although the dispatcher has already taken the command from the submission queue, so
  it is never completed.\<close>

theorem full_queue_drops_request:
  assumes "worker_inv wk xs [e]"
  shows "enqueue_io_req sqid cqid en c ns now ret wk = Some wk \<and> schedule_internal_operation sqid t b r now wk = Some wk"
  unfolding enqueue_queue_new using queue_new_full [OF assms] by blast

lemma fill_queue:
  "\<exists>wk xs e. foldM (\<lambda>_. enqueue_io_req 1 1 0 9 500 510 io_blank) [0..<NR_MAX_PARALLEL_IO - 1] (io_worker_init (0::nat) 0) = Some wk \<and>
     worker_inv wk xs [e]"
proof -
  have n: "0 < NR_MAX_PARALLEL_IO" by (simp add: NR_MAX_PARALLEL_IO_def)
  let ?P = "\<lambda>i (wk :: nat nvmev_io_worker). \<exists>xs ys. worker_inv wk xs ys \<and> length ys = NR_MAX_PARALLEL_IO - i"
  have "\<exists>wk. foldM (\<lambda>_. enqueue_io_req 1 1 0 9 500 510 io_blank) [0..<NR_MAX_PARALLEL_IO - 1] (io_worker_init (0::nat) 0) = Some wk \<and>
      ?P (NR_MAX_PARALLEL_IO - 1) wk"
  proof (rule foldM_upt_total [where P = ?P])
    show "?P 0 (io_worker_init (0::nat) 0)" using io_worker_init_ok [of "0::nat" 0] by fastforce
    fix i and wk :: "nat nvmev_io_worker" assume i: "i < NR_MAX_PARALLEL_IO - 1" and p: "?P i wk"
    obtain xs ys where w: "worker_inv wk xs ys" "length ys = NR_MAX_PARALLEL_IO - i" using p by blast
    then obtain e es where ys: "ys = e # es" "es \<noteq> []" "length es = NR_MAX_PARALLEL_IO - Suc i"
      using i by (cases ys) (auto simp: length_0_conv [symmetric] simp del: length_0_conv)
    have "\<exists>wk'. queue_new (io_request 1 1 0 9 500 510 io_blank) (ret_nsecs_target io_blank) wk = Some wk' \<and>
        (\<exists>xs'. worker_inv wk' xs' es)"
      using queue_new_ok [where f = "io_request 1 1 0 9 500 510 io_blank", OF w(1) [unfolded ys(1)] ys(2) io_request_links(1)] by blast
    then show "\<exists>wk'. enqueue_io_req 1 1 0 9 500 510 io_blank wk = Some wk' \<and> ?P (Suc i) wk'"
      unfolding enqueue_queue_new using ys(3) by blast
  qed simp
  then obtain wk xs ys where w: "foldM (\<lambda>_. enqueue_io_req 1 1 0 9 500 510 io_blank) [0..<NR_MAX_PARALLEL_IO - 1] (io_worker_init (0::nat) 0) = Some wk"
    "worker_inv wk xs ys" "length ys = NR_MAX_PARALLEL_IO - (NR_MAX_PARALLEL_IO - 1)" by blast
  have "length ys = 1" using w(3) n by linarith
  then obtain e where "ys = [e]" by (auto simp: length_Suc_conv)
  then show ?thesis using w(1,2) by blast
qed

theorem full_queue_drops_request_witness:
  "\<exists>wk. foldM (\<lambda>_. enqueue_io_req 1 1 0 9 500 510 io_blank) [0..<NR_MAX_PARALLEL_IO - 1] (io_worker_init (0::nat) 0) = Some wk \<and>
     enqueue_io_req 1 1 1 9 500 510 io_blank wk = Some wk"
proof -
  obtain wk xs e where w: "foldM (\<lambda>_. enqueue_io_req 1 1 0 9 500 510 io_blank) [0..<NR_MAX_PARALLEL_IO - 1] (io_worker_init (0::nat) 0) = Some wk"
    "worker_inv wk xs [e]" using fill_queue by blast
  have "enqueue_io_req 1 1 1 9 500 510 io_blank wk = Some wk"
    by (rule conjunct1 [OF full_queue_drops_request [OF w(2), where t = 0 and b = 0 and r = 0]])
  then show ?thesis using w(1) by blast
qed

text \<open>Reclaiming drops from the queue exactly the leading requests that are copied, completed
  and past their target at the worker's last look at the clock, keeps the order of the others, and
  appends the entries to the free chain.\<close>

theorem reclaim_frees_finished_prefix:
  assumes "worker_inv wk xs ys"
  shows "\<exists>wk' us zs. reclaim_worker wk = Some wk' \<and> xs = us @ zs \<and> worker_inv wk' zs (ys @ us) \<and>
     requests wk' zs = dropWhile (\<lambda>w. w_is_completed w \<and> w_is_copied w \<and> w_nsecs_target w \<le> latest_nsecs wk) (requests wk xs)"
proof -
  obtain wk' where w: "reclaim_worker wk = Some wk'" "worker_inv wk' (dropWhile (finished wk) xs) (ys @ takeWhile (finished wk) xs)"
    "\<forall>zs. requests wk' zs = requests wk zs" using reclaim_ok [OF assms] by blast
  have "requests wk' (dropWhile (finished wk) xs) =
      dropWhile (\<lambda>w. w_is_completed w \<and> w_is_copied w \<and> w_nsecs_target w \<le> latest_nsecs wk) (requests wk xs)"
    using w(3) requests_dropWhile [of wk xs] unfolding reclaimable_def [abs_def] by simp
  then show ?thesis using w(1,2) takeWhile_dropWhile_id [of "finished wk" xs] by metis
qed

theorem reclaim_frees_finished_prefix_witness:
  "\<exists>wk' us zs. reclaim_worker (io_worker_init (0::nat) 0) = Some wk' \<and> worker_inv wk' zs ([0..<NR_MAX_PARALLEL_IO] @ us)"
  using reclaim_frees_finished_prefix [OF io_worker_init_ok [of "0::nat" 0]] by blast

section \<open>The worker\<close>

text \<open>C13: From a new worker, after any sequence of queued requests, internal operations, reclaims
  and iterations, the next one of them returns (no access outside the array, no endless chain), and
  the chains then partition the entries into the queue, ordered by target time (targets that the
  worker has already passed count as the time of its last look at the clock), and the free
  entries. Queued requests are for commands that the copy can carry out.\<close>

theorem worker_always_serves:
  assumes "\<forall>a. pfn_valid a" "clock_ok clk" "nr_cq < length (d_cqes d)"
    and "(device_step work_host (work_serve pfn_valid memremap ty nrw nr_cq clk))\<^sup>*\<^sup>* (k, io_worker_init null wid, d) s" "work_host s op'"
  shows "\<exists>k' wk' d' xs ys. work_serve pfn_valid memremap ty nrw nr_cq clk s op' = Some (k', wk', d') \<and>
     worker_inv wk' xs ys \<and> queue_ok d' wk' xs"
proof -
  have "work_inv pfn_valid nr_cq clk (k, io_worker_init null wid, d)"
    by (rule work_init_inv) (use assms(1-3) in simp_all)
  from iow.reach_answers [OF assms(4) this assms(5)]
  obtain u where "work_serve pfn_valid memremap ty nrw nr_cq clk s op' = Some u" "work_inv pfn_valid nr_cq clk u" by blast
  then show ?thesis by (cases u) (auto simp: work_inv_def)
qed

text \<open>C14: An iteration of the worker that begins when the clock shows \<open>clk k\<close> serves its queue
  completely. Its effect on the device is that of copying the data of every request of a command that
  has not been copied yet, then posting a completion for every request of a command that is due when
  its turn comes, then giving back the buffer space of every internal operation that is due (on
  conventional and zoned devices), each in the order of the queue, and of raising the pending
  interrupts. Everything that was due at \<open>clk k\<close> is among the completed ones, and the reclaim that
  follows frees it: what is left in the queue lies in the future. All of the host's memory is in the
  kernel's memory map, the clock does not run backwards, and the queued commands can be carried out
  (\<open>queue_ok\<close>).\<close>

theorem due_requests_complete:
  assumes pv: "\<forall>a. pfn_valid a" and inv: "worker_inv wk xs ys" "queue_ok d wk xs" and cq: "nr_cq < length (d_cqes d)"
    and clk: "clock_ok clk" "latest_nsecs wk \<le> clk k"
  shows "\<exists>d1 d2 wk' d' wk'' us zs. copy_all pfn_valid memremap (uncopied (requests wk xs)) d = Some d1 \<and>
     post_all (now_due clk k (requests wk xs)) d1 = Some d2 \<and>
     signal_irqs nrw nr_cq (wk_id wk) (release_all ty (now_due clk k (requests wk xs)) d2) = Some d' \<and>
     io_worker_pass pfn_valid memremap ty nrw nr_cq clk k wk d = Some (k + length xs, wk', d') \<and>
     (\<forall>w\<in>set (requests wk xs). \<not> w_is_completed w \<and> w_nsecs_target w \<le> clk k \<longrightarrow> w \<in> set (now_due clk k (requests wk xs))) \<and>
     (\<forall>w\<in>set (requests wk' xs). w_is_copied w \<and> (w_nsecs_target w \<le> clk k \<longrightarrow> w_is_completed w)) \<and>
     reclaim_worker wk' = Some wk'' \<and> xs = us @ zs \<and> worker_inv wk'' zs (ys @ us) \<and>
     requests wk'' zs = requests wk' zs \<and> (\<forall>x\<in>set zs. clk k < tgt wk x \<and> tgt wk'' x = tgt wk x)"
proof -
  obtain wk' d' where p: "io_worker_pass pfn_valid memremap ty nrw nr_cq clk k wk d = Some (k + length xs, wk', d')"
     "worker_inv wk' xs ys" "queue_ok d' wk' xs"
     "requests wk' xs = map (\<lambda>j. served (clk (k + j)) (requests wk xs ! j)) [0..<length xs]" "wk_id wk' = wk_id wk"
    using pass_ok [where pfn_valid = pfn_valid and memremap = memremap and ty = ty and nr_io_workers = nrw, OF _ inv cq clk] pv by blast
  obtain d1 d2 where e: "copy_all pfn_valid memremap (uncopied (requests wk xs)) d = Some d1" "post_all (now_due clk k (requests wk xs)) d1 = Some d2"
     "signal_irqs nrw nr_cq (wk_id wk) (release_all ty (now_due clk k (requests wk xs)) d2) = Some d'" using pass_effect [OF inv(1) p(1,5)] by blast
  have nd: "w \<in> set (now_due clk k (requests wk xs))" if "w \<in> set (requests wk xs)" "\<not> w_is_completed w" "w_nsecs_target w \<le> clk k" for w
    by (rule now_due_mem [OF clk(1) that])
  obtain wk'' where r: "reclaim_worker wk' = Some wk''" "worker_inv wk'' (dropWhile (finished wk') xs) (ys @ takeWhile (finished wk') xs)"
    "\<forall>zs. requests wk'' zs = requests wk' zs" using reclaim_ok [OF p(2)] by blast
  have tg: "tgt wk' x = tgt wk x" if "x \<in> set xs" for x
  proof -
    obtain j where j: "j < length xs" "x = xs ! j" using \<open>x \<in> set xs\<close> by (metis in_set_conv_nth)
    have "request (work_queue wk' ! x) = served (clk (k + j)) (request (work_queue wk ! x))"
      using arg_cong [OF p(4), of "\<lambda>l. l ! j"] j by (simp add: requests_def)
    from arg_cong [OF this, of w_nsecs_target] show ?thesis by (simp add: tgt_def)
  qed
  have "clk k < tgt wk x \<and> tgt wk'' x = tgt wk x" if x: "x \<in> set (dropWhile (finished wk') xs)" for x
  proof -
    have "request (work_queue wk'' ! x) = request (work_queue wk' ! x)" using spec [OF r(3), of "[x]"] by (simp add: requests_def)
    from arg_cong [OF this, of w_nsecs_target] have "tgt wk'' x = tgt wk' x" by (simp add: tgt_def)
    then show ?thesis using pass_finishes [OF inv(1) clk(2,1) p(4,3) x] tg [of x] set_dropWhileD [OF x] by simp
  qed
  moreover have "w_is_copied w \<and> (w_nsecs_target w \<le> clk k \<longrightarrow> w_is_completed w)" if "w \<in> set (requests wk' xs)" for w
  proof -
    obtain j where j: "j < length xs" "w = served (clk (k + j)) (requests wk xs ! j)" using \<open>w \<in> _\<close> unfolding p(4) by auto
    have "requests wk xs ! j \<in> set (requests wk xs)" using j(1) by (simp add: requests_def)
    from queue_okD [OF inv(2) this] have "w_is_completed (requests wk xs ! j) \<longrightarrow> w_is_copied (requests wk xs ! j)" by blast
    moreover have "clk k \<le> clk (k + j)" using clk(1) by (simp add: clock_ok_def)
    ultimately show ?thesis unfolding j(2) by (auto simp: served_def)
  qed
  moreover have "xs = takeWhile (finished wk') xs @ dropWhile (finished wk') xs" by simp
  moreover have "requests wk'' (dropWhile (finished wk') xs) = requests wk' (dropWhile (finished wk') xs)" using r(3) by blast
  ultimately show ?thesis
    by (intro exI [of _ d1] exI [of _ d2] exI [of _ wk'] exI [of _ d'] exI [of _ wk''] exI [of _ "takeWhile (finished wk') xs"] exI [of _ "dropWhile (finished wk') xs"]
        conjI ballI impI e p(1) r(1,2)) (use nd in blast)+
qed

text \<open>A queue with one request for the write of the example.\<close>

definition io_clock :: "nat \<Rightarrow> nat" where "io_clock k = 1000 + k"

lemma io_clock_ok: "clock_ok io_clock" by (simp add: clock_ok_def io_clock_def)

lemmas example_defs = io_example_def io_sq_def io_cq_def rw_cmd_def io_cqe_def

lemma example_io_ok: "w_sqid w = 1 \<Longrightarrow> w_cqid w = 1 \<Longrightarrow> w_sq_entry w = 0 \<Longrightarrow> io_ok io_example w"
  by (simp add: io_ok_def deref_eq deref_def example_defs cmd_ok_def ring_ok_def Let_def cmd_io_size_def cmd_io_offset_def
      u32_sub_def u32_def u64_def io_size_def PAGE_SIZE_def)

lemma example_queued:
  "\<exists>wk r. enqueue_io_req 1 1 0 9 500 510 io_blank (io_worker_init (0::nat) 0) = Some wk \<and> worker_inv wk [0] [1..<NR_MAX_PARALLEL_IO] \<and>
     queue_ok io_example wk [0] \<and> latest_nsecs wk = 0 \<and> wk_id wk = 0 \<and> requests wk [0] = [r] \<and> w_nsecs_target r = 700 \<and> \<not> w_is_completed r \<and> \<not> w_is_copied r \<and>
     \<not> w_is_internal r \<and> w_cqid r = 1 \<and> w_command_id r = 9"
proof -
  let ?wk = "io_worker_init (0::nat) 0" and ?f = "io_request 1 1 0 9 500 510 io_blank"
  have e: "before ?wk t [] = []" "after ?wk t [] = []" "latest_nsecs ?wk = 0" "requests ?wk [] = []" "wk_id ?wk = 0" for t
    by (simp_all add: before_def after_def io_worker_init_def requests_def)
  obtain wk where w: "queue_new ?f (ret_nsecs_target io_blank) ?wk = Some wk" "worker_inv wk [0] [1..<NR_MAX_PARALLEL_IO]"
    "latest_nsecs wk = 0" "wk_id wk = 0" "requests wk [0] = [request (?f (work_queue ?wk ! 0))]"
    using queue_new_ok [where f = ?f, OF init_inv [of "0::nat" 0] upt_parts(2) io_request_links(1)] unfolding e by auto
  have "queue_ok io_example wk [0]"
    unfolding queue_ok_def w(5) by (auto simp: io_request_def intro: example_io_ok)
  then show ?thesis unfolding enqueue_queue_new using w
    by (intro exI [of _ wk] exI [of _ "request (?f (work_queue ?wk ! 0))"]) (simp add: io_request_def io_blank_def request_def)
qed

theorem due_requests_complete_witness:
  "\<exists>wk d1 d2 wk' d' wk'' cq. enqueue_io_req 1 1 0 9 500 510 io_blank (io_worker_init (0::nat) 0) = Some wk \<and>
     copy_all (\<lambda>_. True) (\<lambda>_. True) (requests wk [0]) io_example = Some d1 \<and> post_all (requests wk [0]) d1 = Some d2 \<and>
     signal_irqs 1 1 0 d2 = Some d' \<and> deref (d_cqes d2) 1 = Some cq \<and> cqe_command_id (cq_entries cq ! 3) = 9 \<and>
     io_worker_pass (\<lambda>_. True) (\<lambda>_. True) SSD_TYPE_FDP 1 1 io_clock 0 wk io_example = Some (1, wk', d') \<and>
     reclaim_worker wk' = Some wk'' \<and> worker_inv wk'' [] ([1..<NR_MAX_PARALLEL_IO] @ [0])"
proof -
  obtain wk r where w: "enqueue_io_req 1 1 0 9 500 510 io_blank (io_worker_init (0::nat) 0) = Some wk" "worker_inv wk [0] [1..<NR_MAX_PARALLEL_IO]"
     "queue_ok io_example wk [0]" "latest_nsecs wk = 0" "wk_id wk = 0" "requests wk [0] = [r]" "w_nsecs_target r = 700" "\<not> w_is_completed r" "\<not> w_is_copied r"
     "\<not> w_is_internal r" "w_cqid r = 1" "w_command_id r = 9" using example_queued by blast
  have l: "1 < length (d_cqes io_example)" "latest_nsecs wk \<le> io_clock 0" using w(4) by (simp_all add: io_example_def)
  have n: "now_due io_clock 0 [r] = [r]" "uncopied [r] = [r]" "release_all SSD_TYPE_FDP [r] d = d" for d
    using w(7-10) by (simp_all add: io_clock_def uncopied_def release_all_def)
  from due_requests_complete [where pfn_valid = "\<lambda>_. True" and memremap = "\<lambda>_. True" and ty = SSD_TYPE_FDP and nrw = 1,
      OF _ w(2,3) l(1) io_clock_ok l(2), unfolded w(5,6) n]
  obtain d1 d2 wk' d' wk'' us zs where p: "copy_all (\<lambda>_. True) (\<lambda>_. True) [r] io_example = Some d1" "post_all [r] d1 = Some d2" "signal_irqs 1 1 0 d2 = Some d'"
     "io_worker_pass (\<lambda>_. True) (\<lambda>_. True) SSD_TYPE_FDP 1 1 io_clock 0 wk io_example = Some (1, wk', d')"
     "reclaim_worker wk' = Some wk''" "[0] = us @ zs" "worker_inv wk'' zs ([1..<NR_MAX_PARALLEL_IO] @ us)" "\<forall>x\<in>set zs. io_clock 0 < tgt wk x \<and> tgt wk'' x = tgt wk x"
    unfolding list.size add_0 One_nat_def [symmetric] by blast
  have "tgt wk 0 = w_nsecs_target (hd (requests wk [0]))" by (simp add: requests_def tgt_def)
  then have "tgt wk 0 = 700" using w(6,7) by simp
  then have z: "zs = []" "us = [0]" using p(6,8) by (cases us; auto simp: io_clock_def)+
  have c: "deref (d_cqes d1) 1 = Some io_cq" "ring_ok io_cq" using copy_all_same [OF p(1)] by (simp_all add: io_example_def deref_def rd_def io_cq_def ring_ok_def)
  have "fill_cq_result r d1 = Some d2" using p(2) w(10) by (simp add: post_all_def)
  moreover have "fill_cq_result r d1 = Some (d1\<lparr>d_cqes := (d_cqes d1)[1 := Some (cq_push r io_cq)]\<rparr>)" using fill_cq_push [of d1 r io_cq] c w(11) by simp
  ultimately have "deref (d_cqes d2) 1 = Some (cq_push r io_cq)" using c(1) by (auto simp: deref_eq)
  moreover have "cqe_command_id (cq_entries (cq_push r io_cq) ! 3) = 9" using w(12) by (simp add: cq_push_def cqe_of_def io_cq_def u16_def)
  moreover have "worker_inv wk'' [] ([1..<NR_MAX_PARALLEL_IO] @ [0])" using p(7) unfolding z .
  ultimately show ?thesis using w(1) p(1,2) [folded w(6)] p(3-5) by blast
qed

theorem worker_always_serves_witness:
  "\<exists>wk k' wk' d' xs ys. work_serve (\<lambda>_. True) (\<lambda>_. True) SSD_TYPE_FDP 1 1 io_clock (0, io_worker_init 0 0, io_example) (Enqueue 1 1 0 9 500 510 io_blank) = Some (0, wk, io_example) \<and>
     work_serve (\<lambda>_. True) (\<lambda>_. True) SSD_TYPE_FDP 1 1 io_clock (0, wk, io_example) Iterate = Some (k', wk', d') \<and>
     worker_inv wk' xs ys \<and> queue_ok d' wk' xs"
proof -
  let ?T = "\<lambda>_::nat. True" and ?s = "(0, io_worker_init (0::nat) 0, io_example)" and ?op = "Enqueue 1 1 0 9 500 510 io_blank"
  obtain wk where "enqueue_io_req 1 1 0 9 500 510 io_blank (io_worker_init (0::nat) 0) = Some wk" using example_queued by blast
  then have q: "work_serve ?T ?T SSD_TYPE_FDP 1 1 io_clock ?s ?op = Some (0, wk, io_example)" by simp
  have h: "work_host ?s ?op" using example_io_ok [of "io_work 9 0"] by (simp add: io_ok_def io_work_def split: option.splits)
  have l: "1 < length (d_cqes io_example)" by (simp add: io_example_def)
  have "(device_step work_host (work_serve ?T ?T SSD_TYPE_FDP 1 1 io_clock))\<^sup>*\<^sup>* ?s (0, wk, io_example)"
    using device_stepI [where host = work_host and serve = "work_serve ?T ?T SSD_TYPE_FDP 1 1 io_clock", OF h q] by blast
  from worker_always_serves [OF _ io_clock_ok l this, of Iterate] q show ?thesis by (auto simp del: work_serve.simps)
qed

section \<open>Data\<close>

text \<open>C16: What a write copies into the namespace, a read of the same blocks copies out again: byte
  for byte the buffer that the read's page addresses describe receives the buffer that the write's
  page addresses describe (in the sense of the NVMe page lists), and no other byte of the host's
  memory changes. The host's memory is mapped by the kernel, pages after the first are aligned, and
  the read's buffer does not overlap itself or its page list.\<close>

theorem copy_round_trip:
  assumes pv: "\<forall>a. pfn_valid a" and sq: "deref (d_sqes d) q = Some sq" "i < length (sq_entries sq)" "j < length (sq_entries sq)"
    and cmds: "sq_entries sq ! i = cw" "sq_entries sq ! j = cr"
    and ops: "rw_opcode cw = nvme_cmd_write \<or> rw_opcode cw = nvme_cmd_zone_append" "rw_opcode cr = nvme_cmd_read"
    and same: "rw_nsid cr = rw_nsid cw" "rw_slba cr = rw_slba cw" "rw_length cr = rw_length cw"
    and ns: "u32_sub (rw_nsid cw) 1 < length (d_ns d)" "cmd_io_offset cw + cmd_io_size cw \<le> na_size (d_ns d ! u32_sub (rw_nsid cw) 1)"
    and prp: "prp_ok cw (cmd_io_size cw) (d_mem d)" "prp_ok cr (cmd_io_size cr) (d_mem d)" "prp_apart cr (cmd_io_size cr) (d_mem d)"
  shows "\<exists>d1 d2. do_perform_io pfn_valid memremap q i d = Some (u32 (cmd_io_size cw), d1) \<and>
     do_perform_io pfn_valid memremap q j d1 = Some (u32 (cmd_io_size cw), d2) \<and>
     (\<forall>k<cmd_io_size cw. d_mem d2 (prp_byte cr (cmd_io_size cr) (d_mem d) k) = d_mem d (prp_byte cw (cmd_io_size cw) (d_mem d) k)) \<and>
     (\<forall>a. a \<notin> prp_byte cr (cmd_io_size cr) (d_mem d) ` {..<cmd_io_size cw} \<longrightarrow> d_mem d2 a = d_mem d a)"
proof -
  define n where n: "n = u32_sub (rw_nsid cw) 1"
  note ns = ns [folded n]
  let ?m = "d_mem d" and ?off = "cmd_io_offset cw" and ?len = "cmd_io_size cw"
  have sz: "cmd_io_size cr = ?len" "cmd_io_offset cr = ?off" using same by (simp_all add: cmd_io_size_def cmd_io_offset_def)
  have st: "prp_start c 0 = 0" "prp_list c 0 = None" for c by (simp_all add: prp_start_def prp_list_def)
  let ?f = "mem_write ?off (map (\<lambda>k. ?m (prp_byte cw (cmd_io_size cw) ?m k)) [0..<?len]) (na_bytes (d_ns d ! n))"
  let ?d1 = "put_ns n ?f d"
  have "perform_loop pfn_valid memremap cw n 0 0 None (?len - prp_start cw 0) (?off + prp_start cw 0) d =
      Some (put_ns n (mem_write (?off + prp_start cw 0) (map (\<lambda>k. ?m (prp_byte cw (cmd_io_size cw) ?m k)) [prp_start cw 0..<?len]) (na_bytes (d_ns d ! n))) d)"
    by (rule perform_write [of cw pfn_valid]) (use ops pv prp ns st in auto)
  then have w: "do_perform_io pfn_valid memremap q i d = Some (u32 ?len, ?d1)" using sq cmds st n by (simp add: do_perform_io_def)
  note pn = put_ns_put_ns [OF ns(1)]
  have "\<exists>m'. perform_loop pfn_valid memremap cr n 0 0 None (cmd_io_size cr - prp_start cr 0) (?off + prp_start cr 0) ?d1 = Some (?d1\<lparr>d_mem := m'\<rparr>) \<and>
      filled cr (cmd_io_size cr) ?m (\<lambda>k. na_bytes (d_ns ?d1 ! n) (?off + k)) (prp_start cr 0) (cmd_io_size cr) (d_mem ?d1) m'"
    by (rule perform_read [of cr pfn_valid]) (use ops pv prp ns st sz in \<open>auto simp: pn same_list_def\<close>)
  then obtain m' where m': "perform_loop pfn_valid memremap cr n 0 0 None ?len ?off ?d1 = Some (?d1\<lparr>d_mem := m'\<rparr>)"
    "filled cr (cmd_io_size cr) ?m (\<lambda>k. ?f (?off + k)) 0 ?len ?m m'" unfolding sz st by (auto simp: pn)
  have r: "do_perform_io pfn_valid memremap q j ?d1 = Some (u32 ?len, ?d1\<lparr>d_mem := m'\<rparr>)"
    using sq cmds m'(1) sz same n by (simp add: do_perform_io_def put_ns_def)
  have "m' (prp_byte cr (cmd_io_size cr) ?m k) = ?m (prp_byte cw (cmd_io_size cw) ?m k)" if "k < ?len" for k
    using m'(2) that by (simp add: filled_def mem_write_def)
  moreover have "m' a = ?m a" if "a \<notin> prp_byte cr (cmd_io_size cr) ?m ` {..<?len}" for a
  proof -
    have "\<forall>k. 0 \<le> k \<and> k < ?len \<longrightarrow> a \<noteq> prp_byte cr (cmd_io_size cr) ?m k" using that by auto
    then show ?thesis using m'(2) unfolding filled_def by blast
  qed
  ultimately show ?thesis using w r by (intro exI [of _ ?d1] exI [of _ "?d1\<lparr>d_mem := m'\<rparr>"]) simp
qed

theorem copy_round_trip_witness:
  "\<exists>d1 d2. do_perform_io (\<lambda>_. True) (\<lambda>_. True) 1 0 io_example = Some (8192, d1) \<and> do_perform_io (\<lambda>_. True) (\<lambda>_. True) 1 1 d1 = Some (8192, d2) \<and>
     d_mem d2 20481 = d_mem io_example 8193"
proof -
  let ?w = "rw_cmd nvme_cmd_write 8 15 4096 8192" and ?r = "rw_cmd nvme_cmd_read 8 15 16384 20480" and ?m = "d_mem io_example"
  have n: "cmd_io_size ?w = 8192" "cmd_io_size ?r = 8192" "prp_first ?w = 4096" "prp_first ?r = 4096" "u32 8192 = 8192" "\<not> prp_listed ?w (cmd_io_size ?w)" "\<not> prp_listed ?r (cmd_io_size ?r)"
    by (simp_all add: cmd_io_size_def rw_cmd_def prp_first_def PAGE_SIZE_def prp_listed_def u32_def)
  have b: "prp_byte ?w (cmd_io_size ?w) ?m k = (if k < 4096 then 4096 + k else 8192 + (k - 4096))"
    "prp_byte ?r (cmd_io_size ?r) ?m k = (if k < 4096 then 16384 + k else 20480 + (k - 4096))" for k
    unfolding prp_byte_def using n by (simp_all add: rw_cmd_def Let_def)
  have ap: "prp_apart ?r (cmd_io_size ?r) ?m" unfolding prp_apart_def inj_on_def b using n(7) by (auto split: if_splits)
  have ok: "prp_ok ?w (cmd_io_size ?w) ?m" "prp_ok ?r (cmd_io_size ?r) ?m" unfolding prp_ok_def using n by (simp_all add: rw_cmd_def PAGE_SIZE_def)
  have "\<exists>d1 d2. do_perform_io (\<lambda>_. True) (\<lambda>_. True) 1 0 io_example = Some (u32 (cmd_io_size ?w), d1) \<and>
     do_perform_io (\<lambda>_. True) (\<lambda>_. True) 1 1 d1 = Some (u32 (cmd_io_size ?w), d2) \<and>
     (\<forall>k<cmd_io_size ?w. d_mem d2 (prp_byte ?r (cmd_io_size ?r) ?m k) = ?m (prp_byte ?w (cmd_io_size ?w) ?m k)) \<and>
     (\<forall>a. a \<notin> prp_byte ?r (cmd_io_size ?r) ?m ` {..<cmd_io_size ?w} \<longrightarrow> d_mem d2 a = ?m a)"
    by (rule copy_round_trip [of "\<lambda>_. True" io_example 1 io_sq 0 1 ?w ?r]) (use ok ap in \<open>simp_all add: io_example_def deref_def rd_def io_sq_def\<close>,
       simp_all add: rw_cmd_def cmd_io_size_def cmd_io_offset_def u64_def u32_def u32_sub_def)
  then obtain d1 d2 where d: "do_perform_io (\<lambda>_. True) (\<lambda>_. True) 1 0 io_example = Some (8192, d1)"
     "do_perform_io (\<lambda>_. True) (\<lambda>_. True) 1 1 d1 = Some (8192, d2)"
     "\<forall>k<8192. d_mem d2 (if k < 4096 then 16384 + k else 20480 + (k - 4096)) = ?m (if k < 4096 then 4096 + k else 8192 + (k - 4096))"
    unfolding b unfolding n by blast
  have "d_mem d2 20481 = ?m 8193" using spec [OF d(3), of 4097] by simp
  then show ?thesis using d(1,2) by blast
qed

section \<open>Completions\<close>

lemma u16_status: "p \<le> 1 \<Longrightarrow> u16 (Bit_Operations.or p (u32 (s * 2))) = u16 (2 * s + p)"
proof -
  assume p: "p \<le> 1"
  obtain h where h: "u32 (s * 2) = 2 * h" "s * 2 = 2 * h + 4294967296 * (s * 2 div 4294967296)"
  proof -
    have "u32 (s * 2) = 2 * (s mod 2147483648)" by (simp add: u32_def mult.commute [of s 2] mult_mod_right)
    moreover have "s * 2 = u32 (s * 2) + 4294967296 * (s * 2 div 4294967296)" unfolding u32_def by (rule mod_mult_div_eq [symmetric])
    ultimately show ?thesis using that by metis
  qed
  have "2 * s + p = (2 * h + p) + 65536 * (65536 * (s * 2 div 4294967296))" using h(2) by simp
  then have "u16 (2 * s + p) = u16 (2 * h + p)" unfolding u16_def by (metis mod_mult_self2)
  then show ?thesis using or_phase [OF p] h(1) by simp
qed

text \<open>The state of a ring after \<open>n\<close> completions.\<close>

definition ring_after :: "nvmev_completion_queue \<Rightarrow> 'b nvmev_io_work list \<Rightarrow> nvmev_completion_queue \<Rightarrow> bool" where
  "ring_after cq ws cq' \<longleftrightarrow> ring_ok cq' \<and> cq_queue_size cq' = cq_queue_size cq \<and>
     cq_head cq' = (cq_head cq + length ws) mod cq_queue_size cq \<and>
     cq_phase cq' = (cq_phase cq + (cq_head cq + length ws) div cq_queue_size cq) mod 2 \<and>
     (length ws \<le> cq_queue_size cq \<longrightarrow> (\<forall>j<length ws.
        cq_entries cq' ! ((cq_head cq + j) mod cq_queue_size cq) =
          \<lparr>cqe_result0 = w_result0 (ws ! j), cqe_result1 = w_result1 (ws ! j), cqe_sq_head = u16 (w_sq_entry (ws ! j)),
            cqe_sq_id = u16 (w_sqid (ws ! j)), cqe_command_id = u16 (w_command_id (ws ! j)),
            cqe_status = u16 (2 * w_status (ws ! j) + (cq_phase cq + (cq_head cq + j) div cq_queue_size cq) mod 2)\<rparr>))"

lemma mod_neq:
  assumes "i < j" "j < i + (n::nat)" shows "i mod n \<noteq> j mod n"
proof
  assume "i mod n = j mod n"
  then have "n dvd j - i" using assms(1) by (metis mod_eq_dvd_iff_nat less_imp_le)
  moreover have "0 < j - i" "j - i < n" using assms by linarith+
  ultimately show False by (meson dvd_imp_le not_le)
qed

lemma ring_step:
  assumes n: "0 < (n::nat)"
  shows "(if a mod n + 1 = n then 0 else a mod n + 1) = (a + 1) mod n" "(a + 1) div n = (if a mod n + 1 = n then a div n + 1 else a div n)"
proof -
  show "(if a mod n + 1 = n then 0 else a mod n + 1) = (a + 1) mod n" by (simp add: mod_Suc)
  then have "(a + 1) mod n = 0 \<longleftrightarrow> a mod n + 1 = n" by (metis add_is_0 zero_neq_one)
  then show "(a + 1) div n = (if a mod n + 1 = n then a div n + 1 else a div n)" using div_Suc [of a n] by simp
qed

lemma ring_after_push:
  assumes "ring_ok cq" "ring_after cq ws cq'"
  shows "ring_after cq (ws @ [w]) (cq_push w cq')"
proof -
  let ?n = "cq_queue_size cq" and ?h = "cq_head cq" and ?p = "cq_phase cq"
  note r = assms(2) [unfolded ring_after_def]
  let ?a = "?h + length ws"
  have n: "0 < ?n" using assms(1) by (auto simp: ring_ok_def)
  have hd: "cq_head cq' = ?a mod ?n" "cq_phase cq' = (?p + ?a div ?n) mod 2" "cq_queue_size cq' = ?n" "ring_ok cq'" "length (cq_entries cq') = ?n"
    using r by (auto simp: ring_ok_def)
  note st = ring_step [OF n, of ?a]
  have "cq_head (cq_push w cq') = (if ?a mod ?n + 1 = ?n then 0 else ?a mod ?n + 1)" using hd by (simp add: cq_push_def)
  then have "cq_head (cq_push w cq') = (?h + length (ws @ [w])) mod ?n" unfolding st(1) by simp
  moreover have "cq_phase (cq_push w cq') = (?p + (?h + length (ws @ [w])) div ?n) mod 2"
    using st(2) hd by (auto simp: cq_push_def mod_Suc)
  moreover have "cq_entries (cq_push w cq') ! ((?h + j) mod ?n) =
      \<lparr>cqe_result0 = w_result0 ((ws @ [w]) ! j), cqe_result1 = w_result1 ((ws @ [w]) ! j), cqe_sq_head = u16 (w_sq_entry ((ws @ [w]) ! j)),
        cqe_sq_id = u16 (w_sqid ((ws @ [w]) ! j)), cqe_command_id = u16 (w_command_id ((ws @ [w]) ! j)),
        cqe_status = u16 (2 * w_status ((ws @ [w]) ! j) + (?p + (?h + j) div ?n) mod 2)\<rparr>"
    if l: "length (ws @ [w]) \<le> ?n" and j: "j < length (ws @ [w])" for j
  proof (cases "j = length ws")
    case True
    have "(?p + ?a div ?n) mod 2 \<le> 1" by linarith
    then show ?thesis using True hd n u16_status by (simp add: cq_push_def cqe_of_def)
  next
    case False
    then have k: "j < length ws" using j by simp
    have "(?h + j) mod ?n \<noteq> ?a mod ?n" by (rule mod_neq) (use k l in auto)
    then have "cq_entries (cq_push w cq') ! ((?h + j) mod ?n) = cq_entries cq' ! ((?h + j) mod ?n)" using hd by (simp add: cq_push_def)
    then show ?thesis using r l k by (simp add: nth_append)
  qed
  ultimately show ?thesis using ring_ok_push [OF hd(4)] hd(3) unfolding ring_after_def by (simp add: cq_push_def)
qed

text \<open>C17: The completions that the workers post to a completion queue fill its ring in order: after
  \<open>n\<close> of them the head has advanced by \<open>n\<close> modulo the size, the phase has flipped once per lap, and
  (up to one lap) slot after slot holds the identifiers, status and result of its request under the
  phase tag of its lap, by which the host recognises new entries.\<close>

theorem completion_ring:
  assumes "deref (d_cqes d) c = Some cq" "ring_ok cq" "\<forall>w\<in>set ws. w_cqid w = c"
  shows "\<exists>d' cq'. foldM fill_cq_result ws d = Some d' \<and> deref (d_cqes d') c = Some cq' \<and> ring_after cq ws cq' \<and>
     d_sqes d' = d_sqes d \<and> d_ns d' = d_ns d \<and> d_mem d' = d_mem d"
  using assms(3)
proof (induction ws rule: rev_induct)
  case Nil
  have "ring_after cq [] cq" using assms(2) by (auto simp: ring_after_def ring_ok_def)
  then show ?case using assms(1) by (intro exI [of _ d] exI [of _ cq]) simp
next
  case (snoc w ws)
  obtain d1 cq1 where i: "foldM fill_cq_result ws d = Some d1" "deref (d_cqes d1) c = Some cq1" "ring_after cq ws cq1"
    "d_sqes d1 = d_sqes d" "d_ns d1 = d_ns d" "d_mem d1 = d_mem d" using snoc by auto
  have w: "w_cqid w = c" using snoc.prems by simp
  let ?d = "d1\<lparr>d_cqes := (d_cqes d1)[c := Some (cq_push w cq1)]\<rparr>"
  have "ring_ok cq1" using i(3) by (simp add: ring_after_def)
  then have "fill_cq_result w d1 = Some ?d" using fill_cq_push [of d1 w cq1] i(2) w by simp
  then have "foldM fill_cq_result (ws @ [w]) d = Some ?d" using i(1) by simp
  moreover have "deref (d_cqes ?d) c = Some (cq_push w cq1)" using i(2) by (simp add: deref_eq)
  moreover have "ring_after cq (ws @ [w]) (cq_push w cq1)" by (rule ring_after_push [OF assms(2) i(3)])
  ultimately show ?case using i(4-6) by (intro exI [of _ ?d] exI [of _ "cq_push w cq1"]) simp
qed

theorem completion_ring_witness:
  "\<exists>d' cq'. foldM fill_cq_result [io_work 7 0, io_work 8 0] io_example = Some d' \<and> deref (d_cqes d') 1 = Some cq' \<and>
     cq_head cq' = 1 \<and> cq_phase cq' = 0 \<and> cqe_command_id (cq_entries cq' ! 0) = 8"
proof -
  have c: "deref (d_cqes io_example) 1 = Some io_cq" "ring_ok io_cq" by (simp_all add: io_example_def deref_def rd_def io_cq_def ring_ok_def)
  have "\<forall>w\<in>set [io_work 7 0, io_work 8 0]. w_cqid w = 1" by (simp add: io_work_def)
  from completion_ring [OF c this] obtain d' cq' where r: "foldM fill_cq_result [io_work 7 0, io_work 8 0] io_example = Some d'"
    "deref (d_cqes d') 1 = Some cq'" "ring_after io_cq [io_work 7 0, io_work 8 0] cq'" by blast
  have q: "cq_queue_size io_cq = 4" "cq_head io_cq = 3" "cq_phase io_cq = 1" by (simp_all add: io_cq_def)
  note s = r(3) [unfolded ring_after_def q]
  have "\<forall>j<2. cqe_command_id (cq_entries cq' ! ((3 + j) mod 4)) = u16 (w_command_id ([io_work 7 0, io_work 8 0] ! j))" using s by simp
  then have "cqe_command_id (cq_entries cq' ! ((3 + 1) mod 4)) = u16 (w_command_id ([io_work 7 0, io_work 8 0] ! 1))" by (metis one_less_numeral_iff semiring_norm(76))
  then have "cqe_command_id (cq_entries cq' ! 0) = 8" by (simp add: io_work_def u16_def)
  then show ?thesis using r(1,2) s by auto
qed

text \<open>On an FDP device no sequence of operations of the queues, whatever internal operations it
  completes, ever changes a write buffer: the release of the space that \<open>fdp_write\<close> took is compiled
  for conventional and zoned devices only.\<close>

theorem fdp_buffer_never_released:
  assumes "\<forall>a. pfn_valid a" "clock_ok clk" "nr_cq < length (d_cqes d)"
    and "(device_step work_host (work_serve pfn_valid memremap SSD_TYPE_FDP nrw nr_cq clk))\<^sup>*\<^sup>* (k, io_worker_init null wid, d) s"
  shows "d_buffers (snd (snd s)) = d_buffers d"
proof -
  have "work_inv pfn_valid nr_cq clk (k, io_worker_init null wid, d)" by (rule work_init_inv) (use assms(1-3) in simp_all)
  from iow.reach_inv [OF assms(4) this] show ?thesis by (simp add: work_kept_def)
qed

theorem fdp_buffer_never_released_witness:
  "\<exists>s1 s2. work_serve (\<lambda>_. True) (\<lambda>_. True) SSD_TYPE_FDP 1 1 io_clock (0, io_worker_init 0 0, io_example) (Internal 1 700 0 4096 510) = Some s1 \<and>
     work_serve (\<lambda>_. True) (\<lambda>_. True) SSD_TYPE_FDP 1 1 io_clock s1 Iterate = Some s2 \<and> d_buffers (snd (snd s2)) = d_buffers io_example"
proof -
  let ?s0 = "(0, io_worker_init 0 0, io_example)" and ?T = "\<lambda>_::nat. True"
  have l: "1 < length (d_cqes io_example)" by (simp add: io_example_def)
  have i: "work_inv ?T 1 io_clock ?s0" by (rule work_init_inv [OF _ io_clock_ok l]) simp
  obtain s1 where s1: "work_serve ?T ?T SSD_TYPE_FDP 1 1 io_clock ?s0 (Internal 1 700 0 4096 510) = Some s1" "work_inv ?T 1 io_clock s1"
    using work_answers [OF i, of "Internal 1 700 0 4096 510" ?T SSD_TYPE_FDP 1] by (metis work_host.simps(2))
  obtain s2 where s2: "work_serve ?T ?T SSD_TYPE_FDP 1 1 io_clock s1 Iterate = Some s2" using work_answers [OF s1(2), of Iterate ?T SSD_TYPE_FDP 1] by (cases s1) auto
  have h: "work_host ?s0 (Internal 1 700 0 4096 510)" "work_host s1 Iterate" by (simp, cases s1, simp)
  have "(device_step work_host (work_serve ?T ?T SSD_TYPE_FDP 1 1 io_clock))\<^sup>*\<^sup>* ?s0 s2"
    using device_stepI [where host = work_host and serve = "work_serve ?T ?T SSD_TYPE_FDP 1 1 io_clock", OF h(1) s1(1)]
      device_stepI [where host = work_host and serve = "work_serve ?T ?T SSD_TYPE_FDP 1 1 io_clock", OF h(2) s2] by (meson converse_rtranclp_into_rtranclp rtranclp.rtrancl_refl)
  from fdp_buffer_never_released [OF _ io_clock_ok l this] have "d_buffers (snd (snd s2)) = d_buffers io_example" by simp
  then show ?thesis using s1(1) s2 by blast
qed

section \<open>Doorbells\<close>

text \<open>C18: Ringing the tail of a submission queue runs the namespace's handler over the commands between
  the old and the new tail, in the order of the ring and around its end, once each, with the clock's
  time at each of them, up to and including the first one that the handler refuses. The position
  returned is the old one advanced by the number of accepted commands; it is the new tail when all
  are accepted. Each entry that was handled holds the command the handler left and no other entry
  changes; the counters advance by the number and the bytes of the accepted commands. The worker of
  the queue gets, besides the tasks it had, exactly the internal operations the handler scheduled and
  one request per accepted command, with its entry, its identifier and the handler's result, provided
  it has more free entries than that; no other worker gets a task. The handler honours the contract
  \<open>namespace_handler\<close>, as the handler of an FDP namespace does, and the commands of the ring are
  admissible for it and name existing namespaces.\<close>

theorem submission_doorbell:
  assumes h: "namespace_handler hinv adm proc_io_cmd" "hinv h0" and sq: "deref (d_sqes d) sqid = Some sq" "sq_ok (length (d_ns d)) (sq_queue_size sq) sq"
      "\<forall>c\<in>set (sq_entries sq). adm c"
    and wks: "workers_ok wks" and db: "old_db < sq_queue_size sq" "new_db < sq_queue_size sq"
    and st: "nr_dispatched (sq_stat sq) < 4294967296" "nr_in_flight (sq_stat sq) < 4294967296" "total_io (sq_stat sq) < 18446744073709551616"
  shows "\<exists>os h' wks' sq'. (let qs = sq_queue_size sq; n = ring_dist qs old_db new_db; m = accepted os in
     handler_run proc_io_cmd clk sqid 0 (map (\<lambda>i. sq_entries sq ! ((old_db + i) mod qs)) [0..<n]) h0 = Some (os, h') \<and>
     nvmev_proc_io_sq proc_io_cmd clk sqid new_db old_db (d, wks, h0) =
       Some ((old_db + m) mod qs, d\<lparr>d_sqes := (d_sqes d)[sqid := Some sq']\<rparr>, wks', h') \<and> hinv h' \<and>
     m \<le> n \<and> (if m = n then (old_db + m) mod qs = new_db else length os = Suc m \<and> \<not> fst (last os)) \<and>
     (\<forall>i<length os. sq_entries sq' ! ((old_db + i) mod qs) = fst (snd (os ! i))) \<and>
     (\<forall>j<qs. (\<forall>i<length os. j \<noteq> (old_db + i) mod qs) \<longrightarrow> sq_entries sq' ! j = sq_entries sq ! j) \<and>
     nr_dispatched (sq_stat sq') = u32 (nr_dispatched (sq_stat sq) + m) \<and> nr_in_flight (sq_stat sq') = u32 (nr_in_flight (sq_stat sq) + m) \<and>
     total_io (sq_stat sq') = u64 (total_io (sq_stat sq) + accepted_bytes os) \<and> nr_dispatch (sq_stat sq') = u32 (nr_dispatch (sq_stat sq) + 1) \<and>
     gained (get_io_worker (length wks) sqid) (new_tasks qs sqid (sq_cqid sq) clk 0 old_db os) wks wks')"
proof -
  let ?qs = "sq_queue_size sq" and ?n = "ring_dist (sq_queue_size sq) old_db new_db"
  obtain os h' wks' where r: "handler_run proc_io_cmd clk sqid 0 (ring_cmds ?qs old_db ?n sq) h0 = Some (os, h')"
     "nvmev_proc_io_sq proc_io_cmd clk sqid new_db old_db (d, wks, h0) =
        Some ((old_db + accepted os) mod ?qs, d\<lparr>d_sqes := (d_sqes d)[sqid := Some (dispatched (sq_after ?qs old_db os sq))]\<rparr>, wks', h')"
     "hinv h'" "length os \<le> ?n" "accepted os \<le> ?n" "accepted os < ?n \<longrightarrow> length os = Suc (accepted os) \<and> \<not> fst (last os)"
     "gained (get_io_worker (length wks) sqid) (new_tasks ?qs sqid (sq_cqid sq) clk 0 old_db os) wks wks'"
    using namespace_handler.proc_io_sq_run [OF h sq wks db, of clk] by blast
  have rd: "?n < ?qs" "(old_db + ?n) mod ?qs = new_db" using ring_dist_less [OF db] by blast+
  have len: "length (sq_entries sq) = ?qs" using sq(2) by (simp add: sq_ok_def)
  let ?sq = "sq_after ?qs old_db os sq"
  have e: "\<forall>i<length os. sq_entries ?sq ! ((old_db + i) mod ?qs) = fst (snd (os ! i))"
     "\<forall>j<?qs. (\<forall>i<length os. j \<noteq> (old_db + i) mod ?qs) \<longrightarrow> sq_entries ?sq ! j = sq_entries sq ! j"
    using sq_after_entries [OF db(1) le_less_trans [OF r(4) rd(1)] len] by blast+
  have c: "nr_dispatched (sq_stat ?sq) = u32 (nr_dispatched (sq_stat sq) + accepted os)" "nr_in_flight (sq_stat ?sq) = u32 (nr_in_flight (sq_stat sq) + accepted os)"
     "total_io (sq_stat ?sq) = u64 (total_io (sq_stat sq) + accepted_bytes os)"
    using sq_after_stat(5-7) [of ?qs old_db os sq] sq_after_small [of sq ?qs old_db os] st by (simp_all add: u32_id u64_id)
  have l: "if accepted os = ?n then (old_db + accepted os) mod ?qs = new_db else length os = Suc (accepted os) \<and> \<not> fst (last os)"
    using r(5,6) rd(2) by auto
  show ?thesis
    unfolding Let_def ring_cmds_def [symmetric]
    by (intro exI [of _ os] exI [of _ h'] exI [of _ wks'] exI [of _ "dispatched ?sq"] conjI r l) (use e c sq_after_stat(3) [of ?qs old_db os sq] in \<open>simp_all add: dispatched_def\<close>)
qed

text \<open>A queue pair in front of the FDP device of 1 GiB; its ring holds a write, a read and two flushes.\<close>

lemma fdp_example:
  "\<exists>sp ns e. fdp_init_namespace (replicate 129 0) samsung_fdp 1 (GB 1) 0 fdp_ctx_static = Some (ns, e) \<and>
     fdp_io_inv (100 * pgs_per_line sp) sp 4 (ns, e) \<and> (\<forall>c\<in>set (sq_entries io_sq). fdp_io_adm (100 * pgs_per_line sp) sp 4 c)"
proof -
  obtain sp ns e where d: "fdp_init_namespace (replicate 129 0) samsung_fdp 1 (GB 1) 0 fdp_ctx_static = Some (ns, e)" "ns_nr_parts ns = 4"
     "7 div 4 < 100 * pgs_per_line sp" "dev_inv (100 * pgs_per_line sp) sp (ns, e)" using sample_device by blast
  have "1 < 100 * pgs_per_line sp" using d(3) by (cases "pgs_per_line sp") auto
  moreover have "23 div secs_per_pg sp div 4 \<le> 23 div 4" by (metis div_le_dividend div_le_mono)
  ultimately have l: "23 div secs_per_pg sp div 4 < 100 * pgs_per_line sp" using d(3) by (cases "pgs_per_line sp") auto
  have "\<forall>c\<in>set (sq_entries io_sq). fdp_io_adm (100 * pgs_per_line sp) sp 4 c"
    using l by (simp add: io_sq_def rw_cmd_def fdp_io_adm_def host_req_def cmd_last_def nvme_consts nvme_rw_command.defs u64_id u64_sub_id)
  then show ?thesis using d by (intro exI [of _ sp] exI [of _ ns] exI [of _ e]) (simp add: fdp_io_inv_def)
qed

lemma example_ring:
  "deref (d_sqes io_example) 1 = Some io_sq" "sq_ok (length (d_ns io_example)) (sq_queue_size io_sq) io_sq" "workers_ok [io_worker_init (0::nat) 0]"
proof -
  show "deref (d_sqes io_example) 1 = Some io_sq" "sq_ok (length (d_ns io_example)) (sq_queue_size io_sq) io_sq"
    by (simp_all add: io_example_def deref_def rd_def sq_ok_def io_sq_def rw_cmd_def u32_sub_def u32_def)
  show "workers_ok [io_worker_init (0::nat) 0]" using io_worker_init_ok [of "0::nat" 0] by (auto simp: workers_ok_def worker_ok_def)
qed

theorem submission_doorbell_witness:
  "\<exists>ns e os h' wks' sq'. fdp_init_namespace (replicate 129 0) samsung_fdp 1 (GB 1) 0 fdp_ctx_static = Some (ns, e) \<and>
     handler_run (fdp_io_handler (\<lambda>_. 500) (0::nat)) (\<lambda>_. 500) 1 0 [rw_cmd nvme_cmd_flush 0 0 0 0, rw_cmd nvme_cmd_write 8 15 4096 8192] (ns, e) = Some (os, h') \<and>
     nvmev_proc_io_sq (fdp_io_handler (\<lambda>_. 500) 0) (\<lambda>_. 500) 1 1 3 (io_example, [io_worker_init 0 0], ns, e) =
       Some ((3 + accepted os) mod 4, io_example\<lparr>d_sqes := (d_sqes io_example)[1 := Some sq']\<rparr>, wks', h') \<and>
     nr_in_flight (sq_stat sq') = u32 (2 + accepted os)"
proof -
  obtain sp ns e where f: "fdp_init_namespace (replicate 129 0) samsung_fdp 1 (GB 1) 0 fdp_ctx_static = Some (ns, e)"
     "fdp_io_inv (100 * pgs_per_line sp) sp 4 (ns, e)" "\<forall>c\<in>set (sq_entries io_sq). fdp_io_adm (100 * pgs_per_line sp) sp 4 c" using fdp_example by blast
  have q: "3 < sq_queue_size io_sq" "1 < sq_queue_size io_sq" "nr_dispatched (sq_stat io_sq) < 4294967296" "nr_in_flight (sq_stat io_sq) < 4294967296"
    "total_io (sq_stat io_sq) < 18446744073709551616" "sq_queue_size io_sq = 4" "nr_in_flight (sq_stat io_sq) = 2" by (simp_all add: io_sq_def)
  have cs: "map (\<lambda>i. sq_entries io_sq ! ((3 + i) mod 4)) [0..<ring_dist 4 3 1] = [rw_cmd nvme_cmd_flush 0 0 0 0, rw_cmd nvme_cmd_write 8 15 4096 8192]"
    by (simp add: ring_dist_def io_sq_def upt_rec)
  obtain os h' wks' sq' where "handler_run (fdp_io_handler (\<lambda>_. 500) (0::nat)) (\<lambda>_. 500) 1 0 [rw_cmd nvme_cmd_flush 0 0 0 0, rw_cmd nvme_cmd_write 8 15 4096 8192] (ns, e) = Some (os, h')"
     "nvmev_proc_io_sq (fdp_io_handler (\<lambda>_. 500) 0) (\<lambda>_. 500) 1 1 3 (io_example, [io_worker_init 0 0], ns, e) =
       Some ((3 + accepted os) mod 4, io_example\<lparr>d_sqes := (d_sqes io_example)[1 := Some sq']\<rparr>, wks', h')" "nr_in_flight (sq_stat sq') = u32 (2 + accepted os)"
    using submission_doorbell [OF fdp_io.namespace_handler_axioms f(2) example_ring(1,2) f(3) example_ring(3) q(1-5), of "\<lambda>_. 500" 0 "\<lambda>_. 500"]
    unfolding q(6,7) Let_def cs by blast
  then show ?thesis using f(1) by blast
qed

text \<open>Ringing the head of a completion queue takes the completions that the host has consumed,
  around the end of the ring if need be, off the in-flight counters: each submission queue's counter
  falls by the number of its completions among them. The loop ends for positions inside the ring.\<close>

theorem completion_doorbell:
  assumes cq: "deref (d_cqes d) cqid = Some cq" "length (cq_entries cq) = cq_queue_size cq"
    and ids: "\<forall>e\<in>set (cq_entries cq). cqe_sq_id e < length (d_sqes d)" and db: "old_db < cq_queue_size cq" "new_db < cq_queue_size cq"
    and sq: "deref (d_sqes d) q = Some sq" "nr_in_flight (sq_stat sq) < 4294967296"
      "count_list (map (\<lambda>i. cqe_sq_id (cq_entries cq ! i)) (consumed (cq_queue_size cq) old_db new_db)) q \<le> nr_in_flight (sq_stat sq)"
  shows "\<exists>d'. nvmev_proc_io_cq cqid (int new_db) (int old_db) d = Some d' \<and>
     deref (d_sqes d') q = Some (sq\<lparr>sq_stat := (sq_stat sq)\<lparr>nr_in_flight := nr_in_flight (sq_stat sq) -
       count_list (map (\<lambda>i. cqe_sq_id (cq_entries cq ! i)) (consumed (cq_queue_size cq) old_db new_db)) q\<rparr>\<rparr>)"
proof -
  let ?c = "consumed (cq_queue_size cq) old_db new_db" and ?id = "\<lambda>i. cqe_sq_id (cq_entries cq ! i)"
  let ?d = "d\<lparr>d_sqes := fold take_off (map ?id ?c) (d_sqes d)\<rparr>"
  have "fold (\<lambda>i. take_off (?id i)) ?c = fold take_off (map ?id ?c)" by (simp add: fold_map comp_def)
  then have "proc_cq_loop cqid (int new_db) (int old_db) d = Some ?d" using proc_cq_loop_ok [OF cq _ db] ids by simp
  then obtain d' where "nvmev_proc_io_cq cqid (int new_db) (int old_db) d = Some d'" "d_sqes d' = d_sqes ?d"
    using cq(1) by (simp add: nvmev_proc_io_cq_def)
  moreover have "length (fold take_off xs ys) = length ys" for xs ys by (induction xs arbitrary: ys) auto
  moreover have "fold take_off (map ?id ?c) (d_sqes d) ! q =
      Some (sq\<lparr>sq_stat := (sq_stat sq)\<lparr>nr_in_flight := nr_in_flight (sq_stat sq) - count_list (map ?id ?c) q\<rparr>\<rparr>)"
    by (rule take_off_count) (use sq in \<open>auto simp: deref_eq\<close>)
  ultimately show ?thesis using sq(1) by (simp add: deref_eq)
qed

theorem completion_doorbell_witness:
  "\<exists>d' sq'. nvmev_proc_io_cq 1 (int 1) (int 3) io_example = Some d' \<and> deref (d_sqes d') 1 = Some sq' \<and> nr_in_flight (sq_stat sq') = 1"
proof -
  have c: "deref (d_cqes io_example) 1 = Some io_cq" "length (cq_entries io_cq) = cq_queue_size io_cq"
    "\<forall>e\<in>set (cq_entries io_cq). cqe_sq_id e < length (d_sqes io_example)" "3 < cq_queue_size io_cq" "1 < cq_queue_size io_cq"
    "deref (d_sqes io_example) 1 = Some io_sq" "nr_in_flight (sq_stat io_sq) < 4294967296"
    by (simp_all add: io_example_def deref_def rd_def io_cq_def io_cqe_def io_sq_def)
  have "consumed (cq_queue_size io_cq) 3 1 = [3, 0]" by (simp add: consumed_def io_cq_def upt_conv_Cons)
  then have n: "count_list (map (\<lambda>i. cqe_sq_id (cq_entries io_cq ! i)) (consumed (cq_queue_size io_cq) 3 1)) 1 = 1"
    by (simp add: io_cq_def io_cqe_def)
  have le: "1 \<le> nr_in_flight (sq_stat io_sq)" by (simp add: io_sq_def)
  from completion_doorbell [OF c(1-7), unfolded n, OF le] show ?thesis by (auto simp: io_sq_def)
qed

end
