(* ===== verification/Simple_Ftl.thy ===== *)
theory Simple_Ftl
  imports Nvme_Cmd
begin

text \<open>
  The simple device (\<open>simple_ftl.c\<close>): a set of I/O units, each with the time at which it is free
  again; a request occupies consecutive units. The key-value device uses the same model for the
  time of its commands.

  The configuration and the times are the fields \<open>config\<close> and \<open>io_unit_stat\<close> of the device.
\<close>

record io_config =
  cfg_nr_io_units :: nat
  cfg_io_unit_shift :: nat
  cfg_read_delay :: nat
  cfg_read_time :: nat
  cfg_read_trailing :: nat
  cfg_write_delay :: nat
  cfg_write_time :: nat
  cfg_write_trailing :: nat

record simple_ns =
  sns_id :: nat
  sns_csi :: nat
  sns_size :: nat

definition simple_init_namespace :: "nat \<Rightarrow> nat \<Rightarrow> simple_ns" where
  "simple_init_namespace nsid n = \<lparr>sns_id = nsid, sns_csi = NVME_CSI_NVM, sns_size = n\<rparr>"

definition simple_cmd_io_size :: "nvme_rw_command \<Rightarrow> nat" where
  "simple_cmd_io_size c = (rw_length c + 1) * 2 ^ 9"

section \<open>Scheduling\<close>

text \<open>The body of the do-while loop comes first, so a request of length 0 occupies one unit.\<close>

function schedule_loop ::
  "nat \<Rightarrow> nat \<Rightarrow> nat \<Rightarrow> nat \<Rightarrow> nat \<Rightarrow> nat \<Rightarrow> int \<Rightarrow> nat \<Rightarrow> nat list \<Rightarrow> (nat \<times> nat list) option" where
  "schedule_loop units sft latency trailing latest io_unit nr len stat =
     (let latest' = u64 (latest + latency) in
      if \<not> io_unit < length stat then None
      else let stat' = stat[io_unit := (if nr > 0 then u64 (latest' + trailing) else latest')];
               len' = len - min len (2 ^ sft);
               io_unit' = (if io_unit + 1 \<ge> units then 0 else io_unit + 1)
           in if len' > 0 then schedule_loop units sft latency trailing latest' io_unit' (nr - 1) len' stat'
              else Some (latest', stat'))"
  by pat_completeness auto
termination
  by (relation "measure (\<lambda>(_, _, _, _, _, _, _, len, _). len)") auto

declare schedule_loop.simps [simp del]

definition op_times :: "io_config \<Rightarrow> nat \<Rightarrow> nat \<times> nat \<times> nat" where
  "op_times cfg opcode =
     (if opcode = nvme_cmd_write then (cfg_write_delay cfg, cfg_write_time cfg, cfg_write_trailing cfg)
      else if opcode = nvme_cmd_read then (cfg_read_delay cfg, cfg_read_time cfg, cfg_read_trailing cfg)
      else (0, 0, 0))"

text \<open>
  A unit of less than a block, or no units, are configurations on which the code shifts by a
  negative amount or divides by zero.
\<close>

definition schedule_units ::
  "io_config \<Rightarrow> nat \<times> nat \<times> nat \<Rightarrow> nat \<Rightarrow> nat \<Rightarrow> nat \<Rightarrow> nat list \<Rightarrow> (nat \<times> nat list) option" where
  "schedule_units cfg tm lba len nsecs_start stat = (case tm of (delay, latency, trailing) \<Rightarrow> do {
     NVMEV_ASSERT (9 \<le> cfg_io_unit_shift cfg \<and> cfg_io_unit_shift cfg < 32 \<and> cfg_nr_io_units cfg \<noteq> 0);
     let io_unit = lba div 2 ^ (cfg_io_unit_shift cfg - 9) mod cfg_nr_io_units cfg;
     let nr = min (cfg_nr_io_units cfg) (u32 (len + 2 ^ cfg_io_unit_shift cfg - 1) div 2 ^ cfg_io_unit_shift cfg);
     t \<leftarrow> rd stat io_unit;
     schedule_loop (cfg_nr_io_units cfg) (cfg_io_unit_shift cfg) latency trailing (u64 (max nsecs_start t + delay)) io_unit (int nr) len stat
   })"

definition schedule_io_units :: "io_config \<Rightarrow> nat \<Rightarrow> nat \<Rightarrow> nat \<Rightarrow> nat \<Rightarrow> nat list \<Rightarrow> (nat \<times> nat list) option" where
  "schedule_io_units cfg opcode = schedule_units cfg (op_times cfg opcode)"

definition schedule_flush :: "io_config \<Rightarrow> nat list \<Rightarrow> nat option" where
  "schedule_flush cfg stat = foldM (\<lambda>i latest. do { t \<leftarrow> rd stat i; Some (max latest t) }) [0..<cfg_nr_io_units cfg] 0"

definition simple_proc_nvme_io_cmd ::
  "io_config \<Rightarrow> nat \<Rightarrow> simple_ns \<Rightarrow> nvme_rw_command \<Rightarrow> nvmev_result \<Rightarrow> nat list \<Rightarrow> (bool \<times> nvmev_result \<times> nat list) option" where
  "simple_proc_nvme_io_cmd cfg now ns c ret stat = do {
     NVMEV_ASSERT (sns_csi ns = NVME_CSI_NVM);
     if rw_opcode c = nvme_cmd_write \<or> rw_opcode c = nvme_cmd_read then do {
       (t, stat') \<leftarrow> schedule_io_units cfg (rw_opcode c) (rw_slba c) (simple_cmd_io_size c) now stat;
       Some (True, ret\<lparr>ret_nsecs_target := t\<rparr>, stat')
     } else if rw_opcode c = nvme_cmd_flush then do {
       t \<leftarrow> schedule_flush cfg stat;
       Some (True, ret\<lparr>ret_nsecs_target := t\<rparr>, stat)
     } else do {
       nvme_opcode_string (rw_opcode c);
       Some (True, ret, stat)
     }
   }"

section \<open>The time of a request\<close>

definition nr_units_of :: "nat \<Rightarrow> nat \<Rightarrow> nat" where
  "nr_units_of sft len = max 1 (DIV_ROUND_UP len (2 ^ sft))"

lemma round_up_less: "(n::nat) < len \<Longrightarrow> 0 < n \<Longrightarrow> DIV_ROUND_UP len n = Suc (DIV_ROUND_UP (len - n) n) \<and> 1 \<le> DIV_ROUND_UP (len - n) n"
proof -
  assume l: "n < len" "0 < n"
  have e: "len + n - 1 = (len - n + n - 1) + n" using l by linarith
  have "(x + n) div n = Suc (x div n)" for x using div_add_self2 [of n x] l(2) by simp
  then have "(len + n - 1) div n = Suc ((len - n + n - 1) div n)" unfolding e .
  moreover have "n div n \<le> (len - n + n - 1) div n" by (rule div_le_mono) (use l in linarith)
  ultimately show ?thesis using l by (simp add: DIV_ROUND_UP_def)
qed

lemma round_up_le: "len \<le> (n::nat) \<Longrightarrow> 0 < n \<Longrightarrow> DIV_ROUND_UP len n \<le> 1"
proof -
  assume l: "len \<le> n" "0 < n"
  then have "len + n - 1 < 2 * n" by linarith
  then have "(len + n - 1) div n < 2" by (simp add: less_mult_imp_div_less)
  then show ?thesis by (simp add: DIV_ROUND_UP_def)
qed

lemma nr_units_step: "0 < len - min len (2 ^ sft) \<Longrightarrow> nr_units_of sft len = Suc (nr_units_of sft (len - min len (2 ^ sft)))"
  using round_up_less [of "2 ^ sft" len] by (auto simp: nr_units_of_def min_def split: if_splits)

lemma nr_units_last: "\<not> 0 < len - min len (2 ^ sft) \<Longrightarrow> nr_units_of sft len = 1"
  using round_up_le [of len "2 ^ sft"] by (auto simp: nr_units_of_def min_def split: if_splits)

lemma schedule_loop_ok:
  assumes "length stat = units" "io_unit < units" "latest + nr_units_of sft len * latency + trailing < 18446744073709551616"
  shows "\<exists>stat'. schedule_loop units sft latency trailing latest io_unit nr len stat = Some (latest + nr_units_of sft len * latency, stat') \<and>
     length stat' = units \<and> (\<forall>i<units. stat' ! i = stat ! i \<or> stat' ! i \<le> latest + nr_units_of sft len * latency + trailing)"
  using assms
proof (induction len arbitrary: latest io_unit nr stat rule: less_induct)
  case (less len)
  let ?l = "latest + latency" and ?len = "len - min len (2 ^ sft)"
  let ?st = "stat[io_unit := (if nr > 0 then u64 (?l + trailing) else ?l)]"
  have n1: "1 \<le> nr_units_of sft len" by (simp add: nr_units_of_def)
  then have le: "latency \<le> nr_units_of sft len * latency" by simp
  have u: "u64 (latest + latency) = ?l" "u64 (?l + trailing) = ?l + trailing" using less.prems(3) le by (intro u64_id, linarith)+
  show ?case
  proof (cases "0 < ?len")
    case False
    then have "schedule_loop units sft latency trailing latest io_unit nr len stat = Some (?l, ?st)"
      using less.prems(1,2) u(1) by (subst schedule_loop.simps) (simp add: Let_def)
    then show ?thesis using nr_units_last [OF False] less.prems(1,2) u(2) by (auto simp: nth_list_update)
  next
    case True
    let ?u = "if io_unit + 1 \<ge> units then 0 else io_unit + 1"
    note st = nr_units_step [OF True]
    have "\<exists>stat'. schedule_loop units sft latency trailing ?l ?u (nr - 1) ?len ?st = Some (?l + nr_units_of sft ?len * latency, stat') \<and>
       length stat' = units \<and> (\<forall>i<units. stat' ! i = ?st ! i \<or> stat' ! i \<le> ?l + nr_units_of sft ?len * latency + trailing)"
      by (rule less.IH) (use True less.prems st in auto)
    then obtain stat' where r: "schedule_loop units sft latency trailing ?l ?u (nr - 1) ?len ?st = Some (?l + nr_units_of sft ?len * latency, stat')"
       "length stat' = units" "\<forall>i<units. stat' ! i = ?st ! i \<or> stat' ! i \<le> ?l + nr_units_of sft ?len * latency + trailing" by blast
    have e: "?l + nr_units_of sft ?len * latency = latest + nr_units_of sft len * latency" using st by simp
    have "schedule_loop units sft latency trailing latest io_unit nr len stat = Some (latest + nr_units_of sft len * latency, stat')"
    proof -
      have "2 ^ sft < len" using True by (simp add: min_def split: if_splits)
      then show ?thesis using less.prems(1,2) u(1) r(1) unfolding e by (subst schedule_loop.simps) (simp add: Let_def)
    qed
    moreover have "stat' ! i = stat ! i \<or> stat' ! i \<le> latest + nr_units_of sft len * latency + trailing" if i: "i < units" for i
    proof (cases "i = io_unit")
      case True
      have "?st ! io_unit \<le> ?l + trailing" using less.prems(1,2) u(2) by simp
      then show ?thesis using r(3) i True e le by (metis (no_types, lifting) add_le_mono add_le_mono1 le_trans nat_add_left_cancel_le order_refl)
    next
      case False
      then show ?thesis using r(3) i e by auto
    qed
    ultimately show ?thesis using r(2) by blast
  qed
qed

definition config_ok :: "io_config \<Rightarrow> nat list \<Rightarrow> bool" where
  "config_ok cfg stat \<longleftrightarrow> 9 \<le> cfg_io_unit_shift cfg \<and> cfg_io_unit_shift cfg < 32 \<and> 0 < cfg_nr_io_units cfg \<and> length stat = cfg_nr_io_units cfg"

lemma schedule_units_ok:
  assumes ok: "config_ok cfg stat"
    and b: "max now (stat ! (lba div 2 ^ (cfg_io_unit_shift cfg - 9) mod cfg_nr_io_units cfg)) + delay +
      nr_units_of (cfg_io_unit_shift cfg) len * latency + trailing < 18446744073709551616"
  shows "\<exists>stat'. schedule_units cfg (delay, latency, trailing) lba len now stat =
       Some (max now (stat ! (lba div 2 ^ (cfg_io_unit_shift cfg - 9) mod cfg_nr_io_units cfg)) + delay +
         nr_units_of (cfg_io_unit_shift cfg) len * latency, stat') \<and> length stat' = length stat"
proof -
  let ?u = "lba div 2 ^ (cfg_io_unit_shift cfg - 9) mod cfg_nr_io_units cfg"
  let ?t = "max now (stat ! ?u) + delay"
  have u: "?u < length stat" using ok by (simp add: config_ok_def)
  have t: "u64 ?t = ?t" using b by (intro u64_id) linarith
  obtain stat' where "schedule_loop (cfg_nr_io_units cfg) (cfg_io_unit_shift cfg) latency trailing ?t ?u
       (int (min (cfg_nr_io_units cfg) (u32 (len + 2 ^ cfg_io_unit_shift cfg - 1) div 2 ^ cfg_io_unit_shift cfg))) len stat =
       Some (?t + nr_units_of (cfg_io_unit_shift cfg) len * latency, stat')" "length stat' = cfg_nr_io_units cfg"
    using schedule_loop_ok [of stat "cfg_nr_io_units cfg" ?u ?t "cfg_io_unit_shift cfg" len latency trailing] ok u b
    unfolding config_ok_def by metis
  then show ?thesis using ok u t unfolding schedule_units_def config_ok_def by (simp add: Let_def)
qed

lemma schedule_flush_eq:
  assumes "length stat = cfg_nr_io_units cfg"
  shows "schedule_flush cfg stat = Some (foldr max stat 0)"
proof -
  have "\<exists>t. schedule_flush cfg stat = Some t \<and> t = foldr max (take (cfg_nr_io_units cfg) stat) 0"
    unfolding schedule_flush_def
  proof (rule foldM_upt_total [where P = "\<lambda>i t. t = foldr max (take i stat) 0"])
    fix i t assume i: "i < cfg_nr_io_units cfg" and t: "t = foldr max (take i stat) 0"
    have f: "foldr max xs (x::nat) = max (foldr max xs 0) x" for xs x by (induction xs) (auto simp: max.assoc)
    show "\<exists>s''. (do { v \<leftarrow> rd stat i; Some (max t v) }) = Some s'' \<and> s'' = foldr max (take (Suc i) stat) 0"
      using i t assms f [of "take i stat" "stat ! i"] by (simp add: take_Suc_conv_app_nth)
  qed simp_all
  then show ?thesis using assms by simp
qed

end
