(* ===== verification/Kv_Alloc.thy ===== *)
theory Kv_Alloc
  imports Nvmev_Base
begin

text \<open>
  The allocators of the key-value device (\<open>append_only.c\<close>, \<open>bitmap.c\<close>). A bitmap is a function from
  bit numbers; its array has a fixed number of words, and a bit outside it cannot be set. The
  kernel's \<open>bitmap_find_next_zero_area\<close> for one bit is the parameter \<open>find_area\<close>: given the bits, their
  number and the start of the search it returns the first clear bit, or a value that is not below the
  number of bits if there is none.
\<close>

definition SMALL_LENGTH :: nat where "SMALL_LENGTH = 1024"
definition LARGE_LENGTH :: nat where "LARGE_LENGTH = 4096"

section \<open>Append only\<close>

record append_pool =
  ap_latest :: nat
  ap_dev_size :: nat
  ap_total_written :: nat

definition append_only_allocator_init :: "nat \<Rightarrow> append_pool" where
  "append_only_allocator_init n = \<lparr>ap_latest = 0, ap_dev_size = n, ap_total_written = 0\<rparr>"

definition append_only_allocate :: "nat \<Rightarrow> append_pool \<Rightarrow> (nat \<times> append_pool) option" where
  "append_only_allocate len p =
     Some (ap_latest p, p\<lparr>ap_latest := u64 (ap_latest p + len), ap_total_written := u64 (ap_total_written p + len)\<rparr>)"

section \<open>Bitmap\<close>

definition SMALL_BITS :: nat where "SMALL_BITS = 600000 * 64"
definition LARGE_BITS :: nat where "LARGE_BITS = 300000 * 64"

record bitmap_pool =
  small_nbits :: nat
  large_nbits :: nat
  small_bitmap :: "nat \<Rightarrow> bool"
  large_bitmap :: "nat \<Rightarrow> bool"
  small_capacity :: nat
  large_capacity :: nat
  small_last_pos :: nat
  large_last_pos :: nat
  bm_dev_size :: nat
  bm_total_written :: nat

text \<open>The positions, capacities and the rest of the arrays are zero when the module is loaded.\<close>

definition bitmap_allocator_init :: "nat \<Rightarrow> bitmap_pool" where
  "bitmap_allocator_init n = \<lparr>small_nbits = n div 2 div SMALL_LENGTH, large_nbits = n div 2 div LARGE_LENGTH,
     small_bitmap = (\<lambda>_. False), large_bitmap = (\<lambda>_. False), small_capacity = 0, large_capacity = 0,
     small_last_pos = 0, large_last_pos = 0, bm_dev_size = n, bm_total_written = 0\<rparr>"

type_synonym find_area = "(nat \<Rightarrow> bool) \<Rightarrow> nat \<Rightarrow> nat \<Rightarrow> nat"

definition bitmap_set :: "nat \<Rightarrow> nat \<Rightarrow> (nat \<Rightarrow> bool) \<Rightarrow> (nat \<Rightarrow> bool) option" where
  "bitmap_set nbits i bits = (if i < nbits then Some (bits(i := True)) else None)"

text \<open>A length beyond \<open>LARGE_LENGTH\<close> is only reported in the log.\<close>

definition bitmap_allocate :: "find_area \<Rightarrow> nat \<Rightarrow> bitmap_pool \<Rightarrow> (nat \<times> bitmap_pool) option" where
  "bitmap_allocate find_area len p0 =
     (let p = p0\<lparr>bm_total_written := u64 (bm_total_written p0 + len)\<rparr> in
      if len > SMALL_LENGTH then do {
        let off = find_area (large_bitmap p) (large_nbits p) (large_last_pos p);
        bits \<leftarrow> bitmap_set LARGE_BITS off (large_bitmap p);
        let pos = (if off + 1 > large_nbits p then 0 else off + 1);
        Some (bm_dev_size p div 2 + off * LARGE_LENGTH,
          p\<lparr>large_bitmap := bits, large_last_pos := pos, large_capacity := large_capacity p + 1\<rparr>)
      } else do {
        let off = find_area (small_bitmap p) (small_nbits p) (small_last_pos p);
        bits \<leftarrow> bitmap_set SMALL_BITS off (small_bitmap p);
        let pos = (if off + 1 > small_nbits p then 0 else off + 1);
        Some (off * SMALL_LENGTH,
          p\<lparr>small_bitmap := bits, small_last_pos := pos, small_capacity := small_capacity p + 1\<rparr>)
      })"

section \<open>The contract of an allocator\<close>

text \<open>
  As long as there is room, an allocation returns a region that does not meet the space already
  taken. Regions that follow from a sequence of allocations are therefore disjoint.
\<close>

definition alloc_run :: "(nat \<Rightarrow> 'p \<Rightarrow> (nat \<times> 'p) option) \<Rightarrow> (nat \<Rightarrow> 'p \<Rightarrow> bool) \<Rightarrow> nat list \<Rightarrow> (nat \<times> nat) list \<times> 'p \<Rightarrow> ((nat \<times> nat) list \<times> 'p) option" where
  "alloc_run alloc room = foldM (\<lambda>n (offs, p). if room n p then map_option (\<lambda>(off, p'). (offs @ [(off, n)], p')) (alloc n p) else None)"

definition disjoint_regions :: "(nat \<times> nat) list \<Rightarrow> bool" where
  "disjoint_regions rs \<longleftrightarrow> (\<forall>i j. i < j \<and> j < length rs \<longrightarrow>
     {fst (rs ! i)..<fst (rs ! i) + snd (rs ! i)} \<inter> {fst (rs ! j)..<fst (rs ! j) + snd (rs ! j)} = {})"

locale kv_allocator =
  fixes alloc :: "nat \<Rightarrow> 'p \<Rightarrow> (nat \<times> 'p) option" and inv :: "'p \<Rightarrow> bool" and taken :: "'p \<Rightarrow> nat set"
    and room :: "nat \<Rightarrow> 'p \<Rightarrow> bool" and space :: nat
  assumes alloc_fresh: "inv p \<Longrightarrow> room n p \<Longrightarrow> \<exists>off p'. alloc n p = Some (off, p') \<and> inv p' \<and> taken p \<union> {off..<off + n} \<subseteq> taken p' \<and>
       taken p \<inter> {off..<off + n} = {} \<and> off + n \<le> space"
begin

lemma alloc_seq:
  assumes "inv p" "alloc_run alloc room ns (offs, p) = Some (offs', p')"
    "\<forall>r\<in>set offs. {fst r..<fst r + snd r} \<subseteq> taken p \<and> fst r + snd r \<le> space" "disjoint_regions offs"
  shows "inv p' \<and> disjoint_regions offs' \<and> map snd offs' = map snd offs @ ns \<and> (\<forall>r\<in>set offs'. fst r + snd r \<le> space)"
  using assms
proof (induction ns arbitrary: offs p)
  case Nil
  then show ?case by (simp add: alloc_run_def)
next
  case (Cons n ns)
  have rm: "room n p" using Cons.prems(2) by (auto simp: alloc_run_def split: if_splits)
  obtain off p1 where a: "alloc n p = Some (off, p1)" "inv p1" "taken p \<union> {off..<off + n} \<subseteq> taken p1" "taken p \<inter> {off..<off + n} = {}" "off + n \<le> space"
    using alloc_fresh [OF Cons.prems(1) rm] by blast
  have st: "alloc_run alloc room ns (offs @ [(off, n)], p1) = Some (offs', p')" using Cons.prems(2) rm a(1) by (simp add: alloc_run_def)
  have sub: "\<forall>r\<in>set (offs @ [(off, n)]). {fst r..<fst r + snd r} \<subseteq> taken p1 \<and> fst r + snd r \<le> space"
    using Cons.prems(3) a(3,5) by auto
  have "disjoint_regions (offs @ [(off, n)])"
    unfolding disjoint_regions_def
  proof (intro allI impI)
    fix i j assume ij: "i < j \<and> j < length (offs @ [(off, n)])"
    show "{fst ((offs @ [(off, n)]) ! i)..<fst ((offs @ [(off, n)]) ! i) + snd ((offs @ [(off, n)]) ! i)} \<inter>
      {fst ((offs @ [(off, n)]) ! j)..<fst ((offs @ [(off, n)]) ! j) + snd ((offs @ [(off, n)]) ! j)} = {}"
    proof (cases "j < length offs")
      case True
      then show ?thesis using Cons.prems(4) ij by (simp add: nth_append disjoint_regions_def)
    next
      case False
      then have j: "j = length offs" "i < length offs" using ij by auto
      then have "{fst (offs ! i)..<fst (offs ! i) + snd (offs ! i)} \<subseteq> taken p" using Cons.prems(3) nth_mem by blast
      then have "{fst (offs ! i)..<fst (offs ! i) + snd (offs ! i)} \<inter> {off..<off + n} = {}" using a(4) by blast
      then show ?thesis using j by (simp add: nth_append)
    qed
  qed
  from Cons.IH [OF a(2) st sub this] show ?case by simp
qed

end

section \<open>Both allocators honour it\<close>

definition append_inv :: "nat \<Rightarrow> append_pool \<Rightarrow> bool" where
  "append_inv n p \<longleftrightarrow> ap_dev_size p = n \<and> ap_latest p \<le> n \<and> n < 18446744073709551616"

definition append_room :: "nat \<Rightarrow> append_pool \<Rightarrow> bool" where
  "append_room len p \<longleftrightarrow> ap_latest p + len \<le> ap_dev_size p"

interpretation app: kv_allocator append_only_allocate "append_inv n" "\<lambda>p. {0..<ap_latest p}" append_room n
proof
  fix p len assume "append_inv n p" "append_room len p"
  then show "\<exists>off p'. append_only_allocate len p = Some (off, p') \<and> append_inv n p' \<and> {0..<ap_latest p} \<union> {off..<off + len} \<subseteq> {0..<ap_latest p'} \<and>
      {0..<ap_latest p} \<inter> {off..<off + len} = {} \<and> off + len \<le> n"
    by (auto simp: append_only_allocate_def append_inv_def append_room_def u64_id)
qed

text \<open>The bytes behind the set bits, and the bits that are left from the search position on.\<close>

definition bitmap_taken :: "bitmap_pool \<Rightarrow> nat set" where
  "bitmap_taken p = (\<Union>i\<in>{i. small_bitmap p i}. {i * SMALL_LENGTH..<i * SMALL_LENGTH + SMALL_LENGTH}) \<union>
     (\<Union>i\<in>{i. large_bitmap p i}. {bm_dev_size p div 2 + i * LARGE_LENGTH..<bm_dev_size p div 2 + i * LARGE_LENGTH + LARGE_LENGTH})"

definition bitmap_inv :: "nat \<Rightarrow> bitmap_pool \<Rightarrow> bool" where
  "bitmap_inv n p \<longleftrightarrow> bm_dev_size p = n \<and> small_nbits p = n div 2 div SMALL_LENGTH \<and> large_nbits p = n div 2 div LARGE_LENGTH \<and>
     small_nbits p \<le> SMALL_BITS \<and> large_nbits p \<le> LARGE_BITS \<and>
     (\<forall>i. small_bitmap p i \<longrightarrow> i < small_nbits p) \<and> (\<forall>i. large_bitmap p i \<longrightarrow> i < large_nbits p)"

definition bitmap_room :: "nat \<Rightarrow> bitmap_pool \<Rightarrow> bool" where
  "bitmap_room len p \<longleftrightarrow> len \<le> LARGE_LENGTH \<and>
     (if len > SMALL_LENGTH then \<exists>i. large_last_pos p \<le> i \<and> i < large_nbits p \<and> \<not> large_bitmap p i
      else \<exists>i. small_last_pos p \<le> i \<and> i < small_nbits p \<and> \<not> small_bitmap p i)"

lemma slots_apart: "(i::nat) \<noteq> k \<Longrightarrow> {i * m..<i * m + m} \<inter> {k * m..<k * m + n} = {}" if "n \<le> m" for i k m n
proof -
  assume ne: "i \<noteq> k"
  show ?thesis
  proof (cases "i < k")
    case True
    then have "Suc i * m \<le> k * m" by (intro mult_le_mono1) simp
    then show ?thesis by auto
  next
    case False
    then have "Suc k * m \<le> i * m" using ne by (intro mult_le_mono1) simp
    then show ?thesis using that by auto
  qed
qed

lemma area_end: "i < n div m \<Longrightarrow> i * m + m \<le> (n::nat)"
proof -
  assume "i < n div m"
  then have "Suc i * m \<le> n div m * m" by (intro mult_le_mono1) simp
  also have "\<dots> \<le> n" by (rule div_times_less_eq_dividend)
  finally show ?thesis by simp
qed

text \<open>The search of the kernel, and the allocator on top of it.\<close>

locale zero_area =
  fixes find_area :: find_area
  assumes find_clear: "start \<le> i \<Longrightarrow> i < n \<Longrightarrow> \<not> bits i \<Longrightarrow> start \<le> find_area bits n start \<and> find_area bits n start < n \<and> \<not> bits (find_area bits n start)"
    and find_none: "(\<And>i. start \<le> i \<Longrightarrow> i < n \<Longrightarrow> bits i) \<Longrightarrow> n \<le> find_area bits n start"
begin

lemma bitmap_small:
  assumes inv: "bitmap_inv n p" and rm: "bitmap_room len p" "\<not> len > SMALL_LENGTH"
  shows "\<exists>off p'. bitmap_allocate find_area len p = Some (off, p') \<and> bitmap_inv n p' \<and> bitmap_taken p \<union> {off..<off + len} \<subseteq> bitmap_taken p' \<and>
     bitmap_taken p \<inter> {off..<off + len} = {} \<and> off + len \<le> n"
proof -
  note i = inv [unfolded bitmap_inv_def]
  obtain k where k: "find_area (small_bitmap p) (small_nbits p) (small_last_pos p) = k" "k < small_nbits p" "\<not> small_bitmap p k"
    using rm find_clear unfolding bitmap_room_def by (metis (no_types, lifting))
  have kb: "k < SMALL_BITS" using k(2) i by linarith
  let ?p = "p\<lparr>bm_total_written := u64 (bm_total_written p + len), small_bitmap := (small_bitmap p)(k := True),
      small_last_pos := (if k + 1 > small_nbits p then 0 else k + 1), small_capacity := small_capacity p + 1\<rparr>"
  have a: "bitmap_allocate find_area len p = Some (k * SMALL_LENGTH, ?p)"
    using rm(2) k(1) kb by (simp add: bitmap_allocate_def Let_def bitmap_set_def)
  have e: "k * SMALL_LENGTH + SMALL_LENGTH \<le> n div 2" by (rule area_end) (use k(2) i in simp)
  have l: "len \<le> SMALL_LENGTH" using rm(2) by simp
  have "bitmap_inv n ?p" using i k(2) by (auto simp: bitmap_inv_def)
  moreover have "bitmap_taken p \<union> {k * SMALL_LENGTH..<k * SMALL_LENGTH + len} \<subseteq> bitmap_taken ?p" using l by (auto simp: bitmap_taken_def)
  moreover have "bitmap_taken p \<inter> {k * SMALL_LENGTH..<k * SMALL_LENGTH + len} = {}"
  proof -
    have "{j * SMALL_LENGTH..<j * SMALL_LENGTH + SMALL_LENGTH} \<inter> {k * SMALL_LENGTH..<k * SMALL_LENGTH + len} = {}" if "small_bitmap p j" for j
      by (rule slots_apart [OF l]) (use that k(3) in auto)
    moreover have "{bm_dev_size p div 2 + j * LARGE_LENGTH..<bm_dev_size p div 2 + j * LARGE_LENGTH + LARGE_LENGTH} \<inter>
        {k * SMALL_LENGTH..<k * SMALL_LENGTH + len} = {}" for j using e l i by auto
    ultimately show ?thesis unfolding bitmap_taken_def by blast
  qed
  moreover have "k * SMALL_LENGTH + len \<le> n" using e l by linarith
  ultimately show ?thesis using a by blast
qed

lemma bitmap_large:
  assumes inv: "bitmap_inv n p" and rm: "bitmap_room len p" "len > SMALL_LENGTH"
  shows "\<exists>off p'. bitmap_allocate find_area len p = Some (off, p') \<and> bitmap_inv n p' \<and> bitmap_taken p \<union> {off..<off + len} \<subseteq> bitmap_taken p' \<and>
     bitmap_taken p \<inter> {off..<off + len} = {} \<and> off + len \<le> n"
proof -
  note i = inv [unfolded bitmap_inv_def]
  obtain k where k: "find_area (large_bitmap p) (large_nbits p) (large_last_pos p) = k" "k < large_nbits p" "\<not> large_bitmap p k"
    using rm find_clear unfolding bitmap_room_def by (metis (no_types, lifting))
  have kb: "k < LARGE_BITS" using k(2) i by linarith
  let ?p = "p\<lparr>bm_total_written := u64 (bm_total_written p + len), large_bitmap := (large_bitmap p)(k := True),
      large_last_pos := (if k + 1 > large_nbits p then 0 else k + 1), large_capacity := large_capacity p + 1\<rparr>"
  let ?h = "n div 2"
  have a: "bitmap_allocate find_area len p = Some (?h + k * LARGE_LENGTH, ?p)"
    using rm(2) k(1) kb i by (simp add: bitmap_allocate_def Let_def bitmap_set_def)
  have e: "k * LARGE_LENGTH + LARGE_LENGTH \<le> ?h" by (rule area_end) (use k(2) i in simp)
  have l: "len \<le> LARGE_LENGTH" using rm(1) by (simp add: bitmap_room_def)
  have "bitmap_inv n ?p" using i k(2) by (auto simp: bitmap_inv_def)
  moreover have "bitmap_taken p \<union> {?h + k * LARGE_LENGTH..<?h + k * LARGE_LENGTH + len} \<subseteq> bitmap_taken ?p" using l i by (auto simp: bitmap_taken_def)
  moreover have "bitmap_taken p \<inter> {?h + k * LARGE_LENGTH..<?h + k * LARGE_LENGTH + len} = {}"
  proof -
    have "{?h + j * LARGE_LENGTH..<?h + j * LARGE_LENGTH + LARGE_LENGTH} \<inter> {?h + k * LARGE_LENGTH..<?h + k * LARGE_LENGTH + len} = {}"
      if "large_bitmap p j" for j
      using slots_apart [OF l, of j k] that k(3) by fastforce
    moreover have "{j * SMALL_LENGTH..<j * SMALL_LENGTH + SMALL_LENGTH} \<inter> {?h + k * LARGE_LENGTH..<?h + k * LARGE_LENGTH + len} = {}"
      if "small_bitmap p j" for j
    proof -
      have "j * SMALL_LENGTH + SMALL_LENGTH \<le> ?h" by (rule area_end) (use that i in auto)
      then show ?thesis by auto
    qed
    ultimately show ?thesis using i unfolding bitmap_taken_def by blast
  qed
  moreover have "?h + k * LARGE_LENGTH + len \<le> n" using e l by linarith
  ultimately show ?thesis using a by blast
qed

end

sublocale zero_area \<subseteq> bmp: kv_allocator "bitmap_allocate find_area" "bitmap_inv size" bitmap_taken bitmap_room size for size
  by unfold_locales (metis bitmap_small bitmap_large)

context zero_area
begin

lemma bitmap_seq:
  assumes "bitmap_inv n p" "alloc_run (bitmap_allocate find_area) bitmap_room lens ([], p) = Some (rs, p')"
  shows "disjoint_regions rs \<and> map snd rs = lens \<and> (\<forall>r\<in>set rs. fst r + snd r \<le> n) \<and> bitmap_inv n p'"
  using bmp.alloc_seq [OF assms] by (simp add: disjoint_regions_def)

end

text \<open>The function that the kernel documents.\<close>

definition first_zero :: find_area where
  "first_zero bits n start = (case find (\<lambda>i. \<not> bits i) [start..<n] of Some i \<Rightarrow> i | None \<Rightarrow> n + 1)"

interpretation fz: zero_area first_zero
proof
  fix start i n :: nat and bits :: "nat \<Rightarrow> bool"
  assume "start \<le> i" "i < n" "\<not> bits i"
  then obtain k where k: "find (\<lambda>i. \<not> bits i) [start..<n] = Some k"
    by (cases "find (\<lambda>i. \<not> bits i) [start..<n]") (auto simp: find_None_iff)
  then have "start \<le> k \<and> k < n \<and> \<not> bits k" by (auto simp: find_Some_iff)
  then show "start \<le> first_zero bits n start \<and> first_zero bits n start < n \<and> \<not> bits (first_zero bits n start)"
    using k by (simp add: first_zero_def)
next
  fix start n :: nat and bits :: "nat \<Rightarrow> bool"
  assume "\<And>i. start \<le> i \<Longrightarrow> i < n \<Longrightarrow> bits i"
  then have "find (\<lambda>i. \<not> bits i) [start..<n] = None" by (auto simp: find_None_iff)
  then show "n \<le> first_zero bits n start" by (simp add: first_zero_def)
qed

text \<open>A search that finds no clear bit leads to an area outside the half of the storage that belongs to the bitmap.\<close>

lemma bitmap_full_escapes:
  assumes "zero_area find_area" "bitmap_inv n p" "len \<le> SMALL_LENGTH" "\<And>i. small_last_pos p \<le> i \<Longrightarrow> i < small_nbits p \<Longrightarrow> small_bitmap p i"
    "bitmap_allocate find_area len p = Some (off, p')"
  shows "n div 2 div SMALL_LENGTH * SMALL_LENGTH \<le> off"
  using zero_area.find_none [OF assms(1), of "small_last_pos p" "small_nbits p" "small_bitmap p"] assms(2-5)
  by (auto simp: bitmap_allocate_def Let_def bitmap_inv_def split: Option.bind_splits)

end
