(* ===== verification/Kv_Table.thy ===== *)
theory Kv_Table
  imports Io_Copy Simple_Ftl Kv_Alloc
begin

text \<open>
  The key-value command and the mapping table of the key-value device (\<open>kv_ftl.c\<close>, \<open>kv_ftl.h\<close>,
  \<open>nvme_kv.h\<close>): a hash table whose collisions are resolved by probing for a free slot and linking
  it behind the last slot of the chain.

  A key of the command has 16 bytes, one of the table 18; comparing or copying more bytes reads or
  writes outside the array and is a failure. The loops over the chains are partial functions: a
  chain with a cycle, or a search for a free slot in a full table, does not return.
\<close>

definition NONE64 :: nat where "NONE64 = 18446744073709551615"

definition nvme_cmd_kv_store :: nat where "nvme_cmd_kv_store = 0x81"
definition nvme_cmd_kv_append :: nat where "nvme_cmd_kv_append = 0x83"
definition nvme_cmd_kv_batch :: nat where "nvme_cmd_kv_batch = 0x85"
definition nvme_cmd_kv_retrieve :: nat where "nvme_cmd_kv_retrieve = 0x90"
definition nvme_cmd_kv_delete :: nat where "nvme_cmd_kv_delete = 0xA1"
definition nvme_cmd_kv_iter_req :: nat where "nvme_cmd_kv_iter_req = 0xB1"
definition nvme_cmd_kv_iter_read :: nat where "nvme_cmd_kv_iter_read = 0xB2"
definition nvme_cmd_kv_exist :: nat where "nvme_cmd_kv_exist = 0xB3"

lemmas kv_opcodes = nvme_cmd_kv_store_def nvme_cmd_kv_append_def nvme_cmd_kv_batch_def nvme_cmd_kv_retrieve_def
  nvme_cmd_kv_delete_def nvme_cmd_kv_iter_req_def nvme_cmd_kv_iter_read_def nvme_cmd_kv_exist_def

text \<open>
  The 64 bytes of a command, by the fields of \<open>struct nvme_kv_store_command\<close>. The other commands of
  the union give the same bytes other names: the iterator handle is at the place of the key length,
  the prefix and the bit mask of an iterator at the first eight bytes of the key.
\<close>

record nvme_kv_command =
  kv_opcode :: nat
  kv_prp1 :: nat
  kv_prp2 :: nat
  kv_value_len :: nat
  kv_key_len :: nat
  kv_option :: nat
  kv_rsvd4 :: nat
  kv_key :: "nat list"

definition cmd_key_length :: "nvme_kv_command \<Rightarrow> nat" where
  "cmd_key_length cmd = kv_key_len cmd + 1"

definition cmd_value_length :: "nvme_kv_command \<Rightarrow> nat" where
  "cmd_value_length cmd = u32 (kv_value_len cmd * 4)"

record mapping_entry =
  me_key :: "nat list"
  me_mem_offset :: nat
  me_length :: nat
  me_next_slot :: nat

text \<open>An entry all of whose bytes are 255.\<close>

definition erased_entry :: mapping_entry where
  "erased_entry = \<lparr>me_key = replicate 18 255, me_mem_offset = NONE64, me_length = NONE64, me_next_slot = NONE32\<rparr>"

definition hash_function :: "nat list \<Rightarrow> nat \<Rightarrow> nat option" where
  "hash_function key len = foldM (\<lambda>i h. do { b \<leftarrow> rd key i; Some (Bit_Operations.xor (u32 (h * 16777619)) b) }) [0..<len] 2166136261"

definition get_hash_slot :: "nat \<Rightarrow> nat list \<Rightarrow> nat \<Rightarrow> nat option" where
  "get_hash_slot hash_slots key key_len = do {
     h \<leftarrow> hash_function key key_len;
     if hash_slots = 0 then None else Some (h mod hash_slots)
   }"

definition key_matches :: "nat list \<Rightarrow> nat \<Rightarrow> mapping_entry \<Rightarrow> bool option" where
  "key_matches key len e =
     (if len \<le> length key \<and> len \<le> length (me_key e) then Some (take len key = take len (me_key e)) else None)"

section \<open>Searching a chain\<close>

text \<open>The loop that the functions below share: the slot of the key, or \<open>None\<close> when it is not in the chain.\<close>

partial_function (option) kv_search :: "nat list \<Rightarrow> nat \<Rightarrow> mapping_entry list \<Rightarrow> nat \<Rightarrow> nat option option" where
  "kv_search key len tbl slot =
     Option.bind (rd tbl slot) (\<lambda>e.
       if me_mem_offset e = NONE64 then Some None
       else Option.bind (key_matches key len e) (\<lambda>found.
         if found then Some (Some slot)
         else if me_next_slot e = NONE32 then Some None
         else kv_search key len tbl (me_next_slot e)))"

definition get_mapping_entry_by_key :: "nat \<Rightarrow> nat list \<Rightarrow> nat \<Rightarrow> mapping_entry list \<Rightarrow> mapping_entry option" where
  "get_mapping_entry_by_key hash_slots key key_len tbl = do {
     slot \<leftarrow> get_hash_slot hash_slots key key_len;
     r \<leftarrow> kv_search key key_len tbl slot;
     case r of
       None \<Rightarrow> Some erased_entry
     | Some s \<Rightarrow> do {
         e \<leftarrow> rd tbl s;
         Some (erased_entry\<lparr>me_key := take key_len (me_key e) @ drop key_len (me_key erased_entry),
           me_mem_offset := me_mem_offset e, me_length := me_length e, me_next_slot := me_next_slot e\<rparr>)
       }
   }"

definition get_mapping_entry :: "nat \<Rightarrow> nvme_kv_command \<Rightarrow> mapping_entry list \<Rightarrow> mapping_entry option" where
  "get_mapping_entry hash_slots cmd = get_mapping_entry_by_key hash_slots (kv_key cmd) (cmd_key_length cmd)"

text \<open>A command that changes the length of a value, and one that deletes a key.\<close>

definition update_mapping_entry :: "nat \<Rightarrow> nvme_kv_command \<Rightarrow> mapping_entry list \<Rightarrow> (nat \<times> mapping_entry list) option" where
  "update_mapping_entry hash_slots cmd tbl = do {
     slot \<leftarrow> get_hash_slot hash_slots (kv_key cmd) (cmd_key_length cmd);
     r \<leftarrow> kv_search (kv_key cmd) (cmd_key_length cmd) tbl slot;
     case r of
       None \<Rightarrow> Some (1, tbl)
     | Some s \<Rightarrow> do {
         e \<leftarrow> rd tbl s;
         Some (0, tbl[s := e\<lparr>me_length := cmd_value_length cmd\<rparr>])
       }
   }"

definition delete_mapping_entry :: "nat \<Rightarrow> nvme_kv_command \<Rightarrow> mapping_entry list \<Rightarrow> (mapping_entry \<times> mapping_entry list) option" where
  "delete_mapping_entry hash_slots cmd tbl = do {
     slot \<leftarrow> get_hash_slot hash_slots (kv_key cmd) (cmd_key_length cmd);
     r \<leftarrow> kv_search (kv_key cmd) (cmd_key_length cmd) tbl slot;
     case r of
       None \<Rightarrow> Some (erased_entry, tbl)
     | Some s \<Rightarrow> do {
         tbl' \<leftarrow> wr tbl s erased_entry;
         Some (erased_entry, tbl')
       }
   }"

section \<open>Adding a key\<close>

text \<open>The two loops of \<open>find_next_slot\<close>: to the end of the chain, and on to a free slot.\<close>

partial_function (option) kv_tail :: "mapping_entry list \<Rightarrow> nat \<Rightarrow> nat \<Rightarrow> nat option" where
  "kv_tail tbl prevs tail =
     Option.bind (rd tbl tail) (\<lambda>e.
       if me_mem_offset e = NONE64 then Some prevs
       else if me_next_slot e = NONE32 then Some tail
       else kv_tail tbl tail (me_next_slot e))"

partial_function (option) kv_probe :: "nat \<Rightarrow> mapping_entry list \<Rightarrow> nat \<Rightarrow> nat option" where
  "kv_probe hash_slots tbl ret_slot =
     Option.bind (rd tbl ret_slot) (\<lambda>e.
       if me_mem_offset e = NONE64 then Some ret_slot
       else kv_probe hash_slots tbl (if u32 (ret_slot + 1) \<ge> hash_slots then 0 else u32 (ret_slot + 1)))"

definition find_next_slot :: "nat \<Rightarrow> mapping_entry list \<Rightarrow> nat \<Rightarrow> (nat \<times> nat) option" where
  "find_next_slot hash_slots tbl original_slot = do {
     prevs \<leftarrow> kv_tail tbl NONE32 original_slot;
     ret_slot \<leftarrow> kv_probe hash_slots tbl prevs;
     Some (ret_slot, prevs)
   }"

definition chain_mapping :: "nat \<Rightarrow> nat \<Rightarrow> mapping_entry list \<Rightarrow> mapping_entry list option" where
  "chain_mapping prev slot tbl = do { e \<leftarrow> rd tbl prev; Some (tbl[prev := e\<lparr>me_next_slot := slot\<rparr>]) }"

definition new_mapping_entry_by_key ::
  "nat \<Rightarrow> nat \<Rightarrow> nat list \<Rightarrow> nat \<Rightarrow> nat \<Rightarrow> nat \<Rightarrow> mapping_entry list \<Rightarrow> mapping_entry list option" where
  "new_mapping_entry_by_key storage_size hash_slots key key_len val_len val_offset tbl = do {
     NVMEV_ASSERT (val_offset < storage_size);
     slot0 \<leftarrow> get_hash_slot hash_slots key key_len;
     e0 \<leftarrow> rd tbl slot0;
     (slot, prev_slot) \<leftarrow> (if me_mem_offset e0 \<noteq> NONE64 then find_next_slot hash_slots tbl slot0 else Some (slot0, NONE32));
     e \<leftarrow> rd tbl slot;
     NVMEV_ASSERT (key_len \<le> length key \<and> key_len \<le> length (me_key e));
     let tbl1 = tbl[slot := e\<lparr>me_key := take key_len key @ drop key_len (me_key e), me_mem_offset := val_offset, me_length := val_len\<rparr>];
     if prev_slot \<noteq> NONE32 then chain_mapping prev_slot slot tbl1 else Some tbl1
   }"

definition new_mapping_entry :: "nat \<Rightarrow> nat \<Rightarrow> nvme_kv_command \<Rightarrow> nat \<Rightarrow> mapping_entry list \<Rightarrow> mapping_entry list option" where
  "new_mapping_entry storage_size hash_slots cmd =
     new_mapping_entry_by_key storage_size hash_slots (kv_key cmd) (cmd_key_length cmd) (cmd_value_length cmd)"

section \<open>Well-formed tables\<close>

abbreviation free :: "mapping_entry list \<Rightarrow> nat \<Rightarrow> bool" where
  "free tbl i \<equiv> me_mem_offset (tbl ! i) = NONE64"

definition links_down :: "mapping_entry list \<Rightarrow> (nat \<Rightarrow> nat) \<Rightarrow> bool" where
  "links_down tbl rank \<longleftrightarrow> (\<forall>i<length tbl. me_next_slot (tbl ! i) \<noteq> NONE32 \<longrightarrow> rank (me_next_slot (tbl ! i)) < rank i)"

definition table_ok :: "mapping_entry list \<Rightarrow> bool" where
  "table_ok tbl \<longleftrightarrow> 0 < length tbl \<and> length tbl < NONE32 \<and> (\<exists>rank. links_down tbl rank) \<and>
     (\<forall>i<length tbl. length (me_key (tbl ! i)) = 18 \<and>
       (me_next_slot (tbl ! i) = NONE32 \<or> me_next_slot (tbl ! i) < length tbl \<and> \<not> free tbl i))"

lemma table_okD:
  assumes "table_ok tbl" "i < length tbl"
  shows "length (me_key (tbl ! i)) = 18" "me_next_slot (tbl ! i) \<noteq> NONE32 \<Longrightarrow> me_next_slot (tbl ! i) < length tbl"
    "free tbl i \<Longrightarrow> me_next_slot (tbl ! i) = NONE32"
  using assms by (auto simp: table_ok_def)

lemma hash_slot_ok: "len \<le> length key \<Longrightarrow> 0 < n \<Longrightarrow> \<exists>s. get_hash_slot n key len = Some s \<and> s < n"
proof -
  assume l: "len \<le> length key" "0 < n"
  have "\<exists>h. hash_function key len = Some h \<and> True"
    unfolding hash_function_def by (rule foldM_upt_total [where P = "\<lambda>_ _. True"]) (use l in auto)
  then show ?thesis using l(2) by (auto simp: get_hash_slot_def)
qed

text \<open>Following the links: an induction rule for the loops over a chain.\<close>

lemma chain_induct [consumes 2, case_names link]:
  assumes "table_ok tbl" "i < length tbl"
    and "\<And>i. i < length tbl \<Longrightarrow> (me_next_slot (tbl ! i) \<noteq> NONE32 \<Longrightarrow> P (me_next_slot (tbl ! i))) \<Longrightarrow> P i"
  shows "P i"
proof -
  obtain rank where r: "links_down tbl rank" using assms(1) by (auto simp: table_ok_def)
  show ?thesis using assms(2)
  proof (induction "rank i" arbitrary: i rule: less_induct)
    case less
    show ?case
      by (rule assms(3) [OF less.prems]) (use less r table_okD(2) [OF assms(1)] in \<open>auto simp: links_down_def\<close>)
  qed
qed

lemma kv_search_free: "i < length tbl \<Longrightarrow> free tbl i \<Longrightarrow> kv_search key len tbl i = Some None"
  by (subst kv_search.simps) simp

lemma kv_search_step:
  "i < length tbl \<Longrightarrow> \<not> free tbl i \<Longrightarrow> len \<le> length key \<Longrightarrow> len \<le> length (me_key (tbl ! i)) \<Longrightarrow>
   kv_search key len tbl i =
     (if take len key = take len (me_key (tbl ! i)) then Some (Some i)
      else if me_next_slot (tbl ! i) = NONE32 then Some None else kv_search key len tbl (me_next_slot (tbl ! i)))"
  by (subst kv_search.simps) (simp add: key_matches_def)

lemma kv_tail_step:
  "i < length tbl \<Longrightarrow> kv_tail tbl q i =
     (if free tbl i then Some q else if me_next_slot (tbl ! i) = NONE32 then Some i else kv_tail tbl i (me_next_slot (tbl ! i)))"
  by (subst kv_tail.simps) simp

lemma kv_search_total:
  assumes "table_ok tbl" "slot < length tbl" "len \<le> length key" "len \<le> 18"
  shows "\<exists>r. kv_search key len tbl slot = Some r \<and> (\<forall>s. r = Some s \<longrightarrow> s < length tbl \<and> \<not> free tbl s \<and> take len key = take len (me_key (tbl ! s)))"
  using assms(1,2)
proof (induction rule: chain_induct)
  case (link i)
  note k = table_okD(1) [OF assms(1) link.hyps]
  show ?case using link k assms(3,4) by (subst kv_search.simps) (auto simp: key_matches_def)
qed

lemma kv_tail_total:
  assumes "table_ok tbl" "slot < length tbl" "\<not> free tbl slot"
  shows "\<exists>p. kv_tail tbl q slot = Some p \<and> p < length tbl \<and> \<not> free tbl p \<and>
     (me_next_slot (tbl ! p) = NONE32 \<or> free tbl (me_next_slot (tbl ! p)))"
  using assms
proof (induction arbitrary: q rule: chain_induct)
  case (link i)
  show ?case
  proof (cases "me_next_slot (tbl ! i) = NONE32")
    case True
    then show ?thesis using link by (subst kv_tail.simps) auto
  next
    case False
    note n = table_okD(2) [OF assms(1) link.hyps False]
    show ?thesis
    proof (cases "free tbl (me_next_slot (tbl ! i))")
      case True
      then have "kv_tail tbl i (me_next_slot (tbl ! i)) = Some i" using n by (subst kv_tail.simps) simp
      then show ?thesis using True False link by (subst kv_tail.simps) simp
    next
      case nf: False
      from link.IH [OF False nf, of i] show ?thesis using False link by (subst kv_tail.simps) simp
    qed
  qed
qed

lemma kv_probe_total:
  assumes "i < length tbl" "j < length tbl" "free tbl j" "length tbl < NONE32"
  shows "\<exists>r. kv_probe (length tbl) tbl i = Some r \<and> r < length tbl \<and> free tbl r"
  using assms(1)
proof (induction "(if i \<le> j then j - i else length tbl - i + j)" arbitrary: i rule: less_induct)
  case less
  show ?case
  proof (cases "free tbl i")
    case True
    then show ?thesis using less.prems by (subst kv_probe.simps) simp
  next
    case False
    have ij: "i \<noteq> j" using False assms(3) by auto
    have u: "u32 (i + 1) = i + 1" using less.prems assms(4) by (intro u32_id) (simp add: NONE32_def)
    let ?i = "if i + 1 \<ge> length tbl then 0 else i + 1"
    have "\<exists>r. kv_probe (length tbl) tbl ?i = Some r \<and> r < length tbl \<and> free tbl r"
      by (rule less.hyps) (use less.prems assms(2) ij in auto)
    then show ?thesis using less.prems False u by (subst kv_probe.simps) (auto split: if_splits)
  qed
qed

section \<open>Adding an entry\<close>

text \<open>
  What \<open>new_mapping_entry\<close> does to a well-formed table: a free slot \<open>r\<close> becomes the entry \<open>e\<close>, and
  the last slot of a chain, if there is one, is linked to it.
\<close>

definition last_of_chain :: "mapping_entry list \<Rightarrow> nat \<Rightarrow> bool" where
  "last_of_chain tbl p \<longleftrightarrow> p < length tbl \<and> \<not> free tbl p \<and> (me_next_slot (tbl ! p) = NONE32 \<or> free tbl (me_next_slot (tbl ! p)))"

definition inserted :: "mapping_entry list \<Rightarrow> nat \<Rightarrow> mapping_entry \<Rightarrow> nat option \<Rightarrow> mapping_entry list \<Rightarrow> bool" where
  "inserted tbl r e prev tbl' \<longleftrightarrow> r < length tbl \<and> free tbl r \<and> me_mem_offset e \<noteq> NONE64 \<and> me_next_slot e = NONE32 \<and> length (me_key e) = 18 \<and>
     (case prev of None \<Rightarrow> tbl' = tbl[r := e]
      | Some p \<Rightarrow> last_of_chain tbl p \<and> tbl' = tbl[r := e, p := (tbl ! p)\<lparr>me_next_slot := r\<rparr>])"

lemma inserted_nth:
  assumes "inserted tbl r e prev tbl'"
  shows "length tbl' = length tbl" "tbl' ! r = e" "i < length tbl \<Longrightarrow> i \<noteq> r \<Longrightarrow>
     tbl' ! i = (if prev = Some i then (tbl ! i)\<lparr>me_next_slot := r\<rparr> else tbl ! i)"
  using assms by (auto simp: inserted_def last_of_chain_def nth_list_update split: option.splits)

lemma inserted_prev: "inserted tbl r e (Some p) tbl' \<Longrightarrow> last_of_chain tbl p \<and> p \<noteq> r"
  by (auto simp: inserted_def last_of_chain_def)

lemma inserted_ok:
  assumes "table_ok tbl" "inserted tbl r e prev tbl'"
  shows "table_ok tbl'"
proof -
  note n = inserted_nth [OF assms(2)]
  have rf: "r < length tbl" "free tbl r" "me_next_slot e = NONE32" "length (me_key e) = 18" using assms(2) by (auto simp: inserted_def)
  obtain rank where rk: "links_down tbl rank" using assms(1) by (auto simp: table_ok_def)
  have "links_down tbl' (\<lambda>i. if i = r then 0 else Suc (rank i))"
    unfolding links_down_def
  proof (intro allI impI)
    fix i assume i: "i < length tbl'" "me_next_slot (tbl' ! i) \<noteq> NONE32"
    then have ir: "i \<noteq> r" using n(2) rf(3) by auto
    have il: "i < length tbl" using i(1) n(1) by simp
    show "(if me_next_slot (tbl' ! i) = r then 0 else Suc (rank (me_next_slot (tbl' ! i)))) < (if i = r then 0 else Suc (rank i))"
    proof (cases "prev = Some i")
      case True
      then show ?thesis using n(3) [OF il ir] ir by simp
    next
      case False
      then have e: "tbl' ! i = tbl ! i" using n(3) [OF il ir] by simp
      then have "rank (me_next_slot (tbl ! i)) < rank i" using rk il i(2) unfolding links_down_def by metis
      then show ?thesis using ir e by simp
    qed
  qed
  moreover have "length (me_key (tbl' ! i)) = 18 \<and> (me_next_slot (tbl' ! i) = NONE32 \<or> me_next_slot (tbl' ! i) < length tbl' \<and> \<not> free tbl' i)"
    if "i < length tbl'" for i
  proof (cases "i = r")
    case False
    have il: "i < length tbl" using that n(1) by simp
    note t = table_okD [OF assms(1) il] and ni = n(3) [OF il False]
    have "\<not> free tbl i" if "prev = Some i" using inserted_prev assms(2) that by (auto simp: last_of_chain_def)
    moreover have "me_next_slot (tbl ! i) = NONE32 \<or> me_next_slot (tbl ! i) < length tbl \<and> \<not> free tbl i" using t(2,3) by blast
    ultimately show ?thesis using t(1) n(1) rf(1) unfolding ni by (cases "prev = Some i") simp_all
  qed (use n(1,2) rf in simp)
  moreover have "0 < length tbl' \<and> length tbl' < NONE32" using assms(1) n(1) by (simp add: table_ok_def)
  ultimately show ?thesis unfolding table_ok_def by metis
qed

lemma search_inserted:
  assumes "table_ok tbl" "inserted tbl r e prev tbl'" "i < length tbl" "len \<le> length key" "len \<le> 18"
    "take len key \<noteq> take len (me_key e)"
  shows "kv_search key len tbl' i = kv_search key len tbl i"
proof -
  note n = inserted_nth [OF assms(2)]
  have rf: "r < length tbl" "free tbl r" "me_next_slot e = NONE32" "length (me_key e) = 18" "me_mem_offset e \<noteq> NONE64"
    using assms(2) by (auto simp: inserted_def)
  have sr: "kv_search key len tbl' r = Some None" using kv_search_step [of r tbl' len key] rf n assms(4-6) by simp
  show ?thesis using assms(1,3)
  proof (induction rule: chain_induct)
    case (link i)
    note k = table_okD(1) [OF assms(1) link.hyps]
    show ?case
    proof (cases "free tbl i")
      case True
      then show ?thesis using link.hyps n(1) n(3) [OF link.hyps] sr kv_search_free [of i tbl] kv_search_free [of i tbl']
          inserted_prev [of tbl r e i tbl'] assms(2) by (cases "i = r") (auto simp: last_of_chain_def)
    next
      case nf: False
      then have ir: "i \<noteq> r" using rf(2) by auto
      note ni = n(3) [OF link.hyps ir]
      note old = kv_search_step [OF link.hyps nf assms(4), unfolded k, OF assms(5)]
      have new: "kv_search key len tbl' i =
         (if take len key = take len (me_key (tbl ! i)) then Some (Some i)
          else if me_next_slot (tbl' ! i) = NONE32 then Some None else kv_search key len tbl' (me_next_slot (tbl' ! i)))"
        using kv_search_step [of i tbl' len key] link.hyps n(1) ni nf k assms(4,5) by simp
      show ?thesis
      proof (cases "prev = Some i")
        case True
        then have lc: "last_of_chain tbl i" using inserted_prev assms(2) by blast
        then have "kv_search key len tbl (me_next_slot (tbl ! i)) = Some None" if h: "me_next_slot (tbl ! i) \<noteq> NONE32"
          using h kv_search_free [OF table_okD(2) [OF assms(1) link.hyps h]] by (auto simp: last_of_chain_def)
        then show ?thesis using True old new ni sr by simp
      next
        case False
        then show ?thesis using old new ni link.IH by simp
      qed
    qed
  qed
qed

lemma search_new_key:
  assumes "table_ok tbl" "inserted tbl r e (Some p) tbl'" "i < length tbl" "len \<le> length key" "len \<le> 18"
    "take len key = take len (me_key e)" "kv_search key len tbl i = Some None" "kv_tail tbl q i = Some p" "\<not> free tbl i"
  shows "kv_search key len tbl' i = Some (Some r)"
proof -
  note n = inserted_nth [OF assms(2)]
  have rf: "r < length tbl" "free tbl r" "length (me_key e) = 18" "me_mem_offset e \<noteq> NONE64"
    using assms(2) by (auto simp: inserted_def)
  have rn: "r \<noteq> NONE32" using rf(1) assms(1) by (auto simp: table_ok_def)
  have sr: "kv_search key len tbl' r = Some (Some r)" using kv_search_step [of r tbl' len key] rf n assms(4-6) by simp
  show ?thesis using assms(1,3,7-)
  proof (induction arbitrary: q rule: chain_induct)
    case (link i)
    have ir: "i \<noteq> r" using link.prems(3) rf(2) by auto
    note ni = n(3) [OF link.hyps ir] and k = table_okD(1) [OF assms(1) link.hyps]
    note old = kv_search_step [OF link.hyps link.prems(3) assms(4), unfolded k, OF assms(5)]
    note tl = kv_tail_step [OF link.hyps, of q]
    have nm: "take len key \<noteq> take len (me_key (tbl ! i))" using old link.prems(1) by auto
    have new: "kv_search key len tbl' i =
         (if me_next_slot (tbl' ! i) = NONE32 then Some None else kv_search key len tbl' (me_next_slot (tbl' ! i)))"
      using kv_search_step [of i tbl' len key] link.hyps n(1) ni link.prems(3) k nm assms(4,5) by simp
    show ?case
    proof (cases "p = i")
      case True
      then show ?thesis using new ni rn sr by simp
    next
      case False
      have nx: "me_next_slot (tbl ! i) \<noteq> NONE32" using False link.prems(2,3) tl by auto
      note nl = table_okD(2) [OF assms(1) link.hyps nx]
      have t: "kv_tail tbl i (me_next_slot (tbl ! i)) = Some p" using nx link.prems(2,3) tl by simp
      have nf: "\<not> free tbl (me_next_slot (tbl ! i))" using t False kv_tail_step [OF nl, of i] by auto
      have s: "kv_search key len tbl (me_next_slot (tbl ! i)) = Some None" using link.prems(1) nx nm old by simp
      show ?thesis using link.IH [OF nx s t nf] new False ni nx by simp
    qed
  qed
qed

section \<open>The table as a map\<close>

text \<open>
  The keys have \<open>len\<close> bytes. The slot of a key, and the operations in terms of it.
\<close>

definition kv_slot :: "nat \<Rightarrow> nat list \<Rightarrow> mapping_entry list \<Rightarrow> nat option" where
  "kv_slot len key tbl = (case get_hash_slot (length tbl) key len of None \<Rightarrow> None
     | Some h \<Rightarrow> (case kv_search key len tbl h of Some r \<Rightarrow> r | None \<Rightarrow> None))"

definition key_ok :: "nat \<Rightarrow> nat list \<Rightarrow> bool" where
  "key_ok len key \<longleftrightarrow> len \<le> length key \<and> len \<le> 18"

lemma kv_slot_search:
  assumes "table_ok tbl" "key_ok len key"
  shows "\<exists>h. get_hash_slot (length tbl) key len = Some h \<and> h < length tbl \<and> kv_search key len tbl h = Some (kv_slot len key tbl)"
proof -
  obtain h where h: "get_hash_slot (length tbl) key len = Some h" "h < length tbl"
    using hash_slot_ok [of len key "length tbl"] assms by (auto simp: key_ok_def table_ok_def)
  obtain r where "kv_search key len tbl h = Some r"
    using kv_search_total [OF assms(1) h(2), of len key] assms(2) by (auto simp: key_ok_def)
  then show ?thesis using h by (simp add: kv_slot_def)
qed

lemma kv_slot_Some:
  assumes "table_ok tbl" "key_ok len key" "kv_slot len key tbl = Some s"
  shows "s < length tbl \<and> \<not> free tbl s \<and> take len key = take len (me_key (tbl ! s))"
proof -
  obtain h where "h < length tbl" "kv_search key len tbl h = Some (Some s)" using kv_slot_search [OF assms(1,2)] assms(3) by auto
  then show ?thesis using kv_search_total [OF assms(1), of h len key] assms(2) by (auto simp: key_ok_def)
qed

lemma get_mapping_entry_slot:
  assumes "table_ok tbl" "key_ok len key"
  shows "\<exists>e. get_mapping_entry_by_key (length tbl) key len tbl = Some e \<and>
     (case kv_slot len key tbl of None \<Rightarrow> e = erased_entry
      | Some s \<Rightarrow> me_mem_offset e = me_mem_offset (tbl ! s) \<and> me_length e = me_length (tbl ! s))"
  using kv_slot_search [OF assms] kv_slot_Some [OF assms] by (cases "kv_slot len key tbl") (auto simp: get_mapping_entry_by_key_def)

lemma new_mapping_entry_inserted:
  assumes "table_ok tbl" "key_ok len key" "kv_slot len key tbl = None" "off < storage_size" "storage_size \<le> NONE64"
    "j < length tbl" "free tbl j"
  shows "\<exists>r e prev tbl'. new_mapping_entry_by_key storage_size (length tbl) key len vl off tbl = Some tbl' \<and> inserted tbl r e prev tbl' \<and>
     me_mem_offset e = off \<and> me_length e = vl \<and> take len (me_key e) = take len key \<and> kv_slot len key tbl' = Some r"
proof -
  obtain h where h: "get_hash_slot (length tbl) key len = Some h" "h < length tbl" "kv_search key len tbl h = Some None"
    using kv_slot_search [OF assms(1,2)] assms(3) by auto
  have kl: "len \<le> length key" "len \<le> 18" using assms(2) by (auto simp: key_ok_def)
  have on: "off \<noteq> NONE64" using assms(4,5) by linarith
  let ?e = "\<lambda>r. (tbl ! r)\<lparr>me_key := take len key @ drop len (me_key (tbl ! r)), me_mem_offset := off, me_length := vl\<rparr>"
  have e: "me_mem_offset (?e r) = off \<and> me_length (?e r) = vl \<and> take len (me_key (?e r)) = take len key" for r using kl by (simp add: min_def)
  show ?thesis
  proof (cases "free tbl h")
    case True
    have i: "inserted tbl h (?e h) None (tbl[h := ?e h])"
      using True h(2) on kl table_okD [OF assms(1) h(2)] by (simp add: inserted_def)
    have "new_mapping_entry_by_key storage_size (length tbl) key len vl off tbl = Some (tbl[h := ?e h])"
      using h True assms(4) kl table_okD(1) [OF assms(1) h(2)] by (simp add: new_mapping_entry_by_key_def Let_def)
    moreover have "kv_slot len key (tbl[h := ?e h]) = Some h"
      using kv_search_step [of h "tbl[h := ?e h]" len key] h on kl e [of h] table_okD(1) [OF assms(1) h(2)] by (simp add: kv_slot_def)
    ultimately show ?thesis using i e by blast
  next
    case False
    obtain p where p: "kv_tail tbl NONE32 h = Some p" "last_of_chain tbl p"
      using kv_tail_total [OF assms(1) h(2) False, of NONE32] by (auto simp: last_of_chain_def)
    have pl: "p < length tbl" using p(2) by (simp add: last_of_chain_def)
    obtain r where r: "kv_probe (length tbl) tbl p = Some r" "r < length tbl" "free tbl r"
      using kv_probe_total [OF pl assms(6,7)] assms(1) by (auto simp: table_ok_def)
    let ?t = "tbl[r := ?e r, p := (tbl ! p)\<lparr>me_next_slot := r\<rparr>]"
    have pr: "p \<noteq> r" "p \<noteq> NONE32" using p(2) r(3) pl assms(1) by (auto simp: last_of_chain_def table_ok_def)
    have i: "inserted tbl r (?e r) (Some p) ?t"
      using r(2,3) p(2) on kl table_okD [OF assms(1) r(2)] by (simp add: inserted_def)
    have "new_mapping_entry_by_key storage_size (length tbl) key len vl off tbl = Some ?t"
      using h False assms(4) kl table_okD(1) [OF assms(1) r(2)] p(1) r pl pr
      by (simp add: new_mapping_entry_by_key_def find_next_slot_def chain_mapping_def Let_def nth_list_update)
    moreover have "kv_slot len key ?t = Some r"
      using search_new_key [OF assms(1) i h(2) kl _ h(3) p(1) False] e [of r] h(1) by (simp add: kv_slot_def)
    ultimately show ?thesis using i e by blast
  qed
qed

lemma kv_slot_inserted:
  assumes "table_ok tbl" "key_ok len key" "inserted tbl r e prev tbl'" "take len key \<noteq> take len (me_key e)"
  shows "kv_slot len key tbl' = kv_slot len key tbl"
proof -
  obtain h where h: "get_hash_slot (length tbl) key len = Some h" "h < length tbl" using kv_slot_search [OF assms(1,2)] by auto
  have "kv_search key len tbl' h = kv_search key len tbl h"
    using search_inserted [OF assms(1,3) h(2) _ _ assms(4)] assms(2) by (auto simp: key_ok_def)
  then show ?thesis using h inserted_nth(1) [OF assms(3)] by (simp add: kv_slot_def)
qed

section \<open>Updating and deleting an entry\<close>

lemma nth_update_if: "i < length xs \<Longrightarrow> xs[s := x] ! i = (if i = s then x else xs ! i)"
  by (auto simp: nth_list_update)

lemma search_same_links:
  assumes "table_ok tbl" "i < length tbl" "length tbl' = length tbl" "key_ok len key"
    "\<And>i. i < length tbl \<Longrightarrow> me_key (tbl' ! i) = me_key (tbl ! i) \<and> (free tbl' i \<longleftrightarrow> free tbl i) \<and> me_next_slot (tbl' ! i) = me_next_slot (tbl ! i)"
  shows "kv_search key len tbl' i = kv_search key len tbl i"
  using assms(1,2)
proof (induction rule: chain_induct)
  case (link i)
  note k = table_okD(1) [OF assms(1) link.hyps] and s = assms(5) [OF link.hyps]
  have kl: "len \<le> length key" "len \<le> 18" using assms(4) by (auto simp: key_ok_def)
  show ?case
  proof (cases "free tbl i")
    case True
    then show ?thesis using kv_search_free link.hyps s assms(3) by simp
  next
    case False
    then show ?thesis using kv_search_step [of i tbl len key] kv_search_step [of i tbl' len key] link s k kl assms(3) by simp
  qed
qed

lemma table_ok_same_links:
  assumes "table_ok tbl" "length tbl' = length tbl"
    "\<And>i. i < length tbl \<Longrightarrow> me_key (tbl' ! i) = me_key (tbl ! i) \<and> (free tbl' i \<longleftrightarrow> free tbl i) \<and> me_next_slot (tbl' ! i) = me_next_slot (tbl ! i)"
  shows "table_ok tbl'"
proof -
  obtain rank where "links_down tbl rank" using assms(1) by (auto simp: table_ok_def)
  then have "links_down tbl' rank" using assms(2,3) by (simp add: links_down_def)
  then show ?thesis using assms by (auto simp: table_ok_def)
qed

lemma update_mapping_entry_slot:
  assumes "table_ok tbl" "key_ok (cmd_key_length cmd) (kv_key cmd)" "kv_slot (cmd_key_length cmd) (kv_key cmd) tbl = Some s"
  shows "update_mapping_entry (length tbl) cmd tbl = Some (0, tbl[s := (tbl ! s)\<lparr>me_length := cmd_value_length cmd\<rparr>])"
  using kv_slot_search [OF assms(1,2)] kv_slot_Some [OF assms(1,2)] assms(3) by (auto simp: update_mapping_entry_def)

lemma kv_slot_update:
  assumes "table_ok tbl" "key_ok len key"
  shows "kv_slot len key (tbl[s := (tbl ! s)\<lparr>me_length := n\<rparr>]) = kv_slot len key tbl"
proof -
  obtain h where h: "get_hash_slot (length tbl) key len = Some h" "h < length tbl" using kv_slot_search [OF assms] by auto
  have "kv_search key len (tbl[s := (tbl ! s)\<lparr>me_length := n\<rparr>]) h = kv_search key len tbl h"
    by (rule search_same_links [OF assms(1) h(2) _ assms(2)]) (auto simp: nth_update_if)
  then show ?thesis using h by (simp add: kv_slot_def)
qed

lemma table_ok_update: "table_ok tbl \<Longrightarrow> table_ok (tbl[s := (tbl ! s)\<lparr>me_length := n\<rparr>])"
  by (erule table_ok_same_links) (auto simp: nth_update_if)

text \<open>The slots that can be reached from a slot over the links.\<close>

inductive reaches :: "mapping_entry list \<Rightarrow> nat \<Rightarrow> nat \<Rightarrow> bool" for tbl where
  reaches_self: "reaches tbl i i"
| reaches_next: "me_next_slot (tbl ! i) \<noteq> NONE32 \<Longrightarrow> reaches tbl (me_next_slot (tbl ! i)) j \<Longrightarrow> reaches tbl i j"

lemma reaches_iff: "reaches tbl i j \<longleftrightarrow> i = j \<or> me_next_slot (tbl ! i) \<noteq> NONE32 \<and> reaches tbl (me_next_slot (tbl ! i)) j"
  by (auto intro: reaches.intros elim: reaches.cases)

lemma reaches_less:
  assumes "table_ok tbl" "reaches tbl i j" "i < length tbl"
  shows "j < length tbl"
  using assms(2,3) by induction (use table_okD(2) [OF assms(1)] in auto)

lemma reaches_antisym:
  assumes "table_ok tbl" "reaches tbl i j" "reaches tbl j i" "i < length tbl"
  shows "i = j"
proof -
  obtain rank where r: "links_down tbl rank" using assms(1) by (auto simp: table_ok_def)
  have le: "a = b \<or> rank b < rank a" if "reaches tbl a b" "a < length tbl" for a b
    using that
  proof induction
    case (reaches_next i j)
    have "rank (me_next_slot (tbl ! i)) < rank i" using r reaches_next by (simp add: links_down_def)
    then show ?case using reaches_next table_okD(2) [OF assms(1)] by fastforce
  qed simp
  show ?thesis using le [OF assms(2,4)] le [OF assms(3) reaches_less [OF assms(1,2,4)]] by auto
qed

lemma search_reaches:
  assumes "table_ok tbl" "i < length tbl" "key_ok len key" "kv_search key len tbl i = Some (Some s)"
  shows "reaches tbl i s"
  using assms(1,2,4)
proof (induction rule: chain_induct)
  case (link i)
  have nf: "\<not> free tbl i" using link.prems kv_search_free [OF link.hyps] by auto
  have "kv_search key len tbl i = (if take len key = take len (me_key (tbl ! i)) then Some (Some i)
      else if me_next_slot (tbl ! i) = NONE32 then Some None else kv_search key len tbl (me_next_slot (tbl ! i)))"
    by (rule kv_search_step [OF link.hyps nf]) (use assms(3) table_okD(1) [OF assms(1) link.hyps] in \<open>auto simp: key_ok_def\<close>)
  then show ?case using link by (auto split: if_splits intro: reaches.intros)
qed

lemma table_ok_erase:
  assumes "table_ok tbl" "s < length tbl" shows "table_ok (tbl[s := erased_entry])"
proof -
  obtain rank where "links_down tbl rank" using assms(1) by (auto simp: table_ok_def)
  then have "links_down (tbl[s := erased_entry]) rank" by (auto simp: links_down_def nth_update_if erased_entry_def)
  then show ?thesis using assms by (auto simp: table_ok_def nth_update_if erased_entry_def)
qed

text \<open>Erasing a slot hides exactly the entries that a search reaches only through it.\<close>

lemma search_erased:
  assumes "table_ok tbl" "i < length tbl" "key_ok len key" "s < length tbl"
  shows "kv_search key len (tbl[s := erased_entry]) i =
    (case kv_search key len tbl i of
       Some (Some t) \<Rightarrow> if reaches tbl i s \<and> reaches tbl s t then Some None else Some (Some t)
     | r \<Rightarrow> r)"
  using assms(1,2)
proof (induction rule: chain_induct)
  case (link i)
  let ?t = "tbl[s := erased_entry]"
  note k = table_okD(1) [OF assms(1) link.hyps]
  have kl: "len \<le> length key" "len \<le> 18" using assms(3) by (auto simp: key_ok_def)
  have il: "i < length ?t" using link.hyps by simp
  consider (s) "i = s" | (free) "i \<noteq> s" "free tbl i" | (hit) "i \<noteq> s" "\<not> free tbl i" "take len key = take len (me_key (tbl ! i))"
    | (miss) "i \<noteq> s" "\<not> free tbl i" "take len key \<noteq> take len (me_key (tbl ! i))" by blast
  then show ?case
  proof cases
    case s
    have e: "kv_search key len ?t i = Some None" by (rule kv_search_free [OF il]) (use s link.hyps in \<open>simp add: erased_entry_def\<close>)
    obtain r where r: "kv_search key len tbl i = Some r" using kv_search_total [OF assms(1) link.hyps kl] by blast
    show ?thesis using e r s search_reaches [OF assms(1) link.hyps assms(3)] reaches_self by (cases r) auto
  next
    case free
    then have "kv_search key len ?t i = Some None" "kv_search key len tbl i = Some None"
      using kv_search_free [OF il] kv_search_free [OF link.hyps] by auto
    then show ?thesis by simp
  next
    case hit
    then have "kv_search key len ?t i = Some (Some i)" "kv_search key len tbl i = Some (Some i)"
      using kv_search_step [OF il] kv_search_step [OF link.hyps] kl k by auto
    then show ?thesis using reaches_antisym [OF assms(1) _ _ link.hyps, of s] hit(1) by auto
  next
    case miss
    have n: "kv_search key len ?t i = (if me_next_slot (tbl ! i) = NONE32 then Some None else kv_search key len ?t (me_next_slot (tbl ! i)))"
      using kv_search_step [OF il] kl k miss by simp
    have o: "kv_search key len tbl i = (if me_next_slot (tbl ! i) = NONE32 then Some None else kv_search key len tbl (me_next_slot (tbl ! i)))"
      using kv_search_step [OF link.hyps miss(2)] kl k miss(3) by simp
    show ?thesis
    proof (cases "me_next_slot (tbl ! i) = NONE32")
      case True
      then show ?thesis using n o by simp
    next
      case False
      have "reaches tbl i s \<longleftrightarrow> reaches tbl (me_next_slot (tbl ! i)) s" using reaches_iff [of tbl i s] miss(1) False by blast
      then show ?thesis using n o False link.IH by (simp split: option.splits)
    qed
  qed
qed

lemma delete_mapping_entry_slot:
  assumes "table_ok tbl" "key_ok (cmd_key_length cmd) (kv_key cmd)"
  shows "delete_mapping_entry (length tbl) cmd tbl = Some (erased_entry,
     case kv_slot (cmd_key_length cmd) (kv_key cmd) tbl of None \<Rightarrow> tbl | Some s \<Rightarrow> tbl[s := erased_entry])"
  using kv_slot_search [OF assms] kv_slot_Some [OF assms] by (auto simp: delete_mapping_entry_def split: option.splits)

end
