(* ===== verification/Kv_Ftl.thy ===== *)
theory Kv_Ftl
  imports Kv_Table
begin

text \<open>
  The commands of the key-value device (\<open>kv_ftl.c\<close>).

  \<^item> The device is built with the append-only allocator (\<open>ALLOCATOR_TYPE\<close>), whose state is \<open>kv_pool\<close>.
  \<^item> \<open>nvmev_vdev->storage_mapped\<close> is the memory of the only namespace, the first area of \<open>d_ns\<close>.
  \<^item> The loops that copy along the page addresses of a command are the loop of \<open>__do_perform_io\<close>, with
    every page mapped through its page frame.
  \<^item> Memory allocation succeeds. A buffer that has just been allocated holds zeros; every byte
    of it that is used has been written before.
\<close>

definition KV_SUCCESS :: nat where "KV_SUCCESS = 0"
definition KV_ERR_KEY_NOT_EXIST :: nat where "KV_ERR_KEY_NOT_EXIST = 0x310"

record kv_iter_context =
  it_prefix :: nat
  it_bitmask :: nat
  it_buf :: "nat \<Rightarrow> nat"
  it_byteswritten :: nat
  it_bufoffset :: nat
  it_end :: bool
  it_current_pos :: nat

record kv_ftl =
  kv_mapping_table :: "mapping_entry list"
  hash_slots :: nat
  kv_pool :: append_pool
  iter_handle :: "kv_iter_context option list"

section \<open>Copying\<close>

definition kv_io_cmd_value_prp :: "nvme_kv_command \<Rightarrow> nat \<Rightarrow> nat" where
  "kv_io_cmd_value_prp cmd prp_num =
     (if prp_num \<noteq> 1 \<and> prp_num \<noteq> 2 then 0 else if prp_num = 1 then kv_prp1 cmd else kv_prp2 cmd)"

definition kv_io_command :: "nat \<Rightarrow> nvme_kv_command \<Rightarrow> nvme_io_command" where
  "kv_io_command opcode cmd = \<lparr>rw_opcode = opcode, rw_nsid = 1, rw_slba = 0, rw_length = 0, rw_control = 0, rw_dsmgmt = 0,
     c_command_id = 0, c_prp1 = kv_io_cmd_value_prp cmd 1, c_prp2 = kv_io_cmd_value_prp cmd 2\<rparr>"

definition kv_copy :: "nat \<Rightarrow> nvme_kv_command \<Rightarrow> nat \<Rightarrow> nat \<Rightarrow> 'b io_dev \<Rightarrow> 'b io_dev option" where
  "kv_copy opcode cmd offset len d = perform_loop (\<lambda>_. True) (\<lambda>_. True) (kv_io_command opcode cmd) 0 0 0 None len offset d"

text \<open>From the host into a buffer of the device, and from a buffer of the device to the host.\<close>

definition kv_gather :: "nvme_kv_command \<Rightarrow> nat \<Rightarrow> 'b io_dev \<Rightarrow> nat list option" where
  "kv_gather cmd len d = do {
     d' \<leftarrow> kv_copy nvme_cmd_write cmd 0 len (d\<lparr>d_ns := [\<lparr>na_size = len, na_bytes = \<lambda>_. 0\<rparr>]\<rparr>);
     ns \<leftarrow> rd (d_ns d') 0;
     Some (mem_bytes (na_bytes ns) 0 len)
   }"

definition kv_scatter :: "nvme_kv_command \<Rightarrow> nat \<Rightarrow> (nat \<Rightarrow> nat) \<Rightarrow> nat \<Rightarrow> 'b io_dev \<Rightarrow> 'b io_dev option" where
  "kv_scatter cmd cap buf len d = do {
     d' \<leftarrow> kv_copy nvme_cmd_read cmd 0 len (d\<lparr>d_ns := [\<lparr>na_size = cap, na_bytes = buf\<rparr>]\<rparr>);
     Some (d'\<lparr>d_ns := d_ns d\<rparr>)
   }"

section \<open>Store, retrieve, exist, delete\<close>

definition allocate_mem_offset_by_length :: "nat \<Rightarrow> kv_ftl \<Rightarrow> (nat \<times> kv_ftl) option" where
  "allocate_mem_offset_by_length val_len f = do {
     (offset, pool) \<leftarrow> append_only_allocate val_len (kv_pool f);
     Some (if offset = NONE64 then 0 else offset, f\<lparr>kv_pool := pool\<rparr>)
   }"

definition allocate_mem_offset :: "nvme_kv_command \<Rightarrow> kv_ftl \<Rightarrow> (nat \<times> kv_ftl) option" where
  "allocate_mem_offset cmd f =
     (if kv_opcode cmd = nvme_cmd_kv_store then allocate_mem_offset_by_length (cmd_value_length cmd) f else Some (0, f))"

definition kv_store :: "nvme_kv_command \<Rightarrow> mapping_entry \<Rightarrow> kv_ftl \<times> 'b io_dev \<Rightarrow> (kv_ftl \<times> 'b io_dev) option" where
  "kv_store cmd entry s = (case s of (f, d) \<Rightarrow>
     if me_mem_offset entry = NONE64 then do {
       (offset, f1) \<leftarrow> allocate_mem_offset cmd f;
       d' \<leftarrow> kv_copy nvme_cmd_write cmd offset (cmd_value_length cmd) d;
       ns \<leftarrow> rd (d_ns d') 0;
       tbl \<leftarrow> new_mapping_entry (na_size ns) (hash_slots f1) cmd offset (kv_mapping_table f1);
       Some (f1\<lparr>kv_mapping_table := tbl\<rparr>, d')
     } else do {
       d' \<leftarrow> kv_copy nvme_cmd_write cmd (me_mem_offset entry) (cmd_value_length cmd) d;
       if cmd_value_length cmd \<noteq> me_length entry \<and> cmd_value_length cmd \<le> SMALL_LENGTH \<and> me_length entry \<le> SMALL_LENGTH
       then do {
         (_, tbl) \<leftarrow> update_mapping_entry (hash_slots f) cmd (kv_mapping_table f);
         Some (f\<lparr>kv_mapping_table := tbl\<rparr>, d')
       } else Some (f, d')
     })"

definition do_perform_kv_io ::
  "nvme_kv_command \<Rightarrow> nat \<Rightarrow> kv_ftl \<times> 'b io_dev \<Rightarrow> (nat \<times> nat \<times> kv_ftl \<times> 'b io_dev) option" where
  "do_perform_kv_io cmd status s = (case s of (f, d) \<Rightarrow> do {
     entry \<leftarrow> get_mapping_entry (hash_slots f) cmd (kv_mapping_table f);
     if kv_opcode cmd = nvme_cmd_kv_store then do {
       s' \<leftarrow> kv_store cmd entry (f, d);
       Some (0, status, s')
     } else if kv_opcode cmd = nvme_cmd_kv_retrieve then
       if me_mem_offset entry = NONE64 then Some (0, KV_ERR_KEY_NOT_EXIST, f, d)
       else do {
         let len = min (me_length entry) (cmd_value_length cmd);
         d' \<leftarrow> kv_copy nvme_cmd_read cmd (me_mem_offset entry) len d;
         Some (u32 len, status, f, d')
       }
     else if kv_opcode cmd = nvme_cmd_kv_exist then
       if me_mem_offset entry = NONE64 then Some (0, KV_ERR_KEY_NOT_EXIST, f, d) else Some (0, status, f, d)
     else if kv_opcode cmd = nvme_cmd_kv_delete then
       if me_mem_offset entry = NONE64 then Some (0, KV_ERR_KEY_NOT_EXIST, f, d)
       else do {
         (_, tbl) \<leftarrow> delete_mapping_entry (hash_slots f) cmd (kv_mapping_table f);
         Some (0, status, f\<lparr>kv_mapping_table := tbl\<rparr>, d)
       }
     else Some (0, status, f, d)
   })"

section \<open>Batches\<close>

text \<open>
  Different from a store of its own, a store of a batch does not change the length of an
  existing entry.
\<close>

definition do_perform_kv_batched_io ::
  "nat \<Rightarrow> nat list \<Rightarrow> nat \<Rightarrow> nat list \<Rightarrow> nat \<Rightarrow> kv_ftl \<times> 'b io_dev \<Rightarrow> (kv_ftl \<times> 'b io_dev) option" where
  "do_perform_kv_batched_io opcode key key_len val val_len s = (case s of (f, d) \<Rightarrow> do {
     entry \<leftarrow> get_mapping_entry_by_key (hash_slots f) key key_len (kv_mapping_table f);
     if opcode \<noteq> nvme_cmd_kv_store then Some (f, d)
     else do {
       (offset, f1) \<leftarrow> (if me_mem_offset entry = NONE64 then allocate_mem_offset_by_length val_len f else Some (me_mem_offset entry, f));
       ns \<leftarrow> rd (d_ns d) 0;
       NVMEV_ASSERT (offset + val_len \<le> na_size ns);
       let d' = d\<lparr>d_ns := (d_ns d)[0 := ns\<lparr>na_bytes := mem_write offset (take val_len val) (na_bytes ns)\<rparr>]\<rparr>;
       if me_mem_offset entry = NONE64 then do {
         tbl \<leftarrow> new_mapping_entry_by_key (na_size ns) (hash_slots f1) key key_len val_len offset (kv_mapping_table f1);
         Some (f1\<lparr>kv_mapping_table := tbl\<rparr>, d')
       } else Some (f1, d')
     }
   })"

definition ALIGN_LEN :: nat where "ALIGN_LEN = 64"

definition aligned :: "nat \<Rightarrow> nat" where "aligned n = ((n - 1) div ALIGN_LEN + 1) * ALIGN_LEN"

definition rd_bytes :: "nat \<Rightarrow> nat \<Rightarrow> nat list \<Rightarrow> nat list option" where
  "rd_bytes off n buf = (if off + n \<le> length buf then Some (get_bytes off n buf) else None)"

text \<open>
  The head of the payload is 512 bytes with 16 bytes for every sub-command; the keys and the values
  follow it. The key is copied into an array of 20 bytes, the value into one of 4097 bytes.
\<close>

definition kv_batch_step ::
  "nat list \<Rightarrow> nat \<Rightarrow> nat \<times> kv_ftl \<times> 'b io_dev \<Rightarrow> (nat \<times> kv_ftl \<times> 'b io_dev) option" where
  "kv_batch_step buf i t = (case t of (payload_offset, s) \<Rightarrow> do {
     attr \<leftarrow> rd_bytes (16 * i) 16 buf;
     let opcode = attr ! 0;
     let key_len = attr ! 1;
     let val_len = le_value (get_bytes 4 4 attr);
     NVMEV_ASSERT (key_len \<le> 20 \<and> val_len \<le> 4097);
     k \<leftarrow> rd_bytes (512 + payload_offset) key_len buf;
     v \<leftarrow> rd_bytes (512 + payload_offset + aligned key_len) val_len buf;
     s' \<leftarrow> do_perform_kv_batched_io opcode (k @ replicate (20 - key_len) 0) key_len (v @ replicate (4097 - val_len) 0) val_len s;
     Some (payload_offset + (aligned key_len + aligned val_len + ALIGN_LEN), s')
   })"

definition do_perform_kv_batch :: "nvme_kv_command \<Rightarrow> nat \<Rightarrow> kv_ftl \<times> 'b io_dev \<Rightarrow> (nat \<times> nat \<times> kv_ftl \<times> 'b io_dev) option" where
  "do_perform_kv_batch cmd status s = do {
     buf \<leftarrow> kv_gather cmd (cmd_value_length cmd) (snd s);
     (_, s') \<leftarrow> foldM (kv_batch_step buf) [0..<kv_rsvd4 cmd] (ALIGN_LEN, s);
     Some (0, status, s')
   }"

section \<open>Iterators\<close>

definition iter_val :: "nvme_kv_command \<Rightarrow> nat" where "iter_val cmd = le_value (get_bytes 0 4 (kv_key cmd))"
definition iter_bitmask :: "nvme_kv_command \<Rightarrow> nat" where "iter_bitmask cmd = le_value (get_bytes 4 4 (kv_key cmd))"
definition cmd_iter_handle :: "nvme_kv_command \<Rightarrow> nat" where "cmd_iter_handle cmd = kv_key_len cmd"

text \<open>There are 17 handles, of which the first is not used.\<close>

definition kv_iter_open :: "nvme_kv_command \<Rightarrow> nat \<Rightarrow> kv_ftl \<Rightarrow> (nat \<times> nat \<times> kv_ftl) option" where
  "kv_iter_open cmd status f = (case find (\<lambda>i. iter_handle f ! i = None) [1..<17] of
     None \<Rightarrow> Some (1, status, f)
   | Some iter \<Rightarrow> do {
       hs \<leftarrow> wr (iter_handle f) iter (Some \<lparr>it_prefix = iter_val cmd, it_bitmask = iter_bitmask cmd, it_buf = \<lambda>_. 0,
         it_byteswritten = 0, it_bufoffset = 0, it_end = False, it_current_pos = 0\<rparr>);
       Some (iter, 0, f\<lparr>iter_handle := hs\<rparr>)
     })"

definition kv_iter_close :: "nvme_kv_command \<Rightarrow> nat \<Rightarrow> kv_ftl \<Rightarrow> (nat \<times> nat \<times> kv_ftl) option" where
  "kv_iter_close cmd status f = do {
     hs \<leftarrow> wr (iter_handle f) (cmd_iter_handle cmd) None;
     Some (0, 0, f\<lparr>iter_handle := hs\<rparr>)
   }"

definition iter_matches :: "kv_iter_context \<Rightarrow> mapping_entry \<Rightarrow> bool" where
  "iter_matches h e \<longleftrightarrow> me_mem_offset e \<noteq> NONE64 \<and>
     Bit_Operations.and (le_value (get_bytes 0 4 (me_key e))) (it_bitmask h) = Bit_Operations.and (it_prefix h) (it_bitmask h)"

text \<open>The loop over the slots: the position, the fill level of the buffer, the number of keys, the buffer, and whether the end was reached.\<close>

function iter_scan ::
  "mapping_entry list \<Rightarrow> nat \<Rightarrow> kv_iter_context \<Rightarrow> nat \<Rightarrow> nat \<Rightarrow> nat \<Rightarrow> (nat \<Rightarrow> nat) \<Rightarrow> (nat \<times> nat \<times> nat \<times> (nat \<Rightarrow> nat) \<times> bool) option" where
  "iter_scan tbl slots h pos buf_offset nr_keys buf =
     (if \<not> pos < slots then Some (pos, buf_offset, nr_keys, buf, False)
      else do {
        e \<leftarrow> rd tbl pos;
        if iter_matches h e \<and> buf_offset + 4 + 16 > 1024 then Some (pos, buf_offset, nr_keys, buf, False)
        else do {
          let hit = iter_matches h e;
          let buf' = (if hit then mem_write (buf_offset + 4) (take 16 (me_key e)) (mem_write buf_offset (le_bytes 4 16) buf) else buf);
          let off' = (if hit then buf_offset + 4 + 16 else buf_offset);
          let nr' = (if hit then nr_keys + 1 else nr_keys);
          if pos + 1 = slots then Some (pos + 1, off', nr', buf', True)
          else iter_scan tbl slots h (pos + 1) off' nr' buf'
        }
      })"
  by pat_completeness auto
termination
  by (relation "measure (\<lambda>(_, slots, _, pos, _). slots - pos)") auto

declare iter_scan.simps [simp del]

definition kv_iter_read :: "nvme_kv_command \<Rightarrow> nat \<Rightarrow> kv_ftl \<times> 'b io_dev \<Rightarrow> (nat \<times> nat \<times> kv_ftl \<times> 'b io_dev) option" where
  "kv_iter_read cmd status s = (case s of (f, d) \<Rightarrow> do {
     p \<leftarrow> rd (iter_handle f) (cmd_iter_handle cmd);
     case p of
       None \<Rightarrow> Some (0, status, f, d)
     | Some h \<Rightarrow> do {
         (pos, buf_offset, nr_keys, buf, end) \<leftarrow>
           iter_scan (kv_mapping_table f) (hash_slots f) h (it_current_pos h) 4 0 (it_buf h);
         let buf' = mem_write 0 (le_bytes 4 nr_keys) buf;
         d' \<leftarrow> kv_scatter cmd 32768 buf' buf_offset d;
         Some (buf_offset, if end then 0x393 else 0,
           f\<lparr>iter_handle := (iter_handle f)[cmd_iter_handle cmd := Some (h\<lparr>it_buf := buf', it_current_pos := pos\<rparr>)]\<rparr>, d')
       }
   })"

definition ITER_OPTION_OPEN :: nat where "ITER_OPTION_OPEN = 1"
definition ITER_OPTION_CLOSE :: nat where "ITER_OPTION_CLOSE = 2"

definition do_perform_kv_iter_io :: "nvme_kv_command \<Rightarrow> nat \<Rightarrow> kv_ftl \<times> 'b io_dev \<Rightarrow> (nat \<times> nat \<times> kv_ftl \<times> 'b io_dev) option" where
  "do_perform_kv_iter_io cmd status s = (case s of (f, d) \<Rightarrow>
     if kv_opcode cmd = nvme_cmd_kv_iter_req then
       if Bit_Operations.and (kv_option cmd) ITER_OPTION_OPEN \<noteq> 0 then do { (r, st, f') \<leftarrow> kv_iter_open cmd status f; Some (r, st, f', d) }
       else if Bit_Operations.and (kv_option cmd) ITER_OPTION_CLOSE \<noteq> 0 then do { (r, st, f') \<leftarrow> kv_iter_close cmd status f; Some (r, st, f', d) }
       else Some (0, status, f, d)
     else if kv_opcode cmd = nvme_cmd_kv_iter_read then kv_iter_read cmd status (f, d)
     else Some (0, status, f, d))"

section \<open>The handlers of the namespace\<close>

definition kv_op_times :: "io_config \<Rightarrow> nat \<Rightarrow> nat \<times> nat \<times> nat" where
  "kv_op_times cfg opcode =
     (if opcode = nvme_cmd_write \<or> opcode = nvme_cmd_kv_store \<or> opcode = nvme_cmd_kv_batch
      then (cfg_write_delay cfg, cfg_write_time cfg, cfg_write_trailing cfg)
      else if opcode = nvme_cmd_read \<or> opcode = nvme_cmd_kv_retrieve
      then (cfg_read_delay cfg, cfg_read_time cfg, cfg_read_trailing cfg)
      else (0, 0, 0))"

definition kv_schedule_io_units :: "io_config \<Rightarrow> nat \<Rightarrow> nat \<Rightarrow> nat \<Rightarrow> nat \<Rightarrow> nat list \<Rightarrow> (nat \<times> nat list) option" where
  "kv_schedule_io_units cfg opcode = schedule_units cfg (kv_op_times cfg opcode)"

text \<open>\<open>rw\<close> and \<open>cmd\<close> are the two readings of the 64 bytes of the command.\<close>

definition kv_proc_nvme_io_cmd ::
  "io_config \<Rightarrow> nat \<Rightarrow> nvme_rw_command \<Rightarrow> nvme_kv_command \<Rightarrow> nvmev_result \<Rightarrow> nat list \<Rightarrow> (bool \<times> nvmev_result \<times> nat list) option" where
  "kv_proc_nvme_io_cmd cfg now rw cmd ret stat =
     (if rw_opcode rw = nvme_cmd_write \<or> rw_opcode rw = nvme_cmd_read then do {
        (t, stat') \<leftarrow> kv_schedule_io_units cfg (rw_opcode rw) (rw_slba rw) (simple_cmd_io_size rw) now stat;
        Some (True, ret\<lparr>ret_nsecs_target := t\<rparr>, stat')
      } else if rw_opcode rw = nvme_cmd_flush then do {
        t \<leftarrow> schedule_flush cfg stat;
        Some (True, ret\<lparr>ret_nsecs_target := t\<rparr>, stat)
      } else if rw_opcode rw = nvme_cmd_kv_store \<or> rw_opcode rw = nvme_cmd_kv_retrieve \<or> rw_opcode rw = nvme_cmd_kv_batch then do {
        (t, stat') \<leftarrow> kv_schedule_io_units cfg (rw_opcode rw) 0 (cmd_value_length cmd) now stat;
        Some (True, ret\<lparr>ret_nsecs_target := t\<rparr>, stat')
      } else do {
        nvme_opcode_string (rw_opcode rw);
        Some (True, ret, stat)
      })"

definition kv_identify_nvme_io_cmd :: "nat \<Rightarrow> bool" where
  "kv_identify_nvme_io_cmd opcode \<longleftrightarrow> opcode \<in> {nvme_cmd_kv_append, nvme_cmd_kv_store, nvme_cmd_kv_retrieve,
     nvme_cmd_kv_delete, nvme_cmd_kv_iter_req, nvme_cmd_kv_iter_read, nvme_cmd_kv_exist, nvme_cmd_kv_batch}"

definition kv_perform_nvme_io_cmd :: "nvme_kv_command \<Rightarrow> nat \<Rightarrow> kv_ftl \<times> 'b io_dev \<Rightarrow> (nat \<times> nat \<times> kv_ftl \<times> 'b io_dev) option" where
  "kv_perform_nvme_io_cmd cmd status s =
     (if kv_opcode cmd = nvme_cmd_kv_batch then do_perform_kv_batch cmd status s
      else if kv_opcode cmd = nvme_cmd_kv_iter_req \<or> kv_opcode cmd = nvme_cmd_kv_iter_read then do_perform_kv_iter_io cmd status s
      else do_perform_kv_io cmd status s)"

text \<open>
  The table of the device has a GiB of entries of 48 bytes. The last of the 17 iterator handles
  keeps what \<open>kmalloc\<close> left there.
\<close>

definition KV_MAPPING_TABLE_SIZE :: nat where "KV_MAPPING_TABLE_SIZE = GB 1"
definition KV_MAPPING_ENTRY_SIZE :: nat where "KV_MAPPING_ENTRY_SIZE = 48"

definition initial_entry :: mapping_entry where
  "initial_entry = \<lparr>me_key = replicate 18 0, me_mem_offset = NONE64, me_length = NONE64, me_next_slot = NONE32\<rparr>"

definition kv_init_ftl :: "nat \<Rightarrow> nat \<Rightarrow> kv_iter_context option \<Rightarrow> kv_ftl" where
  "kv_init_ftl slots storage_size h16 = \<lparr>kv_mapping_table = replicate slots initial_entry, hash_slots = slots,
     kv_pool = append_only_allocator_init storage_size, iter_handle = replicate 16 None @ [h16]\<rparr>"

definition kv_init_namespace :: "nat \<Rightarrow> nat \<Rightarrow> nat \<Rightarrow> kv_iter_context option \<Rightarrow> simple_ns \<times> kv_ftl" where
  "kv_init_namespace nsid n storage_size h16 =
     (\<lparr>sns_id = nsid, sns_csi = NVME_CSI_NVM, sns_size = n\<rparr>,
      kv_init_ftl (KV_MAPPING_TABLE_SIZE div KV_MAPPING_ENTRY_SIZE) storage_size h16)"

end
