(* ===== verification/Kv_Inv.thy ===== *)
theory Kv_Inv
  imports Kv_Ftl
begin

text \<open>
  The key-value device as a map from keys to values: the invariant of its state and what each command
  does to the map.
\<close>

abbreviation area :: "'b io_dev \<Rightarrow> ns_area" where "area d \<equiv> d_ns d ! 0"

abbreviation tbl_of :: "kv_ftl \<times> 'b io_dev \<Rightarrow> mapping_entry list" where "tbl_of s \<equiv> kv_mapping_table (fst s)"

section \<open>The copies\<close>

definition host_value :: "nvme_kv_command \<Rightarrow> nat \<Rightarrow> (nat \<Rightarrow> nat) \<Rightarrow> nat list" where
  "host_value cmd n mem = map (\<lambda>k. mem (prp_byte (kv_io_command nvme_cmd_write cmd) n mem k)) [0..<n]"

text \<open>The page addresses of the command describe a buffer of \<open>n\<close> bytes; for a transfer to the host its pages do not overlap.\<close>

definition host_buffer_ok :: "nvme_kv_command \<Rightarrow> nat \<Rightarrow> (nat \<Rightarrow> nat) \<Rightarrow> bool" where
  "host_buffer_ok cmd n mem \<longleftrightarrow> prp_ok (kv_io_command nvme_cmd_write cmd) n mem"

definition host_buffer_apart :: "nvme_kv_command \<Rightarrow> nat \<Rightarrow> (nat \<Rightarrow> nat) \<Rightarrow> bool" where
  "host_buffer_apart cmd n mem \<longleftrightarrow> prp_apart (kv_io_command nvme_cmd_write cmd) n mem"

lemma prp_byte_opcode: "prp_byte (kv_io_command op cmd) = prp_byte (kv_io_command op' cmd)"
  "prp_ok (kv_io_command op cmd) = prp_ok (kv_io_command op' cmd)"
  by (simp_all add: fun_eq_iff prp_byte_def prp_ok_def prp_first_def prp_listed_def kv_io_command_def Let_def)

lemma prp_apart_opcode: "prp_apart (kv_io_command op cmd) n = prp_apart (kv_io_command op' cmd) n"
  unfolding prp_apart_def fun_eq_iff prp_byte_opcode(1) [of op cmd op'] by (simp add: prp_listed_def prp_first_def kv_io_command_def)

lemma kv_io_command_opcode [simp]: "rw_opcode (kv_io_command op cmd) = op"
  by (simp add: kv_io_command_def)

lemma kv_copy_in:
  assumes "host_buffer_ok cmd n (d_mem d)" "d_ns d \<noteq> []" "off + n \<le> na_size (area d)"
  shows "kv_copy nvme_cmd_write cmd off n d = Some (put_ns 0 (mem_write off (host_value cmd n (d_mem d)) (na_bytes (area d))) d)"
  using perform_write [of "kv_io_command nvme_cmd_write cmd" "\<lambda>_. True" n d 0 off 0 0 None "\<lambda>_. True"] assms
  by (simp add: kv_copy_def host_buffer_ok_def host_value_def prp_start_def prp_list_def)

lemma kv_copy_out:
  assumes "host_buffer_ok cmd n (d_mem d)" "host_buffer_apart cmd n (d_mem d)" "d_ns d \<noteq> []" "off + n \<le> na_size (area d)"
  shows "\<exists>m'. kv_copy nvme_cmd_read cmd off n d = Some (d\<lparr>d_mem := m'\<rparr>) \<and>
     (\<forall>k<n. m' (prp_byte (kv_io_command nvme_cmd_write cmd) n (d_mem d) k) = na_bytes (area d) (off + k))"
proof -
  let ?c = "kv_io_command nvme_cmd_read cmd"
  have "\<exists>m'. perform_loop (\<lambda>_. True) (\<lambda>_. True) ?c 0 0 0 None (n - prp_start ?c 0) (off + prp_start ?c 0) d = Some (d\<lparr>d_mem := m'\<rparr>) \<and>
      filled ?c n (d_mem d) (\<lambda>k. na_bytes (area d) (off + k)) (prp_start ?c 0) n (d_mem d) m'"
    using assms by (intro perform_read)
      (auto simp: host_buffer_ok_def host_buffer_apart_def prp_byte_opcode(2) [of nvme_cmd_read cmd nvme_cmd_write]
        prp_apart_opcode [of nvme_cmd_read cmd _ nvme_cmd_write] prp_list_def same_list_def)
  then show ?thesis
    by (auto simp: kv_copy_def filled_def prp_start_def prp_byte_opcode(1) [of nvme_cmd_read cmd nvme_cmd_write])
qed

section \<open>The invariant\<close>

definition region :: "mapping_entry \<Rightarrow> nat set" where
  "region e = {me_mem_offset e..<me_mem_offset e + me_length e}"

text \<open>
  The values lie in the part of the storage that has been allocated, and no two of them overlap.
\<close>

definition values_apart :: "mapping_entry list \<Rightarrow> nat \<Rightarrow> bool" where
  "values_apart tbl n \<longleftrightarrow>
     (\<forall>i<length tbl. \<not> free tbl i \<longrightarrow> me_mem_offset (tbl ! i) + me_length (tbl ! i) \<le> n \<and> me_length (tbl ! i) < 4294967296) \<and>
     (\<forall>i<length tbl. \<forall>j<length tbl. i \<noteq> j \<and> \<not> free tbl i \<and> \<not> free tbl j \<longrightarrow> region (tbl ! i) \<inter> region (tbl ! j) = {})"

definition kv_inv :: "kv_ftl \<times> 'b io_dev \<Rightarrow> bool" where
  "kv_inv s \<longleftrightarrow> (case s of (f, d) \<Rightarrow> table_ok (kv_mapping_table f) \<and> hash_slots f = length (kv_mapping_table f) \<and>
     d_ns d \<noteq> [] \<and> na_size (area d) \<le> NONE64 \<and> ap_latest (kv_pool f) \<le> na_size (area d) \<and>
     values_apart (kv_mapping_table f) (ap_latest (kv_pool f)) \<and> length (iter_handle f) = 17 \<and>
     (\<forall>c. Some c \<in> set (iter_handle f) \<longrightarrow> it_current_pos c \<le> length (kv_mapping_table f)))"

lemma kv_invD:
  assumes "kv_inv (f, d)"
  shows "table_ok (kv_mapping_table f)" "hash_slots f = length (kv_mapping_table f)" "d_ns d \<noteq> []" "na_size (area d) \<le> NONE64"
    "ap_latest (kv_pool f) \<le> na_size (area d)" "values_apart (kv_mapping_table f) (ap_latest (kv_pool f))" "length (iter_handle f) = 17"
    "Some c \<in> set (iter_handle f) \<Longrightarrow> it_current_pos c \<le> length (kv_mapping_table f)"
  using assms by (auto simp: kv_inv_def)

text \<open>The value of a key.\<close>

definition entry_value :: "mapping_entry \<Rightarrow> (nat \<Rightarrow> nat) \<Rightarrow> nat list" where
  "entry_value e bytes = mem_bytes bytes (me_mem_offset e) (me_length e)"

definition kv_value :: "nat \<Rightarrow> nat list \<Rightarrow> kv_ftl \<times> 'b io_dev \<Rightarrow> nat list option" where
  "kv_value len key s = map_option (\<lambda>i. entry_value (tbl_of s ! i) (na_bytes (area (snd s)))) (kv_slot len key (tbl_of s))"

lemma mem_bytes_outside:
  "{a..<a + n} \<inter> {b..<b + length bs} = {} \<Longrightarrow> mem_bytes (mem_write b bs f) a n = mem_bytes f a n"
proof (rule nth_equalityI)
  fix i assume h: "{a..<a + n} \<inter> {b..<b + length bs} = {}" and i: "i < length (mem_bytes (mem_write b bs f) a n)"
  then have "a + i \<in> {a..<a + n}" by (simp add: mem_bytes_def)
  then have "a + i \<notin> {b..<b + length bs}" using h by blast
  then show "mem_bytes (mem_write b bs f) a n ! i = mem_bytes f a n ! i" using i by (auto simp: mem_bytes_def mem_write_def)
qed (simp add: mem_bytes_def)

lemma mem_bytes_inside: "mem_bytes (mem_write a bs f) a (length bs) = bs"
  by (rule nth_equalityI) (auto simp: mem_bytes_def mem_write_def)

lemma length_host_value [simp]: "length (host_value cmd n mem) = n" by (simp add: host_value_def)

section \<open>Store\<close>

lemma values_apart_insert:
  assumes "values_apart tbl n" "inserted tbl r e prev tbl'" "me_mem_offset e = n" "n \<le> m" "n + me_length e \<le> m" "me_length e < 4294967296"
  shows "values_apart tbl' m"
proof -
  note nt = inserted_nth [OF assms(2)]
  have fr: "free tbl r" using assms(2) by (simp add: inserted_def)
  have same: "me_mem_offset (tbl' ! i) = me_mem_offset (tbl ! i) \<and> me_length (tbl' ! i) = me_length (tbl ! i)"
    if "i < length tbl" "i \<noteq> r" for i using nt(3) [OF that] by auto
  have reg: "region (tbl' ! i) = region (tbl ! i)" if "i < length tbl" "i \<noteq> r" for i using same [OF that] by (simp add: region_def)
  have in_n: "region (tbl ! i) \<subseteq> {..<n}" if "i < length tbl" "\<not> free tbl i" for i
    using assms(1) that by (force simp: values_apart_def region_def)
  have re: "region (tbl' ! r) \<inter> {..<n} = {}" using nt(2) assms(3) by (auto simp: region_def)
  have "me_mem_offset (tbl' ! i) + me_length (tbl' ! i) \<le> m \<and> me_length (tbl' ! i) < 4294967296" if i: "i < length tbl" "\<not> free tbl' i" for i
  proof (cases "i = r")
    case False
    then show ?thesis using same [OF i(1) False] i assms(1,4) unfolding values_apart_def by (metis le_trans)
  qed (use nt(2) assms(3,5,6) in simp)
  moreover have "region (tbl' ! i) \<inter> region (tbl' ! j) = {}"
    if i: "i < length tbl" and j: "j < length tbl" and h: "i \<noteq> j \<and> \<not> free tbl' i \<and> \<not> free tbl' j" for i j
  proof -
    consider "i = r" "j \<noteq> r" | "i \<noteq> r" "j = r" | "i \<noteq> r" "j \<noteq> r" using h by blast
    then show ?thesis
    proof cases
      case 1
      then show ?thesis using re in_n [OF j] reg [OF j] same [OF j] h by auto
    next
      case 2
      then show ?thesis using re in_n [OF i] reg [OF i] same [OF i] h by auto
    next
      case 3
      then show ?thesis using assms(1) i j h reg [OF i] reg [OF j] same [OF i] same [OF j] by (simp add: values_apart_def)
    qed
  qed
  ultimately show ?thesis unfolding values_apart_def nt(1) by blast
qed

text \<open>What the host has to guarantee when it stores a value.\<close>

definition store_ok :: "nvme_kv_command \<Rightarrow> kv_ftl \<times> 'b io_dev \<Rightarrow> bool" where
  "store_ok cmd s \<longleftrightarrow> (let n = cmd_value_length cmd; tbl = tbl_of s; latest = ap_latest (kv_pool (fst s)); cap = na_size (area (snd s)) in
     host_buffer_ok cmd n (d_mem (snd s)) \<and>
     (case kv_slot (cmd_key_length cmd) (kv_key cmd) tbl of
        None \<Rightarrow> latest < cap \<and> latest + n \<le> cap \<and> (\<exists>j<length tbl. free tbl j)
      | Some i \<Rightarrow> n \<le> me_length (tbl ! i) \<and> (n = me_length (tbl ! i) \<or> me_length (tbl ! i) \<le> SMALL_LENGTH)))"

definition stores :: "nvme_kv_command \<Rightarrow> kv_ftl \<times> 'b io_dev \<Rightarrow> kv_ftl \<times> 'b io_dev \<Rightarrow> bool" where
  "stores cmd s s' \<longleftrightarrow> d_mem (snd s') = d_mem (snd s) \<and>
     (\<forall>key. key_ok (cmd_key_length cmd) key \<longrightarrow> kv_value (cmd_key_length cmd) key s' =
        (if take (cmd_key_length cmd) key = take (cmd_key_length cmd) (kv_key cmd)
         then Some (host_value cmd (cmd_value_length cmd) (d_mem (snd s))) else kv_value (cmd_key_length cmd) key s))"

lemma kv_slot_take:
  assumes "table_ok tbl" "take len k = take len k'" "key_ok len k" "key_ok len k'"
  shows "kv_slot len k tbl = kv_slot len k' tbl"
proof -
  have nth: "k ! i = k' ! i" if "i < len" for i using assms(2) that by (metis nth_take)
  have h: "hash_function k len = hash_function k' len"
    unfolding hash_function_def by (rule foldM_cong) (use nth assms(3,4) in \<open>auto simp: key_ok_def\<close>)
  have "kv_search k len tbl i = kv_search k' len tbl i" if "i < length tbl" for i
    using assms(1) that
  proof (induction rule: chain_induct)
    case (link i)
    then show ?case using assms by (subst (1 2) kv_search.simps) (simp add: key_matches_def key_ok_def)
  qed
  then show ?thesis using h kv_slot_search [OF assms(1,3)] by (auto simp: kv_slot_def get_hash_slot_def split: option.splits)
qed

lemma cmd_value_length_less: "cmd_value_length cmd < 4294967296" by (simp add: cmd_value_length_def)

lemma put_ns_area: "d_ns d \<noteq> [] \<Longrightarrow> area (put_ns 0 g d) = (area d)\<lparr>na_bytes := g\<rparr>" "d_ns d \<noteq> [] \<Longrightarrow> d_ns (put_ns 0 g d) \<noteq> []"
  "d_ns d \<noteq> [] \<Longrightarrow> d_mem (put_ns 0 g d) = d_mem d"
  by (auto simp: put_ns_def)

lemma store_insert:
  assumes inv: "kv_inv (f, d)" and op: "kv_opcode cmd = nvme_cmd_kv_store" and key: "key_ok (cmd_key_length cmd) (kv_key cmd)"
    and ok: "store_ok cmd (f, d)" and new: "kv_slot (cmd_key_length cmd) (kv_key cmd) (kv_mapping_table f) = None"
  shows "\<exists>s'. do_perform_kv_io cmd st (f, d) = Some (0, st, s') \<and> kv_inv s' \<and> stores cmd (f, d) s'"
proof -
  let ?tbl = "kv_mapping_table f" and ?n = "cmd_value_length cmd" and ?len = "cmd_key_length cmd" and ?a = "ap_latest (kv_pool f)"
  note iv = kv_invD [OF inv]
  have o: "host_buffer_ok cmd ?n (d_mem d)" "?a < na_size (area d)" "?a + ?n \<le> na_size (area d)" "\<exists>j<length ?tbl. free ?tbl j"
    using ok new by (auto simp: store_ok_def Let_def)
  then obtain j where j: "j < length ?tbl" "free ?tbl j" by blast
  obtain r e prev tbl' where t: "new_mapping_entry_by_key (na_size (area d)) (length ?tbl) (kv_key cmd) ?len ?n ?a ?tbl = Some tbl'"
    "inserted ?tbl r e prev tbl'" "me_mem_offset e = ?a" "me_length e = ?n" "take ?len (me_key e) = take ?len (kv_key cmd)"
    "kv_slot ?len (kv_key cmd) tbl' = Some r"
    using new_mapping_entry_inserted [OF iv(1) key new o(2) iv(4) j, of ?n] by blast
  obtain en where en: "get_mapping_entry (hash_slots f) cmd ?tbl = Some en" "me_mem_offset en = NONE64"
    using get_mapping_entry_slot [OF iv(1) key] new iv(2) by (auto simp: get_mapping_entry_def erased_entry_def)
  let ?v = "host_value cmd ?n (d_mem d)"
  let ?d = "put_ns 0 (mem_write ?a ?v (na_bytes (area d))) d"
  let ?p = "(kv_pool f)\<lparr>ap_latest := ?a + ?n, ap_total_written := u64 (ap_total_written (kv_pool f) + ?n)\<rparr>"
  let ?f = "f\<lparr>kv_pool := ?p, kv_mapping_table := tbl'\<rparr>"
  have u: "u64 (?a + ?n) = ?a + ?n" using o(3) iv(4) by (intro u64_id) (simp add: NONE64_def)
  have an: "?a \<noteq> NONE64" using o(2) iv(4) by linarith
  note pn = put_ns_area [OF iv(3)]
  have run: "do_perform_kv_io cmd st (f, d) = Some (0, st, ?f, ?d)"
    using en op an u t(1) kv_copy_in [OF o(1) iv(3) o(3)] iv(2,3) pn
    by (simp add: do_perform_kv_io_def kv_store_def allocate_mem_offset_def allocate_mem_offset_by_length_def
        append_only_allocate_def new_mapping_entry_def)
  have va: "values_apart tbl' (?a + ?n)"
    by (rule values_apart_insert [OF iv(6) t(2,3)]) (use t(4) cmd_value_length_less in auto)
  have inv': "kv_inv (?f, ?d)"
    using iv inserted_ok [OF iv(1) t(2)] inserted_nth(1) [OF t(2)] va o(3) pn by (simp add: kv_inv_def)
  have "kv_value ?len k (?f, ?d) = (if take ?len k = take ?len (kv_key cmd) then Some ?v else kv_value ?len k (f, d))" if k: "key_ok ?len k" for k
  proof (cases "take ?len k = take ?len (kv_key cmd)")
    case True
    then have "kv_slot ?len k tbl' = Some r" using kv_slot_take [OF inserted_ok [OF iv(1) t(2)] True k key] t(6) by simp
    then show ?thesis using True pn mem_bytes_inside [of ?a ?v] inserted_nth(2) [OF t(2)] t(3,4) by (simp add: kv_value_def entry_value_def)
  next
    case False
    then have sl: "kv_slot ?len k tbl' = kv_slot ?len k ?tbl" using kv_slot_inserted [OF iv(1) k t(2)] t(5) by simp
    show ?thesis
    proof (cases "kv_slot ?len k ?tbl")
      case (Some i)
      have i: "i < length ?tbl" "\<not> free ?tbl i" using kv_slot_Some [OF iv(1) k Some] by auto
      have ir: "i \<noteq> r" using i(2) t(2) by (auto simp: inserted_def)
      have "me_mem_offset (?tbl ! i) + me_length (?tbl ! i) \<le> ?a" using iv(6) i by (simp add: values_apart_def)
      then have "entry_value (?tbl ! i) (mem_write ?a ?v (na_bytes (area d))) = entry_value (?tbl ! i) (na_bytes (area d))"
        unfolding entry_value_def by (intro mem_bytes_outside) auto
      moreover have "entry_value (tbl' ! i) = entry_value (?tbl ! i)" using inserted_nth(3) [OF t(2) i(1) ir] by (auto simp: entry_value_def)
      ultimately show ?thesis using False sl Some pn by (simp add: kv_value_def)
    qed (use sl False in \<open>simp add: kv_value_def\<close>)
  qed
  then show ?thesis using run inv' pn(3) by (simp add: stores_def)
qed

lemma values_apart_shrink:
  assumes "values_apart tbl m" "s < length tbl" "n \<le> me_length (tbl ! s)"
  shows "values_apart (tbl[s := (tbl ! s)\<lparr>me_length := n\<rparr>]) m"
proof -
  let ?t = "tbl[s := (tbl ! s)\<lparr>me_length := n\<rparr>]"
  have o: "me_mem_offset (?t ! i) = me_mem_offset (tbl ! i) \<and> me_length (?t ! i) \<le> me_length (tbl ! i)" if "i < length tbl" for i
    using that assms(3) by (simp add: nth_update_if)
  then have r: "region (?t ! i) \<subseteq> region (tbl ! i)" if "i < length tbl" for i using that by (fastforce simp: region_def)
  have "me_mem_offset (?t ! i) + me_length (?t ! i) \<le> m \<and> me_length (?t ! i) < 4294967296" if i: "i < length tbl" "\<not> free ?t i" for i
  proof -
    have "me_mem_offset (tbl ! i) + me_length (tbl ! i) \<le> m \<and> me_length (tbl ! i) < 4294967296" using assms(1) i o [OF i(1)] by (simp add: values_apart_def)
    then show ?thesis using o [OF i(1)] by linarith
  qed
  moreover have "region (?t ! i) \<inter> region (?t ! j) = {}" if "i < length tbl" "j < length tbl" "i \<noteq> j \<and> \<not> free ?t i \<and> \<not> free ?t j" for i j
  proof -
    have "region (tbl ! i) \<inter> region (tbl ! j) = {}" using assms(1) that o unfolding values_apart_def by metis
    then show ?thesis using r that by blast
  qed
  ultimately show ?thesis unfolding values_apart_def length_list_update by blast
qed

lemma values_apartD:
  assumes "values_apart tbl m" "i < length tbl" "\<not> free tbl i"
  shows "me_mem_offset (tbl ! i) + me_length (tbl ! i) \<le> m" "me_length (tbl ! i) < 4294967296"
    "j < length tbl \<Longrightarrow> i \<noteq> j \<Longrightarrow> \<not> free tbl j \<Longrightarrow> region (tbl ! i) \<inter> region (tbl ! j) = {}"
  using assms by (auto simp: values_apart_def)

lemma store_update:
  assumes inv: "kv_inv (f, d)" and op: "kv_opcode cmd = nvme_cmd_kv_store" and key: "key_ok (cmd_key_length cmd) (kv_key cmd)"
    and ok: "store_ok cmd (f, d)" and old: "kv_slot (cmd_key_length cmd) (kv_key cmd) (kv_mapping_table f) = Some i"
  shows "\<exists>s'. do_perform_kv_io cmd st (f, d) = Some (0, st, s') \<and> kv_inv s' \<and> stores cmd (f, d) s'"
proof -
  let ?tbl = "kv_mapping_table f" and ?n = "cmd_value_length cmd" and ?len = "cmd_key_length cmd"
  let ?a = "me_mem_offset (?tbl ! i)"
  note iv = kv_invD [OF inv]
  have i: "i < length ?tbl" "\<not> free ?tbl i" "take ?len (kv_key cmd) = take ?len (me_key (?tbl ! i))" using kv_slot_Some [OF iv(1) key old] by auto
  note va = values_apartD [OF iv(6) i(1,2)]
  have o: "host_buffer_ok cmd ?n (d_mem d)" "?n \<le> me_length (?tbl ! i)" "?n = me_length (?tbl ! i) \<or> me_length (?tbl ! i) \<le> SMALL_LENGTH"
    using ok old by (auto simp: store_ok_def Let_def)
  obtain en where en: "get_mapping_entry (hash_slots f) cmd ?tbl = Some en" "me_mem_offset en = ?a" "me_length en = me_length (?tbl ! i)"
    using get_mapping_entry_slot [OF iv(1) key] old iv(2) by (auto simp: get_mapping_entry_def)
  let ?v = "host_value cmd ?n (d_mem d)" and ?t = "?tbl[i := (?tbl ! i)\<lparr>me_length := ?n\<rparr>]"
  let ?d = "put_ns 0 (mem_write ?a ?v (na_bytes (area d))) d" and ?f = "f\<lparr>kv_mapping_table := ?t\<rparr>"
  have le: "?a + ?n \<le> na_size (area d)" using va(1) iv(5) o(2) by linarith
  note pn = put_ns_area [OF iv(3)]
  have same: "?tbl[i := ?tbl ! i] = ?tbl" "f\<lparr>kv_mapping_table := ?tbl\<rparr> = f" by simp_all
  have run: "do_perform_kv_io cmd st (f, d) = Some (0, st, ?f, ?d)"
  proof (cases "?n = me_length (?tbl ! i)")
    case True
    then have "(?tbl ! i)\<lparr>me_length := ?n\<rparr> = ?tbl ! i" by simp
    then show ?thesis using en op kv_copy_in [OF o(1) iv(3) le] i(2) True same by (simp add: do_perform_kv_io_def kv_store_def)
  next
    case False
    then show ?thesis using en op kv_copy_in [OF o(1) iv(3) le] i(2) o(2,3) update_mapping_entry_slot [OF iv(1) key old] iv(2)
      by (simp add: do_perform_kv_io_def kv_store_def)
  qed
  have inv': "kv_inv (?f, ?d)"
    using iv table_ok_update [OF iv(1)] values_apart_shrink [OF iv(6) i(1) o(2)] pn by (simp add: kv_inv_def)
  have "kv_value ?len k (?f, ?d) = (if take ?len k = take ?len (kv_key cmd) then Some ?v else kv_value ?len k (f, d))" if k: "key_ok ?len k" for k
  proof -
    have sl: "kv_slot ?len k ?t = kv_slot ?len k ?tbl" by (rule kv_slot_update [OF iv(1) k])
    show ?thesis
    proof (cases "take ?len k = take ?len (kv_key cmd)")
      case True
      then show ?thesis using sl kv_slot_take [OF iv(1) True k key] old pn mem_bytes_inside [of ?a ?v] i(1) by (simp add: kv_value_def entry_value_def)
    next
      case False
      show ?thesis
      proof (cases "kv_slot ?len k ?tbl")
        case (Some j)
        have j: "j < length ?tbl" "\<not> free ?tbl j" "take ?len k = take ?len (me_key (?tbl ! j))" using kv_slot_Some [OF iv(1) k Some] by auto
        have ij: "i \<noteq> j" using False j(3) i(3) by auto
        have "region (?tbl ! j) \<inter> {?a..<?a + length ?v} = {}" using va(3) [OF j(1) ij j(2)] o(2) by (fastforce simp: region_def)
        then have "entry_value (?tbl ! j) (mem_write ?a ?v (na_bytes (area d))) = entry_value (?tbl ! j) (na_bytes (area d))"
          unfolding entry_value_def region_def by (rule mem_bytes_outside)
        then show ?thesis using False sl Some pn ij by (simp add: kv_value_def)
      qed (use sl False in \<open>simp add: kv_value_def\<close>)
    qed
  qed
  then show ?thesis using run inv' pn(3) by (simp add: stores_def)
qed

lemma store_spec:
  assumes "kv_inv s" "kv_opcode cmd = nvme_cmd_kv_store" "key_ok (cmd_key_length cmd) (kv_key cmd)" "store_ok cmd s"
  shows "\<exists>s'. do_perform_kv_io cmd st s = Some (0, st, s') \<and> kv_inv s' \<and> stores cmd s s'"
  using store_insert [of "fst s" "snd s" cmd st] store_update [of "fst s" "snd s" cmd _ st] assms by (cases "kv_slot (cmd_key_length cmd) (kv_key cmd) (tbl_of s)") auto

section \<open>Retrieve, exist, delete\<close>

lemma lookup_spec:
  assumes "kv_inv (f, d)" "key_ok (cmd_key_length cmd) (kv_key cmd)"
  shows "\<exists>en. get_mapping_entry (hash_slots f) cmd (kv_mapping_table f) = Some en \<and>
    (case kv_value (cmd_key_length cmd) (kv_key cmd) (f, d) of None \<Rightarrow> me_mem_offset en = NONE64
     | Some v \<Rightarrow> me_mem_offset en \<noteq> NONE64 \<and> me_length en = length v \<and> length v < 4294967296 \<and>
         me_mem_offset en + length v \<le> na_size (area d) \<and> v = mem_bytes (na_bytes (area d)) (me_mem_offset en) (length v))"
proof -
  note iv = kv_invD [OF assms(1)]
  obtain en where en: "get_mapping_entry (hash_slots f) cmd (kv_mapping_table f) = Some en"
    "case kv_slot (cmd_key_length cmd) (kv_key cmd) (kv_mapping_table f) of None \<Rightarrow> en = erased_entry
      | Some i \<Rightarrow> me_mem_offset en = me_mem_offset (kv_mapping_table f ! i) \<and> me_length en = me_length (kv_mapping_table f ! i)"
    using get_mapping_entry_slot [OF iv(1) assms(2)] iv(2) unfolding get_mapping_entry_def by auto
  show ?thesis
  proof (cases "kv_slot (cmd_key_length cmd) (kv_key cmd) (kv_mapping_table f)")
    case None
    then show ?thesis using en by (auto simp: kv_value_def erased_entry_def)
  next
    case (Some i)
    have i: "i < length (kv_mapping_table f)" "\<not> free (kv_mapping_table f) i" using kv_slot_Some [OF iv(1) assms(2) Some] by auto
    show ?thesis using Some en i values_apartD(1,2) [OF iv(6) i] iv(5) by (auto simp: kv_value_def entry_value_def mem_bytes_def)
  qed
qed

lemma retrieve_spec:
  assumes inv: "kv_inv (f, d)" and op: "kv_opcode cmd = nvme_cmd_kv_retrieve" and key: "key_ok (cmd_key_length cmd) (kv_key cmd)"
    and v: "kv_value (cmd_key_length cmd) (kv_key cmd) (f, d) = Some v"
    and n: "n = min (length v) (cmd_value_length cmd)" and ok: "host_buffer_ok cmd n (d_mem d)" "host_buffer_apart cmd n (d_mem d)"
  shows "\<exists>m'. do_perform_kv_io cmd st (f, d) = Some (n, st, f, d\<lparr>d_mem := m'\<rparr>) \<and>
     (\<forall>k<n. m' (prp_byte (kv_io_command nvme_cmd_write cmd) n (d_mem d) k) = v ! k)"
proof -
  obtain en where en: "get_mapping_entry (hash_slots f) cmd (kv_mapping_table f) = Some en" "me_mem_offset en \<noteq> NONE64" "me_length en = length v"
    "length v < 4294967296" "me_mem_offset en + length v \<le> na_size (area d)" "v = mem_bytes (na_bytes (area d)) (me_mem_offset en) (length v)"
    using lookup_spec [OF inv key] unfolding v by auto
  have le: "me_mem_offset en + n \<le> na_size (area d)" using en(5) n by linarith
  obtain m' where m': "kv_copy nvme_cmd_read cmd (me_mem_offset en) n d = Some (d\<lparr>d_mem := m'\<rparr>)"
    "\<forall>k<n. m' (prp_byte (kv_io_command nvme_cmd_write cmd) n (d_mem d) k) = na_bytes (area d) (me_mem_offset en + k)"
    using kv_copy_out [OF ok kv_invD(3) [OF inv] le] by blast
  have "v ! k = na_bytes (area d) (me_mem_offset en + k)" if "k < n" for k
    using that n arg_cong [OF en(6), of "\<lambda>xs. xs ! k"] by (simp add: mem_bytes_def)
  moreover have "u32 n = n" using en(4) n by (intro u32_id) linarith
  moreover have "nvme_cmd_kv_retrieve \<noteq> nvme_cmd_kv_store" by (simp add: kv_opcodes)
  ultimately have "do_perform_kv_io cmd st (f, d) = Some (n, st, f, d\<lparr>d_mem := m'\<rparr>)" "\<forall>k<n. v ! k = na_bytes (area d) (me_mem_offset en + k)"
    using en(1-3) m'(1) op n by (simp_all add: do_perform_kv_io_def)
  then show ?thesis using m'(2) by auto
qed

lemma missing_spec:
  assumes "kv_inv (f, d)" "key_ok (cmd_key_length cmd) (kv_key cmd)" "kv_value (cmd_key_length cmd) (kv_key cmd) (f, d) = None"
    "kv_opcode cmd \<in> {nvme_cmd_kv_retrieve, nvme_cmd_kv_exist, nvme_cmd_kv_delete}"
  shows "do_perform_kv_io cmd st (f, d) = Some (0, KV_ERR_KEY_NOT_EXIST, f, d)"
proof -
  have "kv_opcode cmd \<noteq> nvme_cmd_kv_store" using assms(4) by (auto simp: kv_opcodes)
  then show ?thesis using lookup_spec [OF assms(1,2)] assms(3,4) by (auto simp: do_perform_kv_io_def)
qed

lemma exist_spec:
  assumes "kv_inv (f, d)" "key_ok (cmd_key_length cmd) (kv_key cmd)" "kv_value (cmd_key_length cmd) (kv_key cmd) (f, d) = Some v"
    "kv_opcode cmd = nvme_cmd_kv_exist"
  shows "do_perform_kv_io cmd st (f, d) = Some (0, st, f, d)"
proof -
  have "nvme_cmd_kv_exist \<noteq> nvme_cmd_kv_store" "nvme_cmd_kv_exist \<noteq> nvme_cmd_kv_retrieve" by (auto simp: kv_opcodes)
  then show ?thesis using lookup_spec [OF assms(1,2)] assms(3,4) by (auto simp: do_perform_kv_io_def)
qed

text \<open>The search for a key leads over the slot \<open>s\<close>, which is the slot of the key or one before it.\<close>

definition hidden_by :: "nat \<Rightarrow> nat \<Rightarrow> nat list \<Rightarrow> mapping_entry list \<Rightarrow> bool" where
  "hidden_by s len key tbl \<longleftrightarrow>
     (\<exists>h t. get_hash_slot (length tbl) key len = Some h \<and> kv_slot len key tbl = Some t \<and> reaches tbl h s \<and> reaches tbl s t)"

lemma hidden_by_self:
  assumes "table_ok tbl" "key_ok len key" "kv_slot len key tbl = Some s"
  shows "hidden_by s len key tbl"
  using kv_slot_search [OF assms(1,2)] assms(3) search_reaches [OF assms(1) _ assms(2)] unfolding hidden_by_def by (metis reaches_self)

lemma hidden_by_last:
  assumes "table_ok tbl" "key_ok len key" "hidden_by s len key tbl" "last_of_chain tbl s"
  shows "kv_slot len key tbl = Some s"
proof -
  obtain t where t: "kv_slot len key tbl = Some t" "reaches tbl s t" using assms(3) by (auto simp: hidden_by_def)
  have nf: "\<not> free tbl t" using kv_slot_Some [OF assms(1,2) t(1)] by simp
  have l: "me_next_slot (tbl ! s) = NONE32 \<or> free tbl (me_next_slot (tbl ! s))" "s < length tbl" using assms(4) by (auto simp: last_of_chain_def)
  have "t = s"
  proof (rule ccontr)
    assume ts: "t \<noteq> s"
    then have n: "me_next_slot (tbl ! s) \<noteq> NONE32" "reaches tbl (me_next_slot (tbl ! s)) t" using t(2) reaches_iff [of tbl s t] by auto
    have "me_next_slot (tbl ! me_next_slot (tbl ! s)) = NONE32" using table_okD(3) [OF assms(1) table_okD(2) [OF assms(1) l(2) n(1)]] l(1) n(1) by simp
    then have "me_next_slot (tbl ! s) = t" using n(2) reaches_iff [of tbl "me_next_slot (tbl ! s)" t] by simp
    then show False using l(1) n(1) nf by simp
  qed
  then show ?thesis using t(1) by simp
qed

lemma kv_slot_erased:
  assumes "table_ok tbl" "key_ok len key" "s < length tbl"
  shows "kv_slot len key (tbl[s := erased_entry]) = (if hidden_by s len key tbl then None else kv_slot len key tbl)"
proof -
  obtain h where h: "get_hash_slot (length tbl) key len = Some h" "h < length tbl" "kv_search key len tbl h = Some (kv_slot len key tbl)"
    using kv_slot_search [OF assms(1,2)] by auto
  have e: "kv_slot len key (tbl[s := erased_entry]) = (case kv_search key len (tbl[s := erased_entry]) h of Some r \<Rightarrow> r | None \<Rightarrow> None)"
    using h(1) by (simp add: kv_slot_def [of _ _ "tbl[s := erased_entry]"])
  have hb: "hidden_by s len key tbl \<longleftrightarrow> (\<exists>t. kv_slot len key tbl = Some t \<and> reaches tbl h s \<and> reaches tbl s t)"
    using h(1) by (simp add: hidden_by_def)
  show ?thesis unfolding e hb search_erased [OF assms(1) h(2) assms(2,3)] h(3) by (cases "kv_slot len key tbl") auto
qed

definition deletes :: "nvme_kv_command \<Rightarrow> kv_ftl \<times> 'b io_dev \<Rightarrow> kv_ftl \<times> 'b io_dev \<Rightarrow> bool" where
  "deletes cmd s s' \<longleftrightarrow> snd s' = snd s \<and>
     (\<forall>len key. key_ok len key \<longrightarrow> kv_value len key s' =
        (if \<exists>i. kv_slot (cmd_key_length cmd) (kv_key cmd) (tbl_of s) = Some i \<and> hidden_by i len key (tbl_of s)
         then None else kv_value len key s))"

lemma delete_spec:
  assumes inv: "kv_inv (f, d)" and key: "key_ok (cmd_key_length cmd) (kv_key cmd)" and op: "kv_opcode cmd = nvme_cmd_kv_delete"
    and v: "kv_slot (cmd_key_length cmd) (kv_key cmd) (kv_mapping_table f) = Some s"
  shows "\<exists>f'. do_perform_kv_io cmd st (f, d) = Some (0, st, f', d) \<and> kv_inv (f', d) \<and> deletes cmd (f, d) (f', d)"
proof -
  let ?tbl = "kv_mapping_table f" and ?t = "(kv_mapping_table f)[s := erased_entry]"
  note iv = kv_invD [OF inv]
  have s: "s < length ?tbl" "\<not> free ?tbl s" using kv_slot_Some [OF iv(1) key v] by auto
  obtain en where en: "get_mapping_entry (hash_slots f) cmd ?tbl = Some en" "me_mem_offset en \<noteq> NONE64"
    using get_mapping_entry_slot [OF iv(1) key] v iv(2) s(2) by (auto simp: get_mapping_entry_def)
  have "nvme_cmd_kv_delete \<notin> {nvme_cmd_kv_store, nvme_cmd_kv_retrieve, nvme_cmd_kv_exist}" by (auto simp: kv_opcodes)
  then have run: "do_perform_kv_io cmd st (f, d) = Some (0, st, f\<lparr>kv_mapping_table := ?t\<rparr>, d)"
    using en op delete_mapping_entry_slot [OF iv(1) key] v iv(2) by (simp add: do_perform_kv_io_def)
  have "values_apart ?t (ap_latest (kv_pool f))"
    using iv(6) unfolding values_apart_def by (auto simp: nth_update_if erased_entry_def)
  then have inv': "kv_inv (f\<lparr>kv_mapping_table := ?t\<rparr>, d)" using iv table_ok_erase [OF iv(1) s(1)] by (simp add: kv_inv_def)
  have "kv_value len k (f\<lparr>kv_mapping_table := ?t\<rparr>, d) = (if hidden_by s len k ?tbl then None else kv_value len k (f, d))" if k: "key_ok len k" for len k
  proof (cases "hidden_by s len k ?tbl")
    case False
    have "kv_slot len k ?tbl \<noteq> Some s" using False hidden_by_self [OF iv(1) k] by blast
    then show ?thesis using False kv_slot_erased [OF iv(1) k s(1)] by (cases "kv_slot len k ?tbl") (auto simp: kv_value_def)
  qed (use kv_slot_erased [OF iv(1) k s(1)] in \<open>simp add: kv_value_def\<close>)
  then show ?thesis using run inv' v by (auto simp: deletes_def)
qed

end
