(* ===== verification/Kv_Device.thy ===== *)
theory Kv_Device
  imports Kv_Inv
begin

text \<open>
  The iterators of the key-value device, its initial state, and the whole device under the contract
  of a namespace's command handler.
\<close>

section \<open>Reading an iterator\<close>

text \<open>A key is selected when it agrees with the prefix in every bit of the mask.\<close>

definition selected :: "kv_iter_context \<Rightarrow> mapping_entry \<Rightarrow> bool" where
  "selected h e \<longleftrightarrow> me_mem_offset e \<noteq> NONE64 \<and>
     (\<forall>n. bit (it_bitmask h) n \<longrightarrow> bit (le_value (take 4 (me_key e))) n = bit (it_prefix h) n)"

lemma iter_matches_selected: "iter_matches h e = selected h e"
  by (auto simp: iter_matches_def selected_def get_bytes_def bit_eq_iff bit_and_iff)

text \<open>The slots from \<open>pos\<close> on whose keys are selected, and the bytes that the iterator returns for one of them.\<close>

definition matching :: "kv_iter_context \<Rightarrow> mapping_entry list \<Rightarrow> nat \<Rightarrow> nat list" where
  "matching h tbl pos = filter (\<lambda>i. selected h (tbl ! i)) [pos..<length tbl]"

definition iter_item :: "mapping_entry \<Rightarrow> nat list" where
  "iter_item e = le_bytes 4 16 @ take 16 (me_key e)"

lemma matching_step: "pos < length tbl \<Longrightarrow> matching h tbl pos = (if iter_matches h (tbl ! pos) then [pos] else []) @ matching h tbl (pos + 1)"
  by (simp add: matching_def upt_conv_Cons iter_matches_selected)

lemma matching_end: "matching h tbl (length tbl) = []" by (simp add: matching_def)

text \<open>What the loop has done when it leaves off at \<open>pos'\<close>; one read returns at most 51 keys.\<close>

definition scanned ::
  "kv_iter_context \<Rightarrow> mapping_entry list \<Rightarrow> nat \<Rightarrow> nat \<Rightarrow> (nat \<Rightarrow> nat) \<Rightarrow> nat \<times> nat \<times> nat \<times> (nat \<Rightarrow> nat) \<times> bool \<Rightarrow> bool" where
  "scanned h tbl pos nr buf r \<longleftrightarrow> (case r of (pos', off', nr', buf', fin) \<Rightarrow>
     (let ms = matching h tbl pos; k = min (51 - nr) (length ms) in
      pos \<le> pos' \<and> pos' \<le> length tbl \<and> nr' = nr + k \<and> off' = 4 + 20 * nr' \<and> matching h tbl pos' = drop k ms \<and>
      (fin \<longleftrightarrow> pos < length tbl \<and> length ms \<le> 51 - nr) \<and>
      (\<forall>a < 4 + 20 * nr. buf' a = buf a) \<and> (\<forall>i<k. mem_bytes buf' (4 + 20 * (nr + i)) 20 = iter_item (tbl ! (ms ! i)))))"

lemma iter_item_written:
  assumes "length (me_key e) = 18"
  shows "mem_bytes (mem_write (a + 4) (take 16 (me_key e)) (mem_write a (le_bytes 4 16) buf)) a 20 = iter_item e"
proof (rule nth_equalityI)
  fix i assume "i < length (mem_bytes (mem_write (a + 4) (take 16 (me_key e)) (mem_write a (le_bytes 4 16) buf)) a 20)"
  then show "mem_bytes (mem_write (a + 4) (take 16 (me_key e)) (mem_write a (le_bytes 4 16) buf)) a 20 ! i = iter_item e ! i"
    using assms by (auto simp: mem_bytes_def mem_write_def iter_item_def nth_append)
qed (use assms in \<open>simp add: mem_bytes_def iter_item_def\<close>)

lemma mem_bytes_below: "(\<And>x. x < b \<Longrightarrow> f x = g x) \<Longrightarrow> a + n \<le> b \<Longrightarrow> mem_bytes f a n = mem_bytes g a n"
  by (simp add: mem_bytes_def)

lemma iter_scan_ok:
  assumes "table_ok tbl" "pos \<le> length tbl" "nr \<le> 51"
  shows "\<exists>r. iter_scan tbl (length tbl) h pos (4 + 20 * nr) nr buf = Some r \<and> scanned h tbl pos nr buf r"
  using assms(2,3)
proof (induction "length tbl - pos" arbitrary: pos nr buf)
  case 0
  then have "pos = length tbl" by simp
  then show ?case by (simp add: iter_scan.simps scanned_def matching_end)
next
  case (Suc m)
  then have pos: "pos < length tbl" by simp
  let ?e = "tbl ! pos" and ?a = "4 + 20 * nr"
  let ?ms = "matching h tbl pos" and ?ms1 = "matching h tbl (pos + 1)"
  note kl = table_okD(1) [OF assms(1) pos] and ms = matching_step [OF pos, of h]
  show ?case
  proof (cases "iter_matches h ?e \<and> nr = 51")
    case True
    then have "iter_scan tbl (length tbl) h pos ?a nr buf = Some (pos, ?a, nr, buf, False)" using pos by (subst iter_scan.simps) simp
    then show ?thesis using True pos ms by (simp add: scanned_def Let_def)
  next
    case False
    let ?hit = "iter_matches h ?e"
    let ?buf = "if ?hit then mem_write (?a + 4) (take 16 (me_key ?e)) (mem_write ?a (le_bytes 4 16) buf) else buf"
    let ?nr = "if ?hit then nr + 1 else nr"
    have nr: "?nr \<le> 51" "?hit \<Longrightarrow> nr < 51" using False Suc.prems(2) by (auto split: if_splits)
    have a: "(if ?hit then ?a + 4 + 16 else ?a) = 4 + 20 * ?nr" by simp
    have st: "iter_scan tbl (length tbl) h pos ?a nr buf =
       (if pos + 1 = length tbl then Some (pos + 1, 4 + 20 * ?nr, ?nr, ?buf, True) else iter_scan tbl (length tbl) h (pos + 1) (4 + 20 * ?nr) ?nr ?buf)"
      using pos nr(2) unfolding a [symmetric] by (subst iter_scan.simps) (auto simp: Let_def)
    obtain pos' off' nr' buf' fin where r: "iter_scan tbl (length tbl) h pos ?a nr buf = Some (pos', off', nr', buf', fin)"
      "scanned h tbl (pos + 1) ?nr ?buf (pos', off', nr', buf', fin \<and> pos + 1 < length tbl)" "pos + 1 = length tbl \<Longrightarrow> fin"
    proof (cases "pos + 1 = length tbl")
      case True
      then show ?thesis using that [of "pos + 1" "4 + 20 * ?nr" ?nr ?buf True] st matching_end [of h tbl] by (simp add: scanned_def)
    next
      case more: False
      have "\<exists>r. iter_scan tbl (length tbl) h (pos + 1) (4 + 20 * ?nr) ?nr ?buf = Some r \<and> scanned h tbl (pos + 1) ?nr ?buf r"
        by (rule Suc.hyps(1)) (use Suc.hyps(2) pos nr in auto)
      then obtain r where "iter_scan tbl (length tbl) h (pos + 1) (4 + 20 * ?nr) ?nr ?buf = Some r" "scanned h tbl (pos + 1) ?nr ?buf r" by blast
      then show ?thesis using that [of "fst r" "fst (snd r)" "fst (snd (snd r))" "fst (snd (snd (snd r)))" "snd (snd (snd (snd r)))"] st more pos by simp
    qed
    note sc = r(2) [unfolded scanned_def Let_def prod.case]
    have none: "?ms1 = []" if "\<not> pos + 1 < length tbl" using that by (simp add: matching_def)
    have low: "?buf x = buf x" if "x < ?a" for x using that by (simp add: mem_write_def)
    have "scanned h tbl pos nr buf (pos', off', nr', buf', fin)"
    proof (cases ?hit)
      case False
      then show ?thesis using sc ms r(3) pos none unfolding scanned_def Let_def prod.case by auto
    next
      case True
      let ?k = "min (51 - nr) (length ?ms)" and ?k1 = "min (51 - Suc nr) (length ?ms1)"
      have k: "?k = Suc ?k1" using True ms nr by auto
      have first: "mem_bytes buf' ?a 20 = iter_item ?e"
        using mem_bytes_below [of "?a + 20" buf' ?buf ?a 20] sc True iter_item_written [OF kl, of ?a buf] by simp
      have items: "mem_bytes buf' (4 + 20 * (nr + i)) 20 = iter_item (tbl ! (?ms ! i))" if "i < ?k" for i
      proof (cases i)
        case 0
        then show ?thesis using first True ms by simp
      next
        case (Suc j)
        then have "mem_bytes buf' (4 + 20 * (Suc nr + j)) 20 = iter_item (tbl ! (?ms1 ! j))" using sc True that k by simp
        then show ?thesis using Suc True ms by simp
      qed
      show ?thesis using sc ms r(3) pos nr(2) none low items k True unfolding scanned_def Let_def prod.case by auto
    qed
    then show ?thesis using r(1) by blast
  qed
qed

lemma kv_scatter_ok:
  assumes "host_buffer_ok cmd n (d_mem d)" "host_buffer_apart cmd n (d_mem d)" "n \<le> cap"
  shows "\<exists>m'. kv_scatter cmd cap buf n d = Some (d\<lparr>d_mem := m'\<rparr>) \<and>
     (\<forall>k<n. m' (prp_byte (kv_io_command nvme_cmd_write cmd) n (d_mem d) k) = buf k)"
  using kv_copy_out [of cmd n "d\<lparr>d_ns := [\<lparr>na_size = cap, na_bytes = buf\<rparr>]\<rparr>" 0] assms by (auto simp: kv_scatter_def)

lemma iter_read_spec:
  assumes inv: "kv_inv (f, d)" and c: "cmd_iter_handle cmd < 17" "iter_handle f ! cmd_iter_handle cmd = Some c"
    and ms: "ms = matching c (kv_mapping_table f) (it_current_pos c)" and k: "k = min 51 (length ms)"
    and ok: "host_buffer_ok cmd (4 + 20 * k) (d_mem d)" "host_buffer_apart cmd (4 + 20 * k) (d_mem d)"
  shows "\<exists>c' m'. kv_iter_read cmd st (f, d) =
      Some (4 + 20 * k, if it_current_pos c < length (kv_mapping_table f) \<and> length ms \<le> 51 then 0x393 else 0,
        f\<lparr>iter_handle := (iter_handle f)[cmd_iter_handle cmd := Some c']\<rparr>, d\<lparr>d_mem := m'\<rparr>) \<and>
      it_current_pos c' \<le> length (kv_mapping_table f) \<and> matching c' (kv_mapping_table f) (it_current_pos c') = drop k ms \<and>
      (\<forall>j<4. m' (prp_byte (kv_io_command nvme_cmd_write cmd) (4 + 20 * k) (d_mem d) j) = le_bytes 4 k ! j) \<and>
      (\<forall>i<k. \<forall>j<20. m' (prp_byte (kv_io_command nvme_cmd_write cmd) (4 + 20 * k) (d_mem d) (4 + 20 * i + j)) =
         iter_item (kv_mapping_table f ! (ms ! i)) ! j)"
proof -
  let ?tbl = "kv_mapping_table f" and ?n = "4 + 20 * k"
  note iv = kv_invD [OF inv]
  have "Some c \<in> set (iter_handle f)" using c iv(7) nth_mem by metis
  then have pos: "it_current_pos c \<le> length ?tbl" by (rule iv(8))
  obtain pos' off' nr' buf' fin where r: "iter_scan ?tbl (length ?tbl) c (it_current_pos c) 4 0 (it_buf c) = Some (pos', off', nr', buf', fin)"
    "scanned c ?tbl (it_current_pos c) 0 (it_buf c) (pos', off', nr', buf', fin)"
    using iter_scan_ok [OF iv(1) pos, of 0 c "it_buf c"] by auto
  note sc = r(2) [unfolded scanned_def Let_def prod.case, folded ms]
  have e: "nr' = k" "off' = ?n" "pos' \<le> length ?tbl" "matching c ?tbl pos' = drop k ms"
    "fin \<longleftrightarrow> it_current_pos c < length ?tbl \<and> length ms \<le> 51" "\<forall>i<k. mem_bytes buf' (4 + 20 * i) 20 = iter_item (?tbl ! (ms ! i))"
    using sc k by auto
  let ?b = "mem_write 0 (le_bytes 4 k) buf'"
  have "k \<le> 51" using k by simp
  then obtain m' where m': "kv_scatter cmd 32768 ?b ?n d = Some (d\<lparr>d_mem := m'\<rparr>)"
    "\<forall>j<?n. m' (prp_byte (kv_io_command nvme_cmd_write cmd) ?n (d_mem d) j) = ?b j" using kv_scatter_ok [OF ok, of 32768 ?b] by auto
  let ?c = "c\<lparr>it_buf := ?b, it_current_pos := pos'\<rparr>"
  have "kv_iter_read cmd st (f, d) = Some (?n, if it_current_pos c < length ?tbl \<and> length ms \<le> 51 then 0x393 else 0,
      f\<lparr>iter_handle := (iter_handle f)[cmd_iter_handle cmd := Some ?c]\<rparr>, d\<lparr>d_mem := m'\<rparr>)"
    using c iv(2,7) r(1) m'(1) e(1,2) unfolding e(5) [symmetric] by (simp add: kv_iter_read_def)
  moreover have "matching ?c ?tbl (it_current_pos ?c) = drop k ms" using e(4) by (simp add: matching_def selected_def)
  moreover have "\<forall>j<4. m' (prp_byte (kv_io_command nvme_cmd_write cmd) ?n (d_mem d) j) = le_bytes 4 k ! j" using m'(2) by (auto simp: mem_write_def)
  moreover have "m' (prp_byte (kv_io_command nvme_cmd_write cmd) ?n (d_mem d) (4 + 20 * i + j)) = iter_item (?tbl ! (ms ! i)) ! j" if "i < k" "j < 20" for i j
  proof -
    have "4 + 20 * i + j < ?n" using that by linarith
    then have "m' (prp_byte (kv_io_command nvme_cmd_write cmd) ?n (d_mem d) (4 + 20 * i + j)) = buf' (4 + 20 * i + j)" using m'(2) by (simp add: mem_write_def)
    also have "\<dots> = mem_bytes buf' (4 + 20 * i) 20 ! j" using that(2) by (simp add: mem_bytes_def)
    finally show ?thesis using e(6) that(1) by simp
  qed
  ultimately show ?thesis using e(3) by (intro exI [of _ ?c] exI [of _ m']) simp
qed

lemma kv_inv_handles:
  assumes "kv_inv (f, d)" "length hs = 17" "\<And>c. Some c \<in> set hs \<Longrightarrow> Some c \<in> set (iter_handle f) \<or> it_current_pos c \<le> length (kv_mapping_table f)"
  shows "kv_inv (f\<lparr>iter_handle := hs\<rparr>, d\<lparr>d_mem := m\<rparr>)"
  using assms(1,2) assms(3) by (auto simp: kv_inv_def)

lemma kv_inv_handle:
  assumes "kv_inv (f, d)" "p = None \<or> (\<exists>c. p = Some c \<and> it_current_pos c \<le> length (kv_mapping_table f))"
  shows "kv_inv (f\<lparr>iter_handle := (iter_handle f)[i := p]\<rparr>, d\<lparr>d_mem := m\<rparr>)"
proof (rule kv_inv_handles [OF assms(1)])
  fix c assume "Some c \<in> set ((iter_handle f)[i := p])"
  then show "Some c \<in> set (iter_handle f) \<or> it_current_pos c \<le> length (kv_mapping_table f)"
    using set_update_subset_insert [of "iter_handle f" i p] assms(2) by auto
qed (use kv_invD(7) [OF assms(1)] in simp)

lemma iter_open_spec:
  assumes "kv_inv (f, d)"
  shows "\<exists>r st' hs. kv_iter_open cmd st f = Some (r, st', f\<lparr>iter_handle := hs\<rparr>) \<and> kv_inv (f\<lparr>iter_handle := hs\<rparr>, d)"
proof (cases "find (\<lambda>i. iter_handle f ! i = None) [1..<17]")
  case None
  then show ?thesis using assms by (intro exI [of _ 1] exI [of _ st] exI [of _ "iter_handle f"]) (simp add: kv_iter_open_def)
next
  case (Some i)
  let ?c = "\<lparr>it_prefix = iter_val cmd, it_bitmask = iter_bitmask cmd, it_buf = \<lambda>_. 0, it_byteswritten = 0, it_bufoffset = 0, it_end = False, it_current_pos = 0\<rparr>"
  have "i < 17" using Some by (auto simp: find_Some_iff)
  then have "kv_iter_open cmd st f = Some (i, 0, f\<lparr>iter_handle := (iter_handle f)[i := Some ?c]\<rparr>)"
    using Some kv_invD(7) [OF assms] by (simp add: kv_iter_open_def)
  moreover have "kv_inv (f\<lparr>iter_handle := (iter_handle f)[i := Some ?c]\<rparr>, d\<lparr>d_mem := d_mem d\<rparr>)" by (rule kv_inv_handle [OF assms]) simp
  ultimately show ?thesis by auto
qed

section \<open>The device\<close>

text \<open>
  The commands that the host may send: keys of at most 16 bytes, buffers for the data, handles below 17, and
  for a store the conditions of \<open>store_ok\<close>. Batches are not part of it.
\<close>

definition kv_host :: "kv_ftl \<times> 'b io_dev \<Rightarrow> nvme_kv_command \<Rightarrow> bool" where
  "kv_host s cmd \<longleftrightarrow>
     (if kv_opcode cmd = nvme_cmd_kv_iter_req then cmd_iter_handle cmd < 17
      else if kv_opcode cmd = nvme_cmd_kv_iter_read then cmd_iter_handle cmd < 17 \<and>
        (\<forall>n\<le>1024. host_buffer_ok cmd n (d_mem (snd s)) \<and> host_buffer_apart cmd n (d_mem (snd s)))
      else kv_opcode cmd \<noteq> nvme_cmd_kv_batch \<and> key_ok (cmd_key_length cmd) (kv_key cmd) \<and>
        (kv_opcode cmd = nvme_cmd_kv_store \<longrightarrow> store_ok cmd s) \<and>
        (kv_opcode cmd = nvme_cmd_kv_retrieve \<longrightarrow>
          (\<forall>n\<le>cmd_value_length cmd. host_buffer_ok cmd n (d_mem (snd s)) \<and> host_buffer_apart cmd n (d_mem (snd s)))))"

definition kv_serve :: "kv_ftl \<times> 'b io_dev \<Rightarrow> nvme_kv_command \<Rightarrow> (kv_ftl \<times> 'b io_dev) option" where
  "kv_serve s cmd = map_option (snd \<circ> snd) (kv_perform_nvme_io_cmd cmd KV_SUCCESS s)"

lemma kv_io_answers:
  assumes inv: "kv_inv (f, d)" and h: "kv_host (f, d) cmd" and op: "kv_opcode cmd \<notin> {nvme_cmd_kv_iter_req, nvme_cmd_kv_iter_read}"
  shows "\<exists>r st' s'. do_perform_kv_io cmd st (f, d) = Some (r, st', s') \<and> kv_inv s'"
proof -
  have key: "key_ok (cmd_key_length cmd) (kv_key cmd)" and hs: "kv_opcode cmd = nvme_cmd_kv_store \<Longrightarrow> store_ok cmd (f, d)"
    and hr: "kv_opcode cmd = nvme_cmd_kv_retrieve \<Longrightarrow> n \<le> cmd_value_length cmd \<Longrightarrow> host_buffer_ok cmd n (d_mem d) \<and> host_buffer_apart cmd n (d_mem d)" for n
    using h op by (auto simp: kv_host_def)
  let ?v = "kv_value (cmd_key_length cmd) (kv_key cmd) (f, d)"
  consider (store) "kv_opcode cmd = nvme_cmd_kv_store"
    | (missing) "kv_opcode cmd \<in> {nvme_cmd_kv_retrieve, nvme_cmd_kv_exist, nvme_cmd_kv_delete}" "?v = None"
    | (retrieve) v where "kv_opcode cmd = nvme_cmd_kv_retrieve" "?v = Some v"
    | (exist) v where "kv_opcode cmd = nvme_cmd_kv_exist" "?v = Some v"
    | (delete) v where "kv_opcode cmd = nvme_cmd_kv_delete" "?v = Some v"
    | (other) "kv_opcode cmd \<notin> {nvme_cmd_kv_store, nvme_cmd_kv_retrieve, nvme_cmd_kv_exist, nvme_cmd_kv_delete}" by blast
  then show ?thesis
  proof cases
    case store
    then show ?thesis using store_spec [OF inv store key hs] by blast
  next
    case missing
    then show ?thesis using missing_spec [OF inv key missing(2,1)] inv by blast
  next
    case retrieve
    have "min (length v) (cmd_value_length cmd) \<le> cmd_value_length cmd" by simp
    from retrieve_spec [OF inv retrieve(1) key retrieve(2) refl] hr [OF retrieve(1) this] obtain m' where
      "do_perform_kv_io cmd st (f, d) = Some (min (length v) (cmd_value_length cmd), st, f, d\<lparr>d_mem := m'\<rparr>)" by blast
    moreover have "kv_inv (f, d\<lparr>d_mem := m'\<rparr>)" using inv by (simp add: kv_inv_def)
    ultimately show ?thesis by blast
  next
    case exist
    then show ?thesis using exist_spec [OF inv key exist(2,1)] inv by blast
  next
    case delete
    then obtain i where "kv_slot (cmd_key_length cmd) (kv_key cmd) (kv_mapping_table f) = Some i" by (auto simp: kv_value_def)
    then show ?thesis using delete_spec [OF inv key delete(1)] by blast
  next
    case other
    then show ?thesis using lookup_spec [OF inv key] inv by (auto simp: do_perform_kv_io_def)
  qed
qed

lemma kv_iter_answers:
  assumes inv: "kv_inv (f, d)" and h: "kv_host (f, d) cmd" and op: "kv_opcode cmd \<in> {nvme_cmd_kv_iter_req, nvme_cmd_kv_iter_read}"
  shows "\<exists>r st' s'. do_perform_kv_iter_io cmd st (f, d) = Some (r, st', s') \<and> kv_inv s'"
proof (cases "kv_opcode cmd = nvme_cmd_kv_iter_req")
  case True
  have "kv_inv (f\<lparr>iter_handle := (iter_handle f)[cmd_iter_handle cmd := None]\<rparr>, d\<lparr>d_mem := d_mem d\<rparr>)" by (rule kv_inv_handle [OF inv]) simp
  then show ?thesis using iter_open_spec [OF inv, of cmd st] h inv kv_invD(7) [OF inv] True
    by (auto simp: do_perform_kv_iter_io_def kv_iter_close_def kv_host_def)
next
  case False
  then have rd: "kv_opcode cmd = nvme_cmd_kv_iter_read" "cmd_iter_handle cmd < 17"
    and b: "n \<le> 1024 \<Longrightarrow> host_buffer_ok cmd n (d_mem d) \<and> host_buffer_apart cmd n (d_mem d)" for n using op h by (auto simp: kv_host_def)
  show ?thesis
  proof (cases "iter_handle f ! cmd_iter_handle cmd")
    case None
    then show ?thesis using rd False inv kv_invD(7) [OF inv] by (auto simp: do_perform_kv_iter_io_def kv_iter_read_def)
  next
    case (Some c)
    let ?k = "min 51 (length (matching c (kv_mapping_table f) (it_current_pos c)))"
    have n: "4 + 20 * ?k \<le> 1024" by linarith
    obtain c' m' r st' where "kv_iter_read cmd st (f, d) = Some (r, st', f\<lparr>iter_handle := (iter_handle f)[cmd_iter_handle cmd := Some c']\<rparr>, d\<lparr>d_mem := m'\<rparr>)"
      "it_current_pos c' \<le> length (kv_mapping_table f)"
      using iter_read_spec [OF inv rd(2) Some refl refl, of st] b [OF n] by metis
    then show ?thesis using kv_inv_handle [OF inv, of "Some c'"] rd(1) False by (auto simp: do_perform_kv_iter_io_def)
  qed
qed

interpretation kvd: device_contract kv_inv kv_host kv_serve "\<lambda>_ _. True"
proof
  fix s :: "kv_ftl \<times> 'b io_dev" and cmd assume a: "kv_inv s" "kv_host s cmd"
  obtain f d where s: "s = (f, d)" by (cases s)
  show "\<exists>s'. kv_serve s cmd = Some s' \<and> kv_inv s' \<and> True"
  proof (cases "kv_opcode cmd \<in> {nvme_cmd_kv_iter_req, nvme_cmd_kv_iter_read}")
    case True
    then have "kv_opcode cmd \<noteq> nvme_cmd_kv_batch" by (auto simp: kv_opcodes)
    then show ?thesis using kv_iter_answers [OF a [unfolded s] True, of KV_SUCCESS] True s by (auto simp: kv_serve_def kv_perform_nvme_io_cmd_def)
  next
    case False
    then have "kv_opcode cmd \<noteq> nvme_cmd_kv_batch" using a(2) by (auto simp: kv_host_def)
    then show ?thesis using kv_io_answers [OF a [unfolded s] False, of KV_SUCCESS] False s by (auto simp: kv_serve_def kv_perform_nvme_io_cmd_def)
  qed
qed simp_all

section \<open>The initial state\<close>

lemma kv_init_inv:
  assumes "0 < slots" "slots < NONE32" "d_ns d \<noteq> []" "na_size (area d) \<le> NONE64"
  shows "kv_inv (kv_init_ftl slots (na_size (area d)) None, d)"
  using assms by (auto simp: kv_inv_def kv_init_ftl_def table_ok_def links_down_def initial_entry_def values_apart_def append_only_allocator_init_def)

end
