(* ===== verification/Kv_Props.thy ===== *)
theory Kv_Props
  imports Kv_Device
begin

text \<open>
  The properties of the key-value device, of its allocators and of the simple device, each with a
  concrete instance.
\<close>

section \<open>A device for the instances\<close>

text \<open>Two slots, 8 KiB of storage, host memory full of sevens; keys of one byte, odd ones meet in slot 0.\<close>

definition kv_dev :: "nat io_dev" where
  "kv_dev = \<lparr>d_sqes = [], d_cqes = [], d_ns = [\<lparr>na_size = 8192, na_bytes = \<lambda>_. 0\<rparr>], d_mem = \<lambda>_. 7, d_buffers = \<lambda>_. buffer_init 0, d_irqs = []\<rparr>"

definition kv_cmd :: "nat \<Rightarrow> nat \<Rightarrow> nat \<Rightarrow> nvme_kv_command" where
  "kv_cmd op b n = \<lparr>kv_opcode = op, kv_prp1 = 4096, kv_prp2 = 0, kv_value_len = n, kv_key_len = 0, kv_option = 0, kv_rsvd4 = 0,
     kv_key = b # replicate 15 0\<rparr>"

lemma kv_cmd_simps [simp]: "kv_opcode (kv_cmd op b n) = op" "cmd_key_length (kv_cmd op b n) = 1" "kv_key (kv_cmd op b n) = b # replicate 15 0"
  "n < 1073741824 \<Longrightarrow> cmd_value_length (kv_cmd op b n) = 4 * n" "key_ok (Suc 0) (b # ks)"
  by (simp_all add: kv_cmd_def cmd_key_length_def cmd_value_length_def u32_def key_ok_def)

lemma kv_cmd_key: "key_ok (cmd_key_length (kv_cmd op b n)) (kv_key (kv_cmd op b n))"
  by simp

lemma kv_cmd_first: "prp_first (kv_io_command w (kv_cmd op b m)) = 4096"
  by (simp add: prp_first_def kv_io_command_def kv_io_cmd_value_prp_def kv_cmd_def PAGE_SIZE_def)

lemma kv_cmd_byte: "k < 4096 \<Longrightarrow> prp_byte (kv_io_command w (kv_cmd op b m)) n mem k = 4096 + k"
  by (simp add: prp_byte_def kv_cmd_first) (simp add: kv_io_command_def kv_io_cmd_value_prp_def kv_cmd_def)

lemma kv_cmd_buffer: "n \<le> 4096 \<Longrightarrow> host_buffer_ok (kv_cmd op b m) n mem \<and> host_buffer_apart (kv_cmd op b m) n mem"
  using kv_cmd_byte [of _ nvme_cmd_write op b m n mem]
  by (simp add: host_buffer_ok_def host_buffer_apart_def prp_ok_def prp_apart_def prp_listed_def kv_cmd_first inj_on_def)

lemma hash_odd: "odd b \<Longrightarrow> get_hash_slot 2 (b # ks) 1 = Some 0"
proof -
  assume "odd b"
  then have "even (Bit_Operations.xor (84696351::nat) b)" by (simp add: even_xor_iff)
  then show ?thesis by (simp add: get_hash_slot_def hash_function_def u32_def even_iff_mod_2_eq_zero)
qed

text \<open>Two keys in one chain.\<close>

definition kv_pair :: kv_ftl where
  "kv_pair = (kv_init_ftl 2 8192 None)\<lparr>kv_mapping_table :=
     [\<lparr>me_key = 1 # replicate 17 0, me_mem_offset = 0, me_length = 4, me_next_slot = 1\<rparr>,
      \<lparr>me_key = 3 # replicate 17 0, me_mem_offset = 4, me_length = 4, me_next_slot = NONE32\<rparr>],
     kv_pool := \<lparr>ap_latest = 8, ap_dev_size = 8192, ap_total_written = 8\<rparr>\<rparr>"

lemma less_2: "i < 2 \<longleftrightarrow> i = 0 \<or> i = (1::nat)" by auto

lemma kv_pair_inv: "kv_inv (kv_pair, kv_dev)"
proof -
  have "links_down (kv_mapping_table kv_pair) (\<lambda>i. 2 - i)" by (simp add: links_down_def kv_pair_def less_2 numeral_2_eq_2 [symmetric] All_less_Suc)
  then show ?thesis
    by (auto simp: kv_inv_def table_ok_def kv_pair_def kv_init_ftl_def kv_dev_def values_apart_def region_def NONE32_def NONE64_def append_only_allocator_init_def All_less_Suc)
qed

lemma kv_pair_slots: "kv_slot 1 (1 # ks) (kv_mapping_table kv_pair) = Some 0" "kv_slot 1 (3 # ks) (kv_mapping_table kv_pair) = Some 1"
proof -
  have s: "kv_search (3 # ks) 1 (kv_mapping_table kv_pair) 1 = Some (Some 1)" "kv_search (1 # ks) 1 (kv_mapping_table kv_pair) 0 = Some (Some 0)"
    by (subst kv_search.simps, simp add: kv_pair_def key_matches_def NONE64_def)+
  then have "kv_search (3 # ks) 1 (kv_mapping_table kv_pair) 0 = Some (Some 1)"
    by (subst kv_search.simps) (simp add: kv_pair_def key_matches_def NONE64_def NONE32_def)
  moreover have "length (kv_mapping_table kv_pair) = 2" by (simp add: kv_pair_def)
  ultimately show "kv_slot 1 (1 # ks) (kv_mapping_table kv_pair) = Some 0" "kv_slot 1 (3 # ks) (kv_mapping_table kv_pair) = Some 1"
    using s(2) hash_odd [of 1 ks] hash_odd [of 3 ks] by (simp_all add: kv_slot_def)
qed

lemma kv_init_free: "key_ok len key \<Longrightarrow> 0 < slots \<Longrightarrow> slots < NONE32 \<Longrightarrow> kv_slot len key (replicate slots initial_entry) = None"
proof -
  assume a: "key_ok len key" "0 < slots" "slots < NONE32"
  then obtain h where h: "get_hash_slot slots key len = Some h" "h < slots" using hash_slot_ok [of len key slots] by (auto simp: key_ok_def)
  then have "kv_search key len (replicate slots initial_entry) h = Some None" by (intro kv_search_free) (simp_all add: initial_entry_def)
  then show ?thesis using h by (simp add: kv_slot_def)
qed

lemma kv_init_store: "n \<le> 1024 \<Longrightarrow> store_ok (kv_cmd op b n) (kv_init_ftl 2 8192 None, kv_dev)"
proof -
  assume n: "n \<le> 1024"
  have "kv_slot 1 (b # replicate 15 0) (replicate 2 initial_entry) = None" by (rule kv_init_free) (simp_all add: NONE32_def)
  moreover have "\<exists>j<2. free (replicate 2 initial_entry) j" by (intro exI [of _ 0]) (simp add: initial_entry_def)
  ultimately show ?thesis using n kv_cmd_buffer [of "4 * n" op b n "d_mem kv_dev"]
    by (simp add: store_ok_def Let_def kv_init_ftl_def append_only_allocator_init_def) (simp add: kv_dev_def)
qed

lemma kv_init_dev_inv: "kv_inv (kv_init_ftl 2 8192 None, kv_dev)"
  using kv_init_inv [of 2 kv_dev] by (simp add: kv_dev_def NONE32_def NONE64_def)

section \<open>Store, retrieve, delete\<close>

lemma kv_perform_io:
  "kv_opcode cmd \<in> {nvme_cmd_kv_store, nvme_cmd_kv_retrieve, nvme_cmd_kv_exist, nvme_cmd_kv_delete} \<Longrightarrow> kv_perform_nvme_io_cmd cmd st s = do_perform_kv_io cmd st s"
  by (auto simp: kv_perform_nvme_io_cmd_def kv_opcodes)

text \<open>C26: Storing a value refines the update of a map from keys to values: the command succeeds, the key has exactly the bytes of the host's buffer as its value afterwards, every other key of that length keeps its value, and the invariant holds again. A new key needs a free slot and room in the storage; an existing key may only be given a value that is not longer than its present one.\<close>

theorem kv_store_refines_map:
  assumes "kv_inv s" "kv_opcode cmd = nvme_cmd_kv_store" "key_ok (cmd_key_length cmd) (kv_key cmd)" "store_ok cmd s"
  shows "\<exists>s'. kv_perform_nvme_io_cmd cmd KV_SUCCESS s = Some (0, KV_SUCCESS, s') \<and> kv_inv s' \<and> d_mem (snd s') = d_mem (snd s) \<and>
     (\<forall>key. key_ok (cmd_key_length cmd) key \<longrightarrow> kv_value (cmd_key_length cmd) key s' =
        (if take (cmd_key_length cmd) key = take (cmd_key_length cmd) (kv_key cmd)
         then Some (host_value cmd (cmd_value_length cmd) (d_mem (snd s))) else kv_value (cmd_key_length cmd) key s))"
  using store_spec [OF assms] assms(2) by (simp add: kv_perform_io stores_def)

theorem kv_store_refines_map_witness:
  "\<exists>s' :: kv_ftl \<times> nat io_dev. kv_perform_nvme_io_cmd (kv_cmd nvme_cmd_kv_store 5 2) KV_SUCCESS (kv_init_ftl 2 8192 None, kv_dev) = Some (0, KV_SUCCESS, s') \<and>
     kv_value 1 [5] s' = Some [7, 7, 7, 7, 7, 7, 7, 7] \<and> kv_value 1 [3] s' = None"
proof -
  let ?c = "kv_cmd nvme_cmd_kv_store 5 2" and ?s = "(kv_init_ftl 2 8192 None, kv_dev)"
  have c: "cmd_key_length ?c = 1" "cmd_value_length ?c = 8" by simp_all
  obtain s' where s': "kv_perform_nvme_io_cmd ?c KV_SUCCESS ?s = Some (0, KV_SUCCESS, s')"
    "\<forall>key. key_ok 1 key \<longrightarrow> kv_value 1 key s' = (if take 1 key = take 1 (kv_key ?c) then Some (host_value ?c 8 (d_mem kv_dev)) else kv_value 1 key ?s)"
    using kv_store_refines_map [OF kv_init_dev_inv kv_cmd_simps(1) kv_cmd_key kv_init_store, of 2 5] unfolding c snd_conv by auto
  have "host_value ?c 8 (d_mem kv_dev) = [7, 7, 7, 7, 7, 7, 7, 7]" by (simp add: host_value_def kv_dev_def upt_rec)
  moreover have "kv_value 1 [3] ?s = None" using kv_init_free [of 1 "[3]" 2] by (simp add: kv_value_def kv_init_ftl_def key_ok_def NONE32_def)
  ultimately show ?thesis using s'(1) spec [OF s'(2), of "[5]"] spec [OF s'(2), of "[3]"] by (simp add: key_ok_def)
qed

text \<open>C27: A value that was stored is read back: a retrieve of the same key with a buffer of the same size returns the number of bytes and fills the buffer with the bytes that the store took from the host, whatever the host did to its memory in between.\<close>

theorem kv_round_trip:
  assumes "kv_inv (f, d)" "kv_opcode w = nvme_cmd_kv_store" "key_ok (cmd_key_length w) (kv_key w)" "store_ok w (f, d)"
    and "kv_opcode r = nvme_cmd_kv_retrieve" "cmd_key_length r = cmd_key_length w" "cmd_value_length r = cmd_value_length w"
    and "key_ok (cmd_key_length r) (kv_key r)" "take (cmd_key_length w) (kv_key r) = take (cmd_key_length w) (kv_key w)"
    and "host_buffer_ok r (cmd_value_length r) m" "host_buffer_apart r (cmd_value_length r) m"
  shows "\<exists>f' d' m'. kv_perform_nvme_io_cmd w KV_SUCCESS (f, d) = Some (0, KV_SUCCESS, f', d') \<and>
     kv_perform_nvme_io_cmd r KV_SUCCESS (f', d'\<lparr>d_mem := m\<rparr>) = Some (cmd_value_length r, KV_SUCCESS, f', d'\<lparr>d_mem := m'\<rparr>) \<and>
     (\<forall>k<cmd_value_length r. m' (prp_byte (kv_io_command nvme_cmd_write r) (cmd_value_length r) m k) =
        host_value w (cmd_value_length w) (d_mem d) ! k)"
proof -
  let ?v = "host_value w (cmd_value_length w) (d_mem d)"
  obtain f' d' where w: "do_perform_kv_io w KV_SUCCESS (f, d) = Some (0, KV_SUCCESS, f', d')" "kv_inv (f', d')" "stores w (f, d) (f', d')"
    using store_spec [OF assms(1-4), of KV_SUCCESS] by (metis surj_pair)
  have inv: "kv_inv (f', d'\<lparr>d_mem := m\<rparr>)" using w(2) by (simp add: kv_inv_def)
  have v: "kv_value (cmd_key_length r) (kv_key r) (f', d'\<lparr>d_mem := m\<rparr>) = Some ?v"
    using w(3) assms(6,8,9) by (simp add: stores_def kv_value_def)
  have n: "cmd_value_length r = min (length ?v) (cmd_value_length r)" using assms(7) by simp
  obtain m' where "do_perform_kv_io r KV_SUCCESS (f', d'\<lparr>d_mem := m\<rparr>) = Some (cmd_value_length r, KV_SUCCESS, f', d'\<lparr>d_mem := m'\<rparr>)"
     "\<forall>k<cmd_value_length r. m' (prp_byte (kv_io_command nvme_cmd_write r) (cmd_value_length r) m k) = ?v ! k"
    using retrieve_spec [OF inv assms(5) assms(8) v n, of KV_SUCCESS] assms(10,11) by auto
  then show ?thesis using w(1) assms(2,5) by (simp add: kv_perform_io) blast
qed

theorem kv_round_trip_witness:
  "\<exists>f' m' d' :: nat io_dev. kv_perform_nvme_io_cmd (kv_cmd nvme_cmd_kv_store 5 2) KV_SUCCESS (kv_init_ftl 2 8192 None, kv_dev) = Some (0, KV_SUCCESS, f', d') \<and>
     kv_perform_nvme_io_cmd (kv_cmd nvme_cmd_kv_retrieve 5 2) KV_SUCCESS (f', d'\<lparr>d_mem := \<lambda>_. 0\<rparr>) = Some (8, KV_SUCCESS, f', d'\<lparr>d_mem := m'\<rparr>) \<and> m' 4099 = 7"
proof -
  let ?w = "kv_cmd nvme_cmd_kv_store 5 2" and ?r = "kv_cmd nvme_cmd_kv_retrieve 5 2"
  have c: "cmd_value_length ?w = 8" "cmd_value_length ?r = 8" by simp_all
  have "\<exists>f' d' m'. kv_perform_nvme_io_cmd ?w KV_SUCCESS (kv_init_ftl 2 8192 None, kv_dev) = Some (0, KV_SUCCESS, f', d') \<and>
     kv_perform_nvme_io_cmd ?r KV_SUCCESS (f', d'\<lparr>d_mem := \<lambda>_. 0\<rparr>) = Some (cmd_value_length ?r, KV_SUCCESS, f', d'\<lparr>d_mem := m'\<rparr>) \<and>
     (\<forall>k<cmd_value_length ?r. m' (prp_byte (kv_io_command nvme_cmd_write ?r) (cmd_value_length ?r) (\<lambda>_. 0) k) =
        host_value ?w (cmd_value_length ?w) (d_mem kv_dev) ! k)"
    by (rule kv_round_trip) (use kv_init_dev_inv kv_init_store [of 2] kv_cmd_buffer [of 8] in auto)
  then obtain f' d' m' where r: "kv_perform_nvme_io_cmd ?w KV_SUCCESS (kv_init_ftl 2 8192 None, kv_dev) = Some (0, KV_SUCCESS, f', d')"
     "kv_perform_nvme_io_cmd ?r KV_SUCCESS (f', d'\<lparr>d_mem := \<lambda>_. 0\<rparr>) = Some (8, KV_SUCCESS, f', d'\<lparr>d_mem := m'\<rparr>)"
     "\<forall>k<8. m' (prp_byte (kv_io_command nvme_cmd_write ?r) 8 (\<lambda>_. 0) k) = host_value ?w 8 (d_mem kv_dev) ! k" unfolding c by blast
  have "m' 4099 = 7" using spec [OF r(3), of 3] kv_cmd_byte [of 3 nvme_cmd_write nvme_cmd_kv_retrieve 5 2 8 "\<lambda>_. 0"] by (simp add: host_value_def kv_dev_def)
  then show ?thesis using r(1,2) by blast
qed

text \<open>A delete hides exactly the keys whose search leads over the slot of the deleted key: the key itself, and every key behind it in its chain. When the slot is the last one of its chain only the key itself disappears; otherwise other keys are lost with it.\<close>

theorem kv_delete_cuts_chain:
  assumes "kv_inv (f, d)" "kv_opcode cmd = nvme_cmd_kv_delete" "key_ok (cmd_key_length cmd) (kv_key cmd)"
    and "kv_slot (cmd_key_length cmd) (kv_key cmd) (kv_mapping_table f) = Some i"
  shows "\<exists>f'. kv_perform_nvme_io_cmd cmd KV_SUCCESS (f, d) = Some (0, KV_SUCCESS, f', d) \<and> kv_inv (f', d) \<and>
     (\<forall>len key. key_ok len key \<longrightarrow> kv_value len key (f', d) = (if hidden_by i len key (kv_mapping_table f) then None else kv_value len key (f, d))) \<and>
     hidden_by i (cmd_key_length cmd) (kv_key cmd) (kv_mapping_table f) \<and>
     (last_of_chain (kv_mapping_table f) i \<longrightarrow> (\<forall>len key. key_ok len key \<and> hidden_by i len key (kv_mapping_table f) \<longrightarrow> kv_slot len key (kv_mapping_table f) = Some i))"
proof -
  note t = kv_invD(1) [OF assms(1)]
  obtain f' where "do_perform_kv_io cmd KV_SUCCESS (f, d) = Some (0, KV_SUCCESS, f', d)" "kv_inv (f', d)" "deletes cmd (f, d) (f', d)"
    using delete_spec [OF assms(1,3,2,4)] by blast
  then show ?thesis using assms(2,4) hidden_by_self [OF t assms(3,4)] hidden_by_last [OF t] by (auto simp: kv_perform_io deletes_def)
qed

theorem kv_delete_cuts_chain_witness:
  "\<exists>f'. kv_perform_nvme_io_cmd (kv_cmd nvme_cmd_kv_delete 1 0) KV_SUCCESS (kv_pair, kv_dev) = Some (0, KV_SUCCESS, f', kv_dev) \<and>
     kv_value 1 [3] (kv_pair, kv_dev) \<noteq> None \<and> kv_value 1 [3] (f', kv_dev) = None"
proof -
  have l: "length (kv_mapping_table kv_pair) = 2" by (simp add: kv_pair_def)
  have "reaches (kv_mapping_table kv_pair) 0 1" by (rule reaches_next) (auto simp: kv_pair_def NONE32_def intro: reaches_self)
  then have "hidden_by 0 1 [3] (kv_mapping_table kv_pair)"
    unfolding hidden_by_def l using kv_pair_slots(2) [of "[]"] hash_odd [of 3 "[]"] reaches_self by auto
  moreover have "kv_value 1 [3] (kv_pair, kv_dev) \<noteq> None" using kv_pair_slots(2) [of "[]"] by (simp add: kv_value_def)
  ultimately show ?thesis
    using kv_delete_cuts_chain [OF kv_pair_inv, of "kv_cmd nvme_cmd_kv_delete 1 0" 0] kv_pair_slots(1) by (auto simp: key_ok_def)
qed

text \<open>C28: From its initial state on, whatever commands the host has sent before, the key-value device answers every store, retrieve, exist, delete and iterator command that respects the host's side of the interface: no search of a chain runs forever, no access leaves the table or the storage, and the invariant holds again.\<close>

theorem kv_device_always_answers:
  assumes "0 < slots" "slots < NONE32" "d_ns d \<noteq> []" "na_size (area d) \<le> NONE64"
    and "(device_step kv_host kv_serve)\<^sup>*\<^sup>* (kv_init_ftl slots (na_size (area d)) None, d) s" "kv_host s cmd"
  shows "\<exists>s'. kv_serve s cmd = Some s' \<and> kv_inv s'"
  using kvd.reach_answers [OF assms(5) kv_init_inv [OF assms(1-4)] assms(6)] by blast

theorem kv_device_always_answers_witness:
  "\<exists>s' :: kv_ftl \<times> nat io_dev. kv_serve (kv_init_ftl 2 8192 None, kv_dev) (kv_cmd nvme_cmd_kv_store 5 2) = Some s' \<and> kv_inv s'"
proof -
  have a: "na_size (area kv_dev) = 8192" by (simp add: kv_dev_def)
  have "kv_host (kv_init_ftl 2 8192 None, kv_dev) (kv_cmd nvme_cmd_kv_store 5 2)"
    using kv_init_store [of 2 nvme_cmd_kv_store 5] by (simp add: kv_host_def kv_opcodes)
  then show ?thesis using kv_device_always_answers [of 2 kv_dev] by (simp add: a) (simp add: kv_dev_def NONE32_def NONE64_def)
qed

text \<open>C29: A read of an iterator returns the next keys that agree with its prefix in the bits of its mask, in the order of the slots and at most 51 of them: the host's buffer holds their number and, for each, its length and its 16 bytes; the iterator goes on with exactly the matching keys that are left, and the status 0x393 tells that there are none.\<close>

theorem kv_iterator_enumerates:
  assumes "kv_inv (f, d)" "kv_opcode cmd = nvme_cmd_kv_iter_read" "cmd_iter_handle cmd < 17" "iter_handle f ! cmd_iter_handle cmd = Some c"
    and "ms = matching c (kv_mapping_table f) (it_current_pos c)" "k = min 51 (length ms)"
    and "host_buffer_ok cmd (4 + 20 * k) (d_mem d)" "host_buffer_apart cmd (4 + 20 * k) (d_mem d)"
  shows "\<exists>c' m'. kv_perform_nvme_io_cmd cmd KV_SUCCESS (f, d) =
      Some (4 + 20 * k, if it_current_pos c < length (kv_mapping_table f) \<and> length ms \<le> 51 then 0x393 else 0,
        f\<lparr>iter_handle := (iter_handle f)[cmd_iter_handle cmd := Some c']\<rparr>, d\<lparr>d_mem := m'\<rparr>) \<and>
      it_current_pos c' \<le> length (kv_mapping_table f) \<and> matching c' (kv_mapping_table f) (it_current_pos c') = drop k ms \<and>
      (\<forall>j<4. m' (prp_byte (kv_io_command nvme_cmd_write cmd) (4 + 20 * k) (d_mem d) j) = le_bytes 4 k ! j) \<and>
      (\<forall>i<k. \<forall>j<20. m' (prp_byte (kv_io_command nvme_cmd_write cmd) (4 + 20 * k) (d_mem d) (4 + 20 * i + j)) =
         iter_item (kv_mapping_table f ! (ms ! i)) ! j)"
proof -
  have "kv_perform_nvme_io_cmd cmd KV_SUCCESS (f, d) = kv_iter_read cmd KV_SUCCESS (f, d)"
    using assms(2) by (simp add: kv_perform_nvme_io_cmd_def do_perform_kv_iter_io_def kv_opcodes)
  then show ?thesis using iter_read_spec [OF assms(1,3-8)] by simp
qed

theorem kv_iterator_enumerates_witness:
  "\<exists>c' m'. let c = \<lparr>it_prefix = 0, it_bitmask = 0, it_buf = \<lambda>_. 0, it_byteswritten = 0, it_bufoffset = 0, it_end = False, it_current_pos = 0\<rparr>;
     f = kv_pair\<lparr>iter_handle := [Some c] @ replicate 16 None\<rparr> in
     kv_perform_nvme_io_cmd (kv_cmd nvme_cmd_kv_iter_read 0 0) KV_SUCCESS (f, kv_dev) =
       Some (44, 0x393, f\<lparr>iter_handle := [Some c'] @ replicate 16 None\<rparr>, kv_dev\<lparr>d_mem := m'\<rparr>) \<and> m' 4096 = 2 \<and> m' 4124 = 3"
proof -
  let ?c = "\<lparr>it_prefix = 0, it_bitmask = 0, it_buf = \<lambda>_. 0, it_byteswritten = 0, it_bufoffset = 0, it_end = False, it_current_pos = 0\<rparr>"
  let ?f = "kv_pair\<lparr>iter_handle := [Some ?c] @ replicate 16 None\<rparr>" and ?cmd = "kv_cmd nvme_cmd_kv_iter_read 0 0"
  have inv: "kv_inv (?f, kv_dev\<lparr>d_mem := d_mem kv_dev\<rparr>)" by (rule kv_inv_handles [OF kv_pair_inv]) auto
  have ms: "matching ?c (kv_mapping_table ?f) 0 = [0, 1]" by (simp add: matching_def selected_def kv_pair_def NONE64_def upt_rec)
  have h: "cmd_iter_handle ?cmd = 0" by (simp add: cmd_iter_handle_def kv_cmd_def)
  define f where "f = ?f"
  have f: "iter_handle f ! 0 = Some ?c" "length (kv_mapping_table f) = 2" "iter_handle f = [Some ?c] @ replicate 16 None"
    "kv_mapping_table f ! 1 = \<lparr>me_key = 3 # replicate 17 0, me_mem_offset = 4, me_length = 4, me_next_slot = NONE32\<rparr>"
    by (simp_all add: f_def kv_pair_def)
  have ms: "[0, 1] = matching ?c (kv_mapping_table f) (it_current_pos ?c)" using ms by (simp add: f_def)
  have k: "(2::nat) = min 51 (length [0::nat, 1])" by simp
  have b: "host_buffer_ok ?cmd (4 + 20 * 2) (d_mem kv_dev)" "host_buffer_apart ?cmd (4 + 20 * 2) (d_mem kv_dev)" using kv_cmd_buffer by auto
  have "it_current_pos ?c < length (kv_mapping_table f)" using f(2) by simp
  then obtain c' m' where r: "kv_perform_nvme_io_cmd ?cmd KV_SUCCESS (f, kv_dev) =
        Some (44, 0x393, f\<lparr>iter_handle := (iter_handle f)[0 := Some c']\<rparr>, kv_dev\<lparr>d_mem := m'\<rparr>)"
      "\<forall>j<4. m' (prp_byte (kv_io_command nvme_cmd_write ?cmd) 44 (d_mem kv_dev) j) = le_bytes 4 2 ! j"
      "\<forall>i<2. \<forall>j<20. m' (prp_byte (kv_io_command nvme_cmd_write ?cmd) 44 (d_mem kv_dev) (4 + 20 * i + j)) = iter_item (kv_mapping_table f ! ([0, 1] ! i)) ! j"
    using kv_iterator_enumerates [where cmd = ?cmd, OF inv [folded f_def, simplified], unfolded h kv_cmd_simps(1), OF refl _ f(1) ms k b] by auto
  have "m' 4096 = 2" using r(2) kv_cmd_byte [of 0 nvme_cmd_write nvme_cmd_kv_iter_read 0 0 44 "d_mem kv_dev"] by (force simp: le_bytes_def upt_rec)
  moreover have "m' 4124 = 3" using spec [OF spec [OF r(3), of 1, simplified], of 4] kv_cmd_byte [of 28 nvme_cmd_write nvme_cmd_kv_iter_read 0 0 44 "d_mem kv_dev"] f(4)
    by (simp add: iter_item_def le_bytes_def upt_rec nth_append)
  ultimately show ?thesis using r(1) f(3) unfolding f_def by (intro exI [of _ c'] exI [of _ m']) (simp add: Let_def)
qed

section \<open>Allocation\<close>

text \<open>The regions that the bitmap allocator hands out, as long as there is a clear bit to be found, are pairwise disjoint and lie within the storage; so a value never overlaps another one.\<close>

theorem bitmap_allocations_disjoint:
  assumes "zero_area find_area" "bitmap_inv n p" "alloc_run (bitmap_allocate find_area) bitmap_room lens ([], p) = Some (rs, p')"
  shows "disjoint_regions rs \<and> map snd rs = lens \<and> (\<forall>r\<in>set rs. fst r + snd r \<le> n) \<and> bitmap_inv n p'"
  using zero_area.bitmap_seq [OF assms] .

theorem bitmap_allocations_disjoint_witness:
  "\<exists>rs p'. alloc_run (bitmap_allocate first_zero) bitmap_room [100, 2000, 100] ([], bitmap_allocator_init 65536) = Some (rs, p') \<and>
     disjoint_regions rs \<and> map snd rs = [100, 2000, 100]"
proof -
  let ?p = "bitmap_allocator_init 65536"
  have r: "\<exists>rs p'. alloc_run (bitmap_allocate first_zero) bitmap_room [100, 2000, 100] ([], ?p) = Some (rs, p')"
    unfolding alloc_run_def
    by (simp add: bitmap_room_def bitmap_allocate_def bitmap_allocator_init_def Let_def bitmap_set_def SMALL_LENGTH_def LARGE_LENGTH_def SMALL_BITS_def LARGE_BITS_def
        first_zero_def upt_conv_Cons exI [of _ 0] exI [of _ 1])
  have "bitmap_inv 65536 ?p" by (simp add: bitmap_inv_def bitmap_allocator_init_def SMALL_LENGTH_def LARGE_LENGTH_def SMALL_BITS_def LARGE_BITS_def)
  then show ?thesis using r bitmap_allocations_disjoint [OF fz.zero_area_axioms] by blast
qed


section \<open>Errors\<close>

text \<open>A retrieve, an exist or a delete of a key that is not there reports KV_ERR_KEY_NOT_EXIST and changes neither the device nor the memory of the host, while an exist of a key that is there reports success.\<close>

theorem kv_missing_key:
  assumes "kv_inv (f, d)" "key_ok (cmd_key_length cmd) (kv_key cmd)"
    and "kv_opcode cmd \<in> {nvme_cmd_kv_retrieve, nvme_cmd_kv_exist, nvme_cmd_kv_delete}"
  shows "(kv_value (cmd_key_length cmd) (kv_key cmd) (f, d) = None \<longrightarrow>
       kv_perform_nvme_io_cmd cmd st (f, d) = Some (0, KV_ERR_KEY_NOT_EXIST, f, d)) \<and>
     (kv_value (cmd_key_length cmd) (kv_key cmd) (f, d) \<noteq> None \<and> kv_opcode cmd = nvme_cmd_kv_exist \<longrightarrow>
       kv_perform_nvme_io_cmd cmd st (f, d) = Some (0, st, f, d))"
proof -
  have "kv_perform_nvme_io_cmd cmd st (f, d) = do_perform_kv_io cmd st (f, d)" by (rule kv_perform_io) (use assms(3) in auto)
  then show ?thesis using missing_spec [OF assms(1,2) _ assms(3)] exist_spec [OF assms(1,2)] by auto
qed

theorem kv_missing_key_witness:
  "kv_perform_nvme_io_cmd (kv_cmd nvme_cmd_kv_retrieve 5 2) 0 (kv_init_ftl 2 8192 None, kv_dev) = Some (0, 0x310, kv_init_ftl 2 8192 None, kv_dev)"
proof -
  have "kv_slot 1 (5 # replicate 15 0) (replicate 2 initial_entry) = None" by (rule kv_init_free) (simp_all add: NONE32_def)
  then have "kv_value (cmd_key_length (kv_cmd nvme_cmd_kv_retrieve 5 2)) (kv_key (kv_cmd nvme_cmd_kv_retrieve 5 2)) (kv_init_ftl 2 8192 None, kv_dev) = None"
    by (simp add: kv_value_def kv_init_ftl_def)
  then show ?thesis using kv_missing_key [OF kv_init_dev_inv kv_cmd_key, of nvme_cmd_kv_retrieve 5 2 0] by (simp add: KV_ERR_KEY_NOT_EXIST_def)
qed

section \<open>The simple device\<close>

text \<open>C37: A read or write on the simple device completes after the start-up delay plus one access time for every unit that it covers, counted from the moment at which both the request has arrived and its first unit is free; a flush completes when the last unit is free.\<close>

theorem simple_request_time:
  assumes "config_ok cfg stat" "sns_csi ns = NVME_CSI_NVM"
    and "tm = op_times cfg (rw_opcode c)" "t0 = max now (stat ! (rw_slba c div 2 ^ (cfg_io_unit_shift cfg - 9) mod cfg_nr_io_units cfg)) + fst tm"
    and "t0 + nr_units_of (cfg_io_unit_shift cfg) (simple_cmd_io_size c) * fst (snd tm) + snd (snd tm) < 18446744073709551616"
  shows "(rw_opcode c \<in> {nvme_cmd_read, nvme_cmd_write} \<longrightarrow>
       (\<exists>stat'. simple_proc_nvme_io_cmd cfg now ns c ret stat =
          Some (True, ret\<lparr>ret_nsecs_target := t0 + nr_units_of (cfg_io_unit_shift cfg) (simple_cmd_io_size c) * fst (snd tm)\<rparr>, stat') \<and> config_ok cfg stat')) \<and>
     (rw_opcode c = nvme_cmd_flush \<longrightarrow>
       simple_proc_nvme_io_cmd cfg now ns c ret stat = Some (True, ret\<lparr>ret_nsecs_target := foldr max stat 0\<rparr>, stat))"
proof -
  obtain dl lat tr where tm: "op_times cfg (rw_opcode c) = (dl, lat, tr)" by (metis surj_pair)
  have "schedule_flush cfg stat = Some (foldr max stat 0)" by (rule schedule_flush_eq) (use assms(1) in \<open>simp add: config_ok_def\<close>)
  moreover obtain stat' where "schedule_units cfg (dl, lat, tr) (rw_slba c) (simple_cmd_io_size c) now stat =
      Some (t0 + nr_units_of (cfg_io_unit_shift cfg) (simple_cmd_io_size c) * lat, stat')" "length stat' = length stat"
    using schedule_units_ok [OF assms(1), of now "rw_slba c" dl "simple_cmd_io_size c" lat tr] assms(3-5) tm by auto
  ultimately show ?thesis using assms(1,2,3) tm
    by (auto simp: simple_proc_nvme_io_cmd_def schedule_io_units_def config_ok_def nvme_consts)
qed

theorem simple_request_time_witness:
  "\<exists>stat'. simple_proc_nvme_io_cmd \<lparr>cfg_nr_io_units = 8, cfg_io_unit_shift = 12, cfg_read_delay = 1, cfg_read_time = 10, cfg_read_trailing = 0,
       cfg_write_delay = 2, cfg_write_time = 20, cfg_write_trailing = 0\<rparr> 1000 (simple_init_namespace 1 65536)
     \<lparr>rw_opcode = nvme_cmd_read, rw_nsid = 1, rw_slba = 0, rw_length = 15, rw_control = 0, rw_dsmgmt = 0\<rparr>
     \<lparr>ret_status = 0, ret_nsecs_target = 0, ret_result = 0\<rparr> (replicate 8 500) =
     Some (True, \<lparr>ret_status = 0, ret_nsecs_target = 1021, ret_result = 0\<rparr>, stat')"
proof -
  let ?cfg = "\<lparr>cfg_nr_io_units = 8, cfg_io_unit_shift = 12, cfg_read_delay = 1, cfg_read_time = 10, cfg_read_trailing = 0,
       cfg_write_delay = 2, cfg_write_time = 20, cfg_write_trailing = 0\<rparr>"
  let ?c = "\<lparr>rw_opcode = nvme_cmd_read, rw_nsid = 1, rw_slba = 0, rw_length = 15, rw_control = 0, rw_dsmgmt = 0\<rparr>"
  have o: "op_times ?cfg nvme_cmd_read = (1, 10, 0)" "simple_cmd_io_size ?c = 8192" "nr_units_of 12 8192 = 2"
    by (simp_all add: op_times_def nvme_consts simple_cmd_io_size_def nr_units_of_def DIV_ROUND_UP_def)
  show ?thesis
    using simple_request_time [of ?cfg "replicate 8 500" "simple_init_namespace 1 65536" "(1, 10, 0)" ?c 1001 1000 "\<lparr>ret_status = 0, ret_nsecs_target = 0, ret_result = 0\<rparr>"] o
    by (auto simp: config_ok_def simple_init_namespace_def)
qed

end
