(* ===== verification/Conv_Ftl.thy ===== *)
theory Conv_Ftl
  imports Fdp_Ftl
begin

text \<open>
  The flash translation layer of the conventional device, \<open>conv_ftl.c\<close>, function by function. It
  is the ancestor of the FDP layer: one write pointer for the host and one for garbage collection, no
  handles, no statistics and no events.

  As in the FDP layer, a line is its index in \<open>clm_lines\<close>, and what the partitions share is a
  \<open>conv_env\<close>. The parameters, the write pointers and the flow control have the same fields in both
  layers; they and the accesses to pages share their types and definitions with \<open>Fdp_Ftl\<close>.
\<close>

section \<open>State\<close>

type_synonym convparams = fdpparams
type_synonym write_pointer = fdp_write_pointer
type_synonym write_flow_control = fdp_write_flow_control

record conv_line =
  cl_id :: nat
  cl_ipc :: int
  cl_vpc :: int
  cl_pos :: nat

record conv_line_mgmt =
  clm_lines :: "conv_line list"
  cfree_line_list :: "nat list"
  cvictim_line_pq :: "(conv_line list, nat) pqueue_t"
  cfull_line_list :: "nat list"
  clm_tt_lines :: nat
  cfree_line_cnt :: nat
  cvictim_line_cnt :: nat
  cfull_line_cnt :: nat

record conv_ftl =
  c_ssd :: ssd
  c_cp :: convparams
  c_maptbl :: "ppa list"
  c_rmap :: "nat list"
  c_wp :: write_pointer
  c_gc_wp :: write_pointer
  c_lm :: conv_line_mgmt
  c_wfc :: write_flow_control

record conv_env =
  ce_sh :: ssd_shared
  ce_sched :: "internal_op list"

abbreviation c_sp :: "conv_ftl \<Rightarrow> ssdparams" where "c_sp f \<equiv> ssd_sp (c_ssd f)"
abbreviation c_lines :: "conv_ftl \<Rightarrow> conv_line list" where "c_lines f \<equiv> clm_lines (c_lm f)"

section \<open>Mapping tables\<close>

definition conv_should_gc :: "conv_ftl \<Rightarrow> bool" where
  "conv_should_gc f = (cfree_line_cnt (c_lm f) \<le> gc_thres_lines (c_cp f))"

definition conv_should_gc_high :: "conv_ftl \<Rightarrow> bool" where
  "conv_should_gc_high f = (cfree_line_cnt (c_lm f) \<le> gc_thres_lines_high (c_cp f))"

definition conv_get_maptbl_ent :: "conv_ftl \<Rightarrow> nat \<Rightarrow> ppa option" where
  "conv_get_maptbl_ent f lpn = rd (c_maptbl f) lpn"

definition conv_set_maptbl_ent :: "nat \<Rightarrow> ppa \<Rightarrow> conv_ftl \<Rightarrow> conv_ftl option" where
  "conv_set_maptbl_ent lpn p f = do {
     NVMEV_ASSERT (lpn < tt_pgs (c_sp f));
     m \<leftarrow> wr (c_maptbl f) lpn p;
     Some (f\<lparr>c_maptbl := m\<rparr>)
   }"

definition conv_get_rmap_ent :: "conv_ftl \<Rightarrow> ppa \<Rightarrow> nat option" where
  "conv_get_rmap_ent f p = do { pgidx \<leftarrow> ppa2pgidx (c_sp f) p; rd (c_rmap f) pgidx }"

definition conv_set_rmap_ent :: "nat \<Rightarrow> ppa \<Rightarrow> conv_ftl \<Rightarrow> conv_ftl option" where
  "conv_set_rmap_ent lpn p f = do {
     pgidx \<leftarrow> ppa2pgidx (c_sp f) p;
     r \<leftarrow> wr (c_rmap f) pgidx lpn;
     Some (f\<lparr>c_rmap := r\<rparr>)
   }"

section \<open>The victim queue's callbacks\<close>

definition conv_victim_line_cmp_pri :: "nat \<Rightarrow> nat \<Rightarrow> bool" where
  "conv_victim_line_cmp_pri nxt cur = (nxt > cur)"

definition conv_victim_line_get_pri :: "conv_line list \<Rightarrow> nat \<Rightarrow> nat" where
  "conv_victim_line_get_pri ls a = nat (cl_vpc (ls ! a) mod 18446744073709551616)"

definition conv_victim_line_set_pri :: "nat \<Rightarrow> nat \<Rightarrow> conv_line list \<Rightarrow> conv_line list" where
  "conv_victim_line_set_pri a pri ls = ls[a := (ls ! a)\<lparr>cl_vpc := s32 (int pri)\<rparr>]"

definition conv_victim_line_get_pos :: "conv_line list \<Rightarrow> nat \<Rightarrow> nat" where
  "conv_victim_line_get_pos ls a = cl_pos (ls ! a)"

definition conv_victim_line_set_pos :: "nat \<Rightarrow> nat \<Rightarrow> conv_line list \<Rightarrow> conv_line list" where
  "conv_victim_line_set_pos a pos ls = ls[a := (ls ! a)\<lparr>cl_pos := pos\<rparr>]"

lemmas conv_victim_line_defs = conv_victim_line_cmp_pri_def conv_victim_line_get_pri_def conv_victim_line_set_pri_def
  conv_victim_line_get_pos_def conv_victim_line_set_pos_def

section \<open>Lines and write pointers\<close>

text \<open>\<open>mem_d\<close> is the memory \<open>pqueue_init\<close> gets for its slots; both allocations succeed.\<close>

definition conv_init_lines :: "nat list \<Rightarrow> ssdparams \<Rightarrow> conv_line_mgmt option" where
  "conv_init_lines mem_d spp = do {
     let n = blks_per_pl spp;
     NVMEV_ASSERT (n = tt_lines spp);
     pq \<leftarrow> pqueue_init True (Some mem_d) (tt_lines spp) conv_victim_line_cmp_pri conv_victim_line_get_pri
             conv_victim_line_set_pri conv_victim_line_get_pos conv_victim_line_set_pos;
     let ls = map (\<lambda>i. \<lparr>cl_id = i, cl_ipc = 0, cl_vpc = 0, cl_pos = 0\<rparr>) [0..<n];
     let free = foldl (\<lambda>l i. list_add_tail i l) [] [0..<n];
     let cnt = foldl (\<lambda>c i. c + 1) 0 [0..<n];
     NVMEV_ASSERT (cnt = n);
     Some \<lparr>clm_lines = ls, cfree_line_list = free, cvictim_line_pq = pq, cfull_line_list = [],
       clm_tt_lines = n, cfree_line_cnt = cnt, cvictim_line_cnt = 0, cfull_line_cnt = 0\<rparr>
   }"

definition conv_init_write_flow_control :: "ssdparams \<Rightarrow> write_flow_control" where
  "conv_init_write_flow_control spp =
     \<lparr>write_credits = u32 (pgs_per_line spp), credits_to_refill = u32 (pgs_per_line spp)\<rparr>"

definition conv_consume_write_credit :: "conv_ftl \<Rightarrow> conv_ftl" where
  "conv_consume_write_credit f =
     f\<lparr>c_wfc := (c_wfc f)\<lparr>write_credits := u32_sub (write_credits (c_wfc f)) 1\<rparr>\<rparr>"

text \<open>The result \<open>None\<close> inside the pair is the NULL pointer.\<close>

definition conv_get_next_free_line :: "conv_ftl \<Rightarrow> nat option \<times> conv_ftl" where
  "conv_get_next_free_line f =
     (let lm = c_lm f in
      case list_first_entry_or_null (cfree_line_list lm) of
        None \<Rightarrow> (None, f)
      | Some cur \<Rightarrow> (Some cur, f\<lparr>c_lm := lm\<lparr>cfree_line_list := list_del_init cur (cfree_line_list lm),
                                          cfree_line_cnt := u32_sub (cfree_line_cnt lm) 1\<rparr>\<rparr>))"

definition conv_get_wp :: "conv_ftl \<Rightarrow> io_type \<Rightarrow> write_pointer" where
  "conv_get_wp f io = (case io of USER_IO \<Rightarrow> c_wp f | GC_IO \<Rightarrow> c_gc_wp f)"

definition conv_put_wp :: "conv_ftl \<Rightarrow> io_type \<Rightarrow> write_pointer \<Rightarrow> conv_ftl" where
  "conv_put_wp f io wp = (case io of USER_IO \<Rightarrow> f\<lparr>c_wp := wp\<rparr> | GC_IO \<Rightarrow> f\<lparr>c_gc_wp := wp\<rparr>)"

definition conv_prepare_write_pointer :: "io_type \<Rightarrow> conv_ftl \<Rightarrow> conv_ftl option" where
  "conv_prepare_write_pointer io f0 =
     (case conv_get_next_free_line f0 of
       (None, f) \<Rightarrow> None
     | (Some cur, f) \<Rightarrow> do {
         ln \<leftarrow> rd (c_lines f) cur;
         Some (conv_put_wp f io \<lparr>wp_curline = Some cur, wp_ch = 0, wp_lun = 0, wp_pg = 0,
           wp_blk = cl_id ln, wp_pl = 0\<rparr>)
       })"

text \<open>
  The end of a line: the line just filled goes to the full list if all its pages are valid
  and to the victim queue otherwise.
\<close>

definition conv_retire_line :: "nat \<Rightarrow> conv_ftl \<Rightarrow> conv_ftl option" where
  "conv_retire_line cur f = do {
     let spp = c_sp f;
     let lm = c_lm f;
     ln \<leftarrow> rd (clm_lines lm) cur;
     if cl_vpc ln = int (pgs_per_line spp) then do {
       NVMEV_ASSERT (cl_ipc ln = 0);
       Some (f\<lparr>c_lm := lm\<lparr>cfull_line_list := list_add_tail cur (cfull_line_list lm),
                         cfull_line_cnt := u32 (cfull_line_cnt lm + 1)\<rparr>\<rparr>)
     } else do {
       NVMEV_ASSERT (cl_vpc ln \<ge> 0 \<and> cl_vpc ln < int (pgs_per_line spp));
       NVMEV_ASSERT (cl_ipc ln > 0);
       (pq, ls) \<leftarrow> pqueue_insert (cvictim_line_pq lm) cur (clm_lines lm);
       Some (f\<lparr>c_lm := lm\<lparr>cvictim_line_pq := pq, clm_lines := ls,
                         cvictim_line_cnt := u32 (cvictim_line_cnt lm + 1)\<rparr>\<rparr>)
     }
   }"

text \<open>
  The write pointer moves page by page inside a one-shot page, then to the next channel, then
  to the next LUN, then to the next one-shot page of the block, then to a new line. Without a
  free line the code dereferences NULL.
\<close>

definition conv_advance_write_pointer :: "io_type \<Rightarrow> conv_ftl \<Rightarrow> conv_ftl option" where
  "conv_advance_write_pointer io f = do {
     let spp = c_sp f;
     let wp = conv_get_wp f io;
     NVMEV_ASSERT (wp_pg wp < pgs_per_blk spp);
     let pg1 = wp_pg wp + 1;
     NVMEV_ASSERT (pgs_per_oneshotpg spp \<noteq> 0);
     if pg1 mod pgs_per_oneshotpg spp \<noteq> 0 then Some (conv_put_wp f io (wp\<lparr>wp_pg := pg1\<rparr>))
     else do {
       let pg2 = u32_sub pg1 (pgs_per_oneshotpg spp);
       NVMEV_ASSERT (wp_ch wp < nchs spp);
       let ch1 = wp_ch wp + 1;
       if ch1 \<noteq> nchs spp then Some (conv_put_wp f io (wp\<lparr>wp_pg := pg2, wp_ch := ch1\<rparr>))
       else do {
         NVMEV_ASSERT (wp_lun wp < luns_per_ch spp);
         let lun1 = wp_lun wp + 1;
         if lun1 \<noteq> luns_per_ch spp
         then Some (conv_put_wp f io (wp\<lparr>wp_pg := pg2, wp_ch := 0, wp_lun := lun1\<rparr>))
         else do {
           let pg3 = u32 (pg2 + pgs_per_oneshotpg spp);
           if pg3 \<noteq> pgs_per_blk spp
           then Some (conv_put_wp f io (wp\<lparr>wp_pg := pg3, wp_ch := 0, wp_lun := 0\<rparr>))
           else do {
             cur \<leftarrow> wp_curline wp;
             f1 \<leftarrow> conv_retire_line cur f;
             NVMEV_ASSERT (wp_blk wp < blks_per_pl spp);
             case conv_get_next_free_line f1 of
               (None, _) \<Rightarrow> None
             | (Some nxt, f2) \<Rightarrow> do {
                 ln \<leftarrow> rd (c_lines f2) nxt;
                 NVMEV_ASSERT (cl_id ln < blks_per_pl spp);
                 NVMEV_ASSERT (wp_pl wp = 0);
                 Some (conv_put_wp f2 io (wp\<lparr>wp_curline := Some nxt, wp_blk := cl_id ln,
                   wp_pg := 0, wp_ch := 0, wp_lun := 0\<rparr>))
               }
           }
         }
       }
     }
   }"

definition conv_get_new_page :: "conv_ftl \<Rightarrow> io_type \<Rightarrow> ppa option" where
  "conv_get_new_page f io = do {
     let wp = conv_get_wp f io;
     let p = mk_ppa (wp_ch wp) (wp_lun wp) (wp_pl wp) (wp_blk wp) (wp_pg wp);
     NVMEV_ASSERT (g_pl p = 0);
     Some p
   }"

section \<open>Initialisation\<close>

definition conv_init_maptbl :: "ssdparams \<Rightarrow> ppa list" where
  "conv_init_maptbl spp = map (\<lambda>_. unmapped_ppa) [0..<tt_pgs spp]"

definition conv_init_rmap :: "ssdparams \<Rightarrow> nat list" where
  "conv_init_rmap spp = map (\<lambda>_. INVALID_LPN) [0..<tt_pgs spp]"

definition conv_init_ftl :: "nat list \<Rightarrow> convparams \<Rightarrow> ssd \<Rightarrow> conv_ftl option" where
  "conv_init_ftl mem_d cpp s = do {
     let spp = ssd_sp s;
     lm \<leftarrow> conv_init_lines mem_d spp;
     let f0 = \<lparr>c_ssd = s, c_cp = cpp, c_maptbl = conv_init_maptbl spp, c_rmap = conv_init_rmap spp,
       c_wp = null_wp, c_gc_wp = null_wp, c_lm = lm,
       c_wfc = \<lparr>write_credits = 0, credits_to_refill = 0\<rparr>\<rparr>;
     f1 \<leftarrow> conv_prepare_write_pointer USER_IO f0;
     f2 \<leftarrow> conv_prepare_write_pointer GC_IO f1;
     Some (f2\<lparr>c_wfc := conv_init_write_flow_control spp\<rparr>)
   }"

text \<open>\<open>(int)((1 + op_area_pcent) * 100)\<close> with the percentage as a natural number.\<close>

definition conv_init_params :: "ssd_config \<Rightarrow> convparams" where
  "conv_init_params c = \<lparr>gc_thres_lines = 2, gc_thres_lines_high = 2,
     enable_gc_delay = True, op_area_pcent = OP_AREA_PERCENT c, pba_pcent = 100 + OP_AREA_PERCENT c\<rparr>"

record conv_ns =
  cns_id :: nat
  cns_csi :: nat
  cns_size :: nat
  cns_nr_parts :: nat
  cns_ftls :: "conv_ftl list"

text \<open>
  All partitions end up with the PCIe model and the write buffer of the first one; those are
  the shared ones of the result.
\<close>

definition conv_init_namespace ::
  "nat list \<Rightarrow> ssd_config \<Rightarrow> nat \<Rightarrow> nat \<Rightarrow> nat \<Rightarrow> (conv_ns \<times> conv_env) option" where
  "conv_init_namespace mem_d c nsid size_ns cpu = do {
     let nr_parts = SSD_PARTITIONS c;
     spp \<leftarrow> ssd_init_params c size_ns nr_parts;
     let cpp = conv_init_params c;
     parts \<leftarrow> foldM (\<lambda>i parts. do {
         (s, pcie, wbuf) \<leftarrow> ssd_init spp cpu;
         f \<leftarrow> conv_init_ftl mem_d cpp s;
         Some (parts @ [(f, pcie, wbuf)])
       }) [0..<nr_parts] [];
     (f0, pcie, wbuf) \<leftarrow> rd parts 0;
     NVMEV_ASSERT (pba_pcent cpp \<noteq> 0);
     Some (\<lparr>cns_id = nsid, cns_csi = NVME_CSI_NVM, cns_size = u64 (size_ns * 100) div pba_pcent cpp,
             cns_nr_parts = nr_parts, cns_ftls = map fst parts\<rparr>,
           \<lparr>ce_sh = \<lparr>sh_ticks = 0, sh_pcie = pcie, sh_wbuf = wbuf\<rparr>, ce_sched = []\<rparr>)
   }"

section \<open>Page, block and line state\<close>

definition conv_get_line :: "conv_ftl \<Rightarrow> ppa \<Rightarrow> conv_line option" where
  "conv_get_line f p = rd (c_lines f) (g_blk p)"

definition conv_mark_page_invalid :: "ppa \<Rightarrow> conv_ftl \<Rightarrow> conv_ftl option" where
  "conv_mark_page_invalid p f = do {
     let spp = c_sp f;
     pg \<leftarrow> get_pg (c_ssd f) p;
     NVMEV_ASSERT (pg_status pg = PG_VALID);
     s1 \<leftarrow> set_pg_status p PG_INVALID (c_ssd f);
     blk \<leftarrow> get_blk s1 p;
     NVMEV_ASSERT (blk_ipc blk \<ge> 0 \<and> blk_ipc blk < int (pgs_per_blk spp));
     NVMEV_ASSERT (blk_vpc blk > 0 \<and> blk_vpc blk \<le> int (pgs_per_blk spp));
     let s2 = put_blk s1 p (blk\<lparr>blk_ipc := blk_ipc blk + 1, blk_vpc := blk_vpc blk - 1\<rparr>);
     ln \<leftarrow> conv_get_line f p;
     NVMEV_ASSERT (cl_ipc ln \<ge> 0 \<and> cl_ipc ln < int (pgs_per_line spp));
     let was_full_line = (cl_vpc ln = int (pgs_per_line spp));
     NVMEV_ASSERT (was_full_line \<longrightarrow> cl_ipc ln = 0);
     let ln1 = ln\<lparr>cl_ipc := cl_ipc ln + 1\<rparr>;
     let ls1 = (c_lines f)[g_blk p := ln1];
     NVMEV_ASSERT (cl_vpc ln > 0 \<and> cl_vpc ln \<le> int (pgs_per_line spp));
     let lm = c_lm f;
     (pq2, ls2) \<leftarrow>
       (if cl_pos ln1 \<noteq> 0
        then pqueue_change_priority (cvictim_line_pq lm) (nat (cl_vpc ln - 1)) (g_blk p) ls1
        else Some (cvictim_line_pq lm, ls1[g_blk p := ln1\<lparr>cl_vpc := cl_vpc ln - 1\<rparr>]));
     if was_full_line then do {
       (pq3, ls3) \<leftarrow> pqueue_insert pq2 (g_blk p) ls2;
       Some (f\<lparr>c_ssd := s2, c_lm := lm\<lparr>clm_lines := ls3, cvictim_line_pq := pq3,
          cfull_line_list := list_del_init (g_blk p) (cfull_line_list lm),
          cfull_line_cnt := u32_sub (cfull_line_cnt lm) 1,
          cvictim_line_cnt := u32 (cvictim_line_cnt lm + 1)\<rparr>\<rparr>)
     } else Some (f\<lparr>c_ssd := s2, c_lm := lm\<lparr>clm_lines := ls2, cvictim_line_pq := pq2\<rparr>\<rparr>)
   }"

definition conv_mark_page_valid :: "ppa \<Rightarrow> conv_ftl \<Rightarrow> conv_ftl option" where
  "conv_mark_page_valid p f = do {
     let spp = c_sp f;
     pg \<leftarrow> get_pg (c_ssd f) p;
     NVMEV_ASSERT (pg_status pg = PG_FREE);
     s1 \<leftarrow> set_pg_status p PG_VALID (c_ssd f);
     blk \<leftarrow> get_blk s1 p;
     NVMEV_ASSERT (blk_vpc blk \<ge> 0 \<and> blk_vpc blk < int (pgs_per_blk spp));
     let s2 = put_blk s1 p (blk\<lparr>blk_vpc := blk_vpc blk + 1\<rparr>);
     ln \<leftarrow> conv_get_line f p;
     NVMEV_ASSERT (cl_vpc ln \<ge> 0 \<and> cl_vpc ln < int (pgs_per_line spp));
     Some (f\<lparr>c_ssd := s2,
       c_lm := (c_lm f)\<lparr>clm_lines := (c_lines f)[g_blk p := ln\<lparr>cl_vpc := cl_vpc ln + 1\<rparr>]\<rparr>\<rparr>)
   }"

definition conv_mark_block_free :: "ppa \<Rightarrow> conv_ftl \<Rightarrow> conv_ftl option" where
  "conv_mark_block_free p f = do {
     let spp = c_sp f;
     blk \<leftarrow> get_blk (c_ssd f) p;
     pgs \<leftarrow> foldM (\<lambda>i pgs. do {
         pg \<leftarrow> rd pgs i;
         NVMEV_ASSERT (pg_nsecs pg = secs_per_pg spp);
         wr pgs i (pg\<lparr>pg_status := PG_FREE\<rparr>)
       }) [0..<pgs_per_blk spp] (blk_pg blk);
     NVMEV_ASSERT (blk_npgs blk = pgs_per_blk spp);
     let blk' = blk\<lparr>blk_pg := pgs, blk_ipc := 0, blk_vpc := 0, blk_erase_cnt := blk_erase_cnt blk + 1\<rparr>;
     Some (f\<lparr>c_ssd := put_blk (c_ssd f) p blk'\<rparr>)
   }"

section \<open>Garbage collection\<close>

text \<open>A NAND command on the partition: its completion time and the changed states.\<close>

definition conv_nand :: "(nat \<Rightarrow> nat) \<Rightarrow> nand_cmd \<Rightarrow> conv_ftl \<Rightarrow> conv_env \<Rightarrow> (nat \<times> conv_ftl \<times> conv_env) option" where
  "conv_nand clk cmd f e = do {
     (t, s, sh) \<leftarrow> ssd_advance_nand clk cmd (c_ssd f) (ce_sh e);
     Some (t, f\<lparr>c_ssd := s\<rparr>, e\<lparr>ce_sh := sh\<rparr>)
   }"

definition conv_gc_read_page :: "(nat \<Rightarrow> nat) \<Rightarrow> ppa \<Rightarrow> conv_ftl \<Rightarrow> conv_env \<Rightarrow> (conv_ftl \<times> conv_env) option" where
  "conv_gc_read_page clk p f e =
     (if enable_gc_delay (c_cp f) then do {
        (_, f', e') \<leftarrow> conv_nand clk \<lparr>nc_type = GC_IO, nc_cmd = NAND_READ, nc_xfer_size = pgsz (c_sp f),
            nc_stime = 0, nc_interleave_pci_dma = False, nc_ppa = p\<rparr> f e;
        Some (f', e')
      } else Some (f, e))"

definition conv_gc_write_page :: "(nat \<Rightarrow> nat) \<Rightarrow> ppa \<Rightarrow> conv_ftl \<Rightarrow> conv_env \<Rightarrow> (conv_ftl \<times> conv_env) option" where
  "conv_gc_write_page clk old_ppa f e = do {
     let spp = c_sp f;
     lpn \<leftarrow> conv_get_rmap_ent f old_ppa;
     NVMEV_ASSERT (lpn < tt_pgs spp);
     new_ppa \<leftarrow> conv_get_new_page f GC_IO;
     f1 \<leftarrow> conv_set_maptbl_ent lpn new_ppa f;
     f2 \<leftarrow> conv_set_rmap_ent lpn new_ppa f1;
     f3 \<leftarrow> conv_mark_page_valid new_ppa f2;
     f4 \<leftarrow> conv_advance_write_pointer GC_IO f3;
     if enable_gc_delay (c_cp f) then do {
       let gcw = \<lparr>nc_type = GC_IO, nc_cmd = NAND_NOP, nc_xfer_size = 0, nc_stime = 0,
           nc_interleave_pci_dma = False, nc_ppa = new_ppa\<rparr>;
       (_, f5, e2) \<leftarrow> conv_nand clk
          (if last_pg_in_wordline spp new_ppa
           then gcw\<lparr>nc_cmd := NAND_WRITE, nc_xfer_size := pgsz spp * pgs_per_oneshotpg spp\<rparr>
           else gcw) f4 e;
       Some (f5, e2)
     } else Some (f4, e)
   }"

definition conv_select_victim_line :: "bool \<Rightarrow> conv_ftl \<Rightarrow> (nat option \<times> conv_ftl) option" where
  "conv_select_victim_line force f = do {
     let spp = c_sp f;
     let lm = c_lm f;
     v \<leftarrow> pqueue_peek (cvictim_line_pq lm);
     case v of
       None \<Rightarrow> Some (None, f)
     | Some vl \<Rightarrow> do {
         ln \<leftarrow> rd (clm_lines lm) vl;
         if \<not> force \<and> cl_vpc ln > int (pgs_per_line spp div 8) then Some (None, f)
         else do {
           (_, pq, ls) \<leftarrow> pqueue_pop (cvictim_line_pq lm) (clm_lines lm);
           ln' \<leftarrow> rd ls vl;
           ls' \<leftarrow> wr ls vl (ln'\<lparr>cl_pos := 0\<rparr>);
           Some (Some vl, f\<lparr>c_lm := lm\<lparr>cvictim_line_pq := pq, clm_lines := ls',
             cvictim_line_cnt := u32_sub (cvictim_line_cnt lm) 1\<rparr>\<rparr>)
         }
       }
   }"

definition conv_clean_one_block :: "(nat \<Rightarrow> nat) \<Rightarrow> ppa \<Rightarrow> conv_ftl \<Rightarrow> conv_env \<Rightarrow> (conv_ftl \<times> conv_env) option" where
  "conv_clean_one_block clk p f e = do {
     let spp = c_sp f;
     (cnt, f1, e1) \<leftarrow> foldM (\<lambda>pg (cnt, f, e). do {
         let q = p\<lparr>g_pg := pg mod 2 ^ PAGE_BITS\<rparr>;
         pg_iter \<leftarrow> get_pg (c_ssd f) q;
         NVMEV_ASSERT (pg_status pg_iter \<noteq> PG_FREE);
         if pg_status pg_iter = PG_VALID then do {
           (f', e') \<leftarrow> conv_gc_read_page clk q f e;
           (f'', e'') \<leftarrow> conv_gc_write_page clk q f' e';
           Some (cnt + 1, f'', e'')
         } else Some (cnt, f, e)
       }) [0..<pgs_per_blk spp] (0, f, e);
     blk \<leftarrow> get_blk (c_ssd f1) p;
     NVMEV_ASSERT (blk_vpc blk = cnt);
     Some (f1, e1)
   }"

definition conv_clean_one_flashpg ::
  "(nat \<Rightarrow> nat) \<Rightarrow> ppa \<Rightarrow> conv_ftl \<Rightarrow> conv_env \<Rightarrow> (conv_ftl \<times> conv_env) option" where
  "conv_clean_one_flashpg clk p f e = do {
     let spp = c_sp f;
     cnt \<leftarrow> foldM (\<lambda>i cnt. do {
         pg_iter \<leftarrow> get_pg (c_ssd f) (flashpg_page p i);
         NVMEV_ASSERT (pg_status pg_iter \<noteq> PG_FREE);
         Some (if pg_status pg_iter = PG_VALID then cnt + 1 else cnt)
       }) [0..<pgs_per_flashpg spp] (0 :: nat);
     if cnt \<le> 0 then Some (f, e)
     else do {
       (f1, e1) \<leftarrow> (if enable_gc_delay (c_cp f) then do {
            (_, f', e') \<leftarrow> conv_nand clk \<lparr>nc_type = GC_IO, nc_cmd = NAND_READ, nc_xfer_size = pgsz spp * cnt,
                nc_stime = 0, nc_interleave_pci_dma = False, nc_ppa = p\<rparr> f e;
            Some (f', e')
          } else Some (f, e));
       foldM (\<lambda>i (f, e). do {
           pg_iter \<leftarrow> get_pg (c_ssd f) (flashpg_page p i);
           if pg_status pg_iter = PG_VALID then conv_gc_write_page clk (flashpg_page p i) f e
           else Some (f, e)
         }) [0..<pgs_per_flashpg spp] (f1, e1)
     }
   }"

definition conv_mark_line_free :: "ppa \<Rightarrow> conv_ftl \<Rightarrow> conv_ftl option" where
  "conv_mark_line_free p f = do {
     let lm = c_lm f;
     ln \<leftarrow> conv_get_line f p;
     Some (f\<lparr>c_lm := lm\<lparr>
        clm_lines := (clm_lines lm)[g_blk p := ln\<lparr>cl_ipc := 0, cl_vpc := 0\<rparr>],
        cfree_line_list := list_add_tail (g_blk p) (cfree_line_list lm),
        cfree_line_cnt := u32 (cfree_line_cnt lm + 1)\<rparr>\<rparr>)
   }"

text \<open>\<open>lunp->gc_endtime = lunp->next_lun_avail_time\<close>.\<close>

definition conv_set_gc_endtime :: "ppa \<Rightarrow> conv_ftl \<Rightarrow> conv_ftl option" where
  "conv_set_gc_endtime p f = do {
     lun \<leftarrow> get_lun (c_ssd f) p;
     Some (f\<lparr>c_ssd := put_lun (c_ssd f) p (lun\<lparr>lun_gc_endtime := next_lun_avail_time lun\<rparr>)\<rparr>)
   }"

text \<open>
  One iteration of the loops of \<open>conv_do_gc\<close>. The local \<open>ppa\<close> has its five coordinates assigned
  before every use; the reserved byte, which no callee depends on, is 0.
\<close>

definition conv_gc_step ::
  "(nat \<Rightarrow> nat) \<Rightarrow> nat \<Rightarrow> nat \<Rightarrow> nat \<Rightarrow> nat \<Rightarrow> conv_ftl \<Rightarrow> conv_env \<Rightarrow> (conv_ftl \<times> conv_env) option" where
  "conv_gc_step clk blk flashpg ch lun f e = do {
     let spp = c_sp f;
     let p = mk_ppa ch lun 0 blk (flashpg * pgs_per_flashpg spp);
     lunp \<leftarrow> get_lun (c_ssd f) p;
     (f1, e1) \<leftarrow> conv_clean_one_flashpg clk p f e;
     if flashpg = flashpgs_per_blk spp - 1 then do {
       f2 \<leftarrow> conv_mark_block_free p f1;
       (f3, e3) \<leftarrow> (if enable_gc_delay (c_cp f2) then do {
            (_, f', e') \<leftarrow> conv_nand clk \<lparr>nc_type = GC_IO, nc_cmd = NAND_ERASE, nc_xfer_size = 0,
                nc_stime = 0, nc_interleave_pci_dma = False, nc_ppa = p\<rparr> f2 e1;
            Some (f', e')
          } else Some (f2, e1));
       f4 \<leftarrow> conv_set_gc_endtime p f3;
       Some (f4, e3)
     } else Some (f1, e1)
   }"

definition conv_do_gc :: "(nat \<Rightarrow> nat) \<Rightarrow> bool \<Rightarrow> conv_ftl \<Rightarrow> conv_env \<Rightarrow> (int \<times> conv_ftl \<times> conv_env) option" where
  "conv_do_gc clk force f0 e0 = do {
     let spp = c_sp f0;
     (v, f1) \<leftarrow> conv_select_victim_line force f0;
     case v of
       None \<Rightarrow> Some (-1, f1, e0)
     | Some vl \<Rightarrow> do {
         ln \<leftarrow> rd (c_lines f1) vl;
         let f2 = f1\<lparr>c_wfc := (c_wfc f1)\<lparr>credits_to_refill := nat (cl_ipc ln)\<rparr>\<rparr>;
         (f3, e3) \<leftarrow> foldM (\<lambda>flashpg. foldM (\<lambda>ch. foldM (\<lambda>lun (f, e).
              conv_gc_step clk (cl_id ln) flashpg ch lun f e) [0..<luns_per_ch spp]) [0..<nchs spp])
            [0..<flashpgs_per_blk spp] (f2, e0);
         f4 \<leftarrow> conv_mark_line_free (mk_ppa 0 0 0 (cl_id ln) 0) f3;
         Some (0, f4, e3)
       }
   }"

definition conv_foreground_gc :: "(nat \<Rightarrow> nat) \<Rightarrow> conv_ftl \<Rightarrow> conv_env \<Rightarrow> (conv_ftl \<times> conv_env) option" where
  "conv_foreground_gc clk f e =
     (if conv_should_gc_high f then do { (_, f', e') \<leftarrow> conv_do_gc clk True f e; Some (f', e') }
      else Some (f, e))"

definition conv_check_and_refill_write_credit ::
  "(nat \<Rightarrow> nat) \<Rightarrow> conv_ftl \<Rightarrow> conv_env \<Rightarrow> (conv_ftl \<times> conv_env) option" where
  "conv_check_and_refill_write_credit clk f e =
     (if write_credits (c_wfc f) \<le> 0 then do {
        (f', e') \<leftarrow> conv_foreground_gc clk f e;
        Some (f'\<lparr>c_wfc := (c_wfc f')\<lparr>write_credits :=
          u32 (write_credits (c_wfc f') + credits_to_refill (c_wfc f'))\<rparr>\<rparr>, e')
      } else Some (f, e))"

end
