(* ===== verification/Conv_Cmd.thy ===== *)
theory Conv_Cmd
  imports Conv_Ftl Fdp_Cmd
begin

text \<open>
  The I/O commands of the conventional device (\<open>conv_read\<close>, \<open>conv_write\<close>, \<open>conv_flush\<close> and the
  dispatcher of \<open>conv_ftl.c\<close>) over the partitions of the namespace.
\<close>

definition conv_put_part :: "conv_ns \<Rightarrow> nat \<Rightarrow> conv_ftl \<Rightarrow> conv_ns" where
  "conv_put_part ns i f = ns\<lparr>cns_ftls := (cns_ftls ns)[i := f]\<rparr>"

text \<open>Issue the read collected so far; the completion time accumulates in \<open>nsecs_latest\<close>.\<close>

definition conv_read_flush ::
  "(nat \<Rightarrow> nat) \<Rightarrow> nat \<Rightarrow> nat \<Rightarrow> ppa \<Rightarrow> nat \<Rightarrow> conv_ftl \<Rightarrow> conv_env \<Rightarrow> (nat \<times> conv_ftl \<times> conv_env) option" where
  "conv_read_flush clk stime xfer_size prev_ppa nsecs_latest f e =
     (if xfer_size > 0 then do {
        (t, f', e') \<leftarrow> conv_nand clk \<lparr>nc_type = USER_IO, nc_cmd = NAND_READ, nc_xfer_size = xfer_size,
            nc_stime = stime, nc_interleave_pci_dma = True, nc_ppa = prev_ppa\<rparr> f e;
        Some (max t nsecs_latest, f', e')
      } else Some (nsecs_latest, f, e))"

text \<open>One partition's share of a read: pages of the same flash page are read together.\<close>

definition conv_read_part ::
  "(nat \<Rightarrow> nat) \<Rightarrow> nat \<Rightarrow> nat \<Rightarrow> nat list \<Rightarrow> nat \<Rightarrow> conv_ftl \<Rightarrow> conv_env \<Rightarrow>
   (nat \<times> conv_ftl \<times> conv_env) option" where
  "conv_read_part clk stime nr_parts lpns nsecs_latest f e = do {
     start_lpn \<leftarrow> rd lpns 0;
     let spp = c_sp f;
     prev0 \<leftarrow> conv_get_maptbl_ent f (start_lpn div nr_parts);
     (xfer_size, prev_ppa, latest, f1, e1) \<leftarrow> foldM (\<lambda>lpn (xfer_size, prev_ppa, latest, f, e). do {
         cur_ppa \<leftarrow> conv_get_maptbl_ent f (lpn div nr_parts);
         if \<not> mapped_ppa cur_ppa \<or> \<not> valid_ppa spp cur_ppa then Some (xfer_size, prev_ppa, latest, f, e)
         else if mapped_ppa prev_ppa \<and> is_same_flash_page spp cur_ppa prev_ppa
         then Some (u32 (xfer_size + pgsz spp), prev_ppa, latest, f, e)
         else do {
           (latest', f', e') \<leftarrow> conv_read_flush clk stime xfer_size prev_ppa latest f e;
           Some (pgsz spp, cur_ppa, latest', f', e')
         }
       }) lpns (0, prev0, nsecs_latest, f, e);
     conv_read_flush clk stime xfer_size prev_ppa latest f1 e1
   }"

definition conv_read ::
  "(nat \<Rightarrow> nat) \<Rightarrow> nvmev_request \<Rightarrow> nvmev_result \<Rightarrow> conv_ns \<Rightarrow> conv_env \<Rightarrow>
   (bool \<times> nvmev_result \<times> conv_ns \<times> conv_env) option" where
  "conv_read clk req ret ns e = do {
     f0 \<leftarrow> rd (cns_ftls ns) 0;
     let spp = c_sp f0;
     let cmd = req_cmd req;
     let nr_lba = rw_length cmd + 1;
     NVMEV_ASSERT (secs_per_pg spp \<noteq> 0 \<and> cns_nr_parts ns \<noteq> 0);
     let start_lpn = rw_slba cmd div secs_per_pg spp;
     let end_lpn = u64_sub (u64 (rw_slba cmd + nr_lba)) 1 div secs_per_pg spp;
     let nr_parts = cns_nr_parts ns;
     if end_lpn div nr_parts \<ge> tt_pgs spp then Some (False, ret, ns, e)
     else do {
       let stime = u64 (req_nsecs_start req +
         (if LBA_TO_BYTE nr_lba \<le> KB 4 * nr_parts then fw_4kb_rd_lat spp else fw_rd_lat spp));
       (latest, ns', e') \<leftarrow> foldM (\<lambda>i (latest, ns, e).
           let start = start_lpn + i in
           if start \<le> end_lpn then do {
             f \<leftarrow> rd (cns_ftls ns) (start mod nr_parts);
             (latest', f', e') \<leftarrow> conv_read_part clk stime nr_parts (lpn_steps start end_lpn nr_parts) latest f e;
             Some (latest', conv_put_part ns (start mod nr_parts) f', e')
           } else Some (latest, ns, e)) [0..<nr_parts] (req_nsecs_start req, ns, e);
       Some (True, ret\<lparr>ret_nsecs_target := latest, ret_status := NVME_SC_SUCCESS\<rparr>, ns', e')
     }
   }"

text \<open>One page of a host write on its partition.\<close>

definition conv_write_page ::
  "nat \<Rightarrow> conv_ftl \<Rightarrow> (ppa \<times> conv_ftl) option" where
  "conv_write_page local_lpn f = do {
     old \<leftarrow> conv_get_maptbl_ent f local_lpn;
     f1 \<leftarrow> (if mapped_ppa old then do {
          f' \<leftarrow> conv_mark_page_invalid old f;
          conv_set_rmap_ent INVALID_LPN old f'
        } else Some f);
     p \<leftarrow> conv_get_new_page f1 USER_IO;
     f2 \<leftarrow> conv_set_maptbl_ent local_lpn p f1;
     f3 \<leftarrow> conv_set_rmap_ent local_lpn p f2;
     f4 \<leftarrow> conv_mark_page_valid p f3;
     f5 \<leftarrow> conv_advance_write_pointer USER_IO f4;
     Some (p, f5)
   }"

text \<open>The rest of the loop body: program the word line when it is full, then flow control.\<close>

definition conv_write_lpn ::
  "(nat \<Rightarrow> nat) \<Rightarrow> nat \<Rightarrow> nat \<Rightarrow> nat \<Rightarrow> nat \<Rightarrow> conv_ftl \<Rightarrow> conv_env \<Rightarrow>
   (nat \<times> conv_ftl \<times> conv_env) option" where
  "conv_write_lpn clk sq_id stime local_lpn nsecs_latest f e = do {
     let spp = c_sp f;
     (p, f1) \<leftarrow> conv_write_page local_lpn f;
     (latest, f2, e2) \<leftarrow>
       (if last_pg_in_wordline spp p then do {
          (t, f', e') \<leftarrow> conv_nand clk \<lparr>nc_type = USER_IO, nc_cmd = NAND_WRITE,
              nc_xfer_size = pgsz spp * pgs_per_oneshotpg spp, nc_stime = stime,
              nc_interleave_pci_dma = False, nc_ppa = p\<rparr> f1 e;
          Some (max t nsecs_latest, f', e'\<lparr>ce_sched := ce_sched e' @
            [\<lparr>io_sqid = sq_id, io_nsecs_target = t,
              io_buffs_to_release = pgs_per_oneshotpg spp * pgsz spp\<rparr>]\<rparr>)
        } else Some (nsecs_latest, f1, e));
     (f3, e3) \<leftarrow> conv_check_and_refill_write_credit clk (conv_consume_write_credit f2) e2;
     Some (latest, f3, e3)
   }"

definition conv_write ::
  "(nat \<Rightarrow> nat) \<Rightarrow> nvmev_request \<Rightarrow> nvmev_result \<Rightarrow> conv_ns \<Rightarrow> conv_env \<Rightarrow>
   (bool \<times> nvmev_result \<times> conv_ns \<times> conv_env) option" where
  "conv_write clk req ret ns e = do {
     f0 \<leftarrow> rd (cns_ftls ns) 0;
     let spp = c_sp f0;
     let cmd = req_cmd req;
     let nr_lba = rw_length cmd + 1;
     NVMEV_ASSERT (secs_per_pg spp \<noteq> 0 \<and> cns_nr_parts ns \<noteq> 0);
     let start_lpn = rw_slba cmd div secs_per_pg spp;
     let end_lpn = u64_sub (u64 (rw_slba cmd + nr_lba)) 1 div secs_per_pg spp;
     let nr_parts = cns_nr_parts ns;
     if end_lpn div nr_parts \<ge> tt_pgs spp then Some (False, ret, ns, e)
     else do {
       (allocated, wbuf) \<leftarrow> buffer_allocate (sh_wbuf (ce_sh e)) (LBA_TO_BYTE nr_lba);
       let e1 = e\<lparr>ce_sh := (ce_sh e)\<lparr>sh_wbuf := wbuf\<rparr>\<rparr>;
       if allocated < LBA_TO_BYTE nr_lba then Some (False, ret, ns, e1)
       else do {
         (t, sh) \<leftarrow> ssd_advance_write_buffer clk spp (ce_sh e1) (req_nsecs_start req) (LBA_TO_BYTE nr_lba);
         (latest, ns', e') \<leftarrow> foldM (\<lambda>lpn (latest, ns, e). do {
             f \<leftarrow> rd (cns_ftls ns) (lpn mod nr_parts);
             (latest', f', e') \<leftarrow> conv_write_lpn clk (req_sq_id req) t (lpn div nr_parts) latest f e;
             Some (latest', conv_put_part ns (lpn mod nr_parts) f', e')
           }) [start_lpn..<Suc end_lpn] (t, ns, e1\<lparr>ce_sh := sh\<rparr>);
         Some (True, ret\<lparr>ret_nsecs_target :=
             (if rw_fua cmd \<or> \<not> write_early_completion spp then latest else t),
             ret_status := NVME_SC_SUCCESS\<rparr>, ns', e')
       }
     }
   }"

definition conv_flush ::
  "(nat \<Rightarrow> nat) \<Rightarrow> nvmev_result \<Rightarrow> conv_ns \<Rightarrow> conv_env \<Rightarrow> (nvmev_result \<times> conv_env) option" where
  "conv_flush clk ret ns e = do {
     let (start, sh) = get_clock clk (ce_sh e);
     (latest, sh') \<leftarrow> foldM (\<lambda>i (latest, sh). do {
         f \<leftarrow> rd (cns_ftls ns) i;
         (t, sh') \<leftarrow> ssd_next_idle_time clk (c_ssd f) sh;
         Some (max latest t, sh')
       }) [0..<cns_nr_parts ns] (start, sh);
     Some (ret\<lparr>ret_status := NVME_SC_SUCCESS, ret_nsecs_target := latest\<rparr>, e\<lparr>ce_sh := sh'\<rparr>)
   }"

definition conv_proc_nvme_io_cmd ::
  "(nat \<Rightarrow> nat) \<Rightarrow> nvmev_request \<Rightarrow> nvmev_result \<Rightarrow> conv_ns \<Rightarrow> conv_env \<Rightarrow>
   (bool \<times> nvmev_result \<times> conv_ns \<times> conv_env) option" where
  "conv_proc_nvme_io_cmd clk req ret ns e = do {
     NVMEV_ASSERT (cns_csi ns = NVME_CSI_NVM);
     let opcode = rw_opcode (req_cmd req);
     if opcode = nvme_cmd_write then conv_write clk req ret ns e
     else if opcode = nvme_cmd_read then conv_read clk req ret ns e
     else if opcode = nvme_cmd_flush then do {
       (ret', e') \<leftarrow> conv_flush clk ret ns e;
       Some (True, ret', ns, e')
     } else do {
       nvme_opcode_string opcode;
       Some (True, ret, ns, e)
     }
   }"

end
