(* ===== verification/Conv_Sim.thy ===== *)
theory Conv_Sim
  imports Conv_Cmd
begin

text \<open>
  The conventional layer is the FDP layer with one handle: forgetting the handle of every line, all
  user write pointers but the first, the statistics and the event log turns each operation of the FDP
  layer on handle 0 into the operation of the conventional layer.

  The proofs are relational: \<open>rel_option R m n\<close> says that \<open>m\<close> and \<open>n\<close> both fail, or both return
  and their results are related by \<open>R\<close>.
\<close>

section \<open>Related computations\<close>

named_theorems sim \<open>related computations\<close>

lemma rel_bind:
  "rel_option A m n \<Longrightarrow> (\<And>x y. A x y \<Longrightarrow> m = Some x \<Longrightarrow> n = Some y \<Longrightarrow> rel_option B (g x) (h y)) \<Longrightarrow> rel_option B (Option.bind m g) (Option.bind n h)"
  by (cases m; cases n) auto

lemma rel_same: "(\<And>x. m = Some x \<Longrightarrow> rel_option B (g x) (h x)) \<Longrightarrow> rel_option B (Option.bind m g) (Option.bind m h)"
  by (cases m) auto

lemma rel_if: "(b \<Longrightarrow> rel_option B m n) \<Longrightarrow> (\<not> b \<Longrightarrow> rel_option B m' n') \<Longrightarrow> rel_option B (if b then m else m') (if b then n else n')"
  by simp

lemma rel_Some: "R x y \<Longrightarrow> rel_option R (Some x) (Some y)" by simp

lemma rel_foldM:
  assumes "\<And>x s t. x \<in> set xs \<Longrightarrow> R s t \<Longrightarrow> rel_option R (f x s) (g x t)" "R s t"
  shows "rel_option R (foldM f xs s) (foldM g xs t)"
  using assms
proof (induction xs arbitrary: s t)
  case (Cons x xs)
  show ?case unfolding foldM.simps
    by (rule rel_bind [where A = R]) (use Cons in auto)
qed simp

section \<open>Forgetting the handles\<close>

definition erase_line :: "fdp_line \<Rightarrow> conv_line" where
  "erase_line l = \<lparr>cl_id = ln_id l, cl_ipc = ln_ipc l, cl_vpc = ln_vpc l, cl_pos = ln_pos l\<rparr>"

definition erase_pq :: "(fdp_line list, nat) pqueue_t \<Rightarrow> (conv_line list, nat) pqueue_t" where
  "erase_pq q = \<lparr>pq_size = pq_size q, pq_avail = pq_avail q, pq_step = pq_step q, cmppri = conv_victim_line_cmp_pri,
     getpri = conv_victim_line_get_pri, setpri = conv_victim_line_set_pri, getpos = conv_victim_line_get_pos,
     setpos = conv_victim_line_set_pos, pq_d = pq_d q\<rparr>"

definition erase_lm :: "fdp_line_mgmt \<Rightarrow> conv_line_mgmt" where
  "erase_lm lm = \<lparr>clm_lines = map erase_line (lm_lines lm), cfree_line_list = free_line_list lm,
     cvictim_line_pq = erase_pq (victim_line_pq lm), cfull_line_list = full_line_list lm, clm_tt_lines = lm_tt_lines lm,
     cfree_line_cnt = free_line_cnt lm, cvictim_line_cnt = victim_line_cnt lm, cfull_line_cnt = full_line_cnt lm\<rparr>"

definition as_conv :: "fdp_ftl \<Rightarrow> conv_ftl" where
  "as_conv f = \<lparr>c_ssd = f_ssd f, c_cp = f_cp f, c_maptbl = f_maptbl f, c_rmap = f_rmap f, c_wp = f_wp_ruh f ! 0,
     c_gc_wp = f_gc_wp f, c_lm = erase_lm (f_lm f), c_wfc = f_wfc f\<rparr>"

text \<open>The queue is wired to the callbacks and holds lines that exist; there are eight write pointers.\<close>

definition cq_ok :: "(fdp_line list, nat) pqueue_t \<Rightarrow> fdp_line list \<Rightarrow> bool" where
  "cq_ok q ls \<longleftrightarrow> pq_wired victim_line_cmp_pri victim_line_get_pri victim_line_set_pri victim_line_get_pos victim_line_set_pos q \<and>
     set (pq_d q) \<subseteq> {..<length ls}"

definition conv_sim :: "conv_ftl \<Rightarrow> fdp_ftl \<Rightarrow> bool" where
  "conv_sim c f \<longleftrightarrow> c = as_conv f \<and> length (f_wp_ruh f) = FDP_NR_RUH \<and> cq_ok (victim_line_pq (f_lm f)) (f_lines f)"

lemma erase_line_simps [simp]: "cl_id (erase_line l) = ln_id l" "cl_ipc (erase_line l) = ln_ipc l" "cl_vpc (erase_line l) = ln_vpc l"
  "cl_pos (erase_line l) = ln_pos l"
  by (simp_all add: erase_line_def)

lemma erase_line_upd [simp]:
  "(erase_line l)\<lparr>cl_ipc := x\<rparr> = erase_line (l\<lparr>ln_ipc := x\<rparr>)" "(erase_line l)\<lparr>cl_vpc := x\<rparr> = erase_line (l\<lparr>ln_vpc := x\<rparr>)"
  "(erase_line l)\<lparr>cl_pos := p\<rparr> = erase_line (l\<lparr>ln_pos := p\<rparr>)" "erase_line (l\<lparr>ln_ruh := r\<rparr>) = erase_line l"
  by (simp_all add: erase_line_def)

lemma rd_map: "rd (map f xs) i = map_option f (rd xs i)"
  by (simp add: rd_def)

lemma wr_map: "wr (map f xs) i (f x) = map_option (map f) (wr xs i x)"
  by (simp add: wr_def map_update)

section \<open>The victim queue\<close>

abbreviation erase_lines :: "fdp_line list \<Rightarrow> conv_line list" where "erase_lines \<equiv> map erase_line"

lemma get_pri_erase: "a < length ls \<Longrightarrow> conv_victim_line_get_pri (erase_lines ls) a = victim_line_get_pri ls a"
  and get_pos_erase: "a < length ls \<Longrightarrow> conv_victim_line_get_pos (erase_lines ls) a = victim_line_get_pos ls a"
  by (simp_all add: victim_line_defs conv_victim_line_defs)

lemma set_pos_erase: "a < length ls \<Longrightarrow> conv_victim_line_set_pos a p (erase_lines ls) = erase_lines (victim_line_set_pos a p ls)"
  and set_pri_erase: "a < length ls \<Longrightarrow> conv_victim_line_set_pri a p (erase_lines ls) = erase_lines (victim_line_set_pri a p ls)"
  by (simp_all add: victim_line_defs conv_victim_line_defs map_update)

lemma cmp_pri_erase: "conv_victim_line_cmp_pri = victim_line_cmp_pri"
  by (simp add: fun_eq_iff victim_line_defs conv_victim_line_defs)

lemma length_set_line [simp]: "length (victim_line_set_pos a p ls) = length ls" "length (victim_line_set_pri a p ls) = length ls"
  by (simp_all add: victim_line_defs)

lemma cq_okD:
  assumes "cq_ok q ls"
  shows "cmppri q = victim_line_cmp_pri" "getpri q = victim_line_get_pri" "setpri q = victim_line_set_pri" "getpos q = victim_line_get_pos"
    "setpos q = victim_line_set_pos" "set (pq_d q) \<subseteq> {..<length ls}"
  using assms by (auto simp: cq_ok_def pq_wired_def)

lemma erase_pq_simps [simp]: "cmppri (erase_pq q) = conv_victim_line_cmp_pri" "getpri (erase_pq q) = conv_victim_line_get_pri"
  "setpri (erase_pq q) = conv_victim_line_set_pri" "getpos (erase_pq q) = conv_victim_line_get_pos" "setpos (erase_pq q) = conv_victim_line_set_pos"
  "pq_d (erase_pq q) = pq_d q" "pq_size (erase_pq q) = pq_size q" "(erase_pq q)\<lparr>pq_d := d\<rparr> = erase_pq (q\<lparr>pq_d := d\<rparr>)"
  "(erase_pq q)\<lparr>pq_size := n\<rparr> = erase_pq (q\<lparr>pq_size := n\<rparr>)"
  by (simp_all add: erase_pq_def)

definition heap_sim :: "nat \<Rightarrow> nat \<times> nat list \<times> conv_line list \<Rightarrow> nat \<times> nat list \<times> fdp_line list \<Rightarrow> bool" where
  "heap_sim n x y \<longleftrightarrow> (case (x, y) of ((i, d, s), (i', d', s')) \<Rightarrow> i = i' \<and> d = d' \<and> set d \<subseteq> {..<n} \<and> s = erase_lines s' \<and> length s' = n)"

lemma rd_in_set: "rd d i = Some x \<Longrightarrow> x \<in> set d" by auto

lemma wr_set: "wr d i x = Some d' \<Longrightarrow> set d \<subseteq> A \<Longrightarrow> x \<in> A \<Longrightarrow> set d' \<subseteq> A"
  using set_update_subset_insert by fastforce

lemma bubble_up_loop_sim:
  assumes "cq_ok q ls" "set d \<subseteq> {..<n}" "length s = n"
  shows "rel_option (heap_sim n) (bubble_up_loop (erase_pq q) pri i d (erase_lines s)) (bubble_up_loop q pri i d s)"
  using assms(2,3)
proof (induction i arbitrary: d s rule: less_induct)
  case (less i)
  note q = cq_okD [OF assms(1)]
  show ?case
  proof (cases "i > 1")
    case False
    then show ?thesis using less.prems by (subst (1 2) bubble_up_loop.simps) (simp add: heap_sim_def)
  next
    case True
    show ?thesis
      unfolding bubble_up_loop.simps [of q pri i] bubble_up_loop.simps [of "erase_pq q" pri i] if_P [OF True]
    proof (rule rel_same)
      fix p assume p: "rd d (parent i) = Some p"
      then have pl: "p < length s" using rd_in_set less.prems by fastforce
      show "rel_option (heap_sim n)
         (if cmppri (erase_pq q) (getpri (erase_pq q) (erase_lines s) p) pri
          then wr d i p \<bind> (\<lambda>d'. bubble_up_loop (erase_pq q) pri (parent i) d' (setpos (erase_pq q) p i (erase_lines s)))
          else Some (i, d, erase_lines s))
         (if cmppri q (getpri q s p) pri then wr d i p \<bind> (\<lambda>d'. bubble_up_loop q pri (parent i) d' (setpos q p i s)) else Some (i, d, s))"
        unfolding erase_pq_simps q cmp_pri_erase get_pri_erase [OF pl] set_pos_erase [OF pl]
      proof (intro rel_if rel_same)
        fix d' assume "wr d i p = Some d'"
        then have "set d' \<subseteq> {..<n}" by (rule wr_set [OF _ less.prems(1)]) (use pl less.prems(2) in simp)
        then show "rel_option (heap_sim n) (bubble_up_loop (erase_pq q) pri (parent i) d' (erase_lines (victim_line_set_pos p i s)))
            (bubble_up_loop q pri (parent i) d' (victim_line_set_pos p i s))"
          using True less.prems(2) by (intro less.IH) (auto simp: parent_def)
      qed (use less.prems in \<open>simp add: heap_sim_def\<close>)
    qed
  qed
qed

definition pq_sim :: "nat \<Rightarrow> (conv_line list, nat) pqueue_t \<times> conv_line list \<Rightarrow> (fdp_line list, nat) pqueue_t \<times> fdp_line list \<Rightarrow> bool" where
  "pq_sim n x y \<longleftrightarrow> fst x = erase_pq (fst y) \<and> snd x = erase_lines (snd y) \<and> cq_ok (fst y) (snd y) \<and> length (snd y) = n"

lemma cq_ok_upd: "cq_ok q s \<Longrightarrow> set d \<subseteq> {..<length s} \<Longrightarrow> length s' = length s \<Longrightarrow> cq_ok (q\<lparr>pq_d := d\<rparr>) s'"
  "cq_ok q s \<Longrightarrow> cq_ok (q\<lparr>pq_size := m\<rparr>) s"
  by (auto simp: cq_ok_def pq_wired_def)

lemma heap_finish_sim:
  assumes "cq_ok q s" "heap_sim (length s) (i, d, t) (i', d', t')" "e < length s"
  shows "rel_option (pq_sim (length s)) (wr d i e \<bind> (\<lambda>d''. Some ((erase_pq q)\<lparr>pq_d := d''\<rparr>, setpos (erase_pq q) e i t)))
     (wr d' i' e \<bind> (\<lambda>d''. Some (q\<lparr>pq_d := d''\<rparr>, setpos q e i' t')))"
proof -
  have h: "i = i'" "d = d'" "set d' \<subseteq> {..<length s}" "t = erase_lines t'" "length t' = length s" using assms(2) by (auto simp: heap_sim_def)
  show ?thesis unfolding h(1,2,4)
  proof (rule rel_same)
    fix d'' assume "wr d' i' e = Some d''"
    then have "set d'' \<subseteq> {..<length s}" by (rule wr_set [OF _ h(3)]) (use assms(3) in simp)
    then show "rel_option (pq_sim (length s)) (Some ((erase_pq q)\<lparr>pq_d := d''\<rparr>, setpos (erase_pq q) e i' (erase_lines t')))
       (Some (q\<lparr>pq_d := d''\<rparr>, setpos q e i' t'))"
      using set_pos_erase [of e t'] h(5) assms(3) cq_okD(5) [OF assms(1)] cq_ok_upd(1) [OF assms(1)] by (simp add: pq_sim_def)
  qed
qed

lemma bubble_up_sim:
  assumes "cq_ok q s"
  shows "rel_option (pq_sim (length s)) (bubble_up (erase_pq q) i (erase_lines s)) (bubble_up q i s)"
  unfolding bubble_up_def erase_pq_simps
proof (rule rel_same)
  fix e assume e: "rd (pq_d q) i = Some e"
  note q = cq_okD [OF assms]
  have el: "e < length s" using rd_in_set [OF e] q(6) by auto
  show "rel_option (pq_sim (length s))
     (bubble_up_loop (erase_pq q) (conv_victim_line_get_pri (erase_lines s) e) i (pq_d q) (erase_lines s) \<bind>
       (\<lambda>(i', d', s'). wr d' i' e \<bind> (\<lambda>d''. Some (erase_pq (q\<lparr>pq_d := d''\<rparr>), conv_victim_line_set_pos e i' s'))))
     (bubble_up_loop q (getpri q s e) i (pq_d q) s \<bind> (\<lambda>(i', d', s'). wr d' i' e \<bind> (\<lambda>d''. Some (q\<lparr>pq_d := d''\<rparr>, setpos q e i' s'))))"
    unfolding get_pri_erase [OF el] q(2)
    by (rule rel_bind [OF bubble_up_loop_sim [OF assms q(6) refl]]) (use heap_finish_sim [OF assms _ el] in \<open>auto split: prod.splits\<close>)
qed

lemma maxchild_sim:
  assumes "cq_ok q ls" "set d \<subseteq> {..<length s}"
  shows "maxchild (erase_pq q) d (erase_lines s) i = maxchild q d s i"
proof -
  note q = cq_okD [OF assms(1)]
  have "x < length s" if "rd d j = Some x" for x j using rd_in_set [OF that] assms(2) by auto
  then show ?thesis unfolding maxchild_def erase_pq_simps q Let_def cmp_pri_erase
    by (cases "rd d (left i)"; cases "rd d (left i + 1)") (simp_all add: get_pri_erase)
qed

lemma percolate_down_loop_sim:
  assumes "cq_ok q ls" "set d \<subseteq> {..<n}" "length s = n"
  shows "rel_option (heap_sim n) (percolate_down_loop (erase_pq q) pri i d (erase_lines s)) (percolate_down_loop q pri i d s)"
  using assms(2,3)
proof (induction "pq_size q - i" arbitrary: i d s rule: less_induct)
  case less
  note q = cq_okD [OF assms(1)]
  have mc: "maxchild (erase_pq q) d (erase_lines s) i = maxchild q d s i" by (rule maxchild_sim [OF assms(1)]) (use less.prems in simp)
  have stop: "heap_sim n (i, d, erase_lines s) (i, d, s)" using less.prems by (simp add: heap_sim_def)
  show ?case
  proof (cases "maxchild q d s i")
    case None
    then show ?thesis using mc by (subst (1 2) percolate_down_loop.simps) simp
  next
    case (Some c)
    show ?thesis
    proof (cases "c = 0 \<or> rd d c = None")
      case True
      then show ?thesis using mc Some stop by (subst (1 2) percolate_down_loop.simps) auto
    next
      case False
      then obtain e where e: "rd d c = Some e" and c0: "c \<noteq> 0" by blast
      have el: "e < length s" using rd_in_set [OF e] less.prems by auto
      show ?thesis
      proof (cases "cmppri q pri (getpri q s e)")
        case False
        then show ?thesis using mc Some c0 e stop get_pri_erase [OF el] q by (subst (1 2) percolate_down_loop.simps) (simp add: cmp_pri_erase)
      next
        case True
        show ?thesis
        proof (cases "wr d i e")
          case None
          then show ?thesis using mc Some c0 e True get_pri_erase [OF el] q by (subst (1 2) percolate_down_loop.simps) (simp add: cmp_pri_erase)
        next
          case w: (Some d')
          have "set d' \<subseteq> {..<n}" by (rule wr_set [OF w less.prems(1)]) (use el less.prems(2) in simp)
          then have "rel_option (heap_sim n) (percolate_down_loop (erase_pq q) pri c d' (erase_lines (victim_line_set_pos e i s)))
              (percolate_down_loop q pri c d' (victim_line_set_pos e i s))"
            by (intro less.hyps) (use maxchild_decreases [OF Some] c0 less.prems(2) in auto)
          then show ?thesis using mc Some c0 e True w get_pri_erase [OF el] set_pos_erase [OF el] q
            by (subst (1 2) percolate_down_loop.simps) (simp add: cmp_pri_erase)
        qed
      qed
    qed
  qed
qed

lemma percolate_down_sim:
  assumes "cq_ok q s"
  shows "rel_option (pq_sim (length s)) (percolate_down (erase_pq q) i (erase_lines s)) (percolate_down q i s)"
  unfolding percolate_down_def erase_pq_simps
proof (rule rel_same)
  fix e assume e: "rd (pq_d q) i = Some e"
  note q = cq_okD [OF assms]
  have el: "e < length s" using rd_in_set [OF e] q(6) by auto
  show "rel_option (pq_sim (length s))
     (percolate_down_loop (erase_pq q) (conv_victim_line_get_pri (erase_lines s) e) i (pq_d q) (erase_lines s) \<bind>
       (\<lambda>(i', d', s'). wr d' i' e \<bind> (\<lambda>d''. Some (erase_pq (q\<lparr>pq_d := d''\<rparr>), conv_victim_line_set_pos e i' s'))))
     (percolate_down_loop q (getpri q s e) i (pq_d q) s \<bind> (\<lambda>(i', d', s'). wr d' i' e \<bind> (\<lambda>d''. Some (q\<lparr>pq_d := d''\<rparr>, setpos q e i' s'))))"
    unfolding get_pri_erase [OF el] q(2)
    by (rule rel_bind [OF percolate_down_loop_sim [OF assms q(6) refl]]) (use heap_finish_sim [OF assms _ el] in \<open>auto split: prod.splits\<close>)
qed

lemma pqueue_insert_sim:
  assumes "cq_ok q s" "e < length s"
  shows "rel_option (pq_sim (length s)) (pqueue_insert (erase_pq q) e (erase_lines s)) (pqueue_insert q e s)"
  unfolding pqueue_insert_def erase_pq_simps
proof (rule rel_same)
  fix d' assume "wr (pq_d q) (pq_size q) e = Some d'"
  then have d: "set d' \<subseteq> {..<length s}" by (rule wr_set [OF _ cq_okD(6) [OF assms(1)]]) (use assms(2) in simp)
  have "cq_ok (q\<lparr>pq_size := pq_size q + 1, pq_d := d'\<rparr>) s" by (rule cq_ok_upd(1) [OF cq_ok_upd(2) [OF assms(1)] d refl])
  then show "rel_option (pq_sim (length s)) (bubble_up (erase_pq (q\<lparr>pq_size := pq_size q + 1, pq_d := d'\<rparr>)) (pq_size q) (erase_lines s))
     (bubble_up (q\<lparr>pq_size := pq_size q + 1, pq_d := d'\<rparr>) (pq_size q) s)" by (rule bubble_up_sim)
qed

lemma pqueue_change_priority_sim:
  assumes "cq_ok q s" "e < length s"
  shows "rel_option (pq_sim (length s)) (pqueue_change_priority (erase_pq q) p e (erase_lines s)) (pqueue_change_priority q p e s)"
proof -
  note q = cq_okD [OF assms(1)]
  let ?s = "victim_line_set_pri e p s"
  have ok: "cq_ok q ?s" using assms(1) by (simp add: cq_ok_def)
  have el: "e < length ?s" using assms(2) by simp
  show ?thesis
    unfolding pqueue_change_priority_def Let_def erase_pq_simps q cmp_pri_erase get_pri_erase [OF assms(2)] set_pri_erase [OF assms(2)] get_pos_erase [OF el]
    using bubble_up_sim [OF ok] percolate_down_sim [OF ok] by simp
qed

lemma pqueue_pop_sim:
  assumes "cq_ok q s"
  shows "rel_option (\<lambda>x y. fst x = fst y \<and> pq_sim (length s) (snd x) (snd y)) (pqueue_pop (erase_pq q) (erase_lines s)) (pqueue_pop q s)"
  unfolding pqueue_pop_def erase_pq_simps
proof (intro rel_if rel_same)
  show "rel_option (\<lambda>x y. fst x = fst y \<and> pq_sim (length s) (snd x) (snd y)) (Some (None, erase_pq q, erase_lines s)) (Some (None, q, s))"
    using assms by (simp add: pq_sim_def)
  fix h l d' assume l: "rd (pq_d q) (pq_size q - 1) = Some l" and w: "wr (pq_d q) 1 l = Some d'"
  note in_s = cq_okD(6) [OF assms]
  have d: "set d' \<subseteq> {..<length s}" by (rule wr_set [OF w in_s subsetD [OF in_s rd_in_set [OF l]]])
  have "cq_ok (q\<lparr>pq_size := pq_size q - 1, pq_d := d'\<rparr>) s" by (rule cq_ok_upd(1) [OF cq_ok_upd(2) [OF assms] d refl])
  from percolate_down_sim [OF this, of 1]
  show "rel_option (\<lambda>x y. fst x = fst y \<and> pq_sim (length s) (snd x) (snd y))
     (percolate_down (erase_pq (q\<lparr>pq_size := pq_size q - 1, pq_d := d'\<rparr>)) 1 (erase_lines s) \<bind> (\<lambda>(q', s'). Some (Some h, q', s')))
     (percolate_down (q\<lparr>pq_size := pq_size q - 1, pq_d := d'\<rparr>) 1 s \<bind> (\<lambda>(q', s'). Some (Some h, q', s')))"
    by (rule rel_bind) auto
qed

lemma pqueue_peek_sim: "pqueue_peek (erase_pq q) = pqueue_peek q"
  by (simp add: pqueue_peek_def)

end
