(* ===== verification/Conv_Equiv.thy ===== *)
theory Conv_Equiv
  imports Conv_Sim
begin

text \<open>
  Every operation of the conventional layer is the operation of the FDP layer on handle 0, with the
  handles forgotten: one lemma per function, in the order of the code.
\<close>

section \<open>Selectors and updates\<close>

definition sim_ok :: "fdp_ftl \<Rightarrow> bool" where
  "sim_ok f \<longleftrightarrow> length (f_wp_ruh f) = FDP_NR_RUH \<and> cq_ok (victim_line_pq (f_lm f)) (f_lines f)"

lemma conv_sim_iff: "conv_sim c f \<longleftrightarrow> c = as_conv f \<and> sim_ok f"
  by (simp add: conv_sim_def sim_ok_def)

lemma erase_lm_simps [simp]:
  "clm_lines (erase_lm lm) = erase_lines (lm_lines lm)" "cfree_line_list (erase_lm lm) = free_line_list lm"
  "cvictim_line_pq (erase_lm lm) = erase_pq (victim_line_pq lm)" "cfull_line_list (erase_lm lm) = full_line_list lm"
  "cfree_line_cnt (erase_lm lm) = free_line_cnt lm" "cvictim_line_cnt (erase_lm lm) = victim_line_cnt lm"
  "cfull_line_cnt (erase_lm lm) = full_line_cnt lm"
  by (simp_all add: erase_lm_def)

lemma erase_lm_upd [simp]:
  "(erase_lm lm)\<lparr>clm_lines := erase_lines ls\<rparr> = erase_lm (lm\<lparr>lm_lines := ls\<rparr>)"
  "(erase_lm lm)\<lparr>cfree_line_list := xs\<rparr> = erase_lm (lm\<lparr>free_line_list := xs\<rparr>)"
  "(erase_lm lm)\<lparr>cvictim_line_pq := erase_pq q\<rparr> = erase_lm (lm\<lparr>victim_line_pq := q\<rparr>)"
  "(erase_lm lm)\<lparr>cfull_line_list := xs\<rparr> = erase_lm (lm\<lparr>full_line_list := xs\<rparr>)"
  "(erase_lm lm)\<lparr>cfree_line_cnt := n\<rparr> = erase_lm (lm\<lparr>free_line_cnt := n\<rparr>)"
  "(erase_lm lm)\<lparr>cvictim_line_cnt := n\<rparr> = erase_lm (lm\<lparr>victim_line_cnt := n\<rparr>)"
  "(erase_lm lm)\<lparr>cfull_line_cnt := n\<rparr> = erase_lm (lm\<lparr>full_line_cnt := n\<rparr>)"
  by (simp_all add: erase_lm_def)

lemma as_conv_simps [simp]:
  "c_ssd (as_conv f) = f_ssd f" "c_cp (as_conv f) = f_cp f" "c_maptbl (as_conv f) = f_maptbl f" "c_rmap (as_conv f) = f_rmap f"
  "c_wp (as_conv f) = f_wp_ruh f ! 0" "c_gc_wp (as_conv f) = f_gc_wp f" "c_lm (as_conv f) = erase_lm (f_lm f)" "c_wfc (as_conv f) = f_wfc f"
  by (simp_all add: as_conv_def)

lemma as_conv_upd [simp]:
  "(as_conv f)\<lparr>c_ssd := s\<rparr> = as_conv (f\<lparr>f_ssd := s\<rparr>)" "(as_conv f)\<lparr>c_maptbl := m\<rparr> = as_conv (f\<lparr>f_maptbl := m\<rparr>)"
  "(as_conv f)\<lparr>c_rmap := r\<rparr> = as_conv (f\<lparr>f_rmap := r\<rparr>)" "(as_conv f)\<lparr>c_gc_wp := w\<rparr> = as_conv (f\<lparr>f_gc_wp := w\<rparr>)"
  "(as_conv f)\<lparr>c_lm := erase_lm lm\<rparr> = as_conv (f\<lparr>f_lm := lm\<rparr>)" "(as_conv f)\<lparr>c_wfc := x\<rparr> = as_conv (f\<lparr>f_wfc := x\<rparr>)"
  by (simp_all add: as_conv_def)

lemma sim_ok_upd [simp]:
  "sim_ok (f\<lparr>f_ssd := s\<rparr>) = sim_ok f" "sim_ok (f\<lparr>f_maptbl := m\<rparr>) = sim_ok f" "sim_ok (f\<lparr>f_rmap := r\<rparr>) = sim_ok f" "sim_ok (f\<lparr>f_gc_wp := w\<rparr>) = sim_ok f"
  "sim_ok (f\<lparr>f_wfc := x\<rparr>) = sim_ok f"
  by (simp_all add: sim_ok_def)

lemma sim_ok_lm: "sim_ok f \<Longrightarrow> cq_ok (victim_line_pq lm) (lm_lines lm) \<Longrightarrow> sim_ok (f\<lparr>f_lm := lm\<rparr>)"
  by (simp add: sim_ok_def)

lemma sim_ok_pq: "sim_ok f \<Longrightarrow> cq_ok (victim_line_pq (f_lm f)) (f_lines f)"
  by (simp add: sim_ok_def)

lemma cq_ok_length: "cq_ok q ls \<Longrightarrow> length ls' = length ls \<Longrightarrow> cq_ok q ls'"
  by (simp add: cq_ok_def)

lemma cq_ok_list_update [simp]: "cq_ok q (ls[i := l]) = cq_ok q ls"
  by (simp add: cq_ok_def)

section \<open>Mapping tables and write pointers\<close>

lemma set_maptbl_sim: "sim_ok f \<Longrightarrow> rel_option conv_sim (conv_set_maptbl_ent l p (as_conv f)) (set_maptbl_ent l p f)"
  unfolding conv_set_maptbl_ent_def set_maptbl_ent_def as_conv_simps
  by (intro rel_same rel_Some) (simp add: conv_sim_iff)

lemma set_rmap_sim: "sim_ok f \<Longrightarrow> rel_option conv_sim (conv_set_rmap_ent l p (as_conv f)) (set_rmap_ent l p f)"
  unfolding conv_set_rmap_ent_def set_rmap_ent_def as_conv_simps
  by (intro rel_same rel_Some) (simp add: conv_sim_iff)

lemma get_maptbl_sim [simp]: "conv_get_maptbl_ent (as_conv f) l = get_maptbl_ent f l"
  by (simp add: conv_get_maptbl_ent_def get_maptbl_ent_def)

lemma get_rmap_sim [simp]: "conv_get_rmap_ent (as_conv f) p = get_rmap_ent f p"
  by (simp add: conv_get_rmap_ent_def get_rmap_ent_def)

lemma get_wp_sim: "sim_ok f \<Longrightarrow> get_wp f io 0 = Some (conv_get_wp (as_conv f) io)"
  by (cases io) (auto simp: get_wp_def conv_get_wp_def sim_ok_def FDP_NR_RUH_def)

lemma put_wp_sim: "sim_ok f \<Longrightarrow> conv_put_wp (as_conv f) io w = as_conv (put_wp f io 0 w) \<and> sim_ok (put_wp f io 0 w)"
  by (cases io) (auto simp: put_wp_def conv_put_wp_def sim_ok_def FDP_NR_RUH_def as_conv_def)

lemma next_free_sim:
  assumes "sim_ok f" "get_next_free_line f = (r, f')"
  shows "conv_get_next_free_line (as_conv f) = (r, as_conv f')" "sim_ok f'"
  using assms by (auto simp: get_next_free_line_def conv_get_next_free_line_def Let_def sim_ok_def split: option.splits)

lemma set_line_ruh_sim:
  assumes "sim_ok f" "set_line_ruh cur io ruh f = Some f'"
  shows "as_conv f' = as_conv f" "sim_ok f'" "f_ssd f' = f_ssd f" "length (f_lines f') = length (f_lines f)" "cur < length (f_lines f)"
proof -
  have c: "cur < length (f_lines f)" and e: "f' = f\<lparr>f_lm := (f_lm f)\<lparr>lm_lines := (f_lines f)[cur := (f_lines f ! cur)\<lparr>ln_ruh := case io of USER_IO \<Rightarrow> int ruh | GC_IO \<Rightarrow> -1\<rparr>]\<rparr>\<rparr>"
    using assms(2) by (auto simp: set_line_ruh_def split: Option.bind_splits)
  show "cur < length (f_lines f)" by (rule c)
  have "erase_lines ((f_lines f)[cur := (f_lines f ! cur)\<lparr>ln_ruh := case io of USER_IO \<Rightarrow> int ruh | GC_IO \<Rightarrow> -1\<rparr>]) = erase_lines (f_lines f)"
    using c by (simp add: map_update list_update_same_conv)
  then show "as_conv f' = as_conv f" by (simp add: e as_conv_def erase_lm_def)
  show "sim_ok f'" "f_ssd f' = f_ssd f" "length (f_lines f') = length (f_lines f)" using assms(1) unfolding e by (auto simp: sim_ok_def cq_ok_def)
qed

lemma set_line_ruh_out: "set_line_ruh cur io ruh f = None \<longleftrightarrow> \<not> cur < length (f_lines f)"
  by (auto simp: set_line_ruh_def rd_def)

text \<open>Taking the next free line for a write pointer.\<close>

lemma next_line_sim:
  assumes "sim_ok f" "\<And>cur f'. sim_ok f' \<Longrightarrow> rel_option conv_sim (g (as_conv f') cur (erase_line (f_lines f' ! cur))) (h f' cur (f_lines f' ! cur))"
  shows "rel_option conv_sim
    (case conv_get_next_free_line (as_conv f) of (None, c) \<Rightarrow> None | (Some cur, c) \<Rightarrow> rd (c_lines c) cur \<bind> g c cur)
    (case get_next_free_line f of (None, f') \<Rightarrow> None | (Some cur, f') \<Rightarrow> set_line_ruh cur io 0 f' \<bind> (\<lambda>f''. rd (f_lines f'') cur \<bind> h f'' cur))"
proof -
  obtain r f1 where n: "get_next_free_line f = (r, f1)" by (cases "get_next_free_line f")
  note s1 = next_free_sim [OF assms(1) n]
  show ?thesis
  proof (cases r)
    case (Some cur)
    show ?thesis
    proof (cases "set_line_ruh cur io 0 f1")
      case None
      then have "\<not> cur < length (f_lines f1)" using set_line_ruh_out by blast
      then show ?thesis using None n s1 Some by (simp add: rd_def)
    next
      case s2: (Some f2)
      note s = set_line_ruh_sim [OF s1(2) s2]
      have "erase_lines (f_lines f2) = erase_lines (f_lines f1)" using arg_cong [OF s(1), of "\<lambda>c. c_lines c"] by simp
      then have "erase_line (f_lines f1 ! cur) = erase_line (f_lines f2 ! cur)" using s(4,5) by (metis nth_map)
      then show ?thesis using s2 s s1 n Some assms(2) [OF s(2)] by simp
    qed
  qed (use n s1 in simp)
qed

lemma put_wp_rel: "sim_ok f \<Longrightarrow> conv_sim (conv_put_wp (as_conv f) io w) (put_wp f io 0 w)"
  by (simp add: conv_sim_iff put_wp_sim)

lemma prepare_wp_sim: "sim_ok f \<Longrightarrow> rel_option conv_sim (conv_prepare_write_pointer io (as_conv f)) (prepare_write_pointer io 0 f)"
  unfolding conv_prepare_write_pointer_def prepare_write_pointer_def
  by (simp only: get_wp_sim bind.bind_lunit) (rule next_line_sim, assumption, simp add: put_wp_rel)

lemma retire_line_sim: "sim_ok f \<Longrightarrow> rel_option conv_sim (conv_retire_line cur (as_conv f)) (retire_line cur f)"
proof (cases "cur < length (f_lines f)")
  case False
  then show ?thesis by (simp add: conv_retire_line_def retire_line_def rd_def Let_def)
next
  case True
  assume w: "sim_ok f"
  note pq = pqueue_insert_sim [OF sim_ok_pq [OF w] True]
  show ?thesis
    unfolding conv_retire_line_def retire_line_def Let_def as_conv_simps erase_lm_simps rd_map
    using True pq w
    by (auto simp: conv_sim_iff pq_sim_def sim_ok_def intro!: rel_bind [OF pq])
qed


section \<open>States and environments\<close>

definition as_env :: "fdp_env \<Rightarrow> conv_env" where
  "as_env e = \<lparr>ce_sh = e_sh e, ce_sched = e_sched e\<rparr>"

text \<open>
  The event of a moved reclaim unit, for which the FDP layer reads the clock once more, is not enabled,
  and the context has handles.
\<close>

definition ev_off :: "fdp_env \<Rightarrow> bool" where
  "ev_off e \<longleftrightarrow> \<not> event_enabled (events (e_ctx e)) NVME_FDP_EVT_IMPLICIT_MODIFIED_RU \<and> ruh_attr (e_ctx e) \<noteq> []"

definition keeps_events :: "fdp_ctx \<Rightarrow> fdp_ctx \<Rightarrow> bool" where
  "keeps_events c c' \<longleftrightarrow> events c = events c' \<and> ruh_attr c = ruh_attr c'"

lemma keeps_events_upd [simp]: "keeps_events (c\<lparr>mbmw := x\<rparr>) c" "keeps_events (c\<lparr>mbe := x\<rparr>) c"
  by (simp_all add: keeps_events_def)

lemma as_env_simps [simp]: "ce_sh (as_env e) = e_sh e" "ce_sched (as_env e) = e_sched e"
  "(as_env e)\<lparr>ce_sh := sh\<rparr> = as_env (e\<lparr>e_sh := sh\<rparr>)" "(as_env e)\<lparr>ce_sched := q\<rparr> = as_env (e\<lparr>e_sched := q\<rparr>)"
  "as_env (e\<lparr>e_ctx := c\<rparr>) = as_env e"
  by (simp_all add: as_env_def)

lemma ev_off_simps [simp]: "ev_off (e\<lparr>e_sh := sh\<rparr>) = ev_off e" "ev_off (e\<lparr>e_sched := q\<rparr>) = ev_off e"
  by (simp_all add: ev_off_def)

definition fe_sim :: "conv_ftl \<times> conv_env \<Rightarrow> fdp_ftl \<times> fdp_env \<Rightarrow> bool" where
  "fe_sim x y \<longleftrightarrow> x = (as_conv (fst y), as_env (snd y)) \<and> sim_ok (fst y) \<and> ev_off (snd y)"

lemma fe_simI: "sim_ok f \<Longrightarrow> ev_off e \<Longrightarrow> fe_sim (as_conv f, as_env e) (f, e)"
  by (simp add: fe_sim_def)

lemma conv_simI: "sim_ok f \<Longrightarrow> conv_sim (as_conv f) f"
  by (simp add: conv_sim_iff)

lemma bind_f: "rel_option conv_sim m n \<Longrightarrow> (\<And>f. sim_ok f \<Longrightarrow> rel_option B (g (as_conv f)) (h f)) \<Longrightarrow> rel_option B (Option.bind m g) (Option.bind n h)"
  by (erule rel_bind) (simp add: conv_sim_iff)

lemma bind_fe:
  "rel_option fe_sim m n \<Longrightarrow> (\<And>f e. sim_ok f \<Longrightarrow> ev_off e \<Longrightarrow> rel_option B (g (as_conv f) (as_env e)) (h f e)) \<Longrightarrow>
   rel_option B (Option.bind m (\<lambda>(f, e). g f e)) (Option.bind n (\<lambda>(f, e). h f e))"
  by (erule rel_bind) (auto simp: fe_sim_def)

lemma bind_tfe:
  "rel_option (rel_prod (=) fe_sim) m n \<Longrightarrow> (\<And>t f e. sim_ok f \<Longrightarrow> ev_off e \<Longrightarrow> rel_option B (g t (as_conv f) (as_env e)) (h t f e)) \<Longrightarrow>
   rel_option B (Option.bind m (\<lambda>(t, f, e). g t f e)) (Option.bind n (\<lambda>(t, f, e). h t f e))"
  by (erule rel_bind) (auto simp: fe_sim_def)

lemma bind_tf:
  "rel_option (rel_prod (=) conv_sim) m n \<Longrightarrow> (\<And>t f. sim_ok f \<Longrightarrow> rel_option B (g t (as_conv f)) (h t f)) \<Longrightarrow>
   rel_option B (Option.bind m (\<lambda>(t, f). g t f)) (Option.bind n (\<lambda>(t, f). h t f))"
  by (erule rel_bind) (auto simp: conv_sim_iff)

lemmas sim_intros = rel_same rel_if bind_f bind_fe bind_tfe bind_tf rel_Some

lemma get_line_sim [simp]: "conv_get_line (as_conv f) p = map_option erase_line (get_line f p)"
  by (simp add: conv_get_line_def get_line_def rd_map)

section \<open>Advancing and page state\<close>

lemma advance_sim: "sim_ok f \<Longrightarrow> rel_option conv_sim (conv_advance_write_pointer io (as_conv f)) (advance_write_pointer io 0 f)"
  unfolding conv_advance_write_pointer_def advance_write_pointer_def Let_def as_conv_simps
  apply (simp only: get_wp_sim bind.bind_lunit)
  apply (intro rel_same rel_if rel_Some put_wp_rel bind_f retire_line_sim next_line_sim | assumption | simp only: erase_line_simps)+
  done

lemma get_new_page_sim [simp]: "sim_ok f \<Longrightarrow> conv_get_new_page (as_conv f) io = get_new_page f io 0"
  by (simp add: conv_get_new_page_def get_new_page_def get_wp_sim Let_def)

lemma mark_page_valid_sim: "sim_ok f \<Longrightarrow> rel_option conv_sim (conv_mark_page_valid p (as_conv f)) (mark_page_valid p f)"
  unfolding conv_mark_page_valid_def mark_page_valid_def Let_def as_conv_simps get_line_sim
  apply (intro rel_same)
  apply (cases "get_line f p")
   apply (auto simp: conv_sim_iff sim_ok_def cq_ok_def as_conv_def erase_lm_def map_update get_line_def)
  done

lemma nand_sim [sim]:
  "sim_ok f \<Longrightarrow> ev_off e \<Longrightarrow> rel_option (rel_prod (=) fe_sim) (conv_nand clk cmd (as_conv f) (as_env e)) (nand clk cmd f e)"
  unfolding conv_nand_def nand_def as_conv_simps as_env_simps
  by (rule rel_same) (auto simp: fe_sim_def split: prod.splits)

lemma fe_sim_ctx: "sim_ok f \<Longrightarrow> ev_off e \<Longrightarrow> keeps_events c (e_ctx e) \<Longrightarrow> fe_sim (as_conv f, as_env e) (f, e\<lparr>e_ctx := c\<rparr>)"
  by (simp add: fe_sim_def ev_off_def keeps_events_def)

lemma nand_sim_ctx:
  "sim_ok f \<Longrightarrow> ev_off e \<Longrightarrow> keeps_events c (e_ctx e) \<Longrightarrow>
   rel_option (rel_prod (=) fe_sim) (conv_nand clk cmd (as_conv f) (as_env e)) (nand clk cmd f (e\<lparr>e_ctx := c\<rparr>))"
  using nand_sim [of f "e\<lparr>e_ctx := c\<rparr>" clk cmd] by (simp add: ev_off_def keeps_events_def)

lemma erase_lines_upd: "(erase_lines ls)[i := erase_line l] = erase_lines (ls[i := l])"
  by (simp add: map_update)

text \<open>Lowering the count of a line, in the queue or outside it.\<close>

lemma lower_vpc_sim:
  assumes "cq_ok q ls" "b < length ls" "length ls' = length ls"
  shows "rel_option (pq_sim (length ls))
     (if pos \<noteq> 0 then pqueue_change_priority (erase_pq q) n b (erase_lines ls) else Some (erase_pq q, erase_lines ls'))
     (if pos \<noteq> 0 then pqueue_change_priority q n b ls else Some (q, ls'))"
  using pqueue_change_priority_sim [OF assms(1,2)] assms(1,3) by (auto simp: pq_sim_def cq_ok_def)

lemma mark_page_invalid_sim [sim]: "sim_ok f \<Longrightarrow> rel_option conv_sim (conv_mark_page_invalid p (as_conv f)) (mark_page_invalid p f)"
  unfolding conv_mark_page_invalid_def mark_page_invalid_def Let_def as_conv_simps get_line_sim
proof (intro rel_same, goal_cases)
  case (1 pg u s1 blk u' u'')
  show ?case
  proof (cases "get_line f p")
    case (Some ln)
    then have b: "g_blk p < length (f_lines f)" by (simp add: get_line_def)
    let ?ls = "(f_lines f)[g_blk p := ln\<lparr>ln_ipc := ln_ipc ln + 1\<rparr>]"
    have ok: "cq_ok (victim_line_pq (f_lm f)) ?ls" using sim_ok_pq [OF 1(1)] by (simp add: cq_ok_def)
    have bl: "g_blk p < length ?ls" using b by simp
    show ?thesis
      unfolding Some option.map bind.bind_lunit erase_line_simps erase_lm_simps erase_line_upd erase_lines_upd
    proof (intro rel_same rel_bind [OF lower_vpc_sim [OF ok bl]], goal_cases)
      case (2 u1 u2 u3 x y)
      then obtain q ls where y: "y = (q, ls)" "x = (erase_pq q, erase_lines ls)" and q: "cq_ok q ls" "length ls = length (f_lines f)"
        by (cases x; cases y) (auto simp: pq_sim_def)
      have bl': "g_blk p < length ls" using b q by simp
      show ?case unfolding y prod.case
        by (intro rel_if rel_bind [OF pqueue_insert_sim [OF q(1) bl']] rel_Some)
          (use 1(1) q in \<open>auto simp: conv_sim_iff sim_ok_def pq_sim_def\<close>)
    qed simp
  qed simp
qed

section \<open>Garbage collection\<close>

lemma gc_read_page_sim [sim]:
  "sim_ok f \<Longrightarrow> ev_off e \<Longrightarrow> rel_option fe_sim (conv_gc_read_page clk p (as_conv f) (as_env e)) (gc_read_page clk p f e)"
  unfolding conv_gc_read_page_def gc_read_page_def as_conv_simps
  by (intro rel_if rel_Some fe_simI bind_tfe nand_sim)

lemma gc_write_page_sim [sim]:
  "sim_ok f \<Longrightarrow> ev_off e \<Longrightarrow> rel_option fe_sim (conv_gc_write_page clk p (as_conv f) (as_env e)) (gc_write_page clk p f e)"
  unfolding conv_gc_write_page_def gc_write_page_def as_conv_simps Let_def get_rmap_sim
  by (simp only: get_new_page_sim)
   (intro rel_same rel_if rel_Some fe_simI fe_sim_ctx bind_f bind_tfe set_maptbl_sim set_rmap_sim mark_page_valid_sim advance_sim nand_sim_ctx; simp)

lemma select_victim_line_sim [sim]:
  assumes "sim_ok f"
  shows "rel_option (rel_prod (=) conv_sim) (conv_select_victim_line force (as_conv f)) (select_victim_line force f)"
  unfolding conv_select_victim_line_def select_victim_line_def Let_def as_conv_simps erase_lm_simps pqueue_peek_sim rd_map
proof (rule rel_same)
  fix v assume "pqueue_peek (victim_line_pq (f_lm f)) = Some v"
  note pop = pqueue_pop_sim [OF sim_ok_pq [OF assms]]
  show "rel_option (rel_prod (=) conv_sim)
     (case v of None \<Rightarrow> Some (None, as_conv f)
      | Some vl \<Rightarrow> map_option erase_line (rd (f_lines f) vl) \<bind> (\<lambda>ln. if \<not> force \<and> int (pgs_per_line (f_sp f) div 8) < cl_vpc ln then Some (None, as_conv f)
          else pqueue_pop (erase_pq (victim_line_pq (f_lm f))) (erase_lines (f_lines f)) \<bind> (\<lambda>(_, pq, ls). rd ls vl \<bind> (\<lambda>ln'. wr ls vl (ln'\<lparr>cl_pos := 0\<rparr>) \<bind>
             (\<lambda>ls'. Some (Some vl, (as_conv f)\<lparr>c_lm := (erase_lm (f_lm f))\<lparr>cvictim_line_pq := pq, clm_lines := ls', cvictim_line_cnt := u32_sub (victim_line_cnt (f_lm f)) 1\<rparr>\<rparr>))))))
     (case v of None \<Rightarrow> Some (None, f)
      | Some vl \<Rightarrow> rd (f_lines f) vl \<bind> (\<lambda>ln. if \<not> force \<and> int (pgs_per_line (f_sp f) div 8) < ln_vpc ln then Some (None, f)
          else pqueue_pop (victim_line_pq (f_lm f)) (f_lines f) \<bind> (\<lambda>(_, pq, ls). rd ls vl \<bind> (\<lambda>ln'. wr ls vl (ln'\<lparr>ln_pos := 0\<rparr>) \<bind>
             (\<lambda>ls'. Some (Some vl, f\<lparr>f_lm := (f_lm f)\<lparr>victim_line_pq := pq, lm_lines := ls', victim_line_cnt := u32_sub (victim_line_cnt (f_lm f)) 1\<rparr>\<rparr>))))))"
  proof (cases v)
    case (Some vl)
    show ?thesis
    proof (cases "vl < length (f_lines f)")
      case True
      then show ?thesis using assms unfolding Some
        by (auto simp: rd_def conv_sim_iff wr_def pq_sim_def sim_ok_def erase_lines_upd intro!: rel_bind [OF pop])
    qed (simp add: Some rd_def)
  qed (use assms in \<open>simp add: conv_sim_iff\<close>)
qed

lemma foldM_fe:
  assumes "\<And>x f e. sim_ok f \<Longrightarrow> ev_off e \<Longrightarrow> rel_option fe_sim (g x (as_conv f) (as_env e)) (h x f e)" "fe_sim s t"
  shows "rel_option fe_sim (foldM (\<lambda>x (f, e). g x f e) xs s) (foldM (\<lambda>x (f, e). h x f e) xs t)"
  by (rule rel_foldM [where R = fe_sim]) (use assms in \<open>auto simp: fe_sim_def\<close>)

lemma clean_one_flashpg_sim [sim]:
  "sim_ok f \<Longrightarrow> ev_off e \<Longrightarrow> rel_option fe_sim (conv_clean_one_flashpg clk p (as_conv f) (as_env e)) (clean_one_flashpg clk p f e)"
  unfolding conv_clean_one_flashpg_def clean_one_flashpg_def as_conv_simps Let_def
  by (intro rel_same rel_if rel_Some fe_simI bind_fe bind_tfe foldM_fe gc_write_page_sim nand_sim | assumption | simp only: as_conv_simps)+

definition cnt_sim :: "int \<times> conv_ftl \<times> conv_env \<Rightarrow> int \<times> fdp_ftl \<times> fdp_env \<Rightarrow> bool" where
  "cnt_sim = rel_prod (=) fe_sim"

lemma cnt_simI: "fe_sim x y \<Longrightarrow> cnt_sim (n, x) (n, y)"
  by (simp add: cnt_sim_def)

lemma foldM_cnt:
  assumes "\<And>x n f e. sim_ok f \<Longrightarrow> ev_off e \<Longrightarrow> rel_option cnt_sim (g x n (as_conv f) (as_env e)) (h x n f e)" "fe_sim s t"
  shows "rel_option (rel_prod (=) fe_sim) (foldM (\<lambda>x (n, f, e). g x n f e) xs (n, s)) (foldM (\<lambda>x (n, f, e). h x n f e) xs (n, t))"
  unfolding cnt_sim_def [symmetric]
  by (rule rel_foldM [where R = cnt_sim]) (use assms in \<open>auto simp: fe_sim_def cnt_sim_def\<close>)

lemma clean_one_block_sim [sim]:
  "sim_ok f \<Longrightarrow> ev_off e \<Longrightarrow> rel_option fe_sim (conv_clean_one_block clk p (as_conv f) (as_env e)) (clean_one_block clk p f e)"
  unfolding conv_clean_one_block_def clean_one_block_def as_conv_simps Let_def
  by (intro rel_same rel_if rel_Some fe_simI cnt_simI bind_fe bind_tfe foldM_cnt gc_write_page_sim gc_read_page_sim | assumption | simp only: as_conv_simps)+

lemma mark_line_free_sim [sim]: "sim_ok f \<Longrightarrow> rel_option conv_sim (conv_mark_line_free p (as_conv f)) (mark_line_free p f)"
  unfolding conv_mark_line_free_def mark_line_free_def Let_def as_conv_simps get_line_sim
  by (cases "get_line f p") (auto simp: conv_sim_iff sim_ok_def as_conv_def erase_lm_def map_update)

lemma set_gc_endtime_sim [sim]: "sim_ok f \<Longrightarrow> rel_option conv_sim (conv_set_gc_endtime p (as_conv f)) (set_gc_endtime p f)"
  unfolding conv_set_gc_endtime_def set_gc_endtime_def as_conv_simps
  by (intro rel_same rel_Some) (simp add: conv_sim_iff)

lemma bind_mark_block_free:
  assumes "sim_ok f" "\<And>f' c. sim_ok f' \<Longrightarrow> keeps_events c (e_ctx e) \<Longrightarrow> rel_option B (g (as_conv f')) (h f' (e\<lparr>e_ctx := c\<rparr>))"
  shows "rel_option B (conv_mark_block_free p (as_conv f) \<bind> g) (mark_block_free p f e \<bind> (\<lambda>(f, e). h f e))"
  unfolding conv_mark_block_free_def mark_block_free_def Let_def as_conv_simps bind_assoc bind.bind_lunit prod.case as_conv_upd
  by (intro rel_same assms(2)) (use assms(1) in simp_all)

lemma gc_step_sim [sim]:
  "sim_ok f \<Longrightarrow> ev_off e \<Longrightarrow> rel_option fe_sim (conv_gc_step clk blk fp ch lun (as_conv f) (as_env e)) (gc_step clk blk fp ch lun f e)"
  unfolding conv_gc_step_def gc_step_def as_conv_simps Let_def
  by (intro rel_same rel_if rel_Some fe_simI fe_sim_ctx bind_mark_block_free bind_f bind_fe bind_tfe clean_one_flashpg_sim nand_sim_ctx set_gc_endtime_sim
      | assumption | simp only: as_conv_simps)+

lemma gc_emit_off: "ev_off e \<Longrightarrow> gc_emit clk NVME_FDP_EVT_IMPLICIT_MODIFIED_RU fl pid ns e = Some e"
  by (simp add: gc_emit_def ev_off_def fdp_emit_event_def)

lemma gc_loops_sim:
  "fe_sim s t \<Longrightarrow> rel_option fe_sim
     (foldM (\<lambda>flashpg. foldM (\<lambda>ch. foldM (\<lambda>lun (f, e). conv_gc_step clk b flashpg ch lun f e) ls) cs) fs s)
     (foldM (\<lambda>flashpg. foldM (\<lambda>ch. foldM (\<lambda>lun (f, e). gc_step clk b flashpg ch lun f e) ls) cs) fs t)"
  by (intro rel_foldM [where R = fe_sim] foldM_fe gc_step_sim)

lemma do_gc_sim [sim]:
  assumes "sim_ok f" "ev_off e"
  shows "rel_option (rel_prod (=) fe_sim) (conv_do_gc clk force (as_conv f) (as_env e)) (do_gc clk force f e)"
  unfolding conv_do_gc_def do_gc_def as_conv_simps Let_def
proof (rule bind_tf [OF select_victim_line_sim [OF assms(1)]], goal_cases)
  case (1 v f1)
  show ?case
  proof (cases v)
    case (Some vl)
    show ?thesis
    proof (cases "rd (f_lines f1) vl")
      case ln: (Some ln)
      show ?thesis
        unfolding Some ln option.case as_conv_simps erase_lm_simps rd_map option.map bind.bind_lunit erase_line_simps gc_emit_off [OF assms(2)] if_cancel as_conv_upd
        by (intro bind_fe bind_f gc_loops_sim fe_simI rel_Some mark_line_free_sim) (use assms 1 in \<open>simp_all add: fe_sim_def\<close>)
    qed (simp add: Some rd_map)
  qed (use assms 1 in \<open>simp add: fe_sim_def\<close>)
qed

lemma foreground_gc_sim [sim]:
  "sim_ok f \<Longrightarrow> ev_off e \<Longrightarrow> rel_option fe_sim (conv_foreground_gc clk (as_conv f) (as_env e)) (foreground_gc clk f e)"
  unfolding conv_foreground_gc_def foreground_gc_def conv_should_gc_high_def should_gc_high_def as_conv_simps erase_lm_simps
  by (intro rel_if rel_Some fe_simI bind_tfe do_gc_sim)

lemma refill_sim [sim]:
  "sim_ok f \<Longrightarrow> ev_off e \<Longrightarrow>
   rel_option fe_sim (conv_check_and_refill_write_credit clk (as_conv f) (as_env e)) (check_and_refill_write_credit clk f e)"
  unfolding conv_check_and_refill_write_credit_def check_and_refill_write_credit_def as_conv_simps
  by (intro rel_if bind_fe foreground_gc_sim rel_Some) (auto simp: fe_sim_def)

end
