(* ===== verification/Conv_Props.thy ===== *)
theory Conv_Props
  imports Conv_Equiv Fdp_Props
begin

text \<open>
  The commands of the conventional device are the commands of the FDP device that carry no placement
  directive, over whole histories of commands.
\<close>

section \<open>Namespaces\<close>

definition as_ns :: "fdp_ns \<Rightarrow> conv_ns" where
  "as_ns ns = \<lparr>cns_id = ns_id ns, cns_csi = ns_csi ns, cns_size = ns_size ns, cns_nr_parts = ns_nr_parts ns, cns_ftls = map as_conv (ns_ftls ns)\<rparr>"

definition ns_wf :: "fdp_ns \<Rightarrow> bool" where
  "ns_wf ns \<longleftrightarrow> (\<forall>f \<in> set (ns_ftls ns). sim_ok f)"

definition ns_sim :: "conv_ns \<times> conv_env \<Rightarrow> fdp_ns \<times> fdp_env \<Rightarrow> bool" where
  "ns_sim x y \<longleftrightarrow> x = (as_ns (fst y), as_env (snd y)) \<and> ns_wf (fst y) \<and> ev_off (snd y)"

lemma as_ns_simps [simp]: "cns_nr_parts (as_ns ns) = ns_nr_parts ns" "cns_ftls (as_ns ns) = map as_conv (ns_ftls ns)" "cns_csi (as_ns ns) = ns_csi ns"
  by (simp_all add: as_ns_def)

lemma ns_simI: "ns_wf ns \<Longrightarrow> ev_off e \<Longrightarrow> ns_sim (as_ns ns, as_env e) (ns, e)"
  by (simp add: ns_sim_def)

lemma put_part_sim: "ns_wf ns \<Longrightarrow> sim_ok f \<Longrightarrow> ev_off e \<Longrightarrow> ns_sim (conv_put_part (as_ns ns) i (as_conv f), as_env e) (put_part ns i f, e)"
  using set_update_subset_insert [of "ns_ftls ns" i f] by (auto simp: ns_sim_def conv_put_part_def put_part_def as_ns_def map_update ns_wf_def)

lemma bind_part: "ns_wf ns \<Longrightarrow> (\<And>f. sim_ok f \<Longrightarrow> rel_option B (g (as_conv f)) (h f)) \<Longrightarrow>
   rel_option B (rd (map as_conv (ns_ftls ns)) i \<bind> g) (rd (ns_ftls ns) i \<bind> h)"
  by (auto simp: rd_def ns_wf_def)

lemma bind_tns:
  "rel_option (rel_prod (=) ns_sim) m n \<Longrightarrow> (\<And>t ns e. ns_wf ns \<Longrightarrow> ev_off e \<Longrightarrow> rel_option B (g t (as_ns ns) (as_env e)) (h t ns e)) \<Longrightarrow>
   rel_option B (Option.bind m (\<lambda>(t, ns, e). g t ns e)) (Option.bind n (\<lambda>(t, ns, e). h t ns e))"
  by (erule rel_bind) (auto simp: ns_sim_def)

lemma foldM_ns:
  assumes "\<And>x t ns e. ns_wf ns \<Longrightarrow> ev_off e \<Longrightarrow> rel_option (rel_prod (=) ns_sim) (g x t (as_ns ns) (as_env e)) (h x t ns e)" "ns_sim s s'"
  shows "rel_option (rel_prod (=) ns_sim) (foldM (\<lambda>x (t, ns, e). g x t ns e) xs (t, s)) (foldM (\<lambda>x (t, ns, e). h x t ns e) xs (t, s'))"
  by (rule rel_foldM [where R = "rel_prod (=) ns_sim"]) (use assms in \<open>auto simp: ns_sim_def\<close>)

lemma pairI: "R x y \<Longrightarrow> rel_prod (=) R (t, x) (t, y)"
  by simp

section \<open>Reads\<close>

lemma read_flush_sim:
  "sim_ok f \<Longrightarrow> ev_off e \<Longrightarrow>
   rel_option (rel_prod (=) fe_sim) (conv_read_flush clk st n p t (as_conv f) (as_env e)) (read_flush clk st n p t f e)"
  unfolding conv_read_flush_def read_flush_def
  by (intro rel_if bind_tfe nand_sim rel_Some pairI fe_simI)

lemma bind_read:
  "rel_option (rel_prod (=) (rel_prod (=) (rel_prod (=) fe_sim))) m n \<Longrightarrow>
   (\<And>x p t f e. sim_ok f \<Longrightarrow> ev_off e \<Longrightarrow> rel_option B (g x p t (as_conv f) (as_env e)) (h x p t f e)) \<Longrightarrow>
   rel_option B (Option.bind m (\<lambda>(x, p, t, f, e). g x p t f e)) (Option.bind n (\<lambda>(x, p, t, f, e). h x p t f e))"
  by (erule rel_bind) (auto simp: fe_sim_def)

lemma foldM_read:
  assumes "\<And>l x p t f e. sim_ok f \<Longrightarrow> ev_off e \<Longrightarrow>
      rel_option (rel_prod (=) (rel_prod (=) (rel_prod (=) fe_sim))) (g l x p t (as_conv f) (as_env e)) (h l x p t f e)" "fe_sim s s'"
  shows "rel_option (rel_prod (=) (rel_prod (=) (rel_prod (=) fe_sim)))
     (foldM (\<lambda>l (x, p, t, f, e). g l x p t f e) ls (x, p, t, s)) (foldM (\<lambda>l (x, p, t, f, e). h l x p t f e) ls (x, p, t, s'))"
  by (rule rel_foldM [where R = "rel_prod (=) (rel_prod (=) (rel_prod (=) fe_sim))"]) (use assms in \<open>auto simp: fe_sim_def\<close>)

lemma read_part_sim:
  "sim_ok f \<Longrightarrow> ev_off e \<Longrightarrow>
   rel_option (rel_prod (=) fe_sim) (conv_read_part clk st np ls t (as_conv f) (as_env e)) (read_part clk st np ls t f e)"
  unfolding conv_read_part_def read_part_def as_conv_simps Let_def get_maptbl_sim
  by (intro rel_same rel_if rel_Some bind_read foldM_read bind_tfe read_flush_sim pairI fe_simI | assumption | simp only: get_maptbl_sim)+

lemma read_sim:
  "ns_wf ns \<Longrightarrow> ev_off e \<Longrightarrow>
   rel_option (rel_prod (=) (rel_prod (=) ns_sim)) (conv_read clk req ret (as_ns ns) (as_env e)) (fdp_read clk req ret ns e)"
  unfolding conv_read_def fdp_read_def Let_def as_ns_simps
  by (intro rel_same rel_if rel_Some bind_part bind_tns bind_tfe foldM_ns read_part_sim put_part_sim pairI ns_simI
      | assumption | simp only: as_conv_simps as_ns_simps)+

section \<open>Writes\<close>

lemma write_page_sim:
  "sim_ok f \<Longrightarrow> rel_option (rel_prod (=) conv_sim) (conv_write_page l (as_conv f)) (write_page 0 l f)"
  unfolding conv_write_page_def write_page_def get_maptbl_sim
  by (intro rel_same rel_if rel_Some bind_f mark_page_invalid_sim set_rmap_sim set_maptbl_sim mark_page_valid_sim advance_sim conv_simI pairI
      | assumption | simp only: get_new_page_sim)+

lemma write_lpn_sim:
  "sim_ok f \<Longrightarrow> ev_off e \<Longrightarrow>
   rel_option (rel_prod (=) fe_sim) (conv_write_lpn clk sq st l t (as_conv f) (as_env e)) (write_lpn clk sq st 0 l t f e)"
  unfolding conv_write_lpn_def write_lpn_def as_conv_simps Let_def conv_consume_write_credit_def consume_write_credit_def
  by (intro rel_if rel_Some bind_tf bind_tfe bind_fe write_page_sim nand_sim pairI fe_simI refill_sim
      | assumption | simp only: as_conv_simps as_conv_upd as_env_simps sim_ok_upd ev_off_simps)+

definition unplaced :: "nvme_rw_command \<Rightarrow> bool" where
  "unplaced cmd \<longleftrightarrow> rw_control cmd div 2 ^ NVME_RW_DTYPE_SHIFT mod 16 \<noteq> NVME_DIRECTIVE_PLACEMENT"

lemma route_unplaced:
  assumes "unplaced cmd" "ev_off e"
  obtains c where "route_write cmd (e_ctx e) = Some (Placed 0 c)" "events c = events (e_ctx e)" "ruh_attr c \<noteq> []"
  using assms by (cases "ruh_attr (e_ctx e) ! 0 = NVME_FDP_RUHA_UNUSED") (auto simp: route_write_def unplaced_def ev_off_def Let_def)

lemma write_sim:
  assumes ns: "ns_wf ns" and e: "ev_off e" and cmd: "unplaced (req_cmd req)"
  shows "rel_option (rel_prod (=) (rel_prod (=) ns_sim)) (conv_write clk req ret (as_ns ns) (as_env e)) (fdp_write clk req ret ns e)"
proof -
  obtain c where r: "route_write (req_cmd req) (e_ctx e) = Some (Placed 0 c)" and c: "events c = events (e_ctx e)" "ruh_attr c \<noteq> []"
    using route_unplaced [OF cmd e] .
  have ev: "ev_off (e\<lparr>e_sh := sh, e_ctx := c\<rparr>)" "ev_off (e\<lparr>e_sh := sh, e_ctx := c\<lparr>hbmw := h, mbmw := m\<rparr>\<rparr>)" for sh h m
    using e c by (simp_all add: ev_off_def)
  have start: "ns_sim (as_ns ns, (as_env e)\<lparr>ce_sh := sh\<rparr>) (ns, e\<lparr>e_sh := sh, e_ctx := c\<rparr>)"
      "ns_sim (as_ns ns, (as_env e)\<lparr>ce_sh := sh\<rparr>) (ns, e\<lparr>e_sh := sh, e_ctx := c\<lparr>hbmw := h, mbmw := m\<rparr>\<rparr>)" for sh h m
    using ns ev by (simp_all add: ns_sim_def)
  have up: "(x::conv_env)\<lparr>ce_sh := a\<rparr>\<lparr>ce_sh := b\<rparr> = x\<lparr>ce_sh := b\<rparr>" "(y::fdp_env)\<lparr>e_sh := s, e_ctx := u\<rparr>\<lparr>e_sh := t, e_ctx := v\<rparr> = y\<lparr>e_sh := t, e_ctx := v\<rparr>"
      "ce_sh (x\<lparr>ce_sh := a\<rparr>) = a" "e_sh (y\<lparr>e_sh := s, e_ctx := u\<rparr>) = s" for x a b y s t u v
    by simp_all
  show ?thesis
    unfolding conv_write_def fdp_write_def Let_def as_ns_simps r bind.bind_lunit placement.case as_env_simps(1) up
    by (intro rel_same rel_if rel_Some bind_part bind_tns bind_tfe foldM_ns write_lpn_sim put_part_sim pairI ns_simI start ns e
      | assumption | simp only: as_conv_simps as_ns_simps prod.case split_beta)+
qed

lemma flush_sim:
  assumes "ns_wf ns" "ev_off e"
  shows "rel_option (rel_prod (=) (\<lambda>x y. ns_sim (as_ns ns, x) (ns, y))) (conv_flush clk ret (as_ns ns) (as_env e)) (fdp_flush clk ret ns e)"
  unfolding conv_flush_def fdp_flush_def Let_def as_ns_simps as_env_simps split_beta
  by (intro rel_bind [where A = "(=)"] rel_foldM bind_part rel_same rel_Some)
    (use assms in \<open>auto simp: ns_sim_def option.rel_eq\<close>)

lemma command_sim:
  assumes "ns_wf ns" "ev_off e" "unplaced (req_cmd req)"
  shows "rel_option (rel_prod (=) (rel_prod (=) ns_sim)) (conv_proc_nvme_io_cmd clk req ret (as_ns ns) (as_env e)) (fdp_proc_nvme_io_cmd clk req ret ns e)"
  unfolding conv_proc_nvme_io_cmd_def fdp_proc_nvme_io_cmd_def Let_def as_ns_simps
  by (intro rel_same rel_if write_sim read_sim rel_bind [OF flush_sim] assms) (use assms in \<open>auto simp: ns_sim_def\<close>)

section \<open>Histories\<close>

text \<open>The answers to a sequence of requests, and the state they leave.\<close>

definition conv_run :: "(nat \<Rightarrow> nat) \<Rightarrow> nvmev_result \<Rightarrow> nvmev_request list \<Rightarrow> conv_ns \<Rightarrow> conv_env \<Rightarrow>
   ((bool \<times> nvmev_result) list \<times> conv_ns \<times> conv_env) option" where
  "conv_run clk ret reqs ns e = foldM (\<lambda>req (rs, ns, e). do {
     (b, r, ns', e') \<leftarrow> conv_proc_nvme_io_cmd clk req ret ns e;
     Some (rs @ [(b, r)], ns', e') }) reqs ([], ns, e)"

definition fdp_run :: "(nat \<Rightarrow> nat) \<Rightarrow> nvmev_result \<Rightarrow> nvmev_request list \<Rightarrow> fdp_ns \<Rightarrow> fdp_env \<Rightarrow>
   ((bool \<times> nvmev_result) list \<times> fdp_ns \<times> fdp_env) option" where
  "fdp_run clk ret reqs ns e = foldM (\<lambda>req (rs, ns, e). do {
     (b, r, ns', e') \<leftarrow> fdp_proc_nvme_io_cmd clk req ret ns e;
     Some (rs @ [(b, r)], ns', e') }) reqs ([], ns, e)"

lemma run_step_sim:
  assumes "unplaced (req_cmd req)" "rel_prod (=) ns_sim s t"
  shows "rel_option (rel_prod (=) ns_sim)
     (case s of (rs, ns, e) \<Rightarrow> do { (b, r, ns', e') \<leftarrow> conv_proc_nvme_io_cmd clk req ret ns e; Some (rs @ [(b, r)], ns', e') })
     (case t of (rs, ns, e) \<Rightarrow> do { (b, r, ns', e') \<leftarrow> fdp_proc_nvme_io_cmd clk req ret ns e; Some (rs @ [(b, r)], ns', e') })"
proof -
  obtain rs ns e where t: "t = (rs, ns, e)" by (cases t)
  then have s: "s = (rs, as_ns ns, as_env e)" and w: "ns_wf ns" "ev_off e" using assms(2) by (cases s, auto simp: ns_sim_def)+
  show ?thesis unfolding s t prod.case
    by (rule rel_bind [OF command_sim [OF w assms(1)]]) auto
qed

lemma run_sim:
  assumes "ns_wf ns" "ev_off e" "\<forall>req\<in>set reqs. unplaced (req_cmd req)"
  shows "rel_option (rel_prod (=) ns_sim) (conv_run clk ret reqs (as_ns ns) (as_env e)) (fdp_run clk ret reqs ns e)"
  unfolding conv_run_def fdp_run_def
  by (rule rel_foldM [where R = "rel_prod (=) ns_sim"]) (use assms run_step_sim in \<open>auto simp: ns_sim_def\<close>)

lemma rel_option_image: "rel_option R m n \<Longrightarrow> (\<And>x y. R x y \<Longrightarrow> x = h y) \<Longrightarrow> m = map_option h n"
  by (cases m; cases n) auto

section \<open>Every conventional state is such an image\<close>

definition lift_line :: "conv_line \<Rightarrow> fdp_line" where
  "lift_line l = \<lparr>ln_id = cl_id l, ln_ipc = cl_ipc l, ln_vpc = cl_vpc l, ln_ruh = -1, ln_pos = cl_pos l\<rparr>"

definition lift_pq :: "(conv_line list, nat) pqueue_t \<Rightarrow> (fdp_line list, nat) pqueue_t" where
  "lift_pq q = \<lparr>pq_size = pq_size q, pq_avail = pq_avail q, pq_step = pq_step q, cmppri = victim_line_cmp_pri,
     getpri = victim_line_get_pri, setpri = victim_line_set_pri, getpos = victim_line_get_pos, setpos = victim_line_set_pos, pq_d = pq_d q\<rparr>"

definition lift_ftl :: "conv_ftl \<Rightarrow> fdp_ftl" where
  "lift_ftl c = \<lparr>f_ssd = c_ssd c, f_cp = c_cp c, f_maptbl = c_maptbl c, f_rmap = c_rmap c, f_wp_ruh = replicate FDP_NR_RUH (c_wp c),
     f_gc_wp = c_gc_wp c, f_lm = \<lparr>lm_lines = map lift_line (c_lines c), free_line_list = cfree_line_list (c_lm c),
       victim_line_pq = lift_pq (cvictim_line_pq (c_lm c)), full_line_list = cfull_line_list (c_lm c), lm_tt_lines = clm_tt_lines (c_lm c),
       free_line_cnt = cfree_line_cnt (c_lm c), victim_line_cnt = cvictim_line_cnt (c_lm c), full_line_cnt = cfull_line_cnt (c_lm c)\<rparr>,
     f_wfc = c_wfc c\<rparr>"

definition conv_queue_ok :: "conv_ftl \<Rightarrow> bool" where
  "conv_queue_ok c \<longleftrightarrow> (let q = cvictim_line_pq (c_lm c) in
     pq_wired conv_victim_line_cmp_pri conv_victim_line_get_pri conv_victim_line_set_pri conv_victim_line_get_pos conv_victim_line_set_pos q \<and>
     set (pq_d q) \<subseteq> {..<length (c_lines c)})"

lemma as_conv_lift: "conv_queue_ok c \<Longrightarrow> as_conv (lift_ftl c) = c" "conv_queue_ok c \<Longrightarrow> sim_ok (lift_ftl c)"
proof -
  assume a: "conv_queue_ok c"
  have "erase_line \<circ> lift_line = id" by (auto simp: erase_line_def lift_line_def)
  moreover have "erase_pq (lift_pq (cvictim_line_pq (c_lm c))) = cvictim_line_pq (c_lm c)"
    using a by (simp add: conv_queue_ok_def pq_wired_def erase_pq_def lift_pq_def Let_def)
  ultimately show "as_conv (lift_ftl c) = c"
    by (simp add: as_conv_def lift_ftl_def erase_lm_def FDP_NR_RUH_def)
  show "sim_ok (lift_ftl c)" using a by (simp add: sim_ok_def lift_ftl_def cq_ok_def conv_queue_ok_def lift_pq_def pq_wired_def Let_def)
qed

definition lift_ns :: "conv_ns \<Rightarrow> fdp_ns" where
  "lift_ns ns = \<lparr>ns_id = cns_id ns, ns_csi = cns_csi ns, ns_size = cns_size ns, ns_nr_parts = cns_nr_parts ns, ns_ftls = map lift_ftl (cns_ftls ns)\<rparr>"

lemma as_ns_lift:
  assumes "\<forall>c\<in>set (cns_ftls ns). conv_queue_ok c"
  shows "as_ns (lift_ns ns) = ns" "ns_wf (lift_ns ns)"
proof -
  have "map (as_conv \<circ> lift_ftl) (cns_ftls ns) = cns_ftls ns" using assms by (intro map_idI) (simp add: as_conv_lift)
  then show "as_ns (lift_ns ns) = ns" by (simp add: as_ns_def lift_ns_def)
  show "ns_wf (lift_ns ns)" using assms by (auto simp: ns_wf_def lift_ns_def as_conv_lift)
qed

text \<open>A fresh partition is such a state, and its initialisation succeeds with two lines to open.\<close>

lemma conv_init_lines_eq:
  assumes "tt_lines sp = blks_per_pl sp"
  shows "conv_init_lines mem_d sp = Some \<lparr>clm_lines = map (\<lambda>i. \<lparr>cl_id = i, cl_ipc = 0, cl_vpc = 0, cl_pos = 0\<rparr>) [0..<blks_per_pl sp],
     cfree_line_list = [0..<blks_per_pl sp],
     cvictim_line_pq = \<lparr>pq_size = 1, pq_avail = blks_per_pl sp + 1, pq_step = blks_per_pl sp + 1,
       cmppri = conv_victim_line_cmp_pri, getpri = conv_victim_line_get_pri, setpri = conv_victim_line_set_pri,
       getpos = conv_victim_line_get_pos, setpos = conv_victim_line_set_pos, pq_d = mem_d\<rparr>,
     cfull_line_list = [], clm_tt_lines = blks_per_pl sp, cfree_line_cnt = blks_per_pl sp, cvictim_line_cnt = 0, cfull_line_cnt = 0\<rparr>"
proof -
  have "foldl (\<lambda>l i. list_add_tail i l) ys [0..<m] = ys @ [0..<m]" for m :: nat and ys
    by (induction m) (simp_all add: list_add_tail_def)
  moreover have "foldl (\<lambda>c i. c + 1) k [0..<m] = k + m" for k m :: nat
    by (induction m) simp_all
  ultimately show ?thesis using assms by (simp add: conv_init_lines_def pqueue_init_def Let_def)
qed

lemma conv_init_ftl_ok:
  assumes n: "2 \<le> blks_per_pl (ssd_sp s)" "tt_lines (ssd_sp s) = blks_per_pl (ssd_sp s)" and mem: "set mem_d \<subseteq> {..<blks_per_pl (ssd_sp s)}"
  shows "\<exists>f. conv_init_ftl mem_d cpp s = Some f \<and> conv_queue_ok f \<and> c_ssd f = s \<and> c_cp f = cpp \<and>
     cfree_line_list (c_lm f) = [2..<blks_per_pl (ssd_sp s)] \<and> wp_curline (c_wp f) = Some 0 \<and> wp_curline (c_gc_wp f) = Some 1 \<and>
     c_wfc f = conv_init_write_flow_control (ssd_sp s)"
proof -
  let ?n = "blks_per_pl (ssd_sp s)"
  have up: "[0..<?n] = 0 # 1 # [2..<?n]" using n(1) by (simp add: upt_conv_Cons numeral_2_eq_2)
  have "conv_get_next_free_line f = (Some x, f\<lparr>c_lm := (c_lm f)\<lparr>cfree_line_list := xs, cfree_line_cnt := u32_sub (cfree_line_cnt (c_lm f)) 1\<rparr>\<rparr>)"
    if "cfree_line_list (c_lm f) = x # xs" for f x xs
    using that by (simp add: conv_get_next_free_line_def klist_defs Let_def)
  moreover have "Suc (Suc (?n - 2)) = ?n" using n(1) by simp
  ultimately show ?thesis using n(1) mem up
    by (simp add: conv_init_ftl_def conv_init_lines_eq [OF n(2)] Let_def conv_prepare_write_pointer_def conv_put_wp_def conv_queue_ok_def pq_wired_def
        del: upt.simps)
qed

lemma conv_init_namespace_ok:
  assumes sp: "ssd_init_params c size_ns (SSD_PARTITIONS c) = Some sp" and g: "geo_ok sp"
    and bw: "31 \<le> ch_bandwidth sp" "ch_bandwidth sp \<le> 7800" "31 \<le> pcie_bandwidth sp" "pcie_bandwidth sp \<le> 7800"
    and n: "2 \<le> blks_per_pl sp" "set mem_d \<subseteq> {..<blks_per_pl sp}" and np: "0 < SSD_PARTITIONS c"
  shows "\<exists>ns e. conv_init_namespace mem_d c nsid size_ns cpu = Some (ns, e) \<and> cns_nr_parts ns = SSD_PARTITIONS c \<and>
     length (cns_ftls ns) = SSD_PARTITIONS c \<and> cns_csi ns = NVME_CSI_NVM \<and> (\<forall>f\<in>set (cns_ftls ns). conv_queue_ok f)"
proof -
  obtain s pc wb where s: "ssd_init sp cpu = Some (s, pc, wb)" "ssd_sp s = sp" using ssd_init_ok [OF g bw] by blast
  obtain f where f: "conv_init_ftl mem_d (conv_init_params c) s = Some f" "conv_queue_ok f"
    using conv_init_ftl_ok [of s mem_d "conv_init_params c"] s(2) n geo_eqs(2) [OF g] by auto
  have "foldM (\<lambda>i parts. do {
         (s, pcie, wbuf) \<leftarrow> ssd_init sp cpu;
         f \<leftarrow> conv_init_ftl mem_d (conv_init_params c) s;
         Some (parts @ [(f, pcie, wbuf)])
       }) xs acc = Some (acc @ replicate (length xs) (f, pc, wb))" for xs :: "nat list" and acc
    by (induction xs arbitrary: acc) (simp_all add: s(1) f(1) replicate_app_Cons_same)
  then show ?thesis using sp np f(2) by (simp add: conv_init_namespace_def Let_def conv_init_params_def)
qed

section \<open>The equivalence\<close>

text \<open>
  C30: The conventional device is the FDP device without placement. For every conventional namespace
  whose victim queues carry the callbacks and hold line numbers, and every sequence of commands
  without a placement directive, the conventional device gives the answers (acceptance, status and
  completion time) the FDP device gives from the same state with one handle in use, it fails exactly
  when that one fails, and it ends in the state of that one with handles, statistics and events
  forgotten. The one event whose emission reads the clock must not be enabled.
\<close>

theorem conv_device_is_fdp_device:
  assumes "\<forall>c\<in>set (cns_ftls cns). conv_queue_ok c"
    and "\<forall>req\<in>set reqs. unplaced (req_cmd req)"
    and "\<not> event_enabled (events ctx) NVME_FDP_EVT_IMPLICIT_MODIFIED_RU" "ruh_attr ctx \<noteq> []"
  shows "conv_run clk ret reqs cns ce = map_option (\<lambda>(rs, ns, e). (rs, as_ns ns, as_env e))
     (fdp_run clk ret reqs (lift_ns cns) \<lparr>e_sh = ce_sh ce, e_ctx = ctx, e_sched = ce_sched ce\<rparr>)"
proof -
  let ?e = "\<lparr>e_sh = ce_sh ce, e_ctx = ctx, e_sched = ce_sched ce\<rparr>"
  have "ev_off ?e" "as_env ?e = ce" using assms(3,4) by (simp_all add: ev_off_def as_env_def)
  with run_sim [OF as_ns_lift(2) [OF assms(1)] this(1) assms(2), of clk ret]
  have "rel_option (rel_prod (=) ns_sim) (conv_run clk ret reqs cns ce) (fdp_run clk ret reqs (lift_ns cns) ?e)"
    by (simp add: as_ns_lift(1) [OF assms(1)])
  then show ?thesis by (rule rel_option_image) (auto simp: ns_sim_def)
qed

text \<open>A write and a read of the same eight blocks on a fresh small conventional device.\<close>

definition plain :: "nat \<Rightarrow> nvmev_request" where
  "plain op = \<lparr>req_cmd = \<lparr>rw_opcode = op, rw_nsid = 1, rw_slba = 0, rw_length = 7, rw_control = 0, rw_dsmgmt = 0\<rparr>, req_sq_id = 1, req_nsecs_start = 1000\<rparr>"

theorem conv_device_is_fdp_device_witness:
  "\<exists>cns ce ctx. conv_init_namespace (replicate 21 0) tiny 1 (KB 160) 0 = Some (cns, ce) \<and> cns_ftls cns \<noteq> [] \<and>
     conv_run sample_clock blank_result [plain nvme_cmd_write, plain nvme_cmd_read] cns ce = map_option (\<lambda>(rs, ns, e). (rs, as_ns ns, as_env e))
       (fdp_run sample_clock blank_result [plain nvme_cmd_write, plain nvme_cmd_read] (lift_ns cns)
          \<lparr>e_sh = ce_sh ce, e_ctx = ctx, e_sched = ce_sched ce\<rparr>)"
proof -
  obtain sp where sp: "ssd_init_params tiny (KB 160) 1 = Some sp" "geo_ok sp" "blks_per_pl sp = 20" "ch_bandwidth sp = 800" "pcie_bandwidth sp = 3360"
    using tiny_params by blast
  have p: "SSD_PARTITIONS tiny = 1" by (simp add: tiny_def)
  obtain cns ce where i: "conv_init_namespace (replicate 21 0) tiny 1 (KB 160) 0 = Some (cns, ce)" "length (cns_ftls cns) = 1"
     "\<forall>f\<in>set (cns_ftls cns). conv_queue_ok f"
    using conv_init_namespace_ok [of tiny "KB 160" sp "replicate 21 0" 1 0] sp p by auto
  let ?ctx = "fdp_init_ctx 0 fdp_ctx_static"
  have u: "\<forall>req\<in>set [plain nvme_cmd_write, plain nvme_cmd_read]. unplaced (req_cmd req)"
    by (simp add: plain_def unplaced_def NVME_RW_DTYPE_SHIFT_def NVME_DIRECTIVE_PLACEMENT_def)
  have "\<not> event_enabled (events ?ctx) NVME_FDP_EVT_IMPLICIT_MODIFIED_RU" "ruh_attr ?ctx \<noteq> []"
    by (simp_all add: fdp_init_ctx_def fdp_ctx_static_def FDP_NR_RUH_def)
  from conv_device_is_fdp_device [OF i(3) u this, of sample_clock blank_result ce] i(1,2) show ?thesis by (intro exI [of _ cns] exI [of _ ce] exI [of _ ?ctx]) auto
qed

end
