(* ===== verification/Admin.thy ===== *)
theory Admin
  imports Io_Worker Fdp_Ctx Zns_Ftl
begin

text \<open>
  The admin queue and its commands (\<open>admin.c\<close>), and the registers, doorbells and interrupts they
  share with the dispatcher.

  \<^item> Commands and completions lie in the host's memory, a function from byte addresses; the pages of
    the admin queue are lists of addresses. The kernel's mapping of a page is its address, so
    \<open>prp_address\<close> of a valid frame is the address itself.
  \<^item> \<open>pfn_valid\<close> and \<open>memremap\<close> are the kernel's; a queue that could not be mapped has pages without
    an address. Allocations succeed.
  \<^item> The fields of a command are read when it is begun, its identifier when it is completed; a host that
    has its command overwritten by the command's own data is outside the model.
  \<^item> A build supports one type of device, the same for all its namespaces.
\<close>

section \<open>Constants\<close>

definition NR_MAX_IO_QUEUE :: nat where "NR_MAX_IO_QUEUE = 72"

definition nvme_admin_delete_sq :: nat where "nvme_admin_delete_sq = 0x00"
definition nvme_admin_create_sq :: nat where "nvme_admin_create_sq = 0x01"
definition nvme_admin_get_log_page :: nat where "nvme_admin_get_log_page = 0x02"
definition nvme_admin_delete_cq :: nat where "nvme_admin_delete_cq = 0x04"
definition nvme_admin_create_cq :: nat where "nvme_admin_create_cq = 0x05"
definition nvme_admin_identify :: nat where "nvme_admin_identify = 0x06"
definition nvme_admin_abort_cmd :: nat where "nvme_admin_abort_cmd = 0x08"
definition nvme_admin_set_features :: nat where "nvme_admin_set_features = 0x09"
definition nvme_admin_get_features :: nat where "nvme_admin_get_features = 0x0a"
definition nvme_admin_async_event :: nat where "nvme_admin_async_event = 0x0c"

lemmas admin_opcodes = nvme_admin_delete_sq_def nvme_admin_create_sq_def nvme_admin_get_log_page_def nvme_admin_delete_cq_def
  nvme_admin_create_cq_def nvme_admin_identify_def nvme_admin_abort_cmd_def nvme_admin_set_features_def nvme_admin_get_features_def
  nvme_admin_async_event_def

definition NVME_SC_INVALID_OPCODE :: nat where "NVME_SC_INVALID_OPCODE = 0x1"
definition NVME_SC_FEATURE_NOT_CHANGEABLE :: nat where "NVME_SC_FEATURE_NOT_CHANGEABLE = 0x10e"
definition NVME_FEAT_NUM_QUEUES :: nat where "NVME_FEAT_NUM_QUEUES = 0x07"
definition NVME_FEAT_FDP :: nat where "NVME_FEAT_FDP = 0x1d"
definition NVME_FEAT_FDP_EVENTS :: nat where "NVME_FEAT_FDP_EVENTS = 0x1e"
definition NVME_LOG_SMART :: nat where "NVME_LOG_SMART = 0x02"
definition NVME_LOG_CMD_EFFECTS :: nat where "NVME_LOG_CMD_EFFECTS = 0x05"

lemmas admin_consts = NVME_SC_INVALID_OPCODE_def NVME_SC_FEATURE_NOT_CHANGEABLE_def NVME_FEAT_NUM_QUEUES_def NVME_FEAT_FDP_def
  NVME_FEAT_FDP_EVENTS_def NVME_LOG_SMART_def NVME_LOG_CMD_EFFECTS_def

section \<open>State\<close>

record nvmev_admin_queue =
  aq_phase :: nat
  aq_sq_depth :: nat
  aq_cq_depth :: nat
  aq_cq_head :: nat
  aq_nvme_sq :: "nat list option"
  aq_nvme_cq :: "nat list option"

text \<open>The queues as \<open>admin.c\<close> sets them up; a page is the address it is mapped at.\<close>

record created_sq =
  csq_qid :: nat
  csq_cqid :: nat
  csq_priority :: nat
  csq_phys_contig :: bool
  csq_queue_size :: nat
  csq_pages :: "nat option list"

record created_cq =
  ccq_qid :: nat
  ccq_irq_enabled :: bool
  ccq_irq_vector :: nat
  ccq_interrupt_ready :: bool
  ccq_queue_size :: nat
  ccq_phase :: nat
  ccq_head :: nat
  ccq_tail :: int
  ccq_phys_contig :: bool
  ccq_pages :: "nat option list"

record ctrl_regs =
  r_cc :: nat
  r_rdy :: nat
  r_shst :: nat
  r_aqa :: nat
  r_asq :: nat
  r_acq :: nat

record old_regs =
  o_cc :: nat
  o_aqa :: nat
  o_asq :: nat
  o_acq :: nat

record vdev_ns =
  vn_size :: nat
  vn_csi :: nat
  vn_zp :: znsparams

datatype irq = MSI nat | INTX

record vdev =
  v_mem :: "nat \<Rightarrow> nat"
  v_bar :: ctrl_regs
  v_old_bar :: old_regs
  v_dbs :: "nat list"
  v_old_dbs :: "nat list"
  v_admin_q :: "nvmev_admin_queue option"
  v_sqes :: "created_sq option list"
  v_cqes :: "created_cq option list"
  v_nr_sq :: nat
  v_nr_cq :: nat
  v_ns :: "vdev_ns list"
  v_nr_ns :: nat
  v_mdts :: nat
  v_fdp :: fdp_ctx
  v_msix_enabled :: bool
  v_sts_is :: bool
  v_irqs :: "irq list"

text \<open>The build: the type of its namespaces, the one-shot page size, and the kernel's memory map.\<close>

record build =
  b_type :: ssd_type
  b_oneshot :: nat
  b_pfn_valid :: "nat \<Rightarrow> bool"
  b_memremap :: "nat \<Rightarrow> bool"

definition prp_address :: "build \<Rightarrow> nat \<Rightarrow> nat option" where
  "prp_address b prp = (if b_pfn_valid b (prp div PAGE_SIZE) then Some prp else None)"

section \<open>Commands in memory\<close>

definition rd_mem :: "nat \<Rightarrow> nat \<Rightarrow> (nat \<Rightarrow> nat) \<Rightarrow> nat" where
  "rd_mem n a mem = le_value (mem_bytes mem a n)"

definition sizeof_command :: nat where "sizeof_command = 64"
definition sizeof_completion :: nat where "sizeof_completion = 16"

definition sq_entry :: "nvmev_admin_queue \<Rightarrow> nat \<Rightarrow> nat option" where
  "sq_entry q eid = do {
     let n = PAGE_SIZE div sizeof_command;
     pages \<leftarrow> aq_nvme_sq q;
     p \<leftarrow> rd pages (eid div n);
     Some (p + sizeof_command * (eid mod n))
   }"

definition cq_entry :: "nvmev_admin_queue \<Rightarrow> nat \<Rightarrow> nat option" where
  "cq_entry q eid = do {
     let n = PAGE_SIZE div sizeof_completion;
     pages \<leftarrow> aq_nvme_cq q;
     p \<leftarrow> rd pages (eid div n);
     Some (p + sizeof_completion * (eid mod n))
   }"

text \<open>The fields of the command at address \<open>a\<close>, by the structures of \<open>nvme.h\<close>.\<close>

definition adm_opcode :: "nat \<Rightarrow> (nat \<Rightarrow> nat) \<Rightarrow> nat" where "adm_opcode a = rd_mem 1 a"
definition adm_command_id :: "nat \<Rightarrow> (nat \<Rightarrow> nat) \<Rightarrow> nat" where "adm_command_id a = rd_mem 2 (a + 2)"
definition adm_nsid :: "nat \<Rightarrow> (nat \<Rightarrow> nat) \<Rightarrow> nat" where "adm_nsid a = rd_mem 4 (a + 4)"
definition adm_prp1 :: "nat \<Rightarrow> (nat \<Rightarrow> nat) \<Rightarrow> nat" where "adm_prp1 a = rd_mem 8 (a + 24)"
definition adm_cns :: "nat \<Rightarrow> (nat \<Rightarrow> nat) \<Rightarrow> nat" where "adm_cns a = rd_mem 4 (a + 40)"
definition adm_fid :: "nat \<Rightarrow> (nat \<Rightarrow> nat) \<Rightarrow> nat" where "adm_fid a = rd_mem 4 (a + 40)"
definition adm_dword11 :: "nat \<Rightarrow> (nat \<Rightarrow> nat) \<Rightarrow> nat" where "adm_dword11 a = rd_mem 4 (a + 44)"
definition adm_lid :: "nat \<Rightarrow> (nat \<Rightarrow> nat) \<Rightarrow> nat" where "adm_lid a = rd_mem 1 (a + 40)"
definition adm_numdl :: "nat \<Rightarrow> (nat \<Rightarrow> nat) \<Rightarrow> nat" where "adm_numdl a = rd_mem 2 (a + 42)"
definition adm_numdu :: "nat \<Rightarrow> (nat \<Rightarrow> nat) \<Rightarrow> nat" where "adm_numdu a = rd_mem 2 (a + 44)"
definition adm_qid :: "nat \<Rightarrow> (nat \<Rightarrow> nat) \<Rightarrow> nat" where "adm_qid a = rd_mem 2 (a + 40)"
definition adm_qsize :: "nat \<Rightarrow> (nat \<Rightarrow> nat) \<Rightarrow> nat" where "adm_qsize a = rd_mem 2 (a + 42)"
definition adm_qflags :: "nat \<Rightarrow> (nat \<Rightarrow> nat) \<Rightarrow> nat" where "adm_qflags a = rd_mem 2 (a + 44)"
definition adm_irq_vector :: "nat \<Rightarrow> (nat \<Rightarrow> nat) \<Rightarrow> nat" where "adm_irq_vector a = rd_mem 2 (a + 46)"
definition adm_sq_cqid :: "nat \<Rightarrow> (nat \<Rightarrow> nat) \<Rightarrow> nat" where "adm_sq_cqid a = rd_mem 2 (a + 46)"

text \<open>The command of an entry: the admin queue and the address of the command.\<close>

definition admin_cmd :: "nat \<Rightarrow> vdev \<Rightarrow> nat option" where
  "admin_cmd eid v = do { q \<leftarrow> v_admin_q v; sq_entry q eid }"

section \<open>Completions\<close>

definition encode_completion :: "nvme_completion \<Rightarrow> nat list" where
  "encode_completion c = le_bytes 4 (cqe_result0 c) @ le_bytes 4 (cqe_result1 c) @ le_bytes 2 (cqe_sq_head c) @
     le_bytes 2 (cqe_sq_id c) @ le_bytes 2 (cqe_command_id c) @ le_bytes 2 (cqe_status c)"

definition make_cq_entry_results :: "nat \<Rightarrow> nat \<Rightarrow> nat \<Rightarrow> nat \<Rightarrow> vdev \<Rightarrow> vdev option" where
  "make_cq_entry_results eid ret result0 result1 v = do {
     q \<leftarrow> v_admin_q v;
     a \<leftarrow> sq_entry q eid;
     c \<leftarrow> cq_entry q (aq_cq_head q);
     let cqe = \<lparr>cqe_result0 = u32 result0, cqe_result1 = u32 result1, cqe_sq_head = u16 eid, cqe_sq_id = 0,
       cqe_command_id = adm_command_id a (v_mem v), cqe_status = u16 (Bit_Operations.or (aq_phase q) (u16 ret * 2))\<rparr>;
     let q' = (if aq_cq_head q + 1 = aq_cq_depth q then q\<lparr>aq_cq_head := 0, aq_phase := (if aq_phase q = 0 then 1 else 0)\<rparr>
       else q\<lparr>aq_cq_head := aq_cq_head q + 1\<rparr>);
     Some (v\<lparr>v_mem := mem_write c (encode_completion cqe) (v_mem v), v_admin_q := Some q'\<rparr>)
   }"

definition make_cq_entry :: "nat \<Rightarrow> nat \<Rightarrow> vdev \<Rightarrow> vdev option" where
  "make_cq_entry eid ret v = make_cq_entry_results eid ret 0 0 v"

section \<open>Queue management\<close>

text \<open>The addresses of the pages of a queue.\<close>

definition queue_pages :: "build \<Rightarrow> nat \<Rightarrow> nat \<Rightarrow> nat option list" where
  "queue_pages b prp1 num_pages =
     (if b_pfn_valid b (prp1 div PAGE_SIZE) \<or> b_memremap b prp1 then map (\<lambda>i. Some (prp1 + i * PAGE_SIZE)) [0..<num_pages]
      else replicate num_pages None)"

text \<open>The address of an entry of a queue whose entries have \<open>s\<close> bytes.\<close>

definition queue_entry :: "nat option list \<Rightarrow> nat \<Rightarrow> nat \<Rightarrow> nat option" where
  "queue_entry pages s k = do {
     let n = PAGE_SIZE div s;
     page \<leftarrow> rd pages (k div n);
     p \<leftarrow> page;
     Some (p + s * (k mod n))
   }"

definition admin_create_cq :: "build \<Rightarrow> nat \<Rightarrow> vdev \<Rightarrow> vdev option" where
  "admin_create_cq b eid v = do {
     a \<leftarrow> admin_cmd eid v;
     let m = v_mem v;
     let qid = adm_qid a m;
     let irq_enabled = odd (adm_qflags a m div 2);
     let queue_size = adm_qsize a m + 1;
     let num_pages = DIV_ROUND_UP (queue_size * sizeof_completion) PAGE_SIZE;
     let cq = \<lparr>ccq_qid = qid, ccq_irq_enabled = irq_enabled, ccq_irq_vector = (if irq_enabled then adm_irq_vector a m else 0),
       ccq_interrupt_ready = False, ccq_queue_size = queue_size, ccq_phase = 1, ccq_head = 0, ccq_tail = -1,
       ccq_phys_contig = odd (adm_qflags a m), ccq_pages = queue_pages b (adm_prp1 a m) num_pages\<rparr>;
     cqes \<leftarrow> wr (v_cqes v) qid (Some cq);
     dbs \<leftarrow> wr (v_dbs v) (qid * 2 + 1) 0;
     old_dbs \<leftarrow> wr (v_old_dbs v) (qid * 2 + 1) 0;
     make_cq_entry eid NVME_SC_SUCCESS (v\<lparr>v_cqes := cqes, v_dbs := dbs, v_old_dbs := old_dbs\<rparr>)
   }"

definition admin_delete_cq :: "nat \<Rightarrow> vdev \<Rightarrow> vdev option" where
  "admin_delete_cq eid v = do {
     a \<leftarrow> admin_cmd eid v;
     cqes \<leftarrow> wr (v_cqes v) (adm_qid a (v_mem v)) None;
     make_cq_entry eid NVME_SC_SUCCESS (v\<lparr>v_cqes := cqes\<rparr>)
   }"

definition admin_create_sq :: "build \<Rightarrow> nat \<Rightarrow> vdev \<Rightarrow> vdev option" where
  "admin_create_sq b eid v = do {
     a \<leftarrow> admin_cmd eid v;
     let m = v_mem v;
     let qid = adm_qid a m;
     let queue_size = adm_qsize a m + 1;
     let num_pages = DIV_ROUND_UP (queue_size * sizeof_command) PAGE_SIZE;
     let sq = \<lparr>csq_qid = qid, csq_cqid = adm_sq_cqid a m, csq_priority = adm_qflags a m div 2 * 2,
       csq_phys_contig = odd (adm_qflags a m), csq_queue_size = queue_size, csq_pages = queue_pages b (adm_prp1 a m) num_pages\<rparr>;
     sqes \<leftarrow> wr (v_sqes v) qid (Some sq);
     dbs \<leftarrow> wr (v_dbs v) (qid * 2) 0;
     old_dbs \<leftarrow> wr (v_old_dbs v) (qid * 2) 0;
     make_cq_entry eid NVME_SC_SUCCESS (v\<lparr>v_sqes := sqes, v_dbs := dbs, v_old_dbs := old_dbs\<rparr>)
   }"

definition admin_delete_sq :: "nat \<Rightarrow> vdev \<Rightarrow> vdev option" where
  "admin_delete_sq eid v = do {
     a \<leftarrow> admin_cmd eid v;
     sqes \<leftarrow> wr (v_sqes v) (adm_qid a (v_mem v)) None;
     make_cq_entry eid NVME_SC_SUCCESS (v\<lparr>v_sqes := sqes\<rparr>)
   }"

section \<open>Log pages\<close>

text \<open>The constant structures, 512 and 4096 bytes; a copy of more bytes reads behind them.\<close>

definition smart_log :: "nat list" where
  "smart_log = (replicate 512 0)[4 := 20]"

definition effects_log :: "build \<Rightarrow> nat list" where
  "effects_log b =
     (let acs = (replicate 256 0)[nvme_admin_get_log_page := 1, nvme_admin_identify := 1, nvme_admin_set_features := 1,
            nvme_admin_get_features := 1, nvme_admin_async_event := 1];
          iocs = (if b_type b = SSD_TYPE_ZNS
            then (replicate 256 0)[nvme_cmd_zone_append := 1, nvme_cmd_zone_mgmt_send := 3, nvme_cmd_zone_mgmt_recv := 1]
            else replicate 256 0)
      in concat (map (le_bytes 4) (acs @ iocs)) @ replicate 2048 0)"

definition admin_get_log_page :: "build \<Rightarrow> nat \<Rightarrow> vdev \<Rightarrow> vdev option" where
  "admin_get_log_page b eid v = do {
     a \<leftarrow> admin_cmd eid v;
     let m = v_mem v;
     let len = u32 ((adm_numdu a m * 2 ^ 16 + adm_numdl a m + 1) * 4);
     page \<leftarrow> prp_address b (adm_prp1 a m);
     let lid = adm_lid a m;
     bs \<leftarrow> (if lid = NVME_LOG_SMART then do { NVMEV_ASSERT (len \<le> length smart_log); Some (take len smart_log) }
           else if lid = NVME_LOG_CMD_EFFECTS then do { NVMEV_ASSERT (len \<le> length (effects_log b)); Some (take len (effects_log b)) }
           else if b_type b = SSD_TYPE_FDP \<and> (lid = NVME_LOG_FDP_CONFIGS \<or> lid = NVME_LOG_FDP_RUH_USAGE \<or>
               lid = NVME_LOG_FDP_STATS \<or> lid = NVME_LOG_FDP_EVENTS)
           then fdp_get_log_page (v_fdp v) lid len
           else Some (replicate len 0));
     make_cq_entry eid NVME_SC_SUCCESS (v\<lparr>v_mem := mem_write page bs m\<rparr>)
   }"

section \<open>Identify\<close>

text \<open>A structure in a page: its fields stored one by one at their offsets.\<close>

definition put_fields :: "(nat \<times> nat list) list \<Rightarrow> nat list \<Rightarrow> nat list option" where
  "put_fields fs page = foldM (\<lambda>(off, bs). put_bytes off bs) fs page"

text \<open>The formats: metadata size, the exponent of the block size, relative performance.\<close>

definition lbafs :: "(nat \<times> nat \<times> nat) list" where
  "lbafs = [(0, 9, 2), (8, 9, 2), (16, 9, 2), (0, 12, 0), (8, 12, 0), (64, 12, 0), (128, 12, 0)]"

definition encode_lbaf :: "nat \<times> nat \<times> nat \<Rightarrow> nat list" where
  "encode_lbaf f = (case f of (ms, ds, rp) \<Rightarrow> le_bytes 2 ms @ [ds, rp])"

definition id_ns_fields :: "build \<Rightarrow> nat \<Rightarrow> (nat \<times> nat list) list option" where
  "id_ns_fields b ns_size = do {
     flbas \<leftarrow> (if LBA_BITS = 9 then Some 0 else if LBA_BITS = 12 then Some 3 else None);
     (_, ds, _) \<leftarrow> rd lbafs flbas;
     let nsze = ns_size div 2 ^ ds;
     let lbas_per_oneshot = u16 (b_oneshot b div 2 ^ LBA_BITS);
     let n = u16 (lbas_per_oneshot + 65535);
     Some ([(128, concat (map encode_lbaf lbafs)), (26, [flbas]), (25, [6]), (29, [0]),
        (0, le_bytes 8 nsze), (8, le_bytes 8 nsze), (16, le_bytes 8 nsze)] @
       (if b_type b = SSD_TYPE_FDP
        then [(24, [16]), (102, le_bytes 2 1), (64, le_bytes 2 n), (66, le_bytes 2 n), (72, le_bytes 2 n)] else []))
   }"

definition admin_identify_namespace :: "build \<Rightarrow> nat \<Rightarrow> vdev \<Rightarrow> vdev option" where
  "admin_identify_namespace b eid v = do {
     a \<leftarrow> admin_cmd eid v;
     let nsid = u32_sub (adm_nsid a (v_mem v)) 1;
     p \<leftarrow> prp_address b (adm_prp1 a (v_mem v));
     ns \<leftarrow> rd (v_ns v) nsid;
     fs \<leftarrow> id_ns_fields b (vn_size ns);
     page \<leftarrow> put_fields fs (replicate PAGE_SIZE 0);
     make_cq_entry eid NVME_SC_SUCCESS (v\<lparr>v_mem := mem_write p page (v_mem v)\<rparr>)
   }"

text \<open>Two pages are cleared, then the identifiers above the given one are listed.\<close>

definition admin_identify_namespaces :: "build \<Rightarrow> nat \<Rightarrow> vdev \<Rightarrow> vdev option" where
  "admin_identify_namespaces b eid v = do {
     a \<leftarrow> admin_cmd eid v;
     let nsid = adm_nsid a (v_mem v);
     p \<leftarrow> prp_address b (adm_prp1 a (v_mem v));
     let ids = filter (\<lambda>i. i > nsid) [1..<Suc (v_nr_ns v)];
     let m1 = mem_write p (replicate (PAGE_SIZE * 2) 0) (v_mem v);
     make_cq_entry eid NVME_SC_SUCCESS (v\<lparr>v_mem := mem_write p (concat (map (le_bytes 4) ids)) m1\<rparr>)
   }"

definition admin_identify_namespace_desc :: "build \<Rightarrow> nat \<Rightarrow> vdev \<Rightarrow> vdev option" where
  "admin_identify_namespace_desc b eid v = do {
     a \<leftarrow> admin_cmd eid v;
     let nsid = u32_sub (adm_nsid a (v_mem v)) 1;
     p \<leftarrow> prp_address b (adm_prp1 a (v_mem v));
     ns \<leftarrow> rd (v_ns v) nsid;
     page \<leftarrow> put_fields [(0, [4]), (1, [1]), (4, [u8 (vn_csi ns)])] (replicate PAGE_SIZE 0);
     make_cq_entry eid NVME_SC_SUCCESS (v\<lparr>v_mem := mem_write p page (v_mem v)\<rparr>)
   }"

definition id_zns_fields :: "znsparams \<Rightarrow> (nat \<times> nat list) list" where
  "id_zns_fields zp =
     [(0, le_bytes 2 0), (2, le_bytes 2 0), (4, le_bytes 4 (u32_sub (zp_nr_active_zones zp) 1)), (8, le_bytes 4 (u32_sub (zp_nr_open_zones zp) 1))] @
     (if zp_nr_zrwa_zones zp > 0
      then [(2, le_bytes 2 2), (44, le_bytes 4 (zp_nr_zrwa_zones zp - 1)), (48, le_bytes 2 (zp_zrwafg_size zp)), (50, le_bytes 2 (zp_zrwa_size zp)),
            (52, [1])] else []) @
     [(2816, le_bytes 8 (BYTE_TO_LBA (zp_zone_size zp))), (2824, [0])]"

definition admin_identify_zns_namespace :: "build \<Rightarrow> nat \<Rightarrow> vdev \<Rightarrow> vdev option" where
  "admin_identify_zns_namespace b eid v = do {
     a \<leftarrow> admin_cmd eid v;
     let nsid = u32_sub (adm_nsid a (v_mem v)) 1;
     ns \<leftarrow> rd (v_ns v) nsid;
     if b_type b \<noteq> SSD_TYPE_ZNS then make_cq_entry eid NVME_SC_SUCCESS v
     else do {
       NVMEV_ASSERT (vn_csi ns = NVME_CSI_ZNS);
       p \<leftarrow> prp_address b (adm_prp1 a (v_mem v));
       page \<leftarrow> put_fields (id_zns_fields (vn_zp ns)) (replicate PAGE_SIZE 0);
       make_cq_entry eid NVME_SC_SUCCESS (v\<lparr>v_mem := mem_write p page (v_mem v)\<rparr>)
     }
   }"

definition admin_identify_zns_ctrl :: "build \<Rightarrow> nat \<Rightarrow> vdev \<Rightarrow> vdev option" where
  "admin_identify_zns_ctrl b eid v = do {
     a \<leftarrow> admin_cmd eid v;
     p \<leftarrow> prp_address b (adm_prp1 a (v_mem v));
     make_cq_entry eid NVME_SC_SUCCESS (v\<lparr>v_mem := mem_write p [0] (v_mem v)\<rparr>)
   }"

text \<open>\<open>snprintf\<close> into a field: the characters and a terminating zero.\<close>

definition c_string :: "string \<Rightarrow> nat list" where
  "c_string s = map of_char s @ [0]"

definition id_ctrl_fields :: "build \<Rightarrow> vdev \<Rightarrow> (nat \<times> nat list) list" where
  "id_ctrl_fields b v =
     [(516, le_bytes 4 (v_nr_ns v)), (520, le_bytes 2 0), (258, [3]), (525, [0]), (4, c_string ''CSL_Virt_SN_01''), (24, c_string ''CSL_Virt_MN_01''),
      (64, c_string ''CSL_002''), (77, [u8 (v_mdts v)]), (512, [0x66]), (513, [0x44])] @
     (if b_type b = SSD_TYPE_FDP then [(96, le_bytes 4 (2 ^ 4 + 2 ^ 19))] else [])"

definition admin_identify_ctrl :: "build \<Rightarrow> nat \<Rightarrow> vdev \<Rightarrow> vdev option" where
  "admin_identify_ctrl b eid v = do {
     a \<leftarrow> admin_cmd eid v;
     p \<leftarrow> prp_address b (adm_prp1 a (v_mem v));
     page \<leftarrow> put_fields (id_ctrl_fields b v) (replicate PAGE_SIZE 0);
     make_cq_entry eid NVME_SC_SUCCESS (v\<lparr>v_mem := mem_write p page (v_mem v)\<rparr>)
   }"

definition admin_identify :: "build \<Rightarrow> nat \<Rightarrow> vdev \<Rightarrow> vdev option" where
  "admin_identify b eid v = do {
     a \<leftarrow> admin_cmd eid v;
     let cns = adm_cns a (v_mem v);
     if cns = 0 then admin_identify_namespace b eid v
     else if cns = 1 then admin_identify_ctrl b eid v
     else if cns = 2 then admin_identify_namespaces b eid v
     else if cns = 3 then admin_identify_namespace_desc b eid v
     else if cns = 5 then admin_identify_zns_namespace b eid v
     else if cns = 6 then admin_identify_zns_ctrl b eid v
     else make_cq_entry eid NVME_SC_INVALID_OPCODE v
   }"

section \<open>Features\<close>

definition num_queues_result :: "vdev \<Rightarrow> nat" where
  "num_queues_result v = Bit_Operations.or (u32 (u32_sub (v_nr_cq v) 1 * 2 ^ 16)) (u32_sub (v_nr_sq v) 1)"

text \<open>The buffer of the FDP event features: descriptors of two bytes.\<close>

definition event_descs :: "nat \<Rightarrow> nat \<Rightarrow> (nat \<Rightarrow> nat) \<Rightarrow> (nat \<times> nat) list" where
  "event_descs p n m = map (\<lambda>i. (m (p + 2 * i), m (p + 2 * i + 1))) [0..<n]"

definition opt_prp :: "build \<Rightarrow> nat \<Rightarrow> nat option option" where
  "opt_prp b prp1 = (if prp1 = 0 then Some None else map_option Some (prp_address b prp1))"

definition admin_set_features :: "build \<Rightarrow> nat \<Rightarrow> vdev \<Rightarrow> vdev option" where
  "admin_set_features b eid v = do {
     a \<leftarrow> admin_cmd eid v;
     let m = v_mem v;
     let fid = adm_fid a m;
     let dw = adm_dword11 a m;
     if fid = NVME_FEAT_NUM_QUEUES then
       (let v1 = v\<lparr>v_nr_sq := min (dw mod 65536 + 1) NR_MAX_IO_QUEUE, v_nr_cq := min (dw div 65536 mod 65536 + 1) NR_MAX_IO_QUEUE\<rparr>
        in make_cq_entry_results eid NVME_SC_SUCCESS (num_queues_result v1) 0 v1)
     else if b_type b = SSD_TYPE_FDP \<and> fid = NVME_FEAT_FDP then
       make_cq_entry_results eid (if even dw \<or> dw div 256 mod 256 \<noteq> 0 then NVME_SC_FEATURE_NOT_CHANGEABLE else NVME_SC_SUCCESS) 0 0 v
     else if b_type b = SSD_TYPE_FDP \<and> fid = NVME_FEAT_FDP_EVENTS then do {
       p \<leftarrow> opt_prp b (adm_prp1 a m);
       (r, ctx) \<leftarrow> fdp_set_feature_events dw (map_option (\<lambda>p. event_descs p 256 m) p) (v_fdp v);
       make_cq_entry_results eid NVME_SC_SUCCESS r 0 (v\<lparr>v_fdp := ctx\<rparr>)
     } else make_cq_entry_results eid NVME_SC_SUCCESS 0 0 v
   }"

definition admin_get_features :: "build \<Rightarrow> nat \<Rightarrow> vdev \<Rightarrow> vdev option" where
  "admin_get_features b eid v = do {
     a \<leftarrow> admin_cmd eid v;
     let m = v_mem v;
     let fid = adm_fid a m;
     if fid = NVME_FEAT_NUM_QUEUES then make_cq_entry_results eid NVME_SC_SUCCESS (num_queues_result v) 0 v
     else if b_type b = SSD_TYPE_FDP \<and> fid = NVME_FEAT_FDP then make_cq_entry_results eid NVME_SC_SUCCESS 1 0 v
     else if b_type b = SSD_TYPE_FDP \<and> fid = NVME_FEAT_FDP_EVENTS then do {
       p \<leftarrow> opt_prp b (adm_prp1 a m);
       (r, ds) \<leftarrow> fdp_get_feature_events (v_fdp v) (adm_dword11 a m)
           (map_option (\<lambda>p. event_descs p (length (events (v_fdp v))) m) p);
       let m1 = (case (p, ds) of (Some p', Some ds') \<Rightarrow> mem_write p' (concat (map (\<lambda>(x, y). [x, y]) ds')) m | _ \<Rightarrow> m);
       make_cq_entry_results eid NVME_SC_SUCCESS r 0 (v\<lparr>v_mem := m1\<rparr>)
     } else make_cq_entry_results eid NVME_SC_SUCCESS 0 0 v
   }"

section \<open>The queue\<close>

definition admin_async_event :: "nat \<Rightarrow> vdev \<Rightarrow> vdev option" where
  "admin_async_event eid v = make_cq_entry eid NVME_SC_SUCCESS v"

text \<open>An abort is accepted without a completion.\<close>

definition proc_admin_req :: "build \<Rightarrow> nat \<Rightarrow> vdev \<Rightarrow> vdev option" where
  "proc_admin_req b eid v = do {
     a \<leftarrow> admin_cmd eid v;
     let opcode = adm_opcode a (v_mem v);
     if opcode = nvme_admin_delete_sq then admin_delete_sq eid v
     else if opcode = nvme_admin_create_sq then admin_create_sq b eid v
     else if opcode = nvme_admin_get_log_page then admin_get_log_page b eid v
     else if opcode = nvme_admin_delete_cq then admin_delete_cq eid v
     else if opcode = nvme_admin_create_cq then admin_create_cq b eid v
     else if opcode = nvme_admin_identify then admin_identify b eid v
     else if opcode = nvme_admin_abort_cmd then Some v
     else if opcode = nvme_admin_set_features then admin_set_features b eid v
     else if opcode = nvme_admin_get_features then admin_get_features b eid v
     else if opcode = nvme_admin_async_event then admin_async_event eid v
     else make_cq_entry eid NVME_SC_INVALID_OPCODE v
   }"

definition nvmev_signal_irq :: "nat \<Rightarrow> vdev \<Rightarrow> vdev" where
  "nvmev_signal_irq msi_index v =
     (if v_msix_enabled v then v\<lparr>v_irqs := v_irqs v @ [MSI msi_index]\<rparr>
      else v\<lparr>v_sts_is := True, v_irqs := v_irqs v @ [INTX]\<rparr>)"

fun proc_admin_loop :: "build \<Rightarrow> nat \<Rightarrow> nat \<Rightarrow> nat \<Rightarrow> vdev \<Rightarrow> vdev option" where
  "proc_admin_loop b sq_depth 0 cur v = Some v"
| "proc_admin_loop b sq_depth (Suc n) cur v = do {
     v1 \<leftarrow> proc_admin_req b cur v;
     proc_admin_loop b sq_depth n (if cur + 1 = sq_depth then 0 else cur + 1) v1
   }"

definition nvmev_proc_admin_sq :: "build \<Rightarrow> nat \<Rightarrow> nat \<Rightarrow> vdev \<Rightarrow> vdev option" where
  "nvmev_proc_admin_sq b new_db old_db v = do {
     q \<leftarrow> v_admin_q v;
     let diff = int new_db - int old_db;
     let num_proc = nat (if diff < 0 then diff + int (aq_sq_depth q) else diff);
     v1 \<leftarrow> proc_admin_loop b (aq_sq_depth q) num_proc old_db v;
     Some (nvmev_signal_irq 0 v1)
   }"

definition nvmev_proc_admin_cq :: "nat \<Rightarrow> nat \<Rightarrow> vdev \<Rightarrow> vdev" where
  "nvmev_proc_admin_cq new_db old_db v = v"

end
