(* ===== verification/Ctrl.thy ===== *)
theory Ctrl
  imports Admin Fdp_Ftl Conv_Ftl Simple_Ftl Kv_Ftl
begin

text \<open>
  The dispatcher: the controller registers (\<open>nvmev_proc_bars\<close> of \<open>pci.c\<close>), the doorbells
  (\<open>nvmev_proc_dbs\<close> of \<open>main.c\<close>), and what the module does when it is loaded: the check of its
  parameters, the layout of the storage and the initialisation of the namespaces (\<open>main.c\<close>).

  The host changes the registers and the doorbells at any time; a call of these functions sees one
  state of them. The handlers of the I/O doorbells, modelled in \<open>Io_Worker\<close>, are arguments here, over a
  state of their own; \<open>Dispatch\<close> puts \<open>nvmev_proc_io_sq\<close> and \<open>nvmev_proc_io_cq\<close> in their place.
\<close>

section \<open>The device before the host has seen it\<close>

definition vdev_init :: "(nat \<Rightarrow> nat) \<Rightarrow> vdev_ns list \<Rightarrow> nat \<Rightarrow> fdp_ctx \<Rightarrow> bool \<Rightarrow> vdev" where
  "vdev_init mem ns mdts ctx msix = \<lparr>v_mem = mem, v_bar = \<lparr>r_cc = 0, r_rdy = 0, r_shst = 0, r_aqa = 0, r_asq = 0, r_acq = 0\<rparr>,
     v_old_bar = \<lparr>o_cc = 0, o_aqa = 0, o_asq = 0, o_acq = 0\<rparr>, v_dbs = replicate 1024 0, v_old_dbs = replicate 1024 0, v_admin_q = None,
     v_sqes = replicate (NR_MAX_IO_QUEUE + 1) None, v_cqes = replicate (NR_MAX_IO_QUEUE + 1) None, v_nr_sq = 0, v_nr_cq = 0,
     v_ns = ns, v_nr_ns = length ns, v_mdts = mdts, v_fdp = ctx, v_msix_enabled = msix, v_sts_is = False, v_irqs = []\<rparr>"

section \<open>Registers\<close>

definition aqa_asqs :: "nat \<Rightarrow> nat" where "aqa_asqs aqa = aqa mod 2 ^ 12"
definition aqa_acqs :: "nat \<Rightarrow> nat" where "aqa_acqs aqa = aqa div 2 ^ 16 mod 2 ^ 12"
definition cc_en :: "nat \<Rightarrow> nat" where "cc_en cc = cc mod 2"
definition cc_shn :: "nat \<Rightarrow> nat" where "cc_shn cc = cc div 2 ^ 14 mod 4"

definition no_queue :: nvmev_admin_queue where
  "no_queue = \<lparr>aq_phase = 0, aq_sq_depth = 0, aq_cq_depth = 0, aq_cq_head = 0, aq_nvme_sq = None, aq_nvme_cq = None\<rparr>"

text \<open>\<open>dbs[i] = old_dbs[i] = 0\<close>.\<close>

definition clear_db :: "nat \<Rightarrow> vdev \<Rightarrow> vdev option" where
  "clear_db i v = do {
     dbs \<leftarrow> wr (v_dbs v) i 0;
     old_dbs \<leftarrow> wr (v_old_dbs v) i 0;
     Some (v\<lparr>v_dbs := dbs, v_old_dbs := old_dbs\<rparr>)
   }"

text \<open>The pages of a queue that starts in the page of \<open>base\<close>.\<close>

definition admin_pages :: "build \<Rightarrow> nat \<Rightarrow> nat \<Rightarrow> nat list option" where
  "admin_pages b base num_pages = do {
     NVMEV_ASSERT (b_pfn_valid b (base div PAGE_SIZE));
     Some (map (\<lambda>i. (base div PAGE_SIZE + i) * PAGE_SIZE) [0..<num_pages])
   }"

definition proc_aqa :: "vdev \<Rightarrow> vdev option" where
  "proc_aqa v = do {
     let aqa = r_aqa (v_bar v);
     let q = (case v_admin_q v of None \<Rightarrow> no_queue | Some q \<Rightarrow> q);
     let q1 = q\<lparr>aq_cq_head := 0, aq_phase := 1, aq_sq_depth := aqa_asqs aqa + 1, aq_cq_depth := aqa_acqs aqa + 1\<rparr>;
     v1 \<leftarrow> clear_db 0 (v\<lparr>v_old_bar := (v_old_bar v)\<lparr>o_aqa := aqa\<rparr>, v_admin_q := Some q1\<rparr>);
     clear_db 1 v1
   }"

definition proc_asq :: "build \<Rightarrow> nvmev_admin_queue \<Rightarrow> vdev \<Rightarrow> vdev option" where
  "proc_asq b q v = do {
     let depth = aqa_asqs (r_aqa (v_bar v)) + 1;
     pages \<leftarrow> admin_pages b (r_asq (v_bar v)) (DIV_ROUND_UP (depth * sizeof_command) PAGE_SIZE);
     clear_db 0 (v\<lparr>v_old_bar := (v_old_bar v)\<lparr>o_asq := r_asq (v_bar v)\<rparr>,
       v_admin_q := Some (q\<lparr>aq_sq_depth := depth, aq_nvme_sq := Some pages\<rparr>)\<rparr>)
   }"

definition proc_acq :: "build \<Rightarrow> nvmev_admin_queue \<Rightarrow> vdev \<Rightarrow> vdev option" where
  "proc_acq b q v = do {
     let depth = aqa_acqs (r_aqa (v_bar v)) + 1;
     pages \<leftarrow> admin_pages b (r_acq (v_bar v)) (DIV_ROUND_UP (depth * sizeof_completion) PAGE_SIZE);
     clear_db 1 (v\<lparr>v_old_bar := (v_old_bar v)\<lparr>o_acq := r_acq (v_bar v)\<rparr>,
       v_admin_q := Some (q\<lparr>aq_cq_depth := depth, aq_nvme_cq := Some pages, aq_cq_head := 0, aq_phase := 1\<rparr>)\<rparr>)
   }"

definition proc_cc :: "vdev \<Rightarrow> vdev option" where
  "proc_cc v = do {
     let cc = r_cc (v_bar v);
     let v1 = (if cc_en cc = 1 then (if v_admin_q v \<noteq> None then v\<lparr>v_bar := (v_bar v)\<lparr>r_rdy := 1\<rparr>\<rparr> else v)
               else v\<lparr>v_bar := (v_bar v)\<lparr>r_rdy := 0\<rparr>\<rparr>);
     v2 \<leftarrow> (if cc_shn cc = 1 then do {
          v' \<leftarrow> clear_db 0 (v1\<lparr>v_bar := (v_bar v1)\<lparr>r_shst := 2\<rparr>\<rparr>);
          v'' \<leftarrow> clear_db 1 v';
          q \<leftarrow> v_admin_q v'';
          Some (v''\<lparr>v_admin_q := Some (q\<lparr>aq_cq_head := 0\<rparr>)\<rparr>)
        } else Some v1);
     Some (v2\<lparr>v_old_bar := (v_old_bar v2)\<lparr>o_cc := cc\<rparr>\<rparr>)
   }"

text \<open>
  One change is processed per call, in the order in which the registers depend on each other; a
  queue address that is seen before the queue attributes is left for a later call.
\<close>

definition nvmev_proc_bars :: "build \<Rightarrow> vdev \<Rightarrow> (bool \<times> vdev) option" where
  "nvmev_proc_bars b v =
     (let bar = v_bar v; old = v_old_bar v in
      if o_aqa old \<noteq> r_aqa bar then do { v' \<leftarrow> proc_aqa v; Some (True, v') }
      else if o_asq old \<noteq> r_asq bar then
        (case v_admin_q v of None \<Rightarrow> Some (True, v) | Some q \<Rightarrow> do { v' \<leftarrow> proc_asq b q v; Some (True, v') })
      else if o_acq old \<noteq> r_acq bar then
        (case v_admin_q v of None \<Rightarrow> Some (True, v) | Some q \<Rightarrow> do { v' \<leftarrow> proc_acq b q v; Some (True, v') })
      else if o_cc old \<noteq> r_cc bar then do { v' \<leftarrow> proc_cc v; Some (True, v') }
      else Some (False, v))"

section \<open>Doorbells\<close>

definition proc_admin_dbs :: "build \<Rightarrow> vdev \<Rightarrow> (bool \<times> vdev) option" where
  "proc_admin_dbs b v = do {
     n0 \<leftarrow> rd (v_dbs v) 0;
     o0 \<leftarrow> rd (v_old_dbs v) 0;
     (u0, v0) \<leftarrow> (if n0 \<noteq> o0 then do {
          v' \<leftarrow> nvmev_proc_admin_sq b n0 o0 v;
          old_dbs \<leftarrow> wr (v_old_dbs v') 0 n0;
          Some (True, v'\<lparr>v_old_dbs := old_dbs\<rparr>)
        } else Some (False, v));
     n1 \<leftarrow> rd (v_dbs v0) 1;
     o1 \<leftarrow> rd (v_old_dbs v0) 1;
     if n1 \<noteq> o1 then do {
       old_dbs \<leftarrow> wr (v_old_dbs v0) 1 n1;
       Some (True, (nvmev_proc_admin_cq n1 o1 v0)\<lparr>v_old_dbs := old_dbs\<rparr>)
     } else Some (u0, v0)
   }"

definition proc_sq_db ::
  "(nat \<Rightarrow> nat \<Rightarrow> nat \<Rightarrow> 's \<Rightarrow> (nat \<times> 's) option) \<Rightarrow> nat \<Rightarrow> bool \<times> vdev \<times> 's \<Rightarrow> (bool \<times> vdev \<times> 's) option" where
  "proc_sq_db proc_io_sq qid st = (case st of (u, v, s) \<Rightarrow> do {
     p \<leftarrow> rd (v_sqes v) qid;
     if p = None then Some (u, v, s)
     else do {
       n \<leftarrow> rd (v_dbs v) (qid * 2);
       o' \<leftarrow> rd (v_old_dbs v) (qid * 2);
       if n \<noteq> o' then do {
         (r, s') \<leftarrow> proc_io_sq qid n o' s;
         old_dbs \<leftarrow> wr (v_old_dbs v) (qid * 2) r;
         Some (True, v\<lparr>v_old_dbs := old_dbs\<rparr>, s')
       } else Some (u, v, s)
     }
   })"

definition proc_cq_db ::
  "(nat \<Rightarrow> nat \<Rightarrow> nat \<Rightarrow> 's \<Rightarrow> 's option) \<Rightarrow> nat \<Rightarrow> bool \<times> vdev \<times> 's \<Rightarrow> (bool \<times> vdev \<times> 's) option" where
  "proc_cq_db proc_io_cq qid st = (case st of (u, v, s) \<Rightarrow> do {
     p \<leftarrow> rd (v_cqes v) qid;
     if p = None then Some (u, v, s)
     else do {
       n \<leftarrow> rd (v_dbs v) (qid * 2 + 1);
       o' \<leftarrow> rd (v_old_dbs v) (qid * 2 + 1);
       if n \<noteq> o' then do {
         s' \<leftarrow> proc_io_cq qid n o' s;
         old_dbs \<leftarrow> wr (v_old_dbs v) (qid * 2 + 1) n;
         Some (True, v\<lparr>v_old_dbs := old_dbs\<rparr>, s')
       } else Some (u, v, s)
     }
   })"

definition nvmev_proc_dbs ::
  "build \<Rightarrow> (nat \<Rightarrow> nat \<Rightarrow> nat \<Rightarrow> 's \<Rightarrow> (nat \<times> 's) option) \<Rightarrow> (nat \<Rightarrow> nat \<Rightarrow> nat \<Rightarrow> 's \<Rightarrow> 's option) \<Rightarrow>
   vdev \<Rightarrow> 's \<Rightarrow> (bool \<times> vdev \<times> 's) option" where
  "nvmev_proc_dbs b proc_io_sq proc_io_cq v s = do {
     (u, v1) \<leftarrow> proc_admin_dbs b v;
     st \<leftarrow> foldM (proc_sq_db proc_io_sq) [1..<Suc (v_nr_sq v1)] (u, v1, s);
     foldM (proc_cq_db proc_io_cq) [1..<Suc (v_nr_cq v1)] st
   }"

text \<open>One iteration of the dispatcher's loop: whether anything was dispatched.\<close>

definition dispatcher_step ::
  "build \<Rightarrow> (nat \<Rightarrow> nat \<Rightarrow> nat \<Rightarrow> 's \<Rightarrow> (nat \<times> 's) option) \<Rightarrow> (nat \<Rightarrow> nat \<Rightarrow> nat \<Rightarrow> 's \<Rightarrow> 's option) \<Rightarrow>
   vdev \<Rightarrow> 's \<Rightarrow> (bool \<times> vdev \<times> 's) option" where
  "dispatcher_step b proc_io_sq proc_io_cq v s = do {
     (u1, v1) \<leftarrow> nvmev_proc_bars b v;
     (u2, v2, s2) \<leftarrow> nvmev_proc_dbs b proc_io_sq proc_io_cq v1 s;
     Some (u1 \<or> u2, v2, s2)
   }"

section \<open>Parameters of the module\<close>

record module_params =
  mp_memmap_start :: nat
  mp_memmap_size :: nat
  mp_times :: io_config
  mp_cpus :: "string option"

record nvmev_config =
  nc_memmap_start :: nat
  nc_memmap_size :: nat
  nc_storage_start :: nat
  nc_storage_size :: nat
  nc_cpu_nr_dispatcher :: nat
  nc_cpu_nr_io_workers :: "nat list"
  nc_io :: io_config

text \<open>
  The kernel's services: what the firmware's memory map says of a region (some of it is usable, some
  of it is reserved for the kernel, some of it is reserved), and the number a string begins with.
\<close>

record kernel =
  k_ram :: "nat \<Rightarrow> nat \<Rightarrow> bool"
  k_reserved_kern :: "(nat \<Rightarrow> nat \<Rightarrow> bool) option"
  k_reserved :: "nat \<Rightarrow> nat \<Rightarrow> bool"
  k_strtol :: "string \<Rightarrow> int"

definition EPERM :: int where "EPERM = 1"
definition EINVAL :: int where "EINVAL = 22"

definition validate_configs_arch :: "kernel \<Rightarrow> module_params \<Rightarrow> int" where
  "validate_configs_arch k p =
     (let s = mp_memmap_start p; e = u64_sub (u64 (s + mp_memmap_size p)) 1 in
      if k_ram k s e then - EPERM
      else if (case k_reserved_kern k of None \<Rightarrow> False | Some f \<Rightarrow> f s e) then - EPERM
      else if \<not> k_reserved k s e then - EPERM
      else 0)"

definition validate_configs :: "kernel \<Rightarrow> module_params \<Rightarrow> int" where
  "validate_configs k p =
     (let c = mp_times p in
      if mp_memmap_start p = 0 then - EINVAL
      else if mp_memmap_size p = 0 then - EINVAL
      else if mp_memmap_size p \<le> MB 1 then - EINVAL
      else if validate_configs_arch k p \<noteq> 0 then - EPERM
      else if cfg_nr_io_units c = 0 \<or> cfg_io_unit_shift c = 0 then - EINVAL
      else if cfg_read_time c = 0 then - EINVAL
      else if cfg_write_time c = 0 then - EINVAL
      else 0)"

text \<open>\<open>strsep\<close> with a comma: the parts of the string, of which there is at least one.\<close>

fun strsep_parts :: "string \<Rightarrow> string list" where
  "strsep_parts [] = [[]]"
| "strsep_parts (c # s) = (if c = CHR '','' then [] # strsep_parts s
     else case strsep_parts s of [] \<Rightarrow> [[c]] | t # ts \<Rightarrow> (c # t) # ts)"

definition cpu_numbers :: "kernel \<Rightarrow> string option \<Rightarrow> nat list" where
  "cpu_numbers k cpus = (case cpus of None \<Rightarrow> []
     | Some s \<Rightarrow> map (\<lambda>t. nat (k_strtol k t mod 4294967296)) (strsep_parts s))"

text \<open>The first number is the dispatcher's, the others the workers'; there is room for 32 workers.\<close>

definition load_configs :: "kernel \<Rightarrow> ssd_type \<Rightarrow> module_params \<Rightarrow> nvmev_config option option" where
  "load_configs k ty p =
     (if validate_configs k p < 0 then Some None
      else do {
        let size = (if ty = SSD_TYPE_KV then u64_sub (mp_memmap_size p) KV_MAPPING_TABLE_SIZE else mp_memmap_size p);
        let cpus = cpu_numbers k (mp_cpus p);
        NVMEV_ASSERT (length (tl cpus) \<le> 32);
        Some (Some \<lparr>nc_memmap_start = mp_memmap_start p, nc_memmap_size = size,
          nc_storage_start = u64 (mp_memmap_start p + MB 1), nc_storage_size = u64_sub size (MB 1),
          nc_cpu_nr_dispatcher = (case cpus of [] \<Rightarrow> 4294967295 | c # _ \<Rightarrow> c),
          nc_cpu_nr_io_workers = tl cpus, nc_io = mp_times p\<rparr>)
      })"

section \<open>Namespaces\<close>

datatype any_ns = Simple simple_ns | Conventional conv_ns conv_env | Zoned zns_ns zns_env | KeyValue simple_ns kv_ftl | Fdp fdp_ns fdp_env

text \<open>
  The memory of unspecified content that the initialisations get, and the storage behind the zoned
  namespace, besides the configuration of the build.
\<close>

record init_args =
  ia_config :: ssd_config
  ia_slots :: "nat list"
  ia_junk :: "nat \<Rightarrow> nat"
  ia_storage :: "nat \<Rightarrow> nat"
  ia_handle :: "kv_iter_context option"
  ia_ctx :: fdp_ctx

definition init_namespace :: "init_args \<Rightarrow> ssd_type \<Rightarrow> nat \<Rightarrow> nat \<Rightarrow> nat \<Rightarrow> nat \<Rightarrow> any_ns option" where
  "init_namespace ia ty i n storage_size disp_no =
     (case ty of
        SSD_TYPE_NVM \<Rightarrow> Some (Simple (simple_init_namespace i n))
      | SSD_TYPE_CONV \<Rightarrow> do { (ns, e) \<leftarrow> conv_init_namespace (ia_slots ia) (ia_config ia) i n disp_no; Some (Conventional ns e) }
      | SSD_TYPE_ZNS \<Rightarrow> do { (ns, e) \<leftarrow> zns_init_namespace (ia_junk ia) (ia_config ia) i n (ia_storage ia) disp_no; Some (Zoned ns e) }
      | SSD_TYPE_KV \<Rightarrow> Some (case kv_init_namespace i n storage_size (ia_handle ia) of (ns, kv) \<Rightarrow> KeyValue ns kv)
      | SSD_TYPE_FDP \<Rightarrow> do { (ns, e) \<leftarrow> fdp_init_namespace (ia_slots ia) (ia_config ia) i n disp_no (ia_ctx ia); Some (Fdp ns e) })"

text \<open>The namespaces in order: where each begins, the bytes it was given, and its state.\<close>

fun init_namespaces :: "init_args \<Rightarrow> ssd_type \<Rightarrow> nat \<Rightarrow> nat \<Rightarrow> nat \<Rightarrow> nat list \<Rightarrow> nat \<Rightarrow> nat \<Rightarrow> (nat \<times> nat \<times> any_ns) list option" where
  "init_namespaces ia ty storage_size disp_no i [] addr remaining = Some []"
| "init_namespaces ia ty storage_size disp_no i (c # cs) addr remaining = do {
     let n = (if c = 0 then remaining else min c remaining);
     ns \<leftarrow> init_namespace ia ty i n storage_size disp_no;
     rest \<leftarrow> init_namespaces ia ty storage_size disp_no (i + 1) cs (addr + n) (remaining - n);
     Some ((addr, n, ns) # rest)
   }"

definition NVMEV_NAMESPACE_INIT :: "init_args \<Rightarrow> ssd_type \<Rightarrow> nat list \<Rightarrow> nat \<Rightarrow> nvmev_config \<Rightarrow> (nat \<times> nat \<times> any_ns) list option" where
  "NVMEV_NAMESPACE_INIT ia ty capacities mapped cfg =
     init_namespaces ia ty (nc_storage_size cfg) (nc_cpu_nr_dispatcher cfg) 0 capacities mapped (nc_storage_size cfg)"

end
