(* ===== verification/Admin_Inv.thy ===== *)
theory Admin_Inv
  imports Ctrl
begin

text \<open>
  The admin queue as a device: which commands the host may send, that each is answered, and what its
  completion says.
\<close>

section \<open>Structures in pages\<close>

lemma put_bytes_total: "off + length bs \<le> length page \<Longrightarrow> \<exists>page'. put_bytes off bs page = Some page' \<and> length page' = length page"
  using put_bytes_in by blast

lemma put_fields_total:
  "\<forall>(off, bs)\<in>set fs. off + length bs \<le> length page \<Longrightarrow> \<exists>page'. put_fields fs page = Some page' \<and> length page' = length page"
proof (induction fs arbitrary: page)
  case (Cons f fs)
  obtain off bs where f: "f = (off, bs)" by (cases f)
  from Cons.prems have "off + length bs \<le> length page" by (auto simp: f)
  from put_bytes_total [OF this] obtain p1 where p1: "put_bytes off bs page = Some p1" "length p1 = length page" by blast
  from Cons.IH [of p1] Cons.prems p1(2) obtain p2 where "put_fields fs p1 = Some p2" "length p2 = length page" by auto
  then show ?case using p1 by (auto simp: put_fields_def f)
qed (simp add: put_fields_def)

text \<open>A field that no later one touches reads back what was stored.\<close>

lemma get_put_same: "put_bytes off bs page = Some page' \<Longrightarrow> get_bytes off (length bs) page' = bs"
  by (auto simp: put_bytes_def get_bytes_def split: if_splits)

lemma get_put_other:
  assumes "put_bytes off bs page = Some page'" "o' + n \<le> off \<or> off + length bs \<le> o'"
  shows "get_bytes o' n page' = get_bytes o' n page"
proof -
  have l: "off + length bs \<le> length page" and p: "page' = take off page @ bs @ drop (off + length bs) page"
    using assms(1) by (auto simp: put_bytes_def split: if_splits)
  have len: "length page' = length page" using l by (simp add: p)
  have "page' ! k = page ! k" if "k < off \<or> off + length bs \<le> k" "k < length page" for k
    using that l by (auto simp: p nth_append min_def)
  then have "page' ! (o' + k) = page ! (o' + k)" if "k < n" "o' + k < length page" for k
    using that assms(2) by (metis add_leD1 le_add1 less_le_trans nat_add_left_cancel_less order_trans)
  then show ?thesis by (intro nth_equalityI) (auto simp: get_bytes_def len)
qed

lemma get_put_fields_other:
  assumes "put_fields fs page = Some page'" "\<forall>(off, bs)\<in>set fs. o' + n \<le> off \<or> off + length bs \<le> o'"
  shows "get_bytes o' n page' = get_bytes o' n page"
  using assms
proof (induction fs arbitrary: page)
  case (Cons f fs)
  obtain off bs where f: "f = (off, bs)" by (cases f)
  from Cons.prems(1) obtain p1 where p1: "put_bytes off bs page = Some p1" "put_fields fs p1 = Some page'"
    by (auto simp: put_fields_def f split: Option.bind_splits)
  from Cons.IH [OF p1(2)] Cons.prems(2) have "get_bytes o' n page' = get_bytes o' n p1" by auto
  also have "... = get_bytes o' n page" by (rule get_put_other [OF p1(1)]) (use Cons.prems(2) f in auto)
  finally show ?case .
qed (simp add: put_fields_def)

lemma get_put_field:
  assumes "put_fields (as @ (off, bs) # cs) page = Some page'" "\<forall>(o', bs')\<in>set cs. off + length bs \<le> o' \<or> o' + length bs' \<le> off"
  shows "get_bytes off (length bs) page' = bs"
proof -
  have "put_fields (as @ (off, bs) # cs) page = put_fields as page \<bind> (\<lambda>p. put_bytes off bs p \<bind> put_fields cs)"
    by (cases "put_fields as page") (auto simp: put_fields_def [abs_def] foldM_append)
  with assms(1) obtain p1 p2 where p: "put_bytes off bs p1 = Some p2" "put_fields cs p2 = Some page'"
    by (auto split: Option.bind_splits)
  have "get_bytes off (length bs) page' = get_bytes off (length bs) p2" by (rule get_put_fields_other [OF p(2) assms(2)])
  then show ?thesis using get_put_same [OF p(1)] by simp
qed

section \<open>The queue\<close>

definition aq_ok :: "nvmev_admin_queue \<Rightarrow> bool" where
  "aq_ok q \<longleftrightarrow> aq_cq_head q < aq_cq_depth q \<and> aq_phase q \<le> 1 \<and>
     (\<exists>sp. aq_nvme_sq q = Some sp \<and> aq_sq_depth q \<le> 64 * length sp) \<and> (\<exists>cp. aq_nvme_cq q = Some cp \<and> aq_cq_depth q \<le> 256 * length cp)"

lemma sq_entry_total: "aq_ok q \<Longrightarrow> eid < aq_sq_depth q \<Longrightarrow> \<exists>a. sq_entry q eid = Some a"
  by (auto simp: aq_ok_def sq_entry_def PAGE_SIZE_def sizeof_command_def Let_def less_mult_imp_div_less mult.commute)

lemma cq_entry_total: "aq_ok q \<Longrightarrow> \<exists>c. cq_entry q (aq_cq_head q) = Some c"
  by (auto simp: aq_ok_def cq_entry_def PAGE_SIZE_def sizeof_completion_def Let_def less_mult_imp_div_less mult.commute)

text \<open>The queue after one more completion.\<close>

definition posted :: "nvmev_admin_queue \<Rightarrow> nvmev_admin_queue" where
  "posted q = (if aq_cq_head q + 1 = aq_cq_depth q then q\<lparr>aq_cq_head := 0, aq_phase := (if aq_phase q = 0 then 1 else 0)\<rparr>
     else q\<lparr>aq_cq_head := aq_cq_head q + 1\<rparr>)"

lemma posted_ok: "aq_ok q \<Longrightarrow> aq_ok (posted q)"
  by (auto simp: aq_ok_def posted_def)

lemma posted_sel [simp]: "aq_nvme_sq (posted q) = aq_nvme_sq q" "aq_nvme_cq (posted q) = aq_nvme_cq q" "aq_sq_depth (posted q) = aq_sq_depth q"
  "aq_cq_depth (posted q) = aq_cq_depth q"
  by (simp_all add: posted_def)

definition completion :: "nat \<Rightarrow> nat \<Rightarrow> nat \<Rightarrow> nat \<Rightarrow> nvmev_admin_queue \<Rightarrow> nat \<Rightarrow> nvme_completion" where
  "completion eid cid ret result0 q result1 = \<lparr>cqe_result0 = u32 result0, cqe_result1 = u32 result1, cqe_sq_head = u16 eid, cqe_sq_id = 0,
     cqe_command_id = cid, cqe_status = u16 (Bit_Operations.or (aq_phase q) (u16 ret * 2))\<rparr>"

lemma make_cq_entry_eq:
  assumes "v_admin_q v = Some q" "sq_entry q eid = Some a" "cq_entry q (aq_cq_head q) = Some c"
  shows "make_cq_entry_results eid ret r0 r1 v = Some (v\<lparr>v_mem := mem_write c (encode_completion (completion eid (adm_command_id a (v_mem v)) ret r0 q r1)) (v_mem v),
     v_admin_q := Some (posted q)\<rparr>)"
  using assms by (simp add: make_cq_entry_results_def completion_def posted_def Let_def)

section \<open>The FDP log pages\<close>

lemma put_fields_chain: "put_fields (f # fs) page = put_bytes (fst f) (snd f) page \<bind> put_fields fs"
  by (cases f) (simp add: put_fields_def [abs_def])

lemma put_fields_Nil: "put_fields [] = Some"
  by (simp add: fun_eq_iff put_fields_def)

lemma fill_total:
  assumes "ctx_ok ctx" "length log = PAGE_SIZE"
  shows "\<exists>log'. fill_fdp_log_configs ctx log = Some log' \<and> length log' = PAGE_SIZE"
    "\<exists>log'. fill_fdp_log_stats ctx log = Some log' \<and> length log' = PAGE_SIZE"
proof -
  let ?d = "u16 (sizeof_config_desc + FDP_NR_RUH * sizeof_ruh_desc)"
  let ?fs = "[(0, le_bytes 2 0), (2, [0]), (4, le_bytes 4 (sizeof_config_log + ?d)), (sizeof_config_log, le_bytes 2 ?d),
     (sizeof_config_log + 2, [NVME_FDP_CONFIG_FDPA_VALID]), (sizeof_config_log + 3, [0]), (sizeof_config_log + 4, le_bytes 4 FDP_NR_RG),
     (sizeof_config_log + 8, le_bytes 2 FDP_NR_RUH), (sizeof_config_log + 10, le_bytes 2 (FDP_NR_RUH - 1)),
     (sizeof_config_log + 12, le_bytes 4 NR_NAMESPACES), (sizeof_config_log + 16, le_bytes 8 (runs ctx)), (sizeof_config_log + 24, le_bytes 4 0)]"
  let ?g = "\<lambda>i. put_bytes (sizeof_config_log + sizeof_config_desc + i * sizeof_ruh_desc) [NVME_FDP_RUHT_INITIALLY_ISOLATED]"
  have e: "fill_fdp_log_configs ctx log = put_fields ?fs log \<bind> foldM ?g [0..<FDP_NR_RUH]"
    unfolding fill_fdp_log_configs_def Let_def put_fields_chain fst_conv snd_conv bind_assoc by (simp add: put_fields_def)
  have "\<forall>(off, bs)\<in>set ?fs. off + length bs \<le> length log" using assms(2) by (simp add: fdp_sizes PAGE_SIZE_def)
  from put_fields_total [OF this] obtain l1 where l1: "put_fields ?fs log = Some l1" "length l1 = PAGE_SIZE" using assms(2) by auto
  have "\<exists>l2. foldM ?g [0..<FDP_NR_RUH] l1 = Some l2 \<and> length l2 = PAGE_SIZE"
  proof (rule foldM_upt_total [where P = "\<lambda>_ l. length l = PAGE_SIZE"])
    fix i :: nat and l :: "nat list" assume "i < FDP_NR_RUH" "length l = PAGE_SIZE"
    then have "sizeof_config_log + sizeof_config_desc + i * sizeof_ruh_desc + length [NVME_FDP_RUHT_INITIALLY_ISOLATED] \<le> length l"
      by (simp add: fdp_sizes PAGE_SIZE_def FDP_NR_RUH_def)
    from put_bytes_total [OF this] \<open>length l = PAGE_SIZE\<close> show "\<exists>l'. ?g i l = Some l' \<and> length l' = PAGE_SIZE" by simp
  qed (use l1(2) in simp_all)
  then show "\<exists>log'. fill_fdp_log_configs ctx log = Some log' \<and> length log' = PAGE_SIZE" using e l1 by simp
  let ?ss = "[(0, le_bytes 8 (hbmw ctx)), (16, le_bytes 8 (mbmw ctx)), (32, le_bytes 8 (mbe ctx))]"
  have "\<forall>(off, bs)\<in>set ?ss. off + length bs \<le> length log" using assms(2) by (simp add: PAGE_SIZE_def)
  moreover have "fill_fdp_log_stats ctx log = put_fields ?ss log"
    unfolding fill_fdp_log_stats_def put_fields_chain put_fields_Nil by simp
  ultimately show "\<exists>log'. fill_fdp_log_stats ctx log = Some log' \<and> length log' = PAGE_SIZE"
    using put_fields_total [of ?ss log] assms(2) by simp
qed

lemma fdp_log_total:
  assumes "ctx_ok ctx" "lid \<in> {NVME_LOG_FDP_CONFIGS, NVME_LOG_FDP_RUH_USAGE, NVME_LOG_FDP_STATS, NVME_LOG_FDP_EVENTS}"
  shows "\<exists>bs. fdp_get_log_page ctx lid len = Some bs \<and> length bs \<le> min len PAGE_SIZE"
proof -
  have "\<exists>page. fdp_get_log_page ctx lid PAGE_SIZE = Some page"
    using assms(2) events_log_page [OF assms(1)] ruh_usage_log_page [OF assms(1)] fill_total [OF assms(1) length_replicate [of PAGE_SIZE 0]]
    by (auto simp: fdp_get_log_page_def fdp_log_ids)
  then obtain log where "(if lid = NVME_LOG_FDP_CONFIGS then fill_fdp_log_configs ctx (replicate PAGE_SIZE 0)
             else if lid = NVME_LOG_FDP_RUH_USAGE then fill_fdp_log_ruh_usage ctx (replicate PAGE_SIZE 0)
             else if lid = NVME_LOG_FDP_STATS then fill_fdp_log_stats ctx (replicate PAGE_SIZE 0)
             else if lid = NVME_LOG_FDP_EVENTS then fill_fdp_log_events ctx (replicate PAGE_SIZE 0) else None) = Some log"
    unfolding fdp_get_log_page_def Let_def by (blast dest: bind_eq_SomeD)
  then show ?thesis unfolding fdp_get_log_page_def Let_def by (simp only: bind.bind_lunit) (simp add: min.coboundedI2)
qed

section \<open>The device\<close>

definition vdev_inv :: "build \<Rightarrow> vdev \<Rightarrow> bool" where
  "vdev_inv b v \<longleftrightarrow> (\<exists>q. v_admin_q v = Some q \<and> aq_ok q) \<and> length (v_dbs v) = 1024 \<and> length (v_old_dbs v) = 1024 \<and>
     length (v_sqes v) = Suc NR_MAX_IO_QUEUE \<and> length (v_cqes v) = Suc NR_MAX_IO_QUEUE \<and> v_nr_sq v \<le> NR_MAX_IO_QUEUE \<and> v_nr_cq v \<le> NR_MAX_IO_QUEUE \<and>
     ctx_ok (v_fdp v) \<and> length (events (v_fdp v)) = 3 \<and> v_nr_ns v = length (v_ns v) \<and> length (v_ns v) \<le> 2 \<and> (b_type b = SSD_TYPE_ZNS \<longrightarrow> (\<forall>ns\<in>set (v_ns v). vn_csi ns = NVME_CSI_ZNS))"

text \<open>What an admin command leaves alone.\<close>

definition aq_shape :: "nvmev_admin_queue \<Rightarrow> nat list option \<times> nat list option \<times> nat \<times> nat" where
  "aq_shape q = (aq_nvme_sq q, aq_nvme_cq q, aq_sq_depth q, aq_cq_depth q)"

definition vdev_kept :: "vdev \<Rightarrow> vdev \<Rightarrow> bool" where
  "vdev_kept v v' \<longleftrightarrow> v_bar v' = v_bar v \<and> v_old_bar v' = v_old_bar v \<and> v_ns v' = v_ns v \<and> v_nr_ns v' = v_nr_ns v \<and> v_mdts v' = v_mdts v \<and>
     v_irqs v' = v_irqs v \<and> map_option aq_shape (v_admin_q v') = map_option aq_shape (v_admin_q v)"

text \<open>
  How many bytes from its first page address a command stores, and what it may be about: the length of a log page, which
  the FDP logs bound by a page; the page of an Identify structure, two pages for the list of the
  namespaces, one byte for the controller's zoned data; the three descriptors of the FDP event feature.
  No other command stores anything.
\<close>

definition log_len :: "nat \<Rightarrow> (nat \<Rightarrow> nat) \<Rightarrow> nat" where
  "log_len a m = u32 ((adm_numdu a m * 2 ^ 16 + adm_numdl a m + 1) * 4)"

definition fdp_log :: "build \<Rightarrow> nat \<Rightarrow> bool" where
  "fdp_log b lid \<longleftrightarrow> b_type b = SSD_TYPE_FDP \<and> lid \<in> {NVME_LOG_FDP_CONFIGS, NVME_LOG_FDP_RUH_USAGE, NVME_LOG_FDP_STATS, NVME_LOG_FDP_EVENTS}"

definition data_len :: "build \<Rightarrow> nat \<Rightarrow> (nat \<Rightarrow> nat) \<Rightarrow> nat" where
  "data_len b a m = (let op = adm_opcode a m; cns = adm_cns a m in
     if op = nvme_admin_get_log_page then (if fdp_log b (adm_lid a m) then min (log_len a m) PAGE_SIZE else log_len a m)
     else if op = nvme_admin_identify then
       (if cns \<in> {0, 1, 3} \<or> cns = 5 \<and> b_type b = SSD_TYPE_ZNS then PAGE_SIZE else if cns = 2 then PAGE_SIZE * 2 else if cns = 6 then 1 else 0)
     else if op = nvme_admin_get_features \<and> b_type b = SSD_TYPE_FDP \<and> adm_fid a m = NVME_FEAT_FDP_EVENTS \<and> adm_prp1 a m \<noteq> 0 then 6
     else 0)"

definition page_ok :: "build \<Rightarrow> nat \<Rightarrow> (nat \<Rightarrow> nat) \<Rightarrow> bool" where
  "page_ok b a m = b_pfn_valid b (adm_prp1 a m div PAGE_SIZE)"

definition admin_host :: "build \<Rightarrow> nat \<Rightarrow> vdev \<Rightarrow> bool" where
  "admin_host b a v = (let m = v_mem v; op = adm_opcode a m; cns = adm_cns a m in
     (op \<in> {nvme_admin_create_sq, nvme_admin_delete_sq, nvme_admin_create_cq, nvme_admin_delete_cq} \<longrightarrow> adm_qid a m \<le> NR_MAX_IO_QUEUE) \<and>
     (op = nvme_admin_get_log_page \<longrightarrow> page_ok b a m \<and> (adm_lid a m = NVME_LOG_SMART \<longrightarrow> log_len a m \<le> 512) \<and>
        (adm_lid a m = NVME_LOG_CMD_EFFECTS \<longrightarrow> log_len a m \<le> PAGE_SIZE)) \<and>
     (op = nvme_admin_identify \<longrightarrow> page_ok b a m \<and> (cns \<in> {0, 3, 5} \<longrightarrow> 1 \<le> adm_nsid a m \<and> adm_nsid a m \<le> length (v_ns v))) \<and>
     (op \<in> {nvme_admin_set_features, nvme_admin_get_features} \<longrightarrow> adm_prp1 a m = 0 \<or> page_ok b a m))"

text \<open>The device before the completion is posted: only the data area of the command has changed in memory.\<close>

definition worked :: "build \<Rightarrow> nat \<Rightarrow> vdev \<Rightarrow> vdev \<Rightarrow> bool" where
  "worked b a v v1 \<longleftrightarrow> vdev_inv b v1 \<and> v_admin_q v1 = v_admin_q v \<and> v_bar v1 = v_bar v \<and> v_old_bar v1 = v_old_bar v \<and> v_ns v1 = v_ns v \<and>
     v_mdts v1 = v_mdts v \<and> v_irqs v1 = v_irqs v \<and>
     (\<forall>x. x < adm_prp1 a (v_mem v) \<or> adm_prp1 a (v_mem v) + data_len b a (v_mem v) \<le> x \<longrightarrow> v_mem v1 x = v_mem v x)"

lemma worked_refl: "vdev_inv b v \<Longrightarrow> worked b a v v"
  by (simp add: worked_def)

lemma worked_mem:
  "vdev_inv b v \<Longrightarrow> length bs \<le> data_len b a (v_mem v) \<Longrightarrow> worked b a v (v\<lparr>v_mem := mem_write (adm_prp1 a (v_mem v)) bs (v_mem v)\<rparr>)"
  by (auto simp: worked_def vdev_inv_def mem_write_def)

section \<open>Each command is answered\<close>

definition answers :: "build \<Rightarrow> nat \<Rightarrow> nat \<Rightarrow> vdev \<Rightarrow> nat \<Rightarrow> nat \<Rightarrow> vdev option \<Rightarrow> bool" where
  "answers b a eid v sc r0 res \<longleftrightarrow> (\<exists>v1. worked b a v v1 \<and> res = make_cq_entry_results eid sc r0 0 v1)"

lemma answersI: "worked b a v v1 \<Longrightarrow> answers b a eid v sc r0 (make_cq_entry_results eid sc r0 0 v1)"
  by (auto simp: answers_def)

lemma answers_mem:
  assumes "vdev_inv b v" "length bs \<le> data_len b a (v_mem v)"
  shows "answers b a eid v sc 0 (make_cq_entry eid sc (v\<lparr>v_mem := mem_write (adm_prp1 a (v_mem v)) bs (v_mem v)\<rparr>))"
  unfolding make_cq_entry_def by (rule answersI [OF worked_mem [OF assms]])

lemma queue_answers:
  assumes "vdev_inv b v" "admin_cmd eid v = Some a" "adm_qid a (v_mem v) \<le> NR_MAX_IO_QUEUE"
  shows "answers b a eid v NVME_SC_SUCCESS 0 (admin_create_cq b eid v)" "answers b a eid v NVME_SC_SUCCESS 0 (admin_create_sq b eid v)"
    "answers b a eid v NVME_SC_SUCCESS 0 (admin_delete_cq eid v)" "answers b a eid v NVME_SC_SUCCESS 0 (admin_delete_sq eid v)"
proof -
  have q: "adm_qid a (v_mem v) < Suc NR_MAX_IO_QUEUE" "adm_qid a (v_mem v) * 2 + 1 < 1024" "adm_qid a (v_mem v) * 2 < 1024"
    using assms(3) by (simp_all add: NR_MAX_IO_QUEUE_def)
  note l = assms(1) [unfolded vdev_inv_def]
  show "answers b a eid v NVME_SC_SUCCESS 0 (admin_create_cq b eid v)" "answers b a eid v NVME_SC_SUCCESS 0 (admin_create_sq b eid v)"
    "answers b a eid v NVME_SC_SUCCESS 0 (admin_delete_cq eid v)" "answers b a eid v NVME_SC_SUCCESS 0 (admin_delete_sq eid v)"
    unfolding admin_create_cq_def admin_create_sq_def admin_delete_cq_def admin_delete_sq_def make_cq_entry_def Let_def
    using q l assms(2) by (auto simp: worked_def vdev_inv_def intro!: answersI)
qed

lemma effects_length: "length (effects_log b) = PAGE_SIZE"
proof -
  have "length (concat (map (le_bytes 4) xs)) = 4 * length xs" for xs by (induction xs) simp_all
  then show ?thesis by (simp add: effects_log_def Let_def PAGE_SIZE_def)
qed

lemma log_page_answers:
  assumes "vdev_inv b v" "admin_cmd eid v = Some a" "page_ok b a (v_mem v)" "adm_opcode a (v_mem v) = nvme_admin_get_log_page"
    "adm_lid a (v_mem v) = NVME_LOG_SMART \<Longrightarrow> log_len a (v_mem v) \<le> 512" "adm_lid a (v_mem v) = NVME_LOG_CMD_EFFECTS \<Longrightarrow> log_len a (v_mem v) \<le> PAGE_SIZE"
  shows "answers b a eid v NVME_SC_SUCCESS 0 (admin_get_log_page b eid v)"
proof -
  let ?n = "log_len a (v_mem v)" and ?lid = "adm_lid a (v_mem v)"
  have ctx: "ctx_ok (v_fdp v)" using assms(1) by (simp add: vdev_inv_def)
  have "\<exists>bs. (if ?lid = NVME_LOG_SMART then do { NVMEV_ASSERT (?n \<le> length smart_log); Some (take ?n smart_log) }
           else if ?lid = NVME_LOG_CMD_EFFECTS then do { NVMEV_ASSERT (?n \<le> length (effects_log b)); Some (take ?n (effects_log b)) }
           else if b_type b = SSD_TYPE_FDP \<and> (?lid = NVME_LOG_FDP_CONFIGS \<or> ?lid = NVME_LOG_FDP_RUH_USAGE \<or>
               ?lid = NVME_LOG_FDP_STATS \<or> ?lid = NVME_LOG_FDP_EVENTS)
           then fdp_get_log_page (v_fdp v) ?lid ?n
           else Some (replicate ?n 0)) = Some bs \<and> length bs \<le> (if fdp_log b ?lid then min ?n PAGE_SIZE else ?n)"
    using assms(5,6) fdp_log_total [OF ctx, of ?lid ?n] by (auto simp: smart_log_def effects_length fdp_log_def fdp_log_ids admin_consts)
  then obtain bs where bs: "(if ?lid = NVME_LOG_SMART then do { NVMEV_ASSERT (?n \<le> length smart_log); Some (take ?n smart_log) }
           else if ?lid = NVME_LOG_CMD_EFFECTS then do { NVMEV_ASSERT (?n \<le> length (effects_log b)); Some (take ?n (effects_log b)) }
           else if b_type b = SSD_TYPE_FDP \<and> (?lid = NVME_LOG_FDP_CONFIGS \<or> ?lid = NVME_LOG_FDP_RUH_USAGE \<or>
               ?lid = NVME_LOG_FDP_STATS \<or> ?lid = NVME_LOG_FDP_EVENTS)
           then fdp_get_log_page (v_fdp v) ?lid ?n
           else Some (replicate ?n 0)) = Some bs" "length bs \<le> (if fdp_log b ?lid then min ?n PAGE_SIZE else ?n)" by blast
  have "admin_get_log_page b eid v = make_cq_entry eid NVME_SC_SUCCESS (v\<lparr>v_mem := mem_write (adm_prp1 a (v_mem v)) bs (v_mem v)\<rparr>)"
    using assms(2,3) bs(1) unfolding admin_get_log_page_def Let_def log_len_def [symmetric] by (simp add: prp_address_def page_ok_def)
  moreover have "length bs \<le> data_len b a (v_mem v)" using bs(2) assms(4) by (simp add: data_len_def Let_def)
  ultimately show ?thesis using answers_mem [OF assms(1)] by simp
qed

text \<open>A structure of fields that fit the page.\<close>

lemma fields_answers:
  assumes "vdev_inv b v" "\<forall>(off, bs)\<in>set fs. off + length bs \<le> PAGE_SIZE" "data_len b a (v_mem v) = PAGE_SIZE"
  shows "answers b a eid v sc 0 (put_fields fs (replicate PAGE_SIZE 0) \<bind>
     (\<lambda>page. make_cq_entry eid sc (v\<lparr>v_mem := mem_write (adm_prp1 a (v_mem v)) page (v_mem v)\<rparr>)))"
proof -
  obtain page where p: "put_fields fs (replicate PAGE_SIZE 0) = Some page" "length page = PAGE_SIZE"
    using put_fields_total [of fs "replicate PAGE_SIZE 0"] assms(2) by auto
  then show ?thesis using answers_mem [OF assms(1), of page a eid sc] assms(3) by simp
qed

lemma id_ns_fields_ok:
  "\<exists>fs. id_ns_fields b n = Some fs \<and> (\<forall>(off, bs)\<in>set fs. off + length bs \<le> PAGE_SIZE)"
  by (auto simp: id_ns_fields_def LBA_BITS_def lbafs_def encode_lbaf_def PAGE_SIZE_def Let_def)

lemma id_zns_fields_ok: "\<forall>(off, bs)\<in>set (id_zns_fields zp). off + length bs \<le> PAGE_SIZE"
  by (auto simp: id_zns_fields_def PAGE_SIZE_def)

lemma id_ctrl_fields_ok: "\<forall>(off, bs)\<in>set (id_ctrl_fields b v). off + length bs \<le> PAGE_SIZE"
  by (auto simp: id_ctrl_fields_def c_string_def PAGE_SIZE_def)

lemma namespaces_length:
  assumes "n \<le> 2" shows "length (concat (map (le_bytes 4) (filter P [1..<Suc n]))) \<le> PAGE_SIZE * 2"
proof -
  have l: "length (concat (map (le_bytes 4) xs)) = 4 * length xs" for xs by (induction xs) simp_all
  have "length (filter P [1..<Suc n]) \<le> n" using length_filter_le [of P "[1..<Suc n]"] by (simp del: upt_Suc)
  then show ?thesis using assms by (simp add: l PAGE_SIZE_def del: upt_Suc)
qed

lemma worked_mem2:
  assumes "vdev_inv b v" "length bs \<le> data_len b a (v_mem v)" "length cs \<le> data_len b a (v_mem v)"
  shows "worked b a v (v\<lparr>v_mem := mem_write (adm_prp1 a (v_mem v)) cs (mem_write (adm_prp1 a (v_mem v)) bs (v_mem v))\<rparr>)"
  using assms by (auto simp: worked_def vdev_inv_def mem_write_def)

lemma identify_answers:
  assumes v: "vdev_inv b v" and c: "admin_cmd eid v = Some a" and h: "admin_host b a v" and op: "adm_opcode a (v_mem v) = nvme_admin_identify"
  shows "answers b a eid v (if adm_cns a (v_mem v) \<in> {0, 1, 2, 3, 5, 6} then NVME_SC_SUCCESS else NVME_SC_INVALID_OPCODE) 0 (admin_identify b eid v)"
proof -
  have p: "prp_address b (adm_prp1 a (v_mem v)) = Some (adm_prp1 a (v_mem v))" using h op by (simp add: admin_host_def prp_address_def page_ok_def Let_def)
  have dl: "data_len b a (v_mem v) = (if adm_cns a (v_mem v) \<in> {0, 1, 3} \<or> adm_cns a (v_mem v) = 5 \<and> b_type b = SSD_TYPE_ZNS then PAGE_SIZE
      else if adm_cns a (v_mem v) = 2 then PAGE_SIZE * 2 else if adm_cns a (v_mem v) = 6 then 1 else 0)"
    using op by (simp add: data_len_def admin_opcodes Let_def)
  have ns: "u32_sub (adm_nsid a (v_mem v)) 1 < length (v_ns v)" if "adm_cns a (v_mem v) \<in> {0, 3, 5}"
  proof -
    have n: "1 \<le> adm_nsid a (v_mem v)" "adm_nsid a (v_mem v) \<le> length (v_ns v)" "length (v_ns v) \<le> 2"
      using h op that v unfolding admin_host_def vdev_inv_def Let_def by blast+
    then have "u32_sub (adm_nsid a (v_mem v)) 1 = adm_nsid a (v_mem v) - 1" by (intro u32_sub_id) auto
    then show ?thesis using n by simp
  qed
  let ?c = "adm_cns a (v_mem v)"
  consider "?c = 0" | "?c = 1" | "?c = 2" | "?c = 3" | "?c = 5" | "?c = 6" | "?c \<notin> {0, 1, 2, 3, 5, 6}" by auto
  then show ?thesis
  proof cases
    case 1
    obtain fs where fs: "id_ns_fields b (vn_size (v_ns v ! u32_sub (adm_nsid a (v_mem v)) 1)) = Some fs" "\<forall>(off, bs)\<in>set fs. off + length bs \<le> PAGE_SIZE"
      using id_ns_fields_ok by blast
    then show ?thesis using fields_answers [OF v fs(2)] c p ns dl 1 by (simp add: admin_identify_def admin_identify_namespace_def)
  next
    case 2
    then show ?thesis using fields_answers [OF v id_ctrl_fields_ok] c p dl by (simp add: admin_identify_def admin_identify_ctrl_def)
  next
    case 3
    have "v_nr_ns v \<le> 2" using v by (simp add: vdev_inv_def)
    have d2: "data_len b a (v_mem v) = PAGE_SIZE * 2" using dl 3 by simp
    from worked_mem2 [OF v _ namespaces_length [OF \<open>v_nr_ns v \<le> 2\<close>, unfolded d2 [symmetric]], of "replicate (PAGE_SIZE * 2) 0"] d2
    show ?thesis using c p 3 by (simp add: admin_identify_def admin_identify_namespaces_def make_cq_entry_def Let_def answersI del: upt_Suc replicate.simps)
  next
    case 4
    have "\<forall>(off, bs)\<in>set [(0, [4]), (1, [1]), (4, [u8 (vn_csi (v_ns v ! u32_sub (adm_nsid a (v_mem v)) 1))])]. off + length bs \<le> PAGE_SIZE"
      by (simp add: PAGE_SIZE_def)
    from fields_answers [OF v this] c p ns dl 4 show ?thesis by (simp add: admin_identify_def admin_identify_namespace_desc_def)
  next
    case 5
    have "b_type b = SSD_TYPE_ZNS \<Longrightarrow> vn_csi (v_ns v ! u32_sub (adm_nsid a (v_mem v)) 1) = NVME_CSI_ZNS"
      using v ns 5 by (simp add: vdev_inv_def)
    then show ?thesis using fields_answers [OF v id_zns_fields_ok] answersI [OF worked_refl [OF v]] c p ns dl 5
      by (simp add: admin_identify_def admin_identify_zns_namespace_def make_cq_entry_def)
  next
    case 6
    then show ?thesis using answers_mem [OF v, of "[0]"] dl c p by (simp add: admin_identify_def admin_identify_zns_ctrl_def PAGE_SIZE_def)
  next
    case 7
    then show ?thesis using answersI [OF worked_refl [OF v]] c by (simp add: admin_identify_def make_cq_entry_def)
  qed
qed

section \<open>Status and result\<close>

definition admin_status :: "build \<Rightarrow> nat \<Rightarrow> (nat \<Rightarrow> nat) \<Rightarrow> nat" where
  "admin_status b a m = (let op = adm_opcode a m; dw = adm_dword11 a m in
     if op \<notin> {nvme_admin_delete_sq, nvme_admin_create_sq, nvme_admin_get_log_page, nvme_admin_delete_cq, nvme_admin_create_cq, nvme_admin_identify,
         nvme_admin_set_features, nvme_admin_get_features, nvme_admin_async_event} then NVME_SC_INVALID_OPCODE
     else if op = nvme_admin_identify \<and> adm_cns a m \<notin> {0, 1, 2, 3, 5, 6} then NVME_SC_INVALID_OPCODE
     else if op = nvme_admin_set_features \<and> b_type b = SSD_TYPE_FDP \<and> adm_fid a m = NVME_FEAT_FDP \<and> (even dw \<or> dw div 256 mod 256 \<noteq> 0)
     then NVME_SC_FEATURE_NOT_CHANGEABLE
     else NVME_SC_SUCCESS)"

definition descs_of :: "nat \<Rightarrow> (nat \<Rightarrow> nat) \<Rightarrow> (nat \<times> nat) list" where
  "descs_of a m = (if adm_prp1 a m = 0 then [] else event_descs (adm_prp1 a m) (adm_dword11 a m div 2 ^ 16 mod 256) m)"

definition admin_result :: "build \<Rightarrow> nat \<Rightarrow> vdev \<Rightarrow> nat" where
  "admin_result b a v = (let m = v_mem v; op = adm_opcode a m; dw = adm_dword11 a m in
     if op = nvme_admin_set_features then
       (if adm_fid a m = NVME_FEAT_NUM_QUEUES then min (dw div 65536 mod 65536) (NR_MAX_IO_QUEUE - 1) * 65536 + min (dw mod 65536) (NR_MAX_IO_QUEUE - 1)
        else if b_type b = SSD_TYPE_FDP \<and> adm_fid a m = NVME_FEAT_FDP_EVENTS
        then (\<Sum>d\<leftarrow>descs_of a m. length (filter (\<lambda>e. flt_type e = fst d) (events (v_fdp v)))) else 0)
     else if op = nvme_admin_get_features then
       (if adm_fid a m = NVME_FEAT_NUM_QUEUES then num_queues_result v
        else if b_type b = SSD_TYPE_FDP \<and> adm_fid a m = NVME_FEAT_FDP then 1
        else if b_type b = SSD_TYPE_FDP \<and> adm_fid a m = NVME_FEAT_FDP_EVENTS then length (events (v_fdp v)) else 0)
     else 0)"

lemma num_queues:
  assumes "1 \<le> v_nr_sq v" "v_nr_sq v \<le> NR_MAX_IO_QUEUE" "1 \<le> v_nr_cq v" "v_nr_cq v \<le> NR_MAX_IO_QUEUE"
  shows "num_queues_result v = (v_nr_cq v - 1) * 65536 + (v_nr_sq v - 1)"
proof -
  have b: "v_nr_sq v - 1 < 2 ^ 16" "v_nr_cq v - 1 < 72" using assms by (simp_all add: NR_MAX_IO_QUEUE_def)
  have "u32_sub (v_nr_cq v) 1 = v_nr_cq v - 1" "u32_sub (v_nr_sq v) 1 = v_nr_sq v - 1" using assms by (auto simp: NR_MAX_IO_QUEUE_def intro!: u32_sub_id)
  moreover have nb: "\<not> bit (v_nr_sq v - 1) n" if "16 \<le> n" for n
  proof -
    have "v_nr_sq v - 1 < 2 ^ n" using b(1) power_increasing [OF that, of "2 :: nat"] by linarith
    then show ?thesis by (simp add: bit_iff_odd)
  qed
  moreover have "u32 ((v_nr_cq v - 1) * 2 ^ 16) = push_bit 16 (v_nr_cq v - 1)" using b(2) by (simp add: u32_def push_bit_eq_mult)
  moreover have "Bit_Operations.or (push_bit 16 (v_nr_cq v - 1)) (v_nr_sq v - 1) = push_bit 16 (v_nr_cq v - 1) + (v_nr_sq v - 1)"
    by (rule disjunctive_add [symmetric]) (use nb in \<open>auto simp: bit_push_bit_iff\<close>)
  ultimately show ?thesis by (simp add: num_queues_result_def push_bit_eq_mult)
qed

lemma set_features_answers:
  assumes v: "vdev_inv b v" and c: "admin_cmd eid v = Some a" and h: "admin_host b a v" and op: "adm_opcode a (v_mem v) = nvme_admin_set_features"
  shows "answers b a eid v (admin_status b a (v_mem v)) (admin_result b a v) (admin_set_features b eid v)"
proof -
  let ?m = "v_mem v" and ?dw = "adm_dword11 a (v_mem v)"
  have p: "opt_prp b (adm_prp1 a ?m) = Some (if adm_prp1 a ?m = 0 then None else Some (adm_prp1 a ?m))"
    using h op unfolding admin_host_def Let_def by (auto simp: opt_prp_def prp_address_def page_ok_def)
  consider (q) "adm_fid a ?m = NVME_FEAT_NUM_QUEUES" | (e) "b_type b = SSD_TYPE_FDP" "adm_fid a ?m = NVME_FEAT_FDP_EVENTS"
    | (o) "adm_fid a ?m \<noteq> NVME_FEAT_NUM_QUEUES" "\<not> (b_type b = SSD_TYPE_FDP \<and> adm_fid a ?m = NVME_FEAT_FDP_EVENTS)" by blast
  then show ?thesis
  proof cases
    case q
    let ?v1 = "v\<lparr>v_nr_sq := min (?dw mod 65536 + 1) NR_MAX_IO_QUEUE, v_nr_cq := min (?dw div 65536 mod 65536 + 1) NR_MAX_IO_QUEUE\<rparr>"
    have w: "worked b a v ?v1" using v by (simp add: worked_def vdev_inv_def)
    have "num_queues_result ?v1 = (v_nr_cq ?v1 - 1) * 65536 + (v_nr_sq ?v1 - 1)" by (rule num_queues) (simp_all add: NR_MAX_IO_QUEUE_def)
    also have "... = admin_result b a v" using q op by (simp add: admin_result_def Let_def min_diff [of _ 1, symmetric, simplified])
    finally have r: "num_queues_result ?v1 = admin_result b a v" .
    have "admin_set_features b eid v = make_cq_entry_results eid NVME_SC_SUCCESS (num_queues_result ?v1) 0 ?v1"
      unfolding admin_set_features_def using c q by (simp add: Let_def)
    moreover have "admin_status b a ?m = NVME_SC_SUCCESS" using q op by (simp add: admin_status_def admin_consts admin_opcodes Let_def)
    ultimately show ?thesis using answersI [OF w] r by simp
  next
    case e
    let ?r = "\<Sum>d\<leftarrow>descs_of a ?m. length (filter (\<lambda>e. flt_type e = fst d) (events (v_fdp v)))"
    have "\<exists>es. fdp_set_feature_events ?dw (map_option (\<lambda>p. event_descs p 256 ?m) (if adm_prp1 a ?m = 0 then None else Some (adm_prp1 a ?m))) (v_fdp v) =
        Some (?r, (v_fdp v)\<lparr>events := es\<rparr>) \<and> length es = length (events (v_fdp v))"
    proof (cases "adm_prp1 a ?m = 0")
      case True
      then have "fdp_set_feature_events ?dw None (v_fdp v) = Some (?r, (v_fdp v)\<lparr>events := events (v_fdp v)\<rparr>)"
        by (simp add: fdp_set_feature_events_def descs_of_def Let_def)
      then show ?thesis using True by (intro exI [of _ "events (v_fdp v)"]) simp
    next
      case False
      let ?d = "event_descs (adm_prp1 a ?m) 256 ?m"
      have n: "?dw div 2 ^ 16 mod 256 \<le> length ?d" by (simp add: event_descs_def less_imp_le)
      have "take (?dw div 2 ^ 16 mod 256) ?d = descs_of a ?m"
        using False n by (simp add: event_descs_def descs_of_def take_map take_upt)
      then show ?thesis using set_feature_events_spec [OF n, of "v_fdp v"] False by auto
    qed
    then obtain es where es: "fdp_set_feature_events ?dw (map_option (\<lambda>p. event_descs p 256 ?m) (if adm_prp1 a ?m = 0 then None else Some (adm_prp1 a ?m))) (v_fdp v) =
        Some (?r, (v_fdp v)\<lparr>events := es\<rparr>)" "length es = length (events (v_fdp v))" by blast
    have w: "worked b a v (v\<lparr>v_fdp := (v_fdp v)\<lparr>events := es\<rparr>\<rparr>)" using v es(2) by (simp add: worked_def vdev_inv_def ctx_ok_def)
    have "admin_set_features b eid v = make_cq_entry_results eid NVME_SC_SUCCESS ?r 0 (v\<lparr>v_fdp := (v_fdp v)\<lparr>events := es\<rparr>\<rparr>)"
      unfolding admin_set_features_def Let_def using c e p es(1) by (simp add: admin_consts)
    moreover have "admin_status b a ?m = NVME_SC_SUCCESS" "admin_result b a v = ?r"
      using e op by (simp_all add: admin_status_def admin_result_def admin_consts admin_opcodes Let_def)
    ultimately show ?thesis using answersI [OF w] by simp
  next
    case o
    have ne: "nvme_admin_identify \<noteq> nvme_admin_set_features" "nvme_admin_get_features \<noteq> nvme_admin_set_features" by (simp_all add: admin_opcodes)
    have "admin_set_features b eid v = make_cq_entry_results eid (admin_status b a ?m) (admin_result b a v) 0 v"
      unfolding admin_set_features_def admin_status_def admin_result_def Let_def using c op o ne by (auto simp: admin_opcodes)
    then show ?thesis using answersI [OF worked_refl [OF v]] by simp
  qed
qed

lemma get_features_answers:
  assumes v: "vdev_inv b v" and c: "admin_cmd eid v = Some a" and h: "admin_host b a v" and op: "adm_opcode a (v_mem v) = nvme_admin_get_features"
    and ev: "length (events (v_fdp v)) = 3"
  shows "answers b a eid v NVME_SC_SUCCESS (admin_result b a v) (admin_get_features b eid v)"
proof -
  let ?m = "v_mem v" and ?es = "events (v_fdp v)"
  have p: "opt_prp b (adm_prp1 a ?m) = Some (if adm_prp1 a ?m = 0 then None else Some (adm_prp1 a ?m))"
    using h op unfolding admin_host_def Let_def by (auto simp: opt_prp_def prp_address_def page_ok_def)
  have ne: "nvme_admin_get_features \<noteq> nvme_admin_set_features" by (simp add: admin_opcodes)
  show ?thesis
  proof (cases "b_type b = SSD_TYPE_FDP \<and> adm_fid a ?m = NVME_FEAT_FDP_EVENTS")
    case True
    then have r: "admin_result b a v = length ?es" using op ne by (simp add: admin_result_def admin_consts Let_def)
    show ?thesis
    proof (cases "adm_prp1 a ?m = 0")
      case z: True
      have "admin_get_features b eid v = make_cq_entry_results eid NVME_SC_SUCCESS (length ?es) 0 v"
        using c p z True by (simp add: admin_get_features_def admin_consts fdp_get_feature_events_def)
      then show ?thesis using answersI [OF worked_refl [OF v]] r by simp
    next
      case False
      let ?d = "map (\<lambda>e. (flt_type e, if flt_enabled e then 1 else (0::nat))) ?es"
      have l: "length (concat (map (\<lambda>(x, y). [x, y]) xs)) = 2 * length xs" for xs :: "(nat \<times> nat) list" by (induction xs) auto
      have g: "fdp_get_feature_events (v_fdp v) (adm_dword11 a ?m) (Some (event_descs (adm_prp1 a ?m) (length ?es) ?m)) = Some (length ?es, Some ?d)"
        using get_feature_events_spec [of "v_fdp v" "event_descs (adm_prp1 a ?m) (length ?es) ?m"] by (simp add: event_descs_def)
      have "admin_get_features b eid v = make_cq_entry_results eid NVME_SC_SUCCESS (length ?es) 0
          (v\<lparr>v_mem := mem_write (adm_prp1 a ?m) (concat (map (\<lambda>(x, y). [x, y]) ?d)) ?m\<rparr>)"
        unfolding admin_get_features_def Let_def using c p False True g by (simp add: admin_consts)
      moreover have "worked b a v (v\<lparr>v_mem := mem_write (adm_prp1 a ?m) (concat (map (\<lambda>(x, y). [x, y]) ?d)) ?m\<rparr>)"
        by (rule worked_mem [OF v]) (use op ev True False in \<open>simp add: l data_len_def admin_opcodes del: map_map\<close>)
      ultimately show ?thesis using answersI r by simp
    qed
  next
    case False
    then have "admin_get_features b eid v = make_cq_entry_results eid NVME_SC_SUCCESS (admin_result b a v) 0 v"
      using c op ne by (auto simp: admin_get_features_def admin_result_def Let_def)
    then show ?thesis using answersI [OF worked_refl [OF v]] by simp
  qed
qed

lemma command_answers:
  assumes v: "vdev_inv b v" and c: "admin_cmd eid v = Some a" and h: "admin_host b a v" and op: "adm_opcode a (v_mem v) \<noteq> nvme_admin_abort_cmd"
  shows "answers b a eid v (admin_status b a (v_mem v)) (admin_result b a v) (proc_admin_req b eid v)"
proof -
  let ?op = "adm_opcode a (v_mem v)"
  note spec = admin_status_def admin_result_def Let_def
  consider (queue) "?op \<in> {nvme_admin_create_sq, nvme_admin_delete_sq, nvme_admin_create_cq, nvme_admin_delete_cq}"
    | (log) "?op = nvme_admin_get_log_page" | (id) "?op = nvme_admin_identify" | (set) "?op = nvme_admin_set_features" | (get) "?op = nvme_admin_get_features"
    | (other) "?op \<notin> {nvme_admin_create_sq, nvme_admin_delete_sq, nvme_admin_create_cq, nvme_admin_delete_cq, nvme_admin_get_log_page, nvme_admin_identify,
        nvme_admin_set_features, nvme_admin_get_features}" by blast
  then show ?thesis
  proof cases
    case queue
    then have "adm_qid a (v_mem v) \<le> NR_MAX_IO_QUEUE" using h unfolding admin_host_def Let_def by blast
    note ok = queue_answers [OF v c this]
    from queue consider "?op = nvme_admin_create_sq" | "?op = nvme_admin_delete_sq" | "?op = nvme_admin_create_cq" | "?op = nvme_admin_delete_cq" by blast
    then show ?thesis by cases (use ok c in \<open>simp_all add: proc_admin_req_def admin_opcodes spec\<close>)
  next
    case log
    then have "answers b a eid v NVME_SC_SUCCESS 0 (admin_get_log_page b eid v)"
      using h unfolding admin_host_def Let_def by (intro log_page_answers [OF v c]) auto
    then show ?thesis using log c by (simp add: proc_admin_req_def admin_opcodes spec)
  next
    case id
    have "admin_status b a (v_mem v) = (if adm_cns a (v_mem v) \<in> {0, 1, 2, 3, 5, 6} then NVME_SC_SUCCESS else NVME_SC_INVALID_OPCODE)"
      "admin_result b a v = 0" using id by (simp_all add: spec admin_opcodes)
    with identify_answers [OF v c h id] id c show ?thesis by (simp only: proc_admin_req_def bind.bind_lunit Let_def) (simp add: admin_opcodes)
  next
    case set
    from set_features_answers [OF v c h set] set c show ?thesis by (simp add: proc_admin_req_def admin_opcodes)
  next
    case get
    have "length (events (v_fdp v)) = 3" using v by (simp add: vdev_inv_def)
    from get_features_answers [OF v c h get this] get c show ?thesis by (simp add: proc_admin_req_def admin_opcodes admin_status_def Let_def)
  next
    case other
    then show ?thesis using c op answersI [OF worked_refl [OF v]]
      by (auto simp: proc_admin_req_def spec make_cq_entry_def admin_async_event_def)
  qed
qed

section \<open>The completion\<close>

lemma mem_bytes_same: "(\<And>x. a \<le> x \<Longrightarrow> x < a + n \<Longrightarrow> m' x = m x) \<Longrightarrow> mem_bytes m' a n = mem_bytes m a n"
  by (simp add: mem_bytes_def)

lemma length_encode_completion: "length (encode_completion c) = sizeof_completion"
  by (simp add: encode_completion_def sizeof_completion_def)

lemma mem_bytes_written: "mem_bytes (mem_write a bs m) a (length bs) = bs"
  by (rule nth_equalityI) (auto simp: mem_bytes_def mem_write_def)

text \<open>The command does not lie in its own data area.\<close>

definition cmd_apart :: "build \<Rightarrow> nat \<Rightarrow> (nat \<Rightarrow> nat) \<Rightarrow> bool" where
  "cmd_apart b a m \<longleftrightarrow> data_len b a m = 0 \<or> a + sizeof_command \<le> adm_prp1 a m \<or> adm_prp1 a m + data_len b a m \<le> a"

lemma command_completes:
  assumes v: "vdev_inv b v" and q: "v_admin_q v = Some q" and c: "sq_entry q eid = Some a" and h: "admin_host b a v"
    and op: "adm_opcode a (v_mem v) \<noteq> nvme_admin_abort_cmd"
  obtains ca v1 v' where "cq_entry q (aq_cq_head q) = Some ca" "proc_admin_req b eid v = Some v'" "worked b a v v1"
    "v' = v1\<lparr>v_mem := mem_write ca (encode_completion (completion eid (adm_command_id a (v_mem v1)) (admin_status b a (v_mem v)) (admin_result b a v) q 0)) (v_mem v1),
       v_admin_q := Some (posted q)\<rparr>" "vdev_inv b v'" "vdev_kept v v'"
proof -
  have cmd: "admin_cmd eid v = Some a" using q c by (simp add: admin_cmd_def)
  obtain v1 where v1: "worked b a v v1" "proc_admin_req b eid v = make_cq_entry_results eid (admin_status b a (v_mem v)) (admin_result b a v) 0 v1"
    using command_answers [OF v cmd h op] by (auto simp: answers_def)
  have ok: "aq_ok q" using v q by (simp add: vdev_inv_def)
  obtain ca where ca: "cq_entry q (aq_cq_head q) = Some ca" using cq_entry_total [OF ok] by blast
  have q1: "v_admin_q v1 = Some q" using v1(1) q by (simp add: worked_def)
  let ?v' = "v1\<lparr>v_mem := mem_write ca (encode_completion (completion eid (adm_command_id a (v_mem v1)) (admin_status b a (v_mem v)) (admin_result b a v) q 0)) (v_mem v1),
       v_admin_q := Some (posted q)\<rparr>"
  have "proc_admin_req b eid v = Some ?v'" using v1(2) make_cq_entry_eq [OF q1 c ca] by simp
  moreover have i1: "vdev_inv b v1" using v1(1) by (simp add: worked_def)
  then have "vdev_inv b ?v'" using posted_ok [OF ok] by (simp add: vdev_inv_def)
  moreover have "v_nr_ns v1 = v_nr_ns v" using i1 v v1(1) by (auto simp: vdev_inv_def worked_def)
  then have "vdev_kept v ?v'" using v1(1) q by (simp add: worked_def vdev_kept_def aq_shape_def)
  ultimately show ?thesis using that [OF ca _ v1(1) refl] by blast
qed

lemma abort_silent:
  "admin_cmd eid v = Some a \<Longrightarrow> adm_opcode a (v_mem v) = nvme_admin_abort_cmd \<Longrightarrow> proc_admin_req b eid v = Some v"
  by (simp add: proc_admin_req_def admin_opcodes)

section \<open>The device\<close>

text \<open>A request: the host's memory at this moment, and the entry with the command.\<close>

definition admin_request :: "build \<Rightarrow> vdev \<Rightarrow> (nat \<Rightarrow> nat) \<times> nat \<Rightarrow> bool" where
  "admin_request b v r = (case admin_cmd (snd r) v of None \<Rightarrow> False | Some a \<Rightarrow> admin_host b a (v\<lparr>v_mem := fst r\<rparr>))"

definition admin_serve :: "build \<Rightarrow> vdev \<Rightarrow> (nat \<Rightarrow> nat) \<times> nat \<Rightarrow> vdev option" where
  "admin_serve b v r = proc_admin_req b (snd r) (v\<lparr>v_mem := fst r\<rparr>)"

interpretation adm: device_contract "vdev_inv b" "admin_request b" "admin_serve b" vdev_kept for b
proof
  fix v r assume v: "vdev_inv b v" and r: "admin_request b v r"
  let ?v = "v\<lparr>v_mem := fst r\<rparr>"
  have v1: "vdev_inv b ?v" using v by (simp add: vdev_inv_def)
  obtain q where q: "v_admin_q v = Some q" using v by (auto simp: vdev_inv_def)
  obtain a where a: "sq_entry q (snd r) = Some a" "admin_host b a ?v" using r q by (auto simp: admin_request_def admin_cmd_def split: option.splits)
  have k: "vdev_kept ?v w \<Longrightarrow> vdev_kept v w" for w by (simp add: vdev_kept_def)
  show "\<exists>v'. admin_serve b v r = Some v' \<and> vdev_inv b v' \<and> vdev_kept v v'"
  proof (cases "adm_opcode a (v_mem ?v) = nvme_admin_abort_cmd")
    case True
    have "vdev_kept ?v ?v" by (simp add: vdev_kept_def)
    then show ?thesis using abort_silent [of "snd r" ?v a b] True a(1) q v1 k by (simp add: admin_serve_def admin_cmd_def)
  next
    case False
    have "v_admin_q ?v = Some q" using q by simp
    from command_completes [OF v1 this a(1,2) False] obtain w where "proc_admin_req b (snd r) ?v = Some w" "vdev_inv b w" "vdev_kept ?v w" by metis
    then show ?thesis using k by (simp add: admin_serve_def)
  qed
qed (simp_all add: vdev_kept_def)

end
