(* ===== verification/Ctrl_Props.thy ===== *)
theory Ctrl_Props
  imports Admin_Inv
begin

text \<open>
  The controller as the host sees it: the registers settle, bringing the controller up gives a working
  admin queue, and every admin command is answered with one completion.
\<close>

section \<open>Registers\<close>

text \<open>How many of the four registers the host has changed since they were last processed.\<close>

definition pending :: "vdev \<Rightarrow> nat" where
  "pending v = (if o_aqa (v_old_bar v) \<noteq> r_aqa (v_bar v) then 1 else 0) + (if o_asq (v_old_bar v) \<noteq> r_asq (v_bar v) then 1 else 0) +
     (if o_acq (v_old_bar v) \<noteq> r_acq (v_bar v) then 1 else 0) + (if o_cc (v_old_bar v) \<noteq> r_cc (v_bar v) then 1 else 0)"

text \<open>The host's side: the queues lie in memory, and the attributes of the queue are set with or before their addresses.\<close>

definition regs_ok :: "build \<Rightarrow> vdev \<Rightarrow> bool" where
  "regs_ok b v \<longleftrightarrow> b_pfn_valid b (r_asq (v_bar v) div PAGE_SIZE) \<and> b_pfn_valid b (r_acq (v_bar v) div PAGE_SIZE) \<and>
     2 \<le> length (v_dbs v) \<and> 2 \<le> length (v_old_dbs v) \<and> (v_admin_q v \<noteq> None \<or> o_aqa (v_old_bar v) \<noteq> r_aqa (v_bar v))"

text \<open>What a call leaves alone: the registers the host writes, and everything but the admin queue.\<close>

definition host_regs :: "vdev \<Rightarrow> nat \<times> nat \<times> nat \<times> nat" where
  "host_regs v = (r_cc (v_bar v), r_aqa (v_bar v), r_asq (v_bar v), r_acq (v_bar v))"

lemma clear_db_eq: "i < length (v_dbs v) \<Longrightarrow> i < length (v_old_dbs v) \<Longrightarrow>
   clear_db i v = Some (v\<lparr>v_dbs := (v_dbs v)[i := 0], v_old_dbs := (v_old_dbs v)[i := 0]\<rparr>)"
  by (simp add: clear_db_def)

lemma bars_idle: "pending v = 0 \<longleftrightarrow> nvmev_proc_bars b v = Some (False, v)"
  by (auto simp: pending_def nvmev_proc_bars_def Let_def split: option.splits if_splits Option.bind_splits)

lemma bars_step:
  assumes "regs_ok b v" "pending v = Suc n"
  shows "\<exists>v'. nvmev_proc_bars b v = Some (True, v') \<and> regs_ok b v' \<and> pending v' = n \<and> host_regs v' = host_regs v"
proof -
  have d: "0 < length (v_dbs v)" "1 < length (v_dbs v)" "0 < length (v_old_dbs v)" "1 < length (v_old_dbs v)"
    and p: "b_pfn_valid b (r_asq (v_bar v) div PAGE_SIZE)" "b_pfn_valid b (r_acq (v_bar v) div PAGE_SIZE)" using assms(1) by (auto simp: regs_ok_def)
  note defs = nvmev_proc_bars_def Let_def regs_ok_def pending_def host_regs_def clear_db_eq
  consider "o_aqa (v_old_bar v) \<noteq> r_aqa (v_bar v)" | "o_aqa (v_old_bar v) = r_aqa (v_bar v)" "o_asq (v_old_bar v) \<noteq> r_asq (v_bar v)"
    | "o_aqa (v_old_bar v) = r_aqa (v_bar v)" "o_asq (v_old_bar v) = r_asq (v_bar v)" "o_acq (v_old_bar v) \<noteq> r_acq (v_bar v)"
    | "o_aqa (v_old_bar v) = r_aqa (v_bar v)" "o_asq (v_old_bar v) = r_asq (v_bar v)" "o_acq (v_old_bar v) = r_acq (v_bar v)" "o_cc (v_old_bar v) \<noteq> r_cc (v_bar v)"
    using assms(2) by (fastforce simp: pending_def)
  then show ?thesis
  proof cases
    case 1
    then show ?thesis using assms d p by (simp add: defs proc_aqa_def)
  next
    case 2
    then obtain q where "v_admin_q v = Some q" using assms(1) by (auto simp: regs_ok_def)
    then show ?thesis using 2 assms d p by (simp add: defs proc_asq_def admin_pages_def)
  next
    case 3
    then obtain q where "v_admin_q v = Some q" using assms(1) by (auto simp: regs_ok_def)
    then show ?thesis using 3 assms d p by (simp add: defs proc_acq_def admin_pages_def)
  next
    case 4
    then obtain q where "v_admin_q v = Some q" using assms(1) by (auto simp: regs_ok_def)
    then show ?thesis using 4 assms d p by (simp add: defs proc_cc_def)
  qed
qed

fun bars_calls :: "build \<Rightarrow> nat \<Rightarrow> vdev \<Rightarrow> vdev option" where
  "bars_calls b 0 v = Some v"
| "bars_calls b (Suc n) v = do { (_, v1) \<leftarrow> nvmev_proc_bars b v; bars_calls b n v1 }"

lemma bars_settle: "regs_ok b v \<Longrightarrow> pending v \<le> n \<Longrightarrow> \<exists>v'. bars_calls b n v = Some v' \<and> pending v' = 0 \<and> host_regs v' = host_regs v"
proof (induction n arbitrary: v)
  case (Suc n)
  show ?case
  proof (cases "pending v")
    case 0
    then have "nvmev_proc_bars b v = Some (False, v)" by (rule bars_idle [THEN iffD1])
    then show ?thesis using Suc.IH [of v] Suc.prems 0 by simp
  next
    case (Suc k)
    from bars_step [OF Suc.prems(1) Suc] obtain v1 where
      v1: "nvmev_proc_bars b v = Some (True, v1)" "regs_ok b v1" "pending v1 = k" "host_regs v1 = host_regs v" by blast
    then show ?thesis using Suc.IH [of v1] Suc Suc.prems by simp
  qed
qed simp

text \<open>The registers settle: whatever the host has written to them, once the attributes of the admin queue are known and the addresses
  are in memory, four calls of \<open>nvmev_proc_bars\<close> process every change, and further calls find nothing to do and change nothing.\<close>

theorem registers_settle:
  assumes "regs_ok b v"
  shows "\<exists>v'. bars_calls b 4 v = Some v' \<and> nvmev_proc_bars b v' = Some (False, v') \<and> host_regs v' = host_regs v"
proof -
  have "pending v \<le> 4" by (simp add: pending_def)
  from bars_settle [OF assms this] show ?thesis using bars_idle by blast
qed

section \<open>Bringing the controller up\<close>

definition host_writes :: "nat \<Rightarrow> nat \<Rightarrow> nat \<Rightarrow> nat \<Rightarrow> vdev \<Rightarrow> vdev" where
  "host_writes aqa asq acq cc v = v\<lparr>v_bar := (v_bar v)\<lparr>r_aqa := aqa, r_asq := asq, r_acq := acq, r_cc := cc\<rparr>\<rparr>"

lemma admin_pages_nth:
  assumes "d * s \<le> PAGE_SIZE * n" "0 < s" "s dvd PAGE_SIZE" "k < d"
  shows "k div (PAGE_SIZE div s) < n" "map (\<lambda>i. (base div PAGE_SIZE + i) * PAGE_SIZE) [0..<n] ! (k div (PAGE_SIZE div s)) + s * (k mod (PAGE_SIZE div s)) = base div PAGE_SIZE * PAGE_SIZE + s * k"
proof -
  define m where "m = PAGE_SIZE div s"
  have sm: "s * m = PAGE_SIZE" using assms(3) by (simp add: m_def)
  have "k * s < d * s" using assms(2,4) by simp
  then have "s * k < s * (m * n)" using assms(1) sm by (metis less_le_trans mult.assoc mult.commute)
  then have "k < m * n" using assms(2) by simp
  then show l: "k div (PAGE_SIZE div s) < n" by (simp add: m_def [symmetric] less_mult_imp_div_less mult.commute)
  have "s * k = s * (m * (k div m) + k mod m)" by simp
  also have "... = PAGE_SIZE * (k div m) + s * (k mod m)" by (simp only: distrib_left mult.assoc [symmetric] sm)
  finally show "map (\<lambda>i. (base div PAGE_SIZE + i) * PAGE_SIZE) [0..<n] ! (k div (PAGE_SIZE div s)) + s * (k mod (PAGE_SIZE div s)) = base div PAGE_SIZE * PAGE_SIZE + s * k"
    using l by (simp add: m_def [symmetric] algebra_simps)
qed

lemma round_up_covers: "n \<le> PAGE_SIZE * DIV_ROUND_UP n PAGE_SIZE"
  by (simp add: DIV_ROUND_UP_def PAGE_SIZE_def)

lemma bring_up_calls:
  fixes mem ns mdts ctx msix
  defines "v \<equiv> vdev_init mem ns mdts ctx msix"
  assumes "aqa \<noteq> 0" "asq \<noteq> 0" "acq \<noteq> 0" "cc_en cc = 1" "cc_shn cc \<noteq> 1" "b_pfn_valid b (asq div PAGE_SIZE)" "b_pfn_valid b (acq div PAGE_SIZE)"
  shows "bars_calls b 4 (host_writes aqa asq acq cc v) = Some (v\<lparr>
     v_bar := \<lparr>r_cc = cc, r_rdy = 1, r_shst = 0, r_aqa = aqa, r_asq = asq, r_acq = acq\<rparr>,
     v_old_bar := \<lparr>o_cc = cc, o_aqa = aqa, o_asq = asq, o_acq = acq\<rparr>,
     v_admin_q := Some \<lparr>aq_phase = 1, aq_sq_depth = aqa_asqs aqa + 1, aq_cq_depth = aqa_acqs aqa + 1, aq_cq_head = 0,
       aq_nvme_sq = Some (map (\<lambda>i. (asq div PAGE_SIZE + i) * PAGE_SIZE) [0..<DIV_ROUND_UP ((aqa_asqs aqa + 1) * sizeof_command) PAGE_SIZE]),
       aq_nvme_cq = Some (map (\<lambda>i. (acq div PAGE_SIZE + i) * PAGE_SIZE) [0..<DIV_ROUND_UP ((aqa_acqs aqa + 1) * sizeof_completion) PAGE_SIZE])\<rparr>\<rparr>)"
proof -
  have cc: "cc \<noteq> 0" using assms(5) by (auto simp: cc_en_def)
  define z where "z = replicate 1024 (0 :: nat)"
  have "z[i := 0] = z" if "i < 1024" for i using list_update_id [of z i] that by (simp add: z_def)
  then have z: "0 < length z" "1 < length z" "z[0 := 0] = z" "z[1 := 0] = z" by (simp_all add: z_def)
  have four: "(4 :: nat) = Suc (Suc (Suc (Suc 0)))" by simp
  show ?thesis using assms(2-) cc z
    unfolding v_def vdev_init_def z_def [symmetric] four
    by (simp add: host_writes_def nvmev_proc_bars_def Let_def proc_aqa_def proc_asq_def proc_acq_def proc_cc_def clear_db_eq admin_pages_def no_queue_def)
qed

text \<open>C21: Bringing the controller up works: on a new device on which the host has written the admin queue's attributes and addresses and set the
  enable bit, four calls of \<open>nvmev_proc_bars\<close> report it ready; entry \<open>k\<close> of the submission queue is found 64 * k bytes, entry \<open>k\<close> of
  the completion queue 16 * k bytes behind the page of the address, the queue is empty in phase 1, and the device is in the state from which it
  answers admin commands.\<close>

theorem controller_bring_up:
  assumes regs: "aqa \<noteq> 0" "asq \<noteq> 0" "acq \<noteq> 0" "cc_en cc = 1" "cc_shn cc \<noteq> 1"
    and mem: "b_pfn_valid b (asq div PAGE_SIZE)" "b_pfn_valid b (acq div PAGE_SIZE)"
    and dev: "ctx_ok ctx" "length (events ctx) = 3" "length ns \<le> 2" "b_type b = SSD_TYPE_ZNS \<longrightarrow> (\<forall>n\<in>set ns. vn_csi n = NVME_CSI_ZNS)"
  shows "\<exists>v' q. bars_calls b 4 (host_writes aqa asq acq cc (vdev_init m ns mdts ctx msix)) = Some v' \<and> nvmev_proc_bars b v' = Some (False, v') \<and>
     r_rdy (v_bar v') = 1 \<and> v_admin_q v' = Some q \<and> aq_sq_depth q = aqa mod 4096 + 1 \<and> aq_cq_depth q = aqa div 65536 mod 4096 + 1 \<and>
     aq_cq_head q = 0 \<and> aq_phase q = 1 \<and> (\<forall>k<aq_sq_depth q. sq_entry q k = Some (asq div 4096 * 4096 + 64 * k)) \<and>
     (\<forall>k<aq_cq_depth q. cq_entry q k = Some (acq div 4096 * 4096 + 16 * k)) \<and> vdev_inv b v'"
proof -
  let ?n = "DIV_ROUND_UP ((aqa_asqs aqa + 1) * sizeof_command) PAGE_SIZE" and ?c = "DIV_ROUND_UP ((aqa_acqs aqa + 1) * sizeof_completion) PAGE_SIZE"
  define q where "q = \<lparr>aq_phase = 1, aq_sq_depth = aqa_asqs aqa + 1, aq_cq_depth = aqa_acqs aqa + 1, aq_cq_head = 0,
       aq_nvme_sq = Some (map (\<lambda>i. (asq div PAGE_SIZE + i) * PAGE_SIZE) [0..<?n]), aq_nvme_cq = Some (map (\<lambda>i. (acq div PAGE_SIZE + i) * PAGE_SIZE) [0..<?c])\<rparr>"
  define v' where "v' = (vdev_init m ns mdts ctx msix)\<lparr>v_bar := \<lparr>r_cc = cc, r_rdy = 1, r_shst = 0, r_aqa = aqa, r_asq = asq, r_acq = acq\<rparr>,
     v_old_bar := \<lparr>o_cc = cc, o_aqa = aqa, o_asq = asq, o_acq = acq\<rparr>, v_admin_q := Some q\<rparr>"
  have calls: "bars_calls b 4 (host_writes aqa asq acq cc (vdev_init m ns mdts ctx msix)) = Some v'"
    unfolding bring_up_calls [OF regs mem] v'_def q_def ..
  have "pending v' = 0" by (simp add: pending_def v'_def)
  then have idle: "nvmev_proc_bars b v' = Some (False, v')" by (rule bars_idle [THEN iffD1])
  note covers = round_up_covers [of "(aqa_asqs aqa + 1) * sizeof_command"] round_up_covers [of "(aqa_acqs aqa + 1) * sizeof_completion"]
  have sq: "sq_entry q k = Some (asq div PAGE_SIZE * PAGE_SIZE + sizeof_command * k)" if "k < aqa_asqs aqa + 1" for k
  proof -
    have s: "0 < sizeof_command" "sizeof_command dvd PAGE_SIZE" by (simp_all add: sizeof_command_def PAGE_SIZE_def dvd_def)
    show ?thesis using admin_pages_nth [OF covers(1) s that] by (simp add: sq_entry_def q_def Let_def)
  qed
  have cq: "cq_entry q k = Some (acq div PAGE_SIZE * PAGE_SIZE + sizeof_completion * k)" if "k < aqa_acqs aqa + 1" for k
  proof -
    have s: "0 < sizeof_completion" "sizeof_completion dvd PAGE_SIZE" by (simp_all add: sizeof_completion_def PAGE_SIZE_def dvd_def)
    show ?thesis using admin_pages_nth [OF covers(2) s that] by (simp add: cq_entry_def q_def Let_def)
  qed
  have "aq_ok q" using covers by (simp add: aq_ok_def q_def sizeof_command_def sizeof_completion_def PAGE_SIZE_def)
  then have inv: "vdev_inv b v'" using dev by (simp add: vdev_inv_def v'_def vdev_init_def)
  show ?thesis
    by (intro exI [of _ v'] exI [of _ q] conjI calls idle inv)
      (use sq cq in \<open>auto simp: v'_def q_def aqa_asqs_def aqa_acqs_def sizeof_command_def sizeof_completion_def PAGE_SIZE_def\<close>)
qed


section \<open>Completions\<close>

lemma mem_bytes_part: "off + n \<le> length bs \<Longrightarrow> mem_bytes (mem_write a bs m) (a + off) n = get_bytes off n bs"
  using mem_bytes_write [of off n "length bs" bs a m] by simp

lemma rd_part: "off + n \<le> length bs \<Longrightarrow> rd_mem n (a + off) (mem_write a bs m) = le_value (get_bytes off n bs)"
  by (simp add: rd_mem_def mem_bytes_part)

lemma rd_other: "a + length bs \<le> x \<or> x + n \<le> a \<Longrightarrow> rd_mem n x (mem_write a bs m) = rd_mem n x m"
  unfolding rd_mem_def by (rule arg_cong [of _ _ le_value], rule mem_bytes_same) (auto simp: mem_write_def)

lemma le_value_mod: "le_value (le_bytes n (v mod 256 ^ n)) = v mod 256 ^ n"
  by (rule le_value_le_bytes) simp

lemma le_bytes_mod: "le_bytes n (v mod 256 ^ n) = le_bytes n v"
proof (induction n arbitrary: v)
  case (Suc n)
  have "v mod 256 ^ Suc n mod 256 = v mod 256" by (simp add: mod_mod_cancel)
  moreover have "v mod 256 ^ Suc n div 256 = v div 256 mod 256 ^ n" by (simp add: mod_mult2_eq div_add1_eq)
  ultimately show ?case using Suc.IH [of "v div 256"] by (simp add: le_bytes_Suc)
qed (simp add: le_bytes_def)

lemma le_value_bytes: "le_value (le_bytes n v) = v mod 256 ^ n"
  using le_value_mod [of n v] by (simp add: le_bytes_mod)

lemma read_completion:
  fixes c m ca defines "m' \<equiv> mem_write ca (encode_completion c) m"
  shows "rd_mem 4 ca m' = u32 (cqe_result0 c)" "rd_mem 4 (ca + 4) m' = u32 (cqe_result1 c)" "rd_mem 2 (ca + 8) m' = u16 (cqe_sq_head c)"
    "rd_mem 2 (ca + 10) m' = u16 (cqe_sq_id c)" "rd_mem 2 (ca + 12) m' = u16 (cqe_command_id c)" "rd_mem 2 (ca + 14) m' = u16 (cqe_status c)"
  using rd_part [of 0 4 "encode_completion c" ca m] unfolding m'_def
  by (simp_all add: rd_part length_encode_completion sizeof_completion_def)
    (simp_all add: get_bytes_def encode_completion_def le_value_bytes u32_def u16_def)

lemma if_le: "x \<le> n \<Longrightarrow> y \<le> n \<Longrightarrow> (if P then x else y) \<le> (n :: nat)"
  by simp

lemma admin_status_le: "admin_status b a m \<le> 270"
  unfolding admin_status_def Let_def by (intro if_le) (simp_all add: admin_consts NVME_SC_SUCCESS_def)

lemma completion_sel:
  assumes "aq_phase q \<le> 1"
  shows "cqe_status (completion eid x (admin_status b a m) y q z) = 2 * admin_status b a m + aq_phase q"
    "u16 (2 * admin_status b a m + aq_phase q) = 2 * admin_status b a m + aq_phase q"
    "cqe_result0 (completion eid x st y q z) = u32 y" "cqe_result1 (completion eid x st y q 0) = 0" "cqe_sq_head (completion eid x st y q z) = u16 eid"
    "cqe_sq_id (completion eid x st y q z) = 0" "cqe_command_id (completion eid x st y q z) = x"
proof -
  have st: "admin_status b a m \<le> 270" by (rule admin_status_le)
  have "u16 (Bit_Operations.or (aq_phase q) (u16 (admin_status b a m) * 2)) = 2 * admin_status b a m + aq_phase q"
    using or_phase [OF assms, of "admin_status b a m"] st assms by (simp add: u16_def mult.commute)
  then show "cqe_status (completion eid x (admin_status b a m) y q z) = 2 * admin_status b a m + aq_phase q" by (simp add: completion_def)
  show "u16 (2 * admin_status b a m + aq_phase q) = 2 * admin_status b a m + aq_phase q" using st assms by (simp add: u16_def)
qed (simp_all add: completion_def u32_def)

text \<open>C20: Every admin command except an abort that meets the conditions of \<open>admin_host\<close> and does not lie in its own data area gets exactly one
  completion: at the head of the completion queue the entry carries the command's result, the entry it was fetched from, queue 0, the command's
  identifier, its status and the phase; the head moves on, the phase turns when the queue wraps. No other byte of the host's memory changes but the
  \<open>data_len\<close> bytes at the command's page address: none for the queue commands, Set Features, the asynchronous event and
  unknown commands; the length asked for of a log page, at most a page for the FDP logs; one page for the structures of Identify, one byte for the
  zoned data of the controller; two pages for the list of the namespaces, which is one page more than that list has; six bytes for the FDP events of Get Features.
  The conditions: the page address of a log page or an Identify is in memory, that of a feature is zero or in memory; an Identify of a namespace names an
  existing one; a queue command names a queue number of at most \<open>NR_MAX_IO_QUEUE\<close>; the SMART log is asked for with at most 512 bytes and the command effects
  with at most 4096, since \<open>admin.c\<close> copies as many bytes as the host asks for out of those structures.\<close>

theorem admin_completion:
  assumes v: "vdev_inv b v" and q: "v_admin_q v = Some q" and c: "sq_entry q eid = Some a" and h: "admin_host b a v"
    and op: "adm_opcode a (v_mem v) \<noteq> nvme_admin_abort_cmd" and apart: "cmd_apart b a (v_mem v)"
  shows "\<exists>v' ca. proc_admin_req b eid v = Some v' \<and> cq_entry q (aq_cq_head q) = Some ca \<and>
     rd_mem 4 ca (v_mem v') = u32 (admin_result b a v) \<and> rd_mem 4 (ca + 4) (v_mem v') = 0 \<and>
     rd_mem 2 (ca + 8) (v_mem v') = u16 eid \<and> rd_mem 2 (ca + 10) (v_mem v') = 0 \<and>
     rd_mem 2 (ca + 12) (v_mem v') = u16 (adm_command_id a (v_mem v)) \<and> rd_mem 2 (ca + 14) (v_mem v') = 2 * admin_status b a (v_mem v) + aq_phase q \<and>
     v_admin_q v' = Some (if aq_cq_head q + 1 = aq_cq_depth q then q\<lparr>aq_cq_head := 0, aq_phase := 1 - aq_phase q\<rparr> else q\<lparr>aq_cq_head := aq_cq_head q + 1\<rparr>) \<and>
     (\<forall>x. (x < ca \<or> ca + 16 \<le> x) \<longrightarrow> (x < adm_prp1 a (v_mem v) \<or> adm_prp1 a (v_mem v) + data_len b a (v_mem v) \<le> x) \<longrightarrow> v_mem v' x = v_mem v x)"
proof -
  obtain ca v1 v' where r: "cq_entry q (aq_cq_head q) = Some ca" "proc_admin_req b eid v = Some v'" "worked b a v v1"
    "v' = v1\<lparr>v_mem := mem_write ca (encode_completion (completion eid (adm_command_id a (v_mem v1)) (admin_status b a (v_mem v)) (admin_result b a v) q 0)) (v_mem v1),
       v_admin_q := Some (posted q)\<rparr>" by (rule command_completes [OF v q c h op]) blast
  have m1: "v_mem v1 x = v_mem v x" if "x < adm_prp1 a (v_mem v) \<or> adm_prp1 a (v_mem v) + data_len b a (v_mem v) \<le> x" for x
    using r(3) that unfolding worked_def by blast
  have id: "adm_command_id a (v_mem v1) = adm_command_id a (v_mem v)"
    using apart m1 unfolding adm_command_id_def rd_mem_def cmd_apart_def sizeof_command_def
    by (intro arg_cong [of _ _ le_value] mem_bytes_same) (auto, metis not_less)
  have p: "aq_phase q \<le> 1" using v q by (simp add: vdev_inv_def aq_ok_def)
  have ph: "(if aq_phase q = 0 then 1 else 0) = 1 - aq_phase q" using p by auto
  have len: "length (encode_completion x) = 16" for x by (simp add: length_encode_completion sizeof_completion_def)
  have unch: "v_mem v' x = v_mem v x" if "x < ca \<or> ca + 16 \<le> x" "x < adm_prp1 a (v_mem v) \<or> adm_prp1 a (v_mem v) + data_len b a (v_mem v) \<le> x" for x
    using that(1) m1 [OF that(2)] by (auto simp: r(4) mem_write_def len)
  have z: "u32 0 = 0" "u16 0 = 0" "u32 (u32 y) = u32 y" "u16 (u16 y) = u16 y" for y by (simp_all add: u32_def u16_def)
  have mem: "v_mem v' = mem_write ca (encode_completion (completion eid (adm_command_id a (v_mem v)) (admin_status b a (v_mem v)) (admin_result b a v) q 0)) (v_mem v1)"
    "v_admin_q v' = Some (posted q)" by (simp_all add: r(4) id)
  show ?thesis
    by (intro exI [of _ v'] exI [of _ ca] conjI r(1,2) allI impI unch) (simp_all only: mem read_completion completion_sel [OF p] z posted_def ph)
qed

text \<open>C19: The admin queue is safe: whatever sequence of admin commands the host sends, with arbitrary contents of its memory at each of them, every
  command is answered, the device keeps its invariant, and the registers, the namespaces and the shape of the admin queue stay as they were. Each command
  meets the conditions of \<open>admin_host\<close>: the page of a log page or an Identify is in memory, that of a feature is zero or in memory; the namespace of an
  Identify exists; the number of a queue is at most \<open>NR_MAX_IO_QUEUE\<close>; and the host asks for at most 512 bytes of the SMART log and at most 4096 of the
  command effects: \<open>admin.c\<close> copies what is asked for, so a longer SMART log, even one that fits the page, reads behind the structure.\<close>

theorem admin_always_answers:
  assumes "vdev_inv b v" "(device_step (admin_request b) (admin_serve b))\<^sup>*\<^sup>* v t" "admin_request b t r"
  shows "\<exists>u. admin_serve b t r = Some u \<and> vdev_inv b u \<and> vdev_kept v u"
  by (rule adm.reach_answers [OF assms(2,1,3)])

section \<open>A device to try the properties on\<close>

definition demo_build :: build where
  "demo_build = \<lparr>b_type = SSD_TYPE_FDP, b_oneshot = 32768, b_pfn_valid = (\<lambda>_. True), b_memremap = (\<lambda>_. True)\<rparr>"

definition demo_ns :: vdev_ns where
  "demo_ns = \<lparr>vn_size = 1048576, vn_csi = NVME_CSI_NVM, vn_zp = \<lparr>zp_nr_zones = 0, zp_nr_active_zones = 0, zp_nr_open_zones = 0, zp_dies_per_zone = 0,
     zp_zone_size = 0, zp_zone_wb_size = 0, zp_nr_zrwa_zones = 0, zp_zrwafg_size = 0, zp_zrwa_size = 0, zp_zrwa_buffer_size = 0, zp_lbas_per_zrwafg = 0,
     zp_lbas_per_zrwa = 0\<rparr>\<rparr>"

definition demo_queue :: nvmev_admin_queue where
  "demo_queue = \<lparr>aq_phase = 1, aq_sq_depth = 2, aq_cq_depth = 2, aq_cq_head = 1, aq_nvme_sq = Some [4096], aq_nvme_cq = Some [8192]\<rparr>"

definition demo_vdev :: "(nat \<Rightarrow> nat) \<Rightarrow> vdev" where
  "demo_vdev m = (vdev_init m [demo_ns] 5 (fdp_init_ctx 0 fdp_ctx_static) True)\<lparr>v_admin_q := Some demo_queue\<rparr>"

text \<open>Memory with one command in the first entry: opcode, identifier, namespace, page address, and three double words from the tenth on.\<close>

definition demo_mem :: "nat \<Rightarrow> nat \<Rightarrow> nat \<Rightarrow> nat \<Rightarrow> nat \<Rightarrow> nat" where
  "demo_mem opc prp dw10 dw11 = (\<lambda>_. 0)(4096 := opc, 4098 := 7, 4100 := 1, 4121 := prp div 256, 4136 := dw10 mod 256, 4138 := dw10 div 65536, 4140 := dw11 mod 256, 4142 := dw11 div 65536)"

lemma demo_events: "length (events (fdp_init_ctx 0 fdp_ctx_static)) = 3"
  by (simp add: fdp_init_ctx_def fdp_ctx_static_def)

lemma demo_inv: "vdev_inv demo_build (demo_vdev m)" "v_admin_q (demo_vdev m) = Some demo_queue" "v_mem (demo_vdev m) = m" "v_ns (demo_vdev m) = [demo_ns]"
  by (simp_all add: vdev_inv_def demo_vdev_def vdev_init_def aq_ok_def demo_queue_def demo_build_def fdp_init_ctx_ok(1) demo_events)

lemma demo_entry: "sq_entry demo_queue 0 = Some 4096" "cq_entry demo_queue 1 = Some 8208"
  by (simp_all add: sq_entry_def cq_entry_def demo_queue_def sizeof_command_def sizeof_completion_def PAGE_SIZE_def)

lemma demo_fields:
  "adm_opcode 4096 (demo_mem opc prp dw10 dw11) = opc" "adm_command_id 4096 (demo_mem opc prp dw10 dw11) = 7" "adm_nsid 4096 (demo_mem opc prp dw10 dw11) = 1"
  "adm_prp1 4096 (demo_mem opc prp dw10 dw11) = prp div 256 * 256" "adm_cns 4096 (demo_mem opc prp dw10 dw11) = dw10 mod 256 + dw10 div 65536 * 65536"
  "adm_dword11 4096 (demo_mem opc prp dw10 dw11) = dw11 mod 256 + dw11 div 65536 * 65536" "adm_qid 4096 (demo_mem opc prp dw10 dw11) = dw10 mod 256"
  "adm_qsize 4096 (demo_mem opc prp dw10 dw11) = dw10 div 65536" "adm_fid 4096 (demo_mem opc prp dw10 dw11) = dw10 mod 256 + dw10 div 65536 * 65536"
  by (simp_all add: adm_opcode_def adm_command_id_def adm_nsid_def adm_prp1_def adm_cns_def adm_fid_def adm_dword11_def adm_qid_def adm_qsize_def rd_mem_def mem_bytes_def
      le_value_def upt_rec [of _ "numeral _"] demo_mem_def)

lemma demo_page: "page_ok demo_build a m"
  by (simp add: page_ok_def demo_build_def)

text \<open>An Identify of the controller into the page at 12288.\<close>

lemma demo_identify:
  fixes m defines "m \<equiv> demo_mem 6 12288 1 0"
  shows "admin_host demo_build 4096 (demo_vdev m)" "adm_opcode 4096 m \<noteq> nvme_admin_abort_cmd" "cmd_apart demo_build 4096 m" "data_len demo_build 4096 m = 4096"
proof -
  show "admin_host demo_build 4096 (demo_vdev m)" unfolding admin_host_def Let_def demo_inv(3) m_def demo_fields by (simp add: admin_opcodes demo_page)
  show "adm_opcode 4096 m \<noteq> nvme_admin_abort_cmd" by (simp add: m_def demo_fields admin_opcodes)
  show "data_len demo_build 4096 m = 4096" by (simp add: data_len_def m_def demo_fields admin_opcodes PAGE_SIZE_def)
  then show "cmd_apart demo_build 4096 m" by (simp add: cmd_apart_def m_def demo_fields sizeof_command_def)
qed

theorem admin_completion_witness:
  "\<exists>v'. proc_admin_req demo_build 0 (demo_vdev (demo_mem 6 12288 1 0)) = Some v' \<and> rd_mem 2 (8208 + 12) (v_mem v') = 7 \<and> rd_mem 2 (8208 + 14) (v_mem v') = 1 \<and>
     v_admin_q v' = Some (demo_queue\<lparr>aq_cq_head := 0, aq_phase := 0\<rparr>)"
proof -
  let ?m = "demo_mem 6 12288 1 0"
  have st: "admin_status demo_build 4096 ?m = 0"
    by (simp add: admin_status_def demo_fields admin_opcodes NVME_SC_SUCCESS_def)
  have c: "aq_cq_head demo_queue = 1" "aq_cq_depth demo_queue = 2" "aq_phase demo_queue = 1" by (simp_all add: demo_queue_def)
  from admin_completion [OF demo_inv(1,2) demo_entry(1) demo_identify(1), unfolded demo_inv(3), OF demo_identify(2,3)]
  obtain v' ca where "proc_admin_req demo_build 0 (demo_vdev ?m) = Some v'" "cq_entry demo_queue (aq_cq_head demo_queue) = Some ca"
    "rd_mem 2 (ca + 12) (v_mem v') = u16 (adm_command_id 4096 ?m)" "rd_mem 2 (ca + 14) (v_mem v') = 2 * admin_status demo_build 4096 ?m + aq_phase demo_queue"
    "v_admin_q v' = Some (if aq_cq_head demo_queue + 1 = aq_cq_depth demo_queue then demo_queue\<lparr>aq_cq_head := 0, aq_phase := 1 - aq_phase demo_queue\<rparr>
       else demo_queue\<lparr>aq_cq_head := aq_cq_head demo_queue + 1\<rparr>)" by blast
  then show ?thesis using c st demo_entry(2) by (simp add: demo_fields u16_def)
qed

theorem admin_always_answers_witness:
  "\<exists>u. admin_serve demo_build (demo_vdev (\<lambda>_. 0)) (demo_mem 6 12288 1 0, 0) = Some u \<and> vdev_inv demo_build u \<and> vdev_kept (demo_vdev (\<lambda>_. 0)) u"
proof -
  have e: "(demo_vdev m)\<lparr>v_mem := m'\<rparr> = demo_vdev m'" for m m' by (simp add: demo_vdev_def vdev_init_def)
  have "admin_request demo_build (demo_vdev (\<lambda>_. 0)) (demo_mem 6 12288 1 0, 0)"
    using demo_identify(1) by (simp add: admin_request_def admin_cmd_def demo_inv(2) demo_entry e)
  then show ?thesis using admin_always_answers [OF demo_inv(1) rtranclp.rtrancl_refl] by blast
qed

theorem registers_settle_witness:
  "\<exists>v'. bars_calls demo_build 4 (host_writes 65537 4096 8192 4587521 (demo_vdev (\<lambda>_. 0))) = Some v' \<and> nvmev_proc_bars demo_build v' = Some (False, v') \<and>
     host_regs v' = (4587521, 65537, 4096, 8192)"
proof -
  have "regs_ok demo_build (host_writes 65537 4096 8192 4587521 (demo_vdev (\<lambda>_. 0)))"
    by (simp add: regs_ok_def demo_build_def host_writes_def demo_vdev_def vdev_init_def)
  from registers_settle [OF this] show ?thesis by (simp add: host_regs_def host_writes_def)
qed

theorem controller_bring_up_witness:
  "\<exists>v' q. bars_calls demo_build 4 (host_writes 65537 4096 8192 4587521 (vdev_init (\<lambda>_. 0) [demo_ns] 5 (fdp_init_ctx 0 fdp_ctx_static) True)) = Some v' \<and>
     r_rdy (v_bar v') = 1 \<and> v_admin_q v' = Some q \<and> aq_sq_depth q = 2 \<and> sq_entry q 1 = Some 4160 \<and> vdev_inv demo_build v'"
proof -
  have h: "cc_en 4587521 = 1" "cc_shn 4587521 \<noteq> 1" "b_pfn_valid demo_build (4096 div PAGE_SIZE)" "b_pfn_valid demo_build (8192 div PAGE_SIZE)"
    "b_type demo_build = SSD_TYPE_ZNS \<longrightarrow> (\<forall>n\<in>set [demo_ns]. vn_csi n = NVME_CSI_ZNS)" "length [demo_ns] \<le> 2" "(65537 :: nat) \<noteq> 0" "(4096 :: nat) \<noteq> 0" "(8192 :: nat) \<noteq> 0"
    by (simp_all add: cc_en_def cc_shn_def demo_build_def)
  from controller_bring_up [OF h(7-9,1-4) fdp_init_ctx_ok(1) demo_events h(6,5), of "\<lambda>_. 0" 5 True]
  obtain v' q where r: "bars_calls demo_build 4 (host_writes 65537 4096 8192 4587521 (vdev_init (\<lambda>_. 0) [demo_ns] 5 (fdp_init_ctx 0 fdp_ctx_static) True)) = Some v'"
    "r_rdy (v_bar v') = 1" "v_admin_q v' = Some q" "aq_sq_depth q = 65537 mod 4096 + 1" "\<forall>k<aq_sq_depth q. sq_entry q k = Some (4096 div 4096 * 4096 + 64 * k)" "vdev_inv demo_build v'"
    by blast
  have "sq_entry q 1 = Some 4160" using r(4,5) by simp
  then show ?thesis using r by auto
qed

end
