(* ===== verification/Admin_Props.thy ===== *)
theory Admin_Props
  imports Ctrl_Props
begin

text \<open>
  What the admin commands do: the Identify structures read back, queues can be addressed once they
  are created, the features round trip, and the doorbell of the admin queue.
\<close>

section \<open>Identify\<close>

text \<open>A field of a structure in a page that a command has written and a completion elsewhere has left alone.\<close>

lemma page_field:
  assumes p: "put_fields (as @ (off, bs) # cs) (replicate PAGE_SIZE 0) = Some page" and d: "\<forall>(o', bs')\<in>set cs. off + length bs \<le> o' \<or> o' + length bs' \<le> off"
    and l: "off + length bs \<le> PAGE_SIZE" and c: "ca + 16 \<le> prp \<or> prp + PAGE_SIZE \<le> ca" and e: "length e = 16"
  shows "mem_bytes (mem_write ca e (mem_write prp page m)) (prp + off) (length bs) = bs"
proof -
  have len: "length page = PAGE_SIZE"
  proof -
    have "length page' = length page0" if "foldM (\<lambda>(off, bs). put_bytes off bs) fs page0 = Some page'" for fs page0 page'
      using that by (induction fs arbitrary: page0) (auto simp: put_bytes_def split: if_splits Option.bind_splits)
    from this [OF p [unfolded put_fields_def]] show ?thesis by simp
  qed
  have "mem_bytes (mem_write ca e (mem_write prp page m)) (prp + off) (length bs) = mem_bytes (mem_write prp page m) (prp + off) (length bs)"
    by (rule mem_bytes_same) (use c e l in \<open>auto simp: mem_write_def\<close>)
  also have "... = get_bytes off (length bs) page" by (rule mem_bytes_part) (use len l in simp)
  also have "... = bs" by (rule get_put_field [OF p d])
  finally show ?thesis .
qed

lemma rd_within: "mem_bytes m x (length bs) = bs \<Longrightarrow> j + n \<le> length bs \<Longrightarrow> rd_mem n (x + j) m = le_value (get_bytes j n bs)"
proof -
  assume m: "mem_bytes m x (length bs) = bs" and l: "j + n \<le> length bs"
  have "mem_bytes m (x + j) n = get_bytes j n (mem_bytes m x (length bs))"
    by (rule nth_equalityI) (use l in \<open>auto simp: mem_bytes_def get_bytes_def add.assoc\<close>)
  then show ?thesis using m by (simp add: rd_mem_def)
qed

text \<open>An Identify that fills one page: the state afterwards.\<close>

lemma identify_page:
  assumes v: "vdev_inv b v" and q: "v_admin_q v = Some q" and c: "sq_entry q eid = Some a"
    and r: "proc_admin_req b eid v = put_fields fs (replicate PAGE_SIZE 0) \<bind> (\<lambda>page. make_cq_entry eid sc (v\<lparr>v_mem := mem_write p page (v_mem v)\<rparr>))"
    and fs: "\<forall>(off, bs)\<in>set fs. off + length bs \<le> PAGE_SIZE"
  shows "\<exists>v' ca page e. proc_admin_req b eid v = Some v' \<and> cq_entry q (aq_cq_head q) = Some ca \<and> put_fields fs (replicate PAGE_SIZE 0) = Some page \<and> length e = 16 \<and>
     v_mem v' = mem_write ca e (mem_write p page (v_mem v))"
proof -
  obtain page where pg: "put_fields fs (replicate PAGE_SIZE 0) = Some page" using put_fields_total [of fs "replicate PAGE_SIZE 0"] fs by auto
  obtain ca where ca: "cq_entry q (aq_cq_head q) = Some ca" using cq_entry_total v q by (auto simp: vdev_inv_def)
  let ?e = "encode_completion (completion eid (adm_command_id a (mem_write p page (v_mem v))) sc 0 q 0)"
  have "length ?e = 16" by (simp add: length_encode_completion sizeof_completion_def)
  moreover have "proc_admin_req b eid v = Some (v\<lparr>v_mem := mem_write ca ?e (mem_write p page (v_mem v)), v_admin_q := Some (posted q)\<rparr>)"
    using make_cq_entry_eq [of "v\<lparr>v_mem := mem_write p page (v_mem v)\<rparr>" q eid a ca] q c ca pg r by (simp add: make_cq_entry_def)
  ultimately show ?thesis using ca pg by (intro exI [of _ ca] exI [of _ page] exI [of _ ?e] exI) (auto intro!: exI)
qed

text \<open>C24: Identify Namespace describes the namespace: the page read back at the address of the command gives as size, capacity and use the number of
  whole blocks of the namespace, and the format it names has the block size the device works with and no metadata.\<close>

theorem identify_namespace_reads_back:
  assumes v: "vdev_inv b v" and q: "v_admin_q v = Some q" and c: "sq_entry q eid = Some a" and h: "admin_host b a v"
    and op: "adm_opcode a (v_mem v) = nvme_admin_identify" "adm_cns a (v_mem v) = 0"
    and ns: "v_ns v ! (adm_nsid a (v_mem v) - 1) = ns" "vn_size ns < 2 ^ 64"
    and apart: "\<And>ca. cq_entry q (aq_cq_head q) = Some ca \<Longrightarrow> ca + 16 \<le> adm_prp1 a (v_mem v) \<or> adm_prp1 a (v_mem v) + PAGE_SIZE \<le> ca"
  shows "\<exists>v'. proc_admin_req b eid v = Some v' \<and> (let p = adm_prp1 a (v_mem v); m = v_mem v'; f = rd_mem 1 (p + 26) m in
     rd_mem 8 p m = vn_size ns div 2 ^ LBA_BITS \<and> rd_mem 8 (p + 8) m = vn_size ns div 2 ^ LBA_BITS \<and> rd_mem 8 (p + 16) m = vn_size ns div 2 ^ LBA_BITS \<and>
     rd_mem 2 (p + 128 + 4 * f) m = 0 \<and> rd_mem 1 (p + 128 + 4 * f + 2) m = LBA_BITS)"
proof -
  let ?p = "adm_prp1 a (v_mem v)" and ?n = "vn_size ns div 2 ^ LBA_BITS"
  let ?k = "u16 (u16 (b_oneshot b div 2 ^ LBA_BITS) + 65535)"
  define fdp where "fdp = (if b_type b = SSD_TYPE_FDP then [(24 :: nat, [16 :: nat]), (102, le_bytes 2 1), (64, le_bytes 2 ?k), (66, le_bytes 2 ?k), (72, le_bytes 2 ?k)] else [])"
  define fs where "fs = [(128 :: nat, concat (map encode_lbaf lbafs)), (26, [0]), (25, [6]), (29, [0]), (0, le_bytes 8 ?n), (8, le_bytes 8 ?n), (16, le_bytes 8 ?n)] @ fdp"
  have id: "id_ns_fields b (vn_size ns) = Some fs" by (simp add: id_ns_fields_def fs_def fdp_def LBA_BITS_def lbafs_def Let_def)
  then have fits: "\<forall>(off, bs)\<in>set fs. off + length bs \<le> PAGE_SIZE" using id_ns_fields_ok [of b "vn_size ns"] by auto
  have n: "1 \<le> adm_nsid a (v_mem v)" "adm_nsid a (v_mem v) \<le> length (v_ns v)" "length (v_ns v) \<le> 2"
    using h op v unfolding admin_host_def vdev_inv_def Let_def by auto
  have i: "u32_sub (adm_nsid a (v_mem v)) 1 = adm_nsid a (v_mem v) - 1" using n by (intro u32_sub_id) auto
  have pr: "prp_address b ?p = Some ?p" using h op(1) by (simp add: admin_host_def prp_address_def page_ok_def Let_def)
  have "proc_admin_req b eid v = put_fields fs (replicate PAGE_SIZE 0) \<bind> (\<lambda>page. make_cq_entry eid NVME_SC_SUCCESS (v\<lparr>v_mem := mem_write ?p page (v_mem v)\<rparr>))"
    using q c op i n pr id ns(1) by (simp add: proc_admin_req_def admin_identify_def admin_identify_namespace_def admin_cmd_def admin_opcodes)
  from identify_page [OF v q c this fits] obtain v' ca page e where
    r: "proc_admin_req b eid v = Some v'" "cq_entry q (aq_cq_head q) = Some ca" "put_fields fs (replicate PAGE_SIZE 0) = Some page" "length e = 16"
      "v_mem v' = mem_write ca e (mem_write ?p page (v_mem v))" by blast
  note ap = apart [OF r(2)]
  have f: "mem_bytes (v_mem v') (?p + off) (length bs) = bs"
    if "fs = as @ (off, bs) # cs" "\<forall>(o', bs')\<in>set cs. off + length bs \<le> o' \<or> o' + length bs' \<le> off" "off + length bs \<le> PAGE_SIZE" for as off bs cs
    using page_field [OF _ that(2,3) ap r(4)] r(3,5) that(1) by simp
  have d: "\<forall>(o', bs')\<in>set fdp. off + k \<le> o' \<or> o' + length bs' \<le> off" if "off + k \<le> 24 \<or> off = 26 \<and> k = 1 \<or> 128 \<le> off" for off k using that by (auto simp: fdp_def)
  have "?n < 2 ^ 64" using ns(2) by (simp add: LBA_BITS_def)
  then have val: "le_value (le_bytes 8 ?n) = ?n" by (intro le_value_le_bytes) simp
  have z: "rd_mem 8 (?p + 0) (v_mem v') = ?n" "rd_mem 8 (?p + 8) (v_mem v') = ?n" "rd_mem 8 (?p + 16) (v_mem v') = ?n"
    using f [of "take 4 fs" 0 "le_bytes 8 ?n" "drop 5 fs"] f [of "take 5 fs" 8 "le_bytes 8 ?n" "drop 6 fs"] f [of "take 6 fs" 16 "le_bytes 8 ?n" "drop 7 fs"]
      d [of 0 8] d [of 8 8] d [of 16 8] by (simp_all add: fs_def val PAGE_SIZE_def rd_mem_def)
  have fl: "rd_mem 1 (?p + 26) (v_mem v') = 0"
    using f [of "take 1 fs" 26 "[0]" "drop 2 fs"] d [of 26 1] by (simp add: fs_def PAGE_SIZE_def rd_mem_def le_value_def)
  let ?t = "concat (map encode_lbaf lbafs)"
  have lt: "length ?t = 28" by (simp add: lbafs_def encode_lbaf_def)
  have "mem_bytes (v_mem v') (?p + 128) (length ?t) = ?t"
    using f [of "[]" 128 ?t "drop 1 fs"] lt d [of 128 28] by (simp add: fs_def PAGE_SIZE_def)
  note t = rd_within [OF this, unfolded lt]
  have "rd_mem 2 (?p + 128 + 0) (v_mem v') = 0" using t [of 0 2] by (simp add: lbafs_def encode_lbaf_def get_bytes_def le_value_bytes)
  moreover have "rd_mem 1 (?p + 128 + 2) (v_mem v') = LBA_BITS" using t [of 2 1] by (simp add: lbafs_def encode_lbaf_def get_bytes_def le_value_def LBA_BITS_def)
  ultimately show ?thesis using r(1) z fl by (intro exI [of _ v']) (simp add: Let_def)
qed

theorem identify_namespace_reads_back_witness:
  "\<exists>v'. proc_admin_req demo_build 0 (demo_vdev (demo_mem 6 12288 0 0)) = Some v' \<and> rd_mem 8 12288 (v_mem v') = 2048"
proof -
  let ?m = "demo_mem 6 12288 0 0"
  have h: "admin_host demo_build 4096 (demo_vdev ?m)" unfolding admin_host_def Let_def demo_inv(3,4) demo_fields by (simp add: admin_opcodes demo_page)
  have f: "adm_opcode 4096 ?m = nvme_admin_identify" "adm_cns 4096 ?m = 0" "adm_prp1 4096 ?m = 12288" by (simp_all add: demo_fields admin_opcodes)
  have ns: "v_ns (demo_vdev ?m) ! (adm_nsid 4096 ?m - 1) = demo_ns" "vn_size demo_ns < 2 ^ 64" by (simp_all add: demo_inv(4) demo_fields demo_ns_def)
  have "ca + 16 \<le> 12288 \<or> 12288 + PAGE_SIZE \<le> ca" if "cq_entry demo_queue (aq_cq_head demo_queue) = Some ca" for ca
  proof -
    have "aq_cq_head demo_queue = 1" by (simp add: demo_queue_def)
    with that demo_entry(2) show ?thesis by simp
  qed
  with identify_namespace_reads_back [OF demo_inv(1,2) demo_entry(1) h, unfolded demo_inv(3) f(3), OF f(1,2) ns]
  show ?thesis by (auto simp: Let_def demo_ns_def LBA_BITS_def)
qed

section \<open>Queues\<close>

text \<open>The \<open>k\<close>-th entry of size \<open>s\<close> in consecutive pages.\<close>

lemma queue_entry_at:
  assumes "b_pfn_valid b (prp div PAGE_SIZE) \<or> b_memremap b prp" "0 < s" "s dvd PAGE_SIZE" "k < d"
  shows "queue_entry (queue_pages b prp (DIV_ROUND_UP (d * s) PAGE_SIZE)) s k = Some (prp + s * k)"
proof -
  let ?n = "PAGE_SIZE div s"
  have "?n * s = PAGE_SIZE" using assms(3) by simp
  then have "PAGE_SIZE * (k div ?n) + s * (k mod ?n) = s * (?n * (k div ?n) + k mod ?n)" by (simp only: distrib_left mult.assoc [symmetric] mult.commute [of s])
  then have "prp + k div ?n * PAGE_SIZE + s * (k mod ?n) = prp + s * k" by (simp add: mult.commute)
  then show ?thesis using admin_pages_nth(1) [OF round_up_covers assms(2-4)] assms(1) by (auto simp: queue_entry_def queue_pages_def Let_def)
qed

lemma completed:
  assumes "v_admin_q w = Some q" "sq_entry q eid = Some a" "aq_ok q"
  shows "\<exists>m. make_cq_entry eid sc w = Some (w\<lparr>v_mem := m, v_admin_q := Some (posted q)\<rparr>)"
  using cq_entry_total [OF assms(3)] make_cq_entry_eq [OF assms(1,2)] by (auto simp: make_cq_entry_def)

lemma entry_sizes: "sizeof_command = 64" "sizeof_completion = 16" "(64 :: nat) dvd PAGE_SIZE" "(16 :: nat) dvd PAGE_SIZE"
  by (simp_all add: sizeof_command_def sizeof_completion_def PAGE_SIZE_def dvd_def)

definition new_sq :: "build \<Rightarrow> nat \<Rightarrow> (nat \<Rightarrow> nat) \<Rightarrow> created_sq" where
  "new_sq b a m = \<lparr>csq_qid = adm_qid a m, csq_cqid = adm_sq_cqid a m, csq_priority = adm_qflags a m div 2 * 2, csq_phys_contig = odd (adm_qflags a m),
     csq_queue_size = adm_qsize a m + 1, csq_pages = queue_pages b (adm_prp1 a m) (DIV_ROUND_UP ((adm_qsize a m + 1) * sizeof_command) PAGE_SIZE)\<rparr>"

lemma create_sq_effect:
  assumes v: "vdev_inv b v" and q: "v_admin_q v = Some q" and c: "sq_entry q eid = Some a" and id: "adm_qid a (v_mem v) \<le> NR_MAX_IO_QUEUE"
    and op: "adm_opcode a (v_mem v) = nvme_admin_create_sq"
  shows "\<exists>m. proc_admin_req b eid v = Some (v\<lparr>v_sqes := (v_sqes v)[adm_qid a (v_mem v) := Some (new_sq b a (v_mem v))], v_dbs := (v_dbs v)[adm_qid a (v_mem v) * 2 := 0],
     v_old_dbs := (v_old_dbs v)[adm_qid a (v_mem v) * 2 := 0], v_mem := m, v_admin_q := Some (posted q)\<rparr>)"
proof -
  let ?id = "adm_qid a (v_mem v)"
  let ?w = "v\<lparr>v_sqes := (v_sqes v)[?id := Some (new_sq b a (v_mem v))], v_dbs := (v_dbs v)[?id * 2 := 0], v_old_dbs := (v_old_dbs v)[?id * 2 := 0]\<rparr>"
  have l: "?id < length (v_sqes v)" "?id * 2 < length (v_dbs v)" "?id * 2 < length (v_old_dbs v)" using v id by (simp_all add: vdev_inv_def NR_MAX_IO_QUEUE_def)
  have "proc_admin_req b eid v = make_cq_entry eid NVME_SC_SUCCESS ?w"
    using q c op l by (simp add: proc_admin_req_def admin_cmd_def admin_opcodes admin_create_sq_def new_sq_def Let_def)
  moreover have "aq_ok q" using v q by (simp add: vdev_inv_def)
  ultimately show ?thesis using completed [of ?w q eid a NVME_SC_SUCCESS] q c by simp
qed

definition new_cq :: "build \<Rightarrow> nat \<Rightarrow> (nat \<Rightarrow> nat) \<Rightarrow> created_cq" where
  "new_cq b a m = \<lparr>ccq_qid = adm_qid a m, ccq_irq_enabled = odd (adm_qflags a m div 2), ccq_irq_vector = (if odd (adm_qflags a m div 2) then adm_irq_vector a m else 0),
     ccq_interrupt_ready = False, ccq_queue_size = adm_qsize a m + 1, ccq_phase = 1, ccq_head = 0, ccq_tail = -1, ccq_phys_contig = odd (adm_qflags a m),
     ccq_pages = queue_pages b (adm_prp1 a m) (DIV_ROUND_UP ((adm_qsize a m + 1) * sizeof_completion) PAGE_SIZE)\<rparr>"

lemma create_cq_effect:
  assumes v: "vdev_inv b v" and q: "v_admin_q v = Some q" and c: "sq_entry q eid = Some a" and id: "adm_qid a (v_mem v) \<le> NR_MAX_IO_QUEUE"
    and op: "adm_opcode a (v_mem v) = nvme_admin_create_cq"
  shows "\<exists>m. proc_admin_req b eid v = Some (v\<lparr>v_cqes := (v_cqes v)[adm_qid a (v_mem v) := Some (new_cq b a (v_mem v))], v_dbs := (v_dbs v)[adm_qid a (v_mem v) * 2 + 1 := 0],
     v_old_dbs := (v_old_dbs v)[adm_qid a (v_mem v) * 2 + 1 := 0], v_mem := m, v_admin_q := Some (posted q)\<rparr>)"
proof -
  let ?id = "adm_qid a (v_mem v)"
  let ?w = "v\<lparr>v_cqes := (v_cqes v)[?id := Some (new_cq b a (v_mem v))], v_dbs := (v_dbs v)[?id * 2 + 1 := 0], v_old_dbs := (v_old_dbs v)[?id * 2 + 1 := 0]\<rparr>"
  have l: "?id < length (v_cqes v)" "?id * 2 + 1 < length (v_dbs v)" "?id * 2 + 1 < length (v_old_dbs v)" using v id by (simp_all add: vdev_inv_def NR_MAX_IO_QUEUE_def)
  have "proc_admin_req b eid v = make_cq_entry eid NVME_SC_SUCCESS ?w"
    using q c op l by (simp add: proc_admin_req_def admin_cmd_def admin_opcodes admin_create_cq_def new_cq_def Let_def)
  moreover have "aq_ok q" using v q by (simp add: vdev_inv_def)
  ultimately show ?thesis using completed [of ?w q eid a NVME_SC_SUCCESS] q c by simp
qed

text \<open>C25: A queue that the host creates can be used: after Create I/O Submission Queue the device has a queue of the given size under its number, entry
  \<open>k\<close> is found 64 * k bytes behind the address the host gave, its doorbell starts at 0, and no other queue and no other doorbell changes; the same holds of
  Create I/O Completion Queue with entries of 16 bytes, an empty ring in phase 1 and the interrupt vector of the command.\<close>

theorem created_queue_addressable:
  assumes v: "vdev_inv b v" and q: "v_admin_q v = Some q" and c: "sq_entry q eid = Some a" and id: "adm_qid a (v_mem v) = qid" "qid \<le> NR_MAX_IO_QUEUE"
    and p: "adm_prp1 a (v_mem v) = prp" "b_pfn_valid b (prp div PAGE_SIZE) \<or> b_memremap b prp" and n: "adm_qsize a (v_mem v) + 1 = n"
  shows "(adm_opcode a (v_mem v) = nvme_admin_create_sq \<longrightarrow> (\<exists>v' sq. proc_admin_req b eid v = Some v' \<and> v_sqes v' = (v_sqes v)[qid := Some sq] \<and> v_cqes v' = v_cqes v \<and>
       v_dbs v' = (v_dbs v)[qid * 2 := 0] \<and> v_old_dbs v' = (v_old_dbs v)[qid * 2 := 0] \<and>
       csq_queue_size sq = n \<and> csq_cqid sq = adm_sq_cqid a (v_mem v) \<and> (\<forall>k<n. queue_entry (csq_pages sq) 64 k = Some (prp + 64 * k)))) \<and>
     (adm_opcode a (v_mem v) = nvme_admin_create_cq \<longrightarrow> (\<exists>v' cq. proc_admin_req b eid v = Some v' \<and> v_cqes v' = (v_cqes v)[qid := Some cq] \<and> v_sqes v' = v_sqes v \<and>
       v_dbs v' = (v_dbs v)[qid * 2 + 1 := 0] \<and> v_old_dbs v' = (v_old_dbs v)[qid * 2 + 1 := 0] \<and>
       ccq_queue_size cq = n \<and> ccq_phase cq = 1 \<and> ccq_head cq = 0 \<and> ccq_irq_enabled cq = odd (adm_qflags a (v_mem v) div 2) \<and>
       (ccq_irq_enabled cq \<longrightarrow> ccq_irq_vector cq = adm_irq_vector a (v_mem v)) \<and> (\<forall>k<n. queue_entry (ccq_pages cq) 16 k = Some (prp + 16 * k))))"
proof (intro conjI impI)
  assume op: "adm_opcode a (v_mem v) = nvme_admin_create_sq"
  obtain m where r: "proc_admin_req b eid v = Some (v\<lparr>v_sqes := (v_sqes v)[qid := Some (new_sq b a (v_mem v))], v_dbs := (v_dbs v)[qid * 2 := 0],
     v_old_dbs := (v_old_dbs v)[qid * 2 := 0], v_mem := m, v_admin_q := Some (posted q)\<rparr>)" using create_sq_effect [OF v q c _ op] id by auto
  have "queue_entry (csq_pages (new_sq b a (v_mem v))) 64 k = Some (prp + 64 * k)" if "k < n" for k
    using queue_entry_at [OF p(2) _ entry_sizes(3) that] p(1) n entry_sizes(1) by (simp add: new_sq_def)
  moreover have "csq_queue_size (new_sq b a (v_mem v)) = n" "csq_cqid (new_sq b a (v_mem v)) = adm_sq_cqid a (v_mem v)" using n by (simp_all add: new_sq_def)
  ultimately show "\<exists>v' sq. proc_admin_req b eid v = Some v' \<and> v_sqes v' = (v_sqes v)[qid := Some sq] \<and> v_cqes v' = v_cqes v \<and>
       v_dbs v' = (v_dbs v)[qid * 2 := 0] \<and> v_old_dbs v' = (v_old_dbs v)[qid * 2 := 0] \<and>
       csq_queue_size sq = n \<and> csq_cqid sq = adm_sq_cqid a (v_mem v) \<and> (\<forall>k<n. queue_entry (csq_pages sq) 64 k = Some (prp + 64 * k))"
    using r by (intro exI [of _ "the (proc_admin_req b eid v)"] exI [of _ "new_sq b a (v_mem v)"]) simp
next
  assume op: "adm_opcode a (v_mem v) = nvme_admin_create_cq"
  obtain m where r: "proc_admin_req b eid v = Some (v\<lparr>v_cqes := (v_cqes v)[qid := Some (new_cq b a (v_mem v))], v_dbs := (v_dbs v)[qid * 2 + 1 := 0],
     v_old_dbs := (v_old_dbs v)[qid * 2 + 1 := 0], v_mem := m, v_admin_q := Some (posted q)\<rparr>)" using create_cq_effect [OF v q c _ op] id by auto
  have "queue_entry (ccq_pages (new_cq b a (v_mem v))) 16 k = Some (prp + 16 * k)" if "k < n" for k
    using queue_entry_at [OF p(2) _ entry_sizes(4) that] p(1) n entry_sizes(2) by (simp add: new_cq_def)
  moreover have "ccq_queue_size (new_cq b a (v_mem v)) = n" "ccq_phase (new_cq b a (v_mem v)) = 1" "ccq_head (new_cq b a (v_mem v)) = 0"
    "ccq_irq_enabled (new_cq b a (v_mem v)) = odd (adm_qflags a (v_mem v) div 2)" "ccq_irq_enabled (new_cq b a (v_mem v)) \<longrightarrow> ccq_irq_vector (new_cq b a (v_mem v)) = adm_irq_vector a (v_mem v)"
    using n by (simp_all add: new_cq_def)
  ultimately show "\<exists>v' cq. proc_admin_req b eid v = Some v' \<and> v_cqes v' = (v_cqes v)[qid := Some cq] \<and> v_sqes v' = v_sqes v \<and>
       v_dbs v' = (v_dbs v)[qid * 2 + 1 := 0] \<and> v_old_dbs v' = (v_old_dbs v)[qid * 2 + 1 := 0] \<and>
       ccq_queue_size cq = n \<and> ccq_phase cq = 1 \<and> ccq_head cq = 0 \<and> ccq_irq_enabled cq = odd (adm_qflags a (v_mem v) div 2) \<and>
       (ccq_irq_enabled cq \<longrightarrow> ccq_irq_vector cq = adm_irq_vector a (v_mem v)) \<and> (\<forall>k<n. queue_entry (ccq_pages cq) 16 k = Some (prp + 16 * k))"
    using r by (intro exI [of _ "the (proc_admin_req b eid v)"] exI [of _ "new_cq b a (v_mem v)"]) simp
qed

theorem created_queue_addressable_witness:
  "\<exists>v' sq. proc_admin_req demo_build 0 (demo_vdev (demo_mem 1 12288 65537 0)) = Some v' \<and> v_sqes v' ! 1 = Some sq \<and> queue_entry (csq_pages sq) 64 1 = Some 12352"
proof -
  let ?m = "demo_mem 1 12288 65537 0" and ?v = "demo_vdev (demo_mem 1 12288 65537 0)"
  have f: "adm_qid 4096 (v_mem ?v) = 1" "(1 :: nat) \<le> NR_MAX_IO_QUEUE" "adm_prp1 4096 (v_mem ?v) = 12288" "adm_qsize 4096 (v_mem ?v) + 1 = 2"
    "adm_opcode 4096 (v_mem ?v) = nvme_admin_create_sq" "b_pfn_valid demo_build (12288 div PAGE_SIZE) \<or> b_memremap demo_build 12288"
    by (simp_all add: demo_inv(3) demo_fields NR_MAX_IO_QUEUE_def admin_opcodes demo_build_def)
  have l: "length (v_sqes ?v) = 73" by (simp add: demo_vdev_def vdev_init_def NR_MAX_IO_QUEUE_def)
  from created_queue_addressable [OF demo_inv(1,2) demo_entry(1) f(1-3,6,4)] f(5)
  obtain v' sq where "proc_admin_req demo_build 0 ?v = Some v'" "v_sqes v' = (v_sqes ?v)[1 := Some sq]" "\<forall>k<2. queue_entry (csq_pages sq) 64 k = Some (12288 + 64 * k)" by blast
  then show ?thesis using l by (intro exI [of _ v'] exI [of _ sq]) simp
qed

section \<open>Features\<close>

lemma completed_result:
  assumes "v_admin_q w = Some q" "sq_entry q eid = Some a" "aq_ok q"
  shows "\<exists>m ca. make_cq_entry_results eid sc r0 0 w = Some (w\<lparr>v_mem := m, v_admin_q := Some (posted q)\<rparr>) \<and> cq_entry q (aq_cq_head q) = Some ca \<and> rd_mem 4 ca m = u32 r0"
proof -
  obtain ca where ca: "cq_entry q (aq_cq_head q) = Some ca" using cq_entry_total [OF assms(3)] by blast
  let ?m = "mem_write ca (encode_completion (completion eid (adm_command_id a (v_mem w)) sc r0 q 0)) (v_mem w)"
  have "rd_mem 4 ca ?m = u32 (cqe_result0 (completion eid (adm_command_id a (v_mem w)) sc r0 q 0))" by (rule read_completion(1))
  then have "rd_mem 4 ca ?m = u32 r0" by (simp add: completion_def u32_def)
  then show ?thesis using make_cq_entry_eq [OF assms(1,2) ca, of sc r0 0] ca by blast
qed

text \<open>The number of queues round trips: Set Features grants the host the queues it asks for, at most 72 of each kind, reports the grant in the
  completion, and a later Get Features, whatever the host has done to its memory in between, reports the same grant.\<close>

theorem num_queues_round_trip:
  assumes v: "vdev_inv b v" and q: "v_admin_q v = Some q" and c1: "sq_entry q e1 = Some a1" and c2: "sq_entry q e2 = Some a2"
    and f1: "adm_opcode a1 (v_mem v) = nvme_admin_set_features" "adm_fid a1 (v_mem v) = NVME_FEAT_NUM_QUEUES" "adm_dword11 a1 (v_mem v) = cqs * 65536 + sqs" "cqs < 65536" "sqs < 65536"
    and f2: "adm_opcode a2 m2 = nvme_admin_get_features" "adm_fid a2 m2 = NVME_FEAT_NUM_QUEUES"
  shows "\<exists>v1 v2 ca1 ca2. proc_admin_req b e1 v = Some v1 \<and> proc_admin_req b e2 (v1\<lparr>v_mem := m2\<rparr>) = Some v2 \<and>
     cq_entry q (aq_cq_head q) = Some ca1 \<and> cq_entry q (aq_cq_head (posted q)) = Some ca2 \<and>
     v_nr_sq v2 = min (sqs + 1) 72 \<and> v_nr_cq v2 = min (cqs + 1) 72 \<and>
     rd_mem 4 ca1 (v_mem v1) = min cqs 71 * 65536 + min sqs 71 \<and> rd_mem 4 ca2 (v_mem v2) = rd_mem 4 ca1 (v_mem v1)"
proof -
  let ?w = "v\<lparr>v_nr_sq := min (sqs + 1) 72, v_nr_cq := min (cqs + 1) 72\<rparr>" and ?r = "min cqs 71 * 65536 + min sqs 71"
  have ok: "aq_ok q" using v q by (simp add: vdev_inv_def)
  have res: "num_queues_result x = ?r" if "v_nr_sq x = min (sqs + 1) 72" "v_nr_cq x = min (cqs + 1) 72" for x
    using num_queues [of x] that by (simp add: NR_MAX_IO_QUEUE_def min_def)
  have u: "u32 ?r = ?r" by (simp add: u32_def min_def)
  have "proc_admin_req b e1 v = make_cq_entry_results e1 NVME_SC_SUCCESS ?r 0 ?w"
    using q c1 f1 res [of ?w] by (simp add: proc_admin_req_def admin_cmd_def admin_opcodes admin_set_features_def NR_MAX_IO_QUEUE_def Let_def)
  with completed_result [of ?w q e1 a1 NVME_SC_SUCCESS ?r] q c1 ok u obtain m ca1 where
    r1: "proc_admin_req b e1 v = Some (?w\<lparr>v_mem := m, v_admin_q := Some (posted q)\<rparr>)" "cq_entry q (aq_cq_head q) = Some ca1" "rd_mem 4 ca1 m = ?r" by auto
  have e: "sq_entry (posted q) e2 = Some a2" "cq_entry (posted q) i = cq_entry q i" for i using c2 by (simp_all add: sq_entry_def cq_entry_def)
  let ?w2 = "?w\<lparr>v_mem := m2, v_admin_q := Some (posted q)\<rparr>"
  have "proc_admin_req b e2 ?w2 = make_cq_entry_results e2 NVME_SC_SUCCESS ?r 0 ?w2"
    using e f2 res [of ?w2] by (simp add: proc_admin_req_def admin_cmd_def admin_opcodes admin_get_features_def Let_def)
  with completed_result [of ?w2 "posted q" e2 a2 NVME_SC_SUCCESS ?r] e posted_ok [OF ok] u obtain m' ca2 where
    r2: "proc_admin_req b e2 ?w2 = Some (?w2\<lparr>v_mem := m', v_admin_q := Some (posted (posted q))\<rparr>)" "cq_entry q (aq_cq_head (posted q)) = Some ca2" "rd_mem 4 ca2 m' = ?r" by auto
  define v1 where "v1 = ?w\<lparr>v_mem := m, v_admin_q := Some (posted q)\<rparr>"
  define v2 where "v2 = ?w2\<lparr>v_mem := m', v_admin_q := Some (posted (posted q))\<rparr>"
  have w2: "v1\<lparr>v_mem := m2\<rparr> = ?w2" by (simp add: v1_def)
  have "proc_admin_req b e1 v = Some v1" "proc_admin_req b e2 (v1\<lparr>v_mem := m2\<rparr>) = Some v2" "v_nr_sq v2 = min (sqs + 1) 72" "v_nr_cq v2 = min (cqs + 1) 72"
    "rd_mem 4 ca1 (v_mem v1) = ?r" "rd_mem 4 ca2 (v_mem v2) = rd_mem 4 ca1 (v_mem v1)"
    using r1(1) r2(1) r1(3) r2(3) unfolding w2 by (simp_all only: v1_def [symmetric] v2_def [symmetric]) (simp_all add: v1_def v2_def)
  then show ?thesis using r1(2) r2(2) by blast
qed

theorem num_queues_round_trip_witness:
  "\<exists>v1 v2 ca1 ca2. proc_admin_req demo_build 0 (demo_vdev (demo_mem 9 0 7 6553605)) = Some v1 \<and> proc_admin_req demo_build 0 (v1\<lparr>v_mem := demo_mem 10 0 7 0\<rparr>) = Some v2 \<and>
     v_nr_sq v2 = 6 \<and> v_nr_cq v2 = 72 \<and> rd_mem 4 ca1 (v_mem v1) = 4653061 \<and> rd_mem 4 ca2 (v_mem v2) = 4653061"
proof -
  let ?v = "demo_vdev (demo_mem 9 0 7 6553605)"
  have f: "adm_opcode 4096 (v_mem ?v) = nvme_admin_set_features" "adm_fid 4096 (v_mem ?v) = NVME_FEAT_NUM_QUEUES" "adm_dword11 4096 (v_mem ?v) = 100 * 65536 + 5"
    "(100 :: nat) < 65536" "(5 :: nat) < 65536" "adm_opcode 4096 (demo_mem 10 0 7 0) = nvme_admin_get_features" "adm_fid 4096 (demo_mem 10 0 7 0) = NVME_FEAT_NUM_QUEUES"
    by (simp_all add: demo_inv(3) demo_fields admin_opcodes admin_consts)
  from num_queues_round_trip [OF demo_inv(1,2) demo_entry(1) demo_entry(1) f]
  obtain v1 v2 ca1 ca2 where "proc_admin_req demo_build 0 ?v = Some v1" "proc_admin_req demo_build 0 (v1\<lparr>v_mem := demo_mem 10 0 7 0\<rparr>) = Some v2"
    "v_nr_sq v2 = min (5 + 1) 72" "v_nr_cq v2 = min (100 + 1) 72" "rd_mem 4 ca1 (v_mem v1) = min 100 71 * 65536 + min 5 71" "rd_mem 4 ca2 (v_mem v2) = rd_mem 4 ca1 (v_mem v1)" by blast
  then show ?thesis by (intro exI [of _ v1] exI [of _ v2] exI [of _ ca1] exI [of _ ca2]) simp
qed

section \<open>The doorbell\<close>

text \<open>The queue after \<open>n\<close> more completions.\<close>

definition posted_n :: "nat \<Rightarrow> nvmev_admin_queue \<Rightarrow> nvmev_admin_queue" where
  "posted_n n q = q\<lparr>aq_cq_head := (aq_cq_head q + n) mod aq_cq_depth q, aq_phase := (aq_phase q + (aq_cq_head q + n) div aq_cq_depth q) mod 2\<rparr>"

lemma posted_n_0: "aq_ok q \<Longrightarrow> posted_n 0 q = q"
  by (auto simp: posted_n_def aq_ok_def)

lemma posted_n_Suc:
  assumes "aq_ok q"
  shows "posted_n n (posted q) = posted_n (Suc n) q"
proof (cases "aq_cq_head q + 1 = aq_cq_depth q")
  case True
  have p: "aq_phase q = 0 \<or> aq_phase q = 1" using assms by (auto simp: aq_ok_def)
  have e: "aq_cq_head q + Suc n = aq_cq_depth q + n" "0 < aq_cq_depth q" using True by simp_all
  have "(aq_cq_head q + Suc n) mod aq_cq_depth q = n mod aq_cq_depth q" "(aq_cq_head q + Suc n) div aq_cq_depth q = Suc (n div aq_cq_depth q)"
    unfolding e(1) using e(2) div_add_self1 [of "aq_cq_depth q" n] by simp_all
  then show ?thesis using True p by (auto simp: posted_n_def posted_def)
qed (simp add: posted_n_def posted_def)

lemma posted_n_step: "aq_ok q \<Longrightarrow> posted (posted_n k q) = posted_n (Suc k) q"
proof -
  have "aq_ok q \<Longrightarrow> posted_n k q = (posted ^^ k) q" for k q
  proof (induction k arbitrary: q)
    case (Suc k)
    have "posted_n (Suc k) q = (posted ^^ k) (posted q)" using Suc.IH [OF posted_ok [OF Suc.prems]] posted_n_Suc [OF Suc.prems] by simp
    then show ?case by (simp add: funpow_swap1)
  qed (simp add: posted_n_0)
  then show "aq_ok q \<Longrightarrow> posted (posted_n k q) = posted_n (Suc k) q" by simp
qed

text \<open>The loop takes the entries one after the other, around the end of the queue.\<close>

lemma admin_loop_fold:
  "cur < depth \<Longrightarrow> proc_admin_loop b depth n cur v = foldM (proc_admin_req b) (map (\<lambda>i. (cur + i) mod depth) [0..<n]) v"
proof (induction n arbitrary: cur v)
  case (Suc n)
  let ?c = "if cur + 1 = depth then 0 else cur + 1"
  have c: "?c < depth" "?c = (cur + 1) mod depth" using Suc.prems by auto
  have "(cur + Suc i) mod depth = (?c + i) mod depth" for i unfolding c(2) by (simp add: mod_add_left_eq)
  then have e: "map (\<lambda>i. (cur + i) mod depth) [0..<Suc n] = cur # map (\<lambda>i. (?c + i) mod depth) [0..<n]"
    using Suc.prems by (simp add: upt_conv_Cons map_Suc_upt [symmetric] del: upt_Suc)
  have "proc_admin_loop b depth n ?c = foldM (proc_admin_req b) (map (\<lambda>i. (?c + i) mod depth) [0..<n])" by (rule ext) (rule Suc.IH [OF c(1)])
  then show ?case by (simp only: e proc_admin_loop.simps foldM.simps)
qed simp

text \<open>The host's side of a doorbell: each of the next \<open>n\<close> entries holds an admissible command when its turn comes.\<close>

definition admin_hosts :: "build \<Rightarrow> nat \<Rightarrow> nat \<Rightarrow> nat \<Rightarrow> vdev \<Rightarrow> bool" where
  "admin_hosts b depth n old v \<longleftrightarrow> (\<forall>i<n. \<forall>w. foldM (proc_admin_req b) (map (\<lambda>j. (old + j) mod depth) [0..<i]) v = Some w \<longrightarrow>
     (\<exists>a. admin_cmd ((old + i) mod depth) w = Some a \<and> admin_host b a w))"

definition is_abort :: "nat \<Rightarrow> vdev \<Rightarrow> bool" where
  "is_abort eid v \<longleftrightarrow> (case admin_cmd eid v of None \<Rightarrow> False | Some a \<Rightarrow> adm_opcode a (v_mem v) = nvme_admin_abort_cmd)"

text \<open>The number of completions of the first \<open>i\<close> commands, given the states in which they are processed.\<close>

definition completions :: "nat \<Rightarrow> nat \<Rightarrow> vdev list \<Rightarrow> nat \<Rightarrow> nat" where
  "completions depth old vs i = length (filter (\<lambda>j. \<not> is_abort ((old + j) mod depth) (vs ! j)) [0..<i])"

text \<open>
  A command is processed: an abort changes nothing; any other one stores a completion as the \<open>k\<close>-th from the head of the
  completion queue \<open>q\<close>, with its result, its entry, its status and the phase of that lap.
\<close>

definition processed :: "build \<Rightarrow> nvmev_admin_queue \<Rightarrow> nat \<Rightarrow> nat \<Rightarrow> vdev \<Rightarrow> vdev \<Rightarrow> bool" where
  "processed b q k eid v v' \<longleftrightarrow> proc_admin_req b eid v = Some v' \<and> (\<exists>a. admin_cmd eid v = Some a \<and>
     (if adm_opcode a (v_mem v) = nvme_admin_abort_cmd then v' = v
      else \<exists>ca. cq_entry q ((aq_cq_head q + k) mod aq_cq_depth q) = Some ca \<and> rd_mem 4 ca (v_mem v') = u32 (admin_result b a v) \<and>
        rd_mem 2 (ca + 8) (v_mem v') = u16 eid \<and>
        rd_mem 2 (ca + 14) (v_mem v') = 2 * admin_status b a (v_mem v) + (aq_phase q + (aq_cq_head q + k) div aq_cq_depth q) mod 2))"

lemma command_processed:
  assumes v: "vdev_inv b v" and q: "v_admin_q v = Some (posted_n k q)" "aq_ok q" and a: "admin_cmd eid v = Some a" "admin_host b a v"
  shows "\<exists>v'. processed b q k eid v v' \<and> vdev_inv b v' \<and> vdev_kept v v' \<and> v_admin_q v' = Some (posted_n (if is_abort eid v then k else Suc k) q)"
proof (cases "adm_opcode a (v_mem v) = nvme_admin_abort_cmd")
  case True
  then show ?thesis using abort_silent [OF a(1) True, of b] v q a by (intro exI [of _ v]) (simp add: processed_def is_abort_def vdev_kept_def)
next
  case False
  let ?q = "posted_n k q"
  have e: "sq_entry ?q eid = Some a" using a(1) q(1) by (simp add: admin_cmd_def)
  obtain ca v1 v' where r: "cq_entry ?q (aq_cq_head ?q) = Some ca" "proc_admin_req b eid v = Some v'" "vdev_inv b v'" "vdev_kept v v'"
    "v' = v1\<lparr>v_mem := mem_write ca (encode_completion (completion eid (adm_command_id a (v_mem v1)) (admin_status b a (v_mem v)) (admin_result b a v) ?q 0)) (v_mem v1),
       v_admin_q := Some (posted ?q)\<rparr>" by (rule command_completes [OF v q(1) e a(2) False]) blast
  have p: "aq_phase ?q \<le> 1" using v q(1) by (simp add: vdev_inv_def aq_ok_def)
  have "cq_entry q ((aq_cq_head q + k) mod aq_cq_depth q) = Some ca" using r(1) by (simp add: cq_entry_def posted_n_def)
  moreover have ph: "aq_phase ?q = (aq_phase q + (aq_cq_head q + k) div aq_cq_depth q) mod 2" by (simp add: posted_n_def)
  have z: "u32 (u32 y) = u32 y" "u16 (u16 y) = u16 y" for y by (simp_all add: u32_def u16_def)
  have mem: "v_mem v' = mem_write ca (encode_completion (completion eid (adm_command_id a (v_mem v1)) (admin_status b a (v_mem v)) (admin_result b a v) ?q 0)) (v_mem v1)" by (simp add: r(5))
  have "rd_mem 4 ca (v_mem v') = u32 (admin_result b a v)" "rd_mem 2 (ca + 8) (v_mem v') = u16 eid"
     "rd_mem 2 (ca + 14) (v_mem v') = 2 * admin_status b a (v_mem v) + aq_phase ?q" by (simp_all only: mem read_completion completion_sel [OF p] z)
  ultimately have "processed b q k eid v v'" using r(2) a(1) False ph by (simp add: processed_def)
  moreover have "v_admin_q v' = Some (posted_n (Suc k) q)" using r(5) posted_n_step [OF q(2)] by simp
  ultimately show ?thesis using r(3,4) a(1) False by (intro exI [of _ v']) (simp add: is_abort_def)
qed

lemma completions_append: "i \<le> length vs \<Longrightarrow> completions depth old (vs @ [w]) i = completions depth old vs i"
  unfolding completions_def by (rule arg_cong [of _ _ length], rule filter_cong) (simp_all add: nth_append)

lemma admin_run:
  assumes v: "vdev_inv b v" and q: "v_admin_q v = Some q" and h: "admin_hosts b depth n old v"
  shows "\<exists>vs. length vs = Suc n \<and> vs ! 0 = v \<and> foldM (proc_admin_req b) (map (\<lambda>i. (old + i) mod depth) [0..<n]) v = Some (vs ! n) \<and>
     (\<forall>i<n. processed b q (completions depth old vs i) ((old + i) mod depth) (vs ! i) (vs ! Suc i)) \<and>
     vdev_inv b (vs ! n) \<and> vdev_kept v (vs ! n) \<and> v_admin_q (vs ! n) = Some (posted_n (completions depth old vs n) q)"
  using h
proof (induction n)
  case 0
  have "aq_ok q" using v q by (simp add: vdev_inv_def)
  then show ?case using v q by (intro exI [of _ "[v]"]) (simp add: completions_def posted_n_0 vdev_kept_def)
next
  case (Suc n)
  have ok: "aq_ok q" using v q by (simp add: vdev_inv_def)
  have "admin_hosts b depth n old v" using Suc.prems by (auto simp: admin_hosts_def)
  from Suc.IH [OF this] obtain vs where vs: "length vs = Suc n" "vs ! 0 = v" "foldM (proc_admin_req b) (map (\<lambda>i. (old + i) mod depth) [0..<n]) v = Some (vs ! n)"
    "\<forall>i<n. processed b q (completions depth old vs i) ((old + i) mod depth) (vs ! i) (vs ! Suc i)"
    "vdev_inv b (vs ! n)" "vdev_kept v (vs ! n)" "v_admin_q (vs ! n) = Some (posted_n (completions depth old vs n) q)" by blast
  let ?k = "completions depth old vs n" and ?e = "(old + n) mod depth"
  obtain a where a: "admin_cmd ?e (vs ! n) = Some a" "admin_host b a (vs ! n)" using Suc.prems vs(3) by (auto simp: admin_hosts_def)
  obtain w where w: "processed b q ?k ?e (vs ! n) w" "vdev_inv b w" "vdev_kept (vs ! n) w"
    "v_admin_q w = Some (posted_n (if is_abort ?e (vs ! n) then ?k else Suc ?k) q)" using command_processed [OF vs(5,7) ok a] by blast
  let ?vs = "vs @ [w]"
  have c: "completions depth old ?vs i = completions depth old vs i" if "i \<le> Suc n" for i using completions_append that vs(1) by simp
  have n: "?vs ! i = vs ! i" if "i \<le> n" for i using that vs(1) by (simp add: nth_append)
  have "completions depth old ?vs (Suc n) = (if is_abort ?e (vs ! n) then ?k else Suc ?k)" unfolding c [OF order_refl] by (simp add: completions_def)
  moreover have "processed b q (completions depth old ?vs i) ((old + i) mod depth) (?vs ! i) (?vs ! Suc i)" if "i < Suc n" for i
    using that vs(1,4) w(1) c [of i] by (cases "i = n") (auto simp: nth_append)
  moreover have "foldM (proc_admin_req b) (map (\<lambda>i. (old + i) mod depth) [0..<Suc n]) v = Some (?vs ! Suc n)"
    using vs(1,3) w(1) by (simp add: processed_def nth_append)
  moreover have "?vs ! Suc n = w" "?vs ! 0 = v" "length ?vs = Suc (Suc n)" using vs(1,2) n [of 0] by (simp_all add: nth_append)
  ultimately show ?case using w(2,4) adm.kept_trans [OF vs(6) w(3)] by (intro exI [of _ ?vs]) simp
qed

text \<open>C23: The doorbell of the admin queue: when the host moves the tail from \<open>old\<close> to \<open>new\<close>, the \<open>n\<close> commands of the entries in between are processed in the
  order of the entries, around the end of the queue, once each: \<open>vs\<close> are the states between them, from the state before the doorbell on. An abort changes
  nothing and gets no completion; any other command stores its completion, with its result, its entry and its status, in the next slot of the completion queue under the phase
  of that lap. At the end the head has advanced by the number of commands other than aborts, the phase has turned once for every time the queue wrapped, and
  the host gets one interrupt for all of them. Each command meets the conditions of \<open>admin_host\<close> when its turn comes, among them at most 512
  bytes of the SMART log and at most 4096 of the command effects.\<close>

theorem admin_doorbell:
  assumes v: "vdev_inv b v" and q: "v_admin_q v = Some q" and db: "new < aq_sq_depth q" "old < aq_sq_depth q" and n: "n = (new + aq_sq_depth q - old) mod aq_sq_depth q"
    and h: "admin_hosts b (aq_sq_depth q) n old v"
  shows "\<exists>vs v' q'. length vs = Suc n \<and> vs ! 0 = v \<and>
     (\<forall>i<n. processed b q (completions (aq_sq_depth q) old vs i) ((old + i) mod aq_sq_depth q) (vs ! i) (vs ! Suc i)) \<and>
     nvmev_proc_admin_sq b new old v = Some v' \<and> v' = nvmev_signal_irq 0 (vs ! n) \<and> vdev_inv b v' \<and> v_admin_q v' = Some q' \<and>
     aq_cq_head q' = (aq_cq_head q + completions (aq_sq_depth q) old vs n) mod aq_cq_depth q \<and>
     aq_phase q' = (aq_phase q + (aq_cq_head q + completions (aq_sq_depth q) old vs n) div aq_cq_depth q) mod 2 \<and>
     v_irqs v' = v_irqs v @ [if v_msix_enabled v' then MSI 0 else INTX]"
proof -
  have num: "nat (if int new - int old < 0 then int new - int old + int (aq_sq_depth q) else int new - int old) = n"
  proof (cases "new < old")
    case True
    then have "n = new + aq_sq_depth q - old" using db n by simp
    then show ?thesis using True db by (simp add: nat_eq_iff of_nat_diff)
  next
    case False
    then have e: "new + aq_sq_depth q - old = new - old + aq_sq_depth q" using db by simp
    have "n = new - old" unfolding n e using db by simp
    then show ?thesis using False by (simp add: nat_eq_iff of_nat_diff)
  qed
  obtain vs where vs: "length vs = Suc n" "vs ! 0 = v" "foldM (proc_admin_req b) (map (\<lambda>i. (old + i) mod aq_sq_depth q) [0..<n]) v = Some (vs ! n)"
     "\<forall>i<n. processed b q (completions (aq_sq_depth q) old vs i) ((old + i) mod aq_sq_depth q) (vs ! i) (vs ! Suc i)"
     "vdev_inv b (vs ! n)" "vdev_kept v (vs ! n)" "v_admin_q (vs ! n) = Some (posted_n (completions (aq_sq_depth q) old vs n) q)"
    using admin_run [OF v q h] by blast
  let ?w = "nvmev_signal_irq 0 (vs ! n)" and ?q = "posted_n (completions (aq_sq_depth q) old vs n) q"
  have "vdev_inv b ?w" using vs(5) by (simp add: nvmev_signal_irq_def vdev_inv_def)
  moreover have "v_admin_q ?w = Some ?q" using vs(7) by (simp add: nvmev_signal_irq_def)
  moreover have "v_irqs ?w = v_irqs v @ [if v_msix_enabled ?w then MSI 0 else INTX]" using vs(6) by (simp add: nvmev_signal_irq_def vdev_kept_def)
  moreover have "nvmev_proc_admin_sq b new old v = Some ?w" using q vs(3) num db(2) by (simp add: nvmev_proc_admin_sq_def Let_def admin_loop_fold)
  moreover have "aq_cq_head ?q = (aq_cq_head q + completions (aq_sq_depth q) old vs n) mod aq_cq_depth q"
    "aq_phase ?q = (aq_phase q + (aq_cq_head q + completions (aq_sq_depth q) old vs n) div aq_cq_depth q) mod 2" by (simp_all add: posted_n_def)
  ultimately show ?thesis using vs(1,2,4) by (intro exI [of _ vs] exI [of _ ?w] exI [of _ ?q]) simp
qed

theorem admin_doorbell_witness:
  "\<exists>v' q'. nvmev_proc_admin_sq demo_build 1 0 (demo_vdev (demo_mem 6 12288 1 0)) = Some v' \<and> v_admin_q v' = Some q' \<and> aq_cq_head q' = 0 \<and> aq_phase q' = 0 \<and>
     rd_mem 2 (8208 + 14) (v_mem v') = 1 \<and> length (v_irqs v') = 1"
proof -
  let ?m = "demo_mem 6 12288 1 0" and ?v = "demo_vdev (demo_mem 6 12288 1 0)"
  have d: "aq_sq_depth demo_queue = 2" "aq_cq_depth demo_queue = 2" "aq_cq_head demo_queue = 1" "aq_phase demo_queue = 1" by (simp_all add: demo_queue_def)
  have c: "admin_cmd 0 ?v = Some 4096" by (simp add: admin_cmd_def demo_inv(2) demo_entry(1))
  have h: "admin_hosts demo_build (aq_sq_depth demo_queue) 1 0 ?v" using demo_identify(1) c by (simp add: admin_hosts_def)
  have db: "1 < aq_sq_depth demo_queue" "0 < aq_sq_depth demo_queue" "1 = (1 + aq_sq_depth demo_queue - 0) mod aq_sq_depth demo_queue" by (simp_all add: d)
  have na: "\<not> is_abort 0 ?v" using c demo_identify(2) by (simp add: is_abort_def demo_inv(3))
  from admin_doorbell [OF demo_inv(1,2) db h]
  obtain vs v' q' where r: "vs ! 0 = ?v" "\<forall>i<1. processed demo_build demo_queue (completions 2 0 vs i) ((0 + i) mod 2) (vs ! i) (vs ! Suc i)"
    "nvmev_proc_admin_sq demo_build 1 0 ?v = Some v'" "v' = nvmev_signal_irq 0 (vs ! 1)" "v_admin_q v' = Some q'" "aq_cq_head q' = (1 + completions 2 0 vs 1) mod 2"
    "aq_phase q' = (1 + (1 + completions 2 0 vs 1) div 2) mod 2" "v_irqs v' = v_irqs ?v @ [if v_msix_enabled v' then MSI 0 else INTX]" unfolding d by metis
  have k: "completions 2 0 vs 0 = 0" "completions 2 0 vs 1 = 1" using na r(1) by (simp_all add: completions_def)
  have p: "processed demo_build demo_queue 0 0 ?v (vs ! 1)" using r(1,2) k(1) by simp
  have st: "admin_status demo_build 4096 ?m = 0" by (simp add: admin_status_def demo_fields admin_opcodes NVME_SC_SUCCESS_def)
  have "rd_mem 2 (8208 + 14) (v_mem (vs ! 1)) = 1" using p c demo_identify(2) demo_entry(2) st by (auto simp: processed_def d demo_inv(3))
  moreover have "v_mem v' = v_mem (vs ! 1)" by (simp add: r(4) nvmev_signal_irq_def)
  moreover have "v_irqs ?v = []" by (simp add: demo_vdev_def vdev_init_def)
  ultimately show ?thesis using r(3,5-8) k(2) by (intro exI [of _ v'] exI [of _ q']) simp
qed

end
