(* ===== verification/Setup_Props.thy ===== *)
theory Setup_Props
  imports Ctrl
begin

text \<open>
  Loading the module: which parameters are accepted and what memory they give the storage, and how the
  namespaces share it.
\<close>

section \<open>Parameters\<close>

text \<open>What the check of the parameters demands.\<close>

definition params_ok :: "kernel \<Rightarrow> module_params \<Rightarrow> bool" where
  "params_ok k p \<longleftrightarrow> mp_memmap_start p \<noteq> 0 \<and> MB 1 < mp_memmap_size p \<and>
     (let s = mp_memmap_start p; e = u64_sub (u64 (s + mp_memmap_size p)) 1 in
        \<not> k_ram k s e \<and> k_reserved k s e \<and> (\<forall>f. k_reserved_kern k = Some f \<longrightarrow> \<not> f s e)) \<and>
     cfg_nr_io_units (mp_times p) \<noteq> 0 \<and> cfg_io_unit_shift (mp_times p) \<noteq> 0 \<and> cfg_read_time (mp_times p) \<noteq> 0 \<and> cfg_write_time (mp_times p) \<noteq> 0"

lemma validate_arch: "validate_configs_arch k p = 0 \<longleftrightarrow> (let s = mp_memmap_start p; e = u64_sub (u64 (s + mp_memmap_size p)) 1 in
        \<not> k_ram k s e \<and> k_reserved k s e \<and> (\<forall>f. k_reserved_kern k = Some f \<longrightarrow> \<not> f s e))"
  by (simp add: validate_configs_arch_def EPERM_def Let_def split: option.splits)

lemma validate_iff: "validate_configs k p < 0 \<longleftrightarrow> \<not> params_ok k p"
  using validate_arch [of k p] unfolding validate_configs_def params_ok_def Let_def by (auto simp: EINVAL_def EPERM_def MB_def)

lemma u64_sub_wraps: "a < b \<Longrightarrow> b \<le> 2 ^ 64 \<Longrightarrow> u64_sub a b = 2 ^ 64 + a - b"
  by (simp add: u64_sub_def u64_def)

text \<open>Loading the module: bad parameters are refused, and with good ones the storage begins one MiB behind the start of the reserved memory and ends
  where it ends. Only the key-value device reserves more: its storage is short of another GiB for the mapping table, and because the check asks for no more
  than one MiB, a reservation below that size wraps around to a storage of almost 2 ^ 64 bytes.\<close>

theorem configuration_loaded:
  assumes "mp_memmap_start p + mp_memmap_size p < 2 ^ 64" "mp_memmap_start p + MB 1 < 2 ^ 64" and cpus: "length (cpu_numbers k (mp_cpus p)) \<le> 33"
  shows "if params_ok k p
     then \<exists>cfg. load_configs k ty p = Some (Some cfg) \<and> nc_io cfg = mp_times p \<and> nc_storage_start cfg = mp_memmap_start p + MB 1 \<and>
       (if ty \<noteq> SSD_TYPE_KV then nc_storage_start cfg + nc_storage_size cfg = mp_memmap_start p + mp_memmap_size p \<and> 0 < nc_storage_size cfg
        else if GB 1 + MB 1 \<le> mp_memmap_size p then nc_storage_start cfg + nc_storage_size cfg + GB 1 = mp_memmap_start p + mp_memmap_size p
        else nc_storage_size cfg = 2 ^ 64 + mp_memmap_size p - (GB 1 + MB 1))
     else load_configs k ty p = Some None"
proof (cases "params_ok k p")
  case True
  then have big: "MB 1 < mp_memmap_size p" by (simp add: params_ok_def)
  have c: "length (tl (cpu_numbers k (mp_cpus p))) \<le> 32" using cpus by simp
  let ?size = "if ty = SSD_TYPE_KV then u64_sub (mp_memmap_size p) KV_MAPPING_TABLE_SIZE else mp_memmap_size p"
  have l: "load_configs k ty p = Some (Some \<lparr>nc_memmap_start = mp_memmap_start p, nc_memmap_size = ?size,
          nc_storage_start = u64 (mp_memmap_start p + MB 1), nc_storage_size = u64_sub ?size (MB 1),
          nc_cpu_nr_dispatcher = (case cpu_numbers k (mp_cpus p) of [] \<Rightarrow> 4294967295 | c # _ \<Rightarrow> c),
          nc_cpu_nr_io_workers = tl (cpu_numbers k (mp_cpus p)), nc_io = mp_times p\<rparr>)"
    unfolding load_configs_def Let_def using True c by (simp add: validate_iff)
  have s: "u64 (mp_memmap_start p + MB 1) = mp_memmap_start p + MB 1" using assms(2) by (simp add: u64_def)
  show ?thesis
  proof (cases "ty = SSD_TYPE_KV")
    case False
    have "u64_sub (mp_memmap_size p) (MB 1) = mp_memmap_size p - MB 1" using big assms(1) by (intro u64_sub_id) auto
    then show ?thesis using True False l s big by simp
  next
    case kv: True
    have m: "MB 1 = 1048576" "GB 1 = 1073741824" "KV_MAPPING_TABLE_SIZE = 1073741824" by (simp_all add: MB_def GB_def KV_MAPPING_TABLE_SIZE_def)
    have "u64_sub (u64_sub (mp_memmap_size p) KV_MAPPING_TABLE_SIZE) (MB 1) =
      (if GB 1 + MB 1 \<le> mp_memmap_size p then mp_memmap_size p - (GB 1 + MB 1) else 2 ^ 64 + mp_memmap_size p - (GB 1 + MB 1))"
    proof (cases "GB 1 + MB 1 \<le> mp_memmap_size p")
      case True
      then have "u64_sub (mp_memmap_size p) KV_MAPPING_TABLE_SIZE = mp_memmap_size p - GB 1" using m assms(1) by (intro u64_sub_id [THEN trans]) auto
      moreover have "u64_sub (mp_memmap_size p - GB 1) (MB 1) = mp_memmap_size p - GB 1 - MB 1" using True m assms(1) by (intro u64_sub_id) auto
      ultimately show ?thesis using True by simp
    next
      case False
      show ?thesis
      proof (cases "GB 1 \<le> mp_memmap_size p")
        case True
        then have "u64_sub (mp_memmap_size p) KV_MAPPING_TABLE_SIZE = mp_memmap_size p - GB 1" using m assms(1) by (intro u64_sub_id [THEN trans]) auto
        moreover have "u64_sub (mp_memmap_size p - GB 1) (MB 1) = 2 ^ 64 + (mp_memmap_size p - GB 1) - MB 1" using False True m by (intro u64_sub_wraps) auto
        ultimately show ?thesis using False True by simp
      next
        case small: False
        then have "u64_sub (mp_memmap_size p) KV_MAPPING_TABLE_SIZE = 2 ^ 64 + mp_memmap_size p - GB 1" using m by (intro u64_sub_wraps [THEN trans]) auto
        moreover have "u64_sub (2 ^ 64 + mp_memmap_size p - GB 1) (MB 1) = 2 ^ 64 + mp_memmap_size p - GB 1 - MB 1" using small m by (intro u64_sub_id) auto
        ultimately show ?thesis using False by simp
      qed
    qed
    then show ?thesis using True kv l s m by auto
  qed
qed (simp add: load_configs_def validate_iff)

text \<open>A kernel with all memory reserved, and parameters for a device of 4 GiB.\<close>

definition demo_kernel :: kernel where
  "demo_kernel = \<lparr>k_ram = (\<lambda>_ _. False), k_reserved_kern = None, k_reserved = (\<lambda>_ _. True), k_strtol = (\<lambda>_. 1)\<rparr>"

definition demo_params :: "nat \<Rightarrow> module_params" where
  "demo_params n = \<lparr>mp_memmap_start = GB 4, mp_memmap_size = n,
     mp_times = \<lparr>cfg_nr_io_units = 8, cfg_io_unit_shift = 12, cfg_read_delay = 1, cfg_read_time = 1, cfg_read_trailing = 0, cfg_write_delay = 1, cfg_write_time = 1, cfg_write_trailing = 0\<rparr>,
     mp_cpus = Some ''7,8''\<rparr>"

theorem configuration_loaded_witness:
  "\<exists>cfg. load_configs demo_kernel SSD_TYPE_KV (demo_params (MB 2)) = Some (Some cfg) \<and> nc_storage_size cfg = 2 ^ 64 + MB 2 - (GB 1 + MB 1)"
proof -
  have p: "params_ok demo_kernel (demo_params (MB 2))" by (simp add: params_ok_def demo_kernel_def demo_params_def MB_def GB_def)
  have h: "mp_memmap_start (demo_params (MB 2)) + mp_memmap_size (demo_params (MB 2)) < 2 ^ 64" "mp_memmap_start (demo_params (MB 2)) + MB 1 < 2 ^ 64"
    "length (cpu_numbers demo_kernel (mp_cpus (demo_params (MB 2)))) \<le> 33" "mp_memmap_size (demo_params (MB 2)) = MB 2" "\<not> GB 1 + MB 1 \<le> MB 2"
    by (simp_all add: demo_params_def cpu_numbers_def MB_def GB_def)
  from configuration_loaded [OF h(1-3), of SSD_TYPE_KV] p h(4,5) show ?thesis by auto
qed

section \<open>Namespaces\<close>

text \<open>The bytes each namespace gets of what remains.\<close>

fun ns_sizes :: "nat list \<Rightarrow> nat \<Rightarrow> nat list" where
  "ns_sizes [] remaining = []"
| "ns_sizes (c # cs) remaining = (let n = (if c = 0 then remaining else min c remaining) in n # ns_sizes cs (remaining - n))"

lemma init_namespaces_layout:
  assumes "\<forall>j<length cs. \<exists>ns. init_namespace ia ty (i + j) (ns_sizes cs remaining ! j) storage disp = Some ns"
  shows "\<exists>nss. init_namespaces ia ty storage disp i cs addr remaining = Some nss \<and> length nss = length cs \<and>
     (\<forall>j<length cs. fst (nss ! j) = addr + (\<Sum>k<j. fst (snd (nss ! k))) \<and>
        fst (snd (nss ! j)) = (let left = remaining - (\<Sum>k<j. fst (snd (nss ! k))) in if cs ! j = 0 then left else min (cs ! j) left) \<and>
        init_namespace ia ty (i + j) (fst (snd (nss ! j))) storage disp = Some (snd (snd (nss ! j)))) \<and> (\<Sum>k<length cs. fst (snd (nss ! k))) \<le> remaining"
  using assms
proof (induction cs arbitrary: i addr remaining)
  case (Cons c cs)
  let ?n = "if c = 0 then remaining else min c remaining"
  have hyp: "\<exists>ns. init_namespace ia ty (i + j) (ns_sizes (c # cs) remaining ! j) storage disp = Some ns" if "j < length (c # cs)" for j
    using Cons.prems that by blast
  obtain ns where ns: "init_namespace ia ty i ?n storage disp = Some ns" using hyp [of 0] by (auto simp: Let_def)
  have "\<forall>j<length cs. \<exists>ns. init_namespace ia ty (i + 1 + j) (ns_sizes cs (remaining - ?n) ! j) storage disp = Some ns"
  proof (intro allI impI)
    fix j assume "j < length cs"
    then show "\<exists>ns. init_namespace ia ty (i + 1 + j) (ns_sizes cs (remaining - ?n) ! j) storage disp = Some ns" using hyp [of "Suc j"] by (simp add: Let_def)
  qed
  from Cons.IH [OF this, of "addr + ?n"] obtain nss where
    r: "init_namespaces ia ty storage disp (i + 1) cs (addr + ?n) (remaining - ?n) = Some nss" "length nss = length cs"
      "(\<Sum>k<length cs. fst (snd (nss ! k))) \<le> remaining - ?n"
    and l': "\<forall>j<length cs. fst (nss ! j) = addr + ?n + (\<Sum>k<j. fst (snd (nss ! k))) \<and>
        fst (snd (nss ! j)) = (let left = remaining - ?n - (\<Sum>k<j. fst (snd (nss ! k))) in if cs ! j = 0 then left else min (cs ! j) left) \<and>
        init_namespace ia ty (i + 1 + j) (fst (snd (nss ! j))) storage disp = Some (snd (snd (nss ! j)))" by blast
  note l = l' [rule_format]
  have sum: "(\<Sum>k<Suc j. fst (snd (((addr, ?n, ns) # nss) ! k))) = ?n + (\<Sum>k<j. fst (snd (nss ! k)))" for j
    by (simp add: sum.lessThan_Suc_shift del: sum.lessThan_Suc)
  show ?case
  proof (intro exI [of _ "(addr, ?n, ns) # nss"] conjI allI impI)
    show "init_namespaces ia ty storage disp i (c # cs) addr remaining = Some ((addr, ?n, ns) # nss)" using ns r(1) by (simp add: Let_def)
    fix j assume j: "j < length (c # cs)"
    show "fst (((addr, ?n, ns) # nss) ! j) = addr + (\<Sum>k<j. fst (snd (((addr, ?n, ns) # nss) ! k)))"
    proof (cases j)
      case (Suc j')
      then show ?thesis using l [of j'] j unfolding Suc sum by simp
    qed simp
    show "fst (snd (((addr, ?n, ns) # nss) ! j)) =
       (let left = remaining - (\<Sum>k<j. fst (snd (((addr, ?n, ns) # nss) ! k))) in if (c # cs) ! j = 0 then left else min ((c # cs) ! j) left)"
    proof (cases j)
      case (Suc j')
      then show ?thesis using l [of j'] j unfolding Suc sum by simp
    qed (simp add: Let_def)
    show "init_namespace ia ty (i + j) (fst (snd (((addr, ?n, ns) # nss) ! j))) storage disp = Some (snd (snd (((addr, ?n, ns) # nss) ! j)))"
    proof (cases j)
      case (Suc j')
      then have "j' < length cs" using j by simp
      from l [OF this, THEN conjunct2, THEN conjunct2] show ?thesis using Suc by simp
    qed (simp add: ns)
  next
    have "?n \<le> remaining" by auto
    then show "(\<Sum>k<length (c # cs). fst (snd (((addr, ?n, ns) # nss) ! k))) \<le> remaining" using sum [of "length cs"] r(3) by simp
  qed (use r(2) in simp)
qed simp

text \<open>C31: The namespaces share the storage: the first begins where the storage is mapped, each one where the previous one ends, each gets the capacity it is
  configured with, or the rest when it is configured with 0 or the rest is less, and none reaches beyond the end; so no two namespaces overlap.\<close>

theorem namespaces_partition_storage:
  assumes "\<forall>j<length capacities. \<exists>ns. init_namespace ia ty j (ns_sizes capacities (nc_storage_size cfg) ! j) (nc_storage_size cfg) (nc_cpu_nr_dispatcher cfg) = Some ns"
  shows "\<exists>nss. NVMEV_NAMESPACE_INIT ia ty capacities mapped cfg = Some nss \<and> length nss = length capacities \<and>
     (\<forall>j<length nss. \<exists>addr n. fst (nss ! j) = addr \<and> fst (snd (nss ! j)) = n \<and>
        (j = 0 \<longrightarrow> addr = mapped) \<and> (\<forall>i<j. fst (nss ! i) + fst (snd (nss ! i)) \<le> addr) \<and> (0 < j \<longrightarrow> addr = fst (nss ! (j - 1)) + fst (snd (nss ! (j - 1)))) \<and>
        addr + n \<le> mapped + nc_storage_size cfg \<and>
        n = (let left = mapped + nc_storage_size cfg - addr in if capacities ! j = 0 then left else min (capacities ! j) left))"
proof -
  let ?S = "nc_storage_size cfg"
  obtain nss where r: "NVMEV_NAMESPACE_INIT ia ty capacities mapped cfg = Some nss" "length nss = length capacities"
      "(\<Sum>k<length capacities. fst (snd (nss ! k))) \<le> ?S"
    and l: "\<And>j. j < length capacities \<Longrightarrow> fst (nss ! j) = mapped + (\<Sum>k<j. fst (snd (nss ! k))) \<and>
        fst (snd (nss ! j)) = (let left = ?S - (\<Sum>k<j. fst (snd (nss ! k))) in if capacities ! j = 0 then left else min (capacities ! j) left)"
    using init_namespaces_layout [of capacities ia ty 0 ?S ?S "nc_cpu_nr_dispatcher cfg" mapped] assms unfolding NVMEV_NAMESPACE_INIT_def add_0 by blast
  have mono: "(\<Sum>k<i. fst (snd (nss ! k))) \<le> (\<Sum>k<j. fst (snd (nss ! k)))" if "i \<le> j" for i j :: nat
    by (rule sum_mono2) (use that in auto)
  show ?thesis
  proof (intro exI [of _ nss] conjI r(1,2) allI impI)
    fix j assume j: "j < length nss"
    then have j': "j < length capacities" using r(2) by simp
    show "\<exists>addr n. fst (nss ! j) = addr \<and> fst (snd (nss ! j)) = n \<and>
        (j = 0 \<longrightarrow> addr = mapped) \<and> (\<forall>i<j. fst (nss ! i) + fst (snd (nss ! i)) \<le> addr) \<and> (0 < j \<longrightarrow> addr = fst (nss ! (j - 1)) + fst (snd (nss ! (j - 1)))) \<and>
        addr + n \<le> mapped + ?S \<and> n = (let left = mapped + ?S - addr in if capacities ! j = 0 then left else min (capacities ! j) left)"
    proof (intro exI conjI impI allI)
      show "fst (nss ! j) = fst (nss ! j)" "fst (snd (nss ! j)) = fst (snd (nss ! j))" by simp_all
      show "fst (nss ! j) = mapped" if "j = 0" using l [OF j'] that by simp
      show "fst (nss ! i) + fst (snd (nss ! i)) \<le> fst (nss ! j)" if "i < j" for i
        using l [OF j'] l [of i] j' that mono [of "Suc i" j] by simp
      show "fst (nss ! j) = fst (nss ! (j - 1)) + fst (snd (nss ! (j - 1)))" if "0 < j"
        using l [OF j'] l [of "j - 1"] j' that by (cases j) simp_all
      show "fst (nss ! j) + fst (snd (nss ! j)) \<le> mapped + ?S" using l [OF j'] mono [of "Suc j" "length capacities"] j' r(3) by simp
      show "fst (snd (nss ! j)) = (let left = mapped + ?S - fst (nss ! j) in if capacities ! j = 0 then left else min (capacities ! j) left)"
        using l [OF j'] by (simp add: Let_def)
    qed
  qed
qed

definition demo_init :: init_args where
  "demo_init = \<lparr>ia_config = samsung_970pro, ia_slots = [], ia_junk = (\<lambda>_. 0), ia_storage = (\<lambda>_. 0), ia_handle = None, ia_ctx = fdp_ctx_static\<rparr>"

definition demo_config :: nvmev_config where
  "demo_config = \<lparr>nc_memmap_start = 0, nc_memmap_size = 0, nc_storage_start = 0, nc_storage_size = 1000, nc_cpu_nr_dispatcher = 0, nc_cpu_nr_io_workers = [],
     nc_io = mp_times (demo_params 0)\<rparr>"

theorem namespaces_partition_storage_witness:
  "\<exists>nss. NVMEV_NAMESPACE_INIT demo_init SSD_TYPE_NVM [100, 0] 1000 demo_config = Some nss \<and> length nss = 2 \<and> fst (nss ! 1) = 1100 \<and> fst (snd (nss ! 1)) = 900"
proof -
  have "\<forall>j<length [100, 0]. \<exists>ns. init_namespace demo_init SSD_TYPE_NVM j (ns_sizes [100, 0] (nc_storage_size demo_config) ! j) (nc_storage_size demo_config)
     (nc_cpu_nr_dispatcher demo_config) = Some ns" by (simp add: init_namespace_def)
  from namespaces_partition_storage [OF this, of 1000] obtain nss where i: "NVMEV_NAMESPACE_INIT demo_init SSD_TYPE_NVM [100, 0] 1000 demo_config = Some nss"
    and n: "length nss = length [100 :: nat, 0]"
    and l: "\<And>j. j < length nss \<Longrightarrow> (j = 0 \<longrightarrow> fst (nss ! j) = 1000) \<and> (0 < j \<longrightarrow> fst (nss ! j) = fst (nss ! (j - 1)) + fst (snd (nss ! (j - 1)))) \<and>
      fst (snd (nss ! j)) = (let left = 1000 + nc_storage_size demo_config - fst (nss ! j) in if [100 :: nat, 0] ! j = 0 then left else min ([100, 0] ! j) left)" by auto
  have "fst (nss ! 0) = 1000" "fst (snd (nss ! 0)) = 100" using l [of 0] n by (auto simp: demo_config_def)
  then show ?thesis using l [of 1] i n by (auto simp: demo_config_def)
qed

end
