(* ===== verification/Dispatch.thy ===== *)
theory Dispatch
  imports Io_Handlers Ctrl
begin

text \<open>
  A pass of the dispatcher over the doorbells (\<open>nvmev_proc_dbs\<close> of \<open>main.c\<close>) with the handlers of
  \<open>io.c\<close>: \<open>nvmev_proc_io_sq\<close> for the submission queues and \<open>nvmev_proc_io_cq\<close> for the completion
  queues. The queues that \<open>admin.c\<close> created are the ones the handlers work on.
\<close>

section \<open>The handlers of the I/O queues\<close>

type_synonym ('h, 'b) io_state = "'b io_dev \<times> 'b nvmev_io_worker list \<times> 'h"

definition io_sq_handler :: "('h, 'b) io_handler \<Rightarrow> (nat \<Rightarrow> nat \<Rightarrow> nat) \<Rightarrow> nat \<Rightarrow> nat \<Rightarrow> nat \<Rightarrow> ('h, 'b) io_state \<Rightarrow> (nat \<times> ('h, 'b) io_state) option" where
  "io_sq_handler proc_io_cmd clk qid new_db old_db s = nvmev_proc_io_sq proc_io_cmd (clk qid) qid new_db old_db s"

definition io_cq_handler :: "nat \<Rightarrow> nat \<Rightarrow> nat \<Rightarrow> ('h, 'b) io_state \<Rightarrow> ('h, 'b) io_state option" where
  "io_cq_handler qid new_db old_db s = (case s of (d, wks, h) \<Rightarrow> do {
     d' \<leftarrow> nvmev_proc_io_cq qid (int new_db) (int old_db) d;
     Some (d', wks, h)
   })"

section \<open>What a pass does\<close>

text \<open>The queues whose doorbell differs from what was last seen.\<close>

definition sq_rung :: "vdev \<Rightarrow> nat \<Rightarrow> bool" where
  "sq_rung v q \<longleftrightarrow> v_sqes v ! q \<noteq> None \<and> v_dbs v ! (q * 2) \<noteq> v_old_dbs v ! (q * 2)"

definition cq_rung :: "vdev \<Rightarrow> nat \<Rightarrow> bool" where
  "cq_rung v q \<longleftrightarrow> v_cqes v ! q \<noteq> None \<and> v_dbs v ! (q * 2 + 1) \<noteq> v_old_dbs v ! (q * 2 + 1)"

definition rung_sqs :: "vdev \<Rightarrow> nat list" where "rung_sqs v = filter (sq_rung v) [1..<Suc (v_nr_sq v)]"

definition rung_cqs :: "vdev \<Rightarrow> nat list" where "rung_cqs v = filter (cq_rung v) [1..<Suc (v_nr_cq v)]"

text \<open>The calls for the given submission queues, in order, with the positions they return; the calls for the given completion queues.\<close>

fun sq_calls :: "(nat \<Rightarrow> nat \<Rightarrow> nat \<Rightarrow> 's \<Rightarrow> (nat \<times> 's) option) \<Rightarrow> vdev \<Rightarrow> nat list \<Rightarrow> 's \<Rightarrow> (nat list \<times> 's) option" where
  "sq_calls proc_io_sq v [] s = Some ([], s)"
| "sq_calls proc_io_sq v (q # qs) s = do {
     (r, s1) \<leftarrow> proc_io_sq q (v_dbs v ! (q * 2)) (v_old_dbs v ! (q * 2)) s;
     (rs, s2) \<leftarrow> sq_calls proc_io_sq v qs s1;
     Some (r # rs, s2)
   }"

definition cq_calls :: "(nat \<Rightarrow> nat \<Rightarrow> nat \<Rightarrow> 's \<Rightarrow> 's option) \<Rightarrow> vdev \<Rightarrow> nat list \<Rightarrow> 's \<Rightarrow> 's option" where
  "cq_calls proc_io_cq v qs s = foldM (\<lambda>q s. proc_io_cq q (v_dbs v ! (q * 2 + 1)) (v_old_dbs v ! (q * 2 + 1)) s) qs s"

text \<open>The remembered doorbells after the calls: the position returned for each submission queue, the doorbell of each completion queue.\<close>

definition seen_sqs :: "nat list \<Rightarrow> nat list \<Rightarrow> nat list \<Rightarrow> nat list" where
  "seen_sqs qs rs old_dbs = fold (\<lambda>(q, r) l. l[q * 2 := r]) (zip qs rs) old_dbs"

definition seen_cqs :: "vdev \<Rightarrow> nat list \<Rightarrow> nat list \<Rightarrow> nat list" where
  "seen_cqs v qs old_dbs = fold (\<lambda>q l. l[q * 2 + 1 := v_dbs v ! (q * 2 + 1)]) qs old_dbs"

definition dbs_ok :: "vdev \<Rightarrow> bool" where
  "dbs_ok v \<longleftrightarrow> length (v_dbs v) = 1024 \<and> length (v_old_dbs v) = 1024 \<and> length (v_sqes v) = Suc NR_MAX_IO_QUEUE \<and> length (v_cqes v) = Suc NR_MAX_IO_QUEUE \<and>
     v_nr_sq v \<le> NR_MAX_IO_QUEUE \<and> v_nr_cq v \<le> NR_MAX_IO_QUEUE"

lemma filter_upt_Suc: "m \<le> q \<Longrightarrow> filter P [m..<Suc q] = (if P q then filter P [m..<q] @ [q] else filter P [m..<q])"
  by simp

lemma sq_calls_snoc:
  "sq_calls p v qs s = Some (rs, s1) \<Longrightarrow> p q (v_dbs v ! (q * 2)) (v_old_dbs v ! (q * 2)) s1 = Some (r, s2) \<Longrightarrow>
     sq_calls p v (qs @ [q]) s = Some (rs @ [r], s2)"
proof (induction qs arbitrary: s rs)
  case (Cons x qs)
  then show ?case by (fastforce split: Option.bind_splits)
qed simp

lemma sq_calls_length: "sq_calls p v qs s = Some (rs, s1) \<Longrightarrow> length rs = length qs"
  by (induction qs arbitrary: s rs) (fastforce split: Option.bind_splits)+

lemma seen_sqs_snoc: "length rs = length qs \<Longrightarrow> seen_sqs (qs @ [q]) (rs @ [r]) l = (seen_sqs qs rs l)[q * 2 := r]"
  by (simp add: seen_sqs_def)

lemma fold_upd_length: "length (fold (\<lambda>x l. l[f x := g x]) xs l) = length l"
  by (induction xs arbitrary: l) auto

lemma fold_upd_other: "\<forall>x\<in>set xs. f x \<noteq> i \<Longrightarrow> fold (\<lambda>x l. l[f x := g x]) xs l ! i = l ! i"
  by (induction xs arbitrary: l) auto

lemma fold_upd_in: "inj_on f (set xs) \<Longrightarrow> distinct xs \<Longrightarrow> x \<in> set xs \<Longrightarrow> f x < length l \<Longrightarrow> fold (\<lambda>x l. l[f x := g x]) xs l ! f x = g x"
proof (induction xs arbitrary: l)
  case (Cons y xs)
  show ?case
  proof (cases "x \<in> set xs")
    case True
    then show ?thesis using Cons by simp
  next
    case False
    then have "x = y" "\<forall>z\<in>set xs. f z \<noteq> f x" using Cons.prems by (auto simp: inj_on_def)
    then show ?thesis using fold_upd_other [of xs f "f x" g "l[f y := g y]"] Cons.prems(4) by simp
  qed
qed simp

lemma seen_sqs_fold: "seen_sqs qs rs = fold (\<lambda>x l. l[fst x * 2 := snd x]) (zip qs rs)"
  by (simp add: seen_sqs_def case_prod_beta' fun_eq_iff)

lemma seen_sqs_length [simp]: "length (seen_sqs qs rs l) = length l"
  using fold_upd_length [of "\<lambda>x. fst x * 2" snd] by (simp add: seen_sqs_fold)

lemma seen_sqs_other: "i \<notin> (\<lambda>q. q * 2) ` set qs \<Longrightarrow> seen_sqs qs rs l ! i = l ! i"
  unfolding seen_sqs_fold by (rule fold_upd_other) (auto dest: set_zip_leftD)

lemma seen_cqs_length [simp]: "length (seen_cqs v qs l) = length l"
  by (simp add: seen_cqs_def fold_upd_length)

lemma seen_cqs_other: "i \<notin> (\<lambda>q. q * 2 + 1) ` set qs \<Longrightarrow> seen_cqs v qs l ! i = l ! i"
  unfolding seen_cqs_def by (rule fold_upd_other) auto

section \<open>The contract of the handlers\<close>

text \<open>
  What a pass over the doorbells of \<open>v\<close> relies on: in a state of the invariant the handler of a queue that was
  rung answers, and the invariant holds again.
\<close>

locale doorbell_handlers =
  fixes v :: vdev and ok :: "'s \<Rightarrow> bool" and proc_io_sq :: "nat \<Rightarrow> nat \<Rightarrow> nat \<Rightarrow> 's \<Rightarrow> (nat \<times> 's) option" and proc_io_cq :: "nat \<Rightarrow> nat \<Rightarrow> nat \<Rightarrow> 's \<Rightarrow> 's option"
  assumes sq_serves: "q \<in> set (rung_sqs v) \<Longrightarrow> ok s \<Longrightarrow> \<exists>r s'. proc_io_sq q (v_dbs v ! (q * 2)) (v_old_dbs v ! (q * 2)) s = Some (r, s') \<and> ok s'"
    and cq_serves: "q \<in> set (rung_cqs v) \<Longrightarrow> ok s \<Longrightarrow> \<exists>s'. proc_io_cq q (v_dbs v ! (q * 2 + 1)) (v_old_dbs v ! (q * 2 + 1)) s = Some s' \<and> ok s'"
begin

lemma sq_pass:
  assumes d: "dbs_ok v" and s: "ok s"
  shows "\<exists>rs s'. foldM (proc_sq_db proc_io_sq) [1..<Suc (v_nr_sq v)] (u0, v, s) = Some (u0 \<or> rung_sqs v \<noteq> [], v\<lparr>v_old_dbs := seen_sqs (rung_sqs v) rs (v_old_dbs v)\<rparr>, s') \<and>
     sq_calls proc_io_sq v (rung_sqs v) s = Some (rs, s') \<and> ok s'"
proof -
  let ?r = "\<lambda>q. filter (sq_rung v) [1..<q]"
  let ?P = "\<lambda>q st. \<exists>rs s'. st = (u0 \<or> ?r q \<noteq> [], v\<lparr>v_old_dbs := seen_sqs (?r q) rs (v_old_dbs v)\<rparr>, s') \<and> sq_calls proc_io_sq v (?r q) s = Some (rs, s') \<and> ok s'"
  have "\<exists>st. foldM (proc_sq_db proc_io_sq) [1..<Suc (v_nr_sq v)] (u0, v, s) = Some st \<and> ?P (Suc (v_nr_sq v)) st"
  proof (rule foldM_upt_total [where P = ?P])
    show "?P 1 (u0, v, s)" using s by (simp add: seen_sqs_def)
    fix q st assume q: "1 \<le> q" "q < Suc (v_nr_sq v)" and p: "?P q st"
    obtain rs s' where st: "st = (u0 \<or> ?r q \<noteq> [], v\<lparr>v_old_dbs := seen_sqs (?r q) rs (v_old_dbs v)\<rparr>, s')" and c: "sq_calls proc_io_sq v (?r q) s = Some (rs, s')" "ok s'"
      using p by blast
    have b: "q < length (v_sqes v)" "q * 2 < length (v_dbs v)" "q * 2 < length (v_old_dbs v)" using d q by (auto simp: dbs_ok_def NR_MAX_IO_QUEUE_def)
    have o': "seen_sqs (?r q) rs (v_old_dbs v) ! (q * 2) = v_old_dbs v ! (q * 2)" by (rule seen_sqs_other) auto
    show "\<exists>st'. proc_sq_db proc_io_sq q st = Some st' \<and> ?P (Suc q) st'"
    proof (cases "sq_rung v q")
      case True
      have "q \<in> set (rung_sqs v)" using True q by (simp add: rung_sqs_def del: upt_Suc)
      then obtain r s2 where r: "proc_io_sq q (v_dbs v ! (q * 2)) (v_old_dbs v ! (q * 2)) s' = Some (r, s2)" "ok s2" using sq_serves c(2) by blast
      have "proc_sq_db proc_io_sq q st = Some (True, v\<lparr>v_old_dbs := (seen_sqs (?r q) rs (v_old_dbs v))[q * 2 := r]\<rparr>, s2)"
        using True b r o' by (auto simp: proc_sq_db_def st sq_rung_def)
      moreover have "sq_calls proc_io_sq v (?r (Suc q)) s = Some (rs @ [r], s2)" using sq_calls_snoc [where p = proc_io_sq, OF c(1) r(1)] True q(1) by simp
      moreover have "seen_sqs (?r (Suc q)) (rs @ [r]) (v_old_dbs v) = (seen_sqs (?r q) rs (v_old_dbs v))[q * 2 := r]"
        using seen_sqs_snoc [OF sq_calls_length [OF c(1)]] True q(1) by simp
      ultimately show ?thesis using r(2) True q(1) by (intro exI conjI) (auto simp: filter_upt_Suc simp del: upt_Suc)
    next
      case False
      then have "proc_sq_db proc_io_sq q st = Some st" using b o' by (auto simp: proc_sq_db_def st sq_rung_def)
      moreover have "?r (Suc q) = ?r q" using False q(1) by simp
      ultimately show ?thesis using st c by metis
    qed
  qed simp
  then show ?thesis unfolding rung_sqs_def by blast
qed

lemma cq_pass:
  assumes d: "dbs_ok v" and s: "ok s" and w: "length l = 1024" "\<forall>q. l ! (q * 2 + 1) = v_old_dbs v ! (q * 2 + 1)"
  shows "\<exists>s'. foldM (proc_cq_db proc_io_cq) [1..<Suc (v_nr_cq v)] (u0, v\<lparr>v_old_dbs := l\<rparr>, s) = Some (u0 \<or> rung_cqs v \<noteq> [], v\<lparr>v_old_dbs := seen_cqs v (rung_cqs v) l\<rparr>, s') \<and>
     cq_calls proc_io_cq v (rung_cqs v) s = Some s' \<and> ok s'"
proof -
  let ?r = "\<lambda>q. filter (cq_rung v) [1..<q]"
  let ?P = "\<lambda>q st. \<exists>s'. st = (u0 \<or> ?r q \<noteq> [], v\<lparr>v_old_dbs := seen_cqs v (?r q) l\<rparr>, s') \<and> cq_calls proc_io_cq v (?r q) s = Some s' \<and> ok s'"
  have "\<exists>st. foldM (proc_cq_db proc_io_cq) [1..<Suc (v_nr_cq v)] (u0, v\<lparr>v_old_dbs := l\<rparr>, s) = Some st \<and> ?P (Suc (v_nr_cq v)) st"
  proof (rule foldM_upt_total [where P = ?P])
    show "?P 1 (u0, v\<lparr>v_old_dbs := l\<rparr>, s)" using s by (simp add: seen_cqs_def cq_calls_def)
    fix q st assume q: "1 \<le> q" "q < Suc (v_nr_cq v)" and p: "?P q st"
    obtain s' where st: "st = (u0 \<or> ?r q \<noteq> [], v\<lparr>v_old_dbs := seen_cqs v (?r q) l\<rparr>, s')" and c: "cq_calls proc_io_cq v (?r q) s = Some s'" "ok s'"
      using p by blast
    have b: "q < length (v_cqes v)" "q * 2 + 1 < length (v_dbs v)" "q * 2 + 1 < length l" using d q w(1) by (auto simp: dbs_ok_def NR_MAX_IO_QUEUE_def)
    have "seen_cqs v (?r q) l ! (q * 2 + 1) = l ! (q * 2 + 1)" by (rule seen_cqs_other) auto
    then have o': "seen_cqs v (?r q) l ! (q * 2 + 1) = v_old_dbs v ! (q * 2 + 1)" using w(2) by simp
    show "\<exists>st'. proc_cq_db proc_io_cq q st = Some st' \<and> ?P (Suc q) st'"
    proof (cases "cq_rung v q")
      case True
      have "q \<in> set (rung_cqs v)" using True q by (simp add: rung_cqs_def del: upt_Suc)
      then obtain s2 where r: "proc_io_cq q (v_dbs v ! (q * 2 + 1)) (v_old_dbs v ! (q * 2 + 1)) s' = Some s2" "ok s2" using cq_serves c(2) by blast
      have "proc_cq_db proc_io_cq q st = Some (True, v\<lparr>v_old_dbs := (seen_cqs v (?r q) l)[q * 2 + 1 := v_dbs v ! (q * 2 + 1)]\<rparr>, s2)"
        using True b r o' by (auto simp: proc_cq_db_def st cq_rung_def)
      moreover have "cq_calls proc_io_cq v (?r (Suc q)) s = Some s2" using True q(1) c(1) r(1) by (simp add: cq_calls_def)
      moreover have "seen_cqs v (?r (Suc q)) l = (seen_cqs v (?r q) l)[q * 2 + 1 := v_dbs v ! (q * 2 + 1)]" using True q(1) by (simp add: seen_cqs_def)
      ultimately show ?thesis using r(2) True q(1) by (intro exI conjI) (auto simp: filter_upt_Suc simp del: upt_Suc)
    next
      case False
      then have "proc_cq_db proc_io_cq q st = Some st" using b o' by (auto simp: proc_cq_db_def st cq_rung_def)
      moreover have "?r (Suc q) = ?r q" using False q(1) by simp
      ultimately show ?thesis using st c by metis
    qed
  qed simp
  then show ?thesis unfolding rung_cqs_def by blast
qed

text \<open>With the admin doorbells at rest, a pass is the calls for the rung queues.\<close>

lemma dbs_pass:
  assumes d: "dbs_ok v" and s: "ok s" and rest: "v_dbs v ! 0 = v_old_dbs v ! 0" "v_dbs v ! 1 = v_old_dbs v ! 1"
  shows "\<exists>rs s1 s2. sq_calls proc_io_sq v (rung_sqs v) s = Some (rs, s1) \<and> cq_calls proc_io_cq v (rung_cqs v) s1 = Some s2 \<and> ok s2 \<and>
     nvmev_proc_dbs b proc_io_sq proc_io_cq v s = Some (rung_sqs v \<noteq> [] \<or> rung_cqs v \<noteq> [],
       v\<lparr>v_old_dbs := seen_cqs v (rung_cqs v) (seen_sqs (rung_sqs v) rs (v_old_dbs v))\<rparr>, s2)"
proof -
  have a: "proc_admin_dbs b v = Some (False, v)" using d rest by (simp add: proc_admin_dbs_def dbs_ok_def)
  obtain rs s1 where p: "foldM (proc_sq_db proc_io_sq) [1..<Suc (v_nr_sq v)] (False, v, s) =
       Some (False \<or> rung_sqs v \<noteq> [], v\<lparr>v_old_dbs := seen_sqs (rung_sqs v) rs (v_old_dbs v)\<rparr>, s1)"
     "sq_calls proc_io_sq v (rung_sqs v) s = Some (rs, s1)" "ok s1" using sq_pass [OF d s] by blast
  have l: "length (seen_sqs (rung_sqs v) rs (v_old_dbs v)) = 1024" using d by (simp add: dbs_ok_def)
  have "seen_sqs (rung_sqs v) rs (v_old_dbs v) ! (q * 2 + 1) = v_old_dbs v ! (q * 2 + 1)" for q by (rule seen_sqs_other) (auto, presburger)
  then obtain s2 where c: "foldM (proc_cq_db proc_io_cq) [1..<Suc (v_nr_cq v)] (False \<or> rung_sqs v \<noteq> [], v\<lparr>v_old_dbs := seen_sqs (rung_sqs v) rs (v_old_dbs v)\<rparr>, s1) =
       Some ((False \<or> rung_sqs v \<noteq> []) \<or> rung_cqs v \<noteq> [], v\<lparr>v_old_dbs := seen_cqs v (rung_cqs v) (seen_sqs (rung_sqs v) rs (v_old_dbs v))\<rparr>, s2)"
     "cq_calls proc_io_cq v (rung_cqs v) s1 = Some s2" "ok s2" using cq_pass [OF d p(3) l] by blast
  show ?thesis using a p c by (simp add: nvmev_proc_dbs_def del: upt_Suc)
qed

end

section \<open>The handlers of io.c\<close>

text \<open>
  The I/O side of a device whose queues are those of \<open>v\<close>: the workers and the handler's state are sound,
  every created submission queue has the size it was created with, and its entries are commands that the
  handler admits and name existing namespaces; every created completion queue has its size, and its
  entries name submission queues.
\<close>

definition queues_ok :: "vdev \<Rightarrow> ('h \<Rightarrow> bool) \<Rightarrow> (nvme_io_command \<Rightarrow> bool) \<Rightarrow> ('h, 'b) io_state \<Rightarrow> bool" where
  "queues_ok v hinv adm s \<longleftrightarrow> (case s of (d, wks, h) \<Rightarrow> workers_ok wks \<and> hinv h \<and>
     (\<forall>q\<in>set (rung_sqs v). \<exists>sq. deref (d_sqes d) q = Some sq \<and> sq_queue_size sq = csq_queue_size (the (v_sqes v ! q)) \<and>
        sq_ok (length (d_ns d)) (sq_queue_size sq) sq \<and> (\<forall>c\<in>set (sq_entries sq). adm c)) \<and>
     (\<forall>q\<in>set (rung_cqs v). \<exists>cq. deref (d_cqes d) q = Some cq \<and> cq_queue_size cq = ccq_queue_size (the (v_cqes v ! q)) \<and>
        length (cq_entries cq) = cq_queue_size cq \<and> (\<forall>e\<in>set (cq_entries cq). cqe_sq_id e < length (d_sqes d))))"

text \<open>The doorbells of the queues lie inside them.\<close>

definition dbs_in_range :: "vdev \<Rightarrow> bool" where
  "dbs_in_range v \<longleftrightarrow> (\<forall>q\<in>set (rung_sqs v). v_dbs v ! (q * 2) < csq_queue_size (the (v_sqes v ! q)) \<and> v_old_dbs v ! (q * 2) < csq_queue_size (the (v_sqes v ! q))) \<and>
     (\<forall>q\<in>set (rung_cqs v). v_dbs v ! (q * 2 + 1) < ccq_queue_size (the (v_cqes v ! q)) \<and> v_old_dbs v ! (q * 2 + 1) < ccq_queue_size (the (v_cqes v ! q)))"

lemma deref_upd: "deref (xs[i := Some y]) j = (if i = j \<and> i < length xs then Some y else deref xs j)"
  by (auto simp: deref_def rd_def nth_list_update)

lemma take_off_deref: "deref sqes j = Some sq \<Longrightarrow> \<exists>st. deref (take_off q sqes) j = Some (sq\<lparr>sq_stat := st\<rparr>)"
proof -
  assume a: "deref sqes j = Some sq"
  have "\<exists>st. sq = sq\<lparr>sq_stat := st\<rparr>" by (rule exI [of _ "sq_stat sq"]) simp
  then show ?thesis using a by (cases "j = q") (auto simp: take_off_def deref_upd deref_eq nth_list_update split: option.splits)
qed

lemma take_offs_deref:
  "deref sqes j = Some sq \<Longrightarrow> \<exists>st. deref (fold (\<lambda>i. take_off (f i)) is sqes) j = Some (sq\<lparr>sq_stat := st\<rparr>)"
proof (induction "is" arbitrary: sqes sq)
  case Nil
  have "sq = sq\<lparr>sq_stat := sq_stat sq\<rparr>" by simp
  then show ?case using Nil by (metis fold_simps(1))
next
  case (Cons i "is")
  obtain st where "deref (take_off (f i) sqes) j = Some (sq\<lparr>sq_stat := st\<rparr>)" using take_off_deref [OF Cons.prems] by blast
  from Cons.IH [OF this] show ?case by simp
qed

lemma take_offs_length: "length (fold (\<lambda>i. take_off (f i)) is sqes) = length sqes"
  by (induction "is" arbitrary: sqes) auto

lemma io_cq_handler_ok:
  assumes s: "queues_ok v hinv adm (d, wks, h)" and r: "dbs_in_range v" and q: "q \<in> set (rung_cqs v)"
  shows "\<exists>s'. io_cq_handler q (v_dbs v ! (q * 2 + 1)) (v_old_dbs v ! (q * 2 + 1)) (d, wks, h) = Some s' \<and> queues_ok v hinv adm s'"
proof -
  let ?new = "v_dbs v ! (q * 2 + 1)" and ?old = "v_old_dbs v ! (q * 2 + 1)"
  obtain cq where cq: "deref (d_cqes d) q = Some cq" "cq_queue_size cq = ccq_queue_size (the (v_cqes v ! q))" "length (cq_entries cq) = cq_queue_size cq"
    "\<forall>e\<in>set (cq_entries cq). cqe_sq_id e < length (d_sqes d)" using s q by (auto simp: queues_ok_def)
  have b: "?old < cq_queue_size cq" "?new < cq_queue_size cq" using r q cq(2) by (auto simp: dbs_in_range_def)
  let ?sqes = "fold (\<lambda>i. take_off (cqe_sq_id (cq_entries cq ! i))) (consumed (cq_queue_size cq) ?old ?new) (d_sqes d)"
  let ?d = "d\<lparr>d_sqes := ?sqes, d_cqes := (d_cqes d)[q := Some (cq\<lparr>cq_tail := int ?new - 1\<rparr>)]\<rparr>"
  have "proc_cq_loop q (int ?new) (int ?old) d = Some (d\<lparr>d_sqes := ?sqes\<rparr>)" by (rule proc_cq_loop_ok [OF cq(1,3) _ b]) (use cq(4) in blast)
  then have h: "io_cq_handler q ?new ?old (d, wks, h) = Some (?d, wks, h)" using cq(1) by (simp add: io_cq_handler_def nvmev_proc_io_cq_def)
  have sqs: "\<exists>sq. deref ?sqes j = Some sq \<and> sq_queue_size sq = csq_queue_size (the (v_sqes v ! j)) \<and>
      sq_ok (length (d_ns d)) (sq_queue_size sq) sq \<and> (\<forall>c\<in>set (sq_entries sq). adm c)" if j: "j \<in> set (rung_sqs v)" for j
  proof -
    obtain sq where sq: "deref (d_sqes d) j = Some sq" "sq_queue_size sq = csq_queue_size (the (v_sqes v ! j))"
      "sq_ok (length (d_ns d)) (sq_queue_size sq) sq" "\<forall>c\<in>set (sq_entries sq). adm c" using s j by (auto simp: queues_ok_def)
    obtain st where "deref ?sqes j = Some (sq\<lparr>sq_stat := st\<rparr>)" using take_offs_deref [OF sq(1), of "\<lambda>i. cqe_sq_id (cq_entries cq ! i)"] by blast
    then show ?thesis using sq(2-4) by (simp add: sq_ok_def)
  qed
  have cqs: "\<exists>c. deref (d_cqes ?d) j = Some c \<and> cq_queue_size c = ccq_queue_size (the (v_cqes v ! j)) \<and> length (cq_entries c) = cq_queue_size c \<and>
      (\<forall>e\<in>set (cq_entries c). cqe_sq_id e < length ?sqes)" if j: "j \<in> set (rung_cqs v)" for j
    using s j cq by (cases "j = q") (auto simp: queues_ok_def take_offs_length deref_upd deref_eq)
  have "queues_ok v hinv adm (?d, wks, h)" using s sqs cqs by (simp add: queues_ok_def)
  then show ?thesis using h by blast
qed

context namespace_handler
begin

lemma io_sq_handler_ok:
  assumes s: "queues_ok v inv adm (d, wks, h)" and r: "dbs_in_range v" and q: "q \<in> set (rung_sqs v)"
  shows "\<exists>p s'. io_sq_handler proc_io_cmd clk q (v_dbs v ! (q * 2)) (v_old_dbs v ! (q * 2)) (d, wks, h) = Some (p, s') \<and> queues_ok v inv adm s'"
proof -
  let ?new = "v_dbs v ! (q * 2)" and ?old = "v_old_dbs v ! (q * 2)"
  obtain sq where sq: "deref (d_sqes d) q = Some sq" "sq_queue_size sq = csq_queue_size (the (v_sqes v ! q))"
    "sq_ok (length (d_ns d)) (sq_queue_size sq) sq" "\<forall>c\<in>set (sq_entries sq). adm c" and w: "workers_ok wks" "inv h" using s q by (auto simp: queues_ok_def)
  have b: "?old < sq_queue_size sq" "?new < sq_queue_size sq" using r q sq(2) by (auto simp: dbs_in_range_def)
  obtain os h' wks' where p: "nvmev_proc_io_sq proc_io_cmd (clk q) q ?new ?old (d, wks, h) = Some ((?old + accepted os) mod sq_queue_size sq,
       d\<lparr>d_sqes := (d_sqes d)[q := Some (dispatched (sq_after (sq_queue_size sq) ?old os sq))]\<rparr>, wks', h')" "inv h'"
     "gained (get_io_worker (length wks) q) (new_tasks (sq_queue_size sq) q (sq_cqid sq) (clk q) 0 ?old os) wks wks'"
     "sq_ok (length (d_ns d)) (sq_queue_size sq) (sq_after (sq_queue_size sq) ?old os sq)"
     "\<forall>c\<in>set (sq_entries (sq_after (sq_queue_size sq) ?old os sq)). adm c"
    using proc_io_sq_run [OF w(2) sq(1,3,4) w(1) b, of "clk q"] by blast
  let ?sq = "dispatched (sq_after (sq_queue_size sq) ?old os sq)"
  have o': "sq_ok (length (d_ns d)) (sq_queue_size ?sq) ?sq" "sq_queue_size ?sq = sq_queue_size sq" "\<forall>c\<in>set (sq_entries ?sq). adm c"
    using p(4,5) by (simp_all add: sq_ok_def dispatched_def)
  have "workers_ok wks'" using p(3) by (simp add: gained_def)
  moreover have "\<exists>x. deref ((d_sqes d)[q := Some ?sq]) j = Some x \<and> sq_queue_size x = csq_queue_size (the (v_sqes v ! j)) \<and>
      sq_ok (length (d_ns d)) (sq_queue_size x) x \<and> (\<forall>c\<in>set (sq_entries x). adm c)" if "j \<in> set (rung_sqs v)" for j
    using s that sq o' by (cases "j = q") (auto simp: queues_ok_def deref_upd deref_eq)
  ultimately have "queues_ok v inv adm (d\<lparr>d_sqes := (d_sqes d)[q := Some ?sq]\<rparr>, wks', h')" using s p(2) by (simp add: queues_ok_def)
  then show ?thesis using p(1) unfolding io_sq_handler_def by blast
qed

end

text \<open>The handlers honour the contract of the pass, whatever the namespace's handler is; so does the FDP device.\<close>

sublocale namespace_handler \<subseteq> dbs: doorbell_handlers v "\<lambda>s. dbs_in_range v \<and> queues_ok v inv adm s" "io_sq_handler proc_io_cmd clk" io_cq_handler for v clk
proof
  fix q and s :: "('h, 'b) io_state" assume q: "q \<in> set (rung_sqs v)" and s: "dbs_in_range v \<and> queues_ok v inv adm s"
  obtain d wks h where "s = (d, wks, h)" by (cases s)
  then show "\<exists>r s'. io_sq_handler proc_io_cmd clk q (v_dbs v ! (q * 2)) (v_old_dbs v ! (q * 2)) s = Some (r, s') \<and> dbs_in_range v \<and> queues_ok v inv adm s'"
    using io_sq_handler_ok [of v d wks h q clk] q s by auto
next
  fix q and s :: "('h, 'b) io_state" assume q: "q \<in> set (rung_cqs v)" and s: "dbs_in_range v \<and> queues_ok v inv adm s"
  obtain d wks h where "s = (d, wks, h)" by (cases s)
  then show "\<exists>s'. io_cq_handler q (v_dbs v ! (q * 2 + 1)) (v_old_dbs v ! (q * 2 + 1)) s = Some s' \<and> dbs_in_range v \<and> queues_ok v inv adm s'"
    using io_cq_handler_ok [of v inv adm d wks h q] q s by auto
qed

lemma seen_sqs_in:
  assumes "distinct qs" "length rs = length qs" "k < length qs" "qs ! k * 2 < length l"
  shows "seen_sqs qs rs l ! (qs ! k * 2) = rs ! k"
proof -
  let ?x = "(qs ! k, rs ! k)"
  have "inj_on fst (set (zip qs rs))" by (rule inj_onI) (metis assms(1,2) distinct_map fst_conv inj_onD map_fst_zip)
  then have "inj_on (\<lambda>x. fst x * 2) (set (zip qs rs))" by (simp add: inj_on_def)
  moreover have "?x \<in> set (zip qs rs)" using assms(2,3) by (metis in_set_zip fst_conv snd_conv)
  ultimately show ?thesis using fold_upd_in [of "\<lambda>x. fst x * 2" "zip qs rs" ?x l snd] assms by (simp add: seen_sqs_fold distinct_zipI1)
qed

lemma seen_cqs_in: "distinct qs \<Longrightarrow> q \<in> set qs \<Longrightarrow> q * 2 + 1 < length l \<Longrightarrow> seen_cqs v qs l ! (q * 2 + 1) = v_dbs v ! (q * 2 + 1)"
  unfolding seen_cqs_def by (rule fold_upd_in [where f = "\<lambda>q. q * 2 + 1"]) (auto simp: inj_on_def)

lemma rung_queues:
  "distinct (rung_sqs v)" "q \<in> set (rung_sqs v) \<longleftrightarrow> 1 \<le> q \<and> q \<le> v_nr_sq v \<and> sq_rung v q"
  "distinct (rung_cqs v)" "q \<in> set (rung_cqs v) \<longleftrightarrow> 1 \<le> q \<and> q \<le> v_nr_cq v \<and> cq_rung v q"
  by (auto simp: rung_sqs_def rung_cqs_def simp del: upt_Suc)

lemma even_not_odd: "(a :: nat) * 2 \<noteq> c * 2 + 1" by presburger

text \<open>The remembered doorbells after a pass, one by one.\<close>

lemma seen_after:
  assumes d: "dbs_ok v" and l: "length rs = length (rung_sqs v)" and l': "l' = seen_cqs v (rung_cqs v) (seen_sqs (rung_sqs v) rs (v_old_dbs v))"
  shows "k < length rs \<Longrightarrow> l' ! (rung_sqs v ! k * 2) = rs ! k"
    "q \<in> set (rung_cqs v) \<Longrightarrow> l' ! (q * 2 + 1) = v_dbs v ! (q * 2 + 1)"
    "i \<notin> (\<lambda>q. q * 2) ` set (rung_sqs v) \<union> (\<lambda>q. q * 2 + 1) ` set (rung_cqs v) \<Longrightarrow> l' ! i = v_old_dbs v ! i"
proof -
  have b: "q * 2 < 1024" if "q \<in> set (rung_sqs v)" for q using that d by (simp add: rung_queues dbs_ok_def NR_MAX_IO_QUEUE_def)
  show "l' ! (rung_sqs v ! k * 2) = rs ! k" if k: "k < length rs"
  proof -
    have "l' ! (rung_sqs v ! k * 2) = seen_sqs (rung_sqs v) rs (v_old_dbs v) ! (rung_sqs v ! k * 2)"
      unfolding l' by (rule seen_cqs_other) (use even_not_odd in auto)
    also have "\<dots> = rs ! k" by (rule seen_sqs_in [OF rung_queues(1) l]) (use k l b d in \<open>simp_all add: dbs_ok_def\<close>)
    finally show ?thesis .
  qed
  show "l' ! (q * 2 + 1) = v_dbs v ! (q * 2 + 1)" if "q \<in> set (rung_cqs v)"
    unfolding l' by (rule seen_cqs_in [OF rung_queues(3) that]) (use that d in \<open>simp add: rung_queues dbs_ok_def NR_MAX_IO_QUEUE_def\<close>)
  show "l' ! i = v_old_dbs v ! i" if "i \<notin> (\<lambda>q. q * 2) ` set (rung_sqs v) \<union> (\<lambda>q. q * 2 + 1) ` set (rung_cqs v)"
    using that by (simp add: l' seen_cqs_other seen_sqs_other)
qed

context namespace_handler
begin

lemma dbs_run:
  assumes "dbs_ok v" "dbs_in_range v" "queues_ok v inv adm s" "v_dbs v ! 0 = v_old_dbs v ! 0" "v_dbs v ! 1 = v_old_dbs v ! 1"
  shows "\<exists>rs s1 s2. sq_calls (io_sq_handler proc_io_cmd clk) v (rung_sqs v) s = Some (rs, s1) \<and> cq_calls io_cq_handler v (rung_cqs v) s1 = Some s2 \<and>
     queues_ok v inv adm s2 \<and> nvmev_proc_dbs b (io_sq_handler proc_io_cmd clk) io_cq_handler v s = Some (rung_sqs v \<noteq> [] \<or> rung_cqs v \<noteq> [],
       v\<lparr>v_old_dbs := seen_cqs v (rung_cqs v) (seen_sqs (rung_sqs v) rs (v_old_dbs v))\<rparr>, s2)"
  using dbs.dbs_pass [OF assms(1) _ assms(4,5), of s clk b] assms(2,3) by blast

end

end
