(* ===== verification/Dispatch_Props.thy ===== *)
theory Dispatch_Props
  imports Dispatch Io_Props
begin

text \<open>
  The pass of the dispatcher over the doorbells: which handlers it calls, in which order, and what it
  remembers.
\<close>

text \<open>C22: A pass over the doorbells serves exactly the queues that were rung, with the handlers of \<open>io.c\<close>:
  \<open>nvmev_proc_io_sq\<close> is called once, in the order of their numbers, for every existing submission queue whose
  doorbell moved, with the doorbell and what was last seen of it, then \<open>nvmev_proc_io_cq\<close> for the completion
  queues. The pass reports whether any was called. It remembers the position that each call for a submission queue
  returned (the tail when every command was accepted) and the doorbell of each completion queue it served; no other
  remembered doorbell and nothing else of the device's administrative state changes, and the queues and workers stay
  sound. The admin doorbells are at rest; the doorbells lie inside their queues; the queues hold commands that the
  namespace's handler admits (\<open>queues_ok\<close>), and that handler honours the contract \<open>namespace_handler\<close>, as the handler of an
  FDP namespace does.\<close>

theorem doorbell_pass:
  assumes h: "namespace_handler hinv adm proc_io_cmd" and v: "dbs_ok v" "dbs_in_range v" and s: "queues_ok v hinv adm s"
    and rest: "v_dbs v ! 0 = v_old_dbs v ! 0" "v_dbs v ! 1 = v_old_dbs v ! 1"
  shows "\<exists>rs s1 s2 v'. sq_calls (io_sq_handler proc_io_cmd clk) v (rung_sqs v) s = Some (rs, s1) \<and> cq_calls io_cq_handler v (rung_cqs v) s1 = Some s2 \<and>
     nvmev_proc_dbs b (io_sq_handler proc_io_cmd clk) io_cq_handler v s = Some (rung_sqs v \<noteq> [] \<or> rung_cqs v \<noteq> [], v', s2) \<and>
     length rs = length (rung_sqs v) \<and> (\<forall>k<length rs. v_old_dbs v' ! (rung_sqs v ! k * 2) = rs ! k) \<and>
     (\<forall>q\<in>set (rung_cqs v). v_old_dbs v' ! (q * 2 + 1) = v_dbs v ! (q * 2 + 1)) \<and>
     (\<forall>i. i \<notin> (\<lambda>q. q * 2) ` set (rung_sqs v) \<union> (\<lambda>q. q * 2 + 1) ` set (rung_cqs v) \<longrightarrow> v_old_dbs v' ! i = v_old_dbs v ! i) \<and>
     v' = v\<lparr>v_old_dbs := v_old_dbs v'\<rparr> \<and> queues_ok v hinv adm s2"
proof -
  obtain rs s1 s2 where r: "sq_calls (io_sq_handler proc_io_cmd clk) v (rung_sqs v) s = Some (rs, s1)" "cq_calls io_cq_handler v (rung_cqs v) s1 = Some s2"
     "queues_ok v hinv adm s2" "nvmev_proc_dbs b (io_sq_handler proc_io_cmd clk) io_cq_handler v s = Some (rung_sqs v \<noteq> [] \<or> rung_cqs v \<noteq> [],
       v\<lparr>v_old_dbs := seen_cqs v (rung_cqs v) (seen_sqs (rung_sqs v) rs (v_old_dbs v))\<rparr>, s2)"
    using namespace_handler.dbs_run [OF h v s rest, of clk b] by blast
  note l = sq_calls_length [OF r(1)]
  show ?thesis
    by (intro exI conjI, rule r, rule r, rule r) (use l r(3) seen_after [OF v(1) l] in \<open>simp_all\<close>)
qed

text \<open>The queue pair of the examples, in front of the FDP device of 1 GiB, with both doorbells rung.\<close>

definition rung_vdev :: vdev where
  "rung_vdev = (vdev_init (\<lambda>_. 0) [] 0 fdp_ctx_static True)\<lparr>v_nr_sq := 1, v_nr_cq := 1,
     v_sqes := (replicate 73 None)[1 := Some \<lparr>csq_qid = 1, csq_cqid = 1, csq_priority = 0, csq_phys_contig = True, csq_queue_size = 4, csq_pages = []\<rparr>],
     v_cqes := (replicate 73 None)[1 := Some \<lparr>ccq_qid = 1, ccq_irq_enabled = True, ccq_irq_vector = 1, ccq_interrupt_ready = False, ccq_queue_size = 4,
        ccq_phase = 1, ccq_head = 3, ccq_tail = 0, ccq_phys_contig = True, ccq_pages = []\<rparr>],
     v_dbs := (replicate 1024 0)[2 := 1, 3 := 1], v_old_dbs := (replicate 1024 0)[2 := 3, 3 := 3]\<rparr>"

definition fdp_build :: build where
  "fdp_build = \<lparr>b_type = SSD_TYPE_FDP, b_oneshot = 32768, b_pfn_valid = (\<lambda>_. True), b_memremap = (\<lambda>_. True)\<rparr>"

lemma rung_vdev_ok:
  "rung_sqs rung_vdev = [1]" "rung_cqs rung_vdev = [1]" "dbs_ok rung_vdev" "dbs_in_range rung_vdev"
  "v_dbs rung_vdev ! 0 = v_old_dbs rung_vdev ! 0" "v_dbs rung_vdev ! 1 = v_old_dbs rung_vdev ! 1"
proof -
  have u: "[1..<Suc 1] = [1]" by simp
  show r: "rung_sqs rung_vdev = [1]" "rung_cqs rung_vdev = [1]"
    by (simp_all add: rung_sqs_def rung_cqs_def rung_vdev_def u sq_rung_def cq_rung_def vdev_init_def)
  show "dbs_ok rung_vdev" "v_dbs rung_vdev ! 0 = v_old_dbs rung_vdev ! 0" "v_dbs rung_vdev ! 1 = v_old_dbs rung_vdev ! 1"
    by (simp_all add: dbs_ok_def rung_vdev_def vdev_init_def NR_MAX_IO_QUEUE_def)
  show "dbs_in_range rung_vdev" unfolding dbs_in_range_def r by (simp add: rung_vdev_def)
qed

theorem doorbell_pass_witness:
  "\<exists>ns e r s1 v' s2. fdp_init_namespace (replicate 129 0) samsung_fdp 1 (GB 1) 0 fdp_ctx_static = Some (ns, e) \<and>
     nvmev_proc_io_sq (fdp_io_handler (\<lambda>_. 500) 0) (\<lambda>_. 500) 1 1 3 (io_example, [io_worker_init 0 0], ns, e) = Some (r, s1) \<and>
     nvmev_proc_dbs fdp_build (io_sq_handler (fdp_io_handler (\<lambda>_. 500) 0) (\<lambda>_ _. 500)) io_cq_handler rung_vdev (io_example, [io_worker_init 0 0], ns, e) = Some (True, v', s2) \<and>
     v_old_dbs v' ! 2 = r \<and> v_old_dbs v' ! 3 = 1"
proof -
  obtain sp ns e where f: "fdp_init_namespace (replicate 129 0) samsung_fdp 1 (GB 1) 0 fdp_ctx_static = Some (ns, e)"
     "fdp_io_inv (100 * pgs_per_line sp) sp 4 (ns, e)" "\<forall>c\<in>set (sq_entries io_sq). fdp_io_adm (100 * pgs_per_line sp) sp 4 c" using fdp_example by blast
  have c: "deref (d_cqes io_example) 1 = Some io_cq" "length (cq_entries io_cq) = cq_queue_size io_cq" "cq_queue_size io_cq = 4"
    "\<forall>e\<in>set (cq_entries io_cq). cqe_sq_id e < length (d_sqes io_example)" "sq_queue_size io_sq = 4"
    by (simp_all add: io_example_def deref_def rd_def io_cq_def io_cqe_def io_sq_def)
  have q: "queues_ok rung_vdev (fdp_io_inv (100 * pgs_per_line sp) sp 4) (fdp_io_adm (100 * pgs_per_line sp) sp 4) (io_example, [io_worker_init 0 0], ns, e)"
    unfolding queues_ok_def rung_vdev_ok using f c example_ring by (simp add: rung_vdev_def)
  from doorbell_pass [OF fdp_io.namespace_handler_axioms rung_vdev_ok(3,4) q rung_vdev_ok(5,6), of "\<lambda>_. 500" "0::nat" "\<lambda>_ _. 500" fdp_build]
  obtain rs s1 s2 v' where r: "sq_calls (io_sq_handler (fdp_io_handler (\<lambda>_. 500) (0::nat)) (\<lambda>_ _. 500)) rung_vdev [1] (io_example, [io_worker_init 0 0], ns, e) = Some (rs, s1)"
     "nvmev_proc_dbs fdp_build (io_sq_handler (fdp_io_handler (\<lambda>_. 500) 0) (\<lambda>_ _. 500)) io_cq_handler rung_vdev (io_example, [io_worker_init 0 0], ns, e) = Some (True, v', s2)"
     "length rs = 1" "\<forall>k<length rs. v_old_dbs v' ! ([1] ! k * 2) = rs ! k" "\<forall>q\<in>set [1]. v_old_dbs v' ! (q * 2 + 1) = v_dbs rung_vdev ! (q * 2 + 1)"
    unfolding rung_vdev_ok by auto
  have d: "v_dbs rung_vdev ! 2 = 1" "v_old_dbs rung_vdev ! 2 = 3" "v_dbs rung_vdev ! 3 = 1" by (simp_all add: rung_vdev_def)
  have "nvmev_proc_io_sq (fdp_io_handler (\<lambda>_. 500) 0) (\<lambda>_. 500) 1 1 3 (io_example, [io_worker_init 0 0], ns, e) = Some (rs ! 0, s1)"
    using r(1) d by (auto simp: io_sq_handler_def split: Option.bind_splits)
  moreover have "v_old_dbs v' ! 2 = rs ! 0" "v_old_dbs v' ! 3 = 1" using r(3-5) d by (auto simp: numeral_eq_Suc)
  ultimately show ?thesis using f(1) r(2) by blast
qed

end
