(* ===== verification/Pci.thy ===== *)
theory Pci
  imports Ctrl
begin

text \<open>
  The PCI configuration space (\<open>pci.c\<close>): its layout by the structures of \<open>pci.h\<close>, what the module
  stores in it when the device is created, and the host's reads and writes.

  The space is a page of bytes, modelled by its bits in the order of the addresses. A structure is the
  list of its fields with their widths in bits; the compiler places them one after the other, as no
  field of the structures used here crosses a unit of its type. The registers of the standard
  (\<open>PCI_COMMAND\<close> and the like) are the kernel's constants.
\<close>

section \<open>Bits and fields\<close>

type_synonym cfg_space = "nat \<Rightarrow> bool"

definition get_bits :: "nat \<Rightarrow> nat \<Rightarrow> cfg_space \<Rightarrow> nat" where
  "get_bits b w c = horner_sum of_bool 2 (map (\<lambda>i. c (b + i)) [0..<w])"

definition put_bits :: "nat \<Rightarrow> nat \<Rightarrow> nat \<Rightarrow> cfg_space \<Rightarrow> cfg_space" where
  "put_bits b w v c = (\<lambda>k. if b \<le> k \<and> k < b + w then bit v (k - b) else c k)"

type_synonym layout = "(string \<times> nat) list"

fun field_at :: "layout \<Rightarrow> string \<Rightarrow> nat \<Rightarrow> (nat \<times> nat) option" where
  "field_at [] f b = None"
| "field_at ((g, w) # fs) f b = (if g = f then Some (b, w) else field_at fs f (b + w))"

text \<open>Assignments to fields of a structure that begins at byte \<open>off\<close>.\<close>

definition set_fields :: "layout \<Rightarrow> nat \<Rightarrow> (string \<times> nat) list \<Rightarrow> cfg_space \<Rightarrow> cfg_space option" where
  "set_fields ly off fs c = foldM (\<lambda>(f, v) c. do { (b, w) \<leftarrow> field_at ly f (8 * off); Some (put_bits b w v c) }) fs c"

section \<open>Structures\<close>

definition pci_header :: layout where
  "pci_header = [(''id.vid'', 16), (''id.did'', 16),
     (''cmd.iose'', 1), (''cmd.mse'', 1), (''cmd.bme'', 1), (''cmd.sce'', 1), (''cmd.mwie'', 1), (''cmd.vga'', 1), (''cmd.pee'', 1), (''cmd.fixed'', 1),
     (''cmd.see'', 1), (''cmd.fbe'', 1), (''cmd.id'', 1), (''cmd.rsvd'', 5),
     (''sts.rsvd1'', 3), (''sts.is'', 1), (''sts.cl'', 1), (''sts.c66'', 1), (''sts.rsvd2'', 1), (''sts.fbc'', 1), (''sts.dpd'', 1), (''sts.devt'', 2), (''sts.sta'', 1),
     (''sts.rta'', 1), (''sts.rma'', 1), (''sts.sse'', 1), (''sts.dpe'', 1),
     (''rid'', 8), (''cc.pi'', 8), (''cc.scc'', 8), (''cc.bcc'', 8), (''cls'', 8), (''mlt'', 8), (''htype.hl'', 7), (''htype.mfd'', 1),
     (''bist.cc'', 4), (''bist.rsvd'', 2), (''bist.sb'', 1), (''bist.bc'', 1),
     (''mlbar.rte'', 1), (''mlbar.tp'', 2), (''mlbar.pf'', 1), (''mlbar.rsvd'', 10), (''mlbar.ba'', 18),
     (''mulbar'', 32), (''idbar'', 32), (''bar3'', 32), (''bar4'', 32), (''bar5'', 32), (''ccptr'', 32), (''ss.ssvid'', 16), (''ss.ssid'', 16), (''erom'', 32),
     (''cap'', 8), (''rsvd'', 56), (''intr.iline'', 8), (''intr.ipin'', 8), (''mgnt'', 8), (''mlat'', 8)]"

definition pci_pm_cap :: layout where
  "pci_pm_cap = [(''pid.cid'', 8), (''pid.next'', 8), (''pc.vs'', 3), (''pc.pmec'', 1), (''pc.resv'', 1), (''pc.dsi'', 1), (''pc.auxc'', 3), (''pc.d1s'', 1),
     (''pc.d2s'', 1), (''pc.psup'', 5), (''pmcs.ps'', 2), (''pmcs.rsvd01'', 1), (''pmcs.nsfrst'', 1), (''pmcs.rsvd02'', 4), (''pmcs.pmee'', 1), (''pmcs.dse'', 4),
     (''pmcs.dsc'', 2), (''pmcs.pmes'', 1), (''ext'', 16)]"

definition pci_msix_cap :: layout where
  "pci_msix_cap = [(''mxid.cid'', 8), (''mxid.next'', 8), (''mxc.ts'', 11), (''mxc.rsvd'', 3), (''mxc.fm'', 1), (''mxc.mxe'', 1), (''mtab.tbir'', 3), (''mtab.to'', 29),
     (''mpba.pbir'', 3), (''mpba.pbao'', 29)]"

text \<open>Up to the device capabilities; the module sets no field behind them.\<close>

definition pcie_cap :: layout where
  "pcie_cap = [(''pxid.cid'', 8), (''pxid.next'', 8), (''pxcap.ver'', 4), (''pxcap.dpt'', 4), (''pxcap.si'', 1), (''pxcap.imn'', 5), (''pxcap.rsvd'', 2),
     (''pxdcap.mps'', 3), (''pxdcap.pfs'', 2), (''pxdcap.etfs'', 1), (''pxdcap.l0sl'', 3), (''pxdcap.l1l'', 3), (''pxdcap.rsvd'', 3), (''pxdcap.rer'', 1),
     (''pxdcap.rsvd2'', 2), (''pxdcap.csplv'', 8), (''pxdcap.cspls'', 2), (''pxdcap.flrc'', 1), (''pxdcap.rsvd3'', 3)]"

definition pci_ext_cap :: layout where
  "pci_ext_cap = [(''cid'', 16), (''cver'', 4), (''next'', 12)]"

definition OFFS_PCI_HDR :: nat where "OFFS_PCI_HDR = 0x0"
definition OFFS_PCI_PM_CAP :: nat where "OFFS_PCI_PM_CAP = 0x40"
definition OFFS_PCI_MSIX_CAP :: nat where "OFFS_PCI_MSIX_CAP = 0x50"
definition OFFS_PCIE_CAP :: nat where "OFFS_PCIE_CAP = 0x60"
definition OFFS_PCI_EXT_CAP :: nat where "OFFS_PCI_EXT_CAP = 0x100"

lemmas pci_offsets = OFFS_PCI_HDR_def OFFS_PCI_PM_CAP_def OFFS_PCI_MSIX_CAP_def OFFS_PCIE_CAP_def OFFS_PCI_EXT_CAP_def

definition NVMEV_DEVICE_ID :: nat where "NVMEV_DEVICE_ID = 0x0110"
definition NVMEV_VENDOR_ID :: nat where "NVMEV_VENDOR_ID = 0x0c51"
definition NVMEV_SUBSYSTEM_ID :: nat where "NVMEV_SUBSYSTEM_ID = 0x370d"
definition NVMEV_INTX_IRQ :: nat where "NVMEV_INTX_IRQ = 15"

section \<open>Settings\<close>

definition PCI_HEADER_SETTINGS :: "nat \<Rightarrow> cfg_space \<Rightarrow> cfg_space option" where
  "PCI_HEADER_SETTINGS base_pa = set_fields pci_header OFFS_PCI_HDR
     [(''id.did'', NVMEV_DEVICE_ID), (''id.vid'', NVMEV_VENDOR_ID), (''cmd.mse'', 1), (''sts.cl'', 1), (''htype.mfd'', 0), (''htype.hl'', 0), (''rid'', 0x01),
      (''cc.bcc'', 0x01), (''cc.scc'', 0x08), (''cc.pi'', 0x02), (''mlbar.tp'', 0x04 div 2), (''mlbar.ba'', base_pa mod 2 ^ 32 div 2 ^ 14), (''mulbar'', base_pa div 2 ^ 32),
      (''ss.ssid'', NVMEV_SUBSYSTEM_ID), (''ss.ssvid'', NVMEV_VENDOR_ID), (''erom'', 0), (''cap'', OFFS_PCI_PM_CAP), (''intr.ipin'', 0), (''intr.iline'', NVMEV_INTX_IRQ)]"

definition PCI_PMCAP_SETTINGS :: "cfg_space \<Rightarrow> cfg_space option" where
  "PCI_PMCAP_SETTINGS = set_fields pci_pm_cap OFFS_PCI_PM_CAP
     [(''pid.cid'', 0x01), (''pid.next'', OFFS_PCI_MSIX_CAP), (''pc.vs'', 3), (''pmcs.nsfrst'', 1), (''pmcs.ps'', 0x0800 div 2 ^ 16)]"

definition PCI_MSIXCAP_SETTINGS :: "cfg_space \<Rightarrow> cfg_space option" where
  "PCI_MSIXCAP_SETTINGS = set_fields pci_msix_cap OFFS_PCI_MSIX_CAP
     [(''mxid.cid'', 0x11), (''mxid.next'', OFFS_PCIE_CAP), (''mxc.mxe'', 1), (''mxc.ts'', 127), (''mtab.tbir'', 0), (''mtab.to'', 0x400), (''mpba.pbao'', 0x1000),
      (''mpba.pbir'', 0)]"

definition PCI_PCIECAP_SETTINGS :: "cfg_space \<Rightarrow> cfg_space option" where
  "PCI_PCIECAP_SETTINGS = set_fields pcie_cap OFFS_PCIE_CAP
     [(''pxid.cid'', 0x10), (''pxid.next'', 0x0), (''pxcap.ver'', 2), (''pxcap.imn'', 0), (''pxcap.dpt'', 0), (''pxdcap.mps'', 1), (''pxdcap.pfs'', 0), (''pxdcap.etfs'', 1),
      (''pxdcap.l0sl'', 6), (''pxdcap.l1l'', 2), (''pxdcap.rer'', 1), (''pxdcap.csplv'', 0), (''pxdcap.cspls'', 0), (''pxdcap.flrc'', 1)]"

text \<open>The extended capabilities: offset from the first one, identifier, and the address of the next one.\<close>

definition PCI_EXTCAP_SETTINGS :: "cfg_space \<Rightarrow> cfg_space option" where
  "PCI_EXTCAP_SETTINGS = foldM (\<lambda>(off, cid, nxt). set_fields pci_ext_cap (OFFS_PCI_EXT_CAP + off) [(''cid'', cid), (''cver'', 1), (''next'', nxt)])
     [(0, 0x01, 0x100 + 0x50), (0x50, 0x02, 0x100 + 0x80), (0x80, 0x04, 0x100 + 0x90), (0x90, 0x0e, 0x100 + 0x170), (0x170, 0x03, 0x100 + 0x1a0), (0x1a0, 0x19, 0)]"

text \<open>The device: the space, whether legacy interrupts are disabled, and whether the kernel's device has its message interrupts enabled, once it exists.\<close>

record pci_device =
  pd_cfg :: cfg_space
  pd_intx_disabled :: bool
  pd_msix_enabled :: "bool option"

definition NVMEV_PCI_INIT :: "nat \<Rightarrow> cfg_space \<Rightarrow> pci_device option" where
  "NVMEV_PCI_INIT memmap_start c = do {
     c \<leftarrow> PCI_HEADER_SETTINGS memmap_start c;
     c \<leftarrow> PCI_PMCAP_SETTINGS c;
     c \<leftarrow> PCI_MSIXCAP_SETTINGS c;
     c \<leftarrow> PCI_PCIECAP_SETTINGS c;
     c \<leftarrow> PCI_EXTCAP_SETTINGS c;
     Some \<lparr>pd_cfg = c, pd_intx_disabled = False, pd_msix_enabled = None\<rparr>
   }"

section \<open>The controller's registers\<close>

definition nvme_cap :: layout where
  "nvme_cap = [(''mqes'', 16), (''cqr'', 1), (''ams'', 2), (''rsvd'', 5), (''to'', 8), (''dstrd'', 4), (''nssrs'', 1), (''css'', 8), (''rsvd2'', 3), (''mpsmin'', 4),
     (''mpsmax'', 4), (''rsvd3'', 8)]"

definition nvme_vs :: layout where
  "nvme_vs = [(''rsvd'', 8), (''mnr'', 8), (''mjr'', 16)]"

definition CAP_CSS_BIT_SPECIFIC :: nat where "CAP_CSS_BIT_SPECIFIC = 2 ^ 6"

text \<open>The registers that are not zero: the capabilities and, behind them, the version.\<close>

definition init_nvme_ctrl_regs :: "ssd_type \<Rightarrow> cfg_space option" where
  "init_nvme_ctrl_regs ty = do {
     c \<leftarrow> set_fields nvme_cap 0 ([(''to'', 1), (''mpsmin'', 0), (''mqes'', 1024 - 1)] @ (if ty = SSD_TYPE_ZNS then [(''css'', CAP_CSS_BIT_SPECIFIC)] else [])) (\<lambda>_. False);
     set_fields nvme_vs 8 [(''mjr'', 1), (''mnr'', 0)] c
   }"

section \<open>Reads and writes\<close>

text \<open>A read of another device than 0 returns the error 1.\<close>

definition nvmev_pci_read :: "nat \<Rightarrow> nat \<Rightarrow> nat \<Rightarrow> pci_device \<Rightarrow> nat + nat" where
  "nvmev_pci_read devfn addr n d = (if devfn \<noteq> 0 then Inl 1 else Inr (get_bits (8 * addr) (8 * n) (pd_cfg d)))"

text \<open>Which bits a write to an address may change.\<close>

definition write_mask :: "nat \<Rightarrow> nat" where
  "write_mask addr =
     (if addr < OFFS_PCI_PM_CAP then
        (if addr = 0x04 then 0x400 else if addr = 0x06 then 0xF200 else if addr = 0x0f then 0x40
         else if addr = 0x10 then 0xFFFFC000 else if addr = 0x3c then 0xFF else 0)
      else if addr < OFFS_PCI_MSIX_CAP then 0xFFFFFFFF
      else if addr < OFFS_PCIE_CAP then (if addr - OFFS_PCI_MSIX_CAP = 2 then 0xC000 else 0)
      else 0xFFFFFFFF)"

text \<open>The interrupt status bit is cleared before the masked value is stored, which may store it again.\<close>

definition nvmev_pci_write :: "nat \<Rightarrow> nat \<Rightarrow> nat \<Rightarrow> pci_device \<Rightarrow> pci_device option" where
  "nvmev_pci_write addr n new d = do {
     NVMEV_ASSERT (n \<le> 4 \<and> addr + n \<le> PAGE_SIZE);
     let val = get_bits (8 * addr) (8 * n) (pd_cfg d);
     let d1 = (if addr = 0x04 \<and> (bit val 10 \<noteq> bit new 10)
       then d\<lparr>pd_intx_disabled := bit new 10, pd_cfg := (if bit new 10 then pd_cfg d else put_bits (8 * 0x06 + 3) 1 0 (pd_cfg d))\<rparr> else d);
     let d2 = (if addr = OFFS_PCI_MSIX_CAP + 2 \<and> pd_msix_enabled d1 \<noteq> None \<and> (bit val 15 \<noteq> bit new 15)
       then d1\<lparr>pd_msix_enabled := Some (bit new 15)\<rparr> else d1);
     let mask = write_mask addr;
     let val' = Bit_Operations.or (Bit_Operations.and val (Bit_Operations.xor mask 0xFFFFFFFF)) (Bit_Operations.and new mask);
     Some (d2\<lparr>pd_cfg := put_bits (8 * addr) (8 * n) val' (pd_cfg d2)\<rparr>)
   }"

end
