(* ===== verification/Pci_Props.thy ===== *)
theory Pci_Props
  imports Pci
begin

text \<open>
  The configuration space as the host's PCI code finds it: the device is identified as an NVMe
  controller, its capability lists can be walked, its window has the size the registers need, and
  writes change nothing but what they may.
\<close>

section \<open>Reading what was stored\<close>

lemma bit_get_bits: "bit (get_bits b w c) i \<longleftrightarrow> i < w \<and> c (b + i)"
  by (auto simp: get_bits_def bit_horner_sum_bit_iff)

lemma get_put_bits_same: "get_bits b w (put_bits b w v c) = take_bit w v"
  by (rule bit_eqI) (simp add: bit_get_bits bit_take_bit_iff put_bits_def)

lemma get_put_bits_other: "b + w \<le> b' \<or> b' + w' \<le> b \<Longrightarrow> get_bits b w (put_bits b' w' v c) = get_bits b w c"
  by (rule bit_eqI) (auto simp: bit_get_bits put_bits_def)

lemma get_bits_zero: "get_bits b w (\<lambda>_. False) = 0"
  by (rule bit_eqI) (simp add: bit_get_bits)

lemma get_bits_split: "get_bits b (w + w') c = get_bits b w c + get_bits (b + w) w' c * 2 ^ w"
proof -
  have "Bit_Operations.or (get_bits b w c) (push_bit w (get_bits (b + w) w' c)) = get_bits b w c + push_bit w (get_bits (b + w) w' c)"
    by (rule disjunctive_add [symmetric]) (auto simp: bit_get_bits bit_push_bit_iff)
  moreover have "get_bits b (w + w') c = Bit_Operations.or (get_bits b w c) (push_bit w (get_bits (b + w) w' c))"
    by (rule bit_eqI) (auto simp: bit_get_bits bit_or_iff bit_push_bit_iff)
  ultimately show ?thesis by (simp add: push_bit_eq_mult)
qed

lemma set_fields_Nil: "set_fields ly off [] c = Some c"
  by (simp add: set_fields_def)

lemma set_fields_Cons: "field_at ly f (8 * off) = Some (b, w) \<Longrightarrow> set_fields ly off ((f, v) # fs) c = set_fields ly off fs (put_bits b w v c)"
  by (simp add: set_fields_def)

lemmas layouts = pci_header_def pci_pm_cap_def pci_msix_cap_def pcie_cap_def pci_ext_cap_def

text \<open>The space after the settings.\<close>

definition cfg_init :: "nat \<Rightarrow> cfg_space" where
  "cfg_init base = fold (\<lambda>(b, w, v). put_bits b w v)
     [(16, 16, 0x0110), (0, 16, 0x0c51), (33, 1, 1), (52, 1, 1), (119, 1, 0), (112, 7, 0), (64, 8, 1), (88, 8, 1), (80, 8, 8), (72, 8, 2),
      (129, 2, 2), (142, 18, base mod 2 ^ 32 div 2 ^ 14), (160, 32, base div 2 ^ 32), (368, 16, 0x370d), (352, 16, 0x0c51), (384, 32, 0), (416, 8, 0x40), (488, 8, 0), (480, 8, 15),
      (512, 8, 1), (520, 8, 0x50), (528, 3, 3), (547, 1, 1), (544, 2, 0),
      (640, 8, 0x11), (648, 8, 0x60), (671, 1, 1), (656, 11, 127), (672, 3, 0), (675, 29, 0x400), (707, 29, 0x1000), (704, 3, 0),
      (768, 8, 0x10), (776, 8, 0), (784, 4, 2), (793, 5, 0), (788, 4, 0), (800, 3, 1), (803, 2, 0), (805, 1, 1), (806, 3, 6), (809, 3, 2), (815, 1, 1), (818, 8, 0), (826, 2, 0), (828, 1, 1),
      (2048, 16, 1), (2064, 4, 1), (2068, 12, 0x150), (2688, 16, 2), (2704, 4, 1), (2708, 12, 0x180), (3072, 16, 4), (3088, 4, 1), (3092, 12, 0x190),
      (3200, 16, 0x0e), (3216, 4, 1), (3220, 12, 0x270), (4992, 16, 3), (5008, 4, 1), (5012, 12, 0x2a0), (5376, 16, 0x19), (5392, 4, 1), (5396, 12, 0)] (\<lambda>_. False)"

lemma header_settings:
  "PCI_HEADER_SETTINGS base c = Some (fold (\<lambda>(b, w, v). put_bits b w v)
     [(16, 16, 0x0110), (0, 16, 0x0c51), (33, 1, 1), (52, 1, 1), (119, 1, 0), (112, 7, 0), (64, 8, 1), (88, 8, 1), (80, 8, 8), (72, 8, 2),
      (129, 2, 2), (142, 18, base mod 2 ^ 32 div 2 ^ 14), (160, 32, base div 2 ^ 32), (368, 16, 0x370d), (352, 16, 0x0c51), (384, 32, 0), (416, 8, 0x40), (488, 8, 0), (480, 8, 15)] c)"
  unfolding PCI_HEADER_SETTINGS_def
  by (simp add: set_fields_Cons set_fields_Nil pci_header_def pci_offsets NVMEV_DEVICE_ID_def NVMEV_VENDOR_ID_def NVMEV_SUBSYSTEM_ID_def NVMEV_INTX_IRQ_def)

lemma init_space: "\<exists>d. NVMEV_PCI_INIT base (\<lambda>_. False) = Some d \<and> pd_cfg d = cfg_init base \<and> \<not> pd_intx_disabled d \<and> pd_msix_enabled d = None"
  unfolding NVMEV_PCI_INIT_def header_settings PCI_PMCAP_SETTINGS_def PCI_MSIXCAP_SETTINGS_def PCI_PCIECAP_SETTINGS_def PCI_EXTCAP_SETTINGS_def cfg_init_def
  by (simp add: set_fields_Cons set_fields_Nil layouts pci_offsets)

section \<open>What the host finds\<close>

text \<open>The host's walks along the two capability lists: identifiers and addresses.\<close>

fun walk_caps :: "nat \<Rightarrow> nat \<Rightarrow> cfg_space \<Rightarrow> (nat \<times> nat) list" where
  "walk_caps 0 p c = []"
| "walk_caps (Suc n) p c = (if p = 0 then [] else (get_bits (8 * p) 8 c, p) # walk_caps n (get_bits (8 * (p + 1)) 8 c) c)"

fun walk_ext_caps :: "nat \<Rightarrow> nat \<Rightarrow> cfg_space \<Rightarrow> (nat \<times> nat) list" where
  "walk_ext_caps 0 p c = []"
| "walk_ext_caps (Suc n) p c = (if p = 0 then [] else (get_bits (8 * p) 16 c, p) # walk_ext_caps n (get_bits (8 * (p + 2) + 4) 12 c) c)"

lemma cfg_fields:
  fixes base defines "c \<equiv> cfg_init base"
  shows "get_bits 0 16 c = 0x0c51" "get_bits 16 16 c = 0x0110" "get_bits 64 8 c = 1" "get_bits 72 8 c = 2" "get_bits 80 8 c = 8" "get_bits 88 8 c = 1"
    "get_bits 128 1 c = 0" "get_bits 129 2 c = 2" "get_bits 131 11 c = 0" "get_bits 142 18 c = base mod 2 ^ 32 div 2 ^ 14" "get_bits 160 32 c = base div 2 ^ 32 mod 2 ^ 32" "get_bits 416 8 c = 0x40"
    "get_bits 656 11 c = 127" "get_bits 672 3 c = 0" "get_bits 675 29 c = 0x400" "get_bits 704 3 c = 0" "get_bits 707 29 c = 0x1000"
proof -
  have m: "take_bit 18 (base mod 2 ^ 32 div 2 ^ 14) = base mod 2 ^ 32 div 2 ^ 14" by (simp add: take_bit_eq_mod less_mult_imp_div_less)
  show "get_bits 0 16 c = 0x0c51" "get_bits 16 16 c = 0x0110" "get_bits 64 8 c = 1" "get_bits 72 8 c = 2" "get_bits 80 8 c = 8" "get_bits 88 8 c = 1"
    "get_bits 128 1 c = 0" "get_bits 129 2 c = 2" "get_bits 131 11 c = 0" "get_bits 142 18 c = base mod 2 ^ 32 div 2 ^ 14" "get_bits 160 32 c = base div 2 ^ 32 mod 2 ^ 32" "get_bits 416 8 c = 0x40"
    "get_bits 656 11 c = 127" "get_bits 672 3 c = 0" "get_bits 675 29 c = 0x400" "get_bits 704 3 c = 0" "get_bits 707 29 c = 0x1000"
    unfolding c_def cfg_init_def fold_simps prod.case id_apply comp_apply
    by (simp_all add: get_put_bits_same get_put_bits_other get_bits_zero m) (simp_all add: take_bit_eq_mod)
qed

lemma cfg_caps:
  fixes base defines "c \<equiv> cfg_init base"
  shows "get_bits 512 8 c = 1" "get_bits 520 8 c = 0x50" "get_bits 640 8 c = 0x11" "get_bits 648 8 c = 0x60" "get_bits 768 8 c = 0x10" "get_bits 776 8 c = 0"
    "get_bits 2048 16 c = 1" "get_bits 2068 12 c = 0x150" "get_bits 2688 16 c = 2" "get_bits 2708 12 c = 0x180" "get_bits 3072 16 c = 4" "get_bits 3092 12 c = 0x190"
    "get_bits 3200 16 c = 0x0e" "get_bits 3220 12 c = 0x270" "get_bits 4992 16 c = 3" "get_bits 5012 12 c = 0x2a0" "get_bits 5376 16 c = 0x19" "get_bits 5396 12 c = 0"
  unfolding c_def cfg_init_def fold_simps prod.case id_apply comp_apply
  by (simp_all add: get_put_bits_same get_put_bits_other get_bits_zero)

lemma walks:
  "walk_caps (n + 4) 0x40 (cfg_init base) = [(0x01, 0x40), (0x11, 0x50), (0x10, 0x60)]"
  "walk_ext_caps (n + 7) 0x100 (cfg_init base) = [(0x01, 0x100), (0x02, 0x150), (0x04, 0x180), (0x0e, 0x190), (0x03, 0x270), (0x19, 0x2a0)]"
proof -
  have n: "n + 4 = Suc (Suc (Suc (Suc n)))" "n + 7 = Suc (Suc (Suc (Suc (Suc (Suc (Suc n))))))" by simp_all
  show "walk_caps (n + 4) 0x40 (cfg_init base) = [(0x01, 0x40), (0x11, 0x50), (0x10, 0x60)]" unfolding n by (simp add: cfg_caps)
  show "walk_ext_caps (n + 7) 0x100 (cfg_init base) = [(0x01, 0x100), (0x02, 0x150), (0x04, 0x180), (0x0e, 0x190), (0x03, 0x270), (0x19, 0x2a0)]"
    unfolding n by (simp add: cfg_caps)
qed

lemma read_bar0: "get_bits 128 32 c = get_bits 128 1 c + (get_bits 129 2 c + (get_bits 131 11 c + get_bits 142 18 c * 2 ^ 11) * 2 ^ 2) * 2 ^ 1"
  using get_bits_split [of 128 1 31 c] get_bits_split [of 129 2 29 c] get_bits_split [of 131 11 18 c] by simp

text \<open>C32: The host finds an NVMe controller: after the module has set up the configuration space, its first registers are the vendor and device
  identifiers and the class code of an NVMe controller, the two base address registers hold a 64-bit window at the start of the reserved memory (rounded down
  to 16 KiB), the list of capabilities leads over power management and MSI-X to PCI Express and ends, and the list of extended capabilities visits its
  six entries and ends.\<close>

theorem host_finds_nvme_controller:
  assumes "base < 2 ^ 64"
  shows "\<exists>d low high. NVMEV_PCI_INIT base (\<lambda>_. False) = Some d \<and> nvmev_pci_read 0 0 4 d = Inr 0x01100c51 \<and> nvmev_pci_read 0 8 4 d = Inr 0x01080201 \<and>
     nvmev_pci_read 0 0x10 4 d = Inr low \<and> nvmev_pci_read 0 0x14 4 d = Inr high \<and> low mod 16 = 4 \<and> low - 4 + high * 2 ^ 32 = base div 2 ^ 14 * 2 ^ 14 \<and>
     nvmev_pci_read 0 0x34 1 d = Inr 0x40 \<and> walk_caps (n + 4) 0x40 (pd_cfg d) = [(0x01, 0x40), (0x11, 0x50), (0x10, 0x60)] \<and>
     walk_ext_caps (n + 7) 0x100 (pd_cfg d) = [(0x01, 0x100), (0x02, 0x150), (0x04, 0x180), (0x0e, 0x190), (0x03, 0x270), (0x19, 0x2a0)]"
proof -
  obtain d where d: "NVMEV_PCI_INIT base (\<lambda>_. False) = Some d" "pd_cfg d = cfg_init base" using init_space by blast
  let ?c = "cfg_init base"
  have ids: "get_bits 0 32 ?c = 0x01100c51" "get_bits 64 32 ?c = 0x01080201"
    using get_bits_split [of 0 16 16 ?c] get_bits_split [of 64 8 24 ?c] get_bits_split [of 72 8 16 ?c] get_bits_split [of 80 8 8 ?c] by (simp_all add: cfg_fields)
  have low: "get_bits 128 32 ?c = base mod 2 ^ 32 div 2 ^ 14 * 2 ^ 14 + 4" unfolding read_bar0 using cfg_fields(7) [of base] by (simp add: cfg_fields)
  have high: "get_bits 160 32 ?c = base div 2 ^ 32" using assms by (simp add: cfg_fields less_mult_imp_div_less)
  have sum: "base mod 2 ^ 32 div 2 ^ 14 * 2 ^ 14 + base div 2 ^ 32 * 2 ^ 32 = base div 2 ^ 14 * 2 ^ 14"
  proof -
    have "base = base div 2 ^ 32 * 2 ^ 18 * 2 ^ 14 + base mod 2 ^ 32" by simp
    then have "base div 2 ^ 14 = base div 2 ^ 32 * 2 ^ 18 + base mod 2 ^ 32 div 2 ^ 14" by (metis add.commute div_mult_self3 power_not_zero zero_neq_numeral)
    then show ?thesis by simp
  qed
  have l16: "(x * 16384 + 4) mod 16 = 4" for x :: nat by presburger
  show ?thesis
    by (intro exI [of _ d] exI conjI d(1)) (use ids low high sum l16 in \<open>auto simp: nvmev_pci_read_def d(2) cfg_fields walks\<close>)
qed

theorem host_finds_nvme_controller_witness:
  "\<exists>d low high. NVMEV_PCI_INIT 0x100000000 (\<lambda>_. False) = Some d \<and> nvmev_pci_read 0 0x10 4 d = Inr low \<and> nvmev_pci_read 0 0x14 4 d = Inr high \<and> low - 4 + high * 2 ^ 32 = 0x100000000"
  using host_finds_nvme_controller [of "0x100000000" 0] by auto

text \<open>The registers: queues of up to 1024 entries, doorbells of four bytes (a stride of 0, as \<open>nvmev_proc_dbs\<close> indexes them), pages of 4 KiB, version 1.0.\<close>

lemma ctrl_capabilities:
  "\<exists>r. init_nvme_ctrl_regs ty = Some r \<and> get_bits 0 16 r = 1023 \<and> get_bits 32 4 r = 0 \<and> get_bits 37 8 r = (if ty = SSD_TYPE_ZNS then 64 else 0) \<and>
     get_bits 48 4 r = 0 \<and> get_bits 64 32 r = 0x00010000"
  using get_bits_split [of 64 16 16 "put_bits 72 8 0 (put_bits 80 16 1 c)" for c] get_bits_split [of 64 8 8 "put_bits 72 8 0 (put_bits 80 16 1 c)" for c]
  by (simp add: init_nvme_ctrl_regs_def set_fields_Cons set_fields_Nil nvme_cap_def nvme_vs_def CAP_CSS_BIT_SPECIFIC_def get_put_bits_same get_put_bits_other get_bits_zero)

section \<open>Writes\<close>

text \<open>Accesses of the kernel: one, two or four bytes, aligned, inside the space.\<close>

definition cfg_access :: "nat \<Rightarrow> nat \<Rightarrow> bool" where
  "cfg_access addr n \<longleftrightarrow> n \<in> {1, 2, 4} \<and> addr mod n = 0 \<and> addr + n \<le> PAGE_SIZE"

text \<open>The bits that a write may change: the interrupt disable bit, the interrupt status and the error bits of the status, the start of the self test, the window's
  address, the interrupt line, the power management capability, the two flags of MSI-X, and everything behind it.\<close>

definition cfg_writable :: "nat \<Rightarrow> bool" where
  "cfg_writable k \<longleftrightarrow> k \<in> {8 * 4 + 10, 8 * 6 + 3, 8 * 6 + 9, 8 * 15 + 6} \<or> 8 * 6 + 12 \<le> k \<and> k < 8 * 8 \<or> 8 * 0x10 + 14 \<le> k \<and> k < 8 * 0x14 \<or> 8 * 0x3c \<le> k \<and> k < 8 * 0x3d \<or>
     8 * 0x40 \<le> k \<and> k < 8 * 0x50 \<or> k \<in> {8 * 0x52 + 14, 8 * 0x52 + 15} \<or> 8 * 0x60 \<le> k"

lemma mask_bits:
  assumes "i < 32"
  shows "bit (0x400 :: nat) i \<longleftrightarrow> i = 10" "bit (0x40 :: nat) i \<longleftrightarrow> i = 6" "bit (0xF200 :: nat) i \<longleftrightarrow> i = 9 \<or> 12 \<le> i \<and> i < 16"
    "bit (0xFFFFC000 :: nat) i \<longleftrightarrow> 14 \<le> i" "bit (0xFF :: nat) i \<longleftrightarrow> i < 8" "bit (0xC000 :: nat) i \<longleftrightarrow> i = 14 \<or> i = 15" "bit (0xFFFFFFFF :: nat) i"
proof -
  have m: "(0x400 :: nat) = 2 ^ 10" "(0x40 :: nat) = 2 ^ 6" "(0xF200 :: nat) = Bit_Operations.or (2 ^ 9) (push_bit 12 (mask 4))" "(0xFFFFC000 :: nat) = push_bit 14 (mask 18)"
    "(0xFF :: nat) = mask 8" "(0xC000 :: nat) = push_bit 14 (mask 2)" "(0xFFFFFFFF :: nat) = mask 32" by (simp_all add: mask_eq_exp_minus_1 push_bit_eq_mult)
  show "bit (0x400 :: nat) i \<longleftrightarrow> i = 10" "bit (0x40 :: nat) i \<longleftrightarrow> i = 6" "bit (0xF200 :: nat) i \<longleftrightarrow> i = 9 \<or> 12 \<le> i \<and> i < 16"
    "bit (0xFFFFC000 :: nat) i \<longleftrightarrow> 14 \<le> i" "bit (0xFF :: nat) i \<longleftrightarrow> i < 8" "bit (0xC000 :: nat) i \<longleftrightarrow> i = 14 \<or> i = 15" "bit (0xFFFFFFFF :: nat) i"
    unfolding m bit_or_iff bit_push_bit_iff bit_mask_iff bit_exp_iff using assms by auto
qed

lemma write_mask_bits:
  assumes "bit (write_mask addr) i" "cfg_access addr n" "i < 8 * n"
  shows "cfg_writable (8 * addr + i)"
proof -
  have n: "n \<le> 4" "i < 32" using assms(2,3) by (auto simp: cfg_access_def)
  consider "addr = 0x04" | "addr = 0x06" | "addr = 0x0f" | "addr = 0x10" | "addr = 0x3c" | "0x40 \<le> addr" "addr < 0x50" | "addr = 0x52" | "0x60 \<le> addr"
    using assms(1) by (force simp: write_mask_def pci_offsets split: if_splits)
  then show ?thesis
  proof cases
    case 6
    then have "addr + n \<le> 0x50" using assms(2) by (auto simp: cfg_access_def)
    then show ?thesis using 6 assms(3) by (auto simp: cfg_writable_def)
  qed (use assms n in \<open>auto simp: write_mask_def pci_offsets cfg_writable_def mask_bits [OF n(2)] cfg_access_def\<close>)
qed

text \<open>The value a masked write stores.\<close>

lemma masked_bit:
  assumes "i < 32"
  shows "bit (Bit_Operations.or (Bit_Operations.and val (Bit_Operations.xor m 0xFFFFFFFF)) (Bit_Operations.and new m)) i = (if bit m i then bit new i else bit (val :: nat) i)"
  using mask_bits(7) [OF assms] by (auto simp: bit_or_iff bit_and_iff bit_xor_iff)

lemma pci_write_bits:
  assumes "cfg_access addr n"
  shows "\<exists>d'. nvmev_pci_write addr n new d = Some d' \<and> (\<forall>k. pd_cfg d' k = (if 8 * addr \<le> k \<and> k < 8 * (addr + n)
     then (if bit (write_mask addr) (k - 8 * addr) then bit new (k - 8 * addr) else pd_cfg d k)
     else if k = 51 \<and> addr = 4 \<and> \<not> bit new 10 \<and> bit (get_bits (8 * addr) (8 * n) (pd_cfg d)) 10 then False else pd_cfg d k))"
proof -
  let ?val = "get_bits (8 * addr) (8 * n) (pd_cfg d)" and ?m = "write_mask addr"
  let ?v = "Bit_Operations.or (Bit_Operations.and ?val (Bit_Operations.xor ?m 0xFFFFFFFF)) (Bit_Operations.and new ?m)"
  have n: "n \<le> 4" "addr + n \<le> PAGE_SIZE" using assms by (auto simp: cfg_access_def)
  have v: "bit ?v (k - 8 * addr) = (if bit ?m (k - 8 * addr) then bit new (k - 8 * addr) else pd_cfg d k)" if "8 * addr \<le> k" "k < 8 * (addr + n)" for k
    using masked_bit [of "k - 8 * addr" ?val ?m new] that n(1) by (simp add: bit_get_bits) linarith
  define c1 where "c1 = (if addr = 4 \<and> bit ?val 10 \<noteq> bit new 10 \<and> \<not> bit new 10 then put_bits 51 1 0 (pd_cfg d) else pd_cfg d)"
  have "\<exists>d'. nvmev_pci_write addr n new d = Some d' \<and> pd_cfg d' = put_bits (8 * addr) (8 * n) ?v c1"
  proof -
    define d1 where "d1 = (if addr = 0x04 \<and> (bit ?val 10 \<noteq> bit new 10)
       then d\<lparr>pd_intx_disabled := bit new 10, pd_cfg := (if bit new 10 then pd_cfg d else put_bits (8 * 0x06 + 3) 1 0 (pd_cfg d))\<rparr> else d)"
    define d2 where "d2 = (if addr = OFFS_PCI_MSIX_CAP + 2 \<and> pd_msix_enabled d1 \<noteq> None \<and> (bit ?val 15 \<noteq> bit new 15)
       then d1\<lparr>pd_msix_enabled := Some (bit new 15)\<rparr> else d1)"
    have "nvmev_pci_write addr n new d = Some (d2\<lparr>pd_cfg := put_bits (8 * addr) (8 * n) ?v (pd_cfg d2)\<rparr>)"
      unfolding nvmev_pci_write_def Let_def d2_def d1_def using n by simp
    moreover have "pd_cfg d2 = pd_cfg d1" by (simp add: d2_def)
    moreover have "pd_cfg d1 = c1" by (auto simp: d1_def c1_def)
    ultimately show ?thesis by simp
  qed
  then obtain d' where d': "nvmev_pci_write addr n new d = Some d'" "pd_cfg d' = put_bits (8 * addr) (8 * n) ?v c1" by blast
  have "pd_cfg d' k = (if 8 * addr \<le> k \<and> k < 8 * (addr + n) then (if bit ?m (k - 8 * addr) then bit new (k - 8 * addr) else pd_cfg d k)
     else if k = 51 \<and> addr = 4 \<and> \<not> bit new 10 \<and> bit ?val 10 then False else pd_cfg d k)" for k
    unfolding d'(2) using v [of k] by (auto simp: put_bits_def c1_def)
  then show ?thesis using d'(1) by blast
qed

text \<open>What no write of the host changes.\<close>

definition cfg_kept :: "pci_device \<Rightarrow> pci_device \<Rightarrow> bool" where
  "cfg_kept d d' \<longleftrightarrow> (\<forall>k. \<not> cfg_writable k \<longrightarrow> pd_cfg d' k = pd_cfg d k)"

definition cfg_host :: "pci_device \<Rightarrow> nat \<times> nat \<times> nat \<Rightarrow> bool" where
  "cfg_host d r = (case r of (addr, n, new) \<Rightarrow> cfg_access addr n)"

definition cfg_serve :: "pci_device \<Rightarrow> nat \<times> nat \<times> nat \<Rightarrow> pci_device option" where
  "cfg_serve d r = (case r of (addr, n, new) \<Rightarrow> nvmev_pci_write addr n new d)"

interpretation pci: device_contract "\<lambda>_. True" cfg_host cfg_serve cfg_kept
proof
  fix d r assume "cfg_host d r"
  then obtain addr n new where r: "r = (addr, n, new)" and a: "cfg_access addr n" by (auto simp: cfg_host_def)
  obtain d' where d': "nvmev_pci_write addr n new d = Some d'" and k: "\<And>k. pd_cfg d' k = (if 8 * addr \<le> k \<and> k < 8 * (addr + n)
     then (if bit (write_mask addr) (k - 8 * addr) then bit new (k - 8 * addr) else pd_cfg d k)
     else if k = 51 \<and> addr = 4 \<and> \<not> bit new 10 \<and> bit (get_bits (8 * addr) (8 * n) (pd_cfg d)) 10 then False else pd_cfg d k)"
    using pci_write_bits [OF a] by blast
  have "pd_cfg d' k = pd_cfg d k" if w: "\<not> cfg_writable k" for k
  proof (cases "8 * addr \<le> k \<and> k < 8 * (addr + n)")
    case True
    then have "k - 8 * addr < 8 * n" "8 * addr + (k - 8 * addr) = k" by auto
    then have "\<not> bit (write_mask addr) (k - 8 * addr)" using write_mask_bits [OF _ a, of "k - 8 * addr"] w by metis
    then show ?thesis using True by (simp add: k)
  next
    case False
    have "cfg_writable 51" by (simp add: cfg_writable_def)
    then have "k \<noteq> 51" using w by blast
    then show ?thesis unfolding k using False by (simp only: if_False simp_thms)
  qed
  then show "\<exists>d'. cfg_serve d r = Some d' \<and> True \<and> cfg_kept d d'" using d' by (simp add: cfg_serve_def r cfg_kept_def)
qed (simp_all add: cfg_kept_def)

text \<open>C33: The configuration space is protected: whatever the host writes, in whatever order, every access of one, two or four aligned bytes is carried out and
  every register without a writable bit, among them the identifiers, the class code and the pointer to the capabilities, reads as before.\<close>

theorem configuration_space_protected:
  assumes "(device_step cfg_host cfg_serve)\<^sup>*\<^sup>* d t" "cfg_access addr n" "\<forall>k. 8 * addr \<le> k \<and> k < 8 * (addr + n) \<longrightarrow> \<not> cfg_writable k"
  shows "nvmev_pci_read 0 addr n t = nvmev_pci_read 0 addr n d \<and> (\<forall>addr' n' new. cfg_access addr' n' \<longrightarrow> (\<exists>u. nvmev_pci_write addr' n' new t = Some u))"
proof -
  have "cfg_kept d t" using pci.reach_inv [OF assms(1)] by simp
  then have "get_bits (8 * addr) (8 * n) (pd_cfg t) = get_bits (8 * addr) (8 * n) (pd_cfg d)"
    using assms(3) by (intro bit_eqI) (auto simp: bit_get_bits cfg_kept_def)
  moreover have "\<exists>u. nvmev_pci_write addr' n' new t = Some u" if "cfg_access addr' n'" for addr' n' new using pci_write_bits [OF that] by blast
  ultimately show ?thesis by (simp add: nvmev_pci_read_def)
qed

theorem configuration_space_protected_witness:
  "\<exists>d t. NVMEV_PCI_INIT 0 (\<lambda>_. False) = Some d \<and> nvmev_pci_write 0 4 0 d = Some t \<and> nvmev_pci_read 0 0 4 t = nvmev_pci_read 0 0 4 d"
proof -
  obtain d where d: "NVMEV_PCI_INIT 0 (\<lambda>_. False) = Some d" using init_space by blast
  have a: "cfg_access 0 4" by (simp add: cfg_access_def PAGE_SIZE_def)
  then obtain t where t: "nvmev_pci_write 0 4 0 d = Some t" using pci_write_bits by blast
  then have "device_step cfg_host cfg_serve d t" using a by (auto simp: device_step_iff cfg_host_def cfg_serve_def intro!: exI [of _ "(0, 4, 0)"])
  then have "(device_step cfg_host cfg_serve)\<^sup>*\<^sup>* d t" by blast
  moreover have "\<forall>k. 8 * 0 \<le> k \<and> k < 8 * (0 + 4) \<longrightarrow> \<not> cfg_writable k" by (auto simp: cfg_writable_def)
  ultimately show ?thesis using configuration_space_protected [OF _ a] d t by blast
qed

text \<open>The window can be sized and moved: the host writes ones to the base address register and reads back that 16 KiB are decoded, and then an address, which
  reads back rounded down to 16 KiB. The table of the 128 interrupt vectors lies behind the registers and the doorbells inside these 16 KiB; the array of pending
  bits that the MSI-X capability announces does not.\<close>

theorem window_sized_and_moved:
  assumes "NVMEV_PCI_INIT base (\<lambda>_. False) = Some d" "addr < 2 ^ 32"
  shows "\<exists>d1 d2. nvmev_pci_write 0x10 4 0xFFFFFFFF d = Some d1 \<and> nvmev_pci_read 0 0x10 4 d1 = Inr (2 ^ 32 - 16384 + 4) \<and>
     nvmev_pci_write 0x10 4 addr d1 = Some d2 \<and> nvmev_pci_read 0 0x10 4 d2 = Inr (addr div 16384 * 16384 + 4) \<and>
     (let table = 8 * get_bits 675 29 (pd_cfg d2); vectors = get_bits 656 11 (pd_cfg d2) + 1; pending = 8 * get_bits 707 29 (pd_cfg d2) in
        vectors = 128 \<and> 2 * PAGE_SIZE \<le> table \<and> table + 16 * vectors \<le> 16384 \<and> 16384 \<le> pending)"
proof -
  have c: "pd_cfg d = cfg_init base" using init_space [of base] assms(1) by auto
  have acc: "cfg_access 0x10 4" by (simp add: cfg_access_def PAGE_SIZE_def)
  have m: "bit (write_mask 0x10) i \<longleftrightarrow> 14 \<le> i" if "i < 32" for i using mask_bits(4) [OF that] by (simp add: write_mask_def pci_offsets)
  obtain d1 where d1: "nvmev_pci_write 0x10 4 0xFFFFFFFF d = Some d1" and k1: "\<And>k. pd_cfg d1 k = (if 128 \<le> k \<and> k < 160 then
      (if bit (write_mask 0x10) (k - 128) then bit (0xFFFFFFFF :: nat) (k - 128) else pd_cfg d k) else pd_cfg d k)" using pci_write_bits [OF acc, of "0xFFFFFFFF" d] by auto
  obtain d2 where d2: "nvmev_pci_write 0x10 4 addr d1 = Some d2" and k2: "\<And>k. pd_cfg d2 k = (if 128 \<le> k \<and> k < 160 then
      (if bit (write_mask 0x10) (k - 128) then bit addr (k - 128) else pd_cfg d1 k) else pd_cfg d1 k)" using pci_write_bits [OF acc, of addr d1] by auto
  have low: "get_bits b w (pd_cfg t) = get_bits b w (pd_cfg d)" if "t = d1 \<or> t = d2" "b + w \<le> 142 \<or> 160 \<le> b" for b w t
  proof -
    have "pd_cfg t k = pd_cfg d k" if k: "k < 142 \<or> 160 \<le> k" for k
    proof -
      have "\<not> (128 \<le> k \<and> k < 160 \<and> bit (write_mask 0x10) (k - 128))" using k m [of "k - 128"] by auto
      then have "pd_cfg d1 k = pd_cfg d k" "pd_cfg d2 k = pd_cfg d1 k" unfolding k1 k2 by (auto simp only: split: if_splits)
      then show ?thesis using \<open>t = d1 \<or> t = d2\<close> by auto
    qed
    then show ?thesis using that(2) by (intro bit_eqI) (auto simp: bit_get_bits)
  qed
  have "get_bits 142 18 (pd_cfg d1) = mask 18" "get_bits 142 18 (pd_cfg d2) = drop_bit 14 (take_bit 32 addr)"
    by (rule bit_eqI, auto simp: bit_get_bits k1 k2 m mask_bits(7) bit_mask_iff bit_drop_bit_eq bit_take_bit_iff)+
  then have high: "get_bits 142 18 (pd_cfg d1) = 2 ^ 18 - 1" "get_bits 142 18 (pd_cfg d2) = addr div 16384"
    using assms(2) by (simp_all add: mask_eq_exp_minus_1 drop_bit_eq_div take_bit_eq_mod)
  have bar: "get_bits 128 32 (pd_cfg d1) = 2 ^ 32 - 16384 + 4" "get_bits 128 32 (pd_cfg d2) = addr div 16384 * 16384 + 4"
    unfolding read_bar0 using cfg_fields(7-9) [of base] by (simp_all add: low high c)
  have "get_bits 675 29 (pd_cfg d2) = 0x400" "get_bits 656 11 (pd_cfg d2) = 127" "get_bits 707 29 (pd_cfg d2) = 0x1000" by (simp_all add: low c cfg_fields)
  then show ?thesis using d1 d2 bar by (simp add: nvmev_pci_read_def PAGE_SIZE_def)
qed

theorem window_sized_and_moved_witness:
  "\<exists>d d1. NVMEV_PCI_INIT 0 (\<lambda>_. False) = Some d \<and> nvmev_pci_write 0x10 4 0xFFFFFFFF d = Some d1 \<and> nvmev_pci_read 0 0x10 4 d1 = Inr 0xFFFFC004"
proof -
  obtain d where d: "NVMEV_PCI_INIT 0 (\<lambda>_. False) = Some d" using init_space by blast
  from window_sized_and_moved [OF d, of 0] show ?thesis using d by auto
qed

end
