(* ===== verification/Procfs.thy ===== *)
theory Procfs
  imports Ctrl
begin

text \<open>
  The files under \<open>/proc/nvmev\<close> (\<open>main.c\<close>): the times and the I/O units of the simple device can be
  changed while it runs, and the counters of the submission queues read and cleared.

  The text a file shows is a string; \<open>sscanf\<close> and \<open>seq_printf\<close> are modelled for the conversions used. The
  buffer of a write is 128 bytes on the stack that are not initialised, so the bytes behind what the
  user wrote are an argument.
\<close>

section \<open>Numbers as text\<close>

definition digit_char :: "nat \<Rightarrow> char" where
  "digit_char n = char_of (48 + n)"

function dec :: "nat \<Rightarrow> string" where
  "dec n = (if n < 10 then [digit_char n] else dec (n div 10) @ [digit_char (n mod 10)])"
  by auto
termination by (relation "measure id") auto

declare dec.simps [simp del]

text \<open>\<open>%2u\<close> and the like: padded with spaces on the left.\<close>

definition pad :: "nat \<Rightarrow> string \<Rightarrow> string" where
  "pad w s = replicate (w - length s) CHR '' '' @ s"

definition is_space :: "char \<Rightarrow> bool" where
  "is_space c \<longleftrightarrow> (let n = of_char c :: nat in n = 32 \<or> 9 \<le> n \<and> n \<le> 13 \<or> n = 160)"

definition is_digit :: "char \<Rightarrow> bool" where
  "is_digit c \<longleftrightarrow> (let n = of_char c :: nat in 48 \<le> n \<and> n \<le> 57)"

definition value_of :: "string \<Rightarrow> nat" where
  "value_of ds = foldl (\<lambda>v d. 10 * v + (of_char d - 48)) 0 ds"

text \<open>One conversion: white space, for \<open>%d\<close> perhaps a sign, and at least one digit; the value is stored in 32 bits.\<close>

definition scan_number :: "bool \<Rightarrow> string \<Rightarrow> (nat \<times> string) option" where
  "scan_number signed s =
     (let s1 = dropWhile is_space s;
          neg = (signed \<and> s1 \<noteq> [] \<and> hd s1 = CHR ''-'');
          s2 = (if neg then tl s1 else s1);
          ds = takeWhile is_digit s2
      in if ds = [] then None
         else Some (if neg then u32_sub 0 (u32 (value_of ds)) else u32 (value_of ds), dropWhile is_digit s2))"

text \<open>The values of as many conversions as succeed.\<close>

fun sscanf :: "bool list \<Rightarrow> string \<Rightarrow> nat list" where
  "sscanf [] s = []"
| "sscanf (f # fs) s = (case scan_number f s of None \<Rightarrow> [] | Some (v, s') \<Rightarrow> v # sscanf fs s')"

section \<open>State\<close>

record proc_state =
  ps_cfg :: io_config
  ps_io_unit_stat :: "nat list"
  ps_nr_sq :: nat
  ps_sqes :: "nvmev_submission_queue option list"
  ps_dbs :: "nat list"
  ps_old_dbs :: "nat list"

section \<open>Reading\<close>

definition get_nr_entries :: "nat \<Rightarrow> nat \<Rightarrow> proc_state \<Rightarrow> nat option" where
  "get_nr_entries dbs_idx queue_size st = do {
     n \<leftarrow> rd (ps_dbs st) dbs_idx;
     o' \<leftarrow> rd (ps_old_dbs st) dbs_idx;
     Some (nat ((if n < o' then int n - int o' + int queue_size else int n - int o') mod 2 ^ 32))
   }"

text \<open>The line of a queue, the counters added to the totals, and the maximum reset.\<close>

definition stat_line :: "nat \<Rightarrow> string \<times> (nat \<times> nat \<times> nat \<times> nat) \<times> proc_state \<Rightarrow> (string \<times> (nat \<times> nat \<times> nat \<times> nat) \<times> proc_state) option" where
  "stat_line i acc = (case acc of (out, (a, b, c, t), st) \<Rightarrow> do {
     p \<leftarrow> rd (ps_sqes st) i;
     (case p of
        None \<Rightarrow> Some acc
      | Some sq \<Rightarrow> do {
          e \<leftarrow> get_nr_entries (i * 2) (sq_queue_size sq) st;
          let s = sq_stat sq;
          Some (out @ pad 2 (dec i) @ '': '' @ pad 2 (dec e) @ '' '' @ pad 4 (dec (nr_in_flight s)) @ '' '' @ pad 4 (dec (max_nr_in_flight s)) @ '' '' @
              pad 4 (dec (nr_dispatch s)) @ '' '' @ pad 4 (dec (nr_dispatched s)) @ '' '' @ dec (total_io s) @ [CHR 0x0A],
            (u32 (a + nr_in_flight s), u32 (b + nr_dispatch s), u32 (c + nr_dispatched s), u64 (t + total_io s)),
            st\<lparr>ps_sqes := (ps_sqes st)[i := Some (sq\<lparr>sq_stat := s\<lparr>max_nr_in_flight := 0\<rparr>\<rparr>)]\<rparr>)
        })
   })"

definition show_times :: "nat \<Rightarrow> nat \<Rightarrow> nat \<Rightarrow> string" where
  "show_times delay time trailing = dec delay @ '' + '' @ dec time @ '' x + '' @ dec trailing"

definition proc_file_read :: "string \<Rightarrow> proc_state \<Rightarrow> (string \<times> proc_state) option" where
  "proc_file_read filename st = (let cfg = ps_cfg st in
     if filename = ''read_times'' then Some (show_times (cfg_read_delay cfg) (cfg_read_time cfg) (cfg_read_trailing cfg), st)
     else if filename = ''write_times'' then Some (show_times (cfg_write_delay cfg) (cfg_write_time cfg) (cfg_write_trailing cfg), st)
     else if filename = ''io_units'' then Some (dec (cfg_nr_io_units cfg) @ '' x '' @ dec (cfg_io_unit_shift cfg), st)
     else if filename = ''stat'' then do {
       (out, (a, b, c, t), st') \<leftarrow> foldM stat_line [1..<Suc (ps_nr_sq st)] ('''', (0, 0, 0, 0), st);
       Some (out @ ''total: '' @ dec a @ '' '' @ dec b @ '' '' @ dec c @ '' '' @ dec t @ [CHR 0x0A], st')
     } else Some ('''', st))"

section \<open>Writing\<close>

text \<open>The string in the buffer: what the user wrote and what the stack held behind it, up to the first zero.\<close>

definition proc_input :: "string \<Rightarrow> string \<Rightarrow> string" where
  "proc_input buf junk = takeWhile (\<lambda>c. c \<noteq> CHR 0x00) (take 128 buf @ junk)"

definition clear_stat :: "nat \<Rightarrow> proc_state \<Rightarrow> proc_state option" where
  "clear_stat i st = do {
     p \<leftarrow> rd (ps_sqes st) i;
     (case p of
        None \<Rightarrow> Some st
      | Some sq \<Rightarrow> Some (st\<lparr>ps_sqes := (ps_sqes st)[i :=
          Some (sq\<lparr>sq_stat := \<lparr>nr_dispatched = 0, nr_dispatch = 0, nr_in_flight = 0, max_nr_in_flight = 0, total_io = 0\<rparr>\<rparr>)]\<rparr>))
   }"

text \<open>The conversions that succeed store their values, the others leave the fields; the state of the units is new and zero when the number was converted.\<close>

definition nth_or :: "nat list \<Rightarrow> nat \<Rightarrow> nat \<Rightarrow> nat" where
  "nth_or vs i old = (if i < length vs then vs ! i else old)"

definition proc_file_write :: "string \<Rightarrow> string \<Rightarrow> string \<Rightarrow> proc_state \<Rightarrow> proc_state option" where
  "proc_file_write filename buf junk st = (let cfg = ps_cfg st; input = proc_input buf junk in
     if filename = ''read_times'' then
       (let vs = sscanf [False, False, False] input
        in Some (st\<lparr>ps_cfg := cfg\<lparr>cfg_read_delay := nth_or vs 0 (cfg_read_delay cfg), cfg_read_time := nth_or vs 1 (cfg_read_time cfg),
             cfg_read_trailing := nth_or vs 2 (cfg_read_trailing cfg)\<rparr>\<rparr>))
     else if filename = ''write_times'' then
       (let vs = sscanf [False, False, False] input
        in Some (st\<lparr>ps_cfg := cfg\<lparr>cfg_write_delay := nth_or vs 0 (cfg_write_delay cfg), cfg_write_time := nth_or vs 1 (cfg_write_time cfg),
             cfg_write_trailing := nth_or vs 2 (cfg_write_trailing cfg)\<rparr>\<rparr>))
     else if filename = ''io_units'' then
       (let vs = sscanf [True, True] input
        in if length vs < 1 then Some st
           else Some (st\<lparr>ps_cfg := cfg\<lparr>cfg_nr_io_units := nth_or vs 0 (cfg_nr_io_units cfg), cfg_io_unit_shift := nth_or vs 1 (cfg_io_unit_shift cfg)\<rparr>,
             ps_io_unit_stat := replicate (nth_or vs 0 (cfg_nr_io_units cfg)) 0\<rparr>))
     else if filename = ''stat'' then foldM clear_stat [1..<Suc (ps_nr_sq st)] st
     else Some st)"

section \<open>Printing and reading numbers\<close>

lemma digit_char: "n < 10 \<Longrightarrow> of_char (digit_char n) = 48 + n"
  by (simp add: digit_char_def)

lemma digit_is_digit: "n < 10 \<Longrightarrow> is_digit (digit_char n)"
  by (simp add: is_digit_def digit_char Let_def)

lemma dec_digits: "(\<forall>c\<in>set (dec n). is_digit c) \<and> dec n \<noteq> []"
proof (induction n rule: dec.induct)
  case (1 n)
  show ?case
  proof (cases "n < 10")
    case True
    then show ?thesis by (simp add: dec.simps [of n] digit_is_digit)
  next
    case False
    then show ?thesis using 1 by (simp add: dec.simps [of n] digit_is_digit)
  qed
qed

lemma value_of_snoc: "value_of (ds @ [d]) = 10 * value_of ds + (of_char d - 48)"
  by (simp add: value_of_def)

lemma value_of_dec: "value_of (dec n) = n"
proof (induction n rule: dec.induct)
  case (1 n)
  show ?case
  proof (cases "n < 10")
    case True
    then show ?thesis by (simp add: dec.simps [of n] value_of_def digit_char)
  next
    case False
    then show ?thesis using 1 by (simp add: dec.simps [of n] value_of_snoc digit_char)
  qed
qed

lemma digit_not_space: "is_digit c \<Longrightarrow> \<not> is_space c"
  by (auto simp: is_digit_def is_space_def Let_def)

lemma digit_not_minus: "is_digit c \<Longrightarrow> c \<noteq> CHR ''-''"
  by (auto simp: is_digit_def Let_def)

lemma scan_dec:
  assumes "rest = [] \<or> \<not> is_digit (hd rest)" "\<forall>c\<in>set sp. is_space c" "n < 2 ^ 32"
  shows "scan_number f (sp @ dec n @ rest) = Some (n, rest)"
proof -
  obtain d ds where d: "dec n = d # ds" "is_digit d" using dec_digits [of n] by (cases "dec n") auto
  have s: "dropWhile is_space (sp @ dec n @ rest) = dec n @ rest" using assms(2) d digit_not_space by (simp add: dropWhile_append)
  have nr: "takeWhile is_digit rest = []" "dropWhile is_digit rest = rest" using assms(1) by (cases rest; simp)+
  have "takeWhile is_digit (dec n @ rest) = dec n" "dropWhile is_digit (dec n @ rest) = rest" using dec_digits [of n] nr by (simp_all add: takeWhile_append dropWhile_append)
  moreover have "hd (dec n @ rest) \<noteq> CHR ''-''" using d digit_not_minus by simp
  ultimately show ?thesis using assms(3) dec_digits [of n] s by (simp add: scan_number_def value_of_dec u32_def Let_def)
qed

lemma sscanf3:
  assumes "a < 2 ^ 32" "b < 2 ^ 32" "c < 2 ^ 32" "rest = [] \<or> \<not> is_digit (hd rest)"
  shows "sscanf [f, g, h] (dec a @ '' '' @ dec b @ '' '' @ dec c @ rest) = [a, b, c]"
proof -
  have sp: "\<forall>x\<in>set '' ''. is_space x" "\<not> is_digit (hd ('' '' @ s))" for s by (simp_all add: is_space_def is_digit_def)
  have "scan_number f ([] @ dec a @ '' '' @ dec b @ '' '' @ dec c @ rest) = Some (a, '' '' @ dec b @ '' '' @ dec c @ rest)" by (rule scan_dec) (use sp assms in auto)
  moreover have "scan_number g ('' '' @ dec b @ '' '' @ dec c @ rest) = Some (b, '' '' @ dec c @ rest)" by (rule scan_dec) (use sp assms in auto)
  moreover have "scan_number h ('' '' @ dec c @ rest) = Some (c, rest)" by (rule scan_dec) (use sp assms in auto)
  ultimately show ?thesis by simp
qed

section \<open>The files\<close>

text \<open>Text without zeros that fits the buffer and ends in a newline is read as it was written.\<close>

lemma dec_no_zero: "\<forall>c\<in>set (dec n). c \<noteq> CHR 0x00"
  using dec_digits [of n] by (auto simp: is_digit_def)

lemma proc_input_line:
  assumes "length s < 128" "\<forall>c\<in>set s. c \<noteq> CHR 0x00"
  shows "\<exists>junk'. proc_input (s @ [CHR 0x0A]) junk = s @ [CHR 0x0A] @ junk'"
proof -
  have "take 128 (s @ [CHR 0x0A]) = s @ [CHR 0x0A]" using assms(1) by simp
  moreover have "takeWhile (\<lambda>c. c \<noteq> CHR 0x00) ((s @ [CHR 0x0A]) @ junk) = (s @ [CHR 0x0A]) @ takeWhile (\<lambda>c. c \<noteq> CHR 0x00) junk"
    by (rule takeWhile_append2) (use assms(2) in auto)
  ultimately show ?thesis by (simp add: proc_input_def)
qed

lemma newline_ends: "rest = [CHR 0x0A] @ junk \<Longrightarrow> rest = [] \<or> \<not> is_digit (hd rest)"
  by (simp add: is_digit_def)

text \<open>The times round trip: three numbers written to \<open>read_times\<close> or \<open>write_times\<close>, separated by spaces and ended by a newline, become the delay, the
  time and the trailing time of the device, whatever the stack held behind them; the file then shows them, and the other times and the I/O units are as before.\<close>

theorem times_round_trip:
  assumes n: "a < 2 ^ 32" "b < 2 ^ 32" "c < 2 ^ 32" and l: "length (dec a @ '' '' @ dec b @ '' '' @ dec c) < 128" and f: "filename = ''read_times'' \<or> filename = ''write_times''"
  shows "\<exists>st'. proc_file_write filename (dec a @ '' '' @ dec b @ '' '' @ dec c @ [CHR 0x0A]) junk st = Some st' \<and>
     proc_file_read filename st' = Some (dec a @ '' + '' @ dec b @ '' x + '' @ dec c, st') \<and>
     (\<forall>g. g \<in> {''read_times'', ''write_times'', ''io_units''} - {filename} \<longrightarrow> map_option fst (proc_file_read g st') = map_option fst (proc_file_read g st)) \<and>
     op_times (ps_cfg st') (if filename = ''read_times'' then nvme_cmd_read else nvme_cmd_write) = (a, b, c)"
proof -
  obtain junk' where i: "proc_input ((dec a @ '' '' @ dec b @ '' '' @ dec c) @ [CHR 0x0A]) junk = (dec a @ '' '' @ dec b @ '' '' @ dec c) @ [CHR 0x0A] @ junk'"
    using proc_input_line [OF l, of junk] dec_no_zero by fastforce
  have s: "sscanf [False, False, False] (proc_input (dec a @ '' '' @ dec b @ '' '' @ dec c @ [CHR 0x0A]) junk) = [a, b, c]"
    using sscanf3 [OF n newline_ends [OF refl], of False False False junk'] i by simp
  show ?thesis using f s by (auto simp: proc_file_write_def proc_file_read_def nth_or_def show_times_def op_times_def nvme_cmd_read_def nvme_cmd_write_def Let_def)
qed

definition demo_proc :: proc_state where
  "demo_proc = \<lparr>ps_cfg = \<lparr>cfg_nr_io_units = 8, cfg_io_unit_shift = 12, cfg_read_delay = 1, cfg_read_time = 1, cfg_read_trailing = 0, cfg_write_delay = 1, cfg_write_time = 1,
     cfg_write_trailing = 0\<rparr>, ps_io_unit_stat = replicate 8 0, ps_nr_sq = 0, ps_sqes = [], ps_dbs = [], ps_old_dbs = []\<rparr>"

lemma dec_values: "dec 0 = ''0''" "dec 12 = ''12''" "dec 7 = ''7''" "dec 300 = ''300''"
  by (simp_all add: dec.simps digit_char_def char_of_def bit_iff_odd)

theorem times_round_trip_witness:
  "\<exists>st'. proc_file_write ''read_times'' (''12 300 7'' @ [CHR 0x0A]) ''99'' demo_proc = Some st' \<and> proc_file_read ''read_times'' st' = Some (''12 + 300 x + 7'', st')"
proof -
  have l: "length (dec 12 @ '' '' @ dec 300 @ '' '' @ dec 7) < 128" by (simp add: dec_values)
  from times_round_trip [OF _ _ _ l, of "''read_times''" "''99''" demo_proc] show ?thesis by (auto simp: dec_values)
qed

text \<open>The units can be changed while the device runs: two numbers written to \<open>io_units\<close> become the number and the size of the units, all of them free.
  Unlike the parameters of the module they are not checked: after 0 units are written, the next read or write on the simple device divides by zero.\<close>

theorem io_units_unchecked:
  assumes n: "nr < 2 ^ 32" "sft < 2 ^ 32" and l: "length (dec nr @ '' '' @ dec sft) < 128"
  shows "\<exists>st'. proc_file_write ''io_units'' (dec nr @ '' '' @ dec sft @ [CHR 0x0A]) junk st = Some st' \<and>
     ps_cfg st' = (ps_cfg st)\<lparr>cfg_nr_io_units := nr, cfg_io_unit_shift := sft\<rparr> \<and> ps_io_unit_stat st' = replicate nr 0 \<and>
     (nr = 0 \<longrightarrow> (\<forall>now ns c ret. rw_opcode c = nvme_cmd_read \<or> rw_opcode c = nvme_cmd_write \<longrightarrow>
        simple_proc_nvme_io_cmd (ps_cfg st') now ns c ret (ps_io_unit_stat st') = None))"
proof -
  obtain junk' where i: "proc_input ((dec nr @ '' '' @ dec sft) @ [CHR 0x0A]) junk = (dec nr @ '' '' @ dec sft) @ [CHR 0x0A] @ junk'"
    using proc_input_line [OF l, of junk] dec_no_zero by fastforce
  have sp: "\<forall>x\<in>set '' ''. is_space x" "'' '' @ s = [] \<or> \<not> is_digit (hd ('' '' @ s))" for s by (simp_all add: is_space_def is_digit_def)
  have "scan_number True ([] @ dec nr @ '' '' @ dec sft @ [CHR 0x0A] @ junk') = Some (nr, '' '' @ dec sft @ [CHR 0x0A] @ junk')"
    by (rule scan_dec [OF sp(2)]) (use n in auto)
  moreover have "scan_number True ('' '' @ dec sft @ [CHR 0x0A] @ junk') = Some (sft, [CHR 0x0A] @ junk')"
    by (rule scan_dec [OF newline_ends [OF refl] sp(1) n(2)])
  ultimately have "sscanf [True, True] (proc_input (dec nr @ '' '' @ dec sft @ [CHR 0x0A]) junk) = [nr, sft]" using i by simp
  then have w: "proc_file_write ''io_units'' (dec nr @ '' '' @ dec sft @ [CHR 0x0A]) junk st =
      Some (st\<lparr>ps_cfg := (ps_cfg st)\<lparr>cfg_nr_io_units := nr, cfg_io_unit_shift := sft\<rparr>, ps_io_unit_stat := replicate nr 0\<rparr>)"
    by (simp add: proc_file_write_def nth_or_def Let_def)
  have "simple_proc_nvme_io_cmd cfg now ns c ret stat = None" if "cfg_nr_io_units cfg = 0" "rw_opcode c = nvme_cmd_read \<or> rw_opcode c = nvme_cmd_write" for cfg now ns c ret stat
    using that by (auto simp: simple_proc_nvme_io_cmd_def schedule_io_units_def schedule_units_def NVMEV_ASSERT_def split: prod.splits)
  then show ?thesis using w by simp
qed

theorem io_units_unchecked_witness:
  "\<exists>st'. proc_file_write ''io_units'' (''0 12'' @ [CHR 0x0A]) [] demo_proc = Some st' \<and> cfg_nr_io_units (ps_cfg st') = 0 \<and>
     simple_proc_nvme_io_cmd (ps_cfg st') 0 (simple_init_namespace 0 1048576) \<lparr>rw_opcode = nvme_cmd_read, rw_nsid = 1, rw_slba = 0, rw_length = 0, rw_control = 0, rw_dsmgmt = 0\<rparr>
       \<lparr>ret_status = 0, ret_nsecs_target = 0, ret_result = 0\<rparr> (ps_io_unit_stat st') = None"
proof -
  have l: "length (dec 0 @ '' '' @ dec 12) < 128" by (simp add: dec_values)
  from io_units_unchecked [OF _ _ l, of "[]" demo_proc] show ?thesis by (auto simp: dec_values)
qed

end
