(* ===== verification/Spec2Isabelle.thy ===== *)
theory Spec2Isabelle
  imports Fdp_Props Zns_Props Io_Props Kv_Props Conv_Props Admin_Props Setup_Props Dispatch_Props Pci_Props Procfs
begin

text \<open>
  NVMeVirt with Flexible Data Placement: a verification development.

  NVMeVirt is a kernel module that emulates NVMe devices in memory. A dispatcher takes commands
  from the submission queues, the handler of the namespace (\<open>proc_io_cmd\<close>) decides when each one
  completes and what it does to the flash translation layer, and worker threads copy the data and
  post the completions. The development models the handlers, what a command does to the state of
  the emulated device and at what time it completes, the queues between the dispatcher, the
  workers and the host, and the controller around them: the admin queue, the registers and
  doorbells, the PCI configuration space, the parameters of the module and its files under \<open>/proc\<close>.

  \<^bold>\<open>Parts and theories.\<close>

  \<^item> \<open>Nvmev_Base\<close>: the failure monad, wrap-around arithmetic and the macros of \<open>nvmev.h\<close>. A value
    of type \<open>'a option\<close> is \<open>None\<close> where the code would stop the machine: a failed
    \<open>NVMEV_ASSERT\<close>, an access outside an array, a NULL dereference, a division by zero, a signed
    overflow. \<open>u32\<close> and \<open>u64\<close> write the wrap-around of unsigned arithmetic out.
    \<open>Bytes\<close>: little-endian fields and tables of structures in pages of bytes (locale
    \<open>record_table\<close>). \<open>Nvme_Cmd\<close>: the parts of commands, requests and results that are read, and
    the contract of a command handler (locale \<open>device_contract\<close>).
  \<^item> \<open>Pqueue\<close>: \<open>pqueue/pqueue.c\<close>, a binary heap over callbacks, with the callbacks' laws as the
    locale \<open>pqueue_callbacks\<close>.
  \<^item> \<open>Ssd_Params\<close>: \<open>ssd_config.h\<close>, \<open>ssd_init_params\<close> and \<open>struct ppa\<close>. \<open>Channel_Model\<close>:
    \<open>channel_model.c\<close>, the ring of bandwidth credits. \<open>Ssd\<close>: \<open>ssd.c\<close>, the NAND tree, write buffer,
    PCIe and NAND timing. \<open>Nand_Timing\<close>: the times of a NAND command, its transfers in pieces.
  \<^item> The FDP device (\<open>fdp_ftl.c\<close>, \<open>nvme_fdp.h\<close>): \<open>Fdp_Ctx\<close> (counters, handles, events, log pages,
    features), \<open>Fdp_Ftl\<close> (mapping, lines, write pointers, page states, garbage collection,
    initialisation), \<open>Fdp_Cmd\<close> (read, write, flush, dispatcher). Their proofs: \<open>Fdp_Inv\<close> (the
    invariant), \<open>Fdp_Pages\<close>, \<open>Fdp_Advance\<close>, \<open>Fdp_Write\<close> (the page write), \<open>Fdp_Gc\<close>, \<open>Fdp_Collect\<close>,
    \<open>Fdp_Victim\<close>, \<open>Fdp_Dogc\<close> (garbage collection, inside out), \<open>Fdp_Init\<close>, \<open>Fdp_Run\<close> (free space
    never runs out), \<open>Fdp_Device\<close> (the commands), \<open>Fdp_Example\<close> and \<open>Fdp_Props\<close>.
  \<^item> The conventional device (\<open>conv_ftl.c\<close>, \<open>conv_ftl.h\<close>), the ancestor of the FDP device: \<open>Conv_Ftl\<close>
    (the layer), \<open>Conv_Cmd\<close> (the commands). Their proofs: \<open>Conv_Sim\<close> (related computations, the victim
    queue), \<open>Conv_Equiv\<close> (one simulation lemma per function), \<open>Conv_Props\<close> (histories of commands).
  \<^item> The zoned device (\<open>zns_ftl.c\<close>, \<open>zns_ftl.h\<close>, \<open>zns_mgmt_send.c\<close>, \<open>zns_mgmt_recv.c\<close>,
    \<open>zns_read_write.c\<close>, \<open>nvme_zns.h\<close>): \<open>Zns_Ftl\<close> (descriptors, resources, addresses,
    initialisation), \<open>Zns_Mgmt\<close> (zone actions and the report), \<open>Zns_Rw\<close> (writes, appends, reads,
    dispatcher). Their proofs: \<open>Zns_Inv\<close>, \<open>Zns_Write\<close>, \<open>Zns_Device\<close>, \<open>Zns_Init\<close>, \<open>Zns_Props\<close>.
  \<^item> The simple device (\<open>simple_ftl.c\<close>): \<open>Simple_Ftl\<close>, with the scheduling of I/O units that the
    key-value device uses too.
  \<^item> The key-value device (\<open>kv_ftl.c\<close>, \<open>kv_ftl.h\<close>, \<open>nvme_kv.h\<close>): \<open>Kv_Alloc\<close> (\<open>append_only.c\<close> and
    \<open>bitmap.c\<close> under one contract, the locale \<open>kv_allocator\<close>; the kernel's search for a clear bit is
    the locale \<open>zero_area\<close>), \<open>Kv_Table\<close> (the hash table and its chains), \<open>Kv_Ftl\<close> (the commands,
    batches and iterators). Their proofs: \<open>Kv_Inv\<close> (the table and the storage as a map),
    \<open>Kv_Device\<close> (iterators, the whole device), \<open>Kv_Props\<close>.
  \<^item> The queues (\<open>io.c\<close>): \<open>Io_Queue\<close> (the work queue of a worker), \<open>Io_Worker\<close> (the copy of the
    data, completions, the worker's loop, the doorbells). Their proofs: \<open>Chains\<close>, \<open>Io_Sorted\<close> and \<open>Io_Reclaim\<close>
    (the chained array as two lists), \<open>Io_Copy\<close> (the page lists), \<open>Io_Pass\<close> (one iteration of the
    worker, and the worker as a device), \<open>Io_Effect\<close> (an iteration as a list of copies, completions and
    releases), \<open>Io_Dispatch\<close> (doorbells; the contract of the namespace's handler that the dispatcher relies on is the
    locale \<open>namespace_handler\<close>), \<open>Io_Handlers\<close> (the handler of an FDP namespace honours it), \<open>Io_Props\<close>.
  \<^item> The controller. \<open>Admin\<close> (\<open>admin.c\<close>: Identify, queue creation and deletion, log pages, features,
    the completion and the doorbell of the admin queue). \<open>Ctrl\<close> (\<open>nvmev_proc_bars\<close> of \<open>pci.c\<close>, the
    registers; \<open>nvmev_proc_dbs\<close> of \<open>main.c\<close>, the doorbells; the parameters, the layout of the storage
    and the namespaces of \<open>main.c\<close>). Their proofs: \<open>Admin_Inv\<close> (the invariant of the admin queue,
    each command keeps it), \<open>Ctrl_Props\<close> (registers, completions), \<open>Admin_Props\<close> (what the commands
    do), \<open>Setup_Props\<close> (parameters and namespaces). \<open>Dispatch\<close> and \<open>Dispatch_Props\<close>: a pass over the doorbells
    with the handlers of \<open>io.c\<close>; what the pass relies on is the locale \<open>doorbell_handlers\<close>, a consequence
    (\<open>sublocale\<close>) of \<open>namespace_handler\<close>.
  \<^item> \<open>Pci\<close>: the configuration space (\<open>pci.c\<close>, \<open>pci.h\<close>) as bits at addresses, its structures as lists
    of fields; \<open>Pci_Props\<close>. \<open>Procfs\<close>: the files under \<open>/proc/nvmev\<close> (\<open>main.c\<close>), with the number
    formats they use.

  \<^bold>\<open>How the model corresponds to the code.\<close>

  \<^item> A structure is a record, an enumeration a datatype, and a function keeps its name (without
    leading underscores; \<open>__zns_write\<close> is \<open>zns_write_zone\<close>). State that the code reaches
    through pointers is passed and returned. A line of the FDP layer is its number; the lists of
    lines are lists of numbers; the victim queue holds numbers and the heap's callbacks read the
    array of lines.
  \<^item> The clock is an argument: \<open>clk k\<close> is the value of the \<open>k\<close>-th reading, and the shared state
    counts the readings, so every theorem holds for every clock.
  \<^item> The PCIe model and the write buffer, which all partitions share, are in \<open>ssd_shared\<close>. The
    internal operations that the code hands to the worker threads are recorded in a list.
  \<^item> In the queues, an iteration of a worker and a step of the dispatcher are atomic, where the code runs them
    concurrently; the handler of a namespace is a parameter, which \<open>Io_Handlers\<close> instantiates with that of the FDP device,
    and so is the kernel's memory map.
  \<^item> \<open>C int\<close> computations that would overflow are \<open>None\<close> (\<open>c_int\<close>); unsigned ones wrap around.
  \<^item> Memory of unspecified content (a fresh report buffer, an uninitialised status) is an argument.

  \<^bold>\<open>What is shown.\<close>

  \<^item> Both devices honour the handler's contract: from the shipped configurations, after any
    sequence of admissible requests, every further one is answered and the invariant holds
    (\<open>device_always_answers\<close>, \<open>zoned_device_always_answers\<close>). For the FDP device the host uses fewer
    logical pages per partition than 110 of the 128 lines hold: nine lines are open at write
    pointers, the collector needs nine more, so a victim with an invalid page always exists. For
    the zoned device the namespace is below 2 TiB, where 32-bit products of zone numbers would wrap, and the releases of
    buffer space by the workers are steps beside the requests; on the FDP device they are not compiled.
  \<^item> What each command does: the pages an FDP write maps, its accounting and its errors; the
    status and the effect of a zoned write; appends; reads; flushes; zone management as a
    refinement of a state machine; the zone report and the log pages as bytes the host decodes.
  \<^item> Garbage collection frees a line with the fewest valid pages and moves the others' data; the
    mapping is injective and the lines are partitioned in every reachable state.
  \<^item> The conventional device is the FDP device without placement: on every history of commands it
    gives the same answers and reaches the same state, handles, statistics and events forgotten.
  \<^item> The bandwidth model serves every request within a bound and conserves credits. The time a NAND command returns and
    the time until which its die is busy are those of its latency and its transfers.
  \<^item> What the code does where it is not guarded: a refused zoned write loses buffer space, and a
    random write area on a configuration without one divides by zero.
  \<^item> The key-value device is a map from keys to values: a store updates it at one key, a retrieve
    reads it back, iterators enumerate it, and no chain of the hash table is ever cyclic, so that
    every admissible command returns. A delete hides the rest of its chain. The keys that are
    compared have one length; a store over an existing key must not be longer than the old value.
    The allocators hand out disjoint regions.
  \<^item> The worker's queue is an ordered list of requests: enqueueing inserts, reclaiming drops the
    finished front, an iteration copies the data of every queued command, posts the completion of everything that is due
    and releases its buffer space, and no sequence of these
    operations fails. Writes and reads transfer the bytes that the page lists name, completions carry
    the phase tag of their lap. A tail doorbell runs the handler over the commands between the two tails in order, once each, up to
    the first one it refuses, and hands the worker exactly the tasks of the accepted ones.
  \<^item> The controller: once the host has enabled it the admin queue is in its invariant, the changed
    registers are served one a pass, every admissible admin command (\<open>admin_host\<close>, which bounds the lengths of the SMART and the
    command effects log) keeps the invariant, and each but
    Abort is answered by one completion with the phase of its lap; a command stores only its data (\<open>data_len\<close>). A doorbell
    runs the commands between the old and the new tail in order, an Abort without a completion. The Identify Namespace page reads
    back as the namespace's size and formats, and a created I/O queue can be addressed at every entry.
    A pass over the doorbells calls the handlers of \<open>io.c\<close> for exactly the queues that changed, in order, and remembers the
    positions they return.
  \<^item> Loading: the namespaces lie in the storage one after the other without overlap. In the
    configuration space the host finds an NVMe controller and a capability list that ends; a write
    changes only the registers it may. What is written to a file under \<open>/proc\<close> reads back.

  Loops are recursion on data or carry a measure, or are partial functions over \<open>option\<close> whose
  termination is part of the theorems, so there is no fuel: a function of the model that does not
  return \<open>None\<close> has run to its end.

  \<^bold>\<open>Not modelled.\<close> Of \<open>io.c\<close> the copy through the DMA engine is left out, and the branch that hands
  a key-value command to its namespace; \<open>dma.c\<close> only calls that engine. Of \<open>main.c\<close> and \<open>pci.c\<close> the
  registration with the kernel's PCI bus, its threads, interrupts and memory mappings are left out:
  the kernel's answers are arguments where the code decides by them. The functions that free memory
  on removal, debug output and the user-space workloads are left out.
\<close>

section \<open>The device\<close>

text \<open>
  C1: A device of the shipped FDP configuration never fails. From the state
  \<open>fdp_init_namespace\<close> builds for any capacity up to 512 GiB, after any sequence of host
  requests, the dispatcher answers every further request, provided the host uses fewer logical
  pages per partition than fit on 110 of its 128 lines, names at most 65536 blocks and no opcode
  above \<open>0xB3\<close> (those have no name to print). No assertion fires, no NULL free line is
  dereferenced, no loop fails to end, and the invariant holds again.
\<close>

theorem device_always_answers:
  assumes cap: "4 \<le> cap" "cap \<le> GB 512"
    and sp: "ssd_init_params samsung_fdp cap (SSD_PARTITIONS samsung_fdp) = Some sp"
    and init: "fdp_init_namespace (replicate 129 0) samsung_fdp nsid cap cpu ctx = Some (ns0, e0)"
    and n: "n < 110 * pgs_per_line sp" and reach: "(dev_step clk n sp)\<^sup>*\<^sup>* (ns0, e0) (ns, e)"
    and req: "host_req n sp (ns_nr_parts ns) req"
  shows "\<exists>ok ret' ns' e'. fdp_proc_nvme_io_cmd clk req ret ns e = Some (ok, ret', ns', e') \<and> dev_inv n sp (ns', e')"
proof -
  have "dev_inv n sp (ns, e)" by (rule fdp_reachable [OF cap sp init n reach])
  then show ?thesis using dispatch_ok req by blast
qed

theorem device_always_answers_witness:
  "\<exists>sp ns e ok ret' ns' e'. ssd_init_params samsung_fdp (GB 1) (SSD_PARTITIONS samsung_fdp) = Some sp \<and>
     fdp_init_namespace (replicate 129 0) samsung_fdp 1 (GB 1) 0 fdp_ctx_static = Some (ns, e) \<and>
     fdp_proc_nvme_io_cmd sample_clock sample_write blank_result ns e = Some (ok, ret', ns', e') \<and>
     dev_inv (100 * pgs_per_line sp) sp (ns', e')"
proof -
  obtain sp ns e where d: "ssd_init_params samsung_fdp (GB 1) (SSD_PARTITIONS samsung_fdp) = Some sp"
     "fdp_init_namespace (replicate 129 0) samsung_fdp 1 (GB 1) 0 fdp_ctx_static = Some (ns, e)" "ns_nr_parts ns = 4"
     "100 * pgs_per_line sp < 110 * pgs_per_line sp" "7 div 4 < 100 * pgs_per_line sp" using sample_device by blast
  have "cmd_last sp (req_cmd sample_write) div 4 \<le> 7 div 4" by (rule div_le_mono [OF sample_cmds(1)])
  then have h: "host_req (100 * pgs_per_line sp) sp (ns_nr_parts ns) sample_write"
    using d(3,5) sample_cmds(2) by (simp add: host_req_def sample_write_def nvme_consts)
  have "4 \<le> GB 1" "GB 1 \<le> GB 512" by (simp_all add: GB_def)
  from device_always_answers [OF this d(1,2,4) rtranclp.rtrancl_refl h, of sample_clock blank_result] d(1,2) show ?thesis
    by blast
qed

text \<open>The logical pages of the namespace that hold data.\<close>

definition mapped_lpns :: "ssdparams \<Rightarrow> fdp_ns \<Rightarrow> nat set" where
  "mapped_lpns sp ns = {l. l div ns_nr_parts ns < tt_pgs sp \<and> ns_entry ns l \<noteq> unmapped_ppa}"

lemma mapped_lpns_write:
  assumes "ns_nr_parts ns' = ns_nr_parts ns" "hi div ns_nr_parts ns < tt_pgs sp"
    "\<forall>l. l div ns_nr_parts ns < tt_pgs sp \<longrightarrow>
       (ns_entry ns' l = unmapped_ppa \<longleftrightarrow> \<not> (lo \<le> l \<and> l \<le> hi) \<and> ns_entry ns l = unmapped_ppa)"
  shows "mapped_lpns sp ns' = mapped_lpns sp ns \<union> {lo..hi}"
proof -
  have "l div ns_nr_parts ns < tt_pgs sp" if "l \<le> hi" for l
    using div_le_mono [OF that, of "ns_nr_parts ns"] assms(2) by simp
  then show ?thesis using assms(1,3) by (auto simp: mapped_lpns_def)
qed

text \<open>
  C2: A write command is executed whole. On a device in the invariant, with a valid placement
  identifier and room in the write buffer, \<open>fdp_write\<close> succeeds; afterwards exactly the
  command's logical pages have been added to those that hold data, the host counter has grown
  by the command's bytes, the handle named by the identifier and no other has become used, and
  exactly the command's bytes are taken from the write buffer.
\<close>

theorem write_command:
  assumes inv: "dev_inv n sp (ns, e)" and len: "rw_length (req_cmd req) < 65536"
    and rng: "cmd_last sp (req_cmd req) div ns_nr_parts ns < n"
    and pid: "\<not> (cmd_dtype (req_cmd req) = NVME_DIRECTIVE_PLACEMENT \<and> FDP_NR_RUH \<le> cmd_pid (req_cmd req))"
    and room: "cmd_bytes (req_cmd req) \<le> buf_remaining (sh_wbuf (e_sh e))"
  shows "\<exists>t ns' e'. fdp_write clk req ret ns e =
       Some (True, ret\<lparr>ret_nsecs_target := t, ret_status := NVME_SC_SUCCESS\<rparr>, ns', e') \<and> dev_inv n sp (ns', e') \<and>
     mapped_lpns sp ns' = mapped_lpns sp ns \<union> {cmd_first sp (req_cmd req)..cmd_last sp (req_cmd req)} \<and>
     hbmw (e_ctx e') = u64 (hbmw (e_ctx e) + cmd_bytes (req_cmd req)) \<and>
     ruh_attr (e_ctx e') ! cmd_ruh (req_cmd req) \<noteq> NVME_FDP_RUHA_UNUSED \<and>
     (\<forall>i. i \<noteq> cmd_ruh (req_cmd req) \<longrightarrow> ruh_attr (e_ctx e') ! i = ruh_attr (e_ctx e) ! i) \<and>
     buf_remaining (sh_wbuf (e_sh e)) = buf_remaining (sh_wbuf (e_sh e')) + cmd_bytes (req_cmd req)"
proof -
  have i: "ns_run n sp ns" "fits n sp" "n \<le> tt_pgs sp" "dev_ok e" "ns_csi ns = NVME_CSI_NVM"
    using inv by (auto simp: dev_inv_def)
  obtain t ns' e' where w: "fdp_write clk req ret ns e = Some (True, ret\<lparr>ret_nsecs_target := t, ret_status := NVME_SC_SUCCESS\<rparr>, ns', e')"
     "ns_run n sp ns'" "same_ns ns ns'" "dev_ok e'"
     and m: "\<forall>l. l div ns_nr_parts ns < tt_pgs sp \<longrightarrow> (ns_entry ns' l = unmapped_ppa \<longleftrightarrow>
        \<not> (cmd_first sp (req_cmd req) \<le> l \<and> l \<le> cmd_last sp (req_cmd req)) \<and> ns_entry ns l = unmapped_ppa)"
     and r: "hbmw (e_ctx e') = u64 (hbmw (e_ctx e) + cmd_bytes (req_cmd req))"
     "ruh_attr (e_ctx e') ! cmd_ruh (req_cmd req) \<noteq> NVME_FDP_RUHA_UNUSED"
     "\<forall>i. i \<noteq> cmd_ruh (req_cmd req) \<longrightarrow> ruh_attr (e_ctx e') ! i = ruh_attr (e_ctx e) ! i"
     "buf_remaining (sh_wbuf (e_sh e)) = buf_remaining (sh_wbuf (e_sh e')) + cmd_bytes (req_cmd req)"
    using write_ok [OF i(1-4) rng len pid room, of clk ret] by blast
  have "mapped_lpns sp ns' = mapped_lpns sp ns \<union> {cmd_first sp (req_cmd req)..cmd_last sp (req_cmd req)}"
    by (rule mapped_lpns_write [OF _ _ m]) (use w(3) rng i(3) in \<open>auto simp: same_ns_def\<close>)
  moreover have "dev_inv n sp (ns', e')" using w(2-4) i by (simp add: dev_inv_def same_ns_def)
  ultimately show ?thesis using w(1) r by blast
qed

theorem write_command_witness:
  "\<exists>sp ns e t ns' e'. fdp_init_namespace (replicate 129 0) samsung_fdp 1 (GB 1) 0 fdp_ctx_static = Some (ns, e) \<and>
     fdp_write sample_clock sample_write blank_result ns e =
       Some (True, blank_result\<lparr>ret_nsecs_target := t, ret_status := NVME_SC_SUCCESS\<rparr>, ns', e') \<and>
     mapped_lpns sp ns' = mapped_lpns sp ns \<union> {cmd_first sp (req_cmd sample_write)..cmd_last sp (req_cmd sample_write)} \<and>
     ruh_attr (e_ctx e') ! 3 \<noteq> NVME_FDP_RUHA_UNUSED"
proof -
  obtain sp ns e where d: "fdp_init_namespace (replicate 129 0) samsung_fdp 1 (GB 1) 0 fdp_ctx_static = Some (ns, e)"
     "ns_nr_parts ns = 4" "7 div 4 < 100 * pgs_per_line sp" "4096 \<le> buf_remaining (sh_wbuf (e_sh e))"
     "dev_inv (100 * pgs_per_line sp) sp (ns, e)" using sample_device by blast
  have "cmd_last sp (req_cmd sample_write) div ns_nr_parts ns < 100 * pgs_per_line sp"
    using div_le_mono [OF sample_cmds(1) [of sp], of 4] d(2,3) by simp
  from write_command [OF d(5) _ this sample_cmds(4), of sample_clock blank_result] d(1,4) sample_cmds(2,3,5) show ?thesis
    by auto
qed

text \<open>
  C3: A read command changes nothing but timing. On a device in the invariant \<open>fdp_read\<close> of a
  range inside the partitions succeeds, completes no earlier than it started, and leaves the
  mapping, the page states, the counters and the event log as they were; a read beyond the last
  page is refused without any effect.
\<close>

theorem read_command:
  assumes inv: "dev_inv n sp (ns, e)"
  shows "if cmd_last sp (req_cmd req) div ns_nr_parts ns < tt_pgs sp then
      \<exists>t ns' e'. fdp_read clk req ret ns e = Some (True, ret\<lparr>ret_nsecs_target := t, ret_status := NVME_SC_SUCCESS\<rparr>, ns', e') \<and>
        req_nsecs_start req \<le> t \<and> dev_inv n sp (ns', e') \<and> same_maps_ns ns ns' \<and> e_ctx e' = e_ctx e \<and>
        mapped_lpns sp ns' = mapped_lpns sp ns
    else fdp_read clk req ret ns e = Some (False, ret, ns, e)"
proof (cases "cmd_last sp (req_cmd req) div ns_nr_parts ns < tt_pgs sp")
  case True
  have i: "ns_run n sp ns" "fits n sp" "n \<le> tt_pgs sp" "dev_ok e" "ns_csi ns = NVME_CSI_NVM"
    using inv by (auto simp: dev_inv_def)
  obtain t ns' e' where r: "fdp_read clk req ret ns e = Some (True, ret\<lparr>ret_nsecs_target := t, ret_status := NVME_SC_SUCCESS\<rparr>, ns', e')"
     "req_nsecs_start req \<le> t" "ns_run n sp ns'" "same_maps_ns ns ns'" "env_kept e e'" "e_ctx e' = e_ctx e"
    using read_ok(1) [OF i(1) _ True, of e clk ret] i(4) by (auto simp: dev_ok_def)
  have "dev_inv n sp (ns', e')" using r(3-5) i dev_ok_kept [OF i(4) r(5)] by (simp add: dev_inv_def same_maps_ns_def same_ns_def)
  moreover have "ns_entry ns' l = ns_entry ns l" for l
  proof -
    have np: "ns_nr_parts ns' = ns_nr_parts ns" "l mod ns_nr_parts ns < ns_nr_parts ns"
      using r(4) i(1) by (auto simp: same_maps_ns_def same_ns_def ns_run_def)
    then have "ftl_timing (ns_ftls ns ! (l mod ns_nr_parts ns)) (ns_ftls ns' ! (l mod ns_nr_parts ns))"
      using r(4) by (simp add: same_maps_ns_def)
    then show ?thesis using np(1) by (auto simp: ns_entry_def ftl_timing_def)
  qed
  then have "mapped_lpns sp ns' = mapped_lpns sp ns" using r(4) by (simp add: mapped_lpns_def same_maps_ns_def same_ns_def)
  ultimately show ?thesis using True r by auto
next
  case False
  then show ?thesis using read_ok(2) [of n sp ns e req clk ret] inv by (simp add: dev_inv_def dev_ok_def)
qed

theorem read_command_witness:
  "\<exists>sp ns e t ns' e'. fdp_init_namespace (replicate 129 0) samsung_fdp 1 (GB 1) 0 fdp_ctx_static = Some (ns, e) \<and>
     fdp_read sample_clock sample_write blank_result ns e =
       Some (True, blank_result\<lparr>ret_nsecs_target := t, ret_status := NVME_SC_SUCCESS\<rparr>, ns', e') \<and> 1000 \<le> t \<and>
     mapped_lpns sp ns' = mapped_lpns sp ns"
proof -
  obtain sp ns e where d: "fdp_init_namespace (replicate 129 0) samsung_fdp 1 (GB 1) 0 fdp_ctx_static = Some (ns, e)"
     "ns_nr_parts ns = 4" "7 div 4 < tt_pgs sp" "dev_inv (100 * pgs_per_line sp) sp (ns, e)" using sample_device by blast
  have "cmd_last sp (req_cmd sample_write) div ns_nr_parts ns < tt_pgs sp"
    using div_le_mono [OF sample_cmds(1) [of sp], of 4] d(2,3) by simp
  moreover have "req_nsecs_start sample_write = 1000" by (simp add: sample_write_def)
  ultimately show ?thesis using read_command [OF d(4), of sample_write sample_clock blank_result] d(1) by auto
qed

text \<open>
  C4: A write with an invalid placement identifier is rejected: the command completes at its
  start time with the status Invalid Field, and neither the mapping nor the counters nor the
  write buffer nor the handles' usage change.
\<close>

theorem invalid_pid_rejected:
  assumes inv: "dev_inv n sp (ns, e)" and rng: "cmd_last sp (req_cmd req) div ns_nr_parts ns < tt_pgs sp"
    and pid: "cmd_dtype (req_cmd req) = NVME_DIRECTIVE_PLACEMENT" "FDP_NR_RUH \<le> cmd_pid (req_cmd req)"
  shows "\<exists>e'. fdp_write clk req ret ns e = Some (True, ret\<lparr>ret_status := NVME_SC_INVALID_FIELD,
      ret_nsecs_target := req_nsecs_start req\<rparr>, ns, e') \<and> dev_inv n sp (ns, e') \<and>
      hbmw (e_ctx e') = hbmw (e_ctx e) \<and> mbmw (e_ctx e') = mbmw (e_ctx e) \<and>
      ruh_attr (e_ctx e') = ruh_attr (e_ctx e) \<and> sh_wbuf (e_sh e') = sh_wbuf (e_sh e)"
proof -
  have i: "ns_run n sp ns" "dev_ok e" "env_ok e" using inv by (auto simp: dev_inv_def dev_ok_def)
  obtain e' where "fdp_write clk req ret ns e = Some (True, ret\<lparr>ret_status := NVME_SC_INVALID_FIELD,
      ret_nsecs_target := req_nsecs_start req\<rparr>, ns, e')" "env_kept e e'" "mbmw (e_ctx e') = mbmw (e_ctx e)"
    using write_invalid_pid [OF i(1,3) rng pid, of clk ret] by blast
  then show ?thesis using dev_ok_kept [OF i(2)] inv by (auto simp: dev_inv_def env_kept_def)
qed

theorem invalid_pid_rejected_witness:
  "\<exists>ns e e'. fdp_init_namespace (replicate 129 0) samsung_fdp 1 (GB 1) 0 fdp_ctx_static = Some (ns, e) \<and>
     fdp_write sample_clock bad_pid_write blank_result ns e = Some (True, blank_result\<lparr>ret_status := NVME_SC_INVALID_FIELD,
      ret_nsecs_target := req_nsecs_start bad_pid_write\<rparr>, ns, e')"
proof -
  obtain sp ns e where d: "fdp_init_namespace (replicate 129 0) samsung_fdp 1 (GB 1) 0 fdp_ctx_static = Some (ns, e)"
     "ns_nr_parts ns = 4" "7 div 4 < tt_pgs sp" "dev_inv (100 * pgs_per_line sp) sp (ns, e)" using sample_device by blast
  have "cmd_last sp (req_cmd bad_pid_write) div ns_nr_parts ns < tt_pgs sp"
    using div_le_mono [OF sample_cmds(6) [of sp], of 4] d(2,3) by simp
  from invalid_pid_rejected [OF d(4) this sample_cmds(7,8), of sample_clock blank_result] d(1) show ?thesis by blast
qed

end
